(* ===== verification/Prelude.thy ===== *)
theory Prelude
  imports Complex_Main "HOL-Library.AList" "HOL-Library.Char_ord"
    "HOL-Library.List_Lexorder"
begin

section \<open>Shared vocabulary: numbers, strings and collections of the language\<close>

text \<open>
  What the TypeScript modules of \<^verbatim>\<open>tools/herder/web/src\<close> share with the language they are written
  in, modelled once:

  \<^item> numbers: the integer-valued doubles, as \<open>int\<close> with the rounding of the sum written out;
  \<^item> strings: UTF-8 byte sequences (type \<open>string\<close>), so a length is a UTF-8 byte length;
  \<^item> \<open>Map\<close>: an association list with the insertion order of its keys (\<open>AList.update\<close> replaces in
    place or appends, as \<open>Map.prototype.set\<close> does);
  \<^item> \<open>Set\<close>: a list without repetitions, in insertion order.

  The component theories declare their facts into the collections below.
\<close>

named_theorems frame_simps
  \<open>what an operation of a component leaves unchanged\<close>

named_theorems inv_intros
  \<open>an operation of a component keeps its invariant\<close>

subsection \<open>Numbers\<close>

text \<open>
  A number of the model is an integer-valued double. Integers of at most 53 bits are exact; above
  that a sum is rounded to the nearest representable integer, ties to even. The overflow to
  Infinity at \<open>2 ^ 1024\<close> is out of scope.
\<close>

type_synonym num = int

definition round_half_even :: "int \<Rightarrow> int \<Rightarrow> int" where
  "round_half_even a m =
     (let q = a div m; r = a mod m
      in if 2 * r < m \<or> (2 * r = m \<and> even q) then q * m else (q + 1) * m)"

function bit_length :: "int \<Rightarrow> nat" where
  "bit_length n = (if n \<le> 0 then 0 else Suc (bit_length (n div 2)))"
  by pat_completeness auto
termination
  by (relation "measure nat") auto

declare bit_length.simps [simp del]

definition js_round :: "int \<Rightarrow> num" where
  "js_round n =
     (let bits = bit_length \<bar>n\<bar>
      in if bits \<le> 53 then n else sgn n * round_half_even \<bar>n\<bar> (2 ^ (bits - 53)))"

definition js_add :: "num \<Rightarrow> num \<Rightarrow> num" where
  "js_add a b = js_round (a + b)"

definition js_sub :: "num \<Rightarrow> num \<Rightarrow> num" where
  "js_sub a b = js_round (a - b)"

definition max_safe :: num where
  "max_safe = 2 ^ 53 - 1"

definition is_safe_integer :: "num \<Rightarrow> bool" where
  "is_safe_integer n \<longleftrightarrow> \<bar>n\<bar> \<le> max_safe"

lemma bit_length_le: "n < 2 ^ k \<Longrightarrow> bit_length n \<le> k"
proof (induction k arbitrary: n)
  case 0
  then show ?case by (simp add: bit_length.simps [of n])
next
  case (Suc k)
  then have "n div 2 < 2 ^ k" by simp
  then have "bit_length (n div 2) \<le> k" by (rule Suc.IH)
  then show ?case by (simp add: bit_length.simps [of n])
qed

lemma js_round_exact: "\<bar>n\<bar> < 2 ^ 53 \<Longrightarrow> js_round n = n"
  using bit_length_le [of "\<bar>n\<bar>" 53] by (simp add: js_round_def)

lemma js_add_exact [simp]: "\<bar>a + b\<bar> < 2 ^ 53 \<Longrightarrow> js_add a b = a + b"
  by (simp add: js_add_def js_round_exact)

lemma js_sub_exact [simp]: "\<bar>a - b\<bar> < 2 ^ 53 \<Longrightarrow> js_sub a b = a - b"
  by (simp add: js_sub_def js_round_exact)

text \<open>Rounding keeps the sign, so the sign of a difference tells which number is larger.\<close>

lemma bit_length_ge: "0 < n \<Longrightarrow> 2 ^ (bit_length n - 1) \<le> n"
proof (induction n rule: bit_length.induct)
  case (1 n)
  then have n: "bit_length n = Suc (bit_length (n div 2))" by (simp add: bit_length.simps [of n])
  show ?case
  proof (cases "n div 2 \<le> 0")
    case True
    then have "bit_length (n div 2) = 0" by (simp add: bit_length.simps [of "n div 2"])
    then show ?thesis using n 1(2) by simp
  next
    case False
    then obtain k where k: "bit_length (n div 2) = Suc k" by (simp add: bit_length.simps [of "n div 2"])
    have "2 ^ k \<le> n div 2" using 1 False k by simp
    then show ?thesis using n k by simp
  qed
qed

lemma js_round_pos: "0 < n \<Longrightarrow> 0 < js_round n"
proof (cases "bit_length n \<le> 53")
  case False
  assume n: "0 < n"
  let ?m = "2 ^ (bit_length n - 53) :: int"
  have "?m \<le> 2 ^ (bit_length n - 1)" using False by (intro power_increasing) auto
  also have "\<dots> \<le> n" by (rule bit_length_ge [OF n])
  finally have "1 \<le> n div ?m" by (simp add: pos_imp_zdiv_pos_iff int_one_le_iff_zero_less)
  then have "0 < round_half_even n ?m"
    by (auto simp: round_half_even_def Let_def intro!: mult_pos_pos)
  with n False show ?thesis by (simp add: js_round_def)
qed (simp add: js_round_def)

lemma js_round_neg: "js_round (- n) = - js_round n"
  by (simp add: js_round_def Let_def sgn_if)

lemma js_round_sign: "0 < js_round n \<longleftrightarrow> 0 < n"
proof -
  have "js_round n \<le> 0" if "n \<le> 0"
    using that js_round_pos [of "- n"] js_round_neg [of n] by (cases "n = 0") (auto simp: js_round_exact)
  then show ?thesis using js_round_pos [of n] by linarith
qed

lemma js_sub_pos: "0 < js_sub a b \<longleftrightarrow> b < a"
  by (simp add: js_sub_def js_round_sign)

lemma js_sub_neg: "js_sub a b < 0 \<longleftrightarrow> a < b"
  using js_round_sign [of "b - a"] js_round_neg [of "b - a"] by (auto simp: js_sub_def)

text \<open>Beyond the exact range the successor of a number can be the number itself.\<close>

lemma js_add_saturates: "js_add 9007199254740992 1 = 9007199254740992"
  by code_simp

subsection \<open>What an operation asks of its environment\<close>

text \<open>
  The clock and the fresh ids an operation draws: \<open>now\<close> is \<^verbatim>\<open>Date.now()\<close> during the operation and
  \<open>ids n\<close> the result of its \<open>n\<close>-th call of \<^verbatim>\<open>randomID()\<close>.
\<close>

record env =
  now :: num
  ids :: "nat \<Rightarrow> string"

subsection \<open>Strings\<close>

definition js_space :: "char \<Rightarrow> bool" where
  "js_space c \<longleftrightarrow> (of_char c :: nat) \<in> {9, 10, 11, 12, 13, 32}"

text \<open>\<open>String.prototype.trim\<close> (the ASCII white space; the non-ASCII spaces are kept).\<close>

definition js_trim :: "string \<Rightarrow> string" where
  "js_trim s = rev (dropWhile js_space (rev (dropWhile js_space s)))"

fun starts_with :: "string \<Rightarrow> string \<Rightarrow> bool" where
  "starts_with p s = (take (length p) s = p)"

lemma starts_with_append [simp]: "starts_with p (p @ s)"
  by simp

lemma starts_withD: "starts_with p s \<Longrightarrow> \<exists>r. s = p @ r"
  by (metis append_take_drop_id starts_with.simps)

declare starts_with.simps [simp del]

lemma js_trim_Nil [simp]: "js_trim [] = []"
  by (simp add: js_trim_def)

lemma dropWhile_rev_dropWhile:
  "dropWhile P (rev (dropWhile P (rev (dropWhile P xs)))) = rev (dropWhile P (rev (dropWhile P xs)))"
proof (cases "dropWhile P xs")
  case Nil
  then show ?thesis by (simp only: Nil dropWhile.simps rev.simps)
next
  case (Cons y ys)
  then have "\<not> P y"
    by (metis hd_dropWhile list.distinct(1) list.sel(1))
  then have "dropWhile P (rev ys @ [y]) = dropWhile P (rev ys) @ [y]"
    by (auto simp: dropWhile_append)
  with Cons \<open>\<not> P y\<close> show ?thesis by simp
qed

lemma js_trim_idem [simp]: "js_trim (js_trim s) = js_trim s"
  by (simp add: js_trim_def dropWhile_rev_dropWhile)

subsection \<open>Sets in insertion order\<close>

definition set_add :: "'a \<Rightarrow> 'a list \<Rightarrow> 'a list" where
  "set_add x xs = (if x \<in> set xs then xs else xs @ [x])"

definition set_remove :: "'a \<Rightarrow> 'a list \<Rightarrow> 'a list" where
  "set_remove x xs = removeAll x xs"

definition add_all :: "'a list \<Rightarrow> 'a list \<Rightarrow> 'a list" where
  "add_all ys xs = fold set_add ys xs"

definition remove_all :: "'a list \<Rightarrow> 'a list \<Rightarrow> 'a list" where
  "remove_all ys xs = fold set_remove ys xs"

text \<open>\<open>new Set(xs)\<close>, and \<open>[...new Set(xs)]\<close>: the first occurrences, in order.\<close>

definition uniq :: "'a list \<Rightarrow> 'a list" where
  "uniq xs = add_all xs []"

lemma set_set_add [simp]: "set (set_add x xs) = insert x (set xs)"
  by (auto simp: set_add_def)

lemma distinct_set_add [simp]: "distinct (set_add x xs) = distinct xs"
  by (auto simp: set_add_def)

lemma set_set_remove [simp]: "set (set_remove x xs) = set xs - {x}"
  by (simp add: set_remove_def)

lemma distinct_set_remove [simp]: "distinct xs \<Longrightarrow> distinct (set_remove x xs)"
  by (simp add: set_remove_def distinct_removeAll)

lemma set_remove_notin [simp]: "x \<notin> set xs \<Longrightarrow> set_remove x xs = xs"
  by (simp add: set_remove_def)

lemma set_remove_Nil [simp]: "set_remove x [] = []"
  by (simp add: set_remove_def)

lemma set_add_in [simp]: "x \<in> set xs \<Longrightarrow> set_add x xs = xs"
  by (simp add: set_add_def)

lemma add_all_simps [simp]:
  "add_all [] xs = xs"
  "add_all (y # ys) xs = add_all ys (set_add y xs)"
  by (simp_all add: add_all_def)

lemma set_add_all [simp]: "set (add_all ys xs) = set ys \<union> set xs"
  by (induction ys arbitrary: xs) auto

lemma distinct_add_all [simp]: "distinct (add_all ys xs) = distinct xs"
  by (induction ys arbitrary: xs) auto

lemma add_all_prefix: "\<exists>zs. add_all ys xs = xs @ zs \<and> set zs \<subseteq> set ys"
proof (induction ys arbitrary: xs)
  case (Cons y ys)
  obtain zs where zs: "add_all ys (set_add y xs) = set_add y xs @ zs" "set zs \<subseteq> set ys"
    using Cons.IH by blast
  show ?case
  proof (cases "y \<in> set xs")
    case True
    with zs show ?thesis by (auto simp: set_add_def)
  next
    case False
    with zs show ?thesis by (intro exI [of _ "y # zs"]) (auto simp: set_add_def)
  qed
qed simp

lemma add_all_subset [simp]: "set ys \<subseteq> set xs \<Longrightarrow> add_all ys xs = xs"
  by (induction ys) auto

lemma length_add_all: "length xs \<le> length (add_all ys xs)"
  using add_all_prefix [of ys xs] by auto

lemma add_all_same_length: "length (add_all ys xs) = length xs \<longleftrightarrow> set ys \<subseteq> set xs"
proof
  assume eq: "length (add_all ys xs) = length xs"
  obtain zs where zs: "add_all ys xs = xs @ zs"
    using add_all_prefix [of ys xs] by blast
  have "length zs = 0" using eq unfolding zs length_append by linarith
  then have "add_all ys xs = xs" using zs by simp
  moreover have "set ys \<subseteq> set (add_all ys xs)" by simp
  ultimately show "set ys \<subseteq> set xs" by (simp only:)
next
  assume "set ys \<subseteq> set xs"
  then show "length (add_all ys xs) = length xs" by (simp only: add_all_subset)
qed

lemma remove_all_simps [simp]:
  "remove_all [] xs = xs"
  "remove_all (y # ys) xs = remove_all ys (set_remove y xs)"
  by (simp_all add: remove_all_def)

lemma set_remove_all [simp]: "set (remove_all ys xs) = set xs - set ys"
  by (induction ys arbitrary: xs) auto

lemma distinct_remove_all [simp]: "distinct xs \<Longrightarrow> distinct (remove_all ys xs)"
  by (induction ys arbitrary: xs) auto

lemma remove_all_disjoint [simp]: "set ys \<inter> set xs = {} \<Longrightarrow> remove_all ys xs = xs"
  by (induction ys) auto

lemma set_uniq [simp]: "set (uniq xs) = set xs"
  by (simp add: uniq_def)

lemma distinct_uniq [simp]: "distinct (uniq xs)"
  by (simp add: uniq_def)

lemma add_all_distinct_append:
  "distinct (xs @ ys) \<Longrightarrow> add_all ys xs = xs @ ys"
proof (induction ys arbitrary: xs)
  case (Cons y ys)
  have "distinct ((xs @ [y]) @ ys)" using Cons.prems by auto
  then have "add_all ys (xs @ [y]) = (xs @ [y]) @ ys" by (rule Cons.IH)
  with Cons.prems show ?case by (simp add: set_add_def)
qed simp

lemma uniq_distinct [simp]: "distinct xs \<Longrightarrow> uniq xs = xs"
  using add_all_distinct_append [of "[]" xs] by (simp add: uniq_def)

subsection \<open>Maps in insertion order\<close>

type_synonym ('k, 'v) jsmap = "('k \<times> 'v) list"

abbreviation keys :: "('k, 'v) jsmap \<Rightarrow> 'k list" where
  "keys m \<equiv> map fst m"

abbreviation vals :: "('k, 'v) jsmap \<Rightarrow> 'v list" where
  "vals m \<equiv> map snd m"

abbreviation get :: "('k, 'v) jsmap \<Rightarrow> 'k \<Rightarrow> 'v option" where
  "get m k \<equiv> map_of m k"

abbreviation put :: "'k \<Rightarrow> 'v \<Rightarrow> ('k, 'v) jsmap \<Rightarrow> ('k, 'v) jsmap" where
  "put k v m \<equiv> AList.update k v m"

abbreviation del :: "'k \<Rightarrow> ('k, 'v) jsmap \<Rightarrow> ('k, 'v) jsmap" where
  "del k m \<equiv> AList.delete k m"

abbreviation wf_map :: "('k, 'v) jsmap \<Rightarrow> bool" where
  "wf_map m \<equiv> distinct (keys m)"

lemma get_put: "get (put k v m) k' = (if k' = k then Some v else get m k')"
  by (simp add: update_conv')

lemma get_del: "get (del k m) k' = (if k' = k then None else get m k')"
  by (simp add: delete_conv')

lemma get_None_keys: "get m k = None \<longleftrightarrow> k \<notin> set (keys m)"
  by (simp add: map_of_eq_None_iff)

lemma get_Some_in: "get m k = Some v \<Longrightarrow> (k, v) \<in> set m"
  by (rule map_of_SomeD)

lemma keys_put: "set (keys (put k v m)) = insert k (set (keys m))"
  by (simp only: dom_map_of_conv_image_fst [symmetric] update_conv' set_map) auto

lemma keys_del: "set (keys (del k m)) = set (keys m) - {k}"
  by (simp add: AList.delete_eq) auto

lemma wf_put [simp]: "wf_map m \<Longrightarrow> wf_map (put k v m)"
  by (simp add: distinct_update)

lemma wf_del [simp]: "wf_map m \<Longrightarrow> wf_map (del k m)"
  by (simp add: distinct_delete)

lemma in_put: "wf_map m \<Longrightarrow>
  p \<in> set (put k v m) \<longleftrightarrow> p = (k, v) \<or> (p \<in> set m \<and> fst p \<noteq> k)"
proof -
  assume wf: "wf_map m"
  have "p \<in> set (put k v m) \<longleftrightarrow> get (put k v m) (fst p) = Some (snd p)"
    using wf wf_put [OF wf] by (simp add: map_of_eq_Some_iff)
  also have "\<dots> \<longleftrightarrow> p = (k, v) \<or> (p \<in> set m \<and> fst p \<noteq> k)"
    using wf by (auto simp: get_put map_of_eq_Some_iff prod_eq_iff)
  finally show ?thesis .
qed

lemma in_del: "p \<in> set (del k m) \<longleftrightarrow> p \<in> set m \<and> fst p \<noteq> k"
  by (auto simp: AList.delete_eq)

lemma del_notin [simp]: "k \<notin> set (keys m) \<Longrightarrow> del k m = m"
  by (force simp: AList.delete_eq filter_id_conv)

lemma put_same [simp]: "get m k = Some v \<Longrightarrow> put k v m = m"
  by (induction m) (auto split: if_splits)

declare map_of_eq_Some_iff [simp del]

lemma sum_put:
  fixes f :: "'v \<Rightarrow> int"
  shows "sum_list (map (f \<circ> snd) (put k v m)) =
     sum_list (map (f \<circ> snd) m) - (case get m k of None \<Rightarrow> 0 | Some u \<Rightarrow> f u) + f v"
  by (induction m) auto

lemma sum_del:
  fixes f :: "'v \<Rightarrow> int"
  shows "wf_map m \<Longrightarrow> sum_list (map (f \<circ> snd) (del k m)) =
     sum_list (map (f \<circ> snd) m) - (case get m k of None \<Rightarrow> 0 | Some u \<Rightarrow> f u)"
  by (induction m) (auto simp: map_of_eq_None_iff [THEN iffD2])

lemma sum_keys:
  fixes f :: "'v \<Rightarrow> int"
  assumes "wf_map m"
  shows "sum_list (map (f \<circ> snd) m) = (\<Sum>k \<in> set (keys m). f (the (get m k)))"
proof -
  have "map (f \<circ> snd) m = map (\<lambda>k. f (the (get m k))) (keys m)"
    using assms by (auto simp: map_of_eq_Some_iff)
  then show ?thesis using assms by (simp only: sum_list_distinct_conv_sum_set)
qed

lemma get_filter:
  "wf_map m \<Longrightarrow> get (filter (\<lambda>p. P (snd p)) m) i =
     (case get m i of Some r \<Rightarrow> if P r then Some r else None | None \<Rightarrow> None)"
  by (induction m) (auto split: option.split simp: map_of_eq_None_iff [THEN iffD2])

lemmas map_simps = get_put get_del keys_put keys_del

text \<open>\<open>xs.find(p)\<close> and \<open>xs.findIndex(p)\<close> (with \<open>None\<close> for \<open>-1\<close>).\<close>

fun find_index :: "('a \<Rightarrow> bool) \<Rightarrow> 'a list \<Rightarrow> nat option" where
  "find_index P [] = None"
| "find_index P (x # xs) = (if P x then Some 0 else map_option Suc (find_index P xs))"

lemma find_index_Some:
  "find_index P xs = Some i \<Longrightarrow> i < length xs \<and> P (xs ! i) \<and> (\<forall>j < i. \<not> P (xs ! j))"
proof (induction xs arbitrary: i)
  case (Cons x xs)
  show ?case
  proof (cases "P x")
    case False
    with Cons.prems obtain k where k: "find_index P xs = Some k" "i = Suc k" by auto
    with Cons.IH [OF k(1)] False show ?thesis
      by (auto simp: less_Suc_eq_0_disj)
  qed (use Cons.prems in auto)
qed simp

lemma find_index_None: "find_index P xs = None \<longleftrightarrow> (\<forall>x \<in> set xs. \<not> P x)"
  by (induction xs) auto

subsection \<open>Optional values\<close>

text \<open>\<open>a ?? b\<close>.\<close>

definition or_else :: "'a option \<Rightarrow> 'a \<Rightarrow> 'a" where
  "or_else a b = (case a of None \<Rightarrow> b | Some x \<Rightarrow> x)"

lemma or_else_simps [simp]: "or_else None b = b" "or_else (Some a) b = a"
  by (simp_all add: or_else_def)

text \<open>\<open>flatMap\<close> with a result of zero or one elements.\<close>

lemma set_map_filter [simp]: "set (List.map_filter f xs) = {y. \<exists>x \<in> set xs. f x = Some y}"
  by (induction xs) (auto simp: List.map_filter_def)

subsection \<open>Sorting\<close>

text \<open>
  \<open>Array.prototype.sort\<close> is stable, so for a comparison that is a total preorder it has one result,
  which insertion from the right computes.
\<close>

fun insert_by :: "('a \<Rightarrow> 'a \<Rightarrow> bool) \<Rightarrow> 'a \<Rightarrow> 'a list \<Rightarrow> 'a list" where
  "insert_by le x [] = [x]"
| "insert_by le x (y # ys) = (if le x y then x # y # ys else y # insert_by le x ys)"

definition sort_by :: "('a \<Rightarrow> 'a \<Rightarrow> bool) \<Rightarrow> 'a list \<Rightarrow> 'a list" where
  "sort_by le xs = foldr (insert_by le) xs []"

lemma sort_by_simps [simp]:
  "sort_by le [] = []"
  "sort_by le (x # xs) = insert_by le x (sort_by le xs)"
  by (simp_all add: sort_by_def)

lemma set_insert_by [simp]: "set (insert_by le x xs) = insert x (set xs)"
  by (induction xs) auto

lemma set_sort_by [simp]: "set (sort_by le xs) = set xs"
  by (induction xs) auto

lemma length_insert_by [simp]: "length (insert_by le x xs) = Suc (length xs)"
  by (induction xs) auto

lemma length_sort_by [simp]: "length (sort_by le xs) = length xs"
  by (induction xs) auto

lemma distinct_insert_by [simp]: "distinct (insert_by le x xs) \<longleftrightarrow> x \<notin> set xs \<and> distinct xs"
  by (induction xs) auto

lemma distinct_sort_by [simp]: "distinct (sort_by le xs) = distinct xs"
  by (induction xs) auto

text \<open>
  A list of distinct elements that a number tells apart, sorted by that number, is the one list of
  these elements that is sorted so.
\<close>

definition orders_by :: "('a \<Rightarrow> int) \<Rightarrow> ('a \<Rightarrow> 'a \<Rightarrow> bool) \<Rightarrow> 'a set \<Rightarrow> bool" where
  "orders_by f le A \<longleftrightarrow> inj_on f A \<and> (\<forall>a \<in> A. \<forall>b \<in> A. a \<noteq> b \<longrightarrow> le a b = (f a < f b))"

lemma sorted_insert_by_key:
  "orders_by f le (insert x (set xs)) \<Longrightarrow> x \<notin> set xs \<Longrightarrow> sorted_wrt (\<lambda>a b. f a < f b) xs \<Longrightarrow>
     sorted_wrt (\<lambda>a b. f a < f b) (insert_by le x xs)"
proof (induction xs)
  case (Cons y ys)
  have o: "orders_by f le (insert x (set ys))"
    using Cons.prems(1) by (auto simp: orders_by_def inj_on_def)
  have xy: "le x y = (f x < f y)" "f x \<noteq> f y"
    using Cons.prems(1,2) by (auto simp: orders_by_def inj_on_def)
  show ?case
  proof (cases "le x y")
    case True
    with xy Cons.prems(3) show ?thesis by (auto intro: less_trans)
  next
    case False
    with xy have "f y < f x" by simp
    with Cons.IH [OF o] Cons.prems(2,3) False show ?thesis by auto
  qed
qed simp

lemma sorted_sort_by_key:
  "orders_by f le (set xs) \<Longrightarrow> distinct xs \<Longrightarrow> sorted_wrt (\<lambda>a b. f a < f b) (sort_by le xs)"
proof (induction xs)
  case (Cons x xs)
  have "orders_by f le (set xs)" using Cons.prems(1) by (auto simp: orders_by_def inj_on_def)
  with Cons show ?case by (auto intro: sorted_insert_by_key)
qed simp

lemma sorted_key_unique:
  assumes "sorted_wrt (\<lambda>a b. (f a :: int) < f b) xs" and "sorted_wrt (\<lambda>a b. f a < f b) ys"
    and "set xs = set ys" and "inj_on f (set xs)"
  shows "xs = ys"
proof -
  have "map f ys = map f xs"
    by (rule strict_sorted_equal) (use assms(1-3) in \<open>simp_all add: sorted_wrt_map\<close>)
  moreover have "inj_on f (set xs \<union> set ys)" using assms(3,4) by simp
  ultimately show ?thesis by (metis inj_on_map_eq_map)
qed

lemma sort_by_unique:
  assumes "orders_by f le (set xs)" and "distinct xs" and "set ys = set xs"
    and "sorted_wrt (\<lambda>a b. f a < f b) ys"
  shows "sort_by le xs = ys"
  by (rule sorted_key_unique [of f]) (use assms sorted_sort_by_key [of f le xs] in \<open>simp_all add: orders_by_def\<close>)

end
