(* ===== verification/Encoding.thy ===== *)
theory Encoding
  imports Prelude
begin

section \<open>Percent encoding and JSON values\<close>

text \<open>
  The two encodings of the language that the storage keys and values of the program go through:
  \<open>encodeURIComponent\<close> and \<open>decodeURIComponent\<close> on UTF-8 byte strings, and the values of
  \<open>JSON.parse\<close> with the text \<open>JSON.stringify\<close> gives them. The round trip of the percent encoding and
  its injectivity are what keeps the storage keys of two identifiers apart.
\<close>

subsection \<open>encodeURIComponent and decodeURIComponent\<close>

definition unreserved :: "char \<Rightarrow> bool" where
  "unreserved c \<longleftrightarrow>
     (let n = (of_char c :: nat)
      in 65 \<le> n \<and> n \<le> 90 \<or> 97 \<le> n \<and> n \<le> 122 \<or> 48 \<le> n \<and> n \<le> 57 \<or>
         n \<in> {45, 95, 46, 33, 126, 42, 39, 40, 41})"

definition hex_digit :: "nat \<Rightarrow> char" where
  "hex_digit n = char_of (if n < 10 then 48 + n else 55 + n)"

definition hex_value :: "char \<Rightarrow> nat option" where
  "hex_value c =
     (let n = of_char c
      in if 48 \<le> n \<and> n \<le> 57 then Some (n - 48)
         else if 65 \<le> n \<and> n \<le> 70 then Some (n - 55)
         else if 97 \<le> n \<and> n \<le> 102 then Some (n - 87) else None)"

definition percent :: char where
  "percent = char_of (37 :: nat)"

definition encode_char :: "char \<Rightarrow> string" where
  "encode_char c =
     (if unreserved c then [c]
      else [percent, hex_digit (of_char c div 16), hex_digit (of_char c mod 16)])"

definition encodeURIComponent :: "string \<Rightarrow> string" where
  "encodeURIComponent s = concat (map encode_char s)"

fun percent_decode :: "string \<Rightarrow> string option" where
  "percent_decode [] = Some []"
| "percent_decode (c # cs) =
     (if c = percent
      then (case cs of
              h # l # rest \<Rightarrow>
                (case (hex_value h, hex_value l) of
                   (Some a, Some b) \<Rightarrow> map_option ((#) (char_of (16 * a + b))) (percent_decode rest)
                 | _ \<Rightarrow> None)
            | _ \<Rightarrow> None)
      else map_option ((#) c) (percent_decode cs))"

definition continuation :: "char \<Rightarrow> bool" where
  "continuation c \<longleftrightarrow> (128 :: nat) \<le> of_char c \<and> (of_char c :: nat) < 192"

definition second_byte :: "nat \<Rightarrow> char \<Rightarrow> bool" where
  "second_byte lead c \<longleftrightarrow>
     (let n = (of_char c :: nat)
      in (if lead = 224 then 160 else if lead = 240 then 144 else 128) \<le> n \<and>
         n < (if lead = 237 then 160 else if lead = 244 then 144 else 192))"

fun utf8_valid :: "string \<Rightarrow> bool" where
  "utf8_valid [] = True"
| "utf8_valid (c # cs) =
     (let n = (of_char c :: nat)
      in if n < 128 then utf8_valid cs
         else if 194 \<le> n \<and> n \<le> 223
         then (case cs of a # rest \<Rightarrow> second_byte n a \<and> utf8_valid rest | _ \<Rightarrow> False)
         else if 224 \<le> n \<and> n \<le> 239
         then (case cs of a # b # rest \<Rightarrow> second_byte n a \<and> continuation b \<and> utf8_valid rest | _ \<Rightarrow> False)
         else if 240 \<le> n \<and> n \<le> 244
         then (case cs of
                 a # b # d # rest \<Rightarrow> second_byte n a \<and> continuation b \<and> continuation d \<and> utf8_valid rest
               | _ \<Rightarrow> False)
         else False)"

text \<open>\<open>None\<close> is the \<open>URIError\<close> of a malformed sequence.\<close>

definition decodeURIComponent :: "string \<Rightarrow> string option" where
  "decodeURIComponent s =
     (case percent_decode s of
        Some b \<Rightarrow> if utf8_valid b then Some b else None
      | None \<Rightarrow> None)"

lemma hex_value_digit: "n < 16 \<Longrightarrow> hex_value (hex_digit n) = Some n"
  by (auto simp: hex_value_def hex_digit_def Let_def)

lemma of_char_lt_256: "(of_char c :: nat) < 256"
  by (metis of_char_mod_256 mod_less_divisor zero_less_numeral)

lemma of_char_div_16: "(of_char c :: nat) div 16 < 16"
proof -
  have "(of_char c :: nat) < 16 * 16" using of_char_lt_256 [of c] by simp
  then show ?thesis by (rule less_mult_imp_div_less)
qed

lemma unreserved_percent: "\<not> unreserved percent"
  by (simp add: unreserved_def percent_def Let_def)

lemma percent_decode_encode_char:
  "percent_decode (encode_char c @ s) = map_option ((#) c) (percent_decode s)"
proof (cases "unreserved c")
  case True
  then have "c \<noteq> percent" using unreserved_percent by blast
  with True show ?thesis by (simp add: encode_char_def)
next
  case False
  have c: "char_of (16 * (of_char c div 16) + (of_char c mod 16 :: nat)) = c" by simp
  have hi: "hex_value (hex_digit (of_char c div 16)) = Some (of_char c div 16)"
    by (rule hex_value_digit) (rule of_char_div_16)
  have lo: "hex_value (hex_digit (of_char c mod 16)) = Some (of_char c mod 16)"
    by (rule hex_value_digit) simp
  show ?thesis
    using False by (simp add: encode_char_def hi lo c)
qed

lemma percent_decode_encode: "percent_decode (encodeURIComponent s) = Some s"
  by (induction s) (simp_all add: encodeURIComponent_def percent_decode_encode_char)

lemma decode_encode [simp]: "utf8_valid s \<Longrightarrow> decodeURIComponent (encodeURIComponent s) = Some s"
  by (simp add: decodeURIComponent_def percent_decode_encode)

lemma encode_inj [simp]: "encodeURIComponent s = encodeURIComponent t \<longleftrightarrow> s = t"
  by (metis option.inject percent_decode_encode)

lemma decode_valid: "decodeURIComponent s = Some t \<Longrightarrow> utf8_valid t"
  by (auto simp: decodeURIComponent_def split: option.splits if_splits)

text \<open>The separator of the composed keys never occurs in an encoded component.\<close>

definition colon :: char where
  "colon = char_of (58 :: nat)"

lemma colon_char: "colon = CHR '':''"
  by code_simp

lemma hex_digit_not_colon: "n < 16 \<Longrightarrow> hex_digit n \<noteq> colon"
proof
  assume n: "n < 16" and eq: "hex_digit n = colon"
  have "(of_char (hex_digit n) :: nat) = (if n < 10 then 48 + n else 55 + n)"
    using n by (simp add: hex_digit_def)
  moreover have "(of_char colon :: nat) = 58" by (simp add: colon_def)
  ultimately show False using n eq by (auto split: if_splits)
qed

lemma encode_no_colon: "colon \<notin> set (encodeURIComponent s)"
proof -
  have "colon \<notin> set (encode_char c)" for c
  proof (cases "unreserved c")
    case True
    then have "c \<noteq> colon" by (auto simp: unreserved_def colon_def Let_def)
    with True show ?thesis by (simp add: encode_char_def)
  next
    case False
    have "colon \<noteq> percent" by (simp add: colon_def percent_def)
    with False show ?thesis
      using hex_digit_not_colon [OF of_char_div_16 [of c]]
        hex_digit_not_colon [of "of_char c mod 16"]
      by (auto simp: encode_char_def)
  qed
  then show ?thesis by (auto simp: encodeURIComponent_def)
qed

subsection \<open>JSON values\<close>

text \<open>
  A value as \<open>JSON.parse\<close> returns it. \<open>JInf\<close> is a number that is not finite (\<open>1e999\<close> parses to
  Infinity); the finite numbers are the integers. An object keeps its properties in order. Names of
  objects read with \<open>field\<close>: a missing property, like a property of a value that has none, is
  \<open>undefined\<close> (\<open>None\<close>).
\<close>

datatype json =
    JNull
  | JBool bool
  | JNum num
  | JInf
  | JStr string
  | JArr "json list"
  | JObj "(string \<times> json) list"

fun field :: "json \<Rightarrow> string \<Rightarrow> json option" where
  "field (JObj kvs) k = map_of kvs k"
| "field _ k = None"

text \<open>\<open>value && typeof value === 'object'\<close>, and the same without arrays.\<close>

fun is_object :: "json \<Rightarrow> bool" where
  "is_object (JObj _) = True"
| "is_object (JArr _) = True"
| "is_object _ = False"

fun is_record :: "json \<Rightarrow> bool" where
  "is_record (JObj _) = True"
| "is_record _ = False"

fun as_string :: "json option \<Rightarrow> string option" where
  "as_string (Some (JStr s)) = Some s"
| "as_string _ = None"

text \<open>A finite number (\<open>typeof x === 'number' && Number.isFinite(x)\<close>).\<close>

fun as_finite :: "json option \<Rightarrow> num option" where
  "as_finite (Some (JNum n)) = Some n"
| "as_finite _ = None"

fun as_bool :: "json option \<Rightarrow> bool option" where
  "as_bool (Some (JBool b)) = Some b"
| "as_bool _ = None"

fun as_array :: "json option \<Rightarrow> json list option" where
  "as_array (Some (JArr xs)) = Some xs"
| "as_array _ = None"

text \<open>\<open>typeof x === 'string' && x\<close>.\<close>

definition as_nonempty :: "json option \<Rightarrow> string option" where
  "as_nonempty j = (case as_string j of Some s \<Rightarrow> if s = [] then None else Some s | None \<Rightarrow> None)"

text \<open>An optional property: \<open>undefined\<close> is fine, a value of another type is not.\<close>

definition opt_string :: "json option \<Rightarrow> string option option" where
  "opt_string j =
     (case j of None \<Rightarrow> Some None | Some (JStr s) \<Rightarrow> Some (Some s) | Some _ \<Rightarrow> None)"

lemma as_string_Some: "as_string j = Some s \<longleftrightarrow> j = Some (JStr s)"
  by (cases j rule: as_string.cases) auto

lemma as_finite_Some: "as_finite j = Some n \<longleftrightarrow> j = Some (JNum n)"
  by (cases j rule: as_finite.cases) auto

lemma as_bool_Some: "as_bool j = Some b \<longleftrightarrow> j = Some (JBool b)"
  by (cases j rule: as_bool.cases) auto

lemma as_array_Some: "as_array j = Some xs \<longleftrightarrow> j = Some (JArr xs)"
  by (cases j rule: as_array.cases) auto

lemma as_nonempty_Some: "as_nonempty j = Some s \<longleftrightarrow> j = Some (JStr s) \<and> s \<noteq> []"
  by (auto simp: as_nonempty_def as_string_Some split: option.splits)

lemma opt_string_Some: "opt_string j = Some x \<longleftrightarrow> j = map_option JStr x"
  by (cases j; cases x) (auto simp: opt_string_def split: json.splits)

lemmas json_Some = as_string_Some as_finite_Some as_bool_Some as_array_Some as_nonempty_Some opt_string_Some

subsection \<open>JSON.stringify\<close>

text \<open>
  The compact text of a value. Numbers below \<open>10 ^ 21\<close> print as decimal integers (larger ones would
  print with an exponent and are out of scope); a number that is not finite prints as \<open>null\<close>.
\<close>

fun digits :: "nat \<Rightarrow> string" where
  "digits n =
     (if n < 10 then [char_of (48 + n)] else digits (n div 10) @ [char_of (48 + n mod 10)])"

declare digits.simps [simp del]

text \<open>The number a row of digits stands for.\<close>

definition number_value :: "string \<Rightarrow> nat" where
  "number_value s = foldl (\<lambda>n c. 10 * n + (of_char c - 48)) 0 s"

lemma number_value_digits: "number_value (digits n) = n"
proof (induction n rule: digits.induct)
  case (1 n)
  show ?case
  proof (cases "n < 10")
    case False
    then have "digits n = digits (n div 10) @ [char_of (48 + n mod 10)]" by (simp add: digits.simps [of n])
    then show ?thesis using 1 [OF False] by (simp add: number_value_def)
  qed (simp add: number_value_def digits.simps [of n])
qed

lemma digits_inj [simp]: "digits m = digits n \<longleftrightarrow> m = n"
  by (metis number_value_digits)

definition show_int :: "int \<Rightarrow> string" where
  "show_int n = (if n < 0 then ''-'' @ digits (nat (- n)) else digits (nat n))"

definition escape_char :: "char \<Rightarrow> string" where
  "escape_char c =
     (let n = (of_char c :: nat)
      in if n = 34 then [char_of (92 :: nat), c]
         else if n = 92 then [c, c]
         else if n = 8 then char_of (92 :: nat) # ''b''
         else if n = 9 then char_of (92 :: nat) # ''t''
         else if n = 10 then char_of (92 :: nat) # ''n''
         else if n = 12 then char_of (92 :: nat) # ''f''
         else if n = 13 then char_of (92 :: nat) # ''r''
         else if n < 32 then char_of (92 :: nat) # ''u00'' @
           [hex_digit (n div 16), char_of (if n mod 16 < 10 then 48 + n mod 16 else 87 + n mod 16)]
         else [c])"

definition quote_string :: "string \<Rightarrow> string" where
  "quote_string s = [char_of (34 :: nat)] @ concat (map escape_char s) @ [char_of (34 :: nat)]"

fun commas :: "string list \<Rightarrow> string" where
  "commas [] = []"
| "commas [x] = x"
| "commas (x # xs) = x @ '','' @ commas xs"

fun stringify :: "json \<Rightarrow> string" where
  "stringify JNull = ''null''"
| "stringify (JBool b) = (if b then ''true'' else ''false'')"
| "stringify (JNum n) = show_int n"
| "stringify JInf = ''null''"
| "stringify (JStr s) = quote_string s"
| "stringify (JArr xs) = ''['' @ commas (map stringify xs) @ '']''"
| "stringify (JObj kvs) =
     ''{'' @ commas (map (\<lambda>(k, v). quote_string k @ '':'' @ stringify v) kvs) @ ''}''"

text \<open>\<open>new TextEncoder().encode(JSON.stringify(value)).byteLength\<close>.\<close>

definition json_bytes :: "json \<Rightarrow> nat" where
  "json_bytes j = length (stringify j)"

subsection \<open>\<open>xs.join(sep)\<close>\<close>

fun join_with :: "string \<Rightarrow> string list \<Rightarrow> string" where
  "join_with sep [] = []"
| "join_with sep [x] = x"
| "join_with sep (x # xs) = x @ sep @ join_with sep xs"

end
