(* ===== verification/Storage.thy ===== *)
theory Storage
  imports Encoding
begin

section \<open>The browser's storage\<close>

text \<open>
  \<^verbatim>\<open>localStorage\<close> and \<^verbatim>\<open>sessionStorage\<close> as the stores use them: \<open>getItem\<close>, \<open>setItem\<close>, \<open>removeItem\<close>
  and the enumeration of the keys. A stored text is a \<open>cell\<close>: \<open>Json v\<close> is a text that
  \<open>JSON.parse\<close> reads as \<open>v\<close> (what \<open>JSON.stringify v\<close> wrote), \<open>Plain s\<close> a text used as it is, which
  \<open>JSON.parse\<close> rejects.

  A storage may refuse: \<open>readable\<close> says whether reads answer or throw, and \<open>faults\<close> holds the
  outcomes of the coming writes and removals, one per call: \<open>Threw\<close> for an exception (the quota),
  \<open>Lost\<close> for a call that returns without effect. After the list is used up every call succeeds, so
  a statement for every \<open>faults\<close> is a statement about any pattern of failures.
\<close>

datatype cell = Plain string | Json json

datatype outcome = Done | Threw | Lost

record storage =
  items :: "(string, cell) jsmap"
  readable :: bool
  faults :: "outcome list"

fun parse_cell :: "cell option \<Rightarrow> json option" where
  "parse_cell (Some (Json v)) = Some v"
| "parse_cell _ = None"

text \<open>A text that is present and not empty.\<close>

fun truthy :: "cell option \<Rightarrow> bool" where
  "truthy None = False"
| "truthy (Some (Plain s)) = (s \<noteq> [])"
| "truthy (Some (Json v)) = True"

text \<open>A read answers \<open>None\<close> when it throws; the inner option is \<open>null\<close> for a missing key.\<close>

definition getItem :: "storage \<Rightarrow> string \<Rightarrow> cell option option" where
  "getItem st k = (if readable st then Some (get (items st) k) else None)"

text \<open>A write answers whether it returned (\<open>False\<close>: it threw).\<close>

definition mutate :: "((string, cell) jsmap \<Rightarrow> (string, cell) jsmap) \<Rightarrow> storage \<Rightarrow> storage \<times> bool" where
  "mutate f st =
     (case faults st of
        [] \<Rightarrow> (st\<lparr>items := f (items st)\<rparr>, True)
      | Done # fs \<Rightarrow> (st\<lparr>items := f (items st), faults := fs\<rparr>, True)
      | Threw # fs \<Rightarrow> (st\<lparr>faults := fs\<rparr>, False)
      | Lost # fs \<Rightarrow> (st\<lparr>faults := fs\<rparr>, True))"

definition setItem :: "string \<Rightarrow> cell \<Rightarrow> storage \<Rightarrow> storage \<times> bool" where
  "setItem k c st = mutate (put k c) st"

definition removeItem :: "string \<Rightarrow> storage \<Rightarrow> storage \<times> bool" where
  "removeItem k st = mutate (del k) st"

text \<open>A storage that never fails.\<close>

definition reliable :: "storage \<Rightarrow> bool" where
  "reliable st \<longleftrightarrow> readable st \<and> faults st = []"

lemma setItem_reliable [simp]:
  "faults st = [] \<Longrightarrow> setItem k c st = (st\<lparr>items := put k c (items st)\<rparr>, True)"
  by (simp add: setItem_def mutate_def)

lemma removeItem_reliable [simp]:
  "faults st = [] \<Longrightarrow> removeItem k st = (st\<lparr>items := del k (items st)\<rparr>, True)"
  by (simp add: removeItem_def mutate_def)

lemma getItem_readable [simp]: "readable st \<Longrightarrow> getItem st k = Some (get (items st) k)"
  by (simp add: getItem_def)

lemma mutate_cases:
  "items (fst (mutate f st)) = f (items st) \<or> items (fst (mutate f st)) = items st"
  by (auto simp: mutate_def split: list.splits outcome.splits)

lemma readable_mutate [simp]: "readable (fst (mutate f st)) = readable st"
  by (auto simp: mutate_def split: list.splits outcome.splits)

lemma readable_setItem [simp]: "readable (fst (setItem k c st)) = readable st"
  by (simp add: setItem_def)

lemma readable_removeItem [simp]: "readable (fst (removeItem k st)) = readable st"
  by (simp add: removeItem_def)

lemma setItem_items:
  "items (fst (setItem k c st)) = put k c (items st) \<or> items (fst (setItem k c st)) = items st"
  unfolding setItem_def by (rule mutate_cases)

lemma removeItem_items:
  "items (fst (removeItem k st)) = del k (items st) \<or> items (fst (removeItem k st)) = items st"
  unfolding removeItem_def by (rule mutate_cases)

lemma setItem_other: "k' \<noteq> k \<Longrightarrow> get (items (fst (setItem k c st))) k' = get (items st) k'"
  using setItem_items [of k c st] by (auto simp: get_put)

lemma removeItem_other: "k' \<noteq> k \<Longrightarrow> get (items (fst (removeItem k st))) k' = get (items st) k'"
  using removeItem_items [of k st] by (auto simp: get_del)

lemma setItem_wf: "wf_map (items st) \<Longrightarrow> wf_map (items (fst (setItem k c st)))"
  using setItem_items [of k c st] by auto

lemma removeItem_wf: "wf_map (items st) \<Longrightarrow> wf_map (items (fst (removeItem k st)))"
  using removeItem_items [of k st] by auto

lemmas storage_simps = setItem_other removeItem_other

end
