(* ===== verification/StateVersion.thy ===== *)
theory StateVersion
  imports Storage
begin

section \<open>Versions and last write wins\<close>

text \<open>
  \<^verbatim>\<open>shared/stateVersion.ts\<close>: every synced record carries a version, the time of its last write and
  the id of that write, and the newer version wins. The order on versions is the contract every
  store and the sync engine rest on; it is stated as the locale \<open>versioned\<close>, and what last write
  wins makes of a set of records (the outcome does not depend on the order they arrive in) is proved
  there once, for notes, spaces, space members and generic rows alike.
\<close>

definition compareStateVersions :: "num \<Rightarrow> string \<Rightarrow> num \<Rightarrow> string \<Rightarrow> int" where
  "compareStateVersions leftUpdated leftWriteID rightUpdated rightWriteID =
     (if leftUpdated \<noteq> rightUpdated then (if leftUpdated > rightUpdated then 1 else -1)
      else if leftWriteID = rightWriteID then 0
      else if leftWriteID > rightWriteID then 1 else -1)"

lemma compare_pos:
  "0 < compareStateVersions u w u' w' \<longleftrightarrow> u' < u \<or> u' = u \<and> w' < w"
  by (auto simp: compareStateVersions_def)

lemma compare_neg:
  "compareStateVersions u w u' w' < 0 \<longleftrightarrow> u < u' \<or> u = u' \<and> w < w'"
  by (auto simp: compareStateVersions_def not_less_iff_gr_or_eq)

lemma compare_zero:
  "compareStateVersions u w u' w' = 0 \<longleftrightarrow> u = u' \<and> w = w'"
  by (auto simp: compareStateVersions_def)

lemma compare_le:
  "compareStateVersions u w u' w' \<le> 0 \<longleftrightarrow> u < u' \<or> u = u' \<and> w \<le> w'"
  using compare_pos [of u w u' w'] by (auto simp: not_less[symmetric])

lemma compare_ge:
  "0 \<le> compareStateVersions u w u' w' \<longleftrightarrow> u' < u \<or> u' = u \<and> w' \<le> w"
  using compare_neg [of u w u' w'] by (auto simp: not_less[symmetric])

lemmas compare_simps = compare_pos compare_neg compare_zero compare_le compare_ge

subsection \<open>Picking the newer of two records\<close>

text \<open>\<open>newer(left, right)\<close> of the stores: the left record on a tie.\<close>

definition newer :: "('r \<Rightarrow> 'r \<Rightarrow> int) \<Rightarrow> 'r \<Rightarrow> 'r \<Rightarrow> 'r" where
  "newer cmp left right = (if cmp left right \<ge> 0 then left else right)"

text \<open>
  The merge every store performs on rows that arrive: a row replaces the one held under its key when
  its version is strictly newer.
\<close>

definition lww_insert ::
    "('r \<Rightarrow> 'r \<Rightarrow> int) \<Rightarrow> ('r \<Rightarrow> 'k) \<Rightarrow> 'r \<Rightarrow> ('k, 'r) jsmap \<Rightarrow> ('k, 'r) jsmap" where
  "lww_insert cmp key r m =
     (case get m (key r) of
        None \<Rightarrow> put (key r) r m
      | Some c \<Rightarrow> if cmp r c \<le> 0 then m else put (key r) r m)"

definition lww_merge ::
    "('r \<Rightarrow> 'r \<Rightarrow> int) \<Rightarrow> ('r \<Rightarrow> 'k) \<Rightarrow> 'r list \<Rightarrow> ('k, 'r) jsmap \<Rightarrow> ('k, 'r) jsmap" where
  "lww_merge cmp key rs m = fold (lww_insert cmp key) rs m"

definition lww_pick :: "('r \<Rightarrow> 'r \<Rightarrow> int) \<Rightarrow> 'r \<Rightarrow> 'r option \<Rightarrow> 'r option" where
  "lww_pick cmp r cur =
     (case cur of None \<Rightarrow> Some r | Some c \<Rightarrow> if cmp r c \<le> 0 then Some c else Some r)"

lemma get_lww_insert:
  "get (lww_insert cmp key r m) k = (if key r = k then lww_pick cmp r (get m k) else get m k)"
  by (auto simp: lww_insert_def lww_pick_def get_put split: option.splits)

lemma get_lww_merge:
  "get (lww_merge cmp key rs m) k = fold (lww_pick cmp) (filter (\<lambda>r. key r = k) rs) (get m k)"
  by (induction rs arbitrary: m) (simp_all add: lww_merge_def get_lww_insert)

lemma lww_merge_simps [simp]:
  "lww_merge cmp key [] m = m"
  "lww_merge cmp key (r # rs) m = lww_merge cmp key rs (lww_insert cmp key r m)"
  by (simp_all add: lww_merge_def)

lemma wf_lww_insert [simp]: "wf_map m \<Longrightarrow> wf_map (lww_insert cmp key r m)"
  by (simp add: lww_insert_def split: option.split)

lemma wf_lww_merge [simp]: "wf_map m \<Longrightarrow> wf_map (lww_merge cmp key rs m)"
  by (induction rs arbitrary: m) auto

text \<open>The order on versions that last write wins needs: a total preorder.\<close>

locale versioned =
  fixes cmp :: "'r \<Rightarrow> 'r \<Rightarrow> int"
  assumes cmp_flip: "0 < cmp a b \<longleftrightarrow> cmp b a < 0"
    and cmp_trans: "0 \<le> cmp a b \<Longrightarrow> 0 \<le> cmp b c \<Longrightarrow> 0 \<le> cmp a c"
begin

lemma cmp_refl [simp]: "cmp a a = 0"
  using cmp_flip [of a a] by linarith

lemma cmp_total: "0 \<le> cmp a b \<or> 0 \<le> cmp b a"
  using cmp_flip [of b a] by linarith

lemma cmp_le_flip: "cmp a b \<le> 0 \<longleftrightarrow> 0 \<le> cmp b a"
  using cmp_flip [of a b] by linarith

lemma cmp_less_le: "0 < cmp a b \<Longrightarrow> 0 \<le> cmp b c \<Longrightarrow> 0 < cmp a c"
proof (rule ccontr)
  assume ab: "0 < cmp a b" and bc: "0 \<le> cmp b c" and "\<not> 0 < cmp a c"
  then have "0 \<le> cmp c a" using cmp_le_flip [of a c] by simp
  then have "0 \<le> cmp b a" using cmp_trans [OF bc] by blast
  then show False using ab cmp_flip [of a b] by simp
qed

lemma newer_is: "newer cmp l r = l \<or> newer cmp l r = r"
  by (simp add: newer_def)

lemma newer_ge: "0 \<le> cmp (newer cmp l r) l" "0 \<le> cmp (newer cmp l r) r"
  using cmp_total [of l r] by (auto simp: newer_def)

lemma pick_ge:
  "lww_pick cmp r cur = Some w \<Longrightarrow> 0 \<le> cmp w r \<and> (\<forall>c. cur = Some c \<longrightarrow> 0 \<le> cmp w c)"
  by (auto simp: lww_pick_def cmp_le_flip split: option.splits if_splits)
    (metis cmp_flip cmp_le_flip linorder_not_le order.strict_implies_order)

lemma fold_pick_max:
  "fold (lww_pick cmp) rs cur = Some w \<Longrightarrow>
     (w \<in> set rs \<or> cur = Some w) \<and> (\<forall>r \<in> set rs. 0 \<le> cmp w r) \<and> (\<forall>c. cur = Some c \<longrightarrow> 0 \<le> cmp w c)"
proof (induction rs arbitrary: cur)
  case Nil
  then show ?case by simp
next
  case (Cons r rs)
  obtain v where v: "lww_pick cmp r cur = Some v"
    by (cases "lww_pick cmp r cur") (auto simp: lww_pick_def split: option.splits if_splits)
  have IH: "(w \<in> set rs \<or> v = w) \<and> (\<forall>r \<in> set rs. 0 \<le> cmp w r) \<and> 0 \<le> cmp w v"
    using Cons.IH [of "lww_pick cmp r cur"] Cons.prems v by auto
  have "v = r \<or> cur = Some v"
    using v by (auto simp: lww_pick_def split: option.splits if_splits)
  moreover have "0 \<le> cmp w r" "\<And>c. cur = Some c \<Longrightarrow> 0 \<le> cmp w c"
    using IH pick_ge [OF v] cmp_trans by blast+
  ultimately show ?case using IH by auto
qed

lemma fold_pick_None: "fold (lww_pick cmp) rs cur = None \<longleftrightarrow> rs = [] \<and> cur = None"
proof (induction rs arbitrary: cur)
  case (Cons r rs)
  have "lww_pick cmp r cur \<noteq> None"
    by (cases cur) (auto simp: lww_pick_def)
  with Cons.IH show ?case by simp
qed simp

text \<open>
  Merging is order independent: two histories that deliver the same rows, in any order and with any
  repetition, leave the same record under every key, provided a version identifies the record that
  carries it.
\<close>

lemma merge_converges:
  assumes rows: "set rs = set ss"
    and ident: "\<And>a b. a \<in> set rs \<Longrightarrow> b \<in> set rs \<Longrightarrow> key a = key b \<Longrightarrow> cmp a b = 0 \<Longrightarrow> a = b"
  shows "get (lww_merge cmp key rs []) k = get (lww_merge cmp key ss []) k"
proof (cases "fold (lww_pick cmp) (filter (\<lambda>r. key r = k) rs) None")
  case None
  then have "filter (\<lambda>r. key r = k) ss = []"
    using rows by (auto simp: fold_pick_None filter_empty_conv)
  with None show ?thesis by (simp add: get_lww_merge)
next
  case (Some w)
  then have "filter (\<lambda>r. key r = k) ss \<noteq> []"
    using rows by (force simp: filter_empty_conv dest: fold_pick_max)
  then obtain v where v: "fold (lww_pick cmp) (filter (\<lambda>r. key r = k) ss) None = Some v"
    using fold_pick_None by blast
  note maxw = fold_pick_max [OF Some] and maxv = fold_pick_max [OF v]
  have "0 \<le> cmp w v" "0 \<le> cmp v w"
    using maxw maxv rows by auto
  then have "cmp w v = 0" using cmp_flip [of w v] by linarith
  then have "w = v" using ident [of w v] maxw maxv rows by auto
  with Some v show ?thesis by (simp add: get_lww_merge)
qed

lemma merge_keeps_newest:
  assumes "get (lww_merge cmp key rs m) k = Some w"
  shows "\<forall>r \<in> set rs. key r = k \<longrightarrow> 0 \<le> cmp w r"
    and "\<forall>c. get m k = Some c \<longrightarrow> 0 \<le> cmp w c"
  using fold_pick_max [of "filter (\<lambda>r. key r = k) rs" "get m k" w] assms
  by (auto simp: get_lww_merge)

lemma merge_idempotent:
  "get (lww_merge cmp key rs (lww_merge cmp key rs m)) k = get (lww_merge cmp key rs m) k"
proof -
  have "fold (lww_pick cmp) qs (Some w) = Some w" if "\<forall>r \<in> set qs. 0 \<le> cmp w r" for qs w
    using that by (induction qs) (auto simp: lww_pick_def cmp_le_flip)
  then show ?thesis
    by (cases "get (lww_merge cmp key rs m) k")
      (use fold_pick_max fold_pick_None in \<open>auto simp: get_lww_merge\<close>)
qed

end

text \<open>A record type whose versions are a time and a write id has the order.\<close>

lemma versioned_by:
  "versioned (\<lambda>a b. compareStateVersions (u a) (w a) (u b) (w b))"
  by unfold_locales (auto simp: compare_simps)

subsection \<open>The generic row\<close>

record state_row =
  row_key :: string
  row_value :: json
  row_updated :: num
  row_writeID :: string
  row_deleted :: bool

definition compareRows :: "state_row \<Rightarrow> state_row \<Rightarrow> int" where
  "compareRows left right =
     compareStateVersions (row_updated left) (row_writeID left) (row_updated right) (row_writeID right)"

interpretation rows: versioned compareRows
  unfolding compareRows_def by (rule versioned_by)

definition row_json :: "state_row \<Rightarrow> json" where
  "row_json r = JObj
     [(''key'', JStr (row_key r)), (''value'', row_value r), (''updated'', JNum (row_updated r)),
      (''writeID'', JStr (row_writeID r)), (''deleted'', JBool (row_deleted r))]"

text \<open>\<open>validStateRow\<close>: the row a stored value holds, when it is one.\<close>

definition validStateRow :: "json \<Rightarrow> state_row option" where
  "validStateRow value =
     (if \<not> is_object value then None
      else case (as_nonempty (field value ''key''), as_finite (field value ''updated''),
                 as_nonempty (field value ''writeID''), as_bool (field value ''deleted''),
                 field value ''value'') of
        (Some k, Some u, Some w, Some d, Some v) \<Rightarrow>
          Some \<lparr>row_key = k, row_value = v, row_updated = u, row_writeID = w, row_deleted = d\<rparr>
      | _ \<Rightarrow> None)"

lemma validStateRow_row_json:
  "row_key r \<noteq> [] \<Longrightarrow> row_writeID r \<noteq> [] \<Longrightarrow> validStateRow (row_json r) = Some r"
  by (simp add: validStateRow_def row_json_def as_nonempty_def)

end
