(* ===== verification/StoreBase.thy ===== *)
theory StoreBase
  imports StateVersion
begin

section \<open>What the browser stores share\<close>

text \<open>
  The notes and the spaces store keep versioned records in a map, mirror them to the browser's
  storage under three families of keys (the record, its last good copy, an unreadable text kept for
  recovery) and report a status. Here: the stored record, the status, the keys, and the operations
  on a storage that may be gone (\<open>let storage = ... | null\<close>).
\<close>

record 'r stored =
  writeID :: string
  body :: 'r

record store_status =
  persistent :: bool
  recovered :: bool
  problem :: string

text \<open>\<open>{ ok: true, value } | { ok: false, reason }\<close>: the reason of a refusal, or the value.\<close>

type_synonym 'a outcome_of = "string + 'a"

text \<open>\<open>[...storage keys]\<close> that hold a record, with the id each names.\<close>

definition ids_under :: "string \<Rightarrow> storage \<Rightarrow> (string \<times> string) list" where
  "ids_under prefix st =
     List.map_filter
       (\<lambda>k. if starts_with prefix k
            then map_option (\<lambda>i. (k, i)) (decodeURIComponent (drop (length prefix) k)) else None)
       (keys (items st))"

text \<open>A key of a family names one id.\<close>

definition key_of :: "string \<Rightarrow> string \<Rightarrow> string" where
  "key_of prefix i = prefix @ encodeURIComponent i"

lemma key_of_inj [simp]: "key_of p a = key_of p b \<longleftrightarrow> a = b"
  by (simp add: key_of_def)

lemma key_of_starts [simp]: "starts_with p (key_of p i)"
  by (simp add: key_of_def)

lemma key_of_id: "utf8_valid i \<Longrightarrow> decodeURIComponent (drop (length p) (key_of p i)) = Some i"
  by (simp add: key_of_def)

lemma ids_under_in:
  "(k, i) \<in> set (ids_under p st) \<longleftrightarrow>
     k \<in> set (keys (items st)) \<and> starts_with p k \<and> decodeURIComponent (drop (length p) k) = Some i"
  by (auto simp: ids_under_def)

text \<open>Two families whose names differ before their colon share no key.\<close>

lemma key_of_family:
  "p = base @ f @ '':'' \<Longrightarrow> q = base @ g @ '':'' \<Longrightarrow> colon \<notin> set f \<Longrightarrow> colon \<notin> set g \<Longrightarrow> f \<noteq> g \<Longrightarrow>
     key_of p a \<noteq> key_of q b"
proof
  assume p: "p = base @ f @ '':''" and q: "q = base @ g @ '':''" and f: "colon \<notin> set f" and g: "colon \<notin> set g"
    and ne: "f \<noteq> g" and eq: "key_of p a = key_of q b"
  have c: "colon = CHR '':''" by code_simp
  have split: "takeWhile (\<lambda>x. x \<noteq> colon) (h @ '':'' @ r) = h" if "colon \<notin> set h" for h r
    using that by (subst takeWhile_append2) (auto simp: c)
  have "f @ '':'' @ encodeURIComponent a = g @ '':'' @ encodeURIComponent b"
    using eq p q by (simp add: key_of_def)
  then have "f = g"
    using split [OF f, of "encodeURIComponent a"] split [OF g, of "encodeURIComponent b"] by simp
  with ne show False by simp
qed

end
