(* ===== verification/NotesStore.thy ===== *)
theory NotesStore
  imports StoreBase
begin

section \<open>The notes store\<close>

text \<open>
  \<^verbatim>\<open>features/notes/notesStore.ts\<close>: the records of the viewer's notes, live notes and tombstones, held
  in memory and mirrored to the browser's storage with a debounced flush. The record \<open>notes_store\<close> is the
  state of \<open>createNotesStore\<close>; \<open>nt_notified\<close> counts the calls of its listeners and \<open>nt_mutations\<close>
  logs what its mutation listeners were told. Fields of a stored note the type does not name are not
  kept.
\<close>

subsection \<open>Notes and their stored form\<close>

record Note =
  nid :: string
  ngroup :: string
  ntext :: string
  nquote :: "string option"
  nsource :: "json option"
  ncreated :: num
  nupdated :: num

datatype note_record = Live Note | Tombstone string num

fun rec_id :: "note_record \<Rightarrow> string" where
  "rec_id (Live n) = nid n"
| "rec_id (Tombstone i u) = i"

fun rec_updated :: "note_record \<Rightarrow> num" where
  "rec_updated (Live n) = nupdated n"
| "rec_updated (Tombstone i u) = u"

fun active :: "note_record \<Rightarrow> bool" where
  "active (Live n) = True"
| "active (Tombstone i u) = False"

fun live_note :: "note_record \<Rightarrow> Note option" where
  "live_note (Live n) = Some n"
| "live_note (Tombstone i u) = None"

type_synonym stored_note = "note_record stored"

abbreviation sid :: "stored_note \<Rightarrow> string" where
  "sid r \<equiv> rec_id (body r)"

definition recordPrefix :: string where
  "recordPrefix = ''herder.web.notes.v1:'' @ ''record'' @ '':''"

definition backupPrefix :: string where
  "backupPrefix = ''herder.web.notes.v1:'' @ ''last-good'' @ '':''"

definition recoveryPrefix :: string where
  "recoveryPrefix = ''herder.web.notes.v1:'' @ ''recovery'' @ '':''"

definition lastTargetKey :: string where
  "lastTargetKey = ''herder.web.notes.v1:'' @ ''last-target''"

definition recordKey :: "string \<Rightarrow> string" where
  "recordKey i = key_of recordPrefix i"

definition backupKey :: "string \<Rightarrow> string" where
  "backupKey i = key_of backupPrefix i"

definition recordID :: "string \<Rightarrow> string option" where
  "recordID key = decodeURIComponent (drop (length recordPrefix) key)"

text \<open>\<open>JSON.stringify\<close> of a stored note, as a value.\<close>

definition note_fields :: "Note \<Rightarrow> (string \<times> json) list" where
  "note_fields n =
     [(''id'', JStr (nid n)), (''group'', JStr (ngroup n)), (''text'', JStr (ntext n))]
     @ (case nquote n of None \<Rightarrow> [] | Some q \<Rightarrow> [(''quote'', JStr q)])
     @ (case nsource n of None \<Rightarrow> [] | Some v \<Rightarrow> [(''source'', v)])
     @ [(''created'', JNum (ncreated n))]"

fun record_json :: "note_record \<Rightarrow> json" where
  "record_json (Live n) = JObj (note_fields n @ [(''updated'', JNum (nupdated n))])"
| "record_json (Tombstone i u) =
     JObj [(''id'', JStr i), (''deleted'', JBool True), (''updated'', JNum u)]"

definition stored_json :: "stored_note \<Rightarrow> json" where
  "stored_json r =
     JObj [(''version'', JNum 1), (''writeID'', JStr (writeID r)), (''record'', record_json (body r))]"

definition parse_record :: "json \<Rightarrow> note_record option" where
  "parse_record v =
     (case (as_string (field v ''id''), as_finite (field v ''updated'')) of
        (Some i, Some u) \<Rightarrow>
          (case field v ''deleted'' of
             Some d \<Rightarrow> if d = JBool True then Some (Tombstone i u) else None
           | None \<Rightarrow>
               (case (as_string (field v ''group''), as_string (field v ''text''),
                      as_finite (field v ''created''), opt_string (field v ''quote'')) of
                  (Some g, Some t, Some c, Some q) \<Rightarrow>
                    Some (Live \<lparr>nid = i, ngroup = g, ntext = t, nquote = q,
                                nsource = field v ''source'', ncreated = c, nupdated = u\<rparr>)
                | _ \<Rightarrow> None))
      | _ \<Rightarrow> None)"

definition parseStored :: "cell option \<Rightarrow> stored_note option" where
  "parseStored raw =
     (case parse_cell raw of
        None \<Rightarrow> None
      | Some v \<Rightarrow>
          (case (field v ''version'', as_string (field v ''writeID''), field v ''record'') of
             (Some ver, Some w, Some r) \<Rightarrow>
               if ver = JNum 1 \<and> is_object r
               then map_option (\<lambda>n. \<lparr>writeID = w, body = n\<rparr>) (parse_record r) else None
           | _ \<Rightarrow> None))"

definition compareStored :: "stored_note \<Rightarrow> stored_note \<Rightarrow> int" where
  "compareStored l r =
     compareStateVersions (rec_updated (body l)) (writeID l) (rec_updated (body r)) (writeID r)"

interpretation stored_notes: versioned compareStored
  unfolding compareStored_def by (rule versioned_by)

definition noteBytes :: "Note \<Rightarrow> nat" where
  "noteBytes n = length (or_else (nquote n) [] @ ntext n)"

definition storedBytes :: "stored_note \<Rightarrow> nat" where
  "storedBytes r = json_bytes (stored_json r)"

lemma parse_stored [simp]: "parseStored (Some (Json (stored_json r))) = Some r"
proof -
  have "parse_record (record_json b) = Some b" for b
  proof (cases b)
    case (Live n)
    then show ?thesis
      by (cases "nquote n"; cases "nsource n")
        (simp_all add: parse_record_def note_fields_def opt_string_def)
  qed (simp add: parse_record_def)
  moreover have "is_object (record_json b)" for b by (cases b) simp_all
  ultimately show ?thesis by (simp add: parseStored_def stored_json_def)
qed

subsection \<open>The state\<close>

text \<open>The options of \<open>createNotesStore\<close>; \<open>locale_compare\<close> is \<open>String.prototype.localeCompare\<close>.\<close>

record notes_config =
  maxActiveNotes :: nat
  maxNoteBytes :: nat
  maxTotalBytes :: int
  tombstoneRetentionMs :: num
  locale_compare :: "string \<Rightarrow> string \<Rightarrow> int"

definition default_notes_config :: "(string \<Rightarrow> string \<Rightarrow> int) \<Rightarrow> notes_config" where
  "default_notes_config lc =
     \<lparr>maxActiveNotes = 100, maxNoteBytes = 8 * 1024, maxTotalBytes = 100 * 1024,
      tombstoneRetentionMs = 30 * 24 * 60 * 60 * 1000, locale_compare = lc\<rparr>"

record notes_store =
  nt_storage :: "storage option"
  nt_records :: "(string, stored_note) jsmap"
  nt_bytes :: "(string, nat) jsmap"
  nt_total :: int
  nt_cache :: "Note list option"
  nt_dirty :: "string list"
  nt_timer :: bool
  nt_status :: store_status
  nt_target :: "string option"
  nt_attached :: bool
  nt_notified :: nat
  nt_mutations :: "stored_note list list"

definition memory_only :: string where
  "memory_only = ''Notes are kept for this session but are not saved between browser sessions.''"

definition setRecord :: "string \<Rightarrow> stored_note \<Rightarrow> notes_store \<Rightarrow> notes_store" where
  "setRecord i r s =
     (if get (nt_records s) i = Some r then s
      else let s1 = s\<lparr>nt_records := put i r (nt_records s), nt_cache := None,
                      nt_total := nt_total s - int (or_else (get (nt_bytes s) i) 0),
                      nt_bytes := del i (nt_bytes s)\<rparr>
           in if \<not> active (body r) then s1
              else s1\<lparr>nt_bytes := put i (storedBytes r) (nt_bytes s1),
                      nt_total := nt_total s1 + int (storedBytes r)\<rparr>)"

definition expired :: "notes_config \<Rightarrow> env \<Rightarrow> note_record \<Rightarrow> bool" where
  "expired cfg env r \<longleftrightarrow>
     \<not> active r \<and> js_sub (now env) (rec_updated r) > tombstoneRetentionMs cfg"

definition notify :: "notes_store \<Rightarrow> notes_store" where
  "notify s = s\<lparr>nt_notified := Suc (nt_notified s)\<rparr>"

definition degrade :: "notes_store \<Rightarrow> notes_store" where
  "degrade s =
     notify (s\<lparr>nt_storage := None, nt_dirty := [], nt_timer := False,
               nt_status := (nt_status s)\<lparr>persistent := False, problem := memory_only\<rparr>\<rparr>)"

text \<open>A write to the storage: \<open>False\<close> when it threw (a call on \<open>null\<close> does).\<close>

definition write_item :: "(storage \<Rightarrow> storage \<times> bool) \<Rightarrow> notes_store \<Rightarrow> notes_store \<times> bool" where
  "write_item f s =
     (case nt_storage s of
        None \<Rightarrow> (s, False)
      | Some st \<Rightarrow> (let (st', ok) = f st in (s\<lparr>nt_storage := Some st'\<rparr>, ok)))"

text \<open>\<open>try { ... } catch { degrade() }\<close> after the statements ran, and two writes in a row.\<close>

definition guard_storage :: "notes_store \<times> bool \<Rightarrow> notes_store" where
  "guard_storage p = (if snd p then fst p else degrade (fst p))"

definition write_both ::
    "(storage \<Rightarrow> storage \<times> bool) \<Rightarrow> (storage \<Rightarrow> storage \<times> bool) \<Rightarrow> notes_store \<Rightarrow> notes_store \<times> bool" where
  "write_both f g s = (let (s1, ok) = write_item f s in if ok then write_item g s1 else (s1, False))"

definition preserveRaw :: "string \<Rightarrow> cell \<Rightarrow> notes_store \<Rightarrow> notes_store" where
  "preserveRaw i raw s =
     (if nt_storage s = None then s
      else guard_storage (write_item (setItem (key_of recoveryPrefix i) raw) s))"

definition restored :: "string \<Rightarrow> notes_store \<Rightarrow> notes_store" where
  "restored msg s = s\<lparr>nt_status := (nt_status s)\<lparr>recovered := True, problem := msg\<rparr>\<rparr>"

definition recoverRecord :: "string \<Rightarrow> cell option \<Rightarrow> notes_store \<Rightarrow> stored_note option \<times> notes_store" where
  "recoverRecord i raw s =
     (case parseStored raw of
        Some primary \<Rightarrow> (Some primary, s)
      | None \<Rightarrow>
          (let s1 = (if truthy raw then preserveRaw i (the raw) s else s)
           in case nt_storage s1 of
                None \<Rightarrow> (None, s1)
              | Some st \<Rightarrow>
                  (case getItem st (backupKey i) of
                     None \<Rightarrow> (None, degrade s1)
                   | Some cell \<Rightarrow>
                       (case parseStored cell of
                          Some backup \<Rightarrow>
                            (Some backup, restored ''Some notes were restored from their last good copies. The unreadable data was kept for recovery.'' s1)
                        | None \<Rightarrow>
                            (None, if truthy raw
                                   then restored ''One unreadable note was kept for recovery. No usable copy was available.'' s1
                                   else s1)))))"

text \<open>The record of a key as the storage has it: \<open>None\<close> when the read threw.\<close>

definition read_record :: "string \<Rightarrow> string \<Rightarrow> notes_store \<Rightarrow> (cell option \<times> stored_note option \<times> notes_store) option" where
  "read_record k i s =
     (case nt_storage s of
        None \<Rightarrow> None
      | Some st \<Rightarrow> map_option (\<lambda>raw. (raw, recoverRecord i raw s)) (getItem st k))"

definition load_key :: "notes_config \<Rightarrow> env \<Rightarrow> string \<times> string \<Rightarrow> notes_store \<Rightarrow> notes_store \<times> bool" where
  "load_key cfg env ki s =
     (case read_record (fst ki) (snd ki) s of
        None \<Rightarrow> (s, False)
      | Some (raw, None, s1) \<Rightarrow> (s1, True)
      | Some (raw, Some r, s1) \<Rightarrow>
          if expired cfg env (body r)
          then write_both (removeItem (fst ki)) (removeItem (backupKey (snd ki))) s1
          else (setRecord (snd ki)
                  (case get (nt_records s1) (snd ki) of
                     Some current \<Rightarrow> newer compareStored current r
                   | None \<Rightarrow> r) s1, True))"

fun load_keys :: "notes_config \<Rightarrow> env \<Rightarrow> (string \<times> string) list \<Rightarrow> notes_store \<Rightarrow> notes_store" where
  "load_keys cfg env [] s = s"
| "load_keys cfg env (ki # kis) s =
     (let (s1, ok) = load_key cfg env ki s in if ok then load_keys cfg env kis s1 else degrade s1)"

definition load :: "notes_config \<Rightarrow> env \<Rightarrow> notes_store \<Rightarrow> notes_store" where
  "load cfg env s =
     (case nt_storage s of
        None \<Rightarrow> s
      | Some st \<Rightarrow>
          if readable st then load_keys cfg env (ids_under recordPrefix st) s else degrade s)"

definition createNotesStore :: "notes_config \<Rightarrow> env \<Rightarrow> storage option \<Rightarrow> notes_store" where
  "createNotesStore cfg env storage =
     load cfg env
       \<lparr>nt_storage = storage, nt_records = [], nt_bytes = [], nt_total = 0, nt_cache = None,
        nt_dirty = [], nt_timer = False,
        nt_status = (if storage \<noteq> None then \<lparr>persistent = True, recovered = False, problem = []\<rparr>
                     else \<lparr>persistent = False, recovered = False, problem = memory_only\<rparr>),
        nt_target = None, nt_attached = False, nt_notified = 0, nt_mutations = []\<rparr>"

definition drop_note :: "string \<Rightarrow> notes_store \<Rightarrow> notes_store" where
  "drop_note i s =
     (let s1 = (if get (nt_records s) i = None then s
                else s\<lparr>nt_records := del i (nt_records s), nt_cache := None,
                       nt_total := nt_total s - int (or_else (get (nt_bytes s) i) 0),
                       nt_bytes := del i (nt_bytes s)\<rparr>);
          s2 = s1\<lparr>nt_dirty := set_remove i (nt_dirty s1)\<rparr>
      in if nt_storage s2 = None then s2
         else guard_storage (write_both (removeItem (recordKey i)) (removeItem (backupKey i)) s2))"

definition note_le :: "notes_config \<Rightarrow> Note \<Rightarrow> Note \<Rightarrow> bool" where
  "note_le cfg l r \<longleftrightarrow>
     (if ncreated l \<noteq> ncreated r then ncreated l < ncreated r
      else locale_compare cfg (nid l) (nid r) \<le> 0)"

definition sorted_notes :: "notes_config \<Rightarrow> (string, stored_note) jsmap \<Rightarrow> Note list" where
  "sorted_notes cfg m = sort_by (note_le cfg) (List.map_filter (\<lambda>r. live_note (body r)) (vals m))"

definition currentNotes :: "notes_config \<Rightarrow> notes_store \<Rightarrow> Note list \<times> notes_store" where
  "currentNotes cfg s =
     (let l = or_else (nt_cache s) (sorted_notes cfg (nt_records s)) in (l, s\<lparr>nt_cache := Some l\<rparr>))"

definition totalWith :: "stored_note \<Rightarrow> notes_store \<Rightarrow> int" where
  "totalWith c s =
     nt_total s - int (or_else (get (nt_bytes s) (sid c)) 0)
     + (if active (body c) then int (storedBytes c) else 0)"

definition refuseCandidate :: "notes_config \<Rightarrow> stored_note \<Rightarrow> bool \<Rightarrow> notes_store \<Rightarrow> string" where
  "refuseCandidate cfg c adding s =
     (if (case live_note (body c) of Some n \<Rightarrow> noteBytes n > maxNoteBytes cfg | None \<Rightarrow> False)
      then ''This note is too long to save. Shorten it and try again.''
      else if adding \<and> length (nt_bytes s) \<ge> maxActiveNotes cfg
      then ''There is no room for another note. The '' @ show_int (int (maxActiveNotes cfg))
             @ ''-note limit refuses new writing rather than deleting older notes.''
      else if totalWith c s > maxTotalBytes cfg
      then ''There is no room for this note in browser storage. Existing notes were left untouched.''
      else [])"

definition scheduleFlush :: "notes_store \<Rightarrow> notes_store" where
  "scheduleFlush s = (if nt_storage s = None \<or> nt_timer s then s else s\<lparr>nt_timer := True\<rparr>)"

definition set_dirty :: "stored_note \<Rightarrow> notes_store \<Rightarrow> notes_store" where
  "set_dirty r s = (let s1 = setRecord (sid r) r s in s1\<lparr>nt_dirty := set_add (sid r) (nt_dirty s1)\<rparr>)"

definition putBatch :: "stored_note list \<Rightarrow> notes_store \<Rightarrow> notes_store" where
  "putBatch rs s =
     (let s1 = notify (scheduleFlush (fold set_dirty rs s))
      in s1\<lparr>nt_mutations := nt_mutations s1 @ [rs]\<rparr>)"

definition reconcile :: "string \<Rightarrow> notes_store \<Rightarrow> stored_note option \<times> notes_store" where
  "reconcile i s =
     (if nt_storage s = None then (get (nt_records s) i, s)
      else case read_record (recordKey i) i s of
             None \<Rightarrow> (get (nt_records s) i, degrade s)
           | Some (raw, None, s1) \<Rightarrow> (get (nt_records s1) i, s1)
           | Some (raw, Some p, s1) \<Rightarrow>
               let memory = get (nt_records s1) i;
                   winner = (case memory of Some m \<Rightarrow> newer compareStored m p | None \<Rightarrow> p);
                   s2 = setRecord i winner s1
               in (Some winner, if Some winner \<noteq> memory then notify s2 else s2))"

text \<open>
  One id of a flush. The outcome says whether the flush goes on and whether the id was written;
  \<open>None\<close> is a call that threw.
\<close>

definition flush_one :: "string \<Rightarrow> notes_store \<Rightarrow> bool option \<times> notes_store" where
  "flush_one i s =
     (case read_record (recordKey i) i s of
        None \<Rightarrow> (None, s)
      | Some (raw, persisted, s1) \<Rightarrow>
          (case get (nt_records s1) i of
             None \<Rightarrow> (Some False, s1\<lparr>nt_dirty := set_remove i (nt_dirty s1)\<rparr>)
           | Some memory \<Rightarrow>
               let winner = (case persisted of Some p \<Rightarrow> newer compareStored memory p | None \<Rightarrow> memory);
                   s2 = setRecord i winner s1
               in if winner \<noteq> memory
                  then (Some False, notify (s2\<lparr>nt_dirty := set_remove i (nt_dirty s2)\<rparr>))
                  else let next = Json (stored_json memory);
                           keep = (if \<not> active (body memory) then removeItem (backupKey i)
                                   else if truthy raw \<and> parseStored raw \<noteq> None
                                   then setItem (backupKey i) (the raw)
                                   else setItem (backupKey i) next);
                           (s3, ok) = write_both keep (setItem (recordKey i) next) s2
                       in if ok then (Some True, s3\<lparr>nt_dirty := set_remove i (nt_dirty s3)\<rparr>)
                          else (None, s3)))"

fun flush_loop :: "string list \<Rightarrow> bool \<Rightarrow> notes_store \<Rightarrow> bool \<times> notes_store" where
  "flush_loop [] wrote s = (wrote, s)"
| "flush_loop (i # is) wrote s =
     (case flush_one i s of
        (None, s1) \<Rightarrow> (False, degrade s1)
      | (Some w, s1) \<Rightarrow> flush_loop is (wrote \<or> w) s1)"

definition flush :: "notes_store \<Rightarrow> bool \<times> notes_store" where
  "flush s = (if nt_storage s = None \<or> nt_dirty s = [] then (False, s) else flush_loop (nt_dirty s) False s)"

text \<open>The debounced flush.\<close>

definition timer_fired :: "notes_store \<Rightarrow> notes_store" where
  "timer_fired s = (if nt_timer s then snd (flush (s\<lparr>nt_timer := False\<rparr>)) else s)"

text \<open>
  A storage event of another tab: its key, its new value and whether it concerns this store's
  storage.
\<close>

definition onStorageEvent :: "string option \<Rightarrow> cell option \<Rightarrow> bool \<Rightarrow> notes_store \<Rightarrow> notes_store" where
  "onStorageEvent key newValue same_area s =
     (case key of
        None \<Rightarrow> s
      | Some k \<Rightarrow>
          if \<not> nt_attached s \<or> \<not> starts_with recordPrefix k \<or> (nt_storage s \<noteq> None \<and> \<not> same_area) then s
          else case recordID k of
                 None \<Rightarrow> s
               | Some i \<Rightarrow>
                   (case recoverRecord i newValue s of
                      (None, s1) \<Rightarrow> s1
                    | (Some incoming, s1) \<Rightarrow>
                        let current = get (nt_records s1) i;
                            winner = (case current of Some c \<Rightarrow> newer compareStored c incoming | None \<Rightarrow> incoming)
                        in if Some winner = current then s1
                           else let s2 = setRecord i winner s1
                                in notify (s2\<lparr>nt_dirty := set_remove i (nt_dirty s2)\<rparr>)))"

subsection \<open>The interface\<close>

definition listGroup :: "notes_config \<Rightarrow> string \<Rightarrow> notes_store \<Rightarrow> Note list \<times> notes_store" where
  "listGroup cfg g s = (let (l, s1) = currentNotes cfg s in (filter (\<lambda>n. ngroup n = g) l, s1))"

definition add ::
    "notes_config \<Rightarrow> env \<Rightarrow> string \<Rightarrow> string \<Rightarrow> string option \<Rightarrow> json option \<Rightarrow> notes_store
     \<Rightarrow> Note outcome_of \<times> notes_store" where
  "add cfg env grp text quote source s =
     (let v = js_trim text; captured = map_option js_trim quote;
          has_quote = (captured \<noteq> None \<and> captured \<noteq> Some [])
      in if v = [] \<and> \<not> has_quote then (Inl ''Write something before saving this note.'', s)
         else let n = \<lparr>nid = ids env 0, ngroup = grp, ntext = v,
                       nquote = (if has_quote then captured else None), nsource = source,
                       ncreated = now env, nupdated = now env\<rparr>;
                  r = \<lparr>writeID = ids env 1, body = Live n\<rparr>;
                  reason = refuseCandidate cfg r True s
              in if reason \<noteq> [] then (Inl reason, s) else (Inr n, putBatch [r] s))"

text \<open>What an edit starts from: the live record, or the note the caller held when it was deleted.\<close>

definition edit_base :: "string \<Rightarrow> stored_note option \<Rightarrow> Note option \<Rightarrow> Note option" where
  "edit_base i current fallback =
     (case Option.bind current (\<lambda>r. live_note (body r)) of
        Some n \<Rightarrow> Some n
      | None \<Rightarrow> (case fallback of Some f \<Rightarrow> if nid f = i then Some f else None | None \<Rightarrow> None))"

definition edited :: "env \<Rightarrow> stored_note option \<Rightarrow> Note \<Rightarrow> string \<Rightarrow> string option \<Rightarrow> Note" where
  "edited env current b t grp =
     b\<lparr>ngroup := or_else grp (ngroup b), ntext := t,
       nupdated := max (now env)
         (js_add (case current of Some r \<Rightarrow> rec_updated (body r) | None \<Rightarrow> nupdated b) 1)\<rparr>"

definition edit ::
    "notes_config \<Rightarrow> env \<Rightarrow> string \<Rightarrow> string option \<Rightarrow> string option \<Rightarrow> Note option \<Rightarrow> notes_store
     \<Rightarrow> Note outcome_of \<times> notes_store" where
  "edit cfg env i text grp fallback s =
     (let (current, s1) = reconcile i s
      in case edit_base i current fallback of
           None \<Rightarrow> (Inl ''This note no longer exists.'', s1)
         | Some b \<Rightarrow>
             let t = (case text of None \<Rightarrow> ntext b | Some t \<Rightarrow> js_trim t)
             in if t = [] \<and> (nquote b = None \<or> nquote b = Some [])
                then (Inl ''A note cannot be empty.'', s1)
                else let n = edited env current b t grp;
                         r = \<lparr>writeID = ids env 0, body = Live n\<rparr>;
                         reason = refuseCandidate cfg r False s1
                     in if reason \<noteq> [] then (Inl reason, s1) else (Inr n, putBatch [r] s1))"

text \<open>The tombstones of a deletion; the \<open>n\<close>-th draws the \<open>n\<close>-th id.\<close>

fun tombstones :: "env \<Rightarrow> string list \<Rightarrow> stored_note list \<Rightarrow> notes_store \<Rightarrow> stored_note list \<times> notes_store" where
  "tombstones env [] ts s = (ts, s)"
| "tombstones env (i # is) ts s =
     (let (current, s1) = reconcile i s
      in case Option.bind current (\<lambda>r. live_note (body r)) of
           None \<Rightarrow> tombstones env is ts s1
         | Some n \<Rightarrow>
             tombstones env is
               (ts @ [\<lparr>writeID = ids env (length ts),
                       body = Tombstone i (max (now env) (js_add (nupdated n) 1))\<rparr>]) s1)"

definition delete :: "env \<Rightarrow> string list \<Rightarrow> notes_store \<Rightarrow> nat outcome_of \<times> notes_store" where
  "delete env is s =
     (let (ts, s1) = tombstones env is [] s
      in if ts = [] then (Inl ''These notes no longer exist.'', s1) else (Inr (length ts), putBatch ts s1))"

definition all_records :: "notes_store \<Rightarrow> stored_note list" where
  "all_records s = vals (nt_records s)"

definition record_at :: "notes_store \<Rightarrow> string \<Rightarrow> stored_note option" where
  "record_at s i = get (nt_records s) i"

definition merge_one :: "notes_config \<Rightarrow> env \<Rightarrow> stored_note \<Rightarrow> bool \<times> notes_store \<Rightarrow> bool \<times> notes_store" where
  "merge_one cfg env r cs =
     (case cs of (changed, s) \<Rightarrow>
        (case get (nt_records s) (sid r) of
           None \<Rightarrow>
             if expired cfg env (body r) then (changed, s) else (True, set_dirty r s)
         | Some current \<Rightarrow>
             if newer compareStored current r = current then (changed, s)
             else if expired cfg env (body r) then (True, drop_note (sid r) s)
             else (True, set_dirty r s)))"

definition merge :: "notes_config \<Rightarrow> env \<Rightarrow> stored_note list \<Rightarrow> notes_store \<Rightarrow> notes_store" where
  "merge cfg env rs s =
     (let (changed, s1) = fold (merge_one cfg env) rs (False, s)
      in if changed then notify (scheduleFlush s1) else s1)"

definition forget_notes :: "string list \<Rightarrow> notes_store \<Rightarrow> notes_store" where
  "forget_notes is s =
     (let known = filter (\<lambda>i. get (nt_records s) i \<noteq> None) is;
          s1 = fold drop_note known s
      in if known \<noteq> [] then notify s1 else s1)"

definition subscribe :: "notes_store \<Rightarrow> notes_store" where
  "subscribe s = s\<lparr>nt_attached := True\<rparr>"

definition lastTarget :: "notes_store \<Rightarrow> cell option" where
  "lastTarget s =
     (case nt_storage s of
        None \<Rightarrow> map_option Plain (nt_target s)
      | Some st \<Rightarrow>
          (case getItem st lastTargetKey of
             None \<Rightarrow> map_option Plain (nt_target s)
           | Some cell \<Rightarrow> if truthy cell then cell else None))"

definition rememberTarget :: "string \<Rightarrow> notes_store \<Rightarrow> notes_store" where
  "rememberTarget grp s =
     (if grp = ''general'' then s
      else fst (write_item (setItem lastTargetKey (Plain grp)) (s\<lparr>nt_target := Some grp\<rparr>)))"

definition dispose :: "notes_store \<Rightarrow> notes_store" where
  "dispose s = (snd (flush s))\<lparr>nt_timer := False, nt_attached := False\<rparr>"

end
