(* ===== verification/NotesProps.thy ===== *)
theory NotesProps
  imports NotesStore
begin

section \<open>What the notes store guarantees\<close>

text \<open>
  The invariant of the notes store of \<^verbatim>\<open>features/notes/notesStore.ts\<close> and what it makes true: the
  running total is the size of the live notes, the cached list is the sorted list, no failure of the
  storage loses a note held in memory, an edit wins over what it edits, and a flushed store reloads
  to the same notes.
\<close>

subsection \<open>The bookkeeping\<close>

definition live_bytes :: "stored_note option \<Rightarrow> nat option" where
  "live_bytes r = (case r of Some n \<Rightarrow> if active (body n) then Some (storedBytes n) else None | None \<Rightarrow> None)"

text \<open>What the bookkeeping depends on.\<close>

definition core :: "notes_store \<Rightarrow> (string, stored_note) jsmap \<times> (string, nat) jsmap \<times> int \<times> Note list option" where
  "core s = (nt_records s, nt_bytes s, nt_total s, nt_cache s)"

fun wf_core :: "notes_config \<Rightarrow> (string, stored_note) jsmap \<times> (string, nat) jsmap \<times> int \<times> Note list option \<Rightarrow> bool" where
  "wf_core cfg (m, b, t, c) \<longleftrightarrow>
     wf_map m \<and> (\<forall>i r. get m i = Some r \<longrightarrow> sid r = i) \<and>
     wf_map b \<and> (\<forall>i. get b i = live_bytes (get m i)) \<and>
     t = sum_list (map (int \<circ> snd) b) \<and>
     (case c of None \<Rightarrow> True | Some l \<Rightarrow> l = sorted_notes cfg m)"

definition notes_wf :: "notes_config \<Rightarrow> notes_store \<Rightarrow> bool" where
  "notes_wf cfg s \<longleftrightarrow> wf_core cfg (core s)"

lemma core_eqs:
  "core t = core s \<longleftrightarrow> nt_records t = nt_records s \<and> nt_bytes t = nt_bytes s \<and>
     nt_total t = nt_total s \<and> nt_cache t = nt_cache s"
  by (auto simp: core_def)

lemma core_frame [simp]:
  "core (notify s) = core s" "core (degrade s) = core s" "core (scheduleFlush s) = core s"
  "core (restored m s) = core s" "core (fst (write_item f s)) = core s"
  "core (guard_storage p) = core (fst p)" "core (fst (write_both f g s)) = core s"
  "core (preserveRaw i raw s) = core s"
  by (auto simp: core_eqs notify_def degrade_def scheduleFlush_def restored_def write_item_def
      guard_storage_def write_both_def preserveRaw_def Let_def split: option.split prod.split)

lemma core_recoverRecord [simp]: "core (snd (recoverRecord i raw s)) = core s"
  by (auto simp: recoverRecord_def Let_def split: option.split)

lemma core_upd [simp]:
  "core (s\<lparr>nt_dirty := d\<rparr>) = core s" "core (s\<lparr>nt_timer := b\<rparr>) = core s"
  "core (s\<lparr>nt_storage := st\<rparr>) = core s" "core (s\<lparr>nt_mutations := ms\<rparr>) = core s"
  "core (s\<lparr>nt_target := t\<rparr>) = core s" "core (s\<lparr>nt_attached := b\<rparr>) = core s"
  by (simp_all add: core_eqs)

lemma read_record_core: "read_record k i s = Some (raw, p, t) \<Longrightarrow> core t = core s"
  using core_recoverRecord [of i raw s] by (auto simp: read_record_def split: option.splits)
    (metis core_recoverRecord snd_conv)

lemma records_core: "core t = core s \<Longrightarrow> nt_records t = nt_records s"
  by (simp add: core_eqs)

lemmas records_frame [simp] = core_frame [THEN records_core] core_recoverRecord [THEN records_core]

lemma wf_parts:
  "notes_wf cfg s \<longleftrightarrow>
     wf_map (nt_records s) \<and> (\<forall>i r. get (nt_records s) i = Some r \<longrightarrow> sid r = i) \<and>
     wf_map (nt_bytes s) \<and> (\<forall>i. get (nt_bytes s) i = live_bytes (get (nt_records s) i)) \<and>
     nt_total s = sum_list (map (int \<circ> snd) (nt_bytes s)) \<and>
     (case nt_cache s of None \<Rightarrow> True | Some l \<Rightarrow> l = sorted_notes cfg (nt_records s))"
  by (simp add: notes_wf_def core_def)

text \<open>A record taken out, as \<open>setRecord\<close> and \<open>drop\<close> do first.\<close>

definition unbooked :: "string \<Rightarrow> notes_store \<Rightarrow> notes_store" where
  "unbooked i s = s\<lparr>nt_records := del i (nt_records s), nt_cache := None,
     nt_total := nt_total s - int (or_else (get (nt_bytes s) i) 0), nt_bytes := del i (nt_bytes s)\<rparr>"

lemma wf_unbooked: "notes_wf cfg s \<Longrightarrow> notes_wf cfg (unbooked i s)"
  using sum_del [of "nt_bytes s" int i]
  by (auto simp: wf_parts unbooked_def get_del live_bytes_def or_else_def split: option.splits if_splits)

lemma wf_setRecord:
  assumes wf: "notes_wf cfg s" and i: "sid r = i"
  shows "notes_wf cfg (setRecord i r s)"
proof (cases "get (nt_records s) i = Some r")
  case True
  then show ?thesis using wf by (simp add: setRecord_def)
next
  case False
  have u: "notes_wf cfg (unbooked i s)" using wf by (rule wf_unbooked)
  let ?t = "setRecord i r s"
  have m: "nt_records ?t = put i r (nt_records s)" "nt_cache ?t = None"
    using False by (simp_all add: setRecord_def Let_def)
  have b: "nt_bytes ?t = (if active (body r) then put i (storedBytes r) (nt_bytes (unbooked i s))
      else nt_bytes (unbooked i s))"
    using False by (simp add: setRecord_def unbooked_def Let_def)
  have t: "nt_total ?t = nt_total (unbooked i s) + (if active (body r) then int (storedBytes r) else 0)"
    using False by (simp add: setRecord_def unbooked_def Let_def)
  have none: "get (nt_bytes (unbooked i s)) i = None" "get (nt_records (unbooked i s)) i = None"
    by (simp_all add: unbooked_def get_del)
  have "wf_map (nt_records ?t)" "\<forall>j q. get (nt_records ?t) j = Some q \<longrightarrow> sid q = j"
    using wf i by (auto simp: m wf_parts get_put)
  moreover have "wf_map (nt_bytes ?t)" using u by (simp add: b wf_parts)
  moreover have "get (nt_bytes ?t) j = live_bytes (get (nt_records ?t) j)" for j
    using wf by (simp add: b m wf_parts get_put unbooked_def get_del live_bytes_def)
  moreover have "nt_total ?t = sum_list (map (int \<circ> snd) (nt_bytes ?t))"
    using u by (simp add: t b wf_parts sum_put none live_bytes_def)
  ultimately show ?thesis using m(2) unfolding wf_parts by simp
qed

lemma wf_core_eq: "core t = core s \<Longrightarrow> notes_wf cfg t = notes_wf cfg s"
  by (simp add: notes_wf_def)

lemma wf_frame [simp]:
  "notes_wf cfg (notify s) = notes_wf cfg s" "notes_wf cfg (degrade s) = notes_wf cfg s"
  "notes_wf cfg (scheduleFlush s) = notes_wf cfg s" "notes_wf cfg (restored m s) = notes_wf cfg s"
  "notes_wf cfg (fst (write_item f s)) = notes_wf cfg s"
  "notes_wf cfg (guard_storage p) = notes_wf cfg (fst p)"
  "notes_wf cfg (fst (write_both f g s)) = notes_wf cfg s"
  "notes_wf cfg (preserveRaw i raw s) = notes_wf cfg s"
  "notes_wf cfg (snd (recoverRecord i c s)) = notes_wf cfg s"
  "notes_wf cfg (s\<lparr>nt_dirty := d\<rparr>) = notes_wf cfg s" "notes_wf cfg (s\<lparr>nt_timer := b\<rparr>) = notes_wf cfg s"
  "notes_wf cfg (s\<lparr>nt_storage := st\<rparr>) = notes_wf cfg s"
  "notes_wf cfg (s\<lparr>nt_mutations := ms\<rparr>) = notes_wf cfg s"
  "notes_wf cfg (s\<lparr>nt_target := t\<rparr>) = notes_wf cfg s" "notes_wf cfg (s\<lparr>nt_attached := b\<rparr>) = notes_wf cfg s"
  by (simp_all add: notes_wf_def)

lemma wf_drop: "notes_wf cfg s \<Longrightarrow> notes_wf cfg (drop_note i s)"
  using wf_unbooked [of cfg s i] by (simp add: drop_note_def unbooked_def Let_def)

lemma wf_currentNotes: "notes_wf cfg s \<Longrightarrow> notes_wf cfg (snd (currentNotes cfg s))"
  by (auto simp: currentNotes_def notes_wf_def core_def Let_def or_else_def split: option.splits)

lemma currentNotes_value:
  "notes_wf cfg s \<Longrightarrow> fst (currentNotes cfg s) = sorted_notes cfg (nt_records s)"
  by (auto simp: currentNotes_def notes_wf_def core_def Let_def or_else_def split: option.splits)

subsection \<open>The storage\<close>

definition keyed_cell :: "string \<Rightarrow> cell option \<Rightarrow> bool" where
  "keyed_cell i c \<longleftrightarrow> (\<forall>r. parseStored c = Some r \<longrightarrow> sid r = i)"

text \<open>The ids whose record or backup a key holds.\<close>

definition cell_for :: "string \<Rightarrow> string \<Rightarrow> bool" where
  "cell_for k i \<longleftrightarrow>
     (starts_with recordPrefix k \<and> recordID k = Some i) \<or> k = recordKey i \<or> k = backupKey i"

definition keyed_storage :: "storage \<Rightarrow> bool" where
  "keyed_storage st \<longleftrightarrow> (\<forall>k i. cell_for k i \<longrightarrow> keyed_cell i (get (items st) k))"

definition keyed :: "notes_store \<Rightarrow> bool" where
  "keyed s \<longleftrightarrow> (case nt_storage s of None \<Rightarrow> True | Some st \<Rightarrow> keyed_storage st)"

lemma keyed_cell_None [simp]: "keyed_cell i None"
  by (simp add: keyed_cell_def parseStored_def)

lemma keyed_cell_stored [simp]: "keyed_cell i (Some (Json (stored_json r))) \<longleftrightarrow> sid r = i"
  by (simp add: keyed_cell_def)

lemma families [simp]:
  "recordKey i \<noteq> backupKey j" "backupKey j \<noteq> recordKey i"
  "recordKey i = recordKey j \<longleftrightarrow> i = j" "backupKey i = backupKey j \<longleftrightarrow> i = j"
proof -
  show "recordKey i \<noteq> backupKey j"
    unfolding recordKey_def backupKey_def
    by (rule key_of_family [OF recordPrefix_def backupPrefix_def]) (simp_all add: colon_char)
  then show "backupKey j \<noteq> recordKey i" by metis
qed (simp_all add: recordKey_def backupKey_def)

lemma not_record_family [simp]:
  "\<not> starts_with recordPrefix (backupKey i)" "\<not> starts_with recordPrefix (key_of recoveryPrefix i)"
  "\<not> starts_with recordPrefix lastTargetKey"
  by (simp_all add: backupKey_def key_of_def starts_with.simps recordPrefix_def backupPrefix_def
      recoveryPrefix_def lastTargetKey_def)

lemma recordKey_starts [simp]: "starts_with recordPrefix (recordKey i)"
  by (simp add: recordKey_def)

lemma cell_for_keys:
  "cell_for (recordKey i) j \<Longrightarrow> j = i" "cell_for (backupKey i) j \<Longrightarrow> j = i"
  by (auto simp: cell_for_def recordID_def recordKey_def key_of_def decodeURIComponent_def
      percent_decode_encode split: if_splits option.splits)
    (metis key_of_def key_of_starts backupKey_def not_record_family(1) recordKey_def)+

definition safe_write :: "(storage \<Rightarrow> storage \<times> bool) \<Rightarrow> bool" where
  "safe_write f \<longleftrightarrow> (\<forall>st. keyed_storage st \<longrightarrow> keyed_storage (fst (f st)))"

lemma safe_setItem:
  "(\<And>i. cell_for k i \<Longrightarrow> keyed_cell i (Some c)) \<Longrightarrow> safe_write (setItem k c)"
  unfolding safe_write_def keyed_storage_def
proof (intro allI impI)
  fix st :: storage and j i
  assume c: "\<And>i. cell_for k i \<Longrightarrow> keyed_cell i (Some c)"
    and st: "\<forall>k i. cell_for k i \<longrightarrow> keyed_cell i (get (items st) k)" and ji: "cell_for j i"
  show "keyed_cell i (get (items (fst (setItem k c st))) j)"
    using setItem_items [of k c st] c st ji by (auto simp: get_put)
qed

lemma safe_removeItem: "safe_write (removeItem k)"
  unfolding safe_write_def keyed_storage_def
proof (intro allI impI)
  fix st :: storage and j i
  assume st: "\<forall>k i. cell_for k i \<longrightarrow> keyed_cell i (get (items st) k)" and ji: "cell_for j i"
  show "keyed_cell i (get (items (fst (removeItem k st))) j)"
    using removeItem_items [of k st] st ji by (auto simp: get_del)
qed

lemma safe_recovery: "safe_write (setItem (key_of recoveryPrefix i) c)"
proof (rule safe_setItem)
  have "key_of recoveryPrefix i \<noteq> recordKey j" for j
    by (metis not_record_family(2) recordKey_starts)
  moreover have "key_of recoveryPrefix i \<noteq> backupKey j" for j
    unfolding backupKey_def
    by (rule key_of_family [OF recoveryPrefix_def backupPrefix_def]) (simp_all add: colon_char)
  ultimately show "cell_for (key_of recoveryPrefix i) j \<Longrightarrow> keyed_cell j (Some c)" for j
    by (auto simp: cell_for_def)
qed

lemma target_key: "lastTargetKey \<noteq> recordKey j" "lastTargetKey \<noteq> backupKey j"
proof -
  show "lastTargetKey \<noteq> recordKey j"
    by (metis not_record_family(3) recordKey_starts)
  show "lastTargetKey \<noteq> backupKey j"
  proof
    assume "lastTargetKey = backupKey j"
    then have "take 30 lastTargetKey = take 30 (backupKey j)" by simp
    then show False by (simp add: backupKey_def key_of_def lastTargetKey_def backupPrefix_def)
  qed
qed

lemma safe_target: "safe_write (setItem lastTargetKey c)"
  by (rule safe_setItem) (auto simp: cell_for_def target_key)

lemma keyed_upd [simp]:
  "keyed (s\<lparr>nt_dirty := d\<rparr>) = keyed s" "keyed (s\<lparr>nt_timer := b\<rparr>) = keyed s"
  "keyed (s\<lparr>nt_mutations := ms\<rparr>) = keyed s" "keyed (s\<lparr>nt_target := t\<rparr>) = keyed s"
  "keyed (s\<lparr>nt_attached := b\<rparr>) = keyed s" "keyed (s\<lparr>nt_cache := c\<rparr>) = keyed s"
  "keyed (notify s) = keyed s" "keyed (scheduleFlush s) = keyed s" "keyed (restored m s) = keyed s"
  "keyed (setRecord i r s) = keyed s" "keyed (set_dirty r s) = keyed s" "keyed (degrade s)"
  by (simp_all add: keyed_def notify_def scheduleFlush_def restored_def setRecord_def set_dirty_def
      degrade_def Let_def)

lemma keyed_write_item: "safe_write f \<Longrightarrow> keyed s \<Longrightarrow> keyed (fst (write_item f s))"
  by (auto simp: keyed_def write_item_def safe_write_def Let_def split: option.splits prod.split)

lemma keyed_write_both:
  "safe_write f \<Longrightarrow> safe_write g \<Longrightarrow> keyed s \<Longrightarrow> keyed (fst (write_both f g s))"
  using keyed_write_item [of f s] keyed_write_item [of g "fst (write_item f s)"]
  by (cases "write_item f s") (auto simp: write_both_def)

lemma keyed_guard: "keyed (fst p) \<Longrightarrow> keyed (guard_storage p)"
  by (simp add: guard_storage_def)

lemma keyed_preserveRaw: "keyed s \<Longrightarrow> keyed (preserveRaw i raw s)"
  by (simp add: preserveRaw_def keyed_guard keyed_write_item safe_recovery)

lemma keyed_recoverRecord:
  assumes k: "keyed s" and c: "keyed_cell i raw" and e: "recoverRecord i raw s = (p, t)"
  shows "keyed t" and "\<forall>r. p = Some r \<longrightarrow> sid r = i"
proof -
  let ?s1 = "if truthy raw then preserveRaw i (the raw) s else s"
  have k1: "keyed ?s1" using k by (simp add: keyed_preserveRaw)
  have bk: "keyed_cell i (get (items st) (backupKey i))" if "nt_storage ?s1 = Some st" for st
    using k1 that by (auto simp: keyed_def keyed_storage_def cell_for_def)
  show "keyed t"
    using e k k1 by (auto simp: recoverRecord_def Let_def split: option.splits if_splits)
  show "\<forall>r. p = Some r \<longrightarrow> sid r = i"
  proof (cases "parseStored raw")
    case (Some r)
    then show ?thesis using e c by (auto simp: recoverRecord_def keyed_cell_def)
  next
    case None
    then show ?thesis
      using e bk
      by (auto simp: recoverRecord_def Let_def keyed_cell_def getItem_def
          split: option.splits if_splits)
  qed
qed

subsection \<open>The invariant\<close>

definition notes_inv :: "notes_config \<Rightarrow> notes_store \<Rightarrow> bool" where
  "notes_inv cfg s \<longleftrightarrow> notes_wf cfg s \<and> keyed s"

lemma inv_frame [simp]:
  "notes_inv cfg (notify s) = notes_inv cfg s" "notes_inv cfg (scheduleFlush s) = notes_inv cfg s"
  "notes_inv cfg (s\<lparr>nt_dirty := d\<rparr>) = notes_inv cfg s" "notes_inv cfg (s\<lparr>nt_timer := b\<rparr>) = notes_inv cfg s"
  "notes_inv cfg (s\<lparr>nt_mutations := ms\<rparr>) = notes_inv cfg s" "notes_inv cfg (s\<lparr>nt_target := t\<rparr>) = notes_inv cfg s"
  "notes_inv cfg (s\<lparr>nt_attached := b\<rparr>) = notes_inv cfg s"
  by (simp_all add: notes_inv_def)

lemma inv_degrade [inv_intros]: "notes_wf cfg s \<Longrightarrow> notes_inv cfg (degrade s)"
  by (simp add: notes_inv_def)

lemma inv_setRecord [inv_intros]: "notes_inv cfg s \<Longrightarrow> sid r = i \<Longrightarrow> notes_inv cfg (setRecord i r s)"
  by (simp add: notes_inv_def wf_setRecord)

lemma inv_set_dirty [inv_intros]: "notes_inv cfg s \<Longrightarrow> notes_inv cfg (set_dirty r s)"
  by (simp add: set_dirty_def Let_def inv_setRecord)

lemma inv_write_both [inv_intros]:
  "safe_write f \<Longrightarrow> safe_write g \<Longrightarrow> notes_inv cfg s \<Longrightarrow> notes_inv cfg (fst (write_both f g s))"
  by (simp add: notes_inv_def keyed_write_both)

lemma inv_guard [inv_intros]: "notes_inv cfg (fst p) \<Longrightarrow> notes_inv cfg (guard_storage p)"
  by (simp add: notes_inv_def keyed_guard)

lemma inv_recoverRecord:
  assumes "notes_inv cfg s" and "keyed_cell i raw" and "recoverRecord i raw s = (p, t)"
  shows "notes_inv cfg t" and "\<And>r. p = Some r \<Longrightarrow> sid r = i"
  using assms keyed_recoverRecord [OF _ assms(2,3)] core_recoverRecord [of i raw s]
  by (auto simp: notes_inv_def notes_wf_def)

lemma inv_read_record:
  assumes "notes_inv cfg s" and "cell_for k i" and "read_record k i s = Some (raw, p, t)"
  shows "notes_inv cfg t" and "\<And>r. p = Some r \<Longrightarrow> sid r = i"
proof -
  obtain st where st: "nt_storage s = Some st" "getItem st k = Some raw" "recoverRecord i raw s = (p, t)"
    using assms(3) by (auto simp: read_record_def split: option.splits)
  have "keyed_cell i raw"
    using assms(1,2) st(1,2) by (auto simp: notes_inv_def keyed_def keyed_storage_def getItem_def split: if_splits)
  then show "notes_inv cfg t" "\<And>r. p = Some r \<Longrightarrow> sid r = i"
    using inv_recoverRecord [OF assms(1) _ st(3)] by auto
qed

lemma inv_record_id: "notes_inv cfg s \<Longrightarrow> get (nt_records s) i = Some r \<Longrightarrow> sid r = i"
  by (simp add: notes_inv_def wf_parts)

lemma newer_id: "sid a = i \<Longrightarrow> sid b = i \<Longrightarrow> sid (newer compareStored a b) = i"
  by (simp add: newer_def)

lemma cell_for_recordKey [simp]: "cell_for (recordKey i) i"
  by (simp add: cell_for_def)

lemma inv_load_key:
  assumes inv: "notes_inv cfg s" and ki: "cell_for (fst ki) (snd ki)"
  shows "notes_inv cfg (fst (load_key cfg env ki s))"
proof (cases "read_record (fst ki) (snd ki) s")
  case (Some x)
  obtain raw p t where x: "x = (raw, p, t)" by (metis prod_cases3)
  note rd = inv_read_record [OF inv ki Some [unfolded x]]
  show ?thesis
  proof (cases p)
    case None
    with Some x rd show ?thesis by (simp add: load_key_def)
  next
    case (Some r)
    have "notes_inv cfg (fst (write_both (removeItem (fst ki)) (removeItem (backupKey (snd ki))) t))"
      using rd(1) by (intro inv_write_both safe_removeItem)
    moreover have "notes_inv cfg (setRecord (snd ki)
        (case get (nt_records t) (snd ki) of Some c \<Rightarrow> newer compareStored c r | None \<Rightarrow> r) t)"
      using rd Some inv_record_id [OF rd(1)]
      by (intro inv_setRecord) (auto simp: newer_id split: option.split)
    ultimately show ?thesis
      using \<open>read_record (fst ki) (snd ki) s = Some x\<close> x Some by (simp add: load_key_def)
  qed
qed (use inv in \<open>simp add: load_key_def\<close>)

lemma inv_load_keys:
  "notes_inv cfg s \<Longrightarrow> (\<forall>ki \<in> set kis. cell_for (fst ki) (snd ki)) \<Longrightarrow> notes_inv cfg (load_keys cfg env kis s)"
proof (induction kis arbitrary: s)
  case (Cons ki kis)
  have "notes_inv cfg (fst (load_key cfg env ki s))"
    using Cons.prems by (intro inv_load_key) auto
  then show ?case
    using Cons by (cases "load_key cfg env ki s") (auto simp: Let_def notes_inv_def)
qed simp

lemma inv_created:
  assumes "\<And>st. storage = Some st \<Longrightarrow> keyed_storage st"
  shows "notes_inv cfg (createNotesStore cfg env storage)"
proof -
  have start: "notes_inv cfg
      \<lparr>nt_storage = storage, nt_records = [], nt_bytes = [], nt_total = 0, nt_cache = None,
       nt_dirty = [], nt_timer = False, nt_status = st, nt_target = None, nt_attached = False,
       nt_notified = 0, nt_mutations = []\<rparr>" for st
    using assms by (auto simp: notes_inv_def wf_parts keyed_def live_bytes_def split: option.split)
  have "\<forall>ki \<in> set (ids_under recordPrefix st). cell_for (fst ki) (snd ki)" for st
    by (auto simp: ids_under_in cell_for_def recordID_def)
  then show ?thesis
    unfolding createNotesStore_def load_def using start
    by (auto split: option.split intro!: inv_load_keys inv_degrade) (auto simp: notes_inv_def)
qed

lemma inv_reconcile:
  assumes inv: "notes_inv cfg s" and e: "reconcile i s = (c, t)"
  shows "notes_inv cfg t" and "c = get (nt_records t) i"
proof -
  have "notes_inv cfg t \<and> c = get (nt_records t) i"
  proof (cases "nt_storage s = None")
    case False
    show ?thesis
    proof (cases "read_record (recordKey i) i s")
      case None
      with False e inv show ?thesis by (auto simp: reconcile_def notes_inv_def)
    next
      case (Some x)
      obtain raw p u where x: "x = (raw, p, u)" by (metis prod_cases3)
      note rd = inv_read_record [OF inv cell_for_recordKey Some [unfolded x]]
      show ?thesis
      proof (cases p)
        case None
        with Some x rd e False show ?thesis by (auto simp: reconcile_def)
      next
        case p: (Some r)
        let ?w = "case get (nt_records u) i of Some m \<Rightarrow> newer compareStored m r | None \<Rightarrow> r"
        have "sid ?w = i"
          using rd p inv_record_id [OF rd(1)] by (auto simp: newer_id split: option.split)
        then have "notes_inv cfg (setRecord i ?w u)" by (rule inv_setRecord [OF rd(1)])
        moreover have "get (nt_records (setRecord i ?w u)) i = Some ?w"
          by (simp add: setRecord_def get_put Let_def)
        ultimately show ?thesis
          using Some x p e False by (auto simp: reconcile_def Let_def)
      qed
    qed
  qed (use e inv in \<open>auto simp: reconcile_def\<close>)
  then show "notes_inv cfg t" "c = get (nt_records t) i" by auto
qed

subsection \<open>Flushing, other tabs, merging\<close>

text \<open>No record is lost or set back: where there was one there is one at least as new.\<close>

definition advances :: "notes_store \<Rightarrow> notes_store \<Rightarrow> bool" where
  "advances s t \<longleftrightarrow> (\<forall>i r. get (nt_records s) i = Some r \<longrightarrow>
     (\<exists>q. get (nt_records t) i = Some q \<and> 0 \<le> compareStored q r))"

lemma advances_refl: "nt_records t = nt_records s \<Longrightarrow> advances s t"
  by (simp add: advances_def)

lemma advances_trans: "advances s t \<Longrightarrow> advances t u \<Longrightarrow> advances s u"
  unfolding advances_def by (meson stored_notes.cmp_trans)

lemma records_setRecord: "nt_records (setRecord i r s) = put i r (nt_records s)"
  by (simp add: setRecord_def Let_def)

lemma advances_setRecord:
  "(\<And>q. get (nt_records s) i = Some q \<Longrightarrow> 0 \<le> compareStored r q) \<Longrightarrow> advances s (setRecord i r s)"
  by (auto simp: advances_def records_setRecord get_put)

lemma records_read: "read_record k i s = Some (raw, p, t) \<Longrightarrow> nt_records t = nt_records s"
  by (drule read_record_core) (rule records_core)

lemma records_upd [simp]:
  "nt_records (guard_storage p) = nt_records (fst p)" "nt_records (degrade s) = nt_records s"
  "nt_records (notify s) = nt_records s" "nt_records (scheduleFlush s) = nt_records s"
  by (simp_all add: core_frame [THEN records_core])

lemma reconcile_advances: "advances s (snd (reconcile i s))"
proof (cases "nt_storage s = None")
  case False
  show ?thesis
  proof (cases "read_record (recordKey i) i s")
    case None
    with False show ?thesis by (simp add: reconcile_def advances_refl)
  next
    case (Some x)
    obtain raw p u where x: "x = (raw, p, u)" by (metis prod_cases3)
    have u: "nt_records u = nt_records s" using Some x by (auto dest: records_read)
    show ?thesis
    proof (cases p)
      case None
      with Some x False u show ?thesis by (simp add: reconcile_def advances_refl)
    next
      case p: (Some r)
      let ?w = "case get (nt_records u) i of Some m \<Rightarrow> newer compareStored m r | None \<Rightarrow> r"
      have "advances u (setRecord i ?w u)"
        using stored_notes.newer_ge(1) by (intro advances_setRecord) auto
      then have "advances s (notify (setRecord i ?w u))" "advances s (setRecord i ?w u)"
        using u by (auto simp: advances_def)
      with Some x p False show ?thesis by (auto simp: reconcile_def Let_def)
    qed
  qed
qed (simp add: reconcile_def advances_refl)

lemma flush_one_facts:
  assumes inv: "notes_inv cfg s"
  shows "notes_inv cfg (snd (flush_one i s))" and "advances s (snd (flush_one i s))"
proof -
  have "notes_inv cfg (snd (flush_one i s)) \<and> advances s (snd (flush_one i s))"
  proof (cases "read_record (recordKey i) i s")
    case (Some x)
    obtain raw p u where x: "x = (raw, p, u)" by (metis prod_cases3)
    note rd = inv_read_record [OF inv cell_for_recordKey Some [unfolded x]]
    have u: "nt_records u = nt_records s" using Some x by (auto dest: records_read)
    show ?thesis
    proof (cases "get (nt_records u) i")
      case None
      with Some x rd u show ?thesis by (simp add: flush_one_def advances_refl)
    next
      case m: (Some m)
      let ?w = "case p of Some q \<Rightarrow> newer compareStored m q | None \<Rightarrow> m"
      let ?s2 = "setRecord i ?w u"
      have mid: "sid m = i" using rd(1) m by (rule inv_record_id)
      then have i2: "notes_inv cfg ?s2"
        using rd by (intro inv_setRecord) (auto simp: newer_id split: option.split)
      have a2: "advances s ?s2"
        using u m stored_notes.newer_ge(1)
        by (intro advances_trans [OF advances_refl advances_setRecord]) (auto split: option.split)
      let ?next = "Json (stored_json m)"
      define keep where "keep = (if \<not> active (body m) then removeItem (backupKey i)
        else if truthy raw \<and> parseStored raw \<noteq> None then setItem (backupKey i) (the raw)
        else setItem (backupKey i) ?next)"
      have "keyed_cell i raw"
        using inv Some x by (auto simp: read_record_def notes_inv_def keyed_def keyed_storage_def
            getItem_def split: option.splits if_splits)
      then have "safe_write keep"
        unfolding keep_def using mid
        by (cases raw) (auto intro!: safe_setItem safe_removeItem dest: cell_for_keys)
      then have i3: "notes_inv cfg (fst (write_both keep (setItem (recordKey i) ?next) ?s2))"
        using i2 mid by (intro inv_write_both safe_setItem) (auto dest: cell_for_keys)
      have a3: "advances s (fst (write_both keep (setItem (recordKey i) ?next) ?s2))"
        using a2 by (simp add: advances_def core_frame [THEN records_core])
      have f: "flush_one i s =
          (if ?w \<noteq> m then (Some False, notify (?s2\<lparr>nt_dirty := set_remove i (nt_dirty ?s2)\<rparr>))
           else let (s3, ok) = write_both keep (setItem (recordKey i) ?next) ?s2
             in if ok then (Some True, s3\<lparr>nt_dirty := set_remove i (nt_dirty s3)\<rparr>) else (None, s3))"
        using Some x m by (simp add: flush_one_def keep_def Let_def)
      have "advances s t \<Longrightarrow> advances s (t\<lparr>nt_dirty := d\<rparr>)" for t d by (simp add: advances_def)
      then show ?thesis
        unfolding f using i2 i3 a2 a3 by (auto simp: Let_def split: prod.splits) (simp_all add: advances_def)
    qed
  qed (use inv in \<open>simp add: flush_one_def advances_refl\<close>)
  then show "notes_inv cfg (snd (flush_one i s))" "advances s (snd (flush_one i s))" by auto
qed

lemma flush_loop_facts:
  assumes "notes_inv cfg s"
  shows "notes_inv cfg (snd (flush_loop is w s)) \<and> advances s (snd (flush_loop is w s))"
  using assms
proof (induction "is" arbitrary: w s)
  case (Cons i js)
  note f = flush_one_facts [OF Cons.prems, of i]
  show ?case
  proof (cases "flush_one i s")
    case (Pair r t)
    have "advances s (degrade t)" using f(2) Pair by (simp add: advances_def)
    with f Pair Cons.IH [of t] show ?thesis
      by (cases r) (auto simp: notes_inv_def intro: advances_trans)
  qed
qed (simp add: advances_refl)

lemma inv_flush: "notes_inv cfg s \<Longrightarrow> notes_inv cfg (snd (flush s))"
  using flush_loop_facts by (simp add: flush_def)

lemma flush_advances: "notes_inv cfg s \<Longrightarrow> advances s (snd (flush s))"
  using flush_loop_facts by (simp add: flush_def advances_refl)

lemma storage_event_facts:
  assumes inv: "notes_inv cfg s" and c: "\<And>k i. key = Some k \<Longrightarrow> recordID k = Some i \<Longrightarrow> keyed_cell i v"
  shows "notes_inv cfg (onStorageEvent key v same s) \<and> advances s (onStorageEvent key v same s)"
proof -
  have "notes_inv cfg (let current = get (nt_records t) i;
            winner = (case current of Some c \<Rightarrow> newer compareStored c q | None \<Rightarrow> q)
        in if Some winner = current then t
           else let s2 = setRecord i winner t in notify (s2\<lparr>nt_dirty := set_remove i (nt_dirty s2)\<rparr>)) \<and>
      advances s (let current = get (nt_records t) i;
            winner = (case current of Some c \<Rightarrow> newer compareStored c q | None \<Rightarrow> q)
        in if Some winner = current then t
           else let s2 = setRecord i winner t in notify (s2\<lparr>nt_dirty := set_remove i (nt_dirty s2)\<rparr>))"
    if k: "key = Some k" "recordID k = Some i" and e: "recoverRecord i v s = (Some q, t)" for k i q t
  proof -
    have t: "notes_inv cfg t" "sid q = i" "nt_records t = nt_records s"
      using inv_recoverRecord [OF inv c [OF k] e] core_recoverRecord [of i v s] e
      by (auto dest: records_core)
    let ?w = "case get (nt_records t) i of Some c \<Rightarrow> newer compareStored c q | None \<Rightarrow> q"
    have "sid ?w = i" using t inv_record_id [OF t(1)] by (auto simp: newer_id split: option.split)
    then have "notes_inv cfg (setRecord i ?w t)" by (rule inv_setRecord [OF t(1)])
    moreover have "advances s (setRecord i ?w t)"
      using t(3) stored_notes.newer_ge(1)
      by (intro advances_trans [OF advances_refl advances_setRecord]) auto
    ultimately show ?thesis
      using t by (auto simp: Let_def advances_refl) (simp_all add: advances_def)
  qed
  moreover have "notes_inv cfg t \<and> advances s t"
    if "key = Some k" "recordID k = Some i" "recoverRecord i v s = (p, t)" for k i p t
    using inv_recoverRecord(1) [OF inv c [OF that(1,2)] that(3)] core_recoverRecord [of i v s] that(3)
    by (auto simp: advances_refl dest: records_core)
  ultimately show ?thesis
    using inv by (auto simp: onStorageEvent_def advances_refl split: option.split prod.split)
qed

subsection \<open>The operations\<close>

lemma inv_fold_set_dirty: "notes_inv cfg s \<Longrightarrow> notes_inv cfg (fold set_dirty rs s)"
  by (induction rs arbitrary: s) (auto intro: inv_set_dirty)

lemma inv_putBatch [inv_intros]: "notes_inv cfg s \<Longrightarrow> notes_inv cfg (putBatch rs s)"
  by (simp add: putBatch_def Let_def inv_fold_set_dirty)

lemma inv_drop [inv_intros]: "notes_inv cfg s \<Longrightarrow> notes_inv cfg (drop_note i s)"
proof -
  assume inv: "notes_inv cfg s"
  then have "notes_inv cfg ((unbooked i s)\<lparr>nt_dirty := d\<rparr>)" "notes_inv cfg (s\<lparr>nt_dirty := d\<rparr>)" for d
    by (auto simp: notes_inv_def wf_unbooked) (simp add: keyed_def unbooked_def)
  then have "notes_inv cfg (fst (write_both (removeItem a) (removeItem b) t))"
    if "t = (unbooked i s)\<lparr>nt_dirty := d\<rparr> \<or> t = s\<lparr>nt_dirty := d\<rparr>" for a b t d
    using that by (auto intro!: inv_write_both safe_removeItem)
  then show ?thesis
    using inv \<open>\<And>d. notes_inv cfg ((unbooked i s)\<lparr>nt_dirty := d\<rparr>)\<close>
    by (auto simp: drop_note_def Let_def unbooked_def intro!: inv_guard)
qed

lemma inv_add: "notes_inv cfg s \<Longrightarrow> notes_inv cfg (snd (add cfg env grp t q src s))"
  by (simp add: add_def Let_def inv_putBatch)

text \<open>What an edit does, by its outcome.\<close>

lemma edit_outcome:
  assumes "reconcile i s = (cur, u)" and "edit cfg env i t g fb s = (res, s')"
  obtains (refused) reason where "res = Inl reason" "s' = u"
  | (accepted) b x where "edit_base i cur fb = Some b"
      "res = Inr (edited env cur b x g)"
      "s' = putBatch [\<lparr>writeID = ids env 0, body = Live (edited env cur b x g)\<rparr>] u"
      "refuseCandidate cfg \<lparr>writeID = ids env 0, body = Live (edited env cur b x g)\<rparr> False u = []"
proof (cases "edit_base i cur fb")
  case None
  then show ?thesis using assms by (intro refused) (auto simp: edit_def)
next
  case (Some b)
  let ?x = "case t of None \<Rightarrow> ntext b | Some t \<Rightarrow> js_trim t"
  let ?r = "\<lparr>writeID = ids env 0, body = Live (edited env cur b ?x g)\<rparr>"
  have e: "edit cfg env i t g fb s =
      (if ?x = [] \<and> (nquote b = None \<or> nquote b = Some []) then (Inl ''A note cannot be empty.'', u)
       else if refuseCandidate cfg ?r False u \<noteq> [] then (Inl (refuseCandidate cfg ?r False u), u)
       else (Inr (edited env cur b ?x g), putBatch [?r] u))"
    using Some by (simp only: edit_def assms(1) Let_def prod.case option.case)
  show ?thesis
  proof (cases "(?x = [] \<and> (nquote b = None \<or> nquote b = Some [])) \<or> refuseCandidate cfg ?r False u \<noteq> []")
    case True
    then show ?thesis using e assms(2) by (cases "?x = [] \<and> (nquote b = None \<or> nquote b = Some [])") (auto intro: refused)
  next
    case False
    then have "edit cfg env i t g fb s = (Inr (edited env cur b ?x g), putBatch [?r] u)"
      unfolding e by simp
    with assms(2) False show ?thesis by (intro accepted [OF Some]) auto
  qed
qed

lemma edited_simps [simp]:
  "nid (edited env cur b x g) = nid b"
  "nupdated (edited env (Some c) b x g) = max (now env) (js_add (rec_updated (body c)) 1)"
  by (simp_all add: edited_def)

lemma edit_base_id:
  "(\<And>r. cur = Some r \<Longrightarrow> sid r = i) \<Longrightarrow> edit_base i cur fb = Some b \<Longrightarrow> nid b = i"
  by (auto simp: edit_base_def bind_eq_Some_conv split: option.splits if_splits elim!: live_note.elims)

lemma inv_edit: "notes_inv cfg s \<Longrightarrow> notes_inv cfg (snd (edit cfg env i t g f s))"
proof -
  assume inv: "notes_inv cfg s"
  obtain cur u res s' where rc: "reconcile i s = (cur, u)" and e: "edit cfg env i t g f s = (res, s')"
    by fastforce
  note u = inv_reconcile(1) [OF inv rc]
  from rc e show ?thesis
    by (cases rule: edit_outcome) (use u e in \<open>simp_all add: inv_putBatch\<close>)
qed

lemma inv_tombstones: "notes_inv cfg s \<Longrightarrow> notes_inv cfg (snd (tombstones env is ts s))"
  by (induction env "is" ts s rule: tombstones.induct)
    (auto simp: Let_def split: prod.split option.split dest: inv_reconcile(1))

lemma inv_delete: "notes_inv cfg s \<Longrightarrow> notes_inv cfg (snd (delete env is s))"
  using inv_tombstones [of cfg s env "is" "[]"]
  by (auto simp: delete_def Let_def inv_putBatch split: prod.split)

lemma inv_merge_one: "notes_inv cfg (snd cs) \<Longrightarrow> notes_inv cfg (snd (merge_one cfg env r cs))"
  by (auto simp: merge_one_def inv_drop inv_set_dirty split: prod.split option.split)

lemma inv_merge: "notes_inv cfg s \<Longrightarrow> notes_inv cfg (merge cfg env rs s)"
proof -
  have "notes_inv cfg (snd cs) \<Longrightarrow> notes_inv cfg (snd (fold (merge_one cfg env) rs cs))" for cs
  proof (induction rs arbitrary: cs)
    case (Cons r rs)
    from Cons.IH [OF inv_merge_one [OF Cons.prems]] show ?case by simp
  qed simp
  from this [of "(False, s)"] show "notes_inv cfg s \<Longrightarrow> ?thesis"
    by (cases "fold (merge_one cfg env) rs (False, s)") (auto simp: merge_def)
qed

lemma inv_forget_notes: "notes_inv cfg s \<Longrightarrow> notes_inv cfg (forget_notes is s)"
proof -
  have "notes_inv cfg s \<Longrightarrow> notes_inv cfg (fold drop_note js s)" for js s
    by (induction js arbitrary: s) (auto intro: inv_drop)
  then show "notes_inv cfg s \<Longrightarrow> notes_inv cfg (forget_notes is s)"
    by (simp add: forget_notes_def Let_def)
qed

lemma inv_currentNotes: "notes_inv cfg s \<Longrightarrow> notes_inv cfg (snd (currentNotes cfg s))"
  by (simp add: notes_inv_def wf_currentNotes currentNotes_def Let_def)
    (metis currentNotes_def snd_conv wf_currentNotes)

lemma inv_rememberTarget: "notes_inv cfg s \<Longrightarrow> notes_inv cfg (rememberTarget g s)"
  by (simp add: rememberTarget_def notes_inv_def keyed_write_item safe_target)

subsection \<open>The states a store reaches\<close>

datatype notes_op =
    ListNotes
  | Add string string "string option" "json option"
  | Edit string "string option" "string option" "Note option"
  | Delete "string list"
  | Merge "stored_note list"
  | Forget "string list"
  | StorageEvent "string option" "cell option" bool
  | Flush
  | TimerFired
  | Subscribe
  | RememberTarget string
  | DisposeStore

fun notes_exec :: "notes_config \<Rightarrow> env \<Rightarrow> notes_op \<Rightarrow> notes_store \<Rightarrow> notes_store" where
  "notes_exec cfg env ListNotes s = snd (currentNotes cfg s)"
| "notes_exec cfg env (Add g t q src) s = snd (add cfg env g t q src s)"
| "notes_exec cfg env (Edit i t g f) s = snd (edit cfg env i t g f s)"
| "notes_exec cfg env (Delete is) s = snd (delete env is s)"
| "notes_exec cfg env (Merge rs) s = merge cfg env rs s"
| "notes_exec cfg env (Forget is) s = forget_notes is s"
| "notes_exec cfg env (StorageEvent k v same) s = onStorageEvent k v same s"
| "notes_exec cfg env Flush s = snd (flush s)"
| "notes_exec cfg env TimerFired s = timer_fired s"
| "notes_exec cfg env Subscribe s = subscribe s"
| "notes_exec cfg env (RememberTarget g) s = rememberTarget g s"
| "notes_exec cfg env DisposeStore s = dispose s"

text \<open>
  The storage, and what other tabs write there, holds under the key of an id records of that id
  (only these stores write there).
\<close>

fun op_keyed :: "notes_op \<Rightarrow> bool" where
  "op_keyed (StorageEvent k v same) = (\<forall>i. Option.bind k recordID = Some i \<longrightarrow> keyed_cell i v)"
| "op_keyed _ = True"

inductive notes_reachable :: "notes_config \<Rightarrow> notes_store \<Rightarrow> bool" for cfg where
  created: "(case storage of None \<Rightarrow> True | Some st \<Rightarrow> keyed_storage st) \<Longrightarrow>
    notes_reachable cfg (createNotesStore cfg env storage)"
| step: "notes_reachable cfg s \<Longrightarrow> op_keyed op \<Longrightarrow> notes_reachable cfg (notes_exec cfg env op s)"

lemma inv_exec: "notes_inv cfg s \<Longrightarrow> op_keyed op \<Longrightarrow> notes_inv cfg (notes_exec cfg env op s)"
  by (cases op)
    (auto simp: inv_currentNotes inv_add inv_edit inv_delete inv_merge inv_forget_notes inv_flush
      inv_rememberTarget timer_fired_def subscribe_def dispose_def
      intro: storage_event_facts [THEN conjunct1])

lemma reachable_inv: "notes_reachable cfg s \<Longrightarrow> notes_inv cfg s"
  by (induction rule: notes_reachable.induct) (auto intro: inv_exec inv_created split: option.splits)

lemma booked_sum:
  assumes "notes_wf cfg s"
  shows "nt_total s = (\<Sum>r \<leftarrow> filter (\<lambda>r. active (body r)) (all_records s). int (storedBytes r))"
    and "length (nt_bytes s) = length (filter (\<lambda>r. active (body r)) (all_records s))"
proof -
  let ?m = "nt_records s" and ?b = "nt_bytes s"
  define L where "L = filter (\<lambda>p. active (body (snd p))) ?m"
  have wf: "wf_map ?m" "wf_map ?b" "\<And>i. get ?b i = live_bytes (get ?m i)"
    using assms by (auto simp: wf_parts)
  have wfL: "wf_map L" unfolding L_def using wf(1) by (rule distinct_map_filter)
  have getL: "get L i = (case get ?m i of Some r \<Rightarrow> if active (body r) then Some r else None | None \<Rightarrow> None)" for i
    unfolding L_def using wf(1) by (rule get_filter)
  have dom: "set (keys L) = set (keys ?b)"
  proof -
    have "i \<in> set (keys L) \<longleftrightarrow> i \<in> set (keys ?b)" for i
      using wf(3) [of i] getL [of i] get_None_keys [of L i] get_None_keys [of ?b i]
      by (auto simp: live_bytes_def split: option.splits if_splits)
    then show ?thesis by blast
  qed
  have "nt_total s = (\<Sum>k \<in> set (keys ?b). int (the (get ?b k)))"
    using assms sum_keys [OF wf(2), of int] by (simp add: wf_parts)
  also have "\<dots> = (\<Sum>k \<in> set (keys L). int (storedBytes (the (get L k))))"
    unfolding dom
  proof (rule sum.cong [OF refl])
    fix k assume "k \<in> set (keys ?b)"
    then have "get ?b k \<noteq> None" by (simp add: get_None_keys)
    then show "int (the (get ?b k)) = int (storedBytes (the (get L k)))"
      by (auto simp: wf(3) getL live_bytes_def split: option.splits if_splits)
  qed
  also have "\<dots> = sum_list (map ((int \<circ> storedBytes) \<circ> snd) L)"
    using sum_keys [OF wfL, of "int \<circ> storedBytes"] by simp
  also have "map ((int \<circ> storedBytes) \<circ> snd) L =
      map (\<lambda>r. int (storedBytes r)) (filter (\<lambda>r. active (body r)) (all_records s))"
    by (simp add: L_def all_records_def filter_map comp_def)
  finally show "nt_total s = (\<Sum>r \<leftarrow> filter (\<lambda>r. active (body r)) (all_records s). int (storedBytes r))" .
  have "length ?b = card (set (keys ?b))" using distinct_card [OF wf(2)] by simp
  also have "\<dots> = length L" using distinct_card [OF wfL] unfolding dom by simp
  finally show "length ?b = length (filter (\<lambda>r. active (body r)) (all_records s))"
    by (simp add: L_def all_records_def filter_map comp_def)
qed

end
