(* ===== verification/NotesDurable.thy ===== *)
theory NotesDurable
  imports NotesProps
begin

section \<open>A flushed notes store reloads to the same notes\<close>

text \<open>
  The durability of \<^verbatim>\<open>features/notes/notesStore.ts\<close> on a storage that works: what the disk holds is
  the memory, up to the ids still dirty, whose copy on disk is older; a flush leaves none dirty; and
  a store created on that disk has the records of the flushed one, but for the tombstones past their
  retention.
\<close>

text \<open>One id: its record and backup on disk, its record in memory and whether it is dirty.\<close>

definition entry_ok :: "string \<Rightarrow> cell option \<Rightarrow> cell option \<Rightarrow> stored_note option \<Rightarrow> bool \<Rightarrow> bool" where
  "entry_ok i cell bak mem dirty \<longleftrightarrow>
     (case mem of None \<Rightarrow> True | Some m \<Rightarrow> sid m = i \<and> utf8_valid i) \<and>
     (case cell of
        None \<Rightarrow> bak = None \<and> (mem = None \<or> dirty)
      | Some c \<Rightarrow>
          (case (parseStored cell, mem) of
             (Some p, Some m) \<Rightarrow>
               c = Json (stored_json p) \<and> sid p = i \<and> (if dirty then 0 \<le> compareStored m p else m = p)
           | _ \<Rightarrow> False))"

definition disk_entry :: "notes_store \<Rightarrow> storage \<Rightarrow> string \<Rightarrow> bool" where
  "disk_entry s st i \<longleftrightarrow>
     entry_ok i (get (items st) (recordKey i)) (get (items st) (backupKey i))
       (get (nt_records s) i) (i \<in> set (nt_dirty s))"

definition record_keys_ok :: "storage \<Rightarrow> bool" where
  "record_keys_ok st \<longleftrightarrow>
     (\<forall>k \<in> set (keys (items st)). starts_with recordPrefix k \<longrightarrow> (\<exists>i. utf8_valid i \<and> k = recordKey i))"

definition mirrored_on :: "storage \<Rightarrow> notes_store \<Rightarrow> bool" where
  "mirrored_on st s \<longleftrightarrow> nt_storage s = Some st \<and> reliable st \<and> wf_map (items st) \<and> record_keys_ok st \<and>
     (\<forall>i. disk_entry s st i)"

definition mirrored :: "notes_store \<Rightarrow> bool" where
  "mirrored s \<longleftrightarrow> (\<exists>st. mirrored_on st s)"

lemma mirrored_onD:
  assumes "mirrored_on st s"
  shows "nt_storage s = Some st" "reliable st" "readable st" "faults st = []" "wf_map (items st)"
    "record_keys_ok st" "disk_entry s st i"
  using assms by (auto simp: mirrored_on_def reliable_def)

lemma mirrored_id:
  "mirrored_on st s \<Longrightarrow> get (nt_records s) i = Some m \<Longrightarrow> sid m = i \<and> utf8_valid i"
  using mirrored_onD(7) [of st s i] by (simp add: disk_entry_def entry_ok_def)

lemma mirrored_on_upd [simp]:
  "mirrored_on st (s\<lparr>nt_timer := b\<rparr>) = mirrored_on st s" "mirrored_on st (s\<lparr>nt_mutations := ms\<rparr>) = mirrored_on st s"
  "mirrored_on st (s\<lparr>nt_target := t\<rparr>) = mirrored_on st s" "mirrored_on st (s\<lparr>nt_attached := b\<rparr>) = mirrored_on st s"
  "mirrored_on st (s\<lparr>nt_cache := c\<rparr>) = mirrored_on st s"
  "mirrored_on st (notify s) = mirrored_on st s" "mirrored_on st (scheduleFlush s) = mirrored_on st s"
  by (simp_all add: mirrored_on_def disk_entry_def notify_def scheduleFlush_def)

text \<open>What the storage has of an id: nothing, or a record no newer than the memory's.\<close>

lemma mirrored_read:
  assumes "mirrored_on st s"
  obtains (absent) "get (items st) (recordKey i) = None"
      and "read_record (recordKey i) i s = Some (None, None, s)"
  | (present) p m where "get (items st) (recordKey i) = Some (Json (stored_json p))" "sid p = i"
      "read_record (recordKey i) i s = Some (Some (Json (stored_json p)), Some p, s)"
      "get (nt_records s) i = Some m" "newer compareStored m p = m"
proof (cases "get (items st) (recordKey i)")
  case None
  then have "get (items st) (backupKey i) = None"
    using mirrored_onD(7) [OF assms, of i] by (simp add: disk_entry_def entry_ok_def)
  then have "read_record (recordKey i) i s = Some (None, None, s)"
    using None mirrored_onD(1,3) [OF assms] by (simp add: read_record_def recoverRecord_def parseStored_def)
  with None show ?thesis by (rule absent)
next
  case (Some c)
  then obtain p m where p: "c = Json (stored_json p)" "sid p = i" "get (nt_records s) i = Some m"
    "if i \<in> set (nt_dirty s) then 0 \<le> compareStored m p else m = p"
    using mirrored_onD(7) [OF assms, of i]
    by (auto simp: disk_entry_def entry_ok_def split: option.splits)
  then have "newer compareStored m p = m" by (auto simp: newer_def split: if_splits)
  moreover have "read_record (recordKey i) i s = Some (Some c, Some p, s)"
    using Some p(1) mirrored_onD(1,3) [OF assms] by (simp add: read_record_def recoverRecord_def)
  ultimately show ?thesis using Some p by (intro present) auto
qed

lemma mirrored_reconcile: "mirrored_on st s \<Longrightarrow> reconcile i s = (get (nt_records s) i, s)"
proof -
  assume m: "mirrored_on st s"
  from m show ?thesis
    by (cases rule: mirrored_read [of st s i])
      (use mirrored_onD(1) [OF m] in \<open>auto simp: reconcile_def setRecord_def Let_def\<close>)
qed

lemma mirrored_set_dirty:
  assumes m: "mirrored_on st s" and v: "utf8_valid (sid r)"
    and newer: "\<And>p. get (items st) (recordKey (sid r)) = Some (Json (stored_json p)) \<Longrightarrow> 0 \<le> compareStored r p"
  shows "mirrored_on st (set_dirty r s)"
proof -
  let ?t = "set_dirty r s"
  have t: "nt_records ?t = put (sid r) r (nt_records s)" "nt_storage ?t = nt_storage s"
    "set (nt_dirty ?t) = insert (sid r) (set (nt_dirty s))"
    by (simp_all add: set_dirty_def setRecord_def Let_def)
  have "disk_entry ?t st i" for i
  proof (cases "i = sid r")
    case True
    show ?thesis
      using mirrored_onD(7) [OF m, of i] newer True v
      by (auto simp: disk_entry_def entry_ok_def t get_put split: option.splits)
  next
    case False
    then show ?thesis
      using mirrored_onD(7) [OF m, of i] by (simp add: disk_entry_def t get_put)
  qed
  then show ?thesis using m t(2) by (simp add: mirrored_on_def)
qed

lemma mirrored_fold_set_dirty:
  assumes "mirrored_on st s" and "\<forall>r \<in> set rs. utf8_valid (sid r)"
    and "\<forall>r \<in> set rs. \<forall>p. get (items st) (recordKey (sid r)) = Some (Json (stored_json p)) \<longrightarrow> 0 \<le> compareStored r p"
  shows "mirrored_on st (fold set_dirty rs s)"
  using assms by (induction rs arbitrary: s) (auto intro: mirrored_set_dirty)

text \<open>A record newer than the memory's is newer than the disk's.\<close>

lemma newer_than_disk:
  assumes m: "mirrored_on st s" and p: "get (items st) (recordKey i) = Some (Json (stored_json p))"
    and r: "\<And>c. get (nt_records s) i = Some c \<Longrightarrow> 0 \<le> compareStored r c"
  shows "0 \<le> compareStored r p"
  using m
proof (cases rule: mirrored_read [of st s i])
  case (present q c)
  then have "q = p" using p by (metis option.inject parse_stored)
  moreover have "0 \<le> compareStored c q" using present(5) stored_notes.newer_ge(2) [of c q] by simp
  ultimately show ?thesis using r [OF present(4)] stored_notes.cmp_trans by blast
qed (use p in simp)

lemma record_keys_put:
  "record_keys_ok st \<Longrightarrow> \<not> starts_with recordPrefix k \<or> (\<exists>i. utf8_valid i \<and> k = recordKey i) \<Longrightarrow>
     record_keys_ok (st\<lparr>items := put k c (items st)\<rparr>)"
  unfolding record_keys_ok_def by (auto simp: keys_put simp del: set_map)

lemma record_keys_del: "record_keys_ok st \<Longrightarrow> record_keys_ok (st\<lparr>items := del k (items st)\<rparr>)"
  unfolding record_keys_ok_def by (auto simp: keys_del simp del: set_map)

lemma mirrored_drop:
  assumes m: "mirrored_on st s"
  shows "mirrored (drop_note i s)"
proof -
  let ?st = "st\<lparr>items := del (backupKey i) (del (recordKey i) (items st))\<rparr>"
  let ?d = "drop_note i s"
  have st: "nt_storage s = Some st" "faults st = []" "reliable st" using mirrored_onD [OF m] by auto
  have d: "nt_storage ?d = Some ?st" "nt_records ?d = del i (nt_records s)" "nt_dirty ?d = set_remove i (nt_dirty s)"
    using st by (auto simp: drop_note_def write_both_def write_item_def guard_storage_def Let_def
        get_None_keys split: option.splits)
  have "disk_entry ?d ?st j" for j
    using mirrored_onD(7) [OF m, of j] by (cases "j = i") (simp_all add: disk_entry_def d get_del entry_ok_def)
  moreover have "record_keys_ok ?st"
    using record_keys_del [OF record_keys_del [OF mirrored_onD(6) [OF m]], of "backupKey i" "recordKey i"] by simp
  ultimately have "mirrored_on ?st ?d"
    using d(1) st mirrored_onD(5) [OF m] by (simp add: mirrored_on_def reliable_def)
  then show ?thesis by (auto simp: mirrored_def)
qed

lemma mirrored_flush_one:
  assumes m: "mirrored_on st s" and i: "i \<in> set (nt_dirty s)"
  obtains w st' t where "flush_one i s = (Some w, t)" "mirrored_on st' t"
    "nt_dirty t = set_remove i (nt_dirty s)" "nt_records t = nt_records s"
proof (cases "get (nt_records s) i")
  case None
  from m have "read_record (recordKey i) i s = Some (None, None, s) \<and> get (items st) (recordKey i) = None"
    by (cases rule: mirrored_read [of st s i]) (use None in auto)
  then have f: "flush_one i s = (Some False, s\<lparr>nt_dirty := set_remove i (nt_dirty s)\<rparr>)"
    and c: "get (items st) (recordKey i) = None"
    using None by (auto simp: flush_one_def)
  have "disk_entry (s\<lparr>nt_dirty := set_remove i (nt_dirty s)\<rparr>) st j" for j
    using mirrored_onD(7) [OF m, of j] c None by (cases "j = i") (simp_all add: disk_entry_def entry_ok_def)
  then have "mirrored_on st (s\<lparr>nt_dirty := set_remove i (nt_dirty s)\<rparr>)"
    using m by (simp add: mirrored_on_def)
  then show ?thesis by (rule that [OF f]) simp_all
next
  case (Some c)
  have st: "nt_storage s = Some st" "faults st = []" using mirrored_onD [OF m] by auto
  let ?next = "Json (stored_json c)"
  let ?raw = "get (items st) (recordKey i)"
  define keep where "keep = (if \<not> active (body c) then removeItem (backupKey i)
    else if truthy ?raw \<and> parseStored ?raw \<noteq> None then setItem (backupKey i) (the ?raw)
    else setItem (backupKey i) ?next)"
  define bs where "bs = (if \<not> active (body c) then del (backupKey i) (items st)
    else if truthy ?raw \<and> parseStored ?raw \<noteq> None then put (backupKey i) (the ?raw) (items st)
    else put (backupKey i) ?next (items st))"
  let ?st = "st\<lparr>items := put (recordKey i) ?next bs\<rparr>"
  let ?t = "s\<lparr>nt_storage := Some ?st, nt_dirty := set_remove i (nt_dirty s)\<rparr>"
  have keep: "write_both keep (setItem (recordKey i) ?next) s = (s\<lparr>nt_storage := Some ?st\<rparr>, True)"
    using st by (auto simp: write_both_def write_item_def keep_def bs_def)
  from m have f: "flush_one i s = (Some True, ?t)"
    by (cases rule: mirrored_read [of st s i])
      (use Some keep in \<open>auto simp: flush_one_def setRecord_def keep_def Let_def\<close>)
  have mid: "sid c = i" "utf8_valid i" using mirrored_id [OF m Some] by auto
  have bs: "get bs (recordKey j) = get (items st) (recordKey j)"
    "j \<noteq> i \<Longrightarrow> get bs (backupKey j) = get (items st) (backupKey j)" "wf_map bs" for j
    using mirrored_onD(5) [OF m] by (auto simp: bs_def get_put get_del)
  have "record_keys_ok (st\<lparr>items := bs\<rparr>)"
    using mirrored_onD(6) [OF m] by (auto simp: bs_def intro!: record_keys_put record_keys_del)
  then have rk: "record_keys_ok ?st"
    using record_keys_put [of "st\<lparr>items := bs\<rparr>" "recordKey i" ?next] mid by auto
  have "disk_entry ?t ?st j" for j
  proof (cases "j = i")
    case True
    then show ?thesis using Some mid by (simp add: disk_entry_def entry_ok_def get_put)
  next
    case False
    then show ?thesis
      using mirrored_onD(7) [OF m, of j] bs by (simp add: disk_entry_def get_put)
  qed
  then have "mirrored_on ?st ?t"
    using rk m bs(3) by (simp add: mirrored_on_def reliable_def)
  with f show ?thesis by (rule that) simp_all
qed

lemma mirrored_flush_loop:
  assumes "mirrored_on st s" and "set is \<subseteq> set (nt_dirty s)" and "distinct is"
  shows "\<exists>st' w'. mirrored_on st' (snd (flush_loop is w s)) \<and>
     nt_dirty (snd (flush_loop is w s)) = remove_all is (nt_dirty s) \<and>
     nt_records (snd (flush_loop is w s)) = nt_records s"
  using assms
proof (induction "is" arbitrary: st w s)
  case (Cons i js)
  have "i \<in> set (nt_dirty s)" using Cons.prems(2) by simp
  then obtain w' st' t where f: "flush_one i s = (Some w', t)" "mirrored_on st' t"
    "nt_dirty t = set_remove i (nt_dirty s)" "nt_records t = nt_records s"
    by (rule mirrored_flush_one [OF Cons.prems(1)])
  with Cons.IH [OF f(2), of "w \<or> w'"] Cons.prems show ?case by auto
qed auto

lemma flush_mirrored:
  assumes m: "mirrored s" and d: "distinct (nt_dirty s)"
  shows "mirrored (snd (flush s))" and "nt_dirty (snd (flush s)) = []"
    and "nt_records (snd (flush s)) = nt_records s"
proof -
  obtain st where st: "mirrored_on st s" using m by (auto simp: mirrored_def)
  have "set (remove_all (nt_dirty s) (nt_dirty s)) = {}" by (simp only: set_remove_all) simp
  then have "remove_all (nt_dirty s) (nt_dirty s) = []" by (simp only: set_empty)
  then show "mirrored (snd (flush s))" "nt_dirty (snd (flush s)) = []"
      "nt_records (snd (flush s)) = nt_records s"
    using mirrored_flush_loop [OF st, of "nt_dirty s" False] d m mirrored_onD(1) [OF st]
    by (auto simp: flush_def mirrored_def)
qed

subsection \<open>Reloading\<close>

lemma distinct_ids:
  "distinct ks \<Longrightarrow> (\<And>k p. k \<in> set ks \<Longrightarrow> g k = Some p \<Longrightarrow> k = h (snd p)) \<Longrightarrow>
     distinct (map snd (List.map_filter g ks))"
proof (induction ks)
  case (Cons k ks)
  then have IH: "distinct (map snd (List.map_filter g ks))" by auto
  show ?case
  proof (cases "g k")
    case (Some p)
    have "snd p \<notin> snd ` set (List.map_filter g ks)"
    proof
      assume "snd p \<in> snd ` set (List.map_filter g ks)"
      then obtain k' q where "k' \<in> set ks" "g k' = Some q" "snd q = snd p" by auto
      then have "k' = k" using Cons.prems(2) [of k' q] Cons.prems(2) [of k p] Some by auto
      with \<open>k' \<in> set ks\<close> Cons.prems(1) show False by auto
    qed
    with IH Some show ?thesis by (simp add: List.map_filter_simps)
  qed (use IH in \<open>simp add: List.map_filter_simps\<close>)
qed simp

lemma load_keys_reads:
  assumes "nt_storage s = Some st" and "reliable st" and "distinct (map snd kis)"
    and "\<forall>ki \<in> set kis. fst ki = recordKey (snd ki) \<and>
           get (items st) (fst ki) = Some (Json (stored_json (f (snd ki)))) \<and> get (nt_records s) (snd ki) = None"
  shows "get (nt_records (load_keys cfg env kis s)) j =
     (if j \<in> snd ` set kis then if expired cfg env (body (f j)) then None else Some (f j)
      else get (nt_records s) j)"
  using assms
proof (induction kis arbitrary: s st)
  case (Cons ki kis)
  obtain i where ki: "ki = (recordKey i, i)" using Cons.prems(4) by (cases ki) auto
  have r: "read_record (recordKey i) i s = Some (Some (Json (stored_json (f i))), Some (f i), s)"
    using Cons.prems ki by (auto simp: read_record_def recoverRecord_def reliable_def)
  have i: "i \<notin> snd ` set kis" "get (nt_records s) i = None" using Cons.prems(3,4) ki by auto
  show ?case
  proof (cases "expired cfg env (body (f i))")
    case True
    let ?st = "st\<lparr>items := del (backupKey i) (del (recordKey i) (items st))\<rparr>"
    let ?s = "s\<lparr>nt_storage := Some ?st\<rparr>"
    have l: "load_key cfg env ki s = (?s, True)"
      using r True Cons.prems(1,2) ki
      by (simp add: load_key_def write_both_def write_item_def reliable_def)
    have "get (nt_records (load_keys cfg env kis ?s)) j =
        (if j \<in> snd ` set kis then if expired cfg env (body (f j)) then None else Some (f j)
         else get (nt_records ?s) j)"
      using Cons.prems i(1)
      by (intro Cons.IH [of ?s ?st]) (force simp: get_del reliable_def ki)+
    then show ?thesis using l i True ki by auto
  next
    case False
    let ?s = "setRecord i (f i) s"
    have l: "load_key cfg env ki s = (?s, True)"
      using r False ki i by (simp add: load_key_def)
    have "nt_storage ?s = Some st" using Cons.prems(1) by (simp add: setRecord_def Let_def)
    then have "get (nt_records (load_keys cfg env kis ?s)) j =
        (if j \<in> snd ` set kis then if expired cfg env (body (f j)) then None else Some (f j)
         else get (nt_records ?s) j)"
      using Cons.prems i(1)
      by (intro Cons.IH [of ?s st]) (force simp: records_setRecord get_put ki)+
    then show ?thesis using l i False ki by (auto simp: records_setRecord get_put)
  qed
qed simp

text \<open>The record of a note after a reload: the tombstones past their retention are gone.\<close>

definition reloaded :: "notes_config \<Rightarrow> env \<Rightarrow> stored_note option \<Rightarrow> stored_note option" where
  "reloaded cfg env r = (case r of Some n \<Rightarrow> if expired cfg env (body n) then None else Some n | None \<Rightarrow> None)"

lemma reload_clean:
  assumes m: "mirrored_on st s" and clean: "nt_dirty s = []"
  shows "get (nt_records (createNotesStore cfg env (Some st))) j = reloaded cfg env (get (nt_records s) j)"
proof -
  let ?kis = "ids_under recordPrefix st"
  let ?f = "\<lambda>i. the (get (nt_records s) i)"
  have entry: "get (items st) (recordKey i) = map_option (\<lambda>r. Json (stored_json r)) (get (nt_records s) i)" for i
    using mirrored_onD(7) [OF m, of i] clean
    by (auto simp: disk_entry_def entry_ok_def split: option.splits)
  have key: "k = recordKey i \<and> utf8_valid i"
    if h: "k \<in> set (keys (items st))" "starts_with recordPrefix k"
      "decodeURIComponent (drop (length recordPrefix) k) = Some i" for k i
  proof -
    obtain j where "utf8_valid j" "k = recordKey j"
      using mirrored_onD(6) [OF m] h(1,2) by (auto simp: record_keys_ok_def)
    then show ?thesis using h(3) by (auto simp: recordKey_def key_of_id)
  qed
  have in_kis: "(k, i) \<in> set ?kis \<longleftrightarrow> k = recordKey i \<and> get (nt_records s) i \<noteq> None" for k i
  proof
    assume "(k, i) \<in> set ?kis"
    then have h: "k \<in> set (keys (items st))" "starts_with recordPrefix k"
        "decodeURIComponent (drop (length recordPrefix) k) = Some i"
      unfolding ids_under_in by simp_all
    have k: "k \<in> set (keys (items st))" "k = recordKey i" using h(1) key [OF h] by simp_all
    then show "k = recordKey i \<and> get (nt_records s) i \<noteq> None"
      using entry [of i] get_None_keys [of "items st" k] by auto
  next
    assume k: "k = recordKey i \<and> get (nt_records s) i \<noteq> None"
    then obtain r where "get (nt_records s) i = Some r" by blast
    then have "utf8_valid i" using mirrored_id [OF m] by blast
    moreover have "k \<in> set (keys (items st))" using k entry [of i] get_None_keys [of "items st" k] by auto
    ultimately show "(k, i) \<in> set ?kis"
      unfolding ids_under_in using k by (simp add: recordKey_def key_of_id)
  qed
  have "distinct (map snd ?kis)"
    unfolding ids_under_def
  proof (rule distinct_ids [where h = recordKey])
    fix k p
    assume "k \<in> set (keys (items st))"
      "(if starts_with recordPrefix k
        then map_option (\<lambda>i. (k, i)) (decodeURIComponent (drop (length recordPrefix) k)) else None) = Some p"
    then show "k = recordKey (snd p)" using key [of k "snd p"] by (auto split: if_splits)
  qed (rule mirrored_onD(5) [OF m])
  note kis = this
  have cells: "\<forall>ki \<in> set ?kis. fst ki = recordKey (snd ki) \<and>
      get (items st) (fst ki) = Some (Json (stored_json (?f (snd ki)))) \<and> get (nt_records s0) (snd ki) = None"
    if "nt_records s0 = []" for s0
  proof
    fix ki assume "ki \<in> set ?kis"
    moreover obtain k i where ki: "ki = (k, i)" by (cases ki)
    ultimately have "k = recordKey i" "get (nt_records s) i \<noteq> None"
      using in_kis [of k i] by simp_all
    with ki show "fst ki = recordKey (snd ki) \<and>
        get (items st) (fst ki) = Some (Json (stored_json (?f (snd ki)))) \<and> get (nt_records s0) (snd ki) = None"
      using that entry [of i] by (simp only: fst_conv snd_conv) auto
  qed
  have loaded: "get (nt_records (load_keys cfg env ?kis s0)) j =
      (if j \<in> snd ` set ?kis then if expired cfg env (body (?f j)) then None else Some (?f j) else None)"
    if s0: "nt_storage s0 = Some st" "nt_records s0 = []" for s0
    using load_keys_reads [OF s0(1) mirrored_onD(2) [OF m] kis cells [OF s0(2)], of cfg env j] s0(2) by simp
  have in_j: "j \<in> snd ` set ?kis \<longleftrightarrow> get (nt_records s) j \<noteq> None"
  proof
    assume "j \<in> snd ` set ?kis"
    then obtain k where "(k, j) \<in> set ?kis" by (metis imageE surjective_pairing)
    then show "get (nt_records s) j \<noteq> None" using in_kis by blast
  next
    assume "get (nt_records s) j \<noteq> None"
    then have "(recordKey j, j) \<in> set ?kis" using in_kis by blast
    then show "j \<in> snd ` set ?kis" by (metis image_eqI snd_conv)
  qed
  define s0 where "s0 = \<lparr>nt_storage = Some st, nt_records = [], nt_bytes = [], nt_total = 0, nt_cache = None,
    nt_dirty = [], nt_timer = False, nt_status = \<lparr>persistent = True, recovered = False, problem = []\<rparr>,
    nt_target = None, nt_attached = False, nt_notified = 0, nt_mutations = []\<rparr>"
  have c: "createNotesStore cfg env (Some st) = load_keys cfg env ?kis s0"
    using mirrored_onD(3) [OF m] by (simp add: createNotesStore_def load_def s0_def)
  have s0: "nt_storage s0 = Some st" "nt_records s0 = []" by (simp_all add: s0_def)
  show ?thesis
    unfolding c loaded [OF s0] in_j by (simp add: reloaded_def split: option.split)
qed

end
