(* ===== verification/NotesClaims.thy ===== *)
theory NotesClaims
  imports NotesDurable
begin

section \<open>The notes store: what it promises its user\<close>

text \<open>
  The properties of \<^verbatim>\<open>features/notes/notesStore.ts\<close> over the states it reaches (\<open>notes_reachable\<close>, any
  operations and any failures of the storage) and over the sessions of one tab on a storage that
  works (\<open>notes_session\<close>).
\<close>

subsection \<open>A sample store\<close>

lemmas bytes_eval = storedBytes_def json_bytes_def stored_json_def note_fields_def quote_string_def
  escape_char_def show_int_def digits.simps

lemmas edit_eval = edit_def edit_base_def edited_def reconcile_def set_dirty_def setRecord_def
  createNotesStore_def load_def refuseCandidate_def noteBytes_def totalWith_def putBatch_def
  scheduleFlush_def notify_def record_at_def js_trim_def js_space_def Let_def

text \<open>One note, added to an empty storage whose next calls have the outcomes \<open>fs\<close>.\<close>

definition sample_cfg :: notes_config where
  "sample_cfg = default_notes_config (\<lambda>a b. 0)"

definition sample_env :: env where
  "sample_env = \<lparr>now = 1, ids = (\<lambda>_. ''n'')\<rparr>"

definition sample_note :: stored_note where
  "sample_note = \<lparr>writeID = ''n'', body = Live \<lparr>nid = ''n'', ngroup = ''g'', ntext = ''t'', nquote = None,
     nsource = None, ncreated = 1, nupdated = 1\<rparr>\<rparr>"

definition sample_empty :: "outcome list \<Rightarrow> notes_store" where
  "sample_empty fs = createNotesStore sample_cfg sample_env (Some \<lparr>items = [], readable = True, faults = fs\<rparr>)"

definition sample_store :: "outcome list \<Rightarrow> notes_store" where
  "sample_store fs = notes_exec sample_cfg sample_env (Add ''g'' ''t'' None None) (sample_empty fs)"

lemma sample_empty_reachable: "notes_reachable sample_cfg (sample_empty fs)"
  unfolding sample_empty_def
  by (rule notes_reachable.created) (simp add: keyed_storage_def)

lemma sample_reachable: "notes_reachable sample_cfg (sample_store fs)"
  unfolding sample_store_def by (rule notes_reachable.step [OF sample_empty_reachable]) simp

lemma sample_note_bytes: "storedBytes sample_note = 94"
  by (simp add: bytes_eval sample_note_def)

lemma sample_empty_simps:
  "nt_records (sample_empty fs) = []" "nt_bytes (sample_empty fs) = []" "nt_total (sample_empty fs) = 0"
  "nt_storage (sample_empty fs) = Some \<lparr>items = [], readable = True, faults = fs\<rparr>" "nt_dirty (sample_empty fs) = []"
  by (simp_all add: sample_empty_def createNotesStore_def load_def ids_under_def List.map_filter_simps)

lemma sample_add:
  "add sample_cfg sample_env ''g'' ''t'' None None (sample_empty fs) =
     (Inr \<lparr>nid = ''n'', ngroup = ''g'', ntext = ''t'', nquote = None, nsource = None, ncreated = 1, nupdated = 1\<rparr>,
      putBatch [sample_note] (sample_empty fs))"
  using sample_note_bytes
  by (simp add: add_def sample_env_def js_trim_def js_space_def refuseCandidate_def noteBytes_def
      totalWith_def sample_empty_simps sample_cfg_def default_notes_config_def sample_note_def Let_def)

lemma sample_record: "record_at (sample_store fs) ''n'' = Some sample_note"
  by (simp add: sample_store_def sample_add record_at_def putBatch_def set_dirty_def records_setRecord
      get_put Let_def) (simp add: sample_note_def)

text \<open>
  C5. In every state the store reaches, whatever the storage did, the running total is the size of
  the live notes, the number of booked notes is their number, every record is under its own id, and
  the list it shows, cached or not, is the sorted list of the live notes.
\<close>

theorem notes_bookkeeping:
  assumes "notes_reachable cfg s"
  shows "nt_total s = (\<Sum>r \<leftarrow> filter (\<lambda>r. active (body r)) (all_records s). int (storedBytes r)) \<and>
    length (nt_bytes s) = length (filter (\<lambda>r. active (body r)) (all_records s)) \<and>
    (\<forall>i r. record_at s i = Some r \<longrightarrow> sid r = i) \<and>
    fst (currentNotes cfg s) = sorted_notes cfg (nt_records s)"
proof -
  have wf: "notes_wf cfg s" using reachable_inv [OF assms] by (simp add: notes_inv_def)
  then show ?thesis
    using booked_sum [OF wf] currentNotes_value [OF wf] by (simp add: wf_parts record_at_def)
qed

theorem notes_bookkeeping_witness:
  "let s = sample_store [Threw] in
    nt_total s = (\<Sum>r \<leftarrow> filter (\<lambda>r. active (body r)) (all_records s). int (storedBytes r)) \<and>
    length (nt_bytes s) = length (filter (\<lambda>r. active (body r)) (all_records s)) \<and>
    (\<forall>i r. record_at s i = Some r \<longrightarrow> sid r = i) \<and>
    fst (currentNotes sample_cfg s) = sorted_notes sample_cfg (nt_records s)"
  unfolding Let_def by (rule notes_bookkeeping [OF sample_reachable])

text \<open>
  C3. What the storage does costs no note: a flush, the debounced flush and a storage event of
  another tab, with any pattern of reads and writes that throw or get lost, leave under every id the
  record that was there or a newer one.
\<close>

theorem storage_failures_lose_nothing:
  assumes "notes_reachable cfg s" and "op_keyed op" and "op \<in> {Flush, TimerFired, DisposeStore, StorageEvent k v same}"
    and "record_at s i = Some r"
  shows "\<exists>q. record_at (notes_exec cfg env op s) i = Some q \<and> 0 \<le> compareStored q r"
proof -
  have inv: "notes_inv cfg s" using assms(1) by (rule reachable_inv)
  have inv': "notes_inv cfg (s\<lparr>nt_timer := False\<rparr>)" using inv by simp
  have "advances s (timer_fired s)"
    using flush_advances [OF inv'] by (auto simp: timer_fired_def advances_refl advances_def)
  moreover have "advances s (dispose s)"
    using flush_advances [OF inv] by (simp add: dispose_def advances_def)
  moreover have "op = StorageEvent k v same \<Longrightarrow> advances s (onStorageEvent k v same s)"
    using storage_event_facts [OF inv, of k v same] assms(2) by auto
  ultimately have "advances s (notes_exec cfg env op s)"
    using assms(3) flush_advances [OF inv] by auto
  then show ?thesis using assms(4) by (simp add: advances_def record_at_def)
qed

theorem storage_failures_lose_nothing_witness:
  "\<exists>q. record_at (notes_exec sample_cfg sample_env Flush (sample_store [Threw])) ''n'' = Some q \<and>
     0 \<le> compareStored q sample_note"
  by (rule storage_failures_lose_nothing [OF sample_reachable, of _ None None True])
    (simp_all add: sample_record)

subsection \<open>Budgets\<close>

lemma total_setRecord:
  assumes wf: "notes_wf cfg s"
  shows "nt_total (setRecord (sid r) r s) = totalWith r s"
    and "length (nt_bytes (setRecord (sid r) r s)) \<le> Suc (length (nt_bytes s))"
proof -
  have b: "get (nt_bytes s) (sid r) = live_bytes (get (nt_records s) (sid r))" using wf by (simp add: wf_parts)
  show "nt_total (setRecord (sid r) r s) = totalWith r s"
    using b by (auto simp: setRecord_def totalWith_def live_bytes_def Let_def)
  have put_len: "length (put k v m) \<le> Suc (length m)" for k and v :: nat and m by (induction m) auto
  have "length (put k v (del k m)) \<le> Suc (length m)" for k v and m :: "(string, nat) jsmap"
    using put_len [of k v "del k m"] length_delete_le [of k m] by linarith
  then show "length (nt_bytes (setRecord (sid r) r s)) \<le> Suc (length (nt_bytes s))"
    by (simp add: setRecord_def Let_def length_delete_le le_SucI)
qed

lemma putBatch_single:
  "nt_total (putBatch [r] s) = nt_total (setRecord (sid r) r s)"
  "nt_bytes (putBatch [r] s) = nt_bytes (setRecord (sid r) r s)"
  "nt_records (putBatch [r] s) = put (sid r) r (nt_records s)"
  "nt_mutations (putBatch [r] s) = nt_mutations s @ [[r]]"
  by (simp_all add: putBatch_def set_dirty_def scheduleFlush_def notify_def setRecord_def Let_def)

text \<open>What an addition does, by its outcome.\<close>

lemma add_outcome:
  assumes "add cfg env grp t q src s = (res, s')"
  obtains (refused) reason where "res = Inl reason" "s' = s" "reason \<noteq> []"
  | (accepted) n where "res = Inr n" "s' = putBatch [\<lparr>writeID = ids env 1, body = Live n\<rparr>] s"
      "refuseCandidate cfg \<lparr>writeID = ids env 1, body = Live n\<rparr> True s = []"
      "nid n = ids env 0" "nupdated n = now env"
  using assms by (auto simp: add_def Let_def split: if_splits)

text \<open>
  A note is added only within its budgets: at most \<open>maxNoteBytes\<close> of text and quote, at most
  \<open>maxActiveNotes\<close> notes, at most \<open>maxTotalBytes\<close> in all, and it is stored under its id and announced;
  a refused note changes nothing.
\<close>

lemma add_within_budget:
  assumes "notes_reachable cfg s"
  shows "case add cfg env grp t q src s of
      (Inl reason, s') \<Rightarrow> s' = s \<and> reason \<noteq> []
    | (Inr n, s') \<Rightarrow>
        noteBytes n \<le> maxNoteBytes cfg \<and> length (nt_bytes s') \<le> maxActiveNotes cfg \<and>
        nt_total s' \<le> maxTotalBytes cfg \<and>
        record_at s' (nid n) = Some \<lparr>writeID = ids env 1, body = Live n\<rparr> \<and>
        nt_mutations s' = nt_mutations s @ [[\<lparr>writeID = ids env 1, body = Live n\<rparr>]]"
proof -
  obtain res s' where a: "add cfg env grp t q src s = (res, s')" by fastforce
  have wf: "notes_wf cfg s" using reachable_inv [OF assms] by (simp add: notes_inv_def)
  from a show ?thesis
  proof (cases rule: add_outcome)
    case (accepted n)
    let ?r = "\<lparr>writeID = ids env 1, body = Live n\<rparr>"
    have "noteBytes n \<le> maxNoteBytes cfg" "length (nt_bytes s) < maxActiveNotes cfg" "totalWith ?r s \<le> maxTotalBytes cfg"
      using accepted(3) by (auto simp: refuseCandidate_def split: if_splits)
    then show ?thesis
      using a accepted total_setRecord [OF wf, of ?r]
      by (simp add: putBatch_single record_at_def get_put)
  qed (use a in simp)
qed

lemma add_within_budget_witness:
  "case add sample_cfg sample_env ''g'' ''t'' None None (sample_empty []) of
      (Inl reason, s') \<Rightarrow> s' = sample_empty [] \<and> reason \<noteq> []
    | (Inr n, s') \<Rightarrow>
        noteBytes n \<le> maxNoteBytes sample_cfg \<and> length (nt_bytes s') \<le> maxActiveNotes sample_cfg \<and>
        nt_total s' \<le> maxTotalBytes sample_cfg \<and>
        record_at s' (nid n) = Some \<lparr>writeID = ids sample_env 1, body = Live n\<rparr> \<and>
        nt_mutations s' = nt_mutations (sample_empty []) @ [[\<lparr>writeID = ids sample_env 1, body = Live n\<rparr>]]"
  by (rule add_within_budget [OF sample_empty_reachable])

subsection \<open>Edits and deletions\<close>

lemma max_safe_less: "\<bar>u\<bar> < max_safe \<Longrightarrow> js_add u 1 = u + 1"
  by (rule js_add_exact) (auto simp: max_safe_def)

text \<open>
  C4. An edit wins over everything it edits: while the version it edits is below \<open>2 ^ 53 - 1\<close>, the
  record an edit stores is strictly newer than the one this browser held and than the one it found
  on disk, so no merge of those can undo it; and it is announced to the sync engine.
\<close>

theorem edit_supersedes:
  assumes "notes_reachable cfg s" and "edit cfg env i t g fb s = (Inr n, s')"
    and "\<And>c. fst (reconcile i s) = Some c \<Longrightarrow> \<bar>rec_updated (body c)\<bar> < max_safe"
  shows "let r = \<lparr>writeID = ids env 0, body = Live n\<rparr>
    in record_at s' i = Some r \<and>
       (\<forall>c. fst (reconcile i s) = Some c \<longrightarrow> 0 < compareStored r c) \<and>
       (\<forall>c. record_at s i = Some c \<longrightarrow> 0 < compareStored r c) \<and>
       last (nt_mutations s') = [r]"
proof -
  obtain cur u where rc: "reconcile i s = (cur, u)" by fastforce
  have inv: "notes_inv cfg s" using assms(1) by (rule reachable_inv)
  have inv_u: "notes_inv cfg u" and cur: "cur = get (nt_records u) i"
    using inv_reconcile [OF inv rc] by auto
  let ?r = "\<lparr>writeID = ids env 0, body = Live n\<rparr>"
  obtain b x where b: "edit_base i cur fb = Some b" and n: "n = edited env cur b x g"
    and s': "s' = putBatch [?r] u"
    using rc assms(2) by (cases rule: edit_outcome) auto
  have id: "nid n = i"
    using edit_base_id [OF _ b] inv_record_id [OF inv_u] cur n by simp
  have up: "nupdated n = max (now env) (js_add (rec_updated (body c)) 1)" if "cur = Some c" for c
    by (simp add: n that)
  have newer: "0 < compareStored ?r c" if "cur = Some c" for c
    using up [OF that] max_safe_less assms(3) rc that by (auto simp: compareStored_def compare_simps)
  have "0 < compareStored ?r c" if c: "record_at s i = Some c" for c
  proof -
    obtain d where d: "get (nt_records u) i = Some d" "0 \<le> compareStored d c"
      using reconcile_advances [of s i] rc c by (auto simp: advances_def record_at_def)
    then have "0 < compareStored ?r d" using newer cur by simp
    then show ?thesis using d(2) by (rule stored_notes.cmp_less_le)
  qed
  then show ?thesis
    using newer rc id by (simp add: s' putBatch_single record_at_def get_put Let_def)
qed

lemma sample_reconcile: "reconcile ''n'' (sample_store []) = (Some sample_note, sample_store [])"
proof -
  have st: "sample_store [] = putBatch [sample_note] (sample_empty [])"
    by (simp add: sample_store_def sample_add)
  have "nt_storage (sample_store []) = Some \<lparr>items = [], readable = True, faults = []\<rparr>"
    unfolding st by (simp add: sample_empty_simps putBatch_def set_dirty_def setRecord_def
        scheduleFlush_def notify_def Let_def)
  then show ?thesis
    using sample_record [of "[]"]
    by (simp add: reconcile_def read_record_def recoverRecord_def parseStored_def record_at_def)
qed

lemma sample_edit:
  "\<exists>s'. edit sample_cfg sample_env ''n'' (Some ''u'') None None (sample_store []) = (Inr
     \<lparr>nid = ''n'', ngroup = ''g'', ntext = ''u'', nquote = None, nsource = None, ncreated = 1, nupdated = 2\<rparr>, s')"
proof -
  let ?n = "\<lparr>nid = ''n'', ngroup = ''g'', ntext = ''u'', nquote = None, nsource = None, ncreated = 1, nupdated = 2\<rparr>"
  let ?r = "\<lparr>writeID = ''n'', body = Live ?n\<rparr>"
  have bytes: "storedBytes ?r = storedBytes sample_note" by (simp add: bytes_eval sample_note_def)
  have "totalWith ?r (sample_store []) = int (storedBytes sample_note)"
    by (simp add: totalWith_def sample_store_def sample_add putBatch_def set_dirty_def setRecord_def
        sample_empty_simps scheduleFlush_def notify_def bytes Let_def) (simp add: sample_note_def get_put)
  then have "refuseCandidate sample_cfg ?r False (sample_store []) = []"
    by (simp add: refuseCandidate_def noteBytes_def sample_note_bytes sample_cfg_def default_notes_config_def)
  then show ?thesis
    by (simp add: edit_def sample_reconcile edit_base_def edited_def sample_note_def sample_env_def
        js_trim_def js_space_def Let_def)
qed

theorem edit_supersedes_witness:
  "case edit sample_cfg sample_env ''n'' (Some ''u'') None None (sample_store []) of
     (Inr n, s') \<Rightarrow>
       (let r = \<lparr>writeID = ids sample_env 0, body = Live n\<rparr>
        in record_at s' ''n'' = Some r \<and>
           (\<forall>c. fst (reconcile ''n'' (sample_store [])) = Some c \<longrightarrow> 0 < compareStored r c) \<and>
           (\<forall>c. record_at (sample_store []) ''n'' = Some c \<longrightarrow> 0 < compareStored r c) \<and>
           last (nt_mutations s') = [r])
   | (Inl _, _) \<Rightarrow> False"
proof -
  obtain n s' where e: "edit sample_cfg sample_env ''n'' (Some ''u'') None None (sample_store []) = (Inr n, s')"
    using sample_edit by blast
  have "\<bar>rec_updated (body c)\<bar> < max_safe" if "fst (reconcile ''n'' (sample_store [])) = Some c" for c
    using that sample_reconcile by (auto simp: sample_note_def max_safe_def)
  from edit_supersedes [OF sample_reachable e this] e show ?thesis by simp
qed

subsection \<open>Versions past the exact integers\<close>

lemma bit_length_less: "n < 2 ^ bit_length n"
proof (induction n rule: bit_length.induct)
  case (1 n)
  then show ?case by (cases "n \<le> 0") (auto simp: bit_length.simps [of n])
qed

lemma bit_length_eq: "2 ^ k \<le> n \<Longrightarrow> n < 2 ^ Suc k \<Longrightarrow> bit_length n = Suc k"
proof -
  assume n: "2 ^ k \<le> n" "n < 2 ^ Suc k"
  have "(2 :: int) ^ k < 2 ^ bit_length n" using n(1) bit_length_less [of n] by (rule le_less_trans)
  then have "k < bit_length n" by (rule power_less_imp_less_exp [rotated]) simp
  moreover have "bit_length n \<le> Suc k" using n(2) by (rule bit_length_le)
  ultimately show ?thesis by simp
qed

lemma round_half_even_dvd: "m dvd round_half_even a m"
  by (simp add: round_half_even_def Let_def)

lemma succ_of_multiple:
  assumes "(m :: int) dvd u" and "2 \<le> m"
  shows "(u + 1) div m = u div m" and "(u + 1) mod m = 1"
proof -
  from assms(1) obtain q where u: "u = m * q" ..
  have "(u + 1) div m = q" "u div m = q" "(u + 1) mod m = 1"
    using assms(2) by (auto simp: u intro: int_div_pos_eq int_mod_pos_eq)
  then show "(u + 1) div m = u div m" and "(u + 1) mod m = 1" by simp_all
qed

text \<open>
  The sum of a version (a number, so one that rounding keeps) and 1: exact up to \<open>2 ^ 53\<close>, one more
  than that for every other number up to \<open>2 ^ 54\<close>, and the version itself otherwise.
\<close>

lemma js_add_one:
  assumes num: "js_round u = u" and "0 \<le> u"
  shows "js_add u 1 =
    (if u < 2 ^ 53 then u + 1 else if u < 2 ^ 54 \<and> u mod 4 \<noteq> 0 then u + 2 else u)"
proof (cases "u < 2 ^ 53")
  case True
  then consider "u + 1 < 2 ^ 53" | "u = 2 ^ 53 - 1" by linarith
  then show ?thesis
  proof cases
    case 1
    then show ?thesis using assms(2) by simp
  next
    case 2
    have "js_add (2 ^ 53 - 1) 1 = 2 ^ 53" by code_simp
    then show ?thesis using 2 by simp
  qed
next
  case False
  define k where "k = bit_length u - 1"
  have pos: "0 < u" using False by simp
  have bl: "bit_length u = Suc k"
  proof -
    have "(2 :: int) ^ 53 < 2 ^ bit_length u" using False bit_length_less [of u] by linarith
    then have "53 < bit_length u" by (rule power_less_imp_less_exp [rotated]) simp
    then show ?thesis by (simp add: k_def)
  qed
  have "2 ^ 53 < (2 :: int) ^ Suc k" using False bit_length_less [of u] bl by simp
  then have "53 < Suc k" by (rule power_less_imp_less_exp [rotated]) simp
  then have k: "53 \<le> k" by simp
  define m where "m = (2 :: int) ^ (Suc k - 53)"
  have m2: "2 \<le> m"
    using power_increasing [of 1 "Suc k - 53" "2 :: int"] k by (simp add: m_def)
  have lo: "2 ^ k \<le> u" using bit_length_ge [OF pos] bl by simp
  have hi: "u < 2 ^ Suc k" using bit_length_less [of u] bl by simp
  have "m dvd u"
    using num pos bl k round_half_even_dvd [of m u] by (simp add: js_round_def m_def)
  have "m dvd 2 ^ Suc k" by (simp add: m_def le_imp_power_dvd)
  have "u + m \<le> 2 ^ Suc k"
  proof -
    obtain a b where "u = m * a" "2 ^ Suc k = m * b"
      using \<open>m dvd u\<close> \<open>m dvd 2 ^ Suc k\<close> by (auto elim!: dvdE)
    moreover have "a + 1 \<le> b" using hi m2 calculation by (simp add: mult_less_cancel_left)
    then have "m * (a + 1) \<le> m * b" using m2 by simp
    ultimately show ?thesis by (simp add: distrib_left)
  qed
  then have "u + 1 < 2 ^ Suc k" using m2 by linarith
  then have "bit_length (u + 1) = Suc k" using lo by (intro bit_length_eq) simp_all
  then have "js_add u 1 = round_half_even (u + 1) m"
    using k pos by (simp add: js_add_def js_round_def m_def)
  moreover have "u div m * m = u" using \<open>m dvd u\<close> by simp
  ultimately have sum: "js_add u 1 = (if 2 < m \<or> (2 = m \<and> even (u div m)) then u else u + m)"
    by (auto simp: round_half_even_def Let_def succ_of_multiple [OF \<open>m dvd u\<close> m2] distrib_right)
  show ?thesis
  proof (cases "k = 53")
    case True
    then have "m = 2" "u < 2 ^ 54" using hi by (simp_all add: m_def)
    moreover have "even (u div 2) \<longleftrightarrow> u mod 4 = 0"
      using \<open>m dvd u\<close> \<open>m = 2\<close> by presburger
    ultimately show ?thesis using sum False by simp
  next
    case False
    with k have "(2 :: int) ^ 2 \<le> m" unfolding m_def by (intro power_increasing) auto
    moreover have "(2 :: int) ^ 54 \<le> 2 ^ k" using False k by (intro power_increasing) auto
    ultimately show ?thesis using sum lo by simp
  qed
qed

text \<open>
  C9. Where the guarantee of an edit ends. Let an edit replace a record of version \<open>u\<close>, any number
  from 0 on. What it stores and announces has a newer version exactly when the clock is past \<open>u\<close>, or
  \<open>u\<close> is below \<open>2 ^ 53\<close>, or \<open>u\<close> is below \<open>2 ^ 54\<close> and not a multiple of 4. In every other case the
  sum \<open>u + 1\<close> rounds back to \<open>u\<close>, the version stays the same, and the random write ids decide whether
  the edit or the text it replaced wins: with the smaller write id, the edit loses everywhere.
\<close>

theorem edit_at_saturation:
  assumes "notes_reachable cfg s" and "edit cfg env i t g fb s = (Inr n, s')"
    and "fst (reconcile i s) = Some c"
    and "js_round (rec_updated (body c)) = rec_updated (body c)" and "0 \<le> rec_updated (body c)"
  shows "let u = rec_updated (body c); r = \<lparr>writeID = ids env 0, body = Live n\<rparr>
    in record_at s' i = Some r \<and> last (nt_mutations s') = [r] \<and> u \<le> nupdated n \<and>
       (u < nupdated n \<longleftrightarrow> u < now env \<or> u < 2 ^ 53 \<or> (u < 2 ^ 54 \<and> u mod 4 \<noteq> 0)) \<and>
       (nupdated n = u \<longrightarrow>
          (0 < compareStored r c \<longleftrightarrow> writeID c < writeID r) \<and>
          (compareStored r c < 0 \<longleftrightarrow> writeID r < writeID c))"
proof -
  obtain cur u where rc: "reconcile i s = (cur, u)" by fastforce
  have inv: "notes_inv cfg s" using assms(1) by (rule reachable_inv)
  have inv_u: "notes_inv cfg u" and cur: "cur = get (nt_records u) i"
    using inv_reconcile [OF inv rc] by auto
  let ?r = "\<lparr>writeID = ids env 0, body = Live n\<rparr>"
  obtain b x where b: "edit_base i cur fb = Some b" and n: "n = edited env cur b x g"
    and s': "s' = putBatch [?r] u"
    using rc assms(2) by (cases rule: edit_outcome) auto
  have id: "nid n = i"
    using edit_base_id [OF _ b] inv_record_id [OF inv_u] cur n by simp
  have up: "nupdated n = max (now env) (js_add (rec_updated (body c)) 1)"
    using rc assms(3) by (simp add: n)
  have stored: "record_at s' i = Some ?r" "last (nt_mutations s') = [?r]"
    using id by (simp_all add: s' putBatch_single record_at_def get_put Let_def)
  have version: "rec_updated (body c) \<le> nupdated n"
    "rec_updated (body c) < nupdated n \<longleftrightarrow> rec_updated (body c) < now env \<or>
       rec_updated (body c) < 2 ^ 53 \<or> (rec_updated (body c) < 2 ^ 54 \<and> rec_updated (body c) mod 4 \<noteq> 0)"
    using js_add_one [OF assms(4,5)] by (auto simp: up less_max_iff_disj le_max_iff_disj)
  have ids: "nupdated n = rec_updated (body c) \<Longrightarrow>
      (0 < compareStored ?r c \<longleftrightarrow> writeID c < writeID ?r) \<and> (compareStored ?r c < 0 \<longleftrightarrow> writeID ?r < writeID c)"
    by (simp add: compareStored_def compare_simps)
  show ?thesis using stored version ids by (simp add: Let_def)
qed

text \<open>A note of version \<open>2 ^ 53\<close>, pulled from the server, and its edit with a smaller write id.\<close>

definition far_note :: stored_note where
  "far_note = \<lparr>writeID = ''w9'', body = Live \<lparr>nid = ''n'', ngroup = ''g'', ntext = ''old'', nquote = None,
     nsource = None, ncreated = 0, nupdated = 9007199254740992\<rparr>\<rparr>"

definition far_env :: env where
  "far_env = \<lparr>now = 1700000000000, ids = (\<lambda>_. ''w1'')\<rparr>"

definition far_store :: notes_store where
  "far_store = notes_exec sample_cfg far_env (Merge [far_note]) (createNotesStore sample_cfg far_env None)"

lemma far_bytes:
  "storedBytes \<lparr>writeID = ''w1'', body = Live \<lparr>nid = ''n'', ngroup = ''g'', ntext = ''new'', nquote = None,
     nsource = None, ncreated = 0, nupdated = 9007199254740992\<rparr>\<rparr> = 112"
  by (simp add: bytes_eval)

lemma far_reachable: "notes_reachable sample_cfg far_store"
  unfolding far_store_def by (intro notes_reachable.step notes_reachable.created) simp_all

lemma far_reconcile: "reconcile ''n'' far_store = (Some far_note, far_store)"
  by (simp add: far_store_def far_note_def merge_def merge_one_def expired_def edit_eval)

lemma far_edit:
  "\<exists>s'. edit sample_cfg far_env ''n'' (Some ''new'') None None far_store = (Inr
     \<lparr>nid = ''n'', ngroup = ''g'', ntext = ''new'', nquote = None, nsource = None, ncreated = 0,
      nupdated = 9007199254740992\<rparr>, s')"
  by (simp add: far_store_def far_env_def far_note_def sample_cfg_def merge_def merge_one_def expired_def
      edit_eval far_bytes default_notes_config_def js_add_saturates)

theorem edit_at_saturation_witness:
  "case edit sample_cfg far_env ''n'' (Some ''new'') None None far_store of
     (Inr n, s') \<Rightarrow> nupdated n = 9007199254740992 \<and>
       compareStored \<lparr>writeID = ''w1'', body = Live n\<rparr> far_note < 0
   | (Inl _, _) \<Rightarrow> False"
proof -
  let ?n = "\<lparr>nid = ''n'', ngroup = ''g'', ntext = ''new'', nquote = None, nsource = None, ncreated = 0,
      nupdated = 9007199254740992\<rparr>"
  obtain s' where e: "edit sample_cfg far_env ''n'' (Some ''new'') None None far_store = (Inr ?n, s')"
    using far_edit by blast
  have num: "js_round (rec_updated (body far_note)) = rec_updated (body far_note)"
  proof -
    have "js_round 9007199254740992 = 9007199254740992" by code_simp
    then show ?thesis by (simp add: far_note_def)
  qed
  have w: "ids far_env 0 = ''w1''" "writeID far_note = ''w9''" "rec_updated (body far_note) = 9007199254740992"
    by (simp_all add: far_env_def far_note_def)
  have "compareStored \<lparr>writeID = ids far_env 0, body = Live ?n\<rparr> far_note < 0 \<longleftrightarrow> ''w1'' < ''w9''"
    using edit_at_saturation [OF far_reachable e _ num] w by (simp add: far_reconcile Let_def)
  then show ?thesis using e w by (simp add: less_list_code less_char_def)
qed

end
