(* ===== verification/NotesSession.thy ===== *)
theory NotesSession
  imports NotesClaims
begin

section \<open>The notes store: deleting, merging, and a session on one disk\<close>

text \<open>
  More of \<^verbatim>\<open>features/notes/notesStore.ts\<close>: a deletion leaves none of the notes it names, a merge is
  last write wins by version, and a session of one tab on a storage that works is there after a
  reload.
\<close>

subsection \<open>Deleting\<close>

definition live_at :: "notes_store \<Rightarrow> string \<Rightarrow> bool" where
  "live_at s i = (case get (nt_records s) i of Some r \<Rightarrow> active (body r) | None \<Rightarrow> False)"

lemma reconcile_other: "j \<noteq> i \<Longrightarrow> get (nt_records (snd (reconcile i s))) j = get (nt_records s) j"
  by (auto simp: reconcile_def records_setRecord get_put Let_def split: option.split dest!: records_read)

lemma tombstones_kinds:
  "\<forall>r \<in> set ts. \<not> active (body r) \<Longrightarrow> \<forall>r \<in> set (fst (tombstones env is ts s)). \<not> active (body r)"
  by (induction env "is" ts s rule: tombstones.induct) (auto simp: Let_def split: prod.split option.split)

lemma tombstones_grow: "set ts \<subseteq> set (fst (tombstones env is ts s))"
proof (induction env "is" ts s rule: tombstones.induct)
  case (2 env i js ts s)
  then show ?case
    by (cases "reconcile i s") (fastforce simp: Let_def split: option.splits)
qed simp

lemma tombstones_other:
  "j \<notin> set is \<Longrightarrow> get (nt_records (snd (tombstones env is ts s))) j = get (nt_records s) j"
proof (induction env "is" ts s rule: tombstones.induct)
  case (2 env i js ts s)
  then show ?case
    using reconcile_other [of j i s] by (cases "reconcile i s") (auto simp: Let_def split: option.splits)
qed simp

lemma tombstones_cover:
  "notes_inv cfg s \<Longrightarrow> i \<in> set is \<Longrightarrow>
     \<not> live_at (snd (tombstones env is ts s)) i \<or> i \<in> sid ` set (fst (tombstones env is ts s))"
proof (induction "is" arbitrary: ts s)
  case (Cons j js)
  obtain cur u where rc: "reconcile j s = (cur, u)" by fastforce
  have u: "notes_inv cfg u" "cur = get (nt_records u) j"
    using inv_reconcile [OF Cons.prems(1) rc] by auto
  show ?case
  proof (cases "i \<in> set js")
    case True
    then show ?thesis using Cons.IH [OF u(1) True] rc by (auto simp: Let_def split: option.split)
  next
    case False
    then have i: "i = j" using Cons.prems(2) by simp
    show ?thesis
    proof (cases "Option.bind cur (\<lambda>r. live_note (body r))")
      case None
      then have "\<not> live_at u i"
        using u i by (auto simp: live_at_def split: option.splits elim: live_note.elims active.elims)
      then show ?thesis
        using None rc tombstones_other [OF False, of env ts u] by (simp add: live_at_def)
    next
      case (Some n)
      let ?t = "\<lparr>writeID = ids env (length ts), body = Tombstone j (max (now env) (js_add (nupdated n) 1))\<rparr>"
      have "?t \<in> set (fst (tombstones env js (ts @ [?t]) u))"
        using tombstones_grow [of "ts @ [?t]" env js u] by auto
      then have "sid ?t \<in> sid ` set (fst (tombstones env js (ts @ [?t]) u))" by blast
      then show ?thesis using Some rc i by simp
    qed
  qed
qed simp

lemma fold_set_dirty_dead:
  "\<forall>r \<in> set ts. \<not> active (body r) \<Longrightarrow> \<not> live_at s i \<or> i \<in> sid ` set ts \<Longrightarrow>
     \<not> live_at (fold set_dirty ts s) i"
proof (induction ts arbitrary: s)
  case (Cons t ts)
  have "\<not> live_at (set_dirty t s) i \<or> i \<in> sid ` set ts"
    using Cons.prems by (auto simp: live_at_def set_dirty_def records_setRecord get_put Let_def)
  with Cons show ?case by simp
qed simp

lemma delete_dead:
  assumes "notes_reachable cfg s" and "i \<in> set is"
  shows "\<not> live_at (snd (delete env is s)) i"
proof -
  have inv: "notes_inv cfg s" using assms(1) by (rule reachable_inv)
  obtain ts u where t: "tombstones env is [] s = (ts, u)" by fastforce
  have cover: "\<not> live_at u i \<or> i \<in> sid ` set ts" and dead: "\<forall>r \<in> set ts. \<not> active (body r)"
    using tombstones_cover [OF inv assms(2), of env "[]"] tombstones_kinds [of "[]" env "is" s] t by auto
  have "nt_records (putBatch ts u) = nt_records (fold set_dirty ts u)"
    by (simp add: putBatch_def Let_def)
  then have "live_at (putBatch ts u) i = live_at (fold set_dirty ts u) i" by (simp add: live_at_def)
  then show ?thesis
    using fold_set_dirty_dead [OF dead cover] cover t by (auto simp: delete_def)
qed

text \<open>
  After a deletion none of the notes it names is shown any more, whatever the storage did
  meanwhile: each has a tombstone or no record. It is refused only when none of them was there.
\<close>

lemma delete_leaves_none:
  assumes "notes_reachable cfg s" and "i \<in> set is"
  shows "\<not> live_at (snd (delete env is s)) i"
  using assms by (rule delete_dead)

lemma delete_leaves_none_witness:
  "\<not> live_at (snd (delete sample_env [''n''] (sample_store [Threw]))) ''n''"
  by (rule delete_leaves_none [OF sample_reachable]) simp

subsection \<open>Merging is last write wins\<close>

definition fresh_rows :: "notes_config \<Rightarrow> env \<Rightarrow> stored_note list \<Rightarrow> bool" where
  "fresh_rows cfg env rs \<longleftrightarrow> list_all (\<lambda>r. \<not> expired cfg env (body r)) rs"

lemma merge_one_lww:
  "\<not> expired cfg env (body r) \<Longrightarrow>
     nt_records (snd (merge_one cfg env r cs)) = lww_insert compareStored sid r (nt_records (snd cs))"
  by (auto simp: merge_one_def lww_insert_def newer_def set_dirty_def records_setRecord Let_def
      stored_notes.cmp_le_flip split: prod.split option.split)

lemma fold_merge_lww:
  "fresh_rows cfg env rs \<Longrightarrow>
     nt_records (snd (fold (merge_one cfg env) rs cs)) = lww_merge compareStored sid rs (nt_records (snd cs))"
  by (induction rs arbitrary: cs) (auto simp: fresh_rows_def merge_one_lww)

lemma merge_lww:
  "fresh_rows cfg env rs \<Longrightarrow> nt_records (merge cfg env rs s) = lww_merge compareStored sid rs (nt_records s)"
  using fold_merge_lww [of cfg env rs "(False, s)"]
  by (cases "fold (merge_one cfg env) rs (False, s)") (auto simp: merge_def)

text \<open>
  Merging rows that are not past their retention is last write wins on the map of records, and
  two browsers that start empty and receive the same rows, in any order and batching of repetitions,
  hold the same record under every id, provided a version names one record.
\<close>

lemma merge_order_independent:
  assumes "fresh_rows cfg env rs" and "fresh_rows cfg' env' rs'" and "set rs = set rs'"
    and "nt_records s = []" and "nt_records s' = []"
    and ident: "\<And>a b. a \<in> set rs \<Longrightarrow> b \<in> set rs \<Longrightarrow> sid a = sid b \<Longrightarrow> compareStored a b = 0 \<Longrightarrow> a = b"
  shows "nt_records (merge cfg env rs s) = lww_merge compareStored sid rs (nt_records s) \<and>
    record_at (merge cfg env rs s) i = record_at (merge cfg' env' rs' s') i"
  using assms merge_lww [OF assms(1), of s] merge_lww [OF assms(2), of s']
    stored_notes.merge_converges [OF assms(3), of sid i]
  by (simp add: record_at_def)

lemma merge_order_independent_witness:
  "let a = sample_note; b = \<lparr>writeID = ''z'', body = Tombstone ''n'' 5\<rparr>; e = sample_empty [] in
    nt_records (merge sample_cfg sample_env [a, b] e) = lww_merge compareStored sid [a, b] (nt_records e) \<and>
    record_at (merge sample_cfg sample_env [a, b] e) ''n'' = record_at (merge sample_cfg sample_env [b, a, b] e) ''n''"
  unfolding Let_def
  by (rule merge_order_independent)
    (auto simp: fresh_rows_def expired_def sample_note_def sample_env_def sample_cfg_def
      default_notes_config_def sample_empty_simps compareStored_def compareStateVersions_def)

text \<open>What an operation of a session on a working disk draws: valid strings, fresh ids, safe versions.\<close>

definition bounded :: "notes_store \<Rightarrow> bool" where
  "bounded s \<longleftrightarrow> (\<forall>i r. get (nt_records s) i = Some r \<longrightarrow> \<bar>rec_updated (body r)\<bar> < max_safe)"

fun op_session :: "env \<Rightarrow> notes_op \<Rightarrow> notes_store \<Rightarrow> bool" where
  "op_session env (Add g t q src) s \<longleftrightarrow> utf8_valid (ids env 0) \<and> get (nt_records s) (ids env 0) = None"
| "op_session env (Edit i t g fb) s \<longleftrightarrow> utf8_valid i \<and> bounded s"
| "op_session env (Delete is) s \<longleftrightarrow> bounded s"
| "op_session env (Merge rs) s \<longleftrightarrow> (\<forall>r \<in> set rs. utf8_valid (sid r))"
| "op_session env (StorageEvent k v same) s \<longleftrightarrow> False"
| "op_session env op s \<longleftrightarrow> True"

text \<open>A tab that starts with an empty storage that works and is alone on it.\<close>

inductive notes_session :: "notes_config \<Rightarrow> notes_store \<Rightarrow> bool" for cfg where
  opened: "reliable st \<Longrightarrow> items st = [] \<Longrightarrow> notes_session cfg (createNotesStore cfg env (Some st))"
| worked: "notes_session cfg s \<Longrightarrow> op_session env op s \<Longrightarrow> notes_session cfg (notes_exec cfg env op s)"

definition session_inv :: "notes_store \<Rightarrow> bool" where
  "session_inv s \<longleftrightarrow> mirrored s \<and> distinct (nt_dirty s)"

lemma mirrored_upd [simp]:
  "mirrored (s\<lparr>nt_timer := b\<rparr>) = mirrored s" "mirrored (s\<lparr>nt_mutations := ms\<rparr>) = mirrored s"
  "mirrored (s\<lparr>nt_target := t\<rparr>) = mirrored s" "mirrored (s\<lparr>nt_attached := b\<rparr>) = mirrored s"
  "mirrored (s\<lparr>nt_cache := c\<rparr>) = mirrored s" "mirrored (notify s) = mirrored s"
  "mirrored (scheduleFlush s) = mirrored s"
  by (simp_all add: mirrored_def)

lemma dirty_simps [simp]:
  "nt_dirty (notify s) = nt_dirty s" "nt_dirty (scheduleFlush s) = nt_dirty s"
  "nt_dirty (setRecord i r s) = nt_dirty s"
  by (simp_all add: notify_def scheduleFlush_def setRecord_def Let_def)

lemma session_set_dirty:
  assumes "session_inv s" and "utf8_valid (sid r)"
    and "\<And>c. get (nt_records s) (sid r) = Some c \<Longrightarrow> 0 \<le> compareStored r c"
  shows "session_inv (set_dirty r s)"
proof -
  obtain st where st: "mirrored_on st s" using assms(1) by (auto simp: session_inv_def mirrored_def)
  have "mirrored_on st (set_dirty r s)"
    using st assms(2) newer_than_disk [OF st _ assms(3)] by (rule mirrored_set_dirty)
  moreover have "distinct (nt_dirty (set_dirty r s))"
    using assms(1) by (simp add: set_dirty_def session_inv_def Let_def)
  ultimately show ?thesis by (auto simp: session_inv_def mirrored_def)
qed

lemma session_putBatch:
  assumes s: "session_inv s" and v: "\<forall>r \<in> set rs. utf8_valid (sid r)"
    and n: "\<forall>r \<in> set rs. \<forall>c. get (nt_records s) (sid r) = Some c \<longrightarrow> 0 \<le> compareStored r c"
  shows "session_inv (putBatch rs s)"
proof -
  obtain st where st: "mirrored_on st s" using s by (auto simp: session_inv_def mirrored_def)
  have "mirrored_on st (fold set_dirty rs s)"
    using st v n newer_than_disk [OF st] by (intro mirrored_fold_set_dirty) blast+
  moreover have "distinct (nt_dirty s) \<Longrightarrow> distinct (nt_dirty (fold set_dirty rs s))" for s
    by (induction rs arbitrary: s) (simp_all add: set_dirty_def Let_def)
  ultimately show ?thesis using s by (auto simp: session_inv_def mirrored_def putBatch_def Let_def)
qed

lemma session_reconcile: "session_inv s \<Longrightarrow> reconcile i s = (get (nt_records s) i, s)"
  using mirrored_reconcile by (auto simp: session_inv_def mirrored_def)

lemma session_id: "session_inv s \<Longrightarrow> get (nt_records s) i = Some r \<Longrightarrow> sid r = i \<and> utf8_valid i"
  using mirrored_id by (auto simp: session_inv_def mirrored_def)

lemma session_drop: "session_inv s \<Longrightarrow> session_inv (drop_note i s)"
proof -
  assume s: "session_inv s"
  then obtain st where st: "mirrored_on st s" by (auto simp: session_inv_def mirrored_def)
  have "nt_dirty (drop_note i s) = set_remove i (nt_dirty s)"
    using mirrored_onD [OF st]
    by (simp add: drop_note_def Let_def guard_storage_def write_both_def write_item_def)
  with s mirrored_drop [OF st, of i] show ?thesis by (simp add: session_inv_def)
qed

lemma session_add:
  "session_inv s \<Longrightarrow> op_session env (Add g t q src) s \<Longrightarrow> session_inv (snd (add cfg env g t q src s))"
  by (auto simp: add_def Let_def intro!: session_putBatch)

lemma version_up:
  assumes "\<bar>rec_updated (body c)\<bar> < max_safe"
    and "rec_updated b = max (now env) (js_add (rec_updated (body c)) 1)"
  shows "0 \<le> compareStored \<lparr>writeID = w, body = b\<rparr> c"
  using assms max_safe_less [of "rec_updated (body c)"]
  by (auto simp: compareStored_def compare_simps)

lemma session_edit:
  assumes s: "session_inv s" and op: "op_session env (Edit i t g fb) s"
  shows "session_inv (snd (edit cfg env i t g fb s))"
proof -
  have rc: "reconcile i s = (get (nt_records s) i, s)" using s by (rule session_reconcile)
  obtain res s' where e: "edit cfg env i t g fb s = (res, s')" by fastforce
  from rc e show ?thesis
  proof (cases rule: edit_outcome)
    case (accepted b x)
    let ?r = "\<lparr>writeID = ids env 0, body = Live (edited env (get (nt_records s) i) b x g)\<rparr>"
    have b: "nid b = i" using edit_base_id [OF _ accepted(1)] session_id [OF s] by blast
    have "0 \<le> compareStored ?r c" if "get (nt_records s) i = Some c" for c
      using op that by (intro version_up) (auto simp: bounded_def)
    then have "session_inv (putBatch [?r] s)"
      using s op b by (intro session_putBatch) auto
    with e accepted(3) show ?thesis by simp
  qed (use e s in simp)
qed

lemma session_tombstones:
  assumes "session_inv s" and "bounded s"
    and "\<forall>r \<in> set ts. utf8_valid (sid r) \<and> (\<forall>c. get (nt_records s) (sid r) = Some c \<longrightarrow> 0 \<le> compareStored r c)"
  shows "snd (tombstones env is ts s) = s \<and>
    (\<forall>r \<in> set (fst (tombstones env is ts s)). utf8_valid (sid r) \<and>
       (\<forall>c. get (nt_records s) (sid r) = Some c \<longrightarrow> 0 \<le> compareStored r c))"
  using assms(3)
proof (induction "is" arbitrary: ts)
  case (Cons i js)
  have rc: "reconcile i s = (get (nt_records s) i, s)" using assms(1) by (rule session_reconcile)
  show ?case
  proof (cases "Option.bind (get (nt_records s) i) (\<lambda>r. live_note (body r))")
    case (Some n)
    then obtain r where r: "get (nt_records s) i = Some r" "body r = Live n"
      by (auto simp: bind_eq_Some_conv elim: live_note.elims)
    let ?t = "\<lparr>writeID = ids env (length ts), body = Tombstone i (max (now env) (js_add (nupdated n) 1))\<rparr>"
    have "\<bar>rec_updated (body r)\<bar> < max_safe" using assms(2) r(1) by (simp add: bounded_def)
    then have "0 \<le> compareStored ?t r" by (rule version_up) (simp add: r(2))
    then have "\<forall>q \<in> set (ts @ [?t]). utf8_valid (sid q) \<and>
        (\<forall>c. get (nt_records s) (sid q) = Some c \<longrightarrow> 0 \<le> compareStored q c)"
      using Cons.prems r session_id [OF assms(1) r(1)] by auto
    note IH = Cons.IH [OF this]
    have "tombstones env (i # js) ts s = tombstones env js (ts @ [?t]) s" using Some rc by simp
    then show ?thesis by (rule ssubst) (rule IH)
  next
    case None
    then have "tombstones env (i # js) ts s = tombstones env js ts s" using rc by simp
    then show ?thesis by (rule ssubst) (rule Cons.IH [OF Cons.prems])
  qed
qed simp

lemma session_delete:
  assumes s: "session_inv s" and b: "bounded s"
  shows "session_inv (snd (delete env is s))"
  using session_tombstones [OF s b, of "[]" env "is"] s
  by (cases "tombstones env is [] s") (auto simp: delete_def intro!: session_putBatch)

lemma session_merge_one:
  assumes "session_inv (snd cs)" and "utf8_valid (sid r)"
  shows "session_inv (snd (merge_one cfg env r cs))"
proof -
  obtain b s where cs: "cs = (b, s)" by fastforce
  have "session_inv (set_dirty r s)"
    if "\<And>c. get (nt_records s) (sid r) = Some c \<Longrightarrow> newer compareStored c r \<noteq> c"
  proof (rule session_set_dirty)
    show "0 \<le> compareStored r c" if "get (nt_records s) (sid r) = Some c" for c
      using \<open>\<And>c. get (nt_records s) (sid r) = Some c \<Longrightarrow> newer compareStored c r \<noteq> c\<close> [OF that]
        stored_notes.cmp_total [of r c] by (auto simp: newer_def split: if_splits)
  qed (use assms cs in auto)
  then show ?thesis
    using assms(1) cs by (auto simp: merge_one_def session_drop split: option.split)
qed

lemma session_merge:
  assumes "session_inv s" and "\<forall>r \<in> set rs. utf8_valid (sid r)"
  shows "session_inv (merge cfg env rs s)"
proof -
  have "session_inv (snd cs) \<Longrightarrow> session_inv (snd (fold (merge_one cfg env) rs cs))" for cs
    using assms(2)
  proof (induction rs arbitrary: cs)
    case (Cons r rs)
    have "session_inv (snd (merge_one cfg env r cs))"
      using Cons.prems by (intro session_merge_one) auto
    with Cons.IH [of "merge_one cfg env r cs"] Cons.prems show ?case by simp
  qed simp
  from this [of "(False, s)"] assms(1) show ?thesis
    by (cases "fold (merge_one cfg env) rs (False, s)") (auto simp: merge_def session_inv_def)
qed

lemma session_forget: "session_inv s \<Longrightarrow> session_inv (forget_notes is s)"
proof -
  have "session_inv s \<Longrightarrow> session_inv (fold drop_note js s)" for js s
    by (induction js arbitrary: s) (auto intro: session_drop)
  then show "session_inv s \<Longrightarrow> session_inv (forget_notes is s)"
    by (auto simp: forget_notes_def Let_def session_inv_def)
qed

lemma session_flush: "session_inv s \<Longrightarrow> session_inv (snd (flush s))"
  using flush_mirrored by (simp add: session_inv_def)

lemma session_rememberTarget: "session_inv s \<Longrightarrow> session_inv (rememberTarget g s)"
proof -
  assume s: "session_inv s"
  then obtain st where st: "mirrored_on st s" by (auto simp: session_inv_def mirrored_def)
  let ?st = "st\<lparr>items := put lastTargetKey (Plain g) (items st)\<rparr>"
  let ?t = "s\<lparr>nt_target := Some g, nt_storage := Some ?st\<rparr>"
  have "disk_entry ?t ?st j" for j
    using mirrored_onD(7) [OF st, of j] target_key [of j] by (simp add: disk_entry_def get_put)
  moreover have "record_keys_ok ?st"
    using mirrored_onD(6) [OF st] by (rule record_keys_put) simp
  ultimately have "mirrored_on ?st ?t"
    using mirrored_onD [OF st] by (simp add: mirrored_on_def reliable_def)
  then have "mirrored ?t" by (auto simp: mirrored_def)
  moreover have "rememberTarget g s = (if g = ''general'' then s else ?t)"
    using mirrored_onD [OF st] by (simp add: rememberTarget_def write_item_def)
  ultimately show ?thesis using s by (simp add: session_inv_def)
qed

lemma session_exec: "session_inv s \<Longrightarrow> op_session env op s \<Longrightarrow> session_inv (notes_exec cfg env op s)"
proof (cases op)
  case (Add g t q src)
  then show "session_inv s \<Longrightarrow> op_session env op s \<Longrightarrow> ?thesis" by (simp only: notes_exec.simps session_add)
next
  case (Edit i t g f)
  then show "session_inv s \<Longrightarrow> op_session env op s \<Longrightarrow> ?thesis" by (simp only: notes_exec.simps session_edit)
next
  case TimerFired
  then show "session_inv s \<Longrightarrow> op_session env op s \<Longrightarrow> ?thesis"
    using session_flush [of "s\<lparr>nt_timer := False\<rparr>"] by (auto simp: timer_fired_def session_inv_def)
next
  case DisposeStore
  then show "session_inv s \<Longrightarrow> op_session env op s \<Longrightarrow> ?thesis"
    using session_flush [of s] by (simp add: dispose_def session_inv_def)
next
  case ListNotes
  then show "session_inv s \<Longrightarrow> op_session env op s \<Longrightarrow> ?thesis"
    by (simp add: currentNotes_def session_inv_def Let_def)
next
  case Subscribe
  then show "session_inv s \<Longrightarrow> op_session env op s \<Longrightarrow> ?thesis"
    by (simp add: subscribe_def session_inv_def)
qed (simp_all add: session_merge session_delete session_forget session_flush session_rememberTarget)

lemma session_opened:
  assumes "reliable st" and "items st = []"
  shows "session_inv (createNotesStore cfg env (Some st))"
proof -
  have e: "ids_under recordPrefix st = []" using assms(2) by (simp add: ids_under_def List.map_filter_simps)
  have "mirrored_on st (createNotesStore cfg env (Some st))"
    using assms by (simp add: createNotesStore_def load_def e reliable_def mirrored_on_def record_keys_ok_def
        disk_entry_def entry_ok_def)
  moreover have "nt_dirty (createNotesStore cfg env (Some st)) = []"
    using assms by (simp add: createNotesStore_def load_def e reliable_def)
  ultimately show ?thesis by (auto simp: session_inv_def mirrored_def)
qed

lemma session_mirrored: "notes_session cfg s \<Longrightarrow> session_inv s"
  by (induction rule: notes_session.induct) (auto intro: session_opened session_exec)

text \<open>
  C2. What a session wrote is there after a reload: once flushed, a store created anew on the same
  disk has under every id the record the session had, but for the tombstones past their retention.
\<close>

theorem flushed_session_reloads:
  assumes "notes_session cfg s"
  shows "record_at (createNotesStore cfg' env (nt_storage (snd (flush s)))) i =
      reloaded cfg' env (record_at s i)"
proof -
  have "mirrored s" "distinct (nt_dirty s)" using session_mirrored [OF assms] by (simp_all add: session_inv_def)
  note f = flush_mirrored [OF this]
  obtain st where st: "mirrored_on st (snd (flush s))" using f(1) by (auto simp: mirrored_def)
  then show ?thesis
    using reload_clean [OF st f(2), of cfg' env i] mirrored_onD(1) [OF st] f(3) by (simp add: record_at_def)
qed

theorem flushed_session_reloads_witness:
  "record_at (createNotesStore sample_cfg sample_env (nt_storage (snd (flush (sample_store []))))) ''n'' =
     reloaded sample_cfg sample_env (record_at (sample_store []) ''n'')"
proof (rule flushed_session_reloads)
  have "notes_session sample_cfg (sample_empty [])"
    unfolding sample_empty_def by (rule notes_session.opened) (simp_all add: reliable_def)
  then show "notes_session sample_cfg (sample_store [])"
    unfolding sample_store_def
    by (rule notes_session.worked) (simp add: sample_env_def sample_empty_simps)
qed

end
