(* ===== verification/StateSync.thy ===== *)
theory StateSync
  imports StateVersion
begin

section \<open>The sync engine\<close>

text \<open>
  \<^verbatim>\<open>shared/stateSync.ts\<close>, the engine that keeps one namespace of rows in step with the server: a
  queue of the keys still to send, a cursor, pulls and posts that never overlap with their own kind,
  a retry with a bounded backoff, rows held back because the server refuses them as too large, and
  the first full pull that trims the queue to the difference.

  The engine is a state machine. Its state is the record \<open>sync\<close>: the variables of \<open>createStateSync\<close>
  and, for the asynchronous functions, where they are suspended (\<open>sy_pulling\<close>, \<open>sy_sending\<close>,
  \<open>sy_waiters\<close>). One event (\<open>sync_event\<close>) is one turn of the browser's event loop: a call of the
  engine's interface, an answer of the server, a retry timer, a change in the store: \<open>Mutated\<close> for one the store announces to
  the engine, \<open>Adopted\<close> for rows it took over from another tab, whose own engine has them to send. The store the
  engine serves is a parameter (\<open>sync_store\<close>), and the laws it promises are the locale
  \<open>sync_contract\<close>; the theories of the stores interpret it.
\<close>

subsection \<open>The engine's parameters\<close>

record 's sync_store =
  all_rows :: "'s \<Rightarrow> state_row list"
  row_of :: "'s \<Rightarrow> string \<Rightarrow> state_row option"
  merge_rows :: "env \<Rightarrow> state_row list \<Rightarrow> 's \<Rightarrow> 's"
  forget_rows :: "string list \<Rightarrow> 's \<Rightarrow> 's"

record sync_messages =
  browserOnly :: string
  pendingMsg :: "nat \<Rightarrow> string"
  queuePersistence :: string
  postRefused :: "state_row list \<Rightarrow> string \<Rightarrow> string"
  cursorPersistence :: string

record 's sync_config =
  namespace :: string
  compare_rows :: "state_row \<Rightarrow> state_row \<Rightarrow> int"
  messages :: sync_messages
  ops :: "'s sync_store"
  maxPostBytes :: nat
  can_retry :: bool

text \<open>What \<open>apiProblem(error)\<close> tells of a failed request.\<close>

record api_problem =
  status :: "nat option"
  perror :: string
  pdetail :: string

definition viewerReadOnlyMessage :: "api_problem \<Rightarrow> string" where
  "viewerReadOnlyMessage p =
     (if status p = Some 409 \<and> perror p = ''attribution required''
      then ''Connect via Tailscale to send. '' @ pdetail p
      else if status p = Some 409 \<and> perror p = ''sender refused''
      then ''Sender collision: this viewer identity maps to a web sender name already reserved or in use. '' @ pdetail p
      else ''Viewer identity is unavailable. '' @ pdetail p)"

subsection \<open>Splitting rows into request bodies\<close>

definition maxStatePostBytes :: nat where
  "maxStatePostBytes = 48 * 1024"

definition row_bytes :: "state_row \<Rightarrow> nat" where
  "row_bytes r = json_bytes (row_json r)"

definition envelope :: nat where
  "envelope = length ''{\"rows\":[]}''"

fun chunk_loop :: "nat \<Rightarrow> state_row list \<Rightarrow> state_row list list \<Rightarrow> state_row list \<Rightarrow> nat \<Rightarrow> state_row list list" where
  "chunk_loop maxBytes [] chunks chunk bytes = (if chunk \<noteq> [] then chunks @ [chunk] else chunks)"
| "chunk_loop maxBytes (row # rows) chunks chunk bytes =
     (let size = row_bytes row
      in if chunk \<noteq> [] \<and> bytes + 1 + size > maxBytes
         then chunk_loop maxBytes rows (chunks @ [chunk]) [row] (envelope + size)
         else chunk_loop maxBytes rows chunks (chunk @ [row])
                (bytes + (if chunk \<noteq> [] then 1 else 0) + size))"

definition chunkRows :: "state_row list \<Rightarrow> nat \<Rightarrow> state_row list list" where
  "chunkRows rows maxBytes = chunk_loop maxBytes rows [] [] envelope"

text \<open>The size of the body that carries a chunk: \<open>{"rows":[r1,\<dots>,rn]}\<close>.\<close>

definition body_bytes :: "state_row list \<Rightarrow> nat" where
  "body_bytes rows = envelope + (\<Sum>r\<leftarrow>rows. row_bytes r) + (length rows - 1)"

subsection \<open>The persisted queue and cursor\<close>

definition cursorKey :: "string \<Rightarrow> string" where
  "cursorKey ns = ''herder.web.state.v1:'' @ ns @ '':rev''"

definition queueKey :: "string \<Rightarrow> string" where
  "queueKey ns = ''herder.web.state.v1:'' @ ns @ '':queue''"

text \<open>
  The cursor is stored as a decimal, which \<open>JSON\<close> and \<open>Number\<close> read alike; a text \<open>Number\<close> does not
  read as a safe non-negative integer is 0.
\<close>

definition readCursor :: "string \<Rightarrow> storage \<Rightarrow> num" where
  "readCursor ns st =
     (case getItem st (cursorKey ns) of
        Some (Some (Json (JNum n))) \<Rightarrow> if is_safe_integer n \<and> n \<ge> 0 then n else 0
      | _ \<Rightarrow> 0)"

fun queue_entry :: "json \<Rightarrow> string option" where
  "queue_entry (JStr s) = (if s \<noteq> [] then Some s else None)"
| "queue_entry v = map_option row_key (validStateRow v)"

definition readQueue :: "string \<Rightarrow> storage \<Rightarrow> string list" where
  "readQueue ns st =
     (case getItem st (queueKey ns) of
        Some cell \<Rightarrow>
          (case parse_cell cell of
             Some (JArr vs) \<Rightarrow> List.map_filter queue_entry vs
           | _ \<Rightarrow> [])
      | None \<Rightarrow> [])"

definition writeCursor :: "string \<Rightarrow> num \<Rightarrow> storage \<Rightarrow> storage \<times> bool" where
  "writeCursor ns c st = setItem (cursorKey ns) (Json (JNum c)) st"

definition writeQueue :: "string \<Rightarrow> string list \<Rightarrow> storage \<Rightarrow> storage \<times> bool" where
  "writeQueue ns ks st = setItem (queueKey ns) (Json (JArr (map JStr ks))) st"

definition resetStateSyncCursor :: "string \<Rightarrow> storage \<Rightarrow> storage" where
  "resetStateSyncCursor ns st = fst (setItem (cursorKey ns) (Json (JNum 0)) st)"

subsection \<open>The engine's state\<close>

text \<open>Who awaits the pull in flight: \<open>start\<close>, \<open>retryNow\<close> and \<open>stateChanged\<close>, or the end of a send.\<close>

datatype waiter = AfterStart | AfterPull | AfterSend

text \<open>
  Where \<open>sendOnce\<close> is suspended: in the \<open>upsert\<close> of some rows, with the rows a refused chunk leaves
  to post one by one and the chunks still to post, or in the pull that follows the last post.
\<close>

datatype posting = Posting "state_row list" "state_row list" "state_row list list" | AwaitPull

datatype request = Since num | Upsert "state_row list"

record 's sync =
  sy_store :: 's
  sy_disk :: storage
  sy_queue :: "string list"
  sy_held :: "string list"
  sy_refused :: string
  sy_cursor :: num
  sy_catchUp :: bool
  sy_pulled :: bool
  sy_disposed :: bool
  sy_retry :: bool
  sy_backoff :: num
  sy_pulling :: "bool option"
  sy_pullAgain :: bool
  sy_waiters :: "waiter list"
  sy_sending :: "posting option"
  sy_sendAgain :: bool
  sy_blocked :: bool
  sy_problem :: string
  sy_requests :: "request list"

definition createStateSync :: "'s sync_config \<Rightarrow> 's \<Rightarrow> storage \<Rightarrow> 's sync" where
  "createStateSync cfg st disk =
     \<lparr>sy_store = st, sy_disk = disk, sy_queue = uniq (readQueue (namespace cfg) disk), sy_held = [],
      sy_refused = [], sy_cursor = readCursor (namespace cfg) disk, sy_catchUp = True,
      sy_pulled = False, sy_disposed = False, sy_retry = False, sy_backoff = 500, sy_pulling = None,
      sy_pullAgain = False, sy_waiters = [], sy_sending = None, sy_sendAgain = False,
      sy_blocked = False, sy_problem = [], sy_requests = []\<rparr>"

definition row_in :: "'s sync_config \<Rightarrow> 's sync \<Rightarrow> string \<Rightarrow> state_row option" where
  "row_in cfg s k = row_of (ops cfg) (sy_store s) k"

definition write_queue :: "'s sync_config \<Rightarrow> 's sync \<Rightarrow> 's sync" where
  "write_queue cfg s =
     (let (d, ok) = writeQueue (namespace cfg) (sy_queue s) (sy_disk s);
          s' = s\<lparr>sy_disk := d\<rparr>
      in if ok then s' else s'\<lparr>sy_problem := queuePersistence (messages cfg)\<rparr>)"

definition enqueueKeys :: "'s sync_config \<Rightarrow> string list \<Rightarrow> 's sync \<Rightarrow> 's sync" where
  "enqueueKeys cfg ks s =
     (let before = length (sy_queue s); s' = s\<lparr>sy_queue := add_all ks (sy_queue s)\<rparr>
      in if length (sy_queue s') \<noteq> before then write_queue cfg s' else s')"

definition dequeueKeys :: "'s sync_config \<Rightarrow> string list \<Rightarrow> 's sync \<Rightarrow> 's sync" where
  "dequeueKeys cfg ks s =
     (let changed = (\<exists>k \<in> set ks. k \<in> set (sy_queue s));
          s' = s\<lparr>sy_queue := remove_all ks (sy_queue s)\<rparr>
      in if changed then write_queue cfg s' else s')"

definition forget :: "'s sync_config \<Rightarrow> string list \<Rightarrow> 's sync \<Rightarrow> 's sync" where
  "forget cfg ks s =
     (if ks = [] then s
      else dequeueKeys cfg ks (s\<lparr>sy_store := forget_rows (ops cfg) ks (sy_store s)\<rparr>))"

definition waiting :: "'s sync \<Rightarrow> string list" where
  "waiting s = filter (\<lambda>k. k \<notin> set (sy_held s)) (sy_queue s)"

definition settled :: "'s sync \<Rightarrow> 's sync" where
  "settled s =
     (if waiting s \<noteq> [] then s
      else s\<lparr>sy_problem := (if sy_held s \<noteq> [] then sy_refused s else [])\<rparr>)"

definition showPending :: "'s sync_config \<Rightarrow> 's sync \<Rightarrow> 's sync" where
  "showPending cfg s =
     (let count = length (waiting s)
      in if count > 0 then s\<lparr>sy_problem := pendingMsg (messages cfg) count\<rparr> else s)"

definition cancelScheduledRetry :: "'s sync \<Rightarrow> 's sync" where
  "cancelScheduledRetry s = s\<lparr>sy_retry := False\<rparr>"

definition tooLarge :: "api_problem \<Rightarrow> bool" where
  "tooLarge p \<longleftrightarrow> status p = Some 413"

definition scheduleRetry :: "'s sync_config \<Rightarrow> 's sync \<Rightarrow> 's sync" where
  "scheduleRetry cfg s =
     (if sy_disposed s \<or> sy_retry s \<or> \<not> can_retry cfg then s
      else s\<lparr>sy_retry := True, sy_backoff := min (sy_backoff s * 2) 10000\<rparr>)"

definition handleFailure :: "'s sync_config \<Rightarrow> api_problem \<Rightarrow> 's sync \<Rightarrow> 's sync" where
  "handleFailure cfg p s =
     (if status p = Some 409 \<and> perror p = ''attribution required''
      then cancelScheduledRetry (s\<lparr>sy_blocked := True\<rparr>)
             \<lparr>sy_problem := browserOnly (messages cfg) @ '' '' @ viewerReadOnlyMessage p\<rparr>
      else scheduleRetry cfg (showPending cfg s))"

subsection \<open>Pulling\<close>

definition begin_pull :: "'s sync \<Rightarrow> 's sync" where
  "begin_pull s =
     s\<lparr>sy_pulling := Some (sy_catchUp s),
       sy_requests := sy_requests s @ [Since (if sy_catchUp s then 0 else sy_cursor s)]\<rparr>"

definition requestPull :: "'s sync \<Rightarrow> 's sync" where
  "requestPull s = (if sy_pulling s \<noteq> None then s\<lparr>sy_pullAgain := True\<rparr> else begin_pull s)"

definition await_pull :: "waiter \<Rightarrow> 's sync \<Rightarrow> 's sync" where
  "await_pull w s = (let s' = requestPull s in s'\<lparr>sy_waiters := sy_waiters s' @ [w]\<rparr>)"

definition rows_map :: "state_row list \<Rightarrow> (string, state_row) jsmap" where
  "rows_map rows = fold (\<lambda>r m. put (row_key r) r m) rows []"

text \<open>The keys a pull settles: their row is gone here, or the server's is at least as new.\<close>

definition settled_keys :: "'s sync_config \<Rightarrow> state_row list \<Rightarrow> 's sync \<Rightarrow> string list" where
  "settled_keys cfg rows s =
     filter (\<lambda>k. case row_in cfg s k of
                   None \<Rightarrow> True
                 | Some local \<Rightarrow>
                     (case get (rows_map rows) k of
                        None \<Rightarrow> False
                      | Some remote \<Rightarrow> compare_rows cfg remote local \<ge> 0))
       (sy_queue s)"

text \<open>A row of the store the full pull lacks, at or below the purge horizon.\<close>

definition purged_row :: "state_row list \<Rightarrow> num \<Rightarrow> state_row \<Rightarrow> bool" where
  "purged_row rows horizon r \<longleftrightarrow>
     get (rows_map rows) (row_key r) = None \<and> horizon > 0 \<and> row_updated r \<le> horizon"

definition catch_up :: "'s sync_config \<Rightarrow> state_row list \<Rightarrow> num option \<Rightarrow> 's sync \<Rightarrow> 's sync" where
  "catch_up cfg rows horizon0 s =
     (let horizon = or_else horizon0 0;
          local = all_rows (ops cfg) (sy_store s);
          purged = map row_key (filter (purged_row rows horizon) local);
          newer = map row_key
            (filter (\<lambda>r. \<not> purged_row rows horizon r \<and>
                 (case get (rows_map rows) (row_key r) of
                    None \<Rightarrow> True
                  | Some remote \<Rightarrow> compare_rows cfg r remote > 0)) local)
      in forget cfg purged
           (enqueueKeys cfg newer (s\<lparr>sy_catchUp := False, sy_pulled := True\<rparr>)))"

definition pull_landed ::
    "'s sync_config \<Rightarrow> env \<Rightarrow> bool \<Rightarrow> state_row list \<Rightarrow> num \<Rightarrow> num option \<Rightarrow> 's sync \<Rightarrow> 's sync" where
  "pull_landed cfg env full rows newRev horizon s =
     (let s1 = s\<lparr>sy_blocked := False, sy_store := merge_rows (ops cfg) env rows (sy_store s),
                 sy_cursor := newRev\<rparr>;
          (d, ok) = writeCursor (namespace cfg) newRev (sy_disk s1);
          s2 = (if ok then s1\<lparr>sy_disk := d\<rparr>
                else s1\<lparr>sy_disk := d, sy_problem := cursorPersistence (messages cfg)\<rparr>);
          s3 = (if rows \<noteq> [] \<and> sy_queue s2 \<noteq> [] then dequeueKeys cfg (settled_keys cfg rows s2) s2 else s2);
          s4 = (if full then catch_up cfg rows horizon s3 else s3)
      in if sy_queue s4 = [] then s4\<lparr>sy_problem := []\<rparr> else s4)"

subsection \<open>Sending\<close>

definition start_post :: "state_row list \<Rightarrow> state_row list \<Rightarrow> state_row list list \<Rightarrow> 's sync \<Rightarrow> 's sync" where
  "start_post rows singles chunks s =
     s\<lparr>sy_sending := Some (Posting rows singles chunks), sy_requests := sy_requests s @ [Upsert rows]\<rparr>"

text \<open>The end of \<open>sendOnce\<close> when every chunk was posted: it awaits a pull.\<close>

definition posted_all :: "'s sync \<Rightarrow> 's sync" where
  "posted_all s = await_pull AfterSend (settled (s\<lparr>sy_backoff := 500\<rparr>))\<lparr>sy_sending := Some AwaitPull\<rparr>"

definition sendOnce :: "'s sync_config \<Rightarrow> 's sync \<Rightarrow> 's sync" where
  "sendOnce cfg s =
     (if sy_disposed s \<or> sy_blocked s then s
      else let ks = waiting s;
               rows = List.map_filter (row_in cfg s) ks;
               s1 = dequeueKeys cfg (filter (\<lambda>k. row_in cfg s k = None) ks) s
           in if rows = [] then s1
              else (case chunkRows rows (maxPostBytes cfg) of
                      [] \<Rightarrow> posted_all s1
                    | c # cs \<Rightarrow> start_post c [] cs s1))"

definition sendQueue :: "'s sync_config \<Rightarrow> 's sync \<Rightarrow> 's sync" where
  "sendQueue cfg s = (if sy_sending s \<noteq> None then s\<lparr>sy_sendAgain := True\<rparr> else sendOnce cfg s)"

text \<open>The \<open>finally\<close> of a send.\<close>

definition finish_send :: "'s sync_config \<Rightarrow> 's sync \<Rightarrow> 's sync" where
  "finish_send cfg s =
     (let s1 = s\<lparr>sy_sending := None\<rparr>
      in if sy_sendAgain s1 \<and> \<not> sy_disposed s1 then sendQueue cfg (s1\<lparr>sy_sendAgain := False\<rparr>) else s1)"

definition next_post :: "'s sync_config \<Rightarrow> state_row list \<Rightarrow> state_row list list \<Rightarrow> 's sync \<Rightarrow> 's sync" where
  "next_post cfg singles chunks s =
     (case singles of
        r # rs \<Rightarrow> start_post [r] rs chunks s
      | [] \<Rightarrow>
          (case chunks of
             c # cs \<Rightarrow> if sy_disposed s then finish_send cfg s else start_post c [] cs s
           | [] \<Rightarrow> posted_all s))"

text \<open>A key the server calls stale is dropped here unless its row changed since it was sent.\<close>

definition stale_keys :: "'s sync_config \<Rightarrow> state_row list \<Rightarrow> string list \<Rightarrow> 's sync \<Rightarrow> string list" where
  "stale_keys cfg rows stale s =
     filter (\<lambda>k. case (row_in cfg s k, get (rows_map rows) k) of
                   (Some local, Some row) \<Rightarrow> compare_rows cfg local row \<le> 0
                 | _ \<Rightarrow> False) stale"

definition sent_keys :: "'s sync_config \<Rightarrow> state_row list \<Rightarrow> 's sync \<Rightarrow> string list" where
  "sent_keys cfg rows s =
     map row_key (filter (\<lambda>r. case row_in cfg s (row_key r) of
                                None \<Rightarrow> True
                              | Some local \<Rightarrow> compare_rows cfg local r \<le> 0) rows)"

definition post_accepted :: "'s sync_config \<Rightarrow> state_row list \<Rightarrow> string list \<Rightarrow> 's sync \<Rightarrow> 's sync" where
  "post_accepted cfg rows stale s =
     (let s1 = forget cfg (stale_keys cfg rows stale s) s
      in dequeueKeys cfg (sent_keys cfg rows s1) s1)"

definition post_refused ::
    "'s sync_config \<Rightarrow> api_problem \<Rightarrow> state_row list \<Rightarrow> state_row list \<Rightarrow> state_row list list \<Rightarrow> 's sync \<Rightarrow> 's sync" where
  "post_refused cfg p rows singles chunks s =
     (if \<not> tooLarge p then finish_send cfg (handleFailure cfg p s)
      else case rows of
             [row] \<Rightarrow>
               let message = postRefused (messages cfg) rows (pdetail p)
               in next_post cfg singles chunks
                    (s\<lparr>sy_held := set_add (row_key row) (sy_held s), sy_refused := message, sy_problem := message\<rparr>)
           | _ \<Rightarrow> next_post cfg (rows @ singles) chunks s)"

subsection \<open>The interface and the event loop\<close>

definition retryNow :: "'s sync \<Rightarrow> 's sync" where
  "retryNow s = (if sy_disposed s then s else await_pull AfterPull (cancelScheduledRetry s))"

definition resume :: "'s sync_config \<Rightarrow> waiter \<Rightarrow> 's sync \<Rightarrow> 's sync" where
  "resume cfg w s =
     (case w of
        AfterStart \<Rightarrow>
          sendQueue cfg
            (if sy_catchUp s then enqueueKeys cfg (map row_key (all_rows (ops cfg) (sy_store s))) s else s)
      | AfterPull \<Rightarrow> sendQueue cfg s
      | AfterSend \<Rightarrow> finish_send cfg s)"

text \<open>
  The \<open>finally\<close> of a pull: a pull asked for meanwhile starts, then those who awaited this one go on,
  the end of a send last (its own \<open>finally\<close> runs one microtask later).
\<close>

definition settle_pull :: "'s sync_config \<Rightarrow> 's sync \<Rightarrow> 's sync" where
  "settle_pull cfg s =
     (let ws = sy_waiters s;
          s1 = s\<lparr>sy_pulling := None, sy_waiters := []\<rparr>;
          s2 = (if sy_pullAgain s1 \<and> \<not> sy_disposed s1 then requestPull (s1\<lparr>sy_pullAgain := False\<rparr>) else s1)
      in fold (resume cfg) (filter (\<lambda>w. w \<noteq> AfterSend) ws @ filter (\<lambda>w. w = AfterSend) ws) s2)"

datatype 's sync_input =
    Start
  | PullOk "state_row list" num "num option"
  | PullFailed api_problem
  | PostOk "string list"
  | PostFailed api_problem
  | Mutated 's "state_row list"
  | Adopted 's "state_row list"
  | RetryFired
  | RetryNow
  | StateChanged string num
  | Dispose

fun sync_event :: "'s sync_config \<Rightarrow> env \<Rightarrow> 's sync_input \<Rightarrow> 's sync \<Rightarrow> 's sync" where
  "sync_event cfg env Start s = await_pull AfterStart s"
| "sync_event cfg env (PullOk rows newRev horizon) s =
     (case sy_pulling s of
        None \<Rightarrow> s
      | Some full \<Rightarrow> settle_pull cfg (pull_landed cfg env full rows newRev horizon s))"
| "sync_event cfg env (PullFailed p) s =
     (case sy_pulling s of
        None \<Rightarrow> s
      | Some full \<Rightarrow> settle_pull cfg (handleFailure cfg p s))"
| "sync_event cfg env (PostOk stale) s =
     (case sy_sending s of
        Some (Posting rows singles chunks) \<Rightarrow>
          next_post cfg singles chunks (post_accepted cfg rows stale s)
      | _ \<Rightarrow> s)"
| "sync_event cfg env (PostFailed p) s =
     (case sy_sending s of
        Some (Posting rows singles chunks) \<Rightarrow> post_refused cfg p rows singles chunks s
      | _ \<Rightarrow> s)"
| "sync_event cfg env (Mutated st rows) s =
     (if sy_disposed s then s\<lparr>sy_store := st\<rparr>
      else sendQueue cfg
             (enqueueKeys cfg (map row_key rows)
                (s\<lparr>sy_store := st, sy_held := remove_all (map row_key rows) (sy_held s)\<rparr>)))"
| "sync_event cfg env (Adopted st rows) s = s\<lparr>sy_store := st\<rparr>"
| "sync_event cfg env RetryFired s = (if sy_retry s then retryNow (s\<lparr>sy_retry := False\<rparr>) else s)"
| "sync_event cfg env RetryNow s = retryNow s"
| "sync_event cfg env (StateChanged ns newRev) s =
     (if ns \<noteq> namespace cfg \<or> newRev \<le> sy_cursor s then s else await_pull AfterPull s)"
| "sync_event cfg env Dispose s = s\<lparr>sy_disposed := True, sy_retry := False\<rparr>"

definition pending :: "'s sync \<Rightarrow> string list" where
  "pending s = sy_queue s"

subsection \<open>What the control flow leaves unchanged\<close>

lemma write_queue_frame [simp]:
  "sy_store (write_queue cfg s) = sy_store s" "sy_queue (write_queue cfg s) = sy_queue s"
  "sy_catchUp (write_queue cfg s) = sy_catchUp s" "sy_disposed (write_queue cfg s) = sy_disposed s"
  "sy_held (write_queue cfg s) = sy_held s" "sy_backoff (write_queue cfg s) = sy_backoff s"
  "sy_sending (write_queue cfg s) = sy_sending s" "sy_cursor (write_queue cfg s) = sy_cursor s"
  "sy_blocked (write_queue cfg s) = sy_blocked s" "sy_requests (write_queue cfg s) = sy_requests s"
  "sy_waiters (write_queue cfg s) = sy_waiters s" "sy_pulling (write_queue cfg s) = sy_pulling s"
  by (simp_all add: write_queue_def Let_def split: prod.split)

lemma enqueueKeys_frame [simp]:
  "sy_store (enqueueKeys cfg ks s) = sy_store s"
  "sy_queue (enqueueKeys cfg ks s) = add_all ks (sy_queue s)"
  "sy_catchUp (enqueueKeys cfg ks s) = sy_catchUp s" "sy_disposed (enqueueKeys cfg ks s) = sy_disposed s"
  "sy_held (enqueueKeys cfg ks s) = sy_held s" "sy_backoff (enqueueKeys cfg ks s) = sy_backoff s"
  "sy_sending (enqueueKeys cfg ks s) = sy_sending s" "sy_cursor (enqueueKeys cfg ks s) = sy_cursor s"
  "sy_blocked (enqueueKeys cfg ks s) = sy_blocked s" "sy_requests (enqueueKeys cfg ks s) = sy_requests s"
  "sy_waiters (enqueueKeys cfg ks s) = sy_waiters s" "sy_pulling (enqueueKeys cfg ks s) = sy_pulling s"
  by (simp_all add: enqueueKeys_def Let_def)

lemma dequeueKeys_frame [simp]:
  "sy_store (dequeueKeys cfg ks s) = sy_store s"
  "sy_queue (dequeueKeys cfg ks s) = remove_all ks (sy_queue s)"
  "sy_catchUp (dequeueKeys cfg ks s) = sy_catchUp s" "sy_disposed (dequeueKeys cfg ks s) = sy_disposed s"
  "sy_held (dequeueKeys cfg ks s) = sy_held s" "sy_backoff (dequeueKeys cfg ks s) = sy_backoff s"
  "sy_sending (dequeueKeys cfg ks s) = sy_sending s" "sy_cursor (dequeueKeys cfg ks s) = sy_cursor s"
  "sy_blocked (dequeueKeys cfg ks s) = sy_blocked s" "sy_requests (dequeueKeys cfg ks s) = sy_requests s"
  "sy_waiters (dequeueKeys cfg ks s) = sy_waiters s" "sy_pulling (dequeueKeys cfg ks s) = sy_pulling s"
  by (simp_all add: dequeueKeys_def Let_def)

lemma forget_frame [simp]:
  "sy_queue (forget cfg ks s) = remove_all ks (sy_queue s)"
  "sy_catchUp (forget cfg ks s) = sy_catchUp s" "sy_disposed (forget cfg ks s) = sy_disposed s"
  "sy_held (forget cfg ks s) = sy_held s" "sy_backoff (forget cfg ks s) = sy_backoff s"
  "sy_sending (forget cfg ks s) = sy_sending s" "sy_cursor (forget cfg ks s) = sy_cursor s"
  "sy_blocked (forget cfg ks s) = sy_blocked s" "sy_requests (forget cfg ks s) = sy_requests s"
  "sy_waiters (forget cfg ks s) = sy_waiters s" "sy_pulling (forget cfg ks s) = sy_pulling s"
  by (simp_all add: forget_def)

lemmas control_defs = settled_def showPending_def cancelScheduledRetry_def scheduleRetry_def
  handleFailure_def begin_pull_def requestPull_def await_pull_def start_post_def posted_all_def Let_def

text \<open>The functions that only move control: store, queue and disk stay as they are.\<close>

definition only_control :: "'s sync \<Rightarrow> 's sync \<Rightarrow> bool" where
  "only_control s t \<longleftrightarrow>
     sy_store t = sy_store s \<and> sy_queue t = sy_queue s \<and> sy_disk t = sy_disk s \<and>
     sy_catchUp t = sy_catchUp s \<and> sy_disposed t = sy_disposed s \<and> sy_held t = sy_held s"

lemma only_control:
  "only_control s (settled s)" "only_control s (showPending cfg s)" "only_control s (scheduleRetry cfg s)"
  "only_control s (handleFailure cfg p s)" "only_control s (begin_pull s)" "only_control s (requestPull s)"
  "only_control s (await_pull w s)" "only_control s (start_post rs ss cs s)" "only_control s (posted_all s)"
  "only_control s (cancelScheduledRetry s)"
  by (simp_all add: only_control_def control_defs)

lemmas control_frame [simp] = only_control [unfolded only_control_def, THEN conjunct1]
  only_control [unfolded only_control_def, THEN conjunct2, THEN conjunct1]
  only_control [unfolded only_control_def, THEN conjunct2, THEN conjunct2, THEN conjunct1]
  only_control [unfolded only_control_def, THEN conjunct2, THEN conjunct2, THEN conjunct2, THEN conjunct1]
  only_control [unfolded only_control_def, THEN conjunct2, THEN conjunct2, THEN conjunct2, THEN conjunct2, THEN conjunct1]
  only_control [unfolded only_control_def, THEN conjunct2, THEN conjunct2, THEN conjunct2, THEN conjunct2, THEN conjunct2]

lemma sendOnce_frame [simp]:
  "sy_store (sendOnce cfg s) = sy_store s" "sy_catchUp (sendOnce cfg s) = sy_catchUp s"
  "sy_disposed (sendOnce cfg s) = sy_disposed s" "sy_held (sendOnce cfg s) = sy_held s"
  by (simp_all add: sendOnce_def Let_def split: list.split)

lemma sendQueue_frame [simp]:
  "sy_store (sendQueue cfg s) = sy_store s" "sy_catchUp (sendQueue cfg s) = sy_catchUp s"
  "sy_disposed (sendQueue cfg s) = sy_disposed s" "sy_held (sendQueue cfg s) = sy_held s"
  by (simp_all add: sendQueue_def)

lemma finish_send_frame [simp]:
  "sy_store (finish_send cfg s) = sy_store s" "sy_catchUp (finish_send cfg s) = sy_catchUp s"
  "sy_disposed (finish_send cfg s) = sy_disposed s" "sy_held (finish_send cfg s) = sy_held s"
  by (simp_all add: finish_send_def Let_def)

lemma next_post_frame [simp]:
  "sy_store (next_post cfg ss cs s) = sy_store s" "sy_catchUp (next_post cfg ss cs s) = sy_catchUp s"
  "sy_disposed (next_post cfg ss cs s) = sy_disposed s" "sy_held (next_post cfg ss cs s) = sy_held s"
  by (simp_all add: next_post_def split: list.split)

lemma resume_frame [simp]:
  "sy_store (resume cfg w s) = sy_store s" "sy_catchUp (resume cfg w s) = sy_catchUp s"
  "sy_disposed (resume cfg w s) = sy_disposed s" "sy_held (resume cfg w s) = sy_held s"
  by (simp_all add: resume_def split: waiter.split)

lemma fold_resume_frame [simp]:
  "sy_store (fold (resume cfg) ws s) = sy_store s" "sy_catchUp (fold (resume cfg) ws s) = sy_catchUp s"
  "sy_disposed (fold (resume cfg) ws s) = sy_disposed s" "sy_held (fold (resume cfg) ws s) = sy_held s"
  by (induction ws arbitrary: s) simp_all

lemma settle_pull_frame [simp]:
  "sy_store (settle_pull cfg s) = sy_store s" "sy_catchUp (settle_pull cfg s) = sy_catchUp s"
  "sy_disposed (settle_pull cfg s) = sy_disposed s" "sy_held (settle_pull cfg s) = sy_held s"
  by (simp_all add: settle_pull_def Let_def)

end
