(* ===== verification/SyncContract.thy ===== *)
theory SyncContract
  imports StateSync
begin

section \<open>What the sync engine guarantees, given what a store promises\<close>

text \<open>
  The contract between the engine and the store it serves is the locale \<open>sync_contract\<close>. Under it,
  the engine loses no update: once the first full pull has landed, every row of the store is queued
  or the server is known to hold a row under its key at least as new. The knowledge is a ghost
  history, the rows of every pull that landed and of every post the server answered.
\<close>

locale sync_contract =
  fixes sops :: "'s sync_store" and sinv :: "'s \<Rightarrow> bool"
  assumes row_all: "sinv st \<Longrightarrow> row_of sops st k = Some r \<longleftrightarrow> r \<in> set (all_rows sops st) \<and> row_key r = k"
    and merge_inv: "sinv st \<Longrightarrow> sinv (merge_rows sops env rs st)"
    and forget_inv: "sinv st \<Longrightarrow> sinv (forget_rows sops ks st)"
    and merge_row: "sinv st \<Longrightarrow> row_of sops (merge_rows sops env rs st) k = Some r \<Longrightarrow>
      row_of sops st k = Some r \<or> (\<exists>a \<in> set rs. row_key a = k \<and> compareRows r a \<le> 0)"
    and forget_row: "sinv st \<Longrightarrow>
      row_of sops (forget_rows sops ks st) k = (if k \<in> set ks then None else row_of sops st k)"

subsection \<open>The ghost history and the runs of an engine\<close>

text \<open>
  The rows an event tells to be held elsewhere: by the server, or by another tab that has them to
  send.
\<close>

definition acked :: "'s sync_input \<Rightarrow> 's sync \<Rightarrow> state_row list" where
  "acked e s =
     (case e of
        PullOk rows _ _ \<Rightarrow> if sy_pulling s = None then [] else rows
      | PostOk stale \<Rightarrow>
          (case sy_sending s of
             Some (Posting rows _ _) \<Rightarrow> filter (\<lambda>r. row_key r \<notin> set stale) rows
           | _ \<Rightarrow> [])
      | Adopted st rows \<Rightarrow> rows
      | _ \<Rightarrow> [])"

text \<open>
  A mutation event tells the engine every key whose row changed; every row taken over from another
  tab is one of the rows the event names.
\<close>

definition admissible :: "'s sync_config \<Rightarrow> ('s \<Rightarrow> bool) \<Rightarrow> 's sync_input \<Rightarrow> 's sync \<Rightarrow> bool" where
  "admissible cfg I e s =
     (case e of
        Mutated st rows \<Rightarrow>
          I st \<and> (\<forall>k. row_of (ops cfg) st k = row_in cfg s k \<or> k \<in> row_key ` set rows)
      | Adopted st rows \<Rightarrow>
          I st \<and> (\<forall>k r. row_of (ops cfg) st k = Some r \<longrightarrow>
            row_in cfg s k = Some r \<or> (r \<in> set rows \<and> row_key r = k))
      | _ \<Rightarrow> True)"

inductive sync_run :: "'s sync_config \<Rightarrow> ('s \<Rightarrow> bool) \<Rightarrow> 's sync \<Rightarrow> state_row list \<Rightarrow> bool"
  for cfg I where
  created: "I st \<Longrightarrow> sync_run cfg I (createStateSync cfg st disk) []"
| event: "sync_run cfg I s acks \<Longrightarrow> admissible cfg I e s \<Longrightarrow>
    sync_run cfg I (sync_event cfg env e s) (acks @ acked e s)"

definition covered_by :: "state_row list \<Rightarrow> string \<Rightarrow> state_row \<Rightarrow> bool" where
  "covered_by A k r \<longleftrightarrow> (\<exists>a \<in> set A. row_key a = k \<and> compareRows r a \<le> 0)"

definition covered :: "'s sync_config \<Rightarrow> 's sync \<Rightarrow> state_row list \<Rightarrow> bool" where
  "covered cfg s A \<longleftrightarrow> (\<forall>k r. row_in cfg s k = Some r \<longrightarrow> k \<in> set (sy_queue s) \<or> covered_by A k r)"

text \<open>
  One piece of the engine, told that the server holds the rows \<open>A\<close>: a row it leaves in the store
  without its key in the queue is covered, or it was so before.
\<close>

definition keeps :: "'s sync_config \<Rightarrow> state_row list \<Rightarrow> 's sync \<Rightarrow> 's sync \<Rightarrow> bool" where
  "keeps cfg A s t \<longleftrightarrow>
     (\<forall>k r. row_in cfg t k = Some r \<longrightarrow> k \<notin> set (sy_queue t) \<longrightarrow>
        covered_by A k r \<or> (row_in cfg s k = Some r \<and> k \<notin> set (sy_queue s)))"

lemma covered_by_mono: "covered_by A k r \<Longrightarrow> set A \<subseteq> set B \<Longrightarrow> covered_by B k r"
  by (auto simp: covered_by_def)

lemma keeps_trans: "keeps cfg A s t \<Longrightarrow> keeps cfg A t u \<Longrightarrow> keeps cfg A s u"
  unfolding keeps_def by blast

lemma keeps_refl [simp]: "keeps cfg A s s"
  by (simp add: keeps_def)

lemma keeps_grow:
  "sy_store t = sy_store s \<Longrightarrow> set (sy_queue s) \<subseteq> set (sy_queue t) \<Longrightarrow> keeps cfg A s t"
  by (auto simp: keeps_def row_in_def)

lemma keeps_covered: "keeps cfg A s t \<Longrightarrow> covered cfg s B \<Longrightarrow> covered cfg t (B @ A)"
  unfolding keeps_def covered_def covered_by_def by force

lemma row_in_frame: "sy_store t = sy_store s \<Longrightarrow> row_in cfg t = row_in cfg s"
  by (simp add: row_in_def fun_eq_iff)

lemma keeps_dequeue:
  "(\<And>k r. k \<in> set ks \<Longrightarrow> row_in cfg s k = Some r \<Longrightarrow> covered_by A k r) \<Longrightarrow>
     keeps cfg A s (dequeueKeys cfg ks s)"
  by (auto simp: keeps_def row_in_def)

subsection \<open>Control\<close>

lemma keeps_only_control: "only_control s t \<Longrightarrow> keeps cfg A s t"
  by (rule keeps_grow) (simp_all add: only_control_def)

lemma keeps_sendOnce: "keeps cfg A s (sendOnce cfg s)"
proof -
  let ?s1 = "dequeueKeys cfg (filter (\<lambda>k. row_in cfg s k = None) (waiting s)) s"
  have d: "keeps cfg A s ?s1"
    by (rule keeps_dequeue) simp
  have "keeps cfg A ?s1 (posted_all ?s1)" "keeps cfg A ?s1 (start_post c [] cs ?s1)" for c cs
    by (rule keeps_only_control only_control)+
  then show ?thesis
    using d by (auto simp: sendOnce_def Let_def split: list.split intro: keeps_trans)
qed

lemma keeps_sendQueue: "keeps cfg A s (sendQueue cfg s)"
  by (auto simp: sendQueue_def keeps_sendOnce intro: keeps_grow)

lemma keeps_finish_send: "keeps cfg A s (finish_send cfg s)"
proof -
  have "keeps cfg A s (s\<lparr>sy_sending := None\<rparr>)"
    and "keeps cfg A s (s\<lparr>sy_sending := None, sy_sendAgain := False\<rparr>)"
    by (auto intro: keeps_grow)
  then show ?thesis
    by (auto simp: finish_send_def Let_def intro: keeps_trans keeps_sendQueue)
qed

lemma keeps_next_post: "keeps cfg A s (next_post cfg ss cs s)"
  by (auto simp: next_post_def keeps_finish_send split: list.split
      intro: keeps_only_control only_control)

lemma keeps_resume: "keeps cfg A s (resume cfg w s)"
proof -
  have "keeps cfg A s (enqueueKeys cfg ks s)" for ks
    by (rule keeps_grow) auto
  then show ?thesis
    by (auto simp: resume_def keeps_sendQueue keeps_finish_send split: waiter.split
        intro: keeps_trans [OF _ keeps_sendQueue])
qed

lemma keeps_fold_resume: "keeps cfg A s (fold (resume cfg) ws s)"
  by (induction ws arbitrary: s) (auto intro: keeps_trans keeps_resume)

lemma keeps_settle_pull: "keeps cfg A s (settle_pull cfg s)"
proof -
  let ?s1 = "s\<lparr>sy_pulling := None, sy_waiters := []\<rparr>"
  have a: "keeps cfg A s ?s1" by (rule keeps_grow) simp_all
  have "keeps cfg A ?s1 (?s1\<lparr>sy_pullAgain := False\<rparr>)" by (rule keeps_grow) simp_all
  then have "keeps cfg A ?s1 (requestPull (?s1\<lparr>sy_pullAgain := False\<rparr>))"
    by (rule keeps_trans) (rule keeps_only_control only_control)+
  with a have "keeps cfg A s (if sy_pullAgain ?s1 \<and> \<not> sy_disposed ?s1
      then requestPull (?s1\<lparr>sy_pullAgain := False\<rparr>) else ?s1)"
    by (auto intro: keeps_trans)
  then show ?thesis
    unfolding settle_pull_def Let_def by (rule keeps_trans) (rule keeps_fold_resume)
qed

lemma keeps_post_refused: "keeps cfg A s (post_refused cfg p rows ss cs s)"
proof -
  have "keeps cfg A s (handleFailure cfg p s)"
    by (rule keeps_only_control only_control)+
  then have f: "keeps cfg A s (finish_send cfg (handleFailure cfg p s))"
    by (rule keeps_trans) (rule keeps_finish_send)
  have "keeps cfg A s (s\<lparr>sy_held := h, sy_refused := m, sy_problem := m\<rparr>)" for h m
    by (rule keeps_grow) simp_all
  then have "keeps cfg A s (next_post cfg ss cs (s\<lparr>sy_held := h, sy_refused := m, sy_problem := m\<rparr>))" for h m
    by (rule keeps_trans) (rule keeps_next_post)
  with f show ?thesis
    by (auto simp: post_refused_def Let_def keeps_next_post split: list.split)
qed

lemma rows_map_in: "get (rows_map rows) k = Some r \<Longrightarrow> r \<in> set rows \<and> row_key r = k"
proof -
  have "get (fold (\<lambda>r m. put (row_key r) r m) rows m) k = Some r \<longrightarrow>
      (r \<in> set rows \<and> row_key r = k) \<or> get m k = Some r" for m
  proof (induction rows arbitrary: m)
    case (Cons a rows)
    show ?case
      using Cons.IH [of "put (row_key a) a m"] by (auto simp: get_put split: if_splits)
  qed simp
  from this [of "[]"] show "get (rows_map rows) k = Some r \<Longrightarrow> r \<in> set rows \<and> row_key r = k"
    by (auto simp: rows_map_def)
qed

lemma rows_map_None: "get (rows_map rows) k = None \<longleftrightarrow> k \<notin> row_key ` set rows"
proof -
  have "get (fold (\<lambda>r m. put (row_key r) r m) rows m) k = None \<longleftrightarrow>
      k \<notin> row_key ` set rows \<and> get m k = None" for m
    by (induction rows arbitrary: m) (auto simp: get_put)
  then show ?thesis by (simp add: rows_map_def)
qed

lemma rows_map_inj:
  "inj_on row_key (set rows) \<Longrightarrow> r \<in> set rows \<Longrightarrow> get (rows_map rows) (row_key r) = Some r"
  by (cases "get (rows_map rows) (row_key r)")
    (auto simp: rows_map_None dest: rows_map_in inj_onD)

subsection \<open>The rows of a send\<close>

text \<open>No two rows of a send that is under way have the same key.\<close>

definition in_flight :: "'s sync \<Rightarrow> state_row list" where
  "in_flight s =
     (case sy_sending s of Some (Posting rows ss cs) \<Rightarrow> rows @ ss @ concat cs | _ \<Rightarrow> [])"

definition posting_inj :: "'s sync \<Rightarrow> bool" where
  "posting_inj s \<longleftrightarrow> inj_on row_key (set (in_flight s))"

lemma posting_inj_frame: "sy_sending t = sy_sending s \<Longrightarrow> posting_inj t = posting_inj s"
  by (simp add: posting_inj_def in_flight_def)

lemma posting_inj_simps [simp]:
  "sy_sending s = None \<Longrightarrow> posting_inj s"
  "sy_sending s = Some AwaitPull \<Longrightarrow> posting_inj s"
  "sy_sending s = Some (Posting rows ss cs) \<Longrightarrow>
     posting_inj s \<longleftrightarrow> inj_on row_key (set rows \<union> set ss \<union> \<Union> (set ` set cs))"
  by (simp_all add: posting_inj_def in_flight_def Un_assoc)

lemma concat_chunk_loop:
  "concat (chunk_loop m rows cs c b) = concat cs @ c @ rows"
  by (induction m rows cs c b rule: chunk_loop.induct) (auto simp: Let_def)

lemma concat_chunkRows [simp]: "concat (chunkRows rows m) = rows"
  by (simp add: chunkRows_def concat_chunk_loop)

lemma sending_simps [simp]:
  "sy_sending (settled s) = sy_sending s" "sy_sending (requestPull s) = sy_sending s"
  "sy_sending (await_pull w s) = sy_sending s" "sy_sending (handleFailure cfg p s) = sy_sending s"
  "sy_sending (start_post rs ss cs s) = Some (Posting rs ss cs)"
  "sy_sending (posted_all s) = Some AwaitPull" "sy_sending (cancelScheduledRetry s) = sy_sending s"
  by (simp_all add: control_defs)

subsection \<open>Where the server's answers count\<close>

context sync_contract begin

lemma keeps_forget:
  assumes "sinv (sy_store s)" and "ops cfg = sops"
  shows "keeps cfg A s (forget cfg ks s)"
    and "sinv (sy_store (forget cfg ks s))"
  using assms by (auto simp: keeps_def forget_def row_in_def forget_row forget_inv)

lemma row_in_forget:
  assumes "sinv (sy_store s)" and "ops cfg = sops"
  shows "row_in cfg (forget cfg ks s) k = (if k \<in> set ks then None else row_in cfg s k)"
  using assms by (auto simp: forget_def row_in_def forget_row)

lemma row_in_key:
  assumes "sinv (sy_store s)" and "ops cfg = sops" and "row_in cfg s k = Some r"
  shows "row_key r = k" and "r \<in> set (all_rows (ops cfg) (sy_store s))"
  using assms row_all by (auto simp: row_in_def)

lemma keeps_post_accepted:
  assumes "sinv (sy_store s)" and cfg: "ops cfg = sops" "compare_rows cfg = compareRows"
    and inj: "inj_on row_key (set rows)"
  shows "keeps cfg (filter (\<lambda>r. row_key r \<notin> set stale) rows) s (post_accepted cfg rows stale s)"
    and "sinv (sy_store (post_accepted cfg rows stale s))"
proof -
  let ?A = "filter (\<lambda>r. row_key r \<notin> set stale) rows"
  let ?ks = "stale_keys cfg rows stale s"
  let ?s1 = "forget cfg ?ks s"
  note f = keeps_forget [OF assms(1) cfg(1)]
  have row1: "row_in cfg ?s1 k = (if k \<in> set ?ks then None else row_in cfg s k)" for k
    by (rule row_in_forget [OF assms(1) cfg(1)])
  have "covered_by ?A k r"
    if k: "k \<in> set (sent_keys cfg rows ?s1)" and r: "row_in cfg ?s1 k = Some r" for k r
  proof -
    obtain a where a: "a \<in> set rows" "row_key a = k" "compareRows r a \<le> 0"
      using k r cfg by (auto simp: sent_keys_def)
    have "get (rows_map rows) k = Some a"
      using rows_map_inj [OF inj a(1)] a(2) by simp
    moreover have "k \<notin> set ?ks" "row_in cfg s k = Some r"
      using r by (auto simp: row1 split: if_splits)
    ultimately have "k \<notin> set stale"
      using a(3) cfg by (auto simp: stale_keys_def)
    with a show ?thesis by (auto simp: covered_by_def)
  qed
  then have "keeps cfg ?A ?s1 (dequeueKeys cfg (sent_keys cfg rows ?s1) ?s1)"
    by (rule keeps_dequeue)
  with f(1) show "keeps cfg ?A s (post_accepted cfg rows stale s)"
    by (auto simp: post_accepted_def Let_def intro: keeps_trans)
  show "sinv (sy_store (post_accepted cfg rows stale s))"
    using f(2) by (simp add: post_accepted_def Let_def)
qed

lemma keeps_merge:
  assumes "sinv (sy_store s)" and "ops cfg = sops"
    and "sy_store t = merge_rows (ops cfg) env rows (sy_store s)" and "sy_queue t = sy_queue s"
  shows "keeps cfg rows s t" and "sinv (sy_store t)"
  using assms merge_row [of "sy_store s" env rows] merge_inv
  by (auto simp: keeps_def row_in_def covered_by_def)

lemma keeps_settled_keys:
  assumes "sinv (sy_store s)" and cfg: "ops cfg = sops" "compare_rows cfg = compareRows"
  shows "keeps cfg rows s (dequeueKeys cfg (settled_keys cfg rows s) s)"
  by (rule keeps_dequeue)
    (use cfg in \<open>auto simp: settled_keys_def covered_by_def rows.cmp_le_flip
       split: option.splits dest!: rows_map_in\<close>)

lemma catch_up_covers:
  assumes inv: "sinv (sy_store s)" and cfg: "ops cfg = sops" "compare_rows cfg = compareRows"
  shows "keeps cfg rows s (catch_up cfg rows horizon s)"
    and "covered cfg (catch_up cfg rows horizon s) rows"
    and "sinv (sy_store (catch_up cfg rows horizon s))"
proof -
  define all where "all = all_rows (ops cfg) (sy_store s)"
  define purged where "purged = map row_key (filter (purged_row rows (or_else horizon 0)) all)"
  define newer where "newer = map row_key
    (filter (\<lambda>r. \<not> purged_row rows (or_else horizon 0) r \<and>
       (case get (rows_map rows) (row_key r) of None \<Rightarrow> True
        | Some remote \<Rightarrow> compare_rows cfg r remote > 0)) all)"
  let ?s1 = "s\<lparr>sy_catchUp := False, sy_pulled := True\<rparr>"
  let ?s2 = "enqueueKeys cfg newer ?s1"
  have up: "catch_up cfg rows horizon s = forget cfg purged ?s2"
    by (simp add: catch_up_def purged_def newer_def all_def Let_def)
  have inv2: "sinv (sy_store ?s2)" using inv by simp
  have "keeps cfg rows s ?s2" by (rule keeps_grow) auto
  then show "keeps cfg rows s (catch_up cfg rows horizon s)"
    unfolding up using keeps_forget(1) [OF inv2 cfg(1)] by (rule keeps_trans)
  show "sinv (sy_store (catch_up cfg rows horizon s))"
    unfolding up using keeps_forget(2) [OF inv2 cfg(1)] .
  have row2: "row_in cfg ?s2 = row_in cfg s" by (rule row_in_frame) simp
  show "covered cfg (catch_up cfg rows horizon s) rows"
  proof (unfold covered_def, intro allI impI)
    fix k r
    assume "row_in cfg (catch_up cfg rows horizon s) k = Some r"
    then have k: "k \<notin> set purged" and r: "row_in cfg s k = Some r"
      by (auto simp: up row_in_forget [OF inv2 cfg(1)] row2 split: if_splits)
    have key: "row_key r = k" and mem: "r \<in> set all"
      using row_in_key [OF inv cfg(1) r] by (auto simp: all_def)
    have "\<not> purged_row rows (or_else horizon 0) r"
      using k key mem by (auto simp: purged_def)
    then have "k \<in> set newer \<or> covered_by rows k r"
      using key mem cfg rows_map_in [of rows k]
      by (force simp: newer_def covered_by_def not_less split: option.splits)
    then show "k \<in> set (sy_queue (catch_up cfg rows horizon s)) \<or> covered_by rows k r"
      using k by (auto simp: up)
  qed
qed

lemma keeps_pull_landed:
  assumes inv: "sinv (sy_store s)" and cfg: "ops cfg = sops" "compare_rows cfg = compareRows"
  shows "keeps cfg rows s (pull_landed cfg env full rows newRev horizon s)"
    and "full \<Longrightarrow> covered cfg (pull_landed cfg env full rows newRev horizon s) rows"
    and "sinv (sy_store (pull_landed cfg env full rows newRev horizon s))"
proof -
  let ?t = "pull_landed cfg env full rows newRev horizon s"
  let ?s1 = "s\<lparr>sy_blocked := False, sy_store := merge_rows (ops cfg) env rows (sy_store s), sy_cursor := newRev\<rparr>"
  obtain d ok where w: "writeCursor (namespace cfg) newRev (sy_disk ?s1) = (d, ok)" by fastforce
  define s2 where "s2 = (if ok then ?s1\<lparr>sy_disk := d\<rparr>
      else ?s1\<lparr>sy_disk := d, sy_problem := cursorPersistence (messages cfg)\<rparr>)"
  define s3 where "s3 = (if rows \<noteq> [] \<and> sy_queue s2 \<noteq> []
      then dequeueKeys cfg (settled_keys cfg rows s2) s2 else s2)"
  define s4 where "s4 = (if full then catch_up cfg rows horizon s3 else s3)"
  have t: "?t = (if sy_queue s4 = [] then s4\<lparr>sy_problem := []\<rparr> else s4)"
    using w by (simp add: pull_landed_def s2_def s3_def s4_def Let_def)
  have frame2: "sy_store s2 = merge_rows (ops cfg) env rows (sy_store s)" "sy_queue s2 = sy_queue s"
    by (simp_all add: s2_def)
  have k2: "keeps cfg rows s s2" and inv2: "sinv (sy_store s2)"
    by (rule keeps_merge [OF inv cfg(1) frame2])+
  have k3: "keeps cfg rows s2 s3" and inv3: "sinv (sy_store s3)"
    using keeps_settled_keys [OF inv2 cfg] inv2 by (auto simp: s3_def)
  have k4: "keeps cfg rows s3 s4" and inv4: "sinv (sy_store s4)" and c4: "full \<Longrightarrow> covered cfg s4 rows"
    using catch_up_covers [OF inv3 cfg] inv3 by (auto simp: s4_def)
  have "keeps cfg rows s4 ?t" by (rule keeps_grow) (auto simp: t)
  with k2 k3 k4 show "keeps cfg rows s ?t" by (blast intro: keeps_trans)
  have frame: "sy_store ?t = sy_store s4" "sy_queue ?t = sy_queue s4" by (simp_all add: t)
  show "full \<Longrightarrow> covered cfg ?t rows"
    using c4 unfolding covered_def row_in_def frame by blast
  show "sinv (sy_store ?t)" using inv4 by (simp add: t)
qed

end

subsection \<open>Runs of an engine\<close>

text \<open>An engine configured with a store that keeps its promises.\<close>

locale sync_engine = sync_contract +
  fixes cfg :: "'a sync_config"
  assumes cfg_ops: "ops cfg = sops" and cfg_compare: "compare_rows cfg = compareRows"
begin

lemmas cfg_laws = cfg_ops cfg_compare

definition good :: "'a sync \<Rightarrow> bool" where
  "good s \<longleftrightarrow> sinv (sy_store s) \<and> posting_inj s"

lemma good_frame:
  "sy_store t = sy_store s \<Longrightarrow> sy_sending t = sy_sending s \<Longrightarrow> good t \<longleftrightarrow> good s"
  using posting_inj_frame [of t s] by (simp add: good_def)

lemma good_sendOnce: "good s \<Longrightarrow> good (sendOnce cfg s)"
proof -
  assume g: "good s"
  let ?rows = "List.map_filter (row_in cfg s) (waiting s)"
  let ?s1 = "dequeueKeys cfg (filter (\<lambda>k. row_in cfg s k = None) (waiting s)) s"
  have inj: "inj_on row_key (set ?rows)"
    using g row_in_key(1) [OF _ cfg_ops] by (fastforce simp: good_def inj_on_def)
  have s1: "good ?s1" using g good_frame [of ?s1 s] by simp
  have "good (start_post c [] cs ?s1)" if "chunkRows ?rows (maxPostBytes cfg) = c # cs" for c cs
  proof -
    have "set c \<union> \<Union> (set ` set cs) = set ?rows"
      using arg_cong [OF that, of "\<lambda>x. set (concat x)"] by simp
    then show ?thesis using inj s1 by (simp add: good_def)
  qed
  moreover have "good (posted_all ?s1)" using s1 by (simp add: good_def)
  ultimately show ?thesis
    using g s1 by (auto simp: sendOnce_def Let_def split: list.split)
qed

lemma good_sendQueue: "good s \<Longrightarrow> good (sendQueue cfg s)"
  using good_frame [of "s\<lparr>sy_sendAgain := True\<rparr>" s] by (simp add: sendQueue_def good_sendOnce)

lemma good_finish_send: "sinv (sy_store s) \<Longrightarrow> good (finish_send cfg s)"
proof -
  assume "sinv (sy_store s)"
  then have "good (s\<lparr>sy_sending := None\<rparr>)" "good (s\<lparr>sy_sending := None, sy_sendAgain := False\<rparr>)"
    by (simp_all add: good_def)
  then show ?thesis by (simp add: finish_send_def Let_def good_sendQueue)
qed

lemma good_next_post:
  "sinv (sy_store s) \<Longrightarrow> inj_on row_key (set ss \<union> \<Union> (set ` set cs)) \<Longrightarrow> good (next_post cfg ss cs s)"
proof -
  assume inv: "sinv (sy_store s)" and inj: "inj_on row_key (set ss \<union> \<Union> (set ` set cs))"
  show ?thesis
  proof (cases ss)
    case Nil
    then show ?thesis
      using inv inj good_finish_send [OF inv] by (cases cs) (auto simp: next_post_def good_def)
  next
    case (Cons r rs)
    have "good (start_post [r] rs cs s)"
      using inv inj by (simp only: good_def posting_inj_simps sending_simps control_frame Cons) (simp add: Un_assoc)
    then show ?thesis by (simp only: next_post_def Cons list.case)
  qed
qed

lemma good_resume: "good s \<Longrightarrow> good (resume cfg w s)"
proof -
  assume g: "good s"
  have "good (enqueueKeys cfg ks s)" for ks using g good_frame [of "enqueueKeys cfg ks s" s] by simp
  with g show ?thesis
    by (auto simp: resume_def good_sendQueue good_finish_send good_def [of s] split: waiter.split)
qed

lemma good_fold_resume: "good s \<Longrightarrow> good (fold (resume cfg) ws s)"
  by (induction ws arbitrary: s) (auto intro: good_resume)

lemma good_settle_pull: "good s \<Longrightarrow> good (settle_pull cfg s)"
  unfolding settle_pull_def Let_def
  by (rule good_fold_resume) (auto simp: good_def posting_inj_def in_flight_def)

lemma sending_pull_landed: "sy_sending (pull_landed cfg env full rows newRev horizon s) = sy_sending s"
  by (simp add: pull_landed_def catch_up_def Let_def split: prod.split)

lemma good_created: "sinv st \<Longrightarrow> good (createStateSync cfg st disk)"
  by (simp add: good_def createStateSync_def)

lemma good_post:
  assumes "good s" and "sy_sending s = Some (Posting rows ss cs)"
  shows "inj_on row_key (set rows)" and "inj_on row_key (set ss \<union> \<Union> (set ` set cs))"
    and "inj_on row_key (set rows \<union> (set ss \<union> \<Union> (set ` set cs)))"
  using assms by (auto simp: good_def Un_assoc inj_on_Un)

lemma good_event:
  assumes g: "good s" and adm: "admissible cfg sinv e s"
  shows "good (sync_event cfg env e s)"
proof (cases e)
  case (PullOk rows newRev horizon)
  have "good (pull_landed cfg env full rows newRev horizon s)" for full
    using g keeps_pull_landed(3) [OF _ cfg_laws] posting_inj_frame [OF sending_pull_landed]
    by (simp add: good_def)
  with PullOk g show ?thesis by (auto intro: good_settle_pull split: option.split)
next
  case (PostOk stale)
  have "good (next_post cfg ss cs (post_accepted cfg rows stale s))"
    if "sy_sending s = Some (Posting rows ss cs)" for rows ss cs
    using good_post [OF g that] g keeps_post_accepted(2) [OF _ cfg_laws]
    by (auto simp: good_def [of s] intro!: good_next_post)
  with PostOk g show ?thesis by (auto split: option.split posting.split)
next
  case (PostFailed p)
  have "good (post_refused cfg p rows ss cs s)"
    if "sy_sending s = Some (Posting rows ss cs)" for rows ss cs
    using good_post [OF g that] g
    by (auto simp: post_refused_def Let_def good_def [of s] Un_assoc split: list.split
        intro!: good_next_post good_finish_send)
  with PostFailed g show ?thesis by (auto split: option.split posting.split)
next
  case (PullFailed p)
  have "good (handleFailure cfg p s)" using g good_frame [of "handleFailure cfg p s" s] by simp
  with PullFailed g show ?thesis by (auto intro: good_settle_pull split: option.split)
next
  case (Mutated st rows)
  then have st: "sinv st" using adm by (simp add: admissible_def)
  let ?t = "enqueueKeys cfg (map row_key rows)
    (s\<lparr>sy_store := st, sy_held := remove_all (map row_key rows) (sy_held s)\<rparr>)"
  have "good ?t" "good (s\<lparr>sy_store := st\<rparr>)"
    using g st posting_inj_frame [of ?t s] posting_inj_frame [of "s\<lparr>sy_store := st\<rparr>" s]
    by (simp_all add: good_def)
  with Mutated show ?thesis by (simp add: good_sendQueue)
next
  case (Adopted st rows)
  then show ?thesis
    using g adm posting_inj_frame [of "s\<lparr>sy_store := st\<rparr>" s] by (simp add: good_def admissible_def)
qed (use g in \<open>simp_all add: good_def posting_inj_def in_flight_def retryNow_def\<close>)

text \<open>
  A turn of the event loop moves no key out of the queue unless its row is gone from the store or
  the server is known to hold a row at least as new.
\<close>

lemma keeps_event:
  assumes g: "good s" and adm: "admissible cfg sinv e s" and live: "\<not> sy_disposed s"
  shows "keeps cfg (acked e s) s (sync_event cfg env e s)"
proof (cases e)
  case (PullOk rows newRev horizon)
  then show ?thesis
    using g by (auto simp: acked_def good_def split: option.split
        intro: keeps_trans [OF keeps_pull_landed(1) [OF _ cfg_laws] keeps_settle_pull])
next
  case (PostOk stale)
  have "keeps cfg (filter (\<lambda>r. row_key r \<notin> set stale) rows) s
      (next_post cfg ss cs (post_accepted cfg rows stale s))"
    if "sy_sending s = Some (Posting rows ss cs)" for rows ss cs
    using good_post(1) [OF g that] g
    by (auto simp: good_def intro: keeps_trans [OF keeps_post_accepted(1) [OF _ cfg_laws] keeps_next_post])
  with PostOk show ?thesis by (auto simp: acked_def split: option.split posting.split)
next
  case (PostFailed p)
  then show ?thesis
    by (auto simp: acked_def keeps_post_refused split: option.split posting.split)
next
  case (PullFailed p)
  have "keeps cfg [] s (handleFailure cfg p s)" by (rule keeps_only_control only_control)+
  with PullFailed show ?thesis
    by (auto simp: acked_def split: option.split intro: keeps_trans [OF _ keeps_settle_pull])
next
  case (Mutated st rows)
  let ?t = "enqueueKeys cfg (map row_key rows)
    (s\<lparr>sy_store := st, sy_held := remove_all (map row_key rows) (sy_held s)\<rparr>)"
  have "keeps cfg [] s ?t"
    using adm Mutated by (simp add: keeps_def admissible_def row_in_def) metis
  then have "keeps cfg [] s (sendQueue cfg ?t)" by (rule keeps_trans) (rule keeps_sendQueue)
  with Mutated live show ?thesis by (simp add: acked_def)
next
  case (Adopted st rows)
  then show ?thesis
    using adm by (simp add: keeps_def admissible_def row_in_def acked_def covered_by_def)
      (metis order_refl rows.cmp_refl)
qed (auto simp: acked_def retryNow_def split: option.split intro!: keeps_grow)

lemma disposed_pull_landed [simp]:
  "sy_disposed (pull_landed cfg env full rows newRev horizon s) = sy_disposed s"
  by (simp add: pull_landed_def catch_up_def Let_def split: prod.split)

lemma catchUp_pull_landed [simp]:
  "sy_catchUp (pull_landed cfg env full rows newRev horizon s) = (sy_catchUp s \<and> \<not> full)"
  by (simp add: pull_landed_def catch_up_def Let_def split: prod.split)

lemma disposed_event: "\<not> sy_disposed (sync_event cfg env e s) \<Longrightarrow> \<not> sy_disposed s"
  by (cases e) (auto simp: retryNow_def post_refused_def post_accepted_def Let_def
      split: option.splits posting.splits if_splits list.splits)

lemma catchUp_event:
  "\<not> sy_catchUp (sync_event cfg env e s) \<Longrightarrow> sy_catchUp s \<Longrightarrow>
     \<exists>rows newRev horizon. e = PullOk rows newRev horizon \<and> sy_pulling s = Some True"
  by (cases e) (auto simp: retryNow_def post_refused_def post_accepted_def Let_def
      split: option.splits posting.splits if_splits list.splits)

lemma run_good: "sync_run cfg sinv s A \<Longrightarrow> good s"
  by (induction rule: sync_run.induct) (auto intro: good_created good_event)

theorem no_lost_update:
  "sync_run cfg sinv s A \<Longrightarrow> \<not> sy_disposed s \<Longrightarrow> \<not> sy_catchUp s \<Longrightarrow> covered cfg s A"
proof (induction rule: sync_run.induct)
  case (created st disk)
  then show ?case by (simp add: createStateSync_def)
next
  case (event s A e env)
  have g: "good s" using event.hyps(1) by (rule run_good)
  have live: "\<not> sy_disposed s" using event.prems(1) by (rule disposed_event)
  show ?case
  proof (cases "sy_catchUp s")
    case False
    then show ?thesis
      using event.IH [OF live] keeps_event [OF g event.hyps(2) live] by (blast intro: keeps_covered)
  next
    case True
    then obtain rows newRev horizon where e: "e = PullOk rows newRev horizon" and p: "sy_pulling s = Some True"
      using catchUp_event [OF event.prems(2)] by blast
    let ?t = "pull_landed cfg env True rows newRev horizon s"
    have "covered cfg ?t rows"
      using g keeps_pull_landed(2) [OF _ cfg_laws] by (simp add: good_def)
    then have "covered cfg (settle_pull cfg ?t) ([] @ rows @ [])"
      using keeps_covered [OF keeps_settle_pull [of cfg "[]" ?t]] by simp
    then have "covered cfg (settle_pull cfg ?t) (A @ rows)"
      unfolding covered_def covered_by_def by force
    with e p show ?thesis by (simp add: acked_def)
  qed
qed

end

end
