(* ===== verification/SyncProps.thy ===== *)
theory SyncProps
  imports SyncContract
begin

section \<open>The engine's own guarantees\<close>

text \<open>
  What the sync engine of \<^verbatim>\<open>shared/stateSync.ts\<close> guarantees by itself: the bodies it posts stay under
  the limit, the queue and the cursor it persists are the ones it works with, the delay between
  retries stays within its bounds, a viewer the server does not know sends nothing, and a server that
  answers drains the queue.
\<close>

subsection \<open>Request bodies\<close>

lemma body_bytes_simps [simp]:
  "body_bytes [] = envelope"
  "body_bytes [r] = envelope + row_bytes r"
  by (simp_all add: body_bytes_def)

lemma body_bytes_snoc:
  "c \<noteq> [] \<Longrightarrow> body_bytes (c @ [r]) = body_bytes c + 1 + row_bytes r"
  by (cases c) (simp_all add: body_bytes_def)

definition fits :: "nat \<Rightarrow> state_row list \<Rightarrow> bool" where
  "fits m c \<longleftrightarrow> c \<noteq> [] \<and> (body_bytes c \<le> m \<or> length c = 1)"

lemma chunk_loop_fits:
  "list_all (fits m) cs \<Longrightarrow> c = [] \<or> fits m c \<Longrightarrow> b = body_bytes c \<Longrightarrow>
     list_all (fits m) (chunk_loop m rows cs c b)"
proof (induction m rows cs c b rule: chunk_loop.induct)
  case (2 m row rows cs c b)
  show ?case
  proof (cases "c \<noteq> [] \<and> b + 1 + row_bytes row > m")
    case True
    have "fits m [row]" "b = body_bytes c" by (simp_all add: fits_def "2.prems"(3))
    with True 2 show ?thesis by (simp add: Let_def)
  next
    case False
    have "c @ [row] = [] \<or> fits m (c @ [row])"
      using False "2.prems"(3) by (cases "c = []") (auto simp: fits_def body_bytes_snoc)
    moreover have "b + (if c \<noteq> [] then 1 else 0) + row_bytes row = body_bytes (c @ [row])"
      using "2.prems"(3) by (cases "c = []") (simp_all add: body_bytes_snoc)
    ultimately have "list_all (fits m) (chunk_loop m rows cs (c @ [row])
        (b + (if c \<noteq> [] then 1 else 0) + row_bytes row))"
      using 2 False by blast
    moreover have "chunk_loop m (row # rows) cs c b = chunk_loop m rows cs (c @ [row])
        (b + (if c \<noteq> [] then 1 else 0) + row_bytes row)"
      using False by (simp only: chunk_loop.simps Let_def if_False)
    ultimately show ?thesis by (simp only:)
  qed
qed (auto simp: fits_def)

text \<open>
  \<open>chunkRows\<close> loses and reorders no row, posts no empty body, and every body it forms stays under
  the limit unless a single row is alone over it.
\<close>

lemma chunkRows_bodies:
  "concat (chunkRows rows maxBytes) = rows \<and>
   list_all (\<lambda>c. c \<noteq> [] \<and> (body_bytes c \<le> maxBytes \<or> length c = 1)) (chunkRows rows maxBytes)"
  using chunk_loop_fits [of maxBytes "[]" "[]" envelope rows]
  unfolding chunkRows_def [symmetric] fits_def [abs_def] by simp

subsection \<open>The persisted queue and cursor\<close>

lemma cursorKey_queueKey: "cursorKey ns \<noteq> queueKey ns"
proof
  assume "cursorKey ns = queueKey ns"
  then have "length (cursorKey ns) = length (queueKey ns)" by simp
  then show False by (simp add: cursorKey_def queueKey_def)
qed

lemma queue_entry_JStr: "List.map_filter queue_entry (map JStr ks) = filter (\<lambda>k. k \<noteq> []) ks"
  by (induction ks) (auto simp: List.map_filter_def)

lemma queue_entry_nonempty: "queue_entry v = Some k \<Longrightarrow> k \<noteq> []"
  by (induction v rule: queue_entry.induct) (auto simp: validStateRow_def as_nonempty_def split: if_splits option.splits)

lemma readQueue_nonempty: "[] \<notin> set (readQueue ns d)"
proof -
  have "[] \<notin> set (List.map_filter queue_entry vs)" for vs
    by (auto simp: List.map_filter_def dest: queue_entry_nonempty)
  then show ?thesis by (auto simp: readQueue_def split: option.splits json.splits)
qed

lemma readQueue_written:
  "reliable d \<Longrightarrow> readQueue ns (fst (writeQueue ns ks d)) = filter (\<lambda>k. k \<noteq> []) ks"
  by (simp add: readQueue_def writeQueue_def reliable_def get_put queue_entry_JStr)

lemma readCursor_writeQueue:
  "reliable d \<Longrightarrow> readCursor ns (fst (writeQueue ns ks d)) = readCursor ns d"
  by (simp add: readCursor_def writeQueue_def reliable_def get_put cursorKey_queueKey)

lemma readQueue_writeCursor:
  "reliable d \<Longrightarrow> readQueue ns (fst (writeCursor ns c d)) = readQueue ns d"
  by (simp add: readQueue_def writeCursor_def reliable_def get_put cursorKey_queueKey [symmetric])

text \<open>What a restart makes of a cursor: a number that is not a safe one from 0 on reads as 0.\<close>

definition kept_cursor :: "num \<Rightarrow> num" where
  "kept_cursor c = (if is_safe_integer c \<and> 0 \<le> c then c else 0)"

lemma readCursor_kept: "kept_cursor (readCursor ns d) = readCursor ns d"
  by (auto simp: kept_cursor_def readCursor_def is_safe_integer_def split: option.splits cell.splits json.splits)

lemma readCursor_written:
  "reliable d \<Longrightarrow> readCursor ns (fst (writeCursor ns c d)) = kept_cursor c"
  by (simp add: readCursor_def writeCursor_def reliable_def get_put kept_cursor_def)

lemma reliable_writes [simp]:
  "reliable d \<Longrightarrow> reliable (fst (writeQueue ns ks d))"
  "reliable d \<Longrightarrow> reliable (fst (writeCursor ns c d))"
  by (simp_all add: reliable_def writeQueue_def writeCursor_def)

text \<open>What a restart would read is what the engine works with.\<close>

definition persisted :: "'s sync_config \<Rightarrow> 's sync \<Rightarrow> bool" where
  "persisted cfg s \<longleftrightarrow>
     reliable (sy_disk s) \<and> distinct (sy_queue s) \<and>
     uniq (readQueue (namespace cfg) (sy_disk s)) = filter (\<lambda>k. k \<noteq> []) (sy_queue s) \<and>
     readCursor (namespace cfg) (sy_disk s) = kept_cursor (sy_cursor s)"

lemma persisted_frame:
  "sy_disk t = sy_disk s \<Longrightarrow> sy_queue t = sy_queue s \<Longrightarrow> sy_cursor t = sy_cursor s \<Longrightarrow>
     persisted cfg t \<longleftrightarrow> persisted cfg s"
  by (simp add: persisted_def)

lemma persisted_created: "reliable disk \<Longrightarrow> persisted cfg (createStateSync cfg st disk)"
proof -
  have "[] \<notin> set (uniq (readQueue ns disk))" "distinct (uniq (readQueue ns disk))" for ns
    using readQueue_nonempty by (simp_all add: uniq_def)
  then have "filter (\<lambda>k. k \<noteq> []) (uniq (readQueue ns disk)) = uniq (readQueue ns disk)" for ns
    by (intro filter_True) metis
  then show "reliable disk \<Longrightarrow> persisted cfg (createStateSync cfg st disk)"
    by (simp add: persisted_def createStateSync_def readCursor_kept uniq_def)
qed

lemma persisted_write_queue:
  "persisted cfg s \<Longrightarrow> distinct q \<Longrightarrow> persisted cfg (write_queue cfg (s\<lparr>sy_queue := q\<rparr>))"
proof -
  assume p: "persisted cfg s" and q: "distinct q"
  let ?s = "s\<lparr>sy_queue := q\<rparr>"
  have "sy_disk (write_queue cfg ?s) = fst (writeQueue (namespace cfg) q (sy_disk s))"
    by (simp add: write_queue_def Let_def split: prod.split)
  with p q show ?thesis
    by (simp add: persisted_def readQueue_written readCursor_writeQueue uniq_distinct)
qed

lemma persisted_enqueueKeys:
  "persisted cfg s \<Longrightarrow> persisted cfg (enqueueKeys cfg ks s)"
proof -
  assume p: "persisted cfg s"
  have ne: "distinct (add_all ks (sy_queue s))" using p by (simp add: persisted_def)
  show ?thesis
  proof (cases "length (add_all ks (sy_queue s)) = length (sy_queue s)")
    case True
    then have "add_all ks (sy_queue s) = sy_queue s"
      by (simp only: add_all_same_length add_all_subset)
    then show ?thesis using p by (simp add: enqueueKeys_def persisted_def)
  next
    case False
    then show ?thesis using persisted_write_queue [OF p ne] by (simp add: enqueueKeys_def Let_def)
  qed
qed

lemma persisted_dequeueKeys: "persisted cfg s \<Longrightarrow> persisted cfg (dequeueKeys cfg ks s)"
proof -
  assume p: "persisted cfg s"
  have ne: "distinct (remove_all ks (sy_queue s))" using p by (simp add: persisted_def)
  show ?thesis
  proof (cases "\<exists>k \<in> set ks. k \<in> set (sy_queue s)")
    case True
    then show ?thesis using persisted_write_queue [OF p ne] by (simp add: dequeueKeys_def Let_def)
  next
    case False
    then have "remove_all ks (sy_queue s) = sy_queue s" by (intro remove_all_disjoint) blast
    then show ?thesis using p False by (simp add: dequeueKeys_def persisted_def)
  qed
qed

lemma persisted_forget: "persisted cfg s \<Longrightarrow> persisted cfg (forget cfg ks s)"
proof -
  assume "persisted cfg s"
  then have "persisted cfg (s\<lparr>sy_store := st\<rparr>)" for st by (simp add: persisted_def)
  with \<open>persisted cfg s\<close> show ?thesis by (simp add: forget_def persisted_dequeueKeys)
qed

lemma cursor_control [simp]:
  "sy_cursor (settled s) = sy_cursor s" "sy_cursor (requestPull s) = sy_cursor s"
  "sy_cursor (await_pull w s) = sy_cursor s" "sy_cursor (handleFailure cfg p s) = sy_cursor s"
  "sy_cursor (start_post rs ss cs s) = sy_cursor s" "sy_cursor (posted_all s) = sy_cursor s"
  "sy_cursor (cancelScheduledRetry s) = sy_cursor s"
  by (simp_all add: control_defs)

lemma persisted_control [simp]:
  "persisted cfg (settled s) = persisted cfg s" "persisted cfg (requestPull s) = persisted cfg s"
  "persisted cfg (await_pull w s) = persisted cfg s" "persisted cfg (handleFailure cfg p s) = persisted cfg s"
  "persisted cfg (start_post rs ss cs s) = persisted cfg s" "persisted cfg (posted_all s) = persisted cfg s"
  "persisted cfg (cancelScheduledRetry s) = persisted cfg s"
  by (intro persisted_frame; simp)+

lemma persisted_upd [simp]:
  "persisted cfg (s\<lparr>sy_sending := x\<rparr>) = persisted cfg s"
  "persisted cfg (s\<lparr>sy_sendAgain := b\<rparr>) = persisted cfg s"
  "persisted cfg (s\<lparr>sy_pulling := p\<rparr>) = persisted cfg s"
  "persisted cfg (s\<lparr>sy_pullAgain := b\<rparr>) = persisted cfg s"
  "persisted cfg (s\<lparr>sy_waiters := ws\<rparr>) = persisted cfg s"
  "persisted cfg (s\<lparr>sy_held := ks\<rparr>) = persisted cfg s"
  "persisted cfg (s\<lparr>sy_refused := m\<rparr>) = persisted cfg s"
  "persisted cfg (s\<lparr>sy_problem := m\<rparr>) = persisted cfg s"
  "persisted cfg (s\<lparr>sy_retry := b\<rparr>) = persisted cfg s"
  "persisted cfg (s\<lparr>sy_store := st\<rparr>) = persisted cfg s"
  "persisted cfg (s\<lparr>sy_disposed := b\<rparr>) = persisted cfg s"
  "persisted cfg (s\<lparr>sy_catchUp := b\<rparr>) = persisted cfg s"
  "persisted cfg (s\<lparr>sy_pulled := b\<rparr>) = persisted cfg s"
  by (simp_all add: persisted_def)

lemma persisted_sendOnce: "persisted cfg s \<Longrightarrow> persisted cfg (sendOnce cfg s)"
  by (simp add: sendOnce_def Let_def persisted_dequeueKeys split: list.split)

lemma persisted_sendQueue: "persisted cfg s \<Longrightarrow> persisted cfg (sendQueue cfg s)"
  by (simp add: sendQueue_def persisted_sendOnce)

lemma persisted_finish_send: "persisted cfg s \<Longrightarrow> persisted cfg (finish_send cfg s)"
  by (simp add: finish_send_def Let_def persisted_sendQueue)

lemma persisted_next_post: "persisted cfg s \<Longrightarrow> persisted cfg (next_post cfg ss cs s)"
  by (simp add: next_post_def persisted_finish_send split: list.split)

lemma persisted_resume: "persisted cfg s \<Longrightarrow> persisted cfg (resume cfg w s)"
  by (auto simp: resume_def persisted_finish_send persisted_enqueueKeys
      intro!: persisted_sendQueue split: waiter.split)

lemma persisted_settle_pull: "persisted cfg s \<Longrightarrow> persisted cfg (settle_pull cfg s)"
proof -
  have "persisted cfg t \<Longrightarrow> persisted cfg (fold (resume cfg) ws t)" for ws t
    by (induction ws arbitrary: t) (auto intro: persisted_resume)
  then show "persisted cfg s \<Longrightarrow> persisted cfg (settle_pull cfg s)"
    by (simp add: settle_pull_def Let_def)
qed

lemma persisted_catch_up: "persisted cfg s \<Longrightarrow> persisted cfg (catch_up cfg rows horizon s)"
  by (simp add: catch_up_def Let_def persisted_forget persisted_enqueueKeys)

lemma persisted_pull_landed:
  "persisted cfg s \<Longrightarrow> persisted cfg (pull_landed cfg env full rows c horizon s)"
proof -
  assume p: "persisted cfg s"
  let ?d = "fst (writeCursor (namespace cfg) c (sy_disk s))"
  have p2: "persisted cfg (s\<lparr>sy_blocked := False, sy_store := st, sy_cursor := c, sy_disk := ?d, sy_problem := m\<rparr>)"
    and "persisted cfg (s\<lparr>sy_blocked := False, sy_store := st, sy_cursor := c, sy_disk := ?d\<rparr>)" for st m
    using p by (auto simp: persisted_def readQueue_writeCursor readCursor_written)
  then show ?thesis
    by (auto simp: pull_landed_def Let_def split: prod.split
        intro!: persisted_dequeueKeys persisted_catch_up)
qed

lemma persisted_event:
  assumes p: "persisted cfg s"
  shows "persisted cfg (sync_event cfg env e s)"
proof (cases e)
  case (PullOk rows c horizon)
  then show ?thesis
    using p by (auto split: option.split intro!: persisted_settle_pull persisted_pull_landed)
next
  case (PullFailed p)
  then show ?thesis
    using assms by (auto split: option.split intro!: persisted_settle_pull)
next
  case (PostOk stale)
  then show ?thesis
    using p by (auto simp: post_accepted_def Let_def split: option.split posting.split
        intro!: persisted_next_post persisted_dequeueKeys persisted_forget)
next
  case (PostFailed pr)
  then show ?thesis
    using p by (auto simp: post_refused_def Let_def split: option.split posting.split list.split
        intro!: persisted_next_post persisted_finish_send)
next
  case (Mutated st rows)
  then show ?thesis
    using p by (auto intro!: persisted_sendQueue persisted_enqueueKeys)
qed (use p in \<open>auto simp: retryNow_def\<close>)

lemma persisted_run:
  "persisted cfg s \<Longrightarrow> persisted cfg (fold (\<lambda>(env, e). sync_event cfg env e) es s)"
  by (induction es arbitrary: s) (auto intro: persisted_event)

text \<open>
  C6. The queue and the cursor survive a restart. Take an engine created on a disk that works and run
  it through any events whatever (edits, pulls, posts, refusals, failures, retries, a disposal), over
  any store. An engine created anew on the disk it leaves, after any one of these turns, resumes with
  the same keys to send in the same order, and with the same cursor. Only an empty key, which no
  record has, would not be read back, and a cursor that is not a safe number from 0 on reads as 0,
  which pulls everything.
\<close>

theorem queue_survives_restart:
  assumes "reliable disk"
  shows "let s = fold (\<lambda>(env, e). sync_event cfg env e) es (createStateSync cfg st disk);
             restarted = createStateSync cfg st' (sy_disk s)
         in reliable (sy_disk s) \<and>
            sy_queue restarted = filter (\<lambda>k. k \<noteq> []) (sy_queue s) \<and>
            sy_cursor restarted =
              (if is_safe_integer (sy_cursor s) \<and> 0 \<le> sy_cursor s then sy_cursor s else 0)"
proof -
  have "persisted cfg (fold (\<lambda>(env, e). sync_event cfg env e) es (createStateSync cfg st disk))"
    by (rule persisted_run [OF persisted_created [OF assms]])
  then show ?thesis by (simp add: Let_def persisted_def kept_cursor_def createStateSync_def)
qed

subsection \<open>The delay between retries\<close>

definition patient :: "'s sync \<Rightarrow> bool" where
  "patient s \<longleftrightarrow> 500 \<le> sy_backoff s \<and> sy_backoff s \<le> 10000"

lemma patient_frame: "sy_backoff t = sy_backoff s \<Longrightarrow> patient t = patient s"
  by (simp add: patient_def)

lemma patient_control [simp]:
  "patient (settled s) = patient s" "patient (requestPull s) = patient s"
  "patient (await_pull w s) = patient s" "patient (start_post rs ss cs s) = patient s"
  "patient (enqueueKeys cfg ks s) = patient s" "patient (dequeueKeys cfg ks s) = patient s"
  "patient (forget cfg ks s) = patient s" "patient (cancelScheduledRetry s) = patient s"
  by (intro patient_frame; simp add: control_defs)+

lemma patient_upd [simp]:
  "patient (s\<lparr>sy_sending := x\<rparr>) = patient s" "patient (s\<lparr>sy_sendAgain := b\<rparr>) = patient s"
  "patient (s\<lparr>sy_pulling := p\<rparr>) = patient s" "patient (s\<lparr>sy_pullAgain := b\<rparr>) = patient s"
  "patient (s\<lparr>sy_waiters := ws\<rparr>) = patient s" "patient (s\<lparr>sy_held := ks\<rparr>) = patient s"
  "patient (s\<lparr>sy_refused := m\<rparr>) = patient s" "patient (s\<lparr>sy_problem := m\<rparr>) = patient s"
  "patient (s\<lparr>sy_retry := b\<rparr>) = patient s" "patient (s\<lparr>sy_store := st\<rparr>) = patient s"
  "patient (s\<lparr>sy_disposed := b\<rparr>) = patient s" "patient (s\<lparr>sy_catchUp := b\<rparr>) = patient s"
  "patient (s\<lparr>sy_pulled := b\<rparr>) = patient s" "patient (s\<lparr>sy_blocked := b\<rparr>) = patient s"
  "patient (s\<lparr>sy_cursor := c\<rparr>) = patient s" "patient (s\<lparr>sy_disk := d\<rparr>) = patient s"
  by (simp_all add: patient_def)

lemma patient_posted_all: "patient (posted_all s)"
proof -
  have "patient (s\<lparr>sy_backoff := 500\<rparr>)" by (simp add: patient_def)
  then show ?thesis by (simp add: posted_all_def)
qed

lemma patient_handleFailure: "patient s \<Longrightarrow> patient (handleFailure cfg p s)"
  by (auto simp: handleFailure_def scheduleRetry_def showPending_def cancelScheduledRetry_def
      patient_def Let_def)

lemma patient_sendOnce: "patient s \<Longrightarrow> patient (sendOnce cfg s)"
  by (simp add: sendOnce_def Let_def patient_posted_all split: list.split)

lemma patient_sendQueue: "patient s \<Longrightarrow> patient (sendQueue cfg s)"
  by (simp add: sendQueue_def patient_sendOnce)

lemma patient_finish_send: "patient s \<Longrightarrow> patient (finish_send cfg s)"
  by (simp add: finish_send_def Let_def patient_sendQueue)

lemma patient_next_post: "patient s \<Longrightarrow> patient (next_post cfg ss cs s)"
  by (simp add: next_post_def patient_finish_send patient_posted_all split: list.split)

lemma patient_resume: "patient s \<Longrightarrow> patient (resume cfg w s)"
  by (simp add: resume_def patient_finish_send patient_sendQueue split: waiter.split)

lemma patient_settle_pull: "patient s \<Longrightarrow> patient (settle_pull cfg s)"
proof -
  have "patient t \<Longrightarrow> patient (fold (resume cfg) ws t)" for ws t
    by (induction ws arbitrary: t) (auto intro: patient_resume)
  then show "patient s \<Longrightarrow> patient (settle_pull cfg s)" by (simp add: settle_pull_def Let_def)
qed

lemma patient_pull_landed: "patient s \<Longrightarrow> patient (pull_landed cfg env full rows c horizon s)"
  by (simp add: pull_landed_def catch_up_def Let_def split: prod.split)

lemma patient_event: "patient s \<Longrightarrow> patient (sync_event cfg env e s)"
  by (cases e)
    (auto simp: post_accepted_def post_refused_def retryNow_def Let_def patient_handleFailure
      split: option.split posting.split list.split
      intro!: patient_settle_pull patient_pull_landed patient_next_post patient_finish_send patient_sendQueue)

text \<open>
  The delay before a retry starts at 500 ms, stays between 500 ms and 10 s through any sequence
  of events, and after two failures in a row is doubled or at the limit.
\<close>

lemma backoff_bounded:
  "let s = fold (\<lambda>(env, e). sync_event cfg env e) es (createStateSync cfg st disk);
       s' = scheduleRetry cfg s
   in 500 \<le> sy_backoff s \<and> sy_backoff s \<le> 10000 \<and>
      sy_backoff s' \<in> {sy_backoff s, 2 * sy_backoff s, 10000}"
proof -
  have "patient s \<Longrightarrow> patient (fold (\<lambda>(env, e). sync_event cfg env e) es s)" for s
    by (induction es arbitrary: s) (auto intro: patient_event)
  moreover have "patient (createStateSync cfg st disk)"
    by (simp add: patient_def createStateSync_def)
  ultimately have "patient (fold (\<lambda>(env, e). sync_event cfg env e) es (createStateSync cfg st disk))"
    by blast
  then show ?thesis by (auto simp: Let_def patient_def scheduleRetry_def)
qed

subsection \<open>Rows the server refused as too large\<close>

lemma in_flight_frame: "sy_sending t = sy_sending s \<Longrightarrow> in_flight t = in_flight s"
  by (simp add: in_flight_def)

lemma in_flight_simps [simp]:
  "sy_sending s = None \<Longrightarrow> in_flight s = []"
  "sy_sending s = Some AwaitPull \<Longrightarrow> in_flight s = []"
  "sy_sending s = Some (Posting rows ss cs) \<Longrightarrow> in_flight s = rows @ ss @ concat cs"
  by (simp_all add: in_flight_def)

text \<open>The rows still to post have distinct keys, none of them held back.\<close>

definition apart :: "'s sync \<Rightarrow> bool" where
  "apart s \<longleftrightarrow> distinct (sy_queue s) \<and>
     distinct (map row_key (in_flight s) @ sy_held s)"

lemma apart_idle:
  "distinct (sy_queue s) \<Longrightarrow> distinct (sy_held s) \<Longrightarrow>
     sy_sending s = None \<or> sy_sending s = Some AwaitPull \<Longrightarrow> apart s"
  by (auto simp: apart_def)

lemma map_filter_keys:
  "(\<And>k r. f k = Some r \<Longrightarrow> row_key r = k) \<Longrightarrow>
     map row_key (List.map_filter f ks) = filter (\<lambda>k. f k \<noteq> None) ks"
  by (induction ks) (auto simp: List.map_filter_def)

context sync_engine begin

definition tidy :: "'a sync \<Rightarrow> bool" where
  "tidy s \<longleftrightarrow> sinv (sy_store s) \<and> apart s"

lemma tidy_frame:
  "sy_store t = sy_store s \<Longrightarrow> sy_sending t = sy_sending s \<Longrightarrow> sy_queue t = sy_queue s \<Longrightarrow>
     sy_held t = sy_held s \<Longrightarrow> tidy t \<longleftrightarrow> tidy s"
  using in_flight_frame [of t s] by (simp add: tidy_def apart_def)

lemma tidy_idle:
  "tidy s \<Longrightarrow> sy_store t = sy_store s \<Longrightarrow> sy_queue t = sy_queue s \<Longrightarrow> sy_held t = sy_held s \<Longrightarrow>
     sy_sending t = None \<or> sy_sending t = Some AwaitPull \<Longrightarrow> tidy t"
  by (auto simp: tidy_def apart_def)

lemma tidy_posted_all: "tidy s \<Longrightarrow> tidy (posted_all s)"
  by (erule tidy_idle) simp_all

lemma tidy_dequeueKeys: "tidy s \<Longrightarrow> tidy (dequeueKeys cfg ks s)"
  using in_flight_frame [of "dequeueKeys cfg ks s" s] by (auto simp: tidy_def apart_def)

lemma tidy_enqueueKeys: "tidy s \<Longrightarrow> tidy (enqueueKeys cfg ks s)"
  using in_flight_frame [of "enqueueKeys cfg ks s" s] by (auto simp: tidy_def apart_def)

lemma tidy_forget: "tidy s \<Longrightarrow> tidy (forget cfg ks s)"
proof -
  assume t: "tidy s"
  then have "sinv (sy_store (forget cfg ks s))"
    using keeps_forget(2) [OF _ cfg_ops] by (simp add: tidy_def)
  then show ?thesis
    using t in_flight_frame [of "forget cfg ks s" s] by (auto simp: tidy_def apart_def)
qed

lemma tidy_sendOnce: "tidy s \<Longrightarrow> tidy (sendOnce cfg s)"
proof -
  assume t: "tidy s"
  let ?rows = "List.map_filter (row_in cfg s) (waiting s)"
  let ?s1 = "dequeueKeys cfg (filter (\<lambda>k. row_in cfg s k = None) (waiting s)) s"
  have t1: "tidy ?s1" using t by (rule tidy_dequeueKeys)
  have "map row_key ?rows = filter (\<lambda>k. row_in cfg s k \<noteq> None) (waiting s)"
    using t row_in_key(1) [OF _ cfg_ops] by (intro map_filter_keys) (auto simp: tidy_def)
  then have keys: "distinct (map row_key ?rows @ sy_held s)"
    using t by (auto simp: tidy_def apart_def waiting_def)
  have "tidy (start_post c [] cs ?s1)" if "chunkRows ?rows (maxPostBytes cfg) = c # cs" for c cs
  proof -
    have "c @ concat cs = ?rows" using arg_cong [OF that, of concat] by simp
    then show ?thesis using keys t1 by (simp add: tidy_def apart_def)
  qed
  with t t1 show ?thesis
    by (auto simp: sendOnce_def Let_def tidy_posted_all split: list.split)
qed

lemma tidy_sendQueue: "tidy s \<Longrightarrow> tidy (sendQueue cfg s)"
  using tidy_frame [of "s\<lparr>sy_sendAgain := True\<rparr>" s] by (simp add: sendQueue_def tidy_sendOnce)

lemma tidy_finish_send:
  "sinv (sy_store s) \<Longrightarrow> distinct (sy_queue s) \<Longrightarrow> distinct (sy_held s) \<Longrightarrow> tidy (finish_send cfg s)"
proof -
  assume "sinv (sy_store s)" "distinct (sy_queue s)" "distinct (sy_held s)"
  then have "tidy (s\<lparr>sy_sending := None\<rparr>)" "tidy (s\<lparr>sy_sending := None, sy_sendAgain := False\<rparr>)"
    by (simp_all add: tidy_def apart_def)
  then show ?thesis by (simp add: finish_send_def Let_def tidy_sendQueue)
qed

lemma tidy_parts:
  "tidy s \<Longrightarrow> sinv (sy_store s)" "tidy s \<Longrightarrow> distinct (sy_queue s)" "tidy s \<Longrightarrow> distinct (sy_held s)"
  "tidy s \<Longrightarrow> distinct (map row_key (in_flight s) @ sy_held s)"
  by (simp_all add: tidy_def apart_def)

lemma tidy_next_post:
  assumes inv: "sinv (sy_store s)" and q: "distinct (sy_queue s)"
    and d: "distinct (map row_key (ss @ concat cs) @ sy_held s)"
  shows "tidy (next_post cfg ss cs s)"
proof -
  have f: "tidy (finish_send cfg s)" using assms by (intro tidy_finish_send) auto
  have "tidy (posted_all s)" "ss = [] \<Longrightarrow> cs = c # cs' \<Longrightarrow> tidy (start_post c [] cs' s)"
    "ss = r # rs \<Longrightarrow> tidy (start_post [r] rs cs s)" for c cs' r rs
    using assms by (auto simp: tidy_def apart_def)
  with f show ?thesis by (simp add: next_post_def split: list.split)
qed

lemma tidy_resume: "tidy s \<Longrightarrow> tidy (resume cfg w s)"
  by (simp add: resume_def tidy_finish_send tidy_parts tidy_sendQueue tidy_enqueueKeys split: waiter.split)

lemma tidy_settle_pull: "tidy s \<Longrightarrow> tidy (settle_pull cfg s)"
proof -
  have f: "tidy t \<Longrightarrow> tidy (fold (resume cfg) ws t)" for ws t
    by (induction ws arbitrary: t) (auto intro: tidy_resume)
  assume t: "tidy s"
  let ?s1 = "s\<lparr>sy_pulling := None, sy_waiters := []\<rparr>"
  have "tidy ?s1" "tidy (requestPull (?s1\<lparr>sy_pullAgain := False\<rparr>))"
    using t tidy_frame [of ?s1 s] tidy_frame [of "requestPull (?s1\<lparr>sy_pullAgain := False\<rparr>)" s] by simp_all
  then show ?thesis by (simp add: settle_pull_def Let_def f)
qed

lemma tidy_pull_landed: "tidy s \<Longrightarrow> tidy (pull_landed cfg env full rows c horizon s)"
proof -
  assume t: "tidy s"
  let ?t = "pull_landed cfg env full rows c horizon s"
  have "sinv (sy_store ?t)" using t keeps_pull_landed(3) [OF _ cfg_laws] by (simp add: tidy_def)
  moreover have "in_flight ?t = in_flight s" by (intro in_flight_frame sending_pull_landed)
  moreover have "sy_held ?t = sy_held s"
    by (simp add: pull_landed_def catch_up_def Let_def split: prod.split)
  moreover have "distinct (sy_queue s) \<Longrightarrow> distinct (sy_queue ?t)"
    by (simp add: pull_landed_def catch_up_def Let_def split: prod.split)
  ultimately show ?thesis using t by (simp add: tidy_def apart_def)
qed

lemma tidy_refused:
  assumes t: "tidy s" and p: "sy_sending s = Some (Posting rows ss cs)"
  shows "tidy (post_refused cfg pr rows ss cs s)"
proof -
  have d: "distinct (map row_key (rows @ ss @ concat cs) @ sy_held s)"
    using t p by (simp add: tidy_def apart_def)
  have h: "tidy (handleFailure cfg pr s)" using t tidy_frame [of "handleFailure cfg pr s" s] by simp
  then have f: "tidy (finish_send cfg (handleFailure cfg pr s))"
    by (intro tidy_finish_send tidy_parts)
  have "tidy (next_post cfg ss cs (s\<lparr>sy_held := set_add (row_key r) (sy_held s), sy_refused := m, sy_problem := m\<rparr>))"
    if "rows = [r]" for r m
    using d that t by (intro tidy_next_post) (auto simp: tidy_def apart_def)
  moreover have "tidy (next_post cfg (rows @ ss) cs s)"
    using d t by (intro tidy_next_post) (auto simp: tidy_def apart_def)
  ultimately show ?thesis using f by (auto simp: post_refused_def Let_def split: list.split)
qed

lemma tidy_event:
  assumes t: "tidy s" and adm: "admissible cfg sinv e s"
  shows "tidy (sync_event cfg env e s)"
proof (cases e)
  case (PullOk rows c horizon)
  with t show ?thesis by (auto intro: tidy_settle_pull tidy_pull_landed split: option.split)
next
  case (PostOk stale)
  have "tidy (next_post cfg ss cs (post_accepted cfg rows stale s))"
    if p: "sy_sending s = Some (Posting rows ss cs)" for rows ss cs
  proof -
    have a: "tidy (post_accepted cfg rows stale s)"
      using t by (simp add: post_accepted_def Let_def tidy_dequeueKeys tidy_forget)
    have "sy_held (post_accepted cfg rows stale s) = sy_held s"
      by (simp add: post_accepted_def Let_def)
    then show ?thesis
      using tidy_parts [OF a] tidy_parts(4) [OF t] p by (intro tidy_next_post) auto
  qed
  with PostOk t show ?thesis by (auto split: option.split posting.split)
next
  case (PostFailed pr)
  with t show ?thesis by (auto intro: tidy_refused split: option.split posting.split)
next
  case (PullFailed p)
  have "tidy (handleFailure cfg p s)" using t tidy_frame [of "handleFailure cfg p s" s] by simp
  with PullFailed t show ?thesis by (auto intro: tidy_settle_pull split: option.split)
next
  case (Mutated st rows)
  let ?h = "remove_all (map row_key rows) (sy_held s)"
  have "tidy (s\<lparr>sy_store := st, sy_held := ?h\<rparr>)" "tidy (s\<lparr>sy_store := st\<rparr>)"
    using t adm Mutated in_flight_frame [of "s\<lparr>sy_store := st, sy_held := ?h\<rparr>" s]
      in_flight_frame [of "s\<lparr>sy_store := st\<rparr>" s]
    by (auto simp: tidy_def apart_def admissible_def)
  with Mutated show ?thesis by (simp add: tidy_sendQueue tidy_enqueueKeys)
next
  case (Adopted st rows)
  then show ?thesis
    using t adm in_flight_frame [of "s\<lparr>sy_store := st\<rparr>" s]
    by (auto simp: tidy_def apart_def admissible_def)
next
  case Dispose
  then show ?thesis using t tidy_frame [of "s\<lparr>sy_disposed := True, sy_retry := False\<rparr>" s] by simp
next
  case RetryFired
  have "tidy (retryNow (s\<lparr>sy_retry := False\<rparr>))"
    using t tidy_frame [of "retryNow (s\<lparr>sy_retry := False\<rparr>)" s] by (simp add: retryNow_def)
  with RetryFired t show ?thesis by simp
next
  case RetryNow
  then show ?thesis using t tidy_frame [of "retryNow s" s] by (simp add: retryNow_def)
next
  case (StateChanged ns c)
  then show ?thesis using t tidy_frame [of "await_pull AfterPull s" s] by simp
next
  case Start
  then show ?thesis using t tidy_frame [of "await_pull AfterStart s" s] by simp
qed

text \<open>
  In a run, a key the server refused as too large is in no request still to be posted: it waits
  until its row changes.
\<close>

lemma run_tidy: "sync_run cfg sinv s A \<Longrightarrow> tidy s"
proof (induction rule: sync_run.induct)
  case (created st disk)
  then show ?case by (simp add: tidy_def apart_def createStateSync_def)
qed (auto intro: tidy_event)

theorem held_not_in_flight:
  "sync_run cfg sinv s A \<Longrightarrow> row_key ` set (in_flight s) \<inter> set (sy_held s) = {}"
  using run_tidy [of s A] by (auto simp: tidy_def apart_def)

subsection \<open>A server that answers drains the queue\<close>

lemma accepted_all:
  "\<forall>r \<in> set rows. row_in cfg s (row_key r) = Some r \<Longrightarrow>
     post_accepted cfg rows [] s = dequeueKeys cfg (map row_key rows) s"
proof -
  assume r: "\<forall>r \<in> set rows. row_in cfg s (row_key r) = Some r"
  have "filter (\<lambda>r. case row_in cfg s (row_key r) of None \<Rightarrow> True
      | Some local \<Rightarrow> compare_rows cfg local r \<le> 0) rows = rows"
    using r cfg_compare by (intro filter_True) auto
  then show ?thesis by (simp add: post_accepted_def forget_def stale_keys_def sent_keys_def)
qed

lemma drain_posts:
  "sinv (sy_store s) \<Longrightarrow> \<not> sy_disposed s \<Longrightarrow> sy_sending s = Some (Posting c [] cs) \<Longrightarrow>
   set (sy_queue s) \<subseteq> row_key ` set (c @ concat cs) \<Longrightarrow>
   (\<forall>r \<in> set (c @ concat cs). row_in cfg s (row_key r) = Some r) \<Longrightarrow>
     sy_queue (fold (sync_event cfg env) (replicate (Suc (length cs)) (PostOk [])) s) = []"
proof (induction cs arbitrary: s c)
  case Nil
  let ?t = "post_accepted cfg c [] s"
  have "set (sy_queue ?t) = {}"
    using Nil.prems accepted_all [of c s] by auto
  with Nil.prems(3) show ?case by (simp add: next_post_def)
next
  case (Cons c' cs)
  let ?t = "post_accepted cfg c [] s"
  let ?u = "start_post c' [] cs ?t"
  have t: "sy_store ?t = sy_store s" "sy_disposed ?t = sy_disposed s"
    "set (sy_queue ?t) = set (sy_queue s) - row_key ` set c"
    using Cons.prems accepted_all [of c s] by auto
  have row: "row_in cfg ?u = row_in cfg s" by (rule row_in_frame) (simp add: t)
  have "sy_queue (fold (sync_event cfg env) (replicate (Suc (length cs)) (PostOk [])) ?u) = []"
  proof (rule Cons.IH)
    show "set (sy_queue ?u) \<subseteq> row_key ` set (c' @ concat cs)"
      using Cons.prems(4) t(3) by (simp add: image_Un) blast
  qed (use Cons.prems t in \<open>simp_all add: row\<close>)
  moreover have "sync_event cfg env (PostOk []) s = ?u"
    using Cons.prems t by (simp add: next_post_def)
  ultimately show ?case by simp
qed

lemma pull_landed_frame:
  "sy_disposed (pull_landed cfg env full rows c horizon s) = sy_disposed s"
  "sy_held (pull_landed cfg env full rows c horizon s) = sy_held s"
  "sy_blocked (pull_landed cfg env full rows c horizon s) = False"
  "sy_waiters (pull_landed cfg env full rows c horizon s) = sy_waiters s"
  by (simp_all add: pull_landed_def catch_up_def Let_def split: prod.split)

text \<open>The rows a send would post.\<close>

definition outbox :: "'a sync \<Rightarrow> state_row list" where
  "outbox s = List.map_filter (row_in cfg s) (waiting s)"

lemma drain_send:
  assumes t: "tidy s" and live: "\<not> sy_disposed s" "\<not> sy_blocked s"
    and idle: "sy_sending s = None" and held: "sy_held s = []"
  shows "sy_queue (fold (sync_event cfg env)
     (replicate (length (chunkRows (outbox s) (maxPostBytes cfg))) (PostOk [])) (sendQueue cfg s)) = []"
proof -
  let ?dead = "filter (\<lambda>k. row_in cfg s k = None) (waiting s)"
  let ?s1 = "dequeueKeys cfg ?dead s"
  have waiting: "waiting s = sy_queue s" by (simp add: waiting_def held)
  have rows: "set (outbox s) = {r. \<exists>k \<in> set (sy_queue s). row_in cfg s k = Some r}"
    by (auto simp: outbox_def waiting)
  have event_keyed: "row_in cfg s k = Some r \<Longrightarrow> row_key r = k" for k r
    using t row_in_key(1) [OF _ cfg_ops] by (auto simp: tidy_def)
  have q: "set (sy_queue ?s1) = row_key ` set (outbox s)"
  proof
    show "set (sy_queue ?s1) \<subseteq> row_key ` set (outbox s)"
    proof
      fix k assume "k \<in> set (sy_queue ?s1)"
      then obtain r where "k \<in> set (sy_queue s)" "row_in cfg s k = Some r"
        by (auto simp: waiting)
      then show "k \<in> row_key ` set (outbox s)" using event_keyed rows by force
    qed
    show "row_key ` set (outbox s) \<subseteq> set (sy_queue ?s1)"
      using event_keyed by (auto simp: rows waiting)
  qed
  show ?thesis
  proof (cases "chunkRows (outbox s) (maxPostBytes cfg)")
    case Nil
    then have e: "outbox s = []" by (metis concat.simps(1) concat_chunkRows)
    then have "sendQueue cfg s = ?s1"
      using idle live by (simp add: sendQueue_def sendOnce_def outbox_def Let_def)
    moreover have "sy_queue ?s1 = []" using q e by (metis list.set(1) image_empty set_empty)
    ultimately show ?thesis by (simp add: Nil)
  next
    case (Cons c cs)
    then have c: "c @ concat cs = outbox s" by (metis concat.simps(2) concat_chunkRows)
    then have ne: "outbox s \<noteq> []"
      using Cons by (auto simp: chunkRows_def)
    have send: "sendQueue cfg s = start_post c [] cs ?s1"
      using idle live ne Cons by (simp add: sendQueue_def sendOnce_def outbox_def Let_def)
    have "row_in cfg (start_post c [] cs ?s1) = row_in cfg s"
      by (rule row_in_frame) simp
    moreover have "\<forall>r \<in> set (outbox s). row_in cfg s (row_key r) = Some r"
      using rows event_keyed by auto
    ultimately have "sy_queue (fold (sync_event cfg env) (replicate (Suc (length cs)) (PostOk []))
        (start_post c [] cs ?s1)) = []"
      using t live q unfolding c [symmetric] by (intro drain_posts) (simp_all add: tidy_def)
    then show ?thesis by (simp add: Cons send)
  qed
qed

text \<open>
  One pull and as many accepted posts as there are bodies empty the queue of an engine that was
  idle: a change made offline reaches a server that answers.
\<close>

theorem queue_drains:
  assumes t: "tidy s" and live: "\<not> sy_disposed s"
    and idle: "sy_sending s = None" "sy_pulling s = None" "sy_waiters s = []" and held: "sy_held s = []"
  shows "\<exists>n. sy_queue (fold (sync_event cfg env)
     ([RetryNow, PullOk rows rev' horizon] @ replicate n (PostOk [])) s) = []"
proof -
  let ?s1 = "sync_event cfg env RetryNow s"
  have s1: "tidy ?s1" using t by (rule tidy_event) (simp add: admissible_def)
  have p1: "sy_pulling ?s1 = Some (sy_catchUp s)" "sy_waiters ?s1 = [AfterPull]"
    "sy_sending ?s1 = None" "\<not> sy_disposed ?s1" "sy_held ?s1 = []"
    using live idle held by (simp_all add: retryNow_def control_defs)
  let ?l = "pull_landed cfg env (sy_catchUp s) rows rev' horizon ?s1"
  have l: "tidy ?l" using s1 by (rule tidy_pull_landed)
  have pl: "sy_sending ?l = None" "\<not> sy_disposed ?l" "sy_held ?l = []" "\<not> sy_blocked ?l"
    "sy_waiters ?l = [AfterPull]"
    using p1 by (simp_all only: sending_pull_landed pull_landed_frame not_False_eq_True)
  let ?m = "?l\<lparr>sy_pulling := None, sy_waiters := []\<rparr>"
  let ?n = "if sy_pullAgain ?m then requestPull (?m\<lparr>sy_pullAgain := False\<rparr>) else ?m"
  have n: "tidy ?n" using l tidy_frame [of ?n ?l] by simp
  have pn: "sy_sending ?n = None" "\<not> sy_disposed ?n" "sy_held ?n = []" "\<not> sy_blocked ?n"
    using pl by (simp_all add: control_defs)
  have "sync_event cfg env (PullOk rows rev' horizon) ?s1 = sendQueue cfg ?n"
    using p1(1) pl by (simp add: settle_pull_def Let_def resume_def)
  then show ?thesis
    using drain_send [OF n pn(2,4,1,3), of env] by (auto simp del: sync_event.simps)
qed

end

end
