(* ===== verification/NotesSync.thy ===== *)
theory NotesSync
  imports NotesSession SyncProps
begin

section \<open>Notes and the server\<close>

text \<open>
  \<^verbatim>\<open>features/notes/notesSync.ts\<close>: the rows notes travel in, the adapter that makes the notes store
  a store of the sync engine, the engine configured for notes and its transport. The two contracts
  of the engine are interpreted here on the notes store, so the engine's guarantees hold of it.
\<close>

subsection \<open>Rows\<close>

definition finite_or_absent :: "json option \<Rightarrow> bool" where
  "finite_or_absent v \<longleftrightarrow> v = None \<or> as_finite v \<noteq> None"

definition validSource :: "json \<Rightarrow> bool" where
  "validSource v \<longleftrightarrow>
     is_object v \<and>
     (if field v ''kind'' = Some (JStr ''transcript'') then as_string (field v ''agent'') \<noteq> None
      else if field v ''kind'' \<noteq> Some (JStr ''file'') \<and> field v ''kind'' \<noteq> Some (JStr ''diff'') then False
      else as_string (field v ''path'') \<noteq> None \<and>
        finite_or_absent (field v ''start'') \<and> finite_or_absent (field v ''end'') \<and>
        (field v ''kind'' = Some (JStr ''file'') \<or> as_string (field v ''base'') \<noteq> None))"

definition storedNoteToStateRow :: "stored_note \<Rightarrow> state_row" where
  "storedNoteToStateRow r =
     (case body r of
        Tombstone i u \<Rightarrow>
          \<lparr>row_key = i, row_value = JObj [(''id'', JStr i)], row_updated = u, row_writeID = writeID r,
           row_deleted = True\<rparr>
      | Live n \<Rightarrow>
          \<lparr>row_key = nid n, row_value = JObj (note_fields n), row_updated = nupdated n,
           row_writeID = writeID r, row_deleted = False\<rparr>)"

definition stateRowToStoredNote :: "state_row \<Rightarrow> stored_note option" where
  "stateRowToStoredNote row =
     (let v = row_value row
      in if \<not> is_object v \<or> row_writeID row = [] then None
         else if field v ''id'' \<noteq> Some (JStr (row_key row)) then None
         else if row_deleted row
         then Some \<lparr>writeID = row_writeID row, body = Tombstone (row_key row) (row_updated row)\<rparr>
         else case (as_string (field v ''group''), as_string (field v ''text''),
                    as_finite (field v ''created''), opt_string (field v ''quote'')) of
                (Some g, Some t, Some c, Some q) \<Rightarrow>
                  if (case field v ''source'' of None \<Rightarrow> True | Some src \<Rightarrow> validSource src)
                  then Some \<lparr>writeID = row_writeID row,
                     body = Live \<lparr>nid = row_key row, ngroup = g, ntext = t, nquote = q,
                                  nsource = field v ''source'', ncreated = c, nupdated = row_updated row\<rparr>\<rparr>
                  else None
              | _ \<Rightarrow> None)"

lemma row_of_note [simp]:
  "row_key (storedNoteToStateRow r) = sid r"
  "row_updated (storedNoteToStateRow r) = rec_updated (body r)"
  "row_writeID (storedNoteToStateRow r) = writeID r"
  by (simp_all add: storedNoteToStateRow_def split: note_record.split)

lemma note_of_row:
  "stateRowToStoredNote row = Some r \<Longrightarrow>
     sid r = row_key row \<and> rec_updated (body r) = row_updated row \<and> writeID r = row_writeID row"
  by (auto simp: stateRowToStoredNote_def Let_def split: if_splits option.splits)

lemma note_row_version:
  "stateRowToStoredNote row = Some r \<Longrightarrow> compareRows (storedNoteToStateRow r) row = 0"
  using note_of_row [of row r] by (simp add: compareRows_def compareStateVersions_def)

definition row_ready :: "stored_note \<Rightarrow> bool" where
  "row_ready r \<longleftrightarrow> writeID r \<noteq> [] \<and>
     (case body r of Live n \<Rightarrow> (case nsource n of None \<Rightarrow> True | Some v \<Rightarrow> validSource v) | _ \<Rightarrow> True)"

text \<open>
  A note comes back from the server as it was sent: the row of a stored note, live or deleted,
  reads back as the same stored note, provided its write id is not empty and its source, if any, is
  well formed.
\<close>

lemma note_row_roundtrip:
  assumes "row_ready r"
  shows "stateRowToStoredNote (storedNoteToStateRow r) = Some r"
proof (cases "body r")
  case (Live n)
  then show ?thesis
    using assms
    by (cases "nquote n"; cases "nsource n")
      (simp_all add: stateRowToStoredNote_def storedNoteToStateRow_def note_fields_def row_ready_def
        opt_string_def)
next
  case (Tombstone i u)
  then show ?thesis
    using assms by (simp add: stateRowToStoredNote_def storedNoteToStateRow_def row_ready_def)
qed

lemma note_row_roundtrip_witness:
  "stateRowToStoredNote (storedNoteToStateRow
     \<lparr>writeID = ''w'', body = Live \<lparr>nid = ''n'', ngroup = ''g'', ntext = ''t'', nquote = Some ''q'',
        nsource = Some (JObj [(''kind'', JStr ''file''), (''path'', JStr ''a'')]), ncreated = 1, nupdated = 2\<rparr>\<rparr>) =
     Some \<lparr>writeID = ''w'', body = Live \<lparr>nid = ''n'', ngroup = ''g'', ntext = ''t'', nquote = Some ''q'',
        nsource = Some (JObj [(''kind'', JStr ''file''), (''path'', JStr ''a'')]), ncreated = 1, nupdated = 2\<rparr>\<rparr>"
  by (rule note_row_roundtrip) (simp add: row_ready_def validSource_def finite_or_absent_def)

subsection \<open>The adapter\<close>

definition notesStoreSyncAdapter :: "notes_config \<Rightarrow> notes_store sync_store" where
  "notesStoreSyncAdapter cfg =
     \<lparr>all_rows = (\<lambda>s. map storedNoteToStateRow (all_records s)),
      row_of = (\<lambda>s k. map_option storedNoteToStateRow (record_at s k)),
      merge_rows = (\<lambda>env rows s. merge cfg env (List.map_filter stateRowToStoredNote rows) s),
      forget_rows = forget_notes\<rparr>"

definition createNotesSync :: "notes_config \<Rightarrow> sync_messages \<Rightarrow> notes_store sync_config" where
  "createNotesSync cfg msgs =
     \<lparr>namespace = ''notes'', compare_rows = compareRows, messages = msgs,
      ops = notesStoreSyncAdapter cfg, maxPostBytes = maxStatePostBytes, can_retry = True\<rparr>"

text \<open>A pull of a server without the namespace (404) is a pull of nothing.\<close>

definition notes_since ::
    "nat option + state_row list \<times> num \<times> num option \<Rightarrow> nat option + state_row list \<times> num \<times> num option" where
  "notes_since answer =
     (case answer of Inl s \<Rightarrow> if s = Some 404 then Inr ([], 0, None) else Inl s | Inr r \<Rightarrow> Inr r)"

lemma merge_one_records:
  "get (nt_records (snd (merge_one cfg env r cs))) k = Some q \<Longrightarrow>
     get (nt_records (snd cs)) k = Some q \<or> (q = r \<and> sid r = k)"
  by (auto simp: merge_one_def set_dirty_def records_setRecord drop_note_def get_put get_del Let_def
      split: prod.splits option.splits if_splits)

lemma fold_merge_records:
  "get (nt_records (snd (fold (merge_one cfg env) rs cs))) k = Some q \<Longrightarrow>
     get (nt_records (snd cs)) k = Some q \<or> (q \<in> set rs \<and> sid q = k)"
proof (induction rs arbitrary: cs)
  case (Cons r rs)
  from Cons.IH [of "merge_one cfg env r cs"] Cons.prems merge_one_records [of cfg env r cs k q]
  show ?case by auto
qed simp

lemma merge_records:
  "get (nt_records (merge cfg env rs s)) k = Some q \<Longrightarrow>
     get (nt_records s) k = Some q \<or> (q \<in> set rs \<and> sid q = k)"
  using fold_merge_records [of cfg env rs "(False, s)" k q]
  by (cases "fold (merge_one cfg env) rs (False, s)") (auto simp: merge_def split: if_splits)

lemma records_drop: "nt_records (drop_note i s) = del i (nt_records s)"
  by (simp add: drop_note_def Let_def get_None_keys)

lemma forget_records:
  "get (nt_records (forget_notes ks s)) k = (if k \<in> set ks then None else get (nt_records s) k)"
proof -
  have "get (nt_records (fold drop_note js s)) k = (if k \<in> set js then None else get (nt_records s) k)" for js
    by (induction js arbitrary: s) (auto simp: records_drop get_del)
  then show ?thesis by (auto simp: forget_notes_def Let_def filter_empty_conv)
qed

lemma adapter_simps [simp]:
  "all_rows (notesStoreSyncAdapter cfg) s = map storedNoteToStateRow (all_records s)"
  "row_of (notesStoreSyncAdapter cfg) s k = map_option storedNoteToStateRow (get (nt_records s) k)"
  "merge_rows (notesStoreSyncAdapter cfg) env rows s = merge cfg env (List.map_filter stateRowToStoredNote rows) s"
  "forget_rows (notesStoreSyncAdapter cfg) ks s = forget_notes ks s"
  by (simp_all add: notesStoreSyncAdapter_def record_at_def)

lemma record_in_all:
  "notes_inv cfg st \<Longrightarrow> get (nt_records st) k = Some n \<longleftrightarrow> n \<in> set (all_records st) \<and> sid n = k"
proof
  assume inv: "notes_inv cfg st"
  show "get (nt_records st) k = Some n \<Longrightarrow> n \<in> set (all_records st) \<and> sid n = k"
    using inv_record_id [OF inv, of k n] get_Some_in [of "nt_records st" k n]
    by (force simp: all_records_def)
  assume n: "n \<in> set (all_records st) \<and> sid n = k"
  then obtain j where j: "(j, n) \<in> set (nt_records st)" by (auto simp: all_records_def)
  then have "get (nt_records st) j = Some n"
    using inv by (intro map_of_is_SomeI) (simp_all add: notes_inv_def wf_parts)
  then show "get (nt_records st) k = Some n" using inv_record_id [OF inv] n by auto
qed

lemma adapter_row_all:
  "notes_inv cfg st \<Longrightarrow> row_of (notesStoreSyncAdapter cfg) st k = Some r \<longleftrightarrow>
     r \<in> set (all_rows (notesStoreSyncAdapter cfg) st) \<and> row_key r = k"
  using record_in_all [of cfg st k] by auto

lemma adapter_merge_row:
  assumes "row_of (notesStoreSyncAdapter cfg) (merge_rows (notesStoreSyncAdapter cfg) env rs st) k = Some r"
  shows "row_of (notesStoreSyncAdapter cfg) st k = Some r \<or>
    (\<exists>a \<in> set rs. row_key a = k \<and> compareRows r a \<le> 0)"
proof -
  let ?ns = "List.map_filter stateRowToStoredNote rs"
  obtain n where n: "get (nt_records (merge cfg env ?ns st)) k = Some n" "r = storedNoteToStateRow n"
    using assms by auto
  consider "get (nt_records st) k = Some n" | "n \<in> set ?ns" "sid n = k"
    using merge_records [OF n(1)] by blast
  then show ?thesis
  proof cases
    case 2
    then obtain a where a: "a \<in> set rs" "stateRowToStoredNote a = Some n" by auto
    then have "row_key a = k" "compareRows r a \<le> 0"
      using note_of_row [OF a(2)] note_row_version [OF a(2)] 2 n by simp_all
    with a(1) show ?thesis by blast
  qed (use n in simp)
qed

interpretation notes_contract: sync_contract "notesStoreSyncAdapter cfg" "notes_inv cfg" for cfg
proof (unfold_locales, goal_cases)
  case (1 st k r)
  then show ?case by (rule adapter_row_all)
next
  case (2 st env rs)
  then show ?case by (simp add: inv_merge)
next
  case (3 st ks)
  then show ?case by (simp add: inv_forget_notes)
next
  case (4 st env rs k r)
  then show ?case by (intro adapter_merge_row)
next
  case (5 st ks k)
  then show ?case by (simp add: forget_records)
qed

interpretation notes_engine:
  sync_engine "notesStoreSyncAdapter cfg" "notes_inv cfg" "createNotesSync cfg msgs" for cfg msgs
  by unfold_locales (simp_all add: createNotesSync_def)

text \<open>A sample engine on the sample store: created, started, and after its first full pull.\<close>

definition sample_msgs :: sync_messages where
  "sample_msgs = \<lparr>browserOnly = ''b'', pendingMsg = (\<lambda>_. ''p''), queuePersistence = ''q'',
     postRefused = (\<lambda>_ _. ''r''), cursorPersistence = ''c''\<rparr>"

abbreviation sample_sync :: "notes_store sync_config" where
  "sample_sync \<equiv> createNotesSync sample_cfg sample_msgs"

definition sample_created :: "notes_store sync" where
  "sample_created = createStateSync sample_sync (sample_store []) \<lparr>items = [], readable = True, faults = []\<rparr>"

definition sample_started :: "notes_store sync" where
  "sample_started = sync_event sample_sync sample_env Start sample_created"

definition sample_pulled :: "notes_store sync" where
  "sample_pulled = sync_event sample_sync sample_env (PullOk [] 0 None) sample_started"

definition sample_acks :: "state_row list" where
  "sample_acks = ([] @ acked Start sample_created) @ acked (PullOk [] 0 None) sample_started"

lemma sample_run_created: "sync_run sample_sync (notes_inv sample_cfg) sample_created []"
  unfolding sample_created_def by (rule sync_run.created) (rule reachable_inv [OF sample_reachable])

lemma sample_run: "sync_run sample_sync (notes_inv sample_cfg) sample_pulled sample_acks"
  unfolding sample_pulled_def sample_started_def sample_acks_def
  by (intro sync_run.event sample_run_created) (simp_all add: admissible_def)

lemma sample_started_simps [simp]:
  "sy_pulling sample_started = Some True" "\<not> sy_disposed sample_started" "sy_waiters sample_started = [AfterStart]"
  "sy_sending sample_started = None" "sy_held sample_started = []"
  by (simp_all add: sample_started_def sample_created_def createStateSync_def control_defs)

lemma sample_pulled_simps: "\<not> sy_disposed sample_pulled" "\<not> sy_catchUp sample_pulled"
  by (simp_all add: sample_pulled_def)

text \<open>
  C1. No note is lost on its way to the server: once the first full pull has landed, every note of
  the store, live or deleted, is queued to be sent, or the server (or another tab that has it to
  send) is known to hold a version of it at least as new. This holds in every state the engine
  reaches, whatever the server answers or refuses and in whatever order answers, edits, retries and
  purges arrive.
\<close>

theorem notes_no_lost_update:
  assumes "sync_run (createNotesSync cfg msgs) (notes_inv cfg) s acks"
    and "\<not> sy_disposed s" and "\<not> sy_catchUp s" and "record_at (sy_store s) i = Some r"
  shows "i \<in> set (pending s) \<or>
    (\<exists>a \<in> set acks. row_key a = i \<and> compareRows (storedNoteToStateRow r) a \<le> 0)"
  using notes_engine.no_lost_update [OF assms(1-3)] assms(4)
  by (auto simp: covered_def covered_by_def row_in_def createNotesSync_def record_at_def
      pending_def)

theorem notes_no_lost_update_witness:
  "''n'' \<in> set (pending sample_pulled) \<or>
    (\<exists>a \<in> set sample_acks. row_key a = ''n'' \<and> compareRows (storedNoteToStateRow sample_note) a \<le> 0)"
proof (rule notes_no_lost_update [OF sample_run sample_pulled_simps])
  have "sy_store sample_started = sample_store []"
    by (simp add: sample_started_def sample_created_def createStateSync_def)
  then show "record_at (sy_store sample_pulled) ''n'' = Some sample_note"
    using sample_record [of "[]"]
    by (simp add: sample_pulled_def pull_landed_def catch_up_def purged_row_def forget_def createNotesSync_def
        merge_def Let_def split: prod.split)
qed

text \<open>
  A note the server refused as too large is held back alone: its key is in no request still to
  be posted, so the other notes still sync, until the note changes.
\<close>

lemma notes_refused_stays_back:
  assumes "sync_run (createNotesSync cfg msgs) (notes_inv cfg) s acks" and "k \<in> set (sy_held s)"
  shows "k \<notin> row_key ` set (in_flight s)"
  using notes_engine.held_not_in_flight [OF assms(1)] assms(2) by blast

text \<open>The sample note posted and refused with a 413.\<close>

definition sample_refused :: "notes_store sync" where
  "sample_refused = sync_event sample_sync sample_env
     (PostFailed \<lparr>status = Some 413, perror = [], pdetail = []\<rparr>) sample_pulled"

lemma sample_posting:
  "sy_sending sample_pulled = Some (Posting [storedNoteToStateRow sample_note] [] [])"
  "sy_queue sample_pulled = [''n'']" "sy_cursor sample_pulled = 0"
proof -
  let ?row = "storedNoteToStateRow sample_note"
  let ?L = "pull_landed sample_sync sample_env True [] 0 None sample_started"
  let ?S = "?L\<lparr>sy_pulling := None, sy_waiters := []\<rparr>"
  have recs: "nt_records (sample_store []) = [(''n'', sample_note)]"
    by (simp add: sample_store_def sample_add putBatch_def set_dirty_def records_setRecord
        sample_empty_simps Let_def) (simp add: sample_note_def)
  have key: "sid sample_note = ''n''" by (simp add: sample_note_def)
  have start: "sy_store sample_started = sample_store []" "sy_queue sample_started = []"
    "sy_pullAgain sample_started = False"
    by (simp_all add: sample_started_def sample_created_def createStateSync_def readQueue_def
        uniq_def control_defs)
  have L: "sy_store ?L = sample_store []" "sy_queue ?L = [''n'']" "sy_pullAgain ?L = False" "sy_cursor ?L = 0"
    using start recs key
    by (simp_all add: pull_landed_def catch_up_def purged_row_def forget_def createNotesSync_def
        merge_def all_records_def rows_map_def set_add_def writeCursor_def sample_started_def
        enqueueKeys_def write_queue_def Let_def split: prod.split)
  have w: "waiting ?S = [''n'']" using L by (simp add: waiting_def notes_engine.pull_landed_frame)
  have r: "row_in sample_sync ?S = map_option storedNoteToStateRow \<circ> get (nt_records (sample_store []))"
    using L(1) by (auto simp: row_in_def createNotesSync_def)
  have send: "sendOnce sample_sync ?S = start_post [?row] [] [] (dequeueKeys sample_sync [] ?S)"
    using recs by (simp add: sendOnce_def w r notes_engine.pull_landed_frame chunkRows_def Let_def
        List.map_filter_simps)
  have pulled: "sample_pulled = sendOnce sample_sync ?S"
    using L(3) by (simp add: sample_pulled_def settle_pull_def resume_def sendQueue_def
        notes_engine.pull_landed_frame notes_engine.sending_pull_landed Let_def)
  have posting: "sample_pulled = start_post [?row] [] [] (dequeueKeys sample_sync [] ?S)"
    using pulled send by (rule trans)
  show "sy_sending sample_pulled = Some (Posting [?row] [] [])"
    unfolding posting by (rule sending_simps(5))
  show "sy_queue sample_pulled = [''n'']" "sy_cursor sample_pulled = 0"
    unfolding posting using L(2,4) by (simp_all add: start_post_def dequeueKeys_def)
qed

theorem queue_survives_restart_witness:
  "sy_queue (createStateSync sample_sync (sample_store []) (sy_disk sample_pulled)) = [''n''] \<and>
   sy_cursor (createStateSync sample_sync (sample_store []) (sy_disk sample_pulled)) = 0"
proof -
  have "reliable \<lparr>items = [], readable = True, faults = []\<rparr>" by (simp add: reliable_def)
  from queue_survives_restart [OF this, of sample_sync
      "[(sample_env, Start), (sample_env, PullOk [] 0 None)]" "sample_store []" "sample_store []"]
  have "sy_queue (createStateSync sample_sync (sample_store []) (sy_disk sample_pulled)) =
      filter (\<lambda>k. k \<noteq> []) (sy_queue sample_pulled) \<and>
      sy_cursor (createStateSync sample_sync (sample_store []) (sy_disk sample_pulled)) =
      (if is_safe_integer (sy_cursor sample_pulled) \<and> 0 \<le> sy_cursor sample_pulled
       then sy_cursor sample_pulled else 0)"
    unfolding Let_def fold_Cons fold_Nil comp_def id_apply prod.case
      sample_created_def [symmetric] sample_started_def [symmetric] sample_pulled_def [symmetric]
    by blast
  then show ?thesis by (simp add: sample_posting)
qed

lemma notes_refused_stays_back_witness:
  "''n'' \<notin> row_key ` set (in_flight sample_refused)"
proof (rule notes_refused_stays_back)
  show "sync_run sample_sync (notes_inv sample_cfg) sample_refused
      (sample_acks @ acked (PostFailed \<lparr>status = Some 413, perror = [], pdetail = []\<rparr>) sample_pulled)"
    unfolding sample_refused_def by (rule sync_run.event [OF sample_run]) (simp add: admissible_def)
  show "''n'' \<in> set (sy_held sample_refused)"
    by (simp add: sample_refused_def sample_posting(1) post_refused_def tooLarge_def Let_def) (simp add: sample_note_def)
qed

text \<open>
  C7. A server that answers gets everything: from any state the engine reaches in which nothing is
  under way and nothing is held back, one pull and enough accepted posts empty the queue.
\<close>

theorem notes_queue_drains:
  assumes "sync_run (createNotesSync cfg msgs) (notes_inv cfg) s acks" and "\<not> sy_disposed s"
    and "sy_sending s = None" and "sy_pulling s = None" and "sy_waiters s = []" and "sy_held s = []"
  shows "\<exists>n. pending (fold (sync_event (createNotesSync cfg msgs) env)
     ([RetryNow, PullOk rows newRev horizon] @ replicate n (PostOk [])) s) = []"
  using notes_engine.queue_drains [OF notes_engine.run_tidy [OF assms(1)] assms(2-6)]
  by (simp add: pending_def)

theorem notes_queue_drains_witness:
  "\<exists>n. pending (fold (sync_event sample_sync sample_env)
     ([RetryNow, PullOk [] 3 None] @ replicate n (PostOk [])) sample_created) = []"
  by (rule notes_queue_drains [OF sample_run_created])
    (simp_all add: sample_created_def createStateSync_def)

end
