(* ===== verification/NoteFlows.thy ===== *)
theory NoteFlows
  imports NotesSession
begin

section \<open>Queueing, editing and handing off notes\<close>

text \<open>
  \<^verbatim>\<open>features/notes/noteQueue.ts\<close> (a composer draft kept as a note), \<^verbatim>\<open>noteEditModel.ts\<close> (the draft
  of an edit) and \<^verbatim>\<open>noteHandOff.ts\<close> (selected notes moved into an agent's draft). The hand-off
  works on callbacks of the panel that calls it; they are parameters over a state \<open>'w\<close> of the world.
\<close>

subsection \<open>A composer draft as a note\<close>

definition refusal :: "string \<Rightarrow> string" where
  "refusal p = (if p = [] then ''This note could not be saved durably.'' else p)
     @ '' The composer draft was left unchanged.''"

text \<open>\<open>env\<close> serves the addition and \<open>env'\<close> the deletion that takes it back.\<close>

definition queueComposerNote ::
    "notes_config \<Rightarrow> env \<Rightarrow> env \<Rightarrow> string \<Rightarrow> string \<Rightarrow> notes_store \<Rightarrow> unit outcome_of \<times> notes_store" where
  "queueComposerNote cfg env env' grp t s =
     (if \<not> persistent (nt_status s) then (Inl (refusal (problem (nt_status s))), s)
      else case add cfg env grp t None None s of
             (Inl reason, s1) \<Rightarrow> (Inl reason, s1)
           | (Inr n, s1) \<Rightarrow>
               let s2 = snd (flush s1)
               in if persistent (nt_status s2) then (Inr (), s2)
                  else (Inl (refusal (problem (nt_status s2))), snd (delete env' [nid n] s2)))"

text \<open>
  C8. Queueing a draft is all or nothing: when it succeeds the store says it is saved durably and
  holds the note, or what replaced it on disk; when it is refused, whatever step failed, no note of
  the draft is left among the live notes.
\<close>

theorem composer_note_all_or_nothing:
  assumes "notes_reachable cfg s" and "\<not> live_at s (ids env 0)"
  shows "case queueComposerNote cfg env env' grp t s of
      (Inr u, s') \<Rightarrow> persistent (nt_status s') \<and>
        (\<exists>q. record_at s' (ids env 0) = Some q \<and> now env \<le> rec_updated (body q))
    | (Inl reason, s') \<Rightarrow> reason \<noteq> [] \<and> \<not> live_at s' (ids env 0)"
proof (cases "persistent (nt_status s)")
  case False
  then show ?thesis using assms(2) by (simp add: queueComposerNote_def refusal_def)
next
  case True
  obtain res s1 where a: "add cfg env grp t None None s = (res, s1)" by fastforce
  have r1: "notes_reachable cfg s1"
    using notes_reachable.step [OF assms(1), of "Add grp t None None" env] a by simp
  from a show ?thesis
  proof (cases rule: add_outcome)
    case (refused reason)
    then show ?thesis using True a assms(2) by (simp add: queueComposerNote_def)
  next
    case (accepted n)
    let ?r = "\<lparr>writeID = ids env 1, body = Live n\<rparr>" and ?s2 = "snd (flush s1)"
    have r2: "notes_reachable cfg ?s2"
      using notes_reachable.step [OF r1, of Flush env] by simp
    have "get (nt_records s1) (ids env 0) = Some ?r"
      using accepted by (simp add: putBatch_single get_put)
    then obtain q where q: "get (nt_records ?s2) (ids env 0) = Some q" "0 \<le> compareStored q ?r"
      using flush_advances [OF reachable_inv [OF r1]] unfolding advances_def by blast
    have up: "now env \<le> rec_updated (body q)"
      using q(2) accepted(5) by (auto simp: compareStored_def compare_simps)
    have dead: "\<not> live_at (snd (delete env' [nid n] ?s2)) (ids env 0)"
      using delete_dead [OF r2, of "ids env 0" "[nid n]"] accepted(4) by simp
    have e: "queueComposerNote cfg env env' grp t s =
        (if persistent (nt_status ?s2) then (Inr (), ?s2)
         else (Inl (refusal (problem (nt_status ?s2))), snd (delete env' [nid n] ?s2)))"
      using True by (simp only: queueComposerNote_def a accepted(1) Let_def prod.case sum.case
          not_True_eq_False if_False)
    have "refusal (problem (nt_status ?s2)) \<noteq> []" by (simp add: refusal_def)
    with q(1) up dead show ?thesis
      unfolding e record_at_def by (cases "persistent (nt_status ?s2)") simp_all
  qed
qed

theorem composer_note_all_or_nothing_witness:
  "case queueComposerNote sample_cfg sample_env sample_env ''g'' ''t'' (sample_empty [Threw]) of
      (Inr u, s') \<Rightarrow> persistent (nt_status s') \<and>
        (\<exists>q. record_at s' (ids sample_env 0) = Some q \<and> now sample_env \<le> rec_updated (body q))
    | (Inl reason, s') \<Rightarrow> reason \<noteq> [] \<and> \<not> live_at s' (ids sample_env 0)"
  by (rule composer_note_all_or_nothing [OF sample_empty_reachable])
    (simp add: live_at_def sample_empty_simps)

subsection \<open>The draft of an edit\<close>

record note_edit =
  original :: Note
  draft_text :: string

definition beginNoteEdit :: "Note \<Rightarrow> note_edit" where
  "beginNoteEdit n = \<lparr>original = n, draft_text = ntext n\<rparr>"

definition updateNoteEdit :: "note_edit \<Rightarrow> string \<Rightarrow> note_edit" where
  "updateNoteEdit d t = d\<lparr>draft_text := t\<rparr>"

definition noteEditDisplay :: "note_edit \<Rightarrow> Note option \<Rightarrow> Note" where
  "noteEditDisplay d current = or_else current (original d)"

subsection \<open>Handing notes to an agent\<close>

text \<open>The guard is the set of the ids already appended.\<close>

definition guard_pending :: "string list \<Rightarrow> Note list \<Rightarrow> Note list" where
  "guard_pending appended ns = filter (\<lambda>n. nid n \<notin> set appended) ns"

definition markAppended :: "Note list \<Rightarrow> string list \<Rightarrow> string list" where
  "markAppended ns appended = add_all (map nid ns) appended"

record 'w hand_off =
  append_to :: "string \<Rightarrow> Note list \<Rightarrow> 'w \<Rightarrow> unit outcome_of \<times> 'w"
  remove_notes :: "string list \<Rightarrow> 'w \<Rightarrow> nat outcome_of \<times> 'w"
  flush_notes :: "'w \<Rightarrow> 'w"
  notes_status :: "'w \<Rightarrow> store_status"

definition handOffSelectedNotes ::
    "'w hand_off \<Rightarrow> string \<Rightarrow> Note list \<Rightarrow> string list \<Rightarrow> 'w \<Rightarrow> nat outcome_of \<times> string list \<times> 'w" where
  "handOffSelectedNotes cb target ns guard w =
     (let pend = guard_pending guard ns;
          (appended, w1) = (if pend = [] then (Inr (), w) else append_to cb target pend w)
      in case appended of
           Inl reason \<Rightarrow> (Inl reason, guard, w1)
         | Inr u \<Rightarrow>
             let guard1 = markAppended pend guard;
                 (removed, w2) = remove_notes cb (map nid ns) w1
             in case removed of
                  Inl reason \<Rightarrow>
                    (Inl ((if pend \<noteq> [] then ''The draft was updated, but the notes could not be removed.''
                           else ''The draft already contains these notes; retry did not append them again.'')
                          @ '' '' @ reason), guard1, w2)
                | Inr k \<Rightarrow>
                    let w3 = flush_notes cb w2; st = notes_status cb w3
                    in if persistent st then (Inr k, guard1, w3)
                       else (Inl ((if pend \<noteq> [] then ''The draft was updated''
                                   else ''The draft already contains these notes; retry did not append them again'')
                                  @ '', but the notes could not be removed durably. '' @ problem st), guard1, w3))"

text \<open>What the panel's callbacks do to the draft: only a successful append extends it.\<close>

definition drafting :: "'w hand_off \<Rightarrow> ('w \<Rightarrow> Note list) \<Rightarrow> bool" where
  "drafting cb draft \<longleftrightarrow>
     (\<forall>target ns w. case append_to cb target ns w of
        (Inr u, w') \<Rightarrow> draft w' = draft w @ ns | (Inl r, w') \<Rightarrow> draft w' = draft w) \<and>
     (\<forall>is w. draft (snd (remove_notes cb is w)) = draft w) \<and>
     (\<forall>w. draft (flush_notes cb w) = draft w)"

text \<open>An attempt and its retries, each with its own selection.\<close>

fun hand_offs :: "'w hand_off \<Rightarrow> (string \<times> Note list) list \<Rightarrow> string list \<times> 'w \<Rightarrow> string list \<times> 'w" where
  "hand_offs cb [] gw = gw"
| "hand_offs cb ((target, ns) # rest) gw =
     hand_offs cb rest (snd (handOffSelectedNotes cb target ns (fst gw) (snd gw)))"

lemma hand_off_guarded:
  assumes cb: "drafting cb draft" and d: "distinct (map nid ns)"
    and inv: "distinct (map nid (draft w))" "nid ` set (draft w) \<subseteq> set g"
    and e: "handOffSelectedNotes cb target ns g w = (res, g', w')"
  shows "distinct (map nid (draft w')) \<and> nid ` set (draft w') \<subseteq> set g'"
proof -
  let ?p = "guard_pending g ns"
  obtain ap w1 where a: "(if ?p = [] then (Inr (), w) else append_to cb target ?p w) = (ap, w1)" by fastforce
  have p: "distinct (map nid (draft w @ ?p))" using d inv by (auto simp: guard_pending_def distinct_map_filter)
  have w1: "draft w1 = (case ap of Inr u \<Rightarrow> draft w @ ?p | Inl r \<Rightarrow> draft w)"
  proof (cases "?p = []")
    case False
    have "case append_to cb target ?p w of (Inr u, w') \<Rightarrow> draft w' = draft w @ ?p | (Inl r, w') \<Rightarrow> draft w' = draft w"
      using cb by (simp add: drafting_def)
    then show ?thesis using a False by (auto split: sum.splits)
  qed (use a in auto)
  show ?thesis
  proof (cases ap)
    case (Inl r)
    then show ?thesis using e a w1 inv by (auto simp: handOffSelectedNotes_def Let_def)
  next
    case (Inr u)
    obtain rm w2 where r: "remove_notes cb (map nid ns) w1 = (rm, w2)" by fastforce
    have "draft w2 = draft w1" using cb r by (auto simp: drafting_def dest!: spec [of _ "map nid ns"] spec [of _ w1])
    moreover have "draft (flush_notes cb w2) = draft w2" using cb by (simp add: drafting_def)
    ultimately have dr: "draft w' = draft w @ ?p" and g': "g' = markAppended ?p g"
      using e a r w1 Inr by (auto simp: handOffSelectedNotes_def Let_def split: sum.splits if_splits)
    show ?thesis using p inv(2) by (auto simp: dr g' markAppended_def)
  qed
qed

text \<open>
  Whatever fails between appending notes to an agent's draft and deleting them, and however
  often the hand-off is retried with whatever selection, no note is appended to the draft twice.
\<close>

lemma hand_off_appends_once:
  assumes "drafting cb draft" and "\<forall>(target, ns) \<in> set attempts. distinct (map nid ns)"
    and "draft w = []"
  shows "distinct (map nid (draft (snd (hand_offs cb attempts ([], w)))))"
proof -
  have "distinct (map nid (draft (snd (hand_offs cb attempts (g, w)))))"
    if "distinct (map nid (draft w))" "nid ` set (draft w) \<subseteq> set g" for g w
    using assms(2) that
  proof (induction attempts arbitrary: g w)
    case (Cons t rest)
    obtain target ns where t: "t = (target, ns)" by (cases t)
    obtain res g' w' where e: "handOffSelectedNotes cb target ns g w = (res, g', w')" by (metis prod_cases3)
    have "distinct (map nid ns)" using Cons.prems(1) t by auto
    from hand_off_guarded [OF assms(1) this Cons.prems(2,3) e] Cons.IH [of w' g'] Cons.prems(1) t e
    show ?case by simp
  qed simp
  with assms(3) show ?thesis by simp
qed

lemma hand_off_appends_once_witness:
  "let n = \<lparr>nid = ''n'', ngroup = ''g'', ntext = ''t'', nquote = None, nsource = None, ncreated = 1, nupdated = 1\<rparr>;
       cb = \<lparr>append_to = (\<lambda>_ ns w. (Inr (), w @ ns)), remove_notes = (\<lambda>_ w. (Inl ''gone'', w)),
             flush_notes = (\<lambda>w. w), notes_status = (\<lambda>_. \<lparr>persistent = True, recovered = False, problem = []\<rparr>)\<rparr>
   in distinct (map nid (snd (hand_offs cb [(''a'', [n]), (''a'', [n])] ([], []))))"
  unfolding Let_def
  by (rule hand_off_appends_once [where draft = "\<lambda>w. w"]) (auto simp: drafting_def)

end
