(* ===== verification/SpacesStore.thy ===== *)
theory SpacesStore
  imports StoreBase
begin

section \<open>The spaces store\<close>

text \<open>
  \<^verbatim>\<open>features/spaces/spacesStore.ts\<close>: the definitions of the viewer's spaces, open and recently closed,
  held in memory and mirrored to the browser's storage with a debounced flush. The record
  \<open>spaces_store\<close> is the state of \<open>createSpacesStore\<close>; \<open>sp_notified\<close> counts the calls of its listeners,
  \<open>sp_mutations\<close> logs what its mutation listeners were told and \<open>sp_purged\<close> what \<open>onPurge\<close> was.
  The keys and the record are those of \<^verbatim>\<open>features/spaces/spacesModel.ts\<close>.
\<close>

subsection \<open>Spaces and their stored form\<close>

record SpaceDefinition =
  space_id :: string
  space_name :: string
  space_order :: num
  space_created :: num
  space_updated :: num
  space_deleted :: bool

type_synonym stored_space = "SpaceDefinition stored"

abbreviation skey :: "stored_space \<Rightarrow> string" where
  "skey r \<equiv> space_id (body r)"

definition spacesRecordPrefix :: string where
  "spacesRecordPrefix = ''herder.web.spaces.v1'' @ '''' @ '':''"

definition spacesBackupPrefix :: string where
  "spacesBackupPrefix = ''herder.web.spaces.v1'' @ ''.last-good'' @ '':''"

definition spacesRecoveryPrefix :: string where
  "spacesRecoveryPrefix = ''herder.web.spaces.v1'' @ ''.recovery'' @ '':''"

definition spaceRecordKey :: "string \<Rightarrow> string" where
  "spaceRecordKey i = key_of spacesRecordPrefix i"

definition spaceBackupKey :: "string \<Rightarrow> string" where
  "spaceBackupKey i = key_of spacesBackupPrefix i"

definition spaceRecoveryKey :: "string \<Rightarrow> string" where
  "spaceRecoveryKey i = key_of spacesRecoveryPrefix i"

text \<open>\<open>JSON.stringify\<close> of a stored space, as a value.\<close>

definition space_json :: "SpaceDefinition \<Rightarrow> json" where
  "space_json s = JObj
     ([(''id'', JStr (space_id s)), (''name'', JStr (space_name s)), (''order'', JNum (space_order s)),
       (''created'', JNum (space_created s)), (''updated'', JNum (space_updated s))]
      @ (if space_deleted s then [(''deleted'', JBool True)] else []))"

definition stored_space_json :: "stored_space \<Rightarrow> json" where
  "stored_space_json r =
     JObj [(''version'', JNum 1), (''writeID'', JStr (writeID r)), (''record'', space_json (body r))]"

definition parse_space :: "json \<Rightarrow> SpaceDefinition option" where
  "parse_space v =
     (case (as_string (field v ''id''), as_string (field v ''name''), as_finite (field v ''order''),
            as_finite (field v ''created''), as_finite (field v ''updated'')) of
        (Some i, Some n, Some ord, Some c, Some u) \<Rightarrow>
          if field v ''deleted'' \<noteq> None \<and> field v ''deleted'' \<noteq> Some (JBool True) then None
          else Some \<lparr>space_id = i, space_name = n, space_order = ord, space_created = c,
                     space_updated = u, space_deleted = (field v ''deleted'' \<noteq> None)\<rparr>
      | _ \<Rightarrow> None)"

definition parseStoredSpace :: "cell option \<Rightarrow> stored_space option" where
  "parseStoredSpace raw =
     (case parse_cell raw of
        None \<Rightarrow> None
      | Some v \<Rightarrow>
          (case (field v ''version'', as_string (field v ''writeID''), field v ''record'') of
             (Some ver, Some w, Some r) \<Rightarrow>
               if ver = JNum 1 then map_option (\<lambda>n. \<lparr>writeID = w, body = n\<rparr>) (parse_space r) else None
           | _ \<Rightarrow> None))"

definition compareStoredSpaceRecords :: "stored_space \<Rightarrow> stored_space \<Rightarrow> int" where
  "compareStoredSpaceRecords l r =
     compareStateVersions (space_updated (body l)) (writeID l) (space_updated (body r)) (writeID r)"

interpretation stored_spaces: versioned compareStoredSpaceRecords
  unfolding compareStoredSpaceRecords_def by (rule versioned_by)

definition spaceRecordID :: "string \<Rightarrow> string option" where
  "spaceRecordID key = decodeURIComponent (drop (length spacesRecordPrefix) key)"

lemma parse_stored_space [simp]: "parseStoredSpace (Some (Json (stored_space_json r))) = Some r"
  by (simp add: parseStoredSpace_def stored_space_json_def parse_space_def space_json_def)

subsection \<open>The state\<close>

text \<open>The options of \<open>createSpacesStore\<close>; \<open>compare_ids\<close> is \<open>String.prototype.localeCompare\<close>.\<close>

record spaces_config =
  space_retention :: num
  compare_ids :: "string \<Rightarrow> string \<Rightarrow> int"

definition default_spaces_config :: "(string \<Rightarrow> string \<Rightarrow> int) \<Rightarrow> spaces_config" where
  "default_spaces_config lc = \<lparr>space_retention = 30 * 24 * 60 * 60 * 1000, compare_ids = lc\<rparr>"

record spaces_store =
  sp_storage :: "storage option"
  sp_records :: "(string, stored_space) jsmap"
  sp_dirty :: "string list"
  sp_timer :: bool
  sp_status :: store_status
  sp_attached :: bool
  sp_notified :: nat
  sp_mutations :: "stored_space list list"
  sp_purged :: "string list"

definition spaces_memory_only :: string where
  "spaces_memory_only = ''Spaces are kept for this session but are not saved between browser sessions.''"

definition space_expired :: "spaces_config \<Rightarrow> env \<Rightarrow> SpaceDefinition \<Rightarrow> bool" where
  "space_expired cfg env r \<longleftrightarrow>
     space_deleted r \<and> js_sub (now env) (space_updated r) > space_retention cfg"

definition spaces_notify :: "spaces_store \<Rightarrow> spaces_store" where
  "spaces_notify s = s\<lparr>sp_notified := Suc (sp_notified s)\<rparr>"

definition spaces_degrade :: "spaces_store \<Rightarrow> spaces_store" where
  "spaces_degrade s =
     spaces_notify (s\<lparr>sp_storage := None, sp_dirty := [], sp_timer := False,
       sp_status := (sp_status s)\<lparr>persistent := False, problem := spaces_memory_only\<rparr>\<rparr>)"

text \<open>\<open>storage.setItem\<close> and \<open>storage.removeItem\<close>: \<open>False\<close> when the call threw (one on \<open>null\<close> does).\<close>

definition spaces_write :: "(storage \<Rightarrow> storage \<times> bool) \<Rightarrow> spaces_store \<Rightarrow> spaces_store \<times> bool" where
  "spaces_write f s =
     (case sp_storage s of
        None \<Rightarrow> (s, False)
      | Some st \<Rightarrow> (let (st', ok) = f st in (s\<lparr>sp_storage := Some st'\<rparr>, ok)))"

definition spaces_write_both ::
    "(storage \<Rightarrow> storage \<times> bool) \<Rightarrow> (storage \<Rightarrow> storage \<times> bool) \<Rightarrow> spaces_store \<Rightarrow> spaces_store \<times> bool" where
  "spaces_write_both f g s =
     (let (s1, ok) = spaces_write f s in if ok then spaces_write g s1 else (s1, False))"

definition spaces_guard :: "spaces_store \<times> bool \<Rightarrow> spaces_store" where
  "spaces_guard p = (if snd p then fst p else spaces_degrade (fst p))"

definition spaces_preserveRaw :: "string \<Rightarrow> cell \<Rightarrow> spaces_store \<Rightarrow> spaces_store" where
  "spaces_preserveRaw i raw s =
     (if sp_storage s = None then s
      else spaces_guard (spaces_write (setItem (spaceRecoveryKey i) raw) s))"

definition spaces_restored :: "string \<Rightarrow> spaces_store \<Rightarrow> spaces_store" where
  "spaces_restored msg s = s\<lparr>sp_status := \<lparr>persistent = True, recovered = True, problem = msg\<rparr>\<rparr>"

definition spaces_recoverRecord ::
    "string \<Rightarrow> cell option \<Rightarrow> spaces_store \<Rightarrow> stored_space option \<times> spaces_store" where
  "spaces_recoverRecord i raw s =
     (case parseStoredSpace raw of
        Some primary \<Rightarrow> (Some primary, s)
      | None \<Rightarrow>
          (let s1 = (if truthy raw then spaces_preserveRaw i (the raw) s else s)
           in case sp_storage s1 of
                None \<Rightarrow> (None, s1)
              | Some st \<Rightarrow>
                  (case getItem st (spaceBackupKey i) of
                     None \<Rightarrow> (None, spaces_degrade s1)
                   | Some cell \<Rightarrow>
                       (case parseStoredSpace cell of
                          Some backup \<Rightarrow>
                            (Some backup, spaces_restored ''Some spaces were restored from their last good copies. The unreadable data was kept for recovery.'' s1)
                        | None \<Rightarrow>
                            (None, if truthy raw
                                   then spaces_restored ''One unreadable space was kept for recovery. No usable copy was available.'' s1
                                   else s1)))))"

definition spaces_read ::
    "string \<Rightarrow> string \<Rightarrow> spaces_store \<Rightarrow> (cell option \<times> stored_space option \<times> spaces_store) option" where
  "spaces_read k i s =
     (case sp_storage s of
        None \<Rightarrow> None
      | Some st \<Rightarrow> map_option (\<lambda>raw. (raw, spaces_recoverRecord i raw s)) (getItem st k))"

abbreviation set_space :: "string \<Rightarrow> stored_space \<Rightarrow> spaces_store \<Rightarrow> spaces_store" where
  "set_space i r s \<equiv> s\<lparr>sp_records := put i r (sp_records s)\<rparr>"

definition pick_newer :: "stored_space option \<Rightarrow> stored_space \<Rightarrow> stored_space" where
  "pick_newer current r =
     (case current of Some c \<Rightarrow> newer compareStoredSpaceRecords c r | None \<Rightarrow> r)"

definition spaces_load_key :: "spaces_config \<Rightarrow> env \<Rightarrow> string \<times> string \<Rightarrow> spaces_store \<Rightarrow> spaces_store \<times> bool" where
  "spaces_load_key cfg env ki s =
     (case spaces_read (fst ki) (snd ki) s of
        None \<Rightarrow> (s, False)
      | Some (raw, None, s1) \<Rightarrow> (s1, True)
      | Some (raw, Some r, s1) \<Rightarrow>
          if space_expired cfg env (body r)
          then (let (s2, ok) = spaces_write_both (removeItem (fst ki)) (removeItem (spaceBackupKey (snd ki))) s1
                in (if ok then s2\<lparr>sp_purged := sp_purged s2 @ [snd ki]\<rparr> else s2, ok))
          else (set_space (snd ki) (pick_newer (get (sp_records s1) (snd ki)) r) s1, True))"

fun spaces_load_keys :: "spaces_config \<Rightarrow> env \<Rightarrow> (string \<times> string) list \<Rightarrow> spaces_store \<Rightarrow> spaces_store" where
  "spaces_load_keys cfg env [] s = s"
| "spaces_load_keys cfg env (ki # kis) s =
     (let (s1, ok) = spaces_load_key cfg env ki s
      in if ok then spaces_load_keys cfg env kis s1 else spaces_degrade s1)"

definition spaces_load :: "spaces_config \<Rightarrow> env \<Rightarrow> spaces_store \<Rightarrow> spaces_store" where
  "spaces_load cfg env s =
     (case sp_storage s of
        None \<Rightarrow> s
      | Some st \<Rightarrow>
          if readable st then spaces_load_keys cfg env (ids_under spacesRecordPrefix st) s
          else spaces_degrade s)"

definition createSpacesStore :: "spaces_config \<Rightarrow> env \<Rightarrow> storage option \<Rightarrow> spaces_store" where
  "createSpacesStore cfg env storage =
     spaces_load cfg env
       \<lparr>sp_storage = storage, sp_records = [], sp_dirty = [], sp_timer = False,
        sp_status = (if storage \<noteq> None then \<lparr>persistent = True, recovered = False, problem = []\<rparr>
                     else \<lparr>persistent = False, recovered = False, problem = spaces_memory_only\<rparr>),
        sp_attached = False, sp_notified = 0, sp_mutations = [], sp_purged = []\<rparr>"

definition spaces_drop :: "string \<Rightarrow> spaces_store \<Rightarrow> spaces_store" where
  "spaces_drop i s =
     (let s1 = s\<lparr>sp_records := del i (sp_records s), sp_dirty := set_remove i (sp_dirty s)\<rparr>;
          s2 = (if sp_storage s1 = None then s1
                else spaces_guard
                       (spaces_write_both (removeItem (spaceRecordKey i)) (removeItem (spaceBackupKey i)) s1))
      in s2\<lparr>sp_purged := sp_purged s2 @ [i]\<rparr>)"

definition space_le :: "spaces_config \<Rightarrow> SpaceDefinition \<Rightarrow> SpaceDefinition \<Rightarrow> bool" where
  "space_le cfg l r \<longleftrightarrow>
     (if space_order l \<noteq> space_order r then space_order l < space_order r
      else compare_ids cfg (space_id l) (space_id r) \<le> 0)"

definition closed_le :: "spaces_config \<Rightarrow> SpaceDefinition \<Rightarrow> SpaceDefinition \<Rightarrow> bool" where
  "closed_le cfg l r \<longleftrightarrow>
     (if space_updated l \<noteq> space_updated r then space_updated r < space_updated l
      else compare_ids cfg (space_id l) (space_id r) \<le> 0)"

definition live_spaces :: "spaces_config \<Rightarrow> spaces_store \<Rightarrow> SpaceDefinition list" where
  "live_spaces cfg s =
     sort_by (space_le cfg) (filter (\<lambda>r. \<not> space_deleted r) (map body (vals (sp_records s))))"

definition recentlyClosed :: "spaces_config \<Rightarrow> spaces_store \<Rightarrow> SpaceDefinition list" where
  "recentlyClosed cfg s =
     sort_by (closed_le cfg) (filter space_deleted (map body (vals (sp_records s))))"

definition spaces_scheduleFlush :: "spaces_store \<Rightarrow> spaces_store" where
  "spaces_scheduleFlush s = (if sp_storage s = None \<or> sp_timer s then s else s\<lparr>sp_timer := True\<rparr>)"

definition set_dirty_space :: "stored_space \<Rightarrow> spaces_store \<Rightarrow> spaces_store" where
  "set_dirty_space r s =
     s\<lparr>sp_records := put (skey r) r (sp_records s), sp_dirty := set_add (skey r) (sp_dirty s)\<rparr>"

definition announce :: "stored_space list \<Rightarrow> spaces_store \<Rightarrow> spaces_store" where
  "announce rs s = s\<lparr>sp_mutations := sp_mutations s @ [rs]\<rparr>"

definition put_space :: "stored_space \<Rightarrow> spaces_store \<Rightarrow> spaces_store" where
  "put_space r s = announce [r] (spaces_notify (spaces_scheduleFlush (set_dirty_space r s)))"

definition spaces_putBatch :: "stored_space list \<Rightarrow> spaces_store \<Rightarrow> spaces_store" where
  "spaces_putBatch rs s = announce rs (spaces_notify (spaces_scheduleFlush (fold set_dirty_space rs s)))"

definition spaces_reconcile :: "string \<Rightarrow> spaces_store \<Rightarrow> stored_space option \<times> spaces_store" where
  "spaces_reconcile i s =
     (if sp_storage s = None then (get (sp_records s) i, s)
      else case spaces_read (spaceRecordKey i) i s of
             None \<Rightarrow> (get (sp_records s) i, spaces_degrade s)
           | Some (raw, None, s1) \<Rightarrow> (get (sp_records s1) i, s1)
           | Some (raw, Some p, s1) \<Rightarrow>
               let memory = get (sp_records s1) i; winner = pick_newer memory p; s2 = set_space i winner s1
               in (Some winner, if Some winner \<noteq> memory then spaces_notify s2 else s2))"

text \<open>One id of a flush, as in the notes store.\<close>

definition spaces_flush_one :: "string \<Rightarrow> spaces_store \<Rightarrow> bool option \<times> spaces_store" where
  "spaces_flush_one i s =
     (case spaces_read (spaceRecordKey i) i s of
        None \<Rightarrow> (None, s)
      | Some (raw, persisted, s1) \<Rightarrow>
          (case get (sp_records s1) i of
             None \<Rightarrow> (Some False, s1\<lparr>sp_dirty := set_remove i (sp_dirty s1)\<rparr>)
           | Some memory \<Rightarrow>
               let winner = (case persisted of Some p \<Rightarrow> newer compareStoredSpaceRecords memory p | None \<Rightarrow> memory);
                   s2 = set_space i winner s1
               in if winner \<noteq> memory
                  then (Some False, spaces_notify (s2\<lparr>sp_dirty := set_remove i (sp_dirty s2)\<rparr>))
                  else let next = Json (stored_space_json memory);
                           keep = (if space_deleted (body memory) then removeItem (spaceBackupKey i)
                                   else if truthy raw \<and> parseStoredSpace raw \<noteq> None
                                   then setItem (spaceBackupKey i) (the raw)
                                   else setItem (spaceBackupKey i) next);
                           (s3, ok) = spaces_write_both keep (setItem (spaceRecordKey i) next) s2
                       in if ok then (Some True, s3\<lparr>sp_dirty := set_remove i (sp_dirty s3)\<rparr>)
                          else (None, s3)))"

fun spaces_flush_loop :: "string list \<Rightarrow> bool \<Rightarrow> spaces_store \<Rightarrow> bool \<times> spaces_store" where
  "spaces_flush_loop [] wrote s = (wrote, s)"
| "spaces_flush_loop (i # is) wrote s =
     (case spaces_flush_one i s of
        (None, s1) \<Rightarrow> (False, spaces_degrade s1)
      | (Some w, s1) \<Rightarrow> spaces_flush_loop is (wrote \<or> w) s1)"

definition spaces_flush :: "spaces_store \<Rightarrow> bool \<times> spaces_store" where
  "spaces_flush s =
     (if sp_storage s = None \<or> sp_dirty s = [] then (False, s) else spaces_flush_loop (sp_dirty s) False s)"

text \<open>The debounced flush.\<close>

definition spaces_timer_fired :: "spaces_store \<Rightarrow> spaces_store" where
  "spaces_timer_fired s = (if sp_timer s then snd (spaces_flush (s\<lparr>sp_timer := False\<rparr>)) else s)"

text \<open>A storage event of another tab: its key, its new value and whether it concerns this storage.\<close>

definition spaces_onEvent :: "string option \<Rightarrow> cell option \<Rightarrow> bool \<Rightarrow> spaces_store \<Rightarrow> spaces_store" where
  "spaces_onEvent key newValue same_area s =
     (case key of
        None \<Rightarrow> s
      | Some k \<Rightarrow>
          if \<not> sp_attached s \<or> \<not> starts_with spacesRecordPrefix k \<or> (sp_storage s \<noteq> None \<and> \<not> same_area) then s
          else case spaceRecordID k of
                 None \<Rightarrow> s
               | Some i \<Rightarrow>
                   (case spaces_recoverRecord i newValue s of
                      (None, s1) \<Rightarrow> s1
                    | (Some incoming, s1) \<Rightarrow>
                        let current = get (sp_records s1) i; winner = pick_newer current incoming
                        in if Some winner = current then s1
                           else let s2 = set_space i winner s1
                                in spaces_notify (s2\<lparr>sp_dirty := set_remove i (sp_dirty s2)\<rparr>)))"

definition spaces_pagehide :: "spaces_store \<Rightarrow> spaces_store" where
  "spaces_pagehide s = (if sp_attached s then snd (spaces_flush s) else s)"

subsection \<open>The interface\<close>

definition space_title :: "nat \<Rightarrow> string" where
  "space_title n = ''space '' @ digits n"

text \<open>Different numbers have different titles, so the search for an unused one ends.\<close>

lemma space_title_inj [simp]: "space_title m = space_title n \<longleftrightarrow> m = n"
  by (simp add: space_title_def)

lemma finite_titles: "finite {m. n \<le> m \<and> space_title m \<in> set used}"
proof -
  have "finite (space_title -` set used)"
    by (rule finite_vimageI) (auto intro: injI)
  then show ?thesis by (rule rev_finite_subset) auto
qed

function free_number :: "string list \<Rightarrow> nat \<Rightarrow> nat" where
  "free_number used n = (if space_title n \<in> set used then free_number used (n + 1) else n)"
  by pat_completeness auto
termination
proof (relation "measure (\<lambda>(used, n). card {m. n \<le> m \<and> space_title m \<in> set used})")
  show "((used, n + 1), (used, n)) \<in> measure (\<lambda>(used, n). card {m. n \<le> m \<and> space_title m \<in> set used})"
    if "space_title n \<in> set used" for used n
  proof -
    let ?above = "\<lambda>k. {m. k \<le> m \<and> space_title m \<in> set used}"
    have "n \<in> ?above n" "n \<notin> ?above (n + 1)" using that by simp_all
    moreover have "?above (n + 1) \<subseteq> ?above n" by auto
    ultimately have "?above (n + 1) \<subset> ?above n" by blast
    then have "card (?above (n + 1)) < card (?above n)" by (rule psubset_card_mono [OF finite_titles])
    then show ?thesis by simp
  qed
qed simp

declare free_number.simps [simp del]

definition next_order :: "spaces_config \<Rightarrow> spaces_store \<Rightarrow> num" where
  "next_order cfg s = js_add (fold max (map space_order (live_spaces cfg s)) (- 1)) 1"

definition space_names :: "spaces_store \<Rightarrow> string list" where
  "space_names s = map (space_name \<circ> body) (vals (sp_records s))"

definition create_space :: "spaces_config \<Rightarrow> env \<Rightarrow> spaces_store \<Rightarrow> SpaceDefinition outcome_of \<times> spaces_store" where
  "create_space cfg env s =
     (let space = \<lparr>space_id = ids env 0, space_name = space_title (free_number (space_names s) 2),
                   space_order = next_order cfg s, space_created = now env, space_updated = now env,
                   space_deleted = False\<rparr>
      in (Inr space, put_space \<lparr>writeID = ids env 1, body = space\<rparr> s))"

text \<open>\<open>Math.max(now(), current.record.updated + 1)\<close>.\<close>

definition bumped :: "env \<Rightarrow> SpaceDefinition \<Rightarrow> num" where
  "bumped env r = max (now env) (js_add (space_updated r) 1)"

definition rename_space :: "env \<Rightarrow> string \<Rightarrow> string \<Rightarrow> spaces_store \<Rightarrow> SpaceDefinition outcome_of \<times> spaces_store" where
  "rename_space env i name s =
     (let (current, s1) = spaces_reconcile i s
      in case current of
           None \<Rightarrow> (Inl ''This space is no longer open.'', s1)
         | Some r \<Rightarrow>
             if space_deleted (body r) then (Inl ''This space is no longer open.'', s1)
             else if js_trim name = [] then (Inl ''A space needs a name.'', s1)
             else let space = (body r)\<lparr>space_name := js_trim name, space_updated := bumped env (body r)\<rparr>
                  in (Inr space, put_space \<lparr>writeID = ids env 0, body = space\<rparr> s1))"

definition moved :: "nat \<Rightarrow> nat \<Rightarrow> 'a list \<Rightarrow> 'a list" where
  "moved src dst xs =
     (let rest = take src xs @ drop (Suc src) xs in take dst rest @ [xs ! src] @ drop dst rest)"

definition destination :: "int \<Rightarrow> nat \<Rightarrow> nat" where
  "destination target n = nat (max 0 (min target (int n - 1)))"

definition reordered :: "env \<Rightarrow> SpaceDefinition list \<Rightarrow> stored_space list" where
  "reordered env ordered =
     (let updated = fold max (map (\<lambda>r. js_add (space_updated r) 1) ordered) (now env)
      in map (\<lambda>k. \<lparr>writeID = ids env 0,
                   body = (ordered ! k)\<lparr>space_order := int k, space_updated := updated\<rparr>\<rparr>) [0..<length ordered])"

definition reconcile_all :: "string list \<Rightarrow> spaces_store \<Rightarrow> spaces_store" where
  "reconcile_all is s = fold (\<lambda>i s. snd (spaces_reconcile i s)) is s"

definition reorder_space ::
    "spaces_config \<Rightarrow> env \<Rightarrow> string \<Rightarrow> int \<Rightarrow> spaces_store \<Rightarrow> SpaceDefinition outcome_of \<times> spaces_store" where
  "reorder_space cfg env i target s =
     (let s1 = reconcile_all (map space_id (live_spaces cfg s)) s; ordered = live_spaces cfg s1
      in case find_index (\<lambda>r. space_id r = i) ordered of
           None \<Rightarrow> (Inl ''This space is no longer open.'', s1)
         | Some src \<Rightarrow>
             let dst = destination target (length ordered)
             in if dst = src then (Inr (ordered ! src), s1)
                else let batch = reordered env (moved src dst ordered)
                     in (Inr (body (batch ! dst)), spaces_putBatch batch s1))"

definition close_space :: "env \<Rightarrow> string \<Rightarrow> spaces_store \<Rightarrow> SpaceDefinition outcome_of \<times> spaces_store" where
  "close_space env i s =
     (let (current, s1) = spaces_reconcile i s
      in case current of
           None \<Rightarrow> (Inl ''This space is already closed.'', s1)
         | Some r \<Rightarrow>
             if space_deleted (body r) then (Inl ''This space is already closed.'', s1)
             else let space = (body r)\<lparr>space_deleted := True, space_updated := bumped env (body r)\<rparr>
                  in (Inr space, put_space \<lparr>writeID = ids env 0, body = space\<rparr> s1))"

definition reopen_space ::
    "spaces_config \<Rightarrow> env \<Rightarrow> string \<Rightarrow> spaces_store \<Rightarrow> SpaceDefinition outcome_of \<times> spaces_store" where
  "reopen_space cfg env i s =
     (let (current, s1) = spaces_reconcile i s
      in case current of
           None \<Rightarrow> (Inl ''This space is not recently closed.'', s1)
         | Some r \<Rightarrow>
             if \<not> space_deleted (body r) then (Inl ''This space is not recently closed.'', s1)
             else let space = (body r)\<lparr>space_deleted := False, space_order := next_order cfg s1,
                                       space_updated := bumped env (body r)\<rparr>
                  in (Inr space, put_space \<lparr>writeID = ids env 0, body = space\<rparr> s1))"

definition rollbackCreate :: "string \<Rightarrow> spaces_store \<Rightarrow> bool \<times> spaces_store" where
  "rollbackCreate i s =
     (case get (sp_records s) i of
        None \<Rightarrow> (False, s)
      | Some r \<Rightarrow>
          if space_deleted (body r) \<or> i \<notin> set (sp_dirty s) then (False, s)
          else let s1 = s\<lparr>sp_records := del i (sp_records s), sp_dirty := set_remove i (sp_dirty s)\<rparr>;
                   s2 = (if sp_dirty s1 = [] then s1\<lparr>sp_timer := False\<rparr> else s1)
               in (True, spaces_notify s2))"

definition all_spaces :: "spaces_store \<Rightarrow> stored_space list" where
  "all_spaces s = vals (sp_records s)"

definition merge_space :: "spaces_config \<Rightarrow> env \<Rightarrow> stored_space \<Rightarrow> bool \<times> spaces_store \<Rightarrow> bool \<times> spaces_store" where
  "merge_space cfg env r cs =
     (case cs of (changed, s) \<Rightarrow>
        let current = get (sp_records s) (skey r)
        in if (case current of Some c \<Rightarrow> compareStoredSpaceRecords r c \<le> 0 | None \<Rightarrow> False) then (changed, s)
           else if space_expired cfg env (body r)
           then (if current \<noteq> None then (True, spaces_drop (skey r) s) else (changed, s))
           else (True, set_dirty_space r s))"

definition merge_spaces :: "spaces_config \<Rightarrow> env \<Rightarrow> stored_space list \<Rightarrow> spaces_store \<Rightarrow> spaces_store" where
  "merge_spaces cfg env rs s =
     (let (changed, s1) = fold (merge_space cfg env) rs (False, s)
      in if changed then spaces_notify (spaces_scheduleFlush s1) else s1)"

definition forget_spaces :: "string list \<Rightarrow> spaces_store \<Rightarrow> spaces_store" where
  "forget_spaces is s =
     (let known = filter (\<lambda>i. get (sp_records s) i \<noteq> None) is; s1 = fold spaces_drop known s
      in if known \<noteq> [] then spaces_notify s1 else s1)"

definition spaces_subscribe :: "spaces_store \<Rightarrow> spaces_store" where
  "spaces_subscribe s = s\<lparr>sp_attached := True\<rparr>"

text \<open>The last subscriber leaves.\<close>

definition spaces_unsubscribe :: "spaces_store \<Rightarrow> spaces_store" where
  "spaces_unsubscribe s = s\<lparr>sp_attached := False\<rparr>"

definition spaces_dispose :: "spaces_store \<Rightarrow> spaces_store" where
  "spaces_dispose s = (snd (spaces_flush s))\<lparr>sp_timer := False, sp_attached := False\<rparr>"

end
