(* ===== verification/StoreKeys.thy ===== *)
theory StoreKeys
  imports StoreBase
begin

section \<open>A storage whose keys name their records\<close>

text \<open>
  A store writes the record of an id only under the keys of that id. A storage that only such stores
  write to is \<open>keyed_by\<close>: what a key holds, when it is readable, is a record of the id the key names.
  The locale states what the two families of keys need for that, and proves that the writes a store
  performs keep it.
\<close>

definition holds_only :: "(cell option \<Rightarrow> 'r option) \<Rightarrow> ('r \<Rightarrow> string) \<Rightarrow> string \<Rightarrow> cell option \<Rightarrow> bool" where
  "holds_only parse ident i c \<longleftrightarrow> (\<forall>r. parse c = Some r \<longrightarrow> ident r = i)"

definition names_id :: "string \<Rightarrow> string \<Rightarrow> string \<Rightarrow> string \<Rightarrow> bool" where
  "names_id rec bak k i \<longleftrightarrow>
     (starts_with rec k \<and> decodeURIComponent (drop (length rec) k) = Some i) \<or> k = key_of rec i \<or> k = key_of bak i"

definition keyed_by ::
    "(cell option \<Rightarrow> 'r option) \<Rightarrow> ('r \<Rightarrow> string) \<Rightarrow> string \<Rightarrow> string \<Rightarrow> storage \<Rightarrow> bool" where
  "keyed_by parse ident rec bak st \<longleftrightarrow>
     (\<forall>k i. names_id rec bak k i \<longrightarrow> holds_only parse ident i (get (items st) k))"

lemma names_id_keys [simp]: "names_id rec bak (key_of rec i) i" "names_id rec bak (key_of bak i) i"
  by (simp_all add: names_id_def)

lemma keyed_byD: "keyed_by parse ident rec bak st \<Longrightarrow> names_id rec bak k i \<Longrightarrow>
    holds_only parse ident i (get (items st) k)"
  by (simp add: keyed_by_def)

locale store_keys =
  fixes parse :: "cell option \<Rightarrow> 'r option" and ident :: "'r \<Rightarrow> string" and rec bak rcv :: string
  assumes parse_None [simp]: "parse None = None"
    and rec_bak: "\<not> starts_with rec (key_of bak i)"
    and rec_rcv: "\<not> starts_with rec (key_of rcv i)"
    and rcv_bak: "key_of rcv i \<noteq> key_of bak j"
begin

lemma rec_not_bak: "key_of rec i \<noteq> key_of bak j"
  using rec_bak [of j] by (metis key_of_starts)

lemma rec_not_rcv: "key_of rec i \<noteq> key_of rcv j"
  using rec_rcv [of j] by (metis key_of_starts)

lemma names_unique:
  "names_id rec bak (key_of rec i) j \<Longrightarrow> j = i" "names_id rec bak (key_of bak i) j \<Longrightarrow> j = i"
  "\<not> names_id rec bak (key_of rcv i) j"
  using rec_bak rec_rcv rcv_bak rec_not_bak rec_not_rcv
  by (auto simp: names_id_def key_of_def decodeURIComponent_def percent_decode_encode split: if_splits)
    (metis key_of_def)+

lemma write_keyed:
  assumes "keyed_by parse ident rec bak st" and "\<And>i. names_id rec bak k i \<Longrightarrow> holds_only parse ident i (Some c)"
  shows "keyed_by parse ident rec bak (fst (setItem k c st))"
  using setItem_items [of k c st] assms by (auto simp: keyed_by_def get_put)

lemma remove_keyed:
  assumes "keyed_by parse ident rec bak st"
  shows "keyed_by parse ident rec bak (fst (removeItem k st))"
  using removeItem_items [of k st] assms by (auto simp: keyed_by_def get_del holds_only_def split: if_splits)

lemma recovery_keyed:
  "keyed_by parse ident rec bak st \<Longrightarrow> keyed_by parse ident rec bak (fst (setItem (key_of rcv i) c st))"
  by (rule write_keyed) (simp_all add: names_unique)

lemma ids_under_named: "ki \<in> set (ids_under rec st) \<Longrightarrow> names_id rec bak (fst ki) (snd ki)"
  by (cases ki) (simp add: ids_under_in names_id_def)

end

end
