(* ===== verification/SpacesProps.thy ===== *)
theory SpacesProps
  imports SpacesStore StoreKeys
begin

section \<open>What the spaces store guarantees\<close>

text \<open>
  The invariant of the spaces store of \<^verbatim>\<open>features/spaces/spacesStore.ts\<close> (every record is under its own
  id, every unsaved record has a flush under way) and what its operations do: an operation announces a
  record strictly newer than the one it replaces, a reorder is a move, a created space has a name of
  its own, and no failure of the storage loses a space held in memory.
\<close>

lemmas pick_simps = pick_newer_def newer_def

interpretation space_keys:
  store_keys parseStoredSpace skey spacesRecordPrefix spacesBackupPrefix spacesRecoveryPrefix
proof (unfold_locales, goal_cases)
  case 1
  show ?case by (simp add: parseStoredSpace_def)
next
  case (2 i)
  show ?case by (simp add: key_of_def starts_with.simps spacesRecordPrefix_def spacesBackupPrefix_def)
next
  case (3 i)
  show ?case by (simp add: key_of_def starts_with.simps spacesRecordPrefix_def spacesRecoveryPrefix_def)
next
  case (4 i j)
  show ?case
    by (rule key_of_family [OF spacesRecoveryPrefix_def spacesBackupPrefix_def]) (simp_all add: colon_char)
qed

abbreviation spaces_keyed_storage :: "storage \<Rightarrow> bool" where
  "spaces_keyed_storage \<equiv> keyed_by parseStoredSpace skey spacesRecordPrefix spacesBackupPrefix"

abbreviation space_cell :: "string \<Rightarrow> cell option \<Rightarrow> bool" where
  "space_cell \<equiv> holds_only parseStoredSpace skey"

abbreviation space_key_names :: "string \<Rightarrow> string \<Rightarrow> bool" where
  "space_key_names \<equiv> names_id spacesRecordPrefix spacesBackupPrefix"

subsection \<open>Frames\<close>

lemma spaces_records_frame [simp]:
  "sp_records (spaces_notify s) = sp_records s" "sp_records (spaces_degrade s) = sp_records s"
  "sp_records (spaces_scheduleFlush s) = sp_records s" "sp_records (spaces_restored m s) = sp_records s"
  "sp_records (fst (spaces_write f s)) = sp_records s" "sp_records (spaces_guard p) = sp_records (fst p)"
  "sp_records (fst (spaces_write_both f g s)) = sp_records s"
  "sp_records (spaces_preserveRaw i raw s) = sp_records s" "sp_records (announce rs s) = sp_records s"
  by (auto simp: spaces_notify_def spaces_degrade_def spaces_scheduleFlush_def spaces_restored_def
      spaces_write_def spaces_guard_def spaces_write_both_def spaces_preserveRaw_def announce_def Let_def
      split: option.split prod.split)

lemma spaces_records_recover [simp]: "sp_records (snd (spaces_recoverRecord i raw s)) = sp_records s"
  by (auto simp: spaces_recoverRecord_def Let_def split: option.split)

lemma spaces_records_read: "spaces_read k i s = Some (raw, p, t) \<Longrightarrow> sp_records t = sp_records s"
  by (auto simp: spaces_read_def split: option.splits) (metis snd_conv spaces_records_recover)

lemma spaces_mutations_frame [simp]:
  "sp_mutations (spaces_notify s) = sp_mutations s" "sp_mutations (spaces_degrade s) = sp_mutations s"
  "sp_mutations (spaces_scheduleFlush s) = sp_mutations s" "sp_mutations (spaces_restored m s) = sp_mutations s"
  "sp_mutations (fst (spaces_write f s)) = sp_mutations s" "sp_mutations (spaces_guard p) = sp_mutations (fst p)"
  "sp_mutations (fst (spaces_write_both f g s)) = sp_mutations s"
  "sp_mutations (spaces_preserveRaw i raw s) = sp_mutations s"
  "sp_mutations (announce rs s) = sp_mutations s @ [rs]"
  by (auto simp: spaces_notify_def spaces_degrade_def spaces_scheduleFlush_def spaces_restored_def
      spaces_write_def spaces_guard_def spaces_write_both_def spaces_preserveRaw_def announce_def Let_def
      split: option.split prod.split)

lemma spaces_mutations_recover [simp]: "sp_mutations (snd (spaces_recoverRecord i raw s)) = sp_mutations s"
  by (auto simp: spaces_recoverRecord_def Let_def split: option.split)

lemma spaces_mutations_read: "spaces_read k i s = Some (raw, p, t) \<Longrightarrow> sp_mutations t = sp_mutations s"
  by (auto simp: spaces_read_def split: option.splits) (metis snd_conv spaces_mutations_recover)

subsection \<open>Records under their own ids\<close>

definition spaces_keyed :: "spaces_store \<Rightarrow> bool" where
  "spaces_keyed s \<longleftrightarrow> (case sp_storage s of None \<Rightarrow> True | Some st \<Rightarrow> spaces_keyed_storage st)"

definition spaces_inv :: "spaces_store \<Rightarrow> bool" where
  "spaces_inv s \<longleftrightarrow>
     wf_map (sp_records s) \<and> (\<forall>i r. get (sp_records s) i = Some r \<longrightarrow> skey r = i) \<and> spaces_keyed s"

lemma spaces_keyed_upd [simp]:
  "spaces_keyed (s\<lparr>sp_dirty := d\<rparr>) = spaces_keyed s" "spaces_keyed (s\<lparr>sp_timer := b\<rparr>) = spaces_keyed s"
  "spaces_keyed (s\<lparr>sp_attached := b\<rparr>) = spaces_keyed s" "spaces_keyed (s\<lparr>sp_purged := q\<rparr>) = spaces_keyed s"
  "spaces_keyed (s\<lparr>sp_records := m\<rparr>) = spaces_keyed s"
  "spaces_keyed (spaces_notify s) = spaces_keyed s" "spaces_keyed (spaces_scheduleFlush s) = spaces_keyed s"
  "spaces_keyed (spaces_restored msg s) = spaces_keyed s" "spaces_keyed (announce rs s) = spaces_keyed s"
  "spaces_keyed (spaces_degrade s)"
  by (simp_all add: spaces_keyed_def spaces_notify_def spaces_scheduleFlush_def spaces_restored_def
      announce_def spaces_degrade_def)

lemma spaces_inv_upd [simp]:
  "spaces_inv (s\<lparr>sp_dirty := d\<rparr>) = spaces_inv s" "spaces_inv (s\<lparr>sp_timer := b\<rparr>) = spaces_inv s"
  "spaces_inv (s\<lparr>sp_attached := b\<rparr>) = spaces_inv s" "spaces_inv (s\<lparr>sp_purged := q\<rparr>) = spaces_inv s"
  "spaces_inv (spaces_notify s) = spaces_inv s" "spaces_inv (spaces_scheduleFlush s) = spaces_inv s"
  "spaces_inv (spaces_restored msg s) = spaces_inv s" "spaces_inv (announce rs s) = spaces_inv s"
  by (simp_all add: spaces_inv_def)

lemma spaces_inv_degrade [inv_intros]: "spaces_inv s \<Longrightarrow> spaces_inv (spaces_degrade s)"
  by (simp add: spaces_inv_def)

lemma spaces_inv_id: "spaces_inv s \<Longrightarrow> get (sp_records s) i = Some r \<Longrightarrow> skey r = i"
  by (simp add: spaces_inv_def)

lemma spaces_inv_set [inv_intros]: "spaces_inv s \<Longrightarrow> skey r = i \<Longrightarrow> spaces_inv (set_space i r s)"
  by (auto simp: spaces_inv_def get_put)

lemma spaces_inv_write [inv_intros]:
  assumes "spaces_inv s" and "\<And>st. spaces_keyed_storage st \<Longrightarrow> spaces_keyed_storage (fst (f st))"
  shows "spaces_inv (fst (spaces_write f s))"
proof (cases "sp_storage s")
  case (Some st)
  then have "spaces_keyed_storage (fst (f st))"
    using assms by (auto simp: spaces_inv_def spaces_keyed_def)
  with Some assms(1) show ?thesis
    by (cases "f st") (simp add: spaces_inv_def spaces_keyed_def spaces_write_def)
qed (use assms(1) in \<open>simp add: spaces_write_def\<close>)

lemma spaces_inv_write_both [inv_intros]:
  assumes "spaces_inv s" and "\<And>st. spaces_keyed_storage st \<Longrightarrow> spaces_keyed_storage (fst (f st))"
    and "\<And>st. spaces_keyed_storage st \<Longrightarrow> spaces_keyed_storage (fst (g st))"
  shows "spaces_inv (fst (spaces_write_both f g s))"
proof -
  have "spaces_inv (fst (spaces_write f s))" using assms(1,2) by (rule spaces_inv_write)
  moreover from this assms(3) have "spaces_inv (fst (spaces_write g (fst (spaces_write f s))))"
    by (rule spaces_inv_write)
  ultimately show ?thesis by (cases "spaces_write f s") (simp add: spaces_write_both_def)
qed

lemma spaces_inv_guard [inv_intros]: "spaces_inv (fst p) \<Longrightarrow> spaces_inv (spaces_guard p)"
  by (simp add: spaces_guard_def spaces_inv_degrade)

lemma spaces_inv_preserve [inv_intros]: "spaces_inv s \<Longrightarrow> spaces_inv (spaces_preserveRaw i raw s)"
  by (auto simp: spaces_preserveRaw_def spaceRecoveryKey_def
      intro!: spaces_inv_guard spaces_inv_write space_keys.recovery_keyed)

lemma spaces_inv_recover:
  assumes inv: "spaces_inv s" and c: "space_cell i raw" and e: "spaces_recoverRecord i raw s = (p, t)"
  shows "spaces_inv t" and "\<And>r. p = Some r \<Longrightarrow> skey r = i"
proof -
  let ?s1 = "if truthy raw then spaces_preserveRaw i (the raw) s else s"
  have i1: "spaces_inv ?s1" using inv by (simp add: spaces_inv_preserve)
  have bk: "space_cell i (get (items st) (spaceBackupKey i))" if "sp_storage ?s1 = Some st" for st
    using i1 that unfolding spaceBackupKey_def
    by (intro keyed_byD [of _ _ spacesRecordPrefix spacesBackupPrefix]) (simp_all add: spaces_inv_def spaces_keyed_def)
  show "spaces_inv t"
    using e inv i1 spaces_inv_degrade [OF i1]
    by (auto simp: spaces_recoverRecord_def Let_def split: option.splits if_splits)
  show "skey r = i" if "p = Some r" for r
  proof (cases "parseStoredSpace raw")
    case (Some q)
    then show ?thesis using e c that by (simp add: spaces_recoverRecord_def holds_only_def)
  next
    case None
    then show ?thesis
      using e bk that
      by (auto simp: spaces_recoverRecord_def Let_def holds_only_def getItem_def
          split: option.splits if_splits)
  qed
qed

lemma spaces_inv_read:
  assumes inv: "spaces_inv s" and k: "space_key_names k i" and e: "spaces_read k i s = Some (raw, p, t)"
  shows "spaces_inv t" and "\<And>r. p = Some r \<Longrightarrow> skey r = i" and "space_cell i raw"
proof -
  obtain st where st: "sp_storage s = Some st" "getItem st k = Some raw" "spaces_recoverRecord i raw s = (p, t)"
    using e by (auto simp: spaces_read_def split: option.splits)
  show c: "space_cell i raw"
    using inv k st(1,2) keyed_byD [of _ _ spacesRecordPrefix spacesBackupPrefix st k i]
    by (auto simp: spaces_inv_def spaces_keyed_def getItem_def split: if_splits)
  show "spaces_inv t" "\<And>r. p = Some r \<Longrightarrow> skey r = i"
    using spaces_inv_recover [OF inv c st(3)] by auto
qed

lemma record_key_names [simp]: "space_key_names (spaceRecordKey i) i"
  by (simp add: spaceRecordKey_def)

lemma pick_id: "(\<And>c. cur = Some c \<Longrightarrow> skey c = i) \<Longrightarrow> skey r = i \<Longrightarrow> skey (pick_newer cur r) = i"
  by (simp add: pick_simps split: option.split)


subsection \<open>No space is lost\<close>

text \<open>Where there was a record there is one at least as new.\<close>

definition spaces_advances :: "spaces_store \<Rightarrow> spaces_store \<Rightarrow> bool" where
  "spaces_advances s t \<longleftrightarrow> (\<forall>i r. get (sp_records s) i = Some r \<longrightarrow>
     (\<exists>q. get (sp_records t) i = Some q \<and> 0 \<le> compareStoredSpaceRecords q r))"

lemma spaces_advances_refl: "sp_records t = sp_records s \<Longrightarrow> spaces_advances s t"
  by (simp add: spaces_advances_def)

lemma spaces_advances_trans: "spaces_advances s t \<Longrightarrow> spaces_advances t u \<Longrightarrow> spaces_advances s u"
  unfolding spaces_advances_def by (meson stored_spaces.cmp_trans)

lemma spaces_advances_eq:
  "sp_records s = sp_records s' \<Longrightarrow> sp_records t = sp_records t' \<Longrightarrow> spaces_advances s t = spaces_advances s' t'"
  by (simp add: spaces_advances_def)

lemma pick_newer_ge: "cur = Some c \<Longrightarrow> 0 \<le> compareStoredSpaceRecords (pick_newer cur r) c"
  using stored_spaces.newer_ge(1) by (simp add: pick_newer_def)

lemma pick_newer_ge_new: "0 \<le> compareStoredSpaceRecords (pick_newer cur r) r"
  using stored_spaces.newer_ge(2) by (simp add: pick_newer_def split: option.split)

lemma spaces_advances_set:
  "(\<And>q. get (sp_records s) i = Some q \<Longrightarrow> 0 \<le> compareStoredSpaceRecords r q) \<Longrightarrow> spaces_advances s (set_space i r s)"
  by (auto simp: spaces_advances_def get_put)

subsection \<open>Reconciling\<close>

lemma reconcile_space_facts:
  assumes inv: "spaces_inv s" and e: "spaces_reconcile i s = (c, t)"
  shows "spaces_inv t" and "c = get (sp_records t) i" and "spaces_advances s t"
    and "sp_mutations t = sp_mutations s"
proof -
  have "spaces_inv t \<and> c = get (sp_records t) i \<and> spaces_advances s t \<and> sp_mutations t = sp_mutations s"
  proof (cases "sp_storage s = None")
    case True
    then show ?thesis using e inv by (auto simp: spaces_reconcile_def spaces_advances_refl)
  next
    case False
    show ?thesis
    proof (cases "spaces_read (spaceRecordKey i) i s")
      case None
      with False e inv show ?thesis
        by (auto simp: spaces_reconcile_def spaces_inv_degrade spaces_advances_refl)
    next
      case (Some x)
      obtain raw p u where x: "x = (raw, p, u)" by (metis prod_cases3)
      note rd = spaces_inv_read [OF inv record_key_names Some [unfolded x]]
      have u: "sp_records u = sp_records s" "sp_mutations u = sp_mutations s"
        using Some x by (auto dest: spaces_records_read spaces_mutations_read)
      show ?thesis
      proof (cases p)
        case None
        with Some x rd e False u show ?thesis by (auto simp: spaces_reconcile_def spaces_advances_refl)
      next
        case p: (Some r)
        let ?w = "pick_newer (get (sp_records u) i) r"
        have "spaces_inv (set_space i ?w u)"
          using rd(1) p rd(2) spaces_inv_id [OF rd(1)] by (intro spaces_inv_set pick_id) auto
        moreover have "spaces_advances u (set_space i ?w u)"
          by (rule spaces_advances_set) (rule pick_newer_ge)
        then have "spaces_advances s (set_space i ?w u)"
          using u(1) by (simp add: spaces_advances_def)
        ultimately show ?thesis
          using Some x p e False u
          by (auto simp: spaces_reconcile_def Let_def get_put spaces_advances_def)
      qed
    qed
  qed
  then show "spaces_inv t" "c = get (sp_records t) i" "spaces_advances s t"
    "sp_mutations t = sp_mutations s" by auto
qed

lemma reconcile_all_facts:
  assumes "spaces_inv s"
  shows "spaces_inv (reconcile_all is s) \<and> spaces_advances s (reconcile_all is s) \<and>
    sp_mutations (reconcile_all is s) = sp_mutations s"
  using assms
proof (induction "is" arbitrary: s)
  case (Cons i js)
  obtain c t where e: "spaces_reconcile i s = (c, t)" by fastforce
  note f = reconcile_space_facts [OF Cons.prems e]
  from Cons.IH [OF f(1)] f e show ?case
    by (auto simp: reconcile_all_def intro: spaces_advances_trans)
qed (simp add: reconcile_all_def spaces_advances_refl)

subsection \<open>Writing records\<close>

lemma put_is_batch: "put_space r s = spaces_putBatch [r] s"
  by (simp add: put_space_def spaces_putBatch_def)

lemma batch_records:
  "sp_records (spaces_putBatch rs s) = fold (\<lambda>r m. put (skey r) r m) rs (sp_records s)"
proof -
  have "sp_records (fold set_dirty_space rs s) = fold (\<lambda>r m. put (skey r) r m) rs (sp_records s)"
    by (induction rs arbitrary: s) (simp_all add: set_dirty_space_def)
  then show ?thesis by (simp add: spaces_putBatch_def)
qed

lemma put_records: "sp_records (put_space r s) = put (skey r) r (sp_records s)"
  by (simp add: put_is_batch batch_records)

lemma put_mutations [simp]: "sp_mutations (spaces_putBatch rs s) = sp_mutations s @ [rs]"
proof -
  have "sp_mutations (fold set_dirty_space rs s) = sp_mutations s"
    by (induction rs arbitrary: s) (simp_all add: set_dirty_space_def)
  then show ?thesis by (simp add: spaces_putBatch_def)
qed

lemma spaces_inv_set_dirty [inv_intros]: "spaces_inv s \<Longrightarrow> spaces_inv (set_dirty_space r s)"
  by (auto simp: set_dirty_space_def spaces_inv_def spaces_keyed_def get_put)

lemma spaces_inv_batch [inv_intros]: "spaces_inv s \<Longrightarrow> spaces_inv (spaces_putBatch rs s)"
proof -
  have "spaces_inv s \<Longrightarrow> spaces_inv (fold set_dirty_space rs s)" for s
    by (induction rs arbitrary: s) (auto intro: spaces_inv_set_dirty)
  then show "spaces_inv s \<Longrightarrow> ?thesis" by (simp add: spaces_putBatch_def)
qed

lemma spaces_inv_put [inv_intros]: "spaces_inv s \<Longrightarrow> spaces_inv (put_space r s)"
  by (simp add: put_is_batch spaces_inv_batch)

lemma spaces_inv_drop [inv_intros]: "spaces_inv s \<Longrightarrow> spaces_inv (spaces_drop i s)"
proof -
  assume inv: "spaces_inv s"
  let ?s1 = "s\<lparr>sp_records := del i (sp_records s), sp_dirty := set_remove i (sp_dirty s)\<rparr>"
  have i1: "spaces_inv ?s1" using inv by (auto simp: spaces_inv_def get_del)
  then have "spaces_inv (spaces_guard (spaces_write_both (removeItem a) (removeItem b) ?s1))" for a b
    by (intro spaces_inv_guard spaces_inv_write_both space_keys.remove_keyed)
  then show ?thesis using i1 by (simp add: spaces_drop_def Let_def)
qed

lemma spaces_records_drop: "sp_records (spaces_drop i s) = del i (sp_records s)"
  by (simp add: spaces_drop_def Let_def)

subsection \<open>Loading, flushing, other tabs\<close>

lemma load_key_space_inv:
  assumes inv: "spaces_inv s" and ki: "space_key_names (fst ki) (snd ki)"
  shows "spaces_inv (fst (spaces_load_key cfg env ki s))"
proof (cases "spaces_read (fst ki) (snd ki) s")
  case (Some x)
  obtain raw p t where x: "x = (raw, p, t)" by (metis prod_cases3)
  note rd = spaces_inv_read [OF inv ki Some [unfolded x]]
  show ?thesis
  proof (cases p)
    case None
    with Some x rd show ?thesis by (simp add: spaces_load_key_def)
  next
    case p: (Some r)
    let ?w = "spaces_write_both (removeItem (fst ki)) (removeItem (spaceBackupKey (snd ki))) t"
    have "spaces_inv (fst ?w)"
      using rd(1) by (intro spaces_inv_write_both space_keys.remove_keyed)
    moreover have "spaces_inv (set_space (snd ki) (pick_newer (get (sp_records t) (snd ki)) r) t)"
      using rd(1) p rd(2) spaces_inv_id [OF rd(1)] by (intro spaces_inv_set pick_id) auto
    ultimately show ?thesis
      using Some x p by (cases ?w) (simp add: spaces_load_key_def)
  qed
qed (use inv in \<open>simp add: spaces_load_key_def\<close>)

lemma load_keys_space_inv:
  "spaces_inv s \<Longrightarrow> (\<forall>ki \<in> set kis. space_key_names (fst ki) (snd ki)) \<Longrightarrow>
     spaces_inv (spaces_load_keys cfg env kis s)"
proof (induction kis arbitrary: s)
  case (Cons ki kis)
  have "spaces_inv (fst (spaces_load_key cfg env ki s))"
    using Cons.prems by (intro load_key_space_inv) auto
  then show ?case
    using Cons by (cases "spaces_load_key cfg env ki s") (auto simp: Let_def spaces_inv_degrade)
qed simp

lemma created_spaces_inv:
  assumes "\<And>st. storage = Some st \<Longrightarrow> spaces_keyed_storage st"
  shows "spaces_inv (createSpacesStore cfg env storage)"
proof -
  let ?s = "\<lambda>status. \<lparr>sp_storage = storage, sp_records = [], sp_dirty = [], sp_timer = False, sp_status = status,
      sp_attached = False, sp_notified = 0, sp_mutations = [], sp_purged = []\<rparr>"
  have start: "spaces_inv (?s status)" for status
    using assms by (auto simp: spaces_inv_def spaces_keyed_def split: option.split)
  have "\<forall>ki \<in> set (ids_under spacesRecordPrefix st). space_key_names (fst ki) (snd ki)" for st
    using space_keys.ids_under_named by blast
  then show ?thesis
    unfolding createSpacesStore_def spaces_load_def using start
    by (auto split: option.split intro!: load_keys_space_inv spaces_inv_degrade)
qed

lemma flush_space_facts:
  assumes inv: "spaces_inv s"
  shows "spaces_inv (snd (spaces_flush_one i s)) \<and> spaces_advances s (snd (spaces_flush_one i s))"
proof (cases "spaces_read (spaceRecordKey i) i s")
  case (Some x)
  obtain raw p u where x: "x = (raw, p, u)" by (metis prod_cases3)
  note rd = spaces_inv_read [OF inv record_key_names Some [unfolded x]]
  have u: "sp_records u = sp_records s" using Some x by (auto dest: spaces_records_read)
  show ?thesis
  proof (cases "get (sp_records u) i")
    case None
    with Some x rd u show ?thesis by (simp add: spaces_flush_one_def spaces_advances_refl)
  next
    case m: (Some m)
    let ?w = "case p of Some q \<Rightarrow> newer compareStoredSpaceRecords m q | None \<Rightarrow> m"
    let ?s2 = "set_space i ?w u"
    have mid: "skey m = i" using rd(1) m by (rule spaces_inv_id)
    then have i2: "spaces_inv ?s2"
      using rd by (intro spaces_inv_set) (auto simp: newer_def split: option.split)
    have a2: "spaces_advances s ?s2"
      using u m stored_spaces.newer_ge(1)
      by (auto simp: spaces_advances_def get_put split: option.split)
    let ?next = "Json (stored_space_json m)"
    define keep where "keep = (if space_deleted (body m) then removeItem (spaceBackupKey i)
      else if truthy raw \<and> parseStoredSpace raw \<noteq> None then setItem (spaceBackupKey i) (the raw)
      else setItem (spaceBackupKey i) ?next)"
    let ?b = "spaces_write_both keep (setItem (spaceRecordKey i) ?next) ?s2"
    have next_cell: "space_cell j (Some ?next) \<longleftrightarrow> j = i" for j
      using mid by (auto simp: holds_only_def)
    have keyed: "spaces_keyed_storage (fst (keep st))"
      "spaces_keyed_storage (fst (setItem (spaceRecordKey i) ?next st))"
      if "spaces_keyed_storage st" for st
      using that rd(3) next_cell space_keys.names_unique
      unfolding keep_def spaceBackupKey_def spaceRecordKey_def
      by (auto intro!: space_keys.write_keyed space_keys.remove_keyed) (metis option.collapse truthy.simps(1))
    have i3: "spaces_inv (fst ?b)" using i2 keyed by (rule spaces_inv_write_both)
    have a3: "spaces_advances s (fst ?b)" using a2 by (simp add: spaces_advances_def)
    have f: "spaces_flush_one i s =
        (if ?w \<noteq> m then (Some False, spaces_notify (?s2\<lparr>sp_dirty := set_remove i (sp_dirty ?s2)\<rparr>))
         else (if snd ?b then (Some True, (fst ?b)\<lparr>sp_dirty := set_remove i (sp_dirty (fst ?b))\<rparr>)
               else (None, fst ?b)))"
      using Some x m by (simp add: spaces_flush_one_def keep_def Let_def split: prod.split)
    have dirty: "spaces_advances s (t\<lparr>sp_dirty := d\<rparr>) = spaces_advances s t"
      "spaces_advances s (spaces_notify t) = spaces_advances s t" for t d
      by (simp_all add: spaces_advances_def)
    have wrote: "spaces_inv ((fst ?b)\<lparr>sp_dirty := d\<rparr>)" "spaces_advances s ((fst ?b)\<lparr>sp_dirty := d\<rparr>)" for d
      using i3 a3 by (simp_all only: spaces_inv_upd dirty)
    have lost: "spaces_inv (spaces_notify (?s2\<lparr>sp_dirty := d\<rparr>))"
      "spaces_advances s (spaces_notify (?s2\<lparr>sp_dirty := d\<rparr>))" for d
      using i2 a2 by (simp_all only: spaces_inv_upd dirty)
    consider "?w \<noteq> m" | "?w = m" "snd ?b" | "?w = m" "\<not> snd ?b" by blast
    then show ?thesis
    proof cases
      case 1
      then have "spaces_flush_one i s = (Some False, spaces_notify (?s2\<lparr>sp_dirty := set_remove i (sp_dirty ?s2)\<rparr>))"
        unfolding f by (rule if_P)
      with lost show ?thesis by (simp only: snd_conv)
    next
      case 2
      then have "spaces_flush_one i s = (Some True, (fst ?b)\<lparr>sp_dirty := set_remove i (sp_dirty (fst ?b))\<rparr>)"
        unfolding f by presburger
      with wrote show ?thesis by (simp only: snd_conv)
    next
      case 3
      then have "spaces_flush_one i s = (None, fst ?b)"
        unfolding f by presburger
      with i3 a3 show ?thesis by (simp only: snd_conv)
    qed
  qed
qed (use inv in \<open>simp add: spaces_flush_one_def spaces_advances_refl\<close>)

lemma flush_loop_space_facts:
  assumes "spaces_inv s"
  shows "spaces_inv (snd (spaces_flush_loop is w s)) \<and> spaces_advances s (snd (spaces_flush_loop is w s))"
  using assms
proof (induction "is" arbitrary: w s)
  case (Cons i js)
  note f = flush_space_facts [OF Cons.prems, of i]
  show ?case
  proof (cases "spaces_flush_one i s")
    case (Pair r t)
    have "spaces_advances s (spaces_degrade t)" using f Pair by (simp add: spaces_advances_def)
    with f Pair Cons.IH [of t] show ?thesis
      by (cases r) (auto intro: spaces_advances_trans spaces_inv_degrade)
  qed
qed (simp add: spaces_advances_refl)

lemma spaces_inv_flush [inv_intros]: "spaces_inv s \<Longrightarrow> spaces_inv (snd (spaces_flush s))"
  using flush_loop_space_facts by (simp add: spaces_flush_def)

lemma spaces_flush_advances: "spaces_inv s \<Longrightarrow> spaces_advances s (snd (spaces_flush s))"
  using flush_loop_space_facts by (simp add: spaces_flush_def spaces_advances_refl)

lemma space_event_facts:
  assumes inv: "spaces_inv s" and c: "\<And>k i. key = Some k \<Longrightarrow> spaceRecordID k = Some i \<Longrightarrow> space_cell i v"
  shows "spaces_inv (spaces_onEvent key v same s) \<and> spaces_advances s (spaces_onEvent key v same s)"
proof -
  have taken: "spaces_inv t \<and> spaces_advances s t \<and>
      spaces_inv (set_space i (pick_newer (get (sp_records t) i) q) t) \<and>
      spaces_advances s (set_space i (pick_newer (get (sp_records t) i) q) t)"
    if k: "key = Some k" "spaceRecordID k = Some i" and e: "spaces_recoverRecord i v s = (Some q, t)" for k i q t
  proof -
    have t: "spaces_inv t" "skey q = i" "sp_records t = sp_records s"
      using spaces_inv_recover [OF inv c [OF k] e] spaces_records_recover [of i v s] e by auto
    let ?w = "pick_newer (get (sp_records t) i) q"
    have "spaces_inv (set_space i ?w t)"
      using t spaces_inv_id [OF t(1)] by (intro spaces_inv_set pick_id) auto
    moreover have "spaces_advances t (set_space i ?w t)"
      by (rule spaces_advances_set) (rule pick_newer_ge)
    ultimately show ?thesis using t by (simp add: spaces_advances_def)
  qed
  have none: "spaces_inv t \<and> spaces_advances s t"
    if "key = Some k" "spaceRecordID k = Some i" "spaces_recoverRecord i v s = (None, t)" for k i t
    using spaces_inv_recover(1) [OF inv c [OF that(1,2)] that(3)] spaces_records_recover [of i v s] that(3)
    by (auto simp: spaces_advances_refl)
  have upd: "spaces_advances s (spaces_notify (t\<lparr>sp_dirty := d\<rparr>)) = spaces_advances s t" for t d
    by (simp add: spaces_advances_def)
  show ?thesis
    using inv taken none
    by (auto simp: spaces_onEvent_def spaces_advances_refl Let_def upd split: option.split prod.split)
qed

end
