(* ===== verification/SpacesOps.thy ===== *)
theory SpacesOps
  imports SpacesProps
begin

section \<open>The states the spaces store reaches\<close>

text \<open>
  The operations of \<^verbatim>\<open>features/spaces/spacesStore.ts\<close> as one step function, the states a store
  reaches by them, and the two invariants of those states: records under their own ids, and a flush
  under way for every unsaved record.
\<close>

subsection \<open>Unsaved records\<close>

definition unsaved_scheduled :: "spaces_store \<Rightarrow> bool" where
  "unsaved_scheduled s \<longleftrightarrow> (sp_storage s \<noteq> None \<and> sp_dirty s \<noteq> [] \<longrightarrow> sp_timer s)"

text \<open>A step that adds nothing unsaved and leaves the timer, unless it gives the storage up.\<close>

definition calm :: "spaces_store \<Rightarrow> spaces_store \<Rightarrow> bool" where
  "calm s t \<longleftrightarrow> sp_storage t = None \<or>
     (sp_storage s \<noteq> None \<and> sp_timer t = sp_timer s \<and> set (sp_dirty t) \<subseteq> set (sp_dirty s))"

lemma calm_refl [simp]: "calm s s"
  by (auto simp: calm_def)

lemma calm_trans: "calm s t \<Longrightarrow> calm t u \<Longrightarrow> calm s u"
  by (auto simp: calm_def)

lemma calm_scheduled: "calm s t \<Longrightarrow> unsaved_scheduled s \<Longrightarrow> unsaved_scheduled t"
  by (auto simp: calm_def unsaved_scheduled_def)

lemma calm_degrade [simp]: "calm s (spaces_degrade t)"
  by (simp add: calm_def spaces_degrade_def spaces_notify_def)

lemma calm_upd [simp]:
  "calm s (spaces_notify t) = calm s t" "calm s (spaces_restored m t) = calm s t"
  "calm s (t\<lparr>sp_records := x\<rparr>) = calm s t" "calm s (t\<lparr>sp_purged := y\<rparr>) = calm s t"
  by (simp_all add: calm_def spaces_notify_def spaces_restored_def)

lemma calm_undirty: "calm s t \<Longrightarrow> calm s (t\<lparr>sp_dirty := set_remove i (sp_dirty t)\<rparr>)"
  by (auto simp: calm_def)

lemma calm_replace: "calm s t \<Longrightarrow> calm s (t\<lparr>sp_records := m, sp_dirty := set_remove i (sp_dirty t)\<rparr>)"
  by (auto simp: calm_def)

lemma calm_write: "calm s (fst (spaces_write f s))"
  by (auto simp: calm_def spaces_write_def split: option.split prod.split)

lemma calm_write_both: "calm s (fst (spaces_write_both f g s))"
proof (cases "spaces_write f s")
  case (Pair t ok)
  have "calm s t" using calm_write [of s f] Pair by simp
  moreover have "calm t (fst (spaces_write g t))" by (rule calm_write)
  ultimately show ?thesis using Pair by (auto simp: spaces_write_both_def intro: calm_trans)
qed

lemma calm_guard: "calm s (fst p) \<Longrightarrow> calm s (spaces_guard p)"
  by (simp add: spaces_guard_def)

lemma calm_recover: "calm s (snd (spaces_recoverRecord i raw s))"
proof -
  have "calm s (if truthy raw then spaces_preserveRaw i (the raw) s else s)"
    by (auto simp: spaces_preserveRaw_def intro: calm_guard calm_write)
  then show ?thesis
    by (auto simp: spaces_recoverRecord_def Let_def split: option.split)
qed

lemma calm_read: "spaces_read k i s = Some (raw, p, t) \<Longrightarrow> calm s t"
  by (auto simp: spaces_read_def split: option.splits) (metis calm_recover snd_conv)

lemma calm_reconcile: "calm s (snd (spaces_reconcile i s))"
proof (cases "spaces_read (spaceRecordKey i) i s")
  case (Some x)
  obtain raw p u where x: "x = (raw, p, u)" by (metis prod_cases3)
  with Some have "calm s u" by (auto dest: calm_read)
  with Some x show ?thesis
    by (cases p) (auto simp: spaces_reconcile_def Let_def)
qed (simp add: spaces_reconcile_def)

lemma calm_reconcile_all: "calm s (reconcile_all is s)"
  by (induction "is" arbitrary: s)
    (auto simp: reconcile_all_def intro: calm_trans [OF calm_reconcile])

lemma calm_drop: "calm s (spaces_drop i s)"
proof -
  let ?s1 = "s\<lparr>sp_records := del i (sp_records s), sp_dirty := set_remove i (sp_dirty s)\<rparr>"
  have "calm s ?s1" by (auto simp: calm_def)
  moreover have "calm ?s1 (spaces_guard (spaces_write_both f g ?s1))" for f g
    by (rule calm_guard) (rule calm_write_both)
  ultimately have "calm s (spaces_guard (spaces_write_both f g ?s1))" for f g
    by (rule calm_trans)
  with \<open>calm s ?s1\<close> show ?thesis by (simp add: spaces_drop_def Let_def)
qed

lemma calm_fold_drop: "calm s (fold spaces_drop is s)"
  by (induction "is" arbitrary: s) (auto intro: calm_trans [OF calm_drop])

lemma calm_event: "calm s (spaces_onEvent key v same s)"
proof -
  have "calm s t" if "spaces_recoverRecord i v s = (p, t)" for i p t
    using calm_recover [of s i v] that by simp
  then show ?thesis
    by (auto simp: spaces_onEvent_def Let_def calm_replace split: option.split prod.split)
qed

lemma flush_one_calm:
  "calm s (snd (spaces_flush_one i s))"
  "fst (spaces_flush_one i s) \<noteq> None \<Longrightarrow> i \<notin> set (sp_dirty (snd (spaces_flush_one i s)))"
proof -
  have "calm s (snd (spaces_flush_one i s)) \<and>
    (fst (spaces_flush_one i s) \<noteq> None \<longrightarrow> i \<notin> set (sp_dirty (snd (spaces_flush_one i s))))"
  proof (cases "spaces_read (spaceRecordKey i) i s")
    case (Some x)
    obtain raw p u where x: "x = (raw, p, u)" by (metis prod_cases3)
    with Some have u: "calm s u" by (auto dest: calm_read)
    have nd: "sp_dirty (spaces_notify t) = sp_dirty t" for t by (simp add: spaces_notify_def)
    show ?thesis
    proof (cases "get (sp_records u) i")
      case None
      with Some x u show ?thesis by (simp add: spaces_flush_one_def calm_undirty)
    next
      case m: (Some m)
      let ?w = "case p of Some q \<Rightarrow> newer compareStoredSpaceRecords m q | None \<Rightarrow> m"
      let ?s2 = "set_space i ?w u"
      have s2: "calm s ?s2" using u by simp
      have s3: "calm s (fst (spaces_write_both f g ?s2))" for f g
        using s2 calm_write_both by (rule calm_trans)
      show ?thesis
      proof (cases "?w = m")
        case True
        with Some x m show ?thesis
          using s3
          by (auto simp: spaces_flush_one_def Let_def split: prod.split intro!: calm_undirty)
            (metis fst_conv)+
      next
        case False
        with Some x m u show ?thesis
          by (simp add: spaces_flush_one_def Let_def nd calm_replace)
      qed
    qed
  qed (simp add: spaces_flush_one_def)
  then show "calm s (snd (spaces_flush_one i s))"
    "fst (spaces_flush_one i s) \<noteq> None \<Longrightarrow> i \<notin> set (sp_dirty (snd (spaces_flush_one i s)))" by auto
qed

lemma flush_loop_dirty:
  "sp_storage (snd (spaces_flush_loop is w s)) = None \<or>
   set (sp_dirty (snd (spaces_flush_loop is w s))) \<subseteq> set (sp_dirty s) - set is"
proof (induction "is" arbitrary: w s)
  case (Cons i js)
  show ?case
  proof (cases "spaces_flush_one i s")
    case (Pair r t)
    show ?thesis
    proof (cases r)
      case None
      with Pair show ?thesis by (simp add: spaces_degrade_def spaces_notify_def)
    next
      case (Some v)
      have "i \<notin> set (sp_dirty t)" "sp_storage t = None \<or> set (sp_dirty t) \<subseteq> set (sp_dirty s)"
        using flush_one_calm(1) [of s i] flush_one_calm(2) [of i s] Pair Some by (auto simp: calm_def)
      moreover have "sp_storage t = None \<Longrightarrow> sp_storage (snd (spaces_flush_loop js w' t)) = None" for w'
      proof -
        assume none: "sp_storage t = None"
        have "sp_storage (snd (spaces_flush_loop ks v s)) = None" if "sp_storage s = None" for ks v s
          using that by (cases ks) (simp_all add: spaces_flush_one_def spaces_read_def spaces_degrade_def
              spaces_notify_def)
        with none show ?thesis by blast
      qed
      ultimately show ?thesis using Cons.IH [of "w \<or> v" t] Pair Some by auto
    qed
  qed
qed simp

lemma flush_clean:
  "sp_storage (snd (spaces_flush s)) = None \<or> sp_dirty (snd (spaces_flush s)) = []"
  using flush_loop_dirty [of "sp_dirty s" False s] by (auto simp: spaces_flush_def)

lemma flush_scheduled: "unsaved_scheduled (snd (spaces_flush s))"
  using flush_clean [of s] by (auto simp: unsaved_scheduled_def)

lemma scheduled_scheduleFlush [simp]: "unsaved_scheduled (spaces_scheduleFlush s)"
  by (auto simp: unsaved_scheduled_def spaces_scheduleFlush_def)

lemma scheduled_upd [simp]:
  "unsaved_scheduled (spaces_notify s) = unsaved_scheduled s"
  "unsaved_scheduled (announce rs s) = unsaved_scheduled s"
  by (simp_all add: unsaved_scheduled_def spaces_notify_def announce_def)

lemma batch_scheduled [simp]: "unsaved_scheduled (spaces_putBatch rs s)" "unsaved_scheduled (put_space r s)"
  by (simp_all add: spaces_putBatch_def put_is_batch)

lemma fold_merge_scheduled:
  "unsaved_scheduled s \<Longrightarrow>
     fst (fold (merge_space cfg env) rs (c, s)) \<or> unsaved_scheduled (snd (fold (merge_space cfg env) rs (c, s)))"
proof -
  have step: "fst (merge_space cfg env r cs) \<or> unsaved_scheduled (snd (merge_space cfg env r cs))"
    if "fst cs \<or> unsaved_scheduled (snd cs)" for r cs
    using that by (cases cs) (auto simp: merge_space_def Let_def)
  have "fst cs \<or> unsaved_scheduled (snd cs) \<Longrightarrow>
     fst (fold (merge_space cfg env) rs cs) \<or> unsaved_scheduled (snd (fold (merge_space cfg env) rs cs))" for cs
    by (induction rs arbitrary: cs) (auto simp: step)
  then show "unsaved_scheduled s \<Longrightarrow> ?thesis" by simp
qed

subsection \<open>The operations\<close>

datatype spaces_op =
    CreateSpace
  | RenameSpace string string
  | ReorderSpace string int
  | CloseSpace string
  | ReopenSpace string
  | RollbackCreate string
  | MergeSpaces "stored_space list"
  | ForgetSpaces "string list"
  | SpacesStorageEvent "string option" "cell option" bool
  | SpacesPagehide
  | FlushSpaces
  | SpacesTimerFired
  | SubscribeSpaces
  | UnsubscribeSpaces
  | DisposeSpaces

fun spaces_exec :: "spaces_config \<Rightarrow> env \<Rightarrow> spaces_op \<Rightarrow> spaces_store \<Rightarrow> spaces_store" where
  "spaces_exec cfg env CreateSpace s = snd (create_space cfg env s)"
| "spaces_exec cfg env (RenameSpace i n) s = snd (rename_space env i n s)"
| "spaces_exec cfg env (ReorderSpace i t) s = snd (reorder_space cfg env i t s)"
| "spaces_exec cfg env (CloseSpace i) s = snd (close_space env i s)"
| "spaces_exec cfg env (ReopenSpace i) s = snd (reopen_space cfg env i s)"
| "spaces_exec cfg env (RollbackCreate i) s = snd (rollbackCreate i s)"
| "spaces_exec cfg env (MergeSpaces rs) s = merge_spaces cfg env rs s"
| "spaces_exec cfg env (ForgetSpaces is) s = forget_spaces is s"
| "spaces_exec cfg env (SpacesStorageEvent k v same) s = spaces_onEvent k v same s"
| "spaces_exec cfg env SpacesPagehide s = spaces_pagehide s"
| "spaces_exec cfg env FlushSpaces s = snd (spaces_flush s)"
| "spaces_exec cfg env SpacesTimerFired s = spaces_timer_fired s"
| "spaces_exec cfg env SubscribeSpaces s = spaces_subscribe s"
| "spaces_exec cfg env UnsubscribeSpaces s = spaces_unsubscribe s"
| "spaces_exec cfg env DisposeSpaces s = spaces_dispose s"

text \<open>The outcomes of an operation on one space: refused, or one record written.\<close>

lemma rename_outcome:
  assumes "spaces_reconcile i s = (cur, u)" and "rename_space env i name s = (res, s')"
  obtains (refused) reason where "res = Inl reason" "s' = u"
  | (accepted) r v where "cur = Some r" "\<not> space_deleted (body r)" "js_trim name \<noteq> []" "res = Inr v"
      "v = (body r)\<lparr>space_name := js_trim name, space_updated := bumped env (body r)\<rparr>"
      "s' = put_space \<lparr>writeID = ids env 0, body = v\<rparr> u"
proof (cases cur)
  case None
  with assms show ?thesis by (intro refused [of "''This space is no longer open.''"]) (auto simp: rename_space_def)
next
  case (Some r)
  with assms show ?thesis
    by (cases "space_deleted (body r)"; cases "js_trim name = []")
      (auto simp: rename_space_def Let_def intro: refused accepted)
qed

lemma close_outcome:
  assumes "spaces_reconcile i s = (cur, u)" and "close_space env i s = (res, s')"
  obtains (refused) reason where "res = Inl reason" "s' = u"
  | (accepted) r v where "cur = Some r" "\<not> space_deleted (body r)" "res = Inr v"
      "v = (body r)\<lparr>space_deleted := True, space_updated := bumped env (body r)\<rparr>"
      "s' = put_space \<lparr>writeID = ids env 0, body = v\<rparr> u"
proof (cases cur)
  case None
  with assms show ?thesis by (intro refused [of "''This space is already closed.''"]) (auto simp: close_space_def)
next
  case (Some r)
  with assms show ?thesis
    by (cases "space_deleted (body r)") (auto simp: close_space_def Let_def intro: refused accepted)
qed

lemma reopen_outcome:
  assumes "spaces_reconcile i s = (cur, u)" and "reopen_space cfg env i s = (res, s')"
  obtains (refused) reason where "res = Inl reason" "s' = u"
  | (accepted) r v where "cur = Some r" "space_deleted (body r)" "res = Inr v"
      "v = (body r)\<lparr>space_deleted := False, space_order := next_order cfg u, space_updated := bumped env (body r)\<rparr>"
      "s' = put_space \<lparr>writeID = ids env 0, body = v\<rparr> u"
proof (cases cur)
  case None
  with assms show ?thesis by (intro refused [of "''This space is not recently closed.''"]) (auto simp: reopen_space_def)
next
  case (Some r)
  with assms show ?thesis
    by (cases "space_deleted (body r)") (auto simp: reopen_space_def Let_def intro: refused accepted)
qed

lemma reorder_outcome:
  assumes "u = reconcile_all (map space_id (live_spaces cfg s)) s" and "ordered = live_spaces cfg u"
    and "dst = destination target (length ordered)" and "reorder_space cfg env i target s = (res, s')"
  obtains (refused) reason where "res = Inl reason" "s' = u"
  | (kept) "find_index (\<lambda>r. space_id r = i) ordered = Some dst" "res = Inr (ordered ! dst)" "s' = u"
  | (accepted) src where "find_index (\<lambda>r. space_id r = i) ordered = Some src" "dst \<noteq> src"
      "res = Inr (body (reordered env (moved src dst ordered) ! dst))"
      "s' = spaces_putBatch (reordered env (moved src dst ordered)) u"
proof (cases "find_index (\<lambda>r. space_id r = i) ordered")
  case None
  then show ?thesis
    using assms(4) by (intro refused [of "''This space is no longer open.''"])
      (simp_all add: reorder_space_def Let_def assms(1-3) [symmetric])
next
  case (Some src)
  then have r: "(res, s') = (if dst = src then (Inr (ordered ! src), u)
      else (Inr (body (reordered env (moved src dst ordered) ! dst)),
            spaces_putBatch (reordered env (moved src dst ordered)) u))"
    using assms(4) Some unfolding reorder_space_def assms(1-3) Let_def by simp
  show ?thesis
  proof (cases "dst = src")
    case True
    with r Some show ?thesis by (intro kept) simp_all
  next
    case False
    with r Some show ?thesis by (intro accepted [of src]) simp_all
  qed
qed

subsection \<open>Both invariants\<close>

definition spaces_good :: "spaces_store \<Rightarrow> bool" where
  "spaces_good s \<longleftrightarrow> spaces_inv s \<and> unsaved_scheduled s"

lemma good_put [inv_intros]: "spaces_inv s \<Longrightarrow> spaces_good (put_space r s)"
  by (simp add: spaces_good_def spaces_inv_put)

lemma good_batch [inv_intros]: "spaces_inv s \<Longrightarrow> spaces_good (spaces_putBatch rs s)"
  by (simp add: spaces_good_def spaces_inv_batch)

lemma good_reconcile:
  assumes "spaces_good s" and "spaces_reconcile i s = (c, t)"
  shows "spaces_good t"
  using assms reconcile_space_facts(1) [of s i c t] calm_reconcile [of s i]
  by (auto simp: spaces_good_def intro: calm_scheduled)

lemma good_reconcile_all: "spaces_good s \<Longrightarrow> spaces_good (reconcile_all is s)"
  using reconcile_all_facts [of s "is"] calm_reconcile_all [of s "is"]
  by (auto simp: spaces_good_def intro: calm_scheduled)

lemma good_simple:
  assumes g: "spaces_good s"
  shows "spaces_good (snd (rename_space env i n s))" and "spaces_good (snd (close_space env i s))"
    and "spaces_good (snd (reopen_space cfg env i s))"
proof -
  obtain cur u where rc: "spaces_reconcile i s = (cur, u)" by fastforce
  note u = good_reconcile [OF g rc]
  then have iu: "spaces_inv u" by (simp add: spaces_good_def)
  obtain a1 b1 a2 b2 a3 b3 where
    r: "rename_space env i n s = (a1, b1)" and c: "close_space env i s = (a2, b2)"
      and o: "reopen_space cfg env i s = (a3, b3)" by (metis surj_pair)
  from rc r show "spaces_good (snd (rename_space env i n s))"
    by (cases rule: rename_outcome) (use u iu r in \<open>simp_all add: good_put\<close>)
  from rc c show "spaces_good (snd (close_space env i s))"
    by (cases rule: close_outcome) (use u iu c in \<open>simp_all add: good_put\<close>)
  from rc o show "spaces_good (snd (reopen_space cfg env i s))"
    by (cases rule: reopen_outcome) (use u iu o in \<open>simp_all add: good_put\<close>)
qed

lemma good_reorder: "spaces_good s \<Longrightarrow> spaces_good (snd (reorder_space cfg env i t s))"
proof -
  let ?u = "reconcile_all (map space_id (live_spaces cfg s)) s"
  assume g: "spaces_good s"
  then have u: "spaces_good ?u" by (rule good_reconcile_all)
  then have iu: "spaces_inv ?u" by (simp add: spaces_good_def)
  obtain a b where r: "reorder_space cfg env i t s = (a, b)" by fastforce
  from refl refl refl r show ?thesis
    by (cases rule: reorder_outcome) (use u iu r in \<open>simp_all add: good_batch\<close>)
qed

lemma good_rollback: "spaces_good s \<Longrightarrow> spaces_good (snd (rollbackCreate i s))"
  by (auto simp: rollbackCreate_def Let_def spaces_good_def spaces_inv_def get_del unsaved_scheduled_def
      spaces_notify_def spaces_keyed_def split: option.split)

lemma merge_fold_inv:
  "spaces_inv (snd cs) \<Longrightarrow> spaces_inv (snd (fold (merge_space cfg env) rs cs))"
proof (induction rs arbitrary: cs)
  case (Cons r rs)
  have "spaces_inv (snd (merge_space cfg env r cs))"
    using Cons.prems by (cases cs) (auto simp: merge_space_def Let_def intro: spaces_inv_drop spaces_inv_set_dirty)
  with Cons.IH show ?case by simp
qed simp

lemma spaces_inv_merge [inv_intros]: "spaces_inv s \<Longrightarrow> spaces_inv (merge_spaces cfg env rs s)"
  using merge_fold_inv [of "(False, s)" cfg env rs]
  by (cases "fold (merge_space cfg env) rs (False, s)") (auto simp: merge_spaces_def)

lemma good_merge: "spaces_good s \<Longrightarrow> spaces_good (merge_spaces cfg env rs s)"
  using spaces_inv_merge [of s cfg env rs] fold_merge_scheduled [of s cfg env rs False]
  by (cases "fold (merge_space cfg env) rs (False, s)") (auto simp: spaces_good_def merge_spaces_def)

lemma spaces_inv_forget [inv_intros]: "spaces_inv s \<Longrightarrow> spaces_inv (forget_spaces is s)"
proof -
  have "spaces_inv s \<Longrightarrow> spaces_inv (fold spaces_drop js s)" for js s
    by (induction js arbitrary: s) (auto intro: spaces_inv_drop)
  then show "spaces_inv s \<Longrightarrow> ?thesis" by (simp add: forget_spaces_def Let_def)
qed

lemma good_forget: "spaces_good s \<Longrightarrow> spaces_good (forget_spaces is s)"
  using spaces_inv_forget [of s "is"] calm_fold_drop [of s]
  by (auto simp: spaces_good_def forget_spaces_def Let_def intro: calm_scheduled)

lemma good_flush: "spaces_inv s \<Longrightarrow> spaces_good (snd (spaces_flush s))"
  by (simp add: spaces_good_def spaces_inv_flush flush_scheduled)

lemma good_dispose: "spaces_inv s \<Longrightarrow> spaces_good (spaces_dispose s)"
  using flush_clean [of s] spaces_inv_flush [of s]
  by (auto simp: spaces_good_def spaces_dispose_def unsaved_scheduled_def)

lemma spaces_good_inv: "spaces_good s \<Longrightarrow> spaces_inv s"
  by (simp add: spaces_good_def)

text \<open>What other tabs write holds, under the key of an id, records of that id.\<close>

fun spaces_op_keyed :: "spaces_op \<Rightarrow> bool" where
  "spaces_op_keyed (SpacesStorageEvent k v same) = (\<forall>i. Option.bind k spaceRecordID = Some i \<longrightarrow> space_cell i v)"
| "spaces_op_keyed _ = True"

inductive spaces_reachable :: "spaces_config \<Rightarrow> spaces_store \<Rightarrow> bool" for cfg where
  created: "(case storage of None \<Rightarrow> True | Some st \<Rightarrow> spaces_keyed_storage st) \<Longrightarrow>
    spaces_reachable cfg (createSpacesStore cfg env storage)"
| step: "spaces_reachable cfg s \<Longrightarrow> spaces_op_keyed op \<Longrightarrow> spaces_reachable cfg (spaces_exec cfg env op s)"

lemma spaces_good_event:
  assumes "spaces_good s" and "spaces_op_keyed (SpacesStorageEvent k v same)"
  shows "spaces_good (spaces_onEvent k v same s)"
  using assms space_event_facts [of s k v same] calm_event [of s k v same]
  by (auto simp: spaces_good_def intro: calm_scheduled)

lemma good_attached [simp]:
  "spaces_good (s\<lparr>sp_attached := b\<rparr>) = spaces_good s"
  by (simp add: spaces_good_def unsaved_scheduled_def)

lemma good_exec: "spaces_good s \<Longrightarrow> spaces_op_keyed op \<Longrightarrow> spaces_good (spaces_exec cfg env op s)"
  by (cases op)
    (auto simp: good_simple good_reorder good_rollback good_merge good_forget spaces_good_event good_dispose
      create_space_def Let_def spaces_pagehide_def spaces_timer_fired_def spaces_subscribe_def
      spaces_unsubscribe_def spaces_good_inv simp del: spaces_op_keyed.simps intro!: good_put good_flush)

lemma load_clean: "sp_storage s = None \<or> sp_dirty s = [] \<Longrightarrow>
    sp_storage (spaces_load cfg env s) = None \<or> sp_dirty (spaces_load cfg env s) = []"
proof -
  have step: "calm s (fst (spaces_load_key cfg env ki s))" for ki s
  proof (cases "spaces_read (fst ki) (snd ki) s")
    case (Some x)
    obtain raw p u where x: "x = (raw, p, u)" by (metis prod_cases3)
    with Some have u: "calm s u" by (auto dest: calm_read)
    then have "calm s (fst (spaces_write_both f g u))" for f g
      using calm_write_both by (rule calm_trans)
    with Some x u show ?thesis
      by (cases p) (auto simp: spaces_load_key_def Let_def split: prod.split, (metis fst_conv)+)
  qed (simp add: spaces_load_key_def)
  have "calm s (spaces_load_keys cfg env kis s)" for kis s
  proof (induction kis arbitrary: s)
    case (Cons ki kis)
    show ?case
    proof (cases "spaces_load_key cfg env ki s")
      case (Pair t ok)
      with step [of s ki] Cons.IH [of t] show ?thesis by (auto intro: calm_trans)
    qed
  qed simp
  then have "calm s (spaces_load cfg env s)"
    by (auto simp: spaces_load_def split: option.split)
  then show "sp_storage s = None \<or> sp_dirty s = [] \<Longrightarrow> ?thesis" by (auto simp: calm_def)
qed

lemma spaces_reachable_good: "spaces_reachable cfg s \<Longrightarrow> spaces_good s"
proof (induction rule: spaces_reachable.induct)
  case (created storage env)
  then have "spaces_inv (createSpacesStore cfg env storage)"
    by (intro created_spaces_inv) auto
  moreover have "unsaved_scheduled (createSpacesStore cfg env storage)"
    using load_clean [of "\<lparr>sp_storage = storage, sp_records = [], sp_dirty = [], sp_timer = False,
        sp_status = (if storage \<noteq> None then \<lparr>persistent = True, recovered = False, problem = []\<rparr>
                     else \<lparr>persistent = False, recovered = False, problem = spaces_memory_only\<rparr>),
        sp_attached = False, sp_notified = 0, sp_mutations = [], sp_purged = []\<rparr>" cfg env]
    unfolding createSpacesStore_def unsaved_scheduled_def by force
  ultimately show ?case by (simp add: spaces_good_def)
qed (rule good_exec)

end
