(* ===== verification/SpacesClaims.thy ===== *)
theory SpacesClaims
  imports SpacesOps "HOL-Library.Multiset"
begin

section \<open>The spaces store: what it promises its user\<close>

text \<open>
  The properties of \<^verbatim>\<open>features/spaces/spacesStore.ts\<close> over the states it reaches
  (\<open>spaces_reachable\<close>: any operations, any failures of the storage).
\<close>

subsection \<open>A sample store\<close>

definition sample_spaces_cfg :: spaces_config where
  "sample_spaces_cfg = default_spaces_config (\<lambda>a b. 0)"

definition sample_spaces_env :: "string \<Rightarrow> env" where
  "sample_spaces_env i = \<lparr>now = 1, ids = (\<lambda>_. i)\<rparr>"

definition no_spaces :: "outcome list \<Rightarrow> spaces_store" where
  "no_spaces fs =
     createSpacesStore sample_spaces_cfg (sample_spaces_env []) (Some \<lparr>items = [], readable = True, faults = fs\<rparr>)"

definition one_space :: "outcome list \<Rightarrow> spaces_store" where
  "one_space fs = spaces_exec sample_spaces_cfg (sample_spaces_env ''a'') CreateSpace (no_spaces fs)"

definition two_spaces :: "outcome list \<Rightarrow> spaces_store" where
  "two_spaces fs = spaces_exec sample_spaces_cfg (sample_spaces_env ''b'') CreateSpace (one_space fs)"

lemmas spaces_eval = createSpacesStore_def spaces_load_def ids_under_def List.map_filter_simps
  create_space_def put_space_def spaces_scheduleFlush_def set_dirty_space_def spaces_notify_def announce_def
  live_spaces_def next_order_def space_names_def free_number.simps space_le_def
  sample_spaces_cfg_def sample_spaces_env_def set_add_def Let_def

lemma no_spaces_eval:
  "no_spaces fs = \<lparr>sp_storage = Some \<lparr>items = [], readable = True, faults = fs\<rparr>, sp_records = [],
     sp_dirty = [], sp_timer = False, sp_status = \<lparr>persistent = True, recovered = False, problem = []\<rparr>,
     sp_attached = False, sp_notified = 0, sp_mutations = [], sp_purged = []\<rparr>"
  by (simp add: no_spaces_def spaces_eval)

definition space_a :: stored_space where
  "space_a = \<lparr>writeID = ''a'', body = \<lparr>space_id = ''a'', space_name = space_title 2, space_order = 0,
     space_created = 1, space_updated = 1, space_deleted = False\<rparr>\<rparr>"

definition space_b :: stored_space where
  "space_b = \<lparr>writeID = ''b'', body = \<lparr>space_id = ''b'', space_name = space_title 3, space_order = 1,
     space_created = 1, space_updated = 1, space_deleted = False\<rparr>\<rparr>"

lemma one_space_eval:
  "one_space fs = \<lparr>sp_storage = Some \<lparr>items = [], readable = True, faults = fs\<rparr>,
     sp_records = [(''a'', space_a)], sp_dirty = [''a''], sp_timer = True,
     sp_status = \<lparr>persistent = True, recovered = False, problem = []\<rparr>,
     sp_attached = False, sp_notified = 1, sp_mutations = [[space_a]], sp_purged = []\<rparr>"
  by (simp add: one_space_def no_spaces_eval spaces_eval space_a_def)

lemma two_spaces_eval:
  "two_spaces fs = \<lparr>sp_storage = Some \<lparr>items = [], readable = True, faults = fs\<rparr>,
     sp_records = [(''a'', space_a), (''b'', space_b)], sp_dirty = [''a'', ''b''], sp_timer = True,
     sp_status = \<lparr>persistent = True, recovered = False, problem = []\<rparr>,
     sp_attached = False, sp_notified = 2, sp_mutations = [[space_a], [space_b]], sp_purged = []\<rparr>"
  by (simp add: two_spaces_def one_space_eval spaces_eval space_a_def space_b_def)

lemma no_spaces_reachable: "spaces_reachable sample_spaces_cfg (no_spaces fs)"
  unfolding no_spaces_def
  by (rule spaces_reachable.created) (simp add: keyed_by_def holds_only_def)

lemma two_spaces_reachable: "spaces_reachable sample_spaces_cfg (two_spaces fs)"
  unfolding two_spaces_def one_space_def
  by (intro spaces_reachable.step no_spaces_reachable) simp_all

subsection \<open>Bookkeeping\<close>

text \<open>
  The bookkeeping of the spaces store holds in every state it reaches: there is one record for an
  id and it is that id's, and as long as the browser's storage is in use every unsaved record has a
  flush under way.
\<close>

lemma spaces_bookkeeping:
  assumes "spaces_reachable cfg s"
  shows "distinct (map fst (sp_records s)) \<and>
    (\<forall>i r. get (sp_records s) i = Some r \<longrightarrow> space_id (body r) = i) \<and>
    (sp_storage s \<noteq> None \<longrightarrow> sp_dirty s \<noteq> [] \<longrightarrow> sp_timer s)"
  using spaces_reachable_good [OF assms]
  by (auto simp: spaces_good_def spaces_inv_def unsaved_scheduled_def)

lemma spaces_bookkeeping_witness:
  "distinct (map fst (sp_records (two_spaces []))) \<and>
    (\<exists>r. get (sp_records (two_spaces [])) ''b'' = Some r \<and> space_id (body r) = ''b'') \<and>
    sp_dirty (two_spaces []) \<noteq> [] \<and> sp_timer (two_spaces [])"
  using spaces_bookkeeping [OF two_spaces_reachable [of "[]"]] by (auto simp: two_spaces_eval)

text \<open>
  No failure of the storage loses a space: whatever a flush or a storage event of another tab
  meets (reads and writes that throw, writes that have no effect, unreadable texts), every space held
  before is held after, in a version at least as new.
\<close>

lemma spaces_survive_storage:
  assumes "spaces_reachable cfg s" and "get (sp_records s) i = Some r"
    and "t = snd (spaces_flush s) \<or> t = spaces_onEvent k v same s"
    and "spaces_op_keyed (SpacesStorageEvent k v same)"
  shows "\<exists>q. get (sp_records t) i = Some q \<and> 0 \<le> compareStoredSpaceRecords q r"
proof -
  have g: "spaces_inv s" using spaces_reachable_good [OF assms(1)] by (simp add: spaces_good_def)
  have "spaces_advances s t"
    using assms(3,4) spaces_flush_advances [OF g] space_event_facts [OF g, of k v same] by auto
  with assms(2) show ?thesis by (simp add: spaces_advances_def)
qed

lemma spaces_survive_storage_witness:
  "\<exists>q. get (sp_records (snd (spaces_flush (two_spaces [Lost, Threw])))) ''a'' = Some q \<and>
     0 \<le> compareStoredSpaceRecords q space_a"
  by (rule spaces_survive_storage [OF two_spaces_reachable [of "[Lost, Threw]"], where k = None and v = None and same = True])
    (simp_all add: two_spaces_eval)

subsection \<open>Creating\<close>

lemma free_number_spec:
  "n \<le> free_number used n \<and> space_title (free_number used n) \<notin> set used \<and>
   (\<forall>m. n \<le> m \<longrightarrow> m < free_number used n \<longrightarrow> space_title m \<in> set used)"
proof (induction used n rule: free_number.induct)
  case (1 used n)
  show ?case
  proof (cases "space_title n \<in> set used")
    case True
    note IH = 1 [OF True]
    have e: "free_number used n = free_number used (n + 1)" using True by (subst free_number.simps) simp
    have "space_title m \<in> set used" if "n \<le> m" "m < free_number used (n + 1)" for m
      using that IH True by (cases "m = n") auto
    with IH show ?thesis unfolding e by auto
  next
    case False
    then have "free_number used n = n" by (subst free_number.simps) simp
    with False show ?thesis by simp
  qed
qed

lemma free_number_bound: "free_number used n \<le> n + length used"
proof -
  let ?t = "free_number used n"
  have "space_title ` {n..<?t} \<subseteq> set used" using free_number_spec [of n used] by auto
  then have "card (space_title ` {n..<?t}) \<le> card (set used)" by (intro card_mono) simp_all
  moreover have "card (space_title ` {n..<?t}) = ?t - n"
    by (subst card_image) (auto intro: inj_onI)
  moreover have "card (set used) \<le> length used" by (rule card_length)
  ultimately show ?thesis by linarith
qed

text \<open>
  Creating a space always returns: the search for a name ends after at most as many steps as
  there are records, with the first \<open>space N\<close>, N from 2, that no record, open or closed, has.
\<close>

lemma create_terminates:
  "\<exists>n v. create_space cfg env s = (Inr v, put_space \<lparr>writeID = ids env 1, body = v\<rparr> s) \<and>
     space_name v = space_title n \<and> 2 \<le> n \<and> n \<le> 2 + length (sp_records s) \<and>
     space_title n \<notin> set (space_names s) \<and>
     {space_title m |m. 2 \<le> m \<and> m < n} \<subseteq> set (space_names s)"
proof (intro exI conjI)
  let ?n = "free_number (space_names s) 2"
  show "create_space cfg env s = (Inr \<lparr>space_id = ids env 0, space_name = space_title ?n,
      space_order = next_order cfg s, space_created = now env, space_updated = now env, space_deleted = False\<rparr>,
      put_space \<lparr>writeID = ids env 1, body = \<lparr>space_id = ids env 0, space_name = space_title ?n,
      space_order = next_order cfg s, space_created = now env, space_updated = now env, space_deleted = False\<rparr>\<rparr> s)"
    by (simp add: create_space_def Let_def)
  show "?n \<le> 2 + length (sp_records s)"
    using free_number_bound [of "space_names s" 2] by (simp add: space_names_def)
qed (use free_number_spec [of 2 "space_names s"] in auto)

subsection \<open>Renaming, closing, reopening\<close>

lemma bumped_newer:
  assumes "\<bar>space_updated (body r)\<bar> < max_safe" and "space_updated (body w) = bumped env (body r)"
  shows "0 < compareStoredSpaceRecords w r"
proof -
  have "js_add (space_updated (body r)) 1 = space_updated (body r) + 1"
    by (rule js_add_exact) (use assms(1) in \<open>simp add: max_safe_def\<close>)
  then have "space_updated (body r) < space_updated (body w)"
    unfolding assms(2) by (simp add: bumped_def)
  then show ?thesis by (simp add: compareStoredSpaceRecords_def compare_pos)
qed

text \<open>
  Renaming, closing and reopening a space supersede what they start from: when the operation is
  not refused it writes one record, which is strictly newer than the space in memory and than the copy
  another tab wrote to the storage, and announces exactly that record to the sync engine.
\<close>

lemma space_edit_supersedes:
  assumes "spaces_reachable cfg s" and "spaces_reconcile i s = (Some r, u)"
    and "\<bar>space_updated (body r)\<bar> < max_safe"
    and "rename_space env i name s = (Inr v, t) \<or> close_space env i s = (Inr v, t) \<or>
      reopen_space cfg env i s = (Inr v, t)"
  shows "\<exists>w. body w = v \<and> get (sp_records t) i = Some w \<and> 0 < compareStoredSpaceRecords w r \<and>
    (\<forall>q. get (sp_records s) i = Some q \<longrightarrow> 0 < compareStoredSpaceRecords w q) \<and>
    sp_mutations t = sp_mutations s @ [[w]]"
proof -
  have inv: "spaces_inv s" using spaces_reachable_good [OF assms(1)] by (simp add: spaces_good_def)
  note u = reconcile_space_facts [OF inv assms(2)]
  have id: "skey r = i" using u(1,2) spaces_inv_id by fastforce
  have result: ?thesis
    if w: "space_updated v = bumped env (body r)" "space_id v = i"
      "t = put_space \<lparr>writeID = ids env 0, body = v\<rparr> u"
  proof -
    let ?w = "\<lparr>writeID = ids env 0, body = v\<rparr> :: stored_space"
    have new: "0 < compareStoredSpaceRecords ?w r"
      by (rule bumped_newer [OF assms(3)]) (simp add: w)
    have "0 < compareStoredSpaceRecords ?w q" if "get (sp_records s) i = Some q" for q
    proof -
      have "0 \<le> compareStoredSpaceRecords r q"
        using u(2) [symmetric] u(3) that unfolding spaces_advances_def by force
      with new show ?thesis by (rule stored_spaces.cmp_less_le)
    qed
    moreover have "get (sp_records t) i = Some ?w"
      using w by (simp add: put_records get_put)
    moreover have "sp_mutations t = sp_mutations s @ [[?w]]"
      using u(4) w(3) by (simp add: put_is_batch)
    ultimately show ?thesis using new by (intro exI [of _ ?w]) simp
  qed
  from assms(4) show ?thesis
  proof (elim disjE)
    assume "rename_space env i name s = (Inr v, t)"
    with assms(2) show ?thesis
    proof (cases rule: rename_outcome)
      case accepted
      then show ?thesis by (intro result) (use id in simp_all)
    qed simp
  next
    assume "close_space env i s = (Inr v, t)"
    with assms(2) show ?thesis
    proof (cases rule: close_outcome)
      case accepted
      then show ?thesis by (intro result) (use id in simp_all)
    qed simp
  next
    assume "reopen_space cfg env i s = (Inr v, t)"
    with assms(2) show ?thesis
    proof (cases rule: reopen_outcome)
      case accepted
      then show ?thesis by (intro result) (use id in simp_all)
    qed simp
  qed
qed

text \<open>Closing the first of the two sample spaces.\<close>

definition closed_a :: SpaceDefinition where
  "closed_a = (body space_a)\<lparr>space_deleted := True, space_updated := 2\<rparr>"

lemma sample_space_reconcile: "spaces_reconcile ''a'' (two_spaces fs) = (Some space_a, two_spaces fs)"
  by (simp add: spaces_reconcile_def two_spaces_eval spaces_read_def spaces_recoverRecord_def parseStoredSpace_def)

lemma sample_close:
  "close_space (sample_spaces_env ''w'') ''a'' (two_spaces fs) =
     (Inr closed_a, put_space \<lparr>writeID = ''w'', body = closed_a\<rparr> (two_spaces fs))"
  by (simp add: close_space_def sample_space_reconcile closed_a_def space_a_def bumped_def sample_spaces_env_def Let_def)

lemma space_edit_supersedes_witness:
  "\<exists>w. body w = closed_a \<and>
    get (sp_records (put_space \<lparr>writeID = ''w'', body = closed_a\<rparr> (two_spaces []))) ''a'' = Some w \<and>
    0 < compareStoredSpaceRecords w space_a \<and>
    (\<forall>q. get (sp_records (two_spaces [])) ''a'' = Some q \<longrightarrow> 0 < compareStoredSpaceRecords w q) \<and>
    sp_mutations (put_space \<lparr>writeID = ''w'', body = closed_a\<rparr> (two_spaces [])) =
      sp_mutations (two_spaces []) @ [[w]]"
proof (rule space_edit_supersedes [OF two_spaces_reachable sample_space_reconcile])
  show "\<bar>space_updated (body space_a)\<bar> < max_safe" by (simp add: space_a_def max_safe_def)
qed (use sample_close [of "[]"] in blast)

subsection \<open>Reordering\<close>

lemma destination_less: "0 < n \<Longrightarrow> destination t n < n"
  by (auto simp: destination_def)

lemma moved_rest:
  assumes "src < length xs"
  obtains rest where "moved src dst xs = take dst rest @ xs ! src # drop dst rest"
    and "length rest = length xs - 1" and "mset xs = add_mset (xs ! src) (mset rest)"
    and "removeAll (xs ! src) xs = removeAll (xs ! src) rest"
proof
  let ?rest = "take src xs @ drop (Suc src) xs"
  have split: "xs = take src xs @ xs ! src # drop (Suc src) xs" using assms by (rule id_take_nth_drop)
  show "moved src dst xs = take dst ?rest @ xs ! src # drop dst ?rest"
    unfolding moved_def Let_def by (simp only: append_Cons append_Nil)
  show "length ?rest = length xs - 1" using assms by simp
  have "mset (take src xs @ xs ! src # drop (Suc src) xs) = add_mset (xs ! src) (mset ?rest)" by simp
  then show "mset xs = add_mset (xs ! src) (mset ?rest)" by (simp only: split [symmetric])
  have "removeAll (xs ! src) (take src xs @ xs ! src # drop (Suc src) xs) = removeAll (xs ! src) ?rest" by simp
  then show "removeAll (xs ! src) xs = removeAll (xs ! src) ?rest" by (simp only: split [symmetric])
qed

lemma moved_facts:
  assumes "src < length xs" and "dst < length xs"
  shows "length (moved src dst xs) = length xs" and "moved src dst xs ! dst = xs ! src"
    and "mset (moved src dst xs) = mset xs"
    and "removeAll (xs ! src) (moved src dst xs) = removeAll (xs ! src) xs"
proof -
  obtain rest where r: "moved src dst xs = take dst rest @ xs ! src # drop dst rest"
    "length rest = length xs - 1" "mset xs = add_mset (xs ! src) (mset rest)"
    "removeAll (xs ! src) xs = removeAll (xs ! src) rest"
    using moved_rest [OF assms(1)] by blast
  have rest: "mset (take dst rest) + mset (drop dst rest) = mset rest"
    by (metis append_take_drop_id mset_append)
  then show m: "mset (moved src dst xs) = mset xs" unfolding r(1) r(3) by simp
  then show "length (moved src dst xs) = length xs" by (rule mset_eq_length)
  show "moved src dst xs ! dst = xs ! src"
    unfolding r(1) using r(2) assms by (simp add: nth_append)
  have "removeAll (xs ! src) (take dst rest) @ removeAll (xs ! src) (drop dst rest) = removeAll (xs ! src) rest"
    by (metis append_take_drop_id removeAll_append)
  then show "removeAll (xs ! src) (moved src dst xs) = removeAll (xs ! src) xs"
    unfolding r(1) r(4) by simp
qed

lemma moved_map: "src < length xs \<Longrightarrow> map f (moved src dst xs) = moved src dst (map f xs)"
  by (simp add: moved_def Let_def take_map drop_map)

text \<open>The spaces after a batch that replaces every open space are the batch.\<close>

lemma fold_put_get:
  "distinct (map skey rs) \<Longrightarrow>
   get (fold (\<lambda>r m. put (skey r) r m) rs m) k =
     (case find (\<lambda>r. skey r = k) rs of Some r \<Rightarrow> Some r | None \<Rightarrow> get m k)"
proof (induction rs arbitrary: m)
  case (Cons r rs)
  have "skey r \<notin> skey ` set rs" using Cons.prems by simp
  then have none: "find (\<lambda>q. skey q = skey r) rs = None"
    unfolding find_None_iff by (metis imageI)
  have IH: "get (fold (\<lambda>r m. put (skey r) r m) rs (put (skey r) r m)) k =
      (case find (\<lambda>q. skey q = k) rs of Some q \<Rightarrow> Some q | None \<Rightarrow> get (put (skey r) r m) k)"
    using Cons.prems by (intro Cons.IH) simp
  show ?case
  proof (cases "skey r = k")
    case True
    with IH none show ?thesis by (simp add: get_put)
  next
    case False
    with IH show ?thesis by (simp add: get_put split: option.split)
  qed
qed simp

lemma live_set:
  assumes "spaces_inv s"
  shows "x \<in> set (live_spaces cfg s) \<longleftrightarrow>
    (\<exists>r. get (sp_records s) (space_id x) = Some r \<and> body r = x \<and> \<not> space_deleted x)"
proof -
  have wf: "wf_map (sp_records s)" using assms by (simp add: spaces_inv_def)
  have "x \<in> set (live_spaces cfg s) \<longleftrightarrow> (\<exists>k r. (k, r) \<in> set (sp_records s) \<and> body r = x) \<and> \<not> space_deleted x"
    by (force simp: live_spaces_def)
  also have "\<dots> \<longleftrightarrow> (\<exists>k r. get (sp_records s) k = Some r \<and> body r = x) \<and> \<not> space_deleted x"
    using wf by (simp add: map_of_eq_Some_iff)
  finally show ?thesis using spaces_inv_id [OF assms] by metis
qed

lemma live_distinct:
  assumes "spaces_inv s"
  shows "distinct (map space_id (live_spaces cfg s))" and "distinct (live_spaces cfg s)"
proof -
  have wf: "wf_map (sp_records s)" using assms by (simp add: spaces_inv_def)
  let ?vs = "map body (vals (sp_records s))"
  have "map space_id ?vs = keys (sp_records s)"
    using wf spaces_inv_id [OF assms] by (auto simp: map_of_eq_Some_iff)
  then have d: "distinct (map space_id ?vs)" using wf by (simp only:)
  let ?ls = "filter (\<lambda>r. \<not> space_deleted r) ?vs"
  have dl: "distinct (map space_id ?ls)" using d by (rule distinct_map_filter)
  then have "distinct ?ls" "inj_on space_id (set ?ls)" by (simp_all add: distinct_map del: filter_map)
  then show "distinct (live_spaces cfg s)" "distinct (map space_id (live_spaces cfg s))"
    by (simp_all add: live_spaces_def distinct_map)
qed

lemma reordered_nth [simp]:
  "length (reordered env xs) = length xs"
  "k < length xs \<Longrightarrow> space_id (body (reordered env xs ! k)) = space_id (xs ! k)"
  "k < length xs \<Longrightarrow> space_order (body (reordered env xs ! k)) = int k"
  "k < length xs \<Longrightarrow> space_deleted (body (reordered env xs ! k)) = space_deleted (xs ! k)"
  by (simp_all add: reordered_def Let_def)

lemma reordered_ids: "map (space_id \<circ> body) (reordered env xs) = map space_id xs"
  by (rule nth_equalityI) simp_all

lemma sorted_inj: "sorted_wrt (\<lambda>a b. (f a :: int) < f b) ys \<Longrightarrow> inj_on f (set ys)"
  by (induction ys) auto

lemma space_le_orders: "inj_on space_order A \<Longrightarrow> orders_by space_order (space_le cfg) A"
  by (auto simp: orders_by_def space_le_def dest: inj_onD)

lemma batch_live_set:
  assumes inv: "spaces_inv u" and d: "distinct (map skey b)"
    and alive: "\<And>r. r \<in> set b \<Longrightarrow> \<not> space_deleted (body r)"
    and covers: "\<And>x. x \<in> set (live_spaces cfg u) \<Longrightarrow> space_id x \<in> skey ` set b"
  shows "set (live_spaces cfg (spaces_putBatch b u)) = body ` set b"
proof (intro set_eqI iffI)
  let ?t = "spaces_putBatch b u"
  have live_t: "x \<in> set (live_spaces cfg ?t) \<longleftrightarrow>
      (\<exists>r. get (sp_records ?t) (space_id x) = Some r \<and> body r = x \<and> \<not> space_deleted x)" for x
    by (rule live_set) (rule spaces_inv_batch [OF inv])
  have get_t: "get (sp_records ?t) k =
      (case find (\<lambda>r. skey r = k) b of Some r \<Rightarrow> Some r | None \<Rightarrow> get (sp_records u) k)" for k
    unfolding batch_records by (rule fold_put_get [OF d])
  {
    fix x assume "x \<in> set (live_spaces cfg ?t)"
    then obtain r where r: "get (sp_records ?t) (space_id x) = Some r" "body r = x" "\<not> space_deleted x"
      using live_t by blast
    show "x \<in> body ` set b"
    proof (cases "find (\<lambda>r. skey r = space_id x) b")
      case None
      then have "get (sp_records u) (space_id x) = Some r" using r get_t by simp
      then have "x \<in> set (live_spaces cfg u)" unfolding live_set [OF inv] using r by blast
      then have "space_id x \<in> skey ` set b" by (rule covers)
      then show ?thesis using None by (auto simp: find_None_iff)
    next
      case (Some q)
      then have "q \<in> set b" by (auto simp: find_Some_iff in_set_conv_nth)
      moreover have "r = q" using Some r(1) get_t by simp
      ultimately show ?thesis using r(2) by blast
    qed
  next
    fix x assume "x \<in> body ` set b"
    then obtain r where r: "r \<in> set b" "body r = x" by blast
    obtain q where q: "find (\<lambda>q. skey q = space_id x) b = Some q"
      using r by (cases "find (\<lambda>q. skey q = space_id x) b") (auto simp: find_None_iff)
    then have "q \<in> set b" "skey q = space_id x" by (auto simp: find_Some_iff in_set_conv_nth)
    then have "q = r" using d r by (auto simp: distinct_map inj_on_def)
    then have "get (sp_records ?t) (space_id x) = Some r" using q get_t by simp
    then show "x \<in> set (live_spaces cfg ?t)" unfolding live_t using r alive by blast
  }
qed

lemma live_reordered:
  assumes inv: "spaces_inv u" and xs: "mset xs = mset (live_spaces cfg u)"
  shows "live_spaces cfg (spaces_putBatch (reordered env xs) u) = map body (reordered env xs)"
proof -
  define b where "b = reordered env xs"
  let ?t = "spaces_putBatch b u"
  have live: "set xs = set (live_spaces cfg u)" using xs by (rule mset_eq_setD)
  have "mset (map space_id xs) = mset (map space_id (live_spaces cfg u))" using xs by (simp only: mset_map)
  then have "distinct (map space_id xs)"
    using live_distinct(1) [OF inv, of cfg] by (rule mset_eq_imp_distinct_iff [THEN iffD2])
  moreover have ids: "map skey b = map space_id xs"
    using reordered_ids [of env xs] by (simp add: comp_def b_def)
  ultimately have db: "distinct (map skey b)" by simp
  have alive: "\<not> space_deleted (body r)" if rb: "r \<in> set b" for r
  proof -
    obtain k where k: "k < length xs" "r = b ! k" using rb by (auto simp: in_set_conv_nth b_def)
    have "xs ! k \<in> set (live_spaces cfg u)" unfolding live [symmetric] using k(1) by (rule nth_mem)
    then have "\<not> space_deleted (xs ! k)" unfolding live_set [OF inv] by blast
    then show ?thesis using k by (simp add: b_def)
  qed
  have "skey ` set b = space_id ` set xs" using arg_cong [OF ids, of set] by (simp only: set_map)
  then have covers: "space_id x \<in> skey ` set b" if "x \<in> set (live_spaces cfg u)" for x
    using that live by (simp only: image_eqI)
  have set_t: "set (live_spaces cfg ?t) = set (map body b)"
    unfolding set_map by (rule batch_live_set [OF inv db]) (fact alive, fact covers)
  have ord: "sorted_wrt (\<lambda>a b. space_order a < space_order b) (map body b)"
    by (simp add: sorted_wrt_iff_nth_less b_def)
  then have o: "orders_by space_order (space_le cfg) (set (map body b))"
    by (intro space_le_orders sorted_inj)
  let ?ls = "filter (\<lambda>r. \<not> space_deleted r) (map body (vals (sp_records ?t)))"
  have ls: "live_spaces cfg ?t = sort_by (space_le cfg) ?ls" by (simp only: live_spaces_def)
  have "set ?ls = set (map body b)" using set_t unfolding ls by (simp only: set_sort_by)
  moreover have "distinct ?ls"
    using live_distinct(2) [OF spaces_inv_batch [OF inv], of cfg b] unfolding ls by (simp only: distinct_sort_by)
  ultimately have "sort_by (space_le cfg) ?ls = map body b"
    by (intro sort_by_unique [of space_order]) (simp_all only: o ord simp_thms)
  then show ?thesis using ls by (simp only: b_def)
qed

text \<open>
  Reordering is a move. When \<open>reorder\<close> is not refused, the list of open spaces afterwards is the
  list before (with what other tabs wrote since), with the one space taken out and put back at the
  target position, clamped to the list: the other spaces keep their relative order and none is lost
  or repeated; and the space it answers is the one at that position.
\<close>

lemma reorder_is_a_move:
  assumes "spaces_reachable cfg s" and "reorder_space cfg env i target s = (Inr v, t)"
  defines "before \<equiv> map space_id (live_spaces cfg (reconcile_all (map space_id (live_spaces cfg s)) s))"
  defines "after \<equiv> map space_id (live_spaces cfg t)"
  shows "removeAll i after = removeAll i before \<and> mset after = mset before \<and> i \<in> set before \<and>
    after ! destination target (length before) = i \<and>
    live_spaces cfg t ! destination target (length before) = v"
proof -
  let ?u = "reconcile_all (map space_id (live_spaces cfg s)) s"
  let ?xs = "live_spaces cfg ?u" and ?dst = "destination target (length (live_spaces cfg ?u))"
  have inv: "spaces_inv ?u"
    using spaces_reachable_good [OF assms(1)] reconcile_all_facts by (simp add: spaces_good_def)
  have found: "src < length ?xs" "space_id (?xs ! src) = i" "?dst < length ?xs"
    if "find_index (\<lambda>r. space_id r = i) ?xs = Some src" for src
  proof -
    show "src < length ?xs" "space_id (?xs ! src) = i" using find_index_Some [OF that] by simp_all
    then show "?dst < length ?xs" by (intro destination_less) linarith
  qed
  from refl refl refl assms(2) show ?thesis
  proof (cases rule: reorder_outcome)
    case kept
    with found [OF kept(1)] show ?thesis by (auto simp: before_def after_def)
  next
    case (accepted src)
    note f = found [OF accepted(1)]
    let ?m = "moved src ?dst ?xs"
    have live: "live_spaces cfg t = map body (reordered env ?m)"
      unfolding accepted(4) by (rule live_reordered [OF inv]) (rule moved_facts(3) [OF f(1,3)])
    then have after: "after = moved src ?dst before"
      unfolding after_def before_def
      using reordered_ids [of env ?m] moved_map [OF f(1), of space_id ?dst] by (simp add: comp_def)
    have b: "src < length before" "?dst < length before" "before ! src = i" "length before = length ?xs"
      using f by (auto simp: before_def)
    have "v = body (reordered env ?m ! ?dst)" using accepted(3) by simp
    then have "live_spaces cfg t ! ?dst = v"
      unfolding live using f moved_facts(1) [OF f(1,3)] by simp
    moreover have "i \<in> set before" using b by (metis nth_mem)
    ultimately show ?thesis
      using moved_facts [OF b(1,2)] b(3,4) unfolding after by simp
  qed simp
qed

text \<open>The second sample space moved to the front.\<close>

definition sample_moved :: "SpaceDefinition outcome_of \<times> spaces_store" where
  "sample_moved = reorder_space sample_spaces_cfg (sample_spaces_env ''w'') ''b'' (- 5) (two_spaces [])"

lemma sample_reconcile_all: "reconcile_all [''a'', ''b''] (two_spaces fs) = two_spaces fs"
  by (simp add: reconcile_all_def spaces_reconcile_def two_spaces_eval spaces_read_def spaces_recoverRecord_def
      parseStoredSpace_def)

lemma sample_live: "live_spaces sample_spaces_cfg (two_spaces fs) = [body space_a, body space_b]"
  by (simp add: live_spaces_def two_spaces_eval space_le_def space_a_def space_b_def)

lemma sample_ids: "space_id (body space_a) = ''a''" "space_id (body space_b) = ''b''"
  by (simp_all add: space_a_def space_b_def)

lemma sample_moved_ok: "sample_moved = (Inr (projr (fst sample_moved)), snd sample_moved)"
  by (simp add: sample_moved_def reorder_space_def sample_live sample_ids sample_reconcile_all
      destination_def Let_def)

lemma reorder_is_a_move_witness:
  "map space_id (live_spaces sample_spaces_cfg (snd sample_moved)) ! 0 = ''b'' \<and>
   mset (map space_id (live_spaces sample_spaces_cfg (snd sample_moved))) = mset [''a'', ''b'']"
  using reorder_is_a_move [OF two_spaces_reachable sample_moved_ok [unfolded sample_moved_def]]
  by (simp add: sample_live sample_ids sample_reconcile_all destination_def sample_moved_def)

end
