(* ===== verification/SpacesSync.thy ===== *)
theory SpacesSync
  imports SpacesClaims SyncProps
begin

section \<open>Spaces and the server\<close>

text \<open>
  \<^verbatim>\<open>features/spaces/spacesSync.ts\<close>: the rows space definitions travel in, the adapter that makes the
  spaces store a store of the sync engine, the engine configured for spaces with its messages, its
  transport, and the lookup of a space that a URL names before this browser knows it. The two contracts
  of the engine are interpreted here on the spaces store.
\<close>

subsection \<open>Rows\<close>

definition space_fields :: "SpaceDefinition \<Rightarrow> (string \<times> json) list" where
  "space_fields s =
     [(''id'', JStr (space_id s)), (''name'', JStr (space_name s)), (''order'', JNum (space_order s)),
      (''created'', JNum (space_created s))]"

definition storedSpaceToStateRow :: "stored_space \<Rightarrow> state_row" where
  "storedSpaceToStateRow r =
     \<lparr>row_key = skey r, row_value = JObj (space_fields (body r)), row_updated = space_updated (body r),
      row_writeID = writeID r, row_deleted = space_deleted (body r)\<rparr>"

definition stateRowToStoredSpace :: "state_row \<Rightarrow> stored_space option" where
  "stateRowToStoredSpace row =
     (let v = row_value row
      in if \<not> is_object v \<or> field v ''id'' \<noteq> Some (JStr (row_key row)) then None
         else case (as_string (field v ''name''), as_finite (field v ''order''), as_finite (field v ''created'')) of
                (Some n, Some ord, Some c) \<Rightarrow>
                  Some \<lparr>writeID = row_writeID row,
                        body = \<lparr>space_id = row_key row, space_name = n, space_order = ord, space_created = c,
                                space_updated = row_updated row, space_deleted = row_deleted row\<rparr>\<rparr>
              | _ \<Rightarrow> None)"

lemma row_of_space [simp]:
  "row_key (storedSpaceToStateRow r) = skey r"
  "row_updated (storedSpaceToStateRow r) = space_updated (body r)"
  "row_writeID (storedSpaceToStateRow r) = writeID r"
  by (simp_all add: storedSpaceToStateRow_def)

lemma space_of_row:
  "stateRowToStoredSpace row = Some r \<Longrightarrow>
     skey r = row_key row \<and> space_updated (body r) = row_updated row \<and> writeID r = row_writeID row"
  by (auto simp: stateRowToStoredSpace_def Let_def split: if_splits option.splits)

lemma space_row_version:
  "stateRowToStoredSpace row = Some r \<Longrightarrow> compareRows (storedSpaceToStateRow r) row = 0"
  using space_of_row [of row r] by (simp add: compareRows_def compareStateVersions_def)

text \<open>
  A space comes back from the server as it was sent: the row of a stored space, open or closed,
  reads back as the same stored space.
\<close>

lemma space_row_roundtrip: "stateRowToStoredSpace (storedSpaceToStateRow r) = Some r"
  by (simp add: stateRowToStoredSpace_def storedSpaceToStateRow_def space_fields_def)

subsection \<open>The adapter and the engine\<close>

definition spacesStoreSyncAdapter :: "spaces_config \<Rightarrow> spaces_store sync_store" where
  "spacesStoreSyncAdapter cfg =
     \<lparr>all_rows = (\<lambda>s. map storedSpaceToStateRow (all_spaces s)),
      row_of = (\<lambda>s k. find (\<lambda>r. row_key r = k) (map storedSpaceToStateRow (all_spaces s))),
      merge_rows = (\<lambda>env rows s. merge_spaces cfg env (List.map_filter stateRowToStoredSpace rows) s),
      forget_rows = forget_spaces\<rparr>"

definition plural :: "nat \<Rightarrow> string \<Rightarrow> string \<Rightarrow> string" where
  "plural n one many = (if n = 1 then one else many)"

definition spacesSyncMessages :: sync_messages where
  "spacesSyncMessages =
     \<lparr>browserOnly = ''Spaces are saved in this browser only.'',
      pendingMsg = (\<lambda>n. ''Spaces are saved on this device, but '' @ digits n @ '' '' @ plural n ''change'' ''changes''
        @ '' could not sync. '' @ plural n ''It'' ''They'' @ '' will retry automatically.''),
      queuePersistence = ''Spaces are saved on this device, but the pending sync queue could not be saved between browser sessions.'',
      postRefused = (\<lambda>_ detail. ''Spaces are saved on this device, but the server refused to sync them: '' @ detail),
      cursorPersistence = ''Spaces are saved on this device, but the sync cursor could not be saved between browser sessions.''\<rparr>"

definition createSpacesSync :: "spaces_config \<Rightarrow> spaces_store sync_config" where
  "createSpacesSync cfg =
     \<lparr>namespace = ''spaces'', compare_rows = compareRows, messages = spacesSyncMessages,
      ops = spacesStoreSyncAdapter cfg, maxPostBytes = maxStatePostBytes, can_retry = True\<rparr>"

text \<open>A pull of a server without the namespace (404) is a pull of nothing.\<close>

definition spaces_since ::
    "nat option + state_row list \<times> num \<times> num option \<Rightarrow> nat option + state_row list \<times> num \<times> num option" where
  "spaces_since answer =
     (case answer of Inl s \<Rightarrow> if s = Some 404 then Inr ([], 0, None) else Inl s | Inr r \<Rightarrow> Inr r)"

subsection \<open>The contract\<close>

lemma find_row:
  assumes "spaces_inv st"
  shows "find (\<lambda>r. row_key r = k) (map storedSpaceToStateRow (all_spaces st)) =
    map_option storedSpaceToStateRow (get (sp_records st) k)"
proof -
  have "\<forall>p \<in> set m. skey (snd p) = fst p \<Longrightarrow>
      find (\<lambda>r. row_key r = k) (map storedSpaceToStateRow (vals m)) = map_option storedSpaceToStateRow (get m k)" for m
    by (induction m) auto
  moreover have "\<forall>p \<in> set (sp_records st). skey (snd p) = fst p"
    using assms by (auto simp: spaces_inv_def map_of_eq_Some_iff)
  ultimately show ?thesis by (simp add: all_spaces_def)
qed

lemma merge_space_records:
  "get (sp_records (snd (merge_space cfg env r cs))) k = Some q \<Longrightarrow>
     get (sp_records (snd cs)) k = Some q \<or> (q = r \<and> skey r = k)"
  by (auto simp: merge_space_def set_dirty_space_def spaces_records_drop get_put get_del Let_def
      split: prod.splits option.splits if_splits)

lemma merge_spaces_records:
  assumes "get (sp_records (merge_spaces cfg env rs s)) k = Some q"
  shows "get (sp_records s) k = Some q \<or> (q \<in> set rs \<and> skey q = k)"
proof -
  have "get (sp_records (snd (fold (merge_space cfg env) rs cs))) k = Some q \<Longrightarrow>
     get (sp_records (snd cs)) k = Some q \<or> (q \<in> set rs \<and> skey q = k)" for cs
  proof (induction rs arbitrary: cs)
    case (Cons r rs)
    from Cons.IH [of "merge_space cfg env r cs"] Cons.prems merge_space_records [of cfg env r cs k q]
    show ?case by auto
  qed simp
  from this [of "(False, s)"] assms show ?thesis
    by (cases "fold (merge_space cfg env) rs (False, s)") (auto simp: merge_spaces_def split: if_splits)
qed

lemma forget_spaces_records:
  "get (sp_records (forget_spaces ks s)) k = (if k \<in> set ks then None else get (sp_records s) k)"
proof -
  have "get (sp_records (fold spaces_drop js s)) k = (if k \<in> set js then None else get (sp_records s) k)" for js
    by (induction js arbitrary: s) (auto simp: spaces_records_drop get_del)
  then show ?thesis by (auto simp: forget_spaces_def Let_def filter_empty_conv)
qed

lemma spaces_adapter_simps [simp]:
  "all_rows (spacesStoreSyncAdapter cfg) s = map storedSpaceToStateRow (all_spaces s)"
  "merge_rows (spacesStoreSyncAdapter cfg) env rows s = merge_spaces cfg env (List.map_filter stateRowToStoredSpace rows) s"
  "forget_rows (spacesStoreSyncAdapter cfg) ks s = forget_spaces ks s"
  by (simp_all add: spacesStoreSyncAdapter_def)

lemma spaces_row_of:
  "spaces_inv s \<Longrightarrow> row_of (spacesStoreSyncAdapter cfg) s k = map_option storedSpaceToStateRow (get (sp_records s) k)"
  by (simp add: spacesStoreSyncAdapter_def find_row)

lemma spaces_row_all:
  assumes "spaces_inv st"
  shows "row_of (spacesStoreSyncAdapter cfg) st k = Some r \<longleftrightarrow>
     r \<in> set (all_rows (spacesStoreSyncAdapter cfg) st) \<and> row_key r = k"
proof -
  have rec: "get (sp_records st) k = Some q \<longleftrightarrow> q \<in> set (all_spaces st) \<and> skey q = k" for q
    using assms by (force simp: all_spaces_def spaces_inv_def map_of_eq_Some_iff)
  have "row_of (spacesStoreSyncAdapter cfg) st k = Some r \<longleftrightarrow>
      (\<exists>q. get (sp_records st) k = Some q \<and> r = storedSpaceToStateRow q)"
    by (auto simp: spaces_row_of [OF assms])
  also have "\<dots> \<longleftrightarrow> (\<exists>q. q \<in> set (all_spaces st) \<and> skey q = k \<and> r = storedSpaceToStateRow q)"
    unfolding rec by blast
  also have "\<dots> \<longleftrightarrow> r \<in> set (all_rows (spacesStoreSyncAdapter cfg) st) \<and> row_key r = k"
    by auto
  finally show ?thesis .
qed

lemma spaces_merge_row:
  assumes "spaces_inv st"
    and "row_of (spacesStoreSyncAdapter cfg) (merge_rows (spacesStoreSyncAdapter cfg) env rs st) k = Some r"
  shows "row_of (spacesStoreSyncAdapter cfg) st k = Some r \<or>
    (\<exists>a \<in> set rs. row_key a = k \<and> compareRows r a \<le> 0)"
proof -
  let ?ns = "List.map_filter stateRowToStoredSpace rs"
  obtain n where n: "get (sp_records (merge_spaces cfg env ?ns st)) k = Some n" "r = storedSpaceToStateRow n"
    using assms(2) spaces_row_of [OF spaces_inv_merge [OF assms(1)]] by auto
  consider "get (sp_records st) k = Some n" | "n \<in> set ?ns" "skey n = k"
    using merge_spaces_records [OF n(1)] by blast
  then show ?thesis
  proof cases
    case 2
    then obtain a where a: "a \<in> set rs" "stateRowToStoredSpace a = Some n" by auto
    then have "row_key a = k" "compareRows r a \<le> 0"
      using space_of_row [OF a(2)] space_row_version [OF a(2)] 2 n by simp_all
    with a(1) show ?thesis by blast
  qed (use n in \<open>simp add: spaces_row_of [OF assms(1)]\<close>)
qed

interpretation spaces_contract: sync_contract "spacesStoreSyncAdapter cfg" spaces_inv for cfg
proof (unfold_locales, goal_cases)
  case (1 st k r)
  then show ?case by (rule spaces_row_all)
next
  case (2 st env rs)
  then show ?case by (simp add: spaces_inv_merge)
next
  case (3 st ks)
  then show ?case by (simp add: spaces_inv_forget)
next
  case (4 st env rs k r)
  then show ?case by (intro spaces_merge_row)
next
  case (5 st ks k)
  then show ?case
    using spaces_row_of [OF spaces_inv_forget [OF 5]] spaces_row_of [OF 5]
    by (simp add: forget_spaces_records)
qed

interpretation spaces_engine:
  sync_engine "spacesStoreSyncAdapter cfg" spaces_inv "createSpacesSync cfg" for cfg
  by unfold_locales (simp_all add: createSpacesSync_def)

text \<open>
  C10. No space is lost on its way to the server: once the first full pull has landed, every space of
  the store, open or closed, is queued to be sent, or the server (or another tab that has it to send)
  is known to hold a version of it at least as new, in every state the engine reaches.
\<close>

theorem spaces_no_lost_update:
  assumes "sync_run (createSpacesSync cfg) spaces_inv s acks"
    and "\<not> sy_disposed s" and "\<not> sy_catchUp s" and "r \<in> set (all_spaces (sy_store s))"
  shows "space_id (body r) \<in> set (pending s) \<or>
    (\<exists>a \<in> set acks. row_key a = space_id (body r) \<and> compareRows (storedSpaceToStateRow r) a \<le> 0)"
proof -
  have inv: "spaces_inv (sy_store s)"
    using spaces_engine.run_good [OF assms(1)] by (simp add: spaces_engine.good_def)
  have "row_in (createSpacesSync cfg) s (skey r) = Some (storedSpaceToStateRow r)"
    using assms(4) spaces_row_all [OF inv, of cfg "skey r"] by (simp add: row_in_def createSpacesSync_def)
  then show ?thesis
    using spaces_engine.no_lost_update [OF assms(1-3)]
    by (auto simp: covered_def covered_by_def pending_def)
qed

definition spaces_created :: "spaces_store sync" where
  "spaces_created = createStateSync (createSpacesSync sample_spaces_cfg) (one_space [])
     \<lparr>items = [], readable = True, faults = []\<rparr>"

definition spaces_started :: "spaces_store sync" where
  "spaces_started = sync_event (createSpacesSync sample_spaces_cfg) (sample_spaces_env []) Start spaces_created"

definition spaces_pulled :: "spaces_store sync" where
  "spaces_pulled =
     sync_event (createSpacesSync sample_spaces_cfg) (sample_spaces_env []) (PullOk [] 0 None) spaces_started"

theorem spaces_no_lost_update_witness:
  "\<exists>acks. ''a'' \<in> set (pending spaces_pulled) \<or>
    (\<exists>a \<in> set acks. row_key a = ''a'' \<and> compareRows (storedSpaceToStateRow space_a) a \<le> 0)"
proof -
  let ?acks = "([] @ acked Start spaces_created) @ acked (PullOk [] 0 None) spaces_started"
  have "spaces_reachable sample_spaces_cfg (one_space [])"
    unfolding one_space_def by (intro spaces_reachable.step no_spaces_reachable) simp
  from spaces_reachable_good [OF this] have inv: "spaces_inv (one_space [])"
    by (simp add: spaces_good_def)
  have run: "sync_run (createSpacesSync sample_spaces_cfg) spaces_inv spaces_pulled ?acks"
    unfolding spaces_pulled_def spaces_started_def
    by (intro sync_run.event, unfold spaces_created_def, rule sync_run.created, rule inv)
      (simp_all add: admissible_def)
  have live: "\<not> sy_disposed spaces_pulled" "\<not> sy_catchUp spaces_pulled"
    by (simp_all add: spaces_pulled_def spaces_started_def spaces_created_def createStateSync_def control_defs)
  have store: "sy_store spaces_started = one_space []"
    by (simp add: spaces_started_def spaces_created_def createStateSync_def)
  have "sy_store spaces_pulled = one_space []"
    using store by (simp add: spaces_pulled_def spaces_started_def spaces_created_def createStateSync_def
        control_defs pull_landed_def catch_up_def purged_row_def forget_def createSpacesSync_def merge_spaces_def
        split: prod.split)
  then have "space_a \<in> set (all_spaces (sy_store spaces_pulled))"
    by (simp add: all_spaces_def one_space_eval)
  from spaces_no_lost_update [OF run live this] show ?thesis
    by (intro exI [of _ ?acks]) (simp add: space_a_def)
qed

subsection \<open>A space rolled back after it was announced\<close>

lemma chunk_single: "chunkRows [row] n = [[row]]"
  by (simp add: chunkRows_def Let_def)

text \<open>
  C11. Rolling a creation back does not take it back. A created space is announced to the sync engine,
  which, when idle, posts it in the same turn. \<open>rollbackCreate\<close> then removes the space from this
  browser, and nothing tells the engine or the server: as soon as a pull delivers the posted row, the
  space is open again in this browser, exactly as it was created.
\<close>

theorem rollback_does_not_withdraw:
  assumes "spaces_inv s" and "create_space cfg env s = (Inr v, s1)"
    and "get (sp_records s) (space_id v) = None"
    and "sy_store e = s" and "sy_queue e = []" and "sy_sending e = None" and "\<not> sy_disposed e"
    and "\<not> sy_blocked e"
  defines "row \<equiv> storedSpaceToStateRow \<lparr>writeID = ids env 1, body = v\<rparr>"
  shows "sp_mutations s1 = sp_mutations s @ [[\<lparr>writeID = ids env 1, body = v\<rparr>]] \<and>
    sy_sending (sync_event (createSpacesSync cfg) env (Mutated s1 [row]) e) = Some (Posting [row] [] []) \<and>
    fst (rollbackCreate (space_id v) s1) \<and>
    v \<notin> set (live_spaces cfg (snd (rollbackCreate (space_id v) s1))) \<and>
    v \<in> set (live_spaces cfg (merge_rows (spacesStoreSyncAdapter cfg) env' [row] (snd (rollbackCreate (space_id v) s1))))"
proof -
  let ?r = "\<lparr>writeID = ids env 1, body = v\<rparr> :: stored_space"
  let ?cfg = "createSpacesSync cfg" and ?s2 = "snd (rollbackCreate (space_id v) s1)"
  have v: "\<not> space_deleted v" and s1: "s1 = put_space ?r s"
    using assms(2) by (auto simp: create_space_def Let_def)
  have i1: "spaces_inv s1" unfolding s1 by (rule spaces_inv_put [OF assms(1)])
  have g1: "get (sp_records s1) (space_id v) = Some ?r"
    unfolding s1 put_records by (simp add: get_put)
  have d1: "space_id v \<in> set (sp_dirty s1)"
    by (simp add: s1 put_space_def announce_def spaces_notify_def spaces_scheduleFlush_def set_dirty_space_def)
  have rb: "fst (rollbackCreate (space_id v) s1)" "sp_records ?s2 = del (space_id v) (sp_records s1)"
    using g1 d1 v by (simp_all add: rollbackCreate_def Let_def)
  have i2: "spaces_inv ?s2"
    using i1 g1 d1 v rb(2)
    by (auto simp: rollbackCreate_def Let_def spaces_inv_def get_del spaces_keyed_def spaces_notify_def)
  define t where "t = enqueueKeys ?cfg [space_id v]
    (e\<lparr>sy_store := s1, sy_held := remove_all [space_id v] (sy_held e)\<rparr>)"
  have t: "sy_store t = s1" "sy_queue t = [space_id v]" "sy_sending t = None" "\<not> sy_disposed t"
    "\<not> sy_blocked t" "space_id v \<notin> set (sy_held t)"
    using assms(5-8) by (simp_all add: t_def set_add_def)
  have row: "row_in ?cfg t (space_id v) = Some row"
    using spaces_row_of [OF i1, of cfg "space_id v"] g1 t(1) by (simp add: row_in_def createSpacesSync_def row_def)
  have wait: "waiting t = [space_id v]" using t by (simp add: waiting_def)
  have "sync_event ?cfg env (Mutated s1 [row]) e = sendOnce ?cfg t"
    using assms(7) t(3) by (simp add: sendQueue_def t_def row_def)
  then have post: "sy_sending (sync_event ?cfg env (Mutated s1 [row]) e) = Some (Posting [row] [] [])"
    using t by (simp add: sendOnce_def wait row chunk_single List.map_filter_simps start_post_def Let_def)
  have gone: "v \<notin> set (live_spaces cfg ?s2)"
    unfolding live_set [OF i2] by (simp add: rb(2) get_del)
  have returned: "get (sp_records (merge_spaces cfg env' [?r] ?s2)) (space_id v) = Some ?r"
    using v by (simp add: merge_spaces_def merge_space_def rb(2) get_del space_expired_def set_dirty_space_def get_put)
  have "v \<in> set (live_spaces cfg (merge_spaces cfg env' [?r] ?s2))"
    unfolding live_set [OF spaces_inv_merge [OF i2]] using returned v by simp
  then show ?thesis
    using post rb(1) gone by (simp add: s1 put_is_batch row_def space_row_roundtrip List.map_filter_simps)
qed

theorem rollback_does_not_withdraw_witness:
  "body space_a \<in> set (live_spaces sample_spaces_cfg (merge_rows (spacesStoreSyncAdapter sample_spaces_cfg)
     (sample_spaces_env ''x'') [storedSpaceToStateRow space_a] (snd (rollbackCreate ''a'' (one_space [])))))"
proof -
  let ?e = "createStateSync (createSpacesSync sample_spaces_cfg) (no_spaces [])
    \<lparr>items = [], readable = True, faults = []\<rparr>"
  have id: "space_id (body space_a) = ''a''" by (simp add: space_a_def)
  have c: "create_space sample_spaces_cfg (sample_spaces_env ''a'') (no_spaces []) =
      (Inr (body space_a), one_space [])"
    by (simp add: no_spaces_eval one_space_eval spaces_eval space_a_def)
  have w: "\<lparr>writeID = ids (sample_spaces_env ''a'') 1, body = body space_a\<rparr> = space_a"
    by (simp add: sample_spaces_env_def space_a_def)
  have inv: "spaces_inv (no_spaces [])"
    using spaces_reachable_good [OF no_spaces_reachable] by (simp add: spaces_good_def)
  have new: "get (sp_records (no_spaces [])) (space_id (body space_a)) = None"
    by (simp add: no_spaces_eval)
  have idle: "sy_store ?e = no_spaces []" "sy_queue ?e = []" "sy_sending ?e = None" "\<not> sy_disposed ?e"
    "\<not> sy_blocked ?e"
    by (simp_all add: createStateSync_def readQueue_def uniq_def)
  show ?thesis
    using rollback_does_not_withdraw [OF inv c new idle, of "sample_spaces_env ''x''"]
    unfolding w id by blast
qed

subsection \<open>Looking up a space the URL names\<close>

text \<open>
  \<open>createServerSpaceLookup\<close>: a space this browser does not know is waited for until the first pull, its
  arrival, or a timeout of two seconds, whichever is first. \<open>lk_effects\<close> logs the calls of \<open>switchTo\<close>
  and \<open>fallback\<close>.
\<close>

datatype lookup_state = LookupPending | LookupShown | LookupFallback

datatype lookup_effect = SwitchTo string | Fallback

record space_lookup =
  lk_id :: string
  lk_state :: lookup_state
  lk_timer :: bool
  lk_effects :: "lookup_effect list"

definition createServerSpaceLookup :: "(string \<Rightarrow> bool) \<Rightarrow> string \<Rightarrow> space_lookup" where
  "createServerSpaceLookup hasLocal i =
     \<lparr>lk_id = i, lk_state = (if hasLocal i then LookupShown else LookupPending),
      lk_timer = (\<not> hasLocal i), lk_effects = []\<rparr>"

definition lookup_arrived :: "string list \<Rightarrow> space_lookup \<Rightarrow> space_lookup" where
  "lookup_arrived is l =
     (if lk_state l \<noteq> LookupPending \<or> lk_id l \<notin> set is then l
      else l\<lparr>lk_state := LookupShown, lk_timer := False, lk_effects := lk_effects l @ [SwitchTo (lk_id l)]\<rparr>)"

definition lookup_timeout :: "space_lookup \<Rightarrow> space_lookup" where
  "lookup_timeout l =
     (if \<not> lk_timer l then l
      else let l1 = l\<lparr>lk_timer := False\<rparr>
           in if lk_state l1 \<noteq> LookupPending then l1
              else l1\<lparr>lk_state := LookupFallback, lk_effects := lk_effects l1 @ [Fallback]\<rparr>)"

definition firstPullCompleted :: "string list \<Rightarrow> space_lookup \<Rightarrow> space_lookup" where
  "firstPullCompleted is l =
     (if lk_state l \<noteq> LookupPending then l
      else if lk_id l \<in> set is then lookup_arrived is l
      else l\<lparr>lk_state := LookupFallback, lk_timer := False, lk_effects := lk_effects l @ [Fallback]\<rparr>)"

definition lookup_dispose :: "space_lookup \<Rightarrow> space_lookup" where
  "lookup_dispose l = l\<lparr>lk_timer := False\<rparr>"

datatype lookup_event = RowsArrived "string list" | FirstPull "string list" | Timeout | DisposeLookup

fun lookup_step :: "lookup_event \<Rightarrow> space_lookup \<Rightarrow> space_lookup" where
  "lookup_step (RowsArrived is) l = lookup_arrived is l"
| "lookup_step (FirstPull is) l = firstPullCompleted is l"
| "lookup_step Timeout l = lookup_timeout l"
| "lookup_step DisposeLookup l = lookup_dispose l"

definition lookup_decided :: "space_lookup \<Rightarrow> lookup_effect list" where
  "lookup_decided l =
     (case lk_state l of LookupPending \<Rightarrow> [] | LookupShown \<Rightarrow> [SwitchTo (lk_id l)] | LookupFallback \<Rightarrow> [Fallback])"

lemma lookup_step_decided:
  "lk_effects l = lookup_decided l \<Longrightarrow> lk_effects (lookup_step e l) = lookup_decided (lookup_step e l)"
  by (cases e)
    (auto simp: lookup_decided_def lookup_arrived_def lookup_timeout_def firstPullCompleted_def
      lookup_dispose_def Let_def split: lookup_state.splits)

lemma lookup_step_id [simp]: "lk_id (lookup_step e l) = lk_id l"
  by (cases e)
    (simp_all add: lookup_arrived_def lookup_timeout_def firstPullCompleted_def lookup_dispose_def Let_def)

text \<open>
  A lookup decides once. Whatever arrives, in whatever order (rows, the first pull, the timeout,
  a disposal, each any number of times), a space that was not known is switched to at most once, or
  the fallback is taken at most once, never both, and its state says which.
\<close>

lemma lookup_decides_once:
  assumes "\<not> hasLocal i"
  shows "lk_effects (fold lookup_step es (createServerSpaceLookup hasLocal i)) =
    (case lk_state (fold lookup_step es (createServerSpaceLookup hasLocal i)) of
       LookupPending \<Rightarrow> [] | LookupShown \<Rightarrow> [SwitchTo i] | LookupFallback \<Rightarrow> [Fallback])"
proof -
  let ?l = "createServerSpaceLookup hasLocal i"
  have keep: "lk_effects l = lookup_decided l \<Longrightarrow>
      lk_effects (fold lookup_step es l) = lookup_decided (fold lookup_step es l)" for l
    by (induction es arbitrary: l) (auto intro: lookup_step_decided)
  have "lk_id (fold lookup_step es l) = lk_id l" for l
    by (induction es arbitrary: l) auto
  then have same: "lk_id (fold lookup_step es ?l) = i"
    by (simp add: createServerSpaceLookup_def)
  have "lk_effects ?l = lookup_decided ?l"
    using assms by (simp add: createServerSpaceLookup_def lookup_decided_def)
  from keep [OF this] show ?thesis by (simp only: lookup_decided_def same)
qed

lemma lookup_decides_once_witness:
  "lk_effects (fold lookup_step [RowsArrived [''b''], FirstPull [''a''], Timeout]
     (createServerSpaceLookup (\<lambda>_. False) ''a'')) = [SwitchTo ''a'']"
  using lookup_decides_once [of "\<lambda>_. False" "''a''" "[RowsArrived [''b''], FirstPull [''a''], Timeout]"]
  by (simp add: createServerSpaceLookup_def lookup_arrived_def lookup_timeout_def firstPullCompleted_def)

end
