(* ===== verification/SpacesController.thy ===== *)
theory SpacesController
  imports SpacesClaims
begin

section \<open>Switching, closing and filling spaces\<close>

text \<open>
  \<^verbatim>\<open>features/spaces/spacesControllerModel.ts\<close>: what the workspace does when a space is switched to,
  closed, created or sent a panel. The functions take their dependencies as arguments, as the code
  does; each dependency is a step on a world \<open>'w\<close> (the dock, the history, the stores), with its
  result. A call that may throw answers \<open>None\<close> when it does.
\<close>

subsection \<open>Restoring a dock\<close>

text \<open>
  \<open>SpaceDockSource\<close>: the layout of the space, its last good copy (each may hold no dock), whether they
  are the same object, and whether reading them had a problem.
\<close>

record 'd dock_source =
  ds_stored :: "'d option option"
  ds_backup :: "'d option option"
  ds_same :: bool
  ds_problem :: bool

record restore_result =
  rr_restored :: bool
  rr_failed :: bool

abbreviation source_dock :: "'d option option \<Rightarrow> 'd option" where
  "source_dock layout \<equiv> Option.bind layout (\<lambda>d. d)"

definition restoreSpaceDock ::
    "('w \<Rightarrow> 'w) \<Rightarrow> ('d \<Rightarrow> 'w \<Rightarrow> bool \<times> 'w) \<Rightarrow> ('w \<Rightarrow> 'w) \<Rightarrow> 'd dock_source \<Rightarrow> 'w \<Rightarrow> restore_result \<times> 'w" where
  "restoreSpaceDock clear restore recoveredFromBackup src w =
     (let (restored, failed, w1) =
            (case source_dock (ds_stored src) of
               Some d \<Rightarrow> (let (ok, w') = restore d (clear w) in (ok, ds_problem src \<or> \<not> ok, w'))
             | None \<Rightarrow> (False, ds_problem src, clear w));
          (restored, failed, w2) =
            (case source_dock (ds_backup src) of
               Some d \<Rightarrow>
                 if \<not> restored \<and> \<not> ds_same src
                 then (let (ok, w') = restore d (clear w1)
                       in (ok, failed \<or> \<not> ok, if ok then recoveredFromBackup w' else w'))
                 else (restored, failed, w1)
             | None \<Rightarrow> (restored, failed, w1));
          w3 = (if \<not> restored \<and> failed then clear w2 else w2)
      in (\<lparr>rr_restored = restored, rr_failed = failed\<rparr>, w3))"

subsection \<open>Switching\<close>

record ('d, 'w) switch_deps =
  sd_flush :: "'w \<Rightarrow> bool \<times> 'w"
  sd_beginHistory :: "'w \<Rightarrow> 'w"
  sd_suspend :: "'w \<Rightarrow> 'w"
  sd_read :: "string \<Rightarrow> 'w \<Rightarrow> 'd dock_source"
  sd_suppressed :: "('w \<Rightarrow> restore_result \<times> 'w) \<Rightarrow> 'w \<Rightarrow> restore_result \<times> 'w"
  sd_clear :: "'w \<Rightarrow> 'w"
  sd_restore :: "'d \<Rightarrow> 'w \<Rightarrow> bool \<times> 'w"
  sd_recovered :: "string \<Rightarrow> 'w \<Rightarrow> 'w"
  sd_complete :: "string \<Rightarrow> 'w \<Rightarrow> 'w"
  sd_persistActive :: "string \<Rightarrow> 'w \<Rightarrow> bool \<times> 'w"
  sd_replaceStamp :: "'w \<Rightarrow> 'w"
  sd_finish :: "bool \<Rightarrow> bool \<Rightarrow> 'w \<Rightarrow> 'w"

definition performSpaceSwitch :: "string \<Rightarrow> ('d, 'w) switch_deps \<Rightarrow> 'w \<Rightarrow> bool \<times> 'w" where
  "performSpaceSwitch i d w =
     (let (flushed, w1) = sd_flush d w
      in if \<not> flushed then (False, w1)
         else let w2 = sd_suspend d (sd_beginHistory d w1);
                  src = sd_read d i w2;
                  (result, w3) =
                    sd_suppressed d (restoreSpaceDock (sd_clear d) (sd_restore d) (sd_recovered d i) src) w2;
                  (saved, w4) = sd_persistActive d i (sd_complete d i w3)
              in (True, sd_finish d (rr_failed result) saved (sd_replaceStamp d w4)))"

subsection \<open>Closing the active space\<close>

type_synonym ('a, 'w) space_call = "'w \<Rightarrow> 'a \<times> 'w"

definition neighbor :: "string \<Rightarrow> SpaceDefinition list \<Rightarrow> SpaceDefinition option" where
  "neighbor closing spaces =
     (case find_index (\<lambda>s. space_id s = closing) spaces of
        None \<Rightarrow> if spaces = [] then None else Some (spaces ! 0)
      | Some k \<Rightarrow>
          if Suc k < length spaces then Some (spaces ! Suc k)
          else if 0 < k then Some (spaces ! (k - 1)) else None)"

definition moveBeforeActiveClose ::
    "(SpaceDefinition outcome_of, 'w) space_call \<Rightarrow> (string \<Rightarrow> (bool, 'w) space_call) \<Rightarrow>
     (string \<Rightarrow> (bool option, 'w) space_call) \<Rightarrow> string \<Rightarrow> string option \<Rightarrow> SpaceDefinition list \<Rightarrow>
     'w \<Rightarrow> unit outcome_of \<times> 'w" where
  "moveBeforeActiveClose create rollback switchTo closing active_id spaces w =
     (if active_id \<noteq> Some closing then (Inr (), w)
      else let (next, replacement, w1) =
                 (case neighbor closing spaces of
                    Some n \<Rightarrow> (Inr n, None, w)
                  | None \<Rightarrow> (let (created, w') = create w
                             in (created, (case created of Inr v \<Rightarrow> Some v | Inl _ \<Rightarrow> None), w')))
           in case next of
                Inl reason \<Rightarrow> (Inl reason, w1)
              | Inr n \<Rightarrow>
                  let (switched, w2) = switchTo (space_id n) w1
                  in if switched = Some True then (Inr (), w2)
                     else (Inl ''This space could not switch away before closing. Nothing was discarded.'',
                           (case replacement of Some r \<Rightarrow> snd (rollback (space_id r) w2) | None \<Rightarrow> w2)))"

subsection \<open>Sending a panel\<close>

text \<open>The write of a panel into a space: whether it was there already, or why it cannot be written.\<close>

definition sendPanelToExistingSpace ::
    "(string \<Rightarrow> 'p \<Rightarrow> (string + bool, 'w) space_call) \<Rightarrow> ('w \<Rightarrow> 'w) \<Rightarrow> string \<Rightarrow> 'p \<Rightarrow>
     'w \<Rightarrow> (string \<times> bool) outcome_of \<times> 'w" where
  "sendPanelToExistingSpace writePanel closeSource i p w =
     (let (written, w1) = writePanel i p w
      in case written of
           Inl reason \<Rightarrow>
             (Inl (''This pane could not be sent because the target space is '' @ reason @ ''. Nothing was discarded.''), w1)
         | Inr duplicate \<Rightarrow> (Inr (i, duplicate), closeSource w1))"

definition sendPanelToNewSpace ::
    "(SpaceDefinition outcome_of, 'w) space_call \<Rightarrow> (string \<Rightarrow> (bool, 'w) space_call) \<Rightarrow> (bool, 'w) space_call \<Rightarrow>
     (string \<Rightarrow> 'p \<Rightarrow> (string + bool, 'w) space_call) \<Rightarrow> ('w \<Rightarrow> 'w) \<Rightarrow> 'p \<Rightarrow>
     'w \<Rightarrow> (string \<times> bool) outcome_of \<times> 'w" where
  "sendPanelToNewSpace create rollback flushIt writePanel closeSource p w =
     (let (created, w1) = create w
      in case created of
           Inl reason \<Rightarrow> (Inl reason, w1)
         | Inr v \<Rightarrow>
             let (written, w2) = writePanel (space_id v) p w1
             in case written of
                  Inl _ \<Rightarrow>
                    (Inl ''This pane could not be sent because the new space layout could not be written. Nothing was discarded.'',
                     snd (rollback (space_id v) w2))
                | Inr duplicate \<Rightarrow> (Inr (space_id v, duplicate), closeSource (snd (flushIt w2))))"

subsection \<open>Creating and switching\<close>

definition createAndSwitchSpace ::
    "(SpaceDefinition outcome_of, 'w) space_call \<Rightarrow> (string \<Rightarrow> string \<Rightarrow> (SpaceDefinition outcome_of, 'w) space_call) \<Rightarrow>
     (string \<Rightarrow> (bool option, 'w) space_call) \<Rightarrow> (string \<Rightarrow> (bool, 'w) space_call) \<Rightarrow> (bool, 'w) space_call \<Rightarrow>
     string \<Rightarrow> 'w \<Rightarrow> SpaceDefinition outcome_of \<times> 'w" where
  "createAndSwitchSpace create renameIt switchTo rollback flushIt name w =
     (let (created, w1) = create w
      in case created of
           Inl reason \<Rightarrow> (Inl reason, w1)
         | Inr v \<Rightarrow>
             let (renamed, w2) = renameIt (space_id v) name w1
             in case renamed of
                  Inl reason \<Rightarrow> (Inl reason, snd (rollback (space_id v) w2))
                | Inr r \<Rightarrow>
                    let (switched, w3) = switchTo (space_id v) w2
                    in if switched \<noteq> Some True
                       then (Inl ''This space could not be opened. Nothing was discarded.'',
                             snd (rollback (space_id v) w3))
                       else (Inr r, snd (flushIt w3)))"

subsection \<open>The next space\<close>

datatype direction = Previous | Next

definition spaceIDInDirection :: "SpaceDefinition list \<Rightarrow> string option \<Rightarrow> direction \<Rightarrow> string option" where
  "spaceIDInDirection spaces active_id dir =
     (if spaces = [] then None
      else case find_index (\<lambda>s. Some (space_id s) = active_id) spaces of
             None \<Rightarrow> Some (space_id (spaces ! 0))
           | Some k \<Rightarrow>
               Some (space_id (spaces ! (nat ((int k + (if dir = Next then 1 else - 1) + int (length spaces))
                 mod int (length spaces))))))"

subsection \<open>What they guarantee\<close>

text \<open>
  A dock is never left half restored. Provided clearing empties the dock and a restore that
  answers true has put its layout on the dock, the dock afterwards shows the stored layout or the last
  good copy when the answer is \<open>restored\<close>, and is empty when it is not; and a failure is reported
  whenever the stored layout was there and could not be restored.
\<close>

lemma restore_all_or_nothing:
  assumes clear: "\<And>w. shows_dock (clear w) = None"
    and restore: "\<And>d w. fst (restore d w) \<Longrightarrow> shows_dock (snd (restore d w)) = Some d"
    and recover: "\<And>w. shows_dock (told w) = shows_dock w"
    and result: "restoreSpaceDock clear restore told src w = (res, w')"
  shows "(rr_restored res \<longrightarrow>
      (shows_dock w' = source_dock (ds_stored src) \<or> shows_dock w' = source_dock (ds_backup src)) \<and> shows_dock w' \<noteq> None) \<and>
    (\<not> rr_restored res \<longrightarrow> shows_dock w' = None) \<and>
    (ds_problem src \<longrightarrow> rr_failed res) \<and>
    (rr_restored res \<and> shows_dock w' \<noteq> source_dock (ds_stored src) \<and> source_dock (ds_stored src) \<noteq> None \<longrightarrow> rr_failed res)"
proof -
  have r: "shows_dock v = Some d" if "restore d u = (True, v)" for d u v
    using restore [of d u] that by simp
  show ?thesis
  proof (cases "source_dock (ds_stored src)")
    case None
    show ?thesis
    proof (cases "source_dock (ds_backup src)")
      case None
      with \<open>source_dock (ds_stored src) = None\<close> result clear show ?thesis
        by (auto simp: restoreSpaceDock_def Let_def)
    next
      case (Some b)
      obtain ok v where b: "restore b (clear (clear w)) = (ok, v)" by fastforce
      from None Some b result clear r recover show ?thesis
        by (cases ok; cases "ds_same src") (auto simp: restoreSpaceDock_def Let_def)
    qed
  next
    case (Some d)
    obtain ok v where d: "restore d (clear w) = (ok, v)" by fastforce
    show ?thesis
    proof (cases "source_dock (ds_backup src)")
      case None
      with Some d result clear r show ?thesis
        by (cases ok) (auto simp: restoreSpaceDock_def Let_def)
    next
      case b: (Some b)
      obtain ok2 v2 where b2: "restore b (clear v) = (ok2, v2)" by fastforce
      from Some d b b2 result clear r recover show ?thesis
        by (cases ok; cases ok2; cases "ds_same src") (auto simp: restoreSpaceDock_def Let_def)
    qed
  qed
qed

text \<open>A dock that refuses the broken layout: the last good copy is shown.\<close>

definition toy_restore :: "string \<Rightarrow> string option \<Rightarrow> bool \<times> string option" where
  "toy_restore d w = (d \<noteq> ''broken'', if d \<noteq> ''broken'' then Some d else Some ''half'')"

lemma restore_all_or_nothing_witness:
  "restoreSpaceDock (\<lambda>_. None) toy_restore (\<lambda>w. w)
     \<lparr>ds_stored = Some (Some ''broken''), ds_backup = Some (Some ''good''), ds_same = False, ds_problem = False\<rparr>
     (Some ''old'') = (\<lparr>rr_restored = True, rr_failed = True\<rparr>, Some ''good'') \<and>
   Some ''good'' \<noteq> (None :: string option)"
proof
  show r: "restoreSpaceDock (\<lambda>_. None) toy_restore (\<lambda>w. w)
     \<lparr>ds_stored = Some (Some ''broken''), ds_backup = Some (Some ''good''), ds_same = False, ds_problem = False\<rparr>
     (Some ''old'') = (\<lparr>rr_restored = True, rr_failed = True\<rparr>, Some ''good'')"
    by (simp add: restoreSpaceDock_def toy_restore_def)
  show "Some ''good'' \<noteq> (None :: string option)"
    using restore_all_or_nothing [of "\<lambda>w. w" "\<lambda>_. None" toy_restore "\<lambda>w. w", OF refl _ refl r]
    by (simp add: toy_restore_def)
qed

text \<open>What a reconciliation leaves of the unsaved spaces, as long as the storage is in use.\<close>

definition quiet :: "spaces_store \<Rightarrow> spaces_store \<Rightarrow> bool" where
  "quiet s t \<longleftrightarrow> sp_storage t = None \<or> sp_dirty t = sp_dirty s"

lemma quiet_reconcile: "quiet s (snd (spaces_reconcile i s))"
proof (cases "sp_storage s = None \<or> spaces_read (spaceRecordKey i) i s = None")
  case True
  then show ?thesis
    by (auto simp: spaces_reconcile_def quiet_def spaces_degrade_def spaces_notify_def)
next
  case False
  then obtain raw p u where x: "spaces_read (spaceRecordKey i) i s = Some (raw, p, u)"
    by (metis option.exhaust prod_cases3)
  have recover: "quiet s (snd (spaces_recoverRecord i c s))" for c
  proof -
    have "quiet s (if truthy c then spaces_preserveRaw i (the c) s else s)"
      by (auto simp: quiet_def spaces_preserveRaw_def spaces_guard_def spaces_write_def spaces_degrade_def
          spaces_notify_def split: option.split prod.split)
    then show ?thesis
      by (auto simp: spaces_recoverRecord_def quiet_def Let_def spaces_degrade_def spaces_notify_def
          spaces_restored_def split: option.split)
  qed
  have "quiet s u"
    using x recover [of raw] by (auto simp: spaces_read_def split: option.splits)
  with x show ?thesis
    by (cases p) (auto simp: spaces_reconcile_def quiet_def Let_def spaces_notify_def)
qed

lemma created_space:
  "create_space cfg env s = (Inr v, w1) \<Longrightarrow>
     get (sp_records w1) (space_id v) = Some \<lparr>writeID = ids env 1, body = v\<rparr> \<and>
     space_id v \<in> set (sp_dirty w1) \<and> \<not> space_deleted v"
  by (auto simp: create_space_def Let_def put_records get_put put_space_def announce_def spaces_notify_def
      spaces_scheduleFlush_def set_dirty_space_def)

lemma rollback_removes:
  assumes "get (sp_records s) i = Some r" and "\<not> space_deleted (body r)" and "i \<in> set (sp_dirty s)"
  shows "get (sp_records (snd (rollbackCreate i s))) i = None"
  using assms by (simp add: rollbackCreate_def Let_def get_del)

text \<open>
  A space that cannot be opened is not left behind. When creating, naming and opening a space
  fails, for a blank name or because the switch answers no or throws, the space that was created is not
  open in this browser's store, as long as the store did not give its storage up meanwhile and the
  switch itself left the definitions alone.
\<close>

lemma failed_creation_is_undone:
  assumes "spaces_inv s"
    and switch: "\<And>i u. sp_records (snd (switchTo i u)) = sp_records u \<and> sp_dirty (snd (switchTo i u)) = sp_dirty u"
    and failed: "createAndSwitchSpace (create_space cfg env) (rename_space env2) switchTo rollbackCreate spaces_flush
      name s = (Inl reason, t)"
    and "sp_storage (snd (rename_space env2 (ids env 0) name (snd (create_space cfg env s)))) \<noteq> None"
  shows "\<forall>r. get (sp_records t) (ids env 0) = Some r \<longrightarrow> space_deleted (body r)"
proof -
  let ?id = "ids env 0"
  have undone: ?thesis
    if "get (sp_records w) ?id = Some q" "?id \<in> set (sp_dirty w)" "t = snd (rollbackCreate ?id w)" for w q
    using that rollback_removes [of w ?id q] by (cases "space_deleted (body q)") (auto simp: rollbackCreate_def)
  obtain v w1 where c: "create_space cfg env s = (Inr v, w1)" and v: "space_id v = ids env 0"
    by (auto simp: create_space_def Let_def)
  note cv = created_space [OF c]
  have i1: "spaces_inv w1" using assms(1) c by (auto simp: create_space_def Let_def spaces_inv_put)
  obtain cur u where rc: "spaces_reconcile (ids env 0) w1 = (cur, u)" by fastforce
  obtain res w2 where rn: "rename_space env2 (ids env 0) name w1 = (res, w2)" by fastforce
  note u = reconcile_space_facts [OF i1 rc]
  have w2: "sp_storage w2 \<noteq> None" using assms(4) c rn by simp
  show ?thesis
  proof (cases res)
    case (Inl msg)
    from rc rn have "w2 = u" by (cases rule: rename_outcome) (use Inl in auto)
    then have "ids env 0 \<in> set (sp_dirty u)"
      using quiet_reconcile [of w1 "ids env 0"] rc w2 cv v by (auto simp: quiet_def)
    moreover obtain q where q: "get (sp_records u) (ids env 0) = Some q"
      using u(3) cv v by (auto simp: spaces_advances_def)
    moreover have t: "t = snd (rollbackCreate (ids env 0) u)"
      using failed c rn Inl v \<open>w2 = u\<close> by (simp add: createAndSwitchSpace_def)
    ultimately show ?thesis by (intro undone)
  next
    case (Inr r)
    from rc rn have "\<exists>q. w2 = put_space q u \<and> skey q = ids env 0"
    proof (cases rule: rename_outcome)
      case (accepted c x)
      have "space_id (body c) = ids env 0" using accepted(1) u(1,2) spaces_inv_id by fastforce
      with accepted(5,6) show ?thesis
        by (intro exI [of _ "\<lparr>writeID = ids env2 0, body = x\<rparr>"]) simp
    qed (use Inr in simp)
    then obtain q where w2: "w2 = put_space q u" "skey q = ids env 0" by blast
    obtain sw w3 where sw: "switchTo (ids env 0) w2 = (sw, w3)" by fastforce
    have w3: "sp_records w3 = sp_records w2" "sp_dirty w3 = sp_dirty w2"
      using switch [of "ids env 0" w2] sw by simp_all
    have "get (sp_records w3) (ids env 0) = Some q" "ids env 0 \<in> set (sp_dirty w3)"
      unfolding w3 w2(1)
      by (simp_all add: put_records get_put w2(2)) (simp add: put_space_def announce_def spaces_notify_def
          spaces_scheduleFlush_def set_dirty_space_def w2(2))
    moreover have "t = snd (rollbackCreate (ids env 0) w3)"
      using failed c rn Inr v sw by (auto simp: createAndSwitchSpace_def split: if_splits)
    ultimately show ?thesis by (rule undone)
  qed
qed

lemma sample_create:
  "create_space sample_spaces_cfg (sample_spaces_env ''a'') (no_spaces []) = (Inr (body space_a), one_space [])"
  by (simp add: no_spaces_eval one_space_eval spaces_eval space_a_def)

lemma sample_rename:
  "rename_space (sample_spaces_env ''w'') ''a'' '' '' (one_space []) = (Inl ''A space needs a name.'', one_space [])"
  by (simp add: rename_space_def spaces_reconcile_def one_space_eval spaces_read_def spaces_recoverRecord_def
      parseStoredSpace_def js_trim_def js_space_def space_a_def)

lemma failed_creation_is_undone_witness:
  "\<nexists>r. get (sp_records (snd (rollbackCreate ''a'' (one_space [])))) ''a'' = Some r \<and> \<not> space_deleted (body r)"
proof -
  have id: "ids (sample_spaces_env ''a'') 0 = ''a''" by (simp add: sample_spaces_env_def)
  have inv: "spaces_inv (no_spaces [])"
    using spaces_reachable_good [OF no_spaces_reachable] by (simp add: spaces_good_def)
  have f: "createAndSwitchSpace (create_space sample_spaces_cfg (sample_spaces_env ''a''))
      (rename_space (sample_spaces_env ''w'')) (\<lambda>i u. (Some True, u)) rollbackCreate spaces_flush '' '' (no_spaces []) =
      (Inl ''A space needs a name.'', snd (rollbackCreate ''a'' (one_space [])))"
    by (simp only: createAndSwitchSpace_def sample_create Let_def prod.case sum.case sample_ids sample_rename)
  have st: "sp_storage (snd (rename_space (sample_spaces_env ''w'') (ids (sample_spaces_env ''a'') 0) '' ''
      (snd (create_space sample_spaces_cfg (sample_spaces_env ''a'') (no_spaces []))))) \<noteq> None"
    unfolding id sample_create snd_conv sample_rename by (simp add: one_space_eval)
  show ?thesis
    using failed_creation_is_undone [OF inv _ f st] unfolding id by simp
qed

subsection \<open>Going round the spaces\<close>

lemma find_index_nth:
  "distinct (map space_id spaces) \<Longrightarrow> k < length spaces \<Longrightarrow>
     find_index (\<lambda>s. Some (space_id s) = Some (space_id (spaces ! k))) spaces = Some k"
proof -
  assume d: "distinct (map space_id spaces)" and k: "k < length spaces"
  show ?thesis
  proof (cases "find_index (\<lambda>s. Some (space_id s) = Some (space_id (spaces ! k))) spaces")
    case None
    then show ?thesis using k by (auto simp: find_index_None)
  next
    case (Some j)
    then have "j < length spaces" "space_id (spaces ! j) = space_id (spaces ! k)"
      using find_index_Some [OF Some] by auto
    then have "j = k" using d k by (metis length_map nth_eq_iff_index_eq nth_map)
    with Some show ?thesis by simp
  qed
qed

text \<open>
  Next and previous undo each other: from an open space, going to the next one and back to the
  previous one (and the other way round) returns to it, at the ends of the list too.
\<close>

lemma next_previous_roundtrip:
  assumes "distinct (map space_id spaces)" and "i \<in> set (map space_id spaces)"
  shows "spaceIDInDirection spaces (spaceIDInDirection spaces (Some i) Next) Previous = Some i \<and>
    spaceIDInDirection spaces (spaceIDInDirection spaces (Some i) Previous) Next = Some i"
proof -
  obtain k where k: "k < length spaces" "i = space_id (spaces ! k)"
    using assms(2) by (auto simp: in_set_conv_nth)
  let ?n = "length spaces"
  let ?step = "\<lambda>(j::nat) dir. nat ((int j + (if dir = Next then 1 else - 1) + int ?n) mod int ?n)"
  have ne: "spaces \<noteq> []" and n: "0 < ?n" using k by auto
  have go: "spaceIDInDirection spaces (Some (space_id (spaces ! j))) dir = Some (space_id (spaces ! ?step j dir))"
    if "j < ?n" for j dir
    using ne find_index_nth [OF assms(1) that] by (simp add: spaceIDInDirection_def)
  have lt: "?step j dir < ?n" for j dir
    using n by (simp add: nat_less_iff)
  have mod: "int (?step j dir) = (int j + (if dir = Next then 1 else - 1)) mod int ?n" for j dir
    using n by simp
  have back1: "?step (?step k Next) Previous = k"
  proof -
    have "int (?step (?step k Next) Previous) = ((int k + 1) mod int ?n - 1) mod int ?n"
      unfolding mod [of "?step k Next" Previous] unfolding mod [of k Next] by simp
    also have "\<dots> = int k" using k(1) by (simp add: mod_diff_left_eq)
    finally show ?thesis by (simp only: int_int_eq)
  qed
  have back2: "?step (?step k Previous) Next = k"
  proof -
    have "int (?step (?step k Previous) Next) = ((int k - 1) mod int ?n + 1) mod int ?n"
      unfolding mod [of "?step k Previous" Next] unfolding mod [of k Previous] by simp
    also have "\<dots> = int k" using k(1) by (simp add: mod_add_left_eq)
    finally show ?thesis by (simp only: int_int_eq)
  qed
  show ?thesis
    unfolding k(2) go [OF k(1)] unfolding go [OF lt] back1 back2 by simp
qed

lemma next_previous_roundtrip_witness:
  "spaceIDInDirection [body space_a, body space_b]
     (spaceIDInDirection [body space_a, body space_b] (Some ''b'') Next) Previous = Some ''b''"
  using next_previous_roundtrip [of "[body space_a, body space_b]" "''b''"] by (simp add: sample_ids)

end
