(* ===== verification/Panels.thy ===== *)
theory Panels
  imports Storage
begin

section \<open>The panels of the dock\<close>

text \<open>
  \<^verbatim>\<open>features/workspace/panelRegistryModel.ts\<close>, with the parameter types of
  \<^verbatim>\<open>features/layout/dockLayout.ts\<close>, the ids of \<^verbatim>\<open>previewTabs.ts\<close>, \<^verbatim>\<open>features/files/fileTabs.ts\<close>,
  \<^verbatim>\<open>features/folders/folderModel.ts\<close> and \<^verbatim>\<open>features/git/changesModel.ts\<close>: the four kinds of panels, the
  validation of stored parameters, the ids, titles and routes of panels.
\<close>

subsection \<open>Parameters\<close>

datatype file_view_mode = Rendered | Source

record agent_panel =
  ap_name :: string
  ap_preview :: bool

record file_panel =
  fp_root :: string
  fp_path :: string
  fp_line :: "num option"
  fp_preview :: bool
  fp_viewMode :: file_view_mode

record folder_panel =
  dp_root :: string
  dp_path :: string
  dp_preview :: bool

record changes_panel =
  cp_root :: string
  cp_preview :: bool

datatype panel =
    AgentPanel agent_panel
  | FilePanel file_panel
  | FolderPanel folder_panel
  | ChangesPanel changes_panel

datatype panel_kind = AgentKind | FileKind | FolderKind | ChangesKind

fun kind_of :: "panel \<Rightarrow> panel_kind" where
  "kind_of (AgentPanel p) = AgentKind"
| "kind_of (FilePanel p) = FileKind"
| "kind_of (FolderPanel p) = FolderKind"
| "kind_of (ChangesPanel p) = ChangesKind"

fun kind_name :: "panel_kind \<Rightarrow> string" where
  "kind_name AgentKind = ''agent''"
| "kind_name FileKind = ''file''"
| "kind_name FolderKind = ''folder''"
| "kind_name ChangesKind = ''changes''"

fun panel_preview :: "panel \<Rightarrow> bool" where
  "panel_preview (AgentPanel p) = ap_preview p"
| "panel_preview (FilePanel p) = fp_preview p"
| "panel_preview (FolderPanel p) = dp_preview p"
| "panel_preview (ChangesPanel p) = cp_preview p"

fun set_preview :: "bool \<Rightarrow> panel \<Rightarrow> panel" where
  "set_preview b (AgentPanel p) = AgentPanel (p\<lparr>ap_preview := b\<rparr>)"
| "set_preview b (FilePanel p) = FilePanel (p\<lparr>fp_preview := b\<rparr>)"
| "set_preview b (FolderPanel p) = FolderPanel (p\<lparr>dp_preview := b\<rparr>)"
| "set_preview b (ChangesPanel p) = ChangesPanel (p\<lparr>cp_preview := b\<rparr>)"

fun view_mode_name :: "file_view_mode \<Rightarrow> string" where
  "view_mode_name Rendered = ''rendered''"
| "view_mode_name Source = ''source''"

text \<open>The parameters as the value a layout stores.\<close>

fun panel_json :: "panel \<Rightarrow> json" where
  "panel_json (AgentPanel p) =
     JObj [(''kind'', JStr ''agent''), (''name'', JStr (ap_name p)), (''preview'', JBool (ap_preview p))]"
| "panel_json (FilePanel p) =
     JObj ([(''kind'', JStr ''file''), (''root'', JStr (fp_root p)), (''path'', JStr (fp_path p))]
       @ (case fp_line p of None \<Rightarrow> [] | Some n \<Rightarrow> [(''line'', JNum n)])
       @ [(''preview'', JBool (fp_preview p)), (''viewMode'', JStr (view_mode_name (fp_viewMode p)))])"
| "panel_json (FolderPanel p) =
     JObj [(''kind'', JStr ''folder''), (''root'', JStr (dp_root p)), (''path'', JStr (dp_path p)),
           (''preview'', JBool (dp_preview p))]"
| "panel_json (ChangesPanel p) =
     JObj [(''kind'', JStr ''changes''), (''root'', JStr (cp_root p)), (''preview'', JBool (cp_preview p))]"

subsection \<open>Validation\<close>

definition as_view_mode :: "json option \<Rightarrow> file_view_mode option" where
  "as_view_mode v =
     (if v = Some (JStr ''rendered'') then Some Rendered
      else if v = Some (JStr ''source'') then Some Source else None)"

text \<open>\<open>value.line === undefined || Number.isInteger(value.line) && value.line >= 1\<close>.\<close>

definition opt_line :: "json option \<Rightarrow> num option option" where
  "opt_line v =
     (case v of
        None \<Rightarrow> Some None
      | Some (JNum n) \<Rightarrow> if n \<ge> 1 then Some (Some n) else None
      | Some _ \<Rightarrow> None)"

definition validate_agent :: "bool \<Rightarrow> json \<Rightarrow> panel option" where
  "validate_agent preview v =
     map_option (\<lambda>n. AgentPanel \<lparr>ap_name = n, ap_preview = preview\<rparr>) (as_nonempty (field v ''name''))"

definition validate_file :: "bool \<Rightarrow> json \<Rightarrow> panel option" where
  "validate_file preview v =
     (case (as_nonempty (field v ''root''), as_string (field v ''path''), opt_line (field v ''line''),
            as_view_mode (field v ''viewMode'')) of
        (Some r, Some p, Some l, Some m) \<Rightarrow>
          Some (FilePanel \<lparr>fp_root = r, fp_path = p, fp_line = l, fp_preview = preview, fp_viewMode = m\<rparr>)
      | _ \<Rightarrow> None)"

definition validate_folder :: "bool \<Rightarrow> json \<Rightarrow> panel option" where
  "validate_folder preview v =
     (case (as_nonempty (field v ''root''), as_string (field v ''path'')) of
        (Some r, Some p) \<Rightarrow> Some (FolderPanel \<lparr>dp_root = r, dp_path = p, dp_preview = preview\<rparr>)
      | _ \<Rightarrow> None)"

definition validate_changes :: "bool \<Rightarrow> json \<Rightarrow> panel option" where
  "validate_changes preview v =
     map_option (\<lambda>r. ChangesPanel \<lparr>cp_root = r, cp_preview = preview\<rparr>) (as_nonempty (field v ''root''))"

definition kind_named :: "string \<Rightarrow> panel_kind option" where
  "kind_named s =
     (if s = ''agent'' then Some AgentKind else if s = ''file'' then Some FileKind
      else if s = ''folder'' then Some FolderKind else if s = ''changes'' then Some ChangesKind else None)"

fun validate_kind :: "panel_kind \<Rightarrow> bool \<Rightarrow> json \<Rightarrow> panel option" where
  "validate_kind AgentKind = validate_agent"
| "validate_kind FileKind = validate_file"
| "validate_kind FolderKind = validate_folder"
| "validate_kind ChangesKind = validate_changes"

text \<open>
  The code asks \<open>kind in panelModels\<close>, which also holds for the properties every object inherits: for a
  kind of such a name there is no model, and validating throws a TypeError. \<open>panelParams\<close> answers \<open>None\<close>
  there; who calls it on stored values asks \<open>panelParams_throws\<close> first.
\<close>

definition prototype_names :: "string list" where
  "prototype_names = [''constructor'', ''toString'', ''toLocaleString'', ''valueOf'', ''hasOwnProperty'', ''isPrototypeOf'',
     ''propertyIsEnumerable'', ''__proto__'', ''__defineGetter__'', ''__defineSetter__'', ''__lookupGetter__'',
     ''__lookupSetter__'']"

definition panelParams_throws :: "json \<Rightarrow> bool" where
  "panelParams_throws v \<longleftrightarrow>
     (case (as_string (field v ''kind''), as_bool (field v ''preview'')) of
        (Some k, Some _) \<Rightarrow> k \<in> set prototype_names
      | _ \<Rightarrow> False)"

definition panelParams :: "json \<Rightarrow> panel option" where
  "panelParams v =
     (if \<not> is_record v then None
      else case (as_string (field v ''kind''), as_bool (field v ''preview'')) of
             (Some k, Some preview) \<Rightarrow>
               (case kind_named k of None \<Rightarrow> None | Some kind \<Rightarrow> validate_kind kind preview v)
           | _ \<Rightarrow> None)"

text \<open>What validation makes of parameters.\<close>

fun panel_ok :: "panel \<Rightarrow> bool" where
  "panel_ok (AgentPanel p) = (ap_name p \<noteq> [])"
| "panel_ok (FilePanel p) = (fp_root p \<noteq> [] \<and> (case fp_line p of None \<Rightarrow> True | Some n \<Rightarrow> n \<ge> 1))"
| "panel_ok (FolderPanel p) = (dp_root p \<noteq> [])"
| "panel_ok (ChangesPanel p) = (cp_root p \<noteq> [])"

lemma as_view_mode_name [simp]: "as_view_mode (Some (JStr (view_mode_name m))) = Some m"
  by (cases m) (simp_all add: as_view_mode_def)

lemma kind_named_name [simp]: "kind_named (kind_name k) = Some k"
  by (cases k) (simp_all add: kind_named_def)

lemma panelParams_json: "panel_ok p \<Longrightarrow> panelParams (panel_json p) = Some p"
proof (cases p)
  case (FilePanel f)
  assume "panel_ok p"
  with FilePanel show ?thesis
    by (cases "fp_line f")
      (simp_all add: panelParams_def validate_file_def kind_named_def as_nonempty_def opt_line_def)
qed (simp_all add: panelParams_def validate_agent_def validate_folder_def validate_changes_def kind_named_def
    as_nonempty_def)

lemma panelParams_no_throw: "panelParams v = Some p \<Longrightarrow> \<not> panelParams_throws v"
  by (auto simp: panelParams_def panelParams_throws_def kind_named_def prototype_names_def split: option.splits if_splits)

lemma panelParams_ok: "panelParams v = Some p \<Longrightarrow> panel_ok p"
  by (auto simp: panelParams_def validate_agent_def validate_file_def validate_folder_def validate_changes_def
      kind_named_def as_nonempty_Some opt_line_def split: if_splits option.splits json.splits)

subsection \<open>Identity\<close>

definition agentTabID :: "string \<Rightarrow> string" where
  "agentTabID name = ''agent:'' @ name"

definition fileTabID :: "string \<Rightarrow> string \<Rightarrow> string" where
  "fileTabID r path = ''file:'' @ encodeURIComponent r @ '':'' @ encodeURIComponent path"

definition folderTabID :: "string \<Rightarrow> string \<Rightarrow> string" where
  "folderTabID r path = ''folder:'' @ encodeURIComponent r @ '':'' @ encodeURIComponent path"

definition changesPanelID :: "string \<Rightarrow> string" where
  "changesPanelID r = ''changes:'' @ encodeURIComponent r"

fun panelID :: "panel \<Rightarrow> string" where
  "panelID (AgentPanel p) = agentTabID (ap_name p)"
| "panelID (FilePanel p) = fileTabID (fp_root p) (fp_path p)"
| "panelID (FolderPanel p) = folderTabID (dp_root p) (dp_path p)"
| "panelID (ChangesPanel p) = changesPanelID (cp_root p)"

text \<open>What a panel shows, apart from how.\<close>

fun same_subject :: "panel \<Rightarrow> panel \<Rightarrow> bool" where
  "same_subject (AgentPanel p) (AgentPanel q) = (ap_name p = ap_name q)"
| "same_subject (FilePanel p) (FilePanel q) = (fp_root p = fp_root q \<and> fp_path p = fp_path q)"
| "same_subject (FolderPanel p) (FolderPanel q) = (dp_root p = dp_root q \<and> dp_path p = dp_path q)"
| "same_subject (ChangesPanel p) (ChangesPanel q) = (cp_root p = cp_root q)"
| "same_subject _ _ = False"

lemma encode_colon_split:
  "encodeURIComponent a @ colon # x = encodeURIComponent b @ colon # y \<longleftrightarrow> a = b \<and> x = y"
proof
  assume eq: "encodeURIComponent a @ colon # x = encodeURIComponent b @ colon # y"
  have pre: "takeWhile (\<lambda>c. c \<noteq> colon) (encodeURIComponent s @ colon # r) = encodeURIComponent s" for s r
    using encode_no_colon [of s] by (subst takeWhile_append2) auto
  have "encodeURIComponent a = encodeURIComponent b"
    using pre [of a x] pre [of b y] eq by simp
  with eq show "a = b \<and> x = y" by simp
qed simp

lemma panelID_eq: "panelID p = panelID q \<longleftrightarrow> same_subject p q"
proof -
  have c: "CHR '':'' = colon" by (simp only: colon_char)
  show ?thesis
    by (cases p; cases q)
      (simp_all add: agentTabID_def fileTabID_def folderTabID_def changesPanelID_def c encode_colon_split)
qed

text \<open>
  C14. A panel's id says what it shows, and nothing else: two panels have the same id exactly when
  they are of the same kind and show the same agent, file, folder or root, whatever colons, slashes or
  other characters these contain.
\<close>

theorem panelID_identifies: "panelID p = panelID q \<longleftrightarrow> same_subject p q"
  by (rule panelID_eq)

text \<open>
  C15. Stored parameters are safe to use: whatever value a layout holds, validation answers parameters
  only when they are complete (a non-empty agent or root, a line number from 1 if any), and parameters
  that are complete survive being stored and validated again.
\<close>

theorem panelParams_typed:
  "(\<forall>v p. panelParams v = Some p \<longrightarrow> panel_ok p) \<and> (\<forall>p. panel_ok p = (panelParams (panel_json p) = Some p))"
  using panelParams_ok panelParams_json by blast

theorem panelParams_typed_witness:
  "panelParams (JObj [(''kind'', JStr ''agent''), (''name'', JStr []), (''preview'', JBool True)]) = None"
proof -
  have "panelParams (panel_json (AgentPanel \<lparr>ap_name = [], ap_preview = True\<rparr>)) \<noteq>
      Some (AgentPanel \<lparr>ap_name = [], ap_preview = True\<rparr>)"
    using panelParams_typed by (metis agent_panel.select_convs(1) panel_ok.simps(1))
  then show ?thesis by (simp add: panelParams_def validate_agent_def kind_named_def as_nonempty_def)
qed

subsection \<open>Presentation\<close>

text \<open>\<open>s.split(c)\<close> for a separator of one character.\<close>

fun split_on :: "char \<Rightarrow> string \<Rightarrow> string list" where
  "split_on c [] = [[]]"
| "split_on c (x # xs) =
     (if x = c then [] # split_on c xs
      else (case split_on c xs of p # ps \<Rightarrow> (x # p) # ps | [] \<Rightarrow> [[x]]))"

definition slash :: char where
  "slash = CHR ''/''"

definition rootLabel :: "string \<Rightarrow> string" where
  "rootLabel r = (let parts = filter (\<lambda>p. p \<noteq> []) (split_on slash r) in if parts = [] then r else last parts)"

record panel_presentation =
  pp_title :: string
  pp_icon :: string
  pp_meta :: string

text \<open>The icons and the middle dot, as UTF-8.\<close>

definition utf8_chars :: "nat list \<Rightarrow> string" where
  "utf8_chars ns = map char_of ns"

definition middle_dot :: string where
  "middle_dot = utf8_chars [194, 183]"

fun panelPresentation :: "panel \<Rightarrow> panel_presentation" where
  "panelPresentation (AgentPanel p) = \<lparr>pp_title = ap_name p, pp_icon = [], pp_meta = ''unknown''\<rparr>"
| "panelPresentation (FilePanel p) =
     \<lparr>pp_title = rootLabel (fp_path p), pp_icon = utf8_chars [226, 151, 135, 32],
      pp_meta = ''file '' @ middle_dot @ '' read-only''\<rparr>"
| "panelPresentation (FolderPanel p) =
     \<lparr>pp_title = (if rootLabel (dp_path p) \<noteq> [] then rootLabel (dp_path p) else rootLabel (dp_root p)),
      pp_icon = utf8_chars [226, 150, 176, 32], pp_meta = ''folder '' @ middle_dot @ '' read-only''\<rparr>"
| "panelPresentation (ChangesPanel p) =
     \<lparr>pp_title = ''Changes '' @ middle_dot @ '' '' @ rootLabel (cp_root p), pp_icon = utf8_chars [194, 177, 32],
      pp_meta = ''git '' @ middle_dot @ '' read-only''\<rparr>"

definition panelUsesQuickOpenGroup :: "panel \<Rightarrow> bool" where
  "panelUsesQuickOpenGroup p \<longleftrightarrow> kind_of p = FileKind \<or> kind_of p = FolderKind"

definition truthy_line :: "num option \<Rightarrow> bool" where
  "truthy_line l \<longleftrightarrow> l \<noteq> None \<and> l \<noteq> Some 0"

fun mergePanelParams :: "panel \<Rightarrow> panel \<Rightarrow> panel" where
  "mergePanelParams (FilePanel current) (FilePanel next) =
     FilePanel (current\<lparr>fp_root := fp_root next, fp_path := fp_path next,
       fp_line := (if truthy_line (fp_line next) then fp_line next else fp_line current),
       fp_preview := fp_preview current \<and> fp_preview next,
       fp_viewMode := (if truthy_line (fp_line next) then Source else fp_viewMode current)\<rparr>)"
| "mergePanelParams current next =
     (if kind_of current \<noteq> kind_of next then next
      else set_preview (panel_preview current \<and> panel_preview next) next)"

definition previewPanelToReplace :: "json list \<Rightarrow> panel_kind \<Rightarrow> json option" where
  "previewPanelToReplace panels kind =
     find (\<lambda>v. case panelParams v of None \<Rightarrow> False | Some p \<Rightarrow> kind_of p = kind \<and> panel_preview p) panels"

subsection \<open>Files\<close>

definition ascii_lower :: "char \<Rightarrow> char" where
  "ascii_lower c = (let n = (of_char c :: nat) in if 65 \<le> n \<and> n \<le> 90 then char_of (n + 32) else c)"

text \<open>A suffix, ASCII letters compared without their case.\<close>

definition ends_with_ci :: "string \<Rightarrow> string \<Rightarrow> bool" where
  "ends_with_ci suffix s \<longleftrightarrow> starts_with (rev suffix) (rev (map ascii_lower s))"

definition isMarkdownPath :: "string \<Rightarrow> bool" where
  "isMarkdownPath path \<longleftrightarrow> ends_with_ci ''.md'' path \<or> ends_with_ci ''.markdown'' path"

definition isHtmlPath :: "string \<Rightarrow> bool" where
  "isHtmlPath path \<longleftrightarrow> ends_with_ci ''.htm'' path \<or> ends_with_ci ''.html'' path"

definition isSvgPath :: "string \<Rightarrow> bool" where
  "isSvgPath path \<longleftrightarrow> ends_with_ci ''.svg'' path"

definition initialFileViewMode :: "string \<Rightarrow> num option \<Rightarrow> file_view_mode" where
  "initialFileViewMode path line =
     (if (isMarkdownPath path \<or> isHtmlPath path \<or> isSvgPath path) \<and> \<not> truthy_line line
      then Rendered else Source)"

subsection \<open>Query strings\<close>

text \<open>
  \<open>URLSearchParams\<close>, as far as the routes use it: the application/x-www-form-urlencoded text of a list
  of pairs, and its parser (a percent sign that starts no byte stands for itself; bytes that are not
  UTF-8 are kept as they are, where a browser puts the replacement character).
\<close>

definition form_safe :: "char \<Rightarrow> bool" where
  "form_safe c \<longleftrightarrow>
     (let n = (of_char c :: nat)
      in (48 \<le> n \<and> n \<le> 57) \<or> (65 \<le> n \<and> n \<le> 90) \<or> (97 \<le> n \<and> n \<le> 122) \<or> n \<in> {42, 45, 46, 95})"

definition form_char :: "char \<Rightarrow> string" where
  "form_char c =
     (if form_safe c then [c]
      else if (of_char c :: nat) = 32 then ''+''
      else [percent, hex_digit (of_char c div 16), hex_digit (of_char c mod 16)])"

definition form_encode :: "string \<Rightarrow> string" where
  "form_encode s = concat (map form_char s)"

fun form_decode :: "string \<Rightarrow> string" where
  "form_decode [] = []"
| "form_decode (c # cs) =
     (if c = CHR ''+'' then CHR '' '' # form_decode cs
      else if c = percent
      then (case cs of
              a # b # rest \<Rightarrow>
                (case (hex_value a, hex_value b) of
                   (Some m, Some n) \<Rightarrow> char_of (16 * m + n) # form_decode rest
                 | _ \<Rightarrow> c # form_decode cs)
            | _ \<Rightarrow> c # form_decode cs)
      else c # form_decode cs)"

definition query_string :: "(string \<times> string) list \<Rightarrow> string" where
  "query_string kvs = join_with ''&'' (map (\<lambda>(k, v). form_encode k @ ''='' @ form_encode v) kvs)"

definition parse_pair :: "string \<Rightarrow> string \<times> string" where
  "parse_pair s =
     (form_decode (takeWhile (\<lambda>c. c \<noteq> CHR ''='') s), form_decode (drop 1 (dropWhile (\<lambda>c. c \<noteq> CHR ''='') s)))"

definition parse_query :: "string \<Rightarrow> (string \<times> string) list" where
  "parse_query s =
     map parse_pair (filter (\<lambda>p. p \<noteq> [])
       (split_on (CHR ''&'') (if starts_with ''?'' s then drop 1 s else s)))"

subsection \<open>Routes\<close>

datatype route_input = FromUrl string "(string \<times> string) list" | FromState json

definition panelRoutePath_file :: "file_panel \<Rightarrow> string" where
  "panelRoutePath_file p =
     ''/file?'' @ query_string ([(''root'', fp_root p), (''path'', fp_path p)]
       @ (if truthy_line (fp_line p) then [(''line'', show_int (the (fp_line p)))] else []))"

fun panelRoutePath :: "panel \<Rightarrow> string" where
  "panelRoutePath (AgentPanel p) = ''/agents/'' @ encodeURIComponent (ap_name p)"
| "panelRoutePath (FilePanel p) = panelRoutePath_file p"
| "panelRoutePath (FolderPanel p) = ''/folder?'' @ query_string [(''root'', dp_root p), (''path'', dp_path p)]"
| "panelRoutePath (ChangesPanel p) = ''/changes?'' @ query_string [(''root'', cp_root p)]"

fun panelRouteSubject :: "panel \<Rightarrow> json" where
  "panelRouteSubject (AgentPanel p) = JObj [(''kind'', JStr ''agent''), (''name'', JStr (ap_name p))]"
| "panelRouteSubject (FilePanel p) =
     JObj ([(''kind'', JStr ''file''), (''root'', JStr (fp_root p)), (''path'', JStr (fp_path p))]
       @ (if truthy_line (fp_line p) then [(''line'', JNum (the (fp_line p)))] else []))"
| "panelRouteSubject (FolderPanel p) =
     JObj [(''kind'', JStr ''folder''), (''root'', JStr (dp_root p)), (''path'', JStr (dp_path p))]"
| "panelRouteSubject (ChangesPanel p) = JObj [(''kind'', JStr ''changes''), (''root'', JStr (cp_root p))]"

text \<open>
  The values a route of a kind is read from: a function from names to values, \<open>None\<close> for another
  route. A name missing in a query is \<open>null\<close>.
\<close>

definition stateSubject :: "route_input \<Rightarrow> panel_kind \<Rightarrow> json option" where
  "stateSubject input kind =
     (case input of
        FromState v \<Rightarrow> if is_record v \<and> field v ''kind'' = Some (JStr (kind_name kind)) then Some v else None
      | FromUrl _ _ \<Rightarrow> None)"

definition knownPath :: "route_input \<Rightarrow> string \<Rightarrow> bool" where
  "knownPath input path =
     (case input of FromUrl pathname _ \<Rightarrow> pathname = ''/'' @ path \<or> pathname = ''/'' @ path @ ''/'' | FromState _ \<Rightarrow> False)"

definition query_value :: "(string \<times> string) list \<Rightarrow> string \<Rightarrow> json option" where
  "query_value kvs k = Some (case map_of kvs k of None \<Rightarrow> JNull | Some v \<Rightarrow> JStr v)"

definition route_values :: "route_input \<Rightarrow> panel_kind \<Rightarrow> (string \<Rightarrow> json option) option" where
  "route_values input kind =
     (case input of
        FromState _ \<Rightarrow> map_option field (stateSubject input kind)
      | FromUrl _ kvs \<Rightarrow> if knownPath input (kind_name kind) then Some (query_value kvs) else None)"

text \<open>\<open>/^[1-9]\d*$/\<close>.\<close>

definition line_digits :: "string \<Rightarrow> bool" where
  "line_digits s \<longleftrightarrow>
     s \<noteq> [] \<and> hd s \<noteq> CHR ''0'' \<and> list_all (\<lambda>c. 48 \<le> (of_char c :: nat) \<and> (of_char c :: nat) \<le> 57) s"

text \<open>The line of a file route: \<open>None\<close> when it is malformed.\<close>

definition route_line :: "json option \<Rightarrow> num option option" where
  "route_line v =
     (case v of
        None \<Rightarrow> Some None
      | Some JNull \<Rightarrow> Some None
      | Some (JNum n) \<Rightarrow> if line_digits (show_int n) then Some (Some n) else None
      | Some (JStr s) \<Rightarrow> if line_digits s then Some (Some (js_round (int (number_value s)))) else None
      | Some _ \<Rightarrow> None)"

text \<open>\<open>/^\/agents\/([^/]+)\/?$/\<close>: the captured part.\<close>

definition agent_path :: "string \<Rightarrow> string option" where
  "agent_path pathname =
     (if \<not> starts_with ''/agents/'' pathname then None
      else let rest = drop 8 pathname;
               name = (if rest \<noteq> [] \<and> last rest = slash then butlast rest else rest)
           in if name = [] \<or> slash \<in> set name then None else Some name)"

text \<open>
  A route parsed as a kind: the outer \<open>None\<close> is \<open>undefined\<close> (not a route of the kind), the inner one
  \<open>null\<close> (a malformed route of it).
\<close>

fun parse_route :: "panel_kind \<Rightarrow> route_input \<Rightarrow> panel option option" where
  "parse_route AgentKind input =
     (case input of
        FromState v \<Rightarrow> map_option (\<lambda>s. validate_agent True s) (stateSubject input AgentKind)
      | FromUrl pathname _ \<Rightarrow>
          (case agent_path pathname of
             None \<Rightarrow> None
           | Some n \<Rightarrow>
               Some (case decodeURIComponent n of
                       None \<Rightarrow> None
                     | Some d \<Rightarrow> validate_agent True (JObj [(''name'', JStr d)]))))"
| "parse_route FileKind input =
     map_option (\<lambda>get.
       case (as_string (get ''root''), as_string (get ''path''), route_line (get ''line'')) of
         (Some r, Some p, Some l) \<Rightarrow>
           (if r = [] then None
            else Some (FilePanel \<lparr>fp_root = r, fp_path = p, fp_line = l, fp_preview = True,
                                  fp_viewMode = initialFileViewMode p l\<rparr>))
       | _ \<Rightarrow> None) (route_values input FileKind)"
| "parse_route FolderKind input =
     map_option (\<lambda>get.
       case (as_string (get ''root''), as_string (get ''path'')) of
         (Some r, Some p) \<Rightarrow> (if r = [] then None else Some (FolderPanel \<lparr>dp_root = r, dp_path = p, dp_preview = True\<rparr>))
       | _ \<Rightarrow> None) (route_values input FolderKind)"
| "parse_route ChangesKind input =
     map_option (\<lambda>get.
       case as_string (get ''root'') of
         Some r \<Rightarrow> (if r = [] then None else Some (ChangesPanel \<lparr>cp_root = r, cp_preview = True\<rparr>))
       | None \<Rightarrow> None) (route_values input ChangesKind)"

fun first_route :: "panel_kind list \<Rightarrow> route_input \<Rightarrow> panel option option" where
  "first_route [] input = None"
| "first_route (k # ks) input = (case parse_route k input of None \<Rightarrow> first_route ks input | Some p \<Rightarrow> Some p)"

definition panelParamsFromRouteLocation :: "string \<Rightarrow> string \<Rightarrow> panel option option" where
  "panelParamsFromRouteLocation pathname search =
     first_route [AgentKind, FileKind, FolderKind, ChangesKind] (FromUrl pathname (parse_query search))"

definition panelParamsFromHistorySubject :: "json \<Rightarrow> panel option" where
  "panelParamsFromHistorySubject subject =
     (if \<not> is_record subject then None
      else case Option.bind (as_string (field subject ''kind'')) kind_named of
             None \<Rightarrow> None
           | Some k \<Rightarrow> or_else (parse_route k (FromState subject)) None)"

text \<open>
  The retired kind \<open>screen\<close>: the outer \<open>None\<close> is a value of another kind, the inner one a terminal
  without an agent, which is dropped.
\<close>

definition legacyScreenPanelParams :: "json \<Rightarrow> panel option option" where
  "legacyScreenPanelParams v =
     (if \<not> is_record v \<or> field v ''kind'' \<noteq> Some (JStr ''screen'') then None
      else let agent_of = (\<lambda>k. case field v k of
                 Some (JObj kvs) \<Rightarrow> as_string (field (JObj kvs) ''agent'') | _ \<Rightarrow> None);
               name = find (\<lambda>n. n \<noteq> [] \<and> n \<noteq> ''-'') (List.map_filter agent_of [''identity'', ''pane''])
           in Some (map_option (\<lambda>n. AgentPanel \<lparr>ap_name = n,
                ap_preview = or_else (as_bool (field v ''preview'')) True\<rparr>) name))"

end
