(* ===== verification/PanelRoutes.thy ===== *)
theory PanelRoutes
  imports Panels
begin

section \<open>Routes read back as the panels they were made of\<close>

text \<open>
  The round trips of \<^verbatim>\<open>features/workspace/panelRegistryModel.ts\<close>: a panel's path and its history
  subject both lead back to the panel, through the encoding of query strings.
\<close>

subsection \<open>Query strings\<close>

lemma char_codes: "char_of (32 :: nat) = CHR '' ''" "char_of (37 :: nat) = CHR ''%''"
  by code_simp+

lemma form_decode_char: "form_decode (form_char c @ s) = c # form_decode s"
proof -
  let ?n = "of_char c :: nat"
  have lt: "?n div 16 < 16" "?n mod 16 < 16" using of_char_div_16 by simp_all
  have byte: "char_of (16 * (?n div 16) + ?n mod 16) = c" by simp
  consider "form_safe c" | "\<not> form_safe c" "?n = 32" | "\<not> form_safe c" "?n \<noteq> 32" by blast
  then show ?thesis
  proof cases
    case 1
    then have "c \<noteq> CHR ''+''" "c \<noteq> percent" by (auto simp: form_safe_def percent_def Let_def)
    with 1 show ?thesis by (simp add: form_char_def)
  next
    case 2
    then have "c = CHR '' ''" by (metis char_codes(1) char_of_char)
    with 2 show ?thesis by (simp add: form_char_def)
  next
    case 3
    have "percent \<noteq> CHR ''+''" by (simp add: percent_def char_codes)
    with 3 lt byte show ?thesis by (simp add: form_char_def hex_value_digit)
  qed
qed

lemma form_decode_encode [simp]: "form_decode (form_encode s) = s"
  by (induction s) (simp_all add: form_encode_def form_decode_char)

lemma hex_digit_code: "n < 16 \<Longrightarrow> (of_char (hex_digit n) :: nat) \<in> {48..57} \<union> {65..70}"
  by (auto simp: hex_digit_def)

lemma form_encode_codes:
  "c \<in> set (form_encode s) \<Longrightarrow> form_safe c \<or> c = CHR ''+'' \<or> c = percent"
proof -
  have "c \<in> set (form_char d) \<Longrightarrow> form_safe c \<or> c = CHR ''+'' \<or> c = percent" for d
  proof -
    have "form_safe (hex_digit n)" if "n < 16" for n
      using hex_digit_code [OF that] by (auto simp: form_safe_def Let_def)
    then show "c \<in> set (form_char d) \<Longrightarrow> form_safe c \<or> c = CHR ''+'' \<or> c = percent"
      using of_char_div_16 [of d] by (auto simp: form_char_def split: if_splits)
  qed
  then show "c \<in> set (form_encode s) \<Longrightarrow> ?thesis" by (auto simp: form_encode_def)
qed

lemma form_encode_separators:
  "CHR ''&'' \<notin> set (form_encode s)" "CHR ''='' \<notin> set (form_encode s)" "CHR ''?'' \<notin> set (form_encode s)"
  by (auto dest!: form_encode_codes simp: form_safe_def percent_def char_codes Let_def)

lemma split_on_single: "c \<notin> set s \<Longrightarrow> split_on c s = [s]"
  by (induction s) auto

lemma split_on_append: "c \<notin> set s \<Longrightarrow> split_on c (s @ c # r) = s # split_on c r"
  by (induction s) auto

lemma split_join:
  "ps \<noteq> [] \<Longrightarrow> \<forall>p \<in> set ps. c \<notin> set p \<Longrightarrow> split_on c (join_with [c] ps) = ps"
  by (induction "[c]" ps rule: join_with.induct) (auto simp: split_on_single split_on_append)

lemma parse_pair_form: "parse_pair (form_encode k @ ''='' @ form_encode v) = (k, v)"
proof -
  let ?s = "form_encode k @ CHR ''='' # form_encode v"
  have "takeWhile (\<lambda>c. c \<noteq> CHR ''='') ?s = form_encode k" "dropWhile (\<lambda>c. c \<noteq> CHR ''='') ?s = CHR ''='' # form_encode v"
    using form_encode_separators(2) [of k] by (auto simp: takeWhile_append dropWhile_append takeWhile_eq_all_conv)
  then show ?thesis by (simp add: parse_pair_def)
qed

lemma parse_query_string: "kvs \<noteq> [] \<Longrightarrow> parse_query (CHR ''?'' # query_string kvs) = kvs"
proof -
  assume ne: "kvs \<noteq> []"
  let ?f = "\<lambda>(k, v). form_encode k @ ''='' @ form_encode v"
  have "\<forall>p \<in> set (map ?f kvs). CHR ''&'' \<notin> set p"
    using form_encode_separators(1) by auto
  then have split: "split_on (CHR ''&'') (query_string kvs) = map ?f kvs"
    using ne by (simp only: query_string_def split_join map_is_Nil_conv simp_thms)
  have "filter (\<lambda>p. p \<noteq> []) (map ?f kvs) = map ?f kvs" by (induction kvs) auto
  moreover have "map parse_pair (map ?f kvs) = kvs"
    by (induction kvs) (auto simp: parse_pair_form [simplified])
  ultimately have "map parse_pair (filter (\<lambda>p. p \<noteq> []) (split_on (CHR ''&'') (query_string kvs))) = kvs"
    by (simp only: split)
  then show ?thesis by (simp add: parse_query_def starts_with.simps)
qed

subsection \<open>Paths\<close>

lemma encode_codes: "c \<in> set (encodeURIComponent s) \<Longrightarrow> unreserved c \<or> c = percent"
proof -
  have "unreserved (hex_digit n)" if "n < 16" for n
    using that by (cases "n < 10") (simp_all add: unreserved_def hex_digit_def Let_def)
  then have "c \<in> set (encode_char d) \<Longrightarrow> unreserved c \<or> c = percent" for d
    using of_char_div_16 [of d] by (auto simp: encode_char_def split: if_splits)
  then show "c \<in> set (encodeURIComponent s) \<Longrightarrow> ?thesis" by (auto simp: encodeURIComponent_def)
qed

lemma encode_separators: "slash \<notin> set (encodeURIComponent s)" "CHR ''?'' \<notin> set (encodeURIComponent s)"
  by (auto dest!: encode_codes simp: unreserved_def percent_def char_codes slash_def Let_def)

lemma encode_Nil [simp]: "encodeURIComponent s = [] \<longleftrightarrow> s = []"
  by (cases s) (auto simp: encodeURIComponent_def encode_char_def)

subsection \<open>The address the browser has\<close>

text \<open>
  A path becomes the browser's location by way of its \<^verbatim>\<open>URL\<close> parser, which the model writes out for the
  paths the program makes (their other bytes are already encoded, and they have no fragment): the path ends
  at the first question mark, and its segments \<open>.\<close> and \<open>..\<close>, also written with \<open>%2e\<close>, are removed,
  the latter with the segment before it.
\<close>

definition single_dot :: "string \<Rightarrow> bool" where
  "single_dot s \<longleftrightarrow> map ascii_lower s \<in> {''.'', ''%2e''}"

definition double_dot :: "string \<Rightarrow> bool" where
  "double_dot s \<longleftrightarrow> map ascii_lower s \<in> {''..'', ''.%2e'', ''%2e.'', ''%2e%2e''}"

text \<open>The segments of a path, those before this one in reverse.\<close>

fun url_segments :: "string list \<Rightarrow> string list \<Rightarrow> string list" where
  "url_segments acc [] = rev acc"
| "url_segments acc (s # r) =
     (if double_dot s then url_segments (if r = [] then [] # tl acc else tl acc) r
      else if single_dot s then url_segments (if r = [] then [] # acc else acc) r
      else url_segments (s # acc) r)"

definition url_pathname :: "string \<Rightarrow> string" where
  "url_pathname p = concat (map (\<lambda>s. slash # s) (url_segments [] (split_on slash (drop 1 p))))"

text \<open>\<^verbatim>\<open>location.pathname\<close> and \<^verbatim>\<open>location.search\<close> of a path.\<close>

definition before_query :: "string \<Rightarrow> string" where
  "before_query path = takeWhile (\<lambda>c. c \<noteq> CHR ''?'') path"

definition pathname_of :: "string \<Rightarrow> string" where
  "pathname_of path = url_pathname (before_query path)"

definition search_of :: "string \<Rightarrow> string" where
  "search_of path = dropWhile (\<lambda>c. c \<noteq> CHR ''?'') path"

lemma split_path:
  "CHR ''?'' \<notin> set a \<Longrightarrow> before_query (a @ CHR ''?'' # q) = a"
  "CHR ''?'' \<notin> set a \<Longrightarrow> search_of (a @ CHR ''?'' # q) = CHR ''?'' # q"
  "CHR ''?'' \<notin> set a \<Longrightarrow> before_query a = a" "CHR ''?'' \<notin> set a \<Longrightarrow> search_of a = []"
  by (auto simp: before_query_def search_of_def takeWhile_append dropWhile_append takeWhile_eq_all_conv)

lemma lower_inv: "ascii_lower c = d \<Longrightarrow> c = d \<or> (of_char c :: nat) + 32 = of_char d"
  by (auto simp: ascii_lower_def Let_def split: if_splits)

lemma lower_code: "ascii_lower c = d \<Longrightarrow> c = d \<or> c = char_of ((of_char d :: nat) - 32)"
  using lower_inv [of c d] by (metis add_diff_cancel_right' char_of_char)

lemma lower_dot: "ascii_lower c = CHR ''.'' \<Longrightarrow> c = CHR ''.''" "ascii_lower c = CHR ''%'' \<Longrightarrow> c = CHR ''%''"
  "ascii_lower c = CHR ''2'' \<Longrightarrow> c = CHR ''2''" "ascii_lower c = CHR ''e'' \<Longrightarrow> c = CHR ''e'' \<or> c = CHR ''E''"
proof -
  have e: "char_of ((of_char (CHR ''e'') :: nat) - 32) = CHR ''E''" by code_simp
  show "ascii_lower c = CHR ''e'' \<Longrightarrow> c = CHR ''e'' \<or> c = CHR ''E''" using lower_code [of c "CHR ''e''"] unfolding e .
  have big: "(of_char c :: nat) + 32 = of_char d \<Longrightarrow> c \<noteq> d \<Longrightarrow> ascii_lower c = d \<Longrightarrow> of_char d \<ge> (97 :: nat)" for d
    by (auto simp: ascii_lower_def Let_def split: if_splits)
  have "(of_char (CHR ''.'') :: nat) = 46" "(of_char (CHR ''%'') :: nat) = 37" "(of_char (CHR ''2'') :: nat) = 50" by simp_all
  then show "ascii_lower c = CHR ''.'' \<Longrightarrow> c = CHR ''.''" "ascii_lower c = CHR ''%'' \<Longrightarrow> c = CHR ''%''"
    "ascii_lower c = CHR ''2'' \<Longrightarrow> c = CHR ''2''"
    using lower_inv big by fastforce+
qed

lemma dots_decode:
  "single_dot e \<Longrightarrow> percent_decode e = Some ''.''"
  "double_dot e \<Longrightarrow> percent_decode e = Some ''..''"
proof -
  have d: "percent_decode ''.'' = Some ''.''" "percent_decode ''%2e'' = Some ''.''" "percent_decode ''%2E'' = Some ''.''"
    "percent_decode ''..'' = Some ''..''" "percent_decode ''.%2e'' = Some ''..''" "percent_decode ''.%2E'' = Some ''..''"
    "percent_decode ''%2e.'' = Some ''..''" "percent_decode ''%2E.'' = Some ''..''"
    "percent_decode ''%2e%2e'' = Some ''..''" "percent_decode ''%2e%2E'' = Some ''..''"
    "percent_decode ''%2E%2e'' = Some ''..''" "percent_decode ''%2E%2E'' = Some ''..''" by code_simp+
  show "single_dot e \<Longrightarrow> percent_decode e = Some ''.''"
    unfolding single_dot_def using d by (auto simp: map_eq_Cons_conv simp del: percent_decode.simps dest!: lower_dot)
  show "double_dot e \<Longrightarrow> percent_decode e = Some ''..''"
    unfolding double_dot_def using d by (auto simp: map_eq_Cons_conv simp del: percent_decode.simps dest!: lower_dot)
qed

lemma encoded_not_dots:
  assumes "n \<notin> {''.'', ''..''}"
  shows "\<not> single_dot (encodeURIComponent n)" "\<not> double_dot (encodeURIComponent n)"
  using assms dots_decode [of "encodeURIComponent n"] percent_decode_encode [of n] by auto

lemma known_paths: "url_pathname ''/'' = ''/''" "url_pathname ''/file'' = ''/file''"
  "url_pathname ''/folder'' = ''/folder''" "url_pathname ''/changes'' = ''/changes''"
  by code_simp+

lemma agent_path_encode: "n \<noteq> [] \<Longrightarrow> agent_path (''/agents/'' @ encodeURIComponent n) = Some (encodeURIComponent n)"
proof -
  assume "n \<noteq> []"
  then have e: "encodeURIComponent n \<noteq> []" by simp
  then have "last (encodeURIComponent n) \<noteq> slash"
    using encode_separators(1) [of n] by (metis last_in_set)
  with e encode_separators(1) [of n] show ?thesis by (simp add: agent_path_def starts_with.simps)
qed

lemma not_agent_path:
  "agent_path ''/file'' = None" "agent_path ''/folder'' = None" "agent_path ''/changes'' = None"
  by (simp_all add: agent_path_def starts_with.simps)

lemma digits_code: "c \<in> set (digits n) \<Longrightarrow> 48 \<le> (of_char c :: nat) \<and> (of_char c :: nat) \<le> 57"
proof (induction n rule: digits.induct)
  case (1 n)
  show ?case
  proof (cases "n < 10")
    case True
    with 1 show ?thesis by (auto simp: digits.simps [of n])
  next
    case False
    have d: "digits n = digits (n div 10) @ [char_of (48 + n mod 10)]"
      using False by (subst digits.simps) simp
    have "n mod 10 < 10" by simp
    then have "48 + n mod 10 < 256" by linarith
    with 1 False show ?thesis unfolding d by auto
  qed
qed

lemma digits_head: "0 < n \<Longrightarrow> digits n \<noteq> [] \<and> hd (digits n) \<noteq> CHR ''0''"
proof (induction n rule: digits.induct)
  case (1 n)
  show ?case
  proof (cases "n < 10")
    case True
    then have "(of_char (hd (digits n)) :: nat) = 48 + n" by (simp add: digits.simps [of n])
    moreover have "(of_char (CHR ''0'') :: nat) = 48" by simp
    ultimately have "hd (digits n) \<noteq> CHR ''0''" using 1(2) by (metis add_cancel_right_right less_irrefl)
    with True show ?thesis by (simp add: digits.simps [of n])
  next
    case False
    have d: "digits n = digits (n div 10) @ [char_of (48 + n mod 10)]"
      using False by (subst digits.simps) simp
    with 1 False show ?thesis by (simp add: hd_append)
  qed
qed

lemma line_digits_shown: "1 \<le> n \<Longrightarrow> line_digits (show_int n)"
  using digits_head [of "nat n"] digits_code [of _ "nat n"]
  by (auto simp: line_digits_def show_int_def list_all_iff)

lemma route_line_shown:
  assumes "1 \<le> n" and "n < 2 ^ 53"
  shows "route_line (Some (JStr (show_int n))) = Some (Some n)"
  using assms line_digits_shown [of n] by (simp add: route_line_def show_int_def number_value_digits js_round_exact)

text \<open>What a route keeps of a panel.\<close>

fun as_routed :: "panel \<Rightarrow> panel" where
  "as_routed (FilePanel p) =
     FilePanel (p\<lparr>fp_preview := True, fp_viewMode := initialFileViewMode (fp_path p) (fp_line p)\<rparr>)"
| "as_routed p = set_preview True p"

fun routable :: "panel \<Rightarrow> bool" where
  "routable (AgentPanel p) = utf8_valid (ap_name p)"
| "routable (FilePanel p) = (case fp_line p of None \<Rightarrow> True | Some n \<Rightarrow> n < 2 ^ 53)"
| "routable p = True"

subsection \<open>The path and the query of a panel\<close>

fun route_pathname :: "panel \<Rightarrow> string" where
  "route_pathname (AgentPanel p) = ''/agents/'' @ encodeURIComponent (ap_name p)"
| "route_pathname (FilePanel p) = ''/file''"
| "route_pathname (FolderPanel p) = ''/folder''"
| "route_pathname (ChangesPanel p) = ''/changes''"

fun route_query :: "panel \<Rightarrow> (string \<times> string) list" where
  "route_query (AgentPanel p) = []"
| "route_query (FilePanel p) = [(''root'', fp_root p), (''path'', fp_path p)]
     @ (if truthy_line (fp_line p) then [(''line'', show_int (the (fp_line p)))] else [])"
| "route_query (FolderPanel p) = [(''root'', dp_root p), (''path'', dp_path p)]"
| "route_query (ChangesPanel p) = [(''root'', cp_root p)]"

definition with_query :: "string \<Rightarrow> (string \<times> string) list \<Rightarrow> string" where
  "with_query pathname kvs = pathname @ (if kvs = [] then [] else CHR ''?'' # query_string kvs)"

lemma panel_path: "panelRoutePath p = with_query (route_pathname p) (route_query p)"
  by (cases p) (simp_all add: with_query_def panelRoutePath_file_def)

lemma route_pathname_plain: "CHR ''?'' \<notin> set (route_pathname p)"
  using encode_separators(2) by (cases p) simp_all

lemma parse_query_Nil: "parse_query [] = []"
  by (simp add: parse_query_def starts_with.simps)

lemma split_with_query:
  assumes "CHR ''?'' \<notin> set pathname"
  shows "pathname_of (with_query pathname kvs) = url_pathname pathname"
    "parse_query (search_of (with_query pathname kvs)) = kvs"
    "pathname @ search_of (with_query pathname kvs) = with_query pathname kvs"
  using split_path [OF assms] parse_query_string [of kvs]
  by (cases "kvs = []"; simp add: with_query_def parse_query_Nil pathname_of_def)+

text \<open>The panels whose path the parser leaves alone: all but an agent whose name is a dot segment.\<close>

fun dotless :: "panel \<Rightarrow> bool" where
  "dotless (AgentPanel p) \<longleftrightarrow> ap_name p \<notin> {''.'', ''..''}"
| "dotless _ = True"

lemma url_route_pathname:
  assumes "dotless p"
  shows "url_pathname (route_pathname p) = route_pathname p"
proof (cases p)
  case (AgentPanel a)
  let ?e = "encodeURIComponent (ap_name a)"
  have "split_on slash (''agents'' @ slash # ?e) = ''agents'' # split_on slash ?e"
    by (rule split_on_append) (simp add: slash_def)
  also have "split_on slash ?e = [?e]" by (rule split_on_single) (rule encode_separators)
  finally have "split_on slash (drop 1 (route_pathname p)) = [''agents'', ?e]" using AgentPanel by (simp add: slash_def)
  moreover have "\<not> single_dot ''agents''" "\<not> double_dot ''agents''" by code_simp+
  moreover have "\<not> single_dot ?e" "\<not> double_dot ?e" using encoded_not_dots [of "ap_name a"] assms AgentPanel by simp_all
  ultimately show ?thesis using AgentPanel by (simp add: url_pathname_def slash_def)
qed (simp_all add: known_paths)

text \<open>Other names in the query, such as the space, are not looked at.\<close>

lemma location_back:
  assumes "panel_ok p" and "routable p"
    and s: "parse_query search = route_query p @ extra" and e: "set (map fst extra) \<inter> {''root'', ''path'', ''line''} = {}"
  shows "panelParamsFromRouteLocation (route_pathname p) search = Some (Some (as_routed p))"
proof -
  have "map_of extra k = None" if "k \<in> {''root'', ''path'', ''line''}" for k
    unfolding get_None_keys using e that by blast
  then have q: "query_value (route_query p @ extra) k = query_value (route_query p) k" if "k \<in> {''root'', ''path'', ''line''}" for k
    using that by (auto simp: query_value_def map_add_def split: option.split)
  define kvs where "kvs = route_query p @ extra"
  have s': "parse_query search = kvs" using s unfolding kvs_def .
  show ?thesis
  proof (cases p)
    case (AgentPanel a)
    then show ?thesis
      using assms(1,2) by (simp add: panelParamsFromRouteLocation_def agent_path_encode [simplified] validate_agent_def as_nonempty_def)
  next
    case (FilePanel f)
    have line: "route_line (query_value (route_query p) ''line'') = Some (fp_line f)"
      using assms(1,2) FilePanel route_line_shown
      by (cases "fp_line f") (auto simp: truthy_line_def route_line_def query_value_def)
    have "query_value kvs ''root'' = Some (JStr (fp_root f))" "query_value kvs ''path'' = Some (JStr (fp_path f))"
      "route_line (query_value kvs ''line'') = Some (fp_line f)"
      unfolding kvs_def using q line by (simp_all add: FilePanel) (simp_all add: query_value_def)
    then show ?thesis
      using assms(1) FilePanel unfolding panelParamsFromRouteLocation_def s'
      by (simp add: not_agent_path route_values_def knownPath_def)
  next
    case (FolderPanel f)
    have "query_value kvs ''root'' = Some (JStr (dp_root f))" "query_value kvs ''path'' = Some (JStr (dp_path f))"
      unfolding kvs_def using q by (simp_all add: FolderPanel) (simp_all add: query_value_def)
    then show ?thesis
      using assms(1) FolderPanel unfolding panelParamsFromRouteLocation_def s'
      by (simp add: not_agent_path route_values_def knownPath_def)
  next
    case (ChangesPanel c)
    have "query_value kvs ''root'' = Some (JStr (cp_root c))"
      unfolding kvs_def using q by (simp add: ChangesPanel) (simp add: query_value_def)
    then show ?thesis
      using assms(1) ChangesPanel unfolding panelParamsFromRouteLocation_def s'
      by (simp add: not_agent_path route_values_def knownPath_def)
  qed
qed

lemma subject_back:
  assumes "panel_ok p" and "routable p"
  shows "panelParamsFromHistorySubject (panelRouteSubject p) = Some (as_routed p)"
proof (cases p)
  case (FilePanel f)
  have "route_line (field (panelRouteSubject p) ''line'') = Some (fp_line f)"
    using assms FilePanel line_digits_shown by (cases "fp_line f") (auto simp: truthy_line_def route_line_def)
  then show ?thesis
    using assms FilePanel by (simp add: panelParamsFromHistorySubject_def kind_named_def route_values_def stateSubject_def)
qed (use assms in \<open>simp_all add: panelParamsFromHistorySubject_def kind_named_def stateSubject_def route_values_def
      validate_agent_def as_nonempty_def\<close>)

text \<open>Where the path of an agent named \<open>.\<close> or \<open>..\<close> leads: to no panel.\<close>

lemma dotted_location:
  assumes "panel_ok p" and "\<not> dotless p"
  shows "panelParamsFromRouteLocation (pathname_of (panelRoutePath p)) search = None"
proof -
  obtain a where p: "p = AgentPanel a" and n: "ap_name a \<in> {''.'', ''..''}"
    using assms(2) by (cases p) auto
  have path: "pathname_of ''/agents/.'' = ''/agents/''" "pathname_of ''/agents/..'' = ''/''"
    by code_simp+
  have "encodeURIComponent ''.'' = ''.''" "encodeURIComponent ''..'' = ''..''" by code_simp+
  then have "pathname_of (panelRoutePath p) \<in> {''/agents/'', ''/''}"
    using n p path by auto
  moreover have "agent_path ''/agents/'' = None" "agent_path ''/'' = None" by code_simp+
  ultimately show ?thesis
    by (auto simp: panelParamsFromRouteLocation_def route_values_def knownPath_def)
qed

text \<open>
  C16. The address of a panel leads back to it: the location the browser makes of the path of a panel is
  read back as the panel with the same subject and line, as a preview, whatever characters the agent's
  name, the root and the path contain, and so is its history subject. The one exception is an agent named
  \<open>.\<close> or \<open>..\<close>, whose name the encoding leaves as it is: the browser removes it from the path, and
  the address leads to no panel.
\<close>

theorem panel_route_roundtrip:
  assumes "panel_ok p" and "routable p"
  shows "panelParamsFromRouteLocation (pathname_of (panelRoutePath p)) (search_of (panelRoutePath p)) =
      (if dotless p then Some (Some (as_routed p)) else None) \<and>
    panelParamsFromHistorySubject (panelRouteSubject p) = Some (as_routed p)"
proof -
  note split = split_with_query [OF route_pathname_plain, of p "route_query p"]
  have "panelParamsFromRouteLocation (route_pathname p) (search_of (panelRoutePath p)) = Some (Some (as_routed p))"
    by (rule location_back [OF assms, of _ "[]"]) (simp_all add: split panel_path)
  moreover have "dotless p \<Longrightarrow> pathname_of (panelRoutePath p) = route_pathname p"
    by (simp add: panel_path split url_route_pathname)
  ultimately show ?thesis
    using subject_back [OF assms] dotted_location [OF assms(1)] by (cases "dotless p") simp_all
qed

text \<open>An agent whose name needs encoding, one whose name is lost, and a file.\<close>

theorem panel_route_roundtrip_witness:
  "panelParamsFromRouteLocation (pathname_of (panelRoutePath (AgentPanel \<lparr>ap_name = ''../?'', ap_preview = False\<rparr>)))
      (search_of (panelRoutePath (AgentPanel \<lparr>ap_name = ''../?'', ap_preview = False\<rparr>))) =
    Some (Some (AgentPanel \<lparr>ap_name = ''../?'', ap_preview = True\<rparr>)) \<and>
   panelParamsFromRouteLocation (pathname_of (panelRoutePath (AgentPanel \<lparr>ap_name = ''..'', ap_preview = False\<rparr>)))
      (search_of (panelRoutePath (AgentPanel \<lparr>ap_name = ''..'', ap_preview = False\<rparr>))) = None \<and>
   panelParamsFromHistorySubject (panelRouteSubject (FilePanel \<lparr>fp_root = ''/a b'', fp_path = ''x&y?.MD'',
      fp_line = Some 7, fp_preview = False, fp_viewMode = Rendered\<rparr>)) =
   Some (FilePanel \<lparr>fp_root = ''/a b'', fp_path = ''x&y?.MD'', fp_line = Some 7, fp_preview = True,
      fp_viewMode = initialFileViewMode ''x&y?.MD'' (Some 7)\<rparr>)"
proof -
  have utf8: "utf8_valid ''../?''" "utf8_valid ''..''" by code_simp+
  show ?thesis
    using utf8 panel_route_roundtrip [of "AgentPanel \<lparr>ap_name = ''../?'', ap_preview = False\<rparr>"]
      panel_route_roundtrip [of "AgentPanel \<lparr>ap_name = ''..'', ap_preview = False\<rparr>"]
      panel_route_roundtrip [of "FilePanel \<lparr>fp_root = ''/a b'', fp_path = ''x&y?.MD'',
        fp_line = Some 7, fp_preview = False, fp_viewMode = Rendered\<rparr>"]
    by simp
qed

end
