(* ===== verification/ShellPrefs.thy ===== *)
theory ShellPrefs
  imports Storage
begin

section \<open>Texts with a last good copy, rails and shell preferences\<close>

text \<open>
  \<^verbatim>\<open>features/spaces/browserRecord.ts\<close>, \<^verbatim>\<open>features/layout/utilityRailModel.ts\<close> and
  \<^verbatim>\<open>features/layout/shellPreferences.ts\<close>: the protocol by which a small text is kept in the browser's
  storage with its last good copy (the layouts follow it too), the widths of the rails, and the
  preferences of the shell.
\<close>

subsection \<open>The last good copy\<close>

record write_state =
  ws_recovering :: bool
  ws_lastGood :: "cell option"

text \<open>
  One write: the copy under the backup key first, unless the primary is being recovered from it, then
  the text. Answers whether it succeeded (\<open>state\<close> is returned as it is when not), the state and the
  storage.
\<close>

definition write_last_good ::
    "string \<Rightarrow> string \<Rightarrow> cell \<Rightarrow> write_state \<Rightarrow> storage \<Rightarrow> bool \<times> write_state \<times> storage" where
  "write_last_good backup_key key raw state st =
     (let (st1, ok1) = (if ws_recovering state then (st, True)
                        else setItem backup_key (or_else (ws_lastGood state) raw) st)
      in if \<not> ok1 then (False, state, st1)
         else let (st2, ok2) = setItem key raw st1
              in if ok2 then (True, \<lparr>ws_recovering = False, ws_lastGood = Some raw\<rparr>, st2) else (False, state, st2))"

definition last_good_key :: "string \<Rightarrow> string" where
  "last_good_key key = key @ ''.last-good''"

definition readBrowserRecord ::
    "(cell option \<Rightarrow> 'v option) \<Rightarrow> string \<Rightarrow> storage \<Rightarrow> 'v option \<times> write_state" where
  "readBrowserRecord parse key st =
     (let primaryRaw = or_else (getItem st key) None;
          backupRaw = or_else (getItem st (last_good_key key)) None;
          primary = parse primaryRaw; backup = parse backupRaw
      in (if primary \<noteq> None then primary else backup,
          \<lparr>ws_recovering = (primary = None \<and> backup \<noteq> None),
           ws_lastGood = (if primary \<noteq> None then primaryRaw else None)\<rparr>))"

definition writeBrowserRecord ::
    "string \<Rightarrow> cell \<Rightarrow> write_state \<Rightarrow> storage \<Rightarrow> write_state \<times> storage" where
  "writeBrowserRecord key raw state st =
     (if ws_lastGood state = Some raw then (state, st)
      else snd (write_last_good (last_good_key key) key raw state st))"

subsection \<open>Rails\<close>

datatype rail_side = LeftRail | RightRail

datatype arrow_key = ArrowLeft | ArrowRight

record rail_preference =
  rail_width :: num
  rail_collapsed :: bool

record rail_preferences =
  fleet_rail :: rail_preference
  notes_rail :: rail_preference

definition minimumRailWidth :: num where "minimumRailWidth = 200"

definition maximumRailWidth :: num where "maximumRailWidth = 440"

definition clampRailWidth :: "num \<Rightarrow> num" where
  "clampRailWidth w = min maximumRailWidth (max minimumRailWidth w)"

definition defaultRailPreferences :: "num option \<Rightarrow> rail_preferences" where
  "defaultRailPreferences w =
     \<lparr>fleet_rail = \<lparr>rail_width = clampRailWidth (or_else w 250), rail_collapsed = False\<rparr>,
      notes_rail = \<lparr>rail_width = 280, rail_collapsed = False\<rparr>\<rparr>"

definition resizedRailWidth :: "num \<Rightarrow> rail_side \<Rightarrow> num \<Rightarrow> num" where
  "resizedRailWidth w side delta = clampRailWidth (js_add w (if side = LeftRail then delta else - delta))"

definition railWidthFromKey :: "num \<Rightarrow> rail_side \<Rightarrow> arrow_key \<Rightarrow> num" where
  "railWidthFromKey w side key = resizedRailWidth w side (if key = ArrowRight then 10 else - 10)"

subsection \<open>Shell preferences\<close>

definition shellStorageKey :: string where
  "shellStorageKey = ''herder.web.shell.v1''"

definition shellStorageBackupKey :: string where
  "shellStorageBackupKey = ''herder.web.shell.v1.last-good''"

datatype fleet_view = Supervision | Placement | Lanes

fun fleet_view_name :: "fleet_view \<Rightarrow> string" where
  "fleet_view_name Supervision = ''supervision''"
| "fleet_view_name Placement = ''placement''"
| "fleet_view_name Lanes = ''lanes''"

definition isFleetView :: "json \<Rightarrow> fleet_view option" where
  "isFleetView v =
     (if v = JStr ''supervision'' then Some Supervision
      else if v = JStr ''placement'' then Some Placement
      else if v = JStr ''lanes'' then Some Lanes else None)"

definition storedFleetView :: "json \<Rightarrow> fleet_view option" where
  "storedFleetView v = (if v = JStr ''groups'' then Some Lanes else isFleetView v)"

record shell_preferences =
  sh_rails :: rail_preferences
  sh_expanded :: "string list option"
  sh_workspaces :: "string list option"
  sh_managers :: "string list option"
  sh_view :: "fleet_view option"
  sh_collapsed :: "bool option"

fun json_strings :: "json list \<Rightarrow> string list option" where
  "json_strings [] = Some []"
| "json_strings (JStr s # xs) = map_option ((#) s) (json_strings xs)"
| "json_strings _ = None"

text \<open>A property that may be missing, read by \<open>f\<close> when it is there; the outer \<open>None\<close> refuses the value.\<close>

definition optional :: "(json \<Rightarrow> 'v option) \<Rightarrow> json option \<Rightarrow> 'v option option" where
  "optional f v = (case v of None \<Rightarrow> Some None | Some x \<Rightarrow> map_option Some (f x))"

definition as_strings :: "json \<Rightarrow> string list option" where
  "as_strings v = (case v of JArr xs \<Rightarrow> json_strings xs | _ \<Rightarrow> None)"

definition parse_rail :: "json option \<Rightarrow> rail_preference option" where
  "parse_rail v =
     (case v of
        Some (JObj kvs) \<Rightarrow>
          (case (as_finite (field (JObj kvs) ''width''), as_bool (field (JObj kvs) ''collapsed'')) of
             (Some w, Some c) \<Rightarrow> Some \<lparr>rail_width = max 200 (min 440 w), rail_collapsed = c\<rparr>
           | _ \<Rightarrow> None)
      | _ \<Rightarrow> None)"

definition parseShellPreferences :: "cell option \<Rightarrow> shell_preferences option" where
  "parseShellPreferences raw =
     (case parse_cell raw of
        None \<Rightarrow> None
      | Some v \<Rightarrow>
          if \<not> is_record v \<or> field v ''version'' \<noteq> Some (JNum 1) then None
          else (case field v ''rails'' of
             Some (JObj rails) \<Rightarrow>
               (case (optional as_strings (field v ''expandedItems''),
                      optional as_strings (field v ''knownWorkspaceItems''),
                      optional as_strings (field v ''knownManagerItems''),
                      optional storedFleetView (field v ''fleetView''),
                      optional (\<lambda>b. as_bool (Some b)) (field v ''spacesCollapsed'')) of
                  (Some e, Some w, Some m, Some f, Some c) \<Rightarrow>
                    (case (parse_rail (field (JObj rails) ''fleet''), parse_rail (field (JObj rails) ''notes'')) of
                       (Some fleet, Some note) \<Rightarrow>
                         Some \<lparr>sh_rails = \<lparr>fleet_rail = fleet, notes_rail = note\<rparr>, sh_expanded = e,
                               sh_workspaces = w, sh_managers = m, sh_view = f, sh_collapsed = c\<rparr>
                     | _ \<Rightarrow> None)
                | _ \<Rightarrow> None)
           | _ \<Rightarrow> None))"

record shell_state =
  ss_fleet :: rail_preference
  ss_notes :: rail_preference
  ss_expanded :: "string list option"
  ss_workspaces :: "string list option"
  ss_managers :: "string list option"
  ss_view :: fleet_view
  ss_collapsed :: bool

definition shellPreferencesValue :: "shell_state \<Rightarrow> shell_preferences" where
  "shellPreferencesValue s =
     \<lparr>sh_rails = \<lparr>fleet_rail = ss_fleet s, notes_rail = ss_notes s\<rparr>, sh_expanded = ss_expanded s,
      sh_workspaces = ss_workspaces s, sh_managers = ss_managers s, sh_view = Some (ss_view s),
      sh_collapsed = (if ss_collapsed s then Some True else None)\<rparr>"

text \<open>\<open>JSON.stringify\<close> of the preferences, as a value.\<close>

definition rail_json :: "rail_preference \<Rightarrow> json" where
  "rail_json r = JObj [(''width'', JNum (rail_width r)), (''collapsed'', JBool (rail_collapsed r))]"

definition opt_field :: "string \<Rightarrow> ('v \<Rightarrow> json) \<Rightarrow> 'v option \<Rightarrow> (string \<times> json) list" where
  "opt_field k f v = (case v of None \<Rightarrow> [] | Some x \<Rightarrow> [(k, f x)])"

definition strings_json :: "string list \<Rightarrow> json" where
  "strings_json xs = JArr (map JStr xs)"

definition shell_json :: "shell_preferences \<Rightarrow> json" where
  "shell_json p = JObj
     ([(''version'', JNum 1),
       (''rails'', JObj [(''fleet'', rail_json (fleet_rail (sh_rails p))), (''notes'', rail_json (notes_rail (sh_rails p)))])]
      @ opt_field ''fleetView'' (\<lambda>v. JStr (fleet_view_name v)) (sh_view p)
      @ opt_field ''spacesCollapsed'' JBool (sh_collapsed p)
      @ opt_field ''expandedItems'' strings_json (sh_expanded p)
      @ opt_field ''knownWorkspaceItems'' strings_json (sh_workspaces p)
      @ opt_field ''knownManagerItems'' strings_json (sh_managers p))"

record 'v stored_read =
  sr_stored :: 'v
  sr_state :: write_state

definition readShellPreferences :: "storage \<Rightarrow> shell_preferences stored_read option" where
  "readShellPreferences st =
     (case (getItem st shellStorageKey, getItem st shellStorageBackupKey) of
        (Some primaryRaw, Some backupRaw) \<Rightarrow>
          (let primary = parseShellPreferences primaryRaw; backup = parseShellPreferences backupRaw
           in Some
             \<lparr>sr_stored = or_else primary (or_else backup
                \<lparr>sh_rails = defaultRailPreferences None, sh_expanded = None, sh_workspaces = None,
                 sh_managers = None, sh_view = None, sh_collapsed = None\<rparr>),
              sr_state = \<lparr>ws_recovering = (primary = None \<and> backup \<noteq> None),
                          ws_lastGood = (if primary \<noteq> None then primaryRaw else None)\<rparr>\<rparr>)
      | _ \<Rightarrow> None)"

definition writeShellPreferences :: "cell \<Rightarrow> write_state \<Rightarrow> storage \<Rightarrow> write_state \<times> storage" where
  "writeShellPreferences raw state st =
     snd (write_last_good shellStorageBackupKey shellStorageKey raw state st)"

subsection \<open>A good copy always remains\<close>

definition good_copy :: "(cell option \<Rightarrow> 'v option) \<Rightarrow> string \<Rightarrow> string \<Rightarrow> storage \<Rightarrow> bool" where
  "good_copy parse backup_key key st \<longleftrightarrow>
     parse (get (items st) key) \<noteq> None \<or> parse (get (items st) backup_key) \<noteq> None"

text \<open>What every state of a writer keeps: its last good text is good, and so is one of the copies.\<close>

definition copies_inv :: "(cell option \<Rightarrow> 'v option) \<Rightarrow> string \<Rightarrow> string \<Rightarrow> write_state \<Rightarrow> storage \<Rightarrow> bool" where
  "copies_inv parse backup_key key state st \<longleftrightarrow>
     (\<forall>g. ws_lastGood state = Some g \<longrightarrow> parse (Some g) \<noteq> None) \<and> good_copy parse backup_key key st"

lemma setItem_good:
  assumes "parse (Some c) \<noteq> None" and "k \<noteq> bk" and "good_copy parse bk k st"
  shows "good_copy parse bk k (fst (setItem k c st))" and "good_copy parse bk k (fst (setItem bk c st))"
  using setItem_items [of k c st] setItem_items [of bk c st] assms
  by (auto simp: good_copy_def get_put)

lemma write_last_good_inv:
  assumes inv: "copies_inv parse bk k state st" and raw: "parse (Some raw) \<noteq> None" and ne: "k \<noteq> bk"
  shows "copies_inv parse bk k (fst (snd (write_last_good bk k raw state st)))
    (snd (snd (write_last_good bk k raw state st)))"
proof -
  let ?g = "or_else (ws_lastGood state) raw"
  have g: "parse (Some ?g) \<noteq> None" using inv raw by (cases "ws_lastGood state") (auto simp: copies_inv_def)
  have good: "good_copy parse bk k st" using inv by (simp add: copies_inv_def)
  define st1 where "st1 = (if ws_recovering state then st else fst (setItem bk ?g st))"
  have g1: "good_copy parse bk k st1"
    using setItem_good(2) [where parse = parse, OF g ne good] good by (simp add: st1_def)
  have g2: "good_copy parse bk k (fst (setItem k raw st1))"
    by (rule setItem_good(1) [where parse = parse, OF raw ne g1])
  show ?thesis
    using inv raw g1 g2
    by (cases "setItem bk ?g st"; cases "setItem k raw st1")
      (auto simp: write_last_good_def copies_inv_def st1_def split: if_splits)
qed

text \<open>A sequence of writes, the state handed from one to the next.\<close>

definition write_texts :: "(cell \<Rightarrow> write_state \<Rightarrow> storage \<Rightarrow> write_state \<times> storage) \<Rightarrow> cell list
    \<Rightarrow> write_state \<times> storage \<Rightarrow> write_state \<times> storage" where
  "write_texts write raws p = fold (\<lambda>raw (state, st). write raw state st) raws p"

text \<open>
  What a writer of such a text promises: writing a good text keeps the copies. Its clients write good
  texts, one after the other.
\<close>

locale last_good_copies =
  fixes parse :: "cell option \<Rightarrow> 'v option"
    and backup_key :: string
    and key :: string
    and writer :: "cell \<Rightarrow> write_state \<Rightarrow> storage \<Rightarrow> write_state \<times> storage"
  assumes write_inv: "copies_inv parse backup_key key state st \<Longrightarrow> parse (Some raw) \<noteq> None \<Longrightarrow>
    copies_inv parse backup_key key (fst (writer raw state st)) (snd (writer raw state st))"
begin

lemma writes_inv:
  assumes "copies_inv parse backup_key key state st" and "\<forall>raw \<in> set raws. parse (Some raw) \<noteq> None"
  shows "copies_inv parse backup_key key (fst (write_texts writer raws (state, st)))
    (snd (write_texts writer raws (state, st)))"
  using assms
proof (induction raws arbitrary: state st)
  case (Cons raw raws)
  have "copies_inv parse backup_key key (fst (writer raw state st)) (snd (writer raw state st))"
    by (rule write_inv) (use Cons.prems in simp_all)
  with Cons show ?case by (cases "writer raw state st") (simp add: write_texts_def)
qed (simp add: write_texts_def)

lemma writes_keep_good:
  assumes "good_copy parse backup_key key st"
    and "\<forall>g. ws_lastGood state = Some g \<longrightarrow> parse (Some g) \<noteq> None"
    and "\<forall>raw \<in> set raws. parse (Some raw) \<noteq> None"
  shows "good_copy parse backup_key key (snd (write_texts writer raws (state, st)))"
  using writes_inv [of state st raws] assms by (simp add: copies_inv_def)

end

interpretation shell_copies:
  last_good_copies parseShellPreferences shellStorageBackupKey shellStorageKey writeShellPreferences
  by unfold_locales
    (simp add: writeShellPreferences_def write_last_good_inv shellStorageKey_def shellStorageBackupKey_def)

interpretation browser_copies:
  last_good_copies parse "last_good_key key" key "writeBrowserRecord key" for parse key
  by unfold_locales (simp add: writeBrowserRecord_def write_last_good_inv last_good_key_def)

lemma last_good_parses:
  "readShellPreferences st = Some r \<Longrightarrow> ws_lastGood (sr_state r) = Some g \<Longrightarrow> parseShellPreferences (Some g) \<noteq> None"
  by (auto simp: readShellPreferences_def Let_def getItem_def split: if_splits)

lemma good_copy_read:
  "readShellPreferences st = Some r \<Longrightarrow> good_copy parseShellPreferences shellStorageBackupKey shellStorageKey st \<Longrightarrow>
     parseShellPreferences (get (items st) shellStorageKey) = Some (sr_stored r) \<or>
     parseShellPreferences (get (items st) shellStorageBackupKey) = Some (sr_stored r)"
  by (auto simp: readShellPreferences_def good_copy_def Let_def getItem_def split: if_splits)

lemma readable_write_last_good [simp]:
  "readable (snd (snd (write_last_good bk k raw state st))) = readable st"
  using readable_setItem
  by (auto simp: write_last_good_def Let_def split: prod.splits if_splits) (metis fst_conv readable_setItem)+

lemma readable_write_texts:
  "readable (snd (write_texts writeShellPreferences raws p)) = readable (snd p)"
  by (induction raws arbitrary: p) (auto simp: write_texts_def writeShellPreferences_def split: prod.splits)

subsection \<open>Preferences survive\<close>

text \<open>Preferences a shell can have: rails within their bounds.\<close>

definition rail_ok :: "rail_preference \<Rightarrow> bool" where
  "rail_ok r \<longleftrightarrow> minimumRailWidth \<le> rail_width r \<and> rail_width r \<le> maximumRailWidth"

definition preferences_ok :: "shell_preferences \<Rightarrow> bool" where
  "preferences_ok p \<longleftrightarrow> rail_ok (fleet_rail (sh_rails p)) \<and> rail_ok (notes_rail (sh_rails p))"

lemma json_strings_map [simp]: "json_strings (map JStr xs) = Some xs"
  by (induction xs) auto

lemma optional_strings [simp]: "optional as_strings (map_option strings_json v) = Some v"
  by (cases v) (simp_all add: optional_def as_strings_def strings_json_def)

lemma optional_view [simp]: "optional storedFleetView (map_option (\<lambda>v. JStr (fleet_view_name v)) f) = Some f"
proof (cases f)
  case (Some v)
  then show ?thesis by (cases v) (simp_all add: optional_def storedFleetView_def isFleetView_def)
qed (simp add: optional_def)

lemma optional_bool [simp]: "optional (\<lambda>b. as_bool (Some b)) (map_option JBool c) = Some c"
  by (cases c) (simp_all add: optional_def)

lemma parse_rail_json [simp]: "rail_ok r \<Longrightarrow> parse_rail (Some (rail_json r)) = Some r"
  by (cases r) (simp add: parse_rail_def rail_json_def rail_ok_def minimumRailWidth_def maximumRailWidth_def)

lemma field_opt:
  "map_of (opt_field k f v @ kvs) k' = (if k = k' then (case v of Some x \<Rightarrow> Some (f x) | None \<Rightarrow> map_of kvs k') else map_of kvs k')"
  by (auto simp: opt_field_def split: option.splits)

lemma field_opt_last:
  "map_of (opt_field k f v) k' = (if k = k' then map_option f v else None)"
  by (auto simp: opt_field_def split: option.splits)

lemma shell_json_fields:
  "field (shell_json p) ''version'' = Some (JNum 1)"
  "field (shell_json p) ''rails'' = Some (JObj [(''fleet'', rail_json (fleet_rail (sh_rails p))),
     (''notes'', rail_json (notes_rail (sh_rails p)))])"
  "field (shell_json p) ''expandedItems'' = map_option strings_json (sh_expanded p)"
  "field (shell_json p) ''knownWorkspaceItems'' = map_option strings_json (sh_workspaces p)"
  "field (shell_json p) ''knownManagerItems'' = map_option strings_json (sh_managers p)"
  "field (shell_json p) ''fleetView'' = map_option (\<lambda>v. JStr (fleet_view_name v)) (sh_view p)"
  "field (shell_json p) ''spacesCollapsed'' = map_option JBool (sh_collapsed p)"
  "is_record (shell_json p)"
  by (simp_all add: shell_json_def field_opt field_opt_last map_option_case del: map_of_append split: option.split)

lemma rails_fields:
  "field (JObj [(''fleet'', a), (''notes'', b)]) ''fleet'' = Some a"
  "field (JObj [(''fleet'', a), (''notes'', b)]) ''notes'' = Some b"
  by simp_all

lemma parse_shell_json: "preferences_ok p \<Longrightarrow> parseShellPreferences (Some (Json (shell_json p))) = Some p"
  unfolding parseShellPreferences_def
  by (simp add: shell_json_fields rails_fields preferences_ok_def del: field.simps)

lemma parse_rail_ok: "parse_rail v = Some r \<Longrightarrow> rail_ok r"
  by (auto simp: parse_rail_def rail_ok_def minimumRailWidth_def maximumRailWidth_def split: option.splits json.splits)

lemma parse_shell_ok: "parseShellPreferences raw = Some p \<Longrightarrow> preferences_ok p"
  unfolding parseShellPreferences_def
  by (auto simp: preferences_ok_def Let_def dest: parse_rail_ok split: option.splits if_splits json.splits)

text \<open>
  Preferences read back as they were written, and what is read is always usable: the text of any
  preferences whose rails are within bounds parses to these preferences, and whatever a browser's storage
  holds, the rails of what it reads are between 200 and 440 pixels wide.
\<close>

lemma shell_preferences_roundtrip:
  "(\<forall>p. preferences_ok p = (parseShellPreferences (Some (Json (shell_json p))) = Some p)) \<and>
   (\<forall>st r. readShellPreferences st = Some r \<longrightarrow> preferences_ok (sr_stored r))"
proof -
  have "preferences_ok (sr_stored r)" if r: "readShellPreferences st = Some r" for st r
  proof -
    have "preferences_ok \<lparr>sh_rails = defaultRailPreferences None, sh_expanded = None, sh_workspaces = None,
        sh_managers = None, sh_view = None, sh_collapsed = None\<rparr>"
      by (simp add: preferences_ok_def rail_ok_def defaultRailPreferences_def clampRailWidth_def
          minimumRailWidth_def maximumRailWidth_def)
    with r show ?thesis
      by (auto simp: readShellPreferences_def Let_def or_else_def parse_shell_ok split: option.splits)
  qed
  then show ?thesis using parse_shell_json parse_shell_ok by blast
qed

lemma shell_preferences_roundtrip_witness:
  "parseShellPreferences (Some (Json (shell_json \<lparr>sh_rails = defaultRailPreferences (Some 9), sh_expanded = Some [''a''],
     sh_workspaces = None, sh_managers = Some [], sh_view = Some Lanes, sh_collapsed = Some True\<rparr>))) =
   Some \<lparr>sh_rails = defaultRailPreferences (Some 9), sh_expanded = Some [''a''],
     sh_workspaces = None, sh_managers = Some [], sh_view = Some Lanes, sh_collapsed = Some True\<rparr>"
proof -
  have ok: "preferences_ok \<lparr>sh_rails = defaultRailPreferences (Some 9), sh_expanded = Some [''a''],
     sh_workspaces = None, sh_managers = Some [], sh_view = Some Lanes, sh_collapsed = Some True\<rparr>"
    by (simp add: preferences_ok_def rail_ok_def defaultRailPreferences_def clampRailWidth_def
        minimumRailWidth_def maximumRailWidth_def)
  show ?thesis
    by (rule iffD1 [OF spec [OF conjunct1 [OF shell_preferences_roundtrip]] ok])
qed

text \<open>
  The shell's preferences survive a browser that fails: once a storage holds preferences that read,
  any number of writes of good preferences, each of its storage calls failing or not, leaves a storage
  that still reads preferences from one of the two copies, never only the defaults.
\<close>

lemma preferences_survive:
  assumes "readShellPreferences st = Some r"
    and "good_copy parseShellPreferences shellStorageBackupKey shellStorageKey st"
    and "\<forall>p \<in> set ps. preferences_ok p"
    and "write_texts writeShellPreferences (map (\<lambda>p. Json (shell_json p)) ps) (sr_state r, st) = (state, st')"
  shows "\<exists>r'. readShellPreferences st' = Some r' \<and>
    (parseShellPreferences (get (items st') shellStorageKey) = Some (sr_stored r') \<or>
     parseShellPreferences (get (items st') shellStorageBackupKey) = Some (sr_stored r'))"
proof -
  have "good_copy parseShellPreferences shellStorageBackupKey shellStorageKey st'"
    using shell_copies.writes_keep_good [of st "sr_state r" "map (\<lambda>p. Json (shell_json p)) ps"] assms
      last_good_parses [OF assms(1)] parse_shell_json by auto
  moreover have "readable st'"
    using assms(1,4) readable_write_texts [of "map (\<lambda>p. Json (shell_json p)) ps" "(sr_state r, st)"]
    by (auto simp: readShellPreferences_def getItem_def split: if_splits)
  then obtain r' where "readShellPreferences st' = Some r'"
    by (simp add: readShellPreferences_def Let_def)
  ultimately show ?thesis using good_copy_read by blast
qed

text \<open>Two writes, the first refused after its backup and the second lost, leave the backup.\<close>

definition sample_preferences :: shell_preferences where
  "sample_preferences = \<lparr>sh_rails = defaultRailPreferences None, sh_expanded = None, sh_workspaces = None,
     sh_managers = None, sh_view = Some Lanes, sh_collapsed = None\<rparr>"

definition failing_storage :: storage where
  "failing_storage = \<lparr>items = [(shellStorageKey, Json (shell_json sample_preferences))], readable = True,
     faults = [Done, Threw, Threw, Lost]\<rparr>"

lemma preferences_survive_witness:
  "\<exists>r r'. readShellPreferences failing_storage = Some r \<and>
    readShellPreferences (snd (write_texts writeShellPreferences
      (map (\<lambda>p. Json (shell_json p)) [sample_preferences, sample_preferences]) (sr_state r, failing_storage))) = Some r'"
proof -
  have ok: "preferences_ok sample_preferences"
    by (simp add: sample_preferences_def preferences_ok_def rail_ok_def defaultRailPreferences_def clampRailWidth_def
        minimumRailWidth_def maximumRailWidth_def)
  obtain r where r: "readShellPreferences failing_storage = Some r"
    by (simp add: readShellPreferences_def failing_storage_def Let_def)
  have good: "good_copy parseShellPreferences shellStorageBackupKey shellStorageKey failing_storage"
    using ok by (simp add: good_copy_def failing_storage_def parse_shell_json)
  have "\<forall>p \<in> set [sample_preferences, sample_preferences]. preferences_ok p" using ok by simp
  from preferences_survive [OF r good this surjective_pairing] r show ?thesis by blast
qed

end
