(* ===== verification/DockLayout.thy ===== *)
theory DockLayout
  imports PanelRoutes ShellPrefs
begin

section \<open>The stored layouts of the dock\<close>

text \<open>
  \<^verbatim>\<open>features/layout/dockLayout.ts\<close>: what a browser keeps of the dock. A layout is a value (\<open>json\<close>) with
  the serialized panels by id and a grid, a tree of branches and of leaves that show panels as tabs.
  Reading validates and repairs it: retired panels are migrated, panels that do not validate are dropped
  with their tabs, empty groups and branches are pruned.

  Layouts are kept for the whole workspace (version 3, with the rails) and for every space (version 4),
  each with its last good copy. Two texts are compared where the code compares the results of
  \<open>JSON.stringify\<close>.
\<close>

subsection \<open>Values and keys\<close>

definition layoutStorageKey :: string where
  "layoutStorageKey = ''herder.web.layout.v3''"

definition layoutStorageBackupKey :: string where
  "layoutStorageBackupKey = ''herder.web.layout.v3.last-good''"

definition v2LayoutStorageKey :: string where
  "v2LayoutStorageKey = ''herder.web.layout.v2''"

definition legacyLayoutStorageKey :: string where
  "legacyLayoutStorageKey = ''herder.web.layout.v1''"

definition spaceLayoutPrefix :: string where
  "spaceLayoutPrefix = ''herder.web.layout.v4:''"

definition spaceLayoutBackupPrefix :: string where
  "spaceLayoutBackupPrefix = ''herder.web.layout.v4.last-good:''"

definition spaceLayoutRecoveryPrefix :: string where
  "spaceLayoutRecoveryPrefix = ''herder.web.layout.v4.recovery:''"

record stored_layout =
  sl_dock :: "json option"
  sl_rails :: rail_preferences
  sl_expanded :: "string list option"
  sl_workspaces :: "string list option"

record legacy_layout =
  lg_openTabs :: "string list"
  lg_activeTab :: string
  lg_sidebarWidth :: num
  lg_expanded :: "string list option"
  lg_workspaces :: "string list option"

text \<open>\<open>{ ...v, [k]: x }\<close> and \<open>delete v[k]\<close>: a property keeps its place, a new one comes last.\<close>

fun set_field :: "string \<Rightarrow> json \<Rightarrow> json \<Rightarrow> json" where
  "set_field k x (JObj kvs) = JObj (put k x kvs)"
| "set_field k x v = v"

fun del_field :: "string \<Rightarrow> json \<Rightarrow> json" where
  "del_field k (JObj kvs) = JObj (del k kvs)"
| "del_field k v = v"

definition has_field :: "json \<Rightarrow> string \<Rightarrow> bool" where
  "has_field v k \<longleftrightarrow> field v k \<noteq> None"

definition array_at :: "json \<Rightarrow> string \<Rightarrow> bool" where
  "array_at v k \<longleftrightarrow> (case field v k of Some (JArr _) \<Rightarrow> True | _ \<Rightarrow> False)"

fun is_number :: "json \<Rightarrow> bool" where
  "is_number (JNum _) = True"
| "is_number JInf = True"
| "is_number _ = False"

fun is_bool :: "json \<Rightarrow> bool" where
  "is_bool (JBool _) = True"
| "is_bool _ = False"

text \<open>The elements of an array and the properties of an object, of a property that may be missing.\<close>

definition elements :: "json option \<Rightarrow> json list" where
  "elements v = (case v of Some (JArr xs) \<Rightarrow> xs | _ \<Rightarrow> [])"

definition entries :: "json option \<Rightarrow> (string \<times> json) list" where
  "entries v = (case v of Some (JObj kvs) \<Rightarrow> kvs | _ \<Rightarrow> [])"

definition object_at :: "json \<Rightarrow> string \<Rightarrow> bool" where
  "object_at v k \<longleftrightarrow> (case field v k of Some x \<Rightarrow> is_record x | None \<Rightarrow> False)"

definition string_list :: "json option \<Rightarrow> string list option" where
  "string_list v = Option.bind v as_strings"

lemma size_list_elem: "x \<in> set xs \<Longrightarrow> size x < Suc (size_list size xs)"
  by (induction xs) auto

lemma size_entry: "(k, v) \<in> set kvs \<Longrightarrow> size v < Suc (size_list (size_prod (\<lambda>_. 0) size) kvs)"
  by (induction kvs) auto

lemma field_size: "field v k = Some x \<Longrightarrow> size x < size v"
proof (cases v)
  case (JObj kvs)
  assume "field v k = Some x"
  then have "(k, x) \<in> set kvs" using JObj by (simp add: map_of_SomeD)
  from size_entry [OF this] JObj show ?thesis by simp
qed simp_all

lemma elements_size: "x \<in> set (elements (field v k)) \<Longrightarrow> size x < size v"
  using field_size [of v k] size_list_elem [of x]
  by (fastforce simp: elements_def split: option.splits json.splits)

subsection \<open>Validation\<close>

definition valid_group :: "json \<Rightarrow> string list \<Rightarrow> bool" where
  "valid_group d panelIDs \<longleftrightarrow>
     (case (as_string (field d ''id''), string_list (field d ''views'')) of
        (Some _, Some views) \<Rightarrow>
          views \<noteq> [] \<and> list_all (\<lambda>i. i \<in> set panelIDs) views \<and>
          (case field d ''activeView'' of None \<Rightarrow> True | Some a \<Rightarrow> (case as_string (Some a) of Some s \<Rightarrow> s \<in> set views | None \<Rightarrow> False))
      | _ \<Rightarrow> False)"

function validGridNode :: "json \<Rightarrow> string list \<Rightarrow> bool" where
  "validGridNode v panelIDs =
     (if field v ''type'' = Some (JStr ''branch'')
      then elements (field v ''data'') \<noteq> [] \<and> (\<forall>child \<in> set (elements (field v ''data'')). validGridNode child panelIDs)
      else if field v ''type'' = Some (JStr ''leaf'')
      then (case field v ''data'' of Some d \<Rightarrow> is_record d \<and> valid_group d panelIDs | None \<Rightarrow> False)
      else False)"
  by pat_completeness auto
termination by (relation "measure (size \<circ> fst)") (auto simp: elements_size)

declare validGridNode.simps [simp del]

text \<open>A serialized panel under its own id, with valid parameters that have this id.\<close>

definition panel_of :: "string \<Rightarrow> json \<Rightarrow> panel option" where
  "panel_of i s =
     (if \<not> is_record s \<or> field s ''id'' \<noteq> Some (JStr i) then None
      else case Option.bind (field s ''params'') panelParams of
             None \<Rightarrow> None
           | Some p \<Rightarrow>
               if field s ''contentComponent'' = Some (JStr (kind_name (kind_of p))) \<and> panelID p = i then Some p else None)"

definition validDock :: "json \<Rightarrow> bool" where
  "validDock v \<longleftrightarrow>
     is_record v \<and> object_at v ''panels'' \<and> object_at v ''grid'' \<and>
     (case field v ''grid'' of
        None \<Rightarrow> False
      | Some g \<Rightarrow>
          object_at g ''root'' \<and>
          (case field g ''root'' of
             None \<Rightarrow> False
           | Some r \<Rightarrow>
               field r ''type'' = Some (JStr ''branch'') \<and>
               \<not> has_field v ''floatingGroups'' \<and> \<not> has_field v ''popoutGroups'' \<and> \<not> has_field v ''edgeGroups'' \<and>
               entries (field v ''panels'') \<noteq> [] \<and>
               list_all (\<lambda>(i, s). panel_of i s \<noteq> None) (entries (field v ''panels'')) \<and>
               validGridNode r (keys (entries (field v ''panels'')))))"

text \<open>The serialized panel with its parameters as validation answers them.\<close>

definition canonicalSerializedPanel :: "string \<Rightarrow> json \<Rightarrow> json option" where
  "canonicalSerializedPanel i s = map_option (\<lambda>p. set_field ''params'' (panel_json p) s) (panel_of i s)"

subsection \<open>The grid\<close>

definition js_rename :: "(string, string) jsmap \<Rightarrow> json \<Rightarrow> json" where
  "js_rename renamed v = (case v of JStr s \<Rightarrow> JStr (or_else (get renamed s) s) | _ \<Rightarrow> v)"

definition rename_array :: "string \<Rightarrow> (json \<Rightarrow> json) \<Rightarrow> json \<Rightarrow> json" where
  "rename_array k f v = (case field v k of Some (JArr xs) \<Rightarrow> set_field k (JArr (map f xs)) v | _ \<Rightarrow> v)"

definition rename_group :: "(string, string) jsmap \<Rightarrow> json \<Rightarrow> json" where
  "rename_group renamed d =
     (let d1 = rename_array ''views'' (js_rename renamed) d;
          d2 = (case field d ''activeView'' of None \<Rightarrow> d1 | Some a \<Rightarrow> set_field ''activeView'' (js_rename renamed a) d1)
      in rename_array ''tabGroups''
           (\<lambda>g. if is_record g then rename_array ''panelIds'' (js_rename renamed) g else g) d2)"

function renameGridViews :: "json \<Rightarrow> (string, string) jsmap \<Rightarrow> json" where
  "renameGridViews node renamed =
     (if field node ''type'' = Some (JStr ''branch'')
      then (if array_at node ''data''
            then set_field ''data'' (JArr (map (\<lambda>child. if is_record child then renameGridViews child renamed else child)
                   (elements (field node ''data'')))) node
            else node)
      else (case field node ''data'' of
              Some (JObj d) \<Rightarrow> set_field ''data'' (rename_group renamed (JObj d)) node
            | _ \<Rightarrow> node))"
  by pat_completeness auto
termination by (relation "measure (size \<circ> fst)") (auto simp: elements_size)

declare renameGridViews.simps [simp del]

definition sanitize_tab_group :: "string list \<Rightarrow> json \<Rightarrow> json option" where
  "sanitize_tab_group keep g =
     (case (as_string (field g ''id''), string_list (field g ''panelIds'')) of
        (Some _, Some panels) \<Rightarrow>
          (let kept = filter (\<lambda>i. i \<in> set keep) panels
           in if kept = [] then None else Some (set_field ''panelIds'' (strings_json kept) g))
      | _ \<Rightarrow> None)"

definition sanitizeLeaf :: "json \<Rightarrow> string list \<Rightarrow> json option" where
  "sanitizeLeaf g keep =
     (case (as_string (field g ''id''), string_list (field g ''views'')) of
        (Some _, Some all) \<Rightarrow>
          (let views = filter (\<lambda>i. i \<in> set keep) all
           in if views = [] then None
              else let active = (case as_string (field g ''activeView'') of
                                   Some a \<Rightarrow> if a \<in> set views then a else hd views
                                 | None \<Rightarrow> hd views);
                       g1 = set_field ''activeView'' (JStr active) (set_field ''views'' (strings_json views) g)
                   in Some (case field g ''tabGroups'' of
                              Some (JArr gs) \<Rightarrow>
                                set_field ''tabGroups'' (JArr (List.map_filter (sanitize_tab_group keep) gs)) g1
                            | _ \<Rightarrow> g1))
      | _ \<Rightarrow> None)"

text \<open>The size and the visibility of a node, when they are a number and a boolean.\<close>

definition node_frame :: "json \<Rightarrow> (string \<times> json) list" where
  "node_frame v =
     (case field v ''size'' of Some n \<Rightarrow> if is_number n then [(''size'', n)] else [] | None \<Rightarrow> [])
     @ (case field v ''visible'' of Some b \<Rightarrow> if is_bool b then [(''visible'', b)] else [] | None \<Rightarrow> [])"

definition with_fields :: "(string \<times> json) list \<Rightarrow> json \<Rightarrow> json" where
  "with_fields kvs v = fold (\<lambda>(k, x). set_field k x) kvs v"

definition grid_leaf :: "json \<Rightarrow> json \<Rightarrow> json" where
  "grid_leaf v data = JObj ([(''type'', JStr ''leaf''), (''data'', data)] @ node_frame v)"

definition grid_branch :: "json \<Rightarrow> json list \<Rightarrow> json" where
  "grid_branch v children = JObj ([(''type'', JStr ''branch''), (''data'', JArr children)] @ node_frame v)"

text \<open>A branch of one leaf becomes the leaf, in the branch's place.\<close>

definition collapse_branch :: "json \<Rightarrow> json list \<Rightarrow> json option" where
  "collapse_branch v children =
     (case children of
        [] \<Rightarrow> None
      | [c] \<Rightarrow> Some (if field c ''type'' = Some (JStr ''leaf'') then with_fields (node_frame v) c else grid_branch v [c])
      | _ \<Rightarrow> Some (grid_branch v children))"

lemma map_filter_cong [fundef_cong]:
  "xs = ys \<Longrightarrow> (\<And>x. x \<in> set ys \<Longrightarrow> f x = g x) \<Longrightarrow> List.map_filter f xs = List.map_filter g ys"
  by (induction ys arbitrary: xs) (auto simp: List.map_filter_simps split: option.split)

function pruneGridNode :: "string list \<Rightarrow> json \<Rightarrow> json option" where
  "pruneGridNode keep v =
     (if field v ''type'' = Some (JStr ''leaf'')
      then (case field v ''data'' of
              Some d \<Rightarrow> if is_record d then map_option (grid_leaf v) (sanitizeLeaf d keep) else None
            | None \<Rightarrow> None)
      else if field v ''type'' = Some (JStr ''branch'')
      then collapse_branch v (List.map_filter (pruneGridNode keep) (elements (field v ''data'')))
      else None)"
  by pat_completeness auto
termination by (relation "measure (size \<circ> snd)") (auto simp: elements_size)

declare pruneGridNode.simps [simp del]

definition pruneGridRoot :: "json \<Rightarrow> string list \<Rightarrow> json option" where
  "pruneGridRoot v keep =
     (let children = List.map_filter (pruneGridNode keep) (elements (field v ''data''))
      in if children = [] then None else Some (grid_branch v children))"

fun first_some :: "('a \<Rightarrow> 'b option) \<Rightarrow> 'a list \<Rightarrow> 'b option" where
  "first_some f [] = None"
| "first_some f (x # xs) = (case f x of None \<Rightarrow> first_some f xs | Some y \<Rightarrow> Some y)"

lemma first_some_cong [fundef_cong]:
  "xs = ys \<Longrightarrow> (\<And>x. x \<in> set ys \<Longrightarrow> f x = g x) \<Longrightarrow> first_some f xs = first_some g ys"
  by (induction ys arbitrary: xs) (auto split: option.split)

definition leaf_id :: "json \<Rightarrow> string option" where
  "leaf_id v = (case field v ''data'' of Some d \<Rightarrow> as_string (field d ''id'') | None \<Rightarrow> None)"

text \<open>The loop of \<open>firstGroupID\<close> passes over an empty id.\<close>

definition nonempty :: "string option \<Rightarrow> string option" where
  "nonempty s = (if s = Some [] then None else s)"

function firstGroupID :: "json \<Rightarrow> string option" where
  "firstGroupID v =
     (if field v ''type'' = Some (JStr ''leaf'') then leaf_id v
      else first_some (\<lambda>child. nonempty (firstGroupID child)) (elements (field v ''data'')))"
  by pat_completeness auto
termination by (relation "measure size") (auto simp: elements_size)

declare firstGroupID.simps [simp del]

text \<open>The ids of the leaves (of a validated grid: every id is a string).\<close>

function groupIDs :: "json \<Rightarrow> string list" where
  "groupIDs v =
     (if field v ''type'' = Some (JStr ''leaf'') then (case leaf_id v of Some i \<Rightarrow> [i] | None \<Rightarrow> [])
      else concat (map groupIDs (elements (field v ''data''))))"
  by pat_completeness auto
termination by (relation "measure size") (auto simp: elements_size)

declare groupIDs.simps [simp del]

function leafByID :: "json \<Rightarrow> string \<Rightarrow> json option" where
  "leafByID v i =
     (if field v ''type'' = Some (JStr ''leaf'')
      then (if leaf_id v = Some i then field v ''data'' else None)
      else first_some (\<lambda>child. leafByID child i) (elements (field v ''data'')))"
  by pat_completeness auto
termination by (relation "measure (size \<circ> fst)") (auto simp: elements_size)

declare leafByID.simps [simp del]

text \<open>The first group with the id shows the panel, as its last tab if it has it not yet.\<close>

definition activate_leaf :: "string \<Rightarrow> json \<Rightarrow> json" where
  "activate_leaf i v =
     (case field v ''data'' of
        None \<Rightarrow> v
      | Some d \<Rightarrow>
          let views = or_else (string_list (field d ''views'')) [];
              views' = (if i \<in> set views then views else views @ [i])
          in set_field ''data'' (set_field ''activeView'' (JStr i) (set_field ''views'' (strings_json views') d)) v)"

text \<open>The first child that changes is replaced, the later ones stay as they are.\<close>

fun map_first :: "('a \<Rightarrow> 'a \<times> bool) \<Rightarrow> 'a list \<Rightarrow> 'a list \<times> bool" where
  "map_first f [] = ([], False)"
| "map_first f (x # xs) =
     (case f x of
        (y, True) \<Rightarrow> (y # xs, True)
      | (y, False) \<Rightarrow> (case map_first f xs of (ys, b) \<Rightarrow> (y # ys, b)))"

lemma map_first_cong [fundef_cong]:
  "xs = ys \<Longrightarrow> (\<And>x. x \<in> set ys \<Longrightarrow> f x = g x) \<Longrightarrow> map_first f xs = map_first g ys"
  by (induction ys arbitrary: xs) auto

function activatePanelInGrid :: "json \<Rightarrow> string \<Rightarrow> string \<Rightarrow> json \<times> bool" where
  "activatePanelInGrid v groupID i =
     (if field v ''type'' = Some (JStr ''leaf'')
      then (if leaf_id v = Some groupID then (activate_leaf i v, True) else (v, False))
      else (case map_first (\<lambda>child. activatePanelInGrid child groupID i) (elements (field v ''data'')) of
              (children, found) \<Rightarrow> (set_field ''data'' (JArr children) v, found)))"
  by pat_completeness auto
termination by (relation "measure (size \<circ> fst)") (auto simp: elements_size)

declare activatePanelInGrid.simps [simp del]

end
