(* ===== verification/DockStore.thy ===== *)
theory DockStore
  imports DockLayout StoreBase
begin

section \<open>Repairing, reading and writing layouts\<close>

text \<open>
  The second half of \<^verbatim>\<open>features/layout/dockLayout.ts\<close>: a stored dock is migrated, repaired and validated
  (\<open>sanitizeStoredDock\<close>); layouts are read with their last good copy, and written under it; a panel is
  sent to the stored layout of another space; and \<^verbatim>\<open>features/layout/layoutPersistenceModel.ts\<close>, which
  writes the layout of the mode in use.
\<close>

subsection \<open>Repair\<close>

text \<open>\<open>{ ...value, activeGroup }\<close>, where the group may be \<open>undefined\<close>.\<close>

definition with_active_group :: "string option \<Rightarrow> json \<Rightarrow> json" where
  "with_active_group g v =
     (case g of None \<Rightarrow> del_field ''activeGroup'' v | Some i \<Rightarrow> set_field ''activeGroup'' (JStr i) v)"

definition active_group :: "json \<Rightarrow> json \<Rightarrow> string option" where
  "active_group v r =
     (case as_string (field v ''activeGroup'') of
        Some g \<Rightarrow> if g \<in> set (groupIDs r) then Some g else firstGroupID r
      | None \<Rightarrow> firstGroupID r)"

definition with_root :: "json \<Rightarrow> json \<Rightarrow> json" where
  "with_root r v = (case field v ''grid'' of None \<Rightarrow> v | Some g \<Rightarrow> set_field ''grid'' (set_field ''root'' r g) v)"

definition grid_root :: "json \<Rightarrow> json option" where
  "grid_root v = Option.bind (field v ''grid'') (\<lambda>g. field g ''root'')"

definition has_grid :: "json \<Rightarrow> bool" where
  "has_grid v \<longleftrightarrow> is_record v \<and> object_at v ''panels'' \<and> object_at v ''grid'' \<and>
     (case field v ''grid'' of Some g \<Rightarrow> object_at g ''root'' | None \<Rightarrow> False)"

definition legacy_params :: "json \<Rightarrow> panel option option" where
  "legacy_params s = (if is_record s then Option.bind (field s ''params'') legacyScreenPanelParams else None)"

text \<open>One retired panel: the panels and the new names so far, extended unless its agent has a panel.\<close>

definition migrate_panel ::
    "string \<times> json \<Rightarrow> (string, json) jsmap \<times> (string, string) jsmap \<Rightarrow> (string, json) jsmap \<times> (string, string) jsmap" where
  "migrate_panel e acc =
     (case acc of (panels, renamed) \<Rightarrow>
        case legacy_params (snd e) of
          Some (Some p) \<Rightarrow>
            (let i = panelID p
             in if i \<in> set (keys panels) then acc
                else (put i (with_fields [(''id'', JStr i), (''contentComponent'', JStr (kind_name (kind_of p))),
                        (''title'', JStr (pp_title (panelPresentation p))), (''params'', panel_json p)] (snd e)) panels,
                      put (fst e) i renamed))
        | _ \<Rightarrow> acc)"

definition retired_panels :: "json \<Rightarrow> (string \<times> json) list" where
  "retired_panels v = filter (\<lambda>e. legacy_params (snd e) \<noteq> None) (entries (field v ''panels''))"

definition current_panels :: "json \<Rightarrow> (string \<times> json) list" where
  "current_panels v = filter (\<lambda>e. legacy_params (snd e) = None) (entries (field v ''panels''))"

definition migrateRetiredPanels :: "json \<Rightarrow> json" where
  "migrateRetiredPanels v =
     (if \<not> has_grid v then v
      else if retired_panels v = [] then v
      else let (panels, renamed) = fold migrate_panel (retired_panels v) (current_panels v, [])
           in case grid_root v of
                None \<Rightarrow> v
              | Some r \<Rightarrow>
                  (case pruneGridRoot (renameGridViews r renamed) (keys panels) of
                     None \<Rightarrow> set_field ''panels'' (JObj []) v
                   | Some r' \<Rightarrow>
                       with_active_group (active_group v r')
                         (with_root r' (set_field ''panels'' (JObj panels) v))))"

definition canonical_entry :: "string \<times> json \<Rightarrow> (string \<times> json) option" where
  "canonical_entry e = map_option (Pair (fst e)) (canonicalSerializedPanel (fst e) (snd e))"

text \<open>The panels that validate, by id.\<close>

definition readable_panels :: "json \<Rightarrow> (string \<times> json) list" where
  "readable_panels v = List.map_filter canonical_entry (entries (field v ''panels''))"

text \<open>A panel whose validation throws: the exception ends the whole repair, and its caller reads no layout.\<close>

definition entry_throws :: "string \<times> json \<Rightarrow> bool" where
  "entry_throws e \<longleftrightarrow>
     field (snd e) ''id'' = Some (JStr (fst e)) \<and>
     (case field (snd e) ''params'' of Some p \<Rightarrow> panelParams_throws p | None \<Rightarrow> False)"

definition transient_fields :: "string list" where
  "transient_fields = [''maximizedNode'', ''floatingGroups'', ''popoutGroups'', ''edgeGroups'']"

record sanitized =
  sd_dock :: "json option"
  sd_salvaged :: bool

definition sanitizeStoredDock :: "json option \<Rightarrow> sanitized option" where
  "sanitizeStoredDock stored =
     (case stored of
        None \<Rightarrow> None
      | Some JNull \<Rightarrow> Some \<lparr>sd_dock = None, sd_salvaged = False\<rparr>
      | Some s \<Rightarrow>
          let v = (if is_record s then migrateRetiredPanels s else s)
          in if \<not> has_grid v then None
             else case grid_root v of
               None \<Rightarrow> None
             | Some r0 \<Rightarrow>
                 if field r0 ''type'' \<noteq> Some (JStr ''branch'') then None
                 else if list_ex entry_throws (entries (field v ''panels'')) then None
                 else let panels = readable_panels v
                      in case pruneGridRoot r0 (keys panels) of
                           None \<Rightarrow> Some \<lparr>sd_dock = None, sd_salvaged = True\<rparr>
                         | Some r \<Rightarrow>
                             if panels = [] then Some \<lparr>sd_dock = None, sd_salvaged = True\<rparr>
                             else let g = active_group v r;
                                      salvaged = (list_ex (has_field v) [''floatingGroups'', ''popoutGroups'', ''edgeGroups''] \<or>
                                        list_ex (\<lambda>e. case canonical_entry e of None \<Rightarrow> True
                                                     | Some c \<Rightarrow> stringify (snd c) \<noteq> stringify (snd e)) (entries (field v ''panels'')) \<or>
                                        stringify r \<noteq> stringify r0 \<or>
                                        map_option JStr g \<noteq> field v ''activeGroup'');
                                      dock = fold del_field transient_fields
                                        (with_active_group g (with_root r (set_field ''panels'' (JObj panels) v)))
                                  in if validDock dock then Some \<lparr>sd_dock = Some dock, sd_salvaged = salvaged\<rparr> else None)"

subsection \<open>Parsing\<close>

definition railPreferences :: "json option \<Rightarrow> rail_preferences option" where
  "railPreferences v =
     (let side = (\<lambda>k. case Option.bind v (\<lambda>r. field r k) of
                        Some s \<Rightarrow>
                          (case (as_finite (field s ''width''), as_bool (field s ''collapsed'')) of
                             (Some w, Some c) \<Rightarrow> Some \<lparr>rail_width = clampRailWidth w, rail_collapsed = c\<rparr>
                           | _ \<Rightarrow> None)
                      | None \<Rightarrow> None)
      in case (side ''fleet'', side ''notes'') of
           (Some f, Some n) \<Rightarrow> Some \<lparr>fleet_rail = f, notes_rail = n\<rparr>
         | _ \<Rightarrow> None)"

record parsed_layout =
  pl_layout :: stored_layout
  pl_salvaged :: bool

definition parseStoredLayoutResult :: "cell option \<Rightarrow> parsed_layout option" where
  "parseStoredLayoutResult raw =
     (case parse_cell raw of
        None \<Rightarrow> None
      | Some v \<Rightarrow>
          if field v ''version'' \<noteq> Some (JNum 2) \<and> field v ''version'' \<noteq> Some (JNum 3) then None
          else (case (optional as_strings (field v ''expandedItems''), optional as_strings (field v ''knownWorkspaceItems'')) of
             (Some e, Some w) \<Rightarrow>
               (let rails = (if field v ''version'' = Some (JNum 2)
                             then map_option (\<lambda>n. defaultRailPreferences (Some n)) (as_finite (field v ''sidebarWidth''))
                             else railPreferences (field v ''rails''))
                in case (rails, sanitizeStoredDock (field v ''dock'')) of
                     (Some r, Some s) \<Rightarrow>
                       Some \<lparr>pl_layout = \<lparr>sl_dock = sd_dock s, sl_rails = r, sl_expanded = e, sl_workspaces = w\<rparr>,
                             pl_salvaged = sd_salvaged s\<rparr>
                   | _ \<Rightarrow> None)
           | _ \<Rightarrow> None))"

definition parseStoredLayout :: "cell option \<Rightarrow> stored_layout option" where
  "parseStoredLayout raw = map_option pl_layout (parseStoredLayoutResult raw)"

definition parseStoredSpaceLayout :: "cell option \<Rightarrow> sanitized option" where
  "parseStoredSpaceLayout raw =
     (case parse_cell raw of
        None \<Rightarrow> None
      | Some v \<Rightarrow> if field v ''version'' \<noteq> Some (JNum 4) then None else sanitizeStoredDock (field v ''dock''))"

definition parseLegacyLayout :: "cell option \<Rightarrow> legacy_layout option" where
  "parseLegacyLayout raw =
     (case parse_cell raw of
        None \<Rightarrow> None
      | Some v \<Rightarrow>
          (case (string_list (field v ''openTabs''), as_string (field v ''activeTab''), as_finite (field v ''sidebarWidth''),
                 optional as_strings (field v ''expandedItems''), optional as_strings (field v ''knownWorkspaceItems'')) of
             (Some tabs, Some active, Some w, Some e, Some ws) \<Rightarrow>
               (let openTabs = uniq tabs
                in if active \<noteq> ''board'' \<and> \<not> list_ex (\<lambda>n. agentTabID n = active) openTabs then None
                   else Some \<lparr>lg_openTabs = openTabs, lg_activeTab = active, lg_sidebarWidth = w,
                              lg_expanded = map_option uniq e, lg_workspaces = map_option uniq ws\<rparr>)
           | _ \<Rightarrow> None))"

subsection \<open>Reading and writing\<close>

record 'l layout_read =
  lr_stored :: "'l option"
  lr_backup :: "'l option"
  lr_state :: write_state
  lr_problem :: bool

text \<open>
  Which of two parsed copies a read answers: the primary unless it lost its dock to the repair, else the
  backup, else what the primary has.
\<close>

definition usable :: "('p \<Rightarrow> bool) \<Rightarrow> ('p \<Rightarrow> bool) \<Rightarrow> 'p option \<Rightarrow> bool" where
  "usable has_dock salvaged p = (case p of None \<Rightarrow> False | Some x \<Rightarrow> has_dock x \<or> \<not> salvaged x)"

definition choose_layout ::
    "('p \<Rightarrow> bool) \<Rightarrow> ('p \<Rightarrow> bool) \<Rightarrow> ('p \<Rightarrow> 'l) \<Rightarrow> cell option \<Rightarrow> cell option \<Rightarrow> 'p option \<Rightarrow> 'p option \<Rightarrow> 'l layout_read" where
  "choose_layout has_dock salvaged layout primaryRaw backupRaw primary backup =
     (let ok = usable has_dock salvaged primary;
          selected = (if ok then primary else backup);
          primary_salvaged = (case primary of None \<Rightarrow> False | Some p \<Rightarrow> salvaged p)
      in \<lparr>lr_stored = (case selected of Some s \<Rightarrow> Some (layout s) | None \<Rightarrow> map_option layout primary),
          lr_backup = map_option layout backup,
          lr_state = \<lparr>ws_recovering = ((\<not> ok \<and> backup \<noteq> None) \<or> primary_salvaged),
                      ws_lastGood = (if primary \<noteq> None \<and> \<not> primary_salvaged then primaryRaw else None)\<rparr>,
          lr_problem = ((truthy primaryRaw \<and> primary = None) \<or> (truthy backupRaw \<and> backup = None \<and> \<not> ok))\<rparr>)"

definition readStoredLayout :: "storage \<Rightarrow> stored_layout layout_read option" where
  "readStoredLayout st =
     (case (getItem st layoutStorageKey, getItem st layoutStorageBackupKey) of
        (Some primaryRaw, Some backupRaw) \<Rightarrow>
          Some (choose_layout (\<lambda>p. sl_dock (pl_layout p) \<noteq> None) pl_salvaged pl_layout primaryRaw backupRaw
            (parseStoredLayoutResult primaryRaw) (parseStoredLayoutResult backupRaw))
      | _ \<Rightarrow> None)"

definition writeStoredLayout :: "cell \<Rightarrow> write_state \<Rightarrow> storage \<Rightarrow> bool \<times> write_state \<times> storage" where
  "writeStoredLayout raw state st = write_last_good layoutStorageBackupKey layoutStorageKey raw state st"

definition spaceLayoutKey :: "string \<Rightarrow> string" where
  "spaceLayoutKey spaceID = spaceLayoutPrefix @ encodeURIComponent spaceID"

definition spaceLayoutBackupKey :: "string \<Rightarrow> string" where
  "spaceLayoutBackupKey spaceID = spaceLayoutBackupPrefix @ encodeURIComponent spaceID"

definition spaceLayoutRecoveryKey :: "string \<Rightarrow> string" where
  "spaceLayoutRecoveryKey spaceID = spaceLayoutRecoveryPrefix @ encodeURIComponent spaceID"

text \<open>A stored text as a JSON value: \<open>null\<close> when there is none.\<close>

fun text_json :: "cell option \<Rightarrow> json" where
  "text_json None = JNull"
| "text_json (Some (Plain s)) = JStr s"
| "text_json (Some (Json v)) = JStr (stringify v)"

definition layout_kind :: "cell option \<Rightarrow> string option" where
  "layout_kind raw = Option.bind (parse_cell raw) (\<lambda>v. as_string (field v ''kind''))"

text \<open>The raw texts of a corrupt layout are kept, unless a closed space's layout is kept there.\<close>

definition preserve_corrupt :: "num \<Rightarrow> string \<Rightarrow> cell option \<Rightarrow> cell option \<Rightarrow> storage \<Rightarrow> storage" where
  "preserve_corrupt time spaceID primaryRaw backupRaw st =
     (case getItem st (spaceLayoutRecoveryKey spaceID) of
        None \<Rightarrow> st
      | Some existing \<Rightarrow>
          if layout_kind existing = Some ''closed'' then st
          else fst (setItem (spaceLayoutRecoveryKey spaceID)
            (Json (JObj [(''version'', JNum 1), (''kind'', JStr ''corrupt''), (''primaryRaw'', text_json primaryRaw),
               (''backupRaw'', text_json backupRaw), (''updated'', JNum time)])) st))"

text \<open>A read with a storage that has \<open>setItem\<close> (\<open>can_write\<close>) preserves what it cannot parse.\<close>

definition readStoredSpaceLayout ::
    "num \<Rightarrow> bool \<Rightarrow> string \<Rightarrow> storage \<Rightarrow> (json option layout_read \<times> storage) option" where
  "readStoredSpaceLayout time can_write spaceID st =
     (case (getItem st (spaceLayoutKey spaceID), getItem st (spaceLayoutBackupKey spaceID)) of
        (Some primaryRaw, Some backupRaw) \<Rightarrow>
          (let primary = parseStoredSpaceLayout primaryRaw;
               backup = parseStoredSpaceLayout backupRaw;
               corrupt = ((truthy primaryRaw \<and> primary = None) \<or> (truthy backupRaw \<and> backup = None))
           in Some (choose_layout (\<lambda>p. sd_dock p \<noteq> None) sd_salvaged sd_dock primaryRaw backupRaw primary backup,
                    if can_write \<and> corrupt then preserve_corrupt time spaceID primaryRaw backupRaw st else st))
      | _ \<Rightarrow> None)"

definition writeStoredSpaceLayout :: "string \<Rightarrow> cell \<Rightarrow> write_state \<Rightarrow> storage \<Rightarrow> bool \<times> write_state \<times> storage" where
  "writeStoredSpaceLayout spaceID raw state st =
     write_last_good (spaceLayoutBackupKey spaceID) (spaceLayoutKey spaceID) raw state st"

definition catchUpExternalPanels :: "cell option \<Rightarrow> (string \<Rightarrow> bool) \<Rightarrow> (string \<times> panel) list" where
  "catchUpExternalPanels raw hasPanel =
     (case Option.bind (parseStoredSpaceLayout raw) sd_dock of
        None \<Rightarrow> []
      | Some dock \<Rightarrow>
          List.map_filter (\<lambda>(i, s).
            if hasPanel i then None
            else map_option (Pair i) (Option.bind (field s ''params'') panelParams)) (entries (field dock ''panels'')))"

text \<open>\<open>JSON.parse(JSON.stringify(value))\<close>: a number that is not finite becomes \<open>null\<close>.\<close>

fun json_clone :: "json \<Rightarrow> json" where
  "json_clone JInf = JNull"
| "json_clone (JArr xs) = JArr (map json_clone xs)"
| "json_clone (JObj kvs) = JObj (map (\<lambda>(k, v). (k, json_clone v)) kvs)"
| "json_clone v = v"

definition persistableDockLayout :: "json \<Rightarrow> json option" where
  "persistableDockLayout value =
     (let cloned = json_clone value
      in if \<not> object_at cloned ''panels'' \<or> \<not> object_at cloned ''grid'' \<or>
           list_ex entry_throws (entries (field cloned ''panels'')) then None
         else let dock = set_field ''panels'' (JObj (List.map_filter canonical_entry (entries (field cloned ''panels''))))
                           (fold del_field transient_fields cloned)
              in if validDock dock then Some dock else None)"

subsection \<open>Sending a panel to a stored space\<close>

datatype write_refusal = WriteCorrupt | WriteRecovering | WriteCanonical | WriteFailed

definition serialized_panel :: "panel \<Rightarrow> json" where
  "serialized_panel p =
     JObj [(''id'', JStr (panelID p)), (''contentComponent'', JStr (kind_name (kind_of p))),
           (''tabComponent'', JStr ''herder-tab''), (''title'', JStr (pp_title (panelPresentation p))),
           (''params'', panel_json p)]"

definition fresh_dock :: "string \<Rightarrow> panel \<Rightarrow> json" where
  "fresh_dock spaceID p =
     (let groupID = ''space-'' @ encodeURIComponent spaceID @ ''-main''
      in JObj [(''grid'', JObj [(''root'', JObj [(''type'', JStr ''branch''), (''data'', JArr
                  [JObj [(''type'', JStr ''leaf''), (''data'', JObj [(''id'', JStr groupID),
                     (''views'', JArr [JStr (panelID p)]), (''activeView'', JStr (panelID p))])]])])]),
               (''panels'', JObj [(panelID p, serialized_panel p)]), (''activeGroup'', JStr groupID)])"

text \<open>The dock with the panel as the shown tab of its active group.\<close>

definition dock_with_panel :: "panel \<Rightarrow> json \<Rightarrow> json option" where
  "dock_with_panel p dock =
     (case grid_root dock of
        None \<Rightarrow> None
      | Some r \<Rightarrow>
          (case nonempty (active_group dock r) of
             None \<Rightarrow> None
           | Some g \<Rightarrow>
               (case activatePanelInGrid r g (panelID p) of
                  (r', True) \<Rightarrow>
                    Some (set_field ''activeGroup'' (JStr g) (with_root r'
                      (set_field ''panels'' (set_field (panelID p) (serialized_panel p)
                        (or_else (field dock ''panels'') (JObj []))) dock)))
                | (_, False) \<Rightarrow> None)))"

definition has_panel :: "json option \<Rightarrow> string \<Rightarrow> bool" where
  "has_panel dock i = (case dock of None \<Rightarrow> False | Some d \<Rightarrow> i \<in> set (keys (entries (field d ''panels''))))"

text \<open>\<open>Inr duplicate\<close> when the panel is stored; the outer \<open>None\<close> is the exception of a storage that cannot be read.\<close>

definition writePanelToStoredSpace ::
    "num \<Rightarrow> string \<Rightarrow> panel \<Rightarrow> storage \<Rightarrow> ((write_refusal + bool) \<times> storage) option" where
  "writePanelToStoredSpace time spaceID p st =
     (case readStoredSpaceLayout time True spaceID st of
        None \<Rightarrow> None
      | Some (target, st1) \<Rightarrow>
          if lr_problem target then Some (Inl WriteCorrupt, st1)
          else if ws_recovering (lr_state target) then Some (Inl WriteRecovering, st1)
          else let current = or_else (lr_stored target) None;
                   duplicate = has_panel current (panelID p);
                   candidate = (case current of None \<Rightarrow> Some (fresh_dock spaceID p) | Some d \<Rightarrow> dock_with_panel p d)
               in case Option.bind candidate persistableDockLayout of
                    None \<Rightarrow> Some (Inl WriteCanonical, st1)
                  | Some dock \<Rightarrow>
                      (let (ok, _, st2) = writeStoredSpaceLayout spaceID
                             (Json (JObj [(''version'', JNum 4), (''dock'', dock)]))
                             \<lparr>ws_recovering = False, ws_lastGood = ws_lastGood (lr_state target)\<rparr> st1
                       in if \<not> ok then Some (Inl WriteFailed, st2)
                          else case readStoredSpaceLayout time True spaceID st2 of
                                 None \<Rightarrow> None
                               | Some (verified, st3) \<Rightarrow>
                                   if lr_problem verified \<or> ws_recovering (lr_state verified) \<or>
                                      \<not> has_panel (or_else (lr_stored verified) None) (panelID p)
                                   then Some (Inl WriteFailed, st3) else Some (Inr duplicate, st3)))"

subsection \<open>The active panel\<close>

definition activePanelInDock :: "json option \<Rightarrow> panel option" where
  "activePanelInDock dock =
     (case dock of
        None \<Rightarrow> None
      | Some v \<Rightarrow>
          if \<not> has_grid v then None
          else case grid_root v of
                 None \<Rightarrow> None
               | Some r \<Rightarrow>
                   (let groupID = (case as_string (field v ''activeGroup'') of Some g \<Rightarrow> Some g | None \<Rightarrow> firstGroupID r);
                        leaf = Option.bind groupID (leafByID r);
                        view = Option.bind leaf (\<lambda>l. as_string (field l ''activeView''));
                        panel = Option.bind view (map_of (entries (field v ''panels'')))
                    in Option.bind (Option.bind panel (\<lambda>s. if is_record s then field s ''params'' else None)) panelParams))"

definition storedSpaceActivePanel :: "storage \<Rightarrow> string \<Rightarrow> panel option" where
  "storedSpaceActivePanel st spaceID =
     (case readStoredSpaceLayout 0 False spaceID st of
        None \<Rightarrow> None
      | Some (r, _) \<Rightarrow> activePanelInDock (or_else (lr_stored r) None))"

text \<open>The parameters a moved preview is updated with, when it is one.\<close>

definition pinMovedPreview :: "json \<Rightarrow> panel option" where
  "pinMovedPreview params =
     (case panelParams params of
        None \<Rightarrow> None
      | Some p \<Rightarrow> if panel_preview p then Some (set_preview False p) else None)"

subsection \<open>Persisting the layout in use\<close>

datatype persistence_target = LegacyTarget | SpacesTarget string

definition persistLayoutSnapshot ::
    "persistence_target \<Rightarrow> cell \<Rightarrow> write_state \<Rightarrow> storage \<Rightarrow> bool \<times> write_state \<times> storage" where
  "persistLayoutSnapshot target raw state st =
     (case target of
        SpacesTarget spaceID \<Rightarrow> writeStoredSpaceLayout spaceID raw state st
      | LegacyTarget \<Rightarrow> writeStoredLayout raw state st)"

end
