(* ===== verification/DockProps.thy ===== *)
theory DockProps
  imports DockStore
begin

section \<open>What repairing and extending a layout keeps\<close>

text \<open>
  Pruning keeps the tabs of the readable panels, in their order, and answers a valid grid, so a stored
  dock is repaired rather than refused; a panel sent to a stored dock becomes its focused panel.
\<close>

subsection \<open>Fields\<close>

lemma field_set_field [simp]:
  "field (set_field k x v) k' = (if k' = k \<and> is_record v then Some x else field v k')"
  by (cases v) (auto simp: get_put)

lemma field_del_field [simp]: "field (del_field k v) k' = (if k' = k then None else field v k')"
  by (cases v) (auto simp: get_del)

lemma is_record_set_field [simp]: "is_record (set_field k x v) = is_record v"
  by (cases v) auto

lemma is_record_del_field [simp]: "is_record (del_field k v) = is_record v"
  by (cases v) auto

lemma field_record: "field v k = Some x \<Longrightarrow> is_record v"
  by (cases v) auto

lemma with_fields_simps [simp]:
  "with_fields [] v = v" "with_fields ((k, x) # kvs) v = with_fields kvs (set_field k x v)"
  by (simp_all add: with_fields_def)

lemma is_record_with_fields [simp]: "is_record (with_fields kvs v) = is_record v"
proof (induction kvs arbitrary: v)
  case (Cons e kvs)
  then show ?case by (cases e) simp
qed simp

lemma field_framed [simp]:
  "field (with_fields (node_frame v) c) ''type'' = field c ''type''"
  "field (with_fields (node_frame v) c) ''data'' = field c ''data''"
  by (cases "field v ''size''"; cases "field v ''visible''"; simp add: node_frame_def)+

lemma field_grid_node [simp]:
  "field (grid_leaf v d) ''type'' = Some (JStr ''leaf'')" "field (grid_leaf v d) ''data'' = Some d"
  "field (grid_branch v cs) ''type'' = Some (JStr ''branch'')" "field (grid_branch v cs) ''data'' = Some (JArr cs)"
  by (simp_all add: grid_leaf_def grid_branch_def)

lemma elements_array [simp]: "elements (Some (JArr xs)) = xs"
  by (simp add: elements_def)

lemma entries_object [simp]: "entries (Some (JObj kvs)) = kvs"
  by (simp add: entries_def)

lemma string_list_json [simp]: "string_list (Some (strings_json xs)) = Some xs"
  by (simp add: string_list_def as_strings_def strings_json_def)

subsection \<open>Tabs\<close>

text \<open>The tabs of a grid in order: the views of its groups (leaves with an id and a list of views).\<close>

definition group_tabs :: "json \<Rightarrow> string list" where
  "group_tabs d =
     (case (as_string (field d ''id''), string_list (field d ''views'')) of (Some _, Some views) \<Rightarrow> views | _ \<Rightarrow> [])"

function tabs :: "json \<Rightarrow> string list" where
  "tabs v =
     (if field v ''type'' = Some (JStr ''leaf'')
      then (case field v ''data'' of Some d \<Rightarrow> group_tabs d | None \<Rightarrow> [])
      else if field v ''type'' = Some (JStr ''branch'')
      then concat (map tabs (elements (field v ''data'')))
      else [])"
  by pat_completeness auto
termination by (relation "measure size") (auto simp: elements_size)

declare tabs.simps [simp del]

lemma group_tabs_record: "\<not> is_record d \<Longrightarrow> group_tabs d = []"
  by (cases d) (simp_all add: group_tabs_def)

lemma tabs_leaf [simp]: "tabs (grid_leaf v d) = group_tabs d"
  by (simp add: tabs.simps [of "grid_leaf v d"])

lemma tabs_branch [simp]: "tabs (grid_branch v cs) = concat (map tabs cs)"
  by (simp add: tabs.simps [of "grid_branch v cs"])

lemma tabs_framed [simp]: "tabs (with_fields (node_frame v) c) = tabs c"
  by (simp add: tabs.simps [of "with_fields (node_frame v) c"] tabs.simps [of c])

lemma valid_framed [simp]: "validGridNode (with_fields (node_frame v) c) panelIDs = validGridNode c panelIDs"
  by (simp add: validGridNode.simps [of "with_fields (node_frame v) c"] validGridNode.simps [of c])

lemma sanitizeLeaf_tabs:
  "(case sanitizeLeaf d keep of Some d' \<Rightarrow> group_tabs d' | None \<Rightarrow> []) = filter (\<lambda>i. i \<in> set keep) (group_tabs d)"
proof (cases "as_string (field d ''id'')")
  case (Some s)
  then have "is_record d" by (cases d) simp_all
  with Some show ?thesis
    by (auto simp: sanitizeLeaf_def group_tabs_def Let_def filter_empty_conv split: option.splits json.splits)
qed (simp add: sanitizeLeaf_def group_tabs_def)

lemma sanitizeLeaf_shape:
  assumes "sanitizeLeaf d keep = Some d'" and "string_list (field d ''views'') = Some views"
    and kept: "kept = filter (\<lambda>i. i \<in> set keep) views"
  shows "is_record d' \<and> field d' ''id'' = field d ''id'' \<and> kept \<noteq> [] \<and> field d' ''views'' = Some (strings_json kept) \<and>
    (\<exists>a \<in> set kept. field d' ''activeView'' = Some (JStr a) \<and>
       (\<forall>a'. field d ''activeView'' = Some (JStr a') \<longrightarrow> a' \<in> set kept \<longrightarrow> a = a'))"
proof -
  obtain s where s: "as_string (field d ''id'') = Some s"
    using assms(1) by (auto simp: sanitizeLeaf_def split: option.splits)
  then have rec: "is_record d" by (cases d) simp_all
  have ne: "kept \<noteq> []" using assms(1,2) s by (auto simp: sanitizeLeaf_def kept Let_def)
  define a where "a = (case as_string (field d ''activeView'') of Some a \<Rightarrow> if a \<in> set kept then a else hd kept | None \<Rightarrow> hd kept)"
  have a: "a \<in> set kept" using hd_in_set [OF ne] by (simp add: a_def split: option.split)
  have a': "field d ''activeView'' = Some (JStr a') \<Longrightarrow> a' \<in> set kept \<Longrightarrow> a = a'" for a' by (simp add: a_def)
  define g1 where "g1 = set_field ''activeView'' (JStr a) (set_field ''views'' (strings_json kept) d)"
  have "sanitizeLeaf d keep = Some (case field d ''tabGroups'' of
      Some (JArr gs) \<Rightarrow> set_field ''tabGroups'' (JArr (List.map_filter (sanitize_tab_group keep) gs)) g1 | _ \<Rightarrow> g1)"
    using s assms(2) ne unfolding sanitizeLeaf_def g1_def kept a_def by (simp add: Let_def)
  then have d': "d' = (case field d ''tabGroups'' of
      Some (JArr gs) \<Rightarrow> set_field ''tabGroups'' (JArr (List.map_filter (sanitize_tab_group keep) gs)) g1 | _ \<Rightarrow> g1)"
    using assms(1) by simp
  have f: "field g1 ''activeView'' = Some (JStr a)" "field g1 ''views'' = Some (strings_json kept)"
    "field g1 ''id'' = field d ''id''" "is_record g1"
    using rec by (simp_all add: g1_def)
  have "field d' ''activeView'' = Some (JStr a)" "field d' ''views'' = Some (strings_json kept)"
    "field d' ''id'' = field d ''id''" "is_record d'"
    using f unfolding d' by (simp_all split: option.split json.split)
  with a a' ne show ?thesis by blast
qed

lemma sanitizeLeaf_some:
  "sanitizeLeaf d keep = Some d' \<Longrightarrow> \<exists>s views. as_string (field d ''id'') = Some s \<and> string_list (field d ''views'') = Some views"
  by (auto simp: sanitizeLeaf_def split: option.splits)

lemma sanitizeLeaf_valid:
  assumes "sanitizeLeaf d keep = Some d'" and "set keep \<subseteq> set panelIDs"
  shows "is_record d' \<and> valid_group d' panelIDs"
proof -
  obtain s views where s: "as_string (field d ''id'') = Some s" "string_list (field d ''views'') = Some views"
    using sanitizeLeaf_some [OF assms(1)] by blast
  have "list_all (\<lambda>i. i \<in> set panelIDs) (filter (\<lambda>i. i \<in> set keep) views)"
    using assms(2) by (auto simp: list_all_iff)
  with sanitizeLeaf_shape [OF assms(1) s(2) refl] s(1) show ?thesis by (auto simp: valid_group_def)
qed

text \<open>Pruning keeps exactly the tabs to keep.\<close>

lemma collapse_tabs:
  "(case collapse_branch v cs of Some n \<Rightarrow> tabs n | None \<Rightarrow> []) = concat (map tabs cs)"
  by (cases cs rule: remdups_adj.cases) (simp_all add: collapse_branch_def)

lemma concat_tabs_filter:
  assumes "\<And>x. x \<in> set xs \<Longrightarrow> (case f x of Some n \<Rightarrow> tabs n | None \<Rightarrow> []) = filter P (tabs x)"
  shows "concat (map tabs (List.map_filter f xs)) = filter P (concat (map tabs xs))"
  using assms
proof (induction xs)
  case (Cons x xs)
  have "(case f x of Some n \<Rightarrow> tabs n | None \<Rightarrow> []) = filter P (tabs x)" using Cons.prems by simp
  with Cons show ?case by (cases "f x") (simp_all add: List.map_filter_simps)
qed (simp add: List.map_filter_simps)

lemma prune_tabs:
  "(case pruneGridNode keep v of Some n \<Rightarrow> tabs n | None \<Rightarrow> []) = filter (\<lambda>i. i \<in> set keep) (tabs v)"
proof (induction keep v rule: pruneGridNode.induct)
  case (1 keep v)
  consider "field v ''type'' = Some (JStr ''leaf'')" | "field v ''type'' = Some (JStr ''branch'')"
    | "field v ''type'' \<noteq> Some (JStr ''leaf'')" "field v ''type'' \<noteq> Some (JStr ''branch'')" by blast
  then show ?case
  proof cases
    case 1
    show ?thesis
    proof (cases "field v ''data''")
      case (Some d)
      with 1 sanitizeLeaf_tabs [of d keep] group_tabs_record [of d] show ?thesis
        by (cases "sanitizeLeaf d keep") (auto simp: pruneGridNode.simps [of keep v] tabs.simps [of v])
    qed (simp add: pruneGridNode.simps [of keep v] tabs.simps [of v] 1)
  next
    case 2
    have "concat (map tabs (List.map_filter (pruneGridNode keep) (elements (field v ''data'')))) =
        filter (\<lambda>i. i \<in> set keep) (concat (map tabs (elements (field v ''data''))))"
      by (rule concat_tabs_filter) (use "1.IH" 2 in simp)
    with 2 collapse_tabs [of v] show ?thesis by (simp add: pruneGridNode.simps [of keep v] tabs.simps [of v])
  next
    case 3
    then show ?thesis by (simp add: pruneGridNode.simps [of keep v] tabs.simps [of v])
  qed
qed

lemma valid_branch:
  "validGridNode (grid_branch v cs) panelIDs \<longleftrightarrow> cs \<noteq> [] \<and> (\<forall>c \<in> set cs. validGridNode c panelIDs)"
  by (simp add: validGridNode.simps [of "grid_branch v cs"])

lemma is_record_branch: "is_record (grid_branch v cs)"
  by (simp add: grid_branch_def)

lemma collapse_valid:
  "collapse_branch v cs = Some n \<Longrightarrow> \<forall>c \<in> set cs. validGridNode c panelIDs \<Longrightarrow> validGridNode n panelIDs"
  by (cases cs rule: remdups_adj.cases) (auto simp: collapse_branch_def valid_branch split: if_splits)

lemma prune_valid:
  "pruneGridNode keep v = Some n \<Longrightarrow> set keep \<subseteq> set panelIDs \<Longrightarrow> validGridNode n panelIDs"
proof (induction keep v arbitrary: n rule: pruneGridNode.induct)
  case (1 keep v)
  show ?case
  proof (cases "field v ''type'' = Some (JStr ''leaf'')")
    case True
    then obtain d d' where "field v ''data'' = Some d" "sanitizeLeaf d keep = Some d'" "n = grid_leaf v d'"
      using "1.prems"(1) by (auto simp: pruneGridNode.simps [of keep v] split: option.splits if_splits)
    with sanitizeLeaf_valid [of d keep d' panelIDs] "1.prems"(2) show ?thesis
      by (simp add: validGridNode.simps [of "grid_leaf v d'"])
  next
    case False
    then have b: "field v ''type'' = Some (JStr ''branch'')"
      "collapse_branch v (List.map_filter (pruneGridNode keep) (elements (field v ''data''))) = Some n"
      using "1.prems"(1) by (auto simp: pruneGridNode.simps [of keep v] split: if_splits)
    have "\<forall>c \<in> set (List.map_filter (pruneGridNode keep) (elements (field v ''data''))). validGridNode c panelIDs"
      using "1.IH" False b "1.prems"(2) by auto
    with b(2) show ?thesis by (rule collapse_valid)
  qed
qed

lemma pruneGridRoot_valid:
  "pruneGridRoot v keep = Some r \<Longrightarrow> set keep \<subseteq> set panelIDs \<Longrightarrow>
     validGridNode r panelIDs \<and> is_record r \<and> field r ''type'' = Some (JStr ''branch'')"
  using prune_valid [of keep _ _ panelIDs]
  by (auto simp: pruneGridRoot_def Let_def valid_branch is_record_branch split: if_splits)

lemma pruneGridRoot_tabs:
  assumes "field v ''type'' = Some (JStr ''branch'')"
  shows "(case pruneGridRoot v keep of Some r \<Rightarrow> tabs r | None \<Rightarrow> []) = filter (\<lambda>i. i \<in> set keep) (tabs v)"
proof -
  have "concat (map tabs (List.map_filter (pruneGridNode keep) (elements (field v ''data'')))) =
      filter (\<lambda>i. i \<in> set keep) (concat (map tabs (elements (field v ''data''))))"
    by (rule concat_tabs_filter) (rule prune_tabs)
  with assms show ?thesis by (auto simp: pruneGridRoot_def Let_def tabs.simps [of v])
qed

subsection \<open>Docks\<close>

lemma object_at_iff: "object_at v k \<longleftrightarrow> (\<exists>kvs. field v k = Some (JObj kvs))"
  by (auto simp: object_at_def split: option.splits elim: is_record.elims)

lemma has_grid_iff:
  "has_grid v \<longleftrightarrow> (\<exists>ps gk rk. field v ''panels'' = Some (JObj ps) \<and> field v ''grid'' = Some (JObj gk) \<and>
     grid_root v = Some (JObj rk))"
proof
  assume "has_grid v"
  then show "\<exists>ps gk rk. field v ''panels'' = Some (JObj ps) \<and> field v ''grid'' = Some (JObj gk) \<and> grid_root v = Some (JObj rk)"
    by (auto simp: has_grid_def object_at_iff grid_root_def)
next
  assume "\<exists>ps gk rk. field v ''panels'' = Some (JObj ps) \<and> field v ''grid'' = Some (JObj gk) \<and> grid_root v = Some (JObj rk)"
  then show "has_grid v"
    by (auto simp: has_grid_def object_at_iff grid_root_def intro: field_record)
qed

lemma has_grid_record: "has_grid v \<Longrightarrow> is_record v"
  by (simp add: has_grid_def)

lemma with_root_fields:
  assumes "has_grid v" and "is_record r"
  shows "grid_root (with_root r v) = Some r" and "has_grid (with_root r v)"
    and "k \<noteq> ''grid'' \<Longrightarrow> field (with_root r v) k = field v k"
proof -
  obtain ps gk rk where v: "field v ''panels'' = Some (JObj ps)" "field v ''grid'' = Some (JObj gk)"
    "is_record v" using assms(1) by (auto simp: has_grid_iff intro: field_record)
  obtain rk' where r: "r = JObj rk'" using assms(2) by (cases r) auto
  show root: "grid_root (with_root r v) = Some r" using v r by (simp add: with_root_def grid_root_def get_put)
  show "has_grid (with_root r v)" using v r root by (auto simp: has_grid_iff with_root_def)
  show "k \<noteq> ''grid'' \<Longrightarrow> field (with_root r v) k = field v k" using v by (simp add: with_root_def)
qed

lemma set_panels_fields:
  assumes "has_grid v"
  shows "has_grid (set_field ''panels'' (JObj ps) v)" and "grid_root (set_field ''panels'' (JObj ps) v) = grid_root v"
  using assms has_grid_record [OF assms] by (auto simp: has_grid_iff grid_root_def)

lemma with_active_group_fields [simp]:
  "k \<noteq> ''activeGroup'' \<Longrightarrow> field (with_active_group g v) k = field v k"
  "is_record (with_active_group g v) = is_record v"
  "is_record v \<Longrightarrow> field (with_active_group g v) ''activeGroup'' = map_option JStr g"
  by (cases g; simp add: with_active_group_def)+

lemma grid_fields_only:
  assumes "field v ''panels'' = field w ''panels''" and "field v ''grid'' = field w ''grid''"
  shows "grid_root v = grid_root w" and "has_grid v = has_grid w"
  using assms by (simp_all add: has_grid_iff grid_root_def)

lemma with_active_group_grid [simp]:
  "grid_root (with_active_group g v) = grid_root v" "has_grid (with_active_group g v) = has_grid v"
  by (rule grid_fields_only; simp)+

lemma rename_branch_type:
  "field r ''type'' = Some (JStr ''branch'') \<Longrightarrow>
     field (renameGridViews r renamed) ''type'' = Some (JStr ''branch'')"
  by (subst renameGridViews.simps) (auto simp: field_record)

lemma migrate_grid:
  assumes v: "has_grid v" and b: "grid_root v = Some r" "field r ''type'' = Some (JStr ''branch'')"
  shows "has_grid (migrateRetiredPanels v) \<and>
    (\<exists>r'. grid_root (migrateRetiredPanels v) = Some r' \<and> field r' ''type'' = Some (JStr ''branch''))"
proof -
  obtain panels renamed where f: "fold migrate_panel (retired_panels v) (current_panels v, []) = (panels, renamed)"
    by fastforce
  show ?thesis
  proof (cases "retired_panels v = []")
    case True
    with v b show ?thesis by (simp add: migrateRetiredPanels_def Let_def)
  next
    case False
    show ?thesis
    proof (cases "pruneGridRoot (renameGridViews r renamed) (keys panels)")
      case None
      then have "migrateRetiredPanels v = set_field ''panels'' (JObj []) v"
        using v b False f by (simp add: migrateRetiredPanels_def Let_def)
      with set_panels_fields [OF v] b show ?thesis by simp
    next
      case (Some r')
      then have m: "migrateRetiredPanels v = with_active_group (active_group v r')
          (with_root r' (set_field ''panels'' (JObj panels) v))"
        using v b False f by (simp add: migrateRetiredPanels_def Let_def)
      have "is_record r' \<and> field r' ''type'' = Some (JStr ''branch'')"
        using pruneGridRoot_valid [OF Some, of "keys panels"] by simp
      with with_root_fields [OF set_panels_fields(1) [OF v]] show ?thesis unfolding m by simp
    qed
  qed
qed

lemma panel_of_ok: "panel_of i s = Some p \<Longrightarrow> panel_ok p \<and> is_record s"
  by (auto simp: panel_of_def bind_eq_Some_conv split: if_splits option.splits dest: panelParams_ok)

lemma panel_of_canonical:
  assumes "panel_of i s = Some p"
  shows "panel_of i (set_field ''params'' (panel_json p) s) = Some p"
proof -
  have "panelParams (panel_json p) = Some p" using panel_of_ok [OF assms] panelParams_json by simp
  with assms panel_of_ok [OF assms] show ?thesis
    by (auto simp: panel_of_def split: if_splits option.splits)
qed

lemma canonical_panel_of: "canonicalSerializedPanel i s = Some c \<Longrightarrow> panel_of i c = panel_of i s \<and> panel_of i s \<noteq> None"
  using panel_of_canonical by (auto simp: canonicalSerializedPanel_def)

lemma canonical_entries_ok:
  "list_all (\<lambda>(i, s). panel_of i s \<noteq> None) (List.map_filter canonical_entry all)"
  using canonical_panel_of by (fastforce simp: list_all_iff canonical_entry_def)

lemma field_del_transient:
  "k \<notin> set transient_fields \<Longrightarrow> field (fold del_field transient_fields v) k = field v k"
  "k \<in> set transient_fields \<Longrightarrow> field (fold del_field transient_fields v) k = None"
  by (auto simp: transient_fields_def)

lemma transient_kept [simp]:
  "field (fold del_field transient_fields v) ''panels'' = field v ''panels''"
  "field (fold del_field transient_fields v) ''grid'' = field v ''grid''"
  "field (fold del_field transient_fields v) ''activeGroup'' = field v ''activeGroup''"
  by (rule field_del_transient(1), simp add: transient_fields_def)+

lemma transient_grid [simp]:
  "grid_root (fold del_field transient_fields v) = grid_root v"
  "has_grid (fold del_field transient_fields v) = has_grid v"
  by (rule grid_fields_only; simp)+

lemma transient_gone:
  "\<not> has_field (fold del_field transient_fields v) ''floatingGroups''"
  "\<not> has_field (fold del_field transient_fields v) ''popoutGroups''"
  "\<not> has_field (fold del_field transient_fields v) ''edgeGroups''"
  by (simp_all add: has_field_def field_del_transient(2) transient_fields_def)

lemma validDock_iff:
  "validDock v \<longleftrightarrow> has_grid v \<and> field (the (grid_root v)) ''type'' = Some (JStr ''branch'') \<and>
     \<not> has_field v ''floatingGroups'' \<and> \<not> has_field v ''popoutGroups'' \<and> \<not> has_field v ''edgeGroups'' \<and>
     entries (field v ''panels'') \<noteq> [] \<and> list_all (\<lambda>(i, s). panel_of i s \<noteq> None) (entries (field v ''panels'')) \<and>
     validGridNode (the (grid_root v)) (keys (entries (field v ''panels'')))"
  by (cases "field v ''grid''"; cases "grid_root v")
    (auto simp: validDock_def has_grid_def grid_root_def object_at_iff split: option.splits)

text \<open>Validating a readable panel does not throw, and migrating makes no panel that does.\<close>

lemma panel_of_no_throw: "panel_of i s \<noteq> None \<Longrightarrow> \<not> entry_throws (i, s)"
  by (auto simp: panel_of_def entry_throws_def bind_eq_Some_conv panelParams_no_throw split: if_splits option.splits)

lemma valid_no_throw: "validDock d \<Longrightarrow> \<not> list_ex entry_throws (entries (field d ''panels''))"
  using panel_of_no_throw by (fastforce simp: validDock_iff list_all_iff list_ex_iff)

lemma in_put_weak: "x \<in> set (put k v m) \<Longrightarrow> x = (k, v) \<or> x \<in> set m"
  by (induction m) (auto split: if_splits)

lemma migrate_panel_no_throw:
  "list_all (\<lambda>e. \<not> entry_throws e) (fst acc) \<Longrightarrow> list_all (\<lambda>e. \<not> entry_throws e) (fst (migrate_panel e acc))"
proof -
  have new: "\<not> entry_throws (i, with_fields [(''id'', JStr i), (''contentComponent'', c), (''title'', t), (''params'', panel_json p)] s)"
    if "legacy_params s = Some (Some p)" for i c t p s
  proof -
    have "is_record s" using that by (auto simp: legacy_params_def split: if_splits)
    moreover have "panelParams (panel_json p) = Some p"
      using that by (intro panelParams_json)
        (auto simp: legacy_params_def legacyScreenPanelParams_def bind_eq_Some_conv Let_def find_Some_iff split: if_splits)
    ultimately show ?thesis using panelParams_no_throw by (simp add: entry_throws_def)
  qed
  assume "list_all (\<lambda>e. \<not> entry_throws e) (fst acc)"
  then show ?thesis
    using new by (auto simp: migrate_panel_def list_all_iff Let_def dest!: in_put_weak split: prod.splits option.splits)
qed

lemma fold_migrate_no_throw:
  "list_all (\<lambda>e. \<not> entry_throws e) (fst acc) \<Longrightarrow> list_all (\<lambda>e. \<not> entry_throws e) (fst (fold migrate_panel es acc))"
  by (induction es arbitrary: acc) (simp_all add: migrate_panel_no_throw)

lemma migrate_no_throw:
  assumes "has_grid v" and "\<not> list_ex entry_throws (entries (field v ''panels''))"
  shows "\<not> list_ex entry_throws (entries (field (migrateRetiredPanels v) ''panels''))"
proof -
  obtain panels renamed where f: "fold migrate_panel (retired_panels v) (current_panels v, []) = (panels, renamed)"
    by fastforce
  have "list_all (\<lambda>e. \<not> entry_throws e) (fst (current_panels v, [] :: (string, string) jsmap))"
    using assms(2) by (auto simp: current_panels_def list_all_iff list_ex_iff)
  from fold_migrate_no_throw [OF this, of "retired_panels v"] f have p: "list_all (\<lambda>e. \<not> entry_throws e) panels" by simp
  obtain r where r: "grid_root v = Some r" using assms(1) by (auto simp: has_grid_iff)
  show ?thesis
  proof (cases "pruneGridRoot (renameGridViews r renamed) (keys panels)")
    case None
    then show ?thesis using assms r f has_grid_record [OF assms(1)] by (simp add: migrateRetiredPanels_def Let_def)
  next
    case (Some r')
    have "is_record r'" using pruneGridRoot_valid [OF Some, of "keys panels"] by simp
    from with_root_fields(3) [OF set_panels_fields(1) [OF assms(1)] this]
    show ?thesis
      using assms r f Some p has_grid_record [OF assms(1)]
      by (simp add: migrateRetiredPanels_def Let_def list_all_iff list_ex_iff)
  qed
qed

text \<open>The tabs of a whole dock.\<close>

definition dock_tabs :: "json option \<Rightarrow> string list" where
  "dock_tabs d = (case Option.bind d grid_root of None \<Rightarrow> [] | Some r \<Rightarrow> tabs r)"

lemma sanitize_outcome:
  assumes s: "is_record v" and m: "migrateRetiredPanels v = w" and w: "has_grid w" and r0: "grid_root w = Some r0"
    and b: "field r0 ''type'' = Some (JStr ''branch'')" and nt: "\<not> list_ex entry_throws (entries (field w ''panels''))"
  shows "\<exists>res. sanitizeStoredDock (Some v) = Some res \<and>
    dock_tabs (sd_dock res) = filter (\<lambda>i. i \<in> set (keys (readable_panels w))) (tabs r0) \<and>
    (\<forall>d. sd_dock res = Some d \<longrightarrow> validDock d \<and> entries (field d ''panels'') = readable_panels w \<and>
       (\<exists>r. pruneGridRoot r0 (keys (readable_panels w)) = Some r \<and> grid_root d = Some r \<and>
          field d ''activeGroup'' = map_option JStr (active_group w r)))"
proof (cases "pruneGridRoot r0 (keys (readable_panels w))")
  case None
  then have "sanitizeStoredDock (Some v) = Some \<lparr>sd_dock = None, sd_salvaged = True\<rparr>"
    using s m w r0 b nt by (cases v) (simp_all add: sanitizeStoredDock_def Let_def)
  with pruneGridRoot_tabs [OF b, of "keys (readable_panels w)"] None show ?thesis by (simp add: dock_tabs_def)
next
  case (Some r)
  define dock where "dock = fold del_field transient_fields
    (with_active_group (active_group w r) (with_root r (set_field ''panels'' (JObj (readable_panels w)) w)))"
  have r: "is_record r" "field r ''type'' = Some (JStr ''branch'')" "validGridNode r (keys (readable_panels w))"
    using pruneGridRoot_valid [OF Some, of "keys (readable_panels w)"] by simp_all
  have t: "tabs r = filter (\<lambda>i. i \<in> set (keys (readable_panels w))) (tabs r0)"
    using pruneGridRoot_tabs [OF b, of "keys (readable_panels w)"] Some by simp
  note wr = with_root_fields [OF set_panels_fields(1) [OF w] r(1)]
  have root: "grid_root dock = Some r" "has_grid dock" using wr by (simp_all add: dock_def)
  have panels: "field dock ''panels'' = Some (JObj (readable_panels w))"
    using wr(3) has_grid_record [OF w] by (simp add: dock_def)
  have active: "field dock ''activeGroup'' = map_option JStr (active_group w r)"
    using has_grid_record [OF wr(2)] by (simp add: dock_def)
  show ?thesis
  proof (cases "readable_panels w")
    case Nil
    then have "tabs r = []" using t by simp
    moreover have "sanitizeStoredDock (Some v) = Some \<lparr>sd_dock = None, sd_salvaged = True\<rparr>"
      using s m w r0 b nt Some Nil by (cases v) (simp_all add: sanitizeStoredDock_def Let_def)
    ultimately show ?thesis using t by (simp add: dock_tabs_def)
  next
    case (Cons e es)
    then have "keys (readable_panels w) \<noteq> []" by simp
    have "list_all (\<lambda>(i, s). panel_of i s \<noteq> None) (readable_panels w)"
      unfolding readable_panels_def by (rule canonical_entries_ok)
    then have valid: "validDock dock"
      using root panels r transient_gone Cons unfolding validDock_iff by (simp add: dock_def)
    have "\<exists>b. sanitizeStoredDock (Some v) = Some \<lparr>sd_dock = Some dock, sd_salvaged = b\<rparr>"
      using s m w r0 b nt Some Cons valid unfolding dock_def
      by (cases v) (simp_all add: sanitizeStoredDock_def Let_def)
    with valid panels root t active Some show ?thesis by (auto simp: dock_tabs_def)
  qed
qed

end
