(* ===== verification/DockSend.thy ===== *)
theory DockSend
  imports DockProps
begin

section \<open>A panel sent to a stored space\<close>

text \<open>
  What the steps of \<open>writePanelToStoredSpace\<close> do to a grid: the active group shows the panel, and the
  text that is written, cloned, validated and repaired, still does.
\<close>

subsection \<open>Groups\<close>

lemma first_some_None: "first_some f xs = None \<longleftrightarrow> (\<forall>x \<in> set xs. f x = None)"
  by (induction xs) (auto split: option.splits)

lemma leafByID_groupIDs: "leafByID v g = None \<longleftrightarrow> g \<notin> set (groupIDs v)"
proof (induction v rule: groupIDs.induct)
  case (1 v)
  show ?case
  proof (cases "field v ''type'' = Some (JStr ''leaf'')")
    case True
    have "leaf_id v = Some g \<Longrightarrow> \<exists>d. field v ''data'' = Some d"
      by (auto simp: leaf_id_def split: option.splits)
    with True show ?thesis
      by (auto simp: leafByID.simps [of v] groupIDs.simps [of v] split: option.splits)
  next
    case False
    with 1 show ?thesis by (simp add: leafByID.simps [of v] groupIDs.simps [of v] first_some_None)
  qed
qed

text \<open>What \<open>map_first\<close> does to children, when \<open>f\<close> keeps what \<open>h\<close> sees of the children it does not find.\<close>

lemma map_first_concat:
  "map_first f xs = (ys, b) \<Longrightarrow> \<forall>x \<in> set xs. h (fst (f x)) = h x \<Longrightarrow> concat (map h ys) = concat (map h xs)"
  by (induction xs arbitrary: ys b) (auto split: prod.splits bool.splits)

lemma map_first_found: "map_first f xs = (ys, b) \<Longrightarrow> b = (\<exists>x \<in> set xs. snd (f x))"
  by (induction xs arbitrary: ys b) (auto split: prod.splits bool.splits)

lemma map_first_some:
  assumes "map_first f xs = (ys, True)"
    and "\<forall>x \<in> set xs. \<not> snd (f x) \<longrightarrow> h (fst (f x)) = None"
    and "\<forall>x \<in> set xs. snd (f x) \<longrightarrow> (\<exists>l. h (fst (f x)) = Some l \<and> Q l)"
  shows "\<exists>l. first_some h ys = Some l \<and> Q l"
  using assms
proof (induction xs arbitrary: ys)
  case (Cons x xs)
  show ?case
  proof (cases "f x")
    case (Pair y b)
    show ?thesis
    proof (cases b)
      case True
      with Cons.prems Pair show ?thesis by auto
    next
      case False
      obtain zs where zs: "map_first f xs = (zs, True)" "ys = y # zs"
        using Cons.prems(1) Pair False by (auto split: prod.splits)
      have "h y = None" using Cons.prems(2) Pair False by auto
      with Cons.IH [OF zs(1)] Cons.prems(2,3) zs(2) show ?thesis by auto
    qed
  qed
qed simp

definition shows_panel :: "string \<Rightarrow> json \<Rightarrow> bool" where
  "shows_panel i l \<longleftrightarrow> field l ''activeView'' = Some (JStr i) \<and> as_string (field l ''id'') \<noteq> None \<and>
     (\<exists>views. string_list (field l ''views'') = Some views \<and> i \<in> set views)"

lemma leaf_id_data: "leaf_id v = Some g \<Longrightarrow> \<exists>kvs. field v ''data'' = Some (JObj kvs) \<and> field (JObj kvs) ''id'' = Some (JStr g)"
proof -
  assume "leaf_id v = Some g"
  then obtain d where d: "field v ''data'' = Some d" "field d ''id'' = Some (JStr g)"
    by (auto simp: leaf_id_def as_string_Some split: option.splits)
  then obtain kvs where "d = JObj kvs" by (cases d) simp_all
  with d show ?thesis by simp
qed

lemma activate_leaf_fields:
  assumes "leaf_id v = Some g"
  shows "field (activate_leaf i v) ''type'' = field v ''type''" "leaf_id (activate_leaf i v) = Some g"
    "\<exists>l. field (activate_leaf i v) ''data'' = Some l \<and> shows_panel i l" "is_record (activate_leaf i v) = is_record v"
proof -
  obtain kvs where d: "field v ''data'' = Some (JObj kvs)" "field (JObj kvs) ''id'' = Some (JStr g)"
    using leaf_id_data [OF assms] by blast
  let ?views = "or_else (string_list (field (JObj kvs) ''views'')) []"
  let ?d = "set_field ''activeView'' (JStr i) (set_field ''views'' (strings_json (if i \<in> set ?views then ?views else ?views @ [i])) (JObj kvs))"
  have a: "activate_leaf i v = set_field ''data'' ?d v" using d(1) by (simp only: activate_leaf_def option.case Let_def)
  have r: "is_record v" using d(1) by (rule field_record)
  have f: "field ?d ''id'' = Some (JStr g)" "field ?d ''activeView'' = Some (JStr i)"
    "field ?d ''views'' = Some (strings_json (if i \<in> set ?views then ?views else ?views @ [i]))"
    using d(2) by (simp_all only: field_set_field is_record_set_field is_record.simps) simp_all
  show "field (activate_leaf i v) ''type'' = field v ''type''" "is_record (activate_leaf i v) = is_record v"
    unfolding a by simp_all
  have data: "field (activate_leaf i v) ''data'' = Some ?d" unfolding a using r by (simp only: field_set_field simp_thms if_True)
  with f show "leaf_id (activate_leaf i v) = Some g" by (simp only: leaf_id_def option.case as_string.simps)
  have "shows_panel i ?d"
    using f by (simp only: shows_panel_def as_string.simps string_list_json) simp
  with data show "\<exists>l. field (activate_leaf i v) ''data'' = Some l \<and> shows_panel i l" by blast
qed

text \<open>The group is found exactly when it is one of the grid's, and then it shows the panel.\<close>

lemma activate_spec:
  assumes "activatePanelInGrid v g i = (v', b)"
  shows "field v' ''type'' = field v ''type'' \<and> is_record v' = is_record v \<and> groupIDs v' = groupIDs v \<and>
    b = (g \<in> set (groupIDs v)) \<and> (b \<longrightarrow> (\<exists>l. leafByID v' g = Some l \<and> shows_panel i l))"
  using assms
proof (induction v g i arbitrary: v' b rule: activatePanelInGrid.induct)
  case (1 v g i)
  show ?case
  proof (cases "field v ''type'' = Some (JStr ''leaf'')")
    case leaf: True
    show ?thesis
    proof (cases "leaf_id v = Some g")
      case True
      then have v': "v' = activate_leaf i v" "b" using leaf "1.prems" by (simp_all add: activatePanelInGrid.simps [of v])
      note f = activate_leaf_fields [OF True, of i]
      have "groupIDs v' = [g]" "groupIDs v = [g]" using leaf f(1,2) True unfolding v'(1)
        by (subst groupIDs.simps, simp)+
      moreover have "leafByID v' g = field v' ''data''" using leaf f(1,2) unfolding v'(1)
        by (subst leafByID.simps) simp
      ultimately show ?thesis using f leaf unfolding v'(1) using v'(2) by (simp only: list.set) auto
    next
      case False
      then have "v' = v" "\<not> b" using leaf "1.prems" by (simp_all add: activatePanelInGrid.simps [of v])
      with leaf False show ?thesis by (auto simp: groupIDs.simps [of v] split: option.splits)
    qed
  next
    case False
    let ?f = "\<lambda>child. activatePanelInGrid child g i"
    obtain cs where m: "map_first ?f (elements (field v ''data'')) = (cs, b)" and v': "v' = set_field ''data'' (JArr cs) v"
      using "1.prems" False by (auto simp: activatePanelInGrid.simps [of v] split: prod.splits)
    have ih: "groupIDs (fst (?f c)) = groupIDs c \<and> snd (?f c) = (g \<in> set (groupIDs c)) \<and>
        (snd (?f c) \<longrightarrow> (\<exists>l. leafByID (fst (?f c)) g = Some l \<and> shows_panel i l))"
      if "c \<in> set (elements (field v ''data''))" for c
      using "1.IH" [OF False that] by (cases "?f c") simp
    have type: "field v' ''type'' = field v ''type''" "is_record v' = is_record v" unfolding v' by simp_all
    have els: "elements (field v' ''data'') = (if is_record v then cs else [])"
      unfolding v' by (cases v) (simp_all add: elements_def get_put)
    have none: "\<not> is_record v \<Longrightarrow> elements (field v ''data'') = []" by (cases v) (simp_all add: elements_def)
    have groups: "concat (map groupIDs cs) = concat (map groupIDs (elements (field v ''data'')))"
      using map_first_concat [OF m, of groupIDs] ih by blast
    have g: "groupIDs v' = groupIDs v"
      using groups none els type False by (cases "is_record v") (simp_all add: groupIDs.simps [of v'] groupIDs.simps [of v])
    have b: "b = (g \<in> set (groupIDs v))"
      using map_first_found [OF m] ih False by (simp add: groupIDs.simps [of v])
    have "\<exists>l. leafByID v' g = Some l \<and> shows_panel i l" if rb: b
    proof -
      have "is_record v" using none m rb by (cases "is_record v") simp_all
      moreover have "\<exists>l. first_some (\<lambda>c. leafByID c g) cs = Some l \<and> shows_panel i l"
        by (rule map_first_some [of ?f "elements (field v ''data'')"])
          (use m rb ih in \<open>auto simp: leafByID_groupIDs\<close>)
      ultimately show ?thesis using False type els by (simp add: leafByID.simps [of v'])
    qed
    with type g b show ?thesis by blast
  qed
qed

subsection \<open>Pruning\<close>

lemma leafByID_branch [simp]: "leafByID (grid_branch v cs) g = first_some (\<lambda>c. leafByID c g) cs"
  by (simp add: leafByID.simps [of "grid_branch v cs"])

lemma leafByID_framed [simp]: "leafByID (with_fields (node_frame v) c) g = leafByID c g"
  by (simp add: leafByID.simps [of "with_fields (node_frame v) c"] leafByID.simps [of c] leaf_id_def)

lemma collapse_leafByID:
  "collapse_branch v cs = Some n \<Longrightarrow> leafByID n g = first_some (\<lambda>c. leafByID c g) cs"
  by (cases cs rule: remdups_adj.cases) (auto simp: collapse_branch_def split: if_splits option.split)

lemma leafByID_leaf: "leafByID (grid_leaf v d) g = (if field d ''id'' = Some (JStr g) then Some d else None)"
  by (simp add: leafByID.simps [of "grid_leaf v d"] leaf_id_def as_string_Some)

lemma first_some_map_filter_None:
  "\<forall>x \<in> set xs. \<forall>y. f x = Some y \<longrightarrow> h y = None \<Longrightarrow> first_some h (List.map_filter f xs) = None"
  by (auto simp: first_some_None)

text \<open>A group that is not there is not there after pruning, and one that keeps a tab is found, pruned.\<close>

lemma prune_leafByID_None: "leafByID v g = None \<Longrightarrow> pruneGridNode keep v = Some n \<Longrightarrow> leafByID n g = None"
proof (induction keep v arbitrary: n rule: pruneGridNode.induct)
  case (1 keep v)
  show ?case
  proof (cases "field v ''type'' = Some (JStr ''leaf'')")
    case True
    then obtain d d' where d: "field v ''data'' = Some d" "sanitizeLeaf d keep = Some d'" "n = grid_leaf v d'"
      using "1.prems"(2) by (auto simp: pruneGridNode.simps [of keep v] split: option.splits if_splits)
    have "field d ''id'' \<noteq> Some (JStr g)"
      using "1.prems"(1) True d(1) by (simp add: leafByID.simps [of v] leaf_id_def as_string_Some split: if_splits)
    moreover have "field d' ''id'' = field d ''id''"
      using sanitizeLeaf_some [OF d(2)] sanitizeLeaf_shape [OF d(2)] by blast
    ultimately show ?thesis using d(3) by (simp add: leafByID_leaf)
  next
    case False
    then have b: "field v ''type'' = Some (JStr ''branch'')"
      "collapse_branch v (List.map_filter (pruneGridNode keep) (elements (field v ''data''))) = Some n"
      using "1.prems"(2) by (auto simp: pruneGridNode.simps [of keep v] split: if_splits)
    have "\<forall>x \<in> set (elements (field v ''data'')). leafByID x g = None"
      using "1.prems"(1) False by (simp add: leafByID.simps [of v] first_some_None)
    then have "first_some (\<lambda>c. leafByID c g) (List.map_filter (pruneGridNode keep) (elements (field v ''data''))) = None"
      by (intro first_some_map_filter_None) (use "1.IH" False b(1) in blast)
    with collapse_leafByID [OF b(2)] show ?thesis by simp
  qed
qed

lemma first_some_map_filter:
  assumes "first_some h xs = Some l" and "\<forall>x \<in> set xs. h x = None \<longrightarrow> (\<forall>y. f x = Some y \<longrightarrow> h y = None)"
    and "\<forall>x \<in> set xs. h x = Some l \<longrightarrow> (\<exists>y. f x = Some y \<and> h y = Some l')"
  shows "first_some h (List.map_filter f xs) = Some l'"
  using assms
proof (induction xs)
  case (Cons x xs)
  show ?case
  proof (cases "h x")
    case None
    with Cons show ?thesis by (cases "f x") (simp_all add: List.map_filter_simps)
  next
    case (Some k)
    with Cons.prems have "\<exists>y. f x = Some y \<and> h y = Some l'" by simp
    then show ?thesis by (auto simp: List.map_filter_simps)
  qed
qed simp

lemma prune_children:
  assumes ih: "\<And>c. c \<in> set els \<Longrightarrow> leafByID c g = Some l \<Longrightarrow> \<exists>n. pruneGridNode keep c = Some n \<and> leafByID n g = Some l'"
    and "first_some (\<lambda>c. leafByID c g) els = Some l"
  shows "first_some (\<lambda>c. leafByID c g) (List.map_filter (pruneGridNode keep) els) = Some l'"
  by (rule first_some_map_filter [OF assms(2)]) (use ih prune_leafByID_None in blast)+

lemma collapse_some: "cs \<noteq> [] \<Longrightarrow> \<exists>n. collapse_branch v cs = Some n"
  by (cases cs rule: remdups_adj.cases) (auto simp: collapse_branch_def)

lemma prune_leafByID:
  "validGridNode v panelIDs \<Longrightarrow> leafByID v g = Some l \<Longrightarrow> sanitizeLeaf l keep = Some l' \<Longrightarrow>
     \<exists>n. pruneGridNode keep v = Some n \<and> leafByID n g = Some l'"
proof (induction keep v rule: pruneGridNode.induct)
  case (1 keep v)
  show ?case
  proof (cases "field v ''type'' = Some (JStr ''leaf'')")
    case True
    then have d: "field v ''data'' = Some l" "leaf_id v = Some g"
      using "1.prems"(2) by (auto simp: leafByID.simps [of v] split: if_splits)
    then have "is_record l" "field l ''id'' = Some (JStr g)" using leaf_id_data [OF d(2)] by auto
    moreover have "field l' ''id'' = field l ''id''"
      using sanitizeLeaf_some [OF "1.prems"(3)] sanitizeLeaf_shape [OF "1.prems"(3)] by blast
    ultimately show ?thesis
      using d True "1.prems"(3) by (simp add: pruneGridNode.simps [of keep v] leafByID_leaf)
  next
    case False
    then have b: "field v ''type'' = Some (JStr ''branch'')"
      "\<forall>c \<in> set (elements (field v ''data'')). validGridNode c panelIDs"
      using "1.prems"(1) by (auto simp: validGridNode.simps [of v] split: if_splits)
    have "first_some (\<lambda>c. leafByID c g) (elements (field v ''data'')) = Some l"
      using "1.prems"(2) False by (simp add: leafByID.simps [of v])
    then have f: "first_some (\<lambda>c. leafByID c g)
        (List.map_filter (pruneGridNode keep) (elements (field v ''data''))) = Some l'"
      by (intro prune_children) (use "1.IH" [OF False b(1)] b(2) "1.prems"(3) in blast)
    then have "List.map_filter (pruneGridNode keep) (elements (field v ''data'')) \<noteq> []" by auto
    from collapse_some [OF this, of v] obtain n where
      n: "collapse_branch v (List.map_filter (pruneGridNode keep) (elements (field v ''data''))) = Some n" by blast
    with b(1) False collapse_leafByID [OF n] f show ?thesis by (simp add: pruneGridNode.simps [of keep v])
  qed
qed

lemma pruneGridRoot_leafByID:
  assumes "validGridNode v panelIDs" and "field v ''type'' = Some (JStr ''branch'')" and "leafByID v g = Some l"
    and "sanitizeLeaf l keep = Some l'"
  shows "\<exists>r. pruneGridRoot v keep = Some r \<and> leafByID r g = Some l'"
proof -
  have v: "\<forall>c \<in> set (elements (field v ''data'')). validGridNode c panelIDs"
    "first_some (\<lambda>c. leafByID c g) (elements (field v ''data'')) = Some l"
    using assms(1-3) by (auto simp: validGridNode.simps [of v] leafByID.simps [of v])
  have "first_some (\<lambda>c. leafByID c g) (List.map_filter (pruneGridNode keep) (elements (field v ''data''))) = Some l'"
    by (rule prune_children [OF _ v(2)]) (use prune_leafByID [OF _ _ assms(4)] v(1) in blast)
  then show ?thesis by (auto simp: pruneGridRoot_def Let_def)
qed

lemma shows_panel_sanitized:
  assumes "shows_panel i l" and "i \<in> set keep"
  shows "\<exists>l'. sanitizeLeaf l keep = Some l' \<and> shows_panel i l'"
proof -
  obtain s views where l: "as_string (field l ''id'') = Some s" "string_list (field l ''views'') = Some views" "i \<in> set views"
    "field l ''activeView'' = Some (JStr i)" using assms(1) by (auto simp: shows_panel_def)
  then have k: "i \<in> set (filter (\<lambda>i. i \<in> set keep) views)" using assms(2) by simp
  then have "filter (\<lambda>i. i \<in> set keep) views \<noteq> []" by (metis empty_iff list.set(1))
  then have "sanitizeLeaf l keep \<noteq> None" using l(1,2) by (simp add: sanitizeLeaf_def Let_def)
  then obtain l' where l': "sanitizeLeaf l keep = Some l'" by blast
  from sanitizeLeaf_shape [OF l' l(2) refl] l(1,4) k have "shows_panel i l'" by (auto simp: shows_panel_def)
  with l' show ?thesis by blast
qed

subsection \<open>The focused panel\<close>

text \<open>A dock whose active group shows the panel, and which has the panel under its id.\<close>

definition focuses :: "panel \<Rightarrow> json \<Rightarrow> bool" where
  "focuses p d \<longleftrightarrow> has_grid d \<and>
     (\<exists>g r l s. field d ''activeGroup'' = Some (JStr g) \<and> grid_root d = Some r \<and> leafByID r g = Some l \<and>
        shows_panel (panelID p) l \<and> map_of (entries (field d ''panels'')) (panelID p) = Some s \<and>
        panel_of (panelID p) s = Some p)"

lemma focuses_active: "focuses p d \<Longrightarrow> activePanelInDock (Some d) = Some p"
  by (auto simp: focuses_def activePanelInDock_def shows_panel_def panel_of_def Let_def split: if_splits option.splits)

lemma focuses_panel: "focuses p d \<Longrightarrow> has_panel (Some d) (panelID p)"
  by (auto simp: focuses_def has_panel_def dest!: map_of_SomeD intro: image_eqI [rotated])

lemma panel_of_serialized: "panel_ok p \<Longrightarrow> panel_of (panelID p) (serialized_panel p) = Some p"
  by (simp add: panel_of_def serialized_panel_def panelParams_json)

lemma json_clone_panel [simp]: "json_clone (panel_json p) = panel_json p"
  by (cases p) (auto split: option.splits)

lemma json_clone_serialized [simp]: "json_clone (serialized_panel p) = serialized_panel p"
  by (simp add: serialized_panel_def)

text \<open>Cloning keeps what the grid's functions see.\<close>

lemma map_of_clone: "map_of (map (\<lambda>(k, v). (k, json_clone v)) kvs) k = map_option json_clone (map_of kvs k)"
  by (induction kvs) auto

lemma field_clone: "field (json_clone v) k = map_option json_clone (field v k)"
  by (cases v) (simp_all add: map_of_clone)

lemma clone_string [simp]: "json_clone v = JStr s \<longleftrightarrow> v = JStr s"
  by (cases v) auto

lemma as_string_clone [simp]: "as_string (map_option json_clone v) = as_string v"
proof (cases v)
  case (Some x)
  then show ?thesis by (cases x) simp_all
qed simp

lemma elements_clone: "elements (map_option json_clone v) = map json_clone (elements v)"
proof (cases v)
  case (Some x)
  then show ?thesis by (cases x) (simp_all add: elements_def)
qed (simp add: elements_def)

lemma entries_clone: "entries (map_option json_clone v) = map (\<lambda>(k, v). (k, json_clone v)) (entries v)"
proof (cases v)
  case (Some x)
  then show ?thesis by (cases x) (simp_all add: entries_def)
qed (simp add: entries_def)

lemma json_strings_clone [simp]: "json_strings (map json_clone xs) = json_strings xs"
proof (induction xs)
  case (Cons x xs)
  then show ?case by (cases x) simp_all
qed simp

lemma string_list_clone [simp]: "string_list (map_option json_clone v) = string_list v"
proof (cases v)
  case (Some x)
  then show ?thesis by (cases x) (simp_all add: string_list_def as_strings_def)
qed (simp add: string_list_def)

lemma map_option_string: "map_option json_clone v = Some (JStr s) \<longleftrightarrow> v = Some (JStr s)"
  by (cases v) simp_all

lemma leaf_id_clone [simp]: "leaf_id (json_clone v) = leaf_id v"
  by (cases "field v ''data''") (simp_all add: leaf_id_def field_clone)

lemma first_some_map: "first_some h (map f xs) = first_some (\<lambda>x. h (f x)) xs"
  by (induction xs) (auto split: option.split)

lemma first_some_map_option:
  "\<forall>x \<in> set xs. h' x = map_option f (h x) \<Longrightarrow> first_some h' xs = map_option f (first_some h xs)"
  by (induction xs) (auto split: option.split)

lemma leafByID_clone: "leafByID (json_clone v) g = map_option json_clone (leafByID v g)"
proof (induction v g rule: leafByID.induct)
  case (1 v g)
  show ?case
  proof (cases "field v ''type'' = Some (JStr ''leaf'')")
    case True
    then show ?thesis by (simp add: leafByID.simps [of "json_clone v"] leafByID.simps [of v] field_clone)
  next
    case False
    then have t: "field (json_clone v) ''type'' \<noteq> Some (JStr ''leaf'')" by (simp add: field_clone map_option_string)
    have "first_some (\<lambda>c. leafByID (json_clone c) g) (elements (field v ''data'')) =
        map_option json_clone (first_some (\<lambda>c. leafByID c g) (elements (field v ''data'')))"
      by (rule first_some_map_option) (use 1 False in blast)
    with False t show ?thesis
      by (simp add: leafByID.simps [of "json_clone v"] leafByID.simps [of v] field_clone elements_clone first_some_map)
  qed
qed

lemma shows_panel_clone [simp]: "shows_panel i (json_clone l) = shows_panel i l"
  by (simp add: shows_panel_def field_clone map_option_string)

lemma grid_root_clone: "grid_root (json_clone d) = map_option json_clone (grid_root d)"
  by (cases "field d ''grid''") (simp_all add: grid_root_def field_clone)

lemma has_grid_clone: "has_grid d \<Longrightarrow> has_grid (json_clone d)"
  by (auto simp: has_grid_iff field_clone grid_root_clone)

lemma map_of_canonical:
  "map_of es i = Some s \<Longrightarrow> canonicalSerializedPanel i s = Some c \<Longrightarrow>
     map_of (List.map_filter canonical_entry es) i = Some c"
  by (induction es) (auto simp: List.map_filter_simps canonical_entry_def split: option.split if_splits)

lemma canonical_entry_of:
  assumes "map_of es i = Some s" and "panel_of i s = Some p"
  shows "\<exists>c. map_of (List.map_filter canonical_entry es) i = Some c \<and> panel_of i c = Some p"
proof -
  have "canonicalSerializedPanel i s = Some (set_field ''params'' (panel_json p) s)"
    using assms(2) by (simp add: canonicalSerializedPanel_def)
  from map_of_canonical [OF assms(1) this] panel_of_canonical [OF assms(2)] show ?thesis by blast
qed

lemma persistable_focuses:
  assumes f: "focuses p d" and e: "map_of (entries (field d ''panels'')) (panelID p) = Some s" "json_clone s = s"
    and pd: "persistableDockLayout d = Some dock"
  shows "focuses p dock \<and> validDock dock"
proof -
  have dock: "dock = set_field ''panels'' (JObj (List.map_filter canonical_entry (entries (field (json_clone d) ''panels''))))
      (fold del_field transient_fields (json_clone d))" and valid: "validDock dock"
    using pd by (auto simp: persistableDockLayout_def Let_def split: if_splits)
  obtain g r l where d: "field d ''activeGroup'' = Some (JStr g)" "grid_root d = Some r" "leafByID r g = Some l"
    "shows_panel (panelID p) l" "panel_of (panelID p) s = Some p" "has_grid d"
    using f e(1) by (auto simp: focuses_def)
  note gr = has_grid_clone [OF d(6)]
  have "map_of (entries (field (json_clone d) ''panels'')) (panelID p) = Some s"
    using e by (simp add: field_clone entries_clone map_of_clone)
  from canonical_entry_of [OF this d(5)] obtain c where
    c: "map_of (List.map_filter canonical_entry (entries (field (json_clone d) ''panels''))) (panelID p) = Some c"
      "panel_of (panelID p) c = Some p" by blast
  have "grid_root dock = Some (json_clone r)"
    using d(2) set_panels_fields(2) [of "fold del_field transient_fields (json_clone d)"] gr
    by (simp add: dock grid_root_clone)
  moreover have "has_grid dock" using gr by (simp add: dock set_panels_fields(1))
  moreover have "is_record (json_clone d)" using has_grid_record [OF gr] .
  then have "field dock ''panels'' = Some (JObj (List.map_filter canonical_entry (entries (field (json_clone d) ''panels''))))"
    "field dock ''activeGroup'' = Some (JStr g)"
    using d(1) gr has_grid_record [of "fold del_field transient_fields (json_clone d)"]
    by (simp_all add: dock field_clone)
  moreover have "leafByID (json_clone r) g = Some (json_clone l)" using d(3) by (simp add: leafByID_clone)
  ultimately show ?thesis using c d(4) valid unfolding focuses_def by auto
qed

text \<open>A group of a valid grid that shows a panel has it among the tabs.\<close>

lemma first_some_Some: "first_some f xs = Some y \<Longrightarrow> \<exists>x \<in> set xs. f x = Some y"
  by (induction xs) (auto split: option.splits)

lemma shown_in_tabs:
  "leafByID v g = Some l \<Longrightarrow> shows_panel i l \<Longrightarrow> validGridNode v panelIDs \<Longrightarrow> i \<in> set (tabs v)"
proof (induction v g rule: leafByID.induct)
  case (1 v g)
  show ?case
  proof (cases "field v ''type'' = Some (JStr ''leaf'')")
    case True
    then have "field v ''data'' = Some l" using "1.prems"(1) by (auto simp: leafByID.simps [of v] split: if_splits)
    with True "1.prems"(2) show ?thesis by (auto simp: tabs.simps [of v] group_tabs_def shows_panel_def)
  next
    case False
    then obtain c where c: "c \<in> set (elements (field v ''data''))" "leafByID c g = Some l"
      using "1.prems"(1) first_some_Some [of "\<lambda>child. leafByID child g"] by (auto simp: leafByID.simps [of v])
    have b: "field v ''type'' = Some (JStr ''branch'')" "validGridNode c panelIDs"
      using "1.prems"(3) False c(1) by (auto simp: validGridNode.simps [of v] split: if_splits)
    with "1.IH" [OF False c(1) c(2) "1.prems"(2)] c(1) show ?thesis by (auto simp: tabs.simps [of v])
  qed
qed

text \<open>A valid dock has no retired panels, so repairing it starts from it.\<close>

lemma panel_json_not_screen: "panelParams v = Some p \<Longrightarrow> legacyScreenPanelParams v = None"
  by (auto simp: panelParams_def legacyScreenPanelParams_def kind_named_def as_string_Some split: option.splits if_splits)

lemma valid_not_migrated:
  assumes "validDock d"
  shows "migrateRetiredPanels d = d"
proof -
  have "legacy_params s = None" if "(i, s) \<in> set (entries (field d ''panels''))" for i s
  proof -
    have "panel_of i s \<noteq> None" using assms that by (auto simp: validDock_iff list_all_iff)
    then show ?thesis
      by (auto simp: panel_of_def legacy_params_def bind_eq_Some_conv panel_json_not_screen split: if_splits option.splits)
  qed
  then have "retired_panels d = []" by (auto simp: retired_panels_def filter_empty_conv)
  then show ?thesis by (simp add: migrateRetiredPanels_def)
qed

lemma sanitize_focuses:
  assumes f: "focuses p d" and v: "validDock d"
  shows "\<exists>res d'. sanitizeStoredDock (Some d) = Some res \<and> sd_dock res = Some d' \<and> focuses p d'"
proof -
  obtain g r0 l s where d: "field d ''activeGroup'' = Some (JStr g)" "grid_root d = Some r0" "leafByID r0 g = Some l"
    "shows_panel (panelID p) l" "map_of (entries (field d ''panels'')) (panelID p) = Some s"
    "panel_of (panelID p) s = Some p" "has_grid d"
    using f by (auto simp: focuses_def)
  have r0: "field r0 ''type'' = Some (JStr ''branch'')" "validGridNode r0 (keys (entries (field d ''panels'')))"
    using v d(2) by (simp_all add: validDock_iff)
  obtain c where c: "map_of (readable_panels d) (panelID p) = Some c" "panel_of (panelID p) c = Some p"
    using canonical_entry_of [OF d(5,6)] by (auto simp: readable_panels_def)
  then have "panelID p \<in> set (keys (readable_panels d))" by (metis get_None_keys option.distinct(1))
  from shows_panel_sanitized [OF d(4) this] obtain l' where
    l': "sanitizeLeaf l (keys (readable_panels d)) = Some l'" "shows_panel (panelID p) l'" by blast
  obtain r where r: "pruneGridRoot r0 (keys (readable_panels d)) = Some r" "leafByID r g = Some l'"
    using pruneGridRoot_leafByID [OF r0(2,1) d(3) l'(1)] by blast
  obtain res where res: "sanitizeStoredDock (Some d) = Some res"
    "dock_tabs (sd_dock res) = filter (\<lambda>i. i \<in> set (keys (readable_panels d))) (tabs r0)"
    "\<forall>d'. sd_dock res = Some d' \<longrightarrow> validDock d' \<and> entries (field d' ''panels'') = readable_panels d \<and>
      (\<exists>r. pruneGridRoot r0 (keys (readable_panels d)) = Some r \<and> grid_root d' = Some r \<and>
         field d' ''activeGroup'' = map_option JStr (active_group d r))"
    using sanitize_outcome [OF has_grid_record [OF d(7)] valid_not_migrated [OF v] d(7,2) r0(1) valid_no_throw [OF v]] by blast
  obtain d' where d': "sd_dock res = Some d'"
  proof (cases "sd_dock res")
    case None
    have "tabs r = []" using pruneGridRoot_tabs [OF r0(1), of "keys (readable_panels d)"] r(1) res(2) None
      by (simp add: dock_tabs_def)
    moreover have "panelID p \<in> set (tabs r)"
      using shown_in_tabs [OF r(2) l'(2)] pruneGridRoot_valid [OF r(1) subset_refl] by blast
    ultimately show ?thesis by simp
  qed
  have "g \<in> set (groupIDs r)" using r(2) leafByID_groupIDs [of r g] by auto
  then have "active_group d r = Some g" using d(1) by (simp add: active_group_def)
  with res(3) d' r c l'(2) have "focuses p d'" by (auto simp: focuses_def validDock_iff)
  with res(1) d' show ?thesis by blast
qed

subsection \<open>Sending\<close>

lemma fresh_dock_focuses:
  assumes "panel_ok p"
  shows "focuses p (fresh_dock sid p)"
    and "map_of (entries (field (fresh_dock sid p) ''panels'')) (panelID p) = Some (serialized_panel p)"
proof -
  define g where "g = ''space-'' @ encodeURIComponent sid @ ''-main''"
  define l where "l = JObj [(''id'', JStr g), (''views'', JArr [JStr (panelID p)]), (''activeView'', JStr (panelID p))]"
  define leaf where "leaf = JObj [(''type'', JStr ''leaf''), (''data'', l)]"
  define r where "r = JObj [(''type'', JStr ''branch''), (''data'', JArr [leaf])]"
  have f: "fresh_dock sid p = JObj [(''grid'', JObj [(''root'', r)]), (''panels'', JObj [(panelID p, serialized_panel p)]),
      (''activeGroup'', JStr g)]"
    by (simp add: fresh_dock_def r_def leaf_def l_def g_def Let_def)
  have "field leaf ''type'' = Some (JStr ''leaf'')" "field leaf ''data'' = Some l" "leaf_id leaf = Some g"
    by (simp_all add: leaf_def leaf_id_def l_def)
  then have "leafByID leaf g = Some l" by (subst leafByID.simps) simp
  moreover have "field r ''type'' = Some (JStr ''branch'')" "elements (field r ''data'') = [leaf]"
    by (simp_all add: r_def)
  ultimately have "leafByID r g = Some l" by (subst leafByID.simps) simp
  moreover have "shows_panel (panelID p) l" by (simp add: shows_panel_def l_def string_list_def as_strings_def)
  moreover have "has_grid (fresh_dock sid p)" "grid_root (fresh_dock sid p) = Some r"
    by (simp_all add: f has_grid_iff grid_root_def) (simp add: r_def)
  ultimately show "focuses p (fresh_dock sid p)"
    using panel_of_serialized [OF assms] by (simp add: focuses_def f)
  show "map_of (entries (field (fresh_dock sid p) ''panels'')) (panelID p) = Some (serialized_panel p)" by (simp add: f)
qed

lemma dock_with_panel_focuses:
  assumes "panel_ok p" and d: "has_grid d" and s: "dock_with_panel p d = Some d'"
  shows "focuses p d'" and "map_of (entries (field d' ''panels'')) (panelID p) = Some (serialized_panel p)"
proof -
  obtain r g r' where r: "grid_root d = Some r" "nonempty (active_group d r) = Some g"
    "activatePanelInGrid r g (panelID p) = (r', True)"
    and d': "d' = set_field ''activeGroup'' (JStr g) (with_root r' (set_field ''panels''
        (set_field (panelID p) (serialized_panel p) (or_else (field d ''panels'') (JObj []))) d))"
    using s by (auto simp: dock_with_panel_def split: option.splits prod.splits bool.splits)
  obtain ps where ps: "field d ''panels'' = Some (JObj ps)" and rec: "is_record r"
    using d r(1) by (auto simp: has_grid_iff)
  note a = activate_spec [OF r(3)]
  define d1 where "d1 = set_field ''panels'' (JObj (put (panelID p) (serialized_panel p) ps)) d"
  have d1: "has_grid d1" unfolding d1_def by (rule set_panels_fields(1) [OF d])
  note w = with_root_fields [OF d1, of r']
  have d'': "d' = set_field ''activeGroup'' (JStr g) (with_root r' d1)" using ps by (simp add: d' d1_def)
  have rec': "is_record r'" using a rec by simp
  have f: "field d' ''activeGroup'' = Some (JStr g)" "field d' ''panels'' = Some (JObj (put (panelID p) (serialized_panel p) ps))"
    using w(3) [OF rec'] has_grid_record [OF w(2) [OF rec']] has_grid_record [OF d] by (simp_all add: d'' d1_def)
  have same: "grid_root d' = Some r'" "has_grid d'"
    using grid_fields_only [of d' "with_root r' d1"] w(1,2) [OF rec'] by (simp_all add: d'')
  show e: "map_of (entries (field d' ''panels'')) (panelID p) = Some (serialized_panel p)"
    by (simp add: f get_put)
  show "focuses p d'"
    using f(1) same a e panel_of_serialized [OF assms(1)] by (auto simp: focuses_def)
qed

text \<open>The keys of a space's layouts are different.\<close>

lemma layout_keys:
  "spaceLayoutKey sid \<noteq> spaceLayoutBackupKey sid'" "spaceLayoutKey sid \<noteq> spaceLayoutRecoveryKey sid'"
  "spaceLayoutBackupKey sid \<noteq> spaceLayoutRecoveryKey sid'"
  by (simp_all add: spaceLayoutKey_def spaceLayoutBackupKey_def spaceLayoutRecoveryKey_def spaceLayoutPrefix_def
      spaceLayoutBackupPrefix_def spaceLayoutRecoveryPrefix_def)

lemma preserve_corrupt_other:
  "k \<noteq> spaceLayoutRecoveryKey sid \<Longrightarrow> get (items (preserve_corrupt t sid a b st)) k = get (items st) k"
  by (auto simp: preserve_corrupt_def setItem_other split: option.split)

lemma readable_preserve_corrupt: "readable (preserve_corrupt t sid a b st) = readable st"
  by (simp add: preserve_corrupt_def split: option.split)

lemma preserve_corrupt_reliable:
  "reliable st \<Longrightarrow> reliable (preserve_corrupt t sid a b st)"
  by (simp add: preserve_corrupt_def reliable_def split: option.split)

text \<open>A read depends on the two copies only, and keeps them.\<close>

lemma read_space_layout:
  assumes "readable st"
  shows "\<exists>st'. readStoredSpaceLayout t w sid st =
      Some (choose_layout (\<lambda>p. sd_dock p \<noteq> None) sd_salvaged sd_dock (get (items st) (spaceLayoutKey sid))
        (get (items st) (spaceLayoutBackupKey sid)) (parseStoredSpaceLayout (get (items st) (spaceLayoutKey sid)))
        (parseStoredSpaceLayout (get (items st) (spaceLayoutBackupKey sid))), st') \<and>
    (\<forall>k. k \<noteq> spaceLayoutRecoveryKey sid \<longrightarrow> get (items st') k = get (items st) k) \<and>
    (reliable st \<longrightarrow> reliable st') \<and> readable st'"
  using assms preserve_corrupt_other [of _ sid t] preserve_corrupt_reliable [of st t sid]
    readable_preserve_corrupt [of t sid]
  by (simp add: readStoredSpaceLayout_def Let_def)

lemma sent_text_focuses:
  assumes "focuses p dock" and "validDock dock"
  shows "\<exists>res d. parseStoredSpaceLayout (Some (Json (JObj [(''version'', JNum 4), (''dock'', dock)]))) = Some res \<and>
    sd_dock res = Some d \<and> focuses p d"
  using sanitize_focuses [OF assms] by (simp add: parseStoredSpaceLayout_def)

lemma stored_active:
  assumes "readable st" and "parseStoredSpaceLayout (get (items st) (spaceLayoutKey sid)) = Some res"
    and "sd_dock res = Some d"
  shows "storedSpaceActivePanel st sid = activePanelInDock (Some d)"
  using read_space_layout [OF assms(1), of 0 False sid] assms(2,3)
  by (auto simp: storedSpaceActivePanel_def choose_layout_def usable_def Let_def)

lemma write_reliable:
  assumes "reliable st" and "writeStoredSpaceLayout sid raw state st = (ok, state', st')"
  shows "reliable st'" and "get (items st') (spaceLayoutKey sid) = Some raw"
  using assms by (auto simp: writeStoredSpaceLayout_def write_last_good_def reliable_def get_put split: if_splits)

text \<open>What a stored space answers is a dock with a grid.\<close>

lemma sanitized_valid:
  assumes "sanitizeStoredDock x = Some res" and "sd_dock res = Some d"
  shows "validDock d"
  using assms by (auto simp: sanitizeStoredDock_def Let_def split: option.splits json.splits if_splits)

lemma parsed_valid: "parseStoredSpaceLayout raw = Some res \<Longrightarrow> sd_dock res = Some d \<Longrightarrow> validDock d"
  by (auto simp: parseStoredSpaceLayout_def sanitized_valid split: option.splits if_splits)

lemma stored_valid:
  assumes "lr_stored (choose_layout (\<lambda>p. sd_dock p \<noteq> None) sd_salvaged sd_dock a b
      (parseStoredSpaceLayout a') (parseStoredSpaceLayout b')) = Some (Some d)"
  shows "validDock d"
  using assms parsed_valid by (auto simp: choose_layout_def Let_def split: option.splits if_splits)

end
