(* ===== verification/DockClaims.thy ===== *)
theory DockClaims
  imports DockSend
begin

section \<open>Layouts: repair, sending, last good copies\<close>

text \<open>
  The properties of \<^verbatim>\<open>features/layout/dockLayout.ts\<close>: what the repair of a stored dock answers, what
  sending a panel to a stored space achieves, and that a layout that reads is not lost by writing.
\<close>

subsection \<open>Repair\<close>

text \<open>
  C13. A stored dock is repaired, not refused: every value with panels and a grid whose root is a branch
  reads, whatever else it holds (unless validating one of its panels throws, see \<open>panelParams_throws\<close>), and
  what it reads as is valid. If it has no panels of a retired kind, the
  result has exactly the panels that validate, and its tabs are the tabs of these panels in the order they
  were stored in; nothing that can be read is dropped.
\<close>

theorem dock_is_repaired:
  assumes "has_grid v" and "grid_root v = Some r" and "field r ''type'' = Some (JStr ''branch'')"
    and "\<not> list_ex entry_throws (entries (field v ''panels''))"
  shows "\<exists>res. sanitizeStoredDock (Some v) = Some res \<and> (\<forall>d. sd_dock res = Some d \<longrightarrow> validDock d) \<and>
    (retired_panels v = [] \<longrightarrow>
       dock_tabs (sd_dock res) = filter (\<lambda>i. i \<in> set (keys (readable_panels v))) (tabs r) \<and>
       (\<forall>d. sd_dock res = Some d \<longrightarrow> entries (field d ''panels'') = readable_panels v))"
proof -
  obtain r' where r': "has_grid (migrateRetiredPanels v)" "grid_root (migrateRetiredPanels v) = Some r'"
    "field r' ''type'' = Some (JStr ''branch'')"
    using migrate_grid [OF assms(1-3)] by blast
  have m: "migrateRetiredPanels v = v" if "retired_panels v = []" using that by (simp add: migrateRetiredPanels_def)
  then have same: "migrateRetiredPanels v = v \<and> r' = r" if "retired_panels v = []"
    using that r'(2) assms(2) by simp
  obtain res where res: "sanitizeStoredDock (Some v) = Some res"
    "dock_tabs (sd_dock res) = filter (\<lambda>i. i \<in> set (keys (readable_panels (migrateRetiredPanels v)))) (tabs r')"
    "\<forall>d. sd_dock res = Some d \<longrightarrow> validDock d \<and> entries (field d ''panels'') = readable_panels (migrateRetiredPanels v)"
    using sanitize_outcome [OF has_grid_record [OF assms(1)] refl r' migrate_no_throw [OF assms(1,4)]] by blast
  show ?thesis
    by (rule exI [of _ res]) (use res same in auto)
qed

text \<open>Two groups, one with a panel that does not validate.\<close>

definition sample_dock :: json where
  "sample_dock = JObj
     [(''grid'', JObj [(''root'', JObj [(''type'', JStr ''branch''), (''data'', JArr
        [JObj [(''type'', JStr ''leaf''), (''data'', JObj [(''id'', JStr ''1''), (''views'', strings_json [''agent:a'', ''x''])])],
         JObj [(''type'', JStr ''leaf''), (''data'', JObj [(''id'', JStr ''2''), (''views'', strings_json [''x''])])]])])]),
      (''panels'', JObj [(''agent:a'', serialized_panel (AgentPanel \<lparr>ap_name = ''a'', ap_preview = True\<rparr>)),
                         (''x'', JNull)])]"

theorem dock_is_repaired_witness:
  "\<exists>res. sanitizeStoredDock (Some sample_dock) = Some res"
proof -
  have "has_grid sample_dock" by (simp add: sample_dock_def has_grid_iff grid_root_def)
  moreover obtain r where "grid_root sample_dock = Some r" "field r ''type'' = Some (JStr ''branch'')"
    by (simp add: sample_dock_def grid_root_def)
  moreover have "\<not> list_ex entry_throws (entries (field sample_dock ''panels''))"
    by (simp add: sample_dock_def serialized_panel_def entry_throws_def panelParams_throws_def prototype_names_def)
  ultimately show ?thesis using dock_is_repaired by blast
qed

text \<open>
  One panel whose kind is the name of an inherited property makes the whole layout unreadable, the panels
  beside it included.
\<close>

lemma inherited_kind_refuses_layout:
  "sanitizeStoredDock (Some (JObj
     [(''grid'', JObj [(''root'', JObj [(''type'', JStr ''branch''), (''data'', JArr
        [JObj [(''type'', JStr ''leaf''), (''data'', JObj [(''id'', JStr ''1''), (''views'', strings_json [''agent:a'', ''x''])])]])])]),
      (''panels'', JObj [(''agent:a'', serialized_panel (AgentPanel \<lparr>ap_name = ''a'', ap_preview = True\<rparr>)),
        (''x'', JObj [(''id'', JStr ''x''), (''params'', JObj [(''kind'', JStr ''constructor''), (''preview'', JBool True)])])])])) = None"
  by (simp add: sanitizeStoredDock_def migrateRetiredPanels_def retired_panels_def legacy_params_def serialized_panel_def
      legacyScreenPanelParams_def has_grid_def object_at_def grid_root_def entry_throws_def panelParams_throws_def
      prototype_names_def)

subsection \<open>Sending\<close>

lemma canonical_serialized:
  assumes "panel_ok p"
  shows "canonicalSerializedPanel (panelID p) (serialized_panel p) = Some (serialized_panel p)"
proof -
  have "set_field ''params'' (panel_json p) (serialized_panel p) = serialized_panel p"
    by (simp add: serialized_panel_def)
  then show ?thesis using panel_of_serialized [OF assms] by (simp add: canonicalSerializedPanel_def)
qed

lemma sanitize_fresh_leaf:
  "sanitizeLeaf (JObj [(''id'', JStr g), (''views'', JArr [JStr i]), (''activeView'', JStr i)]) [i] =
     Some (JObj [(''id'', JStr g), (''views'', JArr [JStr i]), (''activeView'', JStr i)])"
  by (simp add: sanitizeLeaf_def string_list_def as_strings_def strings_json_def)

definition fresh_root :: "string \<Rightarrow> string \<Rightarrow> json" where
  "fresh_root g i = JObj [(''type'', JStr ''branch''), (''data'', JArr
     [JObj [(''type'', JStr ''leaf''), (''data'', JObj [(''id'', JStr g), (''views'', JArr [JStr i]), (''activeView'', JStr i)])]])]"

lemma prune_fresh_root: "pruneGridRoot (fresh_root g i) [i] = Some (fresh_root g i)"
  by (simp add: pruneGridRoot_def fresh_root_def pruneGridNode.simps sanitize_fresh_leaf grid_leaf_def grid_branch_def
      node_frame_def List.map_filter_simps)

definition fresh_group :: "string \<Rightarrow> string" where
  "fresh_group sid = ''space-'' @ encodeURIComponent sid @ ''-main''"

lemma fresh_dock_shape:
  "fresh_dock sid p = JObj [(''grid'', JObj [(''root'', fresh_root (fresh_group sid) (panelID p))]),
     (''panels'', JObj [(panelID p, serialized_panel p)]), (''activeGroup'', JStr (fresh_group sid))]"
  by (simp add: fresh_dock_def fresh_root_def fresh_group_def Let_def)

lemma groupIDs_fresh: "groupIDs (fresh_root g i) = [g]"
  by (simp add: groupIDs.simps fresh_root_def leaf_id_def)

lemma fresh_dock_valid:
  assumes "panel_ok p"
  shows "validDock (fresh_dock sid p)"
proof -
  have "validGridNode (fresh_root (fresh_group sid) (panelID p)) [panelID p]"
    by (rule pruneGridRoot_valid [OF prune_fresh_root, THEN conjunct1]) simp
  moreover have "has_grid (fresh_dock sid p)" using fresh_dock_focuses(1) [OF assms] by (simp add: focuses_def)
  ultimately show ?thesis
    using panel_of_serialized [OF assms]
    by (simp add: validDock_iff fresh_dock_shape grid_root_def has_field_def) (simp add: fresh_root_def)
qed

lemma fresh_dock_persistable: "panel_ok p \<Longrightarrow> persistableDockLayout (fresh_dock sid p) = Some (fresh_dock sid p)"
proof -
  assume p: "panel_ok p"
  have c: "json_clone (fresh_dock sid p) = fresh_dock sid p" by (simp add: fresh_dock_shape fresh_root_def)
  have t: "fold del_field transient_fields (fresh_dock sid p) = fresh_dock sid p"
    by (simp add: fresh_dock_shape transient_fields_def)
  have "object_at (fresh_dock sid p) ''panels''" "object_at (fresh_dock sid p) ''grid''"
    by (simp_all add: fresh_dock_shape object_at_def)
  moreover have "set_field ''panels'' (JObj (List.map_filter canonical_entry (entries (field (fresh_dock sid p) ''panels''))))
      (fresh_dock sid p) = fresh_dock sid p"
    using canonical_serialized [OF p] by (simp add: fresh_dock_shape canonical_entry_def List.map_filter_simps)
  ultimately show ?thesis using fresh_dock_valid [OF p] valid_no_throw [OF fresh_dock_valid [OF p]]
    by (simp add: persistableDockLayout_def c t)
qed

lemma sanitize_some_record:
  assumes "is_record v" and "migrateRetiredPanels v = v" and "has_grid v" and "grid_root v = Some r0"
    and "field r0 ''type'' = Some (JStr ''branch'')" and "pruneGridRoot r0 (keys (readable_panels v)) = Some r"
    and "readable_panels v \<noteq> []" and "\<not> list_ex entry_throws (entries (field v ''panels''))"
  shows "sanitizeStoredDock (Some v) =
    (let g = active_group v r;
         dock = fold del_field transient_fields
           (with_active_group g (with_root r (set_field ''panels'' (JObj (readable_panels v)) v)))
     in if validDock dock
        then Some \<lparr>sd_dock = Some dock,
          sd_salvaged = (list_ex (has_field v) [''floatingGroups'', ''popoutGroups'', ''edgeGroups''] \<or>
            list_ex (\<lambda>e. case canonical_entry e of None \<Rightarrow> True | Some c \<Rightarrow> stringify (snd c) \<noteq> stringify (snd e))
              (entries (field v ''panels'')) \<or>
            stringify r \<noteq> stringify r0 \<or> map_option JStr g \<noteq> field v ''activeGroup'')\<rparr>
        else None)"
  using assms by (cases v) (simp_all add: sanitizeStoredDock_def Let_def)

lemma fresh_dock_read:
  assumes "panel_ok p"
  shows "sanitizeStoredDock (Some (fresh_dock sid p)) = Some \<lparr>sd_dock = Some (fresh_dock sid p), sd_salvaged = False\<rparr>"
proof -
  let ?d = "fresh_dock sid p"
  have m: "migrateRetiredPanels ?d = ?d" by (rule valid_not_migrated) (rule fresh_dock_valid [OF assms])
  have f: "is_record ?d" "has_grid ?d" "grid_root ?d = Some (fresh_root (fresh_group sid) (panelID p))"
    "field ?d ''panels'' = Some (JObj [(panelID p, serialized_panel p)])" "field ?d ''activeGroup'' = Some (JStr (fresh_group sid))"
    "\<not> has_field ?d ''floatingGroups''" "\<not> has_field ?d ''popoutGroups''" "\<not> has_field ?d ''edgeGroups''"
    using fresh_dock_focuses(1) [OF assms] by (simp_all add: focuses_def fresh_dock_shape grid_root_def has_field_def)
  have a: "active_group ?d (fresh_root (fresh_group sid) (panelID p)) = Some (fresh_group sid)"
    using f(5) by (simp add: active_group_def groupIDs_fresh)
  have e: "canonical_entry (panelID p, serialized_panel p) = Some (panelID p, serialized_panel p)"
    using canonical_serialized [OF assms] by (simp add: canonical_entry_def)
  have d: "fold del_field transient_fields (with_active_group (Some (fresh_group sid))
      (with_root (fresh_root (fresh_group sid) (panelID p)) (set_field ''panels'' (JObj [(panelID p, serialized_panel p)]) ?d))) = ?d"
    by (simp add: fresh_dock_shape with_active_group_def with_root_def transient_fields_def)
  have b: "field (fresh_root (fresh_group sid) (panelID p)) ''type'' = Some (JStr ''branch'')" by (simp add: fresh_root_def)
  have rp: "readable_panels ?d = [(panelID p, serialized_panel p)]"
    using f(4) e by (simp add: readable_panels_def List.map_filter_simps)
  have pr: "pruneGridRoot (fresh_root (fresh_group sid) (panelID p)) (keys (readable_panels ?d)) =
      Some (fresh_root (fresh_group sid) (panelID p))"
    using prune_fresh_root by (simp add: rp)
  show ?thesis
    using sanitize_some_record [OF f(1) m f(2,3) b pr _ valid_no_throw [OF fresh_dock_valid [OF assms]]] f(4-8) a e d fresh_dock_valid [OF assms, of sid]
    by (simp add: rp Let_def)
qed

lemma fresh_text_read:
  "panel_ok p \<Longrightarrow> parseStoredSpaceLayout (Some (Json (JObj [(''version'', JNum 4), (''dock'', fresh_dock sid p)]))) =
     Some \<lparr>sd_dock = Some (fresh_dock sid p), sd_salvaged = False\<rparr>"
  by (simp add: parseStoredSpaceLayout_def fresh_dock_read)

text \<open>What a successful send went through.\<close>

lemma send_outcome:
  assumes p: "panel_ok p" and st: "reliable st"
    and w: "writePanelToStoredSpace t sid p st = Some (Inr dup, st')"
  shows "reliable st' \<and> (\<exists>dock. focuses p dock \<and> validDock dock \<and>
     get (items st') (spaceLayoutKey sid) = Some (Json (JObj [(''version'', JNum 4), (''dock'', dock)])))"
proof -
  have "readable st" using st by (simp add: reliable_def)
  from read_space_layout [OF this, of t True sid] st obtain target st1 where
    r: "readStoredSpaceLayout t True sid st = Some (target, st1)" "reliable st1"
    and tgt: "lr_stored target = Some (Some d) \<Longrightarrow> validDock d" for d
    using stored_valid by blast
  define current where "current = or_else (lr_stored target) None"
  define candidate where "candidate = (case current of None \<Rightarrow> Some (fresh_dock sid p) | Some d \<Rightarrow> dock_with_panel p d)"
  obtain dock where dock: "Option.bind candidate persistableDockLayout = Some dock"
    using w r(1) by (auto simp: writePanelToStoredSpace_def candidate_def current_def Let_def split: if_splits option.splits)
  then obtain c where c: "candidate = Some c" "persistableDockLayout c = Some dock" by (auto simp: bind_eq_Some_conv)
  have fc: "focuses p c \<and> map_of (entries (field c ''panels'')) (panelID p) = Some (serialized_panel p)"
  proof (cases current)
    case None
    with c(1) fresh_dock_focuses [OF p] show ?thesis by (auto simp: candidate_def)
  next
    case (Some d)
    then have "lr_stored target = Some (Some d)" by (cases "lr_stored target") (auto simp: current_def)
    then have "has_grid d" using tgt validDock_iff by blast
    from dock_with_panel_focuses [OF p this] c(1) Some show ?thesis by (simp add: candidate_def)
  qed
  have f: "focuses p dock \<and> validDock dock"
    by (rule persistable_focuses [OF _ _ json_clone_serialized c(2)]) (use fc in simp_all)
  let ?raw = "Json (JObj [(''version'', JNum 4), (''dock'', dock)])"
  obtain ok state' st2 where wr: "writeStoredSpaceLayout sid ?raw
      \<lparr>ws_recovering = False, ws_lastGood = ws_lastGood (lr_state target)\<rparr> st1 = (ok, state', st2)"
    by (metis prod_cases3)
  note rel = write_reliable [OF r(2) wr]
  have "readable st2" using rel(1) by (simp add: reliable_def)
  from read_space_layout [OF this, of t True sid] rel(1) obtain verified st3 where
    v: "readStoredSpaceLayout t True sid st2 = Some (verified, st3)" "reliable st3"
      "\<forall>k. k \<noteq> spaceLayoutRecoveryKey sid \<longrightarrow> get (items st3) k = get (items st2) k" by blast
  have "st' = st3"
    using w r(1) dock wr v(1)
    by (auto simp: writePanelToStoredSpace_def candidate_def [symmetric] current_def [symmetric] Let_def
        split: if_splits)
  moreover have "get (items st3) (spaceLayoutKey sid) = Some ?raw"
    using v(3) rel(2) layout_keys(2) by metis
  ultimately show ?thesis using v(2) f by blast
qed

lemma choose_nothing:
  "choose_layout has_dock salvaged layout None None None None =
     \<lparr>lr_stored = None, lr_backup = None, lr_state = \<lparr>ws_recovering = False, ws_lastGood = None\<rparr>, lr_problem = False\<rparr>"
  by (simp add: choose_layout_def usable_def)

lemma choose_primary:
  "has_dock x \<Longrightarrow> \<not> salvaged x \<Longrightarrow> backup \<noteq> None \<Longrightarrow>
     lr_stored (choose_layout has_dock salvaged layout raw backupRaw (Some x) backup) = Some (layout x) \<and>
     \<not> ws_recovering (lr_state (choose_layout has_dock salvaged layout raw backupRaw (Some x) backup)) \<and>
     \<not> lr_problem (choose_layout has_dock salvaged layout raw backupRaw (Some x) backup)"
  by (simp add: choose_layout_def usable_def)

text \<open>A space with nothing stored gets the panel, as its only one.\<close>

lemma send_to_empty:
  assumes p: "panel_ok p" and st: "reliable st"
    and e: "get (items st) (spaceLayoutKey sid) = None" "get (items st) (spaceLayoutBackupKey sid) = None"
  shows "\<exists>st'. writePanelToStoredSpace t sid p st = Some (Inr False, st')"
proof -
  have none: "parseStoredSpaceLayout None = None" by (simp add: parseStoredSpaceLayout_def)
  have r: "readable st" "faults st = []" using st by (simp_all add: reliable_def)
  have read1: "readStoredSpaceLayout t True sid st = Some (\<lparr>lr_stored = None, lr_backup = None,
      lr_state = \<lparr>ws_recovering = False, ws_lastGood = None\<rparr>, lr_problem = False\<rparr>, st)"
    using r e by (simp add: readStoredSpaceLayout_def none choose_nothing)
  let ?raw = "Json (JObj [(''version'', JNum 4), (''dock'', fresh_dock sid p)])"
  let ?res = "\<lparr>sd_dock = Some (fresh_dock sid p), sd_salvaged = False\<rparr>"
  define st2 where "st2 = st\<lparr>items := put (spaceLayoutKey sid) ?raw (put (spaceLayoutBackupKey sid) ?raw (items st))\<rparr>"
  have wr: "writeStoredSpaceLayout sid ?raw \<lparr>ws_recovering = False, ws_lastGood = None\<rparr> st =
      (True, \<lparr>ws_recovering = False, ws_lastGood = Some ?raw\<rparr>, st2)"
    using r by (simp add: writeStoredSpaceLayout_def write_last_good_def st2_def)
  have two: "get (items st2) (spaceLayoutKey sid) = Some ?raw" "get (items st2) (spaceLayoutBackupKey sid) = Some ?raw"
    "readable st2"
    using layout_keys(1) [of sid sid] r by (simp_all add: st2_def get_put)
  obtain st3 where read2: "readStoredSpaceLayout t True sid st2 = Some (choose_layout (\<lambda>p. sd_dock p \<noteq> None) sd_salvaged sd_dock
      (Some ?raw) (Some ?raw) (Some ?res) (Some ?res), st3)"
    using read_space_layout [OF two(3), of t True sid] two fresh_text_read [OF p, of sid] by auto
  have "has_panel (Some (fresh_dock sid p)) (panelID p)" by (rule focuses_panel) (rule fresh_dock_focuses(1) [OF p])
  with choose_primary [of "\<lambda>p. sd_dock p \<noteq> None" ?res sd_salvaged "Some ?res" sd_dock "Some ?raw" "Some ?raw"]
  show ?thesis
    by (simp add: writePanelToStoredSpace_def read1 fresh_dock_persistable [OF p] wr read2 has_panel_def)
qed

text \<open>
  C12. A panel sent to another space is there, and in front: whenever sending succeeds, the space's stored
  layout, validated and repaired as a restore will do, has the panel as its focused panel; and sending a
  panel to a space with nothing stored succeeds.
\<close>

theorem sent_panel_is_focused:
  assumes "panel_ok p" and "reliable st"
  shows "(\<forall>dup st'. writePanelToStoredSpace t sid p st = Some (Inr dup, st') \<longrightarrow>
      storedSpaceActivePanel st' sid = Some p) \<and>
    (get (items st) (spaceLayoutKey sid) = None \<and> get (items st) (spaceLayoutBackupKey sid) = None \<longrightarrow>
      (\<exists>st'. writePanelToStoredSpace t sid p st = Some (Inr False, st')))"
proof -
  have "storedSpaceActivePanel st' sid = Some p"
    if w: "writePanelToStoredSpace t sid p st = Some (Inr dup, st')" for dup st'
  proof -
    obtain dock where d: "reliable st'" "focuses p dock" "validDock dock"
      "get (items st') (spaceLayoutKey sid) = Some (Json (JObj [(''version'', JNum 4), (''dock'', dock)]))"
      using send_outcome [OF assms w] by blast
    obtain res d' where r: "parseStoredSpaceLayout (get (items st') (spaceLayoutKey sid)) = Some res"
      "sd_dock res = Some d'" "focuses p d'"
      using sent_text_focuses [OF d(2,3)] unfolding d(4) by blast
    have "readable st'" using d(1) by (simp add: reliable_def)
    from stored_active [OF this r(1,2)] focuses_active [OF r(3)] show ?thesis by simp
  qed
  with send_to_empty [OF assms] show ?thesis by blast
qed

text \<open>Two agents, sent one after the other to the same space.\<close>

theorem sent_panel_is_focused_witness:
  "\<exists>st1. writePanelToStoredSpace 5 ''s1'' (AgentPanel \<lparr>ap_name = ''a'', ap_preview = False\<rparr>)
      \<lparr>items = [], readable = True, faults = []\<rparr> = Some (Inr False, st1) \<and>
    storedSpaceActivePanel st1 ''s1'' = Some (AgentPanel \<lparr>ap_name = ''a'', ap_preview = False\<rparr>)"
proof -
  let ?p = "AgentPanel \<lparr>ap_name = ''a'', ap_preview = False\<rparr>"
  let ?st = "\<lparr>items = [], readable = True, faults = []\<rparr>"
  have "panel_ok ?p" "reliable ?st" by (simp_all add: reliable_def)
  from sent_panel_is_focused [OF this, of 5 "''s1''"] show ?thesis by auto
qed

subsection \<open>Layouts survive\<close>

text \<open>The writers of a space's layout and of the workspace's keep the promise of the last good copies.\<close>

interpretation space_layout_copies:
  last_good_copies parseStoredSpaceLayout "spaceLayoutBackupKey sid" "spaceLayoutKey sid"
    "\<lambda>raw state st. snd (persistLayoutSnapshot (SpacesTarget sid) raw state st)" for sid
  by unfold_locales (simp add: persistLayoutSnapshot_def writeStoredSpaceLayout_def write_last_good_inv layout_keys(1))

interpretation workspace_layout_copies:
  last_good_copies parseStoredLayoutResult layoutStorageBackupKey layoutStorageKey
    "\<lambda>raw state st. snd (persistLayoutSnapshot LegacyTarget raw state st)"
  by unfold_locales
    (simp add: persistLayoutSnapshot_def writeStoredLayout_def write_last_good_inv layoutStorageKey_def
      layoutStorageBackupKey_def)

text \<open>The text of a dock that can be persisted reads.\<close>

definition layout_text :: "json \<Rightarrow> cell" where
  "layout_text dock = Json (JObj [(''version'', JNum 4), (''dock'', dock)])"

lemma persistable_valid: "persistableDockLayout v = Some d \<Longrightarrow> validDock d"
  by (auto simp: persistableDockLayout_def Let_def split: if_splits)

lemma layout_text_reads: "validDock d \<Longrightarrow> parseStoredSpaceLayout (Some (layout_text d)) \<noteq> None"
proof -
  assume d: "validDock d"
  then have g: "has_grid d" by (simp add: validDock_iff)
  then obtain r where r: "grid_root d = Some r" by (auto simp: has_grid_iff)
  have "field r ''type'' = Some (JStr ''branch'')" using d r by (simp add: validDock_iff)
  from sanitize_outcome [OF has_grid_record [OF g] valid_not_migrated [OF d] g r this valid_no_throw [OF d]] show ?thesis
    by (auto simp: layout_text_def parseStoredSpaceLayout_def)
qed

text \<open>
  A space's layout survives a browser that fails: once one of a space's two copies reads, any number of
  writes of docks that passed \<open>persistableDockLayout\<close>, each of their storage calls failing or not, leaves
  a copy that reads, so the space is never reset by an interrupted or refused write.
\<close>

lemma layouts_survive:
  assumes "readStoredSpaceLayout t w sid st = Some (r, st1)"
    and "good_copy parseStoredSpaceLayout (spaceLayoutBackupKey sid) (spaceLayoutKey sid) st"
    and "\<forall>d \<in> set docks. \<exists>v. persistableDockLayout v = Some d"
  shows "good_copy parseStoredSpaceLayout (spaceLayoutBackupKey sid) (spaceLayoutKey sid)
    (snd (write_texts (\<lambda>raw state st. snd (persistLayoutSnapshot (SpacesTarget sid) raw state st))
       (map layout_text docks) (lr_state r, st1)))"
proof -
  have readable: "readable st" using assms(1) by (auto simp: readStoredSpaceLayout_def getItem_def split: if_splits)
  then have "good_copy parseStoredSpaceLayout (spaceLayoutBackupKey sid) (spaceLayoutKey sid) st1"
    using assms(1,2) read_space_layout [of st t w sid] layout_keys(2,3) by (auto simp: good_copy_def)
  moreover have "\<forall>g. ws_lastGood (lr_state r) = Some g \<longrightarrow> parseStoredSpaceLayout (Some g) \<noteq> None"
    using assms(1) read_space_layout [OF readable, of t w sid] by (auto simp: choose_layout_def Let_def)
  moreover have "\<forall>raw \<in> set (map layout_text docks). parseStoredSpaceLayout (Some raw) \<noteq> None"
    using assms(3) persistable_valid layout_text_reads by auto
  ultimately show ?thesis by (rule space_layout_copies.writes_keep_good)
qed

text \<open>One layout stored, then a write whose backup succeeds and whose text is refused.\<close>

lemma layouts_survive_witness:
  "\<exists>r st1 p d. readStoredSpaceLayout 7 True ''s'' \<lparr>items = [(spaceLayoutKey ''s'', layout_text (fresh_dock ''s'' p))],
      readable = True, faults = [Done, Threw]\<rparr> = Some (r, st1) \<and>
    good_copy parseStoredSpaceLayout (spaceLayoutBackupKey ''s'') (spaceLayoutKey ''s'')
      (snd (write_texts (\<lambda>raw state st. snd (persistLayoutSnapshot (SpacesTarget ''s'') raw state st))
         [layout_text d] (lr_state r, st1)))"
proof -
  define p where "p = ChangesPanel \<lparr>cp_root = ''/a'', cp_preview = True\<rparr>"
  define st where "st = \<lparr>items = [(spaceLayoutKey ''s'', layout_text (fresh_dock ''s'' p))], readable = True, faults = [Done, Threw]\<rparr>"
  have p: "panel_ok p" by (simp add: p_def)
  have "readable st" by (simp add: st_def)
  then obtain r st1 where r: "readStoredSpaceLayout 7 True ''s'' st = Some (r, st1)" using read_space_layout by blast
  have "parseStoredSpaceLayout (Some (layout_text (fresh_dock ''s'' p))) \<noteq> None"
    by (rule layout_text_reads) (rule fresh_dock_valid [OF p])
  then have g: "good_copy parseStoredSpaceLayout (spaceLayoutBackupKey ''s'') (spaceLayoutKey ''s'') st"
    by (simp add: good_copy_def st_def)
  have "\<forall>d \<in> set [fresh_dock ''s'' p]. \<exists>v. persistableDockLayout v = Some d"
    using fresh_dock_persistable [OF p] by auto
  from layouts_survive [OF r g this] r show ?thesis unfolding st_def by auto
qed

end
