(* ===== verification/SpacesModel.thy ===== *)
theory SpacesModel
  imports SpacesStore DockClaims
begin

section \<open>The first load with spaces, the active space, closed layouts\<close>

text \<open>
  \<^verbatim>\<open>features/spaces/spacesModel.ts\<close>: the migration of the single layout of earlier versions to the
  space \<open>main\<close>, the choice of the active space, and the layout of a closed space, which is kept under
  its recovery key until the space is reopened or purged.
\<close>

definition mainSpaceID :: string where
  "mainSpaceID = ''main''"

definition activeSpaceSessionKey :: string where
  "activeSpaceSessionKey = ''herder.web.spaces.active.v1''"

definition lastActiveSpaceKey :: string where
  "lastActiveSpaceKey = ''herder.web.spaces.last-active.v1''"

definition migrationMarkerKey :: string where
  "migrationMarkerKey = ''herder.web.spaces.migration.v1''"

subsection \<open>Migration\<close>

record legacy_families =
  lf_stored :: "stored_layout option"
  lf_backup :: "stored_layout option"
  lf_legacy :: "legacy_layout option"
  lf_state :: write_state

definition no_families :: legacy_families where
  "no_families = \<lparr>lf_stored = None, lf_backup = None, lf_legacy = None,
     lf_state = \<lparr>ws_recovering = False, ws_lastGood = None\<rparr>\<rparr>"

datatype spaces_initialization = SpacesMode | LegacyMode legacy_families string

definition upgrading_layout :: string where
  "upgrading_layout = ''Spaces will be available after this browser finishes upgrading the saved layout. Your layout is still being saved.''"

definition spaces_unavailable :: string where
  "spaces_unavailable = ''Spaces are unavailable in this browser right now. Your current layout is still being saved.''"

definition readLegacyLayoutFamilies :: "storage \<Rightarrow> legacy_families option" where
  "readLegacyLayoutFamilies st =
     (case readStoredLayout st of
        None \<Rightarrow> None
      | Some layouts \<Rightarrow>
          let stored = (case lr_stored layouts of
                          None \<Rightarrow> parseStoredLayout (or_else (getItem st v2LayoutStorageKey) None)
                        | Some l \<Rightarrow> Some l)
          in Some \<lparr>lf_stored = stored, lf_backup = lr_backup layouts,
                   lf_legacy = (if stored = None then parseLegacyLayout (or_else (getItem st legacyLayoutStorageKey) None) else None),
                   lf_state = lr_state layouts\<rparr>)"

definition markerValid :: "cell option \<Rightarrow> bool" where
  "markerValid raw =
     (case parse_cell raw of
        None \<Rightarrow> False
      | Some v \<Rightarrow> field v ''version'' = Some (JNum 1) \<and> field v ''mainSpaceID'' = Some (JStr mainSpaceID))"

text \<open>A write that is read back; \<open>False\<close> when it threw or was not retained.\<close>

definition verifiedWrite :: "string \<Rightarrow> cell \<Rightarrow> storage \<Rightarrow> storage \<times> bool" where
  "verifiedWrite key raw st =
     (let (st1, ok) = setItem key raw st in (st1, ok \<and> getItem st1 key = Some (Some raw)))"

text \<open>Verified writes in order, up to the first that throws.\<close>

fun verifiedWrites :: "(string \<times> cell) list \<Rightarrow> storage \<Rightarrow> storage \<times> bool" where
  "verifiedWrites [] st = (st, True)"
| "verifiedWrites ((k, raw) # ws) st =
     (case verifiedWrite k raw st of (st1, ok) \<Rightarrow> if ok then verifiedWrites ws st1 else (st1, False))"

definition main_definition :: stored_space where
  "main_definition = \<lparr>writeID = ''migration-v1'',
     body = \<lparr>space_id = mainSpaceID, space_name = ''main'', space_order = 0, space_created = 0, space_updated = 0,
             space_deleted = False\<rparr>\<rparr>"

definition migration_shell :: "legacy_families \<Rightarrow> shell_preferences" where
  "migration_shell f =
     \<lparr>sh_rails = (case lf_stored f of
                    Some l \<Rightarrow> sl_rails l
                  | None \<Rightarrow> defaultRailPreferences (map_option lg_sidebarWidth (lf_legacy f))),
      sh_expanded = Option.bind (lf_stored f) sl_expanded, sh_workspaces = Option.bind (lf_stored f) sl_workspaces,
      sh_managers = None, sh_view = None, sh_collapsed = None\<rparr>"

definition migration_dock :: "legacy_families \<Rightarrow> cell" where
  "migration_dock f = layout_text (or_else (Option.bind (lf_stored f) sl_dock) JNull)"

definition marker_text :: cell where
  "marker_text = Json (JObj [(''version'', JNum 1), (''mainSpaceID'', JStr mainSpaceID)])"

definition migration_writes :: "legacy_families \<Rightarrow> storage \<Rightarrow> (string \<times> cell) list" where
  "migration_writes f st =
     (let definition_text = Json (stored_space_json main_definition);
          shell = Json (shell_json (migration_shell f))
      in (if truthy (get (items st) (spaceRecordKey mainSpaceID)) then []
          else [(spaceBackupKey mainSpaceID, definition_text), (spaceRecordKey mainSpaceID, definition_text)])
         @ [(spaceLayoutBackupKey mainSpaceID, migration_dock f), (spaceLayoutKey mainSpaceID, migration_dock f),
            (shellStorageBackupKey, shell), (shellStorageKey, shell), (migrationMarkerKey, marker_text)])"

definition initializeSpaces :: "storage \<Rightarrow> spaces_initialization \<times> storage" where
  "initializeSpaces st =
     (case readLegacyLayoutFamilies st of
        None \<Rightarrow> (LegacyMode no_families spaces_unavailable, st)
      | Some f \<Rightarrow>
          if markerValid (get (items st) migrationMarkerKey) then (SpacesMode, st)
          else if lf_stored f = None \<and> lf_legacy f \<noteq> None then (LegacyMode f upgrading_layout, st)
          else case verifiedWrites (migration_writes f st) st of
                 (st1, True) \<Rightarrow> (SpacesMode, st1)
               | (st1, False) \<Rightarrow> (LegacyMode (or_else (readLegacyLayoutFamilies st1) no_families) spaces_unavailable, st1))"

subsection \<open>The active space\<close>

record selection =
  sel_id :: "string option"
  sel_staleURL :: bool

definition selectActiveSpace ::
    "spaces_config \<Rightarrow> SpaceDefinition list \<Rightarrow> string option \<Rightarrow> string option \<Rightarrow> string option \<Rightarrow> selection" where
  "selectActiveSpace cfg spaces urlID sessionID lastActiveID =
     (let live = map space_id (sort_by (space_le cfg) (filter (\<lambda>s. \<not> space_deleted s) spaces));
          known = (\<lambda>i. case i of Some x \<Rightarrow> if x \<in> set live then Some x else None | None \<Rightarrow> None);
          url = known urlID
      in \<lparr>sel_id = first_some (\<lambda>x. x) [url, known sessionID, known lastActiveID, (if live = [] then None else Some (hd live))],
          sel_staleURL = (urlID \<noteq> None \<and> nonempty url = None)\<rparr>)"

fun cell_text :: "cell \<Rightarrow> string" where
  "cell_text (Plain s) = s"
| "cell_text (Json v) = stringify v"

definition readActiveSpace ::
    "spaces_config \<Rightarrow> SpaceDefinition list \<Rightarrow> string option \<Rightarrow> storage \<Rightarrow> storage \<Rightarrow> selection" where
  "readActiveSpace cfg spaces urlID session_storage local_storage =
     (case (getItem session_storage activeSpaceSessionKey, getItem local_storage lastActiveSpaceKey) of
        (Some s, Some l) \<Rightarrow> selectActiveSpace cfg spaces urlID (map_option cell_text s) (map_option cell_text l)
      | _ \<Rightarrow> selectActiveSpace cfg spaces urlID None None)"

text \<open>Answers whether both storages took it, and the two storages.\<close>

definition writeActiveSpace :: "string \<Rightarrow> storage \<Rightarrow> storage \<Rightarrow> bool \<times> storage \<times> storage" where
  "writeActiveSpace i session_storage local_storage =
     (let (s, ok1) = setItem activeSpaceSessionKey (Plain i) session_storage;
          (l, ok2) = setItem lastActiveSpaceKey (Plain i) local_storage
      in (ok1 \<and> ok2, s, l))"

subsection \<open>Closed layouts\<close>

text \<open>
  A recovery record keeps the two texts of a layout as strings. Reading one back needs \<open>JSON.parse\<close> of
  the inner text: \<open>parse_text\<close>, a parameter (\<open>None\<close> is its \<open>SyntaxError\<close>).
\<close>

definition text_cell :: "(string \<Rightarrow> json option) \<Rightarrow> string \<Rightarrow> cell" where
  "text_cell parse_text s = (case parse_text s of Some v \<Rightarrow> Json v | None \<Rightarrow> Plain s)"

record layout_recovery =
  rc_closed :: bool
  rc_primary :: "string option"
  rc_backup :: "string option"

definition nullable_string :: "json option \<Rightarrow> string option option" where
  "nullable_string v =
     (case v of Some JNull \<Rightarrow> Some None | Some (JStr s) \<Rightarrow> Some (Some s) | _ \<Rightarrow> None)"

definition parseRecovery :: "cell option \<Rightarrow> layout_recovery option" where
  "parseRecovery raw =
     (case parse_cell raw of
        None \<Rightarrow> None
      | Some v \<Rightarrow>
          if field v ''version'' \<noteq> Some (JNum 1) then None
          else (case (as_string (field v ''kind''), nullable_string (field v ''primaryRaw''),
                      nullable_string (field v ''backupRaw''), field v ''updated'') of
             (Some k, Some p, Some b, Some u) \<Rightarrow>
               if (k = ''closed'' \<or> k = ''corrupt'') \<and> is_number u
               then Some \<lparr>rc_closed = (k = ''closed''), rc_primary = p, rc_backup = b\<rparr> else None
           | _ \<Rightarrow> None))"

definition opt_str :: "string option \<Rightarrow> json" where
  "opt_str s = (case s of None \<Rightarrow> JNull | Some x \<Rightarrow> JStr x)"

definition recovery_text :: "num \<Rightarrow> string option \<Rightarrow> string option \<Rightarrow> cell" where
  "recovery_text time primary backup =
     Json (JObj [(''version'', JNum 1), (''kind'', JStr ''closed''), (''primaryRaw'', opt_str primary),
                 (''backupRaw'', opt_str backup), (''updated'', JNum time)])"

text \<open>Removals in order, up to the first that throws.\<close>

fun removeItems :: "string list \<Rightarrow> storage \<Rightarrow> storage \<times> bool" where
  "removeItems [] st = (st, True)"
| "removeItems (k # ks) st = (case removeItem k st of (st1, ok) \<Rightarrow> if ok then removeItems ks st1 else (st1, False))"

definition dock_null :: "sanitized option \<Rightarrow> bool" where
  "dock_null p = (case p of None \<Rightarrow> True | Some s \<Rightarrow> sd_dock s = None)"

definition layout_empty :: "cell option \<Rightarrow> cell option \<Rightarrow> bool" where
  "layout_empty primaryRaw backupRaw =
     (case parseStoredSpaceLayout primaryRaw of
        Some p \<Rightarrow> sd_dock p = None
      | None \<Rightarrow> \<not> truthy primaryRaw \<and> dock_null (parseStoredSpaceLayout backupRaw))"

text \<open>Answers whether the layout was kept (or had nothing to keep) and removed.\<close>

definition closeSpaceLayout :: "num \<Rightarrow> string \<Rightarrow> storage \<Rightarrow> bool \<times> storage" where
  "closeSpaceLayout time i st =
     (case (getItem st (spaceLayoutKey i), getItem st (spaceLayoutBackupKey i)) of
        (Some primaryRaw, Some backupRaw) \<Rightarrow>
          (if layout_empty primaryRaw backupRaw
           then (let (st1, ok) = removeItems [spaceLayoutRecoveryKey i, spaceLayoutKey i, spaceLayoutBackupKey i] st
                 in (ok, st1))
           else let existing = parseRecovery (or_else (getItem st (spaceLayoutRecoveryKey i)) None);
                    pick = (\<lambda>raw old. case raw of Some c \<Rightarrow> Some (cell_text c) | None \<Rightarrow> Option.bind existing old);
                    raw = recovery_text time (pick primaryRaw rc_primary) (pick backupRaw rc_backup);
                    (st1, ok1) = verifiedWrite (spaceLayoutRecoveryKey i) raw st
                in if \<not> ok1 then (False, st1)
                   else (let (st2, ok2) = removeItems [spaceLayoutKey i, spaceLayoutBackupKey i] st1 in (ok2, st2)))
      | _ \<Rightarrow> (False, st))"

definition hasRecoverableSpaceLayout :: "storage \<Rightarrow> string \<Rightarrow> bool" where
  "hasRecoverableSpaceLayout st i =
     (case Option.bind (getItem st (spaceLayoutRecoveryKey i)) parseRecovery of
        None \<Rightarrow> False
      | Some r \<Rightarrow> rc_closed r)"

datatype reopening = Reopened | NotAvailable | NotRestored

definition reopenSpaceLayout :: "(string \<Rightarrow> json option) \<Rightarrow> string \<Rightarrow> storage \<Rightarrow> reopening \<times> storage" where
  "reopenSpaceLayout parse_text i st =
     (case getItem st (spaceLayoutRecoveryKey i) of
        None \<Rightarrow> (NotRestored, st)
      | Some raw \<Rightarrow>
          (case parseRecovery raw of
             None \<Rightarrow> (NotAvailable, st)
           | Some r \<Rightarrow>
               (let (st1, ok) = verifiedWrites
                      ((case rc_backup r of Some b \<Rightarrow> [(spaceLayoutBackupKey i, text_cell parse_text b)] | None \<Rightarrow> [])
                       @ [(spaceLayoutKey i, case rc_primary r of Some p \<Rightarrow> text_cell parse_text p | None \<Rightarrow> layout_text JNull)]) st
                in (if ok then Reopened else NotRestored, st1))))"

definition removeLayoutRecovery :: "string \<Rightarrow> storage \<Rightarrow> storage" where
  "removeLayoutRecovery i st = fst (removeItem (spaceLayoutRecoveryKey i) st)"

subsection \<open>Clearing\<close>

definition spaces_prefixes :: "string list" where
  "spaces_prefixes = [spacesRecordPrefix, spacesBackupPrefix, spacesRecoveryPrefix, spaceLayoutPrefix,
     spaceLayoutBackupPrefix, spaceLayoutRecoveryPrefix]"

definition allSpacesStorageKeys :: "storage \<Rightarrow> string list" where
  "allSpacesStorageKeys st = filter (\<lambda>k. list_ex (\<lambda>p. starts_with p k) spaces_prefixes) (keys (items st))"

definition clearAllLayoutFamilies :: "storage \<Rightarrow> storage \<times> bool" where
  "clearAllLayoutFamilies st =
     removeItems (allSpacesStorageKeys st @ [shellStorageKey, shellStorageBackupKey, migrationMarkerKey, lastActiveSpaceKey,
       layoutStorageKey, layoutStorageBackupKey, v2LayoutStorageKey, legacyLayoutStorageKey]) st"

subsection \<open>Writes and removals\<close>

lemma verifiedWrite_other: "k' \<noteq> k \<Longrightarrow> get (items (fst (verifiedWrite k raw st))) k' = get (items st) k'"
  using setItem_other [of k' k raw st] by (cases "setItem k raw st") (simp add: verifiedWrite_def)

lemma verifiedWrite_done: "snd (verifiedWrite k raw st) \<Longrightarrow> get (items (fst (verifiedWrite k raw st))) k = Some raw"
  by (cases "setItem k raw st") (auto simp: verifiedWrite_def getItem_def split: if_splits)

lemma verifiedWrites_other:
  "k \<notin> set (map fst ws) \<Longrightarrow> get (items (fst (verifiedWrites ws st))) k = get (items st) k"
proof (induction ws arbitrary: st)
  case (Cons w ws)
  obtain k' raw where w: "w = (k', raw)" by fastforce
  obtain st1 ok where s: "verifiedWrite k' raw st = (st1, ok)" by fastforce
  have "get (items st1) k = get (items st) k" using verifiedWrite_other [of k k' raw st] Cons.prems s w by simp
  with Cons w s show ?case by simp
qed simp

lemma verifiedWrites_done:
  "snd (verifiedWrites ws st) \<Longrightarrow> distinct (map fst ws) \<Longrightarrow> (k, raw) \<in> set ws \<Longrightarrow>
     get (items (fst (verifiedWrites ws st))) k = Some raw"
proof (induction ws arbitrary: st)
  case (Cons w ws)
  obtain k' raw' where w: "w = (k', raw')" by fastforce
  obtain st1 where s: "verifiedWrite k' raw' st = (st1, True)" "snd (verifiedWrites ws st1)"
    using Cons.prems(1) w by (auto split: prod.splits if_splits)
  show ?case
  proof (cases "(k, raw) = w")
    case True
    then have "k \<notin> set (map fst ws)" "get (items st1) k = Some raw"
      using Cons.prems(2) w verifiedWrite_done [of k' raw' st] s(1) by auto
    with verifiedWrites_other [of k ws st1] s w show ?thesis by simp
  next
    case False
    then have "(k, raw) \<in> set ws" using Cons.prems(3) by simp
    with Cons s w show ?thesis by simp
  qed
qed simp

lemma removeItems_other: "k \<notin> set ks \<Longrightarrow> get (items (fst (removeItems ks st))) k = get (items st) k"
proof (induction ks arbitrary: st)
  case (Cons k' ks)
  obtain st1 ok where s: "removeItem k' st = (st1, ok)" by fastforce
  have "get (items st1) k = get (items st) k" using removeItem_other [of k k' st] Cons.prems s by simp
  with Cons s show ?case by simp
qed simp

subsection \<open>The migration\<close>

lemma valid_tabs: "validGridNode v panelIDs \<Longrightarrow> set (tabs v) \<subseteq> set panelIDs"
proof (induction v rule: tabs.induct)
  case (1 v)
  show ?case
  proof (cases "field v ''type'' = Some (JStr ''leaf'')")
    case True
    with "1.prems" show ?thesis
      by (auto simp: validGridNode.simps [of v] tabs.simps [of v] valid_group_def group_tabs_def list_all_iff
          split: option.splits if_splits)
  next
    case False
    then have "field v ''type'' = Some (JStr ''branch'')"
      "\<forall>c \<in> set (elements (field v ''data'')). validGridNode c panelIDs"
      using "1.prems" by (auto simp: validGridNode.simps [of v] split: if_splits)
    with "1.IH" False show ?thesis by (auto simp: tabs.simps [of v])
  qed
qed

lemma keys_readable: "list_all (\<lambda>(i, s). panel_of i s \<noteq> None) es \<Longrightarrow>
    keys (List.map_filter canonical_entry es) = keys es"
  by (induction es) (auto simp: List.map_filter_simps canonical_entry_def canonicalSerializedPanel_def split: option.split)

text \<open>A valid dock reads back from its text with its tabs.\<close>

lemma layout_text_tabs:
  assumes "validDock d"
  shows "\<exists>res. parseStoredSpaceLayout (Some (layout_text d)) = Some res \<and> dock_tabs (sd_dock res) = dock_tabs (Some d)"
proof -
  have g: "has_grid d" using assms by (simp add: validDock_iff)
  then obtain r where r: "grid_root d = Some r" by (auto simp: has_grid_iff)
  have b: "field r ''type'' = Some (JStr ''branch'')" "validGridNode r (keys (entries (field d ''panels'')))"
    "keys (readable_panels d) = keys (entries (field d ''panels''))"
    using assms r keys_readable by (simp_all add: validDock_iff readable_panels_def)
  have "filter (\<lambda>i. i \<in> set (keys (readable_panels d))) (tabs r) = tabs r"
    using valid_tabs [OF b(2)] b(3) by (auto simp: filter_id_conv)
  with sanitize_outcome [OF has_grid_record [OF g] valid_not_migrated [OF assms] g r b(1) valid_no_throw [OF assms]] r
  show ?thesis by (auto simp: layout_text_def parseStoredSpaceLayout_def dock_tabs_def)
qed

lemma parsed_layout_ok:
  assumes "parseStoredLayoutResult raw = Some p"
  shows "(\<forall>d. sl_dock (pl_layout p) = Some d \<longrightarrow> validDock d) \<and>
    rail_ok (fleet_rail (sl_rails (pl_layout p))) \<and> rail_ok (notes_rail (sl_rails (pl_layout p)))"
  using assms
  by (auto simp: parseStoredLayoutResult_def railPreferences_def defaultRailPreferences_def clampRailWidth_def rail_ok_def
      minimumRailWidth_def maximumRailWidth_def Let_def sanitized_valid split: option.splits if_splits)

lemma legacy_families_ok:
  assumes "readLegacyLayoutFamilies st = Some f" and "lf_stored f = Some l"
  shows "\<exists>raw p. parseStoredLayoutResult raw = Some p \<and> pl_layout p = l"
proof -
  obtain layouts where r: "readStoredLayout st = Some layouts"
    "lf_stored f = (case lr_stored layouts of
       None \<Rightarrow> parseStoredLayout (or_else (getItem st v2LayoutStorageKey) None) | Some l \<Rightarrow> Some l)"
    using assms(1) by (auto simp: readLegacyLayoutFamilies_def Let_def split: option.splits)
  show ?thesis
  proof (cases "lr_stored layouts")
    case None
    then have "parseStoredLayout (or_else (getItem st v2LayoutStorageKey) None) = Some l" using r(2) assms(2) by simp
    then show ?thesis by (auto simp: parseStoredLayout_def)
  next
    case (Some l')
    with r assms(2) show ?thesis
      by (auto simp: readStoredLayout_def choose_layout_def Let_def split: option.splits if_splits) blast+
  qed
qed

lemma migration_shell_ok:
  assumes "readLegacyLayoutFamilies st = Some f"
  shows "preferences_ok (migration_shell f)"
proof (cases "lf_stored f")
  case None
  then show ?thesis
    by (simp add: migration_shell_def preferences_ok_def rail_ok_def defaultRailPreferences_def clampRailWidth_def
        minimumRailWidth_def maximumRailWidth_def)
next
  case (Some l)
  from legacy_families_ok [OF assms this] parsed_layout_ok Some show ?thesis
    by (auto simp: migration_shell_def preferences_ok_def)
qed

lemma main_definition_reads: "parseStoredSpace (Some (Json (stored_space_json main_definition))) = Some main_definition"
  by (simp add: parseStoredSpace_def parse_space_def stored_space_json_def space_json_def main_definition_def
      as_nonempty_def)

lemma migration_keys:
  "distinct (map fst (migration_writes f st))"
  by (simp add: migration_writes_def Let_def spaceBackupKey_def spaceRecordKey_def key_of_def spacesBackupPrefix_def
      spacesRecordPrefix_def spaceLayoutBackupKey_def spaceLayoutKey_def spaceLayoutBackupPrefix_def spaceLayoutPrefix_def
      shellStorageBackupKey_def shellStorageKey_def migrationMarkerKey_def)

definition legacy_keys :: "string list" where
  "legacy_keys = [layoutStorageKey, layoutStorageBackupKey, v2LayoutStorageKey, legacyLayoutStorageKey]"

lemma migration_keeps_legacy: "k \<in> set legacy_keys \<Longrightarrow> k \<notin> set (map fst (migration_writes f st))"
  by (auto simp: legacy_keys_def migration_writes_def Let_def spaceBackupKey_def spaceRecordKey_def key_of_def spacesBackupPrefix_def
      spacesRecordPrefix_def spaceLayoutBackupKey_def spaceLayoutKey_def spaceLayoutBackupPrefix_def spaceLayoutPrefix_def
      shellStorageBackupKey_def shellStorageKey_def migrationMarkerKey_def layoutStorageKey_def layoutStorageBackupKey_def
      v2LayoutStorageKey_def legacyLayoutStorageKey_def)

lemma marker_text_valid: "markerValid (Some marker_text)"
  by (simp add: markerValid_def marker_text_def)

text \<open>
  C17. Migrating to spaces loses nothing: whichever storage calls fail, the layouts of earlier versions stay
  as they are, so the migration can be tried again; spaces are used only once the marker is written; and
  then the main space has a layout with all the tabs of the earlier one, in order, and the shell its rails
  and expanded items.
\<close>

theorem migration_is_safe:
  assumes "initializeSpaces st = (res, st')"
  shows "(\<forall>k \<in> set legacy_keys. get (items st') k = get (items st) k) \<and>
    (res = SpacesMode \<longrightarrow> markerValid (get (items st') migrationMarkerKey)) \<and>
    (res = SpacesMode \<and> \<not> markerValid (get (items st) migrationMarkerKey) \<longrightarrow>
       (\<exists>f p. readLegacyLayoutFamilies st = Some f \<and>
          parseStoredSpaceLayout (get (items st') (spaceLayoutKey mainSpaceID)) = Some p \<and>
          dock_tabs (sd_dock p) = dock_tabs (Option.bind (lf_stored f) sl_dock) \<and>
          parseShellPreferences (get (items st') shellStorageKey) = Some (migration_shell f)))"
proof (cases "readLegacyLayoutFamilies st")
  case None
  then show ?thesis using assms by (auto simp: initializeSpaces_def)
next
  case (Some f)
  consider "st' = st" "res = SpacesMode \<longrightarrow> markerValid (get (items st) migrationMarkerKey)"
    | ok where "verifiedWrites (migration_writes f st) st = (st', ok)" "res = SpacesMode \<longrightarrow> ok"
    using assms Some by (auto simp: initializeSpaces_def split: if_splits prod.splits bool.splits)
  then show ?thesis
  proof cases
    case 1
    then show ?thesis by blast
  next
    case 2
    have keep: "get (items st') k = get (items st) k" if "k \<in> set legacy_keys" for k
      using verifiedWrites_other [OF migration_keeps_legacy [OF that], of f st st] 2(1) by simp
    have wrote: "get (items st') k = Some raw" if "res = SpacesMode" "(k, raw) \<in> set (migration_writes f st)" for k raw
      using verifiedWrites_done [OF _ migration_keys that(2), of st] 2 that(1) by simp
    have texts: "(migrationMarkerKey, marker_text) \<in> set (migration_writes f st)"
      "(spaceLayoutKey mainSpaceID, migration_dock f) \<in> set (migration_writes f st)"
      "(shellStorageKey, Json (shell_json (migration_shell f))) \<in> set (migration_writes f st)"
      by (simp_all add: migration_writes_def Let_def)
    have dock: "\<exists>p. parseStoredSpaceLayout (Some (migration_dock f)) = Some p \<and>
        dock_tabs (sd_dock p) = dock_tabs (Option.bind (lf_stored f) sl_dock)"
    proof (cases "Option.bind (lf_stored f) sl_dock")
      case None
      then show ?thesis
        by (simp add: migration_dock_def layout_text_def parseStoredSpaceLayout_def sanitizeStoredDock_def dock_tabs_def)
    next
      case (Some d)
      then obtain l where l: "lf_stored f = Some l" "sl_dock l = Some d" by (auto simp: bind_eq_Some_conv)
      have "validDock d"
        using legacy_families_ok [OF \<open>readLegacyLayoutFamilies st = Some f\<close> l(1)] parsed_layout_ok l(2) by blast
      from layout_text_tabs [OF this] Some show ?thesis by (simp add: migration_dock_def)
    qed
    have shell: "parseShellPreferences (Some (Json (shell_json (migration_shell f)))) = Some (migration_shell f)"
      by (rule parse_shell_json) (rule migration_shell_ok [OF Some])
    show ?thesis
      using keep wrote [OF _ texts(1)] wrote [OF _ texts(2)] wrote [OF _ texts(3)] dock shell marker_text_valid Some
      by (intro conjI impI ballI) auto
  qed
qed

text \<open>A version 3 layout with one panel, and a storage that refuses nothing.\<close>

definition sample_layout :: json where
  "sample_layout = JObj [(''version'', JNum 3),
     (''dock'', fresh_dock ''x'' (ChangesPanel \<lparr>cp_root = ''/a'', cp_preview = True\<rparr>)),
     (''rails'', JObj [(''fleet'', rail_json \<lparr>rail_width = 250, rail_collapsed = False\<rparr>),
                     (''notes'', rail_json \<lparr>rail_width = 280, rail_collapsed = True\<rparr>)])]"

definition sample_legacy :: storage where
  "sample_legacy = \<lparr>items = [(layoutStorageKey, Json sample_layout)], readable = True, faults = []\<rparr>"

lemma sample_migrates: "fst (initializeSpaces sample_legacy) = SpacesMode"
  by code_simp

theorem migration_is_safe_witness:
  "fst (initializeSpaces sample_legacy) = SpacesMode \<and>
    get (items (snd (initializeSpaces sample_legacy))) layoutStorageKey = Some (Json sample_layout) \<and>
    markerValid (get (items (snd (initializeSpaces sample_legacy))) migrationMarkerKey)"
  using migration_is_safe [OF prod.collapse [symmetric], of sample_legacy] sample_migrates
  by (simp add: legacy_keys_def sample_legacy_def)

subsection \<open>Closing and reopening\<close>

lemma nullable_opt_str [simp]: "nullable_string (Some (opt_str s)) = Some s"
  by (cases s) (simp_all add: nullable_string_def opt_str_def)

lemma parse_recovery_text [simp]:
  "parseRecovery (Some (recovery_text t p b)) = Some \<lparr>rc_closed = True, rc_primary = p, rc_backup = b\<rparr>"
  by (simp add: parseRecovery_def recovery_text_def)

lemma space_keys_distinct:
  "spaceLayoutKey i \<noteq> spaceLayoutRecoveryKey i" "spaceLayoutBackupKey i \<noteq> spaceLayoutRecoveryKey i"
  "spaceLayoutRecoveryKey i \<noteq> spaceLayoutKey i" "spaceLayoutRecoveryKey i \<noteq> spaceLayoutBackupKey i"
  "spaceLayoutKey i \<noteq> spaceLayoutBackupKey i" "spaceLayoutBackupKey i \<noteq> spaceLayoutKey i"
  using layout_keys [of i i] by auto

text \<open>Closing keeps the layout: in place, or its text under the recovery key.\<close>

lemma close_keeps_layout:
  assumes "get (items st) (spaceLayoutKey i) = Some c" and "\<not> layout_empty (Some c) (get (items st) (spaceLayoutBackupKey i))"
    and cl: "closeSpaceLayout t i st = (ok, st1)"
  shows "get (items st1) (spaceLayoutKey i) = Some c \<or>
    (\<exists>r. parseRecovery (get (items st1) (spaceLayoutRecoveryKey i)) = Some r \<and> rc_primary r = Some (cell_text c))"
proof (cases "readable st")
  case False
  then show ?thesis using assms by (simp add: closeSpaceLayout_def getItem_def)
next
  case True
  define b where "b = (case get (items st) (spaceLayoutBackupKey i) of Some c \<Rightarrow> Some (cell_text c)
    | None \<Rightarrow> Option.bind (parseRecovery (get (items st) (spaceLayoutRecoveryKey i))) rc_backup)"
  define raw where "raw = recovery_text t (Some (cell_text c)) b"
  obtain st2 ok2 where w: "verifiedWrite (spaceLayoutRecoveryKey i) raw st = (st2, ok2)" by fastforce
  have c: "closeSpaceLayout t i st = (if \<not> ok2 then (False, st2) else
      (snd (removeItems [spaceLayoutKey i, spaceLayoutBackupKey i] st2), fst (removeItems [spaceLayoutKey i, spaceLayoutBackupKey i] st2)))"
    using assms(1,2) True w by (simp add: closeSpaceLayout_def raw_def b_def Let_def split: prod.split)
  show ?thesis
  proof (cases ok2)
    case False
    then have "get (items st1) (spaceLayoutKey i) = get (items st) (spaceLayoutKey i)"
      using cl c w verifiedWrite_other [of "spaceLayoutKey i" "spaceLayoutRecoveryKey i" raw st] space_keys_distinct by simp
    with assms(1) show ?thesis by simp
  next
    case True
    then have "get (items st2) (spaceLayoutRecoveryKey i) = Some raw"
      using verifiedWrite_done [of "spaceLayoutRecoveryKey i" raw st] w by simp
    moreover have "st1 = fst (removeItems [spaceLayoutKey i, spaceLayoutBackupKey i] st2)" using True cl c by simp
    ultimately have "get (items st1) (spaceLayoutRecoveryKey i) = Some raw"
      using removeItems_other [of "spaceLayoutRecoveryKey i" "[spaceLayoutKey i, spaceLayoutBackupKey i]" st2] space_keys_distinct
      by simp
    then show ?thesis by (simp add: raw_def)
  qed
qed

definition reads_back :: "(string \<Rightarrow> json option) \<Rightarrow> cell option \<Rightarrow> bool" where
  "reads_back parse_text c = (case c of None \<Rightarrow> True | Some x \<Rightarrow> text_cell parse_text (cell_text x) = x)"

lemma close_reopen:
  assumes st: "reliable st" and p: "get (items st) (spaceLayoutKey i) = Some c"
    and ne: "\<not> layout_empty (Some c) (get (items st) (spaceLayoutBackupKey i))"
    and rt: "reads_back parse_text (Some c)" "reads_back parse_text (get (items st) (spaceLayoutBackupKey i))"
  shows "\<exists>st1 st2. closeSpaceLayout t i st = (True, st1) \<and> get (items st1) (spaceLayoutKey i) = None \<and>
    hasRecoverableSpaceLayout st1 i \<and> reopenSpaceLayout parse_text i st1 = (Reopened, st2) \<and>
    get (items st2) (spaceLayoutKey i) = Some c \<and>
    (get (items st) (spaceLayoutBackupKey i) \<noteq> None \<longrightarrow>
       get (items st2) (spaceLayoutBackupKey i) = get (items st) (spaceLayoutBackupKey i))"
proof -
  define b where "b = (case get (items st) (spaceLayoutBackupKey i) of Some c \<Rightarrow> Some (cell_text c)
    | None \<Rightarrow> Option.bind (parseRecovery (get (items st) (spaceLayoutRecoveryKey i))) rc_backup)"
  define raw where "raw = recovery_text t (Some (cell_text c)) b"
  have r: "readable st" "faults st = []" using st by (simp_all add: reliable_def)
  define st1 where "st1 = st\<lparr>items := del (spaceLayoutBackupKey i) (del (spaceLayoutKey i) (put (spaceLayoutRecoveryKey i) raw (items st)))\<rparr>"
  have close: "closeSpaceLayout t i st = (True, st1)"
    using p ne r by (simp add: closeSpaceLayout_def verifiedWrite_def raw_def [symmetric] b_def [symmetric] Let_def st1_def get_put)
  have g1: "get (items st1) (spaceLayoutKey i) = None" "get (items st1) (spaceLayoutRecoveryKey i) = Some raw"
    "readable st1" "faults st1 = []"
    using r space_keys_distinct [of i] by (simp_all add: st1_def get_put get_del)
  define ws where "ws = (case b of Some x \<Rightarrow> [(spaceLayoutBackupKey i, text_cell parse_text x)] | None \<Rightarrow> [])
    @ [(spaceLayoutKey i, text_cell parse_text (cell_text c))]"
  define st2 where "st2 = fst (verifiedWrites ws st1)"
  have ok: "snd (verifiedWrites ws st1)"
    using g1(3,4) by (cases b) (simp_all add: ws_def verifiedWrite_def get_put)
  have reopen: "reopenSpaceLayout parse_text i st1 = (Reopened, st2)"
  proof -
    have "verifiedWrites ws st1 = (st2, True)" using ok by (simp add: st2_def prod_eq_iff)
    then show ?thesis using g1 by (simp add: reopenSpaceLayout_def raw_def ws_def)
  qed
  have d: "distinct (map fst ws)" using space_keys_distinct [of i] by (simp add: ws_def split: option.split)
  have c: "text_cell parse_text (cell_text c) = c" using rt(1) by (simp add: reads_back_def)
  have "get (items st2) (spaceLayoutKey i) = Some c"
    unfolding st2_def by (rule verifiedWrites_done [OF ok d]) (simp add: ws_def c)
  moreover have "get (items st2) (spaceLayoutBackupKey i) = Some x" if x: "get (items st) (spaceLayoutBackupKey i) = Some x" for x
    unfolding st2_def
    by (rule verifiedWrites_done [OF ok d]) (use x rt(2) in \<open>simp add: ws_def b_def reads_back_def\<close>)
  moreover have "hasRecoverableSpaceLayout st1 i" using g1 by (simp add: hasRecoverableSpaceLayout_def raw_def)
  ultimately show ?thesis
    by (intro exI [of _ st1] exI [of _ st2]) (use close g1(1) reopen in auto)
qed

text \<open>
  C18. Closing a space does not lose its layout: whichever storage calls fail, a layout with something to
  keep is still in place, or its text is in the recovery record; and with a storage that works, closing
  removes it, says it can be recovered, and reopening puts the same texts back. \<open>parse_text\<close> stands for
  \<open>JSON.parse\<close>, of which only the two texts involved matter.
\<close>

theorem closed_layout_is_kept:
  assumes "get (items st) (spaceLayoutKey i) = Some c"
    and "\<not> layout_empty (Some c) (get (items st) (spaceLayoutBackupKey i))"
  shows "(\<forall>ok st1. closeSpaceLayout t i st = (ok, st1) \<longrightarrow> get (items st1) (spaceLayoutKey i) = Some c \<or>
      (\<exists>r. parseRecovery (get (items st1) (spaceLayoutRecoveryKey i)) = Some r \<and> rc_primary r = Some (cell_text c))) \<and>
    (reliable st \<and> reads_back parse_text (Some c) \<and> reads_back parse_text (get (items st) (spaceLayoutBackupKey i)) \<longrightarrow>
      (\<exists>st1 st2. closeSpaceLayout t i st = (True, st1) \<and> get (items st1) (spaceLayoutKey i) = None \<and>
        hasRecoverableSpaceLayout st1 i \<and> reopenSpaceLayout parse_text i st1 = (Reopened, st2) \<and>
        get (items st2) (spaceLayoutKey i) = Some c \<and>
        (get (items st) (spaceLayoutBackupKey i) \<noteq> None \<longrightarrow>
           get (items st2) (spaceLayoutBackupKey i) = get (items st) (spaceLayoutBackupKey i))))"
  using close_keeps_layout [OF assms] close_reopen [OF _ assms] by blast

theorem closed_layout_is_kept_witness:
  "\<exists>st1 st2 c parse_text. closeSpaceLayout 9 ''s'' \<lparr>items = [(spaceLayoutKey ''s'', c)], readable = True, faults = []\<rparr> = (True, st1) \<and>
     reopenSpaceLayout parse_text ''s'' st1 = (Reopened, st2) \<and> get (items st2) (spaceLayoutKey ''s'') = Some c"
proof -
  define d where "d = fresh_dock ''s'' (ChangesPanel \<lparr>cp_root = ''/a'', cp_preview = True\<rparr>)"
  define st where "st = \<lparr>items = [(spaceLayoutKey ''s'', layout_text d)], readable = True, faults = []\<rparr>"
  define parse_text where "parse_text = (\<lambda>s. if s = cell_text (layout_text d)
    then Some (JObj [(''version'', JNum 4), (''dock'', d)]) else None)"
  have "panel_ok (ChangesPanel \<lparr>cp_root = ''/a'', cp_preview = True\<rparr>)" by simp
  then have "\<not> layout_empty (Some (layout_text d)) (get (items st) (spaceLayoutBackupKey ''s''))"
    using fresh_text_read by (simp add: layout_empty_def layout_text_def d_def)
  moreover have "get (items st) (spaceLayoutKey ''s'') = Some (layout_text d)" "reliable st"
    "get (items st) (spaceLayoutBackupKey ''s'') = None"
    using space_keys_distinct [of "''s''"] by (simp_all add: st_def reliable_def)
  moreover have "reads_back parse_text (Some (layout_text d))"
    by (simp add: reads_back_def parse_text_def text_cell_def) (simp add: layout_text_def)
  moreover have "reads_back parse_text None" by (simp add: reads_back_def)
  ultimately show ?thesis
    using closed_layout_is_kept [of st "''s''" "layout_text d" 9 parse_text] unfolding st_def by metis
qed

text \<open>
  What counts as empty is decided by the primary alone: if it lost all its panels to the repair, closing
  deletes the last good copy as well, from which the space would still have been restored.
\<close>

lemma close_discards_good_backup:
  fixes i :: string
  assumes p: "panel_ok p"
  defines "lost \<equiv> Json (JObj [(''version'', JNum 4), (''dock'', JObj [(''grid'', JObj [(''root'', JObj [(''type'', JStr ''branch'')])]),
      (''panels'', JObj [])])])"
  defines "st \<equiv> \<lparr>items = [(spaceLayoutKey i, lost), (spaceLayoutBackupKey i, layout_text (fresh_dock i p))],
      readable = True, faults = []\<rparr>"
  shows "storedSpaceActivePanel st i = Some p \<and> closeSpaceLayout t i st = (True, st\<lparr>items := []\<rparr>)"
proof -
  have lost: "parseStoredSpaceLayout (Some lost) = Some \<lparr>sd_dock = None, sd_salvaged = True\<rparr>"
    by (simp add: lost_def parseStoredSpaceLayout_def sanitizeStoredDock_def migrateRetiredPanels_def retired_panels_def
        has_grid_def object_at_def grid_root_def readable_panels_def List.map_filter_simps pruneGridRoot_def elements_def)
  have good: "parseStoredSpaceLayout (Some (layout_text (fresh_dock i p))) = Some \<lparr>sd_dock = Some (fresh_dock i p), sd_salvaged = False\<rparr>"
    using fresh_text_read [OF p] by (simp add: layout_text_def)
  have g: "get (items st) (spaceLayoutKey i) = Some lost" "get (items st) (spaceLayoutBackupKey i) = Some (layout_text (fresh_dock i p))"
    "readable st" "faults st = []"
    using space_keys_distinct [of i] by (simp_all add: st_def)
  have "storedSpaceActivePanel st i = activePanelInDock (Some (fresh_dock i p))"
    using read_space_layout [OF g(3), of 0 False i] lost good
    by (auto simp: storedSpaceActivePanel_def choose_layout_def usable_def g)
  then have "storedSpaceActivePanel st i = Some p" using focuses_active [OF fresh_dock_focuses(1) [OF p]] by simp
  moreover have "closeSpaceLayout t i st = (True, st\<lparr>items := []\<rparr>)"
    using g lost space_keys_distinct [of i] by (simp add: closeSpaceLayout_def layout_empty_def) (simp add: st_def)
  ultimately show ?thesis by blast
qed

end
