(* ===== verification/SpaceMembers.thy ===== *)
theory SpaceMembers
  imports SpacesModel SyncProps
begin

section \<open>The members of spaces\<close>

text \<open>
  \<^verbatim>\<open>features/spaces/spaceMembersModel.ts\<close>, \<^verbatim>\<open>spaceMembersStore.ts\<close> and \<^verbatim>\<open>spaceMembersSync.ts\<close>: which
  tabs belong to a space (the pinned agents and files of its dock), the rows that carry them between
  browsers, the store that holds the rows and what this browser last reconciled against, and the
  reconciler between docks and rows.
\<close>

subsection \<open>Members\<close>

datatype space_member = AgentMember string | FileMember string string

record members_row =
  mr_key :: string
  mr_members :: "space_member list"
  mr_updated :: num
  mr_writeID :: string
  mr_deleted :: bool

fun memberParams :: "space_member \<Rightarrow> panel" where
  "memberParams (AgentMember n) = AgentPanel \<lparr>ap_name = n, ap_preview = False\<rparr>"
| "memberParams (FileMember r p) =
     FilePanel \<lparr>fp_root = r, fp_path = p, fp_line = None, fp_preview = False, fp_viewMode = initialFileViewMode p None\<rparr>"

definition memberID :: "space_member \<Rightarrow> string" where
  "memberID m = panelID (memberParams m)"

definition sameMembers :: "space_member list \<Rightarrow> space_member list \<Rightarrow> bool" where
  "sameMembers l r \<longleftrightarrow> length l = length r \<and> list_all2 (\<lambda>a b. memberID a = memberID b) l r"

definition string_elements :: "json list \<Rightarrow> string list" where
  "string_elements xs = List.map_filter (\<lambda>x. as_string (Some x)) xs"

function gridPanelOrder :: "json \<Rightarrow> string list" where
  "gridPanelOrder v =
     (if field v ''type'' = Some (JStr ''leaf'')
      then (case field v ''data'' of Some d \<Rightarrow> string_elements (elements (field d ''views'')) | None \<Rightarrow> [])
      else if field v ''type'' = Some (JStr ''branch'')
      then concat (map gridPanelOrder (elements (field v ''data'')))
      else [])"
  by pat_completeness auto
termination by (relation "measure size") (auto simp: elements_size)

declare gridPanelOrder.simps [simp del]

definition panel_member :: "panel \<Rightarrow> space_member option" where
  "panel_member p =
     (if panel_preview p then None
      else case p of
             AgentPanel a \<Rightarrow> Some (AgentMember (ap_name a))
           | FilePanel f \<Rightarrow> Some (FileMember (fp_root f) (fp_path f))
           | _ \<Rightarrow> None)"

definition dock_member :: "json \<Rightarrow> string \<Rightarrow> space_member option" where
  "dock_member dock i =
     Option.bind (Option.bind (map_of (entries (field dock ''panels'')) i)
       (\<lambda>s. Option.bind (field s ''params'') panelParams)) panel_member"

fun members_in_order :: "json \<Rightarrow> string list \<Rightarrow> string list \<Rightarrow> space_member list" where
  "members_in_order dock seen [] = []"
| "members_in_order dock seen (i # is) =
     (if i \<in> set seen then members_in_order dock seen is
      else (case dock_member dock i of
              None \<Rightarrow> members_in_order dock (i # seen) is
            | Some m \<Rightarrow> m # members_in_order dock (i # seen) is))"

definition membersFromDock :: "json option \<Rightarrow> space_member list" where
  "membersFromDock dock =
     (case dock of
        None \<Rightarrow> []
      | Some d \<Rightarrow>
          if \<not> object_at d ''panels'' then []
          else members_in_order d [] (case grid_root d of Some r \<Rightarrow> gridPanelOrder r | None \<Rightarrow> []))"

definition storedSpaceMembers :: "storage \<Rightarrow> string \<Rightarrow> space_member list option" where
  "storedSpaceMembers st spaceID =
     (case readStoredSpaceLayout 0 False spaceID st of
        None \<Rightarrow> None
      | Some (r, _) \<Rightarrow>
          if lr_problem r \<and> lr_stored r = None then None else Some (membersFromDock (or_else (lr_stored r) None)))"

subsection \<open>Rows\<close>

definition parseMember :: "json \<Rightarrow> space_member option" where
  "parseMember v =
     (if field v ''kind'' = Some (JStr ''agent'') then map_option AgentMember (as_nonempty (field v ''name''))
      else if field v ''kind'' = Some (JStr ''file'')
      then (case (as_nonempty (field v ''root''), as_nonempty (field v ''path'')) of
              (Some r, Some p) \<Rightarrow> Some (FileMember r p)
            | _ \<Rightarrow> None)
      else None)"

fun parse_members :: "string list \<Rightarrow> json list \<Rightarrow> space_member list" where
  "parse_members seen [] = []"
| "parse_members seen (v # vs) =
     (case parseMember v of
        None \<Rightarrow> parse_members seen vs
      | Some m \<Rightarrow> if memberID m \<in> set seen then parse_members seen vs
                  else m # parse_members (memberID m # seen) vs)"

definition parseMembersRow :: "json \<Rightarrow> members_row option" where
  "parseMembersRow row =
     (case (as_nonempty (field row ''key''), as_finite (field row ''updated''), as_nonempty (field row ''writeID''),
            as_bool (field row ''deleted'')) of
        (Some k, Some u, Some w, Some d) \<Rightarrow>
          if d then Some \<lparr>mr_key = k, mr_members = [], mr_updated = u, mr_writeID = w, mr_deleted = True\<rparr>
          else (case Option.bind (field row ''value'') (\<lambda>v. field v ''members'') of
             Some (JArr ms) \<Rightarrow>
               Some \<lparr>mr_key = k, mr_members = parse_members [] ms, mr_updated = u, mr_writeID = w, mr_deleted = False\<rparr>
           | _ \<Rightarrow> None)
      | _ \<Rightarrow> None)"

fun member_json :: "space_member \<Rightarrow> json" where
  "member_json (AgentMember n) = JObj [(''kind'', JStr ''agent''), (''name'', JStr n)]"
| "member_json (FileMember r p) = JObj [(''kind'', JStr ''file''), (''root'', JStr r), (''path'', JStr p)]"

definition membersStateRow :: "members_row \<Rightarrow> state_row" where
  "membersStateRow r =
     \<lparr>row_key = mr_key r,
      row_value = JObj [(''members'', JArr (map member_json (mr_members r))), (''updated'', JNum (mr_updated r))],
      row_updated = mr_updated r, row_writeID = mr_writeID r, row_deleted = mr_deleted r\<rparr>"

subsection \<open>The store\<close>

record members_local =
  ml_baseline :: "space_member list option"
  ml_applied :: "string option"

text \<open>\<open>ms_announced\<close> logs what the mutation listeners were told.\<close>

record members_store =
  ms_rows :: "(string, members_row) jsmap"
  ms_locals :: "(string, members_local) jsmap"
  ms_storage :: "storage option"
  ms_announced :: "state_row list"
  ms_version :: nat

definition spaceMembersRowsKey :: string where
  "spaceMembersRowsKey = ''herder.web.space-members.v1:rows''"

definition spaceMembersLocalKey :: string where
  "spaceMembersLocalKey = ''herder.web.space-members.v1:local''"

definition members_retention :: num where
  "members_retention = 30 * 24 * 60 * 60 * 1000"

definition no_local :: members_local where
  "no_local = \<lparr>ml_baseline = None, ml_applied = None\<rparr>"

definition readJSON :: "storage option \<Rightarrow> string \<Rightarrow> json" where
  "readJSON st key =
     (case st of None \<Rightarrow> JNull | Some s \<Rightarrow> or_else (parse_cell (or_else (getItem s key) None)) JNull)"

definition parseLocal :: "json \<Rightarrow> members_local" where
  "parseLocal v =
     \<lparr>ml_baseline = (case field v ''baseline'' of Some (JArr ms) \<Rightarrow> Some (parse_members [] ms) | _ \<Rightarrow> None),
      ml_applied = as_nonempty (field v ''applied'')\<rparr>"

definition local_json :: "members_local \<Rightarrow> json" where
  "local_json l =
     JObj (opt_field ''baseline'' (\<lambda>ms. JArr (map member_json ms)) (ml_baseline l) @ opt_field ''applied'' JStr (ml_applied l))"

definition row_expired :: "num \<Rightarrow> env \<Rightarrow> members_row \<Rightarrow> bool" where
  "row_expired retention env r \<longleftrightarrow> mr_deleted r \<and> js_sub (now env) (mr_updated r) > retention"

text \<open>Persisting is best effort: a storage that throws is passed over.\<close>

definition persistRows :: "members_store \<Rightarrow> members_store" where
  "persistRows s =
     s\<lparr>ms_storage := map_option (\<lambda>st. fst (setItem spaceMembersRowsKey
         (Json (JArr (map (\<lambda>r. row_json (membersStateRow r)) (vals (ms_rows s))))) st)) (ms_storage s)\<rparr>"

definition persistLocals :: "members_store \<Rightarrow> members_store" where
  "persistLocals s =
     s\<lparr>ms_storage := map_option (\<lambda>st. fst (setItem spaceMembersLocalKey
         (Json (JObj (map (\<lambda>(k, l). (k, local_json l)) (ms_locals s)))) st)) (ms_storage s)\<rparr>"

definition members_changed :: "members_store \<Rightarrow> members_store" where
  "members_changed s = s\<lparr>ms_version := Suc (ms_version s)\<rparr>"

text \<open>Loading: the rows, and whether an expired tombstone was dropped.\<close>

fun load_rows :: "num \<Rightarrow> env \<Rightarrow> json list \<Rightarrow> (string, members_row) jsmap \<Rightarrow> (string, members_row) jsmap \<times> bool" where
  "load_rows retention env [] m = (m, False)"
| "load_rows retention env (v # vs) m =
     (case parseMembersRow v of
        None \<Rightarrow> load_rows retention env vs m
      | Some r \<Rightarrow>
          if row_expired retention env r then (fst (load_rows retention env vs m), True)
          else load_rows retention env vs (put (mr_key r) r m))"

definition createSpaceMembersStore :: "num \<Rightarrow> env \<Rightarrow> storage option \<Rightarrow> members_store" where
  "createSpaceMembersStore retention env st =
     (let (rows, pruned) = load_rows retention env (elements (Some (readJSON st spaceMembersRowsKey))) [];
          locals = map (\<lambda>(k, v). (k, parseLocal v)) (entries (Some (readJSON st spaceMembersLocalKey)));
          s = \<lparr>ms_rows = rows, ms_locals = locals, ms_storage = st, ms_announced = [], ms_version = 0\<rparr>
      in if pruned then persistRows s else s)"

definition write_row :: "members_row \<Rightarrow> members_store \<Rightarrow> members_store" where
  "write_row r s =
     (let s1 = persistRows (s\<lparr>ms_rows := put (mr_key r) r (ms_rows s)\<rparr>)
      in members_changed (s1\<lparr>ms_announced := ms_announced s1 @ [membersStateRow r]\<rparr>))"

definition nextUpdated :: "env \<Rightarrow> string \<Rightarrow> members_store \<Rightarrow> num" where
  "nextUpdated env spaceID s =
     max (now env) (js_add (case get (ms_rows s) spaceID of None \<Rightarrow> 0 | Some r \<Rightarrow> mr_updated r) 1)"

definition local_of :: "members_store \<Rightarrow> string \<Rightarrow> members_local" where
  "local_of s spaceID = or_else (get (ms_locals s) spaceID) no_local"

definition setLocal :: "string \<Rightarrow> members_local \<Rightarrow> members_store \<Rightarrow> members_store" where
  "setLocal spaceID l s = persistLocals (s\<lparr>ms_locals := put spaceID l (ms_locals s)\<rparr>)"

fun unique_members :: "string list \<Rightarrow> space_member list \<Rightarrow> space_member list" where
  "unique_members seen [] = []"
| "unique_members seen (m # ms) =
     (if memberID m \<in> set seen then unique_members seen ms else m # unique_members (memberID m # seen) ms)"

text \<open>The \<open>n\<close>-th fresh id of the environment names the write.\<close>

definition publish_members :: "env \<Rightarrow> nat \<Rightarrow> string \<Rightarrow> space_member list \<Rightarrow> members_store \<Rightarrow> members_row \<times> members_store" where
  "publish_members env n spaceID ms s =
     (let r = \<lparr>mr_key = spaceID, mr_members = unique_members [] ms, mr_updated = nextUpdated env spaceID s,
               mr_writeID = ids env n, mr_deleted = False\<rparr>
      in (r, write_row r s))"

definition remove_members :: "env \<Rightarrow> nat \<Rightarrow> string \<Rightarrow> members_store \<Rightarrow> members_row \<times> members_store" where
  "remove_members env n spaceID s =
     (let r = \<lparr>mr_key = spaceID, mr_members = [], mr_updated = nextUpdated env spaceID s,
               mr_writeID = ids env n, mr_deleted = True\<rparr>
      in (r, write_row r s))"

definition merge_row_step :: "num \<Rightarrow> env \<Rightarrow> state_row \<Rightarrow> bool \<times> members_store \<Rightarrow> bool \<times> members_store" where
  "merge_row_step retention env raw acc =
     (case acc of (merged, s) \<Rightarrow>
        case parseMembersRow (row_json raw) of
          None \<Rightarrow> acc
        | Some r \<Rightarrow>
            if (case get (ms_rows s) (mr_key r) of
                  None \<Rightarrow> False
                | Some c \<Rightarrow> compareStateVersions (mr_updated r) (mr_writeID r) (mr_updated c) (mr_writeID c) \<le> 0) then acc
            else if row_expired retention env r
            then (merged \<or> get (ms_rows s) (mr_key r) \<noteq> None, s\<lparr>ms_rows := del (mr_key r) (ms_rows s)\<rparr>)
            else (True, s\<lparr>ms_rows := put (mr_key r) r (ms_rows s)\<rparr>))"

definition merge_members :: "num \<Rightarrow> env \<Rightarrow> state_row list \<Rightarrow> members_store \<Rightarrow> members_store" where
  "merge_members retention env incoming s =
     (case fold (merge_row_step retention env) incoming (False, s) of
        (True, s') \<Rightarrow> members_changed (persistRows s')
      | (False, s') \<Rightarrow> s')"

definition forget_members :: "string list \<Rightarrow> members_store \<Rightarrow> members_store" where
  "forget_members ks s =
     (let s' = s\<lparr>ms_rows := fold del ks (ms_rows s)\<rparr>
      in if list_ex (\<lambda>k. get (ms_rows s) k \<noteq> None) ks then members_changed (persistRows s') else s)"

subsection \<open>The reconciler\<close>

text \<open>
  The docks of the spaces are a state of their own, which the target reads and adds to. \<open>add\<close> answers
  \<open>False\<close> when a member could not be opened.
\<close>

record 't reconcile_target =
  rt_read :: "'t \<Rightarrow> string \<Rightarrow> space_member list option"
  rt_add :: "string \<Rightarrow> space_member list \<Rightarrow> 't \<Rightarrow> bool \<times> 't"

type_synonym 't reconciling = "string list \<times> members_store \<times> 't"

text \<open>
  Applying a row that was not applied yet: \<open>None\<close> when a member could not be opened, else the members
  now in the dock and the baseline.
\<close>

definition apply_row ::
    "'t reconcile_target \<Rightarrow> string \<Rightarrow> members_row \<Rightarrow> space_member list \<Rightarrow> space_member list option \<Rightarrow> 't
      \<Rightarrow> (space_member list \<times> space_member list option) option \<times> 't" where
  "apply_row tgt spaceID row before baseline t =
     (if mr_deleted row then (Some (before, baseline), t)
      else let missing = filter (\<lambda>m. memberID m \<notin> memberID ` set before) (mr_members row);
               (ok, t1) = (if missing = [] then (True, t) else rt_add tgt spaceID missing t)
           in if \<not> ok then (None, t1)
              else let current = (if missing = [] then before else or_else (rt_read tgt t1 spaceID) before)
                   in (Some (current, case baseline of
                               Some b \<Rightarrow> if sameMembers b before then Some current else Some b
                             | None \<Rightarrow> None), t1))"

text \<open>Whether a space's row is still to apply, and the write that is applied once it is.\<close>

definition unapplied :: "members_store \<Rightarrow> string \<Rightarrow> bool" where
  "unapplied s i \<longleftrightarrow>
     (case get (ms_rows s) i of None \<Rightarrow> False | Some r \<Rightarrow> ml_applied (local_of s i) \<noteq> Some (mr_writeID r))"

definition now_applied :: "members_store \<Rightarrow> string \<Rightarrow> string option" where
  "now_applied s i =
     (case get (ms_rows s) i of None \<Rightarrow> ml_applied (local_of s i) | Some r \<Rightarrow> Some (mr_writeID r))"

definition apply_pending ::
    "'t reconcile_target \<Rightarrow> members_store \<Rightarrow> string \<Rightarrow> space_member list \<Rightarrow> 't
      \<Rightarrow> (space_member list \<times> space_member list option) option \<times> 't" where
  "apply_pending tgt s i before t =
     (let baseline = ml_baseline (local_of s i)
      in if unapplied s i then apply_row tgt i (the (get (ms_rows s) i)) before baseline t
         else (Some (before, baseline), t))"

definition members_differ :: "members_row option \<Rightarrow> space_member list option \<Rightarrow> space_member list \<Rightarrow> bool" where
  "members_differ row baseline current =
     (case baseline of
        Some b \<Rightarrow> \<not> sameMembers b current
      | None \<Rightarrow> (case row of None \<Rightarrow> True | Some r \<Rightarrow> mr_deleted r \<or> \<not> sameMembers (mr_members r) current))"

text \<open>The dock against the baseline: published when it differs, else the bookkeeping.\<close>

definition settle_space ::
    "env \<Rightarrow> string \<Rightarrow> space_member list \<Rightarrow> space_member list option \<Rightarrow> string list \<Rightarrow> members_store \<Rightarrow> string list \<times> members_store" where
  "settle_space env i current baseline published s =
     (if members_differ (get (ms_rows s) i) baseline current
      then (let (w, s1) = publish_members env (length published) i current s
            in (published @ [i], setLocal i \<lparr>ml_baseline = Some current, ml_applied = Some (mr_writeID w)\<rparr> s1))
      else if baseline \<noteq> ml_baseline (local_of s i) \<or> now_applied s i \<noteq> ml_applied (local_of s i) \<or> baseline = None
      then (published, setLocal i \<lparr>ml_baseline = Some (or_else baseline current), ml_applied = now_applied s i\<rparr> s)
      else (published, s))"

definition reconcile_live :: "'t reconcile_target \<Rightarrow> env \<Rightarrow> string \<Rightarrow> 't reconciling \<Rightarrow> 't reconciling" where
  "reconcile_live tgt env i acc =
     (case acc of (published, s, t) \<Rightarrow>
        case rt_read tgt t i of
          None \<Rightarrow> acc
        | Some before \<Rightarrow>
            (case apply_pending tgt s i before t of
               (None, t1) \<Rightarrow> (published, s, t1)
             | (Some (current, baseline), t1) \<Rightarrow>
                 (case settle_space env i current baseline published s of (published', s') \<Rightarrow> (published', s', t1))))"

definition reconcile_closed :: "env \<Rightarrow> string \<Rightarrow> 't reconciling \<Rightarrow> 't reconciling" where
  "reconcile_closed env spaceID acc =
     (case acc of (published, s, t) \<Rightarrow>
        case get (ms_rows s) spaceID of
          None \<Rightarrow> acc
        | Some r \<Rightarrow>
            if mr_deleted r then acc
            else let (w, s1) = remove_members env (length published) spaceID s
                 in (published @ [spaceID],
                     setLocal spaceID \<lparr>ml_baseline = None, ml_applied = Some (mr_writeID w)\<rparr> s1, t))"

definition reconcileSpaceMembers ::
    "'t reconcile_target \<Rightarrow> env \<Rightarrow> string list \<Rightarrow> string list \<Rightarrow> members_store \<Rightarrow> 't \<Rightarrow> 't reconciling" where
  "reconcileSpaceMembers tgt env live shut s t =
     fold (reconcile_closed env) shut (fold (reconcile_live tgt env) live ([], s, t))"

text \<open>
  The docks of the spaces that are not shown, as \<^verbatim>\<open>features/workspace/useSpaceMembers.ts\<close> reads and
  extends them: their stored layouts. Every missing member is written, and one refusal is enough to hold
  the row back. (The dock of the space that is shown is the dock library's.)
\<close>

fun add_stored :: "num \<Rightarrow> string \<Rightarrow> space_member list \<Rightarrow> storage \<Rightarrow> bool \<times> storage" where
  "add_stored time spaceID [] st = (True, st)"
| "add_stored time spaceID (m # ms) st =
     (case writePanelToStoredSpace time spaceID (memberParams m) st of
        None \<Rightarrow> (False, st)
      | Some (r, st1) \<Rightarrow> (case add_stored time spaceID ms st1 of (ok, st2) \<Rightarrow> (isl r = False \<and> ok, st2)))"

definition stored_docks :: "num \<Rightarrow> storage reconcile_target" where
  "stored_docks time = \<lparr>rt_read = storedSpaceMembers, rt_add = add_stored time\<rparr>"

text \<open>The members of the spaces listed, from their rows or, where there is none, from their docks.\<close>

definition membersBySpace ::
    "(string \<Rightarrow> space_member list option) \<Rightarrow> string list \<Rightarrow> members_store \<Rightarrow> (string \<times> space_member list) list" where
  "membersBySpace read_dock spaces s =
     map (\<lambda>i. (i, case get (ms_rows s) i of
                    Some r \<Rightarrow> if mr_deleted r then or_else (read_dock i) [] else mr_members r
                  | None \<Rightarrow> or_else (read_dock i) [])) spaces"

text \<open>The row of one space given to another that has none, and removed.\<close>

definition moveMembers :: "env \<Rightarrow> string \<Rightarrow> string \<Rightarrow> members_store \<Rightarrow> members_store" where
  "moveMembers env from_id to_id s =
     (case get (ms_rows s) from_id of
        None \<Rightarrow> s
      | Some r \<Rightarrow>
          if mr_deleted r then s
          else let give = (case get (ms_rows s) to_id of
                             None \<Rightarrow> True
                           | Some q \<Rightarrow> mr_deleted q \<or> mr_members q = []);
                   s1 = (if give then snd (publish_members env 0 to_id (mr_members r) s) else s)
               in snd (remove_members env (if give then 1 else 0) from_id s1))"

subsection \<open>The adapter\<close>

definition all_member_rows :: "members_store \<Rightarrow> members_row list" where
  "all_member_rows s = vals (ms_rows s)"

definition spaceMembersStoreSyncAdapter :: "num \<Rightarrow> members_store sync_store" where
  "spaceMembersStoreSyncAdapter retention =
     \<lparr>all_rows = (\<lambda>s. map membersStateRow (all_member_rows s)),
      row_of = (\<lambda>s k. find (\<lambda>r. row_key r = k) (map membersStateRow (all_member_rows s))),
      merge_rows = merge_members retention,
      forget_rows = forget_members\<rparr>"

definition members_plural :: "nat \<Rightarrow> string \<Rightarrow> string \<Rightarrow> string" where
  "members_plural n one many = (if n = 1 then one else many)"

definition spaceMembersSyncMessages :: sync_messages where
  "spaceMembersSyncMessages =
     \<lparr>browserOnly = ''Space tabs are saved in this browser only.'',
      pendingMsg = (\<lambda>n. ''Space tabs are saved on this device, but '' @ digits n @ '' '' @ members_plural n ''change'' ''changes''
        @ '' could not sync. '' @ members_plural n ''It'' ''They'' @ '' will retry automatically.''),
      queuePersistence = ''Space tabs are saved on this device, but the pending sync queue could not be saved between browser sessions.'',
      postRefused = (\<lambda>_ detail. ''Space tabs are saved on this device, but the server refused to sync them: '' @ detail),
      cursorPersistence = ''Space tabs are saved on this device, but the sync cursor could not be saved between browser sessions.''\<rparr>"

definition createSpaceMembersSync :: "num \<Rightarrow> members_store sync_config" where
  "createSpaceMembersSync retention =
     \<lparr>namespace = ''spaces.members'', compare_rows = compareRows, messages = spaceMembersSyncMessages,
      ops = spaceMembersStoreSyncAdapter retention, maxPostBytes = maxStatePostBytes, can_retry = True\<rparr>"

end
