(* ===== verification/SpaceMembersProps.thy ===== *)
theory SpaceMembersProps
  imports SpaceMembers
begin

section \<open>What the members store and the reconciler keep\<close>

text \<open>
  The members of a dock are its pinned tabs; the store keeps the engine's contract; and reconciling
  settles: what it published or applied, it leaves alone the next time.
\<close>

subsection \<open>Members\<close>

lemma memberID_eq [simp]: "memberID a = memberID b \<longleftrightarrow> a = b"
  by (simp only: memberID_def panelID_eq, cases a; cases b; simp)

lemma sameMembers_eq [simp]: "sameMembers l r \<longleftrightarrow> l = r"
  by (auto simp: sameMembers_def list.rel_eq dest: list_all2_lengthD)

subsection \<open>Frames\<close>

lemma persist_frame [simp]:
  "ms_rows (persistRows s) = ms_rows s" "ms_locals (persistRows s) = ms_locals s"
  "ms_rows (persistLocals s) = ms_rows s" "ms_locals (persistLocals s) = ms_locals s"
  "ms_rows (members_changed s) = ms_rows s" "ms_locals (members_changed s) = ms_locals s"
  by (simp_all add: persistRows_def persistLocals_def members_changed_def)

lemma write_row_frame [simp]:
  "ms_rows (write_row r s) = put (mr_key r) r (ms_rows s)" "ms_locals (write_row r s) = ms_locals s"
  by (simp_all add: write_row_def Let_def)

lemma setLocal_frame [simp]:
  "ms_rows (setLocal i l s) = ms_rows s" "ms_locals (setLocal i l s) = put i l (ms_locals s)"
  by (simp_all add: setLocal_def)

lemma local_of_setLocal: "local_of (setLocal i l s) k = (if k = i then l else local_of s k)"
  by (simp add: local_of_def get_put)

lemma local_of_write_row [simp]: "local_of (write_row r s) k = local_of s k"
  by (simp add: local_of_def)

subsection \<open>Reconciling\<close>

text \<open>
  A space is at rest when its dock is the baseline and its row is applied; it is held back when it has
  a row that is not applied (a member could not be opened).
\<close>

definition at_rest :: "'t reconcile_target \<Rightarrow> members_store \<Rightarrow> 't \<Rightarrow> string \<Rightarrow> bool" where
  "at_rest tgt s t i \<longleftrightarrow>
     (case rt_read tgt t i of
        None \<Rightarrow> True
      | Some current \<Rightarrow> ml_baseline (local_of s i) = Some current \<and>
          (\<forall>r. get (ms_rows s) i = Some r \<longrightarrow> ml_applied (local_of s i) = Some (mr_writeID r)))"

definition held_back :: "members_store \<Rightarrow> string \<Rightarrow> bool" where
  "held_back s i \<longleftrightarrow>
     (\<exists>r. get (ms_rows s) i = Some r \<and> \<not> mr_deleted r \<and> ml_applied (local_of s i) \<noteq> Some (mr_writeID r))"

definition gone :: "members_store \<Rightarrow> string \<Rightarrow> bool" where
  "gone s i \<longleftrightarrow> (case get (ms_rows s) i of None \<Rightarrow> True | Some r \<Rightarrow> mr_deleted r)"

text \<open>What a step on another space leaves of a space.\<close>

definition same_at :: "'t reconcile_target \<Rightarrow> string \<Rightarrow> members_store \<Rightarrow> 't \<Rightarrow> members_store \<Rightarrow> 't \<Rightarrow> bool" where
  "same_at tgt i s t s' t' \<longleftrightarrow>
     get (ms_rows s') i = get (ms_rows s) i \<and> local_of s' i = local_of s i \<and> rt_read tgt t' i = rt_read tgt t i"

lemma same_at_keeps:
  assumes "same_at tgt i s t s' t'"
  shows "at_rest tgt s' t' i = at_rest tgt s t i" and "held_back s' i = held_back s i" and "gone s' i = gone s i"
  using assms by (simp_all add: same_at_def at_rest_def held_back_def gone_def split: option.split)

lemma same_at_refl [simp]: "same_at tgt i s t s t"
  by (simp add: same_at_def)

text \<open>What the reconciler asks of the docks: adding to one does not change another.\<close>

locale reconcile_docks =
  fixes tgt :: "'t reconcile_target"
  assumes add_other: "rt_add tgt i ms t = (ok, t') \<Longrightarrow> k \<noteq> i \<Longrightarrow> rt_read tgt t' k = rt_read tgt t k"
begin

lemma apply_row_outcome:
  assumes "apply_row tgt i r before baseline t = (res, t1)" and "rt_read tgt t i = Some before"
  shows "\<forall>k. k \<noteq> i \<longrightarrow> rt_read tgt t1 k = rt_read tgt t k" and "res = None \<Longrightarrow> \<not> mr_deleted r"
    and "res = Some (current, b) \<Longrightarrow> rt_read tgt t1 i = Some current \<or> rt_read tgt t1 i = None"
proof -
  define missing where "missing = filter (\<lambda>m. memberID m \<notin> memberID ` set before) (mr_members r)"
  consider "mr_deleted r \<or> missing = []" | "\<not> mr_deleted r" "missing \<noteq> []" by blast
  then have "(\<forall>k. k \<noteq> i \<longrightarrow> rt_read tgt t1 k = rt_read tgt t k) \<and> (res = None \<longrightarrow> \<not> mr_deleted r) \<and>
    (\<forall>current b. res = Some (current, b) \<longrightarrow> (rt_read tgt t1 i = Some current \<or> rt_read tgt t1 i = None))"
  proof cases
    case 1
    with assms show ?thesis by (auto simp: apply_row_def missing_def [symmetric] split: if_splits)
  next
    case 2
    obtain ok t2 where a: "rt_add tgt i missing t = (ok, t2)" by fastforce
    have "t1 = t2" and res: "res = None \<or> (\<exists>b. res = Some (or_else (rt_read tgt t2 i) before, b))"
      using assms(1) 2 a by (auto simp: apply_row_def missing_def [symmetric] Let_def split: if_splits option.splits)
    with add_other [OF a] 2 show ?thesis by (cases "rt_read tgt t2 i") auto
  qed
  then show "\<forall>k. k \<noteq> i \<longrightarrow> rt_read tgt t1 k = rt_read tgt t k" "res = None \<Longrightarrow> \<not> mr_deleted r"
    "res = Some (current, b) \<Longrightarrow> rt_read tgt t1 i = Some current \<or> rt_read tgt t1 i = None" by simp_all
qed

lemma apply_pending_outcome:
  assumes a: "apply_pending tgt s i before t = (res, t1)" and "rt_read tgt t i = Some before"
  shows "\<forall>k. k \<noteq> i \<longrightarrow> rt_read tgt t1 k = rt_read tgt t k" and "res = None \<Longrightarrow> held_back s i"
    and "res = Some (current, b) \<Longrightarrow> rt_read tgt t1 i = Some current \<or> rt_read tgt t1 i = None"
    and "\<not> unapplied s i \<Longrightarrow> res = Some (before, ml_baseline (local_of s i)) \<and> t1 = t"
proof -
  show "\<not> unapplied s i \<Longrightarrow> res = Some (before, ml_baseline (local_of s i)) \<and> t1 = t"
    using a by (simp add: apply_pending_def)
  show "\<forall>k. k \<noteq> i \<longrightarrow> rt_read tgt t1 k = rt_read tgt t k"
    using a apply_row_outcome(1) [OF _ assms(2)] by (cases "unapplied s i") (simp_all add: apply_pending_def)
  show "res = None \<Longrightarrow> held_back s i"
  proof -
    assume n: "res = None"
    then have u: "unapplied s i" using a by (auto simp: apply_pending_def Let_def split: if_splits)
    then obtain r where r: "get (ms_rows s) i = Some r" "ml_applied (local_of s i) \<noteq> Some (mr_writeID r)"
      by (auto simp: unapplied_def split: option.splits)
    then have "apply_row tgt i r before (ml_baseline (local_of s i)) t = (res, t1)"
      using a u by (simp add: apply_pending_def)
    from apply_row_outcome(2) [OF this assms(2) n] r show "held_back s i" by (simp add: held_back_def)
  qed
  show "res = Some (current, b) \<Longrightarrow> rt_read tgt t1 i = Some current \<or> rt_read tgt t1 i = None"
    using a apply_row_outcome(3) [OF _ assms(2)] assms(2)
    by (cases "unapplied s i") (simp_all add: apply_pending_def)
qed

text \<open>Settling one space: its local state is the dock, the others are as they were.\<close>

lemma settle_space_outcome:
  assumes "settle_space env i current baseline pub s = (pub', s')"
  shows "ml_baseline (local_of s' i) = Some current"
    and "get (ms_rows s') i = Some r \<Longrightarrow> ml_applied (local_of s' i) = Some (mr_writeID r)"
    and "k \<noteq> i \<Longrightarrow> get (ms_rows s') k = get (ms_rows s) k \<and> local_of s' k = local_of s k"
    and "pub' = pub \<or> pub' = pub @ [i]"
    and "ml_baseline (local_of s i) = Some current \<Longrightarrow> baseline = Some current \<Longrightarrow> \<not> unapplied s i \<Longrightarrow> (pub', s') = (pub, s)"
proof -
  show "ml_baseline (local_of s' i) = Some current"
    using assms by (auto simp: settle_space_def members_differ_def Let_def local_of_setLocal split: if_splits option.splits prod.splits)
  show "get (ms_rows s') i = Some r \<Longrightarrow> ml_applied (local_of s' i) = Some (mr_writeID r)"
    using assms by (auto simp: settle_space_def publish_members_def now_applied_def Let_def local_of_setLocal get_put split: if_splits)
  show "k \<noteq> i \<Longrightarrow> get (ms_rows s') k = get (ms_rows s) k \<and> local_of s' k = local_of s k"
    using assms by (auto simp: settle_space_def publish_members_def Let_def local_of_setLocal get_put split: if_splits)
  show "pub' = pub \<or> pub' = pub @ [i]"
    using assms by (auto simp: settle_space_def publish_members_def Let_def split: if_splits)
  show "ml_baseline (local_of s i) = Some current \<Longrightarrow> baseline = Some current \<Longrightarrow> \<not> unapplied s i \<Longrightarrow> (pub', s') = (pub, s)"
    using assms by (cases "get (ms_rows s) i") (auto simp: settle_space_def members_differ_def now_applied_def unapplied_def)
qed

text \<open>One live space: it ends at rest or held back, the others are as they were.\<close>

lemma reconcile_live_outcome:
  assumes "reconcile_live tgt env i (pub, s, t) = (pub', s', t')"
  shows "at_rest tgt s' t' i \<or> held_back s' i" and "k \<noteq> i \<Longrightarrow> same_at tgt k s t s' t'"
    and "pub' = pub \<or> pub' = pub @ [i]" and "at_rest tgt s t i \<Longrightarrow> (pub', s', t') = (pub, s, t)"
proof -
  have "(at_rest tgt s' t' i \<or> held_back s' i) \<and> (\<forall>k. k \<noteq> i \<longrightarrow> same_at tgt k s t s' t') \<and>
    (pub' = pub \<or> pub' = pub @ [i]) \<and> (at_rest tgt s t i \<longrightarrow> (pub', s', t') = (pub, s, t))"
  proof (cases "rt_read tgt t i")
    case None
    with assms show ?thesis by (auto simp: reconcile_live_def at_rest_def)
  next
    case (Some before)
    obtain res t1 where a: "apply_pending tgt s i before t = (res, t1)" by fastforce
    note out = apply_pending_outcome [OF a Some]
    have start: "at_rest tgt s t i \<longleftrightarrow> ml_baseline (local_of s i) = Some before \<and> \<not> unapplied s i"
      using Some by (cases "get (ms_rows s) i") (simp_all add: at_rest_def unapplied_def)
    show ?thesis
    proof (cases res)
      case None
      then have "pub' = pub" "s' = s" "t' = t1" using assms Some a by (simp_all add: reconcile_live_def)
      moreover have "unapplied s i" using out(4) None by auto
      ultimately show ?thesis using out(1) out(2) [OF None] start by (simp add: same_at_def)
    next
      case (Some p)
      obtain current baseline where p: "res = Some (current, baseline)" using Some by (cases p) simp
      obtain pub2 s2 where st: "settle_space env i current baseline pub s = (pub2, s2)" by fastforce
      have eq: "pub' = pub2" "s' = s2" "t' = t1"
        using assms \<open>rt_read tgt t i = Some before\<close> a p st by (simp_all add: reconcile_live_def)
      note se = settle_space_outcome [OF st]
      have "at_rest tgt s' t' i"
        using out(3) [OF p] se(1,2) unfolding eq by (auto simp: at_rest_def)
      moreover have "\<forall>k. k \<noteq> i \<longrightarrow> same_at tgt k s t s' t'" using out(1) se(3) unfolding eq by (simp add: same_at_def)
      moreover have "(pub', s', t') = (pub, s, t)" if "at_rest tgt s t i"
      proof -
        have "current = before" "baseline = Some before" "t1 = t" using start that out(4) p by auto
        with se(5) start that eq show ?thesis by simp
      qed
      ultimately show ?thesis using se(4) unfolding eq by blast
    qed
  qed
  then show "at_rest tgt s' t' i \<or> held_back s' i" "k \<noteq> i \<Longrightarrow> same_at tgt k s t s' t'"
    "pub' = pub \<or> pub' = pub @ [i]" "at_rest tgt s t i \<Longrightarrow> (pub', s', t') = (pub, s, t)" by simp_all
qed

text \<open>All live spaces.\<close>

lemma fold_live_outcome:
  assumes "fold (reconcile_live tgt env) live (pub, s, t) = (pub', s', t')"
  shows "\<forall>i. i \<in> set live \<or> at_rest tgt s t i \<or> held_back s i \<longrightarrow> at_rest tgt s' t' i \<or> held_back s' i"
    and "\<forall>k. k \<notin> set live \<longrightarrow> same_at tgt k s t s' t'"
    and "\<forall>i. at_rest tgt s t i \<longrightarrow> at_rest tgt s' t' i"
    and "\<forall>i \<in> set pub'. i \<in> set pub \<or> \<not> at_rest tgt s t i"
proof -
  have "(\<forall>i. i \<in> set live \<or> at_rest tgt s t i \<or> held_back s i \<longrightarrow> at_rest tgt s' t' i \<or> held_back s' i) \<and>
    (\<forall>k. k \<notin> set live \<longrightarrow> same_at tgt k s t s' t') \<and> (\<forall>i. at_rest tgt s t i \<longrightarrow> at_rest tgt s' t' i) \<and>
    (\<forall>i \<in> set pub'. i \<in> set pub \<or> \<not> at_rest tgt s t i)"
    using assms
  proof (induction live arbitrary: pub s t)
    case (Cons j live)
    obtain pub1 s1 t1 where one: "reconcile_live tgt env j (pub, s, t) = (pub1, s1, t1)" by (metis prod_cases3)
    note out = reconcile_live_outcome [OF one]
    have rest: "fold (reconcile_live tgt env) live (pub1, s1, t1) = (pub', s', t')" using Cons.prems one by simp
    note ih = Cons.IH [OF rest]
    have keep: "at_rest tgt s1 t1 i = at_rest tgt s t i" "held_back s1 i = held_back s i" if "i \<noteq> j" for i
      using same_at_keeps [OF out(2) [OF that]] by simp_all
    have j: "at_rest tgt s t j \<Longrightarrow> at_rest tgt s1 t1 j" using out(4) by simp
    have p1: "i \<in> set pub1 \<Longrightarrow> i \<in> set pub \<or> \<not> at_rest tgt s t i" for i
      using out(3,4) by (cases "at_rest tgt s t j") auto
    have same: "k \<notin> set (j # live) \<Longrightarrow> same_at tgt k s t s' t'" for k
      using ih out(2) [of k] by (auto simp: same_at_def)
    have at_rest': "at_rest tgt s t i \<Longrightarrow> at_rest tgt s' t' i" for i
      using ih keep(1) [of i] j by (cases "i = j") auto
    have all: "i \<in> set (j # live) \<or> at_rest tgt s t i \<or> held_back s i \<Longrightarrow> at_rest tgt s' t' i \<or> held_back s' i" for i
      using ih keep [of i] out(1) by (cases "i = j") auto
    have pubs: "i \<in> set pub' \<Longrightarrow> i \<in> set pub \<or> \<not> at_rest tgt s t i" for i
      using ih p1 [of i] keep(1) [of i] j by (cases "i = j") auto
    from same at_rest' all pubs show ?case by blast
  qed (simp add: same_at_def)
  then show "\<forall>i. i \<in> set live \<or> at_rest tgt s t i \<or> held_back s i \<longrightarrow> at_rest tgt s' t' i \<or> held_back s' i"
    "\<forall>k. k \<notin> set live \<longrightarrow> same_at tgt k s t s' t'" "\<forall>i. at_rest tgt s t i \<longrightarrow> at_rest tgt s' t' i"
    "\<forall>i \<in> set pub'. i \<in> set pub \<or> \<not> at_rest tgt s t i" by blast+
qed

text \<open>Closed spaces: their rows are tombstones afterwards, and nothing else changes.\<close>

lemma reconcile_closed_outcome:
  assumes "reconcile_closed env i (pub, s, t) = (pub', s', t')"
  shows "gone s' i" and "k \<noteq> i \<Longrightarrow> same_at tgt k s t s' t'" and "pub' = pub \<or> pub' = pub @ [i]"
    and "gone s i \<Longrightarrow> (pub', s', t') = (pub, s, t)"
proof -
  have "gone s' i \<and> (k \<noteq> i \<longrightarrow> same_at tgt k s t s' t') \<and> (pub' = pub \<or> pub' = pub @ [i]) \<and>
    (gone s i \<longrightarrow> (pub', s', t') = (pub, s, t))"
    using assms
    by (cases "get (ms_rows s) i")
      (auto simp: reconcile_closed_def remove_members_def gone_def same_at_def Let_def get_put local_of_setLocal split: if_splits)
  then show "gone s' i" "k \<noteq> i \<Longrightarrow> same_at tgt k s t s' t'" "pub' = pub \<or> pub' = pub @ [i]"
    "gone s i \<Longrightarrow> (pub', s', t') = (pub, s, t)" by simp_all
qed

lemma fold_closed_outcome:
  assumes "fold (reconcile_closed env) shut (pub, s, t) = (pub', s', t')"
  shows "\<forall>i. i \<in> set shut \<or> gone s i \<longrightarrow> gone s' i" and "\<forall>k. k \<notin> set shut \<longrightarrow> same_at tgt k s t s' t'"
    and "\<forall>i \<in> set pub'. i \<in> set pub \<or> (i \<in> set shut \<and> \<not> gone s i)"
proof -
  have "(\<forall>i. i \<in> set shut \<or> gone s i \<longrightarrow> gone s' i) \<and> (\<forall>k. k \<notin> set shut \<longrightarrow> same_at tgt k s t s' t') \<and>
    (\<forall>i \<in> set pub'. i \<in> set pub \<or> (i \<in> set shut \<and> \<not> gone s i))"
    using assms
  proof (induction shut arbitrary: pub s t)
    case (Cons j shut)
    obtain pub1 s1 t1 where one: "reconcile_closed env j (pub, s, t) = (pub1, s1, t1)" by (metis prod_cases3)
    note out = reconcile_closed_outcome [OF one]
    have rest: "fold (reconcile_closed env) shut (pub1, s1, t1) = (pub', s', t')" using Cons.prems one by simp
    note ih = Cons.IH [OF rest]
    have keep: "gone s1 i = gone s i" if "i \<noteq> j" for i using same_at_keeps(3) [OF out(2) [OF that]] .
    have gone': "i \<in> set (j # shut) \<or> gone s i \<Longrightarrow> gone s' i" for i
      using ih keep [of i] out(1) by (cases "i = j") auto
    have same: "k \<notin> set (j # shut) \<Longrightarrow> same_at tgt k s t s' t'" for k
      using ih out(2) [of k] by (auto simp: same_at_def)
    have pubs: "i \<in> set pub' \<Longrightarrow> i \<in> set pub \<or> (i \<in> set (j # shut) \<and> \<not> gone s i)" for i
      using ih keep [of i] out(1,3,4) by (cases "i = j"; cases "gone s j") auto
    from gone' same pubs show ?case by blast
  qed (simp add: same_at_def)
  then show "\<forall>i. i \<in> set shut \<or> gone s i \<longrightarrow> gone s' i" "\<forall>k. k \<notin> set shut \<longrightarrow> same_at tgt k s t s' t'"
    "\<forall>i \<in> set pub'. i \<in> set pub \<or> (i \<in> set shut \<and> \<not> gone s i)" by blast+
qed

text \<open>Reconciling again publishes nothing but spaces whose row could not be applied.\<close>

lemma reconcile_twice:
  assumes d: "set live \<inter> set shut = {}"
    and r1: "reconcileSpaceMembers tgt env live shut s t = (p1, s1, t1)"
    and r2: "reconcileSpaceMembers tgt env' live shut s1 t1 = (p2, s2, t2)"
  shows "\<forall>i \<in> set p2. held_back s1 i"
    and "\<forall>i \<in> set live. \<not> held_back s1 i \<longrightarrow> at_rest tgt s1 t1 i" and "\<forall>i \<in> set shut. gone s1 i"
proof -
  obtain pa sa ta where a: "fold (reconcile_live tgt env) live ([], s, t) = (pa, sa, ta)" by (metis prod_cases3)
  have b: "fold (reconcile_closed env) shut (pa, sa, ta) = (p1, s1, t1)" using r1 a by (simp add: reconcileSpaceMembers_def)
  obtain pc sc tc where c: "fold (reconcile_live tgt env') live ([], s1, t1) = (pc, sc, tc)" by (metis prod_cases3)
  have e: "fold (reconcile_closed env') shut (pc, sc, tc) = (p2, s2, t2)" using r2 c by (simp add: reconcileSpaceMembers_def)
  note oa = fold_live_outcome [OF a] and ob = fold_closed_outcome [OF b] and oc = fold_live_outcome [OF c]
    and oe = fold_closed_outcome [OF e]
  have live: "at_rest tgt s1 t1 i \<or> held_back s1 i" if "i \<in> set live" for i
  proof -
    have "i \<notin> set shut" using d that by blast
    then have "same_at tgt i sa ta s1 t1" using ob(2) by blast
    from same_at_keeps(1,2) [OF this] oa(1) that show ?thesis by simp
  qed
  then show "\<forall>i \<in> set live. \<not> held_back s1 i \<longrightarrow> at_rest tgt s1 t1 i" by blast
  show shut: "\<forall>i \<in> set shut. gone s1 i" using ob(1) by blast
  have pc: "i \<in> set live" if "i \<in> set pc" for i
  proof (rule ccontr)
    have "set pc' \<subseteq> set pub \<union> set is" if "fold (reconcile_live tgt env') is (pub, u, v) = (pc', u', v')" for "is" pub u v pc' u' v'
      using that
    proof (induction "is" arbitrary: pub u v)
      case (Cons j js)
      obtain q w x where one: "reconcile_live tgt env' j (pub, u, v) = (q, w, x)" by (metis prod_cases3)
      with Cons reconcile_live_outcome(3) [OF one] show ?case by fastforce
    qed simp
    from this [OF c] have "set pc \<subseteq> set live" by simp
    moreover assume "i \<notin> set live"
    ultimately show False using that by blast
  qed
  show "\<forall>i \<in> set p2. held_back s1 i"
  proof
    fix i
    assume i: "i \<in> set p2"
    show "held_back s1 i"
    proof (cases "i \<in> set shut")
      case True
      then have "i \<notin> set live" using d by blast
      then have "same_at tgt i s1 t1 sc tc" using oc(2) by blast
      from same_at_keeps(3) [OF this] shut True have "gone sc i" by simp
      with oe(3) i have "i \<in> set pc" by blast
      with pc \<open>i \<notin> set live\<close> show ?thesis by blast
    next
      case False
      with oe(3) i have "i \<in> set pc" by blast
      with oc(4) pc live show ?thesis by fastforce
    qed
  qed
qed

end

subsection \<open>The stored layouts as docks\<close>

lemma spaceLayout_keys_inj:
  "i \<noteq> k \<Longrightarrow> spaceLayoutKey k \<noteq> spaceLayoutKey i" "i \<noteq> k \<Longrightarrow> spaceLayoutBackupKey k \<noteq> spaceLayoutBackupKey i"
  by (simp_all add: spaceLayoutKey_def spaceLayoutBackupKey_def)

text \<open>What sending a panel to a space leaves of another space's copies.\<close>

definition same_layout :: "string \<Rightarrow> storage \<Rightarrow> storage \<Rightarrow> bool" where
  "same_layout k st st' \<longleftrightarrow> readable st' = readable st \<and>
     get (items st') (spaceLayoutKey k) = get (items st) (spaceLayoutKey k) \<and>
     get (items st') (spaceLayoutBackupKey k) = get (items st) (spaceLayoutBackupKey k)"

lemma same_layout_trans: "same_layout k a b \<Longrightarrow> same_layout k b c \<Longrightarrow> same_layout k a c"
  by (simp add: same_layout_def)

lemma same_layout_read: "readStoredSpaceLayout t w i st = Some (r, st') \<Longrightarrow> same_layout k st st'"
  using preserve_corrupt_other [of "spaceLayoutKey k" i t] preserve_corrupt_other [of "spaceLayoutBackupKey k" i t]
    layout_keys(2,3) readable_preserve_corrupt [of t i]
  by (auto simp: readStoredSpaceLayout_def same_layout_def Let_def split: option.splits if_splits)

lemma same_layout_write:
  assumes "i \<noteq> k"
  shows "same_layout k st (snd (snd (writeStoredSpaceLayout i raw state st)))"
proof -
  have other: "get (items (fst (setItem (spaceLayoutKey i) raw u))) x = get (items u) x"
    "get (items (fst (setItem (spaceLayoutBackupKey i) c u))) x = get (items u) x"
    if "x \<in> {spaceLayoutKey k, spaceLayoutBackupKey k}" for u x c
    using that assms spaceLayout_keys_inj [of i k] layout_keys(1)
    by (metis insert_iff setItem_other singletonD)+
  show ?thesis
    using other by (auto simp: writeStoredSpaceLayout_def write_last_good_def same_layout_def Let_def split: prod.splits)
      (metis fst_conv insertCI readable_setItem)+
qed

lemma same_layout_send:
  assumes w: "writePanelToStoredSpace t i p st = Some (r, st')" and ne: "i \<noteq> k"
  shows "same_layout k st st'"
proof -
  obtain target st1 where r1: "readStoredSpaceLayout t True i st = Some (target, st1)"
    using w by (auto simp: writePanelToStoredSpace_def split: option.splits)
  note one = same_layout_read [OF r1, of k]
  consider "st' = st1"
    | raw state where "st' = snd (snd (writeStoredSpaceLayout i raw state st1))"
    | raw state v where "readStoredSpaceLayout t True i (snd (snd (writeStoredSpaceLayout i raw state st1))) = Some (v, st')"
    using w r1
    by (auto simp: writePanelToStoredSpace_def Let_def split: option.splits if_splits prod.splits) (metis snd_conv)+
  then show ?thesis
  proof cases
    case 2
    with same_layout_trans [OF one same_layout_write [OF ne]] show ?thesis by simp
  next
    case 3
    from same_layout_trans [OF same_layout_trans [OF one same_layout_write [OF ne]] same_layout_read [OF 3]] show ?thesis .
  qed (use one in simp)
qed

lemma same_layout_add: "add_stored t i ms st = (ok, st') \<Longrightarrow> i \<noteq> k \<Longrightarrow> same_layout k st st'"
proof (induction ms arbitrary: st ok)
  case (Cons m ms)
  show ?case
  proof (cases "writePanelToStoredSpace t i (memberParams m) st")
    case None
    with Cons.prems show ?thesis by (simp add: same_layout_def)
  next
    case (Some p)
    obtain r st1 where p: "writePanelToStoredSpace t i (memberParams m) st = Some (r, st1)" using Some by (cases p) simp
    obtain ok2 where "add_stored t i ms st1 = (ok2, st')" using Cons.prems(1) p by (auto split: prod.splits)
    from same_layout_trans [OF same_layout_send [OF p Cons.prems(2)] Cons.IH [OF this Cons.prems(2)]] show ?thesis .
  qed
qed (simp add: same_layout_def)

lemma same_layout_members: "same_layout k st st' \<Longrightarrow> storedSpaceMembers st' k = storedSpaceMembers st k"
  by (cases "readable st") (simp_all add: storedSpaceMembers_def readStoredSpaceLayout_def same_layout_def getItem_def Let_def)

interpretation stored: reconcile_docks "stored_docks time" for time
  by unfold_locales (simp add: stored_docks_def same_layout_members [OF same_layout_add])

end
