(* ===== verification/SpaceMembersClaims.thy ===== *)
theory SpaceMembersClaims
  imports SpaceMembersProps
begin

section \<open>Members: reference definitions, the engine's contract, settling\<close>

text \<open>
  The members of a valid dock against a reference definition, the members store as a store of the sync
  engine (an instance of \<open>sync_contract\<close>), and what reconciling leaves.
\<close>

subsection \<open>The members of a dock\<close>

lemma string_elements_strings: "json_strings xs = Some ss \<Longrightarrow> string_elements xs = ss"
  by (induction xs arbitrary: ss rule: json_strings.induct) (auto simp: string_elements_def List.map_filter_simps)

lemma string_list_Some: "string_list v = Some ss \<longleftrightarrow> (\<exists>xs. v = Some (JArr xs) \<and> json_strings xs = Some ss)"
proof (cases v)
  case (Some x)
  then show ?thesis by (cases x) (simp_all add: string_list_def as_strings_def)
qed (simp add: string_list_def)

lemma gridPanelOrder_tabs: "validGridNode v panelIDs \<Longrightarrow> gridPanelOrder v = tabs v"
proof (induction v rule: gridPanelOrder.induct)
  case (1 v)
  show ?case
  proof (cases "field v ''type'' = Some (JStr ''leaf'')")
    case True
    then obtain d views s where "field v ''data'' = Some d" "as_string (field d ''id'') = Some s"
      "string_list (field d ''views'') = Some views"
      using "1.prems" by (auto simp: validGridNode.simps [of v] valid_group_def split: option.splits if_splits)
    moreover from this have "string_elements (elements (field d ''views'')) = views"
      by (auto simp: string_list_Some string_elements_strings)
    ultimately show ?thesis using True by (simp add: gridPanelOrder.simps [of v] tabs.simps [of v] group_tabs_def)
  next
    case False
    then have b: "field v ''type'' = Some (JStr ''branch'')"
      "\<forall>c \<in> set (elements (field v ''data'')). validGridNode c panelIDs"
      using "1.prems" by (auto simp: validGridNode.simps [of v] split: if_splits)
    have "concat (map gridPanelOrder (elements (field v ''data''))) = concat (map tabs (elements (field v ''data'')))"
      by (rule arg_cong [of _ _ concat], rule map_cong) (use "1.IH" False b in auto)
    with b False show ?thesis by (simp add: gridPanelOrder.simps [of v] tabs.simps [of v])
  qed
qed

lemma map_filter_append: "List.map_filter f (xs @ ys) = List.map_filter f xs @ List.map_filter f ys"
  by (induction xs) (simp_all add: List.map_filter_simps split: option.split)

lemma members_in_order_uniq:
  "set acc = set seen \<Longrightarrow>
     List.map_filter (dock_member d) (add_all xs acc) = List.map_filter (dock_member d) acc @ members_in_order d seen xs"
proof (induction xs arbitrary: acc seen)
  case (Cons x xs)
  show ?case
  proof (cases "x \<in> set seen")
    case True
    with Cons show ?thesis by simp
  next
    case False
    then have "add_all (x # xs) acc = add_all xs (acc @ [x])" using Cons.prems by (simp add: set_add_def)
    moreover have "List.map_filter (dock_member d) (add_all xs (acc @ [x])) =
        List.map_filter (dock_member d) (acc @ [x]) @ members_in_order d (x # seen) xs"
      by (rule Cons.IH) (use Cons.prems in simp)
    ultimately show ?thesis
      using False by (cases "dock_member d x") (simp_all add: map_filter_append List.map_filter_simps)
  qed
qed simp

text \<open>What the serialized dock says of a tab, and what validation reads there.\<close>

definition tab_params :: "json \<Rightarrow> string \<Rightarrow> json option" where
  "tab_params d i = Option.bind (map_of (entries (field d ''panels'')) i) (\<lambda>s. field s ''params'')"

definition says :: "json \<Rightarrow> string \<Rightarrow> json \<Rightarrow> bool" where
  "says v name x \<longleftrightarrow> field v name = Some x"

lemma params_say:
  assumes "panelParams v = Some p"
  shows "says v ''preview'' (JBool (panel_preview p))" and "says v ''kind'' (JStr (kind_name (kind_of p)))"
    and "p = AgentPanel a \<Longrightarrow> says v ''name'' (JStr (ap_name a))"
    and "p = FilePanel f \<Longrightarrow> says v ''root'' (JStr (fp_root f)) \<and> says v ''path'' (JStr (fp_path f))"
  using assms
  by (auto simp: panelParams_def validate_agent_def validate_file_def validate_folder_def validate_changes_def
      kind_named_def json_Some says_def split: if_splits option.splits)

lemma valid_tab:
  assumes "validDock d" and "map_of (entries (field d ''panels'')) i = Some s"
  obtains v p where "tab_params d i = Some v" "panelParams v = Some p" "panelID p = i"
    "dock_member d i = panel_member p"
proof -
  have "(i, s) \<in> set (entries (field d ''panels''))" using assms(2) by (rule map_of_SomeD)
  then have "panel_of i s \<noteq> None" using assms(1) by (auto simp: validDock_iff list_all_iff)
  then obtain v p where "field s ''params'' = Some v" "panelParams v = Some p" "panelID p = i"
    by (auto simp: panel_of_def bind_eq_Some_conv split: option.splits if_splits)
  with assms(2) show ?thesis by (intro that [of v p]) (simp_all add: tab_params_def dock_member_def)
qed

text \<open>A tab of a valid dock, by what the dock says of it.\<close>

lemma member_of_tab:
  assumes "validDock d"
  shows "dock_member d i = Some (AgentMember a) \<longleftrightarrow>
      (\<exists>v. tab_params d i = Some v \<and> says v ''kind'' (JStr ''agent'') \<and> says v ''name'' (JStr a) \<and>
         says v ''preview'' (JBool False))"
    and "dock_member d i = Some (FileMember r q) \<longleftrightarrow>
      (\<exists>v. tab_params d i = Some v \<and> says v ''kind'' (JStr ''file'') \<and> says v ''root'' (JStr r) \<and>
         says v ''path'' (JStr q) \<and> says v ''preview'' (JBool False))"
    and "dock_member d i \<noteq> None \<longleftrightarrow>
      (\<exists>v. tab_params d i = Some v \<and> (says v ''kind'' (JStr ''agent'') \<or> says v ''kind'' (JStr ''file'')) \<and>
         says v ''preview'' (JBool False))"
    and "dock_member d i = Some m \<Longrightarrow> memberID m = i"
proof -
  have none: "map_of (entries (field d ''panels'')) i = None \<Longrightarrow> dock_member d i = None \<and> tab_params d i = None"
    by (simp add: dock_member_def tab_params_def)
  have some: "(dock_member d i = Some (AgentMember a) \<longleftrightarrow>
      (\<exists>v. tab_params d i = Some v \<and> says v ''kind'' (JStr ''agent'') \<and> says v ''name'' (JStr a) \<and>
         says v ''preview'' (JBool False))) \<and>
    (dock_member d i = Some (FileMember r q) \<longleftrightarrow>
      (\<exists>v. tab_params d i = Some v \<and> says v ''kind'' (JStr ''file'') \<and> says v ''root'' (JStr r) \<and>
         says v ''path'' (JStr q) \<and> says v ''preview'' (JBool False))) \<and>
    (dock_member d i \<noteq> None \<longleftrightarrow>
      (\<exists>v. tab_params d i = Some v \<and> (says v ''kind'' (JStr ''agent'') \<or> says v ''kind'' (JStr ''file'')) \<and>
         says v ''preview'' (JBool False))) \<and>
    (dock_member d i = Some m \<longrightarrow> memberID m = i)"
    if s: "map_of (entries (field d ''panels'')) i = Some s" for s
  proof (rule valid_tab [OF assms s])
    fix v p
    assume t: "tab_params d i = Some v" "panelParams v = Some p" "panelID p = i" "dock_member d i = panel_member p"
    show ?thesis
      using params_say [OF t(2)] t unfolding t(1,4)
      by (cases p) (auto simp: panel_member_def says_def memberID_def)
  qed
  show "dock_member d i = Some (AgentMember a) \<longleftrightarrow>
      (\<exists>v. tab_params d i = Some v \<and> says v ''kind'' (JStr ''agent'') \<and> says v ''name'' (JStr a) \<and>
         says v ''preview'' (JBool False))"
    and "dock_member d i = Some (FileMember r q) \<longleftrightarrow>
      (\<exists>v. tab_params d i = Some v \<and> says v ''kind'' (JStr ''file'') \<and> says v ''root'' (JStr r) \<and>
         says v ''path'' (JStr q) \<and> says v ''preview'' (JBool False))"
    and "dock_member d i \<noteq> None \<longleftrightarrow>
      (\<exists>v. tab_params d i = Some v \<and> (says v ''kind'' (JStr ''agent'') \<or> says v ''kind'' (JStr ''file'')) \<and>
         says v ''preview'' (JBool False))"
    and "dock_member d i = Some m \<Longrightarrow> memberID m = i"
    using none some by (cases "map_of (entries (field d ''panels'')) i"; simp)+
qed

lemma members_of_tabs:
  assumes "validDock d"
  shows "membersFromDock (Some d) = List.map_filter (dock_member d) (uniq (dock_tabs (Some d)))"
proof -
  have "has_grid d" using assms by (simp add: validDock_iff)
  then obtain r where r: "grid_root d = Some r" "object_at d ''panels''"
    by (auto simp: has_grid_iff object_at_iff)
  have "validGridNode r (keys (entries (field d ''panels'')))" using assms r(1) by (simp add: validDock_iff)
  from gridPanelOrder_tabs [OF this] members_in_order_uniq [of "[]" "[]" d "tabs r"] r show ?thesis
    by (simp add: membersFromDock_def dock_tabs_def uniq_def List.map_filter_simps)
qed

lemma map_filter_ids:
  "(\<And>i m. f i = Some m \<Longrightarrow> g m = i) \<Longrightarrow> map g (List.map_filter f is) = filter (\<lambda>i. f i \<noteq> None) is"
  by (induction "is") (auto simp: List.map_filter_simps split: option.split)

text \<open>
  C20. The members of a space are its pinned agent and file tabs. For every valid dock, by what its
  serialized panels say: an agent is a member if and only if some tab of the grid says it is a panel of
  kind agent with that name and no preview; a file is one if and only if some tab says it is a panel of kind file
  with that root and path and no preview; nothing else is a member. The ids of the members are the ids of
  these tabs, each once, in the order in which the tabs stand in the dock.
\<close>

theorem members_are_pinned_tabs:
  assumes "validDock d"
  shows "let ms = membersFromDock (Some d); ts = dock_tabs (Some d)
    in (\<forall>a. AgentMember a \<in> set ms \<longleftrightarrow>
          (\<exists>i \<in> set ts. \<exists>v. tab_params d i = Some v \<and> says v ''kind'' (JStr ''agent'') \<and>
             says v ''name'' (JStr a) \<and> says v ''preview'' (JBool False))) \<and>
       (\<forall>r p. FileMember r p \<in> set ms \<longleftrightarrow>
          (\<exists>i \<in> set ts. \<exists>v. tab_params d i = Some v \<and> says v ''kind'' (JStr ''file'') \<and>
             says v ''root'' (JStr r) \<and> says v ''path'' (JStr p) \<and> says v ''preview'' (JBool False))) \<and>
       map memberID ms =
         filter (\<lambda>i. \<exists>v. tab_params d i = Some v \<and>
             (says v ''kind'' (JStr ''agent'') \<or> says v ''kind'' (JStr ''file'')) \<and>
             says v ''preview'' (JBool False)) (uniq ts) \<and>
       distinct ms"
proof -
  let ?ts = "uniq (dock_tabs (Some d))"
  note tab = member_of_tab [OF assms]
  have set: "set ?ts = set (dock_tabs (Some d))" "distinct ?ts" by (simp_all add: uniq_def)
  have ids: "map memberID (membersFromDock (Some d)) = filter (\<lambda>i. dock_member d i \<noteq> None) ?ts"
    unfolding members_of_tabs [OF assms] by (rule map_filter_ids) (rule tab(4))
  then have "distinct (map memberID (membersFromDock (Some d)))" using set(2) by simp
  then have dist: "distinct (membersFromDock (Some d))" by (simp only: distinct_map)
  have agents: "AgentMember a \<in> set (membersFromDock (Some d)) \<longleftrightarrow>
      (\<exists>i \<in> set (dock_tabs (Some d)). dock_member d i = Some (AgentMember a))"
    and files: "FileMember r p \<in> set (membersFromDock (Some d)) \<longleftrightarrow>
      (\<exists>i \<in> set (dock_tabs (Some d)). dock_member d i = Some (FileMember r p))" for a r p
    unfolding members_of_tabs [OF assms] set_map_filter set(1) mem_Collect_eq by (rule refl)+
  show ?thesis
    unfolding Let_def agents files ids tab(1-3) using dist by simp
qed

text \<open>A dock of one group with a pinned agent.\<close>

theorem members_are_pinned_tabs_witness:
  "AgentMember ''a'' \<in> set (membersFromDock (Some (fresh_dock ''s'' (AgentPanel \<lparr>ap_name = ''a'', ap_preview = False\<rparr>)))) \<and>
   AgentMember ''b'' \<notin> set (membersFromDock (Some (fresh_dock ''s'' (AgentPanel \<lparr>ap_name = ''b'', ap_preview = True\<rparr>))))"
proof -
  have v: "validDock (fresh_dock ''s'' (AgentPanel \<lparr>ap_name = n, ap_preview = b\<rparr>))" if "n \<noteq> []" for n b
    by (rule fresh_dock_valid) (use that in simp)
  have a: "dock_tabs (Some (fresh_dock ''s'' (AgentPanel \<lparr>ap_name = n, ap_preview = b\<rparr>))) = [agentTabID n]"
    and t: "tab_params (fresh_dock ''s'' (AgentPanel \<lparr>ap_name = n, ap_preview = b\<rparr>)) (agentTabID n) =
      Some (panel_json (AgentPanel \<lparr>ap_name = n, ap_preview = b\<rparr>))" for n b
    by (simp_all add: fresh_dock_shape dock_tabs_def grid_root_def tab_params_def fresh_root_def tabs.simps
        group_tabs_def string_list_def as_strings_def serialized_panel_def)
  show ?thesis
    using members_are_pinned_tabs [OF v [of "''a''" False]] members_are_pinned_tabs [OF v [of "''b''" True]]
    by (simp add: Let_def a t says_def)
qed

subsection \<open>The engine's contract\<close>

definition members_inv :: "members_store \<Rightarrow> bool" where
  "members_inv s \<longleftrightarrow> wf_map (ms_rows s) \<and> (\<forall>k r. get (ms_rows s) k = Some r \<longrightarrow> mr_key r = k)"

lemma row_of_members [simp]:
  "row_key (membersStateRow r) = mr_key r" "row_updated (membersStateRow r) = mr_updated r"
  "row_writeID (membersStateRow r) = mr_writeID r"
  by (simp_all add: membersStateRow_def)

lemma parsed_row:
  assumes "parseMembersRow (row_json a) = Some r"
  shows "mr_key r = row_key a" and "compareRows (membersStateRow r) a = 0"
  using assms
  by (auto simp: parseMembersRow_def row_json_def as_nonempty_Some compareRows_def compareStateVersions_def
      split: option.splits if_splits json.splits)

lemma members_find:
  assumes "members_inv s"
  shows "row_of (spaceMembersStoreSyncAdapter ret) s k = map_option membersStateRow (get (ms_rows s) k)"
proof -
  have "\<forall>p \<in> set m. mr_key (snd p) = fst p \<Longrightarrow>
      find (\<lambda>r. row_key r = k) (map membersStateRow (vals m)) = map_option membersStateRow (get m k)" for m
    by (induction m) auto
  moreover have "\<forall>p \<in> set (ms_rows s). mr_key (snd p) = fst p"
    using assms by (auto simp: members_inv_def map_of_eq_Some_iff)
  ultimately show ?thesis by (simp add: spaceMembersStoreSyncAdapter_def all_member_rows_def)
qed

lemma merge_step_inv: "members_inv (snd acc) \<Longrightarrow> members_inv (snd (merge_row_step ret env raw acc))"
  by (auto simp: merge_row_step_def members_inv_def get_put get_del split: prod.splits option.splits)

lemma merge_step_rows:
  "get (ms_rows (snd (merge_row_step ret env raw acc))) k = Some r \<Longrightarrow>
     get (ms_rows (snd acc)) k = Some r \<or> (parseMembersRow (row_json raw) = Some r \<and> mr_key r = k)"
  by (auto simp: merge_row_step_def get_put get_del split: prod.splits option.splits if_splits)

lemma merge_members_inv: "members_inv s \<Longrightarrow> members_inv (merge_members ret env rs s)"
proof -
  have "members_inv (snd acc) \<Longrightarrow> members_inv (snd (fold (merge_row_step ret env) rs acc))" for acc
    by (induction rs arbitrary: acc) (simp_all add: merge_step_inv)
  from this [of "(False, s)"] show "members_inv s \<Longrightarrow> ?thesis"
    by (auto simp: merge_members_def members_inv_def split: prod.splits bool.splits)
qed

lemma merge_members_rows:
  assumes "get (ms_rows (merge_members ret env rs s)) k = Some r"
  shows "get (ms_rows s) k = Some r \<or> (\<exists>a \<in> set rs. parseMembersRow (row_json a) = Some r \<and> mr_key r = k)"
proof -
  have "get (ms_rows (snd (fold (merge_row_step ret env) rs acc))) k = Some r \<Longrightarrow>
     get (ms_rows (snd acc)) k = Some r \<or> (\<exists>a \<in> set rs. parseMembersRow (row_json a) = Some r \<and> mr_key r = k)" for acc
  proof (induction rs arbitrary: acc)
    case (Cons a rs)
    from Cons.IH [of "merge_row_step ret env a acc"] Cons.prems merge_step_rows [of ret env a acc k r] show ?case by auto
  qed simp
  from this [of "(False, s)"] assms show ?thesis
    by (auto simp: merge_members_def split: prod.splits bool.splits)
qed

lemma get_fold_del: "get (fold del ks m) k = (if k \<in> set ks then None else get m k)"
  by (induction ks arbitrary: m) (auto simp: get_del)

lemma wf_fold_del: "wf_map m \<Longrightarrow> wf_map (fold del ks m)"
  by (induction ks arbitrary: m) (simp_all add: wf_del)

lemma forget_members_rows:
  "get (ms_rows (forget_members ks s)) k = (if k \<in> set ks then None else get (ms_rows s) k)"
  by (auto simp: forget_members_def get_fold_del list_ex_iff Let_def)

lemma forget_members_inv: "members_inv s \<Longrightarrow> members_inv (forget_members ks s)"
  by (auto simp: forget_members_def members_inv_def get_fold_del wf_fold_del Let_def)

lemma members_row_all:
  assumes "members_inv st"
  shows "row_of (spaceMembersStoreSyncAdapter ret) st k = Some r \<longleftrightarrow>
     r \<in> set (all_rows (spaceMembersStoreSyncAdapter ret) st) \<and> row_key r = k"
proof -
  have rec: "get (ms_rows st) k = Some q \<longleftrightarrow> q \<in> set (all_member_rows st) \<and> mr_key q = k" for q
    using assms by (force simp: members_inv_def all_member_rows_def map_of_eq_Some_iff)
  have "row_of (spaceMembersStoreSyncAdapter ret) st k = Some r \<longleftrightarrow>
      (\<exists>q. q \<in> set (all_member_rows st) \<and> mr_key q = k \<and> r = membersStateRow q)"
    unfolding members_find [OF assms] using rec by auto
  also have "\<dots> \<longleftrightarrow> r \<in> set (all_rows (spaceMembersStoreSyncAdapter ret) st) \<and> row_key r = k"
    by (auto simp: spaceMembersStoreSyncAdapter_def)
  finally show ?thesis .
qed

lemma members_adapter_ops:
  "merge_rows (spaceMembersStoreSyncAdapter ret) = merge_members ret"
  "forget_rows (spaceMembersStoreSyncAdapter ret) = forget_members"
  by (simp_all add: spaceMembersStoreSyncAdapter_def)

interpretation members_contract: sync_contract "spaceMembersStoreSyncAdapter ret" members_inv for ret
proof (unfold_locales, goal_cases)
  case (1 st k r)
  then show ?case by (rule members_row_all)
next
  case (2 st env rs)
  then show ?case by (simp add: members_adapter_ops merge_members_inv)
next
  case (3 st ks)
  then show ?case by (simp add: members_adapter_ops forget_members_inv)
next
  case (4 st env rs k r)
  then obtain q where q: "get (ms_rows (merge_members ret env rs st)) k = Some q" "r = membersStateRow q"
    by (auto simp: members_adapter_ops members_find merge_members_inv)
  consider "get (ms_rows st) k = Some q" | a where "a \<in> set rs" "parseMembersRow (row_json a) = Some q" "mr_key q = k"
    using merge_members_rows [OF q(1)] by blast
  then show ?case
  proof cases
    case 1
    then show ?thesis using q(2) 4(1) by (simp add: members_find)
  next
    case 2
    from parsed_row [OF 2(2)] 2(3) q(2) have "row_key a = k \<and> compareRows r a \<le> 0" by simp
    with 2(1) show ?thesis by blast
  qed
next
  case (5 st ks k)
  then show ?case by (simp add: members_adapter_ops members_find forget_members_inv forget_members_rows)
qed

interpretation members_engine:
  sync_engine "spaceMembersStoreSyncAdapter ret" members_inv "createSpaceMembersSync ret" for ret
  by unfold_locales (simp_all add: createSpaceMembersSync_def)

text \<open>No membership is lost on its way to the server.\<close>

lemma members_no_lost_update:
  assumes "sync_run (createSpaceMembersSync ret) members_inv s acks"
    and "\<not> sy_disposed s" and "\<not> sy_catchUp s" and "r \<in> set (all_member_rows (sy_store s))"
  shows "mr_key r \<in> set (pending s) \<or>
    (\<exists>a \<in> set acks. row_key a = mr_key r \<and> compareRows (membersStateRow r) a \<le> 0)"
proof -
  have inv: "members_inv (sy_store s)"
    using members_engine.run_good [OF assms(1)] by (simp add: members_engine.good_def)
  have "row_in (createSpaceMembersSync ret) s (mr_key r) = Some (membersStateRow r)"
    using assms(4) members_row_all [OF inv, of ret "mr_key r"]
    by (simp add: row_in_def createSpaceMembersSync_def) (simp add: spaceMembersStoreSyncAdapter_def)
  then show ?thesis
    using members_engine.no_lost_update [OF assms(1-3)]
    by (auto simp: covered_def covered_by_def pending_def)
qed

subsection \<open>Settling\<close>

text \<open>
  C19. Reconciling settles: over the stored layouts, once a pass is done, every live space that could be
  read has its members recorded as the baseline, unless its row is held back because a member could not be
  opened; every closed space's row is gone; and the next pass publishes nothing but for spaces held back.
  Two browsers do not rewrite each other's rows for ever.
\<close>

theorem reconcile_settles:
  assumes "set live \<inter> set shut = {}"
    and "reconcileSpaceMembers (stored_docks time) env live shut s st = (p1, s1, st1)"
    and "reconcileSpaceMembers (stored_docks time) env' live shut s1 st1 = (p2, s2, st2)"
  shows "(\<forall>i \<in> set live. held_back s1 i \<or>
      (\<forall>ms. storedSpaceMembers st1 i = Some ms \<longrightarrow> ml_baseline (local_of s1 i) = Some ms)) \<and>
    (\<forall>i \<in> set shut. gone s1 i) \<and> (\<forall>i \<in> set p2. held_back s1 i)"
  using stored.reconcile_twice [OF assms] by (fastforce simp: at_rest_def stored_docks_def)

text \<open>A space with nothing stored, in a new browser: one row is published, and then none.\<close>

definition new_members_store :: members_store where
  "new_members_store = \<lparr>ms_rows = [], ms_locals = [], ms_storage = None, ms_announced = [], ms_version = 0\<rparr>"

definition members_env :: env where
  "members_env = \<lparr>now = 5, ids = \<lambda>_. ''w''\<rparr>"

theorem reconcile_settles_witness:
  "\<exists>p1 s1 st1 p2 s2 st2.
     reconcileSpaceMembers (stored_docks 0) members_env [''s''] [''t''] new_members_store
       \<lparr>items = [], readable = True, faults = []\<rparr> = (p1, s1, st1) \<and>
     reconcileSpaceMembers (stored_docks 0) members_env [''s''] [''t''] s1 st1 = (p2, s2, st2) \<and>
     (\<forall>i \<in> set p2. held_back s1 i) \<and> gone s1 ''t''"
proof -
  obtain p1 s1 st1 where r1: "reconcileSpaceMembers (stored_docks 0) members_env [''s''] [''t''] new_members_store
       \<lparr>items = [], readable = True, faults = []\<rparr> = (p1, s1, st1)" by (metis prod_cases3)
  obtain p2 s2 st2 where r2: "reconcileSpaceMembers (stored_docks 0) members_env [''s''] [''t''] s1 st1 = (p2, s2, st2)"
    by (metis prod_cases3)
  have "set [''s''] \<inter> set [''t''] = ({} :: string set)" by simp
  from reconcile_settles [OF this r1 r2] r1 r2 show ?thesis by auto
qed

end
