(* ===== verification/Board.thy ===== *)
theory Board
  imports Encoding
begin

section \<open>The board\<close>

text \<open>
  The parts of \<^verbatim>\<open>types.ts\<close> that describe the fleet (rows, panes, tabs, workspaces, lanes, pull requests),
  and what reads it everywhere: \<^verbatim>\<open>shared/agentStatus.ts\<close> and \<^verbatim>\<open>shared/lanePRModel.ts\<close>. A pane is a row with
  two more fields, so both are \<open>row\<close>; an absent list of subagents, lanes or pull requests is the empty one,
  which is how every reader treats it.
\<close>

datatype manager_state = Live_manager | Ended_manager | Operator | Unknown_manager

record row_info =
  ri_pane :: string
  ri_agent :: string
  ri_tool :: string
  ri_herdr :: string
  ri_bus :: string
  ri_context :: "num option"
  ri_turn_end :: "num option"
  ri_reply_end :: "num option"
  ri_parent :: "string option"
  ri_manager :: "string option"
  ri_manager_state :: "manager_state option"
  ri_title :: "string option"
  ri_created :: "string option"
  ri_label :: "string option"
  ri_command :: "string option"

datatype row = Row (r_info: row_info) (r_subagents: "row list")

abbreviation r_agent :: "row \<Rightarrow> string" where
  "r_agent r \<equiv> ri_agent (r_info r)"

record tab =
  tb_id :: string
  tb_number :: num
  tb_label :: string
  tb_panes :: "row list"

record workspace =
  ws_id :: string
  ws_worktree_of :: "string option"
  ws_label :: string
  ws_pane_count :: num
  ws_tabs :: "tab list"

record lane_pr =
  pr_repo :: string
  pr_number :: nat
  pr_title :: string
  pr_state :: string
  pr_draft :: bool
  pr_mergeable :: "string option"
  pr_checks :: "string option"
  pr_review :: "string option"
  pr_unresolved :: num
  pr_head :: string
  pr_holder :: "string option"

record lane =
  ln_id :: string
  ln_name :: string
  ln_lead :: string
  ln_members :: "string list"
  ln_prs :: "lane_pr list"
  ln_pr_note :: "string option"

record board =
  bd_workspaces :: "workspace list"
  bd_unplaced :: "row list"
  bd_lanes :: "lane list"

subsection \<open>Finding an agent\<close>

fun findRow :: "row \<Rightarrow> string \<Rightarrow> row option"
  and find_rows :: "row list \<Rightarrow> string \<Rightarrow> row option" where
  "findRow (Row i subs) name = (if ri_agent i = name then Some (Row i subs) else find_rows subs name)"
| "find_rows [] name = None"
| "find_rows (r # rs) name = (case findRow r name of Some m \<Rightarrow> Some m | None \<Rightarrow> find_rows rs name)"

definition placed_panes :: "board \<Rightarrow> row list" where
  "placed_panes b = concat (map tb_panes (concat (map ws_tabs (bd_workspaces b))))"

definition findAgentRow :: "board option \<Rightarrow> string \<Rightarrow> row option" where
  "findAgentRow board name =
     (case board of
        None \<Rightarrow> None
      | Some b \<Rightarrow> (case find_rows (placed_panes b) name of
                    Some r \<Rightarrow> Some r
                  | None \<Rightarrow> find_rows (bd_unplaced b) name))"

definition agentBusStatus :: "board option \<Rightarrow> string \<Rightarrow> string" where
  "agentBusStatus board name = (case findAgentRow board name of Some r \<Rightarrow> ri_bus (r_info r) | None \<Rightarrow> ''-'')"

definition agentBoardTool :: "board option \<Rightarrow> string \<Rightarrow> string" where
  "agentBoardTool board name = (case findAgentRow board name of Some r \<Rightarrow> ri_tool (r_info r) | None \<Rightarrow> [])"

text \<open>The class, the label and the meaning of a bus status.\<close>

definition agentStatusPresentation :: "string \<Rightarrow> string \<times> string \<times> string" where
  "agentStatusPresentation status =
     (if status = ''active'' then (''active'', ''active'', ''agent is currently working'')
      else if status = ''listening'' then (''listening'', ''listening'', ''agent is available and waiting'')
      else if status = ''blocked'' then (''blocked'', ''blocked'', ''agent cannot proceed'')
      else if status = ''retired'' then (''retired'', ''retired'', ''agent has stopped; transcript is read-only'')
      else (''unknown'', (if status \<noteq> [] \<and> status \<noteq> ''-'' then status else ''unknown''), ''agent status is unavailable''))"

definition agentToolBadge :: "string option \<Rightarrow> string" where
  "agentToolBadge tool =
     (case tool of
        None \<Rightarrow> []
      | Some t \<Rightarrow> if t = [] \<or> t = ''-'' then []
                  else if t = ''claude'' then ''cl''
                  else if t = ''codex'' then ''cx''
                  else take 2 t)"

text \<open>Every row on the board, in the order the search visits them.\<close>

fun row_tree :: "row \<Rightarrow> row list" and row_trees :: "row list \<Rightarrow> row list" where
  "row_tree (Row i subs) = Row i subs # row_trees subs"
| "row_trees [] = []"
| "row_trees (r # rs) = row_tree r @ row_trees rs"

definition board_rows :: "board \<Rightarrow> row list" where
  "board_rows b = row_trees (placed_panes b) @ row_trees (bd_unplaced b)"

lemma find_append: "find P (xs @ ys) = (case find P xs of Some x \<Rightarrow> Some x | None \<Rightarrow> find P ys)"
  by (induction xs) auto

lemma findRow_find:
  "findRow r name = find (\<lambda>q. r_agent q = name) (row_tree r)"
  "find_rows rs name = find (\<lambda>q. r_agent q = name) (row_trees rs)"
  by (induction r name and rs name rule: findRow_find_rows.induct) (auto simp: find_append split: option.split)

lemma findAgentRow_find: "findAgentRow (Some b) name = find (\<lambda>q. r_agent q = name) (board_rows b)"
  by (simp add: findAgentRow_def board_rows_def findRow_find find_append split: option.split)

lemma findAgentRow_Some: "findAgentRow (Some b) name = Some r \<Longrightarrow> r \<in> set (board_rows b) \<and> r_agent r = name"
  by (auto simp: findAgentRow_find find_Some_iff)

lemma findAgentRow_None: "findAgentRow (Some b) name = None \<longleftrightarrow> name \<notin> r_agent ` set (board_rows b)"
  by (auto simp: findAgentRow_find find_None_iff)

subsection \<open>Pull requests\<close>

definition prFacts :: "lane_pr \<Rightarrow> string list" where
  "prFacts pr =
     (if pr_state pr = [] then [''not polled yet'']
      else if pr_state pr = ''MERGED'' then [''merged'']
      else if pr_state pr = ''CLOSED'' then [''closed'']
      else (if pr_mergeable pr = Some ''CONFLICTING'' then [''conflicts''] else [])
        @ (if pr_checks pr = Some ''FAILURE'' \<or> pr_checks pr = Some ''ERROR'' then [''checks failing'']
           else if pr_checks pr = Some ''PENDING'' \<or> pr_checks pr = Some ''EXPECTED'' then [''checks running'']
           else if pr_checks pr = Some ''SUCCESS'' then [''checks pass'']
           else [])
        @ (if pr_review pr = Some ''CHANGES_REQUESTED'' then [''changes requested'']
           else if pr_review pr = Some ''APPROVED'' then [''approved'']
           else if pr_review pr = Some ''REVIEW_REQUIRED'' then [''review needed'']
           else [])
        @ (if pr_unresolved pr > 0 then [show_int (pr_unresolved pr) @ '' unresolved''] else [])
        @ (if pr_draft pr then [''draft''] else []))"

definition prLabel :: "lane_pr \<Rightarrow> string" where
  "prLabel pr = ''#'' @ digits (pr_number pr) @ (if pr_title pr = [] then [] else '' '' @ pr_title pr)"

definition prSummary :: "lane_pr \<Rightarrow> string" where
  "prSummary pr = ''#'' @ digits (pr_number pr) @ '' '' @ join_with '', '' (prFacts pr)"

record pr_query =
  pq_repo :: "string option"
  pq_number :: nat

definition prLanes :: "board option \<Rightarrow> pr_query \<Rightarrow> (lane \<times> lane_pr) list" where
  "prLanes board q =
     concat (map (\<lambda>l. map (\<lambda>pr. (l, pr))
                        (filter (\<lambda>pr. pr_number pr = pq_number q \<and>
                                   (case pq_repo q of None \<Rightarrow> True | Some r \<Rightarrow> r = [] \<or> pr_repo pr = r)) (ln_prs l)))
       (case board of Some b \<Rightarrow> bd_lanes b | None \<Rightarrow> []))"

text \<open>
  Reading a pull request from a query: \<open>#123\<close>, \<open>owner/repo#123\<close> or a link to \<^verbatim>\<open>github.com\<close>. The regular
  expressions are written out: a number is a non-empty run of digits at the end, an owner is letters, digits
  and \<open>-\<close>, a repository also \<open>.\<close> and \<open>_\<close>.
\<close>

definition is_digit :: "char \<Rightarrow> bool" where
  "is_digit c \<longleftrightarrow> (48 :: nat) \<le> of_char c \<and> (of_char c :: nat) \<le> 57"

definition is_letter :: "char \<Rightarrow> bool" where
  "is_letter c \<longleftrightarrow>
     (let n = (of_char c :: nat) in (65 \<le> n \<and> n \<le> 90) \<or> (97 \<le> n \<and> n \<le> 122))"

definition owner_char :: "char \<Rightarrow> bool" where
  "owner_char c \<longleftrightarrow> is_letter c \<or> is_digit c \<or> c = CHR ''-''"

definition repo_char :: "char \<Rightarrow> bool" where
  "repo_char c \<longleftrightarrow> owner_char c \<or> c = CHR ''.'' \<or> c = CHR ''_''"

definition lower_char :: "char \<Rightarrow> char" where
  "lower_char c =
     (let n = (of_char c :: nat) in if 65 \<le> n \<and> n \<le> 90 then char_of (n + 32) else c)"

text \<open>\<open>toLowerCase\<close> on ASCII text.\<close>

definition lower :: "string \<Rightarrow> string" where
  "lower s = map lower_char s"

definition query_number :: "string \<Rightarrow> nat" where
  "query_number ds = nat (js_round (int (number_value ds)))"

definition pr_digits :: "string \<Rightarrow> nat option" where
  "pr_digits s = (if s \<noteq> [] \<and> list_all is_digit s then Some (query_number s) else None)"

text \<open>The text before and after the first occurrence of a character.\<close>

definition cut :: "char \<Rightarrow> string \<Rightarrow> (string \<times> string) option" where
  "cut c s = (if c \<in> set s then Some (takeWhile (\<lambda>x. x \<noteq> c) s, tl (dropWhile (\<lambda>x. x \<noteq> c) s)) else None)"

definition is_repo :: "string \<Rightarrow> bool" where
  "is_repo s =
     (case cut (CHR ''/'') s of
        None \<Rightarrow> False
      | Some (owner, repo) \<Rightarrow> owner \<noteq> [] \<and> list_all owner_char owner \<and> repo \<noteq> [] \<and> list_all repo_char repo)"

definition after_prefix :: "string \<Rightarrow> string \<Rightarrow> string option" where
  "after_prefix p s = (if starts_with p (lower s) then Some (drop (length p) s) else None)"

fun first_prefix :: "string list \<Rightarrow> string \<Rightarrow> string option" where
  "first_prefix [] s = None"
| "first_prefix (p # ps) s = (case after_prefix p s of Some r \<Rightarrow> Some r | None \<Rightarrow> first_prefix ps s)"

definition parse_pr_link :: "string \<Rightarrow> pr_query option" where
  "parse_pr_link s =
     (case first_prefix [''http://www.github.com/'', ''https://www.github.com/'', ''http://github.com/'', ''https://github.com/''] s of
        None \<Rightarrow> None
      | Some path \<Rightarrow>
          (case cut (CHR ''/'') path of
             None \<Rightarrow> None
           | Some (owner, rest) \<Rightarrow>
               (case cut (CHR ''/'') rest of
                  None \<Rightarrow> None
                | Some (repo, pull) \<Rightarrow>
                    (case after_prefix ''pull/'' pull of
                       None \<Rightarrow> None
                     | Some tail \<Rightarrow>
                         let ds = takeWhile is_digit tail; after = dropWhile is_digit tail
                         in if is_repo (owner @ ''/'' @ repo) \<and> ds \<noteq> []
                               \<and> (after = [] \<or> (hd after \<in> set ''/?#'' \<and> set (tl after) \<inter> {CHR 10, CHR 13} = {}))
                            then Some \<lparr>pq_repo = Some (lower (owner @ ''/'' @ repo)), pq_number = query_number ds\<rparr>
                            else None))))"

definition parsePRQuery :: "string \<Rightarrow> pr_query option" where
  "parsePRQuery text =
     (let q = js_trim text
      in case cut (CHR ''#'') q of
           Some ([], ds) \<Rightarrow> map_option (\<lambda>n. \<lparr>pq_repo = None, pq_number = n\<rparr>) (pr_digits ds)
         | Some (repo, ds) \<Rightarrow>
             (if is_repo repo
              then (case pr_digits ds of
                      Some n \<Rightarrow> Some \<lparr>pq_repo = Some (lower repo), pq_number = n\<rparr>
                    | None \<Rightarrow> parse_pr_link q)
              else parse_pr_link q)
         | None \<Rightarrow> parse_pr_link q)"

end
