(* ===== verification/ReadMarkers.thy ===== *)
theory ReadMarkers
  imports StateVersion ShellPrefs Board
begin

section \<open>Read markers\<close>

text \<open>
  \<^verbatim>\<open>features/spaces/readMarkerModel.ts\<close> and \<^verbatim>\<open>readPositionModel.ts\<close>: what the owner has read of each agent, how
  two devices' accounts of it are merged, and what reading, marking unread and the transcript's window do to
  it.
\<close>

subsection \<open>Markers and rows\<close>

record read_position =
  ps_session :: string
  ps_offset :: num
  ps_ts :: string

record read_marker =
  mk_turn :: num
  mk_pos :: "read_position option"
  mk_at :: num
  mk_unread :: bool

record marker_row = read_marker +
  mw_key :: string
  mw_updated :: num
  mw_writeID :: string
  mw_deleted :: bool

definition weakUpdated :: num where
  "weakUpdated = 1"

definition baselineMarker :: "num \<Rightarrow> read_marker" where
  "baselineMarker turn = \<lparr>mk_turn = turn, mk_pos = None, mk_at = 0, mk_unread = False\<rparr>"

definition markerOf :: "'a read_marker_scheme \<Rightarrow> read_marker" where
  "markerOf r = \<lparr>mk_turn = mk_turn r, mk_pos = mk_pos r, mk_at = mk_at r, mk_unread = mk_unread r\<rparr>"

definition marker_row_of :: "string \<Rightarrow> read_marker \<Rightarrow> num \<Rightarrow> string \<Rightarrow> bool \<Rightarrow> marker_row" where
  "marker_row_of key m updated writeID deleted =
     \<lparr>mk_turn = mk_turn m, mk_pos = mk_pos m, mk_at = mk_at m, mk_unread = mk_unread m,
      mw_key = key, mw_updated = updated, mw_writeID = writeID, mw_deleted = deleted\<rparr>"

text \<open>A safe integer that is not negative.\<close>

definition as_count :: "json option \<Rightarrow> num option" where
  "as_count j = (case as_finite j of Some n \<Rightarrow> if is_safe_integer n \<and> 0 \<le> n then Some n else None | None \<Rightarrow> None)"

text \<open>\<open>None\<close> is \<open>undefined\<close> (not a position), \<open>Some None\<close> is \<open>null\<close>.\<close>

definition parsePosition :: "json option \<Rightarrow> read_position option option" where
  "parsePosition value =
     (case value of
        None \<Rightarrow> None
      | Some JNull \<Rightarrow> Some None
      | Some v \<Rightarrow>
          (case (as_nonempty (field v ''session''), as_count (field v ''offset''), as_string (field v ''ts'')) of
             (Some s, Some n, Some t) \<Rightarrow> Some (Some \<lparr>ps_session = s, ps_offset = n, ps_ts = t\<rparr>)
           | _ \<Rightarrow> None))"

definition parseMarker :: "json \<Rightarrow> read_marker option" where
  "parseMarker v =
     (case (as_count (field v ''turn''), parsePosition (field v ''pos''), as_count (field v ''at''),
            as_bool (field v ''unread'')) of
        (Some t, Some p, Some a, Some u) \<Rightarrow> Some \<lparr>mk_turn = t, mk_pos = p, mk_at = a, mk_unread = u\<rparr>
      | _ \<Rightarrow> None)"

definition parseMarkerRow :: "json \<Rightarrow> marker_row option" where
  "parseMarkerRow row =
     (case (as_nonempty (field row ''key''), as_nonempty (field row ''writeID''), as_finite (field row ''updated''),
            as_bool (field row ''deleted'')) of
        (Some k, Some w, Some u, Some d) \<Rightarrow>
          if d then Some (marker_row_of k (baselineMarker 0) u w True)
          else map_option (\<lambda>m. marker_row_of k m u w False) (Option.bind (field row ''value'') parseMarker)
      | _ \<Rightarrow> None)"

definition position_json :: "read_position option \<Rightarrow> json" where
  "position_json p =
     (case p of
        None \<Rightarrow> JNull
      | Some q \<Rightarrow> JObj [(''session'', JStr (ps_session q)), (''offset'', JNum (ps_offset q)), (''ts'', JStr (ps_ts q))])"

definition markerStateRow :: "marker_row \<Rightarrow> state_row" where
  "markerStateRow r =
     \<lparr>row_key = mw_key r,
      row_value = (if mw_deleted r then JNull
                   else JObj [(''turn'', JNum (mk_turn r)), (''pos'', position_json (mk_pos r)), (''at'', JNum (mk_at r)),
                              (''unread'', JBool (mk_unread r)), (''updated'', JNum (mw_updated r))]),
      row_updated = mw_updated r, row_writeID = mw_writeID r, row_deleted = mw_deleted r\<rparr>"

subsection \<open>Merging\<close>

definition comparePositions :: "read_position option \<Rightarrow> num \<Rightarrow> read_position option \<Rightarrow> num \<Rightarrow> num" where
  "comparePositions left leftAt right rightAt =
     (case (left, right) of
        (Some l, Some r) \<Rightarrow>
          if ps_session l = ps_session r then js_sub (ps_offset r) (ps_offset l) else js_sub rightAt leftAt
      | _ \<Rightarrow> of_bool (right \<noteq> None) - of_bool (left \<noteq> None))"

definition samePosition :: "read_position option \<Rightarrow> read_position option \<Rightarrow> bool" where
  "samePosition left right \<longleftrightarrow> left = right"

definition sameMarker :: "'a read_marker_scheme option \<Rightarrow> 'b read_marker_scheme \<Rightarrow> bool" where
  "sameMarker left right \<longleftrightarrow>
     (case left of
        None \<Rightarrow> False
      | Some l \<Rightarrow> mk_turn l = mk_turn right \<and> samePosition (mk_pos l) (mk_pos right) \<and> mk_at l = mk_at right \<and>
                  mk_unread l = mk_unread right)"

definition row_version :: "marker_row \<Rightarrow> marker_row \<Rightarrow> int" where
  "row_version a b = compareStateVersions (mw_updated a) (mw_writeID a) (mw_updated b) (mw_writeID b)"

text \<open>The row that results, and whether it has to be published again.\<close>

definition mergeMarkerRow :: "marker_row option \<Rightarrow> marker_row \<Rightarrow> marker_row \<times> bool" where
  "mergeMarkerRow current incoming =
     (case current of
        None \<Rightarrow> (incoming, False)
      | Some cur \<Rightarrow>
          let currentWeak = (mw_updated cur = weakUpdated)
          in if currentWeak \<noteq> (mw_updated incoming = weakUpdated)
             then (if currentWeak then incoming else cur, False)
             else let incomingWins = row_version incoming cur > 0;
                      winner = (if incomingWins then incoming else cur);
                      loser = (if incomingWins then cur else incoming)
                  in if mw_deleted winner \<or> mk_unread winner \<or> mw_deleted loser then (winner, False)
                     else let loserAhead = comparePositions (mk_pos winner) (mk_at winner) (mk_pos loser) (mk_at loser) > 0;
                              merged = winner\<lparr>mk_turn := max (mk_turn winner) (mk_turn loser),
                                              mk_pos := (if loserAhead then mk_pos loser else mk_pos winner),
                                              mk_at := max (mk_at winner) (mk_at loser)\<rparr>
                          in if sameMarker (Some winner) merged then (winner, False) else (merged, True))"

definition migratedMarkerRows :: "(string, num) jsmap \<Rightarrow> string \<Rightarrow> marker_row list" where
  "migratedMarkerRows legacy writeID =
     map (\<lambda>(key, turn). marker_row_of key (baselineMarker turn) weakUpdated writeID False) legacy"

text \<open>Which manual unreads a dwell may clear; the previous set itself when it has the same members.\<close>

definition nextArmed :: "string list \<Rightarrow> (string, read_marker) jsmap \<Rightarrow> string list \<Rightarrow> bool \<Rightarrow> string list" where
  "nextArmed armed markers viewed ready =
     (let next = uniq (map fst (filter (\<lambda>(name, m). mk_unread m \<and>
                    (name \<in> set armed \<or> (ready \<and> name \<notin> set viewed))) markers))
      in if length next = length armed \<and> list_all (\<lambda>n. n \<in> set armed) next then armed else next)"

subsection \<open>Positions in a transcript\<close>

record transcript_entry =
  te_offset :: num
  te_timestamp :: "string option"
  te_kind :: string

record entries_page =
  pg_session :: "string option"
  pg_entries :: "transcript_entry list"

definition entryPosition :: "string \<Rightarrow> transcript_entry \<Rightarrow> read_position" where
  "entryPosition session e = \<lparr>ps_session = session, ps_offset = te_offset e, ps_ts = or_else (te_timestamp e) []\<rparr>"

text \<open>The session of a page, when it has a non-empty one.\<close>

definition page_session :: "entries_page option \<Rightarrow> string option" where
  "page_session page =
     (case Option.bind page pg_session of Some s \<Rightarrow> if s = [] then None else Some s | None \<Rightarrow> None)"

definition page_entries :: "entries_page option \<Rightarrow> transcript_entry list" where
  "page_entries page = (case page of Some p \<Rightarrow> pg_entries p | None \<Rightarrow> [])"

definition latestPosition :: "entries_page option \<Rightarrow> read_position option" where
  "latestPosition page =
     (case page_session page of
        Some s \<Rightarrow> if page_entries page = [] then None else Some (entryPosition s (last (page_entries page)))
      | None \<Rightarrow> None)"

text \<open>An index is an integer: \<open>entries[index]\<close> is \<open>undefined\<close> outside the list.\<close>

definition elem_at :: "'a list \<Rightarrow> int \<Rightarrow> 'a option" where
  "elem_at xs i = (if 0 \<le> i \<and> nat i < length xs then Some (xs ! nat i) else None)"

definition positionBefore :: "string \<Rightarrow> transcript_entry list \<Rightarrow> int \<Rightarrow> read_position option" where
  "positionBefore session es i =
     (case elem_at es i of
        None \<Rightarrow> None
      | Some e \<Rightarrow>
          (case elem_at es (i - 1) of
             Some p \<Rightarrow> Some (entryPosition session p)
           | None \<Rightarrow> Some \<lparr>ps_session = session, ps_offset = max 0 (js_sub (te_offset e) 1), ps_ts = []\<rparr>))"

definition turnOpeners :: "string list" where
  "turnOpeners = [''human_prompt'', ''hcom_delivery_stub'', ''hcom_delivery'', ''task_notification'', ''channel_message'']"

text \<open>The loop from the last entry down: the number of entries still to look at.\<close>

fun turn_start_loop :: "transcript_entry list \<Rightarrow> nat \<Rightarrow> int" where
  "turn_start_loop es 0 = int (length es) - 1"
| "turn_start_loop es (Suc i) =
     (if te_kind (es ! i) \<notin> set turnOpeners then turn_start_loop es i
      else if i > 0 \<and> te_kind (es ! i) = ''hcom_delivery'' \<and> te_kind (es ! (i - 1)) = ''hcom_delivery_stub''
      then int i - 1 else int i)"

definition lastTurnStart :: "transcript_entry list \<Rightarrow> int" where
  "lastTurnStart es = turn_start_loop es (length es)"

definition markUnreadAt :: "read_marker option \<Rightarrow> entries_page option \<Rightarrow> int \<Rightarrow> read_marker" where
  "markUnreadAt marker page i =
     (let pos = Option.bind (page_session page) (\<lambda>s. positionBefore s (page_entries page) i)
      in \<lparr>mk_turn = (case marker of Some m \<Rightarrow> mk_turn m | None \<Rightarrow> 0),
          mk_pos = (if pos \<noteq> None then pos else Option.bind marker mk_pos),
          mk_at = (case marker of Some m \<Rightarrow> mk_at m | None \<Rightarrow> 0), mk_unread = True\<rparr>)"

definition markLastTurnUnread :: "read_marker option \<Rightarrow> entries_page option \<Rightarrow> read_marker" where
  "markLastTurnUnread marker page = markUnreadAt marker page (lastTurnStart (page_entries page))"

definition positionWriteMs :: num where
  "positionWriteMs = 5000"

definition readThrough :: "read_marker option \<Rightarrow> num option \<Rightarrow> read_position option \<Rightarrow> num \<Rightarrow> read_marker option" where
  "readThrough marker turn latest time =
     (let nextTurn = max (case marker of Some m \<Rightarrow> mk_turn m | None \<Rightarrow> 0) (or_else turn 0);
          current = Option.bind marker mk_pos;
          readAt = (case marker of Some m \<Rightarrow> mk_at m | None \<Rightarrow> 0);
          pos = (if latest \<noteq> None \<and> comparePositions current readAt latest time > 0 then latest else current);
          next = \<lparr>mk_turn = nextTurn, mk_pos = pos, mk_at = time, mk_unread = False\<rparr>
      in case marker of
           None \<Rightarrow> Some next
         | Some m \<Rightarrow>
             if \<not> mk_unread m \<and> nextTurn = mk_turn m then
               (if samePosition pos current then None
                else (case (current, pos) of
                        (Some c, Some p) \<Rightarrow>
                          if ps_session c = ps_session p \<and> js_sub time (mk_at m) < positionWriteMs then None else Some next
                      | _ \<Rightarrow> Some next))
             else Some next)"

definition dividerIndex :: "transcript_entry list \<Rightarrow> string option \<Rightarrow> read_position option \<Rightarrow> int" where
  "dividerIndex es session pos =
     (case (pos, session) of
        (Some p, Some s) \<Rightarrow>
          if s = [] \<or> ps_session p \<noteq> s then -1
          else (case find_index (\<lambda>e. te_offset e > ps_offset p) es of Some i \<Rightarrow> int i | None \<Rightarrow> -1)
      | _ \<Rightarrow> -1)"

end
