(* ===== verification/Attention.thy ===== *)
theory Attention
  imports ReadMarkers DockStore
begin

section \<open>What asks for the owner\<close>

text \<open>
  \<^verbatim>\<open>features/spaces/spaceAttentionModel.ts\<close> and \<^verbatim>\<open>features/drafts/draftMarksModel.ts\<close>: which agents are unread,
  blocked or have drafts, what reading and marking read write, and the counts shown for it. Objects keyed by
  agent names are maps; a name of \<open>Object.prototype\<close> is not considered as an agent's.
\<close>

subsection \<open>Drafts\<close>

record agent_drafts =
  ad_message :: bool
  ad_notes :: nat

type_synonym draft_marks = "(string, agent_drafts) jsmap"

definition mark_composer :: "string \<times> string \<Rightarrow> draft_marks \<Rightarrow> draft_marks" where
  "mark_composer e marks =
     (case e of (agent, text) \<Rightarrow>
        if js_trim text \<noteq> [] then put agent \<lparr>ad_message = True, ad_notes = 0\<rparr> marks else marks)"

definition mark_note :: "string \<Rightarrow> draft_marks \<Rightarrow> draft_marks" where
  "mark_note grp marks =
     (if grp = [] \<or> grp = ''general'' then marks
      else let current = or_else (get marks grp) \<lparr>ad_message = False, ad_notes = 0\<rparr>
           in put grp (current\<lparr>ad_notes := Suc (ad_notes current)\<rparr>) marks)"

text \<open>The composer's drafts by agent, and the groups of the notes.\<close>

definition draftMarks :: "(string, string) jsmap \<Rightarrow> string list \<Rightarrow> draft_marks" where
  "draftMarks composer groups = fold mark_note groups (fold mark_composer composer [])"

definition sameDraftMarks :: "draft_marks \<Rightarrow> draft_marks \<Rightarrow> bool" where
  "sameDraftMarks left right \<longleftrightarrow>
     length left = length right \<and> list_all (\<lambda>(n, d). get right n = Some d) left"

definition counted :: "nat \<Rightarrow> string \<Rightarrow> string" where
  "counted n s = digits n @ '' '' @ s @ (if n = 1 then [] else ''s'')"

definition draftTitle :: "agent_drafts \<Rightarrow> string" where
  "draftTitle d =
     join_with '', '' ((if ad_message d then [''unsent message''] else [])
       @ (if ad_notes d > 0 then [counted (ad_notes d) ''unsent note''] else []))"

definition draftCountLabel :: "nat \<Rightarrow> string" where
  "draftCountLabel n = counted n ''draft''"

subsection \<open>Open agents\<close>

record space_attention =
  at_unread :: "string list"
  at_blocked :: "string list"
  at_drafts :: "string list"

definition panel_agent :: "json \<Rightarrow> string option" where
  "panel_agent s =
     (case Option.bind (field s ''params'') panelParams of Some (AgentPanel a) \<Rightarrow> Some (ap_name a) | _ \<Rightarrow> None)"

definition agentsInDock :: "json option \<Rightarrow> string list" where
  "agentsInDock dock =
     uniq (List.map_filter (\<lambda>(_, s). panel_agent s) (entries (Option.bind dock (\<lambda>d. field d ''panels''))))"

definition storedSpaceAgents :: "storage \<Rightarrow> string \<Rightarrow> string list" where
  "storedSpaceAgents st spaceID =
     (case readStoredSpaceLayout 0 False spaceID st of
        None \<Rightarrow> []
      | Some (r, _) \<Rightarrow> agentsInDock (or_else (lr_stored r) None))"

definition streamAgentLimit :: nat where
  "streamAgentLimit = 100"

definition spaceStreamAgents :: "string list \<Rightarrow> (string, string list) jsmap \<Rightarrow> string list" where
  "spaceStreamAgents activeAgents openBySpace =
     take streamAgentLimit (uniq (activeAgents @ concat (vals openBySpace)))"

subsection \<open>Unread and blocked\<close>

definition liveEnd :: "row option \<Rightarrow> num option \<Rightarrow> num option" where
  "liveEnd r i =
     (case r of
        None \<Rightarrow> None
      | Some q \<Rightarrow>
          if ri_bus (r_info q) = ''retired'' \<or> ri_bus (r_info q) = ''stopped'' then None
          else (case i of Some n \<Rightarrow> if n > 0 then Some n else None | None \<Rightarrow> None))"

definition turnEnd :: "row option \<Rightarrow> num option" where
  "turnEnd r = liveEnd r (Option.bind r (\<lambda>q. ri_reply_end (r_info q)))"

definition agentBlocked :: "row option \<Rightarrow> bool" where
  "agentBlocked r \<longleftrightarrow>
     (case r of Some q \<Rightarrow> ri_bus (r_info q) = ''blocked'' \<or> ri_herdr (r_info q) = ''blocked'' | None \<Rightarrow> False)"

datatype attention_state = Blocked | Unread

definition agentAttention :: "row option \<Rightarrow> read_marker option \<Rightarrow> bool \<Rightarrow> attention_state option" where
  "agentAttention r marker blockViewed =
     (if agentBlocked r \<and> \<not> blockViewed then Some Blocked
      else if (case marker of Some m \<Rightarrow> mk_unread m | None \<Rightarrow> False) then Some Unread
      else case r of
             None \<Rightarrow> None
           | Some q \<Rightarrow>
               if ri_bus (r_info q) \<noteq> ''listening'' \<and> ri_bus (r_info q) \<noteq> ''active'' then None
               else (case (turnEnd r, marker) of
                       (Some i, Some m) \<Rightarrow> if i > mk_turn m then Some Unread else None
                     | _ \<Rightarrow> None))"

definition add_attention ::
    "board option \<Rightarrow> (string, read_marker) jsmap \<Rightarrow> draft_marks \<Rightarrow> string list \<Rightarrow> string \<Rightarrow> space_attention \<Rightarrow> space_attention" where
  "add_attention board markers drafts viewedBlocks name r =
     (let r1 = (case agentAttention (findAgentRow board name) (get markers name) (name \<in> set viewedBlocks) of
                  None \<Rightarrow> r
                | Some Blocked \<Rightarrow> r\<lparr>at_blocked := at_blocked r @ [name]\<rparr>
                | Some Unread \<Rightarrow> r\<lparr>at_unread := at_unread r @ [name]\<rparr>)
      in if get drafts name \<noteq> None then r1\<lparr>at_drafts := at_drafts r1 @ [name]\<rparr> else r1)"

definition quietAttention :: space_attention where
  "quietAttention = \<lparr>at_unread = [], at_blocked = [], at_drafts = []\<rparr>"

definition spaceAttention ::
    "board option \<Rightarrow> string list \<Rightarrow> (string, read_marker) jsmap \<Rightarrow> draft_marks \<Rightarrow> string list \<Rightarrow> space_attention" where
  "spaceAttention board agents markers drafts viewedBlocks =
     fold (add_attention board markers drafts viewedBlocks) agents quietAttention"

subsection \<open>What reading writes\<close>

definition seed_one ::
    "(string, read_marker) jsmap \<Rightarrow> board option \<Rightarrow> string \<Rightarrow> (string, read_marker) jsmap \<Rightarrow> (string, read_marker) jsmap" where
  "seed_one markers board name updates =
     (if get markers name \<noteq> None then updates
      else let r = findAgentRow board name
           in case liveEnd r (Option.bind r (\<lambda>q. ri_turn_end (r_info q))) of
                None \<Rightarrow> updates
              | Some i \<Rightarrow> put name (baselineMarker i) updates)"

definition seedUpdates :: "(string, read_marker) jsmap \<Rightarrow> board option \<Rightarrow> string list \<Rightarrow> (string, read_marker) jsmap" where
  "seedUpdates markers board agents = fold (seed_one markers board) agents []"

text \<open>A position still loading is absent from the map; one that has none is \<open>Some None\<close>.\<close>

type_synonym positions = "(string, read_position option) jsmap"

definition read_one ::
    "(string, read_marker) jsmap \<Rightarrow> board option \<Rightarrow> positions \<Rightarrow> string list \<Rightarrow> num \<Rightarrow> string
     \<Rightarrow> (string, read_marker) jsmap \<Rightarrow> (string, read_marker) jsmap" where
  "read_one markers board positions armed time name updates =
     (let marker = get markers name
      in if (case marker of Some m \<Rightarrow> mk_unread m | None \<Rightarrow> False) \<and> name \<notin> set armed then updates
         else case get positions name of
                None \<Rightarrow> updates
              | Some latest \<Rightarrow>
                  (case readThrough marker (turnEnd (findAgentRow board name)) latest time of
                     None \<Rightarrow> updates
                   | Some m \<Rightarrow> put name m updates))"

definition readUpdates ::
    "(string, read_marker) jsmap \<Rightarrow> board option \<Rightarrow> string list \<Rightarrow> positions \<Rightarrow> string list \<Rightarrow> num \<Rightarrow> (string, read_marker) jsmap" where
  "readUpdates markers board viewed positions armed time = fold (read_one markers board positions armed time) viewed []"

definition agentUnread :: "row option \<Rightarrow> read_marker option \<Rightarrow> bool" where
  "agentUnread r marker \<longleftrightarrow>
     (case marker of Some m \<Rightarrow> mk_unread m | None \<Rightarrow> False) \<or> agentAttention r marker True = Some Unread"

definition mark_read_one ::
    "(string, read_marker) jsmap \<Rightarrow> board option \<Rightarrow> positions \<Rightarrow> num \<Rightarrow> string
     \<Rightarrow> (string, read_marker) jsmap \<Rightarrow> (string, read_marker) jsmap" where
  "mark_read_one markers board positions time name updates =
     (let r = findAgentRow board name; marker = get markers name
      in if \<not> agentUnread r marker then updates
         else case readThrough marker (turnEnd r) (or_else (get positions name) None) time of
                None \<Rightarrow> updates
              | Some m \<Rightarrow> put name m updates)"

definition markReadUpdates ::
    "(string, read_marker) jsmap \<Rightarrow> board option \<Rightarrow> string list \<Rightarrow> positions \<Rightarrow> num \<Rightarrow> (string, read_marker) jsmap" where
  "markReadUpdates markers board names positions time = fold (mark_read_one markers board positions time) names []"

subsection \<open>The whole board\<close>

definition boardAgents :: "board \<Rightarrow> string list" where
  "boardAgents b = uniq (filter (\<lambda>n. n \<noteq> [] \<and> n \<noteq> ''-'') (map r_agent (board_rows b)))"

definition markerKeepSet :: "board option \<Rightarrow> string list \<Rightarrow> string list option" where
  "markerKeepSet board openAgents = map_option (\<lambda>b. add_all openAgents (boardAgents b)) board"

text \<open>The context menu of a space: \<open>Mark all read\<close>, or none.\<close>

definition spaceMenuItems :: "space_attention \<Rightarrow> (string \<times> string) list" where
  "spaceMenuItems a = (if at_unread a \<noteq> [] then [(''read'', ''Mark all read'')] else [])"

definition attentionLabel :: "space_attention \<Rightarrow> string" where
  "attentionLabel a =
     (let unread = length (at_unread a); blocked = length (at_blocked a); drafts = length (at_drafts a);
          waiting = (if unread > 0 \<and> blocked > 0 then counted unread ''agent'' @ '' waiting, '' @ digits blocked @ '' blocked''
                     else if unread > 0 then counted unread ''agent'' @ '' waiting''
                     else if blocked > 0 then counted blocked ''agent'' @ '' blocked''
                     else [])
      in if drafts > 0 then (if waiting \<noteq> [] then waiting @ '', '' @ draftCountLabel drafts else draftCountLabel drafts)
         else if waiting \<noteq> [] then waiting else ''no agents waiting'')"

definition boardAttention ::
    "board option \<Rightarrow> (string, read_marker) jsmap \<Rightarrow> draft_marks \<Rightarrow> string list \<Rightarrow> space_attention" where
  "boardAttention board markers drafts viewedBlocks =
     (case board of
        None \<Rightarrow> quietAttention
      | Some b \<Rightarrow> spaceAttention board (boardAgents b) markers drafts viewedBlocks)"

definition needsYou :: "space_attention \<Rightarrow> nat" where
  "needsYou a = length (at_unread a) + length (at_blocked a)"

definition nextViewedBlocks :: "string list \<Rightarrow> board option \<Rightarrow> string list \<Rightarrow> (string \<Rightarrow> bool) \<Rightarrow> string list" where
  "nextViewedBlocks previous board viewed keep =
     (if board = None then previous
      else let kept = filter (\<lambda>n. case findAgentRow board n of Some r \<Rightarrow> agentBlocked (Some r) | None \<Rightarrow> keep n) previous;
               next = add_all (filter (\<lambda>n. agentBlocked (findAgentRow board n)) viewed) (uniq kept)
           in if length next = length previous \<and> list_all (\<lambda>n. n \<in> set previous) next then previous else next)"

end
