(* ===== verification/ReadMarkerStore.thy ===== *)
theory ReadMarkerStore
  imports ReadMarkers StateSync
begin

section \<open>The store of read markers\<close>

text \<open>
  \<^verbatim>\<open>features/spaces/readMarkerStore.ts\<close> and the adapter of \<^verbatim>\<open>readMarkerSync.ts\<close>. \<open>rs_announced\<close> logs what the
  mutation listeners were told and \<open>rs_notified\<close> counts the calls of the other listeners; a repair is
  published from a microtask, so it waits in \<open>rs_microtasks\<close> until \<open>run_marker_microtasks\<close>.
\<close>

record marker_store =
  rs_rows :: "(string, marker_row) jsmap"
  rs_storage :: "storage option"
  rs_snapshot :: "(string, read_marker) jsmap"
  rs_notified :: nat
  rs_announced :: "state_row list list"
  rs_microtasks :: "marker_row list list"

definition readMarkersKey :: string where
  "readMarkersKey = ''herder.web.read-markers.v2''"

definition readMarkerRowsKey :: string where
  "readMarkerRowsKey = ''herder.web.read-markers.v3:rows''"

subsection \<open>Reading the storage\<close>

text \<open>A turn end of the second version: a positive safe integer.\<close>

definition v2_turn :: "json \<Rightarrow> num option" where
  "v2_turn v = (case as_finite (Some v) of Some n \<Rightarrow> if is_safe_integer n \<and> 0 < n then Some n else None | None \<Rightarrow> None)"

definition parseReadMarkers :: "cell option \<Rightarrow> (string, num) jsmap option" where
  "parseReadMarkers raw =
     (case parse_cell raw of
        None \<Rightarrow> None
      | Some v \<Rightarrow>
          if field v ''version'' \<noteq> Some (JNum 2) then None
          else (case field v ''markers'' of
                  Some (JObj kvs) \<Rightarrow>
                    if list_all (\<lambda>(_, m). v2_turn m \<noteq> None) kvs then Some (map (\<lambda>(k, m). (k, the (v2_turn m))) kvs) else None
                | _ \<Rightarrow> None))"

definition readReadMarkers :: "storage \<Rightarrow> (string, num) jsmap \<times> write_state" where
  "readReadMarkers st =
     (case readBrowserRecord parseReadMarkers readMarkersKey st of (v, state) \<Rightarrow> (or_else v [], state))"

definition parseMarkerRows :: "cell option \<Rightarrow> marker_row list option" where
  "parseMarkerRows raw = map_option (List.map_filter parseMarkerRow) (as_array (parse_cell raw))"

subsection \<open>The store\<close>

definition marker_rows_json :: "(string, marker_row) jsmap \<Rightarrow> json" where
  "marker_rows_json m = JArr (map (\<lambda>r. row_json (markerStateRow r)) (vals m))"

definition live_markers :: "(string, marker_row) jsmap \<Rightarrow> (string, read_marker) jsmap" where
  "live_markers m = map (\<lambda>r. (mw_key r, markerOf r)) (filter (\<lambda>r. \<not> mw_deleted r) (vals m))"

definition persist_markers :: "marker_store \<Rightarrow> marker_store" where
  "persist_markers s =
     s\<lparr>rs_storage := map_option (\<lambda>st. fst (setItem readMarkerRowsKey (Json (marker_rows_json (rs_rows s))) st)) (rs_storage s)\<rparr>"

definition markers_changed :: "marker_store \<Rightarrow> marker_store" where
  "markers_changed s =
     (let s1 = persist_markers (s\<lparr>rs_snapshot := live_markers (rs_rows s)\<rparr>)
      in s1\<lparr>rs_notified := Suc (rs_notified s1)\<rparr>)"

definition publish_markers :: "marker_row list \<Rightarrow> marker_store \<Rightarrow> marker_store" where
  "publish_markers written s =
     (if written = [] then s else s\<lparr>rs_announced := rs_announced s @ [map markerStateRow written]\<rparr>)"

definition marker_version :: "env \<Rightarrow> marker_row option \<Rightarrow> bool \<Rightarrow> num" where
  "marker_version env current weak =
     (if current = None \<and> weak then weakUpdated
      else max (now env) (js_add (case current of Some r \<Rightarrow> mw_updated r | None \<Rightarrow> 0) 1))"

definition load_marker :: "marker_row \<Rightarrow> (string, marker_row) jsmap \<Rightarrow> (string, marker_row) jsmap" where
  "load_marker r m = put (mw_key r) (fst (mergeMarkerRow (get m (mw_key r)) r)) m"

definition createReadMarkerStore :: "env \<Rightarrow> storage option \<Rightarrow> marker_store" where
  "createReadMarkerStore env st =
     (let stored = (case st of None \<Rightarrow> None | Some t \<Rightarrow> Option.bind (getItem t readMarkerRowsKey) parseMarkerRows);
          initial = (case stored of
                       Some rs \<Rightarrow> rs
                     | None \<Rightarrow> (case st of None \<Rightarrow> [] | Some t \<Rightarrow> migratedMarkerRows (fst (readReadMarkers t)) (ids env 0)));
          rows = fold load_marker initial [];
          s = \<lparr>rs_rows = rows, rs_storage = st, rs_snapshot = live_markers rows, rs_notified = 0, rs_announced = [],
               rs_microtasks = []\<rparr>
      in if stored = None then persist_markers s else s)"

subsection \<open>Operations\<close>

text \<open>One incoming row: whether anything changed, the repairs and the rows so far.\<close>

type_synonym merge_state = "bool \<times> marker_row list \<times> (string, marker_row) jsmap"

definition merge_marker :: "env \<Rightarrow> state_row \<Rightarrow> merge_state \<Rightarrow> merge_state" where
  "merge_marker env raw acc =
     (case acc of (dirty, repairs, m) \<Rightarrow>
        case parseMarkerRow (row_json raw) of
          None \<Rightarrow> acc
        | Some row \<Rightarrow>
            let current = get m (mw_key row)
            in case mergeMarkerRow current row of
                 (merged, True) \<Rightarrow>
                   let repaired = merged\<lparr>mw_updated := marker_version env (Some merged) False,
                                         mw_writeID := ids env (length repairs)\<rparr>
                   in (True, repairs @ [repaired], put (mw_key row) repaired m)
               | (merged, False) \<Rightarrow>
                   if Some merged \<noteq> current then (True, repairs, put (mw_key row) merged m) else acc)"

definition merge_markers :: "env \<Rightarrow> state_row list \<Rightarrow> marker_store \<Rightarrow> marker_store" where
  "merge_markers env incoming s =
     (case fold (merge_marker env) incoming (False, [], rs_rows s) of
        (dirty, repairs, m) \<Rightarrow>
          if \<not> dirty then s
          else let s1 = markers_changed (s\<lparr>rs_rows := m\<rparr>)
               in if repairs = [] then s1 else s1\<lparr>rs_microtasks := rs_microtasks s1 @ [repairs]\<rparr>)"

text \<open>The microtasks queued so far.\<close>

definition run_marker_microtasks :: "marker_store \<Rightarrow> marker_store" where
  "run_marker_microtasks s = fold publish_markers (rs_microtasks s) (s\<lparr>rs_microtasks := []\<rparr>)"

text \<open>One update: the rows written and the rows so far.\<close>

definition apply_marker ::
    "env \<Rightarrow> bool \<Rightarrow> string \<times> read_marker \<Rightarrow> marker_row list \<times> (string, marker_row) jsmap
     \<Rightarrow> marker_row list \<times> (string, marker_row) jsmap" where
  "apply_marker env weak update acc =
     (case update of (key, marker) \<Rightarrow> case acc of (written, m) \<Rightarrow>
        let current = get m key;
            live = (case current of Some r \<Rightarrow> if mw_deleted r then None else Some r | None \<Rightarrow> None)
        in if weak \<and> live \<noteq> None then acc
           else if sameMarker live marker then acc
           else let r = marker_row_of key marker (marker_version env current weak) (ids env (length written)) False
                in (written @ [r], put key r m))"

definition apply_markers :: "env \<Rightarrow> bool \<Rightarrow> (string, read_marker) jsmap \<Rightarrow> marker_store \<Rightarrow> marker_store" where
  "apply_markers env weak updates s =
     (case fold (apply_marker env weak) updates ([], rs_rows s) of
        (written, m) \<Rightarrow>
          if written = [] then s else publish_markers written (markers_changed (s\<lparr>rs_rows := m\<rparr>)))"

definition prune_markers :: "string list \<Rightarrow> marker_store \<Rightarrow> marker_store" where
  "prune_markers keep s =
     (let gone = filter (\<lambda>k. k \<notin> set keep) (keys (rs_rows s))
      in if gone = [] then s else markers_changed (s\<lparr>rs_rows := fold del gone (rs_rows s)\<rparr>))"

subsection \<open>The adapter\<close>

definition marker_state_rows :: "marker_store \<Rightarrow> state_row list" where
  "marker_state_rows s = map markerStateRow (vals (rs_rows s))"

text \<open>It has no \<open>forget\<close>: a purged row stays.\<close>

definition readMarkerStoreSyncAdapter :: "marker_store sync_store" where
  "readMarkerStoreSyncAdapter =
     \<lparr>all_rows = marker_state_rows,
      row_of = (\<lambda>s k. find (\<lambda>r. row_key r = k) (marker_state_rows s)),
      merge_rows = merge_markers,
      forget_rows = (\<lambda>_ s. s)\<rparr>"

definition marker_live_ids :: "marker_store \<Rightarrow> string list" where
  "marker_live_ids s = keys (rs_snapshot s)"

definition readMarkersSyncMessages :: sync_messages where
  "readMarkersSyncMessages =
     \<lparr>browserOnly = ''What you have read is saved in this browser only.'',
      pendingMsg = (\<lambda>n. ''What you have read is saved on this device, but '' @ digits n @ '' ''
        @ (if n = 1 then ''change'' else ''changes'') @ '' could not sync. ''
        @ (if n = 1 then ''It'' else ''They'') @ '' will retry automatically.''),
      queuePersistence =
        ''What you have read is saved on this device, but the pending sync queue could not be saved between browser sessions.'',
      postRefused = (\<lambda>_ detail. ''What you have read is saved on this device, but the server refused to sync it: '' @ detail),
      cursorPersistence =
        ''What you have read is saved on this device, but the sync cursor could not be saved between browser sessions.''\<rparr>"

definition createReadMarkersSync :: "marker_store sync_config" where
  "createReadMarkersSync =
     \<lparr>namespace = ''read.markers'', compare_rows = compareRows, messages = readMarkersSyncMessages,
      ops = readMarkerStoreSyncAdapter, maxPostBytes = maxStatePostBytes, can_retry = True\<rparr>"

end
