(* ===== verification/ReadMarkerProps.thy ===== *)
theory ReadMarkerProps
  imports ReadMarkerStore
begin

section \<open>What holds of read markers\<close>

subsection \<open>Well-formed markers and rows\<close>

definition count_ok :: "num \<Rightarrow> bool" where
  "count_ok n \<longleftrightarrow> 0 \<le> n \<and> is_safe_integer n"

definition position_ok :: "read_position option \<Rightarrow> bool" where
  "position_ok p \<longleftrightarrow> (case p of None \<Rightarrow> True | Some q \<Rightarrow> ps_session q \<noteq> [] \<and> count_ok (ps_offset q))"

definition marker_ok :: "'a read_marker_scheme \<Rightarrow> bool" where
  "marker_ok m \<longleftrightarrow> count_ok (mk_turn m) \<and> position_ok (mk_pos m) \<and> count_ok (mk_at m)"

definition marker_row_ok :: "marker_row \<Rightarrow> bool" where
  "marker_row_ok r \<longleftrightarrow>
     mw_key r \<noteq> [] \<and> mw_writeID r \<noteq> [] \<and> marker_ok r \<and> (mw_deleted r \<longrightarrow> markerOf r = baselineMarker 0)"

lemma as_count_Some [simp]: "as_count j = Some n \<longleftrightarrow> j = Some (JNum n) \<and> count_ok n"
  by (auto simp: as_count_def count_ok_def as_finite_Some split: option.splits)

lemma as_nonempty_JStr [simp]: "s \<noteq> [] \<Longrightarrow> as_nonempty (Some (JStr s)) = Some s"
  by (simp add: as_nonempty_def)

lemma as_count_JNum [simp]: "count_ok n \<Longrightarrow> as_count (Some (JNum n)) = Some n"
  by simp

lemma count_ok_0 [simp]: "count_ok 0"
  by (simp add: count_ok_def is_safe_integer_def max_safe_def)

lemma count_ok_max [simp]: "count_ok a \<Longrightarrow> count_ok b \<Longrightarrow> count_ok (max a b)"
  by (simp add: max_def)

lemma baseline_ok [simp]: "count_ok n \<Longrightarrow> marker_ok (baselineMarker n)"
  by (simp add: marker_ok_def baselineMarker_def position_ok_def)

lemma marker_row_of_simps [simp]:
  "mw_key (marker_row_of k m u w d) = k" "mw_updated (marker_row_of k m u w d) = u"
  "mw_writeID (marker_row_of k m u w d) = w" "mw_deleted (marker_row_of k m u w d) = d"
  "mk_turn (marker_row_of k m u w d) = mk_turn m" "mk_pos (marker_row_of k m u w d) = mk_pos m"
  "mk_at (marker_row_of k m u w d) = mk_at m" "mk_unread (marker_row_of k m u w d) = mk_unread m"
  "markerOf (marker_row_of k m u w d) = m"
  "marker_ok (marker_row_of k m u w d) = marker_ok m"
  by (simp_all add: marker_row_of_def markerOf_def marker_ok_def)

lemma markerOf_simps [simp]:
  "mk_turn (markerOf r) = mk_turn r" "mk_pos (markerOf r) = mk_pos r" "mk_at (markerOf r) = mk_at r"
  "mk_unread (markerOf r) = mk_unread r" "marker_ok (markerOf r) = marker_ok r"
  by (simp_all add: markerOf_def marker_ok_def)

text \<open>A row is its marker and its version.\<close>

lemma marker_row_eta: "marker_row_of (mw_key r) (markerOf r) (mw_updated r) (mw_writeID r) (mw_deleted r) = r"
  by (simp add: marker_row_of_def)

lemma parse_position_json: "position_ok p \<Longrightarrow> parsePosition (Some (position_json p)) = Some p"
  by (cases p) (auto simp: parsePosition_def position_json_def position_ok_def)

lemma parse_position_ok: "parsePosition j = Some p \<Longrightarrow> position_ok p"
  by (auto simp: parsePosition_def position_ok_def as_nonempty_Some split: option.splits json.splits)

lemma parse_marker_ok: "parseMarker v = Some m \<Longrightarrow> marker_ok m"
  by (auto simp: parseMarker_def marker_ok_def dest: parse_position_ok split: option.splits)

lemma parse_row_ok: "parseMarkerRow v = Some r \<Longrightarrow> marker_row_ok r"
  by (auto simp: parseMarkerRow_def marker_row_ok_def as_nonempty_Some bind_eq_Some_conv
      dest: parse_marker_ok split: option.splits if_splits)

lemma parse_marker_row: "marker_row_ok r \<Longrightarrow> parseMarkerRow (row_json (markerStateRow r)) = Some r"
proof -
  assume r: "marker_row_ok r"
  show ?thesis
  proof (cases "mw_deleted r")
    case True
    then show ?thesis
      using r marker_row_eta [of r] by (auto simp: parseMarkerRow_def row_json_def markerStateRow_def marker_row_ok_def)
  next
    case False
    then show ?thesis
      using r parse_position_json [of "mk_pos r"] marker_row_eta [of r]
      by (auto simp: parseMarkerRow_def row_json_def markerStateRow_def marker_row_ok_def parseMarker_def
          marker_ok_def markerOf_def)
  qed
qed

subsection \<open>Merging two rows\<close>

definition ahead :: "'a read_marker_scheme \<Rightarrow> 'b read_marker_scheme \<Rightarrow> bool" where
  "ahead l r \<longleftrightarrow> comparePositions (mk_pos r) (mk_at r) (mk_pos l) (mk_at l) > 0"

lemma ahead_iff:
  "ahead l r \<longleftrightarrow>
     (case (mk_pos l, mk_pos r) of
        (Some p, Some q) \<Rightarrow> if ps_session p = ps_session q then ps_offset q < ps_offset p else mk_at r < mk_at l
      | (Some _, None) \<Rightarrow> True
      | _ \<Rightarrow> False)"
  by (auto simp: ahead_def comparePositions_def js_sub_pos split: option.splits)

text \<open>The two rows have the same strength: both from a real write, or both weak.\<close>

definition same_strength :: "marker_row \<Rightarrow> marker_row \<Rightarrow> bool" where
  "same_strength a b \<longleftrightarrow> (mw_updated a = weakUpdated) = (mw_updated b = weakUpdated)"

text \<open>The row of the newer version (the one held, on a tie) and the other one.\<close>

definition row_winner :: "marker_row \<Rightarrow> marker_row \<Rightarrow> marker_row" where
  "row_winner cur inc = (if row_version inc cur > 0 then inc else cur)"

definition row_loser :: "marker_row \<Rightarrow> marker_row \<Rightarrow> marker_row" where
  "row_loser cur inc = (if row_version inc cur > 0 then cur else inc)"

text \<open>What reading on either device amounts to.\<close>

definition furthest :: "marker_row \<Rightarrow> marker_row \<Rightarrow> marker_row" where
  "furthest w l =
     w\<lparr>mk_turn := max (mk_turn w) (mk_turn l), mk_pos := (if ahead l w then mk_pos l else mk_pos w),
       mk_at := max (mk_at w) (mk_at l)\<rparr>"

lemma sameMarker_Some: "sameMarker (Some l) r \<longleftrightarrow> markerOf l = markerOf r"
  by (auto simp: sameMarker_def samePosition_def markerOf_def)

lemma sameMarker_iff: "sameMarker l r \<longleftrightarrow> (\<exists>m. l = Some m \<and> markerOf m = markerOf r)"
  by (cases l) (simp_all add: sameMarker_Some, simp add: sameMarker_def)

lemma same_marker_version:
  fixes a b :: marker_row
  shows "markerOf a = markerOf b \<Longrightarrow> mw_key a = mw_key b \<Longrightarrow> mw_updated a = mw_updated b \<Longrightarrow> mw_writeID a = mw_writeID b \<Longrightarrow>
     mw_deleted a = mw_deleted b \<Longrightarrow> a = b"
  by (cases a; cases b) (simp add: markerOf_def)

lemma furthest_simps [simp]:
  "mw_key (furthest w l) = mw_key w" "mw_updated (furthest w l) = mw_updated w"
  "mw_writeID (furthest w l) = mw_writeID w" "mw_deleted (furthest w l) = mw_deleted w"
  "mk_unread (furthest w l) = mk_unread w" "mk_turn (furthest w l) = max (mk_turn w) (mk_turn l)"
  "mk_at (furthest w l) = max (mk_at w) (mk_at l)" "mk_pos (furthest w l) = (if ahead l w then mk_pos l else mk_pos w)"
  by (simp_all add: furthest_def)

text \<open>The three outcomes of a merge.\<close>

lemma merge_cases:
  obtains (weak) "\<not> same_strength cur inc"
      "mergeMarkerRow (Some cur) inc = (if mw_updated cur = weakUpdated then inc else cur, False)"
  | (stands) "same_strength cur inc"
      "mw_deleted (row_winner cur inc) \<or> mk_unread (row_winner cur inc) \<or> mw_deleted (row_loser cur inc)"
      "mergeMarkerRow (Some cur) inc = (row_winner cur inc, False)"
  | (merged) "same_strength cur inc"
      "\<not> mw_deleted (row_winner cur inc)" "\<not> mk_unread (row_winner cur inc)" "\<not> mw_deleted (row_loser cur inc)"
      "mergeMarkerRow (Some cur) inc =
         (furthest (row_winner cur inc) (row_loser cur inc),
          furthest (row_winner cur inc) (row_loser cur inc) \<noteq> row_winner cur inc)"
proof -
  let ?w = "row_winner cur inc" and ?l = "row_loser cur inc"
  have f: "sameMarker (Some ?w) (furthest ?w ?l) \<longleftrightarrow> furthest ?w ?l = ?w"
    using same_marker_version [of ?w "furthest ?w ?l"] by (auto simp: sameMarker_Some)
  consider "\<not> same_strength cur inc" | "same_strength cur inc" "mw_deleted ?w \<or> mk_unread ?w \<or> mw_deleted ?l"
    | "same_strength cur inc" "\<not> (mw_deleted ?w \<or> mk_unread ?w \<or> mw_deleted ?l)" by blast
  then show thesis
  proof cases
    case 1
    then show thesis by (intro weak) (auto simp: mergeMarkerRow_def same_strength_def Let_def)
  next
    case 2
    then show thesis
      by (intro stands) (auto simp: mergeMarkerRow_def same_strength_def Let_def row_winner_def row_loser_def)
  next
    case 3
    have "mergeMarkerRow (Some cur) inc =
        (if sameMarker (Some ?w) (furthest ?w ?l) then (?w, False) else (furthest ?w ?l, True))"
      using 3 by (simp only: mergeMarkerRow_def same_strength_def Let_def row_winner_def row_loser_def furthest_def ahead_def
          option.case) simp
    then show thesis using 3 f by (intro merged) auto
  qed
qed

lemma merge_row_fields:
  assumes "mw_key inc = mw_key cur"
  shows "mw_key (fst (mergeMarkerRow (Some cur) inc)) = mw_key cur"
  by (rule merge_cases [of cur inc]) (use assms in \<open>auto simp: row_winner_def\<close>)

lemma furthest_ok: "marker_ok w \<Longrightarrow> marker_ok l \<Longrightarrow> marker_ok (furthest w l)"
  by (auto simp: marker_ok_def)

lemma merge_row_ok:
  assumes "marker_row_ok cur" and "marker_row_ok inc"
  shows "marker_row_ok (fst (mergeMarkerRow (Some cur) inc))"
proof (rule merge_cases [of cur inc])
  assume m: "\<not> mw_deleted (row_winner cur inc)" "\<not> mw_deleted (row_loser cur inc)"
    "mergeMarkerRow (Some cur) inc =
         (furthest (row_winner cur inc) (row_loser cur inc),
          furthest (row_winner cur inc) (row_loser cur inc) \<noteq> row_winner cur inc)"
  have "marker_row_ok (row_winner cur inc)" "marker_row_ok (row_loser cur inc)"
    using assms by (auto simp: row_winner_def row_loser_def)
  then show ?thesis using m furthest_ok [of "row_winner cur inc" "row_loser cur inc"] by (simp add: marker_row_ok_def)
qed (use assms in \<open>auto simp: row_winner_def\<close>)

lemma version_flip: "row_version a b > 0 \<longleftrightarrow> row_version b a < 0"
  by (auto simp: row_version_def compare_pos compare_neg)

end
