(* ===== verification/ReadMarkerClaims.thy ===== *)
theory ReadMarkerClaims
  imports ReadMarkerProps
begin

section \<open>Properties of read markers\<close>

subsection \<open>Merging\<close>

lemma furthest_ahead: "\<not> ahead w (furthest w l)" "\<not> ahead l (furthest w l)"
  by (auto simp: ahead_iff split: option.splits if_splits)

lemma winner_swap:
  "row_version a b \<noteq> 0 \<Longrightarrow> row_winner a b = row_winner b a"
  "row_version a b \<noteq> 0 \<Longrightarrow> row_loser a b = row_loser b a"
  using version_flip [of a b] version_flip [of b a] by (auto simp: row_winner_def row_loser_def)

lemma merge_swap:
  assumes "row_version a b \<noteq> 0"
  shows "mergeMarkerRow (Some a) b = mergeMarkerRow (Some b) a"
  by (rule merge_cases [of a b]; rule merge_cases [of b a])
    (use winner_swap [OF assms] in \<open>auto simp: same_strength_def\<close>)

text \<open>
  C21. Two devices' accounts of one agent converge, whichever arrives first: merging them gives the same row
  and the same decision to publish it in either order; between two live rows of the same strength whose
  newer one is not a deliberate mark unread, the result has the later turn and neither row has read further;
  a newer mark unread stands exactly as written; and a weak row never changes a real one.
\<close>

theorem markers_converge:
  assumes "row_version a b \<noteq> 0"
  shows "mergeMarkerRow (Some a) b = mergeMarkerRow (Some b) a \<and>
    (same_strength a b \<and> \<not> mw_deleted a \<and> \<not> mw_deleted b \<longrightarrow>
       (if mk_unread (row_winner a b) then fst (mergeMarkerRow (Some a) b) = row_winner a b
        else mk_turn (fst (mergeMarkerRow (Some a) b)) = max (mk_turn a) (mk_turn b) \<and>
             \<not> mk_unread (fst (mergeMarkerRow (Some a) b)) \<and>
             \<not> ahead a (fst (mergeMarkerRow (Some a) b)) \<and> \<not> ahead b (fst (mergeMarkerRow (Some a) b)))) \<and>
    (mw_updated a = weakUpdated \<and> mw_updated b \<noteq> weakUpdated \<longrightarrow> mergeMarkerRow (Some a) b = (b, False))"
proof (rule merge_cases [of a b])
  assume m: "same_strength a b" "\<not> mw_deleted (row_winner a b)" "\<not> mk_unread (row_winner a b)"
    "mergeMarkerRow (Some a) b =
         (furthest (row_winner a b) (row_loser a b), furthest (row_winner a b) (row_loser a b) \<noteq> row_winner a b)"
  then show ?thesis
    using merge_swap [OF assms]
    by (auto simp: row_winner_def row_loser_def furthest_ahead same_strength_def max.commute)
qed (use merge_swap [OF assms] in \<open>auto simp: same_strength_def row_winner_def row_loser_def\<close>)

definition sample_marker_row :: "num \<Rightarrow> num \<Rightarrow> string \<Rightarrow> marker_row" where
  "sample_marker_row turn updated writeID =
     marker_row_of ''ziru'' \<lparr>mk_turn = turn, mk_pos = Some \<lparr>ps_session = ''s'', ps_offset = 10 * turn, ps_ts = []\<rparr>,
       mk_at = 5, mk_unread = False\<rparr> updated writeID False"

theorem markers_converge_witness:
  "mergeMarkerRow (Some (sample_marker_row 9 20 ''a'')) (sample_marker_row 4 30 ''b'') =
     mergeMarkerRow (Some (sample_marker_row 4 30 ''b'')) (sample_marker_row 9 20 ''a'') \<and>
   mk_turn (fst (mergeMarkerRow (Some (sample_marker_row 9 20 ''a'')) (sample_marker_row 4 30 ''b''))) = 9"
proof -
  have v: "row_version (sample_marker_row 9 20 ''a'') (sample_marker_row 4 30 ''b'') \<noteq> 0"
    by (simp add: row_version_def sample_marker_row_def compareStateVersions_def)
  have w: "row_winner (sample_marker_row 9 20 ''a'') (sample_marker_row 4 30 ''b'') = sample_marker_row 4 30 ''b''"
    "same_strength (sample_marker_row 9 20 ''a'') (sample_marker_row 4 30 ''b'')"
    by (simp_all add: same_strength_def row_winner_def row_version_def sample_marker_row_def compareStateVersions_def
        weakUpdated_def)
  have t: "\<not> mw_deleted (sample_marker_row n u i)" "\<not> mk_unread (sample_marker_row n u i)"
    "mk_turn (sample_marker_row n u i) = n" for n u i
    by (simp_all add: sample_marker_row_def)
  show ?thesis
    using markers_converge [OF v, THEN conjunct2, THEN conjunct1]
    by (intro conjI markers_converge [OF v, THEN conjunct1]) (simp add: w t)
qed

text \<open>The version given to a write is newer than the one it replaces.\<close>

lemma marker_version_newer:
  "\<bar>mw_updated r\<bar> < max_safe \<Longrightarrow> mw_updated r < marker_version env (Some r) weak"
  by (auto simp: marker_version_def max_safe_def)

text \<open>
  C22. A repair settles the matter: when a merge ends ahead of the newer row and is published again with a
  newer version, every device that holds either of the two rows takes it over as it is and publishes nothing
  in turn. Devices do not answer each other's repairs for ever.
\<close>

theorem repair_settles:
  assumes "mergeMarkerRow (Some cur) inc = (m, True)"
    and "1 \<le> mw_updated cur" "1 \<le> mw_updated inc" "mw_updated cur < max_safe" "mw_updated inc < max_safe"
    and "x = cur \<or> x = inc"
  shows "mergeMarkerRow (Some x) (m\<lparr>mw_updated := marker_version env (Some m) False, mw_writeID := w\<rparr>) =
    (m\<lparr>mw_updated := marker_version env (Some m) False, mw_writeID := w\<rparr>, False)"
proof -
  let ?R = "m\<lparr>mw_updated := marker_version env (Some m) False, mw_writeID := w\<rparr>"
  let ?w = "row_winner cur inc" and ?l = "row_loser cur inc"
  have m: "m = furthest ?w ?l" "\<not> mw_deleted ?w" "\<not> mk_unread ?w" "\<not> mw_deleted ?l"
    using assms(1) by (rule_tac merge_cases [of cur inc]; auto)+
  have R: "mk_turn ?R = max (mk_turn cur) (mk_turn inc)" "mk_at ?R = max (mk_at cur) (mk_at inc)"
    "\<not> mk_unread ?R" "\<not> mw_deleted ?R"
    using m by (auto simp: row_winner_def row_loser_def max.commute)
  have "ahead x ?R = ahead x (furthest ?w ?l)" by (simp add: ahead_def m(1))
  then have pos: "\<not> ahead x ?R"
    using assms(6) by (auto simp: row_winner_def row_loser_def furthest_ahead)
  have u: "mw_updated x \<le> mw_updated m"
    using assms(6) by (auto simp: m(1) row_winner_def row_version_def compare_pos)
  have "\<bar>mw_updated m\<bar> < max_safe" using assms(2-5) by (simp add: m(1) row_winner_def)
  then have newer: "mw_updated x < mw_updated ?R" using u marker_version_newer [of m env False] by simp
  then have v: "row_version ?R x > 0" by (simp add: row_version_def compare_pos)
  have same: "furthest ?R x = ?R"
    by (rule same_marker_version) (use R pos assms(6) in \<open>auto simp: markerOf_def\<close>)
  have real: "mw_updated ?R \<noteq> weakUpdated" using newer assms(2,3,6) by (auto simp: weakUpdated_def)
  have "\<not> mw_deleted x" using m assms(6) by (auto simp: row_winner_def row_loser_def split: if_splits)
  with R v same real show ?thesis
    by (rule_tac merge_cases [of x ?R]) (auto simp: row_winner_def row_loser_def same_strength_def)
qed

theorem repair_settles_witness:
  "mergeMarkerRow (Some (sample_marker_row 9 20 ''a''))
     ((sample_marker_row 9 30 ''b'')\<lparr>mw_updated := 50, mw_writeID := ''c''\<rparr>) =
   ((sample_marker_row 9 30 ''b'')\<lparr>mw_updated := 50, mw_writeID := ''c''\<rparr>, False)"
proof -
  have m: "mergeMarkerRow (Some (sample_marker_row 9 20 ''a'')) (sample_marker_row 4 30 ''b'') = (sample_marker_row 9 30 ''b'', True)"
    by code_simp
  from repair_settles [OF m, of "sample_marker_row 9 20 ''a''" "''c''" "\<lparr>now = 50, ids = \<lambda>_. []\<rparr>"]
  show ?thesis by (simp add: sample_marker_row_def marker_version_def max_safe_def)
qed

subsection \<open>Sessions of the store\<close>

datatype marker_op =
    MergeMarkers "state_row list"
  | ApplyMarkers bool "(string, read_marker) jsmap"
  | PruneMarkers "string list"
  | MarkerMicrotasks

fun marker_exec :: "env \<Rightarrow> marker_op \<Rightarrow> marker_store \<Rightarrow> marker_store" where
  "marker_exec env (MergeMarkers rs) s = merge_markers env rs s"
| "marker_exec env (ApplyMarkers weak updates) s = apply_markers env weak updates s"
| "marker_exec env (PruneMarkers keep) s = prune_markers keep s"
| "marker_exec env MarkerMicrotasks s = run_marker_microtasks s"

text \<open>The markers a caller writes are well formed, the agents named in them and in the old markers have a name, ids are not empty.\<close>

fun marker_op_ok :: "marker_op \<Rightarrow> bool" where
  "marker_op_ok (ApplyMarkers weak updates) = list_all (\<lambda>(k, m). k \<noteq> [] \<and> marker_ok m) updates"
| "marker_op_ok _ = True"

definition named :: "env \<Rightarrow> bool" where
  "named env \<longleftrightarrow> (\<forall>n. ids env n \<noteq> [])"

inductive marker_session :: "marker_store \<Rightarrow> bool" where
  opened: "reliable st \<Longrightarrow> named env \<Longrightarrow> [] \<notin> set (keys (fst (readReadMarkers st))) \<Longrightarrow>
     marker_session (createReadMarkerStore env (Some st))"
| op: "marker_session s \<Longrightarrow> named env \<Longrightarrow> marker_op_ok e \<Longrightarrow> marker_session (marker_exec env e s)"

definition rows_good :: "(string, marker_row) jsmap \<Rightarrow> bool" where
  "rows_good m \<longleftrightarrow> wf_map m \<and> (\<forall>k r. get m k = Some r \<longrightarrow> mw_key r = k \<and> marker_row_ok r)"

lemma rows_good_Nil [simp]: "rows_good []"
  by (simp add: rows_good_def)

lemma rows_good_put: "rows_good m \<Longrightarrow> marker_row_ok r \<Longrightarrow> mw_key r = k \<Longrightarrow> rows_good (put k r m)"
  by (auto simp: rows_good_def get_put)

lemma rows_good_del1: "rows_good m \<Longrightarrow> rows_good (del k m)"
  by (auto simp: rows_good_def get_del)

lemma rows_good_del: "rows_good m \<Longrightarrow> rows_good (fold del ks m)"
  by (induction ks arbitrary: m) (simp_all add: rows_good_del1)

lemma rows_good_get: "rows_good m \<Longrightarrow> get m k = Some r \<Longrightarrow> mw_key r = k \<and> marker_row_ok r"
  by (simp add: rows_good_def)

lemma rows_good_merged:
  assumes "rows_good m" and "marker_row_ok r"
  shows "marker_row_ok (fst (mergeMarkerRow (get m (mw_key r)) r))"
    and "mw_key (fst (mergeMarkerRow (get m (mw_key r)) r)) = mw_key r"
proof -
  consider "get m (mw_key r) = None" | c where "get m (mw_key r) = Some c" by (cases "get m (mw_key r)") auto
  then have "marker_row_ok (fst (mergeMarkerRow (get m (mw_key r)) r)) \<and>
      mw_key (fst (mergeMarkerRow (get m (mw_key r)) r)) = mw_key r"
  proof cases
    case 1
    then show ?thesis using assms by (simp add: mergeMarkerRow_def)
  next
    case 2
    with rows_good_get [OF assms(1) 2] show ?thesis using merge_row_ok [of c r] merge_row_fields [of r c] assms by simp
  qed
  then show "marker_row_ok (fst (mergeMarkerRow (get m (mw_key r)) r))"
    and "mw_key (fst (mergeMarkerRow (get m (mw_key r)) r)) = mw_key r" by blast+
qed

lemma load_marker_good: "rows_good m \<Longrightarrow> marker_row_ok r \<Longrightarrow> rows_good (load_marker r m)"
  unfolding load_marker_def by (intro rows_good_put rows_good_merged)

lemma load_all_good: "\<forall>r \<in> set rs. marker_row_ok r \<Longrightarrow> rows_good m \<Longrightarrow> rows_good (fold load_marker rs m)"
  by (induction rs arbitrary: m) (auto intro: load_marker_good)

lemma merge_marker_good:
  assumes "named env" and "rows_good (snd (snd acc))"
  shows "rows_good (snd (snd (merge_marker env raw acc)))"
proof (cases "parseMarkerRow (row_json raw)")
  case None
  with assms show ?thesis by (simp add: merge_marker_def split: prod.splits)
next
  case (Some r)
  obtain d rs m where acc: "acc = (d, rs, m)" by (cases acc)
  obtain q rep where q: "mergeMarkerRow (get m (mw_key r)) r = (q, rep)" by (cases "mergeMarkerRow (get m (mw_key r)) r")
  have ok: "marker_row_ok q" "mw_key q = mw_key r"
    using rows_good_merged [of m r] parse_row_ok [OF Some] assms(2) q acc by auto
  have "marker_row_ok (q\<lparr>mw_updated := u, mw_writeID := ids env n\<rparr>)" for u n
    using ok(1) assms(1) by (auto simp: marker_row_ok_def named_def marker_ok_def markerOf_def)
  then show ?thesis
    using assms(2) acc Some q ok by (cases rep) (auto simp: merge_marker_def Let_def intro: rows_good_put)
qed

lemma apply_marker_good:
  assumes "named env" and "rows_good (snd acc)" and "fst u \<noteq> []" and "marker_ok (snd u)"
  shows "rows_good (snd (apply_marker env weak u acc))"
  using assms
  by (auto simp: apply_marker_def named_def Let_def marker_row_ok_def split: prod.splits intro!: rows_good_put)

lemma fold_good:
  assumes "\<And>x acc. x \<in> set xs \<Longrightarrow> P acc \<Longrightarrow> P (f x acc)"
  shows "P acc \<Longrightarrow> P (fold f xs acc)"
  using assms by (induction xs arbitrary: acc) auto

text \<open>Reading the rows back from what was written.\<close>

lemma put_fresh: "k \<notin> set (keys m) \<Longrightarrow> put k v m = m @ [(k, v)]"
  by (induction m) auto

lemma load_into_fresh:
  "rows_good (m @ m') \<Longrightarrow> fold load_marker (vals m') m = m @ m'"
proof (induction m' arbitrary: m)
  case (Cons p m')
  obtain k r where p: "p = (k, r)" by (cases p)
  have g: "get (m @ p # m') k = Some r" using Cons.prems p by (auto simp: rows_good_def map_add_Some_iff map_of_eq_None_iff)
  have k: "mw_key r = k" "k \<notin> set (keys m)" using rows_good_get [OF Cons.prems g] Cons.prems p by (auto simp: rows_good_def)
  then have "load_marker r m = m @ [p]"
    by (simp add: load_marker_def mergeMarkerRow_def map_of_eq_None_iff [THEN iffD2] p put_fresh)
  then show ?case using Cons.IH [of "m @ [p]"] Cons.prems p by simp
qed simp

lemma rows_good_ok: "rows_good m \<Longrightarrow> r \<in> set (vals m) \<Longrightarrow> marker_row_ok r"
  by (auto simp: rows_good_def map_of_eq_Some_iff)

lemma parse_written:
  assumes "rows_good m"
  shows "parseMarkerRows (Some (Json (marker_rows_json m))) = Some (vals m)"
proof -
  have "\<forall>r \<in> set rs. marker_row_ok r \<Longrightarrow>
      List.map_filter parseMarkerRow (map (\<lambda>r. row_json (markerStateRow r)) rs) = rs" for rs
    by (induction rs) (simp_all add: List.map_filter_simps parse_marker_row)
  from this [of "vals m"] show ?thesis
    using rows_good_ok [OF assms] by (simp add: parseMarkerRows_def marker_rows_json_def comp_def)
qed

lemma reload_written:
  assumes "rows_good m" and "readable st" and "get (items st) readMarkerRowsKey = Some (Json (marker_rows_json m))"
  shows "rs_rows (createReadMarkerStore env (Some st)) = m"
  using load_into_fresh [of "[]" m] parse_written [OF assms(1)] assms
  by (simp add: createReadMarkerStore_def Let_def)

definition markers_good :: "marker_store \<Rightarrow> bool" where
  "markers_good s \<longleftrightarrow>
     rows_good (rs_rows s) \<and> rs_snapshot s = live_markers (rs_rows s) \<and>
     (\<exists>st. rs_storage s = Some st \<and> reliable st \<and>
       (\<forall>env. rs_rows (createReadMarkerStore env (Some st)) = rs_rows s))"

lemma markers_good_frame:
  "rs_rows t = rs_rows s \<Longrightarrow> rs_snapshot t = rs_snapshot s \<Longrightarrow> rs_storage t = rs_storage s \<Longrightarrow>
     markers_good t \<longleftrightarrow> markers_good s"
  by (simp add: markers_good_def)

lemma publish_frame [simp]:
  "rs_rows (publish_markers w s) = rs_rows s" "rs_snapshot (publish_markers w s) = rs_snapshot s"
  "rs_storage (publish_markers w s) = rs_storage s" "markers_good (publish_markers w s) = markers_good s"
  by (simp_all add: publish_markers_def markers_good_def)

lemma persist_good:
  assumes "rows_good (rs_rows s)" and "rs_storage s = Some st" and "reliable st"
    and "rs_snapshot s = live_markers (rs_rows s)"
  shows "markers_good (persist_markers s)"
proof -
  have "rs_rows (createReadMarkerStore env (Some (st\<lparr>items := put readMarkerRowsKey (Json (marker_rows_json (rs_rows s))) (items st)\<rparr>))) =
      rs_rows s" for env
    using assms by (intro reload_written) (simp_all add: reliable_def get_put)
  with assms show ?thesis by (simp add: markers_good_def persist_markers_def reliable_def)
qed

lemma changed_good:
  assumes "markers_good s" and "rows_good m"
  shows "markers_good (markers_changed (s\<lparr>rs_rows := m\<rparr>))"
proof -
  obtain st where st: "rs_storage s = Some st" "reliable st" using assms(1) by (auto simp: markers_good_def)
  have "markers_good (persist_markers (s\<lparr>rs_rows := m, rs_snapshot := live_markers m\<rparr>))"
    using assms(2) st by (intro persist_good) simp_all
  then show ?thesis by (simp add: markers_changed_def Let_def markers_good_def)
qed

lemma parsed_rows_ok: "parseMarkerRows c = Some rs \<Longrightarrow> r \<in> set rs \<Longrightarrow> marker_row_ok r"
  by (auto simp: parseMarkerRows_def dest: parse_row_ok)

lemma v2_markers_count:
  assumes "(k, n) \<in> set (fst (readReadMarkers st))"
  shows "count_ok n"
proof -
  have c: "count_ok n" if "parseReadMarkers c = Some kvs" "(k, n) \<in> set kvs" for c kvs
    using that by (fastforce simp: parseReadMarkers_def v2_turn_def count_ok_def list_all_iff split: option.splits json.splits if_splits)
  then show ?thesis
    using assms
    by (auto simp: readReadMarkers_def readBrowserRecord_def Let_def or_else_def dest: c [OF sym] c split: if_splits option.splits)
qed

lemma migrated_ok:
  assumes "named env" and "[] \<notin> set (keys (fst (readReadMarkers st)))"
    and "r \<in> set (migratedMarkerRows (fst (readReadMarkers st)) (ids env 0))"
  shows "marker_row_ok r"
proof -
  obtain k n where r: "(k, n) \<in> set (fst (readReadMarkers st))"
    "r = marker_row_of k (baselineMarker n) weakUpdated (ids env 0) False"
    using assms(3) by (auto simp: migratedMarkerRows_def)
  then have "k \<noteq> []" using assms(2) by force
  then show ?thesis using r assms(1) v2_markers_count [OF r(1)] by (simp add: marker_row_ok_def named_def)
qed

lemma created_markers_good:
  assumes "reliable st" and "named env" and "[] \<notin> set (keys (fst (readReadMarkers st)))"
  shows "markers_good (createReadMarkerStore env (Some st))"
proof (cases "parseMarkerRows (get (items st) readMarkerRowsKey)")
  case (Some rs)
  have "rows_good (fold load_marker rs [])" using parsed_rows_ok [OF Some] by (intro load_all_good) auto
  then show ?thesis
    using Some assms(1) by (simp add: createReadMarkerStore_def markers_good_def reliable_def Let_def)
next
  case None
  let ?rows = "fold load_marker (migratedMarkerRows (fst (readReadMarkers st)) (ids env 0)) []"
  let ?s = "\<lparr>rs_rows = ?rows, rs_storage = Some st, rs_snapshot = live_markers ?rows, rs_notified = 0, rs_announced = [],
               rs_microtasks = []\<rparr>"
  have "rows_good ?rows" using migrated_ok [OF assms(2,3)] by (intro load_all_good) auto
  then have "markers_good (persist_markers ?s)" using assms(1) by (intro persist_good) simp_all
  then show ?thesis using None assms(1) by (simp add: createReadMarkerStore_def reliable_def Let_def)
qed

lemma merge_all_good:
  assumes "named env" and "rows_good (snd (snd acc))"
  shows "rows_good (snd (snd (fold (merge_marker env) rs acc)))"
  using assms(2) by (rule fold_good [where P = "\<lambda>acc. rows_good (snd (snd acc))", rotated]) (rule merge_marker_good [OF assms(1)])

lemma apply_all_good:
  assumes "named env" and "list_all (\<lambda>(k, m). k \<noteq> [] \<and> marker_ok m) us" and "rows_good (snd acc)"
  shows "rows_good (snd (fold (apply_marker env weak) us acc))"
  using assms(3)
  by (rule fold_good [where P = "\<lambda>acc. rows_good (snd acc)", rotated])
    (use assms(1,2) in \<open>auto simp: list_all_iff intro!: apply_marker_good\<close>)

lemma microtasks_good: "markers_good s \<Longrightarrow> markers_good (fold publish_markers ws s)"
  by (induction ws arbitrary: s) simp_all

lemma exec_markers_good:
  assumes "markers_good s" and "named env" and "marker_op_ok e"
  shows "markers_good (marker_exec env e s)"
proof -
  have g: "rows_good (rs_rows s)" using assms(1) by (simp add: markers_good_def)
  show ?thesis
  proof (cases e)
    case (MergeMarkers rs)
    obtain d reps m where m: "fold (merge_marker env) rs (False, [], rs_rows s) = (d, reps, m)"
      by (metis prod_cases3)
    have "rows_good m" using merge_all_good [OF assms(2), of "(False, [], rs_rows s)" rs] g m by simp
    from changed_good [OF assms(1) this] show ?thesis
      using MergeMarkers m assms(1) by (auto simp: merge_markers_def Let_def markers_good_def)
  next
    case (ApplyMarkers weak us)
    obtain w m where m: "fold (apply_marker env weak) us ([], rs_rows s) = (w, m)" by fastforce
    have "rows_good m" using apply_all_good [OF assms(2), of us "([], rs_rows s)" weak] assms(3) ApplyMarkers g m by simp
    from changed_good [OF assms(1) this] show ?thesis
      using ApplyMarkers m assms(1) by (auto simp: apply_markers_def)
  next
    case (PruneMarkers keep)
    show ?thesis
      using PruneMarkers assms(1) changed_good [OF assms(1) rows_good_del [OF g]] by (auto simp: prune_markers_def Let_def)
  next
    case MarkerMicrotasks
    have "markers_good (s\<lparr>rs_microtasks := []\<rparr>)" using assms(1) by (simp add: markers_good_def)
    then show ?thesis using MarkerMicrotasks by (simp add: run_marker_microtasks_def microtasks_good)
  qed
qed

lemma session_good: "marker_session s \<Longrightarrow> markers_good s"
  by (induction rule: marker_session.induct) (auto intro: created_markers_good exec_markers_good)

text \<open>
  What has been read survives a reload: in every state a session over a working storage reaches, opening
  the store again on that storage gives the same rows and the same markers.
\<close>

lemma markers_survive_reload:
  assumes "marker_session s"
  shows "rs_rows (createReadMarkerStore env (rs_storage s)) = rs_rows s \<and>
    rs_snapshot (createReadMarkerStore env (rs_storage s)) = rs_snapshot s"
proof -
  have snap: "rs_snapshot (createReadMarkerStore env st) = live_markers (rs_rows (createReadMarkerStore env st))" for st
    by (simp add: createReadMarkerStore_def persist_markers_def Let_def)
  show ?thesis using session_good [OF assms] by (auto simp: markers_good_def snap)
qed

definition sample_marker_session :: marker_store where
  "sample_marker_session =
     marker_exec \<lparr>now = 100, ids = \<lambda>_. ''w''\<rparr> (ApplyMarkers False [(''ziru'', baselineMarker 7)])
       (createReadMarkerStore \<lparr>now = 50, ids = \<lambda>_. ''v''\<rparr> (Some \<lparr>items = [], readable = True, faults = []\<rparr>))"

lemma sample_session: "marker_session sample_marker_session"
  unfolding sample_marker_session_def
  by (intro marker_session.intros)
    (simp_all add: reliable_def named_def readReadMarkers_def readBrowserRecord_def Let_def parseReadMarkers_def
      count_ok_def is_safe_integer_def max_safe_def)

lemma markers_survive_reload_witness:
  "rs_snapshot (createReadMarkerStore \<lparr>now = 0, ids = \<lambda>_. []\<rparr> (rs_storage sample_marker_session)) = [(''ziru'', baselineMarker 7)]"
proof -
  have "rs_snapshot sample_marker_session = [(''ziru'', baselineMarker 7)]"
    by code_simp
  then show ?thesis using markers_survive_reload [OF sample_session] by simp
qed

end
