(* ===== verification/AttentionClaims.thy ===== *)
theory AttentionClaims
  imports Attention ReadMarkerClaims
begin

section \<open>Properties of attention\<close>

subsection \<open>Writing markers to the store\<close>

definition rows_keyed :: "(string, marker_row) jsmap \<Rightarrow> bool" where
  "rows_keyed m \<longleftrightarrow> wf_map m \<and> (\<forall>p \<in> set m. mw_key (snd p) = fst p)"

lemma good_keyed: "rows_good m \<Longrightarrow> rows_keyed m"
  by (auto simp: rows_good_def rows_keyed_def map_of_eq_Some_iff)

lemma keyed_put: "rows_keyed m \<Longrightarrow> mw_key r = k \<Longrightarrow> rows_keyed (put k r m)"
  unfolding rows_keyed_def using in_put [of m _ k r] by auto

lemma get_live:
  "rows_keyed m \<Longrightarrow> get (live_markers m) k =
     (case get m k of Some r \<Rightarrow> if mw_deleted r then None else Some (markerOf r) | None \<Rightarrow> None)"
proof (induction m)
  case (Cons p m)
  obtain i r where p: "p = (i, r)" by (cases p)
  have k: "mw_key r = i" "rows_keyed m" "i \<notin> set (keys m)" using Cons.prems p by (auto simp: rows_keyed_def)
  have "get m i = None" using k(3) by (simp add: map_of_eq_None_iff)
  then show ?case using Cons.IH [OF k(2)] k(1) p by (auto simp: live_markers_def)
qed (simp add: live_markers_def)

lemma apply_marker_keyed: "rows_keyed (snd acc) \<Longrightarrow> rows_keyed (snd (apply_marker env weak u acc))"
  by (auto simp: apply_marker_def Let_def split: prod.splits intro: keyed_put)

lemma apply_marker_live:
  assumes "rows_keyed m"
  shows "get (live_markers (snd (apply_marker env False (k, v) (w, m)))) n =
    (if n = k then Some v else get (live_markers m) n)"
proof -
  have "rows_keyed (snd (apply_marker env False (k, v) (w, m)))"
    using apply_marker_keyed [of "(w, m)"] assms by simp
  from get_live [OF this] get_live [OF assms] show ?thesis
    by (auto simp: apply_marker_def Let_def get_put sameMarker_iff markerOf_def split: option.splits)
qed

lemma apply_all_live:
  assumes "rows_keyed (snd acc)"
  shows "rows_keyed (snd (fold (apply_marker env False) us acc)) \<and>
    get (live_markers (snd (fold (apply_marker env False) us acc))) n =
      (case get (rev us) n of Some v \<Rightarrow> Some v | None \<Rightarrow> get (live_markers (snd acc)) n)"
  using assms
proof (induction us arbitrary: acc)
  case (Cons u us)
  obtain k v where u: "u = (k, v)" by (cases u)
  obtain w m where acc: "acc = (w, m)" by (cases acc)
  have k: "rows_keyed (snd (apply_marker env False u acc))" using Cons.prems by (rule apply_marker_keyed)
  show ?case
    using Cons.IH [OF k] apply_marker_live [of m env k v w n] Cons.prems u acc
    by (auto simp: map_add_def split: option.splits)
qed simp

lemma fold_apply_written: "fst (fold (apply_marker env weak) us (w, m)) = [] \<Longrightarrow> snd (fold (apply_marker env weak) us (w, m)) = m"
proof -
  have grow: "length (fst acc) \<le> length (fst (fold (apply_marker env weak) us acc))" for us acc
  proof (induction us arbitrary: acc)
    case (Cons u us)
    have "length (fst acc) \<le> length (fst (apply_marker env weak u acc))"
      by (auto simp: apply_marker_def Let_def split: prod.splits)
    with Cons.IH show ?case by (simp add: order_trans)
  qed simp
  show "fst (fold (apply_marker env weak) us (w, m)) = [] \<Longrightarrow> ?thesis"
  proof (induction us)
    case (Cons u us)
    have "length (fst (apply_marker env weak u (w, m))) \<le> 0"
      using grow [of "apply_marker env weak u (w, m)" us] Cons.prems by simp
    then have "apply_marker env weak u (w, m) = (w, m)"
      by (auto simp: apply_marker_def Let_def split: prod.splits option.splits if_splits)
    with Cons show ?case by simp
  qed simp
qed

lemma rev_wf: "wf_map us \<Longrightarrow> get (rev us) n = get us n"
  using map_of_inject_set [of "rev us" us] by (simp add: rev_map [symmetric])

lemma applied_snapshot:
  assumes "rows_good (rs_rows s)" and "rs_snapshot s = live_markers (rs_rows s)" and "wf_map us"
  shows "get (rs_snapshot (apply_markers env False us s)) n =
    (case get us n of Some v \<Rightarrow> Some v | None \<Rightarrow> get (rs_snapshot s) n)"
proof -
  obtain w m where f: "fold (apply_marker env False) us ([], rs_rows s) = (w, m)" by fastforce
  have "get (live_markers m) n = (case get us n of Some v \<Rightarrow> Some v | None \<Rightarrow> get (rs_snapshot s) n)"
    using apply_all_live [of "([], rs_rows s)" env us n] good_keyed [OF assms(1)] rev_wf [OF assms(3)] f assms(2)
    by (simp split: option.split)
  moreover have "rs_snapshot (apply_markers env False us s) = live_markers m"
    using f fold_apply_written [of env False us "[]" "rs_rows s"] assms(2)
    by (auto simp: apply_markers_def markers_changed_def persist_markers_def Let_def)
  ultimately show ?thesis by simp
qed

subsection \<open>Marking read\<close>

lemma unread_turn:
  "agentUnread r marker \<longleftrightarrow>
     (\<exists>m. marker = Some m \<and> (mk_unread m \<or>
       (\<exists>q i. r = Some q \<and> ri_bus (r_info q) \<in> {''listening'', ''active''} \<and> turnEnd r = Some i \<and> mk_turn m < i)))"
  by (auto simp: agentUnread_def agentAttention_def split: option.splits if_splits)

lemma read_through_unread:
  assumes "agentUnread r (Some m)"
  shows "\<exists>m'. readThrough (Some m) (turnEnd r) latest time = Some m' \<and> \<not> agentUnread r (Some m')"
proof -
  have "mk_unread m \<or> max (mk_turn m) (or_else (turnEnd r) 0) \<noteq> mk_turn m"
    using assms by (auto simp: unread_turn)
  then have "\<exists>m'. readThrough (Some m) (turnEnd r) latest time = Some m' \<and>
      mk_turn m' = max (mk_turn m) (or_else (turnEnd r) 0) \<and> \<not> mk_unread m'"
    by (elim disjE) (auto simp: readThrough_def Let_def)
  then obtain m' where m': "readThrough (Some m) (turnEnd r) latest time = Some m'"
    "mk_turn m' = max (mk_turn m) (or_else (turnEnd r) 0)" "\<not> mk_unread m'" by blast
  then have "\<not> agentUnread r (Some m')" by (auto simp: unread_turn)
  with m'(1) show ?thesis by blast
qed

lemma get_mark_read:
  "wf_map ups \<Longrightarrow> wf_map (fold (mark_read_one markers board pos time) names ups) \<and>
   get (fold (mark_read_one markers board pos time) names ups) n =
     (if n \<in> set names \<and> agentUnread (findAgentRow board n) (get markers n)
      then readThrough (get markers n) (turnEnd (findAgentRow board n)) (or_else (get pos n) None) time
      else get ups n)"
proof (induction names arbitrary: ups)
  case (Cons x names)
  let ?r = "findAgentRow board x" and ?m = "get markers x"
  have w: "wf_map (mark_read_one markers board pos time x ups)"
    using Cons.prems by (auto simp: mark_read_one_def Let_def split: option.splits)
  have g: "get (mark_read_one markers board pos time x ups) n =
      (if n = x \<and> agentUnread ?r ?m then readThrough ?m (turnEnd ?r) (or_else (get pos x) None) time else get ups n)"
  proof (cases "agentUnread ?r ?m")
    case True
    then obtain m where m: "?m = Some m" by (auto simp: unread_turn)
    with read_through_unread [of ?r m] True
    obtain m' where "readThrough ?m (turnEnd ?r) (or_else (get pos x) None) time = Some m'" by auto
    with True m show ?thesis by (simp add: mark_read_one_def Let_def get_put)
  qed (simp add: mark_read_one_def Let_def)
  show ?case using Cons.IH [OF w] g by auto
qed simp

text \<open>
  \<open>Mark all read\<close> reads all: what it writes for the named agents, applied to the store of a session,
  leaves none of them unread on that board, whether it was unread by a finished turn or by hand, armed or
  not, with its transcript loaded or not; and it touches no other agent's marker.
\<close>

lemma mark_read_reads:
  assumes "marker_session s"
  shows "(\<forall>n \<in> set names. \<not> agentUnread (findAgentRow board n)
        (get (rs_snapshot (apply_markers env False (markReadUpdates (rs_snapshot s) board names pos time) s)) n)) \<and>
    (\<forall>n. n \<notin> set names \<longrightarrow>
        get (rs_snapshot (apply_markers env False (markReadUpdates (rs_snapshot s) board names pos time) s)) n =
        get (rs_snapshot s) n)"
proof -
  let ?u = "markReadUpdates (rs_snapshot s) board names pos time"
  have good: "rows_good (rs_rows s)" "rs_snapshot s = live_markers (rs_rows s)"
    using session_good [OF assms] by (simp_all add: markers_good_def)
  have u: "wf_map ?u" "get ?u n =
     (if n \<in> set names \<and> agentUnread (findAgentRow board n) (get (rs_snapshot s) n)
      then readThrough (get (rs_snapshot s) n) (turnEnd (findAgentRow board n)) (or_else (get pos n) None) time
      else None)" for n
    using get_mark_read [of "[]" "rs_snapshot s" board pos time names n] by (simp_all add: markReadUpdates_def)
  note snap = applied_snapshot [OF good u(1), of env]
  have "\<not> agentUnread (findAgentRow board n) (get (rs_snapshot (apply_markers env False ?u s)) n)" if "n \<in> set names" for n
  proof (cases "agentUnread (findAgentRow board n) (get (rs_snapshot s) n)")
    case True
    then obtain m where m: "get (rs_snapshot s) n = Some m" by (auto simp: unread_turn)
    obtain m' where "readThrough (Some m) (turnEnd (findAgentRow board n)) (or_else (get pos n) None) time = Some m'"
      "\<not> agentUnread (findAgentRow board n) (Some m')"
      using read_through_unread [of "findAgentRow board n" m] True m by auto
    then show ?thesis using that True m by (simp add: snap u)
  qed (simp add: snap u split: option.split)
  moreover have "get (rs_snapshot (apply_markers env False ?u s)) n = get (rs_snapshot s) n" if "n \<notin> set names" for n
    using that by (simp add: snap u)
  ultimately show ?thesis by blast
qed

text \<open>Ziru has finished turn 12 since turn 7 was read.\<close>

definition sample_row :: row where
  "sample_row = Row \<lparr>ri_pane = ''p'', ri_agent = ''ziru'', ri_tool = ''claude'', ri_herdr = ''idle'', ri_bus = ''listening'',
     ri_context = None, ri_turn_end = Some 12, ri_reply_end = Some 12, ri_parent = None, ri_manager = None,
     ri_manager_state = None, ri_title = None, ri_created = None, ri_label = None, ri_command = None\<rparr> []"

definition sample_fleet :: board where
  "sample_fleet = \<lparr>bd_workspaces = [], bd_unplaced = [sample_row], bd_lanes = []\<rparr>"

lemma mark_read_reads_witness:
  "agentUnread (findAgentRow (Some sample_fleet) ''ziru'') (get (rs_snapshot sample_marker_session) ''ziru'') \<and>
   \<not> agentUnread (findAgentRow (Some sample_fleet) ''ziru'')
       (get (rs_snapshot (apply_markers \<lparr>now = 200, ids = \<lambda>_. ''x''\<rparr> False
          (markReadUpdates (rs_snapshot sample_marker_session) (Some sample_fleet) [''ziru''] [] 200) sample_marker_session)) ''ziru'')"
proof
  show "agentUnread (findAgentRow (Some sample_fleet) ''ziru'') (get (rs_snapshot sample_marker_session) ''ziru'')"
    by code_simp
qed (use mark_read_reads [OF sample_session] in simp)

subsection \<open>Counting\<close>

abbreviation attention_of ::
    "board option \<Rightarrow> (string, read_marker) jsmap \<Rightarrow> string list \<Rightarrow> string \<Rightarrow> attention_state option" where
  "attention_of board markers viewedBlocks n \<equiv>
     agentAttention (findAgentRow board n) (get markers n) (n \<in> set viewedBlocks)"

lemma space_attention_lists:
  "spaceAttention board agents markers drafts viewed =
     \<lparr>at_unread = filter (\<lambda>n. attention_of board markers viewed n = Some Unread) agents,
      at_blocked = filter (\<lambda>n. attention_of board markers viewed n = Some Blocked) agents,
      at_drafts = filter (\<lambda>n. get drafts n \<noteq> None) agents\<rparr>"
proof -
  have "fold (add_attention board markers drafts viewed) agents a =
     \<lparr>at_unread = at_unread a @ filter (\<lambda>n. attention_of board markers viewed n = Some Unread) agents,
      at_blocked = at_blocked a @ filter (\<lambda>n. attention_of board markers viewed n = Some Blocked) agents,
      at_drafts = at_drafts a @ filter (\<lambda>n. get drafts n \<noteq> None) agents\<rparr>" for a
    by (induction agents arbitrary: a)
      (auto simp: add_attention_def Let_def split: option.splits attention_state.splits)
  from this [of quietAttention] show ?thesis by (simp add: spaceAttention_def quietAttention_def)
qed

text \<open>
  The badge counts every agent on the board that is unread or blocked exactly once, wherever and however
  often it is shown: the two lists are disjoint and without repetitions, name exactly these agents, and their
  lengths add up to the number of agents. Drafts never count.
\<close>

lemma badge_counts_each_once:
  "distinct (at_unread (boardAttention (Some b) markers drafts viewed) @ at_blocked (boardAttention (Some b) markers drafts viewed)) \<and>
   set (at_unread (boardAttention (Some b) markers drafts viewed) @ at_blocked (boardAttention (Some b) markers drafts viewed)) =
     {n \<in> set (boardAgents b). attention_of (Some b) markers viewed n \<noteq> None} \<and>
   needsYou (boardAttention (Some b) markers drafts viewed) =
     card {n \<in> r_agent ` set (board_rows b). n \<noteq> [] \<and> n \<noteq> ''-'' \<and> attention_of (Some b) markers viewed n \<noteq> None}"
proof -
  let ?a = "boardAttention (Some b) markers drafts viewed"
  have ag: "distinct (boardAgents b)" "set (boardAgents b) = {n \<in> r_agent ` set (board_rows b). n \<noteq> [] \<and> n \<noteq> ''-''}"
    by (auto simp: boardAgents_def)
  have d: "distinct (at_unread ?a @ at_blocked ?a)"
    using ag(1) by (auto simp: boardAttention_def space_attention_lists)
  have att: "y \<noteq> Blocked \<longleftrightarrow> y = Unread" for y by (cases y) simp_all
  have s: "set (at_unread ?a @ at_blocked ?a) = {n \<in> set (boardAgents b). attention_of (Some b) markers viewed n \<noteq> None}"
    by (auto simp: boardAttention_def space_attention_lists att)
  have "needsYou ?a = card (set (at_unread ?a @ at_blocked ?a))"
    using distinct_card [OF d] by (simp add: needsYou_def)
  also have "set (at_unread ?a @ at_blocked ?a) =
      {n \<in> r_agent ` set (board_rows b). n \<noteq> [] \<and> n \<noteq> ''-'' \<and> attention_of (Some b) markers viewed n \<noteq> None}"
    using s ag(2) by auto
  finally show ?thesis using d s by blast
qed

text \<open>
  A block the owner has looked at stops asking, and only as long as the agent stays blocked: after it was
  unblocked, blocking again asks again.
\<close>

lemma viewed_blocks:
  assumes "distinct prev"
  shows "(n \<in> set viewed \<longrightarrow>
      agentAttention (findAgentRow (Some b) n) m (n \<in> set (nextViewedBlocks prev (Some b) viewed keep)) \<noteq> Some Blocked) \<and>
   (n \<in> set (nextViewedBlocks prev (Some b) viewed keep) \<and> findAgentRow (Some b) n \<noteq> None \<longrightarrow>
      agentBlocked (findAgentRow (Some b) n))"
proof -
  let ?kept = "filter (\<lambda>n. case findAgentRow (Some b) n of Some r \<Rightarrow> agentBlocked (Some r) | None \<Rightarrow> keep n) prev"
  let ?next = "add_all (filter (\<lambda>n. agentBlocked (findAgentRow (Some b) n)) viewed) (uniq ?kept)"
  have same: "set ?next = set prev" if "length ?next = length prev" "set ?next \<subseteq> set prev"
  proof (rule card_subset_eq [OF _ that(2)])
    have "card (set ?next) = length ?next" by (rule distinct_card) simp
    also have "\<dots> = card (set prev)" using that(1) distinct_card [OF assms] by simp
    finally show "card (set ?next) = card (set prev)" .
  qed simp
  have "set (nextViewedBlocks prev (Some b) viewed keep) = set ?next"
  proof (cases "length ?next = length prev \<and> list_all (\<lambda>n. n \<in> set prev) ?next")
    case True
    then have "nextViewedBlocks prev (Some b) viewed keep = prev"
      unfolding nextViewedBlocks_def Let_def by (simp only: option.simps if_True if_False simp_thms)
    moreover have "set ?next \<subseteq> set prev" using True unfolding list_all_iff by blast
    ultimately show ?thesis using same True by metis
  next
    case False
    then show ?thesis unfolding nextViewedBlocks_def Let_def by (simp only: option.simps if_False simp_thms)
  qed
  moreover have "n \<in> set ?next \<longleftrightarrow> (n \<in> set viewed \<and> agentBlocked (findAgentRow (Some b) n)) \<or>
      (n \<in> set prev \<and> (case findAgentRow (Some b) n of Some r \<Rightarrow> agentBlocked (Some r) | None \<Rightarrow> keep n))" by auto
  moreover have "agentAttention r m v \<noteq> Some Blocked" if "\<not> agentBlocked r \<or> v" for r v
    using that by (auto simp: agentAttention_def split: option.splits)
  ultimately show ?thesis by (cases "findAgentRow (Some b) n") auto
qed

end
