(* ===== verification/Sidebar.thy ===== *)
theory Sidebar
  imports Board
begin

section \<open>The sidebar's trees\<close>

text \<open>
  \<^verbatim>\<open>features/sidebar/sidebarNodes.ts\<close>, with \<^verbatim>\<open>shared/workspaceName.ts\<close> and \<^verbatim>\<open>features/screen/screenPresentation.ts\<close>:
  the three views of the fleet as maps from ids to nodes, in the order the code fills them. Placement follows
  the panes, supervision the managers, lanes the members of each lane. The collation of names and times
  (\<open>localeCompare\<close>) is the parameter \<open>collate\<close>.
\<close>

subsection \<open>Names\<close>

definition is_hex :: "char \<Rightarrow> bool" where
  "is_hex c \<longleftrightarrow>
     (let n = (of_char c :: nat) in (48 \<le> n \<and> n \<le> 57) \<or> (65 \<le> n \<and> n \<le> 70) \<or> (97 \<le> n \<and> n \<le> 102))"

text \<open>A dash and eight hexadecimal digits at the end are dropped.\<close>

definition workspaceName :: "string \<Rightarrow> string \<Rightarrow> string" where
  "workspaceName label i =
     (let s = (if label = [] then i else label); n = length s - 9; tail = drop n s
      in if 9 \<le> length s \<and> hd tail = CHR ''-'' \<and> list_all is_hex (tl tail) then take n s else s)"

text \<open>The label and the warning of a pane.\<close>

definition screenPanePresentation :: "row_info \<Rightarrow> string \<times> string" where
  "screenPanePresentation p =
     (let label = or_else (ri_label p) []
      in if ri_agent p = ''-''
         then (let command = js_trim (or_else (ri_command p) [])
               in if command \<noteq> [] then command else if label \<noteq> [] then label else ''Terminal'',
               ''Herdr cannot attribute this terminal; it may belong to an unplaced agent.'')
         else (if label \<noteq> [] then label else ri_agent p, []))"

definition agentLabel :: "row_info \<Rightarrow> string \<times> string option" where
  "agentLabel r =
     (case ri_title r of
        Some t \<Rightarrow> if t = [] then (ri_agent r, None) else (t, Some (ri_agent r))
      | None \<Rightarrow> (ri_agent r, None))"

subsection \<open>Nodes\<close>

datatype node_kind =
    RootNode | WorkspaceNode | PaneNode | SubagentNode | UnplacedNode | AgentNode | TombstoneNode
  | TerminalsNode | TerminalsWorkspaceNode | LaneNode | NoLaneNode | PrNode

record supervision_summary =
  sm_total :: nat
  sm_active :: nat

record sidebar_node =
  sn_id :: string
  sn_kind :: node_kind
  sn_name :: string
  sn_children :: "string list"
  sn_count :: "num option"
  sn_pane :: "row option"
  sn_workspace :: "workspace option"
  sn_tabLabel :: "string option"
  sn_secondary :: "string option"
  sn_statusText :: "string option"
  sn_contextUsed :: "num option"
  sn_workspaceLabel :: "string option"
  sn_summary :: "supervision_summary option"
  sn_unknownManager :: bool
  sn_lane :: "string option"
  sn_lead :: bool
  sn_placeholder :: bool
  sn_pr :: "lane_pr option"

type_synonym nodes = "(string, sidebar_node) jsmap"

definition plain_node :: "string \<Rightarrow> node_kind \<Rightarrow> string \<Rightarrow> string list \<Rightarrow> sidebar_node" where
  "plain_node i k n cs =
     \<lparr>sn_id = i, sn_kind = k, sn_name = n, sn_children = cs, sn_count = None, sn_pane = None, sn_workspace = None,
      sn_tabLabel = None, sn_secondary = None, sn_statusText = None, sn_contextUsed = None, sn_workspaceLabel = None,
      sn_summary = None, sn_unknownManager = False, sn_lane = None, sn_lead = False, sn_placeholder = False, sn_pr = None\<rparr>"

definition root_node :: "string list \<Rightarrow> sidebar_node" where
  "root_node cs = plain_node ''tree-root'' RootNode ''Fleet'' cs"

text \<open>A parent is named when the field is there and not empty.\<close>

definition named_parent :: "row_info \<Rightarrow> string option" where
  "named_parent r = (case ri_parent r of Some p \<Rightarrow> if p = [] then None else Some p | None \<Rightarrow> None)"

definition tab_label :: "tab \<Rightarrow> string" where
  "tab_label t = ''tab '' @ show_int (tb_number t) @ '': '' @ (if tb_label t = [] then tb_id t else tb_label t)"

subsection \<open>Placement\<close>

definition pane_node :: "string \<Rightarrow> row \<Rightarrow> string option \<Rightarrow> string list \<Rightarrow> sidebar_node" where
  "pane_node i r label children =
     (let p = r_info r;
          n = (if ri_agent p \<noteq> ''-'' then agentLabel p else (fst (screenPanePresentation p), None))
      in (plain_node i (if named_parent p \<noteq> None then SubagentNode else PaneNode) (fst n) children)
           \<lparr>sn_secondary := snd n, sn_pane := Some r, sn_tabLabel := label,
            sn_statusText := (if ri_agent p \<noteq> ''-'' \<and> ri_bus p \<noteq> ''-'' then Some (ri_bus p) else None),
            sn_contextUsed := ri_context p\<rparr>)"

fun addAgentNode :: "string \<Rightarrow> row \<Rightarrow> string option \<Rightarrow> nodes \<Rightarrow> nodes"
  and add_subagent_nodes :: "string \<Rightarrow> row list \<Rightarrow> nodes \<Rightarrow> nodes" where
  "addAgentNode i (Row p subs) label m =
     add_subagent_nodes i subs
       (put i (pane_node i (Row p subs) label (map (\<lambda>c. i @ '':subagent:'' @ r_agent c) subs)) m)"
| "add_subagent_nodes i [] m = m"
| "add_subagent_nodes i (c # cs) m =
     add_subagent_nodes i cs (addAgentNode (i @ '':subagent:'' @ r_agent c) c None m)"

definition workspace_id :: "workspace \<Rightarrow> string" where
  "workspace_id w = ''workspace:'' @ ws_id w"

text \<open>The workspace a worktree hangs under, when it is on the board.\<close>

definition worktree_parent :: "board \<Rightarrow> workspace \<Rightarrow> string option" where
  "worktree_parent b w =
     (case ws_worktree_of w of
        Some p \<Rightarrow> if p \<noteq> [] \<and> p \<in> set (map ws_id (bd_workspaces b)) then Some p else None
      | None \<Rightarrow> None)"

definition tab_panes :: "workspace \<Rightarrow> (row \<times> tab) list" where
  "tab_panes w =
     sort_by (\<lambda>l r. (r_agent (fst l) = ''-'') \<le> (r_agent (fst r) = ''-''))
       (concat (map (\<lambda>t. map (\<lambda>p. (p, t)) (tb_panes t)) (ws_tabs w)))"

definition pane_id :: "row \<Rightarrow> string" where
  "pane_id p = ''pane:'' @ ri_pane (r_info p)"

definition add_workspace :: "board \<Rightarrow> workspace \<Rightarrow> nodes \<Rightarrow> nodes" where
  "add_workspace b w m =
     (let panes = tab_panes w;
          m1 = fold (\<lambda>(p, t) m. addAgentNode (pane_id p) p (Some (tab_label t)) m) panes m;
          children = map (pane_id \<circ> fst) panes
            @ map workspace_id (filter (\<lambda>v. worktree_parent b v = Some (ws_id w)) (bd_workspaces b))
      in put (workspace_id w)
           ((plain_node (workspace_id w) WorkspaceNode (workspaceName (ws_label w) (ws_id w)) children)
              \<lparr>sn_count := Some (ws_pane_count w), sn_workspace := Some w\<rparr>) m1)"

definition unplaced_id :: "row \<Rightarrow> string" where
  "unplaced_id r = ''unplaced:'' @ r_agent r"

definition buildSidebarNodes :: "board option \<Rightarrow> nodes" where
  "buildSidebarNodes board =
     (case board of
        None \<Rightarrow> [(''tree-root'', root_node [])]
      | Some b \<Rightarrow>
          let tops = map workspace_id (filter (\<lambda>w. worktree_parent b w = None) (bd_workspaces b));
              m = [(''tree-root'', root_node (tops @ [''unplaced'']))];
              m1 = fold (add_workspace b) (bd_workspaces b) m;
              m2 = fold (\<lambda>r m. addAgentNode (unplaced_id r) r None m) (bd_unplaced b) m1
          in put ''unplaced'' ((plain_node ''unplaced'' UnplacedNode ''Unplaced'' (map unplaced_id (bd_unplaced b)))
               \<lparr>sn_count := Some (int (length (bd_unplaced b)))\<rparr>) m2)"

subsection \<open>Every row once\<close>

definition agentNodeID :: "string \<Rightarrow> string" where
  "agentNodeID name = ''agent:'' @ name"

record flat_row =
  fl_row :: row
  fl_workspaceLabel :: "string option"
  fl_tabLabel :: "string option"

abbreviation fl_info :: "flat_row \<Rightarrow> row_info" where
  "fl_info f \<equiv> r_info (fl_row f)"

abbreviation fl_agent :: "flat_row \<Rightarrow> string" where
  "fl_agent f \<equiv> r_agent (fl_row f)"

type_synonym flat_rows = "(string, flat_row) jsmap"
type_synonym terminals = "(string, workspace \<times> (row \<times> string) list) jsmap"

fun collect_row :: "row \<Rightarrow> string option \<Rightarrow> string option \<Rightarrow> flat_rows \<Rightarrow> flat_rows"
  and collect_rows :: "row list \<Rightarrow> flat_rows \<Rightarrow> flat_rows" where
  "collect_row (Row p subs) wl lbl m =
     (if ri_agent p = ''-'' \<or> ri_bus p = ''-'' then m
      else collect_rows subs
        (if get m (ri_agent p) \<noteq> None then m
         else put (ri_agent p) \<lparr>fl_row = Row p subs, fl_workspaceLabel = wl, fl_tabLabel = lbl\<rparr> m))"
| "collect_rows [] m = m"
| "collect_rows (c # cs) m = collect_rows cs (collect_row c None None m)"

definition flatten_pane :: "workspace \<Rightarrow> row \<times> tab \<Rightarrow> flat_rows \<times> terminals \<Rightarrow> flat_rows \<times> terminals" where
  "flatten_pane w pt acc =
     (case pt of (p, t) \<Rightarrow> case acc of (m, ts) \<Rightarrow>
        if ri_bus (r_info p) = ''-''
        then (let entry = or_else (get ts (ws_id w)) (w, [])
              in (m, put (ws_id w) (fst entry, snd entry @ [(p, tab_label t)]) ts))
        else (collect_row p (Some (workspaceName (ws_label w) (ws_id w))) (Some (tab_label t)) m, ts))"

definition flattenBoard :: "board \<Rightarrow> flat_rows \<times> terminals" where
  "flattenBoard b =
     (let (m, ts) = fold (\<lambda>w acc. fold (flatten_pane w) (concat (map (\<lambda>t. map (\<lambda>p. (p, t)) (tb_panes t)) (ws_tabs w))) acc)
                      (bd_workspaces b) ([], [])
      in (fold (\<lambda>r m. collect_row r None None m) (bd_unplaced b) m, ts))"

subsection \<open>Order and counts\<close>

type_synonym collation = "string \<Rightarrow> string \<Rightarrow> int"

definition creationOrder :: "collation \<Rightarrow> string \<times> string \<Rightarrow> string \<times> string \<Rightarrow> int" where
  "creationOrder collate l r =
     (let c = collate (fst l) (fst r) in if c \<noteq> 0 then c else collate (snd l) (snd r))"

definition created_key :: "flat_row \<Rightarrow> string \<times> string" where
  "created_key f = (or_else (ri_created (fl_info f)) [], fl_agent f)"

definition byCreation :: "collation \<Rightarrow> flat_row list \<Rightarrow> flat_row list" where
  "byCreation collate fs = sort_by (\<lambda>l r. creationOrder collate (created_key l) (created_key r) \<le> 0) fs"

definition push_row :: "string \<Rightarrow> flat_row \<Rightarrow> (string, flat_row list) jsmap \<Rightarrow> (string, flat_row list) jsmap" where
  "push_row k f m = put k (or_else (get m k) [] @ [f]) m"

text \<open>
  A child without a summary is counted through its own children; the depth is bounded by the number of
  nodes. Every child the code counts has one.
\<close>

fun summarise :: "nat \<Rightarrow> nodes \<Rightarrow> string list \<Rightarrow> supervision_summary" where
  "summarise 0 m cs = \<lparr>sm_total = 0, sm_active = 0\<rparr>"
| "summarise (Suc n) m cs =
     fold (\<lambda>i s.
       case get m i of
         None \<Rightarrow> s
       | Some child \<Rightarrow>
           let own = (case sn_pane child of Some p \<Rightarrow> r_agent p \<noteq> ''-'' | None \<Rightarrow> False);
               busy = (case sn_pane child of Some p \<Rightarrow> own \<and> ri_bus (r_info p) = ''active'' | None \<Rightarrow> False);
               below = (case sn_summary child of Some d \<Rightarrow> d | None \<Rightarrow> summarise n m (sn_children child))
           in \<lparr>sm_total = sm_total s + of_bool own + sm_total below,
               sm_active = sm_active s + of_bool busy + sm_active below\<rparr>)
       cs \<lparr>sm_total = 0, sm_active = 0\<rparr>"

definition summary_of :: "nodes \<Rightarrow> string list \<Rightarrow> supervision_summary" where
  "summary_of m cs = summarise (Suc (length m)) m cs"

subsection \<open>Placing agents\<close>

text \<open>
  The recursion both agent views share: a row is placed once, then the rows under it that are not placed
  yet, then its node is set with their ids. The state is the rows placed (in order) and the nodes. Fuel bounds
  the depth; a row per level is placed, so the number of rows is enough (\<open>place_enough\<close>).
\<close>

type_synonym placing = "string list \<times> nodes"

fun place ::
    "(flat_row \<Rightarrow> flat_row list) \<Rightarrow> (flat_row \<Rightarrow> string) \<Rightarrow> (flat_row \<Rightarrow> string list \<Rightarrow> nodes \<Rightarrow> sidebar_node)
     \<Rightarrow> nat \<Rightarrow> flat_row \<Rightarrow> placing \<Rightarrow> placing" where
  "place kids idf mk 0 f st = st"
| "place kids idf mk (Suc n) f (placed, m) =
     (let (children, placed1, m1) =
        fold (\<lambda>g (cs, p, m). if fl_agent g \<in> set p then (cs, p, m)
                            else case place kids idf mk n g (p, m) of (p', m') \<Rightarrow> (cs @ [idf g], p', m'))
          (kids f) ([], placed @ [fl_agent f], m)
      in (placed1, put (idf f) (mk f children m1) m1))"

definition agent_node :: "string \<Rightarrow> flat_row \<Rightarrow> string list \<Rightarrow> nodes \<Rightarrow> sidebar_node" where
  "agent_node i f children m =
     (plain_node i (if named_parent (fl_info f) \<noteq> None then SubagentNode else AgentNode) (fst (agentLabel (fl_info f))) children)
       \<lparr>sn_secondary := snd (agentLabel (fl_info f)), sn_pane := Some (fl_row f),
        sn_workspaceLabel := fl_workspaceLabel f, sn_tabLabel := fl_tabLabel f, sn_summary := Some (summary_of m children),
        sn_contextUsed := ri_context (fl_info f)\<rparr>"

subsection \<open>Supervision\<close>

text \<open>The manager a row names, \<open>''''\<close> for none.\<close>

definition manager_of :: "row_info \<Rightarrow> string" where
  "manager_of r = or_else (ri_manager r) []"

definition under_parent :: "flat_rows \<Rightarrow> row_info \<Rightarrow> bool" where
  "under_parent rows r \<longleftrightarrow> (case named_parent r of Some p \<Rightarrow> get rows p \<noteq> None | None \<Rightarrow> False)"

record classes =
  cl_reports :: "(string, flat_row list) jsmap"
  cl_tombstones :: "(string, flat_row list) jsmap"
  cl_top :: "flat_row list"

definition classify :: "flat_rows \<Rightarrow> flat_row \<Rightarrow> classes \<Rightarrow> classes" where
  "classify rows f c =
     (let r = fl_info f; manager = manager_of r; top = c\<lparr>cl_top := cl_top c @ [f]\<rparr>
      in if under_parent rows r then c
         else case ri_manager_state r of
                Some Live_manager \<Rightarrow>
                  if manager \<noteq> [] \<and> get rows manager \<noteq> None \<and> manager \<noteq> ri_agent r
                  then c\<lparr>cl_reports := push_row manager f (cl_reports c)\<rparr> else top
              | Some Ended_manager \<Rightarrow>
                  if manager \<noteq> [] then c\<lparr>cl_tombstones := push_row manager f (cl_tombstones c)\<rparr> else top
              | _ \<Rightarrow> top)"

definition classes_of :: "flat_rows \<Rightarrow> classes" where
  "classes_of rows = fold (classify rows) (vals rows) \<lparr>cl_reports = [], cl_tombstones = [], cl_top = []\<rparr>"

definition sub_rows :: "flat_rows \<Rightarrow> row \<Rightarrow> flat_row list" where
  "sub_rows rows r = List.map_filter (\<lambda>c. get rows (r_agent c)) (r_subagents r)"

definition supervised :: "collation \<Rightarrow> flat_rows \<Rightarrow> flat_row \<Rightarrow> flat_row list" where
  "supervised collate rows f =
     byCreation collate (or_else (get (cl_reports (classes_of rows)) (fl_agent f)) []) @ sub_rows rows (fl_row f)"

definition supervision_node :: "flat_row \<Rightarrow> string list \<Rightarrow> nodes \<Rightarrow> sidebar_node" where
  "supervision_node f children m =
     (agent_node (agentNodeID (fl_agent f)) f children m)
       \<lparr>sn_unknownManager := (ri_manager_state (fl_info f) = Some Unknown_manager)\<rparr>"

definition add_agent :: "collation \<Rightarrow> flat_rows \<Rightarrow> flat_row \<Rightarrow> placing \<Rightarrow> placing" where
  "add_agent collate rows f st =
     place (supervised collate rows) (\<lambda>f. agentNodeID (fl_agent f)) supervision_node (length rows) f st"

text \<open>An entry at the top: its id, and what it is sorted by.\<close>

type_synonym root_entry = "string \<times> (string \<times> string)"

definition root_row :: "collation \<Rightarrow> flat_rows \<Rightarrow> flat_row \<Rightarrow> root_entry list \<times> placing \<Rightarrow> root_entry list \<times> placing" where
  "root_row collate rows f acc =
     (case acc of (es, st) \<Rightarrow> (es @ [(agentNodeID (fl_agent f), created_key f)], add_agent collate rows f st))"

definition top_row :: "collation \<Rightarrow> flat_rows \<Rightarrow> flat_row \<Rightarrow> root_entry list \<times> placing \<Rightarrow> root_entry list \<times> placing" where
  "top_row collate rows f acc =
     (case acc of (es, placed, m) \<Rightarrow> if fl_agent f \<in> set placed then acc else root_row collate rows f acc)"

definition tombstone_id :: "string \<Rightarrow> string" where
  "tombstone_id manager = ''tombstone:'' @ manager"

definition add_tombstone ::
    "collation \<Rightarrow> flat_rows \<Rightarrow> string \<times> flat_row list \<Rightarrow> root_entry list \<times> placing \<Rightarrow> root_entry list \<times> placing" where
  "add_tombstone collate rows t acc =
     (case t of (manager, reports) \<Rightarrow> case acc of (es, placed, m) \<Rightarrow>
        let ordered = byCreation collate reports;
            chosen = filter (\<lambda>f. fl_agent f \<notin> set placed) ordered;
            (placed1, m1) = fold (add_agent collate rows) chosen (placed, m);
            children = map (\<lambda>f. agentNodeID (fl_agent f)) chosen;
            i = tombstone_id manager
        in (es @ [(i, (fst (created_key (hd ordered)), manager))],
            placed1,
            put i ((plain_node i TombstoneNode manager children)
                     \<lparr>sn_secondary := Some ''ended'', sn_summary := Some (summary_of m1 children)\<rparr>) m1))"

text \<open>The last pass: a row that nothing above placed, unless its parent was placed.\<close>

definition late_row :: "collation \<Rightarrow> flat_rows \<Rightarrow> flat_row \<Rightarrow> root_entry list \<times> placing \<Rightarrow> root_entry list \<times> placing" where
  "late_row collate rows f acc =
     (case acc of (es, placed, m) \<Rightarrow>
        if fl_agent f \<in> set placed \<or>
           (under_parent rows (fl_info f) \<and> the (named_parent (fl_info f)) \<in> set placed)
        then acc else root_row collate rows f acc)"

definition supervision_rows :: "collation \<Rightarrow> flat_rows \<Rightarrow> root_entry list \<times> placing" where
  "supervision_rows collate rows =
     (let acc = ([], [], [(''tree-root'', root_node [])]);
          acc1 = fold (top_row collate rows) (byCreation collate (cl_top (classes_of rows))) acc;
          acc2 = fold (add_tombstone collate rows) (cl_tombstones (classes_of rows)) acc1
      in fold (late_row collate rows) (byCreation collate (vals rows)) acc2)"

definition terminal_pane_node :: "row \<times> string \<Rightarrow> sidebar_node" where
  "terminal_pane_node pt =
     (case pt of (p, label) \<Rightarrow>
        (plain_node (pane_id p) PaneNode
           (if r_agent p \<noteq> ''-'' then r_agent p else fst (screenPanePresentation (r_info p))) [])
          \<lparr>sn_pane := Some p, sn_tabLabel := Some label\<rparr>)"

definition add_terminals :: "string \<times> workspace \<times> (row \<times> string) list \<Rightarrow> nodes \<Rightarrow> nodes" where
  "add_terminals t m =
     (case t of (wid, w, panes) \<Rightarrow>
        let m1 = fold (\<lambda>pt m. put (pane_id (fst pt)) (terminal_pane_node pt) m) panes m;
            i = ''terminals:'' @ wid; children = map (pane_id \<circ> fst) panes
        in put i ((plain_node i TerminalsWorkspaceNode (workspaceName (ws_label w) wid) children)
             \<lparr>sn_count := Some (int (length children)), sn_workspace := Some w\<rparr>) m1)"

definition terminals_node :: "terminals \<Rightarrow> sidebar_node" where
  "terminals_node ts =
     (plain_node ''terminals'' TerminalsNode ''Terminals'' (map (\<lambda>(wid, _). ''terminals:'' @ wid) ts))
       \<lparr>sn_count := Some (int (sum_list (map (\<lambda>(_, _, panes). length panes) ts)))\<rparr>"

definition buildSupervisionNodes :: "collation \<Rightarrow> board option \<Rightarrow> nodes" where
  "buildSupervisionNodes collate board =
     (case board of
        None \<Rightarrow> [(''tree-root'', root_node [])]
      | Some b \<Rightarrow>
          case flattenBoard b of (rows, ts) \<Rightarrow>
          case supervision_rows collate rows of (es, placed, m) \<Rightarrow>
            let tops = map fst (sort_by (\<lambda>l r. creationOrder collate (snd l) (snd r) \<le> 0) es);
                m1 = put ''terminals'' (terminals_node ts) (fold add_terminals ts m)
            in put ''tree-root'' (root_node (tops @ [''terminals''])) m1)"

subsection \<open>Labels\<close>

definition separator :: string where
  "separator = '' '' @ [CHR 0xC2, CHR 0xB7] @ '' ''"

definition expandedLabel :: "sidebar_node \<Rightarrow> string" where
  "expandedLabel n =
     (case sn_secondary n of
        Some s \<Rightarrow> if s = [] then sn_name n else sn_name n @ separator @ s
      | None \<Rightarrow> sn_name n)"

definition treeSummary :: "sidebar_node \<Rightarrow> bool \<Rightarrow> string" where
  "treeSummary n folded =
     (if sn_kind n = LaneNode \<or> sn_kind n = NoLaneNode
      then ''('' @ digits (case sn_summary n of Some s \<Rightarrow> sm_total s | None \<Rightarrow> 0) @ '')''
      else case sn_summary n of
             None \<Rightarrow> []
           | Some s \<Rightarrow>
               if \<not> folded \<or> sm_total s = 0 then []
               else if sn_kind n = AgentNode \<or> sn_kind n = SubagentNode then ''('' @ digits (sm_total s) @ '')''
               else ''('' @ digits (sm_total s) @ separator @ digits (sm_active s) @ '' active)'')"

definition collapsedLabel :: "sidebar_node \<Rightarrow> string" where
  "collapsedLabel n =
     (let summary = treeSummary n True
      in if summary = [] then expandedLabel n else expandedLabel n @ '' '' @ summary)"

end
