(* ===== verification/SidebarLanes.thy ===== *)
theory SidebarLanes
  imports Sidebar
begin

section \<open>The lanes view of the sidebar\<close>

text \<open>
  \<open>buildLaneNodes\<close> of \<^verbatim>\<open>features/sidebar/sidebarNodes.ts\<close>: a header per lane with the manager tree of its
  members under it, then the pending lane and the agents without one.
\<close>

subsection \<open>Who stands under whom\<close>

definition add_report :: "flat_rows \<Rightarrow> flat_row \<Rightarrow> (string, flat_row list) jsmap \<Rightarrow> (string, flat_row list) jsmap" where
  "add_report rows f m =
     (let manager = manager_of (fl_info f)
      in if under_parent rows (fl_info f) then m
         else if manager \<noteq> [] \<and> manager \<noteq> fl_agent f \<and> get rows manager \<noteq> None then push_row manager f m else m)"

definition lane_reports :: "flat_rows \<Rightarrow> (string, flat_row list) jsmap" where
  "lane_reports rows = fold (add_report rows) (vals rows) []"

definition childrenOf :: "collation \<Rightarrow> flat_rows \<Rightarrow> string \<Rightarrow> flat_row list" where
  "childrenOf collate rows name =
     byCreation collate
       (or_else (get (lane_reports rows) name) [] @
        (case get rows name of Some f \<Rightarrow> sub_rows rows (fl_row f) | None \<Rightarrow> []))"

definition parentOf :: "flat_rows \<Rightarrow> flat_row \<Rightarrow> string option" where
  "parentOf rows f =
     (if under_parent rows (fl_info f) then named_parent (fl_info f)
      else let manager = manager_of (fl_info f)
           in if manager \<noteq> [] \<and> manager \<noteq> fl_agent f \<and> get rows manager \<noteq> None then Some manager else None)"

definition laneOf :: "board \<Rightarrow> (string, string) jsmap" where
  "laneOf b = fold (\<lambda>l m. fold (\<lambda>a. put a (ln_id l)) (ln_members l) m) (bd_lanes b) []"

subsection \<open>A header and its members\<close>

text \<open>What a header is drawn from; \<open>lh_member\<close> is the code's \<open>member\<close>.\<close>

record lane_header =
  lh_id :: string
  lh_kind :: node_kind
  lh_name :: string
  lh_lane :: "string option"
  lh_lead :: "string option"
  lh_member :: "string \<Rightarrow> bool"
  lh_prs :: "string list"

definition member_id :: "lane_header \<Rightarrow> flat_row \<Rightarrow> string" where
  "member_id h f = lh_id h @ ''/'' @ agentNodeID (fl_agent f)"

definition lane_node :: "lane_header \<Rightarrow> flat_row \<Rightarrow> string list \<Rightarrow> nodes \<Rightarrow> sidebar_node" where
  "lane_node h f children m =
     (agent_node (member_id h f) f children m)\<lparr>sn_lane := lh_lane h, sn_lead := (lh_lead h = Some (fl_agent f))\<rparr>"

definition member_children :: "collation \<Rightarrow> flat_rows \<Rightarrow> lane_header \<Rightarrow> flat_row \<Rightarrow> flat_row list" where
  "member_children collate rows h f = filter (\<lambda>g. lh_member h (fl_agent g)) (childrenOf collate rows (fl_agent f))"

definition add_member ::
    "collation \<Rightarrow> flat_rows \<Rightarrow> lane_header \<Rightarrow> flat_row \<Rightarrow> string list \<times> placing \<Rightarrow> string list \<times> placing" where
  "add_member collate rows h f acc =
     (case acc of (children, placed, m) \<Rightarrow>
        if fl_agent f \<in> set placed then acc
        else (children @ [member_id h f],
              place (member_children collate rows h) (member_id h) (lane_node h) (length rows) f (placed, m)))"

definition lane_roots :: "collation \<Rightarrow> flat_rows \<Rightarrow> lane_header \<Rightarrow> flat_row list" where
  "lane_roots collate rows h =
     sort_by (\<lambda>l r. lh_lead h = Some (fl_agent r) \<longrightarrow> lh_lead h = Some (fl_agent l))
       (byCreation collate
          (filter (\<lambda>f. lh_member h (fl_agent f) \<and>
                     (case parentOf rows f of None \<Rightarrow> True | Some p \<Rightarrow> \<not> lh_member h p))
             (vals rows)))"

definition lane_members :: "flat_rows \<Rightarrow> lane_header \<Rightarrow> flat_row list" where
  "lane_members rows h = filter (\<lambda>f. lh_member h (fl_agent f)) (vals rows)"

text \<open>The members below a header: the roots, then those that only a cycle of members reaches.\<close>

definition place_members :: "collation \<Rightarrow> flat_rows \<Rightarrow> lane_header \<Rightarrow> nodes \<Rightarrow> string list \<times> placing" where
  "place_members collate rows h m =
     fold (add_member collate rows h) (filter (\<lambda>f. lh_member h (fl_agent f)) (byCreation collate (vals rows)))
       (fold (add_member collate rows h) (lane_roots collate rows h) ([], [], m))"

type_synonym lane_view = "string list \<times> nodes"

definition addHeader :: "collation \<Rightarrow> flat_rows \<Rightarrow> lane_header \<Rightarrow> lane_view \<Rightarrow> lane_view" where
  "addHeader collate rows h view =
     (case view of (tops, m) \<Rightarrow>
      case place_members collate rows h m of (children, placed, m1) \<Rightarrow>
        if children = [] then (tops, m1)
        else let summary = summary_of m1 children
             in (tops @ [lh_id h],
                 put (lh_id h)
                   ((plain_node (lh_id h) (lh_kind h) (lh_name h) (lh_prs h @ children))
                      \<lparr>sn_lane := lh_lane h, sn_summary := Some summary, sn_count := Some (int (sm_total summary)),
                       sn_secondary := (case lh_lead h of Some l \<Rightarrow> if l = [] then None else Some (''lead '' @ l) | None \<Rightarrow> None)\<rparr>)
                   m1))"

subsection \<open>Pull requests\<close>

definition pr_row_id :: "string \<Rightarrow> lane_pr \<Rightarrow> string" where
  "pr_row_id header p = header @ ''/pr:'' @ pr_repo p @ ''#'' @ digits (pr_number p)"

definition pr_node :: "string \<Rightarrow> lane \<Rightarrow> lane_pr \<Rightarrow> sidebar_node" where
  "pr_node header l p =
     (plain_node (pr_row_id header p) PrNode (prLabel p) [])
       \<lparr>sn_secondary := Some (join_with '', '' (prFacts p @
          (case pr_holder p of Some h \<Rightarrow> if h = [] then [] else [h @ '' on '' @ pr_head p] | None \<Rightarrow> []))),
        sn_lane := Some (ln_id l), sn_pr := Some p\<rparr>"

definition pr_note_id :: "string \<Rightarrow> string" where
  "pr_note_id header = header @ ''/pr-note''"

definition prRows :: "string \<Rightarrow> lane \<Rightarrow> nodes \<Rightarrow> string list \<times> nodes" where
  "prRows header l m =
     (let ids = map (pr_row_id header) (ln_prs l);
          m1 = fold (\<lambda>p m. put (pr_row_id header p) (pr_node header l p) m) (ln_prs l) m
      in case ln_pr_note l of
           Some t \<Rightarrow>
             if t = [] then (ids, m1)
             else (ids @ [pr_note_id header],
                   put (pr_note_id header) ((plain_node (pr_note_id header) PrNode t [])\<lparr>sn_lane := Some (ln_id l)\<rparr>) m1)
         | None \<Rightarrow> (ids, m1))"

subsection \<open>The view\<close>

definition noLaneID :: string where
  "noLaneID = ''lane:''"

definition laneHeaderID :: "string \<Rightarrow> string" where
  "laneHeaderID i = ''lane:'' @ i"

definition pendingLaneID :: string where
  "pendingLaneID = ''lane-pending''"

definition lane_header_of :: "board \<Rightarrow> lane \<Rightarrow> string list \<Rightarrow> lane_header" where
  "lane_header_of b l prs =
     \<lparr>lh_id = laneHeaderID (ln_id l), lh_kind = LaneNode, lh_name = ln_name l, lh_lane = Some (ln_id l),
      lh_lead = Some (ln_lead l), lh_member = (\<lambda>a. get (laneOf b) a = Some (ln_id l)), lh_prs = prs\<rparr>"

definition no_lane_header :: "board \<Rightarrow> lane_header" where
  "no_lane_header b =
     \<lparr>lh_id = noLaneID, lh_kind = NoLaneNode, lh_name = ''No lane'', lh_lane = None, lh_lead = None,
      lh_member = (\<lambda>a. get (laneOf b) a = None), lh_prs = []\<rparr>"

definition add_lane :: "collation \<Rightarrow> board \<Rightarrow> flat_rows \<Rightarrow> lane \<Rightarrow> lane_view \<Rightarrow> lane_view" where
  "add_lane collate b rows l view =
     (case view of (tops, m) \<Rightarrow>
      case prRows (laneHeaderID (ln_id l)) l m of (prs, m1) \<Rightarrow>
        addHeader collate rows (lane_header_of b l prs) (tops, m1))"

definition add_pending :: "string option \<Rightarrow> lane_view \<Rightarrow> lane_view" where
  "add_pending pending view =
     (case pending of
        Some p \<Rightarrow>
          if p = [] then view
          else (fst view @ [pendingLaneID],
                put pendingLaneID ((plain_node pendingLaneID LaneNode p [])
                  \<lparr>sn_placeholder := True, sn_summary := Some \<lparr>sm_total = 0, sm_active = 0\<rparr>, sn_count := Some 0\<rparr>) (snd view))
      | None \<Rightarrow> view)"

definition lane_views :: "collation \<Rightarrow> board \<Rightarrow> string option \<Rightarrow> lane_view" where
  "lane_views collate b pending =
     (let rows = fst (flattenBoard b)
      in addHeader collate rows (no_lane_header b)
           (add_pending pending (fold (add_lane collate b rows) (bd_lanes b) ([], [(''tree-root'', root_node [])]))))"

definition buildLaneNodes :: "collation \<Rightarrow> board option \<Rightarrow> string option \<Rightarrow> nodes" where
  "buildLaneNodes collate board pending =
     (case board of
        None \<Rightarrow> [(''tree-root'', root_node [])]
      | Some b \<Rightarrow> case lane_views collate b pending of (tops, m) \<Rightarrow> put ''tree-root'' (root_node tops) m)"

end
