(* ===== verification/SidebarProps.thy ===== *)
theory SidebarProps
  imports Sidebar
begin

section \<open>Placing every row once\<close>

subsection \<open>Counting what is listed and what is below\<close>

text \<open>How often an id is listed as a child.\<close>

definition listed :: "nodes \<Rightarrow> string \<Rightarrow> nat" where
  "listed m i = count_list (concat (map (\<lambda>p. sn_children (snd p)) m)) i"

lemma listed_put_fresh: "get m k = None \<Longrightarrow> listed (put k n m) i = listed m i + count_list (sn_children n) i"
  by (induction m) (auto simp: listed_def split: if_splits)

definition weight :: "nodes \<Rightarrow> string \<Rightarrow> nat" where
  "weight m i =
     (case get m i of
        None \<Rightarrow> 0
      | Some n \<Rightarrow> of_bool (\<exists>p. sn_pane n = Some p \<and> r_agent p \<noteq> ''-'') + (case sn_summary n of Some s \<Rightarrow> sm_total s | None \<Rightarrow> 0))"

definition active_weight :: "nodes \<Rightarrow> string \<Rightarrow> nat" where
  "active_weight m i =
     (case get m i of
        None \<Rightarrow> 0
      | Some n \<Rightarrow> of_bool (\<exists>p. sn_pane n = Some p \<and> r_agent p \<noteq> ''-'' \<and> ri_bus (r_info p) = ''active'')
          + (case sn_summary n of Some s \<Rightarrow> sm_active s | None \<Rightarrow> 0))"

definition summarised :: "nodes \<Rightarrow> string \<Rightarrow> bool" where
  "summarised m i \<longleftrightarrow> (\<exists>n. get m i = Some n \<and> sn_summary n \<noteq> None)"

lemma weight_cong: "get m' i = get m i \<Longrightarrow> weight m' i = weight m i"
  "get m' i = get m i \<Longrightarrow> active_weight m' i = active_weight m i"
  "get m' i = get m i \<Longrightarrow> summarised m' i = summarised m i"
  by (simp_all add: weight_def active_weight_def summarised_def)

lemma summary_of_sum:
  assumes "\<forall>i \<in> set cs. summarised m i"
  shows "summary_of m cs = \<lparr>sm_total = sum_list (map (weight m) cs), sm_active = sum_list (map (active_weight m) cs)\<rparr>"
proof -
  let ?f = "\<lambda>i s.
       case get m i of
         None \<Rightarrow> s
       | Some child \<Rightarrow>
           let own = (case sn_pane child of Some p \<Rightarrow> r_agent p \<noteq> ''-'' | None \<Rightarrow> False);
               busy = (case sn_pane child of Some p \<Rightarrow> own \<and> ri_bus (r_info p) = ''active'' | None \<Rightarrow> False);
               below = (case sn_summary child of Some d \<Rightarrow> d | None \<Rightarrow> summarise (length m) m (sn_children child))
           in \<lparr>sm_total = sm_total s + of_bool own + sm_total below,
               sm_active = sm_active s + of_bool busy + sm_active below\<rparr>"
  have step: "?f i s = \<lparr>sm_total = sm_total s + weight m i, sm_active = sm_active s + active_weight m i\<rparr>"
    if "summarised m i" for i s
    using that by (auto simp: summarised_def weight_def active_weight_def Let_def split: option.splits)
  have "fold ?f cs s =
      \<lparr>sm_total = sm_total s + sum_list (map (weight m) cs), sm_active = sm_active s + sum_list (map (active_weight m) cs)\<rparr>"
    for s using assms
  proof (induction cs arbitrary: s)
    case (Cons c cs)
    have c: "summarised m c" and cs: "\<forall>i \<in> set cs. summarised m i" using Cons.prems by simp_all
    show ?case unfolding fold_Cons comp_apply step [OF c] Cons.IH [OF cs] by simp
  qed simp
  then show ?thesis by (simp add: summary_of_def)
qed

subsection \<open>The contract of a forest of rows\<close>

locale forest =
  fixes rows :: flat_rows and kids :: "flat_row \<Rightarrow> flat_row list" and idf :: "flat_row \<Rightarrow> string"
    and mk :: "flat_row \<Rightarrow> string list \<Rightarrow> nodes \<Rightarrow> sidebar_node"
  assumes rows_key: "get rows a = Some f \<Longrightarrow> fl_agent f = a \<and> a \<noteq> ''-''"
    and kids_rows: "g \<in> set (kids f) \<Longrightarrow> get rows (fl_agent g) = Some g"
    and id_inj: "get rows (fl_agent f) = Some f \<Longrightarrow> get rows (fl_agent g) = Some g \<Longrightarrow> idf f = idf g \<Longrightarrow> f = g"
    and mk_children: "sn_children (mk f cs m) = cs"
    and mk_pane: "sn_pane (mk f cs m) = Some (fl_row f)"
    and mk_summary: "sn_summary (mk f cs m) = Some (summary_of m cs)"
begin

definition is_row :: "flat_row \<Rightarrow> bool" where
  "is_row f \<longleftrightarrow> get rows (fl_agent f) = Some f"

definition ids_of :: "string list \<Rightarrow> string set" where
  "ids_of as = {idf g | g. is_row g \<and> fl_agent g \<in> set as}"

definition busy :: "string list \<Rightarrow> nat" where
  "busy as = length (filter (\<lambda>a. case get rows a of Some f \<Rightarrow> ri_bus (fl_info f) = ''active'' | None \<Rightarrow> False) as)"

definition fresh :: "string list \<Rightarrow> nodes \<Rightarrow> bool" where
  "fresh p m \<longleftrightarrow> distinct p \<and> set p \<subseteq> set (keys rows) \<and> (\<forall>g. is_row g \<and> fl_agent g \<notin> set p \<longrightarrow> get m (idf g) = None)"

definition closed_under :: "string list \<Rightarrow> string list \<Rightarrow> bool" where
  "closed_under as p \<longleftrightarrow> (\<forall>f. is_row f \<and> fl_agent f \<in> set as \<longrightarrow> fl_agent ` set (kids f) \<subseteq> set p)"

text \<open>The node of a row shows that row.\<close>

definition shown :: "nodes \<Rightarrow> flat_row \<Rightarrow> bool" where
  "shown m g \<longleftrightarrow> (\<exists>n. get m (idf g) = Some n \<and> sn_pane n = Some (fl_row g))"

lemma shown_cong: "get m' (idf g) = get m (idf g) \<Longrightarrow> shown m' g = shown m g"
  by (simp add: shown_def)

text \<open>From one state to another, the rows \<open>new\<close> are placed.\<close>

definition spread :: "string list \<Rightarrow> nodes \<Rightarrow> string list \<Rightarrow> string list \<Rightarrow> nodes \<Rightarrow> bool" where
  "spread p m new p' m' \<longleftrightarrow>
     p' = p @ new \<and> fresh p' m' \<and> (\<forall>k. k \<notin> ids_of new \<longrightarrow> get m' k = get m k) \<and>
     (\<forall>g. is_row g \<and> fl_agent g \<in> set new \<longrightarrow> shown m' g) \<and> closed_under new p' \<and>
     (\<forall>i. (\<forall>g. is_row g \<longrightarrow> i \<noteq> idf g) \<longrightarrow> listed m' i = listed m i)"

lemma spreadD:
  assumes "spread p m new p' m'"
  shows "p' = p @ new" and "fresh p' m'" and "k \<notin> ids_of new \<Longrightarrow> get m' k = get m k"
    and "is_row g \<Longrightarrow> fl_agent g \<in> set new \<Longrightarrow> shown m' g" and "closed_under new p'"
    and "(\<And>g. is_row g \<Longrightarrow> i \<noteq> idf g) \<Longrightarrow> listed m' i = listed m i"
  using assms unfolding spread_def by blast+

lemma ids_append: "ids_of (as @ bs) = ids_of as \<union> ids_of bs"
  by (auto simp: ids_of_def)

lemma id_in_ids: "is_row g \<Longrightarrow> idf g \<in> ids_of as \<longleftrightarrow> fl_agent g \<in> set as"
  using id_inj by (auto simp: ids_of_def is_row_def)

lemma row_agent_eq: "is_row f \<Longrightarrow> is_row g \<Longrightarrow> fl_agent f = fl_agent g \<longleftrightarrow> f = g"
  unfolding is_row_def by (metis option.inject)

lemma row_id_eq: "is_row f \<Longrightarrow> is_row g \<Longrightarrow> idf f = idf g \<longleftrightarrow> f = g"
  using id_inj [of f g] by (auto simp only: is_row_def)

lemma spread_refl: "fresh p m \<Longrightarrow> spread p m [] p m"
  by (simp add: spread_def ids_of_def closed_under_def)

lemma spread_trans:
  assumes "spread p m n1 p1 m1" and "spread p1 m1 n2 p2 m2"
  shows "spread p m (n1 @ n2) p2 m2"
proof -
  have "shown m2 g" if "is_row g" "fl_agent g \<in> set n1" for g
  proof (cases "fl_agent g \<in> set n2")
    case False
    then have "get m2 (idf g) = get m1 (idf g)" using assms(2) id_in_ids [OF that(1)] by (simp add: spread_def)
    then show ?thesis using spreadD(4) [OF assms(1) that] shown_cong by blast
  qed (use spreadD(4) [OF assms(2)] that in blast)
  moreover have "closed_under (n1 @ n2) p2"
  proof -
    have "closed_under n1 p1" "set p1 \<subseteq> set p2" "closed_under n2 p2" using assms by (auto simp: spread_def)
    then show ?thesis unfolding closed_under_def set_append by blast
  qed
  ultimately show ?thesis using assms by (auto simp: spread_def ids_append)
qed

text \<open>What one placement does: everything new is listed once more, but for the row itself.\<close>

definition under :: "flat_row \<Rightarrow> bool" where
  "under g \<longleftrightarrow> (\<exists>h. is_row h \<and> g \<in> set (kids h))"

definition placed_row :: "flat_row \<Rightarrow> string list \<Rightarrow> nodes \<Rightarrow> string list \<Rightarrow> nodes \<Rightarrow> bool" where
  "placed_row f p m p' m' \<longleftrightarrow>
     (\<exists>new. spread p m new p' m' \<and> fl_agent f \<in> set new \<and>
        (\<forall>g. is_row g \<longrightarrow> listed m' (idf g) = listed m (idf g) + of_bool (fl_agent g \<in> set new \<and> g \<noteq> f)) \<and>
        (\<forall>g. is_row g \<and> fl_agent g \<in> set new \<longrightarrow> g = f \<or> under g) \<and>
        summarised m' (idf f) \<and> weight m' (idf f) = length new \<and> active_weight m' (idf f) = busy new)"

definition placed_all :: "flat_row list \<Rightarrow> string list \<Rightarrow> string list \<Rightarrow> nodes \<Rightarrow> string list \<Rightarrow> nodes \<Rightarrow> bool" where
  "placed_all gs cs p m p' m' \<longleftrightarrow>
     (\<exists>new. spread p m new p' m' \<and> fl_agent ` set gs \<subseteq> set p' \<and> set cs \<subseteq> ids_of new \<and>
        (\<forall>g. is_row g \<longrightarrow> listed m' (idf g) + count_list cs (idf g) = listed m (idf g) + of_bool (fl_agent g \<in> set new)) \<and>
        (\<forall>g. is_row g \<and> fl_agent g \<in> set new \<longrightarrow> g \<in> set gs \<or> under g) \<and>
        (\<forall>i \<in> set cs. summarised m' i) \<and>
        sum_list (map (weight m') cs) = length new \<and> sum_list (map (active_weight m') cs) = busy new)"

lemma busy_append: "busy (as @ bs) = busy as + busy bs"
  by (simp add: busy_def)

lemma placed_all_Nil: "fresh p m \<Longrightarrow> placed_all [] [] p m p m"
  unfolding placed_all_def by (rule exI [of _ "[]"]) (simp add: spread_refl busy_def)

lemma placed_all_step:
  assumes "placed_all gs cs p m p1 m1" and "is_row g" and "placed_row g p1 m1 p2 m2"
  shows "placed_all (gs @ [g]) (cs @ [idf g]) p m p2 m2"
proof -
  obtain n1 where n1: "spread p m n1 p1 m1" "fl_agent ` set gs \<subseteq> set p1" "set cs \<subseteq> ids_of n1"
    "\<And>h. is_row h \<Longrightarrow> listed m1 (idf h) + count_list cs (idf h) = listed m (idf h) + of_bool (fl_agent h \<in> set n1)"
    "\<forall>i \<in> set cs. summarised m1 i" "sum_list (map (weight m1) cs) = length n1"
    "\<forall>h. is_row h \<and> fl_agent h \<in> set n1 \<longrightarrow> h \<in> set gs \<or> under h"
    "sum_list (map (active_weight m1) cs) = busy n1"
    using assms(1) unfolding placed_all_def by blast
  obtain n2 where n2: "spread p1 m1 n2 p2 m2" "fl_agent g \<in> set n2"
    "\<And>h. is_row h \<Longrightarrow> listed m2 (idf h) = listed m1 (idf h) + of_bool (fl_agent h \<in> set n2 \<and> h \<noteq> g)"
    "summarised m2 (idf g)" "weight m2 (idf g) = length n2" "active_weight m2 (idf g) = busy n2"
    "\<forall>h. is_row h \<and> fl_agent h \<in> set n2 \<longrightarrow> h = g \<or> under h"
    using assms(3) unfolding placed_row_def by blast
  have p: "p1 = p @ n1" "p2 = p1 @ n2" using n1(1) n2(1) by (simp_all add: spread_def)
  have "fresh p2 m2" using n2(1) unfolding spread_def by blast
  then have apart: "distinct (p @ n1 @ n2)" using p by (simp add: fresh_def)
  have same: "get m2 i = get m1 i" if ic: "i \<in> set cs" for i
  proof -
    obtain h where h: "i = idf h" "is_row h" "fl_agent h \<in> set n1" using ic n1(3) unfolding ids_of_def by blast
    then have "i \<notin> ids_of n2" using id_in_ids [OF h(2), of n2] apart by auto
    then show ?thesis using n2(1) by (simp add: spread_def)
  qed
  have w: "map (weight m2) cs = map (weight m1) cs" "map (active_weight m2) cs = map (active_weight m1) cs"
    by (rule map_cong [OF refl], rule weight_cong, erule same)+
  have w3: "\<forall>i \<in> set cs. summarised m2 i" using n1(5) weight_cong(3) [OF same] by blast
  have count: "listed m2 (idf h) + count_list (cs @ [idf g]) (idf h) = listed m (idf h) + of_bool (fl_agent h \<in> set (n1 @ n2))"
    if "is_row h" for h
  proof -
    note row_id_eq [OF assms(2) that] row_agent_eq [OF assms(2) that]
    moreover have "\<not> (fl_agent h \<in> set n1 \<and> fl_agent h \<in> set n2)" using apart by auto
    ultimately show ?thesis using n1(4) [OF that] n2(3) [OF that] n2(2) by (auto split: if_splits)
  qed
  have "set (cs @ [idf g]) \<subseteq> ids_of (n1 @ n2)"
    using n1(3) n2(2) assms(2) by (auto simp: ids_append ids_of_def)
  moreover have "fl_agent ` set (gs @ [g]) \<subseteq> set p2" using n1(2) n2(2) p by auto
  moreover have "sum_list (map (weight m2) (cs @ [idf g])) = length (n1 @ n2)"
    "sum_list (map (active_weight m2) (cs @ [idf g])) = busy (n1 @ n2)"
    unfolding map_append sum_list_append w n1(6,8) by (simp_all add: n2(5,6) busy_append)
  moreover have "\<forall>i \<in> set (cs @ [idf g]). summarised m2 i" using w3 n2(4) by simp
  moreover have "\<forall>h. is_row h \<and> fl_agent h \<in> set (n1 @ n2) \<longrightarrow> h \<in> set (gs @ [g]) \<or> under h"
    using n1(7) n2(7) unfolding set_append by auto
  ultimately show ?thesis
    unfolding placed_all_def using spread_trans [OF n1(1) n2(1)] count by blast
qed

lemma placed_all_skip:
  assumes "placed_all gs cs p m p1 m1" and "fl_agent g \<in> set p1"
  shows "placed_all (gs @ [g]) cs p m p1 m1"
  using assms unfolding placed_all_def by auto

text \<open>The loop over the rows under a row, and over the rows at the top.\<close>

definition place_one :: "nat \<Rightarrow> flat_row \<Rightarrow> string list \<times> placing \<Rightarrow> string list \<times> placing" where
  "place_one n g acc =
     (case acc of (cs, p, m) \<Rightarrow>
        if fl_agent g \<in> set p then (cs, p, m)
        else case place kids idf mk n g (p, m) of (p', m') \<Rightarrow> (cs @ [idf g], p', m'))"

lemma unplaced_card: "fresh (p @ n) m \<Longrightarrow> card (set (keys rows) - set (p @ n)) \<le> card (set (keys rows) - set p)"
  by (rule card_mono) auto

lemma loop_places:
  assumes IH: "\<And>g p m. is_row g \<Longrightarrow> fl_agent g \<notin> set p \<Longrightarrow> fresh p m \<Longrightarrow>
      card (set (keys rows) - set p) \<le> n \<Longrightarrow> (case place kids idf mk n g (p, m) of (p', m') \<Rightarrow> placed_row g p m p' m')"
    and "\<forall>g \<in> set hs. is_row g" and "placed_all gs cs p m p1 m1" and "card (set (keys rows) - set p1) \<le> n"
  shows "case fold (place_one n) hs (cs, p1, m1) of (cs', p', m') \<Rightarrow> placed_all (gs @ hs) cs' p m p' m'"
  using assms(2-4)
proof (induction hs arbitrary: gs cs p1 m1)
  case (Cons h hs)
  show ?case
  proof (cases "fl_agent h \<in> set p1")
    case True
    from Cons.IH [OF _ placed_all_skip [OF Cons.prems(2) True]] Cons.prems True show ?thesis by (simp add: place_one_def)
  next
    case False
    obtain p2 m2 where r: "place kids idf mk n h (p1, m1) = (p2, m2)" by fastforce
    have "fresh p1 m1" using Cons.prems(2) by (auto simp: placed_all_def spread_def)
    with IH [of h p1 m1] False Cons.prems r have pr: "placed_row h p1 m1 p2 m2" by simp
    then have "card (set (keys rows) - set p2) \<le> card (set (keys rows) - set p1)"
      by (auto simp: placed_row_def spread_def intro: card_mono)
    with Cons.IH [OF _ placed_all_step [OF Cons.prems(2) _ pr]] Cons.prems False r show ?thesis by (simp add: place_one_def)
  qed
qed simp

lemma place_enough:
  "is_row f \<Longrightarrow> fl_agent f \<notin> set p \<Longrightarrow> fresh p m \<Longrightarrow> card (set (keys rows) - set p) \<le> n \<Longrightarrow>
     case place kids idf mk n f (p, m) of (p', m') \<Rightarrow> placed_row f p m p' m'"
proof (induction n arbitrary: f p m)
  case 0
  then have "set (keys rows) - set p = {}" by simp
  moreover have "fl_agent f \<in> set (keys rows)" using 0(1) by (metis is_row_def get_None_keys option.distinct(1))
  ultimately show ?case using 0(2) by auto
next
  case (Suc n)
  let ?p = "p @ [fl_agent f]"
  have fk: "fl_agent f \<in> set (keys rows)" using Suc.prems(1) by (metis is_row_def get_None_keys option.distinct(1))
  have fr: "fresh ?p m" using Suc.prems(2,3) fk by (auto simp: fresh_def)
  have "set (keys rows) - set ?p = (set (keys rows) - set p) - {fl_agent f}" by auto
  then have card: "card (set (keys rows) - set ?p) \<le> n" using Suc.prems(2,4) fk by simp
  obtain cs p1 m1 where loop: "fold (place_one n) (kids f) ([], ?p, m) = (cs, p1, m1)" by (metis prod_cases3)
  have k: "\<forall>g \<in> set (kids f). is_row g" using kids_rows by (simp add: is_row_def)
  have "case fold (place_one n) (kids f) ([], ?p, m) of (cs', p', m') \<Rightarrow> placed_all ([] @ kids f) cs' ?p m p' m'"
    by (rule loop_places [OF _ k placed_all_Nil [OF fr] card]) (rule Suc.IH)
  then have "placed_all (kids f) cs ?p m p1 m1" unfolding loop by (simp only: prod.case append_Nil)
  then obtain new where new: "spread ?p m new p1 m1" "fl_agent ` set (kids f) \<subseteq> set p1" "set cs \<subseteq> ids_of new"
    "\<And>g. is_row g \<Longrightarrow> listed m1 (idf g) + count_list cs (idf g) = listed m (idf g) + of_bool (fl_agent g \<in> set new)"
    "\<forall>i \<in> set cs. summarised m1 i" "sum_list (map (weight m1) cs) = length new"
    "\<forall>g. is_row g \<and> fl_agent g \<in> set new \<longrightarrow> g \<in> set (kids f) \<or> under g"
    "sum_list (map (active_weight m1) cs) = busy new"
    unfolding placed_all_def by blast
  let ?m = "put (idf f) (mk f cs m1) m1"
  have out: "place kids idf mk (Suc n) f (p, m) = (p1, ?m)"
    using loop by (simp add: place_one_def [abs_def] Let_def)
  have p1: "p1 = p @ fl_agent f # new" "fresh p1 m1" using spreadD(1,2) [OF new(1)] by simp_all
  then have fn: "fl_agent f \<notin> set new" by (auto simp: fresh_def)
  have none: "get m1 (idf f) = None"
  proof -
    have "get m1 (idf f) = get m (idf f)" using new(1) fn id_in_ids [OF Suc.prems(1)] by (simp add: spread_def)
    then show ?thesis using Suc.prems(1-3) by (simp add: fresh_def)
  qed
  note other = row_id_eq [OF _ Suc.prems(1)] and same_agent = row_agent_eq [OF _ Suc.prems(1)]
  have ids: "ids_of (fl_agent f # new) = insert (idf f) (ids_of new)"
    using Suc.prems(1) same_agent by (auto simp: ids_of_def)
  have "fresh p1 ?m" using p1(2) other fn p1(1) by (auto simp: fresh_def get_put)
  moreover have "\<forall>k. k \<notin> ids_of (fl_agent f # new) \<longrightarrow> get ?m k = get m k"
    using new(1) by (auto simp: spread_def ids get_put)
  moreover have "\<forall>g. is_row g \<and> fl_agent g \<in> set (fl_agent f # new) \<longrightarrow> shown ?m g"
  proof (intro allI impI)
    fix g assume g: "is_row g \<and> fl_agent g \<in> set (fl_agent f # new)"
    show "shown ?m g"
    proof (cases "g = f")
      case True
      then show ?thesis by (simp add: shown_def get_put mk_pane)
    next
      case False
      then have "shown m1 g" using g same_agent spreadD(4) [OF new(1)] by auto
      moreover have "get ?m (idf g) = get m1 (idf g)" using g False other by (simp add: get_put)
      ultimately show ?thesis using shown_cong by blast
    qed
  qed
  moreover have "closed_under (fl_agent f # new) p1"
  proof -
    have "closed_under new p1" using spreadD(5) [OF new(1)] .
    moreover have "fl_agent ` set (kids g) \<subseteq> set p1" if "is_row g" "fl_agent g = fl_agent f" for g
      using that new(2) same_agent [OF that(1)] by simp
    ultimately show ?thesis unfolding closed_under_def by auto
  qed
  moreover have "\<forall>i. (\<forall>g. is_row g \<longrightarrow> i \<noteq> idf g) \<longrightarrow> listed ?m i = listed m i"
  proof (intro allI impI)
    fix i assume i: "\<forall>g. is_row g \<longrightarrow> i \<noteq> idf g"
    then have "i \<notin> set cs" using new(3) unfolding ids_of_def by blast
    then show "listed ?m i = listed m i"
      using listed_put_fresh [OF none, of "mk f cs m1" i] spreadD(6) [OF new(1), of i] i by (simp add: mk_children)
  qed
  ultimately have spread: "spread p m (fl_agent f # new) p1 ?m" using p1(1) by (simp add: spread_def)
  have count: "listed ?m (idf g) = listed m (idf g) + of_bool (fl_agent g \<in> set (fl_agent f # new) \<and> g \<noteq> f)"
    if "is_row g" for g
    using listed_put_fresh [OF none, of "mk f cs m1" "idf g"] new(4) [OF that] same_agent [OF that] fn by (auto simp: mk_children)
  have sums: "summary_of m1 cs = \<lparr>sm_total = length new, sm_active = busy new\<rparr>"
    using summary_of_sum [OF new(5)] new(6,8) by simp
  have key: "get rows (fl_agent f) = Some f" using Suc.prems(1) by (simp add: is_row_def)
  have "weight ?m (idf f) = length (fl_agent f # new)" "active_weight ?m (idf f) = busy (fl_agent f # new)"
    "summarised ?m (idf f)"
    using sums key rows_key [OF key] by (simp_all add: weight_def active_weight_def summarised_def get_put mk_pane mk_summary busy_def)
  moreover have "\<forall>g. is_row g \<and> fl_agent g \<in> set (fl_agent f # new) \<longrightarrow> g = f \<or> under g"
    using new(7) same_agent Suc.prems(1) unfolding under_def by auto
  ultimately show ?case
    unfolding out prod.case placed_row_def using spread count by (intro exI [of _ "fl_agent f # new"]) simp
qed

lemma place_list:
  assumes "fresh p m" and "\<forall>g \<in> set hs. is_row g" and "card (set (keys rows)) \<le> n"
  shows "case fold (place_one n) hs ([], p, m) of (cs', p', m') \<Rightarrow> placed_all hs cs' p m p' m'"
proof -
  have "card (set (keys rows) - set p) \<le> n" using assms(3) card_mono [of "set (keys rows)" "set (keys rows) - set p"] by auto
  from loop_places [OF _ assms(2) placed_all_Nil [OF assms(1)] this, OF place_enough] show ?thesis by simp
qed

subsection \<open>A forest under entries\<close>

text \<open>What the entries at the top account for: every row placed is listed exactly once.\<close>

definition grown :: "string list \<Rightarrow> string list \<Rightarrow> nodes \<Rightarrow> bool" where
  "grown es p m \<longleftrightarrow>
     fresh p m \<and> closed_under p p \<and>
     (\<forall>g. is_row g \<longrightarrow> listed m (idf g) + count_list es (idf g) = of_bool (fl_agent g \<in> set p)) \<and>
     (\<forall>g. is_row g \<and> fl_agent g \<in> set p \<longrightarrow> shown m g) \<and>
     sum_list (map (weight m) es) = length p \<and>
     (\<forall>i \<in> set es. i \<in> ids_of p \<or> (\<forall>g. is_row g \<longrightarrow> i \<noteq> idf g))"

lemma grown_total: "grown es p m \<Longrightarrow> sum_list (map (weight m) es) = length p"
  unfolding grown_def by blast

lemma grown_others:
  assumes "grown es p m" and "spread p m new p' m'"
  shows "map (weight m') es = map (weight m) es" and "\<forall>i \<in> set es. i \<in> ids_of p' \<or> (\<forall>g. is_row g \<longrightarrow> i \<noteq> idf g)"
    and "closed_under p' p'" and "is_row g \<Longrightarrow> fl_agent g \<in> set p' \<Longrightarrow> shown m' g"
proof -
  note sp = spreadD [OF assms(2)]
  have apart: "distinct (p @ new)" using sp(1,2) by (simp add: fresh_def)
  have "i \<notin> ids_of new" if "i \<in> set es" for i
  proof -
    consider "i \<in> ids_of p" | "\<forall>g. is_row g \<longrightarrow> i \<noteq> idf g" using assms(1) \<open>i \<in> set es\<close> unfolding grown_def by blast
    then show ?thesis
    proof cases
      case 1
      then obtain h where "i = idf h" "is_row h" "fl_agent h \<in> set p" unfolding ids_of_def by blast
      then show ?thesis using id_in_ids [of h new] apart by auto
    qed (auto simp: ids_of_def)
  qed
  then show "map (weight m') es = map (weight m) es" by (intro map_cong refl weight_cong sp(3)) simp
  show "\<forall>i \<in> set es. i \<in> ids_of p' \<or> (\<forall>g. is_row g \<longrightarrow> i \<noteq> idf g)"
    using assms(1) unfolding grown_def sp(1) ids_append by blast
  have "closed_under p p" using assms(1) unfolding grown_def by blast
  then show "closed_under p' p'" using sp(5) unfolding sp(1) closed_under_def set_append by blast
  show "is_row g \<Longrightarrow> fl_agent g \<in> set p' \<Longrightarrow> shown m' g"
  proof (cases "fl_agent g \<in> set new")
    case False
    assume g: "is_row g" "fl_agent g \<in> set p'"
    with False have "fl_agent g \<in> set p" "get m' (idf g) = get m (idf g)" using sp(1,3) id_in_ids by auto
    then show ?thesis using assms(1) g(1) shown_cong unfolding grown_def by blast
  qed (use sp(4) in blast)
qed

lemma grown_row:
  assumes "grown es p m" and "is_row f" and "placed_row f p m p' m'"
  shows "grown (es @ [idf f]) p' m'"
proof -
  obtain new where new: "spread p m new p' m'" "fl_agent f \<in> set new"
    "\<And>g. is_row g \<Longrightarrow> listed m' (idf g) = listed m (idf g) + of_bool (fl_agent g \<in> set new \<and> g \<noteq> f)"
    "weight m' (idf f) = length new"
    using assms(3) unfolding placed_row_def by blast
  note sp = spreadD [OF new(1)] and oth = grown_others [OF assms(1) new(1)]
  have apart: "distinct (p @ new)" using sp(1,2) by (simp add: fresh_def)
  have "listed m' (idf g) + count_list (es @ [idf f]) (idf g) = of_bool (fl_agent g \<in> set p')" if g: "is_row g" for g
  proof -
    have "listed m (idf g) + count_list es (idf g) = of_bool (fl_agent g \<in> set p)" using assms(1) g unfolding grown_def by blast
    moreover have "\<not> (fl_agent g \<in> set p \<and> fl_agent g \<in> set new)" using apart by auto
    ultimately show ?thesis
      using new(3) [OF g] new(2) row_id_eq [OF assms(2) g] row_agent_eq [OF assms(2) g] sp(1) by (auto split: if_splits)
  qed
  moreover have "sum_list (map (weight m') (es @ [idf f])) = length p'"
    using grown_total [OF assms(1)] new(4) unfolding map_append sum_list_append oth(1) sp(1) by simp
  moreover have "idf f \<in> ids_of p'" using id_in_ids [OF assms(2)] new(2) sp(1) by simp
  ultimately show ?thesis unfolding grown_def using sp(2) oth(2-4) by auto
qed

text \<open>A header that is not a row, over rows that stand under nothing else.\<close>

lemma grown_header:
  assumes "grown es p m" and "placed_all fs cs p m p' m'" and "get m' i = None" and "i \<notin> set es"
    and "\<And>g. is_row g \<Longrightarrow> i \<noteq> idf g" and "sn_children n = cs" and "sn_pane n = None" and "sn_summary n = Some (summary_of m' cs)"
  shows "grown (es @ [i]) p' (put i n m')"
proof -
  obtain new where new: "spread p m new p' m'"
    "\<And>g. is_row g \<Longrightarrow> listed m' (idf g) + count_list cs (idf g) = listed m (idf g) + of_bool (fl_agent g \<in> set new)"
    "\<forall>i \<in> set cs. summarised m' i" "sum_list (map (weight m') cs) = length new"
    using assms(2) unfolding placed_all_def by blast
  note sp = spreadD [OF new(1)] and oth = grown_others [OF assms(1) new(1)]
  have apart: "distinct (p @ new)" using sp(1,2) by (simp add: fresh_def)
  have keep: "get (put i n m') (idf g) = get m' (idf g)" if "is_row g" for g
    using assms(5) [OF that] by (simp add: get_put)
  have "listed (put i n m') (idf g) + count_list (es @ [i]) (idf g) = of_bool (fl_agent g \<in> set p')" if g: "is_row g" for g
  proof -
    have "listed m (idf g) + count_list es (idf g) = of_bool (fl_agent g \<in> set p)" using assms(1) g unfolding grown_def by blast
    moreover have "\<not> (fl_agent g \<in> set p \<and> fl_agent g \<in> set new)" using apart by auto
    ultimately show ?thesis
      using new(2) [OF g] listed_put_fresh [OF assms(3), of n "idf g"] assms(5) [OF g] assms(6) sp(1) by (auto split: if_splits)
  qed
  moreover have "sum_list (map (weight (put i n m')) (es @ [i])) = length p'"
  proof -
    have "map (weight (put i n m')) es = map (weight m') es"
      by (intro map_cong refl weight_cong) (use assms(4) in \<open>auto simp: get_put\<close>)
    then have "map (weight (put i n m')) es = map (weight m) es" using oth(1) by (rule trans)
    then have "sum_list (map (weight (put i n m')) es) = length p" using grown_total [OF assms(1)] by (simp only:)
    moreover have "weight (put i n m') i = length new"
      using summary_of_sum [OF new(3)] new(4) assms(7,8) by (simp add: weight_def get_put)
    ultimately show ?thesis unfolding map_append sum_list_append sp(1) by simp
  qed
  moreover have "fresh p' (put i n m')" using sp(2) keep unfolding fresh_def by simp
  moreover have "shown (put i n m') g" if "is_row g" "fl_agent g \<in> set p'" for g
    using oth(4) [OF that] shown_cong [OF keep [OF that(1)]] by blast
  ultimately show ?thesis unfolding grown_def using oth(2,3) assms(5) by auto
qed

lemma place_rows:
  assumes "fresh p m" and "\<forall>f \<in> set fs. is_row f \<and> fl_agent f \<notin> set p \<and> \<not> under f" and "distinct fs"
    and "card (set (keys rows)) \<le> n"
  shows "case fold (place kids idf mk n) fs (p, m) of (p', m') \<Rightarrow> placed_all fs (map idf fs) p m p' m'"
  using assms(2,3)
proof (induction fs rule: rev_induct)
  case Nil
  then show ?case using placed_all_Nil [OF assms(1)] by simp
next
  case (snoc f fs)
  obtain p1 m1 where r: "fold (place kids idf mk n) fs (p, m) = (p1, m1)" by fastforce
  have pa: "placed_all fs (map idf fs) p m p1 m1" using snoc r by simp
  then obtain new where new: "spread p m new p1 m1" "\<forall>g. is_row g \<and> fl_agent g \<in> set new \<longrightarrow> g \<in> set fs \<or> under g"
    unfolding placed_all_def by blast
  have f: "is_row f" "fl_agent f \<notin> set p1" using snoc.prems new(2) spreadD(1) [OF new(1)] by auto
  obtain p2 m2 where r2: "place kids idf mk n f (p1, m1) = (p2, m2)" by fastforce
  have "card (set (keys rows) - set p1) \<le> n" using assms(4) card_mono [of "set (keys rows)" "set (keys rows) - set p1"] by auto
  from place_enough [OF f spreadD(2) [OF new(1)] this] r2 have "placed_row f p1 m1 p2 m2" by simp
  from placed_all_step [OF pa f(1) this] show ?case using r r2 by simp
qed

end

end
