(* ===== verification/SidebarClaims.thy ===== *)
theory SidebarClaims
  imports SidebarProps
begin

section \<open>Every agent has its place\<close>

subsection \<open>The rows of a board\<close>

definition rows_ok :: "flat_rows \<Rightarrow> bool" where
  "rows_ok m \<longleftrightarrow> wf_map m \<and> (\<forall>a f. get m a = Some f \<longrightarrow> fl_agent f = a \<and> a \<noteq> ''-'')"

lemma rows_ok_put: "rows_ok m \<Longrightarrow> fl_agent f = k \<Longrightarrow> k \<noteq> ''-'' \<Longrightarrow> rows_ok (put k f m)"
  by (auto simp: rows_ok_def get_put)

lemma collect_ok:
  "rows_ok m \<Longrightarrow> rows_ok (collect_row r wl lbl m)"
  "rows_ok m \<Longrightarrow> rows_ok (collect_rows rs m)"
proof (induction r wl lbl m and rs m rule: collect_row_collect_rows.induct)
  case (1 p subs wl lbl m)
  show ?case
  proof (cases "ri_agent p = ''-'' \<or> ri_bus p = ''-''")
    case False
    have "rows_ok (if get m (ri_agent p) \<noteq> None then m
         else put (ri_agent p) \<lparr>fl_row = Row p subs, fl_workspaceLabel = wl, fl_tabLabel = lbl\<rparr> m)"
      using 1(2) False by (auto intro!: rows_ok_put)
    then show ?thesis unfolding collect_row.simps if_not_P [OF False] by (rule 1(1) [OF False])
  next
    case True
    show ?thesis unfolding collect_row.simps if_P [OF True] by (rule 1(2))
  qed
next
  case (2 m)
  then show ?case unfolding collect_rows.simps .
next
  case (3 c cs m)
  show ?case unfolding collect_rows.simps by (rule 3(2) [OF 3(1) [OF 3(3)]])
qed

lemma fold_keeps: "(\<And>x acc. P acc \<Longrightarrow> P (f x acc)) \<Longrightarrow> P acc \<Longrightarrow> P (fold f xs acc)"
  by (induction xs arbitrary: acc) simp_all

lemma flatten_ok: "rows_ok (fst (flattenBoard b))"
proof -
  have pane: "rows_ok (fst (flatten_pane w pt acc))" if "rows_ok (fst acc)" for w pt acc
  proof -
    obtain p t where "pt = (p, t)" by fastforce
    moreover obtain m ts where "acc = (m, ts)" by fastforce
    ultimately show ?thesis using that collect_ok(1) by (simp add: flatten_pane_def Let_def)
  qed
  let ?walk = "fold (\<lambda>w acc. fold (flatten_pane w) (concat (map (\<lambda>t. map (\<lambda>p. (p, t)) (tb_panes t)) (ws_tabs w))) acc) (bd_workspaces b) ([], [])"
  have "rows_ok (fst ?walk)"
    by (rule fold_keeps [where P = "\<lambda>acc. rows_ok (fst acc)"], rule fold_keeps [where P = "\<lambda>acc. rows_ok (fst acc)"])
      (simp_all add: pane, simp add: rows_ok_def)
  moreover obtain m ts where w: "?walk = (m, ts)" by fastforce
  ultimately have "rows_ok m" by (simp only: fst_conv)
  then have "rows_ok (fold (\<lambda>r m. collect_row r None None m) (bd_unplaced b) m)"
    by (rule fold_keeps [rotated]) (rule collect_ok(1))
  then show ?thesis unfolding flattenBoard_def w Let_def prod.case fst_conv .
qed

lemma row_of_key: "rows_ok rows \<Longrightarrow> f \<in> set (vals rows) \<longleftrightarrow> get rows (fl_agent f) = Some f"
  by (force simp: rows_ok_def map_of_eq_Some_iff)

lemma set_byCreation [simp]: "set (byCreation collate fs) = set fs" "distinct (byCreation collate fs) = distinct fs"
  by (simp_all add: byCreation_def)

subsection \<open>How the rows are classified\<close>

text \<open>Every row of a group satisfies what put it there.\<close>

definition groups_ok :: "(string \<Rightarrow> flat_row \<Rightarrow> bool) \<Rightarrow> (string, flat_row list) jsmap \<Rightarrow> bool" where
  "groups_ok P m \<longleftrightarrow> wf_map m \<and> (\<forall>k fs. get m k = Some fs \<longrightarrow> fs \<noteq> [] \<and> distinct fs \<and> (\<forall>f \<in> set fs. P k f))"

lemma groups_okD:
  assumes "groups_ok P m" and "get m k = Some fs"
  shows "fs \<noteq> []" and "distinct fs" and "f \<in> set fs \<Longrightarrow> P k f"
  using assms unfolding groups_ok_def by blast+

lemma groups_mono: "groups_ok P m \<Longrightarrow> (\<And>k f. P k f \<Longrightarrow> Q k f) \<Longrightarrow> groups_ok Q m"
  unfolding groups_ok_def by blast

lemma push_row_get: "get (push_row k f m) k' = (if k' = k then Some (or_else (get m k) [] @ [f]) else get m k')"
  by (simp add: push_row_def get_put)

lemma groups_push:
  assumes "groups_ok P m" and "\<not> P k f" and "\<And>k f. P k f \<Longrightarrow> Q k f" and "Q k f"
  shows "groups_ok Q (push_row k f m)"
proof -
  have old: "fs \<noteq> []" "distinct fs" "\<forall>g \<in> set fs. P k' g" if "get m k' = Some fs" for k' fs
    using groups_okD [OF assms(1) that] by blast+
  have "fs \<noteq> [] \<and> distinct fs \<and> (\<forall>g \<in> set fs. Q k' g)" if g: "get (push_row k f m) k' = Some fs" for k' fs
  proof (cases "k' = k")
    case True
    show ?thesis
    proof (cases "get m k")
      case None
      then show ?thesis using g assms(4) unfolding True push_row_get by auto
    next
      case (Some hs)
      have "fs = hs @ [f]" using g unfolding True push_row_get Some by simp
      moreover have "f \<notin> set hs" "\<forall>h \<in> set hs. Q k h" using old [OF Some] assms(2,3) by blast+
      ultimately show ?thesis using old [OF Some] assms(4) unfolding True by simp
    qed
  next
    case False
    have "get m k' = Some fs" by (rule g [unfolded push_row_get if_not_P [OF False]])
    then show ?thesis using old assms(3) by blast
  qed
  moreover have "wf_map (push_row k f m)" using assms(1) unfolding groups_ok_def push_row_def by (intro wf_put) blast
  ultimately show ?thesis unfolding groups_ok_def by blast
qed

definition report_ok :: "flat_row list \<Rightarrow> string \<Rightarrow> flat_row \<Rightarrow> bool" where
  "report_ok seen k f \<longleftrightarrow> f \<in> set seen \<and> ri_manager_state (fl_info f) = Some Live_manager"

definition tombstone_ok :: "flat_rows \<Rightarrow> flat_row list \<Rightarrow> string \<Rightarrow> flat_row \<Rightarrow> bool" where
  "tombstone_ok rows seen k f \<longleftrightarrow>
     f \<in> set seen \<and> ri_manager_state (fl_info f) = Some Ended_manager \<and> \<not> under_parent rows (fl_info f) \<and> manager_of (fl_info f) = k"

definition class_inv :: "flat_rows \<Rightarrow> flat_row list \<Rightarrow> classes \<Rightarrow> bool" where
  "class_inv rows seen c \<longleftrightarrow>
     set (cl_top c) \<subseteq> set seen \<and> groups_ok (report_ok seen) (cl_reports c) \<and>
     groups_ok (tombstone_ok rows seen) (cl_tombstones c)"

lemma classify_cases:
  "classify rows f c = c \<or> classify rows f c = c\<lparr>cl_top := cl_top c @ [f]\<rparr> \<or>
   (ri_manager_state (fl_info f) = Some Live_manager \<and>
      classify rows f c = c\<lparr>cl_reports := push_row (manager_of (fl_info f)) f (cl_reports c)\<rparr>) \<or>
   (ri_manager_state (fl_info f) = Some Ended_manager \<and> \<not> under_parent rows (fl_info f) \<and>
      classify rows f c = c\<lparr>cl_tombstones := push_row (manager_of (fl_info f)) f (cl_tombstones c)\<rparr>)"
  by (simp add: classify_def Let_def split: option.split manager_state.split)

lemma classify_inv:
  assumes inv: "class_inv rows seen c" and new: "f \<notin> set seen"
  shows "class_inv rows (seen @ [f]) (classify rows f c)"
proof -
  have i: "set (cl_top c) \<subseteq> set seen" "groups_ok (report_ok seen) (cl_reports c)"
    "groups_ok (tombstone_ok rows seen) (cl_tombstones c)"
    using inv unfolding class_inv_def by blast+
  have mr: "report_ok seen k g \<Longrightarrow> report_ok (seen @ [f]) k g" for k g by (simp add: report_ok_def)
  have mt: "tombstone_ok rows seen k g \<Longrightarrow> tombstone_ok rows (seen @ [f]) k g" for k g by (simp add: tombstone_ok_def)
  note keep = groups_mono [OF i(2) mr] groups_mono [OF i(3) mt]
  have top: "set (cl_top c) \<subseteq> set (seen @ [f])" "set (cl_top c @ [f]) \<subseteq> set (seen @ [f])" using i(1) by auto
  from classify_cases [of rows f c] show ?thesis
  proof (elim disjE conjE)
    assume r: "ri_manager_state (fl_info f) = Some Live_manager"
      "classify rows f c = c\<lparr>cl_reports := push_row (manager_of (fl_info f)) f (cl_reports c)\<rparr>"
    have "groups_ok (report_ok (seen @ [f])) (push_row (manager_of (fl_info f)) f (cl_reports c))"
      by (rule groups_push [OF i(2) _ mr]) (use new r(1) in \<open>simp_all add: report_ok_def\<close>)
    then show ?thesis using top(1) keep(2) unfolding r(2) class_inv_def by simp
  next
    assume t: "ri_manager_state (fl_info f) = Some Ended_manager" "\<not> under_parent rows (fl_info f)"
      "classify rows f c = c\<lparr>cl_tombstones := push_row (manager_of (fl_info f)) f (cl_tombstones c)\<rparr>"
    have "groups_ok (tombstone_ok rows (seen @ [f])) (push_row (manager_of (fl_info f)) f (cl_tombstones c))"
      by (rule groups_push [OF i(3) _ mt]) (use new t(1,2) in \<open>simp_all add: tombstone_ok_def\<close>)
    then show ?thesis using top(1) keep(1) unfolding t(3) class_inv_def by simp
  qed (use top keep in \<open>simp_all add: class_inv_def\<close>)
qed

lemma distinct_vals: "rows_ok rows \<Longrightarrow> distinct (vals rows)"
proof -
  assume ok: "rows_ok rows"
  have "fl_agent (snd p) = fst p" if "p \<in> set rows" for p
    using ok that map_of_is_SomeI [of rows "fst p" "snd p"] unfolding rows_ok_def by auto
  then have "map fl_agent (vals rows) = keys rows" by simp
  moreover have "distinct (keys rows)" using ok unfolding rows_ok_def by blast
  ultimately show ?thesis by (metis distinct_map)
qed

lemma classes_inv:
  assumes "rows_ok rows"
  shows "class_inv rows (vals rows) (classes_of rows)"
proof -
  have "distinct (seen @ fs) \<Longrightarrow> class_inv rows seen c \<Longrightarrow> class_inv rows (seen @ fs) (fold (classify rows) fs c)" for seen fs c
  proof (induction fs arbitrary: seen c)
    case (Cons f fs)
    have "f \<notin> set seen" using Cons.prems(1) by simp
    from Cons.IH [OF _ classify_inv [OF Cons.prems(2) this]] Cons.prems(1) show ?case by simp
  qed simp
  from this [of "[]" "vals rows" "\<lparr>cl_reports = [], cl_tombstones = [], cl_top = []\<rparr>"]
  show ?thesis using distinct_vals [OF assms] by (simp add: classes_of_def class_inv_def groups_ok_def)
qed

subsection \<open>Supervision as a forest\<close>

abbreviation flat :: "board \<Rightarrow> flat_rows" where
  "flat b \<equiv> fst (flattenBoard b)"

lemma agentNodeID_inj [simp]: "agentNodeID a = agentNodeID b \<longleftrightarrow> a = b"
  by (simp add: agentNodeID_def)

lemma supervised_reports:
  assumes "rows_ok rows" and "get (cl_reports (classes_of rows)) k = Some fs" and "g \<in> set fs"
  shows "get rows (fl_agent g) = Some g" and "ri_manager_state (fl_info g) = Some Live_manager"
proof -
  have "groups_ok (report_ok (vals rows)) (cl_reports (classes_of rows))"
    using classes_inv [OF assms(1)] unfolding class_inv_def by blast
  from groups_okD(3) [OF this assms(2,3)] show "get rows (fl_agent g) = Some g" "ri_manager_state (fl_info g) = Some Live_manager"
    using row_of_key [OF assms(1)] unfolding report_ok_def by blast+
qed

lemma sub_rows_row: "rows_ok rows \<Longrightarrow> g \<in> set (sub_rows rows r) \<longleftrightarrow> fl_agent g \<in> r_agent ` set (r_subagents r) \<and> get rows (fl_agent g) = Some g"
  unfolding sub_rows_def rows_ok_def by force

lemma supervised_cases:
  assumes "g \<in> set (supervised collate rows f)"
  obtains fs where "get (cl_reports (classes_of rows)) (fl_agent f) = Some fs" "g \<in> set fs"
  | "g \<in> set (sub_rows rows (fl_row f))"
  using assms unfolding supervised_def
  by (cases "get (cl_reports (classes_of rows)) (fl_agent f)") auto

lemma supervised_rows:
  assumes "rows_ok rows" and "g \<in> set (supervised collate rows f)"
  shows "get rows (fl_agent g) = Some g"
  using assms(2)
proof (cases rule: supervised_cases)
  case (1 fs)
  then show ?thesis by (rule supervised_reports(1) [OF assms(1)])
next
  case 2
  then show ?thesis using sub_rows_row [OF assms(1)] by blast
qed

lemma supervision_node_simps:
  "sn_children (supervision_node f cs m) = cs"
  "sn_pane (supervision_node f cs m) = Some (fl_row f)"
  "sn_summary (supervision_node f cs m) = Some (summary_of m cs)"
  by (simp_all add: supervision_node_def agent_node_def plain_node_def)

lemma rows_ok_forest:
  assumes "rows_ok rows"
  shows "get rows a = Some f \<Longrightarrow> fl_agent f = a \<and> a \<noteq> ''-''"
    and "get rows (fl_agent f) = Some f \<Longrightarrow> get rows (fl_agent g) = Some g \<Longrightarrow>
      agentNodeID (fl_agent f) = agentNodeID (fl_agent g) \<Longrightarrow> f = g"
proof -
  show "get rows a = Some f \<Longrightarrow> fl_agent f = a \<and> a \<noteq> ''-''" using assms unfolding rows_ok_def by blast
  assume a: "get rows (fl_agent f) = Some f" "get rows (fl_agent g) = Some g"
    "agentNodeID (fl_agent f) = agentNodeID (fl_agent g)"
  then have "fl_agent f = fl_agent g" unfolding agentNodeID_inj by blast
  with a(1) have "get rows (fl_agent g) = Some f" by (simp only:)
  then show "f = g" unfolding a(2) option.inject by (rule sym)
qed

interpretation supervision: forest "flat b" "supervised collate (flat b)" "\<lambda>f. agentNodeID (fl_agent f)" supervision_node
  for b collate
  by (rule forest.intro, erule rows_ok_forest(1) [OF flatten_ok], erule supervised_rows [OF flatten_ok],
      erule (2) rows_ok_forest(2) [OF flatten_ok]) (rule supervision_node_simps)+

text \<open>The nested rows of a row are those that name it as their parent.\<close>

definition parented :: "flat_rows \<Rightarrow> bool" where
  "parented rows \<longleftrightarrow>
     (\<forall>f \<in> set (vals rows). \<forall>g \<in> set (vals rows).
        fl_agent f \<in> r_agent ` set (r_subagents (fl_row g)) \<longleftrightarrow> named_parent (fl_info f) = Some (fl_agent g))"

lemma tombstone_apart:
  assumes "parented (flat b)" and "get (cl_tombstones (classes_of (flat b))) k = Some fs" and "f \<in> set fs"
  shows "supervision.is_row b f" and "\<not> supervision.under b collate f"
proof -
  note ok = flatten_ok [of b]
  have "groups_ok (tombstone_ok (flat b) (vals (flat b))) (cl_tombstones (classes_of (flat b)))"
    using classes_inv [OF ok] unfolding class_inv_def by blast
  from groups_okD(3) [OF this assms(2,3)] have f: "f \<in> set (vals (flat b))" "ri_manager_state (fl_info f) = Some Ended_manager"
    "\<not> under_parent (flat b) (fl_info f)" unfolding tombstone_ok_def by blast+
  show "supervision.is_row b f" using f(1) row_of_key [OF ok] unfolding supervision.is_row_def by blast
  show "\<not> supervision.under b collate f"
  proof
    assume "supervision.under b collate f"
    then obtain h where h: "supervision.is_row b h" "f \<in> set (supervised collate (flat b) h)"
      unfolding supervision.under_def by blast
    from h(2) show False
    proof (cases rule: supervised_cases)
      case (1 fs)
      then show False using supervised_reports(2) [OF ok] f(2) by fastforce
    next
      case 2
      have hv: "h \<in> set (vals (flat b))" "get (flat b) (fl_agent h) = Some h"
        using h(1) row_of_key [OF ok] unfolding supervision.is_row_def by blast+
      have "fl_agent f \<in> r_agent ` set (r_subagents (fl_row h))" using 2 sub_rows_row [OF ok] by blast
      then have "named_parent (fl_info f) = Some (fl_agent h)" using assms(1) f(1) hv(1) unfolding parented_def by blast
      then show False using f(3) hv(2) unfolding under_parent_def by simp
    qed
  qed
qed

subsection \<open>The passes over the rows\<close>

text \<open>After every pass: the entries account for what is placed, and the only other nodes are the root and tombstones.\<close>

definition top_inv :: "board \<Rightarrow> collation \<Rightarrow> string set \<Rightarrow> root_entry list \<times> placing \<Rightarrow> bool" where
  "top_inv b collate T acc \<longleftrightarrow>
     (case acc of (es, placed, m) \<Rightarrow>
        supervision.grown b collate (map fst es) placed m \<and>
        (\<forall>k. (\<forall>a. k \<noteq> agentNodeID a) \<longrightarrow> k \<notin> tombstone_id ` T \<longrightarrow> get m k = get [(''tree-root'', root_node [])] k) \<and>
        (\<forall>i \<in> set (map fst es). (\<exists>a. i = agentNodeID a) \<or> i \<in> tombstone_id ` T))"

lemma top_invD:
  assumes "top_inv b collate T (es, placed, m)"
  shows "supervision.grown b collate (map fst es) placed m"
    and "(\<And>a. k \<noteq> agentNodeID a) \<Longrightarrow> k \<notin> tombstone_id ` T \<Longrightarrow> get m k = get [(''tree-root'', root_node [])] k"
    and "i \<in> set (map fst es) \<Longrightarrow> (\<exists>a. i = agentNodeID a) \<or> i \<in> tombstone_id ` T"
  using assms unfolding top_inv_def prod.case by blast+

lemma ids_are_agents: "k \<in> supervision.ids_of b as \<Longrightarrow> \<exists>a. k = agentNodeID a"
  unfolding supervision.ids_of_def by blast

lemma fuel_enough: "card (set (keys rows) - X) \<le> length rows"
proof -
  have "card (set (keys rows) - X) \<le> card (set (keys rows))" by (intro card_mono) auto
  also have "\<dots> \<le> length rows" using card_length [of "keys rows"] by simp
  finally show ?thesis .
qed

lemma row_is_row: "supervision.is_row b f \<longleftrightarrow> f \<in> set (vals (flat b))"
  unfolding supervision.is_row_def row_of_key [OF flatten_ok] ..

lemma root_row_inv:
  assumes inv: "top_inv b collate T (es, placed, m)" and f: "f \<in> set (vals (flat b))" "fl_agent f \<notin> set placed"
  shows "top_inv b collate T (root_row collate (flat b) f (es, placed, m))" (is ?inv)
    and "insert (fl_agent f) (set placed) \<subseteq> set (fst (snd (root_row collate (flat b) f (es, placed, m))))" (is ?grows)
proof -
  note g = top_invD(1) [OF inv]
  have row: "supervision.is_row b f" unfolding row_is_row by (rule f(1))
  have fresh: "supervision.fresh b placed m" using g unfolding supervision.grown_def by blast
  obtain p' m' where r: "add_agent collate (flat b) f (placed, m) = (p', m')" by fastforce
  have "case add_agent collate (flat b) f (placed, m) of (p', m') \<Rightarrow> supervision.placed_row b collate f placed m p' m'"
    unfolding add_agent_def by (rule supervision.place_enough [OF row f(2) fresh fuel_enough])
  then have placed: "supervision.placed_row b collate f placed m p' m'" unfolding r prod.case .
  then obtain new where new: "supervision.spread b collate placed m new p' m'" "fl_agent f \<in> set new"
    unfolding supervision.placed_row_def by blast
  have other: "get m' k = get m k" if "\<And>a. k \<noteq> agentNodeID a" for k
    using supervision.spreadD(3) [OF new(1)] ids_are_agents that by blast
  have out: "root_row collate (flat b) f (es, placed, m) = (es @ [(agentNodeID (fl_agent f), created_key f)], p', m')"
    by (simp add: root_row_def r)
  have "supervision.grown b collate (map fst (es @ [(agentNodeID (fl_agent f), created_key f)])) p' m'"
    using supervision.grown_row [OF g row placed] by simp
  moreover have "get m' k = get [(''tree-root'', root_node [])] k" if "\<forall>a. k \<noteq> agentNodeID a" "k \<notin> tombstone_id ` T" for k
    using top_invD(2) [OF inv _ that(2)] other that(1) by metis
  ultimately show ?inv
    using top_invD(3) [OF inv] unfolding out top_inv_def prod.case by simp
  show ?grows using supervision.spreadD(1) [OF new(1)] new(2) unfolding out by auto
qed

lemma top_row_inv:
  assumes "top_inv b collate T acc" and "f \<in> set (vals (flat b))"
  shows "top_inv b collate T (top_row collate (flat b) f acc)"
proof -
  obtain es placed m where acc: "acc = (es, placed, m)" by (cases acc rule: prod_cases3)
  show ?thesis
    using root_row_inv(1) [OF assms(1) [unfolded acc] assms(2)] assms(1)
    unfolding top_row_def acc prod.case by (cases "fl_agent f \<in> set placed") simp_all
qed

text \<open>Homed: placed, or left to a parent that is placed.\<close>

definition homed :: "flat_rows \<Rightarrow> string list \<Rightarrow> flat_row \<Rightarrow> bool" where
  "homed rows placed f \<longleftrightarrow>
     fl_agent f \<in> set placed \<or> (under_parent rows (fl_info f) \<and> the (named_parent (fl_info f)) \<in> set placed)"

lemma homed_mono: "homed rows p f \<Longrightarrow> set p \<subseteq> set p' \<Longrightarrow> homed rows p' f"
  unfolding homed_def by blast

lemma late_row_inv:
  assumes "top_inv b collate T acc" and "f \<in> set (vals (flat b))"
  shows "top_inv b collate T (late_row collate (flat b) f acc)"
    and "homed (flat b) (fst (snd (late_row collate (flat b) f acc))) f"
    and "set (fst (snd acc)) \<subseteq> set (fst (snd (late_row collate (flat b) f acc)))"
proof -
  obtain es placed m where acc: "acc = (es, placed, m)" by (cases acc rule: prod_cases3)
  let ?out = "late_row collate (flat b) f acc"
  have "top_inv b collate T ?out \<and> homed (flat b) (fst (snd ?out)) f \<and> set (fst (snd acc)) \<subseteq> set (fst (snd ?out))"
  proof (cases "homed (flat b) placed f")
    case True
    then have "?out = acc" unfolding late_row_def acc prod.case homed_def by (rule if_P)
    then show ?thesis using True assms(1) unfolding acc by simp
  next
    case False
    then have out: "?out = root_row collate (flat b) f (es, placed, m)"
      unfolding late_row_def acc prod.case homed_def by (rule if_not_P)
    have new: "fl_agent f \<notin> set placed" using False unfolding homed_def by blast
    note r = root_row_inv [OF assms(1) [unfolded acc] assms(2) new]
    show ?thesis using r unfolding out unfolding acc homed_def by simp
  qed
  then show "top_inv b collate T ?out" "homed (flat b) (fst (snd ?out)) f" "set (fst (snd acc)) \<subseteq> set (fst (snd ?out))"
    by blast+
qed

lemma late_rows_inv:
  assumes "top_inv b collate T acc" and "set fs \<subseteq> set (vals (flat b))"
  shows "top_inv b collate T (fold (late_row collate (flat b)) fs acc) \<and>
    (\<forall>f \<in> set fs. homed (flat b) (fst (snd (fold (late_row collate (flat b)) fs acc))) f) \<and>
    set (fst (snd acc)) \<subseteq> set (fst (snd (fold (late_row collate (flat b)) fs acc)))"
  using assms
proof (induction fs arbitrary: acc)
  case (Cons f fs)
  let ?acc = "late_row collate (flat b) f acc"
  have "f \<in> set (vals (flat b))" "set fs \<subseteq> set (vals (flat b))" using Cons.prems(2) by simp_all
  note h = late_row_inv [OF Cons.prems(1) this(1)] and t = Cons.IH [OF late_row_inv(1) [OF Cons.prems(1) this(1)] this(2)]
  then show ?case using homed_mono [OF h(2)] unfolding fold_Cons comp_apply by auto
qed simp

lemma homed_placed:
  assumes "parented (flat b)" and "top_inv b collate T (es, placed, m)" and "f \<in> set (vals (flat b))"
    and "homed (flat b) placed f"
  shows "fl_agent f \<in> set placed"
proof (rule ccontr)
  assume no: "fl_agent f \<notin> set placed"
  then have "under_parent (flat b) (fl_info f)" "the (named_parent (fl_info f)) \<in> set placed"
    using assms(4) unfolding homed_def by blast+
  then obtain a g where a: "named_parent (fl_info f) = Some a" "get (flat b) a = Some g" "a \<in> set placed"
    unfolding under_parent_def by (auto split: option.splits)
  note ok = flatten_ok [of b]
  have g: "fl_agent g = a" using ok a(2) unfolding rows_ok_def by blast
  then have gv: "g \<in> set (vals (flat b))" using a(2) row_of_key [OF ok] by blast
  have "fl_agent f \<in> r_agent ` set (r_subagents (fl_row g))"
    using assms(1,3) gv a(1) unfolding g [symmetric] parented_def by blast
  then have "f \<in> set (supervised collate (flat b) g)"
    using assms(3) row_of_key [OF ok] sub_rows_row [OF ok] unfolding supervised_def by auto
  moreover have "supervision.closed_under b collate placed placed"
    using top_invD(1) [OF assms(2)] unfolding supervision.grown_def by blast
  ultimately show False using no a(3) gv unfolding supervision.closed_under_def row_is_row g [symmetric] by blast
qed

subsection \<open>Tombstones\<close>

lemma tombstone_id_simps [simp]:
  "tombstone_id s = tombstone_id t \<longleftrightarrow> s = t" "tombstone_id t \<noteq> agentNodeID a" "agentNodeID a \<noteq> tombstone_id t"
  "tombstone_id t \<noteq> ''tree-root''" "agentNodeID a \<noteq> ''tree-root''" "''tree-root'' \<noteq> agentNodeID a"
  "''tree-root'' \<noteq> tombstone_id t"
  by (simp_all add: tombstone_id_def agentNodeID_def)

lemma add_tombstone_inv:
  assumes "parented (flat b)" and inv: "top_inv b collate T (es, placed, m)"
    and fs: "get (cl_tombstones (classes_of (flat b))) k = Some fs" and k: "k \<notin> T"
  shows "top_inv b collate (insert k T) (add_tombstone collate (flat b) (k, fs) (es, placed, m))"
proof -
  note g = top_invD(1) [OF inv]
  have fresh: "supervision.fresh b placed m" using g unfolding supervision.grown_def by blast
  let ?ordered = "byCreation collate fs" and ?i = "tombstone_id k"
  let ?chosen = "filter (\<lambda>f. fl_agent f \<notin> set placed) ?ordered"
  let ?cs = "map (\<lambda>f. agentNodeID (fl_agent f)) ?chosen"
  have "distinct fs"
    using classes_inv [OF flatten_ok] groups_okD(2) [OF _ fs] unfolding class_inv_def by blast
  then have d: "distinct ?chosen" by simp
  have apart: "\<forall>f \<in> set ?chosen. supervision.is_row b f \<and> fl_agent f \<notin> set placed \<and> \<not> supervision.under b collate f"
    using tombstone_apart [OF assms(1) fs] by auto
  obtain p1 m1 where r: "fold (add_agent collate (flat b)) ?chosen (placed, m) = (p1, m1)" by fastforce
  have "card (set (keys (flat b))) \<le> length (flat b)" using fuel_enough [of "flat b" "{}"] by simp
  from supervision.place_rows [OF fresh apart d this]
  have pa: "supervision.placed_all b collate ?chosen ?cs placed m p1 m1"
    using r unfolding add_agent_def [abs_def] by simp
  then obtain new where new: "supervision.spread b collate placed m new p1 m1" unfolding supervision.placed_all_def by blast
  have other: "get m1 x = get m x" if "\<And>a. x \<noteq> agentNodeID a" for x
    using supervision.spreadD(3) [OF new] ids_are_agents that by blast
  have out: "add_tombstone collate (flat b) (k, fs) (es, placed, m) =
      (es @ [(?i, (fst (created_key (hd ?ordered)), k))], p1,
       put ?i ((plain_node ?i TombstoneNode k ?cs) \<lparr>sn_secondary := Some ''ended'', sn_summary := Some (summary_of m1 ?cs)\<rparr>) m1)"
    unfolding add_tombstone_def prod.case Let_def r ..
  have "get m ?i = get [(''tree-root'', root_node [])] ?i" by (rule top_invD(2) [OF inv]) (use k in auto)
  then have none: "get m1 ?i = None" using other [of ?i] by simp
  have "?i \<notin> set (map fst es)"
  proof
    assume "?i \<in> set (map fst es)"
    from top_invD(3) [OF inv this] k show False by auto
  qed
  from supervision.grown_header [OF g pa none this]
  have "supervision.grown b collate (map fst es @ [?i]) p1
      (put ?i ((plain_node ?i TombstoneNode k ?cs) \<lparr>sn_secondary := Some ''ended'', sn_summary := Some (summary_of m1 ?cs)\<rparr>) m1)"
    by (simp add: plain_node_def)
  moreover have "get (put ?i n m1) x = get [(''tree-root'', root_node [])] x"
    if "\<forall>a. x \<noteq> agentNodeID a" "x \<notin> tombstone_id ` insert k T" for x n
  proof -
    have "get (put ?i n m1) x = get m x" using that other by (auto simp: get_put)
    then show ?thesis using top_invD(2) [OF inv] that by auto
  qed
  ultimately show ?thesis using top_invD(3) [OF inv] unfolding out top_inv_def prod.case by auto
qed

lemma tombstones_inv:
  assumes "parented (flat b)" and "top_inv b collate T acc" and "distinct (keys ts)"
    and "set ts \<subseteq> set (cl_tombstones (classes_of (flat b)))" and "set (keys ts) \<inter> T = {}"
  shows "top_inv b collate (set (keys ts) \<union> T) (fold (add_tombstone collate (flat b)) ts acc)"
  using assms(2-5)
proof (induction ts arbitrary: acc T)
  case (Cons t ts)
  obtain es placed m where acc: "acc = (es, placed, m)" by (cases acc rule: prod_cases3)
  obtain k fs where t: "t = (k, fs)" by fastforce
  have "wf_map (cl_tombstones (classes_of (flat b)))"
    using classes_inv [OF flatten_ok] unfolding class_inv_def groups_ok_def by blast
  then have "get (cl_tombstones (classes_of (flat b))) k = Some fs" using Cons.prems(3) unfolding t by simp
  moreover have "k \<notin> T" using Cons.prems(4) unfolding t by auto
  ultimately have "top_inv b collate (insert k T) (add_tombstone collate (flat b) t acc)"
    unfolding t acc by (rule add_tombstone_inv [OF assms(1) Cons.prems(1) [unfolded acc]])
  from Cons.IH [OF this] Cons.prems(2-4) show ?case unfolding t by auto
qed simp

lemma start_inv: "top_inv b collate {} ([], [], [(''tree-root'', root_node [])])"
proof -
  have "supervision.grown b collate [] [] [(''tree-root'', root_node [])]"
    unfolding supervision.grown_def supervision.fresh_def supervision.closed_under_def
    by (simp add: listed_def root_node_def plain_node_def)
  then show ?thesis by (simp add: top_inv_def)
qed

lemma top_rows_inv:
  "top_inv b collate T acc \<Longrightarrow> set fs \<subseteq> set (vals (flat b)) \<Longrightarrow> top_inv b collate T (fold (top_row collate (flat b)) fs acc)"
  by (induction fs arbitrary: acc) (simp_all add: top_row_inv)

lemma supervision_rows_inv:
  assumes "parented (flat b)" and "supervision_rows collate (flat b) = (es, placed, m)"
  shows "\<exists>T. top_inv b collate T (es, placed, m)" and "set placed = set (keys (flat b))"
proof -
  let ?c = "classes_of (flat b)"
  let ?acc1 = "fold (top_row collate (flat b)) (byCreation collate (cl_top ?c)) ([], [], [(''tree-root'', root_node [])])"
  let ?acc2 = "fold (add_tombstone collate (flat b)) (cl_tombstones ?c) ?acc1"
  have c: "set (cl_top ?c) \<subseteq> set (vals (flat b))" "wf_map (cl_tombstones ?c)"
    using classes_inv [OF flatten_ok] unfolding class_inv_def groups_ok_def by blast+
  have "top_inv b collate {} ?acc1" by (rule top_rows_inv [OF start_inv]) (use c(1) in simp)
  from tombstones_inv [OF assms(1) this c(2)] have inv2: "top_inv b collate (set (keys (cl_tombstones ?c))) ?acc2" by simp
  have out: "fold (late_row collate (flat b)) (byCreation collate (vals (flat b))) ?acc2 = (es, placed, m)"
    using assms(2) unfolding supervision_rows_def Let_def .
  have all: "set (byCreation collate (vals (flat b))) \<subseteq> set (vals (flat b))" by simp
  note late = late_rows_inv [OF inv2 all, unfolded out fst_conv snd_conv]
  then have inv: "top_inv b collate (set (keys (cl_tombstones ?c))) (es, placed, m)" by blast
  then show "\<exists>T. top_inv b collate T (es, placed, m)" by blast
  have "set placed \<subseteq> set (keys (flat b))"
    using top_invD(1) [OF inv] unfolding supervision.grown_def supervision.fresh_def by blast
  moreover have "a \<in> set placed" if a: "a \<in> set (keys (flat b))" for a
  proof -
    obtain f where f: "get (flat b) a = Some f" using a get_None_keys by (metis not_None_eq)
    have "fl_agent f = a" using flatten_ok [of b] f unfolding rows_ok_def by blast
    moreover from this f have "f \<in> set (vals (flat b))" using row_of_key [OF flatten_ok] by blast
    moreover from this have "homed (flat b) placed f" using late [THEN conjunct2, THEN conjunct1] unfolding set_byCreation by blast
    ultimately show ?thesis using homed_placed [OF assms(1) inv] by blast
  qed
  ultimately show "set placed = set (keys (flat b))" by blast
qed

subsection \<open>Terminals and the root\<close>

definition old_children :: "nodes \<Rightarrow> string \<Rightarrow> string list" where
  "old_children m k = (case get m k of Some n \<Rightarrow> sn_children n | None \<Rightarrow> [])"

lemma listed_put: "listed (put k n m) i + count_list (old_children m k) i = listed m i + count_list (sn_children n) i"
  by (induction m) (auto simp: listed_def old_children_def)

text \<open>The ids of terminals are none of an agent, a tombstone or the root, and list no agent.\<close>

definition terminal_key :: "string \<Rightarrow> bool" where
  "terminal_key k \<longleftrightarrow> starts_with ''pane:'' k \<or> starts_with ''terminals'' k"

definition beside :: "nodes \<Rightarrow> nodes \<Rightarrow> bool" where
  "beside m0 m \<longleftrightarrow>
     (\<forall>k. \<not> terminal_key k \<longrightarrow> get m k = get m0 k) \<and> (\<forall>a. listed m (agentNodeID a) = listed m0 (agentNodeID a)) \<and>
     (\<forall>k a. terminal_key k \<longrightarrow> agentNodeID a \<notin> set (old_children m k))"

lemma besideD:
  assumes "beside m0 m"
  shows "\<not> terminal_key k \<Longrightarrow> get m k = get m0 k" and "listed m (agentNodeID a) = listed m0 (agentNodeID a)"
    and "terminal_key k \<Longrightarrow> agentNodeID a \<notin> set (old_children m k)"
  using assms unfolding beside_def by blast+

lemma beside_put:
  assumes "beside m0 m" and "terminal_key k" and "\<forall>i \<in> set (sn_children n). terminal_key i"
  shows "beside m0 (put k n m)"
proof -
  have ag: "\<not> terminal_key (agentNodeID a)" for a by (simp add: terminal_key_def agentNodeID_def starts_with.simps)
  then have new: "agentNodeID a \<notin> set (sn_children n)" for a using assms(3) by blast
  have "listed (put k n m) (agentNodeID a) = listed m0 (agentNodeID a)" for a
  proof -
    have "agentNodeID a \<notin> set (old_children m k)" using assms(1,2) unfolding beside_def by blast
    with new listed_put [of k n m "agentNodeID a"] have "listed (put k n m) (agentNodeID a) = listed m (agentNodeID a)"
      by (simp add: count_list_0_iff)
    then show ?thesis using assms(1) unfolding beside_def by simp
  qed
  moreover have "agentNodeID a \<notin> set (old_children (put k n m) k')" if "terminal_key k'" for a k'
  proof (cases "k' = k")
    case False
    then have "old_children (put k n m) k' = old_children m k'" by (simp add: old_children_def get_put)
    then show ?thesis using assms(1) that unfolding beside_def by simp
  qed (use new in \<open>simp add: old_children_def get_put\<close>)
  moreover have "get (put k n m) k' = get m0 k'" if "\<not> terminal_key k'" for k'
    using assms(1,2) that unfolding beside_def by (auto simp: get_put)
  ultimately show ?thesis unfolding beside_def by blast
qed

lemma pane_id_terminal: "terminal_key (pane_id r)"
  by (simp add: terminal_key_def pane_id_def starts_with.simps)

lemma add_terminals_beside:
  assumes "beside m0 m"
  shows "beside m0 (add_terminals t m)"
proof -
  obtain wid w panes where t: "t = (wid, w, panes)" by (cases t rule: prod_cases3)
  have "beside m0 (fold (\<lambda>pt m. put (pane_id (fst pt)) (terminal_pane_node pt) m) panes m)"
  proof (rule fold_keeps [where P = "beside m0"])
    show "beside m0 m" by (rule assms)
    show "beside m0 (put (pane_id (fst pt)) (terminal_pane_node pt) m)" if "beside m0 m" for pt m
      by (rule beside_put [OF that pane_id_terminal]) (simp add: terminal_pane_node_def plain_node_def split: prod.split)
  qed
  then show ?thesis unfolding t add_terminals_def prod.case Let_def
    by (rule beside_put) (auto simp: terminal_key_def plain_node_def pane_id_def starts_with.simps)
qed

lemma count_insert_by: "count_list (map f (insert_by le x xs)) i = count_list (map f (x # xs)) i"
  by (induction xs) auto

lemma count_sort_by: "count_list (map f (sort_by le xs)) i = count_list (map f xs) i"
  by (induction xs) (simp_all add: count_insert_by)

lemma sum_insert_by: "sum_list (map (f :: 'a \<Rightarrow> nat) (insert_by le x xs)) = sum_list (map f (x # xs))"
  by (induction xs) auto

lemma sum_sort_by: "sum_list (map (f :: 'a \<Rightarrow> nat) (sort_by le xs)) = sum_list (map f xs)"
  by (induction xs) (simp_all add: sum_insert_by)

lemma beside_start:
  assumes "top_inv b collate T (es, placed, m)"
  shows "beside m m"
proof -
  have "old_children m k = []" if "terminal_key k" for k
  proof -
    have "k \<noteq> agentNodeID a" "k \<notin> tombstone_id ` T" "k \<noteq> ''tree-root''" for a
      using that by (auto simp: terminal_key_def agentNodeID_def tombstone_id_def starts_with.simps)
    from top_invD(2) [OF assms this(1,2)] this(3) show ?thesis by (simp add: old_children_def)
  qed
  then show ?thesis unfolding beside_def by simp
qed

lemma supervision_parts:
  assumes "parented (flat b)"
  obtains T es placed m m1 where
    "top_inv b collate T (es, placed, m)" "set placed = set (keys (flat b))" "beside m m1"
    "get m1 ''terminals'' = Some (terminals_node (snd (flattenBoard b)))"
    "buildSupervisionNodes collate (Some b) = put ''tree-root''
       (root_node (map fst (sort_by (\<lambda>l r. creationOrder collate (snd l) (snd r) \<le> 0) es) @ [''terminals''])) m1"
proof -
  obtain rows ts where f: "flattenBoard b = (rows, ts)" by fastforce
  obtain es placed m where r: "supervision_rows collate (flat b) = (es, placed, m)" by (metis prod_cases3)
  obtain T where inv: "top_inv b collate T (es, placed, m)" using supervision_rows_inv(1) [OF assms r] by blast
  have "beside m (fold add_terminals ts m)"
    by (rule fold_keeps [where P = "beside m"], erule add_terminals_beside) (rule beside_start [OF inv])
  then have "beside m (put ''terminals'' (terminals_node ts) (fold add_terminals ts m))"
    by (rule beside_put) (auto simp: terminal_key_def terminals_node_def plain_node_def starts_with.simps)
  moreover have "get (put ''terminals'' (terminals_node ts) (fold add_terminals ts m)) ''terminals'' = Some (terminals_node (snd (flattenBoard b)))"
    unfolding f snd_conv get_put by (rule if_P) (rule refl)
  moreover have "buildSupervisionNodes collate (Some b) = put ''tree-root''
       (root_node (map fst (sort_by (\<lambda>l r. creationOrder collate (snd l) (snd r) \<le> 0) es) @ [''terminals'']))
       (put ''terminals'' (terminals_node ts) (fold add_terminals ts m))"
    using r unfolding buildSupervisionNodes_def option.case f prod.case fst_conv Let_def by (simp only: prod.case)
  ultimately show thesis by (rule that [OF inv supervision_rows_inv(2) [OF assms r]])
qed

lemma grown_counts:
  assumes "top_inv b collate T (es, placed, m)" and "set placed = set (keys (flat b))" and "get (flat b) a = Some f"
  shows "listed m (agentNodeID a) + count_list (map fst es) (agentNodeID a) = 1"
    and "\<exists>n. get m (agentNodeID a) = Some n \<and> sn_pane n = Some (fl_row f)"
proof -
  have fa: "fl_agent f = a" using flatten_ok [of b] assms(3) unfolding rows_ok_def by blast
  then have row: "supervision.is_row b f" using assms(3) unfolding supervision.is_row_def by simp
  have "a \<in> set (keys (flat b))" using assms(3) by (metis get_None_keys option.distinct(1))
  then have "fl_agent f \<in> set placed" unfolding assms(2) fa .
  with row top_invD(1) [OF assms(1)]
  show "listed m (agentNodeID a) + count_list (map fst es) (agentNodeID a) = 1"
    "\<exists>n. get m (agentNodeID a) = Some n \<and> sn_pane n = Some (fl_row f)"
    unfolding supervision.grown_def supervision.shown_def fa [symmetric] by simp_all
qed

lemma entries_weight:
  assumes "top_inv b collate T (es, placed, m)" and "set placed = set (keys (flat b))"
  shows "sum_list (map (weight m) (map fst es)) = length (flat b)"
proof -
  have g: "supervision.grown b collate (map fst es) placed m" by (rule top_invD(1) [OF assms(1)])
  then have "distinct placed" unfolding supervision.grown_def supervision.fresh_def by blast
  moreover have "distinct (keys (flat b))" using flatten_ok [of b] unfolding rows_ok_def by blast
  ultimately have "length placed = length (keys (flat b))" using assms(2) by (metis distinct_card)
  then show ?thesis using supervision.grown_total [OF g] by simp
qed

text \<open>
  C23. Supervision shows every agent once. Whatever the board says of managers, live or ended, known or not, in
  cycles or naming themselves, every row of the board has a node that shows it, that node is listed under exactly
  one other node, and the counts of the entries under the root add up to the number of rows, so that nobody is
  hidden and nobody is counted twice. Nested rows are those that name the row they are nested in.
\<close>

theorem everyone_shown_once:
  assumes "parented (fst (flattenBoard b))" and "buildSupervisionNodes collate (Some b) = nodes"
  shows "(\<forall>a f. get (fst (flattenBoard b)) a = Some f \<longrightarrow>
            (\<exists>n. get nodes (agentNodeID a) = Some n \<and> sn_pane n = Some (fl_row f)) \<and> listed nodes (agentNodeID a) = 1) \<and>
         (\<exists>r. get nodes ''tree-root'' = Some r \<and> sum_list (map (weight nodes) (sn_children r)) = length (fst (flattenBoard b)))"
proof -
  obtain T es placed m m1 where p: "top_inv b collate T (es, placed, m)" "set placed = set (keys (flat b))" "beside m m1"
    "get m1 ''terminals'' = Some (terminals_node (snd (flattenBoard b)))"
    "nodes = put ''tree-root''
       (root_node (map fst (sort_by (\<lambda>l r. creationOrder collate (snd l) (snd r) \<le> 0) es) @ [''terminals''])) m1"
    by (rule supervision_parts [OF assms(1), where collate = collate, unfolded assms(2)])
  let ?tops = "map fst (sort_by (\<lambda>l r. creationOrder collate (snd l) (snd r) \<le> 0) es)"
  let ?r = "root_node (?tops @ [''terminals''])"
  have same: "get nodes k = get m k" if "\<not> terminal_key k" "k \<noteq> ''tree-root''" for k
    unfolding p(5) get_put if_not_P [OF that(2)] by (rule besideD(1) [OF p(3) that(1)])
  have agent: "\<not> terminal_key (agentNodeID a)" for a by (simp add: terminal_key_def agentNodeID_def starts_with.simps)
  have agent_root: "agentNodeID a \<noteq> ''tree-root''" for a by simp
  have tomb: "\<not> terminal_key (tombstone_id t)" for t by (simp add: terminal_key_def tombstone_id_def starts_with.simps)
  have rt: "\<not> terminal_key ''tree-root''" by (simp add: terminal_key_def starts_with.simps)
  have "get m ''tree-root'' = Some (root_node [])" using top_invD(2) [OF p(1), of "''tree-root''"] by (auto simp: tombstone_id_def)
  then have "get m1 ''tree-root'' = Some (root_node [])" unfolding besideD(1) [OF p(3) rt] .
  then have "old_children m1 ''tree-root'' = []" by (simp add: old_children_def root_node_def plain_node_def)
  then have lists: "listed nodes (agentNodeID a) = listed m (agentNodeID a) + count_list (map fst es) (agentNodeID a)" for a
  proof -
    have "listed nodes (agentNodeID a) = listed m1 (agentNodeID a) + count_list (sn_children ?r) (agentNodeID a)"
      using listed_put [of "''tree-root''" ?r m1 "agentNodeID a"] \<open>old_children m1 ''tree-root'' = []\<close> unfolding p(5) by simp
    moreover have "count_list (sn_children ?r) (agentNodeID a) = count_list (map fst es) (agentNodeID a)"
      by (simp add: root_node_def plain_node_def count_sort_by agentNodeID_def)
    ultimately show ?thesis unfolding besideD(2) [OF p(3)] by simp
  qed
  have each: "(\<exists>n. get nodes (agentNodeID a) = Some n \<and> sn_pane n = Some (fl_row f)) \<and> listed nodes (agentNodeID a) = 1"
    if "get (fst (flattenBoard b)) a = Some f" for a f
    using grown_counts [OF p(1,2) that] unfolding lists same [OF agent agent_root] by blast
  have "weight nodes i = weight m i" if "i \<in> set (map fst es)" for i
    using top_invD(3) [OF p(1) that]
    by (intro weight_cong(1) same) (auto simp: agent tomb)
  then have "map (weight nodes) (map fst es) = map (weight m) (map fst es)" by (rule map_cong [OF refl])
  then have "sum_list (map (weight nodes \<circ> fst) es) = length (fst (flattenBoard b))"
    using entries_weight [OF p(1,2)] unfolding map_map by (simp only:)
  moreover have "weight nodes ''terminals'' = 0"
    using p(4) unfolding p(5) by (simp add: weight_def get_put terminals_node_def plain_node_def)
  moreover have "get nodes ''tree-root'' = Some ?r" unfolding p(5) by (simp add: get_put)
  ultimately have "get nodes ''tree-root'' = Some ?r \<and> sum_list (map (weight nodes) (sn_children ?r)) = length (fst (flattenBoard b))"
    by (simp add: root_node_def plain_node_def sum_sort_by)
  then have "\<exists>r. get nodes ''tree-root'' = Some r \<and> sum_list (map (weight nodes) (sn_children r)) = length (fst (flattenBoard b))" by (rule exI)
  with each show ?thesis by simp
qed

text \<open>
  A board where two agents manage each other, one names a manager that has ended, and one has a nested row.
\<close>

definition sample_info :: "string \<Rightarrow> string option \<Rightarrow> string option \<Rightarrow> manager_state option \<Rightarrow> row_info" where
  "sample_info a parent manager state =
     \<lparr>ri_pane = a, ri_agent = a, ri_tool = ''claude'', ri_herdr = ''idle'', ri_bus = ''active'', ri_context = None,
      ri_turn_end = None, ri_reply_end = None, ri_parent = parent, ri_manager = manager, ri_manager_state = state,
      ri_title = None, ri_created = None, ri_label = None, ri_command = None\<rparr>"

definition sample_board :: board where
  "sample_board =
     \<lparr>bd_workspaces = [\<lparr>ws_id = ''w'', ws_worktree_of = None, ws_label = ''repo'', ws_pane_count = 2,
        ws_tabs = [\<lparr>tb_id = ''t'', tb_number = 1, tb_label = [],
          tb_panes = [Row (sample_info ''a'' None (Some ''b'') (Some Live_manager)) [],
                      Row (sample_info ''b'' None (Some ''a'') (Some Live_manager))
                        [Row (sample_info ''c'' (Some ''b'') None None) []]]\<rparr>]\<rparr>],
      bd_unplaced = [Row (sample_info ''d'' None (Some ''gone'') (Some Ended_manager)) []], bd_lanes = []\<rparr>"

definition sample_collate :: collation where
  "sample_collate l r = (if l = r then 0 else if l < r then - 1 else 1)"

theorem everyone_shown_once_witness:
  "length (fst (flattenBoard sample_board)) = 4 \<and>
   (\<exists>nodes. buildSupervisionNodes sample_collate (Some sample_board) = nodes \<and>
      listed nodes (agentNodeID ''a'') = 1 \<and> listed nodes (agentNodeID ''d'') = 1 \<and>
      (\<exists>r. get nodes ''tree-root'' = Some r \<and> sum_list (map (weight nodes) (sn_children r)) = 4))"
proof -
  let ?nodes = "buildSupervisionNodes sample_collate (Some sample_board)"
  have rows: "length (fst (flattenBoard sample_board)) = 4" by code_simp
  have "parented (fst (flattenBoard sample_board))" unfolding parented_def by code_simp
  note all = everyone_shown_once [OF this refl, of sample_collate]
  have "get (fst (flattenBoard sample_board)) ''a'' \<noteq> None" "get (fst (flattenBoard sample_board)) ''d'' \<noteq> None"
    by code_simp+
  then have "listed ?nodes (agentNodeID ''a'') = 1" "listed ?nodes (agentNodeID ''d'') = 1"
    using all [THEN conjunct1] by blast+
  then show ?thesis using rows all [THEN conjunct2] by auto
qed

end
