(* ===== verification/SidebarLanesClaims.thy ===== *)
theory SidebarLanesClaims
  imports SidebarLanes SidebarClaims
begin

section \<open>Every agent under its lane\<close>

subsection \<open>A lane's members as a forest\<close>

definition groups_in :: "flat_row set \<Rightarrow> (string, flat_row list) jsmap \<Rightarrow> bool" where
  "groups_in S m \<longleftrightarrow> (\<forall>k. set (or_else (get m k) []) \<subseteq> S)"

lemma groups_in_push: "groups_in S m \<Longrightarrow> f \<in> S \<Longrightarrow> groups_in S (push_row k f m)"
  by (simp add: groups_in_def push_row_get)

lemma groups_in_report: "groups_in S m \<Longrightarrow> f \<in> S \<Longrightarrow> groups_in S (add_report rows f m)"
  by (simp add: add_report_def Let_def groups_in_push)

lemma lane_reports_rows: "groups_in (set (vals rows)) (lane_reports rows)"
proof -
  have "groups_in S m \<Longrightarrow> set fs \<subseteq> S \<Longrightarrow> groups_in S (fold (add_report rows) fs m)" for S fs m
    by (induction fs arbitrary: m) (simp_all add: groups_in_report)
  moreover have "groups_in (set (vals rows)) []" by (simp add: groups_in_def)
  ultimately show ?thesis unfolding lane_reports_def using subset_refl by blast
qed

lemma childrenOf_rows:
  assumes "rows_ok rows" and "g \<in> set (childrenOf collate rows a)"
  shows "get rows (fl_agent g) = Some g"
proof (cases "g \<in> set (or_else (get (lane_reports rows) a) [])")
  case True
  then have "g \<in> set (vals rows)" using lane_reports_rows unfolding groups_in_def by blast
  then show ?thesis using row_of_key [OF assms(1)] by blast
next
  case False
  then obtain f :: flat_row where "g \<in> set (sub_rows rows (fl_row f))"
    using assms(2) unfolding childrenOf_def set_byCreation set_append by (auto split: option.splits)
  then show ?thesis using sub_rows_row [OF assms(1)] by blast
qed

lemma lane_node_simps:
  "sn_children (lane_node h f cs m) = cs"
  "sn_pane (lane_node h f cs m) = Some (fl_row f)"
  "sn_summary (lane_node h f cs m) = Some (summary_of m cs)"
  by (simp_all add: lane_node_def agent_node_def plain_node_def)

lemma member_id_inj: "member_id h f = member_id h g \<longleftrightarrow> agentNodeID (fl_agent f) = agentNodeID (fl_agent g)"
  unfolding member_id_def by blast

lemma member_children_rows:
  "rows_ok rows \<Longrightarrow> g \<in> set (member_children collate rows h f) \<Longrightarrow> get rows (fl_agent g) = Some g"
  unfolding member_children_def by (auto intro: childrenOf_rows)

interpretation lanes: forest "flat b" "member_children collate (flat b) h" "member_id h" "lane_node h"
  for b collate h
  by (rule forest.intro, erule rows_ok_forest(1) [OF flatten_ok], erule member_children_rows [OF flatten_ok],
      erule (1) rows_ok_forest(2) [OF flatten_ok], unfold member_id_inj, assumption) (rule lane_node_simps)+

subsection \<open>One header\<close>

lemma under_member: "lanes.under b collate h g \<Longrightarrow> lh_member h (fl_agent g)"
  unfolding lanes.under_def member_children_def by auto

lemma lane_roots_members: "set (lane_roots collate rows h) \<subseteq> set (lane_members rows h)"
  by (auto simp: lane_roots_def lane_members_def)

lemma add_member_one:
  "add_member collate (flat b) h = lanes.place_one collate b h (length (flat b))"
  by (simp add: fun_eq_iff add_member_def lanes.place_one_def split: prod.split)

lemma lane_row_is_row: "lanes.is_row b f \<longleftrightarrow> f \<in> set (vals (flat b))"
  unfolding lanes.is_row_def row_of_key [OF flatten_ok] ..

text \<open>The nodes of a header that is still to be drawn.\<close>

definition undrawn :: "board \<Rightarrow> lane_header \<Rightarrow> nodes \<Rightarrow> bool" where
  "undrawn b h m \<longleftrightarrow> (\<forall>f \<in> set (vals (flat b)). get m (member_id h f) = None \<and> listed m (member_id h f) = 0)"

lemma undrawnD: "undrawn b h m \<Longrightarrow> f \<in> set (vals (flat b)) \<Longrightarrow> get m (member_id h f) = None \<and> listed m (member_id h f) = 0"
  unfolding undrawn_def by blast

lemma place_members_all:
  assumes "undrawn b h m" and "place_members collate (flat b) h m = (cs, placed, m1)"
  shows "lanes.placed_all b collate h
      (lane_roots collate (flat b) h @ filter (\<lambda>f. lh_member h (fl_agent f)) (byCreation collate (vals (flat b)))) cs [] m placed m1"
proof -
  let ?hs = "lane_roots collate (flat b) h @ filter (\<lambda>f. lh_member h (fl_agent f)) (byCreation collate (vals (flat b)))"
  have fresh: "lanes.fresh b h [] m" using assms(1) unfolding lanes.fresh_def undrawn_def lane_row_is_row by auto
  have "set (lane_roots collate (flat b) h) \<subseteq> set (vals (flat b))"
    using lane_roots_members [of collate "flat b" h] unfolding lane_members_def by auto
  then have rows: "\<forall>g \<in> set ?hs. lanes.is_row b g" unfolding lane_row_is_row by auto
  have card: "card (set (keys (flat b))) \<le> length (flat b)" using fuel_enough [of "flat b" "{}"] by simp
  have "fold (add_member collate (flat b) h) ?hs ([], [], m) = (cs, placed, m1)"
    using assms(2) unfolding place_members_def fold_append comp_apply .
  with lanes.place_list [OF fresh rows card, of collate] show ?thesis unfolding add_member_one by simp
qed

lemma place_members_spec:
  assumes "undrawn b h m" and "place_members collate (flat b) h m = (cs, placed, m1)"
  shows "lanes.spread b collate h [] m placed placed m1"
    and "set placed = fl_agent ` set (lane_members (flat b) h)" and "length placed = length (lane_members (flat b) h)"
    and "sm_total (summary_of m1 cs) = length placed"
    and "f \<in> set (vals (flat b)) \<Longrightarrow>
      listed m1 (member_id h f) + count_list cs (member_id h f) = of_bool (fl_agent f \<in> set placed)"
    and "set cs \<subseteq> lanes.ids_of b h placed"
proof -
  obtain new where n: "lanes.spread b collate h [] m new placed m1"
    "fl_agent ` set (lane_roots collate (flat b) h @ filter (\<lambda>f. lh_member h (fl_agent f)) (byCreation collate (vals (flat b)))) \<subseteq> set placed"
    "set cs \<subseteq> lanes.ids_of b h new"
    "\<And>g. lanes.is_row b g \<Longrightarrow> listed m1 (member_id h g) + count_list cs (member_id h g)
        = listed m (member_id h g) + of_bool (fl_agent g \<in> set new)"
    "\<forall>g. lanes.is_row b g \<and> fl_agent g \<in> set new \<longrightarrow>
        g \<in> set (lane_roots collate (flat b) h @ filter (\<lambda>f. lh_member h (fl_agent f)) (byCreation collate (vals (flat b))))
        \<or> lanes.under b collate h g"
    "\<forall>i \<in> set cs. summarised m1 i" "sum_list (map (weight m1) cs) = length new"
    using place_members_all [OF assms] unfolding lanes.placed_all_def by blast
  have new: "new = placed" using lanes.spreadD(1) [OF n(1)] by simp
  show sp: "lanes.spread b collate h [] m placed placed m1" using n(1) unfolding new .
  show "set cs \<subseteq> lanes.ids_of b h placed" using n(3) unfolding new .
  show "sm_total (summary_of m1 cs) = length placed" using summary_of_sum [OF n(6)] n(7) unfolding new by simp
  show "listed m1 (member_id h f) + count_list cs (member_id h f) = of_bool (fl_agent f \<in> set placed)"
    if f: "f \<in> set (vals (flat b))"
    using n(4) [of f] assms(1) f unfolding undrawn_def new lane_row_is_row by simp
  have fr: "distinct placed" "set placed \<subseteq> set (keys (flat b))"
    using lanes.spreadD(2) [OF sp] unfolding lanes.fresh_def by blast+
  have mem: "g \<in> set (lane_members (flat b) h)" if "g \<in> set (vals (flat b))" "fl_agent g \<in> set placed" for g
  proof -
    have "g \<in> set (lane_members (flat b) h) \<or> lanes.under b collate h g"
      using n(5) that lane_roots_members [of collate "flat b" h] unfolding new lane_row_is_row lane_members_def by auto
    then show ?thesis using under_member that(1) unfolding lane_members_def by auto
  qed
  have "a \<in> fl_agent ` set (lane_members (flat b) h)" if a: "a \<in> set placed" for a
  proof -
    obtain f where f: "get (flat b) a = Some f" using a fr(2) get_None_keys by (metis not_None_eq subsetD)
    have "fl_agent f = a" using flatten_ok [of b] f unfolding rows_ok_def by blast
    moreover from this f have "f \<in> set (vals (flat b))" using row_of_key [OF flatten_ok] by blast
    ultimately show ?thesis using mem a by blast
  qed
  moreover have "fl_agent ` set (lane_members (flat b) h) \<subseteq> set placed" using n(2) unfolding lane_members_def by auto
  ultimately show eq: "set placed = fl_agent ` set (lane_members (flat b) h)" by blast
  have "inj_on fl_agent (set (vals (flat b)))"
    by (rule inj_onI) (metis row_of_key [OF flatten_ok] option.inject)
  then have "inj_on fl_agent (set (lane_members (flat b) h))" by (rule inj_on_subset) (auto simp: lane_members_def)
  moreover have "distinct (lane_members (flat b) h)" using distinct_vals [OF flatten_ok] unfolding lane_members_def by simp
  ultimately have "card (set placed) = length (lane_members (flat b) h)" unfolding eq by (simp add: card_image distinct_card)
  then show "length placed = length (lane_members (flat b) h)" using fr(1) by (simp add: distinct_card)
qed

subsection \<open>Ids below a header\<close>

text \<open>What an id is before its first slash.\<close>

definition head_of :: "string \<Rightarrow> string" where
  "head_of k = takeWhile (\<lambda>c. c \<noteq> CHR ''/'') k"

lemma head_of_slash: "CHR ''/'' \<notin> set i \<Longrightarrow> head_of (i @ CHR ''/'' # r) = i"
  by (simp add: head_of_def takeWhile_append)

lemma head_of_plain: "CHR ''/'' \<notin> set i \<Longrightarrow> head_of i = i"
  unfolding head_of_def by (induction i) auto

definition clean_header :: "lane_header \<Rightarrow> bool" where
  "clean_header h \<longleftrightarrow> CHR ''/'' \<notin> set (lh_id h) \<and>
     (\<forall>i \<in> set (lh_prs h). head_of i = lh_id h \<and> (\<forall>a. i \<noteq> lh_id h @ ''/'' @ agentNodeID a))"

lemma head_of_member: "clean_header h \<Longrightarrow> head_of (member_id h f) = lh_id h"
  unfolding clean_header_def member_id_def by (simp add: head_of_slash)

lemma header_not_member: "clean_header h \<Longrightarrow> member_id h f \<noteq> lh_id h"
  unfolding member_id_def by simp

text \<open>What a header that has been drawn says.\<close>

definition header_done :: "board \<Rightarrow> lane_header \<Rightarrow> lane_view \<Rightarrow> bool" where
  "header_done b h view \<longleftrightarrow>
     (case view of (tops, m) \<Rightarrow>
        (let n = length (lane_members (flat b) h)
         in if n = 0 then get m (lh_id h) = None \<and> lh_id h \<notin> set tops
            else lh_id h \<in> set tops \<and> (\<exists>x. get m (lh_id h) = Some x \<and> sn_count x = Some (int n))) \<and>
        (\<forall>f \<in> set (vals (flat b)).
           if lh_member h (fl_agent f)
           then (\<exists>x. get m (member_id h f) = Some x \<and> sn_pane x = Some (fl_row f)) \<and> listed m (member_id h f) = 1
           else get m (member_id h f) = None))"

text \<open>What does not change outside a header.\<close>

definition outside :: "string \<Rightarrow> nodes \<Rightarrow> nodes \<Rightarrow> bool" where
  "outside i m m' \<longleftrightarrow> (\<forall>k. head_of k \<noteq> i \<longrightarrow> get m' k = get m k \<and> listed m' k = listed m k)"

lemma outside_trans: "outside i m m1 \<Longrightarrow> outside i m1 m2 \<Longrightarrow> outside i m m2"
  unfolding outside_def by simp

lemma place_members_outside:
  assumes "clean_header h" and "lanes.spread b collate h [] m placed placed m1"
  shows "outside (lh_id h) m m1"
proof -
  have "get m1 k = get m k \<and> listed m1 k = listed m k" if "head_of k \<noteq> lh_id h" for k
  proof -
    have k: "k \<noteq> member_id h g" for g using that head_of_member [OF assms(1), of g] by metis
    then have "k \<notin> lanes.ids_of b h placed" unfolding lanes.ids_of_def by blast
    then show ?thesis using lanes.spreadD(3) [OF assms(2)] lanes.spreadD(6) [OF assms(2), of k] k by blast
  qed
  then show ?thesis unfolding outside_def by blast
qed

lemma members_drawn:
  assumes clean: "clean_header h" and un: "undrawn b h m" and none: "get m (lh_id h) = None"
    and pm: "place_members collate (flat b) h m = (cs, placed, m1)"
  shows "outside (lh_id h) m m1" and "cs = [] \<longleftrightarrow> lane_members (flat b) h = []" and "get m1 (lh_id h) = None"
    and "f \<in> set (vals (flat b)) \<Longrightarrow> lh_member h (fl_agent f) \<Longrightarrow>
      (\<exists>x. get m1 (member_id h f) = Some x \<and> sn_pane x = Some (fl_row f)) \<and>
      listed m1 (member_id h f) + count_list cs (member_id h f) = 1"
    and "f \<in> set (vals (flat b)) \<Longrightarrow> \<not> lh_member h (fl_agent f) \<Longrightarrow> get m1 (member_id h f) = None"
    and "i \<in> set cs \<Longrightarrow> head_of i = lh_id h"
proof -
  note sp = place_members_spec [OF un pm]
  show "outside (lh_id h) m m1" by (rule place_members_outside [OF clean sp(1)])
  show "cs = [] \<longleftrightarrow> lane_members (flat b) h = []"
  proof
    show "cs = []" if "lane_members (flat b) h = []" using that sp(2,6) unfolding lanes.ids_of_def by auto
    assume "cs = []"
    then have "sm_total (summary_of m1 cs) = 0" by (simp add: summary_of_def)
    then show "lane_members (flat b) h = []" using sp(3,4) by simp
  qed
  have "lh_id h \<notin> lanes.ids_of b h placed" using header_not_member [OF clean] unfolding lanes.ids_of_def by force
  then show "get m1 (lh_id h) = None" using lanes.spreadD(3) [OF sp(1)] none by simp
  have mem: "fl_agent f \<in> set placed \<longleftrightarrow> lh_member h (fl_agent f)" if "f \<in> set (vals (flat b))" for f
    using that unfolding sp(2) lane_members_def by auto
  show "(\<exists>x. get m1 (member_id h f) = Some x \<and> sn_pane x = Some (fl_row f)) \<and>
      listed m1 (member_id h f) + count_list cs (member_id h f) = 1"
    if f: "f \<in> set (vals (flat b))" "lh_member h (fl_agent f)"
  proof -
    have "lanes.shown h m1 f" using lanes.spreadD(4) [OF sp(1), of f] mem f unfolding lane_row_is_row by blast
    then show ?thesis using sp(5) [OF f(1)] mem [OF f(1)] f(2) unfolding lanes.shown_def by simp
  qed
  show "get m1 (member_id h f) = None" if f: "f \<in> set (vals (flat b))" "\<not> lh_member h (fl_agent f)"
  proof -
    have "member_id h f \<notin> lanes.ids_of b h placed" using lanes.id_in_ids [of b f h placed] f mem unfolding lane_row_is_row by blast
    then show ?thesis using lanes.spreadD(3) [OF sp(1)] undrawnD [OF un f(1)] by simp
  qed
  show "i \<in> set cs \<Longrightarrow> head_of i = lh_id h"
    using sp(6) head_of_member [OF clean] unfolding lanes.ids_of_def by auto
qed

lemma drawn_header:
  assumes clean: "clean_header h" and none: "get m1 (lh_id h) = None" and cs: "\<And>i. i \<in> set cs \<Longrightarrow> head_of i = lh_id h"
    and n: "sn_children n = lh_prs h @ cs"
  shows "outside (lh_id h) m1 (put (lh_id h) n m1)"
    and "listed (put (lh_id h) n m1) (member_id h f) = listed m1 (member_id h f) + count_list cs (member_id h f)"
proof -
  have hd: "head_of (lh_id h) = lh_id h" using clean unfolding clean_header_def by (intro head_of_plain) blast
  have prs: "head_of i = lh_id h" "i \<noteq> member_id h f" if "i \<in> set (lh_prs h)" for i f
    using clean that unfolding clean_header_def member_id_def by blast+
  have "get (put (lh_id h) n m1) k = get m1 k \<and> listed (put (lh_id h) n m1) k = listed m1 k" if k: "head_of k \<noteq> lh_id h" for k
  proof -
    have "k \<noteq> lh_id h" "k \<notin> set (lh_prs h @ cs)" using k hd prs(1) cs by auto
    then show ?thesis using listed_put_fresh [OF none, of n k] unfolding n by (simp add: get_put count_list_0_iff)
  qed
  then show "outside (lh_id h) m1 (put (lh_id h) n m1)" unfolding outside_def by blast
  have "count_list (lh_prs h) (member_id h f) = 0" using prs(2) by (auto simp: count_list_0_iff)
  then show "listed (put (lh_id h) n m1) (member_id h f) = listed m1 (member_id h f) + count_list cs (member_id h f)"
    using listed_put_fresh [OF none, of n "member_id h f"] unfolding n by simp
qed

lemma addHeader_done:
  assumes clean: "clean_header h" and un: "undrawn b h m" and none: "get m (lh_id h) = None" and top: "lh_id h \<notin> set tops"
    and out: "addHeader collate (flat b) h (tops, m) = (tops', m')"
  shows "header_done b h (tops', m') \<and> outside (lh_id h) m m' \<and> set tops' \<subseteq> insert (lh_id h) (set tops) \<and> set tops \<subseteq> set tops'"
proof -
  obtain cs placed m1 where pm: "place_members collate (flat b) h m = (cs, placed, m1)" by (metis prod_cases3)
  note d = members_drawn [OF clean un none pm] and sp = place_members_spec [OF un pm]
  show ?thesis
  proof (cases "lane_members (flat b) h = []")
    case True
    then have r: "tops' = tops" "m' = m1" using out d(2) unfolding addHeader_def by (simp_all add: pm)
    have "\<not> lh_member h (fl_agent f)" if "f \<in> set (vals (flat b))" for f
      using that True unfolding lane_members_def filter_empty_conv by blast
    then have "header_done b h (tops', m')" using d(3,5) top True unfolding header_done_def r prod.case by simp
    then show ?thesis using d(1) unfolding r by blast
  next
    case False
    let ?N = "(plain_node (lh_id h) (lh_kind h) (lh_name h) (lh_prs h @ cs))
       \<lparr>sn_lane := lh_lane h, sn_summary := Some (summary_of m1 cs), sn_count := Some (int (sm_total (summary_of m1 cs))),
        sn_secondary := (case lh_lead h of Some l \<Rightarrow> if l = [] then None else Some (''lead '' @ l) | None \<Rightarrow> None)\<rparr>"
    have r: "tops' = tops @ [lh_id h]" "m' = put (lh_id h) ?N m1"
      using out d(2) False unfolding addHeader_def by (simp_all add: pm Let_def)
    have N: "sn_children ?N = lh_prs h @ cs" "sn_count ?N = Some (int (length (lane_members (flat b) h)))"
      using sp(3,4) by (simp_all add: plain_node_def)
    note dh = drawn_header [OF clean d(3) d(6) N(1)]
    have same: "get m' (member_id h f) = get m1 (member_id h f)" for f
      using header_not_member [OF clean] unfolding r get_put by simp
    have lst: "listed m' (member_id h f) = listed m1 (member_id h f) + count_list cs (member_id h f)" for f
      unfolding r(2) by (rule dh(2))
    have "if lh_member h (fl_agent f)
           then (\<exists>x. get m' (member_id h f) = Some x \<and> sn_pane x = Some (fl_row f)) \<and> listed m' (member_id h f) = 1
           else get m' (member_id h f) = None" if f: "f \<in> set (vals (flat b))" for f
      using d(4,5) [OF f] unfolding same lst by simp
    moreover have "\<exists>x. get m' (lh_id h) = Some x \<and> sn_count x = Some (int (length (lane_members (flat b) h)))"
      unfolding r(2) get_put using N(2) by simp
    ultimately have "header_done b h (tops', m')" using False unfolding header_done_def prod.case r(1) by (simp add: Let_def)
    then show ?thesis using outside_trans [OF d(1) dh(1)] unfolding r by auto
  qed
qed

subsection \<open>All headers\<close>

text \<open>The lane of an agent, \<open>[]\<close> for none, and the lanes whose headers are drawn so far.\<close>

definition lane_id_of :: "board \<Rightarrow> string \<Rightarrow> string" where
  "lane_id_of b a = or_else (get (laneOf b) a) []"

definition header_for :: "board \<Rightarrow> string \<Rightarrow> lane_header \<Rightarrow> bool" where
  "header_for b i h \<longleftrightarrow> clean_header h \<and> lh_id h = laneHeaderID i \<and> (\<forall>a. lh_member h a \<longleftrightarrow> lane_id_of b a = i)"

text \<open>The same, without the header: what the lane \<open>i\<close> looks like in a view.\<close>

definition lane_done :: "board \<Rightarrow> string \<Rightarrow> lane_view \<Rightarrow> bool" where
  "lane_done b i view \<longleftrightarrow>
     (case view of (tops, m) \<Rightarrow>
        (let n = length (filter (\<lambda>f. lane_id_of b (fl_agent f) = i) (vals (flat b)))
         in if n = 0 then get m (laneHeaderID i) = None \<and> laneHeaderID i \<notin> set tops
            else laneHeaderID i \<in> set tops \<and> (\<exists>x. get m (laneHeaderID i) = Some x \<and> sn_count x = Some (int n))) \<and>
        (\<forall>f \<in> set (vals (flat b)).
           if lane_id_of b (fl_agent f) = i
           then (\<exists>x. get m (laneHeaderID i @ ''/'' @ agentNodeID (fl_agent f)) = Some x \<and> sn_pane x = Some (fl_row f)) \<and>
                listed m (laneHeaderID i @ ''/'' @ agentNodeID (fl_agent f)) = 1
           else get m (laneHeaderID i @ ''/'' @ agentNodeID (fl_agent f)) = None))"

lemma lane_doneD:
  assumes "lane_done b i (tops, m)"
  shows "f \<in> set (vals (flat b)) \<Longrightarrow> lane_id_of b (fl_agent f) = i \<Longrightarrow>
      (\<exists>x. get m (laneHeaderID i @ ''/'' @ agentNodeID (fl_agent f)) = Some x \<and> sn_pane x = Some (fl_row f)) \<and>
      listed m (laneHeaderID i @ ''/'' @ agentNodeID (fl_agent f)) = 1"
    and "f \<in> set (vals (flat b)) \<Longrightarrow> lane_id_of b (fl_agent f) \<noteq> i \<Longrightarrow>
      get m (laneHeaderID i @ ''/'' @ agentNodeID (fl_agent f)) = None"
    and "let n = length (filter (\<lambda>f. lane_id_of b (fl_agent f) = i) (vals (flat b)))
      in if n = 0 then get m (laneHeaderID i) = None
         else \<exists>x. get m (laneHeaderID i) = Some x \<and> sn_count x = Some (int n)"
proof -
  note d = assms [unfolded lane_done_def prod.case]
  show "(\<exists>x. get m (laneHeaderID i @ ''/'' @ agentNodeID (fl_agent f)) = Some x \<and> sn_pane x = Some (fl_row f)) \<and>
      listed m (laneHeaderID i @ ''/'' @ agentNodeID (fl_agent f)) = 1"
    if f: "f \<in> set (vals (flat b))" "lane_id_of b (fl_agent f) = i"
    using d [THEN conjunct2, rule_format, OF f(1)] unfolding f(2) if_P [OF refl] .
  show "get m (laneHeaderID i @ ''/'' @ agentNodeID (fl_agent f)) = None"
    if f: "f \<in> set (vals (flat b))" "lane_id_of b (fl_agent f) \<noteq> i"
    using d [THEN conjunct2, rule_format, OF f(1)] unfolding if_not_P [OF f(2)] .
  show "let n = length (filter (\<lambda>f. lane_id_of b (fl_agent f) = i) (vals (flat b)))
      in if n = 0 then get m (laneHeaderID i) = None
         else \<exists>x. get m (laneHeaderID i) = Some x \<and> sn_count x = Some (int n)"
    using d [THEN conjunct1] unfolding Let_def by (simp split: if_splits)
qed

lemma header_lane_done: "header_for b i h \<Longrightarrow> header_done b h view \<longleftrightarrow> lane_done b i view"
  unfolding header_for_def header_done_def lane_done_def lane_members_def member_id_def by (cases view) simp

lemma head_of_laneHeader [simp]:
  "CHR ''/'' \<notin> set i \<Longrightarrow> head_of (laneHeaderID i) = laneHeaderID i"
  "CHR ''/'' \<notin> set i \<Longrightarrow> head_of (laneHeaderID i @ CHR ''/'' # r) = laneHeaderID i"
proof -
  assume "CHR ''/'' \<notin> set i"
  then have "CHR ''/'' \<notin> set (laneHeaderID i)" by (simp add: laneHeaderID_def)
  then show "head_of (laneHeaderID i) = laneHeaderID i" "head_of (laneHeaderID i @ CHR ''/'' # r) = laneHeaderID i"
    by (rule head_of_plain, intro head_of_slash)
qed

lemma laneHeaderID_inj [simp]: "laneHeaderID i = laneHeaderID j \<longleftrightarrow> i = j"
  by (simp add: laneHeaderID_def)

lemma lane_done_outside:
  assumes "lane_done b i (tops, m)" and "outside k m m'" and "k \<noteq> laneHeaderID i" and "CHR ''/'' \<notin> set i"
    and "laneHeaderID i \<in> set tops' \<longleftrightarrow> laneHeaderID i \<in> set tops"
  shows "lane_done b i (tops', m')"
proof -
  have "get m' x = get m x \<and> listed m' x = listed m x" if "head_of x = laneHeaderID i" for x
    using assms(2,3) that unfolding outside_def by simp
  then have e: "get m' (laneHeaderID i) = get m (laneHeaderID i)"
    "get m' (laneHeaderID i @ ''/'' @ r) = get m (laneHeaderID i @ ''/'' @ r)"
    "listed m' (laneHeaderID i @ ''/'' @ r) = listed m (laneHeaderID i @ ''/'' @ r)" for r
    using assms(4) by simp_all
  show ?thesis using assms(1) unfolding lane_done_def prod.case e assms(5) .
qed

definition view_inv :: "board \<Rightarrow> string set \<Rightarrow> lane_view \<Rightarrow> bool" where
  "view_inv b I view \<longleftrightarrow>
     (\<forall>i \<in> I. CHR ''/'' \<notin> set i \<and> lane_done b i view) \<and>
     (\<forall>i k. i \<notin> I \<longrightarrow> CHR ''/'' \<notin> set i \<longrightarrow> head_of k = laneHeaderID i \<longrightarrow>
        get (snd view) k = None \<and> listed (snd view) k = 0 \<and> k \<notin> set (fst view)) \<and>
     (\<forall>t \<in> set (fst view). CHR ''/'' \<notin> set t) \<and> get (snd view) ''tree-root'' = Some (root_node []) \<and>
     old_children (snd view) pendingLaneID = []"

lemma view_invD:
  assumes "view_inv b I (tops, m)"
  shows "i \<in> I \<Longrightarrow> CHR ''/'' \<notin> set i \<and> lane_done b i (tops, m)"
    and "i \<notin> I \<Longrightarrow> CHR ''/'' \<notin> set i \<Longrightarrow> head_of k = laneHeaderID i \<Longrightarrow> get m k = None \<and> listed m k = 0 \<and> k \<notin> set tops"
    and "t \<in> set tops \<Longrightarrow> CHR ''/'' \<notin> set t" and "get m ''tree-root'' = Some (root_node [])"
    and "old_children m pendingLaneID = []"
  using assms unfolding view_inv_def fst_conv snd_conv by blast+

text \<open>A change below one lane that leaves that lane as it should be.\<close>

lemma view_inv_step:
  assumes inv: "view_inv b I (tops, m)" and i: "CHR ''/'' \<notin> set i" "i \<notin> I" and out: "outside (laneHeaderID i) m m'"
    and d: "lane_done b i (tops', m')" and t: "set tops' \<subseteq> insert (laneHeaderID i) (set tops)" "set tops \<subseteq> set tops'"
  shows "view_inv b (insert i I) (tops', m')"
proof -
  have "CHR ''/'' \<notin> set j \<and> lane_done b j (tops', m')" if j: "j \<in> insert i I" for j
  proof (cases "j = i")
    case False
    have "laneHeaderID i \<noteq> laneHeaderID j" "laneHeaderID j \<in> set tops' \<longleftrightarrow> laneHeaderID j \<in> set tops" using False t by auto
    then show ?thesis using lane_done_outside [OF _ out] view_invD(1) [OF inv, of j] j False by blast
  qed (use i d in blast)
  moreover have "get m' k = None \<and> listed m' k = 0 \<and> k \<notin> set tops'"
    if k: "j \<notin> insert i I" "CHR ''/'' \<notin> set j" "head_of k = laneHeaderID j" for j k
  proof -
    have ne: "head_of k \<noteq> laneHeaderID i" using k by simp
    then have "k \<noteq> laneHeaderID i" using i(1) by auto
    moreover have "get m k = None \<and> listed m k = 0 \<and> k \<notin> set tops" using view_invD(2) [OF inv _ k(2,3)] k(1) by simp
    ultimately show ?thesis using out ne t(1) unfolding outside_def by auto
  qed
  moreover have "CHR ''/'' \<notin> set x" if "x \<in> set tops'" for x
    using that t(1) view_invD(3) [OF inv] i(1) by (auto simp: laneHeaderID_def)
  moreover have "get m' ''tree-root'' = Some (root_node []) \<and> old_children m' pendingLaneID = []"
  proof -
    have "head_of ''tree-root'' \<noteq> laneHeaderID i" "head_of pendingLaneID \<noteq> laneHeaderID i"
      by (simp_all add: head_of_def laneHeaderID_def pendingLaneID_def)
    then show ?thesis using out view_invD(4,5) [OF inv] unfolding outside_def old_children_def by simp
  qed
  ultimately show ?thesis unfolding view_inv_def fst_conv snd_conv by blast
qed

subsection \<open>Pull requests, the pending lane and the whole view\<close>

definition lanes_named :: "board \<Rightarrow> bool" where
  "lanes_named b \<longleftrightarrow> distinct (map ln_id (bd_lanes b)) \<and> (\<forall>l \<in> set (bd_lanes b). ln_id l \<noteq> [] \<and> CHR ''/'' \<notin> set (ln_id l))"

text \<open>Nodes added under a header that list nothing and are none of its members.\<close>

definition pr_only :: "string \<Rightarrow> nodes \<Rightarrow> nodes \<Rightarrow> bool" where
  "pr_only h m m' \<longleftrightarrow>
     (\<forall>k. (\<nexists>r. k = h @ ''/pr'' @ r) \<longrightarrow> get m' k = get m k) \<and> (\<forall>k. listed m' k = listed m k) \<and>
     (\<forall>r n. get m' (h @ ''/pr'' @ r) = Some n \<longrightarrow> sn_children n = [])"

lemma pr_only_put:
  assumes "pr_only h m m'" and "k = h @ ''/pr'' @ r" and "sn_children n = []"
  shows "pr_only h m (put k n m')"
proof -
  have "old_children m' k = []"
    using assms(1,2) unfolding pr_only_def old_children_def by (auto split: option.split)
  then have "listed (put k n m') x = listed m x" for x
    using listed_put [of k n m' x] assms(1,3) unfolding pr_only_def by simp
  moreover have "get (put k n m') x = get m x" if "\<nexists>r. x = h @ ''/pr'' @ r" for x
    using that assms(1,2) unfolding pr_only_def get_put by auto
  moreover have "sn_children y = []" if "get (put k n m') (h @ ''/pr'' @ s) = Some y" for s y
    using that assms unfolding pr_only_def get_put by (auto split: if_splits)
  ultimately show ?thesis unfolding pr_only_def by blast
qed

lemma prRows_only:
  assumes "pr_only h m m" and "prRows h l m = (prs, m')"
  shows "pr_only h m m'" and "\<forall>i \<in> set prs. \<exists>r. i = h @ ''/pr'' @ r"
proof -
  let ?m1 = "fold (\<lambda>p m. put (pr_row_id h p) (pr_node h l p) m) (ln_prs l) m"
  have one: "pr_only h m ?m1"
  proof (rule fold_keeps [where P = "pr_only h m"])
    show "pr_only h m m" by (rule assms(1))
    show "pr_only h m (put (pr_row_id h p) (pr_node h l p) acc)" if "pr_only h m acc" for p acc
      by (rule pr_only_put [OF that]) (simp_all add: pr_row_id_def pr_node_def plain_node_def)
  qed
  have noted: "pr_only h m (put (pr_note_id h) ((plain_node (pr_note_id h) PrNode t [])\<lparr>sn_lane := Some (ln_id l)\<rparr>) ?m1)" for t
    by (rule pr_only_put [OF one]) (simp_all add: pr_note_id_def plain_node_def)
  have all: "\<forall>i \<in> set (map (pr_row_id h) (ln_prs l) @ [pr_note_id h]). \<exists>r. i = h @ ''/pr'' @ r"
    by (auto simp: pr_row_id_def pr_note_id_def)
  have "prRows h l m = (map (pr_row_id h) (ln_prs l), ?m1) \<or>
      (\<exists>t. prRows h l m = (map (pr_row_id h) (ln_prs l) @ [pr_note_id h],
        put (pr_note_id h) ((plain_node (pr_note_id h) PrNode t [])\<lparr>sn_lane := Some (ln_id l)\<rparr>) ?m1))"
    unfolding prRows_def Let_def by (cases "ln_pr_note l") auto
  then have "pr_only h m m' \<and> (\<forall>i \<in> set prs. \<exists>r. i = h @ ''/pr'' @ r)"
    using one noted all unfolding assms(2) by auto
  then show "pr_only h m m'" "\<forall>i \<in> set prs. \<exists>r. i = h @ ''/pr'' @ r" by blast+
qed

lemma laneOf_values: "get (laneOf b) a = Some i \<Longrightarrow> i \<in> set (map ln_id (bd_lanes b))"
proof -
  let ?V = "\<lambda>m. \<forall>a i. get m a = Some i \<longrightarrow> i \<in> set (map ln_id (bd_lanes b))"
  have one: "?V (fold (\<lambda>a. put a (ln_id l)) as m)" if "l \<in> set (bd_lanes b)" "?V m" for l as m
    by (rule fold_keeps [where P = "?V"]) (use that in \<open>auto simp: get_put\<close>)
  have "?V (fold (\<lambda>l m. fold (\<lambda>a. put a (ln_id l)) (ln_members l) m) ls m)" if "set ls \<subseteq> set (bd_lanes b)" "?V m" for ls m
    using that
  proof (induction ls arbitrary: m)
    case (Cons l ls)
    from Cons.prems(1) have "l \<in> set (bd_lanes b)" "set ls \<subseteq> set (bd_lanes b)" by simp_all
    from Cons.IH [OF this(2) one [OF this(1) Cons.prems(2)]] show ?case unfolding fold_Cons comp_apply .
  qed simp
  from this [OF subset_refl, of "[]"] show "get (laneOf b) a = Some i \<Longrightarrow> ?thesis"
    unfolding laneOf_def by simp
qed

lemma headers_for:
  "lanes_named b \<Longrightarrow> l \<in> set (bd_lanes b) \<Longrightarrow> \<forall>i \<in> set prs. \<exists>r. i = laneHeaderID (ln_id l) @ ''/pr'' @ r \<Longrightarrow>
     header_for b (ln_id l) (lane_header_of b l prs)"
  "lanes_named b \<Longrightarrow> header_for b [] (no_lane_header b)"
proof -
  assume n: "lanes_named b"
  have "or_else (get (laneOf b) a) [] = [] \<longleftrightarrow> get (laneOf b) a = None" for a
    using laneOf_values [of b a] n unfolding lanes_named_def by (cases "get (laneOf b) a") auto
  then show "header_for b [] (no_lane_header b)"
    by (simp add: header_for_def no_lane_header_def clean_header_def noLaneID_def laneHeaderID_def lane_id_of_def)
  assume l: "l \<in> set (bd_lanes b)" and prs: "\<forall>i \<in> set prs. \<exists>r. i = laneHeaderID (ln_id l) @ ''/pr'' @ r"
  have i: "ln_id l \<noteq> []" "CHR ''/'' \<notin> set (ln_id l)" using n l unfolding lanes_named_def by blast+
  have "or_else (get (laneOf b) a) [] = ln_id l \<longleftrightarrow> get (laneOf b) a = Some (ln_id l)" for a
    using i(1) by (cases "get (laneOf b) a") auto
  moreover have "head_of x = laneHeaderID (ln_id l) \<and> x \<noteq> laneHeaderID (ln_id l) @ ''/'' @ agentNodeID a" if "x \<in> set prs" for x a
    using prs that i(2) by (fastforce simp: agentNodeID_def)
  ultimately show "header_for b (ln_id l) (lane_header_of b l prs)"
    using i(2) by (simp add: header_for_def lane_header_of_def clean_header_def lane_id_of_def) (simp add: laneHeaderID_def)
qed

lemma add_header_inv:
  assumes inv: "view_inv b I (tops, m)" and h: "header_for b i h" and i: "CHR ''/'' \<notin> set i" "i \<notin> I"
    and pr: "pr_only (laneHeaderID i) m m1" and out: "addHeader collate (flat b) h (tops, m1) = (tops', m')"
  shows "view_inv b (insert i I) (tops', m')"
proof -
  have H: "clean_header h" "lh_id h = laneHeaderID i" using h unfolding header_for_def by blast+
  note untouched = view_invD(2) [OF inv i(2,1)]
  have keep: "get m1 k = get m k" if "\<nexists>r. k = laneHeaderID i @ ''/pr'' @ r" for k
    using pr that unfolding pr_only_def by blast
  have lst: "listed m1 k = listed m k" for k using pr unfolding pr_only_def by blast
  have "get m1 (member_id h f) = None \<and> listed m1 (member_id h f) = 0" for f
  proof -
    have "get m1 (member_id h f) = get m (member_id h f)" by (rule keep) (simp add: member_id_def H(2) agentNodeID_def)
    moreover have "head_of (member_id h f) = laneHeaderID i" using head_of_member [OF H(1)] unfolding H(2) .
    ultimately show ?thesis using untouched [of "member_id h f"] lst [of "member_id h f"] by simp
  qed
  then have un: "undrawn b h m1" unfolding undrawn_def by blast
  have hd: "head_of (lh_id h) = laneHeaderID i" using i(1) unfolding H(2) by simp
  have "get m1 (lh_id h) = get m (lh_id h)" by (rule keep) (simp add: H(2))
  then have none: "get m1 (lh_id h) = None" and top: "lh_id h \<notin> set tops" using untouched [OF hd] by simp_all
  have o: "outside (laneHeaderID i) m m1"
  proof -
    have "get m1 k = get m k" if "head_of k \<noteq> laneHeaderID i" for k
      by (rule keep) (use that i(1) in auto)
    then show ?thesis using lst unfolding outside_def by blast
  qed
  note d = addHeader_done [OF H(1) un none top out, unfolded header_lane_done [OF h] H(2)]
  show ?thesis
    by (rule view_inv_step [OF inv i outside_trans [OF o]]) (use d in blast)+
qed

lemma pr_only_refl: "(\<And>r. get m (h @ ''/pr'' @ r) = None) \<Longrightarrow> pr_only h m m"
  unfolding pr_only_def by simp

lemma add_lane_inv:
  assumes n: "lanes_named b" and l: "l \<in> set (bd_lanes b)" and new: "ln_id l \<notin> I" and inv: "view_inv b I view"
  shows "view_inv b (insert (ln_id l) I) (add_lane collate b (flat b) l view)"
proof -
  obtain tops m where v: "view = (tops, m)" by fastforce
  note inv = inv [unfolded v]
  have i: "CHR ''/'' \<notin> set (ln_id l)" using n l unfolding lanes_named_def by blast
  obtain prs m1 where p: "prRows (laneHeaderID (ln_id l)) l m = (prs, m1)" by fastforce
  have "get m (laneHeaderID (ln_id l) @ ''/pr'' @ r) = None" for r
    using view_invD(2) [OF inv new i] i by simp
  from prRows_only [OF pr_only_refl [OF this] p]
  have pr: "pr_only (laneHeaderID (ln_id l)) m m1" "\<forall>i \<in> set prs. \<exists>r. i = laneHeaderID (ln_id l) @ ''/pr'' @ r" by blast+
  obtain tops' m' where r: "addHeader collate (flat b) (lane_header_of b l prs) (tops, m1) = (tops', m')" by fastforce
  have "add_lane collate b (flat b) l view = (tops', m')" unfolding add_lane_def v prod.case p r ..
  then show ?thesis using add_header_inv [OF inv headers_for(1) [OF n l pr(2)] i new pr(1) r] by simp
qed

lemma add_lanes_inv:
  assumes "lanes_named b" and "set ls \<subseteq> set (bd_lanes b)" and "distinct (map ln_id ls)" and "set (map ln_id ls) \<inter> I = {}"
    and "view_inv b I view"
  shows "view_inv b (set (map ln_id ls) \<union> I) (fold (add_lane collate b (flat b)) ls view)"
  using assms(2-5)
proof (induction ls arbitrary: I view)
  case (Cons l ls)
  have "l \<in> set (bd_lanes b)" "ln_id l \<notin> I" using Cons.prems(1,3) by auto
  from Cons.IH [OF _ _ _ add_lane_inv [OF assms(1) this Cons.prems(4)]] Cons.prems(1-3) show ?case by auto
qed simp

lemma lane_start_inv: "view_inv b {} ([], [(''tree-root'', root_node [])])"
proof -
  have "head_of ''tree-root'' \<noteq> laneHeaderID i" for i by (simp add: head_of_def laneHeaderID_def)
  then show ?thesis unfolding view_inv_def by (auto simp: listed_def root_node_def plain_node_def old_children_def pendingLaneID_def)
qed

lemma add_pending_inv:
  assumes inv: "view_inv b I view"
  shows "view_inv b I (add_pending pending view)"
proof (cases "add_pending pending view = view")
  case False
  obtain tops m where v: "view = (tops, m)" by fastforce
  note inv = inv [unfolded v]
  obtain p where p: "pending = Some p" "p \<noteq> []" using False unfolding add_pending_def by (auto split: option.splits if_splits)
  obtain n where n: "n = (plain_node pendingLaneID LaneNode p [])
      \<lparr>sn_placeholder := True, sn_summary := Some \<lparr>sm_total = 0, sm_active = 0\<rparr>, sn_count := Some 0\<rparr>" by blast
  have r: "add_pending pending view = (tops @ [pendingLaneID], put pendingLaneID n m)" "sn_children n = []"
    using p unfolding n by (simp_all add: add_pending_def v plain_node_def)
  have hd: "pendingLaneID \<noteq> laneHeaderID i" "head_of pendingLaneID \<noteq> laneHeaderID i" for i
    by (simp_all add: head_of_def pendingLaneID_def laneHeaderID_def)
  have lst: "listed (put pendingLaneID n m) k = listed m k" for k
    using listed_put [of pendingLaneID n m k] r(2) view_invD(5) [OF inv] by simp
  have same: "get (put pendingLaneID n m) k = get m k" if "k \<noteq> pendingLaneID" for k using that by (simp add: get_put)
  have out: "outside pendingLaneID m (put pendingLaneID n m)"
  proof -
    have "head_of pendingLaneID = pendingLaneID" by (simp add: head_of_def pendingLaneID_def)
    then show ?thesis unfolding outside_def lst using same by metis
  qed
  have "lane_done b i (tops @ [pendingLaneID], put pendingLaneID n m)" if "i \<in> I" for i
    by (rule lane_done_outside [OF _ out]) (use view_invD(1) [OF inv that] hd hd(1) [symmetric] in auto)
  moreover have "get (put pendingLaneID n m) k = None \<and> listed (put pendingLaneID n m) k = 0 \<and> k \<notin> set (tops @ [pendingLaneID])"
    if k: "i \<notin> I" "CHR ''/'' \<notin> set i" "head_of k = laneHeaderID i" for i k
  proof -
    have "k \<noteq> pendingLaneID" using k(3) hd(2) by metis
    then show ?thesis using view_invD(2) [OF inv k] unfolding lst same [OF \<open>k \<noteq> pendingLaneID\<close>] by simp
  qed
  moreover have "get (put pendingLaneID n m) ''tree-root'' = Some (root_node [])"
    using view_invD(4) [OF inv] same [of "''tree-root''"] by (simp add: pendingLaneID_def)
  moreover have "old_children (put pendingLaneID n m) pendingLaneID = []" using r(2) by (simp add: old_children_def get_put)
  moreover have "CHR ''/'' \<notin> set t" if "t \<in> set (tops @ [pendingLaneID])" for t
    using that view_invD(3) [OF inv] by (auto simp: pendingLaneID_def)
  ultimately show ?thesis using view_invD(1) [OF inv] unfolding r(1) view_inv_def fst_conv snd_conv by blast
qed (use inv in simp)

lemma lane_views_inv:
  assumes "lanes_named b"
  shows "view_inv b (insert [] (set (map ln_id (bd_lanes b)))) (lane_views collate b pending)"
proof -
  let ?v = "fold (add_lane collate b (flat b)) (bd_lanes b) ([], [(''tree-root'', root_node [])])"
  have d: "distinct (map ln_id (bd_lanes b))" "[] \<notin> set (map ln_id (bd_lanes b))" using assms unfolding lanes_named_def by auto
  have "view_inv b (set (map ln_id (bd_lanes b))) ?v"
    using add_lanes_inv [OF assms subset_refl d(1) _ lane_start_inv] by simp
  then have inv: "view_inv b (set (map ln_id (bd_lanes b))) (add_pending pending ?v)" by (rule add_pending_inv)
  obtain tops m where v: "add_pending pending ?v = (tops, m)" by fastforce
  note inv = inv [unfolded v]
  obtain tops' m' where r: "addHeader collate (flat b) (no_lane_header b) (tops, m) = (tops', m')" by fastforce
  have "get m (laneHeaderID [] @ ''/pr'' @ r) = None" for r using view_invD(2) [OF inv d(2)] by simp
  from add_header_inv [OF inv headers_for(2) [OF assms] _ d(2) pr_only_refl [OF this] r]
  show ?thesis unfolding lane_views_def Let_def v r by simp
qed

lemma lanes_drawn:
  assumes "lanes_named b" and "buildLaneNodes collate (Some b) pending = nodes" and "j \<in> insert [] (set (map ln_id (bd_lanes b)))"
  shows "\<exists>tops. lane_done b j (tops, nodes)"
proof -
  obtain tops m where v: "lane_views collate b pending = (tops, m)" by fastforce
  note inv = lane_views_inv [OF assms(1), of collate pending, unfolded v]
  have nodes: "nodes = put ''tree-root'' (root_node tops) m" using assms(2) unfolding buildLaneNodes_def by (simp add: v)
  have hd: "laneHeaderID j \<noteq> ''tree-root''" "laneHeaderID j @ r \<noteq> ''tree-root''" for j r by (simp_all add: laneHeaderID_def)
  have same: "get nodes (laneHeaderID j) = get m (laneHeaderID j)" "get nodes (laneHeaderID j @ r) = get m (laneHeaderID j @ r)" for j r
    unfolding nodes get_put by (simp_all only: hd if_False)
  have lst: "listed nodes (laneHeaderID j @ ''/'' @ r) = listed m (laneHeaderID j @ ''/'' @ r)" for j r
  proof -
    have "laneHeaderID j @ ''/'' @ r \<notin> set tops" using view_invD(3) [OF inv, of "laneHeaderID j @ ''/'' @ r"] by auto
    then show ?thesis
      using listed_put [of "''tree-root''" "root_node tops" m "laneHeaderID j @ ''/'' @ r"] view_invD(4) [OF inv]
      unfolding nodes by (simp add: old_children_def root_node_def plain_node_def count_list_0_iff)
  qed
  have "lane_done b j (tops, m)" using view_invD(1) [OF inv assms(3)] by blast
  then have "lane_done b j (tops, nodes)" unfolding lane_done_def prod.case same lst .
  then show ?thesis by blast
qed

lemma own_lane: "lane_id_of b a \<in> insert [] (set (map ln_id (bd_lanes b)))"
  using laneOf_values [of b a] unfolding lane_id_of_def by (cases "get (laneOf b) a") auto

text \<open>
  C24. Lanes show every agent under its own lane and nowhere else. Whatever the managers are (cycles included), the
  lanes view has for every row of the board one node under the header of the lane the row is in, or under No lane,
  it shows that row, it is listed exactly once, and no other header has a node for the row. The number a header
  reads is the number of rows in that lane, and a lane without rows has no header. Lane ids are distinct, not
  empty and hold no slash.
\<close>

theorem every_agent_under_its_lane:
  assumes "lanes_named b" and "buildLaneNodes collate (Some b) pending = nodes"
  shows "(\<forall>f \<in> set (vals (fst (flattenBoard b))).
            let own = lane_id_of b (fl_agent f); i = laneHeaderID own @ ''/'' @ agentNodeID (fl_agent f)
            in own \<in> insert [] (set (map ln_id (bd_lanes b))) \<and>
               (\<exists>n. get nodes i = Some n \<and> sn_pane n = Some (fl_row f)) \<and> listed nodes i = 1 \<and>
               (\<forall>j \<in> insert [] (set (map ln_id (bd_lanes b))) - {own}.
                  get nodes (laneHeaderID j @ ''/'' @ agentNodeID (fl_agent f)) = None)) \<and>
         (\<forall>j \<in> insert [] (set (map ln_id (bd_lanes b))).
            let n = length (filter (\<lambda>f. lane_id_of b (fl_agent f) = j) (vals (fst (flattenBoard b))))
            in if n = 0 then get nodes (laneHeaderID j) = None
               else \<exists>x. get nodes (laneHeaderID j) = Some x \<and> sn_count x = Some (int n))"
proof (intro conjI ballI)
  fix f assume f: "f \<in> set (vals (fst (flattenBoard b)))"
  let ?own = "lane_id_of b (fl_agent f)"
  obtain tops where "lane_done b ?own (tops, nodes)" using lanes_drawn [OF assms own_lane] by blast
  note own = lane_doneD(1) [OF this f refl]
  have "get nodes (laneHeaderID j @ ''/'' @ agentNodeID (fl_agent f)) = None"
    if j: "j \<in> insert [] (set (map ln_id (bd_lanes b))) - {?own}" for j
  proof -
    obtain tops where "lane_done b j (tops, nodes)" using lanes_drawn [OF assms] j by blast
    then show ?thesis by (rule lane_doneD(2) [OF _ f]) (use j in blast)
  qed
  then show "let own = ?own; i = laneHeaderID own @ ''/'' @ agentNodeID (fl_agent f)
            in own \<in> insert [] (set (map ln_id (bd_lanes b))) \<and>
               (\<exists>n. get nodes i = Some n \<and> sn_pane n = Some (fl_row f)) \<and> listed nodes i = 1 \<and>
               (\<forall>j \<in> insert [] (set (map ln_id (bd_lanes b))) - {own}.
                  get nodes (laneHeaderID j @ ''/'' @ agentNodeID (fl_agent f)) = None)"
    unfolding Let_def by (intro conjI ballI own_lane own [THEN conjunct1] own [THEN conjunct2])
next
  fix j assume "j \<in> insert [] (set (map ln_id (bd_lanes b)))"
  from lanes_drawn [OF assms this] obtain tops where "lane_done b j (tops, nodes)" by blast
  then show "let n = length (filter (\<lambda>f. lane_id_of b (fl_agent f) = j) (vals (fst (flattenBoard b))))
            in if n = 0 then get nodes (laneHeaderID j) = None
               else \<exists>x. get nodes (laneHeaderID j) = Some x \<and> sn_count x = Some (int n)"
    by (rule lane_doneD(3))
qed

text \<open>The board above with two lanes, one of them led by a member of the cycle.\<close>

definition sample_lanes :: board where
  "sample_lanes = sample_board\<lparr>bd_lanes :=
     [\<lparr>ln_id = ''1'', ln_name = ''one'', ln_lead = ''b'', ln_members = [''a'', ''b''], ln_prs = [], ln_pr_note = None\<rparr>,
      \<lparr>ln_id = ''2'', ln_name = ''two'', ln_lead = ''x'', ln_members = [], ln_prs = [], ln_pr_note = Some ''no access''\<rparr>]\<rparr>"

theorem every_agent_under_its_lane_witness:
  "\<exists>nodes. buildLaneNodes sample_collate (Some sample_lanes) None = nodes \<and>
     (\<exists>x. get nodes ''lane:1'' = Some x \<and> sn_count x = Some 2) \<and>
     (\<exists>x. get nodes ''lane:'' = Some x \<and> sn_count x = Some 2) \<and> get nodes ''lane:2'' = None"
proof -
  let ?nodes = "buildLaneNodes sample_collate (Some sample_lanes) None"
  have "lanes_named sample_lanes" unfolding lanes_named_def by code_simp
  note all = every_agent_under_its_lane [OF this refl, of sample_collate None, THEN conjunct2, unfolded Let_def, rule_format]
  have n: "length (filter (\<lambda>f. lane_id_of sample_lanes (fl_agent f) = ''1'') (vals (fst (flattenBoard sample_lanes)))) = 2"
    "length (filter (\<lambda>f. lane_id_of sample_lanes (fl_agent f) = ''2'') (vals (fst (flattenBoard sample_lanes)))) = 0"
    "length (filter (\<lambda>f. lane_id_of sample_lanes (fl_agent f) = []) (vals (fst (flattenBoard sample_lanes)))) = 2"
    by code_simp+
  have i: "''1'' \<in> insert [] (set (map ln_id (bd_lanes sample_lanes)))" "''2'' \<in> insert [] (set (map ln_id (bd_lanes sample_lanes)))"
    by code_simp+
  show ?thesis
    using all [OF i(1)] all [OF i(2)] all [OF insertI1] unfolding n by (simp add: laneHeaderID_def)
qed

end
