(* ===== verification/Reach.thy ===== *)
theory Reach
  imports Prelude
begin

section \<open>Depth-first descent\<close>

text \<open>
  The loop by which the client collects everything below a node: a child that is found already is passed over,
  another is added and descended into. The found set is a list in the order of the additions. Fuel bounds the
  depth of the descent; more than the number of nodes that can be found is enough (\<open>visit_reaches\<close>).
\<close>

fun visit :: "('a \<Rightarrow> 'a list) \<Rightarrow> nat \<Rightarrow> 'a \<Rightarrow> 'a list \<Rightarrow> 'a list" where
  "visit next 0 x found = found"
| "visit next (Suc n) x found =
     fold (\<lambda>c found. if c \<in> set found then found else visit next n c (found @ [c])) (next x) found"

definition below :: "('a \<Rightarrow> 'a list) \<Rightarrow> ('a \<times> 'a) set" where
  "below next = {(x, y). y \<in> set (next x)}"

text \<open>One call: what was found stays, what is new is reachable, and what is new is closed downwards.\<close>

definition explored :: "('a \<Rightarrow> 'a list) \<Rightarrow> 'a \<Rightarrow> 'a list \<Rightarrow> 'a list \<Rightarrow> 'a list \<Rightarrow> bool" where
  "explored next x todo found found' \<longleftrightarrow>
     set found \<subseteq> set found' \<and> set found' \<subseteq> set found \<union> {y. (x, y) \<in> (below next)\<^sup>+} \<and>
     set todo \<subseteq> set found' \<and> (\<forall>y \<in> set found' - set found. set (next y) \<subseteq> set found')"

lemma exploredD:
  assumes "explored next x todo found found'"
  shows "set found \<subseteq> set found'" and "set found' \<subseteq> set found \<union> {y. (x, y) \<in> (below next)\<^sup>+}"
    and "set todo \<subseteq> set found'" and "y \<in> set found' \<Longrightarrow> y \<notin> set found \<Longrightarrow> set (next y) \<subseteq> set found'"
  using assms unfolding explored_def by blast+

lemma explored_Nil: "explored next x [] found found"
  unfolding explored_def by simp

lemma explored_seen:
  "explored next x todo found f1 \<Longrightarrow> c \<in> set f1 \<Longrightarrow> explored next x (todo @ [c]) found f1"
  unfolding explored_def by auto

lemma explored_child:
  assumes "explored next x todo found f1" and "c \<in> set (next x)" and "explored next c (next c) (f1 @ [c]) f2"
  shows "explored next x (todo @ [c]) found f2"
proof -
  note a = exploredD [OF assms(1)] and b = exploredD [OF assms(3)]
  have xc: "(x, c) \<in> (below next)\<^sup>+" using assms(2) unfolding below_def by auto
  have "set f2 \<subseteq> set found \<union> {y. (x, y) \<in> (below next)\<^sup>+}"
    using a(2) b(2) xc by (auto intro: trancl_trans)
  moreover have "set (next y) \<subseteq> set f2" if "y \<in> set f2" "y \<notin> set found" for y
  proof -
    consider "y \<in> set f1" | "y = c" | "y \<in> set f2" "y \<notin> set (f1 @ [c])" using \<open>y \<in> set f2\<close> by auto
    then show ?thesis
    proof cases
      case 1
      then show ?thesis using a(4) [OF 1 that(2)] b(1) by auto
    next
      case 2
      then show ?thesis using b(3) by simp
    next
      case 3
      then show ?thesis by (rule b(4))
    qed
  qed
  moreover have "set found \<subseteq> set f2" "set (todo @ [c]) \<subseteq> set f2" using a(1,3) b(1) by auto
  ultimately show ?thesis unfolding explored_def by blast
qed

lemma visit_explores:
  assumes "finite U" and "\<And>x. set (next x) \<subseteq> U"
  shows "card (U - set found) < n \<Longrightarrow> explored next x (next x) found (visit next n x found)"
proof (induction n arbitrary: x found)
  case (Suc n)
  let ?step = "\<lambda>c found. if c \<in> set found then found else visit next n c (found @ [c])"
  have loop: "explored next x (todo @ cs) found (fold ?step cs f1)"
    if "explored next x todo found f1" "set cs \<subseteq> set (next x)" for todo cs f1
    using that
  proof (induction cs arbitrary: todo f1)
    case (Cons c cs)
    have c: "c \<in> set (next x)" "set cs \<subseteq> set (next x)" using Cons.prems(2) by simp_all
    show ?case
    proof (cases "c \<in> set f1")
      case True
      from Cons.IH [OF explored_seen [OF Cons.prems(1) True] c(2)]
      show ?thesis unfolding fold_Cons comp_apply if_P [OF True] by simp
    next
      case False
      have "c \<in> U - set f1" using c(1) assms(2) False by blast
      then have "card ((U - set f1) - {c}) < card (U - set f1)" using assms(1) by (intro card_Diff1_less) blast+
      moreover have "U - set (f1 @ [c]) = (U - set f1) - {c}" by auto
      ultimately have "card (U - set (f1 @ [c])) < card (U - set f1)" by (simp only:)
      also have "card (U - set f1) \<le> card (U - set found)"
        using assms(1) exploredD(1) [OF Cons.prems(1)] by (intro card_mono) auto
      finally have "card (U - set (f1 @ [c])) < n" using Suc.prems by simp
      from Cons.IH [OF explored_child [OF Cons.prems(1) c(1) Suc.IH [OF this]] c(2)]
      show ?thesis unfolding fold_Cons comp_apply if_not_P [OF False] by simp
    qed
  qed simp
  from loop [OF explored_Nil subset_refl] show ?case unfolding visit.simps append_Nil .
qed simp

lemma closed_reach:
  assumes "(x, y) \<in> (below next)\<^sup>+" and "set (next x) \<subseteq> S" and "\<And>z. z \<in> S \<Longrightarrow> set (next z) \<subseteq> S"
  shows "y \<in> S"
  using assms(1)
proof (induction rule: trancl_induct)
  case (base y)
  then show ?case using assms(2) by (auto simp: below_def)
next
  case (step y z)
  then show ?case using assms(3) by (auto simp: below_def)
qed

lemma visit_reaches:
  assumes "finite U" and "\<And>x. set (next x) \<subseteq> U" and "card U < n"
  shows "y \<in> set (visit next n x []) \<longleftrightarrow> (x, y) \<in> (below next)\<^sup>+"
proof -
  have "card (U - set []) < n" using assms(3) by simp
  from visit_explores [OF assms(1,2) this] have e: "explored next x (next x) [] (visit next n x [])" .
  show ?thesis
  proof
    show "(x, y) \<in> (below next)\<^sup>+" if "y \<in> set (visit next n x [])" using exploredD(2) [OF e] that by auto
    show "y \<in> set (visit next n x [])" if "(x, y) \<in> (below next)\<^sup>+"
      by (rule closed_reach [OF that exploredD(3) [OF e]]) (rule exploredD(4) [OF e], simp_all)
  qed
qed

end
