(* ===== verification/SidebarDrops.thy ===== *)
theory SidebarDrops
  imports SidebarLanes Reach ShellPrefs
begin

section \<open>Drops and folding in the sidebar\<close>

text \<open>
  \<^verbatim>\<open>features/sidebar/reparentModel.ts\<close> and \<^verbatim>\<open>laneDropModel.ts\<close> (what a drop on the tree asks of the server) and
  \<^verbatim>\<open>sidebarView.ts\<close> (which items are unfolded). The lower case of a lane's name (\<open>toLowerCase\<close>) is the
  parameter \<open>lc\<close>.
\<close>

subsection \<open>Refusals\<close>

datatype drop_refusal =
  PlacementView | SourceNotLive | DropOnSelf | DropOnDescendant | DropOnTombstone | DropOnTerminal | TargetNotLive

record reparent_facts =
  rf_kind :: node_kind
  rf_agent :: string
  rf_bus :: string
  rf_state :: "manager_state option"

text \<open>The target is \<open>None\<close> when it is undefined and \<open>Some None\<close> when it is null (no target is asked about).\<close>

definition reparentRefusal :: "reparent_facts option \<Rightarrow> reparent_facts option option \<Rightarrow> bool \<Rightarrow> drop_refusal option" where
  "reparentRefusal source target isDescendant =
     (case source of
        None \<Rightarrow> Some SourceNotLive
      | Some s \<Rightarrow>
          if rf_agent s = ''-'' \<or> rf_bus s = ''-'' then Some SourceNotLive
          else case target of
                 Some None \<Rightarrow> None
               | None \<Rightarrow> Some TargetNotLive
               | Some (Some t) \<Rightarrow>
                   if rf_agent t = rf_agent s then Some DropOnSelf
                   else if rf_kind t = TombstoneNode then Some DropOnTombstone
                   else if rf_kind t = PaneNode \<and> rf_agent t = ''-'' then Some DropOnTerminal
                   else if rf_agent t = ''-'' \<or> rf_bus t = ''-'' \<or> rf_state t = Some Ended_manager then Some TargetNotLive
                   else if isDescendant then Some DropOnDescendant
                   else None)"

definition pane_facts :: "node_kind \<Rightarrow> row \<Rightarrow> reparent_facts" where
  "pane_facts k r =
     \<lparr>rf_kind = k, rf_agent = r_agent r, rf_bus = ri_bus (r_info r), rf_state = ri_manager_state (r_info r)\<rparr>"

definition source_facts :: "sidebar_node option \<Rightarrow> reparent_facts option" where
  "source_facts n = Option.bind n (\<lambda>x. map_option (pane_facts (sn_kind x)) (sn_pane x))"

definition target_facts :: "sidebar_node option \<Rightarrow> reparent_facts option" where
  "target_facts n =
     map_option (\<lambda>x. case sn_pane x of
         Some p \<Rightarrow> pane_facts (sn_kind x) p
       | None \<Rightarrow> \<lparr>rf_kind = sn_kind x, rf_agent = sn_name x, rf_bus = ''-'',
                   rf_state = (if sn_kind x = TombstoneNode then Some Ended_manager else None)\<rparr>) n"

subsection \<open>Drops\<close>

definition node_children :: "nodes \<Rightarrow> string \<Rightarrow> string list" where
  "node_children m i = (case get m i of Some n \<Rightarrow> sn_children n | None \<Rightarrow> [])"

definition descendants :: "string \<Rightarrow> nodes \<Rightarrow> string list" where
  "descendants sourceID m =
     visit (node_children m) (Suc (length (concat (map (\<lambda>p. sn_children (snd p)) m)))) sourceID []"

text \<open>A drop that is accepted names the agent and its new manager.\<close>

definition reparentDrop ::
    "fleet_view \<Rightarrow> string option \<Rightarrow> string option \<Rightarrow> nodes \<Rightarrow> drop_refusal + (string \<times> string)" where
  "reparentDrop view sourceID targetID m =
     (if view \<noteq> Supervision then Inl PlacementView
      else case sourceID of
        None \<Rightarrow> Inl SourceNotLive
      | Some s \<Rightarrow>
          let source = get m s; facts = source_facts source
          in case reparentRefusal facts (Some None) False of
               Some r \<Rightarrow> Inl r
             | None \<Rightarrow>
                 (case Option.bind source sn_pane of
                    None \<Rightarrow> Inl SourceNotLive
                  | Some p \<Rightarrow>
                      if targetID = None \<or> targetID = Some ''tree-root'' then Inr (r_agent p, ''human'')
                      else let target = get m (the targetID)
                           in case reparentRefusal facts (map_option Some (target_facts target)) (the targetID \<in> set (descendants s m)) of
                                Some r \<Rightarrow> Inl r
                              | None \<Rightarrow>
                                  (case Option.bind target sn_pane of
                                     None \<Rightarrow> Inl TargetNotLive
                                   | Some q \<Rightarrow> Inr (r_agent p, r_agent q))))"

datatype sidebar_drop = SetManager string string | SetLane string string | NewLane string string

definition planLaneDrop :: "fleet_view \<Rightarrow> string option \<Rightarrow> sidebar_node option \<Rightarrow> sidebar_drop option" where
  "planLaneDrop view source target =
     (case (source, target) of
        (Some a, Some t) \<Rightarrow>
          if view \<noteq> Lanes \<or> a = [] \<or> a = ''-'' then None
          else if sn_placeholder t then Some (NewLane a (sn_name t))
          else (case sn_lane t of
                  None \<Rightarrow> None
                | Some l \<Rightarrow> if map_option r_agent (sn_pane t) = Some a then None else Some (SetLane a l))
      | _ \<Rightarrow> None)"

definition planSidebarDrop :: "fleet_view \<Rightarrow> string option \<Rightarrow> string option \<Rightarrow> nodes \<Rightarrow> sidebar_drop option" where
  "planSidebarDrop view sourceID targetID m =
     (case sourceID of
        None \<Rightarrow> None
      | Some s \<Rightarrow>
          if view = Lanes
          then planLaneDrop view (map_option r_agent (Option.bind (get m s) sn_pane)) (Option.bind targetID (get m))
          else (case reparentDrop view sourceID targetID m of
                  Inl _ \<Rightarrow> None
                | Inr (a, manager) \<Rightarrow> Some (SetManager a manager)))"

text \<open>Whether a drop was accepted, and what was submitted.\<close>

definition dropAssignment ::
    "fleet_view \<Rightarrow> string option \<Rightarrow> string option \<Rightarrow> nodes \<Rightarrow> bool \<times> sidebar_drop list" where
  "dropAssignment view sourceID targetID m =
     (case planSidebarDrop view sourceID targetID m of None \<Rightarrow> (False, []) | Some d \<Rightarrow> (True, [d]))"

subsection \<open>Lane names\<close>

definition laneHeaderTooltip :: "sidebar_node \<Rightarrow> nat \<Rightarrow> string" where
  "laneHeaderTooltip n members =
     (let seats = digits members @ '' '' @ (if members = 1 then ''agent'' else ''agents'')
      in if sn_placeholder n
         then ''new lane '' @ sn_name n @ separator @ ''drop an agent here to create it with that agent as lead''
         else if sn_kind n = NoLaneNode then ''No lane'' @ separator @ seats
         else ''lane '' @ sn_name n @ separator @ or_else (sn_secondary n) ''no lead'' @ separator @ seats
                @ separator @ ''drop an agent here to move it into the lane'')"

definition maxLaneNameLength :: nat where
  "maxLaneNameLength = 80"

definition control_char :: "char \<Rightarrow> bool" where
  "control_char c \<longleftrightarrow> (of_char c :: nat) < 32 \<or> (of_char c :: nat) = 127"

text \<open>The number of code points: every byte but the continuation bytes.\<close>

definition code_points :: "string \<Rightarrow> nat" where
  "code_points s = length (filter (\<lambda>c. (of_char c :: nat) < 128 \<or> 192 \<le> (of_char c :: nat)) s)"

definition validateLaneName :: "(string \<Rightarrow> string) \<Rightarrow> string \<Rightarrow> string list \<Rightarrow> string + string" where
  "validateLaneName lc raw existing =
     (let name = js_trim raw
      in if name = [] then Inl ''lane name is empty''
         else if starts_with ''-'' name then Inl ''lane name must not start with -''
         else if list_ex control_char name then Inl ''lane name must not contain control characters''
         else if code_points name > maxLaneNameLength
           then Inl (''lane name must not exceed '' @ digits maxLaneNameLength @ '' characters'')
         else (case find (\<lambda>l. lc l = lc name) existing of
                 Some l \<Rightarrow> Inl (''lane '' @ l @ '' already exists'')
               | None \<Rightarrow> Inr name))"

subsection \<open>Folding\<close>

definition agent_kind :: "node_kind \<Rightarrow> bool" where
  "agent_kind k \<longleftrightarrow> k \<in> {PaneNode, SubagentNode, AgentNode}"

definition group_kind :: "node_kind \<Rightarrow> bool" where
  "group_kind k \<longleftrightarrow>
     k \<in> {WorkspaceNode, UnplacedNode, TombstoneNode, TerminalsNode, TerminalsWorkspaceNode, LaneNode, NoLaneNode}"

definition defaultExpanded :: "nodes \<Rightarrow> string list" where
  "defaultExpanded m =
     map sn_id (filter (\<lambda>n. group_kind (sn_kind n) \<or> (agent_kind (sn_kind n) \<and> sn_children n \<noteq> [])) (vals m))"

definition managerItems :: "nodes \<Rightarrow> string list" where
  "managerItems m =
     map sn_id (filter (\<lambda>n. sn_kind n \<in> {AgentNode, TombstoneNode, LaneNode, NoLaneNode} \<and> sn_children n \<noteq> []) (vals m))"

record expansion =
  ex_items :: "string list option"
  ex_workspaces :: "string list option"
  ex_managers :: "string list option"

definition workspaceItems :: "nodes \<Rightarrow> string list" where
  "workspaceItems m = map sn_id (filter (\<lambda>n. sn_kind n = WorkspaceNode) (vals m))"

text \<open>The result is partial: a field \<open>None\<close> is left as it is.\<close>

definition reconcileExpansion :: "nodes \<Rightarrow> nodes \<Rightarrow> expansion \<Rightarrow> nodes \<Rightarrow> expansion option" where
  "reconcileExpansion placement supervision s lanes =
     (let workspaces = workspaceItems placement; managers = managerItems supervision @ managerItems lanes
      in case ex_items s of
        None \<Rightarrow>
          Some \<lparr>ex_items = Some (uniq (defaultExpanded placement @ defaultExpanded supervision @ defaultExpanded lanes)),
                ex_workspaces = Some workspaces, ex_managers = Some managers\<rparr>
      | Some opened \<Rightarrow>
          (case ex_workspaces s of
             None \<Rightarrow> Some \<lparr>ex_items = None, ex_workspaces = Some workspaces, ex_managers = None\<rparr>
           | Some ws \<Rightarrow>
               (case ex_managers s of
                  None \<Rightarrow>
                    Some \<lparr>ex_items = Some (uniq (opened @ defaultExpanded supervision @ defaultExpanded lanes)),
                          ex_workspaces = None, ex_managers = Some managers\<rparr>
                | Some ms \<Rightarrow>
                    let unseen = filter (\<lambda>i. i \<notin> set (ws @ ms)) (workspaces @ managers)
                    in if unseen = [] then None
                       else Some \<lparr>ex_items = Some (uniq (opened @ unseen)), ex_workspaces = Some (uniq (ws @ workspaces)),
                                  ex_managers = Some (uniq (ms @ managers))\<rparr>)))"

definition apply_expansion :: "expansion option \<Rightarrow> expansion \<Rightarrow> expansion" where
  "apply_expansion p s =
     (case p of
        None \<Rightarrow> s
      | Some q \<Rightarrow>
          \<lparr>ex_items = (case ex_items q of None \<Rightarrow> ex_items s | Some x \<Rightarrow> Some x),
           ex_workspaces = (case ex_workspaces q of None \<Rightarrow> ex_workspaces s | Some x \<Rightarrow> Some x),
           ex_managers = (case ex_managers q of None \<Rightarrow> ex_managers s | Some x \<Rightarrow> Some x)\<rparr>)"

end
