(* ===== verification/QuickOpen.thy ===== *)
theory QuickOpen
  imports SidebarDrops SpacesStore
begin

section \<open>The palette\<close>

text \<open>
  \<^verbatim>\<open>features/files/quickOpenModel.ts\<close>, \<^verbatim>\<open>features/sidebar/reassignModel.ts\<close> and \<^verbatim>\<open>renameModel.ts\<close>. The lower case
  of a text (\<open>toLocaleLowerCase\<close>) is the parameter \<open>lc\<close>, the collation of names the parameter \<open>collate\<close>.
\<close>

subsection \<open>Rows\<close>

datatype action_row =
    PrRow string string string string
  | SpaceRow string string
  | AgentRow string string
  | CreateRow string string
  | SendSpaceRow string string
  | SendNewRow string
  | NoteRow string string
  | ReassignActionRow string string
  | ReassignRow string string string "string option"

fun action_label :: "action_row \<Rightarrow> string" where
  "action_label (PrRow lane lead ref label) = label"
| "action_label (SpaceRow i label) = label"
| "action_label (AgentRow a label) = label"
| "action_label (CreateRow n label) = label"
| "action_label (SendSpaceRow i label) = label"
| "action_label (SendNewRow label) = label"
| "action_label (NoteRow t label) = label"
| "action_label (ReassignActionRow s label) = label"
| "action_label (ReassignRow s t label title) = label"

datatype keyboard_row = ActionAt nat | FileAt nat

datatype quick_open_mode = NormalMode | ReassignMode string

subsection \<open>Ranking\<close>

definition has_infix :: "string \<Rightarrow> string \<Rightarrow> bool" where
  "has_infix s q \<longleftrightarrow> list_ex (\<lambda>i. starts_with q (drop i s)) [0..<Suc (length s)]"

text \<open>\<open>None\<close> for the code's -1.\<close>

definition matchRank :: "(string \<Rightarrow> string) \<Rightarrow> string \<Rightarrow> string \<Rightarrow> nat option" where
  "matchRank lc label query =
     (if query = [] then Some 1
      else if lc label = query then Some 0
      else if starts_with query (lc label) then Some 1
      else if has_infix (lc label) query then Some 2
      else None)"

definition ranked :: "(string \<Rightarrow> string) \<Rightarrow> ('a \<Rightarrow> string) \<Rightarrow> string \<Rightarrow> 'a list \<Rightarrow> 'a list" where
  "ranked lc label query xs =
     map fst
       (sort_by (\<lambda>l r. snd l \<le> snd r)
          (List.map_filter (\<lambda>x. map_option (\<lambda>k. (x, k)) (matchRank lc (label x) query)) xs))"

definition ldquo :: string where
  "ldquo = [CHR 0xE2, CHR 0x80, CHR 0x9C]"

definition rdquo :: string where
  "rdquo = [CHR 0xE2, CHR 0x80, CHR 0x9D]"

definition ellipsis :: string where
  "ellipsis = [CHR 0xE2, CHR 0x80, CHR 0xA6]"

definition pr_action :: "lane \<times> lane_pr \<Rightarrow> action_row" where
  "pr_action x =
     (case x of (l, p) \<Rightarrow>
        PrRow (ln_id l) (ln_lead l) (pr_repo p @ ''#'' @ digits (pr_number p))
          (prLabel p @ separator @ pr_repo p @ separator @ ''lane '' @ ln_name l))"

definition send_rows :: "(string \<Rightarrow> string) \<Rightarrow> string \<Rightarrow> SpaceDefinition list \<Rightarrow> string option \<Rightarrow> action_row list" where
  "send_rows lc query spaces activeSpaceID =
     ranked lc action_label query
       (map (\<lambda>s. SendSpaceRow (space_id s) (''Send this pane to '' @ space_name s))
          (filter (\<lambda>s. Some (space_id s) \<noteq> activeSpaceID) spaces)
        @ [SendNewRow ''Send this pane to a new space''])"

definition reassign_rows :: "(string \<Rightarrow> string) \<Rightarrow> string \<Rightarrow> string option \<Rightarrow> action_row list" where
  "reassign_rows lc query subject =
     (case subject of
        Some s \<Rightarrow>
          if s = [] then []
          else ranked lc (\<lambda>r. action_label r @ '' '' @ s) query [ReassignActionRow s (''Reassign '' @ s @ ellipsis)]
      | None \<Rightarrow> [])"

definition quickOpenActionRows ::
    "(string \<Rightarrow> string) \<Rightarrow> string \<Rightarrow> SpaceDefinition list \<Rightarrow> string list \<Rightarrow> bool \<Rightarrow> string option \<Rightarrow> string option
     \<Rightarrow> board option \<Rightarrow> action_row list" where
  "quickOpenActionRows lc rawQuery spaces agents hasActivePanel activeSpaceID reassignSubject board =
     (let name = js_trim rawQuery; query = lc name; pr = parsePRQuery name;
          exactSpace = list_ex (\<lambda>s. lc (js_trim (space_name s)) = query) spaces
      in (case pr of Some q \<Rightarrow> map pr_action (prLanes board q) | None \<Rightarrow> [])
         @ map (\<lambda>s. SpaceRow (space_id s) (space_name s)) (ranked lc space_name query spaces)
         @ (if name \<noteq> [] \<and> pr = None \<and> \<not> exactSpace
            then [CreateRow name (''Create space '' @ ldquo @ name @ rdquo)] else [])
         @ (if hasActivePanel then send_rows lc query spaces activeSpaceID else [])
         @ reassign_rows lc query reassignSubject
         @ map (\<lambda>a. AgentRow a a) (ranked lc (\<lambda>a. a) query agents)
         @ (if name \<noteq> [] then [NoteRow name (''New note: '' @ name)] else []))"

subsection \<open>The keyboard\<close>

fun is_note :: "action_row \<Rightarrow> bool" where
  "is_note (NoteRow t l) = True"
| "is_note _ = False"

definition quickOpenKeyboardRows :: "action_row list \<Rightarrow> nat \<Rightarrow> keyboard_row list" where
  "quickOpenKeyboardRows rows fileCount =
     map ActionAt (filter (\<lambda>i. \<not> is_note (rows ! i)) [0..<length rows])
     @ map FileAt [0..<fileCount]
     @ map ActionAt (filter (\<lambda>i. is_note (rows ! i)) [0..<length rows])"

fun quickOpenRowKey :: "action_row \<Rightarrow> string" where
  "quickOpenRowKey (PrRow lane lead ref label) = ''action:pr:'' @ lane @ '':'' @ ref"
| "quickOpenRowKey (SpaceRow i label) = ''action:space:'' @ i"
| "quickOpenRowKey (AgentRow a label) = ''action:agent:'' @ a"
| "quickOpenRowKey (CreateRow n label) = ''action:create:'' @ n"
| "quickOpenRowKey (SendSpaceRow i label) = ''action:send-space:'' @ i"
| "quickOpenRowKey (SendNewRow label) = ''action:send-new''"
| "quickOpenRowKey (NoteRow t label) = ''action:note''"
| "quickOpenRowKey (ReassignActionRow s label) = ''action:reassign:'' @ s"
| "quickOpenRowKey (ReassignRow s t label title) = ''action:reassign-target:'' @ s @ '':'' @ t"

fun entry_key :: "action_row list \<Rightarrow> string list \<Rightarrow> keyboard_row \<Rightarrow> string" where
  "entry_key rows fileKeys (ActionAt i) = quickOpenRowKey (rows ! i)"
| "entry_key rows fileKeys (FileAt i) = ''file:'' @ fileKeys ! i"

definition quickOpenSelectionKeys :: "action_row list \<Rightarrow> string list \<Rightarrow> string list" where
  "quickOpenSelectionKeys rows fileKeys = map (entry_key rows fileKeys) (quickOpenKeyboardRows rows (length fileKeys))"

text \<open>An index is \<open>None\<close> for the code's -1.\<close>

definition quickOpenSelectedIndex :: "action_row list \<Rightarrow> string list \<Rightarrow> string option \<Rightarrow> nat option" where
  "quickOpenSelectedIndex rows fileKeys key =
     (case key of None \<Rightarrow> None | Some k \<Rightarrow> find_index (\<lambda>x. x = k) (quickOpenSelectionKeys rows fileKeys))"

datatype move = MoveUp | MoveDown

definition quickOpenMoveSelection :: "action_row list \<Rightarrow> string list \<Rightarrow> string option \<Rightarrow> move \<Rightarrow> string option" where
  "quickOpenMoveSelection rows fileKeys key d =
     (let keys = quickOpenSelectionKeys rows fileKeys; n = length keys
      in if keys = [] then None
         else case Option.bind key (\<lambda>k. find_index (\<lambda>x. x = k) keys) of
                None \<Rightarrow> Some (if d = MoveDown then hd keys else last keys)
              | Some i \<Rightarrow> Some (keys ! ((if d = MoveDown then i + 1 else i + n - 1) mod n)))"

fun openable :: "action_row \<Rightarrow> bool" where
  "openable (PrRow a b c d) = True"
| "openable (SpaceRow i l) = True"
| "openable (AgentRow a l) = True"
| "openable (ReassignRow s t l x) = True"
| "openable _ = False"

definition quickOpenInitialIndex :: "action_row list \<Rightarrow> string \<Rightarrow> nat option" where
  "quickOpenInitialIndex rows rawQuery =
     (if js_trim rawQuery \<noteq> [] then None
      else find_index (\<lambda>e. case e of ActionAt i \<Rightarrow> openable (rows ! i) | FileAt _ \<Rightarrow> False) (quickOpenKeyboardRows rows 0))"

definition quickOpenInitialSelection :: "action_row list \<Rightarrow> string \<Rightarrow> string option" where
  "quickOpenInitialSelection rows rawQuery =
     map_option (\<lambda>i. quickOpenSelectionKeys rows [] ! i) (quickOpenInitialIndex rows rawQuery)"

definition topMatchTier :: "(string \<Rightarrow> string) \<Rightarrow> action_row \<Rightarrow> string \<Rightarrow> nat option" where
  "topMatchTier lc r query =
     (case r of
        PrRow _ _ _ _ \<Rightarrow> Some 0
      | _ \<Rightarrow>
          (case matchRank lc (action_label r) query of
             None \<Rightarrow> None
           | Some k \<Rightarrow>
               (case r of
                  SpaceRow _ _ \<Rightarrow> Some ([0, 3, 5] ! k)
                | AgentRow _ _ \<Rightarrow> Some ([1, 4, 6] ! k)
                | CreateRow _ _ \<Rightarrow> None
                | NoteRow _ _ \<Rightarrow> None
                | _ \<Rightarrow> if k = 0 then Some 2 else None)))"

text \<open>The best row so far and its tier, over the rows in order.\<close>

definition better :: "(string \<Rightarrow> string) \<Rightarrow> string \<Rightarrow> action_row \<Rightarrow> (action_row \<times> nat) option \<Rightarrow> (action_row \<times> nat) option" where
  "better lc query r best =
     (case topMatchTier lc r query of
        None \<Rightarrow> best
      | Some t \<Rightarrow> (case best of None \<Rightarrow> Some (r, t) | Some (_, u) \<Rightarrow> if t < u then Some (r, t) else best))"

fun is_create :: "action_row \<Rightarrow> bool" where
  "is_create (CreateRow n l) = True"
| "is_create _ = False"

definition quickOpenTopMatch :: "(string \<Rightarrow> string) \<Rightarrow> action_row list \<Rightarrow> string option \<Rightarrow> string \<Rightarrow> bool \<Rightarrow> string option" where
  "quickOpenTopMatch lc rows confidentFileKey rawQuery lookupPending =
     (let query = lc (js_trim rawQuery)
      in if query = [] then quickOpenInitialSelection rows []
         else case fold (better lc query) rows None of
                Some (r, _) \<Rightarrow> Some (quickOpenRowKey r)
              | None \<Rightarrow>
                  (case confidentFileKey of
                     Some k \<Rightarrow> Some (''file:'' @ k)
                   | None \<Rightarrow>
                       if lookupPending then None
                       else map_option quickOpenRowKey
                              (case find is_note rows of Some r \<Rightarrow> Some r | None \<Rightarrow> find is_create rows)))"

definition quickOpenSelection :: "action_row list \<Rightarrow> string list \<Rightarrow> string option \<Rightarrow> string option \<Rightarrow> string option" where
  "quickOpenSelection rows fileKeys picked fallback =
     (case picked of
        Some k \<Rightarrow> if k \<in> set (quickOpenSelectionKeys rows fileKeys) then picked else fallback
      | None \<Rightarrow> fallback)"

definition quickOpenEnterTarget :: "action_row list \<Rightarrow> nat \<Rightarrow> nat option \<Rightarrow> keyboard_row option" where
  "quickOpenEnterTarget rows fileCount activeIndex =
     (case activeIndex of
        None \<Rightarrow> None
      | Some i \<Rightarrow> if i < length (quickOpenKeyboardRows rows fileCount) then Some (quickOpenKeyboardRows rows fileCount ! i) else None)"

subsection \<open>Reassigning\<close>

fun listed_row :: "row \<Rightarrow> row list" and listed_rows :: "row list \<Rightarrow> row list" where
  "listed_row (Row p subs) = (if ri_agent p = ''-'' \<or> ri_bus p = ''-'' then [] else Row p subs # listed_rows subs)"
| "listed_rows [] = []"
| "listed_rows (r # rs) = listed_row r @ listed_rows rs"

definition flattenedBoardRows :: "board option \<Rightarrow> row list" where
  "flattenedBoardRows board =
     (case board of None \<Rightarrow> [] | Some b \<Rightarrow> listed_rows (placed_panes b) @ listed_rows (bd_unplaced b))"

definition reassign_parent :: "row \<Rightarrow> string option" where
  "reassign_parent r =
     (let p = (case named_parent (r_info r) of
                 Some p \<Rightarrow> Some p
               | None \<Rightarrow> if ri_manager_state (r_info r) = Some Live_manager then ri_manager (r_info r) else None)
      in if p = Some [] \<or> p = Some (r_agent r) then None else p)"

definition add_child :: "row \<Rightarrow> (string, string list) jsmap \<Rightarrow> (string, string list) jsmap" where
  "add_child r m =
     (case reassign_parent r of None \<Rightarrow> m | Some p \<Rightarrow> put p (or_else (get m p) [] @ [r_agent r]) m)"

definition reassignDescendants :: "string \<Rightarrow> row list \<Rightarrow> string list" where
  "reassignDescendants subject rows =
     (let children = fold add_child rows []
      in visit (\<lambda>a. or_else (get children a) []) (Suc (length rows)) subject [])"

definition row_facts :: "row \<Rightarrow> reparent_facts" where
  "row_facts r = pane_facts (if named_parent (r_info r) \<noteq> None then SubagentNode else AgentNode) r"

definition reassign_match :: "row \<Rightarrow> string" where
  "reassign_match r = js_trim (r_agent r @ '' '' @ or_else (ri_title (r_info r)) [])"

definition reassign_row :: "string \<Rightarrow> row \<Rightarrow> action_row" where
  "reassign_row subject r =
     ReassignRow subject (r_agent r) (r_agent r)
       (case ri_title (r_info r) of Some t \<Rightarrow> if t = [] then None else Some t | None \<Rightarrow> None)"

definition reassign_targets :: "collation \<Rightarrow> string \<Rightarrow> row list \<Rightarrow> string list \<Rightarrow> row list" where
  "reassign_targets collate subject rows below_subject =
     (let source = map_option row_facts (find (\<lambda>r. r_agent r = subject) rows)
      in sort_by (\<lambda>l r. collate (r_agent l) (r_agent r) \<le> 0)
           (filter (\<lambda>r. named_parent (r_info r) = None \<and>
                      reparentRefusal source (Some (Some (row_facts r))) (r_agent r \<in> set below_subject) = None) rows))"

definition reassignCandidates ::
    "(string \<Rightarrow> string) \<Rightarrow> collation \<Rightarrow> string \<Rightarrow> row list \<Rightarrow> (string \<Rightarrow> string list) \<Rightarrow> string \<Rightarrow> action_row list" where
  "reassignCandidates lc collate subject rows descendantsOf query =
     map (reassign_row subject)
       (ranked lc reassign_match (lc (js_trim query)) (reassign_targets collate subject rows (descendantsOf subject)))
     @ [ReassignRow subject ''human'' ''human (adopt)'' None]"

definition reassignSelection :: "(string \<Rightarrow> string) \<Rightarrow> action_row list \<Rightarrow> string \<Rightarrow> string option" where
  "reassignSelection lc candidates rawQuery =
     (case candidates of
        ReassignRow s t l x # _ \<Rightarrow>
          (let query = lc (js_trim rawQuery)
           in if query = [] \<or> t \<noteq> ''human'' \<or> starts_with query ''human'' then Some (quickOpenRowKey (ReassignRow s t l x)) else None)
      | _ \<Rightarrow> None)"

definition quickOpenRows ::
    "(string \<Rightarrow> string) \<Rightarrow> collation \<Rightarrow> quick_open_mode \<Rightarrow> string \<Rightarrow> SpaceDefinition list \<Rightarrow> string list \<Rightarrow> bool
     \<Rightarrow> string option \<Rightarrow> string option \<Rightarrow> row list \<Rightarrow> (string \<Rightarrow> string list) \<Rightarrow> board option \<Rightarrow> action_row list" where
  "quickOpenRows lc collate mode query spaces agents hasActivePanel activeSpaceID reassignSubject rows descendantsOf board =
     (case mode of
        NormalMode \<Rightarrow> quickOpenActionRows lc query spaces agents hasActivePanel activeSpaceID reassignSubject board
      | ReassignMode subject \<Rightarrow> reassignCandidates lc collate subject rows descendantsOf query)"

subsection \<open>Renaming\<close>

record rename_state =
  rn_name :: string
  rn_node :: string
  rn_current :: string
  rn_value :: string
  rn_problem :: "string option"

definition beginRename :: "string \<Rightarrow> string \<Rightarrow> string option \<Rightarrow> rename_state" where
  "beginRename n nodeID title =
     \<lparr>rn_name = n, rn_node = nodeID, rn_current = or_else title [], rn_value = or_else title [], rn_problem = None\<rparr>"

definition editingAt :: "rename_state option \<Rightarrow> string \<Rightarrow> rename_state option" where
  "editingAt s nodeID = (case s of Some r \<Rightarrow> if rn_node r = nodeID then s else None | None \<Rightarrow> None)"

definition renameValue :: "rename_state \<Rightarrow> string \<Rightarrow> rename_state" where
  "renameValue s v = s\<lparr>rn_value := v, rn_problem := None\<rparr>"

definition prepareRename :: "rename_state \<Rightarrow> string option" where
  "prepareRename s =
     (let title = js_trim (rn_value s) in if title \<noteq> [] \<and> title \<noteq> rn_current s then Some title else None)"

end
