(* ===== verification/SupervisionClaims.thy ===== *)
theory SupervisionClaims
  imports QuickOpen
begin

section \<open>Changing who supervises whom\<close>

subsection \<open>Reassigning in the palette\<close>

text \<open>Who supervises whom by the rows: a row's parent, or its live manager.\<close>

definition supervises :: "row list \<Rightarrow> (string \<times> string) set" where
  "supervises rows = {(p, r_agent r) | p r. r \<in> set rows \<and> reassign_parent r = Some p}"

lemma children_of_rows:
  "set (or_else (get (fold add_child rows m) p) []) =
     set (or_else (get m p) []) \<union> {r_agent r | r. r \<in> set rows \<and> reassign_parent r = Some p}"
proof (induction rows arbitrary: m)
  case (Cons r rows)
  have "set (or_else (get (add_child r m) p) []) =
      set (or_else (get m p) []) \<union> (if reassign_parent r = Some p then {r_agent r} else {})"
    by (cases "reassign_parent r") (auto simp: add_child_def get_put)
  then show ?case using Cons.IH [of "add_child r m"] by auto
qed simp

lemma below_supervises: "below (\<lambda>a. or_else (get (fold add_child rows []) a) []) = supervises rows"
  unfolding below_def supervises_def children_of_rows by auto

lemma reassignDescendants_reach:
  "a \<in> set (reassignDescendants subject rows) \<longleftrightarrow> (subject, a) \<in> (supervises rows)\<^sup>+"
proof -
  have "set (or_else (get (fold add_child rows []) a) []) \<subseteq> r_agent ` set rows" for a
    unfolding children_of_rows by auto
  moreover have "card (r_agent ` set rows) < Suc (length rows)"
    using card_image_le [of "set rows" r_agent] card_length [of rows] by simp
  ultimately show ?thesis
    unfolding reassignDescendants_def Let_def
    using visit_reaches [of "r_agent ` set rows" "\<lambda>a. or_else (get (fold add_child rows []) a) []" "Suc (length rows)" a subject]
    unfolding below_supervises by blast
qed

text \<open>The rows after the server has carried the assignment out.\<close>

definition reassigned :: "string \<Rightarrow> string \<Rightarrow> row \<Rightarrow> row" where
  "reassigned subject manager r =
     (if r_agent r = subject
      then Row ((r_info r)\<lparr>ri_manager := Some manager, ri_manager_state := Some Live_manager\<rparr>) (r_subagents r) else r)"

lemma reassigned_agent: "r_agent (reassigned s t r) = r_agent r"
  by (simp add: reassigned_def)

lemma reassigned_parent:
  "reassign_parent (reassigned s t r) = Some p \<Longrightarrow> r_agent r = s \<and> p = t \<or> reassign_parent r = Some p"
  by (auto simp: reassigned_def reassign_parent_def Let_def named_parent_def split: option.splits if_splits)

lemma supervises_reassigned: "supervises (map (reassigned s t) rows) \<subseteq> insert (t, s) (supervises rows)"
  unfolding supervises_def using reassigned_parent by (fastforce simp: reassigned_agent)

lemma new_edge_acyclic:
  assumes "acyclic r" and "(x, y) \<notin> r\<^sup>+" and "x \<noteq> y"
  shows "acyclic (insert (y, x) r)"
proof -
  have "(x, y) \<notin> r\<^sup>*" using assms(2,3) by (meson rtranclD)
  then show ?thesis using assms(1) by simp
qed

text \<open>On a board that already has loops, an edge that closes none leaves every loop where it was.\<close>

lemma new_edge_loops:
  assumes "(x, y) \<notin> r\<^sup>+" and "x \<noteq> y" and "(a, a) \<in> (insert (y, x) r)\<^sup>+"
  shows "(a, a) \<in> r\<^sup>+"
proof -
  have "(x, y) \<notin> r\<^sup>*" using assms(1,2) by (meson rtranclD)
  moreover have "(a, a) \<in> r\<^sup>+ \<or> ((a, y) \<in> r\<^sup>* \<and> (x, a) \<in> r\<^sup>*)"
    using assms(3) by (auto simp: trancl_insert)
  ultimately show ?thesis by (meson rtrancl_trans)
qed

lemma ranked_subset: "x \<in> set (ranked lc label q xs) \<Longrightarrow> x \<in> set xs"
  by (auto simp: ranked_def)

lemma live_target:
  assumes "reparentRefusal source (Some (Some t)) d = None"
  obtains s where "source = Some s" "rf_agent s \<noteq> ''-''" "rf_bus s \<noteq> ''-''" "rf_agent t \<noteq> rf_agent s" "rf_kind t \<noteq> TombstoneNode"
    "rf_agent t \<noteq> ''-''" "rf_bus t \<noteq> ''-''" "rf_state t \<noteq> Some Ended_manager" "\<not> d"
  using assms by (auto simp: reparentRefusal_def split: option.splits if_splits)

text \<open>
  C25. The palette never offers a reassignment that would close a loop. On any board, also one whose
  managers already form loops, every target it lists for an agent (but adopting it oneself) is another agent,
  live, no Task subagent, and nobody the agent supervises, directly or through others; and once the assignment
  is carried out, who supervises themselves, directly or through others, did so before. So a board without
  loops stays without.
\<close>

theorem reassigning_makes_no_loop:
  assumes "ReassignRow s t l x \<in> set (butlast (reassignCandidates lc collate subject rows (\<lambda>a. reassignDescendants a rows) query))"
  shows "s = subject \<and> t \<noteq> subject \<and>
    (\<exists>r \<in> set rows. r_agent r = t \<and> t \<noteq> ''-'' \<and> ri_bus (r_info r) \<noteq> ''-'' \<and>
       ri_manager_state (r_info r) \<noteq> Some Ended_manager \<and> named_parent (r_info r) = None) \<and>
    (subject, t) \<notin> (supervises rows)\<^sup>+ \<and>
    (\<forall>a. (a, a) \<in> (supervises (map (reassigned subject t) rows))\<^sup>+ \<longrightarrow> (a, a) \<in> (supervises rows)\<^sup>+) \<and>
    (acyclic (supervises rows) \<longrightarrow> acyclic (supervises (map (reassigned subject t) rows)))"
proof -
  let ?ts = "reassign_targets collate subject rows (reassignDescendants subject rows)"
  obtain r where r: "r \<in> set ?ts" "ReassignRow s t l x = reassign_row subject r"
    using assms(1) ranked_subset [of _ lc reassign_match _ ?ts] by (auto simp: reassignCandidates_def butlast_append)
  have st: "s = subject" "r_agent r = t" using r(2) by (simp_all add: reassign_row_def)
  have c: "r \<in> set rows" "named_parent (r_info r) = None"
    "reparentRefusal (map_option row_facts (find (\<lambda>r. r_agent r = subject) rows)) (Some (Some (row_facts r)))
       (r_agent r \<in> set (reassignDescendants subject rows)) = None"
    using r(1) unfolding reassign_targets_def Let_def by auto
  from c(3) obtain q where q: "find (\<lambda>r. r_agent r = subject) rows = Some q" "r_agent r \<noteq> r_agent q"
    "t \<noteq> ''-''" "ri_bus (r_info r) \<noteq> ''-''" "ri_manager_state (r_info r) \<noteq> Some Ended_manager"
    "r_agent r \<notin> set (reassignDescendants subject rows)"
    by (rule live_target) (use st in \<open>auto simp: row_facts_def pane_facts_def\<close>)
  have "r_agent q = subject" using q(1) by (auto simp: find_Some_iff)
  then have ne: "t \<noteq> subject" using q(2) st(2) by simp
  have notd: "(subject, t) \<notin> (supervises rows)\<^sup>+" using q(6) unfolding reassignDescendants_reach st(2) .
  have loops: "(a, a) \<in> (supervises rows)\<^sup>+" if "(a, a) \<in> (supervises (map (reassigned subject t) rows))\<^sup>+" for a
  proof (rule new_edge_loops [OF notd])
    show "subject \<noteq> t" using ne by blast
    show "(a, a) \<in> (insert (t, subject) (supervises rows))\<^sup>+"
      using that supervises_reassigned by (rule trancl_mono)
  qed
  then have "acyclic (supervises rows) \<longrightarrow> acyclic (supervises (map (reassigned subject t) rows))"
    unfolding acyclic_def by blast
  then show ?thesis using st ne c(1,2) q(3-5) notd loops by blast
qed

text \<open>A manager, her report with a nested row, and an agent on its own.\<close>

definition info_of :: "string \<Rightarrow> string option \<Rightarrow> string option \<Rightarrow> row_info" where
  "info_of a parent manager =
     \<lparr>ri_pane = a, ri_agent = a, ri_tool = ''codex'', ri_herdr = ''idle'', ri_bus = ''listening'', ri_context = None,
      ri_turn_end = None, ri_reply_end = None, ri_parent = parent, ri_manager = manager,
      ri_manager_state = map_option (\<lambda>_. Live_manager) manager,
      ri_title = None, ri_created = None, ri_label = None, ri_command = None\<rparr>"

definition sample_rows :: "row list" where
  "sample_rows =
     [Row (info_of ''m'' None None) [], Row (info_of ''r'' None (Some ''m'')) [Row (info_of ''n'' (Some ''r'') None) []],
      Row (info_of ''n'' (Some ''r'') None) [], Row (info_of ''o'' None None) []]"

lemma supervises_listed:
  "supervises rows = set (List.map_filter (\<lambda>r. map_option (\<lambda>p. (p, r_agent r)) (reassign_parent r)) rows)"
  by (auto simp: supervises_def)

text \<open>The same with two agents that manage each other beside them.\<close>

definition looped_rows :: "row list" where
  "looped_rows = sample_rows @ [Row (info_of ''x'' None (Some ''y'')) [], Row (info_of ''y'' None (Some ''x'')) []]"

lemma looped_supervises: "supervises looped_rows = {(''m'', ''r''), (''r'', ''n''), (''y'', ''x''), (''x'', ''y'')}"
  unfolding supervises_listed by code_simp

theorem reassigning_makes_no_loop_witness:
  "ReassignRow ''m'' ''x'' ''x'' None \<in>
     set (butlast (reassignCandidates (\<lambda>s. s) (\<lambda>l r. if l < r then - 1 else 1) ''m'' looped_rows (\<lambda>a. reassignDescendants a looped_rows) [])) \<and>
   (''x'', ''x'') \<in> (supervises looped_rows)\<^sup>+ \<and>
   (''m'', ''m'') \<notin> (supervises (map (reassigned ''m'' ''x'') looped_rows))\<^sup>+"
proof -
  have c: "ReassignRow ''m'' ''x'' ''x'' None \<in>
     set (butlast (reassignCandidates (\<lambda>s. s) (\<lambda>l r. if l < r then - 1 else 1) ''m'' looped_rows (\<lambda>a. reassignDescendants a looped_rows) []))"
    by code_simp
  have loop: "(''x'', ''x'') \<in> (supervises looped_rows)\<^sup>+"
    unfolding looped_supervises by (rule trancl_into_trancl [of _ "''y''"]) (rule r_into_trancl, simp_all)
  have "(supervises looped_rows)\<^sup>+ \<subseteq> {(''m'', ''r''), (''r'', ''n''), (''m'', ''n'')} \<union> {''x'', ''y''} \<times> {''x'', ''y''}"
    unfolding looped_supervises by (rule subrelI, erule trancl_induct) auto
  then have "(''m'', ''m'') \<notin> (supervises looped_rows)\<^sup>+" by auto
  then show ?thesis using reassigning_makes_no_loop [OF c] c loop by blast
qed

subsection \<open>Drops on the tree\<close>

lemma node_children_listed: "set (node_children m i) \<subseteq> set (concat (map (\<lambda>p. sn_children (snd p)) m))"
  unfolding node_children_def by (cases "get m i") (force dest: map_of_SomeD)+

lemma descendants_reach: "i \<in> set (descendants s m) \<longleftrightarrow> (s, i) \<in> (below (node_children m))\<^sup>+"
  unfolding descendants_def
  by (rule visit_reaches [OF _ node_children_listed]) (simp_all only: finite_set less_Suc_eq_le card_length)

text \<open>
  C26. An accepted drop never puts an agent below itself. When a drop in the supervision view is accepted, the
  agent dropped and its new manager are two live agents of the tree, or the new manager is the owner; the row
  dropped on stands nowhere below the row dropped; and moving the one under the other leaves a tree a tree.
\<close>

theorem drop_makes_no_loop:
  assumes "planSidebarDrop Supervision (Some i) target m = Some (SetManager a manager)"
  shows "\<exists>n p. get m i = Some n \<and> sn_pane n = Some p \<and> a = r_agent p \<and> a \<noteq> ''-'' \<and> ri_bus (r_info p) \<noteq> ''-'' \<and>
    (case target of
       None \<Rightarrow> manager = ''human''
     | Some j \<Rightarrow>
         if j = ''tree-root'' then manager = ''human''
         else (\<exists>x q. get m j = Some x \<and> sn_kind x \<noteq> TombstoneNode \<and> sn_pane x = Some q \<and> manager = r_agent q \<and> manager \<noteq> a \<and>
                 manager \<noteq> ''-'' \<and> ri_bus (r_info q) \<noteq> ''-'' \<and> ri_manager_state (r_info q) \<noteq> Some Ended_manager) \<and>
              (i, j) \<notin> (below (node_children m))\<^sup>+ \<and>
              (acyclic (below (node_children m)) \<and> i \<noteq> j \<longrightarrow> acyclic (insert (j, i) (below (node_children m)))))"
proof -
  have drop: "reparentDrop Supervision (Some i) target m = Inr (a, manager)"
    using assms by (auto simp: planSidebarDrop_def split: sum.splits)
  let ?f = "source_facts (get m i)"
  obtain n p where np: "get m i = Some n" "sn_pane n = Some p" "reparentRefusal ?f (Some None) False = None"
    using drop by (auto simp: reparentDrop_def Let_def bind_eq_Some_conv split: option.splits)
  have f: "?f = Some (pane_facts (sn_kind n) p)" using np(1,2) by (simp add: source_facts_def)
  have live: "r_agent p \<noteq> ''-''" "ri_bus (r_info p) \<noteq> ''-''"
    using np(3) unfolding f by (auto simp: reparentRefusal_def pane_facts_def split: if_splits)
  show ?thesis
  proof (cases "target = None \<or> target = Some ''tree-root''")
    case True
    then have "a = r_agent p" "manager = ''human''" using drop np by (auto simp: reparentDrop_def Let_def)
    then show ?thesis using np live True by auto
  next
    case False
    then obtain j where j: "target = Some j" "j \<noteq> ''tree-root''" by (cases target) simp_all
    let ?d = "j \<in> set (descendants i m)"
    have out: "reparentRefusal ?f (map_option Some (target_facts (get m j))) ?d = None"
      "\<exists>q. Option.bind (get m j) sn_pane = Some q \<and> (a, manager) = (r_agent p, r_agent q)"
      using drop np j by (auto simp: reparentDrop_def Let_def split: option.splits)
    then obtain x q where x: "get m j = Some x" "sn_pane x = Some q" "a = r_agent p" "manager = r_agent q"
      by (auto simp: bind_eq_Some_conv)
    have "reparentRefusal ?f (Some (Some (pane_facts (sn_kind x) q))) ?d = None"
      using out(1) x(1,2) by (simp add: target_facts_def)
    then have t: "manager \<noteq> a" "sn_kind x \<noteq> TombstoneNode" "manager \<noteq> ''-''" "ri_bus (r_info q) \<noteq> ''-''"
      "ri_manager_state (r_info q) \<noteq> Some Ended_manager" "\<not> ?d"
      by (auto elim!: live_target simp: f x(3,4) pane_facts_def)
    have notd: "(i, j) \<notin> (below (node_children m))\<^sup>+" using t(6) unfolding descendants_reach .
    have "acyclic (insert (j, i) (below (node_children m)))" if "acyclic (below (node_children m))" "i \<noteq> j"
      by (rule new_edge_acyclic [OF that(1) notd that(2)])
    then show ?thesis using np x live t notd j by (intro exI [of _ n] exI [of _ p]) simp
  qed
qed

definition sample_tree :: nodes where
  "sample_tree = buildSupervisionNodes (\<lambda>l r. if l = r then 0 else if l < r then - 1 else 1)
     (Some \<lparr>bd_workspaces = [], bd_unplaced = sample_rows, bd_lanes = []\<rparr>)"

theorem drop_makes_no_loop_witness:
  "planSidebarDrop Supervision (Some ''agent:m'') (Some ''agent:o'') sample_tree = Some (SetManager ''m'' ''o'') \<and>
   planSidebarDrop Supervision (Some ''agent:m'') (Some ''agent:n'') sample_tree = None \<and>
   (''agent:m'', ''agent:o'') \<notin> (below (node_children sample_tree))\<^sup>+"
proof -
  have d: "planSidebarDrop Supervision (Some ''agent:m'') (Some ''agent:o'') sample_tree = Some (SetManager ''m'' ''o'')"
    "planSidebarDrop Supervision (Some ''agent:m'') (Some ''agent:n'') sample_tree = None" by code_simp+
  from drop_makes_no_loop [OF d(1)] d show ?thesis by auto
qed

subsection \<open>What the owner folded\<close>

definition complete :: "expansion \<Rightarrow> bool" where
  "complete s \<longleftrightarrow> ex_items s \<noteq> None \<and> ex_workspaces s \<noteq> None \<and> ex_managers s \<noteq> None"

definition known_item :: "expansion \<Rightarrow> string \<Rightarrow> bool" where
  "known_item s i \<longleftrightarrow> i \<in> set (or_else (ex_workspaces s) []) \<or> i \<in> set (or_else (ex_managers s) [])"

lemma complete_cases:
  assumes "complete s"
  obtains xs ws ms where "s = \<lparr>ex_items = Some xs, ex_workspaces = Some ws, ex_managers = Some ms\<rparr>"
  using assms by (cases s) (auto simp: complete_def)

text \<open>
  A new board never refolds or reopens what the owner has seen. Applying the reconciler's answer leaves a
  known item folded or unfolded as it was, unfolds every workspace and manager never seen before, makes all of
  them known, and is done: on the same board the reconciler has nothing more to ask.
\<close>

lemma folding_is_kept:
  assumes "complete s"
  shows "(\<forall>i. known_item s i \<longrightarrow>
           (i \<in> set (the (ex_items (apply_expansion (reconcileExpansion p v s l) s))) \<longleftrightarrow> i \<in> set (the (ex_items s)))) \<and>
    (\<forall>i \<in> set (workspaceItems p @ managerItems v @ managerItems l).
       known_item (apply_expansion (reconcileExpansion p v s l) s) i \<and>
       (\<not> known_item s i \<longrightarrow> i \<in> set (the (ex_items (apply_expansion (reconcileExpansion p v s l) s))))) \<and>
    set (the (ex_items s)) \<subseteq> set (the (ex_items (apply_expansion (reconcileExpansion p v s l) s))) \<and>
    reconcileExpansion p v (apply_expansion (reconcileExpansion p v s l) s) l = None"
proof -
  obtain xs ws ms where s: "s = \<lparr>ex_items = Some xs, ex_workspaces = Some ws, ex_managers = Some ms\<rparr>"
    using complete_cases [OF assms] .
  let ?unseen = "filter (\<lambda>i. i \<notin> set (ws @ ms)) (workspaceItems p @ managerItems v @ managerItems l)"
  show ?thesis
  proof (cases "?unseen = []")
    case True
    then have r: "reconcileExpansion p v s l = None" by (simp add: s reconcileExpansion_def Let_def)
    have "i \<in> set (ws @ ms)" if "i \<in> set (workspaceItems p @ managerItems v @ managerItems l)" for i
      using True that unfolding filter_empty_conv by blast
    moreover have "apply_expansion (reconcileExpansion p v s l) s = s" unfolding r by (simp add: apply_expansion_def)
    ultimately show ?thesis using r by (auto simp: s known_item_def)
  next
    case False
    then have r: "reconcileExpansion p v s l =
        Some \<lparr>ex_items = Some (uniq (xs @ ?unseen)), ex_workspaces = Some (uniq (ws @ workspaceItems p)),
              ex_managers = Some (uniq (ms @ managerItems v @ managerItems l))\<rparr>" (is "_ = Some ?q")
      by (simp add: s reconcileExpansion_def Let_def)
    have a: "apply_expansion (reconcileExpansion p v s l) s = ?q" unfolding r by (simp add: apply_expansion_def)
    have "reconcileExpansion p v ?q l = None" by (auto simp: reconcileExpansion_def Let_def filter_empty_conv)
    then show ?thesis unfolding a by (auto simp: s known_item_def)
  qed
qed

lemma folding_is_kept_witness:
  "\<exists>s. complete s \<and> known_item s ''agent:m'' \<and> ''agent:m'' \<notin> set (the (ex_items s)) \<and>
     ''agent:m'' \<notin> set (the (ex_items (apply_expansion (reconcileExpansion [] sample_tree s []) s)))"
proof -
  let ?s = "\<lparr>ex_items = Some [], ex_workspaces = Some [], ex_managers = Some [''agent:m'']\<rparr>"
  have "complete ?s" "known_item ?s ''agent:m''" by (simp_all add: complete_def known_item_def)
  with folding_is_kept [OF this(1), of "[]" sample_tree "[]"] show ?thesis by (intro exI [of _ ?s]) simp
qed

end
