(* ===== verification/Lens.thy ===== *)
theory Lens
  imports Attention SpaceMembers "HOL-Library.Code_Target_Numeral"
begin

section \<open>The lens\<close>

text \<open>
  \<^verbatim>\<open>features/lens/lensModel.ts\<close> and the reads of \<^verbatim>\<open>features/lens/cardTextModel.ts\<close>: the home view's cards, the steps
  between them, what needs the owner next, and when the answers on the cards are read. Positions on the page
  are exact rationals; the default order of names (\<open>sort()\<close>) is the parameter \<open>le\<close>, the text of a transcript
  entry (\<open>answerText\<close>) the parameter \<open>answer\<close>.
\<close>

subsection \<open>Rows of cards\<close>

datatype lens_row = FocusRow | WatchRow | BackgroundRow

definition lensRows :: "lens_row list" where
  "lensRows = [FocusRow, WatchRow, BackgroundRow]"

definition defaultLensRow :: lens_row where
  "defaultLensRow = WatchRow"

datatype card_text_mode = AnswerText | StatusText | CwdText

record lens_prefs =
  lp_rows :: "(string, lens_row) jsmap"
  lp_visible :: "(string, string) jsmap"
  lp_text :: "card_text_mode option"
  lp_size :: "nat option"
  lp_peek :: "rat option"

definition emptyLensPrefs :: lens_prefs where
  "emptyLensPrefs = \<lparr>lp_rows = [], lp_visible = [], lp_text = None, lp_size = None, lp_peek = None\<rparr>"

datatype lens_view = LensHome | LensZoom | LensAlone string

definition rowOf :: "lens_prefs \<Rightarrow> string \<Rightarrow> lens_row" where
  "rowOf prefs spaceID = or_else (get (lp_rows prefs) spaceID) defaultLensRow"

text \<open>The spaces of one row, in space order.\<close>

definition lensRowsOf :: "string list \<Rightarrow> lens_prefs \<Rightarrow> lens_row \<Rightarrow> string list" where
  "lensRowsOf spaces prefs row = filter (\<lambda>s. rowOf prefs s = row) spaces"

definition lensOrder :: "string list \<Rightarrow> lens_prefs \<Rightarrow> string list" where
  "lensOrder spaces prefs = concat (map (lensRowsOf spaces prefs) lensRows)"

definition first_of :: "'a list \<Rightarrow> 'a option" where
  "first_of xs = (case xs of [] \<Rightarrow> None | x # _ \<Rightarrow> Some x)"

definition selectedSpace :: "string list \<Rightarrow> string option \<Rightarrow> string option" where
  "selectedSpace order selected =
     (case selected of Some s \<Rightarrow> if s \<noteq> [] \<and> s \<in> set order then Some s else first_of order | None \<Rightarrow> first_of order)"

text \<open>\<open>indexOf\<close>, \<open>-1\<close> when absent; a step is -1 or 1.\<close>

definition index_of :: "'a list \<Rightarrow> 'a \<Rightarrow> int" where
  "index_of xs x = (case find_index (\<lambda>y. y = x) xs of Some i \<Rightarrow> int i | None \<Rightarrow> - 1)"

definition stepCard :: "string list \<Rightarrow> string \<Rightarrow> int \<Rightarrow> string" where
  "stepCard order selected stp =
     (let i = index_of order selected;
          j = max 0 (min (int (length order) - 1) ((if i < 0 then 0 else i) + stp))
      in or_else (elem_at order j) selected)"

fun row_index :: "lens_row \<Rightarrow> nat" where
  "row_index FocusRow = 0"
| "row_index WatchRow = 1"
| "row_index BackgroundRow = 2"

text \<open>The rows passed from here, upwards or downwards.\<close>

definition rows_beyond :: "lens_row \<Rightarrow> int \<Rightarrow> lens_row list" where
  "rows_beyond here stp =
     (if stp > 0 then drop (Suc (row_index here)) lensRows else rev (take (row_index here) lensRows))"

definition stepRow :: "string list \<Rightarrow> lens_prefs \<Rightarrow> string \<Rightarrow> int \<Rightarrow> string" where
  "stepRow spaces prefs selected stp =
     (let here = rowOf prefs selected;
          column = (case find_index (\<lambda>s. s = selected) (lensRowsOf spaces prefs here) of Some i \<Rightarrow> i | None \<Rightarrow> 0)
      in case find (\<lambda>r. lensRowsOf spaces prefs r \<noteq> []) (rows_beyond here stp) of
           None \<Rightarrow> selected
         | Some r \<Rightarrow> (let row = lensRowsOf spaces prefs r in if column < length row then row ! column else last row))"

subsection \<open>Steps on the page\<close>

record card_rect =
  cr_id :: string
  cr_left :: rat
  cr_right :: rat
  cr_top :: rat
  cr_bottom :: rat

definition slack :: rat where
  "slack = 1"

definition centre :: "card_rect \<Rightarrow> rat" where
  "centre r = (cr_left r + cr_right r) / 2"

definition reduce_by :: "('a \<Rightarrow> 'a \<Rightarrow> bool) \<Rightarrow> 'a list \<Rightarrow> 'a" where
  "reduce_by replaces xs = fold (\<lambda>x best. if replaces x best then x else best) (tl xs) (hd xs)"

definition nearer :: "card_rect \<Rightarrow> card_rect \<Rightarrow> card_rect \<Rightarrow> bool" where
  "nearer origin r best =
     (let gap = \<bar>centre r - centre origin\<bar> - \<bar>centre best - centre origin\<bar>
      in gap < - slack \<or> (\<bar>gap\<bar> \<le> slack \<and> cr_left r < cr_left best))"

definition stepLine :: "card_rect list \<Rightarrow> string \<Rightarrow> int \<Rightarrow> string option" where
  "stepLine rects selected stp =
     (case find (\<lambda>r. cr_id r = selected) rects of
        None \<Rightarrow> None
      | Some origin \<Rightarrow>
          let beyond = filter (\<lambda>r. if stp > 0 then cr_bottom origin - slack \<le> cr_top r else cr_bottom r \<le> cr_top origin + slack) rects
          in if beyond = [] then Some selected
             else let nearest = reduce_by (\<lambda>r best. if stp > 0 then cr_top r < cr_top best else cr_bottom best < cr_bottom r) beyond;
                      line = filter (\<lambda>r. if stp > 0 then cr_top r < cr_bottom nearest else cr_top nearest < cr_bottom r) beyond
                  in Some (cr_id (reduce_by (nearer origin) line)))"

text \<open>\<open>True\<close> for read.\<close>

definition readToggle :: "nat \<Rightarrow> string" where
  "readToggle needs = (if needs > 0 then ''read'' else ''unread'')"

definition spaceStep :: "string list \<Rightarrow> string option \<Rightarrow> int \<Rightarrow> string option" where
  "spaceStep order origin stp =
     (if order = [] then None
      else let n = int (length order); i = (case origin of Some f \<Rightarrow> if f = [] then - 1 else index_of order f | None \<Rightarrow> - 1)
           in if i < 0 then Some (if stp > 0 then hd order else last order)
              else Some (order ! nat ((i + stp + n) mod n)))"

subsection \<open>A card's agents\<close>

definition liveMembers :: "space_member list \<Rightarrow> board option \<Rightarrow> string list" where
  "liveMembers members board =
     List.map_filter (\<lambda>m. case m of AgentMember a \<Rightarrow> if findAgentRow board a \<noteq> None then Some a else None | _ \<Rightarrow> None) members"

definition visibleAgent :: "string list \<Rightarrow> string option \<Rightarrow> string option" where
  "visibleAgent live pick =
     (case pick of Some p \<Rightarrow> if p \<noteq> [] \<and> p \<in> set live then Some p else first_of live | None \<Rightarrow> first_of live)"

definition cycleVisible :: "string list \<Rightarrow> string option \<Rightarrow> string option" where
  "cycleVisible live pick =
     map_option (\<lambda>current. live ! (nat (index_of live current + 1) mod length live)) (visibleAgent live pick)"

definition entryAgent :: "string list \<Rightarrow> string option \<Rightarrow> (string \<Rightarrow> bool) \<Rightarrow> string option" where
  "entryAgent live pick needs = (case find needs live of Some a \<Rightarrow> Some a | None \<Rightarrow> visibleAgent live pick)"

text \<open>The last panel is its kind and its name.\<close>

definition zoomLanding :: "(string \<times> string option) option \<Rightarrow> (string \<Rightarrow> bool) \<Rightarrow> string option \<Rightarrow> string option" where
  "zoomLanding last_panel onBoard entry =
     (case last_panel of
        None \<Rightarrow> entry
      | Some (kind, name) \<Rightarrow>
          if kind \<noteq> ''agent'' then None
          else (case name of Some a \<Rightarrow> if onBoard a then Some a else entry | None \<Rightarrow> entry))"

definition member_agents :: "space_member list \<Rightarrow> string list" where
  "member_agents ms = List.map_filter (\<lambda>m. case m of AgentMember a \<Rightarrow> Some a | _ \<Rightarrow> None) ms"

definition looseAgents :: "(string \<Rightarrow> string \<Rightarrow> bool) \<Rightarrow> string list \<Rightarrow> (string, space_member list) jsmap \<Rightarrow> string list" where
  "looseAgents le names by_space =
     (let held = concat (map member_agents (vals by_space))
      in sort_by le (filter (\<lambda>a. a \<notin> set held) names))"

subsection \<open>What needs the owner next\<close>

datatype lens_stop = SpaceStop string | AloneStop string

definition lens_stops :: "string list \<Rightarrow> string list \<Rightarrow> bool \<Rightarrow> lens_stop list" where
  "lens_stops order loose alone = map SpaceStop order @ (if alone then map AloneStop loose else [])"

fun stop_needs :: "(string \<Rightarrow> bool) \<Rightarrow> (string \<Rightarrow> bool) \<Rightarrow> lens_stop \<Rightarrow> bool" where
  "stop_needs spaceNeeds agentNeeds (SpaceStop i) = spaceNeeds i"
| "stop_needs spaceNeeds agentNeeds (AloneStop a) = agentNeeds a"

text \<open>The loop over the steps from \<open>start\<close>, \<open>k\<close> of them left.\<close>

fun search_stops :: "(lens_stop \<Rightarrow> bool) \<Rightarrow> lens_stop list \<Rightarrow> nat \<Rightarrow> nat \<Rightarrow> lens_stop option" where
  "search_stops needs stops i 0 = None"
| "search_stops needs stops i (Suc k) =
     (let stop = stops ! (i mod length stops) in if needs stop then Some stop else search_stops needs stops (Suc i) k)"

definition nextNeeding ::
    "string list \<Rightarrow> string list \<Rightarrow> lens_stop option \<Rightarrow> bool \<Rightarrow> (string \<Rightarrow> bool) \<Rightarrow> (string \<Rightarrow> bool) \<Rightarrow> lens_stop option" where
  "nextNeeding order loose origin alone spaceNeeds agentNeeds =
     (let stops = lens_stops order loose alone;
          start = (case find_index (\<lambda>s. origin = Some s) stops of None \<Rightarrow> 0 | Some i \<Rightarrow> Suc i)
      in search_stops (stop_needs spaceNeeds agentNeeds) stops start (length stops))"

subsection \<open>What a card says\<close>

datatype lens_status = LensBlocked | LensWorking | LensDone | LensIdle

definition lensStatus :: "row option \<Rightarrow> lens_status" where
  "lensStatus r =
     (if agentBlocked r then LensBlocked
      else case r of
             Some q \<Rightarrow> if ri_herdr (r_info q) = ''working'' then LensWorking
                        else if ri_herdr (r_info q) = ''done'' then LensDone else LensIdle
           | None \<Rightarrow> LensIdle)"

fun lens_status_name :: "lens_status \<Rightarrow> string" where
  "lens_status_name LensBlocked = ''blocked''"
| "lens_status_name LensWorking = ''working''"
| "lens_status_name LensDone = ''done''"
| "lens_status_name LensIdle = ''idle''"

definition dot :: string where
  "dot = '' '' @ [CHR 0xC2, CHR 0xB7] @ '' ''"

definition statusText :: "row option \<Rightarrow> bool \<Rightarrow> string" where
  "statusText r needs =
     (case r of
        None \<Rightarrow> ''no agent on the board''
      | Some q \<Rightarrow>
          let label = (if needs then ''your turn'' else lens_status_name (lensStatus r))
          in case ri_title (r_info q) of
               Some t \<Rightarrow> if t = [] then label else label @ dot @ t
             | None \<Rightarrow> label)"

definition focusSizes :: "(nat \<times> nat) list" where
  "focusSizes = [(284, 5), (360, 8), (440, 12), (240, 3)]"

text \<open>Width and lines.\<close>

definition cardShape :: "lens_row \<Rightarrow> nat \<Rightarrow> nat \<times> nat" where
  "cardShape r step =
     (let (width, lines) = focusSizes ! (step mod length focusSizes)
      in case r of FocusRow \<Rightarrow> (width, lines) | WatchRow \<Rightarrow> (width, 2) | BackgroundRow \<Rightarrow> (fst (focusSizes ! 3), 0))"

record card_look =
  ck_needs :: bool
  ck_selected :: bool
  ck_opacity :: rat

definition cardLook :: "nat \<Rightarrow> bool \<Rightarrow> lens_status option \<Rightarrow> card_look" where
  "cardLook needs selected st =
     \<lparr>ck_needs = (needs > 0), ck_selected = selected,
      ck_opacity = (if needs > 0 \<or> selected then 1 else if st = Some LensWorking then 3 / 4 else 1 / 2)\<rparr>"

definition whoLine :: "space_member list \<Rightarrow> string option \<Rightarrow> string \<times> int" where
  "whoLine members visible =
     (or_else visible [CHR 0xE2, CHR 0x80, CHR 0x94], int (length members) - (if visible = None then 0 else 1))"

definition headerLine :: "bool \<Rightarrow> nat \<Rightarrow> nat \<Rightarrow> bool \<Rightarrow> string" where
  "headerLine live spaces needYou serverUpdated =
     ''herder'' @ dot @ (if live then ''live'' else ''offline'') @ dot @ digits spaces @ '' space'' @ (if spaces = 1 then [] else ''s'')
     @ dot @ digits needYou @ '' need you'' @ (if serverUpdated then dot @ ''server updated'' else []) @ dot @ ''? keys''"

text \<open>The space, the agent, and whether the agent is alone.\<close>

definition crumbParts :: "lens_view \<Rightarrow> string option \<Rightarrow> string option \<Rightarrow> string \<times> string option \<times> bool" where
  "crumbParts view space agent =
     (case view of LensAlone a \<Rightarrow> (''no space'', Some a, True) | _ \<Rightarrow> (or_else space ''(space gone)'', agent, False))"

definition revealScroll :: "rat \<times> rat \<Rightarrow> rat \<times> rat \<Rightarrow> rat \<Rightarrow> rat" where
  "revealScroll view box scrollTop =
     (if fst box < fst view then scrollTop - (fst view - fst box)
      else if snd view < snd box then scrollTop + min (snd box - snd view) (fst box - fst view)
      else scrollTop)"

subsection \<open>Reading the answers\<close>

definition cardReadCap :: nat where
  "cardReadCap = 4"

record card_reads =
  cd_read :: "(string, num option \<times> string option) jsmap"
  cd_flight :: "(string, num option) jsmap"
  cd_failed :: "(string, num option) jsmap"

definition noCardReads :: card_reads where
  "noCardReads = \<lparr>cd_read = [], cd_flight = [], cd_failed = []\<rparr>"

definition read_due :: "card_reads \<Rightarrow> string \<times> num option \<Rightarrow> bool" where
  "read_due s c \<longleftrightarrow>
     (case get (cd_read s) (fst c) of Some r \<Rightarrow> fst r \<noteq> snd c | None \<Rightarrow> True) \<and>
     get (cd_flight s) (fst c) = None \<and> get (cd_failed s) (fst c) \<noteq> Some (snd c)"

definition dueCardReads :: "card_reads \<Rightarrow> (string, num option) jsmap \<Rightarrow> nat \<Rightarrow> (string \<times> num option) list" where
  "dueCardReads s carded cap = take (cap - length (cd_flight s)) (filter (read_due s) carded)"

definition startCardReads :: "card_reads \<Rightarrow> (string \<times> num option) list \<Rightarrow> card_reads" where
  "startCardReads s reads = s\<lparr>cd_flight := fold (\<lambda>(a, t). put a t) reads (cd_flight s)\<rparr>"

definition lastAnswer :: "('e \<Rightarrow> string option) \<Rightarrow> 'e list \<Rightarrow> string option" where
  "lastAnswer answer got = first_of (filter (\<lambda>x. x \<noteq> []) (List.map_filter answer (rev got)))"

text \<open>The got read, or \<open>None\<close> when the read failed.\<close>

definition landCardRead ::
    "('e \<Rightarrow> string option) \<Rightarrow> card_reads \<Rightarrow> string \<times> num option \<Rightarrow> 'e list option \<Rightarrow> (string, num option) jsmap \<Rightarrow> card_reads" where
  "landCardRead answer s r got carded =
     (let settled = s\<lparr>cd_flight := del (fst r) (cd_flight s)\<rparr>
      in if get carded (fst r) \<noteq> Some (snd r) then settled
         else case got of
                None \<Rightarrow> settled\<lparr>cd_failed := put (fst r) (snd r) (cd_failed s)\<rparr>
              | Some es \<Rightarrow>
                  (let old = Option.bind (get (cd_read s) (fst r)) snd;
                       found = (case lastAnswer answer es of Some x \<Rightarrow> Some x | None \<Rightarrow> old)
                   in settled\<lparr>cd_read := put (fst r) (snd r, found) (cd_read s)\<rparr>))"

definition keepCardReads :: "card_reads \<Rightarrow> (string \<Rightarrow> bool) \<Rightarrow> card_reads" where
  "keepCardReads s onBoard = s\<lparr>cd_read := filter (\<lambda>(a, _). onBoard a) (cd_read s)\<rparr>"

definition cardAnswer :: "card_reads \<Rightarrow> string \<Rightarrow> string option" where
  "cardAnswer s a = Option.bind (get (cd_read s) a) snd"

text \<open>
  What \<^verbatim>\<open>features/lens/useCardText.ts\<close> keeps: the cards' agents with their turns, the agents whose transcript is
  cached (their answer is read from there), and the reads. The reads are started whenever something changes.
\<close>

record card_view =
  cv_wanted :: "(string, num option) jsmap"
  cv_cached :: "string list"
  cv_reads :: card_reads

definition uncached :: "card_view \<Rightarrow> (string, num option) jsmap" where
  "uncached v = filter (\<lambda>p. fst p \<notin> set (cv_cached v)) (cv_wanted v)"

definition pump :: "card_view \<Rightarrow> card_view" where
  "pump v = v\<lparr>cv_reads := startCardReads (cv_reads v) (dueCardReads (cv_reads v) (uncached v) cardReadCap)\<rparr>"

definition show_cards :: "(string, num option) jsmap \<Rightarrow> string list \<Rightarrow> (string \<Rightarrow> bool) \<Rightarrow> card_view \<Rightarrow> card_view" where
  "show_cards wanted cached onBoard v =
     pump (v\<lparr>cv_wanted := wanted, cv_cached := cached, cv_reads := keepCardReads (cv_reads v) onBoard\<rparr>)"

definition read_lands :: "('e \<Rightarrow> string option) \<Rightarrow> string \<times> num option \<Rightarrow> 'e list option \<Rightarrow> card_view \<Rightarrow> card_view" where
  "read_lands answer r got v = pump (v\<lparr>cv_reads := landCardRead answer (cv_reads v) r got (cv_wanted v)\<rparr>)"

definition nextCardText :: "card_text_mode \<Rightarrow> card_text_mode" where
  "nextCardText m = (case m of AnswerText \<Rightarrow> StatusText | StatusText \<Rightarrow> CwdText | CwdText \<Rightarrow> AnswerText)"

definition nextCardSize :: "nat \<Rightarrow> nat \<Rightarrow> nat" where
  "nextCardSize step sizes = (step + 1) mod sizes"

end
