(* ===== verification/LensClaims.thy ===== *)
theory LensClaims
  imports Lens "HOL-Library.Multiset"
begin

section \<open>Properties of the lens\<close>

subsection \<open>What needs the owner next\<close>

lemma search_stops_find:
  "stops \<noteq> [] \<Longrightarrow> search_stops needs stops i k = find needs (map (\<lambda>j. stops ! (j mod length stops)) [i..<i + k])"
proof (induction k arbitrary: i)
  case (Suc k)
  have "[i..<i + Suc k] = i # [Suc i..<Suc i + k]" by (simp add: upt_conv_Cons del: upt_Suc)
  then show ?case using Suc.IH [of "Suc i"] Suc.prems by (simp add: Let_def del: upt_Suc)
qed simp

lemma rotated_stops: "map (\<lambda>j. xs ! (j mod length xs)) [i..<i + length xs] = rotate i xs"
  by (rule nth_equalityI) (simp_all add: nth_rotate add.commute)

lemma search_stops_rotate: "search_stops needs stops i (length stops) = find needs (rotate i stops)"
proof (cases "stops = []")
  case False
  show ?thesis unfolding search_stops_find [OF False] rotated_stops ..
qed simp

text \<open>The loop is a search in the stops turned so that they start after \<open>from\<close>.\<close>

lemma nextNeeding_find:
  "nextNeeding order loose origin alone sn an =
     find (stop_needs sn an)
       (rotate (case find_index (\<lambda>s. origin = Some s) (lens_stops order loose alone) of None \<Rightarrow> 0 | Some i \<Rightarrow> Suc i)
          (lens_stops order loose alone))"
  unfolding nextNeeding_def Let_def search_stops_rotate ..

lemma find_first: "find P xs = (case filter P xs of [] \<Rightarrow> None | x # _ \<Rightarrow> Some x)"
  by (induction xs) simp_all

lemma split_at_filtered:
  assumes "i < length (filter P xs)"
  shows "\<exists>ys zs. xs = ys @ (filter P xs ! i) # zs \<and> length (filter P ys) = i \<and> P (filter P xs ! i)"
  using assms
proof (induction xs arbitrary: i)
  case (Cons x xs)
  show ?case
  proof (cases "P x \<and> i = 0")
    case True
    then show ?thesis by (intro exI [of _ "[]"] exI [of _ xs]) simp
  next
    case False
    let ?k = "if P x then i - 1 else i"
    have k: "?k < length (filter P xs)" "filter P (x # xs) ! i = filter P xs ! ?k" using Cons.prems False by (auto simp: nth_Cons')
    from Cons.IH [OF k(1)] obtain ys zs where "xs = ys @ (filter P xs ! ?k) # zs" "length (filter P ys) = ?k" "P (filter P xs ! ?k)" by blast
    then show ?thesis using k(2) False by (intro exI [of _ "x # ys"] exI [of _ zs]) auto
  qed
qed simp

lemma next_in_rotation:
  assumes "xs = ys @ s # zs" and "P s" and "length (filter P ys) = i"
  shows "find P (zs @ ys @ [s]) = Some (filter P xs ! ((i + 1) mod length (filter P xs)))"
proof (cases "filter P zs")
  case Nil
  then show ?thesis using assms by (simp add: find_first split: list.split)
next
  case (Cons z rest)
  then show ?thesis using assms by (simp add: find_first nth_append)
qed

lemma found_stop:
  "case find P (rotate k xs) of None \<Rightarrow> filter P xs = [] | Some s \<Rightarrow> s \<in> set (filter P xs)"
proof (cases "find P (rotate k xs)")
  case None
  then have "\<forall>x \<in> set (rotate k xs). \<not> P x" by (simp add: find_None_iff)
  then show ?thesis using None by (simp add: filter_empty_conv)
next
  case (Some s)
  then have "s \<in> set (rotate k xs) \<and> P s" unfolding find_Some_iff using nth_mem by blast
  then show ?thesis using Some by simp
qed

text \<open>
  Going on to what needs the owner next visits everything that does and nothing else, in order and round
  again: from any stop that needs the owner the next one is the following such stop, from the last one the first;
  from anywhere else the answer is a stop that needs the owner whenever there is one, and none only when there is
  none.
\<close>

lemma next_needing_cycles:
  assumes "distinct order" and "distinct loose"
  shows "(let needing = filter (stop_needs sn an) (lens_stops order loose alone)
          in \<forall>i < length needing.
               nextNeeding order loose (Some (needing ! i)) alone sn an = Some (needing ! ((i + 1) mod length needing))) \<and>
         (case nextNeeding order loose origin alone sn an of
            None \<Rightarrow> filter (stop_needs sn an) (lens_stops order loose alone) = []
          | Some s \<Rightarrow> s \<in> set (filter (stop_needs sn an) (lens_stops order loose alone)))"
proof -
  let ?stops = "lens_stops order loose alone" and ?P = "stop_needs sn an"
  have d: "distinct ?stops" using assms by (auto simp: lens_stops_def distinct_map inj_on_def)
  have "nextNeeding order loose (Some (filter ?P ?stops ! i)) alone sn an = Some (filter ?P ?stops ! ((i + 1) mod length (filter ?P ?stops)))"
    if i: "i < length (filter ?P ?stops)" for i
  proof -
    let ?s = "filter ?P ?stops ! i"
    obtain ys zs where yz: "?stops = ys @ ?s # zs" "length (filter ?P ys) = i" "?P ?s" using split_at_filtered [OF i] by blast
    have "find_index (\<lambda>x. Some ?s = Some x) ?stops = Some (length ys)"
    proof -
      have "?s \<notin> set ys" using d yz(1) by (metis distinct_append distinct.simps(2) in_set_conv_decomp not_distinct_conv_prefix)
      moreover have "find_index (\<lambda>x. Some s = Some x) (ys @ s # zs) = Some (length ys)" if "s \<notin> set ys" for s
        using that by (induction ys) auto
      ultimately show ?thesis using yz(1) by metis
    qed
    then have "nextNeeding order loose (Some ?s) alone sn an = find ?P (rotate (Suc (length ys)) (ys @ ?s # zs))"
      unfolding nextNeeding_find using yz(1) by simp
    also have "rotate (Suc (length ys)) (ys @ ?s # zs) = zs @ ys @ [?s]"
      using rotate_append [of "ys @ [?s]" zs] by simp
    finally have n: "nextNeeding order loose (Some ?s) alone sn an = find ?P (zs @ ys @ [?s])" .
    show ?thesis unfolding n by (rule next_in_rotation [OF yz(1,3,2)])
  qed
  moreover have "case nextNeeding order loose origin alone sn an of
            None \<Rightarrow> filter ?P ?stops = []
          | Some s \<Rightarrow> s \<in> set (filter ?P ?stops)"
    unfolding nextNeeding_find by (rule found_stop)
  ultimately show ?thesis unfolding Let_def by blast
qed

lemma next_needing_cycles_witness:
  "nextNeeding [''a'', ''b'', ''c''] [''x''] (Some (SpaceStop ''c'')) True (\<lambda>i. i \<noteq> ''b'') (\<lambda>_. False) = Some (SpaceStop ''a'')"
proof -
  have d: "distinct [''a'', ''b'', ''c'']" "distinct [''x'']" by simp_all
  have n: "filter (stop_needs (\<lambda>i. i \<noteq> ''b'') (\<lambda>_. False)) (lens_stops [''a'', ''b'', ''c''] [''x''] True) = [SpaceStop ''a'', SpaceStop ''c'']"
    by (simp add: lens_stops_def)
  have l: "(1::nat) < length [SpaceStop ''a'', SpaceStop ''c'']" by simp
  show ?thesis
    using next_needing_cycles [OF d, of "\<lambda>i. i \<noteq> ''b''" "\<lambda>_. False" True None, THEN conjunct1, unfolded Let_def n, rule_format, OF l]
    by simp
qed

subsection \<open>The reads of the cards come to rest\<close>

inductive card_run :: "('e \<Rightarrow> string option) \<Rightarrow> card_view \<Rightarrow> bool" for answer :: "'e \<Rightarrow> string option" where
  opened: "wf_map wanted \<Longrightarrow> card_run answer (show_cards wanted cached onBoard \<lparr>cv_wanted = [], cv_cached = [], cv_reads = noCardReads\<rparr>)"
| shown: "card_run answer v \<Longrightarrow> wf_map wanted \<Longrightarrow> card_run answer (show_cards wanted cached onBoard v)"
| landed: "card_run answer v \<Longrightarrow> get (cd_flight (cv_reads v)) a = Some t \<Longrightarrow> card_run answer (read_lands answer (a, t) got v)"

definition settled_for :: "card_reads \<Rightarrow> string \<times> num option \<Rightarrow> bool" where
  "settled_for s c \<longleftrightarrow>
     (case get (cd_read s) (fst c) of Some r \<Rightarrow> fst r = snd c | None \<Rightarrow> False) \<or> get (cd_failed s) (fst c) = Some (snd c)"

text \<open>Before the reads are started, and after.\<close>

definition reads_ok :: "card_view \<Rightarrow> bool" where
  "reads_ok v \<longleftrightarrow>
     wf_map (cv_wanted v) \<and> wf_map (cd_flight (cv_reads v)) \<and> length (cd_flight (cv_reads v)) \<le> cardReadCap \<and>
     (\<forall>c \<in> set (cd_flight (cv_reads v)). \<not> settled_for (cv_reads v) c)"

definition pumped :: "card_view \<Rightarrow> bool" where
  "pumped v \<longleftrightarrow> reads_ok v \<and>
     (length (cd_flight (cv_reads v)) < cardReadCap \<longrightarrow>
        (\<forall>c \<in> set (uncached v). settled_for (cv_reads v) c \<or> get (cd_flight (cv_reads v)) (fst c) \<noteq> None))"

lemma read_due_iff: "read_due s c \<longleftrightarrow> \<not> settled_for s c \<and> get (cd_flight s) (fst c) = None"
  by (cases "get (cd_read s) (fst c)") (auto simp: read_due_def settled_for_def)

lemma settled_flight [simp]: "settled_for (s\<lparr>cd_flight := m\<rparr>) c = settled_for s c"
  by (simp add: settled_for_def)

lemma put_new: "a \<notin> set (keys m) \<Longrightarrow> put a t m = m @ [(a, t)]"
  by (induction m) auto

lemma start_flight:
  assumes "distinct (map fst rs)" and "set (map fst rs) \<inter> set (keys m) = {}"
  shows "fold (\<lambda>(a, t). put a t) rs m = m @ rs"
  using assms
proof (induction rs arbitrary: m)
  case (Cons r rs)
  obtain a t where r: "r = (a, t)" by fastforce
  have m: "put a t m = m @ [(a, t)]" using Cons.prems(2) unfolding r by (intro put_new) auto
  have d: "distinct (map fst rs)" "set (map fst rs) \<inter> set (keys (m @ [(a, t)])) = {}"
    using Cons.prems unfolding r by auto
  show ?case using Cons.IH [OF d] unfolding r by (simp add: m)
qed simp

lemma due_reads:
  assumes "reads_ok v"
  defines "due \<equiv> dueCardReads (cv_reads v) (uncached v) cardReadCap"
  shows "distinct (map fst due)" "set (map fst due) \<inter> set (keys (cd_flight (cv_reads v))) = {}"
    and "c \<in> set due \<Longrightarrow> c \<in> set (uncached v) \<and> \<not> settled_for (cv_reads v) c"
proof -
  have "distinct (map fst (filter (read_due (cv_reads v)) (uncached v)))"
    using assms unfolding reads_ok_def uncached_def filter_filter by (intro distinct_map_filter) blast
  then show "distinct (map fst due)" unfolding due_def dueCardReads_def take_map [symmetric] by (rule distinct_take)
  have s: "set due \<subseteq> set (filter (read_due (cv_reads v)) (uncached v))"
    unfolding due_def dueCardReads_def by (rule set_take_subset)
  then have "\<forall>c \<in> set due. fst c \<notin> set (keys (cd_flight (cv_reads v)))"
    unfolding read_due_iff get_None_keys by auto
  then show "set (map fst due) \<inter> set (keys (cd_flight (cv_reads v))) = {}" by auto
  show "c \<in> set (uncached v) \<and> \<not> settled_for (cv_reads v) c" if "c \<in> set due"
    using s that unfolding read_due_iff by auto
qed

lemma pump_flight:
  assumes "reads_ok v"
  shows "cd_flight (cv_reads (pump v)) =
    cd_flight (cv_reads v) @ dueCardReads (cv_reads v) (uncached v) cardReadCap"
  unfolding pump_def startCardReads_def using start_flight [OF due_reads(1, 2) [OF assms]] by simp

lemma pump_same [simp]:
  "cv_wanted (pump v) = cv_wanted v" "uncached (pump v) = uncached v"
  "settled_for (cv_reads (pump v)) = settled_for (cv_reads v)"
  by (rule ext | simp add: pump_def uncached_def startCardReads_def)+

lemma pump_pumped:
  assumes "reads_ok v"
  shows "pumped (pump v)"
proof -
  let ?due = "dueCardReads (cv_reads v) (uncached v) cardReadCap" and ?fl = "cd_flight (cv_reads v)"
  note f = pump_flight [OF assms] and d = due_reads [OF assms]
  have l: "length ?due \<le> cardReadCap - length ?fl" by (simp add: dueCardReads_def)
  have len: "length ?fl \<le> cardReadCap" using assms unfolding reads_ok_def by blast
  have "wf_map (?fl @ ?due)" using assms d(1, 2) unfolding reads_ok_def by auto
  moreover have "length (?fl @ ?due) \<le> cardReadCap" using l len by simp
  moreover have "\<forall>c \<in> set (?fl @ ?due). \<not> settled_for (cv_reads v) c"
    using assms d(3) unfolding reads_ok_def by auto
  ultimately have ok: "reads_ok (pump v)" using assms unfolding reads_ok_def f pump_same by blast
  have "settled_for (cv_reads v) c \<or> get (?fl @ ?due) (fst c) \<noteq> None"
    if less: "length (?fl @ ?due) < cardReadCap" and c: "c \<in> set (uncached v)" for c
  proof (cases "settled_for (cv_reads v) c \<or> get ?fl (fst c) \<noteq> None")
    case True
    then show ?thesis unfolding get_None_keys by auto
  next
    case False
    then have "c \<in> set (filter (read_due (cv_reads v)) (uncached v))" using c unfolding read_due_iff by simp
    moreover have "?due = filter (read_due (cv_reads v)) (uncached v)"
      using less unfolding dueCardReads_def by (intro take_all) simp
    ultimately have "c \<in> set ?due" by (metis (no_types))
    then show ?thesis unfolding get_None_keys by auto
  qed
  then show ?thesis using ok unfolding pumped_def f pump_same by blast
qed

lemma get_filter_keys: "get (filter (\<lambda>(a, _). P a) m) k = (if P k then get m k else None)"
  by (induction m) auto

lemma shown_ok:
  assumes "wf_map wanted" and "reads_ok v"
  shows "reads_ok (v\<lparr>cv_wanted := wanted, cv_cached := cached, cv_reads := keepCardReads (cv_reads v) onBoard\<rparr>)"
proof -
  have "settled_for (cv_reads v) c" if "settled_for (keepCardReads (cv_reads v) onBoard) c" for c
    using that unfolding settled_for_def keepCardReads_def
    by (auto simp: get_filter_keys split: option.splits if_splits)
  then have "\<forall>c \<in> set (cd_flight (cv_reads v)). \<not> settled_for (keepCardReads (cv_reads v) onBoard) c"
    using assms(2) unfolding reads_ok_def by blast
  moreover have "cd_flight (keepCardReads (cv_reads v) onBoard) = cd_flight (cv_reads v)" by (simp add: keepCardReads_def)
  ultimately show ?thesis using assms unfolding reads_ok_def by simp
qed

text \<open>A landing takes one read out of flight, and settles no other card and unsettles none on the page.\<close>

lemma landed_flight: "cd_flight (landCardRead answer s r got wanted) = del (fst r) (cd_flight s)"
  by (cases got) (simp_all add: landCardRead_def Let_def)

lemma landed_settled:
  assumes "get wanted b = Some u"
  shows "settled_for (landCardRead answer s (a, t) got wanted) (b, u) \<longleftrightarrow> settled_for s (b, u) \<or> (b = a \<and> u = t)"
proof (cases "get wanted a = Some t")
  case True
  then show ?thesis using assms
    by (cases got) (auto simp: landCardRead_def Let_def settled_for_def get_put split: option.splits)
next
  case False
  then show ?thesis using assms by (auto simp: landCardRead_def settled_for_def)
qed

lemma landed_other:
  assumes "b \<noteq> a"
  shows "settled_for (landCardRead answer s (a, t) got wanted) (b, u) \<longleftrightarrow> settled_for s (b, u)"
  using assms by (cases got) (auto simp: landCardRead_def Let_def settled_for_def get_put)

lemma landed_ok:
  assumes "reads_ok v"
  shows "reads_ok (v\<lparr>cv_reads := landCardRead answer (cv_reads v) (a, t) got (cv_wanted v)\<rparr>)"
proof -
  have "\<not> settled_for (landCardRead answer (cv_reads v) (a, t) got (cv_wanted v)) c"
    if "c \<in> set (del a (cd_flight (cv_reads v)))" for c
  proof -
    have c: "c \<in> set (cd_flight (cv_reads v))" "fst c \<noteq> a" using that unfolding in_del by blast+
    have "\<not> settled_for (cv_reads v) (fst c, snd c)" using assms c(1) unfolding reads_ok_def by simp
    then show ?thesis using landed_other [OF c(2), of answer "cv_reads v" t got "cv_wanted v" "snd c"] by simp
  qed
  moreover have "length (del a (cd_flight (cv_reads v))) \<le> cardReadCap"
    using assms length_delete_le [of a "cd_flight (cv_reads v)"] unfolding reads_ok_def by linarith
  moreover have "wf_map (del a (cd_flight (cv_reads v)))" using assms unfolding reads_ok_def by (intro wf_del) blast
  ultimately show ?thesis using assms unfolding reads_ok_def by (simp add: landed_flight)
qed

lemma card_run_pumped: "card_run answer v \<Longrightarrow> pumped v"
proof (induction rule: card_run.induct)
  case (opened wanted cached onBoard)
  have "reads_ok \<lparr>cv_wanted = [], cv_cached = [], cv_reads = noCardReads\<rparr>" by (simp add: reads_ok_def noCardReads_def)
  then show ?case unfolding show_cards_def by (intro pump_pumped shown_ok opened)
next
  case (shown v wanted cached onBoard)
  then have "reads_ok v" unfolding pumped_def by blast
  then show ?case unfolding show_cards_def by (intro pump_pumped shown_ok shown)
next
  case (landed v a t got)
  then have "reads_ok v" unfolding pumped_def by blast
  then show ?case unfolding read_lands_def by (intro pump_pumped landed_ok)
qed

text \<open>What is left to read: the cards without an answer for their turn, and the reads nobody waits for any more.\<close>

definition stale_for :: "(string, num option) jsmap \<Rightarrow> string \<times> num option \<Rightarrow> bool" where
  "stale_for carded r \<longleftrightarrow> get carded (fst r) \<noteq> Some (snd r)"

definition reads_left :: "card_view \<Rightarrow> nat" where
  "reads_left v = length (filter (\<lambda>c. \<not> settled_for (cv_reads v) c) (uncached v)) +
     length (filter (stale_for (uncached v)) (cd_flight (cv_reads v)))"

lemma uncached_wf: "reads_ok v \<Longrightarrow> wf_map (uncached v)"
  unfolding reads_ok_def uncached_def by (intro distinct_map_filter) blast

lemma get_of_in: "wf_map m \<Longrightarrow> c \<in> set m \<Longrightarrow> get m (fst c) = Some (snd c)"
  by (metis map_of_is_SomeI prod.collapse)

lemma reads_left_pump:
  assumes "reads_ok v"
  shows "reads_left (pump v) = reads_left v"
proof -
  have "\<not> stale_for (uncached v) c" if "c \<in> set (dueCardReads (cv_reads v) (uncached v) cardReadCap)" for c
    using due_reads(3) [OF assms that] get_of_in [OF uncached_wf [OF assms]] unfolding stale_for_def by blast
  then have "filter (stale_for (uncached v)) (dueCardReads (cv_reads v) (uncached v) cardReadCap) = []"
    by (simp add: filter_empty_conv)
  then show ?thesis unfolding reads_left_def pump_flight [OF assms] by simp
qed

lemma filter_del: "filter P (del a m) = del a (filter P m)"
  by (induction m) auto

lemma length_del: "wf_map m \<Longrightarrow> length m = length (del a m) + (if a \<in> set (keys m) then 1 else 0)"
proof (induction m)
  case (Cons p m)
  then show ?case by (cases "fst p = a") auto
qed simp

lemma length_filter_one:
  assumes "distinct xs" and "x \<in> set xs" and "P x" and "\<And>y. y \<in> set xs \<Longrightarrow> Q y \<longleftrightarrow> P y \<and> y \<noteq> x"
  shows "length (filter P xs) = Suc (length (filter Q xs))"
proof -
  have e: "filter Q xs = filter (\<lambda>y. y \<noteq> x) (filter P xs)" unfolding filter_filter using assms(4) by (intro filter_cong) auto
  have "filter (\<lambda>y. y \<noteq> x) ys = remove1 x ys" if "distinct ys" for ys
    using that by (induction ys) (auto simp: filter_id_conv)
  from this [of "filter P xs"] have "filter Q xs = remove1 x (filter P xs)" unfolding e using assms(1) by simp
  then have "length (filter Q xs) = length (filter P xs) - 1" using assms(2,3) by (simp add: length_remove1)
  moreover have "filter P xs \<noteq> []" using assms(2,3) by (auto simp: filter_empty_conv)
  ultimately show ?thesis by (cases "filter P xs") auto
qed

lemma landing_progress:
  assumes v: "reads_ok v" and r: "get (cd_flight (cv_reads v)) a = Some t"
  shows "reads_left (v\<lparr>cv_reads := landCardRead answer (cv_reads v) (a, t) got (cv_wanted v)\<rparr>) < reads_left v"
proof -
  let ?s = "cv_reads v" and ?u = "uncached v"
  let ?s' = "landCardRead answer ?s (a, t) got (cv_wanted v)"
  let ?stale = "filter (stale_for ?u) (cd_flight ?s)"
  note wf = uncached_wf [OF v]
  have u': "uncached (v\<lparr>cv_reads := ?s'\<rparr>) = ?u" by (simp add: uncached_def)
  have left': "reads_left (v\<lparr>cv_reads := ?s'\<rparr>) =
      length (filter (\<lambda>c. \<not> settled_for ?s' c) ?u) + length (del a ?stale)"
    unfolding reads_left_def u' filter_del [symmetric] by (simp add: landed_flight)
  have settled: "settled_for ?s' c \<longleftrightarrow> settled_for ?s c \<or> c = (a, t)" if c: "c \<in> set ?u" for c
  proof -
    have "c \<in> set (cv_wanted v)" using c unfolding uncached_def by simp
    then have "get (cv_wanted v) (fst c) = Some (snd c)" using v unfolding reads_ok_def by (intro get_of_in) blast+
    from landed_settled [OF this, of answer ?s a t got] show ?thesis by (simp add: prod_eq_iff)
  qed
  have "wf_map ?stale" using v unfolding reads_ok_def by (intro distinct_map_filter) blast
  from length_del [OF this, of a] have stale: "length ?stale = length (del a ?stale) + (if a \<in> set (keys ?stale) then 1 else 0)" .
  have in_fl: "(a, t) \<in> set (cd_flight ?s)" using r by (rule get_Some_in)
  show ?thesis
  proof (cases "get ?u a = Some t")
    case True
    then have i: "(a, t) \<in> set ?u" by (rule get_Some_in)
    have n: "\<not> settled_for ?s (a, t)" using v in_fl unfolding reads_ok_def by blast
    have "distinct ?u" using wf unfolding distinct_map by blast
    then have "length (filter (\<lambda>c. \<not> settled_for ?s c) ?u) = Suc (length (filter (\<lambda>c. \<not> settled_for ?s' c) ?u))"
      using i n settled by (intro length_filter_one [of _ "(a, t)"]) auto
    then show ?thesis using stale unfolding left' reads_left_def [of v] by linarith
  next
    case False
    then have "(a, t) \<in> set ?stale" using in_fl unfolding stale_for_def by simp
    then have k: "a \<in> set (keys ?stale)" by force
    have "(a, t) \<notin> set ?u" using False get_of_in [OF wf] by fastforce
    then have "filter (\<lambda>c. \<not> settled_for ?s' c) ?u = filter (\<lambda>c. \<not> settled_for ?s c) ?u"
      using settled by (intro filter_cong) auto
    then show ?thesis using stale k unfolding left' reads_left_def [of v] by simp
  qed
qed

lemma at_rest:
  assumes "pumped v"
  shows "cd_flight (cv_reads v) = [] \<longleftrightarrow> reads_left v = 0"
proof
  assume e: "cd_flight (cv_reads v) = []"
  then have "\<forall>c \<in> set (uncached v). settled_for (cv_reads v) c" using assms unfolding pumped_def by (simp add: cardReadCap_def)
  then show "reads_left v = 0" unfolding reads_left_def e by simp
next
  assume z: "reads_left v = 0"
  show "cd_flight (cv_reads v) = []"
  proof (rule ccontr)
    assume "cd_flight (cv_reads v) \<noteq> []"
    then obtain c where c: "c \<in> set (cd_flight (cv_reads v))" by (meson last_in_set)
    have "\<not> stale_for (uncached v) c" using z c unfolding reads_left_def by (auto simp: filter_empty_conv)
    then have "c \<in> set (uncached v)" unfolding stale_for_def using get_Some_in by fastforce
    then have "settled_for (cv_reads v) c" using z unfolding reads_left_def by (auto simp: filter_empty_conv)
    then show False using assms c unfolding pumped_def reads_ok_def by blast
  qed
qed

text \<open>
  C27. Termination of the reads of the cards: however the cards have changed and whatever the reads that landed
  brought, at most four reads run at once, one per agent, none for a card that has its answer; each landing makes
  what is left to read strictly less, whether it brought entries, failed, or came for a turn that is past; and no
  read is running exactly when every card on the page whose transcript is not cached has its answer, or has failed,
  for its current turn.
\<close>

theorem card_reads_come_to_rest:
  assumes "card_run answer v"
  shows "(let reads = cv_reads v in
      length (cd_flight reads) \<le> cardReadCap \<and> distinct (keys (cd_flight reads)) \<and>
      (\<forall>r \<in> set (cd_flight reads). \<not> settled_for reads r) \<and>
      (\<forall>a t got. get (cd_flight reads) a = Some t \<longrightarrow> reads_left (read_lands answer (a, t) got v) < reads_left v) \<and>
      (cd_flight reads = [] \<longleftrightarrow> reads_left v = 0) \<and>
      (cd_flight reads = [] \<longrightarrow> (\<forall>c \<in> set (uncached v). settled_for reads c)))"
proof -
  have p: "pumped v" using assms by (rule card_run_pumped)
  then have ok: "reads_ok v" unfolding pumped_def by blast
  have "reads_left (read_lands answer (a, t) got v) < reads_left v"
    if "get (cd_flight (cv_reads v)) a = Some t" for a t got
    unfolding read_lands_def reads_left_pump [OF landed_ok [OF ok]] by (rule landing_progress [OF ok that])
  moreover have "\<forall>c \<in> set (uncached v). settled_for (cv_reads v) c" if "cd_flight (cv_reads v) = []"
    using p that unfolding pumped_def by (simp add: cardReadCap_def)
  ultimately show ?thesis using ok at_rest [OF p] unfolding reads_ok_def Let_def by blast
qed

definition five_cards :: "(string, num option) jsmap" where
  "five_cards = [(''a'', Some 1), (''b'', None), (''c'', Some 3), (''d'', Some 4), (''e'', Some 5)]"

definition five_shown :: card_view where
  "five_shown = show_cards five_cards [''b''] (\<lambda>_. True) \<lparr>cv_wanted = [], cv_cached = [], cv_reads = noCardReads\<rparr>"

theorem card_reads_come_to_rest_witness:
  "keys (cd_flight (cv_reads five_shown)) = [''a'', ''c'', ''d'', ''e''] \<and>
   reads_left (read_lands (\<lambda>x. Some x) (''a'', Some 1) (Some [''hello'']) five_shown) < reads_left five_shown \<and>
   cardAnswer (cv_reads (read_lands (\<lambda>x. Some x) (''a'', Some 1) (Some [''hello'']) five_shown)) ''a'' = Some ''hello''"
proof -
  have run: "card_run (\<lambda>x. Some x) five_shown" unfolding five_shown_def by (rule card_run.opened) (simp add: five_cards_def)
  have f: "keys (cd_flight (cv_reads five_shown)) = [''a'', ''c'', ''d'', ''e'']" by code_simp
  have g: "get (cd_flight (cv_reads five_shown)) ''a'' = Some (Some 1)" by code_simp
  have h: "cardAnswer (cv_reads (read_lands (\<lambda>x. Some x) (''a'', Some 1) (Some [''hello'']) five_shown)) ''a'' = Some ''hello''"
    by code_simp
  show ?thesis using card_reads_come_to_rest [OF run, unfolded Let_def] f g h by blast
qed

end
