(* ===== verification/JsonText.thy ===== *)
theory JsonText
  imports Encoding
begin

section \<open>Reading a JSON text back\<close>

text \<open>
  \<open>JSON.parse\<close> on the texts that \<open>JSON.stringify\<close> writes: compact, with integers only. Any other text is
  \<open>None\<close> here, so the reader is used only where the program reads back a text it wrote itself. The fuel counts
  nested values; \<open>json_size\<close> of the value is enough.
\<close>

definition quote :: char where
  "quote = CHR 0x22"

definition bslash :: char where
  "bslash = CHR 0x5C"

definition control_value :: "char \<Rightarrow> char \<Rightarrow> char" where
  "control_value a b =
     char_of ((16 :: nat) * (of_char a - 48) + (if (of_char b :: nat) < 58 then of_char b - 48 else of_char b - 87))"

fun parse_escape :: "string \<Rightarrow> (char \<times> string) option" where
  "parse_escape [] = None"
| "parse_escape (c # r) =
     (if c = quote \<or> c = bslash then Some (c, r)
      else if c = CHR ''b'' then Some (char_of (8 :: nat), r)
      else if c = CHR ''t'' then Some (char_of (9 :: nat), r)
      else if c = CHR ''n'' then Some (char_of (10 :: nat), r)
      else if c = CHR ''f'' then Some (char_of (12 :: nat), r)
      else if c = CHR ''r'' then Some (char_of (13 :: nat), r)
      else if c = CHR ''u'' \<and> length r \<ge> 4 then Some (control_value (r ! 2) (r ! 3), drop 4 r)
      else None)"

lemma parse_escape_shorter: "parse_escape s = Some (c, r) \<Longrightarrow> length r < length s"
  by (cases s) (auto split: if_splits)

text \<open>The characters up to the closing quote.\<close>

function parse_chars :: "string \<Rightarrow> (string \<times> string) option" where
  "parse_chars [] = None"
| "parse_chars (c # s) =
     (if c = quote then Some ([], s)
      else if c = bslash then
        (case parse_escape s of
           None \<Rightarrow> None
         | Some (d, r) \<Rightarrow> map_option (\<lambda>(t, u). (d # t, u)) (parse_chars r))
      else map_option (\<lambda>(t, u). (c # t, u)) (parse_chars s))"
  by pat_completeness auto
termination
  by (relation "measure length") (auto dest: parse_escape_shorter)

definition is_json_digit :: "char \<Rightarrow> bool" where
  "is_json_digit c \<longleftrightarrow> 48 \<le> (of_char c :: nat) \<and> (of_char c :: nat) \<le> 57"

definition parse_int :: "string \<Rightarrow> (num \<times> string) option" where
  "parse_int s =
     (let neg = (s \<noteq> [] \<and> hd s = CHR ''-''); t = (if neg then drop 1 s else s); ds = takeWhile is_json_digit t
      in if ds = [] then None
         else Some (if neg then - int (number_value ds) else int (number_value ds), dropWhile is_json_digit t))"

fun parse_json :: "nat \<Rightarrow> string \<Rightarrow> (json \<times> string) option"
  and parse_items :: "nat \<Rightarrow> string \<Rightarrow> (json list \<times> string) option"
  and parse_members :: "nat \<Rightarrow> string \<Rightarrow> ((string \<times> json) list \<times> string) option" where
  "parse_json 0 s = None"
| "parse_json (Suc n) s =
     (if starts_with ''null'' s then Some (JNull, drop 4 s)
      else if starts_with ''true'' s then Some (JBool True, drop 4 s)
      else if starts_with ''false'' s then Some (JBool False, drop 5 s)
      else case s of
             [] \<Rightarrow> None
           | c # r \<Rightarrow>
               if c = quote then map_option (\<lambda>(t, u). (JStr t, u)) (parse_chars r)
               else if c = CHR ''['' then
                 (if r \<noteq> [] \<and> hd r = CHR '']'' then Some (JArr [], tl r)
                  else map_option (\<lambda>(xs, u). (JArr xs, u)) (parse_items n r))
               else if c = CHR ''{'' then
                 (if r \<noteq> [] \<and> hd r = CHR ''}'' then Some (JObj [], tl r)
                  else map_option (\<lambda>(kvs, u). (JObj kvs, u)) (parse_members n r))
               else map_option (\<lambda>(k, u). (JNum k, u)) (parse_int s))"
| "parse_items 0 s = None"
| "parse_items (Suc n) s =
     (case parse_json n s of
        None \<Rightarrow> None
      | Some (v, r) \<Rightarrow>
          if r \<noteq> [] \<and> hd r = CHR '','' then map_option (\<lambda>(vs, u). (v # vs, u)) (parse_items n (tl r))
          else if r \<noteq> [] \<and> hd r = CHR '']'' then Some ([v], tl r)
          else None)"
| "parse_members 0 s = None"
| "parse_members (Suc n) s =
     (if s \<noteq> [] \<and> hd s = quote then
        (case parse_chars (tl s) of
           None \<Rightarrow> None
         | Some (k, r) \<Rightarrow>
             if r \<noteq> [] \<and> hd r = CHR '':'' then
               (case parse_json n (tl r) of
                  None \<Rightarrow> None
                | Some (v, u) \<Rightarrow>
                    if u \<noteq> [] \<and> hd u = CHR '','' then map_option (\<lambda>(kvs, w). ((k, v) # kvs, w)) (parse_members n (tl u))
                    else if u \<noteq> [] \<and> hd u = CHR ''}'' then Some ([(k, v)], tl u)
                    else None)
             else None)
      else None)"

text \<open>The whole text is one value.\<close>

definition read_json :: "string \<Rightarrow> json option" where
  "read_json s = (case parse_json (Suc (length s)) s of Some (v, []) \<Rightarrow> Some v | _ \<Rightarrow> None)"

subsection \<open>Strings and numbers\<close>

lemma char_of_codes: "char_of (34 :: nat) = quote" "char_of (92 :: nat) = bslash"
  unfolding quote_def bslash_def by code_simp+

lemma of_char_codes: "of_char quote = (34 :: nat)" "of_char bslash = (92 :: nat)"
  unfolding quote_def bslash_def by code_simp+

lemma punct: "quote \<noteq> bslash" "CHR ''['' \<noteq> quote" "CHR ''{'' \<noteq> quote" "quote \<notin> {CHR ''n'', CHR ''t'', CHR ''f''}"
  by (simp_all add: quote_def bslash_def)

text \<open>The last two digits of \<open>\u00XX\<close>, \<open>n div 16\<close> being 0 or 1.\<close>

lemma control_value_digits:
  assumes "n < 32"
  shows "control_value (hex_digit (n div 16)) (char_of (if n mod 16 < 10 then 48 + n mod 16 else 87 + n mod 16)) = char_of n"
proof -
  have d: "of_char (hex_digit (n div 16)) - (48 :: nat) = n div 16" using assms by (simp add: hex_digit_def)
  have m: "n mod 16 < 16" by simp
  have "(if (of_char (char_of (if n mod 16 < 10 then 48 + n mod 16 else 87 + n mod 16)) :: nat) < 58
         then of_char (char_of (if n mod 16 < 10 then 48 + n mod 16 else 87 + n mod 16)) - 48
         else of_char (char_of (if n mod 16 < 10 then 48 + n mod 16 else 87 + n mod 16)) - (87 :: nat)) = n mod 16"
    using m by simp
  then show ?thesis unfolding control_value_def d by simp
qed

lemma char_code: "of_char c = (n :: nat) \<Longrightarrow> c = char_of n"
  by (metis char_of_char)

lemma parse_escaped_char: "parse_chars (escape_char c @ s) = map_option (\<lambda>(t, u). (c # t, u)) (parse_chars s)"
proof -
  let ?n = "of_char c :: nat"
  have q: "quote \<noteq> bslash" by (simp add: quote_def bslash_def)
  have esc: "parse_chars (bslash # r) = (case parse_escape r of None \<Rightarrow> None | Some (d, r') \<Rightarrow> map_option (\<lambda>(t, u). (d # t, u)) (parse_chars r'))" for r
    using q by simp
  consider "?n = 34" | "?n = 92" | "?n = 8" | "?n = 9" | "?n = 10" | "?n = 12" | "?n = 13"
    | "?n \<notin> {8, 9, 10, 12, 13}" "?n < 32" | "?n \<notin> {34, 92}" "\<not> ?n < 32" by auto
  then show ?thesis
  proof cases
    case 1
    then have "c = quote" unfolding char_of_codes [symmetric] by (rule char_code)
    then have "escape_char c = [bslash, quote]" by (simp add: escape_char_def char_of_codes of_char_codes)
    then show ?thesis using \<open>c = quote\<close> by (simp add: esc q [symmetric])
  next
    case 2
    then have "c = bslash" unfolding char_of_codes [symmetric] by (rule char_code)
    then have "escape_char c = [bslash, bslash]" by (simp add: escape_char_def char_of_codes of_char_codes)
    then show ?thesis using \<open>c = bslash\<close> by (simp add: esc q [symmetric])
  next
    case 3
    then have "escape_char c = [bslash, CHR ''b'']" by (simp add: escape_char_def char_of_codes of_char_codes)
    then show ?thesis using char_code [OF 3] by (simp add: esc quote_def bslash_def)
  next
    case 4
    then have "escape_char c = [bslash, CHR ''t'']" by (simp add: escape_char_def char_of_codes of_char_codes)
    then show ?thesis using char_code [OF 4] by (simp add: esc quote_def bslash_def)
  next
    case 5
    then have "escape_char c = [bslash, CHR ''n'']" by (simp add: escape_char_def char_of_codes of_char_codes)
    then show ?thesis using char_code [OF 5] by (simp add: esc quote_def bslash_def)
  next
    case 6
    then have "escape_char c = [bslash, CHR ''f'']" by (simp add: escape_char_def char_of_codes of_char_codes)
    then show ?thesis using char_code [OF 6] by (simp add: esc quote_def bslash_def)
  next
    case 7
    then have "escape_char c = [bslash, CHR ''r'']" by (simp add: escape_char_def char_of_codes of_char_codes)
    then show ?thesis using char_code [OF 7] by (simp add: esc quote_def bslash_def)
  next
    case 8
    let ?x = "hex_digit (?n div 16)" and ?y = "char_of (if ?n mod 16 < 10 then 48 + ?n mod 16 else 87 + ?n mod 16) :: char"
    have "escape_char c = bslash # ''u00'' @ [?x, ?y]" using 8 by (simp add: escape_char_def char_of_codes Let_def)
    moreover have "parse_escape (''u00'' @ [?x, ?y] @ s) = Some (control_value ?x ?y, s)" by (simp add: quote_def bslash_def)
    moreover have "control_value ?x ?y = c" using control_value_digits [OF 8(2)] by simp
    ultimately show ?thesis using esc by simp
  next
    case 9
    then have "escape_char c = [c]" by (simp add: escape_char_def)
    moreover have "c \<noteq> quote" "c \<noteq> bslash" using 9 by (auto simp: of_char_codes)
    ultimately show ?thesis by simp
  qed
qed

declare parse_chars.simps [simp del]

lemma parse_quoted: "parse_chars (concat (map escape_char t) @ quote # s) = Some (t, s)"
  by (induction t) (simp_all add: parse_chars.simps(2) parse_escaped_char del: concat_map_singleton)

definition ends_number :: "string \<Rightarrow> bool" where
  "ends_number s \<longleftrightarrow> s = [] \<or> \<not> is_json_digit (hd s)"

lemma digits_digits: "c \<in> set (digits n) \<Longrightarrow> is_json_digit c"
proof (induction n rule: digits.induct)
  case (1 n)
  show ?case
  proof (cases "n < 10")
    case True
    then show ?thesis using 1(2) by (simp add: digits.simps [of n] is_json_digit_def)
  next
    case False
    then have "digits n = digits (n div 10) @ [char_of (48 + n mod 10)]" by (simp add: digits.simps [of n])
    moreover have "is_json_digit (char_of (48 + n mod 10))" by (simp add: is_json_digit_def)
    ultimately show ?thesis using 1 False by auto
  qed
qed

lemma digits_not_Nil: "digits n \<noteq> []"
  by (simp add: digits.simps [of n])

lemma split_digits:
  assumes "ends_number s"
  shows "takeWhile is_json_digit (digits n @ s) = digits n" "dropWhile is_json_digit (digits n @ s) = s"
  using assms digits_digits [of _ n]
  by (cases s; auto simp: ends_number_def takeWhile_append dropWhile_append takeWhile_eq_all_conv)+

lemma parse_int_show:
  assumes "ends_number s"
  shows "parse_int (show_int k @ s) = Some (k, s)"
proof (cases "k < 0")
  case True
  have "\<not> is_json_digit (CHR ''-'')" by (simp add: is_json_digit_def)
  then show ?thesis using True split_digits [OF assms] by (simp add: parse_int_def show_int_def digits_not_Nil number_value_digits)
next
  case False
  have "hd (digits (nat k) @ s) \<noteq> CHR ''-''"
    using digits_digits [of "hd (digits (nat k))" "nat k"] digits_not_Nil [of "nat k"] by (auto simp: is_json_digit_def)
  then show ?thesis using False split_digits [OF assms] by (simp add: parse_int_def show_int_def digits_not_Nil number_value_digits)
qed

subsection \<open>Values\<close>

text \<open>\<open>JSON.stringify\<close> writes a number that is not finite as \<open>null\<close>, so it is the one value not read back.\<close>

fun finite_json :: "json \<Rightarrow> bool" where
  "finite_json JInf = False"
| "finite_json (JArr xs) = list_all finite_json xs"
| "finite_json (JObj kvs) = list_all (\<lambda>p. finite_json (snd p)) kvs"
| "finite_json _ = True"

definition member_text :: "string \<times> json \<Rightarrow> string" where
  "member_text p = quote_string (fst p) @ '':'' @ stringify (snd p)"

lemma stringify_object: "stringify (JObj kvs) = ''{'' @ commas (map member_text kvs) @ ''}''"
proof -
  have "(\<lambda>(k, v). quote_string k @ '':'' @ stringify v) = member_text" by (auto simp: member_text_def)
  then show ?thesis by simp
qed

definition text_reads_back :: "json \<Rightarrow> bool" where
  "text_reads_back v \<longleftrightarrow> (\<forall>n s. length (stringify v) < n \<longrightarrow> ends_number s \<longrightarrow> parse_json n (stringify v @ s) = Some (v, s))"

lemma reads_backD: "text_reads_back v \<Longrightarrow> length (stringify v) < n \<Longrightarrow> ends_number s \<Longrightarrow> parse_json n (stringify v @ s) = Some (v, s)"
  unfolding text_reads_back_def by blast

lemma ends_number_punct: "c \<in> {CHR '','', CHR '']'', CHR ''}''} \<Longrightarrow> ends_number (c # s)"
  by (auto simp: ends_number_def is_json_digit_def)

lemma parse_items_back:
  assumes "xs \<noteq> []" and "\<forall>x \<in> set xs. text_reads_back x" and "length (commas (map stringify xs)) + 1 < n"
  shows "parse_items n (commas (map stringify xs) @ CHR '']'' # s) = Some (xs, s)"
  using assms
proof (induction xs arbitrary: n)
  case (Cons x xs)
  obtain m where n: "n = Suc m" using Cons.prems(3) by (cases n) simp_all
  have x: "text_reads_back x" using Cons.prems(2) by simp
  show ?case
  proof (cases "xs = []")
    case True
    then show ?thesis using reads_backD [OF x, of m "CHR '']'' # s"] Cons.prems(3) unfolding n
      by (simp add: ends_number_punct)
  next
    case False
    then have c: "commas (map stringify (x # xs)) = stringify x @ '','' @ commas (map stringify xs)"
      by (cases xs) simp_all
    have "parse_items m (commas (map stringify xs) @ CHR '']'' # s) = Some (xs, s)"
      using Cons.prems unfolding c n by (intro Cons.IH [OF False]) simp_all
    moreover have "parse_json m (stringify x @ CHR '','' # commas (map stringify xs) @ CHR '']'' # s) =
        Some (x, CHR '','' # commas (map stringify xs) @ CHR '']'' # s)"
      using Cons.prems(3) unfolding c n by (intro reads_backD [OF x]) (simp_all add: ends_number_punct)
    ultimately show ?thesis unfolding c n by simp
  qed
qed simp

lemma quoted: "quote_string t @ s = quote # concat (map escape_char t) @ quote # s"
  by (simp add: quote_string_def char_of_codes)

lemma parse_members_back:
  assumes "kvs \<noteq> []" and "\<forall>p \<in> set kvs. text_reads_back (snd p)" and "length (commas (map member_text kvs)) + 1 < n"
  shows "parse_members n (commas (map member_text kvs) @ CHR ''}'' # s) = Some (kvs, s)"
  using assms
proof (induction kvs arbitrary: n)
  case (Cons p kvs)
  obtain k v where p: "p = (k, v)" by fastforce
  obtain m where n: "n = Suc m" using Cons.prems(3) by (cases n) simp_all
  have v: "text_reads_back v" using Cons.prems(2) unfolding p by simp
  have one: "parse_members (Suc m) (member_text (k, v) @ u) =
      (case parse_json m (stringify v @ u) of
         None \<Rightarrow> None
       | Some (v, u) \<Rightarrow>
           if u \<noteq> [] \<and> hd u = CHR '','' then map_option (\<lambda>(kvs, w). ((k, v) # kvs, w)) (parse_members m (tl u))
           else if u \<noteq> [] \<and> hd u = CHR ''}'' then Some ([(k, v)], tl u)
           else None)" for u
    unfolding member_text_def fst_conv snd_conv append_assoc quoted by (simp add: parse_quoted)
  show ?case
  proof (cases "kvs = []")
    case True
    then have "commas (map member_text (p # kvs)) @ CHR ''}'' # s = member_text p @ CHR ''}'' # s" by simp
    moreover have "parse_json m (stringify v @ CHR ''}'' # s) = Some (v, CHR ''}'' # s)"
      using Cons.prems(3) True unfolding n p by (intro reads_backD [OF v]) (simp_all add: ends_number_punct member_text_def)
    ultimately show ?thesis using True unfolding n p by (simp add: one del: parse_members.simps)
  next
    case False
    then have c: "commas (map member_text (p # kvs)) = member_text p @ '','' @ commas (map member_text kvs)"
      by (cases kvs) simp_all
    let ?u = "CHR '','' # commas (map member_text kvs) @ CHR ''}'' # s"
    have "parse_members m (commas (map member_text kvs) @ CHR ''}'' # s) = Some (kvs, s)"
      using Cons.prems unfolding c n by (intro Cons.IH [OF False]) simp_all
    moreover have "parse_json m (stringify v @ ?u) = Some (v, ?u)"
    proof (rule reads_backD [OF v])
      have "length (stringify v) \<le> length (member_text p)" by (simp add: p member_text_def)
      then show "length (stringify v) < m" using Cons.prems(3) unfolding c n by simp
    qed (simp add: ends_number_punct)
    moreover have e: "commas (map member_text (p # kvs)) @ CHR ''}'' # s = member_text (k, v) @ ?u" unfolding c by (simp add: p)
    ultimately show ?thesis unfolding e n one by (simp add: p)
  qed
qed simp

lemma not_literal:
  assumes "c \<notin> {CHR ''n'', CHR ''t'', CHR ''f''}"
  shows "\<not> starts_with ''null'' (c # r)" "\<not> starts_with ''true'' (c # r)" "\<not> starts_with ''false'' (c # r)"
  using assms by (simp_all add: starts_with.simps)

lemma show_int_head: "show_int k \<noteq> []" "hd (show_int k) = CHR ''-'' \<or> is_json_digit (hd (show_int k))"
  using digits_digits [of "hd (digits (nat k))" "nat k"] digits_not_Nil by (auto simp: show_int_def)

lemma digit_punct: "is_json_digit c \<Longrightarrow> c \<notin> {CHR ''n'', CHR ''t'', CHR ''f'', CHR ''['', CHR ''{'', CHR '']'', quote}"
  by (auto simp: is_json_digit_def of_char_codes)

lemma stringify_head: "stringify v \<noteq> []" "hd (stringify v) \<noteq> CHR '']''"
proof -
  have "stringify v \<noteq> [] \<and> hd (stringify v) \<noteq> CHR '']''"
  proof (cases v)
    case (JNum k)
    then show ?thesis using show_int_head [of k] digit_punct by (cases "show_int k") auto
  qed (simp_all add: quote_string_def char_of_codes quote_def)
  then show "stringify v \<noteq> []" "hd (stringify v) \<noteq> CHR '']''" by blast+
qed

lemma commas_head: "hd (commas (map stringify (x # xs)) @ s) \<noteq> CHR '']''"
  using stringify_head [of x] by (cases xs) simp_all

lemma finite_reads_back: "finite_json v \<Longrightarrow> text_reads_back v"
proof (induction v rule: json.induct)
  case JNull
  then show ?case unfolding text_reads_back_def by (auto simp: starts_with.simps gr0_conv_Suc dest!: less_imp_Suc_add)
next
  case (JBool b)
  then show ?case unfolding text_reads_back_def by (cases b) (auto simp: starts_with.simps dest!: less_imp_Suc_add)
next
  case (JNum k)
  show ?case unfolding text_reads_back_def
  proof (intro allI impI)
    fix n s assume n: "length (stringify (JNum k)) < n" and s: "ends_number s"
    then obtain m where m: "n = Suc m" by (cases n) simp_all
    obtain c r where c: "show_int k = c # r" "c = CHR ''-'' \<or> is_json_digit c" using show_int_head [of k] by (cases "show_int k") auto
    then have ne: "c \<notin> {CHR ''n'', CHR ''t'', CHR ''f''}" "c \<noteq> quote" "c \<noteq> CHR ''[''" "c \<noteq> CHR ''{''"
      using digit_punct [of c] by (auto simp: quote_def)
    show "parse_json n (stringify (JNum k) @ s) = Some (JNum k, s)"
      using parse_int_show [OF s, of k] ne unfolding m by (simp add: c(1) not_literal)
  qed
next
  case (JStr t)
  show ?case unfolding text_reads_back_def
  proof (intro allI impI)
    fix n s assume "length (stringify (JStr t)) < n"
    then obtain m where m: "n = Suc m" by (cases n) simp_all
    show "parse_json n (stringify (JStr t) @ s) = Some (JStr t, s)"
      unfolding m stringify.simps quoted using punct by (simp add: not_literal parse_quoted)
  qed
next
  case (JArr xs)
  have xs: "\<forall>x \<in> set xs. text_reads_back x" using JArr by (auto simp: list_all_iff)
  show ?case unfolding text_reads_back_def
  proof (intro allI impI)
    fix n s assume n: "length (stringify (JArr xs)) < n"
    then obtain m where m: "n = Suc m" by (cases n) simp_all
    let ?t = "commas (map stringify xs) @ CHR '']'' # s"
    have e: "stringify (JArr xs) @ s = CHR ''['' # ?t" by simp
    show "parse_json n (stringify (JArr xs) @ s) = Some (JArr xs, s)"
    proof (cases "xs = []")
      case True
      then show ?thesis unfolding e m by (simp add: not_literal punct)
    next
      case False
      have "parse_items m ?t = Some (xs, s)" using n unfolding m by (intro parse_items_back [OF False xs]) simp
      moreover have "hd ?t \<noteq> CHR '']''" using False by (cases xs) (simp_all add: commas_head del: commas.simps list.map)
      ultimately show ?thesis unfolding e m by (simp add: not_literal punct)
    qed
  qed
next
  case (JObj kvs)
  have ps: "\<forall>p \<in> set kvs. text_reads_back (snd p)"
    using JObj by (auto simp: list_all_iff)
  show ?case unfolding text_reads_back_def
  proof (intro allI impI)
    fix n s assume n: "length (stringify (JObj kvs)) < n"
    then obtain m where m: "n = Suc m" by (cases n) simp_all
    let ?t = "commas (map member_text kvs) @ CHR ''}'' # s"
    have e: "stringify (JObj kvs) @ s = CHR ''{'' # ?t" unfolding stringify_object by simp
    show "parse_json n (stringify (JObj kvs) @ s) = Some (JObj kvs, s)"
    proof (cases "kvs = []")
      case True
      then show ?thesis unfolding e m by (simp add: not_literal punct)
    next
      case False
      have "parse_members m ?t = Some (kvs, s)"
        using n unfolding m stringify_object by (intro parse_members_back [OF False ps]) simp
      moreover have "hd ?t \<noteq> CHR ''}''"
      proof -
        obtain p q where k: "kvs = p # q" using False by (cases kvs) simp_all
        have "commas (map member_text kvs) = quote # drop 1 (commas (map member_text kvs))"
          unfolding k by (cases q) (simp_all add: member_text_def quote_string_def char_of_codes)
        then have "hd ?t = quote" by (metis append_Cons list.sel(1))
        then show ?thesis by (simp add: quote_def)
      qed
      ultimately show ?thesis unfolding e m by (simp add: not_literal punct)
    qed
  qed
qed simp

text \<open>\<open>JSON.parse(JSON.stringify(v))\<close>.\<close>

lemma read_stringify: "finite_json v \<Longrightarrow> read_json (stringify v) = Some v"
  using reads_backD [OF finite_reads_back, of v "Suc (length (stringify v))" "[]"]
  by (simp add: read_json_def ends_number_def)

end
