(* ===== verification/FleetStream.thy ===== *)
theory FleetStream
  imports PanelRoutes JsonText Board
begin

section \<open>The event stream of the page\<close>

text \<open>
  \<^verbatim>\<open>stream/useFleetStream.ts\<close>: the one event stream, what it follows, how it is retargeted and how it
  reconnects. The browser's \<open>EventSource\<close> delivers events of the open connection only (a closed source is
  silent); what it says, whether it could be made, the clock and the answers to the posts are arguments of the
  steps. The default order of strings (\<open>sort()\<close>) is the parameter \<open>le\<close>. What the stream does to the query cache
  is the log of its effects.
\<close>

subsection \<open>What is followed\<close>

record watch_target =
  wt_kind :: string
  wt_root :: string
  wt_path :: string

record fleet_targets =
  ft_agents :: "string list"
  ft_screens :: "string list"
  ft_watches :: "watch_target list"

definition watch_json :: "watch_target \<Rightarrow> json" where
  "watch_json w = JObj [(''kind'', JStr (wt_kind w)), (''root'', JStr (wt_root w)), (''path'', JStr (wt_path w))]"

definition watch_of_json :: "json \<Rightarrow> watch_target" where
  "watch_of_json j =
     \<lparr>wt_kind = or_else (as_string (field j ''kind'')) [], wt_root = or_else (as_string (field j ''root'')) [],
      wt_path = or_else (as_string (field j ''path'')) []\<rparr>"

definition name_list :: "(string \<Rightarrow> string \<Rightarrow> bool) \<Rightarrow> string list \<Rightarrow> string" where
  "name_list le xs = join_with '','' (sort_by le (uniq xs))"

definition eventQuery :: "(string \<Rightarrow> string \<Rightarrow> bool) \<Rightarrow> fleet_targets \<Rightarrow> (string \<times> string) list" where
  "eventQuery le t =
     (let agentList = name_list le (ft_agents t); screenList = name_list le (ft_screens t)
      in (if agentList \<noteq> [] then [(''agents'', agentList)] else [])
         @ (if screenList \<noteq> [] then [(''screens'', screenList)] else [])
         @ (if ft_watches t \<noteq> [] then [(''watches'', stringify (JArr (map watch_json (ft_watches t))))] else []))"

definition fleetTargetsKey :: "(string \<Rightarrow> string \<Rightarrow> bool) \<Rightarrow> fleet_targets \<Rightarrow> string" where
  "fleetTargetsKey le t = query_string (eventQuery le t)"

definition key_list :: "(string \<times> string) list \<Rightarrow> string \<Rightarrow> string list" where
  "key_list query name = filter (\<lambda>s. s \<noteq> []) (split_on (CHR '','') (or_else (map_of query name) []))"

definition targetsFromKey :: "string \<Rightarrow> fleet_targets" where
  "targetsFromKey key =
     (let query = parse_query key
      in \<lparr>ft_agents = key_list query ''agents'', ft_screens = key_list query ''screens'',
          ft_watches = map watch_of_json (or_else (as_array (read_json (or_else (map_of query ''watches'') ''[]''))) [])\<rparr>)"

definition eventStreamURL :: "(string \<Rightarrow> string \<Rightarrow> bool) \<Rightarrow> fleet_targets \<Rightarrow> string" where
  "eventStreamURL le t =
     (let query = eventQuery le t in if query \<noteq> [] then ''/api/events?'' @ query_string query else ''/api/events'')"

definition subscriptionUpdateURL :: "(string \<Rightarrow> string \<Rightarrow> bool) \<Rightarrow> string \<Rightarrow> fleet_targets \<Rightarrow> string" where
  "subscriptionUpdateURL le stream t = ''/api/events/subscription?'' @ query_string (eventQuery le t @ [(''stream'', stream)])"

definition unsubscribedScreenPaneIDs :: "string list \<Rightarrow> string list \<Rightarrow> string list" where
  "unsubscribedScreenPaneIDs previous current = filter (\<lambda>p. p \<notin> set current) (uniq previous)"

text \<open>The cached transcripts: agent and number of observers.\<close>

definition pruneUnsubscribedTranscripts :: "(string \<times> nat) list \<Rightarrow> string list \<Rightarrow> (string \<times> nat) list" where
  "pruneUnsubscribedTranscripts cache names = filter (\<lambda>(a, observers). \<not> (a \<notin> set names \<and> observers = 0)) cache"

subsection \<open>What the page shows of it\<close>

record stream_state =
  ss_problems :: "(string, string) jsmap"
  ss_herdr :: bool
  ss_hcom :: bool
  ss_lastEvent :: "num option"
  ss_loadedBuild :: "string option"
  ss_serverUpdated :: bool

definition more_dots :: string where
  "more_dots = [CHR 0xE2, CHR 0x80, CHR 0xA6]"

definition connecting_detail :: string where
  "connecting_detail = ''Connecting to live fleet'' @ more_dots"

definition disconnected_detail :: string where
  "disconnected_detail = ''Live stream disconnected; reconnecting'' @ more_dots"

definition timed_out_detail :: string where
  "timed_out_detail = ''Live stream timed out; reconnecting'' @ more_dots"

definition initialStreamState :: stream_state where
  "initialStreamState =
     \<lparr>ss_problems = [(''stream'', connecting_detail)], ss_herdr = False, ss_hcom = False, ss_lastEvent = None,
      ss_loadedBuild = None, ss_serverUpdated = False\<rparr>"

definition streamAlerts :: "stream_state \<Rightarrow> (string, string) jsmap \<times> bool" where
  "streamAlerts s = (ss_problems s, ss_serverUpdated s)"

definition recordBuildIdentity :: "stream_state \<Rightarrow> string \<Rightarrow> stream_state" where
  "recordBuildIdentity current identity =
     (if or_else (ss_loadedBuild current) [] = [] then current\<lparr>ss_loadedBuild := Some identity\<rparr>
      else if ss_loadedBuild current \<noteq> Some identity then current\<lparr>ss_serverUpdated := True\<rparr>
      else current)"

definition withoutUnsubscribedTranscripts :: "(string, string) jsmap \<Rightarrow> string list \<Rightarrow> (string, string) jsmap" where
  "withoutUnsubscribedTranscripts problems agents =
     filter (\<lambda>p. \<not> starts_with ''transcript:'' (fst p) \<or> fst p \<in> set (map (\<lambda>a. ''transcript:'' @ a) agents)) problems"

subsection \<open>The connection\<close>

datatype stream_effect =
    OpenSource string
  | CloseSource nat
  | SetReconnect num
  | PostUpdate string
  | TellState string num
  | SetFleet board
  | SetScreen string string
  | RefetchEntries string
  | InvalidateAgent string
  | ResetEntries string
  | InvalidateWatch watch_target
  | PruneTranscripts "string list"

text \<open>
  The closure's variables. A connection is a number; \<open>fs_posting\<close> is the post in flight with what its
  continuation remembers (its connection and the key it asked for). A pending timer is a flag, because the code
  never has one pending twice: the reconnect and the refreshes are scheduled only when none is pending, the settle
  timer is cleared before it is set again, and a connection is made only where there is none, when its
  banner timer is not running either (\<open>stream_ok\<close> of \<open>StreamClaims\<close>, in every state reached).
\<close>

record fleet_stream =
  fs_active :: bool
  fs_events :: "nat option"
  fs_made :: nat
  fs_reconnect :: bool
  fs_connecting :: bool
  fs_settle :: bool
  fs_refresh :: "string list"
  fs_backoff :: num
  fs_hasOpened :: bool
  fs_lastActivity :: num
  fs_targets :: fleet_targets
  fs_following :: string
  fs_streamID :: "string option"
  fs_posting :: "(nat \<times> string) option"
  fs_listening :: "string list"
  fs_watches :: "watch_target list"
  fs_state :: stream_state
  fs_log :: "stream_effect list"

text \<open>One turn: the clock, whether a source can be made, which wakes a send in progress takes over
  (\<open>deferMessageRefresh\<close>), and which cached transcripts nobody shows.\<close>

record tick =
  tk_now :: num
  tk_opens :: bool
  tk_defers :: "string \<Rightarrow> bool"
  tk_unseen :: "string \<Rightarrow> bool"

definition emit :: "stream_effect list \<Rightarrow> fleet_stream \<Rightarrow> fleet_stream" where
  "emit es s = s\<lparr>fs_log := fs_log s @ es\<rparr>"

definition set_problem :: "string \<Rightarrow> string \<Rightarrow> fleet_stream \<Rightarrow> fleet_stream" where
  "set_problem k d s = s\<lparr>fs_state := (fs_state s)\<lparr>ss_problems := put k d (ss_problems (fs_state s))\<rparr>\<rparr>"

definition clear_problem :: "string \<Rightarrow> fleet_stream \<Rightarrow> fleet_stream" where
  "clear_problem k s = s\<lparr>fs_state := (fs_state s)\<lparr>ss_problems := del k (ss_problems (fs_state s))\<rparr>\<rparr>"

definition touch :: "num \<Rightarrow> bool \<Rightarrow> fleet_stream \<Rightarrow> fleet_stream" where
  "touch clock visible s =
     (let t = s\<lparr>fs_lastActivity := clock\<rparr>
      in if visible then t\<lparr>fs_state := (fs_state t)\<lparr>ss_lastEvent := Some clock\<rparr>\<rparr> else t)"

definition close_events :: "fleet_stream \<Rightarrow> fleet_stream" where
  "close_events s = (case fs_events s of None \<Rightarrow> s | Some c \<Rightarrow> emit [CloseSource c] (s\<lparr>fs_events := None\<rparr>))"

definition max_backoff :: num where
  "max_backoff = 10000"

definition scheduleReconnect :: "string \<Rightarrow> fleet_stream \<Rightarrow> fleet_stream" where
  "scheduleReconnect detail s =
     (if \<not> fs_active s \<or> fs_reconnect s then s
      else let t = set_problem ''stream'' detail (close_events (s\<lparr>fs_connecting := False\<rparr>))
           in emit [SetReconnect (fs_backoff t)]
                (t\<lparr>fs_reconnect := True, fs_backoff := min (fs_backoff t * 2) max_backoff\<rparr>))"

text \<open>The names of the events a connection that follows the targets listens to.\<close>

definition listener_names :: "fleet_targets \<Rightarrow> string list" where
  "listener_names t = map (\<lambda>a. ''entry:'' @ a) (ft_agents t) @ map (\<lambda>p. ''screen:'' @ p) (ft_screens t)"

definition listen :: "fleet_stream \<Rightarrow> fleet_stream" where
  "listen s = (if fs_events s = None then s else s\<lparr>fs_listening := add_all (listener_names (fs_targets s)) (fs_listening s)\<rparr>)"

definition connect :: "(string \<Rightarrow> string \<Rightarrow> bool) \<Rightarrow> tick \<Rightarrow> fleet_stream \<Rightarrow> fleet_stream" where
  "connect le tk s =
     (if \<not> fs_active s then s
      else let t = s\<lparr>fs_lastActivity := tk_now tk, fs_state := (fs_state s)\<lparr>ss_herdr := False, ss_hcom := False\<rparr>,
                    fs_connecting := True, fs_streamID := None, fs_listening := [],
                    fs_following := fleetTargetsKey le (fs_targets s)\<rparr>
           in if tk_opens tk
              then listen (emit [OpenSource (eventStreamURL le (fs_targets t))]
                     (t\<lparr>fs_events := Some (fs_made t), fs_made := Suc (fs_made t), fs_watches := ft_watches (fs_targets t)\<rparr>))
              else scheduleReconnect disconnected_detail t)"

definition retarget :: "(string \<Rightarrow> string \<Rightarrow> bool) \<Rightarrow> fleet_stream \<Rightarrow> fleet_stream" where
  "retarget le s =
     (case (fs_events s, fs_streamID s) of
        (Some c, Some sid) \<Rightarrow>
          let wanted = fleetTargetsKey le (fs_targets s)
          in if \<not> fs_active s \<or> sid = [] \<or> fs_posting s \<noteq> None \<or> wanted = fs_following s then s
             else emit [PostUpdate (subscriptionUpdateURL le sid (fs_targets s))] (s\<lparr>fs_posting := Some (c, wanted)\<rparr>)
      | _ \<Rightarrow> s)"

text \<open>The answer of the post: taken (204), or refused, or failed.\<close>

definition post_answered :: "(string \<Rightarrow> string \<Rightarrow> bool) \<Rightarrow> tick \<Rightarrow> bool \<Rightarrow> fleet_stream \<Rightarrow> fleet_stream" where
  "post_answered le tk taken s =
     (case fs_posting s of
        None \<Rightarrow> s
      | Some (c, wanted) \<Rightarrow>
          let t = s\<lparr>fs_posting := None\<rparr>
          in if \<not> fs_active t \<or> fs_events t \<noteq> Some c then t
             else if \<not> taken then connect le tk (close_events (t\<lparr>fs_connecting := False\<rparr>))
             else retarget le (t\<lparr>fs_following := wanted\<rparr>))"

definition scheduleTranscriptRefresh :: "string \<Rightarrow> fleet_stream \<Rightarrow> fleet_stream" where
  "scheduleTranscriptRefresh name s = s\<lparr>fs_refresh := set_add name (fs_refresh s)\<rparr>"

definition refreshTranscript :: "string \<Rightarrow> fleet_stream \<Rightarrow> fleet_stream" where
  "refreshTranscript name s = emit [RefetchEntries name, InvalidateAgent name] s"

definition refresh_fires :: "string \<Rightarrow> fleet_stream \<Rightarrow> fleet_stream" where
  "refresh_fires name s =
     (if name \<in> set (fs_refresh s)
      then let t = s\<lparr>fs_refresh := set_remove name (fs_refresh s)\<rparr>
           in if name \<in> set (ft_agents (fs_targets t)) then refreshTranscript name t else t
      else s)"

subsection \<open>Events of the source\<close>

datatype source_event =
    Opened
  | Errored
  | Hello string "string option"
  | Ping
  | StateChanged string num
  | Subscribed "string list"
  | FleetEvent board
  | Substrate string bool "string option"
  | MessageEvent "string list"
  | Rewindow string
  | FileChange watch_target
  | EntryEvent string
  | ScreenEvent string string

definition on_open :: "fleet_stream \<Rightarrow> fleet_stream" where
  "on_open s =
     (let t = clear_problem ''stream'' (s\<lparr>fs_connecting := False, fs_backoff := 500\<rparr>)
      in (if fs_hasOpened t then emit (map InvalidateWatch (fs_watches t)) t else t)\<lparr>fs_hasOpened := True\<rparr>)"

definition on_substrate :: "string \<Rightarrow> bool \<Rightarrow> string option \<Rightarrow> fleet_stream \<Rightarrow> fleet_stream" where
  "on_substrate source recovered detail s =
     (let st = fs_state s;
          proved = (if recovered \<and> source = ''herdr'' then st\<lparr>ss_herdr := True\<rparr>
                    else if recovered \<and> source = ''hcom'' then st\<lparr>ss_hcom := True\<rparr> else st);
          t = s\<lparr>fs_state := proved\<rparr>
      in if recovered then clear_problem source t
         else set_problem source (or_else detail (source @ '' is unreachable'')) t)"

definition on_message :: "tick \<Rightarrow> string list \<Rightarrow> fleet_stream \<Rightarrow> fleet_stream" where
  "on_message tk names s =
     fold (\<lambda>a t. if tk_defers tk a then t else refreshTranscript a t)
       (filter (\<lambda>a. a \<in> set (ft_agents (fs_targets s))) names) s"

definition on_rewindow :: "tick \<Rightarrow> string \<Rightarrow> fleet_stream \<Rightarrow> fleet_stream" where
  "on_rewindow tk a s =
     (if a \<notin> set (ft_agents (fs_targets s)) then s
      else emit ([ResetEntries a, InvalidateAgent a] @ (if tk_unseen tk a then [RefetchEntries a] else [])) s)"

fun handle_source :: "(string \<Rightarrow> string \<Rightarrow> bool) \<Rightarrow> tick \<Rightarrow> source_event \<Rightarrow> fleet_stream \<Rightarrow> fleet_stream" where
  "handle_source le tk Opened s = on_open (touch (tk_now tk) True s)"
| "handle_source le tk Errored s = scheduleReconnect disconnected_detail s"
| "handle_source le tk (Hello identity stream) s =
     (let t = touch (tk_now tk) True s;
          u = t\<lparr>fs_state := recordBuildIdentity (fs_state t) identity, fs_streamID := stream\<rparr>
      in if fs_settle u then u else retarget le u)"
| "handle_source le tk Ping s = touch (tk_now tk) False s"
| "handle_source le tk (StateChanged namespace revision) s = emit [TellState namespace revision] (touch (tk_now tk) True s)"
| "handle_source le tk (Subscribed agents) s = fold scheduleTranscriptRefresh agents (touch (tk_now tk) True s)"
| "handle_source le tk (FleetEvent board) s =
     (let t = emit (SetFleet board # map InvalidateAgent (ft_agents (fs_targets s))) (touch (tk_now tk) True s)
      in clear_problem ''fleet'' (t\<lparr>fs_state := (fs_state t)\<lparr>ss_herdr := True\<rparr>\<rparr>))"
| "handle_source le tk (Substrate source recovered detail) s = on_substrate source recovered detail (touch (tk_now tk) True s)"
| "handle_source le tk (MessageEvent names) s = on_message tk names (touch (tk_now tk) True s)"
| "handle_source le tk (Rewindow a) s = on_rewindow tk a (touch (tk_now tk) True s)"
| "handle_source le tk (FileChange changed) s =
     (let t = touch (tk_now tk) True s
      in if wt_kind changed = ''file'' \<or> wt_kind changed = ''folder'' then emit [InvalidateWatch changed] t else t)"
| "handle_source le tk (EntryEvent a) s =
     (if ''entry:'' @ a \<in> set (fs_listening s) then scheduleTranscriptRefresh a (touch (tk_now tk) True s) else s)"
| "handle_source le tk (ScreenEvent p frame) s =
     (if ''screen:'' @ p \<in> set (fs_listening s)
      then let t = touch (tk_now tk) True s
           in if p \<in> set (ft_screens (fs_targets t)) then emit [SetScreen p frame] t else t
      else s)"

subsection \<open>Steps\<close>

datatype stream_event =
    FromSource source_event
  | ReconnectTimer
  | ConnectingTimer
  | SettleTimer
  | RefreshTimer string
  | Watchdog
  | PostAnswered bool
  | UpdateTargets fleet_targets
  | CloseStream

definition watchdog :: "tick \<Rightarrow> fleet_stream \<Rightarrow> fleet_stream" where
  "watchdog tk s = (if js_sub (tk_now tk) (fs_lastActivity s) > 45000 then scheduleReconnect timed_out_detail s else s)"

definition prune_problems :: "fleet_stream \<Rightarrow> fleet_stream" where
  "prune_problems s =
     s\<lparr>fs_state := (fs_state s)\<lparr>ss_problems := withoutUnsubscribedTranscripts (ss_problems (fs_state s)) (ft_agents (fs_targets s))\<rparr>\<rparr>"

definition settle_fires :: "(string \<Rightarrow> string \<Rightarrow> bool) \<Rightarrow> fleet_stream \<Rightarrow> fleet_stream" where
  "settle_fires le s =
     (let t = prune_problems (s\<lparr>fs_settle := False\<rparr>)
      in retarget le (emit [PruneTranscripts (ft_agents (fs_targets t))] t))"

definition update_targets :: "(string \<Rightarrow> string \<Rightarrow> bool) \<Rightarrow> fleet_targets \<Rightarrow> fleet_stream \<Rightarrow> fleet_stream" where
  "update_targets le nxt s =
     (if \<not> fs_active s then s
      else (listen (s\<lparr>fs_targets := targetsFromKey (fleetTargetsKey le nxt)\<rparr>))\<lparr>fs_settle := True\<rparr>)"

definition close_stream :: "fleet_stream \<Rightarrow> fleet_stream" where
  "close_stream s =
     emit (case fs_events s of None \<Rightarrow> [] | Some c \<Rightarrow> [CloseSource c])
       (s\<lparr>fs_active := False, fs_connecting := False, fs_reconnect := False, fs_settle := False, fs_refresh := []\<rparr>)"

fun stream_step :: "(string \<Rightarrow> string \<Rightarrow> bool) \<Rightarrow> tick \<Rightarrow> stream_event \<Rightarrow> fleet_stream \<Rightarrow> fleet_stream" where
  "stream_step le tk (FromSource e) s = (if fs_active s \<and> fs_events s \<noteq> None then handle_source le tk e s else s)"
| "stream_step le tk ReconnectTimer s = (if fs_reconnect s then connect le tk (s\<lparr>fs_reconnect := False\<rparr>) else s)"
| "stream_step le tk ConnectingTimer s =
     (if fs_connecting s then set_problem ''stream'' connecting_detail (s\<lparr>fs_connecting := False\<rparr>) else s)"
| "stream_step le tk SettleTimer s = (if fs_settle s then settle_fires le s else s)"
| "stream_step le tk (RefreshTimer a) s = refresh_fires a s"
| "stream_step le tk Watchdog s = (if fs_active s then watchdog tk s else s)"
| "stream_step le tk (PostAnswered taken) s = post_answered le tk taken s"
| "stream_step le tk (UpdateTargets nxt) s = update_targets le nxt s"
| "stream_step le tk CloseStream s = close_stream s"

text \<open>\<open>subscribeToFleet\<close>.\<close>

definition subscribeToFleet :: "(string \<Rightarrow> string \<Rightarrow> bool) \<Rightarrow> tick \<Rightarrow> stream_state \<Rightarrow> fleet_targets \<Rightarrow> fleet_stream" where
  "subscribeToFleet le tk st initial =
     connect le tk (prune_problems
       \<lparr>fs_active = True, fs_events = None, fs_made = 0, fs_reconnect = False, fs_connecting = False, fs_settle = False,
        fs_refresh = [], fs_backoff = 500, fs_hasOpened = False, fs_lastActivity = tk_now tk,
        fs_targets = targetsFromKey (fleetTargetsKey le initial), fs_following = [], fs_streamID = None, fs_posting = None,
        fs_listening = [], fs_watches = [], fs_state = st, fs_log = []\<rparr>)"

end
