(* ===== verification/StreamClaims.thy ===== *)
theory StreamClaims
  imports FleetStream
begin

section \<open>The event stream: never stuck, never lost\<close>

text \<open>
  The runs of the stream, what every reachable state keeps, when the connection serves what the page follows
  now, and the reading back of the subscription's key.
\<close>

subsection \<open>What the steps leave alone\<close>

text \<open>The variables that decide what the stream does next; the others are reports.\<close>

definition line :: "fleet_stream \<Rightarrow> fleet_stream" where
  "line s = s\<lparr>fs_hasOpened := False, fs_lastActivity := 0, fs_listening := [], fs_watches := [],
               fs_state := initialStreamState, fs_log := []\<rparr>"

lemma line_fields:
  "fs_active (line s) = fs_active s" "fs_events (line s) = fs_events s" "fs_made (line s) = fs_made s"
  "fs_reconnect (line s) = fs_reconnect s" "fs_connecting (line s) = fs_connecting s" "fs_settle (line s) = fs_settle s"
  "fs_refresh (line s) = fs_refresh s" "fs_backoff (line s) = fs_backoff s" "fs_targets (line s) = fs_targets s"
  "fs_following (line s) = fs_following s" "fs_streamID (line s) = fs_streamID s" "fs_posting (line s) = fs_posting s"
  by (simp_all add: line_def)

lemma frame:
  assumes "line t = line s"
  shows "fs_active t = fs_active s" "fs_events t = fs_events s" "fs_made t = fs_made s"
    "fs_reconnect t = fs_reconnect s" "fs_connecting t = fs_connecting s" "fs_settle t = fs_settle s"
    "fs_refresh t = fs_refresh s" "fs_backoff t = fs_backoff s" "fs_targets t = fs_targets s"
    "fs_following t = fs_following s" "fs_streamID t = fs_streamID s" "fs_posting t = fs_posting s"
  using assms line_fields [of t] line_fields [of s] by metis+

lemma line_emit: "line (emit es s) = line s"
  by (simp add: line_def emit_def)

lemma line_set_problem: "line (set_problem k d s) = line s"
  by (simp add: line_def set_problem_def)

lemma line_clear_problem: "line (clear_problem k s) = line s"
  by (simp add: line_def clear_problem_def)

lemma line_touch: "line (touch n b s) = line s"
  by (simp add: line_def touch_def Let_def)

lemma line_prune_problems: "line (prune_problems s) = line s"
  by (simp add: line_def prune_problems_def)

lemma line_listen: "line (listen s) = line s"
  by (simp add: line_def listen_def)

lemma line_refreshTranscript: "line (refreshTranscript a s) = line s"
  by (simp add: refreshTranscript_def line_emit)

lemma line_on_substrate: "line (on_substrate src r d s) = line s"
proof -
  have "line (s\<lparr>fs_state := st\<rparr>) = line s" for st by (simp add: line_def)
  then show ?thesis by (simp add: on_substrate_def Let_def line_clear_problem line_set_problem)
qed

lemma line_on_message: "line (on_message tk ns s) = line s"
proof -
  have "line (fold (\<lambda>a t. if tk_defers tk a then t else refreshTranscript a t) xs s) = line s" for xs s
    by (induction xs arbitrary: s) (simp_all add: line_refreshTranscript)
  then show ?thesis unfolding on_message_def .
qed

lemma line_on_rewindow: "line (on_rewindow tk a s) = line s"
  by (simp add: on_rewindow_def line_emit)

lemmas frames [simp] =
  frame [OF line_emit] frame [OF line_set_problem] frame [OF line_clear_problem] frame [OF line_touch]
  frame [OF line_prune_problems] frame [OF line_listen] frame [OF line_refreshTranscript]
  frame [OF line_on_substrate] frame [OF line_on_message] frame [OF line_on_rewindow]

lemma schedule_refresh_frame [simp]:
  defines "f as s \<equiv> fold scheduleTranscriptRefresh as s"
  shows "fs_active (f as s) = fs_active s" "fs_events (f as s) = fs_events s" "fs_made (f as s) = fs_made s"
    "fs_reconnect (f as s) = fs_reconnect s" "fs_connecting (f as s) = fs_connecting s" "fs_settle (f as s) = fs_settle s"
    "fs_backoff (f as s) = fs_backoff s" "fs_targets (f as s) = fs_targets s"
    "fs_following (f as s) = fs_following s" "fs_streamID (f as s) = fs_streamID s" "fs_posting (f as s) = fs_posting s"
  unfolding f_def by (induction as arbitrary: s) (simp_all add: scheduleTranscriptRefresh_def)

subsection \<open>Runs\<close>

text \<open>A post in flight is overtaken when the connection it was sent for is no longer the open one.\<close>

definition overtaken :: "fleet_stream \<Rightarrow> bool" where
  "overtaken s \<longleftrightarrow> (case fs_posting s of None \<Rightarrow> False | Some (c, _) \<Rightarrow> fs_events s \<noteq> Some c)"

text \<open>The flag remembers whether a post was ever overtaken.\<close>

inductive stream_run :: "(string \<Rightarrow> string \<Rightarrow> bool) \<Rightarrow> bool \<Rightarrow> fleet_stream \<Rightarrow> bool" for le where
  start: "stream_run le False (subscribeToFleet le tk st targets)"
| advance: "stream_run le late s \<Longrightarrow> stream_run le (late \<or> overtaken (stream_step le tk e s)) (stream_step le tk e s)"

text \<open>The connection serves what the page follows, or a post is about to say so.\<close>

definition served :: "(string \<Rightarrow> string \<Rightarrow> bool) \<Rightarrow> fleet_stream \<Rightarrow> bool" where
  "served le s \<longleftrightarrow>
     (fs_active s \<and> fs_events s \<noteq> None \<and> or_else (fs_streamID s) [] \<noteq> [] \<and> \<not> fs_settle s \<longrightarrow>
        fs_following s = fleetTargetsKey le (fs_targets s) \<or> fs_posting s \<noteq> None)"

definition stream_ok :: "fleet_stream \<Rightarrow> bool" where
  "stream_ok s \<longleftrightarrow>
     (fs_active s \<longrightarrow> (fs_reconnect s \<longleftrightarrow> fs_events s = None)) \<and>
     (fs_connecting s \<longrightarrow> fs_active s \<and> fs_events s \<noteq> None) \<and>
     500 \<le> fs_backoff s \<and> fs_backoff s \<le> max_backoff \<and>
     (\<not> fs_active s \<longrightarrow> \<not> fs_reconnect s \<and> \<not> fs_settle s \<and> fs_refresh s = []) \<and>
     (\<forall>c. fs_events s = Some c \<longrightarrow> c < fs_made s) \<and>
     (\<forall>c w. fs_posting s = Some (c, w) \<longrightarrow> c < fs_made s)"

lemma close_events_fields [simp]:
  "fs_active (close_events s) = fs_active s" "fs_events (close_events s) = None" "fs_made (close_events s) = fs_made s"
  "fs_reconnect (close_events s) = fs_reconnect s" "fs_connecting (close_events s) = fs_connecting s"
  "fs_settle (close_events s) = fs_settle s" "fs_refresh (close_events s) = fs_refresh s"
  "fs_backoff (close_events s) = fs_backoff s" "fs_targets (close_events s) = fs_targets s"
  "fs_following (close_events s) = fs_following s" "fs_streamID (close_events s) = fs_streamID s"
  "fs_posting (close_events s) = fs_posting s"
  by (cases "fs_events s"; simp add: close_events_def)+

lemma schedule_ok: "stream_ok s \<Longrightarrow> stream_ok (scheduleReconnect d s)"
  unfolding stream_ok_def scheduleReconnect_def Let_def by (auto simp: max_backoff_def min_def)

text \<open>What \<open>connect\<close> needs: an active stream without a connection, nothing scheduled.\<close>

lemma connect_ok:
  assumes "fs_active s" "fs_events s = None" "\<not> fs_reconnect s" "\<not> fs_connecting s"
    and "500 \<le> fs_backoff s" "fs_backoff s \<le> max_backoff" "\<forall>c w. fs_posting s = Some (c, w) \<longrightarrow> c < fs_made s"
  shows "stream_ok (connect le tk s)"
  using assms unfolding stream_ok_def connect_def scheduleReconnect_def Let_def
  by (auto simp: max_backoff_def min_def less_Suc_eq)

lemma retarget_ok: "stream_ok s \<Longrightarrow> stream_ok (retarget le s)"
  unfolding stream_ok_def retarget_def Let_def by (auto split: option.splits)

text \<open>What the source says changes the deciding variables in four events only.\<close>

lemma ok_line: "stream_ok (line s) = stream_ok s"
  unfolding stream_ok_def line_fields ..

lemma served_line: "served le (line s) = served le s"
  unfolding served_def line_fields ..

lemma ok_frame: "stream_ok s \<Longrightarrow> line t = line s \<Longrightarrow> stream_ok t"
  using ok_line [of s] ok_line [of t] by simp

lemma served_frame: "served le s \<Longrightarrow> line t = line s \<Longrightarrow> served le t"
  using served_line [of le s] served_line [of le t] by simp

lemma quiet_source_event:
  assumes "\<forall>identity stream. e \<noteq> Hello identity stream" "e \<noteq> Opened" "e \<noteq> Errored"
    and "\<forall>as. e \<noteq> Subscribed as" "\<forall>a. e \<noteq> EntryEvent a"
  shows "line (handle_source le tk e s) = line s"
proof -
  have "line (t\<lparr>fs_state := st\<rparr>) = line t" for t st by (simp add: line_def)
  then show ?thesis using assms
    by (cases e) (simp_all add: Let_def line_emit line_set_problem line_clear_problem line_touch
        line_on_substrate line_on_message line_on_rewindow)
qed

lemma handle_ok:
  assumes s: "stream_ok s" and a: "fs_active s" "fs_events s \<noteq> None"
  shows "stream_ok (handle_source le tk e s)"
proof (cases e)
  case Opened
  have "stream_ok (s\<lparr>fs_connecting := False, fs_backoff := 500\<rparr>)" using s unfolding stream_ok_def by (simp add: max_backoff_def)
  moreover have "line (handle_source le tk e s) = line (s\<lparr>fs_connecting := False, fs_backoff := 500\<rparr>)"
    by (simp add: Opened on_open_def Let_def touch_def clear_problem_def emit_def line_def)
  ultimately show ?thesis by (rule ok_frame)
next
  case Errored
  then show ?thesis using schedule_ok [OF s] by simp
next
  case (Hello identity stream)
  let ?t = "touch (tk_now tk) True s"
  let ?u = "?t\<lparr>fs_state := recordBuildIdentity (fs_state ?t) identity, fs_streamID := stream\<rparr>"
  have "stream_ok ?u" using s unfolding stream_ok_def by simp
  then show ?thesis using retarget_ok [of ?u le] by (simp add: Hello Let_def)
next
  case (Subscribed agents)
  then show ?thesis using s a unfolding stream_ok_def by simp
next
  case (EntryEvent b)
  then show ?thesis using s a unfolding stream_ok_def by (simp add: scheduleTranscriptRefresh_def)
qed (rule ok_frame [OF s], rule quiet_source_event; simp)+

lemma post_ok:
  assumes s: "stream_ok s"
  shows "stream_ok (post_answered le tk taken s)"
proof (cases "fs_posting s")
  case None
  then show ?thesis using s by (simp add: post_answered_def)
next
  case (Some p)
  obtain c w where p: "fs_posting s = Some (c, w)" using Some by (cases p) simp
  let ?t = "s\<lparr>fs_posting := None\<rparr>"
  have t: "stream_ok ?t" using s unfolding stream_ok_def by simp
  consider "\<not> fs_active s \<or> fs_events s \<noteq> Some c" | "fs_active s" "fs_events s = Some c" taken
    | "fs_active s" "fs_events s = Some c" "\<not> taken" by blast
  then show ?thesis
  proof cases
    case 1
    then show ?thesis using t by (simp add: post_answered_def p Let_def)
  next
    case 2
    have "stream_ok (?t\<lparr>fs_following := w\<rparr>)" using t unfolding stream_ok_def by simp
    then show ?thesis using retarget_ok [of "?t\<lparr>fs_following := w\<rparr>" le] 2 by (simp add: post_answered_def p Let_def)
  next
    case 3
    have "stream_ok (connect le tk (close_events (?t\<lparr>fs_connecting := False\<rparr>)))"
      by (rule connect_ok) (use s 3(1,2) in \<open>auto simp: stream_ok_def\<close>)
    then show ?thesis using 3 by (simp add: post_answered_def p Let_def)
  qed
qed

lemma step_ok:
  assumes s: "stream_ok s"
  shows "stream_ok (stream_step le tk e s)"
proof (cases e)
  case (FromSource x)
  then show ?thesis using handle_ok [OF s] s by simp
next
  case ReconnectTimer
  have "stream_ok (connect le tk (s\<lparr>fs_reconnect := False\<rparr>))" if "fs_reconnect s"
    by (rule connect_ok) (use s that in \<open>auto simp: stream_ok_def\<close>)
  then show ?thesis using s by (simp add: ReconnectTimer)
next
  case ConnectingTimer
  then show ?thesis using s unfolding stream_ok_def by simp
next
  case SettleTimer
  have "stream_ok (emit x (prune_problems (s\<lparr>fs_settle := False\<rparr>)))" for x
    using s unfolding stream_ok_def by simp
  then show ?thesis using s retarget_ok by (simp add: SettleTimer settle_fires_def Let_def)
next
  case (RefreshTimer a)
  then show ?thesis using s unfolding stream_ok_def by (simp add: refresh_fires_def Let_def)
next
  case Watchdog
  then show ?thesis using s schedule_ok [OF s] by (simp add: watchdog_def)
next
  case (PostAnswered taken)
  then show ?thesis using post_ok [OF s] by simp
next
  case (UpdateTargets nxt)
  then show ?thesis using s unfolding stream_ok_def by (auto simp: update_targets_def)
next
  case CloseStream
  then show ?thesis using s unfolding stream_ok_def by (simp add: close_stream_def)
qed

lemma retarget_served: "served le (retarget le s)"
  unfolding served_def retarget_def Let_def by (auto split: option.splits)

lemma connect_served: "fs_events s = None \<Longrightarrow> served le (connect le tk s)"
  unfolding served_def connect_def scheduleReconnect_def Let_def by simp

lemma schedule_served: "served le s \<Longrightarrow> served le (scheduleReconnect d s)"
  unfolding served_def scheduleReconnect_def Let_def by simp

lemma handle_served:
  assumes s: "served le s"
  shows "served le (handle_source le tk e s)"
proof (cases e)
  case Opened
  have "served le (s\<lparr>fs_connecting := False, fs_backoff := 500\<rparr>)" using s unfolding served_def by simp
  moreover have "line (handle_source le tk e s) = line (s\<lparr>fs_connecting := False, fs_backoff := 500\<rparr>)"
    by (simp add: Opened on_open_def Let_def touch_def clear_problem_def emit_def line_def)
  ultimately show ?thesis by (rule served_frame)
next
  case Errored
  then show ?thesis using schedule_served [OF s] by simp
next
  case (Hello identity stream)
  have "served le t" if "fs_settle t" for t using that unfolding served_def by simp
  then show ?thesis using retarget_served by (simp add: Hello Let_def)
next
  case (Subscribed agents)
  then show ?thesis using s unfolding served_def by simp
next
  case (EntryEvent b)
  then show ?thesis using s unfolding served_def by (simp add: scheduleTranscriptRefresh_def)
qed (rule served_frame [OF s], rule quiet_source_event; simp)+

lemma post_served:
  assumes s: "served le s" and "\<not> overtaken s"
  shows "served le (post_answered le tk taken s)"
proof (cases "fs_posting s")
  case None
  then show ?thesis using s by (simp add: post_answered_def)
next
  case (Some p)
  obtain c w where p: "fs_posting s = Some (c, w)" using Some by (cases p) simp
  have c: "fs_events s = Some c" using assms(2) unfolding overtaken_def p by simp
  have "served le t" if "\<not> fs_active t" for t using that unfolding served_def by simp
  then show ?thesis using retarget_served connect_served by (simp add: post_answered_def p c Let_def)
qed

lemma step_served:
  assumes s: "served le s" "stream_ok s" and "\<not> overtaken s"
  shows "served le (stream_step le tk e s)"
proof (cases e)
  case (FromSource x)
  then show ?thesis using handle_served [OF s(1)] s by simp
next
  case ReconnectTimer
  have "fs_events (s\<lparr>fs_reconnect := False\<rparr>) = None" if "fs_reconnect s"
    using s(2) that unfolding stream_ok_def by auto
  then show ?thesis using s connect_served by (simp add: ReconnectTimer)
next
  case ConnectingTimer
  then show ?thesis using s unfolding served_def by simp
next
  case SettleTimer
  then show ?thesis using s retarget_served by (simp add: settle_fires_def Let_def)
next
  case (RefreshTimer a)
  then show ?thesis using s unfolding served_def by (simp add: refresh_fires_def Let_def)
next
  case Watchdog
  then show ?thesis using s schedule_served by (simp add: watchdog_def)
next
  case (PostAnswered taken)
  then show ?thesis using post_served [OF s(1) assms(3)] by simp
next
  case (UpdateTargets nxt)
  then show ?thesis using s unfolding served_def by (simp add: update_targets_def)
next
  case CloseStream
  then show ?thesis unfolding served_def by (simp add: close_stream_def)
qed

lemma start_facts:
  "stream_ok (subscribeToFleet le tk st t)" "served le (subscribeToFleet le tk st t)"
  "fs_posting (subscribeToFleet le tk st t) = None"
proof -
  show "stream_ok (subscribeToFleet le tk st t)"
    unfolding subscribeToFleet_def by (intro connect_ok) (simp_all add: max_backoff_def)
  show "served le (subscribeToFleet le tk st t)" unfolding subscribeToFleet_def by (intro connect_served) simp
  show "fs_posting (subscribeToFleet le tk st t) = None"
    by (simp add: subscribeToFleet_def connect_def scheduleReconnect_def Let_def)
qed

lemma run_ok: "stream_run le late s \<Longrightarrow> stream_ok s"
  by (induction rule: stream_run.induct) (simp_all add: start_facts step_ok)

lemma run_served: "stream_run le late s \<Longrightarrow> \<not> late \<Longrightarrow> served le s \<and> \<not> overtaken s"
proof (induction rule: stream_run.induct)
  case (start tk st targets)
  then show ?case using start_facts by (simp add: overtaken_def)
next
  case (advance late s tk e)
  then show ?case using step_served run_ok by blast
qed

lemma closed_silent:
  assumes s: "stream_ok s" "\<not> fs_active s" and e: "e \<noteq> CloseStream"
  shows "stream_step le tk e s \<in> {s, s\<lparr>fs_posting := None\<rparr>}"
proof -
  have off: "\<not> fs_reconnect s" "\<not> fs_connecting s" "\<not> fs_settle s" "fs_refresh s = []"
    using s unfolding stream_ok_def by blast+
  have post: "post_answered le tk taken s = (if fs_posting s = None then s else s\<lparr>fs_posting := None\<rparr>)" for taken
    using s(2) by (cases "fs_posting s") (simp_all add: post_answered_def split: prod.split)
  have "stream_step le tk e s = s" if "\<forall>taken. e \<noteq> PostAnswered taken"
  proof (cases e)
    case (PostAnswered taken)
    then show ?thesis using that by blast
  qed (use e s(2) off in \<open>simp_all add: refresh_fires_def update_targets_def\<close>)
  moreover have "stream_step le tk (PostAnswered taken) s \<in> {s, s\<lparr>fs_posting := None\<rparr>}" for taken
    unfolding stream_step.simps post by (cases "fs_posting s = None") (simp_all only: if_True if_False insert_iff simp_thms)
  ultimately show ?thesis by blast
qed

text \<open>
  C28. The stream is never stuck, and a closed stream is silent. In every reachable state an active stream either
  has a connection or has a reconnect scheduled, never both, after between half a second and ten seconds; the
  reconnect opens a connection that follows what the page follows by then; and once closed no timer is pending,
  and nothing that still happens (a late answer, an event of the source, a timer) does anything.
\<close>

theorem stream_never_stuck:
  assumes "stream_run le late s"
  shows "(fs_active s \<longrightarrow> (fs_reconnect s \<longleftrightarrow> fs_events s = None)) \<and>
    500 \<le> fs_backoff s \<and> fs_backoff s \<le> 10000 \<and>
    (\<forall>tk. fs_active s \<and> fs_reconnect s \<and> tk_opens tk \<longrightarrow>
       (let t = stream_step le tk ReconnectTimer s
        in fs_events t \<noteq> None \<and> fs_following t = fleetTargetsKey le (fs_targets t) \<and> fs_targets t = fs_targets s \<and>
           last (fs_log t) = OpenSource (eventStreamURL le (fs_targets s)))) \<and>
    (\<not> fs_active s \<longrightarrow> \<not> fs_reconnect s \<and> \<not> fs_connecting s \<and> \<not> fs_settle s \<and> fs_refresh s = []) \<and>
    (\<forall>tk e. \<not> fs_active s \<and> e \<noteq> CloseStream \<longrightarrow> stream_step le tk e s \<in> {s, s\<lparr>fs_posting := None\<rparr>})"
proof -
  have ok: "stream_ok s" using assms by (rule run_ok)
  have "fs_events t \<noteq> None \<and> fs_following t = fleetTargetsKey le (fs_targets t) \<and> fs_targets t = fs_targets s \<and>
      last (fs_log t) = OpenSource (eventStreamURL le (fs_targets s))"
    if "fs_active s" "fs_reconnect s" "tk_opens tk" "t = stream_step le tk ReconnectTimer s" for t tk
    using that(1,2,3) unfolding that(4) by (simp add: connect_def Let_def listen_def emit_def)
  moreover have "stream_step le tk e s \<in> {s, s\<lparr>fs_posting := None\<rparr>}" if "\<not> fs_active s" "e \<noteq> CloseStream" for tk e
    using closed_silent [OF ok that] .
  ultimately show ?thesis using ok unfolding stream_ok_def max_backoff_def Let_def by blast
qed

lemma retarget_same: "fs_following s = fleetTargetsKey le (fs_targets s) \<Longrightarrow> retarget le s = s"
  unfolding retarget_def by (cases "fs_events s"; cases "fs_streamID s") simp_all

lemma answer_taken:
  assumes "fs_posting s = Some (c, w)" "fs_active s" "fs_events s = Some c"
  shows "stream_step le tk (PostAnswered True) s = retarget le (s\<lparr>fs_posting := None, fs_following := w\<rparr>)"
  using assms by (simp add: post_answered_def)

text \<open>
  C29. The connection catches up with the page. As long as no post was overtaken by the loss of its connection, a
  connection that has said hello and no change of the targets waiting to settle either serves what the page
  follows now or has an update in flight; and two answers that take the updates are enough for it to serve
  exactly what the page follows.
\<close>

theorem stream_catches_up:
  assumes "stream_run le False s"
    and "fs_active s" "fs_events s \<noteq> None" "or_else (fs_streamID s) [] \<noteq> []" "\<not> fs_settle s"
  shows "(fs_following s = fleetTargetsKey le (fs_targets s) \<or> fs_posting s \<noteq> None) \<and>
    (let t = stream_step le tk2 (PostAnswered True) (stream_step le tk1 (PostAnswered True) s)
     in fs_posting t = None \<and> fs_targets t = fs_targets s \<and> fs_following t = fleetTargetsKey le (fs_targets s))"
proof -
  have inv: "served le s" "\<not> overtaken s" using run_served [OF assms(1)] by blast+
  then have a: "fs_following s = fleetTargetsKey le (fs_targets s) \<or> fs_posting s \<noteq> None"
    using assms(2-5) unfolding served_def by blast
  obtain c sid where c: "fs_events s = Some c" "fs_streamID s = Some sid" "sid \<noteq> []"
    using assms(3,4) by (cases "fs_streamID s") auto
  have "fs_posting t = None \<and> fs_targets t = fs_targets s \<and> fs_following t = fleetTargetsKey le (fs_targets s)"
    if t: "t = stream_step le tk2 (PostAnswered True) (stream_step le tk1 (PostAnswered True) s)" for t
  proof (cases "fs_posting s")
    case None
    then show ?thesis using a unfolding t by (simp add: post_answered_def)
  next
    case (Some p)
    have p: "fs_posting s = Some (c, snd p)" using inv(2) Some c(1) unfolding overtaken_def by (cases p) simp
    let ?s1 = "retarget le (s\<lparr>fs_posting := None, fs_following := snd p\<rparr>)"
    have one: "stream_step le tk1 (PostAnswered True) s = ?s1" by (rule answer_taken [OF p assms(2) c(1)])
    show ?thesis
    proof (cases "snd p = fleetTargetsKey le (fs_targets s)")
      case True
      then have "?s1 = s\<lparr>fs_posting := None, fs_following := snd p\<rparr>" by (intro retarget_same) simp
      then show ?thesis unfolding t one using True by (simp add: post_answered_def)
    next
      case False
      let ?s2 = "?s1\<lparr>fs_posting := None, fs_following := fleetTargetsKey le (fs_targets s)\<rparr>"
      have s1: "fs_posting ?s1 = Some (c, fleetTargetsKey le (fs_targets s))" "fs_active ?s1" "fs_events ?s1 = Some c"
        "fs_targets ?s1 = fs_targets s"
        using False assms(2) c by (simp_all add: retarget_def)
      have "retarget le ?s2 = ?s2" by (rule retarget_same) (simp add: s1(4))
      then show ?thesis unfolding t one answer_taken [OF s1(1-3)] using s1(4) by simp
    qed
  qed
  then show ?thesis using a unfolding Let_def by blast
qed

subsection \<open>Concrete runs\<close>

definition plain_tick :: tick where
  "plain_tick = \<lparr>tk_now = 1000, tk_opens = True, tk_defers = (\<lambda>_. False), tk_unseen = (\<lambda>_. False)\<rparr>"

definition bytes_le :: "string \<Rightarrow> string \<Rightarrow> bool" where
  "bytes_le l r \<longleftrightarrow> l \<le> r"

definition follow :: "string list \<Rightarrow> fleet_targets" where
  "follow as = \<lparr>ft_agents = as, ft_screens = [], ft_watches = []\<rparr>"

definition opened_stream :: fleet_stream where
  "opened_stream = subscribeToFleet bytes_le plain_tick initialStreamState (follow [''a''])"

abbreviation after :: "stream_event list \<Rightarrow> fleet_stream \<Rightarrow> fleet_stream" where
  "after es s \<equiv> fold (stream_step bytes_le plain_tick) es s"

lemma run_after: "stream_run bytes_le late s \<Longrightarrow> \<exists>l. stream_run bytes_le l (after es s)"
  by (induction es arbitrary: late s) (auto intro: stream_run.advance)

lemma start_run: "stream_run bytes_le False opened_stream"
  unfolding opened_stream_def by (rule stream_run.start)

definition lost_stream :: fleet_stream where
  "lost_stream = after [FromSource (Hello ''b1'' (Some ''s1'')), FromSource Errored] opened_stream"

theorem stream_never_stuck_witness:
  "fs_reconnect lost_stream \<and> fs_events lost_stream = None \<and>
   last (fs_log (stream_step bytes_le plain_tick ReconnectTimer lost_stream)) = OpenSource ''/api/events?agents=a''"
proof -
  obtain l where r: "stream_run bytes_le l lost_stream" using run_after [OF start_run] unfolding lost_stream_def by blast
  have f: "fs_active lost_stream" "fs_reconnect lost_stream" "tk_opens plain_tick"
    "eventStreamURL bytes_le (fs_targets lost_stream) = ''/api/events?agents=a''" by code_simp+
  from stream_never_stuck [OF r] f show ?thesis unfolding Let_def by metis
qed

definition hello_stream :: fleet_stream where
  "hello_stream = stream_step bytes_le plain_tick (FromSource (Hello ''b1'' (Some ''s1''))) opened_stream"

definition retargeted_stream :: fleet_stream where
  "retargeted_stream = stream_step bytes_le plain_tick (UpdateTargets (follow [''b'', ''a'', ''b''])) hello_stream"

definition posting_stream :: fleet_stream where
  "posting_stream = stream_step bytes_le plain_tick SettleTimer retargeted_stream"

lemma run_on_time:
  "stream_run le False s \<Longrightarrow> \<not> overtaken (stream_step le tk e s) \<Longrightarrow> stream_run le False (stream_step le tk e s)"
  using stream_run.advance [of le False s tk e] by (simp only: simp_thms)

theorem stream_catches_up_witness:
  "fs_following posting_stream = ''agents=a'' \<and> fs_posting posting_stream = Some (0, ''agents=a%2Cb'') \<and>
   fs_following (after [PostAnswered True, PostAnswered True] posting_stream) = ''agents=a%2Cb''"
proof -
  have n: "\<not> overtaken hello_stream" "\<not> overtaken retargeted_stream" "\<not> overtaken posting_stream" by code_simp+
  have "stream_run bytes_le False hello_stream"
    using n(1) unfolding hello_stream_def by (rule run_on_time [OF start_run])
  from run_on_time [OF this, of plain_tick "UpdateTargets (follow [''b'', ''a'', ''b''])", folded retargeted_stream_def, OF n(2)]
  have r: "stream_run bytes_le False posting_stream"
    using n(3) unfolding posting_stream_def by (rule run_on_time)
  have f: "fs_active posting_stream" "fs_events posting_stream \<noteq> None" "or_else (fs_streamID posting_stream) [] \<noteq> []"
    "\<not> fs_settle posting_stream" "fleetTargetsKey bytes_le (fs_targets posting_stream) = ''agents=a%2Cb''"
    "fs_following posting_stream = ''agents=a''" "fs_posting posting_stream = Some (0, ''agents=a%2Cb'')" by code_simp+
  from stream_catches_up [OF r f(1-4), of plain_tick plain_tick] f(5-7) show ?thesis unfolding Let_def by simp
qed

text \<open>
  An update whose connection is lost while it is in flight can strand the next connection. The answer of such
  a post comes back after the new connection said hello and after a change of the targets settled: both found the
  post in flight and left the update to its answer, which is dropped because the connection is another one. In the
  state reached nothing is pending, and the stream serves the old targets until the next change or reconnect.
\<close>

lemma overtaken_post_strands_the_stream:
  "let s = after [FromSource (Hello ''b1'' (Some ''s1'')), UpdateTargets (follow [''a'', ''b'']), SettleTimer,
                  FromSource Errored, ReconnectTimer, FromSource Opened, FromSource (Hello ''b1'' (Some ''s2'')),
                  UpdateTargets (follow [''a'', ''b'', ''c'']), SettleTimer, PostAnswered True] opened_stream
   in fs_active s \<and> fs_events s \<noteq> None \<and> fs_streamID s = Some ''s2'' \<and>
      \<not> fs_settle s \<and> \<not> fs_reconnect s \<and> \<not> fs_connecting s \<and> fs_posting s = None \<and>
      fs_following s = ''agents=a%2Cb'' \<and> fleetTargetsKey bytes_le (fs_targets s) = ''agents=a%2Cb%2Cc''"
  by code_simp

subsection \<open>The key of a subscription\<close>

lemma query_head: "kvs \<noteq> [] \<Longrightarrow> \<not> starts_with ''?'' (query_string kvs)"
proof -
  assume "kvs \<noteq> []"
  then obtain k v r where k: "kvs = (k, v) # r" by (metis list.exhaust surj_pair)
  obtain t where t: "query_string kvs = form_encode k @ CHR ''='' # t"
    unfolding k query_string_def by (cases r) auto
  have "CHR ''?'' \<notin> set (form_encode k)" by (rule form_encode_separators)
  then show ?thesis unfolding t by (cases "form_encode k") (auto simp: starts_with.simps)
qed

lemma parse_query_key: "parse_query (query_string kvs) = kvs"
proof (cases "kvs = []")
  case True
  then show ?thesis by (simp add: parse_query_def query_string_def starts_with.simps)
next
  case False
  have "parse_query (query_string kvs) = parse_query (CHR ''?'' # query_string kvs)"
    using query_head [OF False] unfolding parse_query_def by (simp add: starts_with.simps)
  then show ?thesis using parse_query_string [OF False] by simp
qed

lemma listed_names:
  assumes "\<forall>x \<in> set xs. x \<noteq> [] \<and> CHR '','' \<notin> set x"
  shows "filter (\<lambda>s. s \<noteq> []) (split_on (CHR '','') (name_list le xs)) = sort_by le (uniq xs)"
proof (cases "sort_by le (uniq xs) = []")
  case True
  then show ?thesis by (simp add: name_list_def)
next
  case False
  have "\<forall>p \<in> set (sort_by le (uniq xs)). CHR '','' \<notin> set p" using assms by simp
  from split_join [OF False this] have "split_on (CHR '','') (name_list le xs) = sort_by le (uniq xs)"
    unfolding name_list_def .
  then show ?thesis using assms by (simp add: filter_id_conv)
qed

lemma watches_back: "read_json (stringify (JArr (map watch_json ws))) = Some (JArr (map watch_json ws))"
  by (rule read_stringify) (simp add: watch_json_def list_all_iff)

lemma watch_back: "watch_of_json (watch_json w) = w"
  by (simp add: watch_of_json_def watch_json_def)

lemma targets_back:
  assumes a: "\<forall>x \<in> set (ft_agents t) \<union> set (ft_screens t). x \<noteq> [] \<and> CHR '','' \<notin> set x"
  shows "targetsFromKey (fleetTargetsKey le t) =
    \<lparr>ft_agents = sort_by le (uniq (ft_agents t)), ft_screens = sort_by le (uniq (ft_screens t)), ft_watches = ft_watches t\<rparr>"
proof -
  let ?q = "eventQuery le t"
  have ag: "or_else (map_of ?q ''agents'') [] = name_list le (ft_agents t)"
    and sc: "or_else (map_of ?q ''screens'') [] = name_list le (ft_screens t)"
    by (simp_all add: eventQuery_def Let_def)
  have wt: "map watch_of_json (or_else (as_array (read_json (or_else (map_of ?q ''watches'') ''[]''))) []) = ft_watches t"
  proof (cases "ft_watches t = []")
    case True
    have "read_json ''[]'' = Some (JArr [])" by code_simp
    then show ?thesis using True by (simp add: eventQuery_def Let_def)
  next
    case False
    then have "or_else (map_of ?q ''watches'') ''[]'' = stringify (JArr (map watch_json (ft_watches t)))"
      by (simp add: eventQuery_def Let_def)
    then show ?thesis by (simp add: watches_back watch_back comp_def del: stringify.simps)
  qed
  have "key_list ?q ''agents'' = sort_by le (uniq (ft_agents t))" "key_list ?q ''screens'' = sort_by le (uniq (ft_screens t))"
    unfolding key_list_def ag sc using a by (intro listed_names; blast)+
  then show ?thesis unfolding targetsFromKey_def fleetTargetsKey_def parse_query_key Let_def wt by simp
qed

text \<open>Sorting a sorted list leaves it as it is.\<close>

lemma sorted_sort_by:
  assumes "\<And>x y. le x y \<or> le y x" "\<And>x y z. le x y \<Longrightarrow> le y z \<Longrightarrow> le x z"
  shows "sorted_wrt le (sort_by le xs)"
proof (induction xs)
  case (Cons x xs)
  have "sorted_wrt le (insert_by le x ys)" if "sorted_wrt le ys" for ys
    using that
  proof (induction ys)
    case (Cons y ys)
    show ?case
    proof (cases "le x y")
      case True
      then show ?thesis using Cons.prems assms(2) by auto
    next
      case False
      then have "le y x" using assms(1) by blast
      then show ?thesis using Cons False by auto
    qed
  qed simp
  then show ?case using Cons by simp
qed simp

lemma sort_by_sorted: "sorted_wrt le xs \<Longrightarrow> sort_by le xs = xs"
proof (induction xs)
  case (Cons x xs)
  then show ?case by (cases xs) simp_all
qed simp

text \<open>
  C31. The key of a subscription is the subscription. For agents and panes whose names are not empty and hold no
  comma, reading a key back gives the same watches and the same agents and panes, each once and in order; and what
  is read back has the same key, so two subscriptions are told apart by their keys exactly when they differ as sets.
\<close>

theorem subscription_key_roundtrip:
  assumes "\<forall>x \<in> set (ft_agents t) \<union> set (ft_screens t). x \<noteq> [] \<and> CHR '','' \<notin> set x"
    and "\<And>x y. le x y \<or> le y x" "\<And>x y z. le x y \<Longrightarrow> le y z \<Longrightarrow> le x z"
  shows "targetsFromKey (fleetTargetsKey le t) =
      \<lparr>ft_agents = sort_by le (uniq (ft_agents t)), ft_screens = sort_by le (uniq (ft_screens t)), ft_watches = ft_watches t\<rparr> \<and>
    fleetTargetsKey le (targetsFromKey (fleetTargetsKey le t)) = fleetTargetsKey le t"
proof -
  have n: "name_list le (sort_by le (uniq xs)) = name_list le xs" for xs
    unfolding name_list_def using sorted_sort_by [of le "uniq xs", OF assms(2,3)] by (simp add: sort_by_sorted)
  show ?thesis unfolding targets_back [OF assms(1)]
    by (simp add: fleetTargetsKey_def eventQuery_def n)
qed

theorem subscription_key_roundtrip_witness:
  "targetsFromKey (fleetTargetsKey bytes_le
      \<lparr>ft_agents = [''b'', ''a'', ''b''], ft_screens = [], ft_watches = [\<lparr>wt_kind = ''file'', wt_root = ''/r'', wt_path = ''a b''\<rparr>]\<rparr>) =
    \<lparr>ft_agents = [''a'', ''b''], ft_screens = [], ft_watches = [\<lparr>wt_kind = ''file'', wt_root = ''/r'', wt_path = ''a b''\<rparr>]\<rparr>"
proof -
  let ?t = "\<lparr>ft_agents = [''b'', ''a'', ''b''], ft_screens = [], ft_watches = [\<lparr>wt_kind = ''file'', wt_root = ''/r'', wt_path = ''a b''\<rparr>]\<rparr>"
  have h: "\<forall>x \<in> set (ft_agents ?t) \<union> set (ft_screens ?t). x \<noteq> [] \<and> CHR '','' \<notin> set x" by simp
  have l: "bytes_le x y \<or> bytes_le y x" "bytes_le x y \<Longrightarrow> bytes_le y z \<Longrightarrow> bytes_le x z" for x y z
    unfolding bytes_le_def by auto
  have s: "sort_by bytes_le (uniq [''b'', ''a'', ''b'']) = [''a'', ''b'']" by code_simp
  show ?thesis using subscription_key_roundtrip [OF h, of bytes_le] l s by simp
qed

end
