(* ===== verification/FileWatch.thy ===== *)
theory FileWatch
  imports FleetStream
begin

section \<open>The registry of watched files\<close>

text \<open>
  \<^verbatim>\<open>stream/fileWatchRegistry.ts\<close>: panels register the files and folders they show, and after a quiet moment
  the stream is told the targets that are still registered. A registration hands out a release, here a handle:
  its number in the list of handles, each with its key and whether it is still active.
\<close>

subsection \<open>Operations\<close>

definition targetKey :: "watch_target \<Rightarrow> string" where
  "targetKey t = stringify (JArr [JStr (wt_kind t), JStr (wt_root t), JStr (wt_path t)])"

record watch_registry =
  wr_registrations :: "(string, watch_target \<times> nat) jsmap"
  wr_timer :: bool
  wr_disposed :: bool
  wr_lastSnapshot :: string
  wr_told :: "watch_target list list"
  wr_handles :: "(string \<times> bool) list"

definition createFileWatchRegistry :: watch_registry where
  "createFileWatchRegistry =
     \<lparr>wr_registrations = [], wr_timer = False, wr_disposed = False, wr_lastSnapshot = ''[]'', wr_told = [], wr_handles = []\<rparr>"

definition schedule_snapshot :: "watch_registry \<Rightarrow> watch_registry" where
  "schedule_snapshot s = (if wr_disposed s then s else s\<lparr>wr_timer := True\<rparr>)"

definition watched :: "watch_registry \<Rightarrow> watch_target list" where
  "watched s = map fst (vals (wr_registrations s))"

definition targets_text :: "watch_target list \<Rightarrow> string" where
  "targets_text ts = stringify (JArr (map watch_json ts))"

definition snapshot_timer :: "watch_registry \<Rightarrow> watch_registry" where
  "snapshot_timer s =
     (if \<not> wr_timer s then s
      else let t = s\<lparr>wr_timer := False\<rparr>; targets = watched s; serialized = targets_text targets
           in if serialized = wr_lastSnapshot s then t
              else t\<lparr>wr_lastSnapshot := serialized, wr_told := wr_told s @ [targets]\<rparr>)"

definition register_target :: "watch_target \<Rightarrow> watch_registry \<Rightarrow> watch_registry" where
  "register_target t s =
     (if wr_disposed s then s
      else let k = targetKey t;
               entry = (case get (wr_registrations s) k of Some (u, n) \<Rightarrow> (u, Suc n) | None \<Rightarrow> (t, 1))
           in schedule_snapshot
                (s\<lparr>wr_registrations := put k entry (wr_registrations s), wr_handles := wr_handles s @ [(k, True)]\<rparr>))"

text \<open>Calling the release of handle \<open>i\<close>.\<close>

definition release_handle :: "nat \<Rightarrow> watch_registry \<Rightarrow> watch_registry" where
  "release_handle i s =
     (if length (wr_handles s) \<le> i \<or> \<not> snd (wr_handles s ! i) \<or> wr_disposed s then s
      else let k = fst (wr_handles s ! i); t = s\<lparr>wr_handles := (wr_handles s)[i := (k, False)]\<rparr>
           in case get (wr_registrations s) k of
                None \<Rightarrow> t
              | Some (u, n) \<Rightarrow>
                  schedule_snapshot
                    (t\<lparr>wr_registrations := (if n - 1 = 0 then del k (wr_registrations s) else put k (u, n - 1) (wr_registrations s))\<rparr>))"

definition dispose_registry :: "watch_registry \<Rightarrow> watch_registry" where
  "dispose_registry s = s\<lparr>wr_disposed := True, wr_registrations := [], wr_timer := False\<rparr>"

inductive watch_run :: "watch_registry \<Rightarrow> bool" where
  created: "watch_run createFileWatchRegistry"
| registered: "watch_run s \<Longrightarrow> watch_run (register_target t s)"
| released: "watch_run s \<Longrightarrow> watch_run (release_handle i s)"
| fired: "watch_run s \<Longrightarrow> watch_run (snapshot_timer s)"
| disposed: "watch_run s \<Longrightarrow> watch_run (dispose_registry s)"

subsection \<open>Keys and texts tell targets apart\<close>

lemma targetKey_inj: "targetKey t = targetKey u \<longleftrightarrow> t = u"
proof
  assume "targetKey t = targetKey u"
  then have "read_json (targetKey t) = read_json (targetKey u)" by simp
  then have "JArr [JStr (wt_kind t), JStr (wt_root t), JStr (wt_path t)] = JArr [JStr (wt_kind u), JStr (wt_root u), JStr (wt_path u)]"
    unfolding targetKey_def by (simp add: read_stringify del: stringify.simps)
  then show "t = u" by simp
qed simp

lemma targets_text_inj: "targets_text ts = targets_text us \<longleftrightarrow> ts = us"
proof
  assume "targets_text ts = targets_text us"
  then have "read_json (targets_text ts) = read_json (targets_text us)" by simp
  moreover have "finite_json (JArr (map watch_json xs))" for xs by (simp add: watch_json_def list_all_iff)
  ultimately have e: "map watch_json ts = map watch_json us"
    unfolding targets_text_def by (simp add: read_stringify del: stringify.simps finite_json.simps)
  have "inj watch_json" by (rule injI) (simp add: watch_json_def)
  then show "ts = us" using e by (simp add: inj_map_eq_map)
qed simp

subsection \<open>Counting\<close>

text \<open>How many handles of a key are active.\<close>

definition holders :: "(string \<times> bool) list \<Rightarrow> string \<Rightarrow> nat" where
  "holders hs k = length (filter (\<lambda>h. h = (k, True)) hs)"

fun tallied :: "(watch_target \<times> nat) option \<Rightarrow> nat \<Rightarrow> string \<Rightarrow> bool" where
  "tallied None n k \<longleftrightarrow> n = 0"
| "tallied (Some (t, m)) n k \<longleftrightarrow> k = targetKey t \<and> m = n \<and> m > 0"

definition tallies_ok :: "watch_registry \<Rightarrow> bool" where
  "tallies_ok s \<longleftrightarrow>
     wf_map (wr_registrations s) \<and> (\<forall>k. tallied (get (wr_registrations s) k) (holders (wr_handles s) k) k)"

definition told_last :: "watch_registry \<Rightarrow> watch_target list" where
  "told_last s = (if wr_told s = [] then [] else last (wr_told s))"

definition watch_ok :: "watch_registry \<Rightarrow> bool" where
  "watch_ok s \<longleftrightarrow>
     wr_lastSnapshot s = targets_text (told_last s) \<and>
     (wr_disposed s \<longrightarrow> \<not> wr_timer s) \<and>
     (\<not> wr_disposed s \<longrightarrow> tallies_ok s \<and> (\<not> wr_timer s \<longrightarrow> told_last s = watched s))"

lemma holders_append [simp]: "holders (hs @ [(k', b)]) k = holders hs k + (if k' = k \<and> b then 1 else 0)"
  by (auto simp: holders_def)

lemma holders_release:
  assumes "i < length hs" "hs ! i = (k', True)"
  shows "holders hs k = holders (hs[i := (k', False)]) k + (if k = k' then 1 else 0)"
proof -
  have hs: "hs = take i hs @ (k', True) # drop (Suc i) hs" using assms id_take_nth_drop by metis
  have up: "hs[i := (k', False)] = take i hs @ (k', False) # drop (Suc i) hs" using assms(1) by (rule upd_conv_take_nth_drop)
  show ?thesis unfolding holders_def up by (subst hs) (simp del: append_take_drop_id)
qed

lemma register_counted:
  assumes c: "tallies_ok s" and "\<not> wr_disposed s"
  shows "tallies_ok (register_target t s)"
proof -
  let ?r = "wr_registrations s" and ?h = "wr_handles s" and ?k = "targetKey t"
  let ?e = "case get ?r ?k of Some (u, n) \<Rightarrow> (u, Suc n) | None \<Rightarrow> (t, 1)"
  have "tallied (get (put ?k ?e ?r) k) (holders (?h @ [(?k, True)]) k) k" for k
  proof -
    have k: "tallied (get ?r k) (holders ?h k) k" using c unfolding tallies_ok_def by blast
    show ?thesis
    proof (cases "k = ?k")
      case True
      show ?thesis using k unfolding True get_put
        by (cases "get ?r ?k") (auto split: prod.split)
    next
      case False
      then show ?thesis using k by (simp add: get_put)
    qed
  qed
  moreover have "wf_map (put ?k ?e ?r)" using c unfolding tallies_ok_def by (intro wf_put) blast
  ultimately show ?thesis using assms(2)
    unfolding tallies_ok_def register_target_def schedule_snapshot_def Let_def by simp
qed

lemma register_ok:
  assumes s: "watch_ok s"
  shows "watch_ok (register_target t s)"
proof (cases "wr_disposed s")
  case False
  then have "tallies_ok (register_target t s)" using s register_counted unfolding watch_ok_def by blast
  then show ?thesis using s False unfolding watch_ok_def
    by (simp add: register_target_def schedule_snapshot_def told_last_def Let_def)
qed (use s in \<open>simp add: register_target_def\<close>)

lemma release_counted:
  assumes c: "tallies_ok s" and h: "i < length (wr_handles s)" "wr_handles s ! i = (k', True)" "\<not> wr_disposed s"
  shows "tallies_ok (release_handle i s)" "wr_timer (release_handle i s)"
proof -
  let ?r = "wr_registrations s" and ?h = "wr_handles s"
  have tl: "tallied (get ?r k) (holders ?h k) k" for k using c unfolding tallies_ok_def by blast
  have "holders ?h k' \<noteq> 0" using holders_release [OF h(1,2), of k'] by simp
  then obtain u n where r: "get ?r k' = Some (u, n)" using tl [of k'] by (cases "get ?r k'") auto
  have n: "n = holders ?h k'" "k' = targetKey u" "n > 0" using tl [of k'] unfolding r tallied.simps by blast+
  let ?new = "if n - 1 = 0 then del k' ?r else put k' (u, n - 1) ?r"
  have out: "release_handle i s = schedule_snapshot (s\<lparr>wr_handles := ?h[i := (k', False)], wr_registrations := ?new\<rparr>)"
    using h unfolding release_handle_def Let_def by (simp add: r)
  have "tallied (get ?new k) (holders (?h[i := (k', False)]) k) k" for k
    using tl [of k] holders_release [OF h(1,2), of k] n by (cases "k = k'") (auto simp: get_put get_del r)
  moreover have "wf_map ?new" using c unfolding tallies_ok_def by (simp del: One_nat_def)
  ultimately show "tallies_ok (release_handle i s)" "wr_timer (release_handle i s)" using h(3)
    unfolding tallies_ok_def out schedule_snapshot_def by simp_all
qed

lemma release_told: "wr_told (release_handle i s) = wr_told s" "wr_lastSnapshot (release_handle i s) = wr_lastSnapshot s"
  "wr_disposed (release_handle i s) = wr_disposed s"
  unfolding release_handle_def schedule_snapshot_def Let_def by (auto split: option.splits)

lemma release_ok:
  assumes s: "watch_ok s"
  shows "watch_ok (release_handle i s)"
proof (cases "length (wr_handles s) \<le> i \<or> \<not> snd (wr_handles s ! i) \<or> wr_disposed s")
  case True
  then have "release_handle i s = s" by (simp add: release_handle_def)
  then show ?thesis using s by simp
next
  case False
  obtain k' where k': "wr_handles s ! i = (k', True)" using False by (metis prod.collapse)
  have c: "tallies_ok s" using s False unfolding watch_ok_def by blast
  from release_counted [OF c _ k'] False have "tallies_ok (release_handle i s)" "wr_timer (release_handle i s)" by simp_all
  then show ?thesis using s False unfolding watch_ok_def told_last_def release_told by simp
qed

lemma fire_ok:
  assumes s: "watch_ok s"
  shows "watch_ok (snapshot_timer s)"
proof (cases "wr_timer s")
  case True
  then have d: "\<not> wr_disposed s" "tallies_ok s" "wr_lastSnapshot s = targets_text (told_last s)"
    using s unfolding watch_ok_def by blast+
  have c: "tallies_ok (snapshot_timer s)"
    using d(2) True unfolding tallies_ok_def snapshot_timer_def Let_def by simp
  show ?thesis
  proof (cases "targets_text (watched s) = wr_lastSnapshot s")
    case same: True
    then have "watched s = told_last s" unfolding d(3) targets_text_inj .
    then show ?thesis using c d True same unfolding watch_ok_def
      by (simp add: snapshot_timer_def told_last_def watched_def)
  next
    case new: False
    then show ?thesis using c d True unfolding watch_ok_def
      by (simp add: snapshot_timer_def told_last_def watched_def Let_def)
  qed
next
  case False
  then show ?thesis using s by (simp add: snapshot_timer_def)
qed

lemma watch_run_ok: "watch_run s \<Longrightarrow> watch_ok s"
proof (induction rule: watch_run.induct)
  case created
  show ?case by (simp add: watch_ok_def createFileWatchRegistry_def told_last_def targets_text_def tallies_ok_def holders_def watched_def)
next
  case (disposed s)
  then show ?case unfolding watch_ok_def by (simp add: dispose_registry_def told_last_def)
qed (simp_all add: register_ok release_ok fire_ok)

lemma holders_active: "holders hs k > 0 \<longleftrightarrow> (\<exists>i < length hs. hs ! i = (k, True))"
  unfolding holders_def by (auto simp: filter_empty_conv in_set_conv_nth)

text \<open>
  C32. The registry refines a set. In every run of registrations, releases (in any order, and more than once) and
  timer turns, once no turn is pending the stream was last told exactly the targets somebody still holds: each
  once, a target being told if and only if one of its releases has not been called; a release called again, and
  anything after the registry is disposed, changes nothing.
\<close>

theorem watched_files_are_told:
  assumes "watch_run s" "\<not> wr_disposed s" "\<not> wr_timer s"
  shows "distinct (told_last s) \<and>
    (\<forall>t. t \<in> set (told_last s) \<longleftrightarrow> (\<exists>i < length (wr_handles s). wr_handles s ! i = (targetKey t, True))) \<and>
    (\<forall>i. release_handle i (release_handle i s) = release_handle i s) \<and>
    (let d = dispose_registry s in \<forall>t i. register_target t d = d \<and> release_handle i d = d \<and> snapshot_timer d = d)"
proof -
  have ok: "tallies_ok s" "told_last s = watched s" using watch_run_ok [OF assms(1)] assms(2,3) unfolding watch_ok_def by blast+
  let ?r = "wr_registrations s"
  have wf: "wf_map ?r" and tl: "tallied (get ?r k) (holders (wr_handles s) k) k" for k using ok(1) unfolding tallies_ok_def by blast+
  have entry: "fst p = targetKey (fst (snd p))" if "p \<in> set ?r" for p
  proof -
    obtain k t n where p: "p = (k, t, n)" by (cases p)
    have "get ?r k = Some (t, n)" using wf that unfolding p by (rule map_of_is_SomeI)
    then show ?thesis using tl [of k] unfolding p by simp
  qed
  have "map targetKey (watched s) = keys ?r" unfolding watched_def using entry by (simp add: comp_def)
  then have "distinct (watched s)" using wf by (metis distinct_map)
  moreover have "t \<in> set (watched s) \<longleftrightarrow> holders (wr_handles s) (targetKey t) > 0" for t
  proof
    assume "t \<in> set (watched s)"
    then obtain k n where "(k, t, n) \<in> set ?r" unfolding watched_def by auto
    then have "get ?r (targetKey t) = Some (t, n)" using entry [of "(k, t, n)"] wf by (metis fst_conv snd_conv map_of_is_SomeI)
    then show "holders (wr_handles s) (targetKey t) > 0" using tl [of "targetKey t"] by simp
  next
    assume "holders (wr_handles s) (targetKey t) > 0"
    then obtain u n where u: "get ?r (targetKey t) = Some (u, n)" using tl [of "targetKey t"] by (cases "get ?r (targetKey t)") auto
    then have "u = t" using tl [of "targetKey t"] targetKey_inj by simp
    then have "(targetKey t, t, n) \<in> set ?r" using u by (blast intro: get_Some_in)
    then show "t \<in> set (watched s)" unfolding watched_def by force
  qed
  moreover have "release_handle i (release_handle i s) = release_handle i s" for i
  proof (cases "length (wr_handles s) \<le> i \<or> \<not> snd (wr_handles s ! i)")
    case True
    then have "release_handle i s = s" by (auto simp: release_handle_def)
    then show ?thesis by simp
  next
    case False
    have "wr_handles (release_handle i s) = (wr_handles s)[i := (fst (wr_handles s ! i), False)]"
      using False assms(2) unfolding release_handle_def schedule_snapshot_def Let_def by (auto split: option.splits)
    then have "\<not> snd (wr_handles (release_handle i s) ! i)" using False by simp
    then show ?thesis by (simp add: release_handle_def [of i "release_handle i s"])
  qed
  moreover have "register_target t d = d \<and> release_handle i d = d \<and> snapshot_timer d = d" if "d = dispose_registry s" for t i d
    unfolding that by (simp add: dispose_registry_def register_target_def release_handle_def snapshot_timer_def)
  ultimately show ?thesis unfolding ok(2) Let_def holders_active by blast
qed

definition a_file :: watch_target where
  "a_file = \<lparr>wt_kind = ''file'', wt_root = ''/r'', wt_path = ''a''\<rparr>"

definition b_file :: watch_target where
  "b_file = \<lparr>wt_kind = ''file'', wt_root = ''/r'', wt_path = ''b''\<rparr>"

definition two_held :: watch_registry where
  "two_held = snapshot_timer (release_handle 0 (release_handle 0 (register_target a_file (register_target b_file
     (register_target a_file createFileWatchRegistry)))))"

theorem watched_files_are_told_witness:
  "told_last two_held = [a_file, b_file] \<and> (\<exists>i < 3. wr_handles two_held ! i = (targetKey b_file, True))"
proof -
  have r: "watch_run two_held" unfolding two_held_def by (intro watch_run.intros)
  have f: "\<not> wr_disposed two_held" "\<not> wr_timer two_held" "told_last two_held = [a_file, b_file]" "length (wr_handles two_held) = 3"
    by code_simp+
  have "b_file \<in> set (told_last two_held)" unfolding f(3) by simp
  then show ?thesis using watched_files_are_told [OF r f(1,2), unfolded f(4)] f(3) by blast
qed

end
