(* ===== verification/SendRefresh.thy ===== *)
theory SendRefresh
  imports Prelude
begin

section \<open>Sends and the wakes they take over\<close>

text \<open>
  \<^verbatim>\<open>sendRefresh.ts\<close>: while a message is being sent to an agent, the stream's wakes for that agent are deferred
  to the completion of the send, which refreshes the transcript. A token is its number in the list of tokens;
  \<open>activeSends\<close> is the map of the one query client. The log holds the wakes and the refreshes that were begun.
\<close>

subsection \<open>Operations\<close>

record send_token =
  sk_agent :: string
  sk_deferred :: bool
  sk_active :: bool

datatype refresh_event = Woken string | Refreshed string

record sends =
  sd_tokens :: "send_token list"
  sd_active :: "(string, nat list) jsmap"
  sd_awaiting :: "nat list"
  sd_log :: "refresh_event list"

definition noSends :: sends where
  "noSends = \<lparr>sd_tokens = [], sd_active = [], sd_awaiting = [], sd_log = []\<rparr>"

definition beginSendRefresh :: "string \<Rightarrow> sends \<Rightarrow> sends" where
  "beginSendRefresh a s =
     s\<lparr>sd_tokens := sd_tokens s @ [\<lparr>sk_agent = a, sk_deferred = False, sk_active = True\<rparr>],
       sd_active := put a (set_add (length (sd_tokens s)) (or_else (get (sd_active s) a) [])) (sd_active s)\<rparr>"

definition mark_deferred :: "nat \<Rightarrow> send_token list \<Rightarrow> send_token list" where
  "mark_deferred i ts = (if i < length ts then ts[i := (ts ! i)\<lparr>sk_deferred := True\<rparr>] else ts)"

definition deferMessageRefresh :: "string \<Rightarrow> sends \<Rightarrow> bool \<times> sends" where
  "deferMessageRefresh a s =
     (case or_else (get (sd_active s) a) [] of
        [] \<Rightarrow> (False, s)
      | i # is \<Rightarrow> (True, s\<lparr>sd_tokens := fold mark_deferred (i # is) (sd_tokens s)\<rparr>))"

definition removeToken :: "nat \<Rightarrow> sends \<Rightarrow> sends" where
  "removeToken i s =
     (if length (sd_tokens s) \<le> i \<or> \<not> sk_active (sd_tokens s ! i) then s
      else let a = sk_agent (sd_tokens s ! i);
               t = s\<lparr>sd_tokens := (sd_tokens s)[i := (sd_tokens s ! i)\<lparr>sk_active := False\<rparr>]\<rparr>
           in case get (sd_active s) a of
                None \<Rightarrow> t
              | Some is \<Rightarrow>
                  (let r = set_remove i is
                   in t\<lparr>sd_active := (if r = [] then del a (sd_active s) else put a r (sd_active s))\<rparr>))"

definition begin_refresh :: "string \<Rightarrow> sends \<Rightarrow> sends" where
  "begin_refresh a s = s\<lparr>sd_log := sd_log s @ [Refreshed a]\<rparr>"

text \<open>\<open>settleSendRefresh\<close> up to its first \<open>await\<close>: a send that succeeded refreshes and then lets go of its token.\<close>

definition settleSendRefresh :: "nat \<Rightarrow> bool \<Rightarrow> sends \<Rightarrow> sends" where
  "settleSendRefresh i sent s =
     (if length (sd_tokens s) \<le> i \<or> \<not> sk_active (sd_tokens s ! i) then s
      else let t = sd_tokens s ! i
           in if sent then begin_refresh (sk_agent t) (s\<lparr>sd_awaiting := set_add i (sd_awaiting s)\<rparr>)
              else (let u = removeToken i s in if sk_deferred t then begin_refresh (sk_agent t) u else u))"

text \<open>The refresh of a send that succeeded has returned, or failed.\<close>

definition refresh_returned :: "nat \<Rightarrow> sends \<Rightarrow> sends" where
  "refresh_returned i s =
     (if i \<in> set (sd_awaiting s) then removeToken i (s\<lparr>sd_awaiting := set_remove i (sd_awaiting s)\<rparr>) else s)"

text \<open>A wake from the stream.\<close>

definition wake :: "string \<Rightarrow> sends \<Rightarrow> sends" where
  "wake a s =
     (case deferMessageRefresh a (s\<lparr>sd_log := sd_log s @ [Woken a]\<rparr>) of
        (True, t) \<Rightarrow> t
      | (False, t) \<Rightarrow> begin_refresh a t)"

subsection \<open>Runs\<close>

text \<open>A token whose send is still under way: it will refresh if it was deferred, whatever its outcome.\<close>

definition sending :: "sends \<Rightarrow> string \<Rightarrow> nat \<Rightarrow> bool" where
  "sending s a i \<longleftrightarrow> i < length (sd_tokens s) \<and> sk_active (sd_tokens s ! i) \<and> sk_agent (sd_tokens s ! i) = a \<and> i \<notin> set (sd_awaiting s)"

text \<open>The wakes that came when every send of the agent had already begun its refresh are remembered apart.
  A send settles once.\<close>

inductive send_run :: "string set \<Rightarrow> sends \<Rightarrow> bool" where
  quiet: "send_run {} noSends"
| begun: "send_run late s \<Longrightarrow> send_run late (beginSendRefresh a s)"
| settled: "send_run late s \<Longrightarrow> i \<notin> set (sd_awaiting s) \<Longrightarrow> send_run late (settleSendRefresh i sent s)"
| returned: "send_run late s \<Longrightarrow> send_run late (refresh_returned i s)"
| woken: "send_run late s \<Longrightarrow> (\<exists>i. sending s a i) \<or> get (sd_active s) a = None \<Longrightarrow> send_run late (wake a s)"
| woken_late: "send_run late s \<Longrightarrow> send_run (insert a late) (wake a s)"

text \<open>The last word on an agent is a wake.\<close>

fun is_about :: "string \<Rightarrow> refresh_event \<Rightarrow> bool" where
  "is_about a (Woken b) = (b = a)"
| "is_about a (Refreshed b) = (b = a)"

definition owed :: "string \<Rightarrow> refresh_event list \<Rightarrow> bool" where
  "owed a l \<longleftrightarrow> (case filter (is_about a) (rev l) of Woken b # _ \<Rightarrow> True | _ \<Rightarrow> False)"

lemma owed_snoc [simp]:
  "owed a (l @ [Woken b]) = (if b = a then True else owed a l)"
  "owed a (l @ [Refreshed b]) = (if b = a then False else owed a l)"
  "\<not> owed a []"
  "owed a (l @ [Woken b, Refreshed c]) = (if c = a then False else if b = a then True else owed a l)"
  by (simp_all add: owed_def)

definition active_of :: "sends \<Rightarrow> string \<Rightarrow> nat set" where
  "active_of s a = {i. i < length (sd_tokens s) \<and> sk_active (sd_tokens s ! i) \<and> sk_agent (sd_tokens s ! i) = a}"

definition sends_ok :: "sends \<Rightarrow> bool" where
  "sends_ok s \<longleftrightarrow>
     (\<forall>a. set (or_else (get (sd_active s) a) []) = active_of s a) \<and> (\<forall>a. get (sd_active s) a \<noteq> Some []) \<and>
     (\<forall>a. distinct (or_else (get (sd_active s) a) [])) \<and> distinct (sd_awaiting s)"

definition promised :: "string set \<Rightarrow> sends \<Rightarrow> bool" where
  "promised late s \<longleftrightarrow>
     (\<forall>a. owed a (sd_log s) \<and> a \<notin> late \<longrightarrow> (\<exists>i. sending s a i \<and> sk_deferred (sd_tokens s ! i)))"

lemma fold_mark:
  "length (fold mark_deferred is ts) = length ts"
  "i < length ts \<Longrightarrow> fold mark_deferred is ts ! i = (if i \<in> set is then (ts ! i)\<lparr>sk_deferred := True\<rparr> else ts ! i)"
proof -
  show l: "length (fold mark_deferred is ts) = length ts" for ts
    by (induction "is" arbitrary: ts) (simp_all add: mark_deferred_def)
  show "i < length ts \<Longrightarrow> fold mark_deferred is ts ! i = (if i \<in> set is then (ts ! i)\<lparr>sk_deferred := True\<rparr> else ts ! i)"
  proof (induction "is" arbitrary: ts)
    case (Cons j js)
    have "i < length (mark_deferred j ts)" using Cons.prems by (simp add: mark_deferred_def)
    from Cons.IH [OF this] show ?case using Cons.prems by (auto simp: mark_deferred_def nth_list_update)
  qed simp
qed

subsection \<open>The map of the sends\<close>

lemma in_active_of: "i \<in> active_of s a \<longleftrightarrow> i < length (sd_tokens s) \<and> sk_active (sd_tokens s ! i) \<and> sk_agent (sd_tokens s ! i) = a"
  by (simp add: active_of_def)

lemma begin_active: "active_of (beginSendRefresh b s) a = (if a = b then insert (length (sd_tokens s)) (active_of s a) else active_of s a)"
  unfolding active_of_def beginSendRefresh_def by (auto simp: nth_append less_Suc_eq split: if_splits)

lemma sends_okD:
  assumes "sends_ok s"
  shows "set (or_else (get (sd_active s) a) []) = active_of s a" "get (sd_active s) a \<noteq> Some []"
    "distinct (or_else (get (sd_active s) a) [])" "distinct (sd_awaiting s)"
  using assms unfolding sends_ok_def by blast+

lemma begin_ok:
  assumes "sends_ok s"
  shows "sends_ok (beginSendRefresh b s)"
proof -
  let ?n = "length (sd_tokens s)" and ?js = "or_else (get (sd_active s) b) []"
  have m: "get (sd_active (beginSendRefresh b s)) a = (if a = b then Some (set_add ?n ?js) else get (sd_active s) a)" for a
    by (simp add: beginSendRefresh_def get_put)
  have ne: "set_add ?n ?js \<noteq> []" by (simp add: set_add_def) (use in_set_conv_nth in force)
  have "sd_awaiting (beginSendRefresh b s) = sd_awaiting s" by (simp add: beginSendRefresh_def)
  then show ?thesis using sends_okD [OF assms] ne unfolding sends_ok_def m begin_active by simp
qed

lemma begin_promised:
  assumes "promised late s"
  shows "promised late (beginSendRefresh b s)"
proof -
  have "sending (beginSendRefresh b s) a i \<and> sd_tokens (beginSendRefresh b s) ! i = sd_tokens s ! i" if "sending s a i" for a i
    using that unfolding sending_def beginSendRefresh_def by (auto simp: nth_append)
  then show ?thesis using assms unfolding promised_def by (auto simp: beginSendRefresh_def) metis
qed

lemma remove_token:
  assumes ok: "sends_ok s" and i: "i < length (sd_tokens s)" "sk_active (sd_tokens s ! i)"
  shows "sends_ok (removeToken i s)"
    and "sd_tokens (removeToken i s) = (sd_tokens s)[i := (sd_tokens s ! i)\<lparr>sk_active := False\<rparr>]"
    and "sd_awaiting (removeToken i s) = sd_awaiting s" "sd_log (removeToken i s) = sd_log s"
proof -
  define a where "a = sk_agent (sd_tokens s ! i)"
  have "i \<in> active_of s a" using i unfolding in_active_of a_def by blast
  then obtain js where js: "get (sd_active s) a = Some js" "i \<in> set js"
    using sends_okD(1) [OF ok, of a] by (cases "get (sd_active s) a") auto
  let ?t = "s\<lparr>sd_tokens := (sd_tokens s)[i := (sd_tokens s ! i)\<lparr>sk_active := False\<rparr>]\<rparr>"
  let ?m = "if set_remove i js = [] then del a (sd_active s) else put a (set_remove i js) (sd_active s)"
  have out: "removeToken i s = ?t\<lparr>sd_active := ?m\<rparr>" using i js unfolding removeToken_def a_def by (simp add: Let_def)
  then show "sd_tokens (removeToken i s) = (sd_tokens s)[i := (sd_tokens s ! i)\<lparr>sk_active := False\<rparr>]"
    "sd_awaiting (removeToken i s) = sd_awaiting s" "sd_log (removeToken i s) = sd_log s" by simp_all
  have act: "active_of (removeToken i s) b = active_of s b - {i}" for b
    unfolding out active_of_def using i(1) by (auto simp: nth_list_update)
  have other: "i \<notin> active_of s b" if "b \<noteq> a" for b using that unfolding in_active_of a_def by blast
  have m: "get ?m b = (if b = a then (if set_remove i js = [] then None else Some (set_remove i js)) else get (sd_active s) b)" for b
    by (simp add: get_put get_del)
  note okb = sends_okD [OF ok]
  have "set (or_else (get ?m b) []) = active_of s b - {i}" for b
  proof (cases "b = a")
    case True
    have "set (or_else (get ?m a) []) = set (set_remove i js)" unfolding m by (cases "set_remove i js = []") simp_all
    then show ?thesis using okb(1) [of a] unfolding True by (simp add: js)
  next
    case False
    then show ?thesis using okb(1) [of b] other [of b] unfolding m by simp
  qed
  moreover have "get ?m b \<noteq> Some []" for b using okb(2) [of b] unfolding m by simp
  moreover have "distinct (or_else (get ?m b) [])" for b using okb(3) [of b] okb(3) [of a] unfolding m by (simp add: js)
  moreover have "sd_active (removeToken i s) = ?m" "sd_awaiting (removeToken i s) = sd_awaiting s" unfolding out by simp_all
  ultimately show "sends_ok (removeToken i s)" using okb(4) unfolding sends_ok_def act by simp
qed

lemma defer_cases:
  assumes ok: "sends_ok s"
  obtains "get (sd_active s) a = None" "deferMessageRefresh a s = (False, s)"
  | js where "get (sd_active s) a = Some js" "set js = active_of s a"
      "deferMessageRefresh a s = (True, s\<lparr>sd_tokens := fold mark_deferred js (sd_tokens s)\<rparr>)"
proof (cases "get (sd_active s) a")
  case None
  then show ?thesis using that(1) by (simp add: deferMessageRefresh_def)
next
  case (Some js)
  have "js \<noteq> []" "set js = active_of s a" using sends_okD(1,2) [OF ok, of a] Some by auto
  then show ?thesis using that(2) [OF Some] Some by (cases js) (simp_all add: deferMessageRefresh_def)
qed

lemma marked_ok:
  assumes "sends_ok s"
  shows "sends_ok (s\<lparr>sd_tokens := fold mark_deferred js (sd_tokens s)\<rparr>)"
proof -
  have "active_of (s\<lparr>sd_tokens := fold mark_deferred js (sd_tokens s)\<rparr>) a = active_of s a" for a
    unfolding active_of_def by (auto simp: fold_mark split: if_splits)
  then show ?thesis using assms unfolding sends_ok_def by simp
qed

subsection \<open>Wakes are owed to a send that will refresh\<close>

lemma remove_promised:
  assumes p: "promised late s" and ok: "sends_ok s" and i: "i < length (sd_tokens s)" "sk_active (sd_tokens s ! i)"
    and free: "i \<in> set (sd_awaiting s) \<or> \<not> sk_deferred (sd_tokens s ! i)"
  shows "promised late (removeToken i s)"
  unfolding promised_def
proof (intro allI impI)
  note r = remove_token [OF ok i]
  fix a assume "owed a (sd_log (removeToken i s)) \<and> a \<notin> late"
  then obtain j where j: "sending s a j" "sk_deferred (sd_tokens s ! j)" using p unfolding promised_def r(4) by blast
  then have "j \<noteq> i" using free unfolding sending_def by blast
  then have "sending (removeToken i s) a j \<and> sk_deferred (sd_tokens (removeToken i s) ! j)"
    using j unfolding sending_def r(2,3) by simp
  then show "\<exists>i'. sending (removeToken i s) a i' \<and> sk_deferred (sd_tokens (removeToken i s) ! i')" by blast
qed

lemma refresh_promised: "promised late s \<Longrightarrow> promised late (begin_refresh a s)"
  unfolding promised_def begin_refresh_def sending_def by (auto split: if_splits)

lemma settle_promised:
  assumes p: "promised late s" and ok: "sends_ok s" and i: "i \<notin> set (sd_awaiting s)"
  shows "promised late (settleSendRefresh i sent s) \<and> sends_ok (settleSendRefresh i sent s)"
proof (cases "length (sd_tokens s) \<le> i \<or> \<not> sk_active (sd_tokens s ! i)")
  case True
  then show ?thesis using p ok by (simp add: settleSendRefresh_def)
next
  case False
  then have act: "i < length (sd_tokens s)" "sk_active (sd_tokens s ! i)" by simp_all
  have okr: "sends_ok (begin_refresh a u)" if "sends_ok u" for a u
    using that unfolding sends_ok_def begin_refresh_def active_of_def by simp
  define t where "t = sd_tokens s ! i"
  have keep: "promised late (begin_refresh (sk_agent t) u)"
    if u: "sd_log u = sd_log s" "sd_tokens u = sd_tokens s \<or> (\<forall>j. j \<noteq> i \<longrightarrow> sd_tokens u ! j = sd_tokens s ! j)"
      "length (sd_tokens u) = length (sd_tokens s)" "set (sd_awaiting u) \<subseteq> insert i (set (sd_awaiting s))" for u
    unfolding promised_def
  proof (intro allI impI)
    fix a assume a: "owed a (sd_log (begin_refresh (sk_agent t) u)) \<and> a \<notin> late"
    then have "a \<noteq> sk_agent t" "owed a (sd_log s)" using u(1) unfolding begin_refresh_def by (auto split: if_splits)
    then obtain j where j: "sending s a j" "sk_deferred (sd_tokens s ! j)" using p a unfolding promised_def by blast
    then have ne: "j \<noteq> i" using \<open>a \<noteq> sk_agent t\<close> unfolding sending_def t_def by blast
    then have "sd_tokens u ! j = sd_tokens s ! j" using u(2) by auto
    then have "sending (begin_refresh (sk_agent t) u) a j \<and> sk_deferred (sd_tokens (begin_refresh (sk_agent t) u) ! j)"
      using j ne u(3,4) unfolding sending_def begin_refresh_def by auto
    then show "\<exists>j. sending (begin_refresh (sk_agent t) u) a j \<and> sk_deferred (sd_tokens (begin_refresh (sk_agent t) u) ! j)" by blast
  qed
  note r = remove_token [OF ok act]
  show ?thesis
  proof (cases sent)
    case True
    let ?u = "s\<lparr>sd_awaiting := set_add i (sd_awaiting s)\<rparr>"
    have out: "settleSendRefresh i sent s = begin_refresh (sk_agent t) ?u"
      using act True by (simp add: settleSendRefresh_def t_def Let_def)
    have "sends_ok ?u" using ok unfolding sends_ok_def active_of_def by simp
    then show ?thesis unfolding out by (intro conjI keep okr) auto
  next
    case no: False
    show ?thesis
    proof (cases "sk_deferred t")
      case True
      have out: "settleSendRefresh i sent s = begin_refresh (sk_agent t) (removeToken i s)"
        using act no True by (simp add: settleSendRefresh_def t_def Let_def)
      show ?thesis unfolding out by (intro conjI keep okr r(1)) (auto simp: r(2-4))
    next
      case False
      have out: "settleSendRefresh i sent s = removeToken i s"
        using act no False by (simp add: settleSendRefresh_def t_def Let_def)
      have "promised late (removeToken i s)" using False unfolding t_def by (intro remove_promised [OF p ok act]) blast
      then show ?thesis unfolding out using r(1) by blast
    qed
  qed
qed

lemma returned_promised:
  assumes p: "promised late s" and ok: "sends_ok s"
  shows "promised late (refresh_returned i s) \<and> sends_ok (refresh_returned i s)"
proof (cases "i \<in> set (sd_awaiting s)")
  case True
  let ?u = "s\<lparr>sd_awaiting := set_remove i (sd_awaiting s)\<rparr>"
  have oku: "sends_ok ?u" using ok unfolding sends_ok_def active_of_def by simp
  show ?thesis
  proof (cases "i < length (sd_tokens s) \<and> sk_active (sd_tokens s ! i)")
    case act: True
    note r = remove_token [OF ok conjunct1 [OF act] conjunct2 [OF act]]
    have u: "i < length (sd_tokens ?u)" "sk_active (sd_tokens ?u ! i)" using act by simp_all
    note ru = remove_token [OF oku u]
    have "promised late (removeToken i ?u)"
      unfolding promised_def
    proof (intro allI impI)
      fix a assume "owed a (sd_log (removeToken i ?u)) \<and> a \<notin> late"
      then obtain j where j: "sending s a j" "sk_deferred (sd_tokens s ! j)" using p unfolding promised_def ru(4) by auto
      then have "j \<noteq> i" using True unfolding sending_def by blast
      then have "sending (removeToken i ?u) a j \<and> sk_deferred (sd_tokens (removeToken i ?u) ! j)"
        using j unfolding sending_def ru(2,3) by simp
      then show "\<exists>j. sending (removeToken i ?u) a j \<and> sk_deferred (sd_tokens (removeToken i ?u) ! j)" by blast
    qed
    then show ?thesis using ru(1) True by (simp add: refresh_returned_def)
  next
    case False
    then have "refresh_returned i s = ?u" using True by (auto simp: refresh_returned_def removeToken_def)
    moreover have "promised late ?u" using p False unfolding promised_def sending_def by auto
    ultimately show ?thesis using oku by simp
  qed
next
  case False
  then show ?thesis using p ok by (simp add: refresh_returned_def)
qed

lemma wake_ok:
  assumes ok: "sends_ok s"
  shows "sends_ok (wake a s)"
proof -
  let ?l = "s\<lparr>sd_log := sd_log s @ [Woken a]\<rparr>"
  have l: "sends_ok ?l" using ok unfolding sends_ok_def active_of_def by simp
  show ?thesis
  proof (cases rule: defer_cases [OF l, of a])
    case 1
    then show ?thesis using l unfolding wake_def sends_ok_def begin_refresh_def active_of_def by simp
  next
    case (2 js)
    then show ?thesis using marked_ok [OF l, of js] by (simp add: wake_def)
  qed
qed

lemma wake_promised:
  assumes p: "promised late s" and ok: "sends_ok s"
    and w: "(\<exists>i. sending s a i) \<or> get (sd_active s) a = None \<or> a \<in> late'" and l: "late \<subseteq> late'"
  shows "promised late' (wake a s)"
proof -
  let ?l = "s\<lparr>sd_log := sd_log s @ [Woken a]\<rparr>"
  have okl: "sends_ok ?l" using ok unfolding sends_ok_def active_of_def by simp
  show ?thesis
  proof (cases rule: defer_cases [OF okl, of a])
    case 1
    then have out: "wake a s = begin_refresh a ?l" by (simp add: wake_def)
    have log: "owed b (sd_log (wake a s)) \<Longrightarrow> b \<noteq> a \<and> owed b (sd_log s)" for b
      unfolding out begin_refresh_def by (simp split: if_splits)
    have toks: "sd_tokens (wake a s) = sd_tokens s" "sending (wake a s) b i = sending s b i" for b i
      unfolding out begin_refresh_def sending_def by simp_all
    show ?thesis using p l log unfolding promised_def toks by blast
  next
    case (2 js)
    then have js: "set js = active_of s a" and some: "get (sd_active s) a = Some js" by (simp_all add: active_of_def)
    have out: "wake a s = ?l\<lparr>sd_tokens := fold mark_deferred js (sd_tokens s)\<rparr>" using 2(3) by (simp add: wake_def)
    have same: "sending (wake a s) b i = sending s b i" for b i
      unfolding sending_def out by (auto simp: fold_mark split: if_splits)
    have mark: "sk_deferred (sd_tokens (wake a s) ! i)"
      if "sending s b i" "sk_deferred (sd_tokens s ! i) \<or> b = a" for b i
      using that js unfolding sending_def out by (auto simp: fold_mark in_active_of)
    show ?thesis
      unfolding promised_def
    proof (intro allI impI)
      fix b assume b: "owed b (sd_log (wake a s)) \<and> b \<notin> late'"
      show "\<exists>i. sending (wake a s) b i \<and> sk_deferred (sd_tokens (wake a s) ! i)"
      proof (cases "b = a")
        case True
        then have "\<exists>i. sending s a i" using w some b by auto
        then show ?thesis unfolding True same using mark by blast
      next
        case False
        then have "owed b (sd_log s)" "b \<notin> late" using b l unfolding out by (auto split: if_splits)
        then show ?thesis unfolding same using p mark unfolding promised_def by blast
      qed
    qed
  qed
qed

lemma send_run_promised: "send_run late s \<Longrightarrow> promised late s \<and> sends_ok s"
proof (induction rule: send_run.induct)
  case quiet
  show ?case by (simp add: promised_def sends_ok_def noSends_def active_of_def)
next
  case (begun late s a)
  then show ?case using begin_promised begin_ok by blast
next
  case (settled late s i sent)
  then show ?case using settle_promised by blast
next
  case (returned late s i)
  then show ?case using returned_promised by blast
next
  case (woken late s a)
  then show ?case using wake_promised [of late s a late] wake_ok by blast
next
  case (woken_late late s a)
  then show ?case using wake_promised [of late s a "insert a late"] wake_ok by blast
qed

text \<open>
  C33. No deferred wake is lost. When no send to an agent is under way any more, the last wake for it was followed
  by a refresh of its transcript, whatever sends overlapped, succeeded or failed, and whoever took the wake over;
  provided no wake came when every send to it had already begun its refresh.
\<close>

theorem deferred_wakes_are_refreshed:
  assumes "send_run late s" "a \<notin> late" "\<forall>t \<in> set (sd_tokens s). sk_agent t = a \<longrightarrow> \<not> sk_active t"
  shows "\<not> owed a (sd_log s) \<and> get (sd_active s) a = None"
proof -
  have p: "promised late s" and ok: "sends_ok s" using send_run_promised [OF assms(1)] by blast+
  have "\<not> sk_active (sd_tokens s ! i)" if "i < length (sd_tokens s)" "sk_agent (sd_tokens s ! i) = a" for i
    using assms(3) nth_mem [OF that(1)] that(2) by blast
  then have none: "active_of s a = {}" unfolding active_of_def by blast
  then have "\<not> sending s a i" for i unfolding sending_def active_of_def by blast
  then have "\<not> owed a (sd_log s)" using p assms(2) unfolding promised_def by blast
  moreover have "get (sd_active s) a = None"
    using sends_okD(1,2) [OF ok, of a] none by (cases "get (sd_active s) a") auto
  ultimately show ?thesis by blast
qed

definition two_sends :: sends where
  "two_sends = settleSendRefresh 0 False (refresh_returned 1 (settleSendRefresh 1 True (wake ''a'' (beginSendRefresh ''a'' (beginSendRefresh ''a'' noSends)))))"

theorem deferred_wakes_are_refreshed_witness:
  "sd_log two_sends = [Woken ''a'', Refreshed ''a'', Refreshed ''a''] \<and> \<not> owed ''a'' (sd_log two_sends)"
proof -
  let ?b = "beginSendRefresh ''a'' (beginSendRefresh ''a'' noSends)"
  have b: "send_run {} ?b" by (intro send_run.intros)
  have "sending ?b ''a'' 0" by (simp add: sending_def beginSendRefresh_def noSends_def)
  then have w: "send_run {} (wake ''a'' ?b)" using send_run.woken [OF b, of "''a''"] by blast
  have n: "1 \<notin> set (sd_awaiting (wake ''a'' ?b))"
    "0 \<notin> set (sd_awaiting (refresh_returned 1 (settleSendRefresh 1 True (wake ''a'' ?b))))" by code_simp+
  have r: "send_run {} two_sends"
    unfolding two_sends_def by (intro send_run.settled send_run.returned w n)
  have f: "\<forall>t \<in> set (sd_tokens two_sends). sk_agent t = ''a'' \<longrightarrow> \<not> sk_active t"
    "sd_log two_sends = [Woken ''a'', Refreshed ''a'', Refreshed ''a'']" by code_simp+
  show ?thesis using deferred_wakes_are_refreshed [OF r _ f(1)] f(2) by simp
qed

text \<open>A wake that comes during the refresh of a send is taken over by it and then dropped.\<close>

lemma wake_during_refresh_is_dropped:
  "sd_log (refresh_returned 0 (wake ''a'' (settleSendRefresh 0 True (beginSendRefresh ''a'' noSends)))) = [Refreshed ''a'', Woken ''a''] \<and>
   sd_active (refresh_returned 0 (wake ''a'' (settleSendRefresh 0 True (beginSendRefresh ''a'' noSends)))) = []"
  by code_simp

end
