(* ===== verification/History.thy ===== *)
theory History
  imports PanelRoutes
begin

section \<open>The history of the dock\<close>

text \<open>
  \<^verbatim>\<open>features/layout/historyModel.ts\<close>: the entries the dock writes to the browser's history, how an entry or
  a link is read back, when an entry is pushed, and the suppression of entries while the dock is rebuilt. A path
  becomes a location by way of the browser's \<open>URL\<close> parser, as in \<open>PanelRoutes\<close>.
\<close>

subsection \<open>Paths with a space\<close>

text \<open>\<open>URLSearchParams\<close>: \<open>get\<close>, \<open>set\<close> and \<open>delete\<close>.\<close>

fun params_set :: "string \<Rightarrow> string \<Rightarrow> (string \<times> string) list \<Rightarrow> (string \<times> string) list" where
  "params_set k v [] = [(k, v)]"
| "params_set k v (p # ps) = (if fst p = k then (k, v) # filter (\<lambda>q. fst q \<noteq> k) ps else p # params_set k v ps)"

definition spaceQueryParam :: string where
  "spaceQueryParam = ''space''"

definition spaceIDFromSearch :: "string \<Rightarrow> string option" where
  "spaceIDFromSearch search = map_of (parse_query search) spaceQueryParam"

definition pathWithSpace :: "string \<Rightarrow> string option \<Rightarrow> string" where
  "pathWithSpace path spaceID =
     (let query = parse_query (search_of path)
      in with_query (pathname_of path)
           (if or_else spaceID [] \<noteq> [] then params_set spaceQueryParam (the spaceID) query
            else filter (\<lambda>p. fst p \<noteq> spaceQueryParam) query))"

definition pathWithoutSpace :: "string \<Rightarrow> string \<Rightarrow> string" where
  "pathWithoutSpace pathname search = pathWithSpace (pathname @ search) None"

subsection \<open>Entries\<close>

definition layoutRouteState :: "(string \<times> json) list" where
  "layoutRouteState = [(''herderLayoutRoute'', JBool True)]"

definition isLayoutRouteState :: "json \<Rightarrow> bool" where
  "isLayoutRouteState v \<longleftrightarrow> field v ''herderLayoutRoute'' = Some (JBool True)"

definition historyEntryForPanel :: "panel option \<Rightarrow> string option \<Rightarrow> string \<times> json" where
  "historyEntryForPanel params spaceID =
     (pathWithSpace (case params of Some p \<Rightarrow> panelRoutePath p | None \<Rightarrow> ''/'') spaceID,
      JObj (layoutRouteState @ (case params of Some p \<Rightarrow> [(''subject'', panelRouteSubject p)] | None \<Rightarrow> [])))"

definition lensHistoryEntry :: "string \<times> json" where
  "lensHistoryEntry = (''/'', JObj (layoutRouteState @ [(''lens'', JBool True)]))"

definition aloneQueryParam :: string where
  "aloneQueryParam = ''alone''"

definition aloneHistoryEntry :: "string \<Rightarrow> string \<times> json" where
  "aloneHistoryEntry agent =
     (panelRoutePath (AgentPanel \<lparr>ap_name = agent, ap_preview = True\<rparr>) @ ''?'' @ aloneQueryParam @ ''=1'',
      JObj (layoutRouteState @ [(''alone'', JStr agent)]))"

datatype route = ShellRoute | PanelRoute panel | MissingRoute

datatype home_view = HomeLens | HomeZoom | HomeAlone string

definition viewFromLocation :: "route \<Rightarrow> string \<Rightarrow> bool \<Rightarrow> home_view" where
  "viewFromLocation r search spacesEnabled =
     (if \<not> spacesEnabled then HomeZoom
      else let query = parse_query search
           in case r of
                PanelRoute (AgentPanel a) \<Rightarrow> if map_of query aloneQueryParam \<noteq> None then HomeAlone (ap_name a) else HomeZoom
              | ShellRoute \<Rightarrow> if or_else (map_of query spaceQueryParam) [] = [] then HomeLens else HomeZoom
              | _ \<Rightarrow> HomeZoom)"

definition routeFromLocation :: "string \<Rightarrow> string \<Rightarrow> route" where
  "routeFromLocation pathname search =
     (case panelParamsFromRouteLocation pathname search of
        Some (Some p) \<Rightarrow> PanelRoute p
      | Some None \<Rightarrow> MissingRoute
      | None \<Rightarrow> if pathname \<noteq> ''/'' then MissingRoute else ShellRoute)"

text \<open>The panel of an entry's state, if the state is the dock's and agrees with the path.\<close>

definition subject_route :: "string \<Rightarrow> string \<Rightarrow> json \<Rightarrow> panel option" where
  "subject_route pathname search state =
     (case (if isLayoutRouteState state then field state ''subject'' else None) of
        None \<Rightarrow> None
      | Some subject \<Rightarrow>
          (case legacyScreenPanelParams subject of
             Some (Some legacy) \<Rightarrow>
               if pathWithoutSpace pathname search = ''/'' then Some (set_preview True legacy)
               else (case panelParamsFromHistorySubject subject of
                       Some p \<Rightarrow> if panelRoutePath p = pathWithoutSpace pathname search then Some p else None
                     | None \<Rightarrow> None)
           | _ \<Rightarrow>
               (case panelParamsFromHistorySubject subject of
                  Some p \<Rightarrow> if panelRoutePath p = pathWithoutSpace pathname search then Some p else None
                | None \<Rightarrow> None)))"

definition routeFromHistory :: "string \<Rightarrow> string \<Rightarrow> json \<Rightarrow> route \<times> string option" where
  "routeFromHistory pathname search state =
     ((case subject_route pathname search state of Some p \<Rightarrow> PanelRoute p | None \<Rightarrow> routeFromLocation pathname search),
      spaceIDFromSearch search)"

text \<open>What a replay does, in order; \<open>switches\<close> is whether switching to the space succeeds.\<close>

datatype replay_action = SwitchSpace string | ApplyRoute route

definition replayHistoryRoute ::
    "route \<times> string option \<Rightarrow> string option \<Rightarrow> (string \<Rightarrow> bool) \<Rightarrow> (panel \<Rightarrow> bool) \<Rightarrow> (string \<Rightarrow> bool) \<Rightarrow> replay_action list" where
  "replayHistoryRoute r currentSpaceID spaceExists panelExists switches =
     (if fst r = MissingRoute then []
      else case snd r of
             Some s \<Rightarrow>
               if s \<noteq> [] \<and> Some s \<noteq> currentSpaceID
               then (if spaceExists s then SwitchSpace s # (if switches s then [ApplyRoute (fst r)] else [])
                     else (case fst r of
                             PanelRoute p \<Rightarrow> if panelExists p then [ApplyRoute (fst r)] else []
                           | _ \<Rightarrow> [ApplyRoute (fst r)]))
               else [ApplyRoute (fst r)]
           | None \<Rightarrow> [ApplyRoute (fst r)])"

definition shouldReplayInitialRoute :: "route \<Rightarrow> json \<Rightarrow> bool \<Rightarrow> bool" where
  "shouldReplayInitialRoute r historyState restored \<longleftrightarrow>
     (case r of PanelRoute _ \<Rightarrow> \<not> restored \<or> \<not> isLayoutRouteState historyState | _ \<Rightarrow> False)"

datatype history_cause = Activation | Merge | Stamp | SpaceSwitch | Replay

text \<open>Whether the entry is pushed (or replaces the current one), and the entry.\<close>

definition decideHistoryUpdate ::
    "json \<Rightarrow> panel option \<Rightarrow> history_cause \<Rightarrow> bool \<Rightarrow> string option \<Rightarrow> bool \<times> (string \<times> json)" where
  "decideHistoryUpdate currentState nxt cause suppressed spaceID =
     (let hasCurrentEntry = isLayoutRouteState currentState;
          current = (if hasCurrentEntry
                     then Option.bind (field currentState ''subject'') panelParamsFromHistorySubject else None);
          distinctSubject = (case nxt of
              Some p \<Rightarrow> (case current of None \<Rightarrow> True | Some c \<Rightarrow> panelID c \<noteq> panelID p)
            | None \<Rightarrow> current \<noteq> None);
          shouldPush = (\<not> suppressed \<and> ((cause = Activation \<and> distinctSubject) \<or> (cause = SpaceSwitch \<and> hasCurrentEntry)))
      in (shouldPush, historyEntryForPanel nxt spaceID))"

subsection \<open>Suppression\<close>

text \<open>
  \<open>createHistorySuppressor\<close>: the depth and the frames pending; \<open>sp_running\<close> counts the operations under way
  (the stack of the language), each of which schedules a frame when it ends, also when it throws.
\<close>

record suppressor =
  sp_depth :: int
  sp_pending :: "nat list"
  sp_running :: nat
  sp_handles :: nat

definition createHistorySuppressor :: suppressor where
  "createHistorySuppressor = \<lparr>sp_depth = 0, sp_pending = [], sp_running = 0, sp_handles = 0\<rparr>"

definition suppressing :: "suppressor \<Rightarrow> bool" where
  "suppressing s \<longleftrightarrow> sp_depth s > 0"

definition operation_starts :: "suppressor \<Rightarrow> suppressor" where
  "operation_starts s = s\<lparr>sp_depth := sp_depth s + 1, sp_running := Suc (sp_running s)\<rparr>"

definition operation_ends :: "suppressor \<Rightarrow> suppressor" where
  "operation_ends s =
     s\<lparr>sp_running := sp_running s - 1, sp_pending := set_add (sp_handles s) (sp_pending s), sp_handles := Suc (sp_handles s)\<rparr>"

definition frame_fires :: "nat \<Rightarrow> suppressor \<Rightarrow> suppressor" where
  "frame_fires h s = s\<lparr>sp_pending := set_remove h (sp_pending s), sp_depth := max 0 (sp_depth s - 1)\<rparr>"

definition dispose_suppressor :: "suppressor \<Rightarrow> suppressor" where
  "dispose_suppressor s = s\<lparr>sp_pending := [], sp_depth := 0\<rparr>"

text \<open>The flag is whether the suppressor was disposed while an operation was under way.\<close>

inductive suppressor_run :: "bool \<Rightarrow> suppressor \<Rightarrow> bool" where
  made: "suppressor_run False createHistorySuppressor"
| starts: "suppressor_run b s \<Longrightarrow> suppressor_run b (operation_starts s)"
| ends: "suppressor_run b s \<Longrightarrow> sp_running s > 0 \<Longrightarrow> suppressor_run b (operation_ends s)"
| fires: "suppressor_run b s \<Longrightarrow> h \<in> set (sp_pending s) \<Longrightarrow> suppressor_run b (frame_fires h s)"
| disposed: "suppressor_run b s \<Longrightarrow> suppressor_run (b \<or> sp_running s > 0) (dispose_suppressor s)"

subsection \<open>An entry leads back to its panel\<close>

lemma no_space_param: "\<forall>q \<in> set (route_query p). fst q \<noteq> spaceQueryParam"
  by (cases p) (auto simp: spaceQueryParam_def)

lemma params_set_new: "\<forall>q \<in> set kvs. fst q \<noteq> k \<Longrightarrow> params_set k v kvs = kvs @ [(k, v)]"
  by (induction kvs) simp_all

text \<open>The parts of an entry's path.\<close>

definition space_params :: "string option \<Rightarrow> (string \<times> string) list" where
  "space_params s = (case s of None \<Rightarrow> [] | Some i \<Rightarrow> [(spaceQueryParam, i)])"

lemma with_space:
  assumes "CHR ''?'' \<notin> set pathname" "url_pathname pathname = pathname" "\<forall>q \<in> set kvs. fst q \<noteq> spaceQueryParam" "s \<noteq> Some []"
  shows "pathWithSpace (with_query pathname kvs) s = with_query pathname (kvs @ space_params s)"
  using assms params_set_new [OF assms(3)] unfolding pathWithSpace_def split_with_query(1,2) [OF assms(1)] Let_def
  by (cases s) (simp_all add: space_params_def filter_id_conv)

lemma without_space:
  assumes "CHR ''?'' \<notin> set pathname" "url_pathname pathname = pathname" "\<forall>q \<in> set kvs. fst q \<noteq> spaceQueryParam"
  shows "pathWithSpace (with_query pathname (kvs @ space_params s)) None = with_query pathname kvs"
proof -
  have "filter (\<lambda>q. fst q \<noteq> spaceQueryParam) (kvs @ space_params s) = kvs"
    using assms(3) by (cases s) (simp_all add: space_params_def filter_id_conv)
  then show ?thesis unfolding pathWithSpace_def split_with_query(1,2) [OF assms(1)] Let_def assms(2) by simp
qed

lemma space_read: "\<forall>q \<in> set kvs. fst q \<noteq> spaceQueryParam \<Longrightarrow> map_of (kvs @ space_params s) spaceQueryParam = s"
  by (induction kvs) (auto simp: space_params_def split: option.splits)

lemma routed_parts: "route_pathname (as_routed p) = route_pathname p" "route_query (as_routed p) = route_query p"
  by (cases p; simp)+

lemma routed_id: "panelID (as_routed p) = panelID p"
  by (cases p) simp_all

lemma not_legacy: "legacyScreenPanelParams (panelRouteSubject p) = None"
  by (cases p) (simp_all add: legacyScreenPanelParams_def)

text \<open>
  C34. The history leads back. The entry the dock writes for a panel in a space is read back as that panel, as a
  preview, in that space, with its state and also without it (a link opened in another tab), and shows the space
  and not the home view; the entry of a space alone is read back as the space, and the entry of no space as the
  home view; and showing again what the current entry shows never pushes a second entry for it.
\<close>

theorem history_entry_roundtrip:
  assumes "panel_ok p" "routable p" "dotless p" "s \<noteq> Some []"
  shows "(let (path, state) = historyEntryForPanel (Some p) s; search = search_of path
      in routeFromHistory (pathname_of path) search state = (PanelRoute (as_routed p), s) \<and>
         routeFromHistory (pathname_of path) search JNull = (PanelRoute (as_routed p), s) \<and>
         viewFromLocation (PanelRoute (as_routed p)) search True = HomeZoom \<and>
         (\<forall>cause suppressed. fst (decideHistoryUpdate state (Some (as_routed p)) cause suppressed s) \<longrightarrow> cause = SpaceSwitch)) \<and>
    (let (path, state) = historyEntryForPanel None s; search = search_of path
      in routeFromHistory (pathname_of path) search state = (ShellRoute, s) \<and>
         viewFromLocation ShellRoute search True = (if s = None then HomeLens else HomeZoom))"
proof -
  note plain = route_pathname_plain [of p] and url = url_route_pathname [OF assms(3)] and ns = no_space_param [of p]
  define path where "path = with_query (route_pathname p) (route_query p @ space_params s)"
  define state where "state = JObj (layoutRouteState @ [(''subject'', panelRouteSubject p)])"
  have entry: "historyEntryForPanel (Some p) s = (path, state)"
    unfolding historyEntryForPanel_def path_def state_def option.case panel_path with_space [OF plain url ns assms(4)] ..
  have parts: "pathname_of path = route_pathname p" "parse_query (search_of path) = route_query p @ space_params s"
    unfolding path_def split_with_query(1,2) [OF plain] url by (rule refl)+
  have space: "spaceIDFromSearch (search_of path) = s"
    unfolding spaceIDFromSearch_def parts using ns by (rule space_read)
  have loc: "routeFromLocation (route_pathname p) (search_of path) = PanelRoute (as_routed p)"
  proof -
    have "set (map fst (space_params s)) \<inter> {''root'', ''path'', ''line''} = {}"
      by (cases s) (simp_all add: space_params_def spaceQueryParam_def)
    from location_back [OF assms(1,2) parts(2) this] show ?thesis by (simp add: routeFromLocation_def)
  qed
  have bk: "pathWithoutSpace (pathname_of path) (search_of path) = panelRoutePath p"
    unfolding pathWithoutSpace_def parts(1) panel_path unfolding path_def split_with_query(3) [OF plain]
    by (rule without_space [OF plain url ns])
  have st: "isLayoutRouteState state" "field state ''subject'' = Some (panelRouteSubject p)" "\<not> isLayoutRouteState JNull"
    by (simp_all add: state_def isLayoutRouteState_def layoutRouteState_def)
  have "panelRoutePath (as_routed p) = panelRoutePath p" unfolding panel_path routed_parts ..
  then have "subject_route (pathname_of path) (search_of path) state = Some (as_routed p)"
    using st bk subject_back [OF assms(1,2)] not_legacy [of p] by (simp add: subject_route_def)
  then have one: "routeFromHistory (pathname_of path) (search_of path) state = (PanelRoute (as_routed p), s)"
    "routeFromHistory (pathname_of path) (search_of path) JNull = (PanelRoute (as_routed p), s)"
    using loc st space parts by (simp_all add: routeFromHistory_def subject_route_def)
  have "map_of (parse_query (search_of path)) aloneQueryParam = None"
    unfolding parts by (cases p; cases s) (auto simp: space_params_def spaceQueryParam_def aloneQueryParam_def)
  then have two: "viewFromLocation (PanelRoute (as_routed p)) (search_of path) True = HomeZoom"
    unfolding viewFromLocation_def Let_def by (auto split: panel.splits)
  have three: "cause = SpaceSwitch" if "fst (decideHistoryUpdate state (Some (as_routed p)) cause suppressed s)" for cause suppressed
    using that st subject_back [OF assms(1,2)] by (simp add: decideHistoryUpdate_def routed_id Let_def)
  have slash: "CHR ''?'' \<notin> set ''/''" by simp
  define home where "home = with_query ''/'' (space_params s)"
  have "pathWithSpace (with_query ''/'' []) s = with_query ''/'' ([] @ space_params s)"
    by (rule with_space [OF slash known_paths(1) _ assms(4)]) simp
  then have hentry: "historyEntryForPanel None s = (home, JObj layoutRouteState)"
    unfolding historyEntryForPanel_def home_def by (simp add: with_query_def)
  have hparts: "pathname_of home = ''/''" "parse_query (search_of home) = space_params s"
    unfolding home_def split_with_query(1,2) [OF slash] known_paths by (rule refl)+
  have "panelParamsFromRouteLocation ''/'' (search_of home) = None"
    by (simp add: panelParamsFromRouteLocation_def agent_path_def starts_with.simps route_values_def knownPath_def)
  moreover have "spaceIDFromSearch (search_of home) = s" unfolding spaceIDFromSearch_def hparts
    using space_read [of "[]" s] by simp
  ultimately have four: "routeFromHistory (pathname_of home) (search_of home) (JObj layoutRouteState) = (ShellRoute, s)"
    unfolding hparts by (simp add: routeFromHistory_def subject_route_def routeFromLocation_def layoutRouteState_def)
  have five: "viewFromLocation ShellRoute (search_of home) True = (if s = None then HomeLens else HomeZoom)"
    using assms(4) unfolding viewFromLocation_def Let_def hparts by (cases s) (simp_all add: space_params_def)
  show ?thesis unfolding entry hentry Let_def case_prod_conv using one two three four five by blast
qed

definition notes_file :: panel where
  "notes_file = FilePanel \<lparr>fp_root = ''/a b'', fp_path = ''x&y?.md'', fp_line = Some 7, fp_preview = False, fp_viewMode = Rendered\<rparr>"

theorem history_entry_roundtrip_witness:
  "fst (historyEntryForPanel (Some notes_file) (Some ''s 1'')) = ''/file?root=%2Fa+b&path=x%26y%3F.md&line=7&space=s+1'' \<and>
   routeFromHistory ''/file'' ''?root=%2Fa+b&path=x%26y%3F.md&line=7&space=s+1'' JNull = (PanelRoute (as_routed notes_file), Some ''s 1'')"
proof -
  have h: "panel_ok notes_file" "routable notes_file" "dotless notes_file" "Some ''s 1'' \<noteq> Some []"
    by (simp_all add: notes_file_def)
  have e: "fst (historyEntryForPanel (Some notes_file) (Some ''s 1'')) = ''/file?root=%2Fa+b&path=x%26y%3F.md&line=7&space=s+1''"
    by code_simp
  have p: "pathname_of ''/file?root=%2Fa+b&path=x%26y%3F.md&line=7&space=s+1'' = ''/file''"
    "search_of ''/file?root=%2Fa+b&path=x%26y%3F.md&line=7&space=s+1'' = ''?root=%2Fa+b&path=x%26y%3F.md&line=7&space=s+1''"
    by code_simp+
  from history_entry_roundtrip [OF h, THEN conjunct1, unfolded Let_def case_prod_beta e p] e show ?thesis by blast
qed

subsection \<open>Suppression ends\<close>

definition suppressor_ok :: "bool \<Rightarrow> suppressor \<Rightarrow> bool" where
  "suppressor_ok b s \<longleftrightarrow>
     distinct (sp_pending s) \<and> (\<forall>h \<in> set (sp_pending s). h < sp_handles s) \<and> 0 \<le> sp_depth s \<and>
     sp_depth s \<le> int (sp_running s + length (sp_pending s)) \<and>
     (\<not> b \<longrightarrow> sp_depth s = int (sp_running s + length (sp_pending s)))"

lemma length_set_remove: "distinct xs \<Longrightarrow> x \<in> set xs \<Longrightarrow> length (set_remove x xs) = length xs - 1"
  by (simp add: set_remove_def distinct_remove1_removeAll [symmetric] length_remove1)

lemma suppressor_run_ok: "suppressor_run b s \<Longrightarrow> suppressor_ok b s"
proof (induction rule: suppressor_run.induct)
  case made
  show ?case by (simp add: suppressor_ok_def createHistorySuppressor_def)
next
  case (starts b s)
  then show ?case by (simp add: suppressor_ok_def operation_starts_def)
next
  case (ends b s)
  then have "sp_handles s \<notin> set (sp_pending s)" unfolding suppressor_ok_def by blast
  then show ?case using ends by (auto simp: suppressor_ok_def operation_ends_def set_add_def)
next
  case (fires b s h)
  obtain n where n: "length (sp_pending s) = Suc n" using fires.hyps(2) by (cases "sp_pending s") simp_all
  then have "length (set_remove h (sp_pending s)) = n"
    using fires length_set_remove [of "sp_pending s" h] by (simp add: suppressor_ok_def)
  then show ?case using fires n by (auto simp: suppressor_ok_def frame_fires_def)
next
  case (disposed b s)
  then show ?case by (auto simp: suppressor_ok_def dispose_suppressor_def)
qed

text \<open>
  C30. Suppression holds for the whole of an operation and then ends. While an operation runs (and the suppressor was
  not disposed under it) entries are suppressed; so they are until the frame after it; and once nothing runs and
  no frame is pending they are not, however operations nest, overlap, throw or are disposed.
\<close>

theorem suppression_ends:
  assumes "suppressor_run b s"
  shows "(sp_running s = 0 \<and> sp_pending s = [] \<longrightarrow> \<not> suppressing s) \<and>
    (\<not> b \<longrightarrow> (suppressing s \<longleftrightarrow> sp_running s > 0 \<or> sp_pending s \<noteq> [])) \<and>
    (\<forall>nxt cause st space. suppressing s \<longrightarrow> \<not> fst (decideHistoryUpdate st nxt cause (suppressing s) space))"
proof -
  have "sp_pending s \<noteq> [] \<Longrightarrow> int (length (sp_pending s)) \<ge> 1" by (cases "sp_pending s") simp_all
  then show ?thesis using suppressor_run_ok [OF assms]
    unfolding suppressor_ok_def suppressing_def decideHistoryUpdate_def Let_def by auto
qed

definition nested_operations :: suppressor where
  "nested_operations = frame_fires 0 (operation_ends (operation_ends (operation_starts (operation_starts createHistorySuppressor))))"

theorem suppression_ends_witness:
  "suppressing nested_operations \<and> \<not> suppressing (frame_fires 1 nested_operations)"
proof -
  let ?o = "operation_starts (operation_starts createHistorySuppressor)"
  have f: "sp_running ?o > 0" "sp_running (operation_ends ?o) > 0" "0 \<in> set (sp_pending (operation_ends (operation_ends ?o)))"
    "1 \<in> set (sp_pending nested_operations)" "sp_running (frame_fires 1 nested_operations) = 0"
    "sp_pending (frame_fires 1 nested_operations) = []" "sp_pending nested_operations \<noteq> []" by code_simp+
  have r: "suppressor_run False nested_operations"
    unfolding nested_operations_def by (intro suppressor_run.intros f)
  have r2: "suppressor_run False (frame_fires 1 nested_operations)" by (rule suppressor_run.fires [OF r f(4)])
  show ?thesis using suppression_ends [OF r] suppression_ends [OF r2] f by blast
qed

end
