(* ===== verification/LaneSpaces.thy ===== *)
theory LaneSpaces
  imports SpaceMembers Attention Lens
begin

section \<open>Lanes as spaces\<close>

text \<open>
  \<^verbatim>\<open>features/spaces/laneSpacesModel.ts\<close>: every lane is listed as a space, its roster ahead of the pinned members,
  and the one-time move that gives a lane the members, the layout and the place in the lens of the space it
  replaces. A step of the move that throws ends it there (\<open>False\<close>, or \<open>None\<close> for the whole move).
\<close>

subsection \<open>Lane spaces and their rosters\<close>

definition laneSpacePrefix :: string where
  "laneSpacePrefix = ''lane:''"

definition laneSpaceID :: "string \<Rightarrow> string" where
  "laneSpaceID laneID = laneSpacePrefix @ laneID"

definition laneOfSpace :: "string option \<Rightarrow> string option" where
  "laneOfSpace spaceID =
     (case spaceID of
        Some i \<Rightarrow> if starts_with laneSpacePrefix i then Some (drop (length laneSpacePrefix) i) else None
      | None \<Rightarrow> None)"

definition laneSpaces :: "board option \<Rightarrow> SpaceDefinition list" where
  "laneSpaces board =
     (let lanes = (case board of Some b \<Rightarrow> bd_lanes b | None \<Rightarrow> [])
      in map (\<lambda>i. \<lparr>space_id = laneSpaceID (ln_id (lanes ! i)), space_name = ln_name (lanes ! i),
                   space_order = int i - int (length lanes), space_created = 0, space_updated = 0, space_deleted = False\<rparr>)
           [0..<length lanes])"

definition laneRoster :: "lane \<Rightarrow> string list" where
  "laneRoster l = (if ln_lead l \<in> set (ln_members l) then ln_lead l # filter (\<lambda>a. a \<noteq> ln_lead l) (ln_members l) else ln_members l)"

definition lane_space_members :: "(string, space_member list) jsmap \<Rightarrow> lane \<Rightarrow> space_member list" where
  "lane_space_members by_space l =
     (let roster = laneRoster l;
          pinned = filter (\<lambda>m. case m of AgentMember a \<Rightarrow> a \<notin> set roster | FileMember _ _ \<Rightarrow> True)
            (or_else (get by_space (laneSpaceID (ln_id l))) [])
      in map AgentMember roster @ pinned)"

definition withLaneRosters :: "(string, space_member list) jsmap \<Rightarrow> lane list \<Rightarrow> (string, space_member list) jsmap" where
  "withLaneRosters by_space lanes =
     fold (\<lambda>l result. put (laneSpaceID (ln_id l)) (lane_space_members by_space l) result) lanes by_space"

subsection \<open>The one-time move\<close>

definition laneMoveKey :: string where
  "laneMoveKey = ''herder.web.laneMove.v1''"

definition parse_lane_moves :: "cell option \<Rightarrow> string list option" where
  "parse_lane_moves raw =
     (case parse_cell raw of
        Some v \<Rightarrow>
          if is_record v \<and> field v ''version'' = Some (JNum 1)
          then map_option (List.map_filter (\<lambda>j. as_string (Some j))) (as_array (field v ''applied''))
          else None
      | None \<Rightarrow> None)"

definition readLaneMovesApplied :: "storage \<Rightarrow> string list \<times> write_state" where
  "readLaneMovesApplied st =
     (case readBrowserRecord parse_lane_moves laneMoveKey st of (v, state) \<Rightarrow> (or_else v [], state))"

definition pendingLaneMoves :: "(string, string) jsmap \<Rightarrow> string list \<Rightarrow> (string \<times> string) list" where
  "pendingLaneMoves moves applied = filter (\<lambda>(origin, lane). origin \<noteq> [] \<and> lane \<noteq> [] \<and> origin \<notin> set applied) moves"

record 't lane_target =
  lt_hasSpace :: "string \<Rightarrow> 't \<Rightarrow> bool"
  lt_moveMembers :: "string \<Rightarrow> string \<Rightarrow> 't \<Rightarrow> 't"
  lt_closeSpace :: "string \<Rightarrow> 't \<Rightarrow> 't"
  lt_moveLayout :: "string \<Rightarrow> string \<Rightarrow> 't \<Rightarrow> bool \<times> 't"
  lt_moveTier :: "string \<Rightarrow> string \<Rightarrow> 't \<Rightarrow> 't"

fun run_moves :: "'t lane_target \<Rightarrow> (string \<times> string) list \<Rightarrow> string list \<Rightarrow> 't \<Rightarrow> string list option \<times> 't" where
  "run_moves tgt [] finished t = (Some finished, t)"
| "run_moves tgt ((origin, lane) # ps) finished t =
     (let dest = laneSpaceID lane;
          t1 = (if lt_hasSpace tgt origin t then lt_closeSpace tgt origin (lt_moveMembers tgt origin dest t) else t)
      in case lt_moveLayout tgt origin dest t1 of
           (False, t2) \<Rightarrow> (None, t2)
         | (True, t2) \<Rightarrow> run_moves tgt ps (finished @ [origin]) (lt_moveTier tgt origin dest t2))"

definition runLaneMoves :: "(string, string) jsmap \<Rightarrow> string list \<Rightarrow> 't lane_target \<Rightarrow> 't \<Rightarrow> string list option \<times> 't" where
  "runLaneMoves moves applied tgt t = run_moves tgt (pendingLaneMoves moves applied) applied t"

definition lane_moves_json :: "string list \<Rightarrow> json" where
  "lane_moves_json applied = JObj [(''version'', JNum 1), (''applied'', JArr (map JStr applied))]"

definition writeLaneMovesApplied :: "string list \<Rightarrow> storage \<Rightarrow> storage" where
  "writeLaneMovesApplied applied st =
     snd (writeBrowserRecord laneMoveKey (Json (lane_moves_json applied)) (snd (readLaneMovesApplied st)) st)"

fun move_layout_keys :: "(string \<Rightarrow> string) list \<Rightarrow> string \<Rightarrow> string \<Rightarrow> storage \<Rightarrow> bool \<times> storage" where
  "move_layout_keys [] origin dest st = (True, st)"
| "move_layout_keys (k # ks) origin dest st =
     (case getItem st (k origin) of
        None \<Rightarrow> (False, st)
      | Some None \<Rightarrow> move_layout_keys ks origin dest st
      | Some (Some raw) \<Rightarrow>
          (case setItem (k dest) raw st of
             (st1, False) \<Rightarrow> (False, st1)
           | (st1, True) \<Rightarrow>
               (case removeItem (k origin) st1 of
                  (st2, False) \<Rightarrow> (False, st2)
                | (st2, True) \<Rightarrow> move_layout_keys ks origin dest st2)))"

definition moveStoredLayout :: "string \<Rightarrow> string \<Rightarrow> storage \<Rightarrow> bool \<times> storage" where
  "moveStoredLayout origin dest st =
     (case getItem st (spaceLayoutKey dest) of
        None \<Rightarrow> (False, st)
      | Some (Some _) \<Rightarrow> (True, st)
      | Some None \<Rightarrow> move_layout_keys [spaceLayoutBackupKey, spaceLayoutKey] origin dest st)"

definition rekeyRecord :: "(string, 'v) jsmap \<Rightarrow> string \<Rightarrow> string \<Rightarrow> (string, 'v) jsmap" where
  "rekeyRecord m origin dest =
     (case get m origin of
        None \<Rightarrow> m
      | Some v \<Rightarrow> (let rest = del origin m in if get rest dest \<noteq> None then rest else rest @ [(dest, v)]))"

text \<open>
  The target of \<^verbatim>\<open>useWorkspaceController.ts\<close>: the spaces of this browser, the members, the storage, and the rows
  and picks of the lens.
\<close>

record lane_browser =
  lb_spaces :: spaces_store
  lb_members :: members_store
  lb_storage :: storage
  lb_prefs :: lens_prefs

definition browser_lane_target :: "spaces_config \<Rightarrow> env \<Rightarrow> lane_browser lane_target" where
  "browser_lane_target cfg env =
     \<lparr>lt_hasSpace = (\<lambda>i b. i \<in> set (map space_id (live_spaces cfg (lb_spaces b)))),
      lt_moveMembers = (\<lambda>origin dest b. b\<lparr>lb_members := moveMembers env origin dest (lb_members b)\<rparr>),
      lt_closeSpace = (\<lambda>i b. b\<lparr>lb_spaces := snd (close_space env i (lb_spaces b))\<rparr>),
      lt_moveLayout = (\<lambda>origin dest b. case moveStoredLayout origin dest (lb_storage b) of (ok, st) \<Rightarrow> (ok, b\<lparr>lb_storage := st\<rparr>)),
      lt_moveTier = (\<lambda>origin dest b. b\<lparr>lb_prefs := (lb_prefs b)
        \<lparr>lp_rows := rekeyRecord (lp_rows (lb_prefs b)) origin dest, lp_visible := rekeyRecord (lp_visible (lb_prefs b)) origin dest\<rparr>\<rparr>)\<rparr>"

subsection \<open>A move is applied once\<close>

lemma run_moves_done: "fst (run_moves tgt ps finished t) = Some d \<Longrightarrow> d = finished @ map fst ps"
  by (induction tgt ps finished t rule: run_moves.induct) (auto simp: Let_def split: prod.splits bool.splits if_splits)

lemma pending_done: "pendingLaneMoves moves (applied @ map fst (pendingLaneMoves moves applied)) = []"
  unfolding pendingLaneMoves_def filter_empty_conv by force

lemma lane_moves_run_once:
  assumes "runLaneMoves moves applied tgt t = (Some d, u)"
  shows "pendingLaneMoves moves d = []" "runLaneMoves moves d tgt u = (Some d, u)"
proof -
  have "d = applied @ map fst (pendingLaneMoves moves applied)"
    using run_moves_done [of tgt "pendingLaneMoves moves applied" applied t d] assms by (simp add: runLaneMoves_def)
  then show p: "pendingLaneMoves moves d = []" using pending_done by simp
  show "runLaneMoves moves d tgt u = (Some d, u)" unfolding runLaneMoves_def p by simp
qed

lemma lane_space_back: "laneOfSpace (Some (laneSpaceID l)) = Some l"
  by (simp add: laneOfSpace_def laneSpaceID_def)

subsection \<open>The layout on its way\<close>

lemma setItem_told:
  assumes "Lost \<notin> set (faults st)" "setItem k c st = (st1, ok)"
  shows "items st1 = (if ok then put k c (items st) else items st)" "Lost \<notin> set (faults st1)" "readable st1 = readable st"
  using assms by (auto simp: setItem_def mutate_def split: list.splits outcome.splits)

lemma removeItem_told:
  assumes "Lost \<notin> set (faults st)" "removeItem k st = (st1, ok)"
  shows "items st1 = (if ok then del k (items st) else items st)" "Lost \<notin> set (faults st1)" "readable st1 = readable st"
  using assms by (auto simp: removeItem_def mutate_def split: list.splits outcome.splits)

text \<open>What one key's move leaves: nothing lost, nothing else touched, and moved when it did not throw.\<close>

definition key_moved :: "string \<Rightarrow> string \<Rightarrow> storage \<Rightarrow> bool \<Rightarrow> storage \<Rightarrow> bool" where
  "key_moved a b st ok st1 \<longleftrightarrow>
     readable st1 \<and> Lost \<notin> set (faults st1) \<and>
     (\<forall>k. k \<noteq> a \<and> k \<noteq> b \<longrightarrow> get (items st1) k = get (items st) k) \<and>
     (\<forall>c. get (items st) a = Some c \<longrightarrow> get (items st1) a = Some c \<or> get (items st1) b = Some c) \<and>
     get (items st1) a \<in> {None, get (items st) a} \<and> get (items st1) b \<in> {get (items st) b, get (items st) a} \<and>
     (get (items st) a = None \<longrightarrow> items st1 = items st) \<and>
     (ok \<longrightarrow> get (items st1) a = None \<and> (get (items st) a \<noteq> None \<longrightarrow> get (items st1) b = get (items st) a))"

lemma move_key:
  assumes st: "readable st" "Lost \<notin> set (faults st)" and ne: "k origin \<noteq> k dest"
  shows "\<exists>ok st1. key_moved (k origin) (k dest) st ok st1 \<and>
    move_layout_keys (k # ks) origin dest st = (if ok then move_layout_keys ks origin dest st1 else (False, st1))"
proof (cases "get (items st) (k origin)")
  case None
  then have "key_moved (k origin) (k dest) st True st" using st by (simp add: key_moved_def)
  then show ?thesis using None st by (intro exI [of _ True] exI [of _ st]) simp
next
  case (Some raw)
  obtain st1 ok1 where s: "setItem (k dest) raw st = (st1, ok1)" by fastforce
  note s' = setItem_told [OF st(2) s]
  show ?thesis
  proof (cases ok1)
    case False
    then have "key_moved (k origin) (k dest) st False st1" using s' st Some by (simp add: key_moved_def)
    then show ?thesis using Some st s False by (intro exI [of _ False] exI [of _ st1]) simp
  next
    case True
    obtain st2 ok2 where r: "removeItem (k origin) st1 = (st2, ok2)" by fastforce
    note r' = removeItem_told [OF s'(2) r]
    have "key_moved (k origin) (k dest) st ok2 st2"
      using r' s' st Some True ne by (simp add: key_moved_def get_put get_del)
    then show ?thesis using Some st s True r by (intro exI [of _ ok2] exI [of _ st2]) (simp split: bool.splits)
  qed
qed

lemma layout_keys_apart:
  "spaceLayoutKey i \<noteq> spaceLayoutBackupKey j" "spaceLayoutBackupKey j \<noteq> spaceLayoutKey i"
  "spaceLayoutKey i = spaceLayoutKey j \<longleftrightarrow> i = j" "spaceLayoutBackupKey i = spaceLayoutBackupKey j \<longleftrightarrow> i = j"
  by (auto simp: spaceLayoutKey_def spaceLayoutBackupKey_def spaceLayoutPrefix_def spaceLayoutBackupPrefix_def encode_inj)

text \<open>The backup goes first, then the layout itself.\<close>

lemma layout_moved:
  assumes st: "readable st" "Lost \<notin> set (faults st)" and ne: "origin \<noteq> dest"
    and e: "get (items st) (spaceLayoutKey dest) = None" and mv: "moveStoredLayout origin dest st = (ok, st1)"
  obtains okb stb where "key_moved (spaceLayoutBackupKey origin) (spaceLayoutBackupKey dest) st okb stb"
    "if okb then key_moved (spaceLayoutKey origin) (spaceLayoutKey dest) stb ok st1 else \<not> ok \<and> st1 = stb"
proof -
  have m: "move_layout_keys [spaceLayoutBackupKey, spaceLayoutKey] origin dest st = (ok, st1)"
    using mv st e by (simp add: moveStoredLayout_def)
  obtain okb stb where b: "key_moved (spaceLayoutBackupKey origin) (spaceLayoutBackupKey dest) st okb stb"
    "move_layout_keys [spaceLayoutBackupKey, spaceLayoutKey] origin dest st =
       (if okb then move_layout_keys [spaceLayoutKey] origin dest stb else (False, stb))"
    using move_key [OF st, of spaceLayoutBackupKey origin dest "[spaceLayoutKey]"] ne layout_keys_apart(4) by blast
  have stb: "readable stb" "Lost \<notin> set (faults stb)" using b(1) by (auto simp: key_moved_def)
  obtain okp stp where p: "key_moved (spaceLayoutKey origin) (spaceLayoutKey dest) stb okp stp"
    "move_layout_keys [spaceLayoutKey] origin dest stb = (if okp then move_layout_keys [] origin dest stp else (False, stp))"
    using move_key [OF stb, of spaceLayoutKey origin dest "[]"] ne layout_keys_apart(3) by blast
  show ?thesis
  proof (rule that [OF b(1)])
    show "if okb then key_moved (spaceLayoutKey origin) (spaceLayoutKey dest) stb ok st1 else \<not> ok \<and> st1 = stb"
      using m p(1) unfolding b(2) p(2) by (cases okb; cases okp) (simp_all add: move_layout_keys.simps(1))
  qed
qed

lemma working_move: "readable st \<Longrightarrow> faults st = [] \<Longrightarrow> fst (move_layout_keys ks origin dest st)"
proof (induction ks arbitrary: st)
  case (Cons k ks)
  note st = Cons.prems
  show ?case
  proof (cases "get (items st) (k origin)")
    case None
    then have "move_layout_keys (k # ks) origin dest st = move_layout_keys ks origin dest st"
      unfolding move_layout_keys.simps(2) getItem_readable [OF st(1)] by simp
    then show ?thesis using Cons.IH [OF st] by simp
  next
    case (Some raw)
    have "move_layout_keys (k # ks) origin dest st =
        move_layout_keys ks origin dest (st\<lparr>items := del (k origin) (put (k dest) raw (items st))\<rparr>)"
      unfolding move_layout_keys.simps(2) getItem_readable [OF st(1)] using st Some by simp
    then show ?thesis using Cons.IH [of "st\<lparr>items := del (k origin) (put (k dest) raw (items st))\<rparr>"] st by simp
  qed
qed simp

lemma layout_kept_on_move:
  assumes st: "readable st" "Lost \<notin> set (faults st)" and ne: "origin \<noteq> dest"
    and e: "get (items st) (spaceLayoutKey dest) = None" and mv: "moveStoredLayout origin dest st = (ok, st1)"
    and k: "key \<in> {spaceLayoutKey, spaceLayoutBackupKey}" and c: "get (items st) (key origin) = Some c"
  shows "get (items st1) (key origin) = Some c \<or> get (items st1) (key dest) = Some c"
    "ok \<or> (key = spaceLayoutBackupKey \<and> get (items st1) (spaceLayoutKey dest) \<noteq> None) \<Longrightarrow> get (items st1) (key dest) = Some c"
proof -
  obtain okb stb where b: "key_moved (spaceLayoutBackupKey origin) (spaceLayoutBackupKey dest) st okb stb"
    and p: "if okb then key_moved (spaceLayoutKey origin) (spaceLayoutKey dest) stb ok st1 else \<not> ok \<and> st1 = stb"
    using layout_moved [OF st ne e mv] by blast
  have bc: "\<And>d. get (items st) (spaceLayoutBackupKey origin) = Some d \<Longrightarrow>
      get (items stb) (spaceLayoutBackupKey origin) = Some d \<or> get (items stb) (spaceLayoutBackupKey dest) = Some d"
    "okb \<Longrightarrow> get (items stb) (spaceLayoutBackupKey origin) = None"
    "\<And>i. get (items stb) (spaceLayoutKey i) = get (items st) (spaceLayoutKey i)"
    using b layout_keys_apart(1) unfolding key_moved_def by blast+
  have pc: "okb \<Longrightarrow> get (items st1) (spaceLayoutBackupKey i) = get (items stb) (spaceLayoutBackupKey i)"
    "okb \<Longrightarrow> get (items stb) (spaceLayoutKey origin) = Some d \<Longrightarrow>
      get (items st1) (spaceLayoutKey origin) = Some d \<or> get (items st1) (spaceLayoutKey dest) = Some d"
    "okb \<Longrightarrow> ok \<Longrightarrow> get (items st1) (spaceLayoutKey origin) = None" "\<not> okb \<Longrightarrow> st1 = stb \<and> \<not> ok" for i d
    using p layout_keys_apart(2) unfolding key_moved_def by (auto simp del: get_put split: if_splits)
  show one: "get (items st1) (key origin) = Some c \<or> get (items st1) (key dest) = Some c"
  proof -
    consider "key = spaceLayoutKey" | "key = spaceLayoutBackupKey" using k by blast
    then show ?thesis
    proof cases
      case 1
      then show ?thesis using c bc(3) pc(2) pc(4) by (cases okb) auto
    next
      case 2
      then show ?thesis using c bc(1) pc(1) pc(4) by (cases okb) auto
    qed
  qed
  show "get (items st1) (key dest) = Some c"
    if "ok \<or> (key = spaceLayoutBackupKey \<and> get (items st1) (spaceLayoutKey dest) \<noteq> None)"
  proof (cases okb)
    case True
    have "get (items st1) (key origin) = None \<or> get (items st1) (key origin) \<noteq> Some c"
      using k that True bc(2) pc(1,3) by (elim insertE emptyE) (auto simp: layout_keys_apart)
    then show ?thesis using one by auto
  next
    case False
    then show ?thesis using that pc(4) bc(3) e by simp
  qed
qed

lemma layout_texts_on_move:
  assumes st: "readable st" "Lost \<notin> set (faults st)" and ne: "origin \<noteq> dest"
    and e: "get (items st) (spaceLayoutKey dest) = None" and mv: "moveStoredLayout origin dest st = (ok, st1)"
    and k: "key \<in> {spaceLayoutKey, spaceLayoutBackupKey}"
  shows "get (items st1) (key origin) \<in> {None, get (items st) (key origin)}"
    "get (items st1) (key dest) \<in> {get (items st) (key dest), get (items st) (key origin)}"
    "get (items st) (key origin) = None \<Longrightarrow> get (items st1) (key dest) = get (items st) (key dest)"
    "readable st1" "Lost \<notin> set (faults st1)"
    "(\<forall>i \<in> {origin, dest}. k' \<noteq> spaceLayoutKey i \<and> k' \<noteq> spaceLayoutBackupKey i) \<Longrightarrow> get (items st1) k' = get (items st) k'"
proof -
  obtain okb stb where b: "key_moved (spaceLayoutBackupKey origin) (spaceLayoutBackupKey dest) st okb stb"
    and p: "if okb then key_moved (spaceLayoutKey origin) (spaceLayoutKey dest) stb ok st1 else \<not> ok \<and> st1 = stb"
    using layout_moved [OF st ne e mv] by blast
  have bp: "get (items stb) (spaceLayoutKey i) = get (items st) (spaceLayoutKey i)" for i
    using b layout_keys_apart(1) unfolding key_moved_def by blast
  have pb: "get (items st1) (spaceLayoutBackupKey i) = get (items stb) (spaceLayoutBackupKey i)" for i
    using p layout_keys_apart(2) unfolding key_moved_def by (cases okb) simp_all
  show "readable st1" "Lost \<notin> set (faults st1)"
    using b p unfolding key_moved_def by (cases okb; simp)+
  show "get (items st1) k' = get (items st) k'"
    if "\<forall>i \<in> {origin, dest}. k' \<noteq> spaceLayoutKey i \<and> k' \<noteq> spaceLayoutBackupKey i"
    using b p that unfolding key_moved_def by (cases okb) simp_all
  consider "key = spaceLayoutKey" | "key = spaceLayoutBackupKey" using k by blast
  then have "get (items st1) (key origin) \<in> {None, get (items st) (key origin)} \<and>
    get (items st1) (key dest) \<in> {get (items st) (key dest), get (items st) (key origin)} \<and>
    (get (items st) (key origin) = None \<longrightarrow> get (items st1) (key dest) = get (items st) (key dest))"
  proof cases
    case 1
    then show ?thesis using p bp [of origin] bp [of dest] unfolding key_moved_def by (cases okb) simp_all
  next
    case 2
    then show ?thesis using b pb [of origin] pb [of dest] unfolding key_moved_def by simp
  qed
  then show "get (items st1) (key origin) \<in> {None, get (items st) (key origin)}"
    "get (items st1) (key dest) \<in> {get (items st) (key dest), get (items st) (key origin)}"
    "get (items st) (key origin) = None \<Longrightarrow> get (items st1) (key dest) = get (items st) (key dest)"
    by blast+
qed

text \<open>A retry over a working storage.\<close>

lemma retry_moves:
  assumes st: "readable st" "Lost \<notin> set (faults st)" and ne: "origin \<noteq> dest"
    and e: "get (items st) (spaceLayoutKey dest) = None" and mv: "moveStoredLayout origin dest st = (ok, st1)"
    and k: "key \<in> {spaceLayoutKey, spaceLayoutBackupKey}" and c: "get (items st) (key origin) = Some c"
  shows "get (items (snd (moveStoredLayout origin dest (st1\<lparr>faults := []\<rparr>)))) (key dest) = Some c"
proof -
  note kept = layout_kept_on_move [OF st ne e mv k c] and texts = layout_texts_on_move [OF st ne e mv k]
  define sr where "sr = st1\<lparr>faults := []\<rparr>"
  have sr: "readable sr" "Lost \<notin> set (faults sr)" "items sr = items st1" "faults sr = []" using texts(4) by (simp_all add: sr_def)
  show ?thesis
  proof (cases "get (items st1) (spaceLayoutKey dest)")
    case (Some d)
    have "snd (moveStoredLayout origin dest sr) = sr" using sr Some by (simp add: moveStoredLayout_def)
    moreover have "get (items st1) (key dest) = Some c"
      using kept(2) texts(2) k e c Some by auto
    ultimately show ?thesis using sr(3) by (simp add: sr_def)
  next
    case None
    then have e': "get (items sr) (spaceLayoutKey dest) = None" using sr(3) by simp
    obtain ok2 st2 where m: "moveStoredLayout origin dest sr = (ok2, st2)" by fastforce
    have ok2: ok2
      using m working_move [OF sr(1,4)] sr(1) e' by (metis fst_conv getItem_readable moveStoredLayout_def option.simps(4,5))
    have "get (items st2) (key dest) = Some c"
    proof (cases "get (items st1) (key origin)")
      case None
      then show ?thesis using layout_texts_on_move(3) [OF sr(1,2) ne e' m k] kept(1) sr(3) by simp
    next
      case (Some d)
      then show ?thesis using layout_kept_on_move(2) [OF sr(1,2) ne e' m k] texts(1) c ok2 sr(3) by simp
    qed
    then show ?thesis using m by (simp add: sr_def)
  qed
qed

text \<open>
  C35. Moving a space's layout to its lane loses nothing, however the writes fail: each text of the space is afterwards
  under its own key or under the lane's, no other key changed, and a retry over a working storage brings every
  text to the lane, also one that an earlier attempt left halfway.
\<close>

theorem layout_move_loses_nothing:
  assumes "readable st" and "Lost \<notin> set (faults st)" and "origin \<noteq> dest"
    and "get (items st) (spaceLayoutKey dest) = None" and "moveStoredLayout origin dest st = (ok, st1)"
  shows "(\<forall>key \<in> {spaceLayoutKey, spaceLayoutBackupKey}. \<forall>c. get (items st) (key origin) = Some c \<longrightarrow>
      (get (items st1) (key origin) = Some c \<or> get (items st1) (key dest) = Some c) \<and>
      get (items (snd (moveStoredLayout origin dest (st1\<lparr>faults := []\<rparr>)))) (key dest) = Some c) \<and>
    (\<forall>k. (\<forall>i \<in> {origin, dest}. k \<noteq> spaceLayoutKey i \<and> k \<noteq> spaceLayoutBackupKey i) \<longrightarrow>
      get (items st1) k = get (items st) k)"
  using layout_kept_on_move(1) [OF assms] retry_moves [OF assms] layout_texts_on_move(6) [OF assms, of spaceLayoutKey]
  by blast

text \<open>The quota is exceeded once, while the layout itself is written: the backup has arrived, the layout has not.\<close>

theorem layout_move_loses_nothing_witness:
  "get (items (snd (moveStoredLayout ''s'' ''lane:l'' ((snd (moveStoredLayout ''s'' ''lane:l''
      \<lparr>items = [(spaceLayoutKey ''s'', Plain ''a''), (spaceLayoutBackupKey ''s'', Plain ''b'')], readable = True,
        faults = [Done, Done, Threw]\<rparr>))\<lparr>faults := []\<rparr>)))) (spaceLayoutKey ''lane:l'') = Some (Plain ''a'')"
proof -
  define st where "st = \<lparr>items = [(spaceLayoutKey ''s'', Plain ''a''), (spaceLayoutBackupKey ''s'', Plain ''b'')], readable = True,
    faults = [Done, Done, Threw]\<rparr>"
  obtain ok st1 where m: "moveStoredLayout ''s'' ''lane:l'' st = (ok, st1)" by fastforce
  have "readable st" "Lost \<notin> set (faults st)" "get (items st) (spaceLayoutKey ''lane:l'') = None"
    "get (items st) (spaceLayoutKey ''s'') = Some (Plain ''a'')"
    by (simp_all add: st_def layout_keys_apart)
  then show ?thesis using layout_move_loses_nothing [OF _ _ _ _ m] m by (simp add: st_def)
qed

subsection \<open>The roster ahead of the pinned members\<close>

lemma lane_roster_members:
  "set (laneRoster l) = set (ln_members l)" "distinct (ln_members l) \<Longrightarrow> distinct (laneRoster l)"
  "ln_lead l \<in> set (ln_members l) \<Longrightarrow> hd (laneRoster l) = ln_lead l"
  by (auto simp: laneRoster_def)

lemma rosters_elsewhere:
  "i \<notin> laneSpaceID ` ln_id ` set lanes \<Longrightarrow> get (withLaneRosters by_space lanes) i = get by_space i"
proof -
  have "get (fold (\<lambda>l. put (laneSpaceID (ln_id l)) (f l)) ls m) i = get m i"
    if "i \<notin> laneSpaceID ` ln_id ` set ls" for ls m and f :: "lane \<Rightarrow> space_member list"
    using that by (induction ls arbitrary: m) (auto simp: get_put)
  then show "i \<notin> laneSpaceID ` ln_id ` set lanes \<Longrightarrow> get (withLaneRosters by_space lanes) i = get by_space i"
    by (simp add: withLaneRosters_def)
qed

lemma lane_roster_in_space:
  "distinct (map ln_id lanes) \<Longrightarrow> l \<in> set lanes \<Longrightarrow>
     get (withLaneRosters by_space lanes) (laneSpaceID (ln_id l)) = Some (lane_space_members by_space l)"
proof -
  have "get (fold (\<lambda>l. put (laneSpaceID (ln_id l)) (f l)) ls m) (laneSpaceID (ln_id l)) = Some (f l)"
    if "distinct (map ln_id ls)" "l \<in> set ls" for ls m and f :: "lane \<Rightarrow> space_member list"
    using that
  proof (induction ls rule: rev_induct)
    case (snoc x xs)
    have "l \<noteq> x \<Longrightarrow> ln_id l \<noteq> ln_id x" using snoc.prems by (auto simp: image_iff)
    then show ?case using snoc by (cases "l = x") (auto simp: get_put laneSpaceID_def)
  qed simp
  then show "distinct (map ln_id lanes) \<Longrightarrow> l \<in> set lanes \<Longrightarrow>
     get (withLaneRosters by_space lanes) (laneSpaceID (ln_id l)) = Some (lane_space_members by_space l)"
    unfolding withLaneRosters_def by blast
qed

end
