(* ===== verification/Transcript.thy ===== *)
theory Transcript
  imports Storage
begin

section \<open>The clean view of a transcript\<close>

text \<open>
  \<^verbatim>\<open>features/transcript\<close>: the fences of a reply (\<^verbatim>\<open>fencingModel.ts\<close>), what the clean view makes of each entry
  (\<^verbatim>\<open>cleanView.ts\<close>), the rows it draws (\<^verbatim>\<open>cleanRows.ts\<close>) and the pairs of entries of \<^verbatim>\<open>TranscriptEntries.tsx\<close>;
  with the messages of the web operator in \<^verbatim>\<open>messagePolish.ts\<close>.
\<close>

subsection \<open>Reading a payload\<close>

definition objectValue :: "json option \<Rightarrow> json" where
  "objectValue v = (case v of Some (JObj kvs) \<Rightarrow> JObj kvs | _ \<Rightarrow> JObj [])"

fun valueText :: "json option \<Rightarrow> string" where
  "valueText (Some (JStr s)) = s"
| "valueText (Some (JNum n)) = show_int n"
| "valueText (Some JInf) = ''Infinity''"
| "valueText (Some (JBool b)) = (if b then ''true'' else ''false'')"
| "valueText _ = []"

text \<open>The left side of \<open>??\<close>.\<close>

definition given :: "json option \<Rightarrow> json option" where
  "given v = (if v = Some JNull then None else v)"

definition newline :: char where
  "newline = char_of (10 :: nat)"

definition messageText :: "json \<Rightarrow> string" where
  "messageText payload =
     (let value = objectValue (Some payload);
          content = (case given (field (objectValue (field value ''message'')) ''content'') of
              Some c \<Rightarrow> Some c | None \<Rightarrow> field value ''content'')
      in case content of
           Some (JStr s) \<Rightarrow> s
         | Some (JArr blocks) \<Rightarrow>
             join_with [newline] (filter (\<lambda>t. t \<noteq> []) (map
               (\<lambda>b. let part = objectValue (Some b)
                    in valueText (case given (field part ''text'') of Some t \<Rightarrow> Some t | None \<Rightarrow> field part ''thinking'')) blocks))
         | _ \<Rightarrow> [])"

text \<open>\<open>text.indexOf(part, from)\<close>.\<close>

fun index_of_text :: "string \<Rightarrow> string \<Rightarrow> nat option" where
  "index_of_text part [] = (if part = [] then Some 0 else None)"
| "index_of_text part (c # cs) = (if starts_with part (c # cs) then Some 0 else map_option Suc (index_of_text part cs))"

definition index_from :: "string \<Rightarrow> string \<Rightarrow> nat \<Rightarrow> nat option" where
  "index_from s part n = map_option (\<lambda>i. n + i) (index_of_text part (drop n s))"

definition has_text :: "string \<Rightarrow> string \<Rightarrow> bool" where
  "has_text s part = (index_of_text part s \<noteq> None)"

subsection \<open>Messages of the web operator\<close>

definition webOperatorNoteStart :: string where
  "webOperatorNoteStart = ''[HERDER_WEB_OPERATOR_NOTE_BEGIN]''"

definition webOperatorNoteEnd :: string where
  "webOperatorNoteEnd = ''[HERDER_WEB_OPERATOR_NOTE_END]''"

definition prereleaseWebOperatorStart :: string where
  "prereleaseWebOperatorStart = ''<<<HERDER_WEB_OPERATOR_NOTE>>>''"

definition prereleaseWebOperatorEnd :: string where
  "prereleaseWebOperatorEnd = ''<<<END_HERDER_WEB_OPERATOR_NOTE>>>''"

definition legacyWebOperatorStart :: string where
  "legacyWebOperatorStart = ''[This message came from a web operator named ''"

definition legacyWebOperatorEnd :: string where
  "legacyWebOperatorEnd = '' via the fleet web view. They cannot receive hcom messages; do not reply with `hcom send`. Answer in your normal chat turn; they are watching the session transcript live.]''"

definition carriage_return :: char where
  "carriage_return = char_of (13 :: nat)"

definition removeFollowingBlankLine :: "string \<Rightarrow> string" where
  "removeFollowingBlankLine s =
     (if starts_with [carriage_return, newline, carriage_return, newline] s then drop 4 s
      else if starts_with [newline, newline] s then drop 2 s else s)"

definition stripFencedPrefix :: "string \<Rightarrow> string \<Rightarrow> string \<Rightarrow> string option" where
  "stripFencedPrefix s start stop =
     (if \<not> starts_with (start @ [newline]) s then None
      else map_option (\<lambda>i. removeFollowingBlankLine (drop (i + length stop + 1) s))
             (index_from s (newline # stop) (length start + 1)))"

text \<open>The legacy sentence: where it ends, when its sender is a name on one line.\<close>

definition legacy_note_end :: "string \<Rightarrow> nat option" where
  "legacy_note_end s =
     (if \<not> starts_with legacyWebOperatorStart s then None
      else case index_from s legacyWebOperatorEnd (length legacyWebOperatorStart) of
             None \<Rightarrow> None
           | Some i \<Rightarrow>
               (let sender = take (i - length legacyWebOperatorStart) (drop (length legacyWebOperatorStart) s)
                in if sender = [] \<or> newline \<in> set sender \<or> carriage_return \<in> set sender then None else Some i))"

definition isWebOperatorMessage :: "string \<Rightarrow> bool" where
  "isWebOperatorMessage s \<longleftrightarrow>
     stripFencedPrefix s webOperatorNoteStart webOperatorNoteEnd \<noteq> None \<or>
     stripFencedPrefix s prereleaseWebOperatorStart prereleaseWebOperatorEnd \<noteq> None \<or>
     legacy_note_end s \<noteq> None"

definition stripWebOperatorNote :: "string \<Rightarrow> string" where
  "stripWebOperatorNote s =
     (case stripFencedPrefix s webOperatorNoteStart webOperatorNoteEnd of
        Some t \<Rightarrow> t
      | None \<Rightarrow>
          (case stripFencedPrefix s prereleaseWebOperatorStart prereleaseWebOperatorEnd of
             Some t \<Rightarrow> t
           | None \<Rightarrow>
               (case legacy_note_end s of
                  Some i \<Rightarrow> removeFollowingBlankLine (drop (i + length legacyWebOperatorEnd) s)
                | None \<Rightarrow> s)))"

definition polishHcomDeliveryText :: "string \<Rightarrow> string" where
  "polishHcomDeliveryText s =
     (let body = stripWebOperatorNote s
      in if 2 \<le> length body \<and> drop (length body - 2) body = '' |'' then take (length body - 2) body else body)"

lemma polish_only_strips: "\<not> isWebOperatorMessage s \<Longrightarrow> stripWebOperatorNote s = s"
  by (auto simp: isWebOperatorMessage_def stripWebOperatorNote_def)

subsection \<open>Fences\<close>

datatype fence_kind = FenceInternal | FenceStatus

datatype fence_segment = TextSegment string | InternalSegment string nat | StatusSegment string

record fencing =
  fg_fenced :: bool
  fg_hasVisibleText :: bool
  fg_segments :: "fence_segment list"

definition fence_name :: "fence_kind \<Rightarrow> string" where
  "fence_name k = (case k of FenceInternal \<Rightarrow> ''internal'' | FenceStatus \<Rightarrow> ''status'')"

text \<open>A tag: whether it closes, and what.\<close>

type_synonym fence_tag = "bool \<times> fence_kind"

definition tag_text :: "fence_tag \<Rightarrow> string" where
  "tag_text t = ''<'' @ (if fst t then ''/'' else []) @ fence_name (snd t) @ ''>''"

definition tag_at :: "string \<Rightarrow> fence_tag option" where
  "tag_at s = List.find (\<lambda>t. starts_with (tag_text t) s)
     [(False, FenceInternal), (False, FenceStatus), (True, FenceInternal), (True, FenceStatus)]"

lemma tag_at_text: "tag_at s = Some t \<Longrightarrow> starts_with (tag_text t) s"
  unfolding tag_at_def find_Some_iff by blast

lemma tag_length: "0 < length (tag_text t)"
  by (simp add: tag_text_def)

text \<open>\<open>content.matchAll(fenceTag)\<close> with the places of the matches.\<close>

function fence_matches :: "nat \<Rightarrow> string \<Rightarrow> (nat \<times> fence_tag) list" where
  "fence_matches n s =
     (case s of
        [] \<Rightarrow> []
      | c # cs \<Rightarrow>
          (case tag_at s of
             Some t \<Rightarrow> (n, t) # fence_matches (n + length (tag_text t)) (drop (length (tag_text t)) s)
           | None \<Rightarrow> fence_matches (Suc n) cs))"
  by pat_completeness auto
termination
  by (relation "measure (\<lambda>(n, s). length s)") (use tag_length in \<open>auto simp: less_imp_diff_less\<close>)

declare fence_matches.simps [simp del]

definition is_line_break :: "char \<Rightarrow> bool" where
  "is_line_break c \<longleftrightarrow> c = newline \<or> c = carriage_return"

fun word_count :: "bool \<Rightarrow> string \<Rightarrow> nat" where
  "word_count inside [] = 0"
| "word_count inside (c # cs) =
     (if js_space c then word_count False cs else (if inside then 0 else 1) + word_count True cs)"

definition slice :: "string \<Rightarrow> nat \<Rightarrow> nat \<Rightarrow> string" where
  "slice s m n = take (n - m) (drop m s)"

definition literal_fencing :: "string \<Rightarrow> fencing" where
  "literal_fencing content = \<lparr>fg_fenced = False, fg_hasVisibleText = (js_trim content \<noteq> []), fg_segments = [TextSegment content]\<rparr>"

record fence_state =
  ff_segments :: "fence_segment list"
  ff_cursor :: nat
  ff_open :: "(fence_kind \<times> nat) option"
  ff_fenced :: bool

fun fence_loop :: "string \<Rightarrow> (nat \<times> fence_tag) list \<Rightarrow> fence_state \<Rightarrow> fence_state option" where
  "fence_loop content [] s = Some s"
| "fence_loop content ((i, closing, kind) # ms) s =
     (case ff_open s of
        None \<Rightarrow>
          if closing then None
          else fence_loop content ms
                 (s\<lparr>ff_segments := ff_segments s @ (if ff_cursor s < i then [TextSegment (slice content (ff_cursor s) i)] else []),
                    ff_open := Some (kind, i + length (tag_text (closing, kind))), ff_fenced := True\<rparr>)
      | Some (k, start) \<Rightarrow>
          if \<not> closing \<or> kind \<noteq> k then None
          else let body = slice content start i
               in if kind = FenceStatus \<and> list_ex is_line_break body then None
                  else fence_loop content ms
                         (s\<lparr>ff_segments := ff_segments s @ [if kind = FenceInternal then InternalSegment body (word_count False body) else StatusSegment body],
                            ff_cursor := i + length (tag_text (closing, kind)), ff_open := None\<rparr>))"

fun visible_segment :: "fence_segment \<Rightarrow> bool" where
  "visible_segment (TextSegment s) = (js_trim s \<noteq> [])"
| "visible_segment _ = False"

definition parseAssistantFencing :: "string \<Rightarrow> fencing" where
  "parseAssistantFencing content =
     (case fence_loop content (fence_matches 0 content) \<lparr>ff_segments = [], ff_cursor = 0, ff_open = None, ff_fenced = False\<rparr> of
        None \<Rightarrow> literal_fencing content
      | Some s \<Rightarrow>
          if ff_open s \<noteq> None \<or> \<not> ff_fenced s then literal_fencing content
          else let segments = ff_segments s @ (if ff_cursor s < length content then [TextSegment (drop (ff_cursor s) content)] else [])
               in \<lparr>fg_fenced = True, fg_hasVisibleText = list_ex visible_segment segments, fg_segments = segments\<rparr>)"

subsection \<open>The clean view of an entry\<close>

datatype entry_kind =
    HumanPrompt | HcomDeliveryStub | HcomDelivery | TaskNotification | ChannelMessage | InjectedSystem | CommandStdout
  | CompactDivider | AssistantText | Thinking | ToolUse | ToolResult | TurnDuration | SystemChip | UnknownEntry

datatype disposition = ShowEntry | DeliveryEntry | ActivityEntry | SystemEntry | HideEntry

fun cleanViewDisposition :: "entry_kind \<Rightarrow> disposition" where
  "cleanViewDisposition HumanPrompt = ShowEntry"
| "cleanViewDisposition HcomDeliveryStub = DeliveryEntry"
| "cleanViewDisposition HcomDelivery = DeliveryEntry"
| "cleanViewDisposition TaskNotification = ActivityEntry"
| "cleanViewDisposition ChannelMessage = ShowEntry"
| "cleanViewDisposition InjectedSystem = SystemEntry"
| "cleanViewDisposition CommandStdout = ActivityEntry"
| "cleanViewDisposition CompactDivider = ShowEntry"
| "cleanViewDisposition AssistantText = ShowEntry"
| "cleanViewDisposition Thinking = ActivityEntry"
| "cleanViewDisposition ToolUse = ActivityEntry"
| "cleanViewDisposition ToolResult = ActivityEntry"
| "cleanViewDisposition TurnDuration = HideEntry"
| "cleanViewDisposition SystemChip = SystemEntry"
| "cleanViewDisposition UnknownEntry = ActivityEntry"

datatype pill_tone = ToolTone | ThinkingTone | MessageTone | OtherTone | StatusTone

definition activityPillTone :: "entry_kind \<Rightarrow> bool \<Rightarrow> pill_tone" where
  "activityPillTone kind busMessage =
     (if busMessage then MessageTone
      else if kind \<in> {ToolUse, ToolResult, CommandStdout} then ToolTone
      else if kind = Thinking then ThinkingTone else OtherTone)"

definition isCleanConversationDelivery :: "json \<Rightarrow> bool" where
  "isCleanConversationDelivery delivery \<longleftrightarrow>
     field delivery ''sender'' \<noteq> Some (JStr ''[hcom-launcher]'') \<and> field delivery ''intent'' \<noteq> Some (JStr ''ack'')"

record marker_activity =
  ma_label :: string
  ma_tone :: pill_tone
  ma_title :: string
  ma_aggregation :: "string \<times> string"

fun segment_content :: "fence_segment \<Rightarrow> string" where
  "segment_content (TextSegment s) = s"
| "segment_content (InternalSegment s n) = s"
| "segment_content (StatusSegment s) = s"

definition is_text_segment :: "fence_segment \<Rightarrow> bool" where
  "is_text_segment g = (case g of TextSegment _ \<Rightarrow> True | _ \<Rightarrow> False)"

definition is_status_segment :: "fence_segment \<Rightarrow> bool" where
  "is_status_segment g = (case g of StatusSegment _ \<Rightarrow> True | _ \<Rightarrow> False)"

definition spaced_dot :: string where
  "spaced_dot = '' '' @ [char_of (194 :: nat), char_of (183 :: nat)] @ '' ''"

definition markerOnlyAssistantActivity :: "string \<Rightarrow> marker_activity option" where
  "markerOnlyAssistantActivity content =
     (let fencing = parseAssistantFencing content;
          markers = filter (\<lambda>g. \<not> is_text_segment g) (fg_segments fencing);
          statuses = filter is_status_segment markers;
          hasInternal = list_ex (\<lambda>g. \<not> is_status_segment g) markers;
          category = (if statuses \<noteq> [] then if hasInternal then ''mixed'' else ''status'' else ''internal'');
          label = join_with spaced_dot (map (\<lambda>g. if js_trim (segment_content g) \<noteq> [] then segment_content g else ''status'') statuses
            @ (if hasInternal then [''internal note''] else []));
          joined = join_with [newline] (filter (\<lambda>t. t \<noteq> []) (map (\<lambda>g. js_trim (segment_content g)) markers))
      in if \<not> fg_fenced fencing \<or> fg_hasVisibleText fencing \<or> markers = [] then None
         else Some \<lparr>ma_label = label, ma_tone = (if statuses \<noteq> [] then StatusTone else ThinkingTone),
                    ma_title = (if joined \<noteq> [] then joined else label), ma_aggregation = (''assistant-'' @ category, content)\<rparr>)"

definition system_always_visible :: "json \<Rightarrow> bool" where
  "system_always_visible payload \<longleftrightarrow>
     (let p = objectValue (Some payload)
      in valueText (field p ''type'') = ''system'' \<and>
         valueText (field p ''subtype'') \<in> {''model_refusal_fallback'', ''model_consent_fallback''})"

subsection \<open>Rows\<close>

record entry =
  en_uuid :: "string option"
  en_byteOffset :: num
  en_kind :: entry_kind
  en_payload :: json
  en_quarantine :: bool

record clean_activity =
  ac_key :: string
  ac_label :: string
  ac_tone :: pill_tone
  ac_title :: "string option"
  ac_aggregation :: "(string \<times> string) option"
  ac_index :: nat
  ac_delivery :: "nat option"

datatype clean_row = EntryRow string nat "nat option" | RunRow string "clean_activity list"

record relationships =
  rl_toolResults :: "nat list"
  rl_deliveries :: "nat list"
  rl_commandOutputs :: "nat list"
  rl_duplicates :: "nat \<Rightarrow> nat list"

definition entry_id :: "entry \<Rightarrow> string" where
  "entry_id e = (case en_uuid e of Some u \<Rightarrow> u | None \<Rightarrow> show_int (en_byteOffset e))"

definition commandName :: "string \<Rightarrow> string option" where
  "commandName s =
     Option.bind (index_of_text ''<command-name>'' s)
       (\<lambda>i. map_option (\<lambda>j. slice s (i + 14) j) (index_from s ''</command-name>'' (i + 14)))"

definition activityLabel :: "entry \<Rightarrow> string" where
  "activityLabel e =
     (let payload = objectValue (Some (en_payload e)); or_text = (\<lambda>s t. if s \<noteq> [] then s else t)
      in case en_kind e of
           ToolUse \<Rightarrow> or_text (valueText (field payload ''name'')) ''tool''
         | ToolResult \<Rightarrow> ''tool result''
         | Thinking \<Rightarrow> ''thinking''
         | CommandStdout \<Rightarrow> or_text (case commandName (messageText (en_payload e)) of Some t \<Rightarrow> t | None \<Rightarrow> []) ''command''
         | TaskNotification \<Rightarrow> ''task''
         | _ \<Rightarrow> (if en_quarantine e then ''quarantined'' else ''unknown''))"

definition envelope_sign :: string where
  "envelope_sign = [char_of (226 :: nat), char_of (156 :: nat), char_of (137 :: nat)] @ '' ''"

text \<open>\<open>/^\s*<(?:internal|status)>/\<close>.\<close>

definition opens_with_fence :: "string \<Rightarrow> bool" where
  "opens_with_fence content \<longleftrightarrow>
     (let s = dropWhile js_space content in starts_with ''<internal>'' s \<or> starts_with ''<status>'' s)"

text \<open>The rows so far and the run that is being collected.\<close>

type_synonym row_state = "clean_row list \<times> clean_activity list"

definition flush_run :: "row_state \<Rightarrow> row_state" where
  "flush_run s = (case snd s of [] \<Rightarrow> s | a # as \<Rightarrow> (fst s @ [RunRow (''run:'' @ ac_key a) (snd s)], []))"

definition add_entry :: "entry \<Rightarrow> nat \<Rightarrow> nat option \<Rightarrow> row_state \<Rightarrow> row_state" where
  "add_entry e i d s =
     (let k = (case d of None \<Rightarrow> ''entry:'' @ entry_id e | Some j \<Rightarrow> ''delivery:'' @ entry_id e @ '':'' @ show_int (int j))
      in (fst (flush_run s) @ [EntryRow k i d], []))"

definition push_run :: "clean_activity \<Rightarrow> row_state \<Rightarrow> row_state" where
  "push_run a s = (fst s, snd s @ [a])"

definition delivery_values :: "entry \<Rightarrow> json list option" where
  "delivery_values e = as_array (field (objectValue (Some (en_payload e))) ''deliveries'')"

definition add_delivery :: "relationships \<Rightarrow> entry \<Rightarrow> nat \<Rightarrow> nat \<times> json \<Rightarrow> row_state \<Rightarrow> row_state" where
  "add_delivery rel e i p s =
     (let message = objectValue (Some (snd p))
      in if fst p \<in> set (rl_duplicates rel i) \<or> \<not> isCleanConversationDelivery message then s
         else if isWebOperatorMessage (valueText (field message ''text'')) then add_entry e i (Some (fst p)) s
         else push_run \<lparr>ac_key = ''message:'' @ entry_id e @ '':'' @ show_int (int (fst p)),
                        ac_label = envelope_sign @ (let t = valueText (field message ''sender'') in if t \<noteq> [] then t else ''unknown sender''),
                        ac_tone = activityPillTone (en_kind e) True, ac_title = None, ac_aggregation = None,
                        ac_index = i, ac_delivery = Some (fst p)\<rparr> s)"

definition add_deliveries :: "relationships \<Rightarrow> entry \<Rightarrow> nat \<Rightarrow> row_state \<Rightarrow> row_state" where
  "add_deliveries rel e i s =
     (if en_kind e \<noteq> HcomDelivery then s
      else case delivery_values e of None \<Rightarrow> s | Some values \<Rightarrow> fold (add_delivery rel e i) (zip [0..<length values] values) s)"

definition marker_of :: "entry \<Rightarrow> marker_activity option" where
  "marker_of e =
     (if en_kind e = AssistantText
      then (let content = messageText (en_payload e) in if opens_with_fence content then markerOnlyAssistantActivity content else None)
      else None)"

definition paired :: "relationships \<Rightarrow> nat \<Rightarrow> bool" where
  "paired rel i \<longleftrightarrow> i \<in> set (rl_toolResults rel) \<or> i \<in> set (rl_commandOutputs rel) \<or> i \<in> set (rl_deliveries rel)"

definition row_of_entry :: "relationships \<Rightarrow> entry list \<Rightarrow> nat \<Rightarrow> row_state \<Rightarrow> row_state" where
  "row_of_entry rel es i s =
     (let e = es ! i
      in if paired rel i then s
         else case marker_of e of
           Some m \<Rightarrow> push_run \<lparr>ac_key = ''activity:'' @ entry_id e, ac_label = ma_label m, ac_tone = ma_tone m,
                               ac_title = Some (ma_title m), ac_aggregation = Some (ma_aggregation m), ac_index = i, ac_delivery = None\<rparr> s
         | None \<Rightarrow>
             (case cleanViewDisposition (en_kind e) of
                DeliveryEntry \<Rightarrow>
                  (if en_kind e = HcomDeliveryStub
                   then (if Suc i < length es then add_deliveries rel (es ! Suc i) (Suc i) s else s)
                   else add_deliveries rel e i s)
              | ActivityEntry \<Rightarrow>
                  (let label = activityLabel e
                   in push_run \<lparr>ac_key = ''activity:'' @ entry_id e, ac_label = label, ac_tone = activityPillTone (en_kind e) False, ac_title = None,
                                ac_aggregation = (if en_kind e = ToolUse then Some (''tool'', label) else None), ac_index = i, ac_delivery = None\<rparr> s)
              | SystemEntry \<Rightarrow> if system_always_visible (en_payload e) then add_entry e i None s else s
              | ShowEntry \<Rightarrow> add_entry e i None s
              | HideEntry \<Rightarrow> s))"

definition cleanRows :: "entry list \<Rightarrow> relationships \<Rightarrow> clean_row list" where
  "cleanRows es rel = fst (flush_run (fold (row_of_entry rel es) [0..<length es] ([], [])))"

text \<open>The first and the last entry a row draws.\<close>

definition cleanRowSpan :: "clean_row \<Rightarrow> nat \<times> nat" where
  "cleanRowSpan r =
     (case r of
        EntryRow k i d \<Rightarrow> (i, i)
      | RunRow k as \<Rightarrow> (case map ac_index as of [] \<Rightarrow> (0, 0) | x # xs \<Rightarrow> (fold min xs x, fold max xs x)))"

definition dividerRow :: "clean_row list \<Rightarrow> int \<Rightarrow> int" where
  "dividerRow rows entryIndex =
     (if entryIndex < 0 then - 1
      else case find_index (\<lambda>r. entryIndex \<le> int (snd (cleanRowSpan r))) rows of Some k \<Rightarrow> int k | None \<Rightarrow> - 1)"

subsection \<open>Pairs of entries\<close>

definition entry_kind_at :: "entry list \<Rightarrow> nat \<Rightarrow> entry_kind option" where
  "entry_kind_at es i = (if i < length es then Some (en_kind (es ! i)) else None)"

definition tool_id :: "entry \<Rightarrow> string" where
  "tool_id e = valueText (field (objectValue (Some (en_payload e))) ''tool_use_id'')"

definition as_text :: "json option \<Rightarrow> string" where
  "as_text v = (case as_string v of Some s \<Rightarrow> s | None \<Rightarrow> [])"

definition sameBusDelivery :: "json \<Rightarrow> json \<Rightarrow> bool" where
  "sameBusDelivery left right =
     (let l = objectValue (Some left); r = objectValue (Some right);
          leftID = as_text (field l ''message_id''); rightID = as_text (field r ''message_id'');
          leftBody = as_text (field l ''text'')
      in if leftID \<noteq> [] \<or> rightID \<noteq> [] then leftID \<noteq> [] \<and> rightID \<noteq> [] \<and> leftID = rightID
         else leftBody \<noteq> [] \<and> leftBody = as_text (field r ''text''))"

definition deliveries_of :: "entry \<Rightarrow> json list" where
  "deliveries_of e = (case delivery_values e of Some vs \<Rightarrow> vs | None \<Rightarrow> [])"

definition duplicateHcomDeliveryIndices :: "entry list \<Rightarrow> nat \<Rightarrow> nat list" where
  "duplicateHcomDeliveryIndices es i =
     (if entry_kind_at es i = Some HcomDelivery \<and> i \<noteq> 0 \<and> entry_kind_at es (i - 1) = Some HcomDelivery
      then (let ds = deliveries_of (es ! i)
            in filter (\<lambda>j. list_ex (\<lambda>c. sameBusDelivery c (ds ! j)) (deliveries_of (es ! (i - 1)))) [0..<length ds])
      else [])"

definition relateEntries :: "entry list \<Rightarrow> relationships" where
  "relateEntries es =
     (let toolUses = filter (\<lambda>t. t \<noteq> []) (map tool_id (filter (\<lambda>e. en_kind e = ToolUse) es));
          positions = [0..<length es]
      in \<lparr>rl_toolResults = filter (\<lambda>i. en_kind (es ! i) = ToolResult \<and> tool_id (es ! i) \<in> set toolUses) positions,
          rl_deliveries = map Suc (filter (\<lambda>i. en_kind (es ! i) = HcomDeliveryStub \<and> entry_kind_at es (Suc i) = Some HcomDelivery) positions),
          rl_commandOutputs = map Suc (filter (\<lambda>i. en_kind (es ! i) = CommandStdout \<and> has_text (messageText (en_payload (es ! i))) ''<command-name>'' \<and>
            entry_kind_at es (Suc i) = Some CommandStdout \<and>
            has_text (messageText (en_payload (es ! Suc i))) ''<local-command-stdout>'') positions),
          rl_duplicates = duplicateHcomDeliveryIndices es\<rparr>)"

subsection \<open>Pills\<close>

text \<open>Neighbours with the same aggregation become one pill with a count.\<close>

definition same_pill :: "clean_activity \<Rightarrow> clean_activity \<Rightarrow> bool" where
  "same_pill a b \<longleftrightarrow> ac_aggregation b \<noteq> None \<and> ac_aggregation a = ac_aggregation b"

definition add_pill :: "clean_activity \<Rightarrow> (clean_activity \<times> nat) list \<Rightarrow> (clean_activity \<times> nat) list" where
  "add_pill a pills =
     (if pills \<noteq> [] \<and> same_pill (fst (last pills)) a then butlast pills @ [(fst (last pills), Suc (snd (last pills)))]
      else pills @ [(a, 1)])"

definition aggregateActivityPills :: "clean_activity list \<Rightarrow> (clean_activity \<times> nat) list" where
  "aggregateActivityPills as = fold add_pill as []"

definition splitFinalActivityRun :: "clean_row list \<Rightarrow> (clean_activity list \<times> clean_activity) option" where
  "splitFinalActivityRun rows =
     (if rows = [] then None
      else case last rows of RunRow k as \<Rightarrow> if as = [] then None else Some (butlast as, last as) | EntryRow _ _ _ \<Rightarrow> None)"

lemma pills_count: "sum_list (map snd (aggregateActivityPills as)) = length as"
proof -
  have step: "sum_list (map snd (add_pill a pills)) = Suc (sum_list (map snd pills))" for a pills
  proof (cases pills rule: rev_cases)
    case (snoc ps p)
    then show ?thesis by (simp add: add_pill_def)
  qed (simp add: add_pill_def)
  have "sum_list (map snd (fold add_pill as pills)) = sum_list (map snd pills) + length as" for pills
    by (induction as arbitrary: pills) (simp_all add: step)
  then show ?thesis by (simp add: aggregateActivityPills_def)
qed

subsection \<open>The view mode of an agent\<close>

datatype view_mode = CompactView | NormalView | FullView

fun view_mode_text :: "view_mode \<Rightarrow> string" where
  "view_mode_text CompactView = ''compact''"
| "view_mode_text NormalView = ''normal''"
| "view_mode_text FullView = ''full''"

definition transcriptViewPreferencePrefix :: string where
  "transcriptViewPreferencePrefix = ''herder.web.transcriptView.v1:''"

definition legacyCleanViewPreferencePrefix :: string where
  "legacyCleanViewPreferencePrefix = ''herder.web.cleanView.v1:''"

definition legacyShowSystemPreferencePrefix :: string where
  "legacyShowSystemPreferencePrefix = ''herder.web.showSystem.v1:''"

definition transcriptViewPreferenceKey :: "string \<Rightarrow> string" where
  "transcriptViewPreferenceKey agent = transcriptViewPreferencePrefix @ encodeURIComponent agent"

definition stored_view_mode :: "cell option \<Rightarrow> view_mode option" where
  "stored_view_mode raw = List.find (\<lambda>m. raw = Some (Plain (view_mode_text m))) [CompactView, NormalView, FullView]"

text \<open>\<open>true\<close> reads back from the storage as JSON as well as text.\<close>

definition stored_true :: "cell option \<Rightarrow> bool" where
  "stored_true raw \<longleftrightarrow> raw = Some (Plain ''true'') \<or> raw = Some (Json (JBool True))"

definition readTranscriptViewMode :: "string \<Rightarrow> storage option \<Rightarrow> view_mode \<times> storage option" where
  "readTranscriptViewMode agent storage =
     (case storage of
        None \<Rightarrow> (CompactView, None)
      | Some st \<Rightarrow>
          (case (getItem st (transcriptViewPreferenceKey agent), getItem st (legacyCleanViewPreferencePrefix @ encodeURIComponent agent),
                 getItem st (legacyShowSystemPreferencePrefix @ encodeURIComponent agent)) of
             (Some stored, Some clean, Some show_system) \<Rightarrow>
               (case stored_view_mode stored of
                  Some m \<Rightarrow> (m, Some st)
                | None \<Rightarrow>
                    (let migrated = (if stored_true clean then CompactView else if stored_true show_system then FullView else CompactView)
                     in (migrated, Some (fst (setItem (transcriptViewPreferenceKey agent) (Plain (view_mode_text migrated)) st)))))
           | _ \<Rightarrow> (CompactView, Some st)))"

definition persistTranscriptViewMode :: "string \<Rightarrow> view_mode \<Rightarrow> storage option \<Rightarrow> storage option" where
  "persistTranscriptViewMode agent mode storage =
     map_option (\<lambda>st. fst (setItem (transcriptViewPreferenceKey agent) (Plain (view_mode_text mode)) st)) storage"

lemma view_mode_kept:
  assumes "reliable st"
  shows "fst (readTranscriptViewMode agent (persistTranscriptViewMode agent mode (Some st))) = mode"
  using assms by (cases mode)
    (simp_all add: readTranscriptViewMode_def persistTranscriptViewMode_def stored_view_mode_def reliable_def get_put)

end
