(* ===== verification/TranscriptClaims.thy ===== *)
theory TranscriptClaims
  imports Transcript
begin

section \<open>What the clean view keeps\<close>

text \<open>The fences lose nothing and hide what they fence; the rows draw the transcript in order, each part once.\<close>

subsection \<open>The matches\<close>

fun matches_ok :: "string \<Rightarrow> nat \<Rightarrow> (nat \<times> fence_tag) list \<Rightarrow> bool" where
  "matches_ok c p [] = (\<forall>q \<ge> p. tag_at (drop q c) = None)"
| "matches_ok c p ((i, t) # ms) =
     (p \<le> i \<and> (\<forall>q. p \<le> q \<and> q < i \<longrightarrow> tag_at (drop q c) = None) \<and> starts_with (tag_text t) (drop i c) \<and>
      matches_ok c (i + length (tag_text t)) ms)"

lemma tag_at_Nil: "tag_at [] = None"
  by (simp add: tag_at_def tag_text_def fence_name_def starts_with.simps)

lemma tag_at_None: "tag_at s = None \<longleftrightarrow> (\<forall>t. \<not> starts_with (tag_text t) s)"
proof -
  have "t \<in> set [(False, FenceInternal), (False, FenceStatus), (True, FenceInternal), (True, FenceStatus)]" for t :: fence_tag
    by (cases t; cases "snd t") auto
  then show ?thesis unfolding tag_at_def find_None_iff by blast
qed

lemma matches_earlier: "tag_at (drop p c) = None \<Longrightarrow> matches_ok c (Suc p) ms \<Longrightarrow> matches_ok c p ms"
proof (cases ms)
  case (Cons m ms')
  assume n: "tag_at (drop p c) = None" and ok: "matches_ok c (Suc p) ms"
  obtain i t where m: "m = (i, t)" by (cases m)
  have "tag_at (drop q c) = None" if "p \<le> q" "q < i" for q
    using ok n that unfolding Cons m by (cases "p = q") auto
  then show ?thesis using ok unfolding Cons m by simp
next
  case Nil
  assume "tag_at (drop p c) = None" "matches_ok c (Suc p) ms"
  then have "tag_at (drop q c) = None" if "p \<le> q" for q using that unfolding Nil by (cases "p = q") auto
  then show ?thesis unfolding Nil by simp
qed

lemma fence_matches_ok: "matches_ok c n (fence_matches n (drop n c))"
proof (induction "length (drop n c)" arbitrary: n rule: less_induct)
  case less
  show ?case
  proof (cases "drop n c")
    case Nil
    then have "drop q c = []" if "n \<le> q" for q using that by simp
    then show ?thesis unfolding Nil by (simp add: fence_matches.simps tag_at_Nil)
  next
    case (Cons ch cs)
    then have n: "n < length c" by (metis drop_eq_Nil list.distinct(1) not_le)
    show ?thesis
    proof (cases "tag_at (drop n c)")
      case None
      have cs: "cs = drop (Suc n) c" using Cons by (metis drop_Suc list.sel(3) tl_drop)
      have "fence_matches n (drop n c) = fence_matches (Suc n) (drop (Suc n) c)"
        using None Cons cs by (subst fence_matches.simps) simp
      moreover have "matches_ok c (Suc n) (fence_matches (Suc n) (drop (Suc n) c))" using less n by simp
      ultimately show ?thesis using matches_earlier [OF None] by simp
    next
      case (Some t)
      let ?l = "length (tag_text t)"
      have d: "drop ?l (drop n c) = drop (n + ?l) c" by (simp add: add.commute)
      have "fence_matches n (drop n c) = (n, t) # fence_matches (n + ?l) (drop (n + ?l) c)"
        using Some Cons unfolding d [symmetric] by (subst fence_matches.simps) simp
      moreover have "matches_ok c (n + ?l) (fence_matches (n + ?l) (drop (n + ?l) c))"
        by (rule less) (use n tag_length [of t] in \<open>unfold length_drop, linarith\<close>)
      ultimately show ?thesis using tag_at_text [OF Some] tag_at_Nil by simp
    qed
  qed
qed

subsection \<open>Nothing is lost\<close>

fun segment_text :: "fence_segment \<Rightarrow> string" where
  "segment_text (TextSegment s) = s"
| "segment_text (InternalSegment s n) = tag_text (False, FenceInternal) @ s @ tag_text (True, FenceInternal)"
| "segment_text (StatusSegment s) = tag_text (False, FenceStatus) @ s @ tag_text (True, FenceStatus)"

definition tagless :: "string \<Rightarrow> bool" where
  "tagless s \<longleftrightarrow> (\<forall>q. tag_at (drop q s) = None)"

definition segment_ok :: "fence_segment \<Rightarrow> bool" where
  "segment_ok g \<longleftrightarrow> tagless (segment_content g) \<and> (is_status_segment g \<longrightarrow> \<not> list_ex is_line_break (segment_content g))"

text \<open>What has been consumed: the text of the segments, and of the tag that is open.\<close>

definition fence_inv :: "string \<Rightarrow> nat \<Rightarrow> fence_state \<Rightarrow> bool" where
  "fence_inv c p s \<longleftrightarrow>
     (\<forall>g \<in> set (ff_segments s). segment_ok g) \<and>
     (case ff_open s of
        None \<Rightarrow> concat (map segment_text (ff_segments s)) = take (ff_cursor s) c \<and> p = ff_cursor s
      | Some (k, start) \<Rightarrow> concat (map segment_text (ff_segments s)) @ tag_text (False, k) = take start c \<and> p = start)"

lemma starts_with_drop: "starts_with p s \<Longrightarrow> starts_with p (s @ r)"
  by (auto dest!: starts_withD)

lemma tagless_slice:
  assumes "\<forall>q. m \<le> q \<and> q < n \<longrightarrow> tag_at (drop q c) = None"
  shows "tagless (slice c m n)"
proof -
  have "\<not> starts_with (tag_text t) (drop q (slice c m n))" for q t
  proof
    assume s: "starts_with (tag_text t) (drop q (slice c m n))"
    have q: "q < length (slice c m n)"
    proof (rule ccontr)
      assume "\<not> q < length (slice c m n)"
      then show False using s tag_length [of t] by (simp add: starts_with.simps)
    qed
    have "drop q (drop m c) = drop q (slice c m n @ drop (n - m) (drop m c))" unfolding slice_def append_take_drop_id ..
    then have "drop (m + q) c = drop q (slice c m n) @ drop (n - m) (drop m c)" using q by (simp add: add.commute)
    then have "starts_with (tag_text t) (drop (m + q) c)" using starts_with_drop [OF s] by simp
    moreover have "m + q < n" using q unfolding slice_def length_take length_drop by linarith
    then have "tag_at (drop (m + q) c) = None" using assms by simp
    ultimately show False using tag_at_None by blast
  qed
  then show ?thesis unfolding tagless_def tag_at_None by blast
qed

lemma take_slice: "m \<le> n \<Longrightarrow> take m c @ slice c m n = take n c"
  unfolding slice_def by (metis le_add_diff_inverse take_add)

lemma take_tag: "starts_with (tag_text t) (drop i c) \<Longrightarrow> take (i + length (tag_text t)) c = take i c @ tag_text t"
  by (simp add: take_add starts_with.simps)

lemma fence_opens:
  assumes "fence_inv c p s" "ff_open s = None" "matches_ok c p ((i, False, k) # ms)"
  shows "fence_inv c (i + length (tag_text (False, k)))
    (s\<lparr>ff_segments := ff_segments s @ (if ff_cursor s < i then [TextSegment (slice c (ff_cursor s) i)] else []),
       ff_open := Some (k, i + length (tag_text (False, k))), ff_fenced := True\<rparr>)"
proof -
  have p: "p = ff_cursor s" "concat (map segment_text (ff_segments s)) = take p c" "\<forall>g \<in> set (ff_segments s). segment_ok g"
    using assms(1,2) unfolding fence_inv_def by auto
  have m: "p \<le> i" "\<forall>q. p \<le> q \<and> q < i \<longrightarrow> tag_at (drop q c) = None" "starts_with (tag_text (False, k)) (drop i c)"
    using assms(3) by simp_all
  have "concat (map segment_text (ff_segments s @ (if p < i then [TextSegment (slice c p i)] else []))) = take i c"
    using m(1) p(2) take_slice [OF m(1), of c] by auto
  moreover have "segment_ok (TextSegment (slice c p i))"
    using tagless_slice [OF m(2)] by (simp add: segment_ok_def is_status_segment_def)
  ultimately show ?thesis unfolding fence_inv_def p(1) [symmetric] using p(3) take_tag [OF m(3)] by auto
qed

lemma fence_closes:
  assumes "fence_inv c p s" "ff_open s = Some (k, start)" "matches_ok c p ((i, True, k) # ms)"
    and "\<not> (k = FenceStatus \<and> list_ex is_line_break (slice c start i))"
  shows "fence_inv c (i + length (tag_text (True, k)))
    (s\<lparr>ff_segments := ff_segments s @ [if k = FenceInternal then InternalSegment (slice c start i) (word_count False (slice c start i))
         else StatusSegment (slice c start i)], ff_cursor := i + length (tag_text (True, k)), ff_open := None\<rparr>)"
proof -
  have p: "p = start" "concat (map segment_text (ff_segments s)) @ tag_text (False, k) = take start c" "\<forall>g \<in> set (ff_segments s). segment_ok g"
    using assms(1,2) unfolding fence_inv_def by auto
  have m: "start \<le> i" "\<forall>q. start \<le> q \<and> q < i \<longrightarrow> tag_at (drop q c) = None" "starts_with (tag_text (True, k)) (drop i c)"
    using assms(3) p(1) by simp_all
  let ?g = "if k = FenceInternal then InternalSegment (slice c start i) (word_count False (slice c start i)) else StatusSegment (slice c start i)"
  have k: "k = FenceInternal \<or> k = FenceStatus" by (cases k) simp_all
  have "segment_text ?g = tag_text (False, k) @ slice c start i @ tag_text (True, k)" using k by auto
  then have "concat (map segment_text (ff_segments s @ [?g])) = take (i + length (tag_text (True, k))) c"
    unfolding take_tag [OF m(3)] using p(2) take_slice [OF m(1), of c] by simp (metis append.assoc)
  moreover have "segment_ok ?g"
    using tagless_slice [OF m(2)] assms(4) k by (auto simp: segment_ok_def is_status_segment_def)
  ultimately show ?thesis unfolding fence_inv_def using p(3) by simp
qed

lemma fence_loop_inv:
  assumes "matches_ok c p ms" "fence_inv c p s" "fence_loop c ms s = Some s'"
  shows "\<exists>p'. fence_inv c p' s' \<and> (\<forall>q \<ge> p'. tag_at (drop q c) = None)"
  using assms
proof (induction ms arbitrary: p s)
  case (Cons m ms)
  obtain i closing k where m: "m = (i, closing, k)" by (cases m)
  have ok: "matches_ok c (i + length (tag_text (closing, k))) ms" using Cons.prems(1) unfolding m by simp
  show ?case
  proof (cases "ff_open s")
    case None
    then have "\<not> closing" using Cons.prems(3) unfolding m by auto
    then show ?thesis
      using Cons.IH [OF ok] fence_opens [OF Cons.prems(2) None, of i k ms] Cons.prems(1,3) None unfolding m by simp
  next
    case (Some o')
    obtain k' start where o': "o' = (k', start)" by (cases o')
    have c: "closing" "k' = k" "\<not> (k = FenceStatus \<and> list_ex is_line_break (slice c start i))"
      using Cons.prems(3) Some unfolding m o' by (auto simp: Let_def split: if_splits)
    show ?thesis
      using Cons.IH [OF ok] fence_closes [OF Cons.prems(2) _ _ c(3), where ms = ms] Cons.prems(1,3) Some c unfolding m o' by (simp add: Let_def)
  qed
qed auto

text \<open>
  C36. Reading the fences of a reply loses nothing and hides all of what they fence. The texts of the segments, with
  the tags of the fenced ones around them, are the reply; in a fenced reply no segment contains a tag, so no part of
  an internal note or of a status is shown as text, and a status is one line; and whatever is not properly fenced
  is the reply as it is.
\<close>

theorem fences_lose_nothing:
  "let f = parseAssistantFencing content
   in concat (map segment_text (fg_segments f)) = content \<and>
      (if fg_fenced f
       then (\<forall>g \<in> set (fg_segments f). tagless (segment_content g) \<and> (is_status_segment g \<longrightarrow> \<not> list_ex is_line_break (segment_content g)))
       else fg_segments f = [TextSegment content])"
proof -
  let ?s = "\<lparr>ff_segments = [], ff_cursor = 0, ff_open = None, ff_fenced = False\<rparr>"
  show ?thesis
  proof (cases "\<exists>s. fence_loop content (fence_matches 0 content) ?s = Some s \<and> ff_open s = None \<and> ff_fenced s")
    case False
    then have "parseAssistantFencing content = literal_fencing content"
      unfolding parseAssistantFencing_def by (auto split: option.split)
    then show ?thesis by (simp add: literal_fencing_def)
  next
    case True
    then obtain s where s: "fence_loop content (fence_matches 0 content) ?s = Some s" "ff_open s = None" "ff_fenced s" by blast
    define tail where "tail = (if ff_cursor s < length content then [TextSegment (drop (ff_cursor s) content)] else [])"
    have f: "parseAssistantFencing content =
        \<lparr>fg_fenced = True, fg_hasVisibleText = list_ex visible_segment (ff_segments s @ tail), fg_segments = ff_segments s @ tail\<rparr>"
      using s unfolding parseAssistantFencing_def tail_def by (simp add: Let_def)
    have "matches_ok content 0 (fence_matches 0 content)" using fence_matches_ok [of content 0] by simp
    moreover have "fence_inv content 0 ?s" by (simp add: fence_inv_def)
    ultimately obtain p where p: "fence_inv content p s" "\<forall>q \<ge> p. tag_at (drop q content) = None"
      using fence_loop_inv s(1) by blast
    then have inv: "concat (map segment_text (ff_segments s)) = take (ff_cursor s) content" "p = ff_cursor s"
      "\<forall>g \<in> set (ff_segments s). segment_ok g"
      using s(2) unfolding fence_inv_def by auto
    have "tag_at (drop q (drop p content)) = None" for q using p(2) by (simp add: add.commute)
    then have "\<forall>g \<in> set tail. segment_ok g"
      by (auto simp: tail_def segment_ok_def tagless_def is_status_segment_def inv(2))
    moreover have "concat (map segment_text (ff_segments s @ tail)) = content"
      using inv(1) by (auto simp: tail_def)
    ultimately show ?thesis using inv(3) unfolding f by (auto simp: Let_def segment_ok_def)
  qed
qed

text \<open>A reply with an internal note and a status around its text.\<close>

theorem fences_lose_nothing_witness:
  "let f = parseAssistantFencing (''<internal>x y</internal>Hi <status>ok</status>'')
   in fg_segments f = [InternalSegment ''x y'' 2, TextSegment ''Hi '', StatusSegment ''ok''] \<and> fg_fenced f \<and>
      concat (map segment_text (fg_segments f)) = ''<internal>x y</internal>Hi <status>ok</status>''"
proof -
  let ?c = "''<internal>x y</internal>Hi <status>ok</status>''"
  have "fg_segments (parseAssistantFencing ?c) = [InternalSegment ''x y'' 2, TextSegment ''Hi '', StatusSegment ''ok''] \<and>
    fg_fenced (parseAssistantFencing ?c)" by code_simp
  then show ?thesis using fences_lose_nothing [of ?c] unfolding Let_def by blast
qed

subsection \<open>What the rows draw\<close>

text \<open>A part of the transcript: an entry, or one delivery of an entry.\<close>

type_synonym part = "nat \<times> nat option"

definition part_of :: "clean_activity \<Rightarrow> part" where
  "part_of a = (ac_index a, ac_delivery a)"

definition row_parts :: "clean_row \<Rightarrow> part list" where
  "row_parts r = (case r of EntryRow k i d \<Rightarrow> [(i, d)] | RunRow k as \<Rightarrow> map part_of as)"

definition drawn :: "row_state \<Rightarrow> part list" where
  "drawn s = concat (map row_parts (fst s)) @ map part_of (snd s)"

definition delivery_parts :: "relationships \<Rightarrow> entry \<Rightarrow> nat \<Rightarrow> part list" where
  "delivery_parts rel e i =
     (if en_kind e \<noteq> HcomDelivery then []
      else map (\<lambda>j. (i, Some j)) (filter (\<lambda>j. j \<notin> set (rl_duplicates rel i) \<and>
             isCleanConversationDelivery (objectValue (Some (deliveries_of e ! j)))) [0..<length (deliveries_of e)]))"

text \<open>The parts drawn when the rows reach an entry.\<close>

definition entry_parts :: "relationships \<Rightarrow> entry list \<Rightarrow> nat \<Rightarrow> part list" where
  "entry_parts rel es i =
     (if paired rel i then []
      else if marker_of (es ! i) \<noteq> None then [(i, None)]
      else case cleanViewDisposition (en_kind (es ! i)) of
          DeliveryEntry \<Rightarrow>
            (if en_kind (es ! i) = HcomDeliveryStub then (if Suc i < length es then delivery_parts rel (es ! Suc i) (Suc i) else [])
             else delivery_parts rel (es ! i) i)
        | ActivityEntry \<Rightarrow> [(i, None)]
        | SystemEntry \<Rightarrow> if system_always_visible (en_payload (es ! i)) then [(i, None)] else []
        | ShowEntry \<Rightarrow> [(i, None)]
        | HideEntry \<Rightarrow> [])"

lemma drawn_flush: "drawn (flush_run s) = drawn s" "snd (flush_run s) = []"
  by (cases "snd s"; simp add: flush_run_def drawn_def row_parts_def)+

lemma drawn_add: "drawn (add_entry e i d s) = drawn s @ [(i, d)]"
proof -
  have "concat (map row_parts (fst (flush_run s))) = drawn s" using drawn_flush [of s] by (simp add: drawn_def)
  then show ?thesis by (simp add: add_entry_def drawn_def row_parts_def Let_def)
qed

lemma drawn_push: "drawn (push_run a s) = drawn s @ [part_of a]"
  by (simp add: push_run_def drawn_def)

lemma drawn_delivery:
  "drawn (add_delivery rel e i (j, v) s) =
     drawn s @ (if j \<notin> set (rl_duplicates rel i) \<and> isCleanConversationDelivery (objectValue (Some v)) then [(i, Some j)] else [])"
  by (auto simp: add_delivery_def Let_def drawn_add drawn_push part_of_def)

lemma drawn_deliveries: "drawn (add_deliveries rel e i s) = drawn s @ delivery_parts rel e i"
proof -
  have "drawn (fold (add_delivery rel e i) (zip [n..<n + length vs] vs) s) =
      drawn s @ map (\<lambda>j. (i, Some j)) (filter (\<lambda>j. j \<notin> set (rl_duplicates rel i) \<and>
        isCleanConversationDelivery (objectValue (Some (vs ! (j - n))))) [n..<n + length vs])" for n vs
  proof (induction vs arbitrary: n s)
    case (Cons v vs)
    have u: "[n..<n + length (v # vs)] = n # [Suc n..<Suc n + length vs]" by (simp add: upt_rec)
    have "filter (\<lambda>j. j \<notin> set (rl_duplicates rel i) \<and> isCleanConversationDelivery (objectValue (Some ((v # vs) ! (j - n))))) [Suc n..<Suc n + length vs] =
        filter (\<lambda>j. j \<notin> set (rl_duplicates rel i) \<and> isCleanConversationDelivery (objectValue (Some (vs ! (j - Suc n))))) [Suc n..<Suc n + length vs]"
      by (intro filter_cong) (auto simp: Suc_diff_Suc nth_Cons')
    then show ?case unfolding u zip_Cons_Cons fold.simps comp_def Cons.IH drawn_delivery by simp
  qed simp
  from this [of 0] show ?thesis
    by (auto simp: add_deliveries_def delivery_parts_def deliveries_of_def split: option.split)
qed

lemma drawn_entry: "drawn (row_of_entry rel es i s) = drawn s @ entry_parts rel es i"
  by (auto simp: row_of_entry_def entry_parts_def Let_def drawn_push drawn_add drawn_deliveries part_of_def
      split: option.split disposition.split)

lemma rows_draw: "concat (map row_parts (cleanRows es rel)) = concat (map (entry_parts rel es) [0..<length es])"
proof -
  have "drawn (fold (row_of_entry rel es) is s) = drawn s @ concat (map (entry_parts rel es) is)" for "is" s
    by (induction "is" arbitrary: s) (simp_all add: drawn_entry)
  from this [of "[0..<length es]" "([], [])"] show ?thesis
    using drawn_flush [of "fold (row_of_entry rel es) [0..<length es] ([], [])"]
    by (simp add: cleanRows_def drawn_def)
qed

subsection \<open>In order, each part once\<close>

definition before :: "part \<Rightarrow> part \<Rightarrow> bool" where
  "before a b \<longleftrightarrow> fst a < fst b \<or> fst a = fst b \<and> (\<exists>j k. snd a = Some j \<and> snd b = Some k \<and> j < k)"

lemma delivery_parts_order: "sorted_wrt before (delivery_parts rel e i)" "\<forall>x \<in> set (delivery_parts rel e i). fst x = i"
proof -
  have "sorted_wrt before (map (\<lambda>j. (i, Some j)) js)" if "sorted_wrt (<) js" for js :: "nat list"
    using that by (induction js) (auto simp: before_def)
  moreover have "sorted_wrt (<) (filter P [0..<n])" for P n by (rule sorted_wrt_filter) simp
  ultimately show "sorted_wrt before (delivery_parts rel e i)" by (auto simp: delivery_parts_def)
  show "\<forall>x \<in> set (delivery_parts rel e i). fst x = i" by (auto simp: delivery_parts_def)
qed

lemma entry_parts_order:
  "sorted_wrt before (entry_parts (relateEntries es) es i)"
  "x \<in> set (entry_parts (relateEntries es) es i) \<Longrightarrow> i < length es \<Longrightarrow>
     i \<notin> set (rl_deliveries (relateEntries es)) \<and>
     (fst x = i \<or> fst x = Suc i \<and> Suc i \<in> set (rl_deliveries (relateEntries es)))"
proof -
  let ?rel = "relateEntries es"
  show "sorted_wrt before (entry_parts ?rel es i)"
    using delivery_parts_order by (auto simp: entry_parts_def split: disposition.split)
  assume x: "x \<in> set (entry_parts ?rel es i)" and i: "i < length es"
  then have p: "\<not> paired ?rel i" by (auto simp: entry_parts_def)
  have "fst x = i \<or> fst x = Suc i \<and> Suc i \<in> set (rl_deliveries ?rel)"
  proof (cases "en_kind (es ! i) = HcomDeliveryStub \<and> marker_of (es ! i) = None")
    case True
    then have d: "Suc i < length es" "x \<in> set (delivery_parts ?rel (es ! Suc i) (Suc i))"
      using x p by (auto simp: entry_parts_def split: if_splits)
    then have "en_kind (es ! Suc i) = HcomDelivery" by (auto simp: delivery_parts_def split: if_splits)
    then have "Suc i \<in> set (rl_deliveries ?rel)"
      using True i d(1) by (auto simp: relateEntries_def Let_def entry_kind_at_def)
    then show ?thesis using delivery_parts_order(2) d(2) by blast
  next
    case False
    then show ?thesis using x delivery_parts_order(2) by (auto simp: entry_parts_def split: if_splits disposition.splits)
  qed
  then show "i \<notin> set (rl_deliveries ?rel) \<and> (fst x = i \<or> fst x = Suc i \<and> Suc i \<in> set (rl_deliveries ?rel))"
    using p by (simp add: paired_def)
qed

lemma parts_in_order:
  assumes "n \<le> length es"
  shows "sorted_wrt before (concat (map (entry_parts (relateEntries es) es) [0..<n])) \<and>
    (\<forall>x \<in> set (concat (map (entry_parts (relateEntries es) es) [0..<n])). fst x < n \<or> fst x = n \<and> n \<in> set (rl_deliveries (relateEntries es)))"
  using assms
proof (induction n)
  case (Suc n)
  let ?f = "entry_parts (relateEntries es) es"
  have n: "n < length es" using Suc.prems by simp
  have ih: "sorted_wrt before (concat (map ?f [0..<n]))"
    "\<And>x. x \<in> set (concat (map ?f [0..<n])) \<Longrightarrow> fst x < n \<or> fst x = n \<and> n \<in> set (rl_deliveries (relateEntries es))"
    using Suc.IH n by auto
  have new: "n \<notin> set (rl_deliveries (relateEntries es)) \<and> (fst y = n \<or> fst y = Suc n \<and> Suc n \<in> set (rl_deliveries (relateEntries es)))"
    if "y \<in> set (?f n)" for y using entry_parts_order(2) [OF that n] .
  have "before x y" if "x \<in> set (concat (map ?f [0..<n]))" "y \<in> set (?f n)" for x y
    using ih(2) [OF that(1)] new [OF that(2)] by (auto simp: before_def)
  then have "sorted_wrt before (concat (map ?f [0..<n]) @ ?f n)"
    using ih(1) entry_parts_order(1) unfolding sorted_wrt_append by blast
  moreover have "fst x < Suc n \<or> fst x = Suc n \<and> Suc n \<in> set (rl_deliveries (relateEntries es))"
    if "x \<in> set (concat (map ?f [0..<n]) @ ?f n)" for x
  proof (cases "x \<in> set (?f n)")
    case False
    then have "x \<in> set (concat (map ?f [0..<n]))" using that by (simp only: set_append Un_iff) blast
    then show ?thesis using ih(2) by fastforce
  next
    case True
    then show ?thesis using new by fastforce
  qed
  ultimately show ?case by simp
qed simp

subsection \<open>The shape of the rows\<close>

definition is_run :: "clean_row \<Rightarrow> bool" where
  "is_run r = (case r of RunRow _ _ \<Rightarrow> True | EntryRow _ _ _ \<Rightarrow> False)"

definition rows_shape :: "clean_row list \<Rightarrow> bool" where
  "rows_shape rows \<longleftrightarrow> successively (\<lambda>a b. \<not> (is_run a \<and> is_run b)) rows \<and> (\<forall>r \<in> set rows. row_parts r \<noteq> [])"

definition state_shape :: "row_state \<Rightarrow> bool" where
  "state_shape s \<longleftrightarrow> rows_shape (fst s) \<and> (fst s \<noteq> [] \<longrightarrow> \<not> is_run (last (fst s)))"

lemma flush_shape: "state_shape s \<Longrightarrow> rows_shape (fst (flush_run s))"
  by (cases "snd s") (auto simp: state_shape_def rows_shape_def flush_run_def successively_append_iff row_parts_def)

lemma add_shape: "state_shape s \<Longrightarrow> state_shape (add_entry e i d s)"
  using flush_shape [of s]
  by (auto simp: state_shape_def rows_shape_def add_entry_def Let_def successively_append_iff row_parts_def is_run_def)

lemma push_shape: "state_shape s \<Longrightarrow> state_shape (push_run a s)"
  by (simp add: state_shape_def push_run_def)

lemma deliveries_shape: "state_shape s \<Longrightarrow> state_shape (add_deliveries rel e i s)"
proof -
  have step: "state_shape s \<Longrightarrow> state_shape (add_delivery rel e i p s)" for p s
    by (auto simp: add_delivery_def Let_def intro: add_shape push_shape)
  have "state_shape s \<Longrightarrow> state_shape (fold (add_delivery rel e i) ps s)" for ps s
    by (induction ps arbitrary: s) (simp_all add: step)
  then show "state_shape s \<Longrightarrow> state_shape (add_deliveries rel e i s)"
    by (auto simp: add_deliveries_def split: option.split)
qed

lemma entry_shape: "state_shape s \<Longrightarrow> state_shape (row_of_entry rel es i s)"
  by (auto simp: row_of_entry_def Let_def intro: add_shape push_shape deliveries_shape split: option.split disposition.split)

lemma clean_rows_shape: "rows_shape (cleanRows es rel)"
proof -
  have "state_shape s \<Longrightarrow> state_shape (fold (row_of_entry rel es) is s)" for "is" s
    by (induction "is" arbitrary: s) (simp_all add: entry_shape)
  moreover have "state_shape ([], [])" by (simp add: state_shape_def rows_shape_def)
  ultimately show ?thesis unfolding cleanRows_def using flush_shape by blast
qed

lemma span_bounds:
  assumes "row_parts r \<noteq> []"
  shows "\<exists>x \<in> set (row_parts r). fst x = snd (cleanRowSpan r)" "\<forall>x \<in> set (row_parts r). fst x \<le> snd (cleanRowSpan r)"
proof -
  have m: "fold max xs x \<in> set (x # xs)" "\<forall>y \<in> set (x # xs). y \<le> fold max xs x" for xs and x :: nat
  proof (induction xs arbitrary: x)
    case (Cons y ys)
    { case 1 show ?case using Cons(1) [of "max y x"] by (auto simp: max_def split: if_splits) }
    { case 2 show ?case using Cons(2) [of "max y x"] by auto }
  qed simp_all
  have both: "(\<exists>x \<in> set (row_parts r). fst x = snd (cleanRowSpan r)) \<and> (\<forall>x \<in> set (row_parts r). fst x \<le> snd (cleanRowSpan r))"
  proof (cases r)
    case (RunRow k as)
    then obtain a as' where as: "as = a # as'" using assms by (cases as) (auto simp: row_parts_def)
    have "snd (cleanRowSpan r) = fold max (map ac_index as') (ac_index a)" by (simp add: RunRow as cleanRowSpan_def)
    then show ?thesis using m(1) [of "map ac_index as'" "ac_index a"] m(2) [of "ac_index a" "map ac_index as'"]
      by (auto simp: RunRow as row_parts_def part_of_def)
  qed (simp add: row_parts_def cleanRowSpan_def)
  then show "\<exists>x \<in> set (row_parts r). fst x = snd (cleanRowSpan r)" "\<forall>x \<in> set (row_parts r). fst x \<le> snd (cleanRowSpan r)" by blast+
qed

lemma paired_kinds:
  assumes "paired (relateEntries es) i" "i < length es"
  shows "en_kind (es ! i) \<in> {ToolResult, CommandStdout, HcomDelivery}"
    "en_kind (es ! i) = HcomDelivery \<Longrightarrow> \<exists>m. i = Suc m \<and> en_kind (es ! m) = HcomDeliveryStub"
  using assms by (auto simp: paired_def relateEntries_def Let_def entry_kind_at_def split: if_splits)

lemma delivery_drawn:
  assumes i: "i < length es" "j < length (deliveries_of (es ! i))" and k: "en_kind (es ! i) = HcomDelivery"
    and d: "j \<notin> set (rl_duplicates (relateEntries es) i)" "isCleanConversationDelivery (objectValue (Some (deliveries_of (es ! i) ! j)))"
  shows "\<exists>m < length es. (i, Some j) \<in> set (entry_parts (relateEntries es) es m)"
proof -
  let ?rel = "relateEntries es"
  have part: "(i, Some j) \<in> set (delivery_parts ?rel (es ! i) i)" using i(2) k d by (simp add: delivery_parts_def)
  show ?thesis
  proof (cases "paired ?rel i")
    case False
    have "marker_of (es ! i) = None" using k by (simp add: marker_of_def)
    then have "(i, Some j) \<in> set (entry_parts ?rel es i)" using False k part by (simp add: entry_parts_def)
    then show ?thesis using i(1) by blast
  next
    case True
    then obtain m where m: "i = Suc m" "en_kind (es ! m) = HcomDeliveryStub" using paired_kinds(2) [OF True i(1) k] by blast
    then have "\<not> paired ?rel m" using paired_kinds(1) [of es m] i(1) by auto
    moreover have "marker_of (es ! m) = None" using m(2) by (simp add: marker_of_def)
    ultimately have "(i, Some j) \<in> set (entry_parts ?rel es m)" using m i(1) part by (simp add: entry_parts_def)
    then show ?thesis using m(1) i(1) by (intro exI [of _ m]) simp
  qed
qed

lemma divider_row_at:
  assumes "dividerRow rows n = int k" "\<forall>r \<in> set rows. row_parts r \<noteq> []"
  shows "k < length rows \<and> (\<exists>x \<in> set (row_parts (rows ! k)). n \<le> int (fst x)) \<and>
    (\<forall>m < k. \<forall>x \<in> set (row_parts (rows ! m)). int (fst x) < n)"
proof -
  have f: "find_index (\<lambda>r. n \<le> int (snd (cleanRowSpan r))) rows = Some k"
    using assms(1) unfolding dividerRow_def by (simp split: if_splits option.splits)
  have k: "k < length rows" "n \<le> int (snd (cleanRowSpan (rows ! k)))" "\<And>m. m < k \<Longrightarrow> \<not> n \<le> int (snd (cleanRowSpan (rows ! m)))"
    using find_index_Some [OF f] by simp_all
  have drawn: "row_parts (rows ! m) \<noteq> []" if "m \<le> k" for m using assms(2) k(1) that by simp
  obtain x where x: "x \<in> set (row_parts (rows ! k))" "fst x = snd (cleanRowSpan (rows ! k))"
    using span_bounds(1) [OF drawn [OF order_refl]] by blast
  have "int (fst y) < n" if m: "m < k" "y \<in> set (row_parts (rows ! m))" for m y
  proof -
    have "fst y \<le> snd (cleanRowSpan (rows ! m))" using span_bounds(2) [OF drawn [of m]] m by simp
    then show ?thesis using k(3) [OF m(1)] by linarith
  qed
  moreover have "n \<le> int (fst x)" using x(2) k(2) by simp
  ultimately show ?thesis using k(1) x(1) by (intro conjI allI impI ballI bexI [of _ x])
qed

lemma divider_row_none:
  assumes "dividerRow rows n = - 1" and "\<forall>r \<in> set rows. row_parts r \<noteq> []" and "0 \<le> n"
    and "x \<in> set (concat (map row_parts rows))"
  shows "int (fst x) < n"
proof -
  obtain r where r: "r \<in> set rows" "x \<in> set (row_parts r)" using assms(4) by auto
  have "find_index (\<lambda>r. n \<le> int (snd (cleanRowSpan r))) rows = None"
    using assms(1,3) unfolding dividerRow_def by (simp split: option.splits)
  then have "\<not> n \<le> int (snd (cleanRowSpan r))" using r(1) by (simp add: find_index_None)
  moreover have "fst x \<le> snd (cleanRowSpan r)" using span_bounds(2) assms(2) r by blast
  ultimately show ?thesis by linarith
qed

lemma divider_row_cases: "dividerRow rows n = - 1 \<or> (0 \<le> n \<and> (\<exists>k. dividerRow rows n = int k))"
  by (auto simp: dividerRow_def split: option.split)

text \<open>Where the divider is, both ways.\<close>

lemma divider_row_exact:
  assumes "\<forall>r \<in> set rows. row_parts r \<noteq> []"
  shows "if 0 \<le> n \<and> (\<exists>x \<in> set (concat (map row_parts rows)). n \<le> int (fst x))
    then \<exists>k < length rows. dividerRow rows n = int k \<and> (\<exists>x \<in> set (row_parts (rows ! k)). n \<le> int (fst x)) \<and>
      (\<forall>m < k. \<forall>x \<in> set (row_parts (rows ! m)). int (fst x) < n)
    else dividerRow rows n = - 1"
proof (cases "dividerRow rows n = - 1")
  case True
  have "\<not> (0 \<le> n \<and> (\<exists>x \<in> set (concat (map row_parts rows)). n \<le> int (fst x)))"
    using divider_row_none [OF True assms] by fastforce
  then show ?thesis using True by (simp only: if_False)
next
  case False
  then obtain k where k: "0 \<le> n" "dividerRow rows n = int k" using divider_row_cases by blast
  note row = divider_row_at [OF k(2) assms]
  then obtain x where "x \<in> set (row_parts (rows ! k))" "n \<le> int (fst x)" by blast
  moreover from this have "x \<in> set (concat (map row_parts rows))" using row by auto
  ultimately have "0 \<le> n \<and> (\<exists>x \<in> set (concat (map row_parts rows)). n \<le> int (fst x))" using k(1) by blast
  then show ?thesis using row k(2) by (subst if_P) (assumption, blast)
qed

text \<open>The parts that are drawn, by what the transcript holds.\<close>

lemma entry_drawn_iff:
  "(\<exists>m < length es. (i, None) \<in> set (entry_parts rel es m)) \<longleftrightarrow>
     i < length es \<and> \<not> paired rel i \<and>
     (cleanViewDisposition (en_kind (es ! i)) \<in> {ShowEntry, ActivityEntry} \<or>
      cleanViewDisposition (en_kind (es ! i)) = SystemEntry \<and> system_always_visible (en_payload (es ! i)))"
proof -
  have marked: "marker_of (es ! m) \<noteq> None \<Longrightarrow> cleanViewDisposition (en_kind (es ! m)) = ShowEntry" for m
    by (auto simp: marker_of_def split: if_splits)
  have each: "(i, None) \<in> set (entry_parts rel es m) \<longleftrightarrow>
      m = i \<and> \<not> paired rel i \<and>
      (cleanViewDisposition (en_kind (es ! i)) \<in> {ShowEntry, ActivityEntry} \<or>
       cleanViewDisposition (en_kind (es ! i)) = SystemEntry \<and> system_always_visible (en_payload (es ! i)))" for m
    using marked [of m]
    by (cases "cleanViewDisposition (en_kind (es ! m))") (auto simp: entry_parts_def delivery_parts_def)
  show ?thesis unfolding each by fast
qed

lemma delivery_drawn_iff:
  "(\<exists>m < length es. (i, Some j) \<in> set (entry_parts (relateEntries es) es m)) \<longleftrightarrow>
     i < length es \<and> en_kind (es ! i) = HcomDelivery \<and> j < length (deliveries_of (es ! i)) \<and>
     j \<notin> set (rl_duplicates (relateEntries es) i) \<and>
     isCleanConversationDelivery (objectValue (Some (deliveries_of (es ! i) ! j)))"
proof
  let ?rel = "relateEntries es"
  assume "\<exists>m < length es. (i, Some j) \<in> set (entry_parts ?rel es m)"
  then obtain m where m: "m < length es" "(i, Some j) \<in> set (entry_parts ?rel es m)" by blast
  have "(i = m \<or> (i = Suc m \<and> Suc m < length es)) \<and> (i, Some j) \<in> set (delivery_parts ?rel (es ! i) i)"
    using m(2) delivery_parts_order(2)
    by (auto simp: entry_parts_def split: if_splits disposition.splits) force+
  then show "i < length es \<and> en_kind (es ! i) = HcomDelivery \<and> j < length (deliveries_of (es ! i)) \<and>
     j \<notin> set (rl_duplicates ?rel i) \<and> isCleanConversationDelivery (objectValue (Some (deliveries_of (es ! i) ! j)))"
    using m(1) by (auto simp: delivery_parts_def split: if_splits)
qed (use delivery_drawn in blast)

lemma before_distinct: "sorted_wrt before xs \<Longrightarrow> distinct xs"
  by (induction xs) (auto simp: before_def)

text \<open>
  C37. The clean view draws exactly what it is to draw, in transcript order, each part once. An entry is drawn if
  and only if it is not paired with an entry that draws it and is one to be shown, an activity, or a system entry
  that is always visible; a delivery if and only if it is part of the conversation and no repetition of the entry
  before, be it at its own entry or with the stub that announces it. The rows stand in transcript order, no run
  is empty and no two runs touch. The divider sits above the first row that draws its entry or a later
  one, and there is none exactly when no row does.
\<close>

theorem clean_rows_draw_in_order:
  "let rel = relateEntries es; rows = cleanRows es rel; parts = concat (map row_parts rows)
   in sorted_wrt before parts \<and> distinct parts \<and>
      (\<forall>i. (i, None) \<in> set parts \<longleftrightarrow>
         i < length es \<and> \<not> paired rel i \<and>
         (cleanViewDisposition (en_kind (es ! i)) \<in> {ShowEntry, ActivityEntry} \<or>
          cleanViewDisposition (en_kind (es ! i)) = SystemEntry \<and> system_always_visible (en_payload (es ! i)))) \<and>
      (\<forall>i j. (i, Some j) \<in> set parts \<longleftrightarrow>
         i < length es \<and> en_kind (es ! i) = HcomDelivery \<and> j < length (deliveries_of (es ! i)) \<and>
         j \<notin> set (rl_duplicates rel i) \<and>
         isCleanConversationDelivery (objectValue (Some (deliveries_of (es ! i) ! j)))) \<and>
      successively (\<lambda>a b. \<not> (is_run a \<and> is_run b)) rows \<and> (\<forall>r \<in> set rows. row_parts r \<noteq> []) \<and>
      (\<forall>n. if 0 \<le> n \<and> (\<exists>x \<in> set parts. n \<le> int (fst x))
         then \<exists>k < length rows. dividerRow rows n = int k \<and> (\<exists>x \<in> set (row_parts (rows ! k)). n \<le> int (fst x)) \<and>
           (\<forall>m < k. \<forall>x \<in> set (row_parts (rows ! m)). int (fst x) < n)
         else dividerRow rows n = - 1)"
proof -
  let ?rel = "relateEntries es"
  let ?rows = "cleanRows es ?rel"
  let ?parts = "concat (map row_parts ?rows)"
  have s: "sorted_wrt before ?parts" using parts_in_order [of "length es" es] unfolding rows_draw by blast
  have mem: "x \<in> set ?parts \<longleftrightarrow> (\<exists>m < length es. x \<in> set (entry_parts ?rel es m))" for x
    unfolding rows_draw by auto
  have shape: "successively (\<lambda>a b. \<not> (is_run a \<and> is_run b)) ?rows" "\<forall>r \<in> set ?rows. row_parts r \<noteq> []"
    using clean_rows_shape [of es ?rel] unfolding rows_shape_def by (rule conjunct1, rule conjunct2)
  show ?thesis
    unfolding Let_def
    by (intro conjI allI)
      (rule s before_distinct [OF s] mem [THEN trans, OF entry_drawn_iff] mem [THEN trans, OF delivery_drawn_iff]
        shape divider_row_exact [OF shape(2)])+
qed

text \<open>A prompt, a thought, a delivery announced by its stub (its first message acknowledges), two system entries, and a reply.\<close>

definition sample_entry :: "entry_kind \<Rightarrow> json \<Rightarrow> entry" where
  "sample_entry k payload = \<lparr>en_uuid = None, en_byteOffset = 0, en_kind = k, en_payload = payload, en_quarantine = False\<rparr>"

definition sample_entries :: "entry list" where
  "sample_entries =
     [sample_entry HumanPrompt JNull, sample_entry Thinking JNull, sample_entry HcomDeliveryStub JNull,
      sample_entry HcomDelivery (JObj [(''deliveries'', JArr [JObj [(''intent'', JStr ''ack'')], JObj [(''sender'', JStr ''a'')]])]),
      sample_entry SystemChip (JObj [(''type'', JStr ''system''), (''subtype'', JStr ''model_refusal_fallback'')]),
      sample_entry SystemChip JNull, sample_entry AssistantText (JObj [(''content'', JStr ''Hi'')])]"

theorem clean_rows_draw_in_order_witness:
  "let rows = cleanRows sample_entries (relateEntries sample_entries)
   in concat (map row_parts rows) = [(0, None), (1, None), (3, Some 1), (4, None), (6, None)] \<and>
      distinct (concat (map row_parts rows)) \<and> dividerRow rows 2 = 1 \<and> dividerRow rows 7 = - 1"
proof -
  let ?rows = "cleanRows sample_entries (relateEntries sample_entries)"
  have d: "concat (map row_parts ?rows) = [(0, None), (1, None), (3, Some 1), (4, None), (6, None)]"
    "dividerRow ?rows 2 = 1" by code_simp+
  have "if 0 \<le> (7 :: int) \<and> (\<exists>x \<in> set (concat (map row_parts ?rows)). 7 \<le> int (fst x))
      then \<exists>k < length ?rows. dividerRow ?rows 7 = int k \<and> (\<exists>x \<in> set (row_parts (?rows ! k)). 7 \<le> int (fst x)) \<and>
           (\<forall>m < k. \<forall>x \<in> set (row_parts (?rows ! m)). int (fst x) < 7)
      else dividerRow ?rows 7 = - 1"
    using clean_rows_draw_in_order [of sample_entries] unfolding Let_def by (elim conjE) (erule allE)
  then have "dividerRow ?rows 7 = - 1" unfolding d by simp
  then show ?thesis using d unfolding Let_def by simp
qed

end
