(* ===== verification/Switching.thy ===== *)
theory Switching
  imports SpacesStore ShellPrefs ReadMarkers
begin

section \<open>Switching between spaces\<close>

text \<open>
  The switcher of \<^verbatim>\<open>features/spaces/spaceSwitcherModel.ts\<close> (hold a key, press Tab, release), the order it shows
  (\<^verbatim>\<open>features/spaces/spaceMRU.ts\<close>), and the session of \<^verbatim>\<open>features/workspace/useSpaceSwitcher.ts\<close> that joins them.
\<close>

subsection \<open>The most recently used order\<close>

definition spaceMRUKey :: string where
  "spaceMRUKey = ''herder.web.spaces.mru.v1''"

definition maxSpaceMRU :: nat where
  "maxSpaceMRU = 64"

definition parseSpaceMRU :: "cell option \<Rightarrow> string list option" where
  "parseSpaceMRU raw =
     (case parse_cell raw of
        Some v \<Rightarrow>
          if is_record v \<and> field v ''version'' = Some (JNum 1)
          then map_option uniq (Option.bind (field v ''order'') as_strings)
          else None
      | None \<Rightarrow> None)"

definition readSpaceMRU :: "storage \<Rightarrow> string list \<times> write_state" where
  "readSpaceMRU st = (case readBrowserRecord parseSpaceMRU spaceMRUKey st of (v, state) \<Rightarrow> (or_else v [], state))"

definition mru_json :: "string list \<Rightarrow> json" where
  "mru_json order = JObj [(''version'', JNum 1), (''order'', JArr (map JStr order))]"

definition writeSpaceMRU :: "string list \<Rightarrow> write_state \<Rightarrow> storage \<Rightarrow> write_state \<times> storage" where
  "writeSpaceMRU order state st = writeBrowserRecord spaceMRUKey (Json (mru_json order)) state st"

definition touchSpaceMRU :: "string list \<Rightarrow> string \<Rightarrow> string list" where
  "touchSpaceMRU order i =
     (case order of
        x # xs \<Rightarrow> if x = i then order else take maxSpaceMRU (i # filter (\<lambda>y. y \<noteq> i) order)
      | [] \<Rightarrow> [i])"

definition mruSpaceIDs :: "string list \<Rightarrow> SpaceDefinition list \<Rightarrow> string option \<Rightarrow> string list" where
  "mruSpaceIDs order spaces activeID =
     (let live = map space_id spaces;
          touched = (case activeID of Some a \<Rightarrow> if a \<noteq> [] \<and> a \<in> set live then touchSpaceMRU order a else order | None \<Rightarrow> order);
          recent = filter (\<lambda>i. i \<in> set live) touched
      in recent @ filter (\<lambda>i. i \<notin> set recent) live)"

subsection \<open>The switcher\<close>

datatype switcher_state = SwitcherIdle | Holding "string list" int

datatype cycle_direction = Forward | Backward

datatype switcher_event =
    Cycle cycle_direction "string list"
  | StepBy cycle_direction
  | ReleaseKey
  | ChooseSpace string
  | CancelSwitch

definition wrap :: "int \<Rightarrow> int \<Rightarrow> int" where
  "wrap i n = (i + n) mod n"

fun direction_step :: "cycle_direction \<Rightarrow> int" where
  "direction_step Forward = 1"
| "direction_step Backward = - 1"

fun reduceSwitcher :: "switcher_state \<Rightarrow> switcher_event \<Rightarrow> switcher_state \<times> string option" where
  "reduceSwitcher SwitcherIdle (Cycle d order) =
     (if length order < 2 then (SwitcherIdle, None)
      else (Holding order (if d = Forward then 1 else int (length order) - 1), None))"
| "reduceSwitcher SwitcherIdle e = (SwitcherIdle, None)"
| "reduceSwitcher (Holding order i) (Cycle d other) = (Holding order (wrap (i + direction_step d) (int (length order))), None)"
| "reduceSwitcher (Holding order i) (StepBy d) = (Holding order (wrap (i + direction_step d) (int (length order))), None)"
| "reduceSwitcher (Holding order i) ReleaseKey =
     (SwitcherIdle,
      case elem_at order i of Some target \<Rightarrow> if target \<noteq> [] \<and> i \<noteq> 0 then Some target else None | None \<Rightarrow> None)"
| "reduceSwitcher (Holding order i) (ChooseSpace x) =
     (SwitcherIdle, if Some x \<noteq> elem_at order 0 \<and> x \<in> set order then Some x else None)"
| "reduceSwitcher (Holding order i) CancelSwitch = (SwitcherIdle, None)"

definition highlightedSpace :: "switcher_state \<Rightarrow> string option" where
  "highlightedSpace s = (case s of Holding order i \<Rightarrow> elem_at order i | SwitcherIdle \<Rightarrow> None)"

subsection \<open>A session\<close>

record switcher_session =
  sw_mru :: "string list"
  sw_spaces :: "SpaceDefinition list"
  sw_active :: "string option"
  sw_state :: switcher_state

definition session_order :: "switcher_session \<Rightarrow> string list" where
  "session_order s = mruSpaceIDs (sw_mru s) (sw_spaces s) (sw_active s)"

text \<open>The active space changes; the order is touched whatever changed it.\<close>

definition arrive :: "string option \<Rightarrow> switcher_session \<Rightarrow> switcher_session" where
  "arrive i s =
     s\<lparr>sw_active := i, sw_mru := (case i of Some a \<Rightarrow> if a \<noteq> [] then touchSpaceMRU (sw_mru s) a else sw_mru s | None \<Rightarrow> sw_mru s)\<rparr>"

text \<open>A key; \<open>taken\<close> is the answer of \<open>switchSpace\<close>.\<close>

definition dispatch :: "bool \<Rightarrow> switcher_event \<Rightarrow> switcher_session \<Rightarrow> switcher_session" where
  "dispatch taken e s =
     (case reduceSwitcher (sw_state s) e of
        (st, c) \<Rightarrow>
          let t = s\<lparr>sw_state := st\<rparr>
          in case c of Some i \<Rightarrow> if i \<noteq> [] \<and> taken then arrive (Some i) t else t | None \<Rightarrow> t)"

inductive switcher_run :: "switcher_session \<Rightarrow> bool" where
  started: "distinct mru \<Longrightarrow> switcher_run \<lparr>sw_mru = mru, sw_spaces = spaces, sw_active = None, sw_state = SwitcherIdle\<rparr>"
| arrives: "switcher_run s \<Longrightarrow> switcher_run (arrive i s)"
| listed_spaces: "switcher_run s \<Longrightarrow> switcher_run (s\<lparr>sw_spaces := spaces\<rparr>)"
| opens: "switcher_run s \<Longrightarrow> switcher_run (dispatch taken (Cycle d (session_order s)) s)"
| steps: "switcher_run s \<Longrightarrow> switcher_run (dispatch taken (StepBy d) s)"
| releases: "switcher_run s \<Longrightarrow> switcher_run (dispatch taken ReleaseKey s)"
| chooses: "switcher_run s \<Longrightarrow> switcher_run (dispatch taken (ChooseSpace x) s)"
| cancels: "switcher_run s \<Longrightarrow> switcher_run (dispatch taken CancelSwitch s)"

subsection \<open>The order\<close>

lemma touch_head: "hd (touchSpaceMRU order i) = i" "touchSpaceMRU order i \<noteq> []"
  by (auto simp: touchSpaceMRU_def maxSpaceMRU_def split: list.split)

lemma touch_distinct: "distinct order \<Longrightarrow> distinct (touchSpaceMRU order i)"
proof (cases order)
  case (Cons x xs)
  assume d: "distinct order"
  have "distinct (i # filter (\<lambda>y. y \<noteq> i) order)" using d by simp
  then show ?thesis using d Cons by (auto simp: touchSpaceMRU_def intro!: distinct_take)
qed (simp add: touchSpaceMRU_def)

lemma touch_bound: "length order \<le> maxSpaceMRU \<Longrightarrow> length (touchSpaceMRU order i) \<le> maxSpaceMRU"
  by (auto simp: touchSpaceMRU_def maxSpaceMRU_def split: list.split)

lemma mru_lists_each_once:
  assumes "distinct order" "distinct (map space_id spaces)"
  shows "distinct (mruSpaceIDs order spaces active)" "set (mruSpaceIDs order spaces active) = space_id ` set spaces"
    "length (mruSpaceIDs order spaces active) = length spaces"
proof -
  define touched where "touched = (case active of Some a \<Rightarrow> if a \<noteq> [] \<and> a \<in> set (map space_id spaces) then touchSpaceMRU order a else order | None \<Rightarrow> order)"
  have "distinct touched" using assms(1) touch_distinct by (auto simp: touched_def split: option.split)
  then show d: "distinct (mruSpaceIDs order spaces active)"
    using assms(2) unfolding mruSpaceIDs_def Let_def touched_def [symmetric] by auto
  show s: "set (mruSpaceIDs order spaces active) = space_id ` set spaces"
    unfolding mruSpaceIDs_def Let_def touched_def [symmetric] by auto
  show "length (mruSpaceIDs order spaces active) = length spaces"
    using distinct_card [OF d] distinct_card [OF assms(2)] s by simp
qed

lemma mru_starts:
  assumes "a \<noteq> []" "a \<in> space_id ` set spaces" "order = a # r"
  shows "\<exists>q. mruSpaceIDs order spaces (Some a) = a # filter (\<lambda>i. i \<in> space_id ` set spaces) r @ q"
  using assms by (auto simp: mruSpaceIDs_def touchSpaceMRU_def Let_def)

definition session_ok :: "switcher_session \<Rightarrow> bool" where
  "session_ok s \<longleftrightarrow> distinct (sw_mru s) \<and>
     (\<forall>a. sw_active s = Some a \<and> a \<noteq> [] \<longrightarrow> sw_mru s \<noteq> [] \<and> hd (sw_mru s) = a) \<and>
     (case sw_state s of Holding order i \<Rightarrow> 2 \<le> length order \<and> 0 \<le> i \<and> i < int (length order) | SwitcherIdle \<Rightarrow> True)"

lemma arrive_ok: "session_ok s \<Longrightarrow> session_ok (arrive i s)"
  using touch_head touch_distinct by (auto simp: session_ok_def arrive_def split: option.split)

lemma reduce_ok:
  assumes "session_ok s"
  shows "session_ok (s\<lparr>sw_state := fst (reduceSwitcher (sw_state s) e)\<rparr>)"
proof (cases "sw_state s")
  case SwitcherIdle
  then show ?thesis using assms by (cases e) (auto simp: session_ok_def)
next
  case (Holding order i)
  then have "0 < int (length order)" using assms by (auto simp: session_ok_def)
  then have "0 \<le> wrap j (int (length order))" "wrap j (int (length order)) < int (length order)" for j
    by (simp_all add: wrap_def)
  then show ?thesis using assms Holding by (cases e) (auto simp: session_ok_def)
qed

lemma dispatch_ok: "session_ok s \<Longrightarrow> session_ok (dispatch taken e s)"
  using reduce_ok [of s e] arrive_ok by (auto simp: dispatch_def Let_def split: prod.split option.split)

lemma switcher_run_ok: "switcher_run s \<Longrightarrow> session_ok s"
proof (induction rule: switcher_run.induct)
  case (started mru spaces)
  then show ?case by (simp add: session_ok_def)
next
  case (listed_spaces s spaces)
  then show ?case by (auto simp: session_ok_def)
qed (auto intro: arrive_ok dispatch_ok)

subsection \<open>Tabs and the release\<close>

abbreviation hold :: "nat \<Rightarrow> switcher_session \<Rightarrow> switcher_session" where
  "hold k s \<equiv> (dispatch True (StepBy Forward) ^^ k) (dispatch True (Cycle Forward (session_order s)) s)"

lemma hold_at:
  assumes "sw_state s = SwitcherIdle" "2 \<le> length (session_order s)"
  shows "hold k s = s\<lparr>sw_state := Holding (session_order s) (int (Suc k) mod int (length (session_order s)))\<rparr>"
proof (induction k)
  case 0
  then show ?case using assms by (simp add: dispatch_def)
next
  case (Suc k)
  have "(int (Suc k) mod int n + 1 + int n) mod int n = int (Suc (Suc k)) mod int n" for n
    by (metis add.assoc add.commute mod_add_left_eq mod_add_self2 of_nat_Suc)
  then show ?case unfolding funpow.simps comp_def Suc by (simp add: dispatch_def wrap_def)
qed

lemma release_at:
  assumes "sw_state s = SwitcherIdle" "2 \<le> length (session_order s)" "[] \<notin> set (session_order s)"
    and "i = Suc k mod length (session_order s)"
  shows "dispatch True ReleaseKey (hold k s) = (if i = 0 then s else arrive (Some (session_order s ! i)) s)"
proof -
  let ?o = "session_order s"
  have "0 < length ?o" using assms(2) by linarith
  then have i: "int (Suc k) mod int (length ?o) = int i" "i < length ?o" unfolding assms(4) by (simp_all add: zmod_int)
  have "s\<lparr>sw_state := SwitcherIdle\<rparr> = s" using assms(1) by simp
  moreover have "?o ! i \<noteq> []" using assms(3) i(2) nth_mem by metis
  ultimately show ?thesis unfolding hold_at [OF assms(1,2)] i(1)
    using i(2) by (simp add: dispatch_def elem_at_def)
qed

text \<open>
  C38. Holding and pressing Tab goes through the spaces in the order they were last used. In every session with at
  least two spaces, the list shows every space once, the current one first; releasing after any number of Tabs goes
  to the space that many places down (around the end, and nowhere on the current one); a tap and another tap lead
  back to where they began; cancelling goes nowhere.
\<close>

theorem alt_tab_flips_back:
  assumes "switcher_run s" "sw_state s = SwitcherIdle" "sw_active s = Some a" "a \<in> space_id ` set (sw_spaces s)"
    and "distinct (map space_id (sw_spaces s))" "[] \<notin> space_id ` set (sw_spaces s)" "2 \<le> length (sw_spaces s)"
  shows "set (session_order s) = space_id ` set (sw_spaces s) \<and> distinct (session_order s) \<and> session_order s ! 0 = a \<and>
    (\<forall>k. let i = Suc k mod length (session_order s); t = dispatch True ReleaseKey (hold k s)
         in sw_active t = Some (session_order s ! i) \<and> (i = 0 \<longrightarrow> t = s)) \<and>
    (let tap = (\<lambda>s. dispatch True ReleaseKey (hold 0 s))
     in sw_active (tap s) = Some (session_order s ! 1) \<and> session_order s ! 1 \<noteq> a \<and> sw_active (tap (tap s)) = Some a) \<and>
    (\<forall>k. dispatch True CancelSwitch (hold k s) = s)"
proof -
  let ?n = "length (session_order s)"
  have ok: "session_ok s" by (rule switcher_run_ok [OF assms(1)])
  have a: "a \<noteq> []" using assms(4,6) by metis
  obtain r where r: "sw_mru s = a # r" using ok a assms(3) by (cases "sw_mru s") (auto simp: session_ok_def)
  have ord: "set (session_order s) = space_id ` set (sw_spaces s)" "distinct (session_order s)" "?n = length (sw_spaces s)"
    using mru_lists_each_once [of "sw_mru s" "sw_spaces s"] ok assms(5) by (auto simp: session_order_def session_ok_def)
  obtain q where q: "session_order s = a # q"
    using mru_starts [OF a assms(4) r] assms(3) by (auto simp: session_order_def)
  have two: "2 \<le> ?n" and ne: "[] \<notin> set (session_order s)" using ord(1,3) assms(6,7) by simp_all
  have rel: "sw_active (dispatch True ReleaseKey (hold k s)) = Some (session_order s ! (Suc k mod ?n)) \<and>
      (Suc k mod ?n = 0 \<longrightarrow> dispatch True ReleaseKey (hold k s) = s)" for k
    unfolding release_at [OF assms(2) two ne refl] using assms(3) q by (simp add: arrive_def)
  define b where "b = session_order s ! 1"
  have b: "b \<in> set (session_order s)" "b \<noteq> a" "b \<noteq> []"
    using two q ord(2) ne unfolding b_def by (cases q; auto)+
  define t where "t = arrive (Some b) s"
  have tap: "dispatch True ReleaseKey (hold 0 s) = t"
    using release_at [OF assms(2) two ne refl, of 0] two by (simp add: t_def b_def)
  have m: "sw_mru t = b # a # take 62 (filter (\<lambda>y. y \<noteq> b) r)" "sw_active t = Some b" "sw_spaces t = sw_spaces s" "sw_state t = SwitcherIdle"
    using b r assms(2) by (auto simp: t_def arrive_def touchSpaceMRU_def maxSpaceMRU_def)
  have bl: "b \<in> space_id ` set (sw_spaces t)" using b(1) ord(1) m(3) by simp
  obtain q' where q': "session_order t = b # a # q'"
    using mru_starts [OF b(3) bl m(1)] m(2,3) assms(4) by (auto simp: session_order_def)
  have "[] \<notin> set (session_order t)"
    using mru_lists_each_once(2) [of "sw_mru t" "sw_spaces t" "sw_active t"] ok assms(5,6) m(3) switcher_run_ok
      touch_distinct [of "sw_mru s" b] b(3) by (auto simp: session_order_def session_ok_def t_def arrive_def)
  then have flip: "sw_active (dispatch True ReleaseKey (hold 0 t)) = Some a"
    using release_at [OF m(4), of "Suc 0 mod length (session_order t)" 0] q' by (simp add: arrive_def)
  have cancel: "dispatch True CancelSwitch (hold k s) = s" for k
    unfolding hold_at [OF assms(2) two] using assms(2) by (simp add: dispatch_def)
  show ?thesis using ord q rel tap flip b(2) m(2) cancel unfolding b_def Let_def by simp
qed

definition three_spaces :: "SpaceDefinition list" where
  "three_spaces = map (\<lambda>i. \<lparr>space_id = i, space_name = i, space_order = 0, space_created = 0, space_updated = 0, space_deleted = False\<rparr>)
     [''a'', ''b'', ''c'']"

definition in_space_c :: switcher_session where
  "in_space_c = arrive (Some ''c'') (arrive (Some ''b'')
     \<lparr>sw_mru = [''a''], sw_spaces = three_spaces, sw_active = None, sw_state = SwitcherIdle\<rparr>)"

theorem alt_tab_flips_back_witness:
  "session_order in_space_c = [''c'', ''b'', ''a''] \<and>
   sw_active (dispatch True ReleaseKey (hold 0 (dispatch True ReleaseKey (hold 0 in_space_c)))) = Some ''c''"
proof -
  have run: "switcher_run in_space_c" unfolding in_space_c_def by (intro switcher_run.intros) simp
  have "sw_state in_space_c = SwitcherIdle" "sw_active in_space_c = Some ''c''" "''c'' \<in> space_id ` set (sw_spaces in_space_c)"
    "distinct (map space_id (sw_spaces in_space_c))" "[] \<notin> space_id ` set (sw_spaces in_space_c)" "2 \<le> length (sw_spaces in_space_c)"
    by (simp_all add: in_space_c_def arrive_def three_spaces_def)
  note all = alt_tab_flips_back [OF run this]
  have "session_order in_space_c = [''c'', ''b'', ''a'']" by code_simp
  then show ?thesis using all unfolding Let_def by blast
qed

end
