(* ===== verification/Viewing.thy ===== *)
theory Viewing
  imports ReadMarkers
begin

section \<open>Viewing an agent\<close>

text \<open>
  What counts as seeing an agent (\<^verbatim>\<open>features/spaces/viewingModel.ts\<close>), where the keys go on arriving at one
  (\<^verbatim>\<open>features/spaces/switchFocusModel.ts\<close>), and where the divider of its transcript stands
  (\<^verbatim>\<open>features/transcript/transcriptReadModel.ts\<close>).
\<close>

subsection \<open>The dwell\<close>

definition viewDwellMs :: num where
  "viewDwellMs = 1000"

record view_group =
  vg_visible :: bool
  vg_focused :: bool
  vg_activeAgent :: "string option"

definition viewedAgents :: "view_group list \<Rightarrow> bool \<Rightarrow> string list" where
  "viewedAgents groups documentVisible =
     (if \<not> documentVisible then []
      else take 1 (List.map_filter
        (\<lambda>g. if vg_focused g \<and> vg_visible g \<and> or_else (vg_activeAgent g) [] \<noteq> [] then vg_activeAgent g else None) groups))"

definition nextViewing :: "(string, num) jsmap \<Rightarrow> string list \<Rightarrow> num \<Rightarrow> (string, num) jsmap" where
  "nextViewing previous viewed clock =
     (let nxt = fold (\<lambda>a m. put a (or_else (get previous a) clock) m) viewed [];
          same = (length viewed = length (keys previous) \<and> (\<forall>a \<in> set viewed. get previous a \<noteq> None))
      in if same then previous else nxt)"

definition dwelledAgents :: "(string, num) jsmap \<Rightarrow> num \<Rightarrow> num \<Rightarrow> string list" where
  "dwelledAgents state clock dwell = map fst (filter (\<lambda>(a, since). dwell \<le> js_sub clock since) state)"

definition nextDwellDelay :: "(string, num) jsmap \<Rightarrow> num \<Rightarrow> num \<Rightarrow> num option" where
  "nextDwellDelay state clock dwell =
     (case filter (\<lambda>w. 0 < w) (map (\<lambda>since. js_sub (js_add since dwell) clock) (vals state)) of
        [] \<Rightarrow> None
      | w # ws \<Rightarrow> Some (fold min ws w))"

text \<open>The observations of a page, the newest first: the clock and what was viewed then.\<close>

inductive viewing_run :: "(num \<times> string list) list \<Rightarrow> (string, num) jsmap \<Rightarrow> bool" where
  unseen: "viewing_run [] []"
| looked: "viewing_run h state \<Longrightarrow> distinct viewed \<Longrightarrow> viewing_run ((clock, viewed) # h) (nextViewing state viewed clock)"

text \<open>Since when an agent has been viewed in every observation, if it is viewed now.\<close>

fun viewed_since :: "(num \<times> string list) list \<Rightarrow> string \<Rightarrow> num option" where
  "viewed_since [] a = None"
| "viewed_since ((clock, viewed) # h) a = (if a \<in> set viewed then Some (or_else (viewed_since h a) clock) else None)"

lemma viewed_one: "length (viewedAgents groups v) \<le> 1"
  by (simp add: viewedAgents_def)

lemma fold_put_viewed:
  "get (fold (\<lambda>a m. put a (f a) m) vs m) a = (if a \<in> set vs then Some (f a) else get m a)"
  by (induction vs arbitrary: m) (auto simp: get_put)

lemma fold_put_wf: "wf_map m \<Longrightarrow> wf_map (fold (\<lambda>a m. put a (f a) m) vs m)"
  by (induction vs arbitrary: m) simp_all

lemma nextViewing_get:
  assumes "wf_map state" "distinct viewed"
  shows "get (nextViewing state viewed clock) a = (if a \<in> set viewed then Some (or_else (get state a) clock) else None)"
    "wf_map (nextViewing state viewed clock)"
proof -
  show "wf_map (nextViewing state viewed clock)"
    using assms(1) fold_put_wf [of "[]" "\<lambda>a. or_else (get state a) clock" viewed] unfolding nextViewing_def Let_def by auto
  show "get (nextViewing state viewed clock) a = (if a \<in> set viewed then Some (or_else (get state a) clock) else None)"
  proof (cases "length viewed = length (keys state) \<and> (\<forall>a \<in> set viewed. get state a \<noteq> None)")
    case True
    then have "set viewed \<subseteq> set (keys state)" by (auto simp: get_None_keys)
    then have "set viewed = set (keys state)"
      using True assms by (metis card_subset_eq distinct_card finite_set)
    then have "a \<in> set viewed \<longleftrightarrow> get state a \<noteq> None" by (simp add: get_None_keys)
    then show ?thesis using True by (auto simp: nextViewing_def Let_def)
  next
    case False
    then have "nextViewing state viewed clock = fold (\<lambda>a m. put a (or_else (get state a) clock) m) viewed []"
      unfolding nextViewing_def Let_def by (rule if_not_P)
    then show ?thesis by (simp add: fold_put_viewed)
  qed
qed

lemma viewing_run_since: "viewing_run h state \<Longrightarrow> wf_map state \<and> get state a = viewed_since h a"
proof (induction arbitrary: a rule: viewing_run.induct)
  case (looked h state viewed clock)
  then show ?case using nextViewing_get [of state viewed clock] by auto
qed simp

lemma dwelled_iff:
  "wf_map state \<Longrightarrow> a \<in> set (dwelledAgents state clock dwell) \<longleftrightarrow> (\<exists>since. get state a = Some since \<and> dwell \<le> js_sub clock since)"
  unfolding dwelledAgents_def by (force simp: map_of_eq_Some_iff)

lemma fold_min: "fold min ws (w :: num) \<in> set (w # ws)" "\<forall>x \<in> set (w # ws). fold min ws w \<le> x"
proof (induction ws arbitrary: w)
  case (Cons v ws)
  { case 1 show ?case using Cons(1) [of "min v w"] by (auto simp: min_def split: if_splits) }
  { case 2 show ?case using Cons(2) [of "min v w"] by auto }
qed simp_all

lemma delay_cases:
  "case nextDwellDelay state clock dwell of
     None \<Rightarrow> \<forall>since \<in> set (vals state). js_sub (js_add since dwell) clock \<le> 0
   | Some w \<Rightarrow> 0 < w \<and> (\<exists>since \<in> set (vals state). js_sub (js_add since dwell) clock = w) \<and>
       (\<forall>since \<in> set (vals state). js_sub (js_add since dwell) clock \<le> 0 \<or> w \<le> js_sub (js_add since dwell) clock)"
proof -
  let ?f = "\<lambda>since. js_sub (js_add since dwell) clock"
  let ?ws = "filter (\<lambda>w. 0 < w) (map ?f (vals state))"
  have all: "since \<in> set (vals state) \<Longrightarrow> ?f since \<le> 0 \<or> ?f since \<in> set ?ws" for since by auto
  show ?thesis
  proof (cases ?ws)
    case Nil
    then show ?thesis unfolding nextDwellDelay_def using all by (auto simp: Nil)
  next
    case (Cons w ws)
    have "fold min ws w \<in> set ?ws" using fold_min(1) [of ws w] unfolding Cons .
    then have "0 < fold min ws w" "\<exists>since \<in> set (vals state). ?f since = fold min ws w" by force+
    moreover have "\<forall>since \<in> set (vals state). ?f since \<le> 0 \<or> fold min ws w \<le> ?f since"
      using all fold_min(2) [of w ws] unfolding Cons by blast
    ultimately show ?thesis unfolding nextDwellDelay_def Cons by simp
  qed
qed

text \<open>The same for a clock in range: what has dwelled, and the first moment it changes.\<close>

definition clocked :: "num \<Rightarrow> num \<Rightarrow> (string, num) jsmap \<Rightarrow> bool" where
  "clocked clock dwell state \<longleftrightarrow> wf_map state \<and> (\<forall>since \<in> set (vals state). 0 \<le> since \<and> since \<le> clock) \<and>
     0 \<le> dwell \<and> clock + dwell < 2 ^ 51"

lemma clocked_exact:
  assumes "clocked clock dwell state" "(a, since) \<in> set state" "clock \<le> t" "t \<le> clock + dwell"
  shows "js_sub t since = t - since" "js_sub (js_add since dwell) clock = since + dwell - clock" "since \<le> clock"
proof -
  have "0 \<le> since" "since \<le> clock" "0 \<le> dwell" "clock + dwell < 2 ^ 51"
    using assms(1,2) unfolding clocked_def by force+
  then show "js_sub t since = t - since" "js_sub (js_add since dwell) clock = since + dwell - clock" "since \<le> clock"
    using assms(3,4) by (auto intro!: js_sub_exact)
qed

lemma clocked_dwelled:
  assumes "clocked clock dwell state" "clock \<le> t" "t \<le> clock + dwell"
  shows "dwelledAgents state t dwell = map fst (filter (\<lambda>(a, since). since + dwell \<le> t) state)"
  unfolding dwelledAgents_def using clocked_exact(1) [OF assms(1) _ assms(2,3)]
  by (intro arg_cong [of _ _ "map fst"] filter_cong) auto

lemma clocked_member:
  assumes "clocked clock dwell state" "clock \<le> t" "t \<le> clock + dwell"
  shows "a \<in> set (dwelledAgents state t dwell) \<longleftrightarrow> (\<exists>since. get state a = Some since \<and> since + dwell \<le> t)"
proof -
  have "wf_map state" using assms(1) unfolding clocked_def by blast
  then show ?thesis unfolding clocked_dwelled [OF assms] by (force simp: map_of_eq_Some_iff)
qed

lemma delay_none:
  assumes c: "clocked clock dwell state" and n: "nextDwellDelay state clock dwell = None" and a: "get state a = Some since"
  shows "since + dwell \<le> clock"
proof -
  have s: "(a, since) \<in> set state" using a by (rule map_of_SomeD)
  then have "since \<in> set (vals state)" by force
  then have "js_sub (js_add since dwell) clock \<le> 0"
    using delay_cases [where state = state and clock = clock and dwell = dwell] unfolding n option.case by blast
  moreover have "clock \<le> clock + dwell" using c unfolding clocked_def by simp
  ultimately show ?thesis using clocked_exact(2) [OF c s order_refl] by linarith
qed

lemma delay_some:
  assumes c: "clocked clock dwell state" and d: "nextDwellDelay state clock dwell = Some w"
  shows "0 < w" "w \<le> dwell" "\<exists>a since. get state a = Some since \<and> since + dwell = clock + w"
    "\<forall>(a, since) \<in> set state. since + dwell \<le> clock \<or> clock + w \<le> since + dwell"
proof -
  note delay = delay_cases [where state = state and clock = clock and dwell = dwell, unfolded d option.case]
  have up: "clock \<le> clock + dwell" and wf: "wf_map state" using c unfolding clocked_def by simp_all
  note exact = clocked_exact(2,3) [OF c _ order_refl up]
  show "0 < w" using delay by blast
  obtain since where s: "since \<in> set (vals state)" "js_sub (js_add since dwell) clock = w" using delay by blast
  then obtain a where a: "(a, since) \<in> set state" by force
  have e: "since + dwell = clock + w" using exact(1) [OF a] s(2) by linarith
  then show "w \<le> dwell" using exact(2) [OF a] by linarith
  show "\<exists>a since. get state a = Some since \<and> since + dwell = clock + w" using a e wf by (metis map_of_is_SomeI)
  have "since + dwell \<le> clock \<or> clock + w \<le> since + dwell" if m: "(a, since) \<in> set state" for a since
  proof -
    have "since \<in> set (vals state)" using m by force
    then have "js_sub (js_add since dwell) clock \<le> 0 \<or> w \<le> js_sub (js_add since dwell) clock" using delay by blast
    then show ?thesis using exact(1) [OF m] by linarith
  qed
  then show "\<forall>(a, since) \<in> set state. since + dwell \<le> clock \<or> clock + w \<le> since + dwell" by blast
qed

lemma viewed_since_in: "viewed_since h a = Some since \<Longrightarrow> \<exists>viewed. (since, viewed) \<in> set h"
  by (induction h a arbitrary: since rule: viewed_since.induct) (auto simp: or_else_def split: if_splits option.splits)

lemma run_clocked:
  assumes "viewing_run h state" "\<forall>(t, viewed) \<in> set h. 0 \<le> t \<and> t \<le> clock" "0 \<le> dwell" "clock + dwell < 2 ^ 51"
  shows "clocked clock dwell state"
proof -
  have wf: "wf_map state" and run: "get state a = viewed_since h a" for a using viewing_run_since [OF assms(1)] by blast+
  have "0 \<le> since \<and> since \<le> clock" if s: "since \<in> set (vals state)" for since
  proof -
    obtain a where "(a, since) \<in> set state" using s by force
    then have "viewed_since h a = Some since" using run wf by (metis map_of_is_SomeI)
    then show ?thesis using viewed_since_in assms(2) by blast
  qed
  then show ?thesis using wf assms(3,4) unfolding clocked_def by blast
qed

text \<open>
  C39. An agent counts as read exactly when it has been on screen long enough without a break, and the page wakes
  exactly when the next one has. In every run of observations: an agent has dwelled if and only if it was viewed in
  every observation since at least the dwell ago; if no timer is due, every agent viewed has dwelled; a timer that is
  due is the first moment at which the agents that have dwelled change.
\<close>

theorem dwell_marks_what_was_viewed:
  assumes "viewing_run h state" and "\<forall>(t, viewed) \<in> set h. 0 \<le> t \<and> t \<le> clock" and "0 \<le> dwell" "clock + dwell < 2 ^ 51"
  shows "(\<forall>a. a \<in> set (dwelledAgents state clock dwell) \<longleftrightarrow> (\<exists>since. viewed_since h a = Some since \<and> dwell \<le> clock - since)) \<and>
    (case nextDwellDelay state clock dwell of
       None \<Rightarrow> \<forall>a. viewed_since h a \<noteq> None \<longrightarrow> a \<in> set (dwelledAgents state clock dwell)
     | Some w \<Rightarrow> 0 < w \<and> w \<le> dwell \<and>
         (\<forall>t. clock \<le> t \<and> t < clock + w \<longrightarrow> dwelledAgents state t dwell = dwelledAgents state clock dwell) \<and>
         set (dwelledAgents state clock dwell) \<subset> set (dwelledAgents state (clock + w) dwell))"
proof -
  have c: "clocked clock dwell state" by (rule run_clocked [OF assms])
  have run: "get state a = viewed_since h a" for a using viewing_run_since [OF assms(1)] by blast
  have up: "clock \<le> clock + dwell" using assms(3) by simp
  have a: "a \<in> set (dwelledAgents state clock dwell) \<longleftrightarrow> (\<exists>since. viewed_since h a = Some since \<and> dwell \<le> clock - since)" for a
    unfolding clocked_member [OF c order_refl up] run by (simp add: le_diff_eq add.commute)
  show ?thesis
  proof (cases "nextDwellDelay state clock dwell")
    case None
    have "a \<in> set (dwelledAgents state clock dwell)" if "viewed_since h a \<noteq> None" for a
      using that delay_none [OF c None] clocked_member [OF c order_refl up] unfolding run [symmetric] by blast
    then show ?thesis unfolding None option.case using a by blast
  next
    case (Some w)
    note w = delay_some [OF c Some]
    have later: "clock \<le> clock + w" "clock + w \<le> clock + dwell" using w(1,2) by simp_all
    have same: "dwelledAgents state t dwell = dwelledAgents state clock dwell" if t: "clock \<le> t" "t < clock + w" for t
    proof -
      have "t \<le> clock + dwell" using t(2) later(2) by linarith
      moreover have "filter (\<lambda>(a, since). since + dwell \<le> t) state = filter (\<lambda>(a, since). since + dwell \<le> clock) state"
        using w(4) t by (intro filter_cong) auto
      ultimately show ?thesis unfolding clocked_dwelled [OF c order_refl up] using clocked_dwelled [OF c t(1)] by simp
    qed
    have "set (dwelledAgents state clock dwell) \<subset> set (dwelledAgents state (clock + w) dwell)"
    proof
      show "set (dwelledAgents state clock dwell) \<subseteq> set (dwelledAgents state (clock + w) dwell)"
        unfolding subset_iff clocked_member [OF c order_refl up] clocked_member [OF c later] using w(1) by force
      obtain b since where b: "get state b = Some since" "since + dwell = clock + w" using w(3) by blast
      then have "b \<in> set (dwelledAgents state (clock + w) dwell)" "b \<notin> set (dwelledAgents state clock dwell)"
        unfolding clocked_member [OF c order_refl up] clocked_member [OF c later] using w(1) by auto
      then show "set (dwelledAgents state clock dwell) \<noteq> set (dwelledAgents state (clock + w) dwell)" by blast
    qed
    then show ?thesis unfolding Some option.case using a w(1,2) same by blast
  qed
qed

text \<open>Two observations 1100 apart: one agent viewed in both, one only in the second.\<close>

theorem dwell_marks_what_was_viewed_witness:
  "dwelledAgents (nextViewing (nextViewing [] [''a''] 5000) [''a'', ''b''] 6100) 6200 viewDwellMs = [''a''] \<and>
   nextDwellDelay (nextViewing (nextViewing [] [''a''] 5000) [''a'', ''b''] 6100) 6200 viewDwellMs = Some 900 \<and>
   set (dwelledAgents (nextViewing (nextViewing [] [''a''] 5000) [''a'', ''b''] 6100) 6200 viewDwellMs) \<subset>
     set (dwelledAgents (nextViewing (nextViewing [] [''a''] 5000) [''a'', ''b''] 6100) (6200 + 900) viewDwellMs)"
proof -
  let ?h = "[(6100 :: num, [''a'', ''b'']), (5000, [''a''])]" and ?s = "nextViewing (nextViewing [] [''a''] 5000) [''a'', ''b''] 6100"
  have run: "viewing_run ?h ?s" by (intro viewing_run.intros) simp_all
  have s: "dwelledAgents ?s 6200 viewDwellMs = [''a'']" "nextDwellDelay ?s 6200 viewDwellMs = Some 900"
    by (simp_all add: nextViewing_def dwelledAgents_def nextDwellDelay_def viewDwellMs_def or_else_def)
  have "\<forall>(t, viewed) \<in> set ?h. 0 \<le> t \<and> t \<le> 6200" "0 \<le> viewDwellMs" "6200 + viewDwellMs < 2 ^ 51"
    by (simp_all add: viewDwellMs_def)
  note all = dwell_marks_what_was_viewed [OF run this, unfolded s(2) option.case]
  have "set (dwelledAgents ?s 6200 viewDwellMs) \<subset> set (dwelledAgents ?s (6200 + 900) viewDwellMs)" using all by blast
  then show ?thesis using s by blast
qed

subsection \<open>Arriving\<close>

datatype arrive_origin = FromComposer | FromTextField | FromQuickOpen | FromOther

datatype arrive_decision = ToComposer | ToPanel | WaitOn | LeaveFocus

text \<open>The composer is \<open>None\<close> until it mounts, then whether it is disabled.\<close>

definition arriveDecision :: "arrive_origin \<Rightarrow> string option \<Rightarrow> bool option \<Rightarrow> bool \<Rightarrow> bool \<Rightarrow> arrive_decision" where
  "arriveDecision origin activePanelKind composer panel lastTry =
     (if origin = FromTextField \<or> activePanelKind \<noteq> Some ''agent'' then LeaveFocus
      else if composer = Some False then ToComposer
      else if composer \<noteq> None \<and> panel then ToPanel
      else if \<not> lastTry then WaitOn
      else if panel then ToPanel else LeaveFocus)"

lemma last_try_decides: "arriveDecision origin k composer panel True \<noteq> WaitOn"
  by (simp add: arriveDecision_def)

lemma typing_is_not_interrupted: "arriveDecision FromTextField k composer panel lastTry = LeaveFocus"
  by (simp add: arriveDecision_def)

subsection \<open>The divider\<close>

record divider_snapshot =
  dv_pos :: "read_position option"
  dv_settled :: bool
  dv_active :: bool
  dv_unread :: bool

definition initialDividerSnapshot :: divider_snapshot where
  "initialDividerSnapshot = \<lparr>dv_pos = None, dv_settled = False, dv_active = False, dv_unread = False\<rparr>"

definition marker_pos :: "read_marker option \<Rightarrow> read_position option" where
  "marker_pos marker = (case marker of Some m \<Rightarrow> mk_pos m | None \<Rightarrow> None)"

definition same_place :: "read_position option \<Rightarrow> read_position option \<Rightarrow> bool" where
  "same_place a b \<longleftrightarrow>
     a = b \<or> (case (a, b) of (Some p, Some q) \<Rightarrow> ps_session p = ps_session q \<and> ps_offset p = ps_offset q | _ \<Rightarrow> False)"

definition nextDividerSnapshot :: "divider_snapshot \<Rightarrow> bool \<Rightarrow> read_marker option \<Rightarrow> divider_snapshot" where
  "nextDividerSnapshot previous active marker =
     (let unread = (case marker of Some m \<Rightarrow> mk_unread m | None \<Rightarrow> False);
          arriving = (active \<and> \<not> dv_active previous);
          marked = (unread \<and> (\<not> dv_unread previous \<or> \<not> same_place (marker_pos marker) (dv_pos previous)));
          cleared = (dv_unread previous \<and> \<not> unread \<and> marker \<noteq> None);
          is_settled = (if arriving then False else dv_settled previous);
          take_it = (active \<and> (arriving \<or> marked \<or> cleared \<or> (\<not> is_settled \<and> marker \<noteq> None)))
      in if take_it then \<lparr>dv_pos = marker_pos marker, dv_settled = (marker \<noteq> None), dv_active = active, dv_unread = unread\<rparr>
         else previous\<lparr>dv_settled := is_settled, dv_active := active, dv_unread := unread\<rparr>)"

fun first_known :: "read_marker option list \<Rightarrow> read_position option" where
  "first_known [] = None"
| "first_known (None # ms) = first_known ms"
| "first_known (Some m # ms) = mk_pos m"

abbreviation read_on :: "read_marker option list \<Rightarrow> divider_snapshot \<Rightarrow> divider_snapshot" where
  "read_on ms s \<equiv> fold (\<lambda>m s. nextDividerSnapshot s True m) ms s"

lemma divider_arrives:
  "\<not> dv_active s \<Longrightarrow> nextDividerSnapshot s True m =
     \<lparr>dv_pos = marker_pos m, dv_settled = (m \<noteq> None), dv_active = True, dv_unread = (case m of Some k \<Rightarrow> mk_unread k | None \<Rightarrow> False)\<rparr>"
  by (simp add: nextDividerSnapshot_def Let_def)

lemma divider_stays:
  assumes "dv_active s" "\<not> dv_unread s" "\<forall>k. m = Some k \<longrightarrow> \<not> mk_unread k"
  shows "nextDividerSnapshot s True m =
     (if \<not> dv_settled s \<and> m \<noteq> None then \<lparr>dv_pos = marker_pos m, dv_settled = True, dv_active = True, dv_unread = False\<rparr> else s)"
  using assms by (cases m) (simp_all add: nextDividerSnapshot_def Let_def)

lemma read_settled:
  assumes "dv_active s" "\<not> dv_unread s" "dv_settled s" "\<forall>m. Some m \<in> set ms \<longrightarrow> \<not> mk_unread m"
  shows "read_on ms s = s"
  using assms(4)
proof (induction ms)
  case (Cons m ms)
  have "nextDividerSnapshot s True m = s" using divider_stays [OF assms(1,2), of m] assms(3) Cons.prems by auto
  then show ?case using Cons by simp
qed simp

lemma read_unsettled:
  assumes "dv_active s" "\<not> dv_unread s" "\<not> dv_settled s" "dv_pos s = None" "\<forall>m. Some m \<in> set ms \<longrightarrow> \<not> mk_unread m"
  shows "dv_pos (read_on ms s) = first_known ms"
  using assms(5)
proof (induction ms)
  case Nil
  then show ?case using assms(4) by simp
next
  case (Cons m ms)
  show ?case
  proof (cases m)
    case None
    then have "nextDividerSnapshot s True m = s" using divider_stays [OF assms(1,2), of m] by simp
    then show ?thesis using Cons None by simp
  next
    case (Some k)
    let ?t = "\<lparr>dv_pos = marker_pos m, dv_settled = True, dv_active = True, dv_unread = False\<rparr>"
    have "nextDividerSnapshot s True m = ?t"
      using divider_stays [OF assms(1,2), of m] assms(3) Cons.prems Some by simp
    moreover have "read_on ms ?t = ?t" by (rule read_settled) (use Cons.prems in simp_all)
    ultimately show ?thesis using Some by (simp add: marker_pos_def)
  qed
qed

text \<open>The divider stands where the reading began: at the position of the first marker known since the arrival.\<close>

lemma divider_stands_still:
  assumes "\<not> dv_active s" "ms \<noteq> []" "\<forall>m. Some m \<in> set ms \<longrightarrow> \<not> mk_unread m"
  shows "dv_pos (read_on ms s) = first_known ms"
proof (cases ms)
  case (Cons m ms')
  let ?t = "nextDividerSnapshot s True m"
  have later: "\<forall>m. Some m \<in> set ms' \<longrightarrow> \<not> mk_unread m" using assms(3) unfolding Cons by simp
  have t: "?t = \<lparr>dv_pos = marker_pos m, dv_settled = (m \<noteq> None), dv_active = True, dv_unread = False\<rparr>"
    using divider_arrives [OF assms(1), of m] assms(3) unfolding Cons by (cases m) simp_all
  show ?thesis
  proof (cases m)
    case None
    have "dv_pos (read_on ms' ?t) = first_known ms'"
      unfolding t by (rule read_unsettled [OF _ _ _ _ later]) (simp_all add: None marker_pos_def)
    then show ?thesis unfolding Cons None by simp
  next
    case (Some k)
    have "read_on ms' ?t = ?t" unfolding t by (rule read_settled [OF _ _ _ later]) (simp_all add: Some)
    then show ?thesis unfolding Cons by (simp add: t) (simp add: Some marker_pos_def)
  qed
qed (use assms(2) in simp)

text \<open>A mark, here or on another device, moves it; leaving does not.\<close>

lemma unread_moves_divider:
  "mk_unread m \<Longrightarrow> \<not> dv_unread s \<Longrightarrow> dv_pos (nextDividerSnapshot s True (Some m)) = mk_pos m"
  "mk_unread m \<Longrightarrow> \<not> same_place (mk_pos m) (dv_pos s) \<Longrightarrow> dv_pos (nextDividerSnapshot s True (Some m)) = mk_pos m"
  "dv_pos (nextDividerSnapshot s False marker) = dv_pos s"
  by (simp_all add: nextDividerSnapshot_def Let_def marker_pos_def)

end
