(* ===== verification/NotesList.thy ===== *)
theory NotesList
  imports NotesStore Board
begin

section \<open>The list of notes\<close>

text \<open>
  \<^verbatim>\<open>features/notes/notesListModel.ts\<close> (selection, keys, sending all), \<^verbatim>\<open>notesSelectorModel.ts\<close> (choosing an agent)
  and the decisions of \<^verbatim>\<open>noteCaptureModel.ts\<close>. A set of ids keeps its order of insertion.
\<close>

subsection \<open>Selection\<close>

record note_selection =
  sn_selected :: "string list"
  sn_anchor :: "string option"
  sn_cursor :: "string option"

definition no_selection :: note_selection where
  "no_selection = \<lparr>sn_selected = [], sn_anchor = None, sn_cursor = None\<rparr>"

definition only :: "string \<Rightarrow> note_selection" where
  "only i = \<lparr>sn_selected = [i], sn_anchor = Some i, sn_cursor = Some i\<rparr>"

text \<open>\<open>x && ordered.includes(x)\<close>.\<close>

definition listed_in :: "string list \<Rightarrow> string option \<Rightarrow> bool" where
  "listed_in ordered x = (case x of Some i \<Rightarrow> i \<noteq> [] \<and> i \<in> set ordered | None \<Rightarrow> False)"

definition id_range :: "string list \<Rightarrow> string \<Rightarrow> string \<Rightarrow> string list" where
  "id_range ordered a b =
     (case (find_index (\<lambda>i. i = a) ordered, find_index (\<lambda>i. i = b) ordered) of
        (Some i, Some j) \<Rightarrow> uniq (take (max i j + 1 - min i j) (drop (min i j) ordered))
      | _ \<Rightarrow> [b])"

definition selectionAfterClick :: "note_selection \<Rightarrow> string list \<Rightarrow> string \<Rightarrow> bool \<Rightarrow> bool \<Rightarrow> note_selection" where
  "selectionAfterClick state ordered i command shift =
     (if shift
      then (let a = (if listed_in ordered (sn_anchor state) then the (sn_anchor state) else i)
            in \<lparr>sn_selected = id_range ordered a i, sn_anchor = Some a, sn_cursor = Some i\<rparr>)
      else if command
      then \<lparr>sn_selected = (if i \<in> set (sn_selected state) then set_remove i (sn_selected state) else set_add i (sn_selected state)),
            sn_anchor = Some i, sn_cursor = Some i\<rparr>
      else only i)"

definition selectionAfterArrow :: "note_selection \<Rightarrow> string list \<Rightarrow> int \<Rightarrow> bool \<Rightarrow> note_selection" where
  "selectionAfterArrow state ordered direction stretch =
     (if ordered = [] then state
      else let n = int (length ordered);
               current = (if listed_in ordered (sn_cursor state) then int (the (find_index (\<lambda>i. i = the (sn_cursor state)) ordered))
                          else if direction > 0 then - 1 else n);
               c = ordered ! nat (max 0 (min (n - 1) (current + direction)))
           in if \<not> stretch then only c
              else let a = (if listed_in ordered (sn_anchor state) then the (sn_anchor state) else c)
                   in \<lparr>sn_selected = id_range ordered a c, sn_anchor = Some a, sn_cursor = Some c\<rparr>)"

definition selectionAll :: "note_selection \<Rightarrow> string list \<Rightarrow> note_selection" where
  "selectionAll state ordered =
     (case ordered of
        [] \<Rightarrow> no_selection
      | i # is \<Rightarrow> \<lparr>sn_selected = uniq ordered, sn_anchor = Some i,
                  sn_cursor = (if listed_in ordered (sn_cursor state) then sn_cursor state else Some i)\<rparr>)"

definition pruneNoteSelection :: "note_selection \<Rightarrow> string list \<Rightarrow> note_selection" where
  "pruneNoteSelection state ordered =
     \<lparr>sn_selected = filter (\<lambda>i. i \<in> set ordered) (sn_selected state),
      sn_anchor = (if listed_in ordered (sn_anchor state) then sn_anchor state else None),
      sn_cursor = (if listed_in ordered (sn_cursor state) then sn_cursor state else None)\<rparr>"

definition last_removed :: "string list \<Rightarrow> string list \<Rightarrow> nat option" where
  "last_removed ordered removed =
     map_option (\<lambda>k. length ordered - 1 - k) (find_index (\<lambda>i. i \<in> set removed) (List.rev ordered))"

definition successor_of :: "string list \<Rightarrow> string list \<Rightarrow> nat \<Rightarrow> string option" where
  "successor_of ordered removed k =
     (case List.find (\<lambda>i. i \<notin> set removed) (drop (Suc k) ordered) of
        Some i \<Rightarrow> Some i
      | None \<Rightarrow> List.find (\<lambda>i. i \<notin> set removed) (List.rev (take k ordered)))"

definition selectionAfterRemoval :: "note_selection \<Rightarrow> string list \<Rightarrow> string list \<Rightarrow> note_selection" where
  "selectionAfterRemoval state ordered removed =
     (let remaining = filter (\<lambda>i. i \<notin> set removed) ordered;
          removedSelected = (\<exists>i \<in> set (sn_selected state). i \<in> set removed)
      in case last_removed ordered removed of
           None \<Rightarrow> pruneNoteSelection state remaining
         | Some k \<Rightarrow>
             if \<not> removedSelected then pruneNoteSelection state remaining
             else (case successor_of ordered removed k of
                     Some i \<Rightarrow> if i \<noteq> [] then only i else no_selection
                   | None \<Rightarrow> no_selection))"

definition arrivedNoteID :: "string list option \<Rightarrow> string list \<Rightarrow> string option" where
  "arrivedNoteID previous nxt =
     (case previous of None \<Rightarrow> None | Some shown \<Rightarrow> List.find (\<lambda>i. i \<notin> set shown) (List.rev nxt))"

definition dragNoteIDs :: "string \<Rightarrow> string list \<Rightarrow> string list" where
  "dragNoteIDs i selected = (if i \<in> set selected then selected else [i])"

subsection \<open>Keys\<close>

record list_key =
  lk_key :: string
  lk_meta :: bool
  lk_ctrl :: bool
  lk_shift :: bool

datatype note_list_action = CopyNotes | SelectAllNotes | DeleteNotes | HandOffNotes | AssignNotes | EditNote | ClearSelection

definition noteListAction :: "list_key \<Rightarrow> bool \<Rightarrow> note_list_action option" where
  "noteListAction e editable =
     (let key = lower (lk_key e); command = (lk_meta e \<or> lk_ctrl e)
      in if editable then None
         else if command \<and> key = ''c'' then Some CopyNotes
         else if command \<and> \<not> lk_shift e \<and> key = ''a'' then Some SelectAllNotes
         else if lk_key e = ''Backspace'' \<or> lk_key e = ''Delete'' then Some DeleteNotes
         else if lk_key e = ''Enter'' then Some HandOffNotes
         else if \<not> command \<and> \<not> lk_shift e \<and> key = ''a'' then Some AssignNotes
         else if \<not> command \<and> \<not> lk_shift e \<and> key = ''e'' then Some EditNote
         else if lk_key e = ''Escape'' then Some ClearSelection
         else None)"

subsection \<open>Choosing an agent\<close>

datatype selector_mode = ModeAssign | ModeDestination

record selector_row =
  sr_value :: string
  sr_label :: string

definition note_activity :: "Note list \<Rightarrow> string list \<Rightarrow> (string, num) jsmap" where
  "note_activity notes live =
     fold (\<lambda>n m. if ngroup n \<in> set live then put (ngroup n) (max (or_else (get m (ngroup n)) 0) (nupdated n)) m else m) notes []"

definition selectorRows :: "(string \<Rightarrow> string \<Rightarrow> int) \<Rightarrow> Note list \<Rightarrow> string list \<Rightarrow> selector_mode \<Rightarrow> selector_row list" where
  "selectorRows collate notes roster mode =
     (let live = sort_by (\<lambda>x y. collate x y \<le> 0) (uniq roster);
          activity = note_activity notes live;
          stamp = (\<lambda>a. or_else (get activity a) 0);
          noted = sort_by (\<lambda>x y. stamp y < stamp x \<or> stamp y = stamp x \<and> collate x y \<le> 0)
            (filter (\<lambda>a. get activity a \<noteq> None) live);
          remaining = filter (\<lambda>a. get activity a = None) live
      in (if mode = ModeAssign then [\<lparr>sr_value = ''general'', sr_label = ''unassigned''\<rparr>] else [])
         @ map (\<lambda>a. \<lparr>sr_value = a, sr_label = a\<rparr>) (noted @ remaining))"

definition sole_group :: "Note list \<Rightarrow> string option" where
  "sole_group notes = (if length (uniq (map ngroup notes)) = 1 then Some (ngroup (hd notes)) else None)"

definition selectorInitialValue :: "Note list \<Rightarrow> selector_row list \<Rightarrow> selector_mode \<Rightarrow> string" where
  "selectorInitialValue selected rows mode =
     (let values = map sr_value rows
      in if mode = ModeAssign
         then (case sole_group selected of Some g \<Rightarrow> if g \<noteq> [] \<and> g \<in> set values then g else ''general'' | None \<Rightarrow> ''general'')
         else let count = (\<lambda>v. if v \<in> set values then length (filter (\<lambda>n. ngroup n = v) selected) else 0);
                  highest = fold max (map (\<lambda>n. count (ngroup n)) selected) 0
              in case List.find (\<lambda>r. count (sr_value r) = highest) rows of
                   Some r \<Rightarrow> sr_value r
                 | None \<Rightarrow> (case rows of r # rs \<Rightarrow> sr_value r | [] \<Rightarrow> []))"

definition filterSelectorRows :: "(string \<Rightarrow> string) \<Rightarrow> (string \<Rightarrow> string \<Rightarrow> bool) \<Rightarrow> selector_row list \<Rightarrow> string \<Rightarrow> selector_row list" where
  "filterSelectorRows fold_case includes rows query =
     (let needle = fold_case (js_trim query)
      in if needle \<noteq> [] then filter (\<lambda>r. includes (fold_case (sr_label r)) needle) rows else rows)"

definition selectorMove :: "selector_row list \<Rightarrow> string \<Rightarrow> int \<Rightarrow> string" where
  "selectorMove rows highlighted direction =
     (if rows = [] then []
      else let n = int (length rows);
               index = (case find_index (\<lambda>r. sr_value r = highlighted) rows of
                   None \<Rightarrow> if direction = 1 then 0 else n - 1
                 | Some i \<Rightarrow> (int i + direction + n) mod n)
           in sr_value (rows ! nat index))"

definition selectorBackspace :: "string \<Rightarrow> string \<Rightarrow> selector_mode \<Rightarrow> bool \<times> string" where
  "selectorBackspace query highlighted mode =
     (if query \<noteq> [] \<or> mode \<noteq> ModeAssign then (False, highlighted) else (True, ''general''))"

subsection \<open>Handing off\<close>

datatype hand_off_route = DirectTo string | ChooseFrom string

definition handOffRoute :: "Note list \<Rightarrow> string list \<Rightarrow> hand_off_route" where
  "handOffRoute notes liveOrder =
     (let rows = map (\<lambda>v. \<lparr>sr_value = v, sr_label = v\<rparr>) liveOrder;
          choose_from = ChooseFrom (selectorInitialValue notes rows ModeDestination)
      in case sole_group notes of
           Some g \<Rightarrow> if g \<noteq> [] \<and> g \<in> set liveOrder then DirectTo g else choose_from
         | None \<Rightarrow> choose_from)"

definition plan_group ::
    "(string, Note list) jsmap \<Rightarrow> string list \<Rightarrow> string \<times> bool \<Rightarrow> (string \<times> Note list) list \<times> nat \<Rightarrow> (string \<times> Note list) list \<times> nat" where
  "plan_group notesByGroup live p plan =
     (let notes = or_else (get notesByGroup (fst p)) []
      in if notes = [] then plan
         else if fst p = ''general'' \<or> snd p \<or> fst p \<notin> set live then (fst plan, snd plan + length notes)
         else (fst plan @ [(fst p, notes)], snd plan))"

definition sendAllPlan ::
    "(string \<times> bool) list \<Rightarrow> (string, Note list) jsmap \<Rightarrow> string list \<Rightarrow> (string \<times> Note list) list \<times> nat" where
  "sendAllPlan groups notesByGroup live = fold (plan_group notesByGroup live) groups ([], 0)"

definition notesFocusLanding :: "note_selection \<Rightarrow> Note list \<Rightarrow> string \<Rightarrow> string option" where
  "notesFocusLanding state notes agent =
     (if listed_in (map nid notes) (sn_cursor state) then sn_cursor state
      else case List.find (\<lambda>n. ngroup n = agent) (List.rev notes) of
             Some n \<Rightarrow> Some (nid n)
           | None \<Rightarrow> (if notes = [] then None else Some (nid (last notes))))"

definition notesFocusSelection :: "note_selection \<Rightarrow> Note list \<Rightarrow> string \<Rightarrow> note_selection option" where
  "notesFocusSelection state notes agent =
     (case notesFocusLanding state notes agent of
        Some i \<Rightarrow> if i \<noteq> [] then Some (selectionAll (state\<lparr>sn_cursor := Some i\<rparr>) (map nid notes)) else None
      | None \<Rightarrow> None)"

subsection \<open>Capturing\<close>

record capture_key =
  ck_key :: string
  ck_meta :: bool
  ck_ctrl :: bool
  ck_shift :: bool
  ck_composing :: bool

datatype capture_action = CaptureQueue | CaptureSend | CaptureAppend

definition noteTextSubmitAction :: "capture_key \<Rightarrow> bool" where
  "noteTextSubmitAction e \<longleftrightarrow> ck_key e = ''Enter'' \<and> \<not> ck_shift e \<and> \<not> ck_composing e"

definition captureSubmitAction :: "capture_key \<Rightarrow> string \<Rightarrow> string \<Rightarrow> bool \<Rightarrow> capture_action option" where
  "captureSubmitAction e grp readOnly live =
     (if \<not> noteTextSubmitAction e then None
      else if \<not> (ck_meta e \<or> ck_ctrl e) \<or> grp = ''general'' then Some CaptureQueue
      else if readOnly \<noteq> [] \<or> \<not> live then Some CaptureAppend else Some CaptureSend)"

text \<open>A selection of the document: whether it is collapsed, and its two ends (a node and an offset).\<close>

definition isRangeSelection :: "(bool \<times> (nat option \<times> num) \<times> (nat option \<times> num)) option \<Rightarrow> bool" where
  "isRangeSelection selection =
     (case selection of Some (collapsed, start, stop) \<Rightarrow> \<not> collapsed \<and> start \<noteq> stop | None \<Rightarrow> False)"

definition isReservedFileResolutionSelection ::
    "(bool \<times> (nat option \<times> num) \<times> (nat option \<times> num)) option \<Rightarrow> ((nat option \<times> num) \<times> (nat option \<times> num)) option \<Rightarrow> bool" where
  "isReservedFileResolutionSelection selection reserved =
     (case (selection, reserved) of (Some (collapsed, ends), Some kept) \<Rightarrow> ends = kept | _ \<Rightarrow> False)"

definition sharedCaptureSurface :: "'n \<Rightarrow> 'n \<Rightarrow> ('n \<Rightarrow> 's option) \<Rightarrow> 's option" where
  "sharedCaptureSurface start stop resolve =
     (if resolve start \<noteq> None \<and> resolve start = resolve stop then resolve start else None)"

definition capturePosition :: "int \<times> int \<Rightarrow> int \<Rightarrow> int \<Rightarrow> int \<times> int" where
  "capturePosition corner width height =
     (max 8 (min (fst corner) (width - 340)), max 8 (min (snd corner + 6) (height - 328)))"

subsection \<open>The selection follows the list\<close>

definition selection_ok :: "string list \<Rightarrow> note_selection \<Rightarrow> bool" where
  "selection_ok ordered s \<longleftrightarrow> distinct ordered \<and> [] \<notin> set ordered \<and>
     distinct (sn_selected s) \<and> set (sn_selected s) \<subseteq> set ordered \<and>
     set_option (sn_anchor s) \<subseteq> set ordered \<and> set_option (sn_cursor s) \<subseteq> set ordered"

text \<open>The list on screen and its selection: clicks, arrows, removals, and whatever else changes the list.\<close>

inductive list_run :: "string list \<Rightarrow> note_selection \<Rightarrow> bool" where
  shown: "distinct ordered \<Longrightarrow> [] \<notin> set ordered \<Longrightarrow> list_run ordered no_selection"
| clicked: "list_run ordered s \<Longrightarrow> i \<in> set ordered \<Longrightarrow> list_run ordered (selectionAfterClick s ordered i command shift)"
| arrowed: "list_run ordered s \<Longrightarrow> list_run ordered (selectionAfterArrow s ordered direction stretch)"
| took_all: "list_run ordered s \<Longrightarrow> list_run ordered (selectionAll s ordered)"
| focused: "list_run ordered s \<Longrightarrow> map nid notes = ordered \<Longrightarrow> notesFocusSelection s notes agent = Some t \<Longrightarrow> list_run ordered t"
| removed_notes: "list_run ordered s \<Longrightarrow> list_run (filter (\<lambda>i. i \<notin> set removed) ordered) (selectionAfterRemoval s ordered removed)"
| changed: "list_run ordered s \<Longrightarrow> distinct later \<Longrightarrow> [] \<notin> set later \<Longrightarrow> list_run later (pruneNoteSelection s later)"
| cleared: "list_run ordered s \<Longrightarrow> list_run ordered no_selection"

lemma listed_in_iff: "[] \<notin> set ordered \<Longrightarrow> listed_in ordered x \<longleftrightarrow> (\<exists>i. x = Some i \<and> i \<in> set ordered)"
  by (cases x) (auto simp: listed_in_def)

lemma find_index_at:
  assumes "x \<in> set xs"
  obtains k where "find_index (\<lambda>y. y = x) xs = Some k" "k < length xs" "xs ! k = x"
proof -
  obtain k where k: "find_index (\<lambda>y. y = x) xs = Some k" using assms find_index_None [of "\<lambda>y. y = x" xs] by fastforce
  then show ?thesis using that find_index_Some [OF k] by blast
qed

lemma slice_set:
  "m \<le> n \<Longrightarrow> n < length xs \<Longrightarrow> set (take (n + 1 - m) (drop m xs)) = {xs ! k | k. m \<le> k \<and> k \<le> n}"
proof (intro equalityI subsetI)
  fix x assume mn: "m \<le> n" "n < length xs" and "x \<in> {xs ! k | k. m \<le> k \<and> k \<le> n}"
  then obtain k where k: "x = xs ! k" "m \<le> k" "k \<le> n" by blast
  then have "take (n + 1 - m) (drop m xs) ! (k - m) = x" "k - m < length (take (n + 1 - m) (drop m xs))"
    using mn by simp_all
  then show "x \<in> set (take (n + 1 - m) (drop m xs))" by (metis nth_mem)
next
  fix x assume mn: "m \<le> n" "n < length xs" and "x \<in> set (take (n + 1 - m) (drop m xs))"
  then obtain k where "k < n + 1 - m" "x = xs ! (m + k)" by (auto simp: in_set_conv_nth)
  then show "x \<in> {xs ! k | k. m \<le> k \<and> k \<le> n}" by (intro CollectI exI [of _ "m + k"]) auto
qed

lemma id_range_set:
  assumes "i < length ordered" "j < length ordered" "distinct ordered"
  shows "set (id_range ordered (ordered ! i) (ordered ! j)) = {ordered ! k | k. min i j \<le> k \<and> k \<le> max i j}"
proof -
  have f: "find_index (\<lambda>y. y = ordered ! k) ordered = Some k" if k: "k < length ordered" for k
  proof -
    obtain l where l: "find_index (\<lambda>y. y = ordered ! k) ordered = Some l" "l < length ordered" "ordered ! l = ordered ! k"
      using find_index_at [of "ordered ! k" ordered] k nth_mem by blast
    then show ?thesis using assms(3) k by (simp add: nth_eq_iff_index_eq)
  qed
  show ?thesis unfolding id_range_def f [OF assms(1)] f [OF assms(2)]
    using slice_set [of "min i j" "max i j" ordered] assms(1,2) by simp
qed

lemma id_range_ok: "b \<in> set ordered \<Longrightarrow> distinct (id_range ordered a b) \<and> set (id_range ordered a b) \<subseteq> set ordered"
  unfolding id_range_def by (auto split: option.split dest: in_set_takeD in_set_dropD)

lemma only_ok: "distinct ordered \<Longrightarrow> [] \<notin> set ordered \<Longrightarrow> i \<in> set ordered \<Longrightarrow> selection_ok ordered (only i)"
  by (simp add: selection_ok_def only_def)

lemma none_ok: "distinct ordered \<Longrightarrow> [] \<notin> set ordered \<Longrightarrow> selection_ok ordered no_selection"
  by (simp add: selection_ok_def no_selection_def)

lemma click_ok:
  assumes "selection_ok ordered s" "i \<in> set ordered"
  shows "selection_ok ordered (selectionAfterClick s ordered i command shift)"
  using assms id_range_ok [OF assms(2)] only_ok [of ordered i]
  by (auto simp: selection_ok_def selectionAfterClick_def Let_def listed_in_iff)

lemma arrow_ok:
  assumes "selection_ok ordered s"
  shows "selection_ok ordered (selectionAfterArrow s ordered direction stretch)"
proof (cases "ordered = []")
  case False
  obtain c where c: "c \<in> set ordered" "selectionAfterArrow s ordered direction stretch =
      (if \<not> stretch then only c
       else let a = (if listed_in ordered (sn_anchor s) then the (sn_anchor s) else c)
            in \<lparr>sn_selected = id_range ordered a c, sn_anchor = Some a, sn_cursor = Some c\<rparr>)"
  proof -
    define k where "k = nat (max 0 (min (int (length ordered) - 1)
      ((if listed_in ordered (sn_cursor s) then int (the (find_index (\<lambda>i. i = the (sn_cursor s)) ordered))
        else if direction > 0 then - 1 else int (length ordered)) + direction)))"
    have "k < length ordered" using False unfolding k_def by (cases ordered) auto
    then have "ordered ! k \<in> set ordered" by simp
    then show ?thesis
      using that [of "ordered ! k"] False unfolding selectionAfterArrow_def Let_def k_def by simp
  qed
  then show ?thesis using assms id_range_ok [OF c(1)] only_ok [of ordered c]
    by (auto simp: selection_ok_def Let_def listed_in_iff)
qed (use assms in \<open>simp add: selectionAfterArrow_def\<close>)

lemma all_ok: "selection_ok ordered s \<Longrightarrow> selection_ok ordered (selectionAll t ordered)"
  by (auto simp: selection_ok_def selectionAll_def no_selection_def listed_in_def split: list.split option.splits)

lemma prune_ok:
  "distinct later \<Longrightarrow> [] \<notin> set later \<Longrightarrow> selection_ok ordered s \<Longrightarrow> selection_ok later (pruneNoteSelection s later)"
  by (auto simp: selection_ok_def pruneNoteSelection_def listed_in_def split: option.splits)

text \<open>What is selected after a removal.\<close>

lemma last_removed_Some:
  assumes "last_removed ordered removed = Some k"
  shows "k < length ordered" "ordered ! k \<in> set removed" "\<And>j. k < j \<Longrightarrow> j < length ordered \<Longrightarrow> ordered ! j \<notin> set removed"
proof -
  obtain m where m: "find_index (\<lambda>i. i \<in> set removed) (List.rev ordered) = Some m" "k = length ordered - 1 - m"
    using assms by (auto simp: last_removed_def)
  have f: "m < length ordered" "List.rev ordered ! m \<in> set removed" "\<And>j. j < m \<Longrightarrow> List.rev ordered ! j \<notin> set removed"
    using find_index_Some [OF m(1)] by simp_all
  show "k < length ordered" using m(2) f(1) by simp
  show "ordered ! k \<in> set removed" using f(1,2) m(2) by (simp add: rev_nth)
  fix j assume j: "k < j" "j < length ordered"
  then have "length ordered - 1 - j < m" using m(2) f(1) by linarith
  then show "ordered ! j \<notin> set removed" using f(3) [of "length ordered - 1 - j"] j by (simp add: rev_nth)
qed

lemma last_removed_None: "last_removed ordered removed = None \<longleftrightarrow> (\<forall>i \<in> set ordered. i \<notin> set removed)"
  by (simp add: last_removed_def find_index_None)

lemma find_rev_last: "List.find P (List.rev xs) = (if filter P xs = [] then None else Some (last (filter P xs)))"
  by (induction xs rule: rev_induct) auto

lemma find_all: "\<forall>x \<in> set xs. P x \<Longrightarrow> List.find P xs = (case xs of [] \<Rightarrow> None | x # _ \<Rightarrow> Some x)"
  by (cases xs) simp_all

lemma successor_at:
  assumes "last_removed ordered removed = Some k"
  shows "successor_of ordered removed k =
    (if Suc k < length ordered then Some (ordered ! Suc k)
     else if filter (\<lambda>i. i \<notin> set removed) ordered = [] then None else Some (last (filter (\<lambda>i. i \<notin> set removed) ordered)))"
proof -
  note k = last_removed_Some [OF assms]
  have "i \<notin> set removed" if i: "i \<in> set (drop (Suc k) ordered)" for i
  proof -
    obtain j where "j < length ordered - Suc k" "i = ordered ! (Suc k + j)" using i by (auto simp: in_set_conv_nth)
    then show ?thesis using k(3) [of "Suc k + j"] by simp
  qed
  then have a: "List.find (\<lambda>i. i \<notin> set removed) (drop (Suc k) ordered) = (case drop (Suc k) ordered of [] \<Rightarrow> None | x # _ \<Rightarrow> Some x)"
    by (intro find_all) blast
  show ?thesis
  proof (cases "Suc k < length ordered")
    case True
    then have "drop (Suc k) ordered = ordered ! Suc k # drop (Suc (Suc k)) ordered" by (rule Cons_nth_drop_Suc [symmetric])
    then show ?thesis using a True by (simp add: successor_of_def)
  next
    case False
    then have "ordered = take k ordered @ [ordered ! k]" using k(1) by (metis Suc_lessI take_Suc_conv_app_nth take_all not_le le_refl)
    then have "filter (\<lambda>i. i \<notin> set removed) ordered = filter (\<lambda>i. i \<notin> set removed) (take k ordered)"
      using k(2) by (metis (no_types, lifting) append_Nil2 filter.simps filter_append)
    then show ?thesis using a False by (simp add: successor_of_def find_rev_last)
  qed
qed

lemma removal_cases:
  assumes "selection_ok ordered s"
  shows "(if \<exists>i \<in> set (sn_selected s). i \<in> set removed
    then (\<exists>k. last_removed ordered removed = Some k \<and>
      selectionAfterRemoval s ordered removed =
        (if Suc k < length ordered then only (ordered ! Suc k)
         else if filter (\<lambda>i. i \<notin> set removed) ordered = [] then no_selection
         else only (last (filter (\<lambda>i. i \<notin> set removed) ordered))))
    else selectionAfterRemoval s ordered removed = pruneNoteSelection s (filter (\<lambda>i. i \<notin> set removed) ordered))"
proof (cases "\<exists>i \<in> set (sn_selected s). i \<in> set removed")
  case True
  then obtain k where k: "last_removed ordered removed = Some k"
    using assms last_removed_None [of ordered removed] by (auto simp: selection_ok_def)
  have ne: "[] \<notin> set ordered" using assms by (simp add: selection_ok_def)
  have l: "filter (\<lambda>i. i \<notin> set removed) ordered \<noteq> [] \<Longrightarrow> last (filter (\<lambda>i. i \<notin> set removed) ordered) \<noteq> []"
    using ne last_in_set by fastforce
  have "Suc k < length ordered \<Longrightarrow> ordered ! Suc k \<noteq> []" using ne nth_mem by metis
  then show ?thesis using True k l unfolding selectionAfterRemoval_def Let_def k option.case successor_at [OF k] by auto
next
  case False
  then show ?thesis by (auto simp: selectionAfterRemoval_def Let_def split: option.split)
qed

lemma removal_ok:
  assumes "selection_ok ordered s"
  shows "selection_ok (filter (\<lambda>i. i \<notin> set removed) ordered) (selectionAfterRemoval s ordered removed)"
proof -
  let ?r = "filter (\<lambda>i. i \<notin> set removed) ordered"
  have r: "distinct ?r" "[] \<notin> set ?r" using assms by (auto simp: selection_ok_def)
  show ?thesis
  proof (cases "\<exists>i \<in> set (sn_selected s). i \<in> set removed")
    case True
    then obtain k where k: "last_removed ordered removed = Some k" "selectionAfterRemoval s ordered removed =
        (if Suc k < length ordered then only (ordered ! Suc k) else if ?r = [] then no_selection else only (last ?r))"
      using removal_cases [OF assms, of removed] by auto
    have "Suc k < length ordered \<Longrightarrow> ordered ! Suc k \<in> set ?r" using last_removed_Some(3) [OF k(1), of "Suc k"] by simp
    moreover have "?r \<noteq> [] \<Longrightarrow> last ?r \<in> set ?r" by (rule last_in_set)
    ultimately show ?thesis unfolding k(2) using only_ok [OF r] none_ok [OF r]
      by (cases "Suc k < length ordered"; cases "?r = []") (simp_all only: if_True if_False refl simp_thms)
  next
    case False
    then show ?thesis using removal_cases [OF assms, of removed] prune_ok [OF r assms] by simp
  qed
qed

lemma focus_ok: "selection_ok ordered s \<Longrightarrow> map nid notes = ordered \<Longrightarrow> notesFocusSelection s notes agent = Some t \<Longrightarrow> selection_ok ordered t"
  using all_ok by (auto simp: notesFocusSelection_def split: option.splits if_splits)

lemma list_run_ok: "list_run ordered s \<Longrightarrow> selection_ok ordered s"
proof (induction rule: list_run.induct)
  case (cleared ordered s)
  then show ?case using none_ok by (auto simp: selection_ok_def)
qed (auto intro: none_ok click_ok arrow_ok all_ok removal_ok prune_ok dest: focus_ok)

text \<open>
  C40. The selection follows the list. Whatever is clicked, walked, removed or arrives from elsewhere, the selected
  notes are in the list, each once, and so are the cursor and the end a range is stretched from; a shift-click
  selects exactly the notes between that end and the clicked one; and when selected notes are removed exactly one
  note is selected and has the cursor, the one below the last removed or else the last one left, and none only when
  the list is empty, while removing notes that are not selected changes no selection.
\<close>

theorem selection_follows_the_list:
  assumes "list_run ordered s"
  shows "distinct (sn_selected s) \<and> set (sn_selected s) \<subseteq> set ordered \<and>
      set_option (sn_anchor s) \<subseteq> set ordered \<and> set_option (sn_cursor s) \<subseteq> set ordered \<and>
    (\<forall>i j command. i < length ordered \<and> j < length ordered \<and> sn_anchor s = Some (ordered ! i) \<longrightarrow>
       set (sn_selected (selectionAfterClick s ordered (ordered ! j) command True)) = {ordered ! k | k. min i j \<le> k \<and> k \<le> max i j}) \<and>
    (\<forall>removed. let t = selectionAfterRemoval s ordered removed; left = filter (\<lambda>i. i \<notin> set removed) ordered
       in if set removed \<inter> set (sn_selected s) = {} then sn_selected t = sn_selected s
          else if left = [] then t = no_selection
          else (\<exists>k < length ordered. ordered ! k \<in> set removed \<and> (\<forall>j. k < j \<and> j < length ordered \<longrightarrow> ordered ! j \<notin> set removed) \<and>
                 t = only (if Suc k < length ordered then ordered ! Suc k else last left)))"
proof -
  have ok: "selection_ok ordered s" by (rule list_run_ok [OF assms])
  then have d: "distinct ordered" "[] \<notin> set ordered" by (simp_all add: selection_ok_def)
  have click: "set (sn_selected (selectionAfterClick s ordered (ordered ! j) command True)) = {ordered ! k | k. min i j \<le> k \<and> k \<le> max i j}"
    if ij: "i < length ordered" "j < length ordered" "sn_anchor s = Some (ordered ! i)" for i j command
  proof -
    have "listed_in ordered (sn_anchor s)" using ij(1,3) d(2) by (simp add: listed_in_iff)
    then show ?thesis using id_range_set [OF ij(1,2) d(1)] ij(3) by (simp add: selectionAfterClick_def Let_def)
  qed
  have removal: "if set removed \<inter> set (sn_selected s) = {} then sn_selected t = sn_selected s
      else if left = [] then t = no_selection
      else (\<exists>k < length ordered. ordered ! k \<in> set removed \<and> (\<forall>j. k < j \<and> j < length ordered \<longrightarrow> ordered ! j \<notin> set removed) \<and>
             t = only (if Suc k < length ordered then ordered ! Suc k else last left))"
    if t: "t = selectionAfterRemoval s ordered removed" and left: "left = filter (\<lambda>i. i \<notin> set removed) ordered" for removed t left
  proof (cases "set removed \<inter> set (sn_selected s) = {}")
    case True
    then have "\<not> (\<exists>i \<in> set (sn_selected s). i \<in> set removed)" by blast
    then have "t = pruneNoteSelection s left" using removal_cases [OF ok, of removed] unfolding t left by (simp only: if_False)
    moreover have "\<forall>i \<in> set (sn_selected s). i \<in> set left" using ok True unfolding left selection_ok_def by auto
    ultimately show ?thesis using True by (simp add: pruneNoteSelection_def)
  next
    case False
    then have "\<exists>i \<in> set (sn_selected s). i \<in> set removed" by blast
    then obtain k where k: "last_removed ordered removed = Some k"
      "t = (if Suc k < length ordered then only (ordered ! Suc k) else if left = [] then no_selection else only (last left))"
      using removal_cases [OF ok, of removed] unfolding t left by (simp only: if_True) blast
    note last = last_removed_Some [OF k(1)]
    have "Suc k < length ordered \<Longrightarrow> ordered ! Suc k \<in> set left" using last(3) [of "Suc k"] unfolding left by simp
    then have "t = (if left = [] then no_selection else only (if Suc k < length ordered then ordered ! Suc k else last left))"
      unfolding k(2) by auto
    then show ?thesis using False last by auto
  qed
  show ?thesis using ok click removal unfolding selection_ok_def Let_def by blast
qed

theorem selection_follows_the_list_witness:
  "(let ordered = [''a'', ''b'', ''c'', ''d'']; s = selectionAfterArrow (only ''b'') ordered 1 True
    in sn_selected s = [''b'', ''c''] \<and> set (sn_selected s) \<subseteq> set ordered \<and> set_option (sn_cursor s) \<subseteq> set ordered)"
proof -
  let ?o = "[''a'', ''b'', ''c'', ''d'']"
  have "list_run ?o (selectionAfterClick no_selection ?o ''b'' False False)" by (intro list_run.intros) simp_all
  then have "list_run ?o (only ''b'')" by (simp add: selectionAfterClick_def)
  then have run: "list_run ?o (selectionAfterArrow (only ''b'') ?o 1 True)" by (rule list_run.arrowed)
  have "sn_selected (selectionAfterArrow (only ''b'') ?o 1 True) = [''b'', ''c'']" by code_simp
  then show ?thesis using selection_follows_the_list [OF run] unfolding Let_def by blast
qed

subsection \<open>Sending all\<close>

text \<open>Every note is handed off or counted as skipped, and only live agents are handed any.\<close>

definition planned :: "(string \<times> Note list) list \<times> nat \<Rightarrow> nat" where
  "planned plan = sum_list (map (\<lambda>p. length (snd p)) (fst plan)) + snd plan"

lemma plan_group_counts:
  "planned (plan_group notesByGroup live p plan) = planned plan + length (or_else (get notesByGroup (fst p)) [])"
  "(g, notes) \<in> set (fst (plan_group notesByGroup live p plan)) \<Longrightarrow>
     (g, notes) \<in> set (fst plan) \<or> g \<in> set live \<and> g \<noteq> ''general''"
  by (auto simp: plan_group_def planned_def Let_def split: if_splits)

lemma send_all_counts_every_note:
  "planned (sendAllPlan groups notesByGroup live) = sum_list (map (\<lambda>p. length (or_else (get notesByGroup (fst p)) [])) groups)"
  "(g, notes) \<in> set (fst (sendAllPlan groups notesByGroup live)) \<Longrightarrow> g \<in> set live \<and> g \<noteq> ''general''"
proof -
  have "planned (fold (plan_group notesByGroup live) groups plan) =
      planned plan + sum_list (map (\<lambda>p. length (or_else (get notesByGroup (fst p)) [])) groups)" for plan
    by (induction groups arbitrary: plan) (simp_all add: plan_group_counts(1))
  then show "planned (sendAllPlan groups notesByGroup live) = sum_list (map (\<lambda>p. length (or_else (get notesByGroup (fst p)) [])) groups)"
    by (simp add: sendAllPlan_def planned_def)
  have "(g, notes) \<in> set (fst (fold (plan_group notesByGroup live) groups plan)) \<Longrightarrow>
      (g, notes) \<in> set (fst plan) \<or> g \<in> set live \<and> g \<noteq> ''general''" for plan
  proof (induction groups arbitrary: plan)
    case (Cons p groups)
    then show ?case using Cons.IH [of "plan_group notesByGroup live p plan"] plan_group_counts(2) [where p = p and plan = plan]
      unfolding fold.simps comp_def by blast
  qed simp
  then show "(g, notes) \<in> set (fst (sendAllPlan groups notesByGroup live)) \<Longrightarrow> g \<in> set live \<and> g \<noteq> ''general''"
    unfolding sendAllPlan_def by fastforce
qed

end
