(* ===== verification/Spec2Isabelle.thy ===== *)
theory Spec2Isabelle
  imports NotesSync NoteFlows SpacesSync SpacesController SpaceMembersClaims AttentionClaims SidebarLanesClaims SupervisionClaims LensClaims
    StreamClaims FileWatch SendRefresh History LaneSpaces TranscriptClaims Switching Viewing NotesList
begin

text \<open>
  The state of the herder web client (\<^verbatim>\<open>src/tools/herder/web/src\<close>): the notes, the spaces, their
  layouts and their members, as the browser keeps them in its storage and shares them with other browsers
  through the server.

  \<^bold>\<open>The program.\<close> The client is a dock of panels (agents, files, folders, changes) divided into spaces.
  Four kinds of data outlive a page: notes, space definitions and space members are records with a version
  (the time and the id of their last write), mirrored to \<^verbatim>\<open>localStorage\<close> and exchanged by one sync engine, the
  newer version winning; layouts and shell preferences are texts in \<^verbatim>\<open>localStorage\<close> with a last good copy.
  Storage calls may throw at any time (quota, private mode), texts may be corrupt, other tabs write the
  same keys, and rows arrive in any order.

  \<^bold>\<open>Theories and sources\<close> (paths below \<^verbatim>\<open>src/tools/herder/web/src\<close>).

  \<^item> \<^verbatim>\<open>Prelude\<close>, \<^verbatim>\<open>Encoding\<close>, \<^verbatim>\<open>Storage\<close>: the language and the browser. Numbers, \<open>Map\<close> and \<open>Set\<close> in
    insertion order, stable sort, \<open>encodeURIComponent\<close>, JSON values and \<open>JSON.stringify\<close>, and a storage
    whose every call has an outcome (done, threw, lost).
  \<^item> \<^verbatim>\<open>StateVersion\<close>, \<^verbatim>\<open>StateSync\<close>, \<^verbatim>\<open>SyncContract\<close>, \<^verbatim>\<open>SyncProps\<close>: \<^verbatim>\<open>shared/stateVersion.ts\<close> and
    \<^verbatim>\<open>shared/stateSync.ts\<close>. The engine is the record \<open>sync\<close> with one function \<open>sync_event\<close>, one turn of
    the browser's event loop. The locale \<open>versioned\<close> states the order on versions, \<open>sync_contract\<close> what a
    store owes the engine, \<open>sync_engine\<close> an engine over such a store; the runs are the inductive
    \<open>sync_run\<close>, with the rows the server is known to hold as a history variable. \<open>SyncProps\<close> has what holds over any
    store: what a restart reads back of the queue and the cursor (\<open>persisted\<close>, kept by every event), the retry delay,
    the size of the bodies.
  \<^item> \<^verbatim>\<open>StoreBase\<close>, \<^verbatim>\<open>StoreKeys\<close>: records under families of storage keys (locale \<open>store_keys\<close>).
  \<^item> \<^verbatim>\<open>NotesStore\<close>, \<^verbatim>\<open>NotesProps\<close>, \<^verbatim>\<open>NotesDurable\<close>, \<^verbatim>\<open>NotesClaims\<close>, \<^verbatim>\<open>NotesSession\<close>, \<^verbatim>\<open>NotesSync\<close>, \<^verbatim>\<open>NoteFlows\<close>:
    \<^verbatim>\<open>features/notes\<close> (\<^verbatim>\<open>notesStore\<close>, \<^verbatim>\<open>notesSync\<close>, \<^verbatim>\<open>noteQueue\<close>, \<^verbatim>\<open>noteEditModel\<close>, \<^verbatim>\<open>noteHandOff\<close>).
  \<^item> \<^verbatim>\<open>SpacesStore\<close>, \<^verbatim>\<open>SpacesProps\<close>, \<^verbatim>\<open>SpacesOps\<close>, \<^verbatim>\<open>SpacesClaims\<close>, \<^verbatim>\<open>SpacesSync\<close>, \<^verbatim>\<open>SpacesController\<close>:
    \<^verbatim>\<open>features/spaces\<close> (\<^verbatim>\<open>spacesStore\<close>, \<^verbatim>\<open>spacesSync\<close>, \<^verbatim>\<open>spacesControllerModel\<close>).
  \<^item> \<^verbatim>\<open>Panels\<close>, \<^verbatim>\<open>PanelRoutes\<close>: \<^verbatim>\<open>features/workspace/panelRegistryModel.ts\<close> with the ids and file modes it
    rests on: validation, identity, titles, merging and routes of the four kinds of panels. The location the browser
    makes of a path (\<open>pathname_of\<close>, \<open>search_of\<close>) is the URL standard's, with the removal of dot segments.
  \<^item> \<^verbatim>\<open>ShellPrefs\<close>: \<^verbatim>\<open>features/layout/shellPreferences.ts\<close>, \<^verbatim>\<open>features/layout/utilityRailModel.ts\<close> and
    \<^verbatim>\<open>features/spaces/browserRecord.ts\<close>; the locale \<open>last_good_copies\<close> is what a writer of a text with a last
    good copy owes, and it is interpreted for every such writer.
  \<^item> \<^verbatim>\<open>DockLayout\<close>, \<^verbatim>\<open>DockStore\<close>, \<^verbatim>\<open>DockProps\<close>, \<^verbatim>\<open>DockSend\<close>, \<^verbatim>\<open>DockClaims\<close>: \<^verbatim>\<open>features/layout/dockLayout.ts\<close> and
    \<^verbatim>\<open>layoutPersistenceModel.ts\<close>. A layout is a JSON value; the functions on its grid are recursive
    functions on JSON values, terminating by the size of the value.
  \<^item> \<^verbatim>\<open>SpacesModel\<close>: \<^verbatim>\<open>features/spaces/spacesModel.ts\<close>: migration, active space, closed layouts.
  \<^item> \<^verbatim>\<open>SpaceMembers\<close>, \<^verbatim>\<open>SpaceMembersProps\<close>, \<^verbatim>\<open>SpaceMembersClaims\<close>: \<^verbatim>\<open>features/spaces/spaceMembersModel.ts\<close>,
    \<^verbatim>\<open>spaceMembersStore.ts\<close>, \<^verbatim>\<open>spaceMembersSync.ts\<close> and the stored docks of \<^verbatim>\<open>useSpaceMembers.ts\<close>. The locale
    \<open>reconcile_docks\<close> is what the reconciler asks of the docks, interpreted on the stored layouts.
  \<^item> \<^verbatim>\<open>Board\<close>: the fleet as the client receives it (\<^verbatim>\<open>types.ts\<close>, \<^verbatim>\<open>shared/agentStatus.ts\<close>,
    \<^verbatim>\<open>shared/lanePRModel.ts\<close>).
  \<^item> \<^verbatim>\<open>ReadMarkers\<close>, \<^verbatim>\<open>ReadMarkerStore\<close>, \<^verbatim>\<open>ReadMarkerProps\<close>, \<^verbatim>\<open>ReadMarkerClaims\<close>: the read markers of
    \<^verbatim>\<open>features/spaces\<close> (\<^verbatim>\<open>readMarkerModel\<close>, \<^verbatim>\<open>readPositionModel\<close>, \<^verbatim>\<open>readMarkerStore\<close>, \<^verbatim>\<open>readMarkerSync\<close>), whose rows
    are merged and not replaced; \<^verbatim>\<open>Attention\<close>, \<^verbatim>\<open>AttentionClaims\<close>: \<^verbatim>\<open>spaceAttentionModel.ts\<close> and
    \<^verbatim>\<open>features/drafts/draftMarksModel.ts\<close>.
  \<^item> \<^verbatim>\<open>Sidebar\<close>, \<^verbatim>\<open>SidebarProps\<close>, \<^verbatim>\<open>SidebarClaims\<close>, \<^verbatim>\<open>SidebarLanes\<close>, \<^verbatim>\<open>SidebarLanesClaims\<close>:
    \<^verbatim>\<open>features/sidebar/sidebarNodes.ts\<close>, the three views of the fleet as a tree. The locale \<open>forest\<close> is a
    family of rows with at most one parent each; it is interpreted on the managers and on the lanes.
  \<^item> \<^verbatim>\<open>Reach\<close>, \<^verbatim>\<open>SidebarDrops\<close>, \<^verbatim>\<open>QuickOpen\<close>, \<^verbatim>\<open>SupervisionClaims\<close>: drops, folding and renaming in the
    sidebar (\<^verbatim>\<open>reparentModel\<close>, \<^verbatim>\<open>laneDropModel\<close>, \<^verbatim>\<open>sidebarView\<close>, \<^verbatim>\<open>reassignModel\<close>, \<^verbatim>\<open>renameModel\<close>) and the
    palette (\<^verbatim>\<open>features/files/quickOpenModel.ts\<close>).
  \<^item> \<^verbatim>\<open>Lens\<close>, \<^verbatim>\<open>LensClaims\<close>: \<^verbatim>\<open>features/lens\<close> (\<^verbatim>\<open>lensModel\<close>, the reads of \<^verbatim>\<open>cardTextModel\<close> and \<^verbatim>\<open>useCardText\<close>).
  \<^item> \<^verbatim>\<open>JsonText\<close>, \<^verbatim>\<open>FleetStream\<close>, \<^verbatim>\<open>StreamClaims\<close>: \<^verbatim>\<open>stream/useFleetStream.ts\<close>. The event stream is the record
    \<open>fleet_stream\<close> with one function \<open>stream_step\<close> per turn (an event of the source, a timer, the answer of a post,
    new targets); what it asks of the query cache and of the network is a log; a pending timer is a flag. The runs are the inductive
    \<open>stream_run\<close>, whose flag tells whether posts overtaken by the loss of their connection are among them.
    \<open>JSON.parse\<close> is a function on texts here, the inverse of \<open>stringify\<close>.
  \<^item> \<^verbatim>\<open>FileWatch\<close>, \<^verbatim>\<open>SendRefresh\<close>: \<^verbatim>\<open>stream/fileWatchRegistry.ts\<close> and \<^verbatim>\<open>sendRefresh.ts\<close>, each a step relation.
  \<^item> \<^verbatim>\<open>History\<close>: \<^verbatim>\<open>features/layout/historyModel.ts\<close>: entries, replays, and the suppression of entries, a step
    relation \<open>suppressor_run\<close>.
  \<^item> \<^verbatim>\<open>LaneSpaces\<close>: \<^verbatim>\<open>features/spaces/laneSpacesModel.ts\<close>; \<^verbatim>\<open>Switching\<close>: \<^verbatim>\<open>spaceSwitcherModel.ts\<close>, \<^verbatim>\<open>spaceMRU.ts\<close>
    and the session of \<^verbatim>\<open>features/workspace/useSpaceSwitcher.ts\<close>.
  \<^item> \<^verbatim>\<open>Transcript\<close>, \<^verbatim>\<open>TranscriptClaims\<close>: \<^verbatim>\<open>features/transcript\<close> (\<^verbatim>\<open>fencingModel\<close>, \<^verbatim>\<open>cleanView\<close>, \<^verbatim>\<open>cleanRows\<close>) and
    \<^verbatim>\<open>messagePolish.ts\<close>; \<^verbatim>\<open>Viewing\<close>: the dwell (\<^verbatim>\<open>features/spaces/viewingModel.ts\<close>) and the divider.
  \<^item> \<^verbatim>\<open>NotesList\<close>: \<^verbatim>\<open>features/notes\<close> (\<^verbatim>\<open>notesListModel\<close>, \<^verbatim>\<open>notesSelectorModel\<close>, \<^verbatim>\<open>noteCaptureModel\<close>).

  \<^bold>\<open>How state corresponds.\<close> A closure's variables are the fields of a record (\<open>notes_store\<close>,
  \<open>spaces_store\<close>, \<open>members_store\<close>, \<open>sync\<close>); an operation is a function from the state to the state
  and its result. \<open>now\<close> and \<open>randomID\<close> are the argument \<open>env\<close>, one clock value per operation. A refusal is a
  value (\<open>Inl reason\<close>, or \<open>None\<close>); an exception of the storage is an outcome of the call. Listeners are
  logs of what they were told.

  \<^bold>\<open>What the lemmas show.\<close> The invariant and frame lemmas of each store (\<open>inv_intros\<close>, \<open>frame_simps\<close>) carry
  its properties; the sync properties are proved once in the locales and reached through interpretations;
  the layout properties rest on lemmas about pruning (tabs, validity, groups) by computation induction.
  The properties are numbered \<open>C1\<close>, \<open>C2\<close>, and so on, in the text before each theorem.

  \<^bold>\<open>Bounds.\<close> Most recursions are structural or have a measure. Three searches of a graph that may have cycles
  count down a fuel: \<open>place\<close> and \<open>summarise\<close> (the number of rows of the board, enough because a row is placed
  once, \<open>place_enough\<close>) and \<open>visit\<close> (one more than the number of edges, enough by \<open>visit_reaches\<close>); \<open>parse_json\<close>
  counts down the length of the text (enough by \<open>read_stringify\<close>). Storage failures are an arbitrary
  finite list of outcomes, after which calls succeed, so a statement for every list is one for every pattern
  of failures.

  \<^bold>\<open>Simplifications.\<close> Numbers are the integer-valued doubles (with rounding above 2 to the 53), texts are
  UTF-8 byte sequences, and a number in JSON that is not finite has no sign. Unknown fields of records are
  dropped where the code keeps them only to write them back. Whether a query string's bytes are UTF-8 is
  not checked. The order of properties whose names are integers is not JavaScript's. \<open>JSON.parse\<close> of a text
  inside a recovery record, the collation of names, the lower case of a text and the texts of some messages are parameters. Names of
  agents and spaces are not the inherited names of an object (\<open>constructor\<close>, \<open>toString\<close>) where the code looks them
  up in one, except in the panel registry, where they are modelled. Positions on the page are rationals.

  \<^bold>\<open>Not modelled.\<close> The React views and hooks and what they render; the dock library (dockview) and the
  terminal; the controller that wires the parts; the text of an answer on a card of the
  lens (regular expressions over markdown) and the lens's stored preferences (fractional numbers); times of day
  in a locale; the shortcuts, folder views, the cards of a transcript and the composer; the server and
  command line tools (Go), shell scripts, documents, vendored and generated files. The manifest lists them.
\<close>

end
